(* ===== verification/Prelude.thy ===== *)
theory Prelude
  imports Main "HOL-Library.Word"
begin

text \<open>
  The types, status codes and generic lemmas that every component of the development
  shares. Machine integers keep their width: \<open>u8\<close> is \<open>UCHAR\<close>, \<open>u16\<close> is \<open>USHORT\<close>, \<open>u32\<close>
  is \<open>ULONG\<close> (and \<open>STATUS\<close>) of \<^verbatim>\<open>kernel/inc/common.h\<close>. A call of \<open>KeBugCheck\<close> does not
  return: it is the left value of a sum, with the stop code and the first two arguments
  that tell the cases apart.
\<close>

unbundle bit_operations_syntax

type_synonym u8 = "8 word"
type_synonym u16 = "16 word"
type_synonym u32 = "32 word"
type_synonym status = u32

named_theorems status_simps "definitions of the status codes"
named_theorems step_defs "definitions of the operations of a component"
named_theorems frame "which part of the state an operation leaves alone"

subsection \<open>Status codes (common.h)\<close>

definition STATUS_PENDING :: status where "STATUS_PENDING = 0x00000007"
definition STATUS_CACHED :: status where "STATUS_CACHED = 0x00000006"
definition STATUS_ALREADY_FREE :: status where "STATUS_ALREADY_FREE = 0x00000005"
definition STATUS_FINISH_PARSING :: status where "STATUS_FINISH_PARSING = 0x00000004"
definition STATUS_REPARSE :: status where "STATUS_REPARSE = 0x00000003"
definition STATUS_SUCCESS :: status where "STATUS_SUCCESS = 0"
definition STATUS_UNSUCCESSFUL :: status where "STATUS_UNSUCCESSFUL = 0xF0000001"
definition STATUS_INSUFFICIENT_RESOURCES :: status where "STATUS_INSUFFICIENT_RESOURCES = 0xF0000002"
definition STATUS_ACCESS_DENIED :: status where "STATUS_ACCESS_DENIED = 0xF0000003"
definition STATUS_ACCESS_VIOLATION :: status where "STATUS_ACCESS_VIOLATION = 0xF0000004"
definition STATUS_NOT_FOUND :: status where "STATUS_NOT_FOUND = 0xF0000005"
definition STATUS_INVALID_PARAMETER :: status where "STATUS_INVALID_PARAMETER = 0xF0000006"
definition STATUS_PARTIAL_COMPLETION :: status where "STATUS_PARTIAL_COMPLETION = 0xF000000B"
definition STATUS_IN_USE :: status where "STATUS_IN_USE = 0xF000000C"
definition STATUS_INVALID_HANDLE :: status where "STATUS_INVALID_HANDLE = 0xF000000D"
definition STATUS_NOT_SUPPORTED :: status where "STATUS_NOT_SUPPORTED = 0xF000000F"
definition STATUS_BUSY :: status where "STATUS_BUSY = 0xF0000011"
definition STATUS_NO_MEDIA_IN_DEVICE :: status where "STATUS_NO_MEDIA_IN_DEVICE = 0xF0000016"
definition STATUS_NO_MORE_ENTRIES :: status where "STATUS_NO_MORE_ENTRIES = 0xF0000017"
definition STATUS_INVALID_FILE_FOR_IMAGE :: status where "STATUS_INVALID_FILE_FOR_IMAGE = 0xF0000012"
definition STATUS_DELETE_PENDING :: status where "STATUS_DELETE_PENDING = 0xF0000014"
definition STATUS_END_OF_FILE :: status where "STATUS_END_OF_FILE = 0x80000001"

lemmas status_code_defs [status_simps] =
  STATUS_PENDING_def STATUS_CACHED_def STATUS_ALREADY_FREE_def STATUS_FINISH_PARSING_def
  STATUS_REPARSE_def STATUS_SUCCESS_def STATUS_UNSUCCESSFUL_def
  STATUS_INSUFFICIENT_RESOURCES_def STATUS_ACCESS_DENIED_def STATUS_NOT_FOUND_def
  STATUS_INVALID_PARAMETER_def STATUS_PARTIAL_COMPLETION_def STATUS_IN_USE_def
  STATUS_INVALID_HANDLE_def STATUS_NOT_SUPPORTED_def STATUS_NO_MEDIA_IN_DEVICE_def STATUS_BUSY_def STATUS_NO_MORE_ENTRIES_def STATUS_END_OF_FILE_def
  STATUS_ACCESS_VIOLATION_def STATUS_INVALID_FILE_FOR_IMAGE_def STATUS_DELETE_PENDING_def

text \<open>\<open>SUCCESS(Status)\<close> is the macro \<open>((LONG)(Status)>=0)\<close>: the sign bit is clear.\<close>

definition SUCCESS :: "status \<Rightarrow> bool" where
  "SUCCESS s \<longleftrightarrow> 0 \<le> sint s"

lemma SUCCESS_codes [simp]:
  "SUCCESS STATUS_SUCCESS" "SUCCESS STATUS_PENDING" "SUCCESS STATUS_CACHED"
  "SUCCESS STATUS_ALREADY_FREE" "SUCCESS STATUS_FINISH_PARSING" "SUCCESS STATUS_REPARSE"
  "\<not> SUCCESS STATUS_UNSUCCESSFUL" "\<not> SUCCESS STATUS_INSUFFICIENT_RESOURCES"
  "\<not> SUCCESS STATUS_ACCESS_DENIED" "\<not> SUCCESS STATUS_NOT_FOUND"
  "\<not> SUCCESS STATUS_INVALID_PARAMETER" "\<not> SUCCESS STATUS_PARTIAL_COMPLETION"
  "\<not> SUCCESS STATUS_IN_USE" "\<not> SUCCESS STATUS_INVALID_HANDLE" "\<not> SUCCESS STATUS_BUSY"
  "\<not> SUCCESS STATUS_NOT_SUPPORTED" "\<not> SUCCESS STATUS_NO_MEDIA_IN_DEVICE" "\<not> SUCCESS STATUS_NO_MORE_ENTRIES" "\<not> SUCCESS STATUS_END_OF_FILE"
  "\<not> SUCCESS STATUS_ACCESS_VIOLATION" "\<not> SUCCESS STATUS_INVALID_FILE_FOR_IMAGE" "\<not> SUCCESS STATUS_DELETE_PENDING"
  by (simp_all add: SUCCESS_def status_simps)

subsection \<open>Pages and alignment (mm.h, ke.h)\<close>

definition PAGE_SIZE :: u32 where "PAGE_SIZE = 4096"

definition ALIGN_DOWN :: "u32 \<Rightarrow> u32 \<Rightarrow> u32" where
  "ALIGN_DOWN x align = x AND NOT (align - 1)"

definition ALIGN_UP :: "u32 \<Rightarrow> u32 \<Rightarrow> u32" where
  "ALIGN_UP x align = (if x AND (align - 1) \<noteq> 0 then ALIGN_DOWN x align + align else x)"

subsection \<open>Bits of a 32-bit word\<close>

lemma bit_u32_lt: "bit (w :: u32) n \<Longrightarrow> n < 32"
  using bit_imp_le_length [of w n] by simp

lemma unat_of_nat_u32 [simp]: "n < 2 ^ 32 \<Longrightarrow> unat (of_nat n :: u32) = n"
  by (simp add: unat_of_nat)

lemma unat_ucast_u16_u32 [simp]: "unat (ucast (w :: u16) :: u32) = unat w"
  by transfer (simp add: take_bit_nat_eq_self nat_take_bit_eq take_bit_take_bit)

lemma unat_ucast_u8_u32 [simp]: "unat (ucast (w :: u8) :: u32) = unat w"
  by transfer simp

lemma of_nat_div_u32: "m < 2 ^ 32 \<Longrightarrow> n < 2 ^ 32 \<Longrightarrow> of_nat m div of_nat n = (of_nat (m div n) :: u32)"
  by (simp add: word_unat_eq_iff unat_div div_le_dividend [THEN le_less_trans])

lemma of_nat_mod_u32: "m < 2 ^ 32 \<Longrightarrow> n < 2 ^ 32 \<Longrightarrow> of_nat m mod of_nat n = (of_nat (m mod n) :: u32)"
  by (simp add: word_unat_eq_iff unat_mod mod_less_eq_dividend [THEN le_less_trans])

lemma of_nat_eq_0_u32: "m < 2 ^ 32 \<Longrightarrow> (of_nat m :: u32) = 0 \<longleftrightarrow> m = 0"
  by (simp add: word_unat_eq_iff)

lemma unat_minus_one_u32 [simp]: "unat (- 1 :: u32) = 4294967295"
  by (simp add: unsigned_minus_1_eq_mask mask_eq_exp_minus_1)

subsection \<open>Arrays\<close>

lemma set_subset_nth: "set xs \<subseteq> A \<longleftrightarrow> (\<forall>k<length xs. xs ! k \<in> A)"
  by (auto simp: set_conv_nth)

lemma set_list_update_subset: "set xs \<subseteq> A \<Longrightarrow> x \<in> A \<Longrightarrow> set (xs[i := x]) \<subseteq> A"
  using set_update_subset_insert [of xs i x] by blast

subsection \<open>Bugchecks\<close>

text \<open>
  \<open>KeBugCheck StopCode Argument1 Argument2 Argument3 Argument4\<close> stops the system. The
  model keeps all five arguments.
\<close>

datatype bugcheck = BugCheck u32 u32 u32 u32 u32

text \<open>Sequencing of operations that may stop: the left value ends the run.\<close>

definition and_then :: "'e + 'a \<Rightarrow> ('a \<Rightarrow> 'e + 'b) \<Rightarrow> 'e + 'b" where
  "and_then x f = (case x of Inl e \<Rightarrow> Inl e | Inr a \<Rightarrow> f a)"

lemma and_then_simps [simp]: "and_then (Inl e) f = Inl e" "and_then (Inr a) f = f a"
  by (simp_all add: and_then_def)

lemma and_then_cong [fundef_cong]:
  "x = x' \<Longrightarrow> (\<And>a. x' = Inr a \<Longrightarrow> f a = g a) \<Longrightarrow> and_then x f = and_then x' g"
  by (cases x') simp_all

lemma and_then_Inr: "and_then x f = Inr b \<longleftrightarrow> (\<exists>a. x = Inr a \<and> f a = Inr b)"
  by (cases x) auto

lemma unat_neg_nat: "0 < r \<Longrightarrow> r < 2 ^ 32 \<Longrightarrow> unat (- of_nat r :: u32) = 2 ^ 32 - r"
proof -
  assume r: "0 < r" "r < 2 ^ 32"
  have "(of_nat (2 ^ 32 - r) :: u32) = of_nat (2 ^ 32) - of_nat r" using r by (intro of_nat_diff) simp
  also have "(of_nat (2 ^ 32) :: u32) = 0" by simp
  finally have "(- of_nat r :: u32) = of_nat (2 ^ 32 - r)" by simp
  then show ?thesis using r by (simp only: unat_of_nat) simp
qed

end
