(* ===== verification/Bytes.thy ===== *)
theory Bytes
  imports Prelude
begin

text \<open>
  Memory as the code sees it: a function from 32-bit addresses to cells, which wrap around as
  pointers do. Words are stored with the low byte first. The laws say what a read sees after a
  store, at the same place and elsewhere; \<open>outside b n x\<close> says that the address \<open>x\<close> is not among
  the \<open>n\<close> addresses from \<open>b\<close> on.
\<close>

type_synonym 'w mem = "u32 \<Rightarrow> 'w word"

definition rd16 :: "8 mem \<Rightarrow> u32 \<Rightarrow> u16" where
  "rd16 m a = ucast (m a) OR push_bit 8 (ucast (m (a + 1)))"

definition rd32 :: "8 mem \<Rightarrow> u32 \<Rightarrow> u32" where
  "rd32 m a = ucast (rd16 m a) OR push_bit 16 (ucast (rd16 m (a + 2)))"

definition wr16 :: "8 mem \<Rightarrow> u32 \<Rightarrow> u16 \<Rightarrow> 8 mem" where
  "wr16 m a v = m(a := ucast v, a + 1 := ucast (drop_bit 8 v))"

definition wr32 :: "8 mem \<Rightarrow> u32 \<Rightarrow> u32 \<Rightarrow> 8 mem" where
  "wr32 m a v = wr16 (wr16 m a (ucast v)) (a + 2) (ucast (drop_bit 16 v))"

fun store_bytes :: "8 mem \<Rightarrow> u32 \<Rightarrow> u8 list \<Rightarrow> 8 mem" where
  "store_bytes m a [] = m"
| "store_bytes m a (b # bs) = store_bytes (m(a := b)) (a + 1) bs"

text \<open>The addresses of \<open>n\<close> bytes from \<open>a\<close> on.\<close>

definition rng :: "nat \<Rightarrow> nat \<Rightarrow> u32 set" where
  "rng a n = {x. a \<le> unat x \<and> unat x < a + n}"

text \<open>\<open>memset\<close> and \<open>memcpy\<close> of \<open>n\<close> bytes (\<open>memmove\<close> in the source where the ranges overlap).\<close>

definition outside :: "u32 \<Rightarrow> u32 \<Rightarrow> u32 \<Rightarrow> bool" where
  "outside b n x \<longleftrightarrow> n \<le> x - b"

definition memset :: "8 mem \<Rightarrow> u32 \<Rightarrow> u8 \<Rightarrow> u32 \<Rightarrow> 8 mem" where
  "memset m a c n = (\<lambda>x. if outside a n x then m x else c)"

definition memmove :: "8 mem \<Rightarrow> u32 \<Rightarrow> u32 \<Rightarrow> u32 \<Rightarrow> 8 mem" where
  "memmove m dst src n = (\<lambda>x. if outside dst n x then m x else m (src + (x - dst)))"

text \<open>A memory with a text of at most \<open>lim\<close> bytes laid over it.\<close>

definition overlay :: "8 mem \<Rightarrow> u32 \<Rightarrow> nat \<Rightarrow> u8 list \<Rightarrow> 8 mem" where
  "overlay m buf lim tx = (\<lambda>x. if unat (x - buf) < min lim (length tx) then tx ! unat (x - buf) else m x)"

subsection \<open>Reads after stores\<close>

lemma rd16_agree: "m' a = m a \<Longrightarrow> m' (a + 1) = m (a + 1) \<Longrightarrow> rd16 m' a = rd16 m a"
  by (simp add: rd16_def)

lemma rd32_agree:
  assumes "\<And>i. i < 4 \<Longrightarrow> m' (a + of_nat i) = m (a + of_nat i)"
  shows "rd32 m' a = rd32 m a"
proof -
  have "m' a = m a" "m' (a + 1) = m (a + 1)" "m' (a + 2) = m (a + 2)" "m' (a + 3) = m (a + 3)"
    using assms [of 0] assms [of 1] assms [of 2] assms [of 3] by simp_all
  then show ?thesis by (simp add: rd32_def rd16_def add.assoc)
qed

lemma rd16_wr16: "rd16 (wr16 m a v) a = v"
proof (rule bit_word_eqI)
  fix n assume "n < LENGTH(16)"
  then show "bit (rd16 (wr16 m a v) a) n = bit v n"
    by (cases "n < 8") (auto simp: rd16_def wr16_def bit_simps)
qed

lemma wr16_other: "x \<noteq> a \<Longrightarrow> x \<noteq> a + 1 \<Longrightarrow> wr16 m a v x = m x"
  by (simp add: wr16_def)

lemma rd32_wr32: "rd32 (wr32 m a v) a = v"
proof -
  have "rd16 (wr32 m a v) a = ucast v"
    unfolding wr32_def by (subst rd16_agree [of _ _ "wr16 m a (ucast v)"]) (simp_all add: wr16_other rd16_wr16)
  moreover have "rd16 (wr32 m a v) (a + 2) = ucast (drop_bit 16 v)"
    unfolding wr32_def by (rule rd16_wr16)
  moreover have "(ucast (ucast v :: u16) :: u32) OR push_bit 16 (ucast (ucast (drop_bit 16 v) :: u16)) = v"
  proof (rule bit_word_eqI)
    fix n assume "n < LENGTH(32)"
    then show "bit ((ucast (ucast v :: u16) :: u32) OR push_bit 16 (ucast (ucast (drop_bit 16 v) :: u16))) n = bit v n"
      by (cases "n < 16") (auto simp: bit_simps)
  qed
  ultimately show ?thesis by (simp add: rd32_def)
qed

lemma wr32_other: "outside a 4 x \<Longrightarrow> wr32 m a v x = m x"
  by (auto simp: wr32_def wr16_def outside_def word_le_nat_alt)

lemma memset_in: "\<not> outside a n x \<Longrightarrow> memset m a c n x = c"
  by (simp add: memset_def)

lemma memset_out: "outside a n x \<Longrightarrow> memset m a c n x = m x"
  by (simp add: memset_def)

lemma overlay_apply:
  "overlay m buf lim tx x = (let i = unat (x - buf) in if i < min lim (length tx) then tx ! i else m x)"
  by (simp add: overlay_def Let_def)

end
