(* ===== verification/Allocator.thy ===== *)
theory Allocator
  imports Bytes
begin

text \<open>
  The contract of a memory allocator, as its clients see it. \<open>live s\<close> are the blocks that are
  handed out, with the number of bytes the owner may use. A client run is a history of
  allocations, releases of live blocks and stores into live blocks by any number of owners;
  that no step of the others changes what an owner has stored is proved here once.
\<close>

datatype client_op = Alloc u32 | Free u32 | Put u32 u8

inductive client_run ::
    "('s \<Rightarrow> (u32 \<times> nat) set) \<Rightarrow> (u32 \<Rightarrow> u8 \<Rightarrow> 's \<Rightarrow> 's) \<Rightarrow> (u32 \<Rightarrow> 's \<Rightarrow> (u32 \<times> 's) option)
      \<Rightarrow> (u32 \<Rightarrow> 's \<Rightarrow> 's option) \<Rightarrow> u32 \<Rightarrow> 's \<Rightarrow> client_op list \<Rightarrow> 's \<Rightarrow> bool"
  for live :: "'s \<Rightarrow> (u32 \<times> nat) set" and store :: "u32 \<Rightarrow> u8 \<Rightarrow> 's \<Rightarrow> 's"
    and alloc :: "u32 \<Rightarrow> 's \<Rightarrow> (u32 \<times> 's) option" and release :: "u32 \<Rightarrow> 's \<Rightarrow> 's option" and limit :: u32 and s0 :: 's where
  start: "client_run live store alloc release limit s0 [] s0"
| alloc: "client_run live store alloc release limit s0 ops s \<Longrightarrow> n \<le> limit \<Longrightarrow> alloc n s = Some (p, s')
    \<Longrightarrow> client_run live store alloc release limit s0 (Alloc n # ops) s'"
| free: "client_run live store alloc release limit s0 ops s \<Longrightarrow> (p, n) \<in> live s \<Longrightarrow> release p s = Some s'
    \<Longrightarrow> client_run live store alloc release limit s0 (Free p # ops) s'"
| put: "client_run live store alloc release limit s0 ops s \<Longrightarrow> (p, n) \<in> live s \<Longrightarrow> x \<in> rng (unat p) n
    \<Longrightarrow> client_run live store alloc release limit s0 (Put x v # ops) (store x v s)"

text \<open>The operation leaves the block \<open>p\<close> of \<open>n\<close> bytes to its owner.\<close>

fun spares :: "u32 \<Rightarrow> nat \<Rightarrow> client_op \<Rightarrow> bool" where
  "spares p n (Alloc k) \<longleftrightarrow> True"
| "spares p n (Free q) \<longleftrightarrow> q \<noteq> p"
| "spares p n (Put x v) \<longleftrightarrow> x \<notin> rng (unat p) n"

locale allocator =
  fixes inv :: "'s \<Rightarrow> bool"
    and live :: "'s \<Rightarrow> (u32 \<times> nat) set"
    and read :: "'s \<Rightarrow> u32 \<Rightarrow> u8"
    and store :: "u32 \<Rightarrow> u8 \<Rightarrow> 's \<Rightarrow> 's"
    and alloc :: "u32 \<Rightarrow> 's \<Rightarrow> (u32 \<times> 's) option"
    and release :: "u32 \<Rightarrow> 's \<Rightarrow> 's option"
    and limit :: u32
  assumes live_disjoint: "inv s \<Longrightarrow> (p, n) \<in> live s \<Longrightarrow> (q, k) \<in> live s \<Longrightarrow> (p, n) \<noteq> (q, k)
      \<Longrightarrow> p \<noteq> q \<and> rng (unat p) n \<inter> rng (unat q) k = {}"
    and alloc_law: "inv s \<Longrightarrow> sz \<le> limit \<Longrightarrow> \<exists>p s'. alloc sz s = Some (p, s') \<and> inv s'
      \<and> (if p = 0 then live s' = live s else p \<notin> fst ` live s \<and> live s' = insert (p, unat sz) (live s))
      \<and> (\<forall>(q, k)\<in>live s. \<forall>x\<in>rng (unat q) k. read s' x = read s x)"
    and release_law: "inv s \<Longrightarrow> (p, n) \<in> live s \<Longrightarrow> \<exists>s'. release p s = Some s' \<and> inv s'
      \<and> live s' = live s - {(p, n)} \<and> (\<forall>(q, k)\<in>live s'. \<forall>x\<in>rng (unat q) k. read s' x = read s x)"
    and store_law: "inv s \<Longrightarrow> (p, n) \<in> live s \<Longrightarrow> x \<in> rng (unat p) n
      \<Longrightarrow> inv (store x v s) \<and> live (store x v s) = live s \<and> read (store x v s) = (read s)(x := v)"
begin

lemma run_inv:
  assumes "client_run live store alloc release limit s0 ops s" and "inv s0"
  shows "inv s"
  using assms
proof (induction rule: client_run.induct)
  case (alloc ops s n p s')
  then show ?case using alloc_law [of s n] by auto
next
  case (free ops s p n s')
  then show ?case using release_law [of s p n] by auto
next
  case (put ops s p n x v)
  then show ?case using store_law [of s p n x v] by auto
qed simp

text \<open>No history without an operation on its block changes what an owner has stored.\<close>

lemma run_integrity:
  assumes "client_run live store alloc release limit s0 ops s" and "inv s0" and "(p, n) \<in> live s0"
    and "\<forall>c\<in>set ops. spares p n c"
  shows "(p, n) \<in> live s \<and> (\<forall>x\<in>rng (unat p) n. read s x = read s0 x)"
  using assms
proof (induction rule: client_run.induct)
  case (alloc ops s k q s')
  then have "inv s" "(p, n) \<in> live s" "\<forall>x\<in>rng (unat p) n. read s x = read s0 x" using run_inv by auto
  with alloc_law [of s k] alloc.hyps show ?case by (auto split: if_splits)
next
  case (free ops s q k s')
  then have s: "inv s" "(p, n) \<in> live s" "\<forall>x\<in>rng (unat p) n. read s x = read s0 x" "q \<noteq> p" using run_inv by auto
  with release_law [of s q k] free.hyps show ?case by fastforce
next
  case (put ops s q k x v)
  then have s: "inv s" "(p, n) \<in> live s" "\<forall>y\<in>rng (unat p) n. read s y = read s0 y" "x \<notin> rng (unat p) n" using run_inv by auto
  with store_law [of s q k x v] put.hyps show ?case by auto
qed auto

text \<open>And every live block can be released.\<close>

lemma run_release:
  assumes "client_run live store alloc release limit s0 ops s" and "inv s0" and "(p, n) \<in> live s"
  shows "\<exists>s'. release p s = Some s' \<and> inv s'"
  using release_law [OF run_inv [OF assms(1,2)] assms(3)] by blast

end

end
