(* ===== verification/ExHeap.thy ===== *)
theory ExHeap
  imports Allocator
begin

text \<open>
  The kernel heap (\<^verbatim>\<open>kernel/ex.cpp\<close>). Block headers and the data of the blocks are bytes of one
  memory, so that a write past a block changes the header behind it. The three lists (free,
  allocated, memory order) are the lists of block addresses that theory \<open>ListEntry\<close> shows the
  \<open>LIST_ENTRY\<close> operations to implement; the bytes of the link fields are not modelled. The code
  looks at the \<open>BlockType\<close> of the memory-order list head as if it were a block: the byte it finds
  there, four bytes before the head, is the field \<open>HeadType\<close>.
\<close>

subsection \<open>Block headers\<close>

definition HEAP_BLOCK_FREE :: u8 where "HEAP_BLOCK_FREE = 1"
definition HEAP_BLOCK_ALLOCATED :: u8 where "HEAP_BLOCK_ALLOCATED = 2"
definition HEAP_BLOCK_LOCKED :: u8 where "HEAP_BLOCK_LOCKED = 3"
definition ALLOCATED_PADDING :: u8 where "ALLOCATED_PADDING = 0xFE"
definition FREED_PADDING :: u8 where "FREED_PADDING = 0xFD"

definition EX_HEAP_ALIGN :: u32 where "EX_HEAP_ALIGN = 16"
definition sizeof_EHEAP_BLOCK :: u32 where "sizeof_EHEAP_BLOCK = 32"
definition SIZEOF_HEAP_BLOCK :: u32 where "SIZEOF_HEAP_BLOCK = 2"

text \<open>The header is the record of the fields that \<open>hdr\<close> reads from the bytes of the block.\<close>

record ehb =
  Magic1 :: u32
  Size :: u32
  BlockType :: u8
  PaddingSize :: u8
  Cookie :: u16
  Magic2 :: u32

definition hdr :: "8 mem \<Rightarrow> u32 \<Rightarrow> ehb" where
  "hdr m b = \<lparr>Magic1 = rd32 m b, Size = rd32 m (b + 12), BlockType = m (b + 16),
     PaddingSize = m (b + 17), Cookie = rd16 m (b + 18), Magic2 = rd32 m (b + 28)\<rparr>"

definition set_Size :: "u32 \<Rightarrow> u32 \<Rightarrow> 8 mem \<Rightarrow> 8 mem" where "set_Size b v m = wr32 m (b + 12) v"
definition set_BlockType :: "u32 \<Rightarrow> u8 \<Rightarrow> 8 mem \<Rightarrow> 8 mem" where "set_BlockType b v m = m(b + 16 := v)"
definition set_PaddingSize :: "u32 \<Rightarrow> u8 \<Rightarrow> 8 mem \<Rightarrow> 8 mem" where "set_PaddingSize b v m = m(b + 17 := v)"
definition set_Cookie :: "u32 \<Rightarrow> u16 \<Rightarrow> 8 mem \<Rightarrow> 8 mem" where "set_Cookie b v m = wr16 m (b + 18) v"
definition set_Magics :: "u32 \<Rightarrow> u32 \<Rightarrow> 8 mem \<Rightarrow> 8 mem" where "set_Magics b v m = wr32 (wr32 m (b + 28) v) b v"

definition data_of :: "u32 \<Rightarrow> u32" where "data_of b = b + sizeof_EHEAP_BLOCK"
definition block_of :: "u32 \<Rightarrow> u32" where "block_of p = p - sizeof_EHEAP_BLOCK"

subsection \<open>The heap\<close>

record heap =
  Mem :: "8 mem"
  FreeL :: "u32 list"
  AllocL :: "u32 list"
  OrderL :: "u32 list"
  HeapCookie :: u16
  HeadType :: u8
  HeapLock :: bool
  InExGuardedRegion :: bool
  GuardTable :: "u32 \<times> u32"
  GuardEntries :: "u32 list"

text \<open>
  How a heap operation can stop: a bugcheck; spinning on the heap lock; the list head merged as
  if it were a block; a walk that reads the header of a block it has just overwritten; a NULL
  pointer that is written to.
\<close>

datatype heap_stop = HeapBug bugcheck | HeapSpins | ListHeadMerged | OverwrittenHeaderUsed | NullWritten

definition set_mem :: "(8 mem \<Rightarrow> 8 mem) \<Rightarrow> heap \<Rightarrow> heap" where "set_mem f h = h\<lparr>Mem := f (Mem h)\<rparr>"

text \<open>\<open>RemoveEntryList\<close> of a block's \<open>List\<close> takes it from the list that it is in.\<close>

definition unlink_list :: "u32 \<Rightarrow> heap \<Rightarrow> heap" where
  "unlink_list b h = h\<lparr>FreeL := remove1 b (FreeL h), AllocL := remove1 b (AllocL h)\<rparr>"

definition unlink_order :: "u32 \<Rightarrow> heap \<Rightarrow> heap" where
  "unlink_order b h = h\<lparr>OrderL := remove1 b (OrderL h)\<rparr>"

definition add_free :: "u32 \<Rightarrow> heap \<Rightarrow> heap" where "add_free b h = h\<lparr>FreeL := FreeL h @ [b]\<rparr>"
definition add_alloc :: "u32 \<Rightarrow> heap \<Rightarrow> heap" where "add_alloc b h = h\<lparr>AllocL := AllocL h @ [b]\<rparr>"

text \<open>Inserting \<open>nb\<close> behind \<open>b\<close>, and the neighbours of \<open>b\<close> (\<open>None\<close>: the list head).\<close>

fun insert_after :: "'a \<Rightarrow> 'a \<Rightarrow> 'a list \<Rightarrow> 'a list" where
  "insert_after b nb [] = []"
| "insert_after b nb (x # xs) = (if x = b then x # nb # xs else x # insert_after b nb xs)"

fun next_of :: "'a \<Rightarrow> 'a list \<Rightarrow> 'a option" where
  "next_of b (x # y # xs) = (if x = b then Some y else next_of b (y # xs))"
| "next_of b _ = None"

definition prev_of :: "'a \<Rightarrow> 'a list \<Rightarrow> 'a option" where
  "prev_of b xs = next_of b (rev xs)"

definition order_insert :: "u32 \<Rightarrow> u32 \<Rightarrow> heap \<Rightarrow> heap" where
  "order_insert b nb h = h\<lparr>OrderL := insert_after b nb (OrderL h)\<rparr>"

text \<open>The type of a neighbour; the list head has the type that lies before it.\<close>

definition type_at :: "heap \<Rightarrow> u32 option \<Rightarrow> u8" where
  "type_at h c = (case c of None \<Rightarrow> HeadType h | Some b \<Rightarrow> BlockType (hdr (Mem h) b))"

definition ExpAcquireHeapLock :: "heap \<Rightarrow> heap_stop + heap" where
  "ExpAcquireHeapLock h = (if HeapLock h then Inl HeapSpins else Inr (h\<lparr>HeapLock := True\<rparr>))"

definition ExpReleaseHeapLock :: "heap \<Rightarrow> heap" where
  "ExpReleaseHeapLock h = h\<lparr>HeapLock := False\<rparr>"

subsection \<open>Checksums and validity\<close>

definition ExpChecksumBlock :: "u32 \<Rightarrow> 8 mem \<Rightarrow> u32" where
  "ExpChecksumBlock b m =
     (let B = hdr m b in (ucast (PaddingSize B) + ucast (BlockType B) + Size B + ucast (Cookie B)) XOR b)"

definition ExpRecalculateChecksumBlock :: "u32 \<Rightarrow> 8 mem \<Rightarrow> 8 mem" where
  "ExpRecalculateChecksumBlock b m = set_Magics b (ExpChecksumBlock b m) m"

definition EX_KERNEL_HEAP_FAILURE :: u32 where "EX_KERNEL_HEAP_FAILURE = 8"
definition HEAP_BLOCK_VALIDITY_CHECK_FAILED :: u32 where "HEAP_BLOCK_VALIDITY_CHECK_FAILED = 1"
definition HEAP_DOUBLE_FREEING :: u32 where "HEAP_DOUBLE_FREEING = 2"
definition HEAP_LOCKED_BLOCK_FREEING :: u32 where "HEAP_LOCKED_BLOCK_FREEING = 3"
definition HEAP_FREE_BLOCK_REALLOCATING :: u32 where "HEAP_FREE_BLOCK_REALLOCATING = 4"
definition HEAP_DOUBLE_LOCKING :: u32 where "HEAP_DOUBLE_LOCKING = 5"
definition HEAP_FREE_BLOCK_LOCKING :: u32 where "HEAP_FREE_BLOCK_LOCKING = 6"
definition HEAP_NOTLOCKED_BLOCK_UNLOCKING :: u32 where "HEAP_NOTLOCKED_BLOCK_UNLOCKING = 7"
definition HEAP_GUARD_FAILURE :: u32 where "HEAP_GUARD_FAILURE = 8"
definition HEAP_VALIDATION_COOKIE_MISMATCH :: u32 where "HEAP_VALIDATION_COOKIE_MISMATCH = 1"
definition HEAP_VALIDATION_CHECKSUM_MISMATCH :: u32 where "HEAP_VALIDATION_CHECKSUM_MISMATCH = 2"
definition HEAP_VALIDATION_NO_FREE_PATTERN :: u32 where "HEAP_VALIDATION_NO_FREE_PATTERN = 3"
definition HEAP_VALIDATION_OVERFLOW_DETECTED :: u32 where "HEAP_VALIDATION_OVERFLOW_DETECTED = 4"
definition HEAP_GUARD_ALREADY_GUARDED :: u32 where "HEAP_GUARD_ALREADY_GUARDED = 1"
definition HEAP_GUARD_NOT_GUARDED :: u32 where "HEAP_GUARD_NOT_GUARDED = 2"
definition HEAP_GUARD_LEAK_DETECTED :: u32 where "HEAP_GUARD_LEAK_DETECTED = 3"

definition heap_bug :: "u32 \<Rightarrow> u32 \<Rightarrow> u32 \<Rightarrow> u32 \<Rightarrow> heap_stop" where
  "heap_bug a1 a2 a3 a4 = HeapBug (BugCheck EX_KERNEL_HEAP_FAILURE a1 a2 a3 a4)"

text \<open>The first of \<open>n\<close> bytes from \<open>a\<close> on that is not \<open>c\<close>.\<close>

definition find_damage :: "8 mem \<Rightarrow> u32 \<Rightarrow> u8 \<Rightarrow> nat \<Rightarrow> u8 option" where
  "find_damage m a c n = map_option (\<lambda>i. m (a + of_nat i)) (find (\<lambda>i. m (a + of_nat i) \<noteq> c) [0..<n])"

definition ExpCheckBlockValid :: "u32 \<Rightarrow> heap \<Rightarrow> heap_stop + unit" where
  "ExpCheckBlockValid b h =
     (let m = Mem h; B = hdr m b; ValidMagic = ExpChecksumBlock b m;
          bad = (\<lambda>why arg. Inl (heap_bug HEAP_BLOCK_VALIDITY_CHECK_FAILED why b arg))
      in if Cookie B \<noteq> HeapCookie h then bad HEAP_VALIDATION_COOKIE_MISMATCH 0
         else if Magic1 B \<noteq> ValidMagic \<or> Magic2 B \<noteq> ValidMagic then bad HEAP_VALIDATION_CHECKSUM_MISMATCH 0
         else if BlockType B = HEAP_BLOCK_ALLOCATED then
           (case find_damage m (data_of b + Size B * EX_HEAP_ALIGN - ucast (PaddingSize B)) ALLOCATED_PADDING
                   (unat (PaddingSize B)) of
              Some x \<Rightarrow> bad HEAP_VALIDATION_OVERFLOW_DETECTED (ucast x)
            | None \<Rightarrow> Inr ())
         else if BlockType B = HEAP_BLOCK_FREE \<and> Size B < 65536 then
           (case find_damage m (data_of b) FREED_PADDING (unat (Size B * EX_HEAP_ALIGN)) of
              Some x \<Rightarrow> bad HEAP_VALIDATION_NO_FREE_PATTERN (ucast x)
            | None \<Rightarrow> Inr ())
         else Inr ())"

definition EXP_WRITE_BLOCK_ALLOC_PADDING :: "u32 \<Rightarrow> 8 mem \<Rightarrow> 8 mem" where
  "EXP_WRITE_BLOCK_ALLOC_PADDING b m =
     memset m (data_of b + Size (hdr m b) * EX_HEAP_ALIGN - ucast (PaddingSize (hdr m b)))
       ALLOCATED_PADDING (ucast (PaddingSize (hdr m b)))"

definition EXP_WRITE_BLOCK_FREED_PADDING :: "u32 \<Rightarrow> 8 mem \<Rightarrow> 8 mem" where
  "EXP_WRITE_BLOCK_FREED_PADDING b m = memset m (data_of b) FREED_PADDING (Size (hdr m b) * EX_HEAP_ALIGN)"

subsection \<open>The guard table\<close>

text \<open>The table of the current thread; an entry 0 (NULL) is unused.\<close>

definition EX_GUARD_TABLE_INITIAL_SIZE :: nat where "EX_GUARD_TABLE_INITIAL_SIZE = 128"

fun replace_first :: "'a \<Rightarrow> 'a \<Rightarrow> 'a list \<Rightarrow> 'a list option" where
  "replace_first old new [] = None"
| "replace_first old new (x # xs) =
     (if x = old then Some (new # xs) else map_option (Cons x) (replace_first old new xs))"

definition ExpLogAllocation :: "u32 \<Rightarrow> heap \<Rightarrow> heap_stop + heap" where
  "ExpLogAllocation b h =
     (case replace_first 0 b (GuardEntries h) of
        Some t \<Rightarrow> Inr (h\<lparr>GuardEntries := t\<rparr>)
      | None \<Rightarrow> Inl (HeapBug (BugCheck 0 0 0 0 0)))"

definition ExpLogFreeing :: "u32 \<Rightarrow> heap \<Rightarrow> heap" where
  "ExpLogFreeing b h =
     (case replace_first b 0 (GuardEntries h) of Some t \<Rightarrow> h\<lparr>GuardEntries := t\<rparr> | None \<Rightarrow> h)"

definition ExpLogRellocation :: "u32 \<Rightarrow> u32 \<Rightarrow> heap \<Rightarrow> heap" where
  "ExpLogRellocation old new h =
     (case replace_first old new (GuardEntries h) of Some t \<Rightarrow> h\<lparr>GuardEntries := t\<rparr> | None \<Rightarrow> h)"

definition log_alloc :: "u32 \<Rightarrow> heap \<Rightarrow> heap_stop + heap" where
  "log_alloc b h = (if InExGuardedRegion h then ExpLogAllocation b h else Inr h)"

definition log_free :: "u32 \<Rightarrow> heap \<Rightarrow> heap" where
  "log_free b h = (if InExGuardedRegion h then ExpLogFreeing b h else h)"

subsection \<open>Allocation\<close>

definition units :: "u32 \<Rightarrow> u32" where "units Size' = ALIGN_UP Size' EX_HEAP_ALIGN div EX_HEAP_ALIGN"

text \<open>The start of both branches: the block is taken, with \<open>pad\<close> bytes of padding.\<close>

definition take_block :: "u32 \<Rightarrow> u8 \<Rightarrow> heap \<Rightarrow> heap" where
  "take_block b pad h =
     add_alloc b (unlink_list b (set_mem (EXP_WRITE_BLOCK_ALLOC_PADDING b \<circ> ExpRecalculateChecksumBlock b
       \<circ> set_PaddingSize b pad \<circ> set_BlockType b HEAP_BLOCK_ALLOCATED) h))"

text \<open>A free block is made at \<open>nb\<close> and inserted behind \<open>b\<close>; its padding size is the byte that is there.\<close>

definition make_free :: "u32 \<Rightarrow> u32 \<Rightarrow> 8 mem \<Rightarrow> u16 \<Rightarrow> 8 mem" where
  "make_free nb n m ck =
     ExpRecalculateChecksumBlock nb (set_BlockType nb HEAP_BLOCK_FREE (set_Cookie nb ck (set_Size nb n m)))"

definition ExpAllocateHeapInBlock :: "u32 \<Rightarrow> u32 \<Rightarrow> heap \<Rightarrow> heap_stop + (u32 \<times> heap)" where
  "ExpAllocateHeapInBlock b Size' h =
     (let nSize = units Size';
          bSize = Size (hdr (Mem h) b);
          Diff = bSize - nSize
      in if Diff \<le> SIZEOF_HEAP_BLOCK then
           let h1 = take_block b (ucast (bSize * EX_HEAP_ALIGN - Size')) h
           in and_then (log_alloc b h1) (\<lambda>h2. Inr (data_of b, h2))
         else
           let Diff' = Diff - SIZEOF_HEAP_BLOCK;
               nb = b + sizeof_EHEAP_BLOCK + nSize * EX_HEAP_ALIGN;
               h1 = take_block b (ucast (nSize * EX_HEAP_ALIGN - Size')) (set_mem (set_Size b nSize) h);
               h2 = order_insert b nb (add_free nb (set_mem (\<lambda>m. make_free nb Diff' m (HeapCookie h1)) h1))
           in and_then (log_alloc b h2) (\<lambda>h3. Inr (data_of b, h3)))"

fun find_ideal :: "u32 list \<Rightarrow> u32 \<Rightarrow> u32 option \<Rightarrow> heap \<Rightarrow> heap_stop + u32 option" where
  "find_ideal [] nSize ideal h = Inr ideal"
| "find_ideal (b # bs) nSize ideal h =
     and_then (ExpCheckBlockValid b h) (\<lambda>_.
       find_ideal bs nSize
         (if Size (hdr (Mem h) b) \<ge> nSize \<and>
             (case ideal of None \<Rightarrow> True | Some i \<Rightarrow> Size (hdr (Mem h) b) < Size (hdr (Mem h) i))
          then Some b else ideal) h)"

definition ExpFindIdealBlock :: "u32 \<Rightarrow> heap \<Rightarrow> heap_stop + u32 option" where
  "ExpFindIdealBlock Size' h = find_ideal (FreeL h) (units Size') None h"

definition ExAllocateHeap :: "bool \<Rightarrow> u32 \<Rightarrow> heap \<Rightarrow> heap_stop + (u32 \<times> heap)" where
  "ExAllocateHeap Paged Size' h =
     and_then (ExpAcquireHeapLock h) (\<lambda>h1.
     and_then (ExpFindIdealBlock Size' h1) (\<lambda>ideal.
       case ideal of
         None \<Rightarrow> Inr (0, ExpReleaseHeapLock h1)
       | Some b \<Rightarrow> and_then (ExpAllocateHeapInBlock b Size' h1) (\<lambda>(p, h2). Inr (p, ExpReleaseHeapLock h2))))"

subsection \<open>Freeing\<close>

text \<open>Merging \<open>c\<close> into the block \<open>b\<close> before it.\<close>

definition absorb :: "u32 \<Rightarrow> u32 \<Rightarrow> heap \<Rightarrow> heap" where
  "absorb b c h =
     log_free c (set_mem (\<lambda>m. memset m c FREED_PADDING sizeof_EHEAP_BLOCK)
       (unlink_order c (unlink_list c
         (set_mem (\<lambda>m. ExpRecalculateChecksumBlock b
            (set_Size b (Size (hdr m b) + (Size (hdr m c) + SIZEOF_HEAP_BLOCK)) m)) h))))"

text \<open>The walk down the memory order, over the blocks that follow \<open>b\<close>: the first neighbour is looked at
  even if it is the list head.\<close>

fun merge_down :: "u32 \<Rightarrow> u32 list \<Rightarrow> heap \<Rightarrow> heap" where
  "merge_down b [] h = h"
| "merge_down b (c # cs) h =
     (if BlockType (hdr (Mem h) c) \<noteq> HEAP_BLOCK_FREE then h else merge_down b cs (absorb b c h))"

definition following :: "'a \<Rightarrow> 'a list \<Rightarrow> 'a list" where
  "following b xs = tl (dropWhile (\<lambda>x. x \<noteq> b) xs)"

text \<open>
  The walk up merges \<open>b\<close> into the block before it, and does not update its variable for \<open>b\<close>: a second
  free block before would be merged with the header of \<open>b\<close>, which has been overwritten.
\<close>

definition merge_up :: "u32 \<Rightarrow> heap \<Rightarrow> heap_stop + heap" where
  "merge_up b h =
     (case prev_of b (OrderL h) of
        None \<Rightarrow> if HeadType h = HEAP_BLOCK_FREE then Inl ListHeadMerged else Inr h
      | Some c \<Rightarrow>
          if BlockType (hdr (Mem h) c) \<noteq> HEAP_BLOCK_FREE then Inr h
          else let h1 = absorb c b h
               in case prev_of c (OrderL h1) of
                    None \<Rightarrow> Inr h1
                  | Some d \<Rightarrow> if BlockType (hdr (Mem h1) d) \<noteq> HEAP_BLOCK_FREE then Inr h1
                              else Inl OverwrittenHeaderUsed)"

definition ExpRebuildFreeBlocks :: "u32 \<Rightarrow> heap \<Rightarrow> heap_stop + heap" where
  "ExpRebuildFreeBlocks b h =
     and_then (ExpCheckBlockValid b h) (\<lambda>_.
       if following b (OrderL h) = [] \<and> HeadType h = HEAP_BLOCK_FREE then Inl ListHeadMerged
       else merge_up b (merge_down b (following b (OrderL h)) h))"

definition ExpFreeHeapBlock :: "u32 \<Rightarrow> heap \<Rightarrow> heap_stop + heap" where
  "ExpFreeHeapBlock b h =
     (let h1 = set_mem (set_BlockType b HEAP_BLOCK_FREE) (log_free b h);
          h2 = add_free b (unlink_list b h1);
          h3 = set_mem (EXP_WRITE_BLOCK_FREED_PADDING b \<circ> ExpRecalculateChecksumBlock b) h2
      in ExpRebuildFreeBlocks b h3)"

definition ExFreeHeap :: "u32 \<Rightarrow> heap \<Rightarrow> heap_stop + heap" where
  "ExFreeHeap Ptr h =
     and_then (ExpAcquireHeapLock h) (\<lambda>h1.
       let b = block_of Ptr; t = BlockType (hdr (Mem h1) b)
       in and_then (ExpCheckBlockValid b h1) (\<lambda>_.
            if t = HEAP_BLOCK_LOCKED then Inl (heap_bug HEAP_LOCKED_BLOCK_FREEING 0 b 0)
            else if t = HEAP_BLOCK_FREE \<or> t = FREED_PADDING then Inl (heap_bug HEAP_DOUBLE_FREEING 0 b (ucast t))
            else map_sum id ExpReleaseHeapLock (ExpFreeHeapBlock b h1)))"

subsection \<open>Locking a block\<close>

definition ExLockHeapBlock :: "u32 \<Rightarrow> heap \<Rightarrow> heap_stop + heap" where
  "ExLockHeapBlock Ptr h =
     and_then (ExpAcquireHeapLock h) (\<lambda>h1.
       let b = block_of Ptr; t = BlockType (hdr (Mem h1) b)
       in if t = HEAP_BLOCK_LOCKED then Inl (heap_bug HEAP_DOUBLE_LOCKING 0 b 0)
          else if t = HEAP_BLOCK_FREE \<or> t = FREED_PADDING then Inl (heap_bug HEAP_FREE_BLOCK_LOCKING 0 b 0)
          else and_then (ExpCheckBlockValid b h1) (\<lambda>_.
            Inr (ExpReleaseHeapLock (set_mem (ExpRecalculateChecksumBlock b \<circ> set_BlockType b HEAP_BLOCK_LOCKED) h1))))"

definition ExUnlockHeapBlock :: "u32 \<Rightarrow> heap \<Rightarrow> heap_stop + heap" where
  "ExUnlockHeapBlock Ptr h =
     and_then (ExpAcquireHeapLock h) (\<lambda>h1.
       let b = block_of Ptr; t = BlockType (hdr (Mem h1) b)
       in if t \<noteq> HEAP_BLOCK_LOCKED then Inl (heap_bug HEAP_NOTLOCKED_BLOCK_UNLOCKING (ucast t) b 0)
          else and_then (ExpCheckBlockValid b h1) (\<lambda>_.
            Inr (ExpReleaseHeapLock (set_mem (ExpRecalculateChecksumBlock b \<circ> set_BlockType b HEAP_BLOCK_ALLOCATED) h1))))"

subsection \<open>Reallocation\<close>

text \<open>
  Moving the header of the free block \<open>nb\<close> to \<open>nb'\<close>: its links are corrected in both lists; \<open>wipe\<close>
  bytes of the old header get the free pattern.
\<close>

definition relink :: "u32 \<Rightarrow> u32 \<Rightarrow> heap \<Rightarrow> heap" where
  "relink nb nb' h =
     (let mv = map (\<lambda>x. if x = nb then nb' else x)
      in h\<lparr>FreeL := mv (FreeL h), AllocL := mv (AllocL h), OrderL := mv (OrderL h)\<rparr>)"

definition move_header :: "u32 \<Rightarrow> u32 \<Rightarrow> u32 \<Rightarrow> 8 mem \<Rightarrow> 8 mem" where
  "move_header nb nb' wipe m = memset (memmove m nb' nb sizeof_EHEAP_BLOCK) nb FREED_PADDING wipe"

definition ExReallocHeap :: "u32 \<Rightarrow> u32 \<Rightarrow> heap \<Rightarrow> heap_stop + (u32 \<times> heap)" where
  "ExReallocHeap Ptr NewSize h =
     and_then (ExpAcquireHeapLock h) (\<lambda>h1.
       let b = block_of Ptr; t = BlockType (hdr (Mem h1) b)
       in if t = HEAP_BLOCK_FREE then Inl (heap_bug HEAP_FREE_BLOCK_REALLOCATING 0 b 0)
          else if t = HEAP_BLOCK_LOCKED then Inl (heap_bug HEAP_LOCKED_BLOCK_FREEING 1 b 0)
          else and_then (ExpCheckBlockValid b h1) (\<lambda>_.
            let bSize = Size (hdr (Mem h1) b); nSize = units NewSize; d = bSize - nSize; dn = nSize - bSize;
                next' = next_of b (OrderL h1);
                ret = (\<lambda>h'. Inr (data_of b, ExpReleaseHeapLock h'))
            in if nSize \<le> bSize \<and> d < SIZEOF_HEAP_BLOCK then
                 ret (set_mem (EXP_WRITE_BLOCK_ALLOC_PADDING b \<circ> ExpRecalculateChecksumBlock b
                   \<circ> set_PaddingSize b (ucast (bSize * EX_HEAP_ALIGN - NewSize))) h1)
               else if nSize \<le> bSize then
                 if type_at h1 next' = HEAP_BLOCK_FREE then
                   (case next' of
                      None \<Rightarrow> Inl ListHeadMerged
                    | Some nb \<Rightarrow>
                        let nb' = nb - d * EX_HEAP_ALIGN;
                            h2 = set_mem (move_header nb nb' sizeof_EHEAP_BLOCK
                              \<circ> set_Size nb (Size (hdr (Mem h1) nb) + d)) (relink nb nb' h1);
                            h3 = set_mem (\<lambda>m. memset m (data_of nb') FREED_PADDING (d * EX_HEAP_ALIGN)) h2
                        in ret (set_mem (ExpRecalculateChecksumBlock nb' \<circ> ExpRecalculateChecksumBlock b
                             \<circ> EXP_WRITE_BLOCK_ALLOC_PADDING b
                             \<circ> set_PaddingSize b (ucast (nSize * EX_HEAP_ALIGN - NewSize)) \<circ> set_Size b nSize) h3))
                 else if d = SIZEOF_HEAP_BLOCK then
                   let h2 = set_mem (EXP_WRITE_BLOCK_ALLOC_PADDING b \<circ> ExpRecalculateChecksumBlock b
                     \<circ> set_PaddingSize b (PaddingSize (hdr (Mem h1) b) + ucast (NewSize - nSize * EX_HEAP_ALIGN))) h1
                   in and_then (ExpCheckBlockValid b h2) (\<lambda>_. ret h2)
                 else
                   let nb = data_of b + nSize * EX_HEAP_ALIGN;
                       h2 = add_free nb (order_insert b nb
                         (set_mem (\<lambda>m. make_free nb (bSize - nSize - SIZEOF_HEAP_BLOCK) m (HeapCookie h1)) h1))
                   in ret (set_mem (EXP_WRITE_BLOCK_FREED_PADDING nb \<circ> ExpRecalculateChecksumBlock b
                        \<circ> EXP_WRITE_BLOCK_ALLOC_PADDING b
                        \<circ> set_PaddingSize b (ucast (nSize * EX_HEAP_ALIGN - NewSize)) \<circ> set_Size b nSize) h2)
               else
                 let grow = (case next' of
                   None \<Rightarrow> False
                 | Some nb \<Rightarrow> type_at h1 next' = HEAP_BLOCK_FREE
                     \<and> Size (hdr (Mem h1) nb) + bSize > nSize + SIZEOF_HEAP_BLOCK)
                 in if next' = None \<and> HeadType h1 = HEAP_BLOCK_FREE then Inl ListHeadMerged
                    else if grow then
                      let nb = the next'; nb' = nb + dn * EX_HEAP_ALIGN;
                          h2 = set_mem (move_header nb nb'
                            (if dn = 1 then sizeof_EHEAP_BLOCK div 2 else sizeof_EHEAP_BLOCK)) (relink nb nb' h1)
                      in ret (set_mem (EXP_WRITE_BLOCK_ALLOC_PADDING b \<circ> ExpRecalculateChecksumBlock nb'
                           \<circ> ExpRecalculateChecksumBlock b
                           \<circ> set_PaddingSize b (ucast (nSize * EX_HEAP_ALIGN - NewSize)) \<circ> set_Size b nSize
                           \<circ> set_Size nb' (Size (hdr (Mem h2) nb') - dn)) h2)
                    else and_then (ExpFindIdealBlock NewSize h1) (\<lambda>ideal.
                      case ideal of
                        None \<Rightarrow> Inr (0, ExpReleaseHeapLock h1)
                      | Some i \<Rightarrow>
                          and_then (ExpAllocateHeapInBlock i NewSize h1) (\<lambda>(NewPtr, h2).
                            let h3 = set_mem (\<lambda>m. memmove m NewPtr Ptr
                                  (Size (hdr m b) * EX_HEAP_ALIGN - ucast (PaddingSize (hdr m b)))) h2;
                                h4 = (if InExGuardedRegion h3 then ExpLogRellocation b i h3 else h3)
                            in and_then (ExpFreeHeapBlock b h4) (\<lambda>h5. Inr (NewPtr, ExpReleaseHeapLock h5))))))"

subsection \<open>Initialisation and guarded regions\<close>

text \<open>\<open>ExInitializeHeap\<close>: \<open>cookie\<close> is what the time-stamp counter gives, \<open>m\<close> the memory before.\<close>

definition ExInitializeHeap :: "u32 \<Rightarrow> u32 \<Rightarrow> u16 \<Rightarrow> u8 \<Rightarrow> 8 mem \<Rightarrow> heap" where
  "ExInitializeHeap ExpHeapArea ExpHeapSize cookie head_type m =
     (let b = ExpHeapArea; n = (ExpHeapSize - sizeof_EHEAP_BLOCK) div EX_HEAP_ALIGN;
          m1 = ExpRecalculateChecksumBlock b (set_Cookie b cookie (set_Size b n (set_BlockType b HEAP_BLOCK_FREE m)))
      in \<lparr>Mem = memset m1 (data_of b) FREED_PADDING (n * EX_HEAP_ALIGN), FreeL = [b], AllocL = [], OrderL = [b],
          HeapCookie = cookie, HeadType = head_type, HeapLock = False, InExGuardedRegion = False,
          GuardTable = (0, 0), GuardEntries = []\<rparr>)"

text \<open>The results of the two allocations are not checked: the table is written to at once.\<close>

definition ExEnterHeapGuardedRegion :: "heap \<Rightarrow> heap_stop + heap" where
  "ExEnterHeapGuardedRegion h =
     (if InExGuardedRegion h then Inl (heap_bug HEAP_GUARD_FAILURE HEAP_GUARD_ALREADY_GUARDED (fst (GuardTable h)) 0)
      else and_then (ExAllocateHeap False 8 h) (\<lambda>(g, h1).
        if g = 0 then Inl NullWritten
        else and_then (ExAllocateHeap False (4 * of_nat EX_GUARD_TABLE_INITIAL_SIZE) h1) (\<lambda>(t, h2).
          if t = 0 then Inl NullWritten
          else Inr (h2\<lparr>InExGuardedRegion := True, GuardTable := (g, t),
                      GuardEntries := replicate EX_GUARD_TABLE_INITIAL_SIZE 0\<rparr>))))"

definition ExLeaveHeapGuardedRegion :: "heap \<Rightarrow> heap_stop + heap" where
  "ExLeaveHeapGuardedRegion h =
     (if \<not> InExGuardedRegion h then Inl (heap_bug HEAP_GUARD_FAILURE HEAP_GUARD_NOT_GUARDED 0 0)
      else case find (\<lambda>e. e \<noteq> 0) (GuardEntries h) of
        Some e \<Rightarrow> Inl (heap_bug HEAP_GUARD_FAILURE HEAP_GUARD_LEAK_DETECTED e 0)
      | None \<Rightarrow>
          and_then (ExFreeHeap (snd (GuardTable h)) (h\<lparr>InExGuardedRegion := False\<rparr>)) (\<lambda>h1.
          and_then (ExFreeHeap (fst (GuardTable h)) h1) (\<lambda>h2.
            Inr (h2\<lparr>GuardTable := (0, 0), GuardEntries := []\<rparr>))))"

subsection \<open>Regions of memory\<close>

definition same_on :: "u32 set \<Rightarrow> 8 mem \<Rightarrow> 8 mem \<Rightarrow> bool" where
  "same_on S m m' \<longleftrightarrow> (\<forall>x\<in>S. m' x = m x)"

lemma inside_rng:
  assumes "unat b + unat n \<le> 2 ^ 32"
  shows "\<not> outside b n x \<longleftrightarrow> x \<in> rng (unat b) (unat n)"
proof -
  have "unat (x - b) < unat n \<longleftrightarrow> unat b \<le> unat x \<and> unat x < unat b + unat n"
  proof (cases "b \<le> x")
    case True
    then have "unat (x - b) = unat x - unat b" "unat b \<le> unat x" by (simp_all add: unat_sub word_le_nat_alt)
    then show ?thesis by auto
  next
    case False
    then have lt: "unat x < unat b" by (simp add: word_le_nat_alt)
    have "unat (x - b) = unat x + 2 ^ 32 - unat b"
      using lt unat_sub_if_size [of x b] by (simp add: word_size)
    with lt assms show ?thesis by (simp add: word_le_nat_alt)
  qed
  then show ?thesis by (simp add: outside_def rng_def word_le_nat_alt not_le)
qed

lemma same_on_trans: "same_on S m m1 \<Longrightarrow> same_on S m1 m2 \<Longrightarrow> same_on S m m2"
  by (simp add: same_on_def)

lemma same_on_mono: "same_on S m m' \<Longrightarrow> T \<subseteq> S \<Longrightarrow> same_on T m m'"
  by (auto simp: same_on_def)

lemma rng_mono: "a \<le> b \<Longrightarrow> b + n \<le> a + k \<Longrightarrow> rng b n \<subseteq> rng a k"
  by (auto simp: rng_def)

lemma rng_disjoint: "a + n \<le> b \<or> b + k \<le> a \<Longrightarrow> rng a n \<inter> rng b k = {}"
  by (auto simp: rng_def)

subsection \<open>Fields of headers\<close>

lemma hdr_cong:
  assumes "\<And>x. \<not> outside b 32 x \<Longrightarrow> m' x = m x"
  shows "hdr m' b = hdr m b"
proof -
  have e: "m' (b + i) = m (b + i)" if "i < 32" for i
    using assms [of "b + i"] that by (simp add: outside_def not_le)
  have r32: "rd32 m' (b + i) = rd32 m (b + i)" if "i < 29" for i
  proof (rule rd32_agree)
    fix j :: nat assume "j < 4"
    then have "i + of_nat j < 32"
      using that by (auto simp: word_less_nat_alt unat_word_ariths(1) unat_of_nat)
    from e [OF this] show "m' (b + i + of_nat j) = m (b + i + of_nat j)" by (simp add: add.assoc)
  qed
  have "rd16 m' (b + 18) = rd16 m (b + 18)"
    using e [of 18] e [of 19] by (intro rd16_agree) (simp_all add: add.assoc)
  then show ?thesis using r32 [of 0] r32 [of 12] r32 [of 28] e [of 16] e [of 17] by (simp add: hdr_def)
qed

lemma set_out:
  assumes "outside b 32 x"
  shows "set_Size b v m x = m x" "set_BlockType b t m x = m x" "set_PaddingSize b t m x = m x"
    "set_Cookie b c m x = m x" "set_Magics b v m x = m x"
proof -
  have n: "x \<noteq> b + i" if "i < 32" for i using assms that by (auto simp: outside_def)
  have o4: "outside (b + i) 4 x" if "i < 29" for i
  proof -
    have "32 \<le> unat (x - b)" using assms by (simp add: outside_def word_le_nat_alt)
    moreover have "unat (x - (b + i)) = unat (x - b) - unat i"
      using that calculation by (simp add: diff_diff_eq [symmetric] unat_sub word_le_nat_alt word_less_nat_alt)
    ultimately show ?thesis using that by (simp add: outside_def word_le_nat_alt word_less_nat_alt)
  qed
  show "set_Size b v m x = m x" "set_BlockType b t m x = m x" "set_PaddingSize b t m x = m x"
    "set_Cookie b c m x = m x" "set_Magics b v m x = m x"
    using n [of 16] n [of 17] n [of 18] n [of 19] o4 [of 0] o4 [of 12] o4 [of 28]
    by (simp_all add: set_Size_def set_BlockType_def set_PaddingSize_def set_Cookie_def set_Magics_def
        wr32_other wr16_other add.assoc)
qed

lemma rd_wr_apart:
  "rd32 (wr32 m (b + 12) v) b = rd32 m b" "rd32 (wr32 m (b + 12) v) (b + 28) = rd32 m (b + 28)"
  "rd32 (wr32 m (b + 28) v) b = rd32 m b" "rd32 (wr32 m (b + 28) v) (b + 12) = rd32 m (b + 12)"
  "rd32 (wr32 m b v) (b + 12) = rd32 m (b + 12)" "rd32 (wr32 m b v) (b + 28) = rd32 m (b + 28)"
  "rd32 (wr16 m (b + 18) c) b = rd32 m b" "rd32 (wr16 m (b + 18) c) (b + 12) = rd32 m (b + 12)"
  "rd32 (wr16 m (b + 18) c) (b + 28) = rd32 m (b + 28)"
  "rd16 (wr32 m (b + 12) v) (b + 18) = rd16 m (b + 18)" "rd16 (wr32 m (b + 28) v) (b + 18) = rd16 m (b + 18)"
  "rd16 (wr32 m b v) (b + 18) = rd16 m (b + 18)"
  "rd32 (m(b + 16 := t)) b = rd32 m b" "rd32 (m(b + 16 := t)) (b + 12) = rd32 m (b + 12)"
  "rd32 (m(b + 16 := t)) (b + 28) = rd32 m (b + 28)" "rd16 (m(b + 16 := t)) (b + 18) = rd16 m (b + 18)"
  "rd32 (m(b + 17 := t)) b = rd32 m b" "rd32 (m(b + 17 := t)) (b + 12) = rd32 m (b + 12)"
  "rd32 (m(b + 17 := t)) (b + 28) = rd32 m (b + 28)" "rd16 (m(b + 17 := t)) (b + 18) = rd16 m (b + 18)"
  by (simp_all add: rd32_def rd16_def wr32_def wr16_def add.assoc)

lemma byte_wr_apart:
  "wr32 m (b + 12) v (b + 16) = m (b + 16)" "wr32 m (b + 12) v (b + 17) = m (b + 17)"
  "wr32 m (b + 28) v (b + 16) = m (b + 16)" "wr32 m (b + 28) v (b + 17) = m (b + 17)"
  "wr32 m b v (b + 16) = m (b + 16)" "wr32 m b v (b + 17) = m (b + 17)"
  "wr16 m (b + 18) c (b + 16) = m (b + 16)" "wr16 m (b + 18) c (b + 17) = m (b + 17)"
  by (simp_all add: wr32_def wr16_def add.assoc)

lemma hdr_set [simp]:
  "hdr (set_Size b v m) b = (hdr m b)\<lparr>Size := v\<rparr>"
  "hdr (set_BlockType b t m) b = (hdr m b)\<lparr>BlockType := t\<rparr>"
  "hdr (set_PaddingSize b t m) b = (hdr m b)\<lparr>PaddingSize := t\<rparr>"
  "hdr (set_Cookie b c m) b = (hdr m b)\<lparr>Cookie := c\<rparr>"
  "hdr (set_Magics b v m) b = (hdr m b)\<lparr>Magic1 := v, Magic2 := v\<rparr>"
  by (simp_all add: hdr_def set_Size_def set_BlockType_def set_PaddingSize_def set_Cookie_def set_Magics_def
      rd32_wr32 rd16_wr16 rd_wr_apart byte_wr_apart)

definition checksum :: "u32 \<Rightarrow> ehb \<Rightarrow> u32" where
  "checksum b B = (ucast (PaddingSize B) + ucast (BlockType B) + Size B + ucast (Cookie B)) XOR b"

lemma ExpChecksumBlock_hdr: "ExpChecksumBlock b m = checksum b (hdr m b)"
  by (simp add: ExpChecksumBlock_def checksum_def Let_def)

lemma hdr_recalc [simp]:
  "hdr (ExpRecalculateChecksumBlock b m) b =
     (hdr m b)\<lparr>Magic1 := checksum b (hdr m b), Magic2 := checksum b (hdr m b)\<rparr>"
  by (simp add: ExpRecalculateChecksumBlock_def ExpChecksumBlock_hdr)

lemma checksum_magics [simp]: "checksum b (B\<lparr>Magic1 := x, Magic2 := y\<rparr>) = checksum b B"
  by (simp add: checksum_def)

lemma recalc_out: "outside b 32 x \<Longrightarrow> ExpRecalculateChecksumBlock b m x = m x"
  by (simp add: ExpRecalculateChecksumBlock_def set_out)

text \<open>A header that a store outside of it leaves alone.\<close>

lemma hdr_apart:
  assumes "\<And>x. outside a n x \<Longrightarrow> m' x = m x" and "unat a + unat n \<le> 2 ^ 32" and "unat b + 32 \<le> 2 ^ 32"
    and "unat b + 32 \<le> unat a \<or> unat a + unat n \<le> unat b"
  shows "hdr m' b = hdr m b"
proof (rule hdr_cong)
  fix x assume "\<not> outside b 32 x"
  then have "x \<in> rng (unat b) 32" using inside_rng [of b 32 x] assms(3) by simp
  then have "x \<notin> rng (unat a) (unat n)" using assms(4) by (auto simp: rng_def)
  then have "outside a n x" using inside_rng [OF assms(2)] by blast
  then show "m' x = m x" by (rule assms(1))
qed

subsection \<open>The invariant\<close>

definition bsize :: "8 mem \<Rightarrow> u32 \<Rightarrow> nat" where "bsize m b = unat (Size (hdr m b))"
definition bend :: "8 mem \<Rightarrow> u32 \<Rightarrow> nat" where "bend m b = unat b + 32 + 16 * bsize m b"
definition bfree :: "8 mem \<Rightarrow> u32 \<Rightarrow> bool" where "bfree m b \<longleftrightarrow> BlockType (hdr m b) = HEAP_BLOCK_FREE"
definition bpad :: "8 mem \<Rightarrow> u32 \<Rightarrow> nat" where "bpad m b = unat (PaddingSize (hdr m b))"

text \<open>The bytes of a block that its owner may use.\<close>

definition usable :: "8 mem \<Rightarrow> u32 \<Rightarrow> nat" where "usable m b = 16 * bsize m b - bpad m b"

definition block_ok :: "u16 \<Rightarrow> 8 mem \<Rightarrow> u32 \<Rightarrow> bool" where
  "block_ok ck m b \<longleftrightarrow>
     (let B = hdr m b
      in Cookie B = ck \<and> Magic1 B = checksum b B \<and> Magic2 B = checksum b B
         \<and> BlockType B \<in> {HEAP_BLOCK_FREE, HEAP_BLOCK_ALLOCATED, HEAP_BLOCK_LOCKED}
         \<and> (if BlockType B = HEAP_BLOCK_FREE
            then \<forall>x\<in>rng (unat b + 32) (16 * bsize m b). m x = FREED_PADDING
            else bpad m b \<le> 16 * bsize m b
              \<and> (\<forall>x\<in>rng (unat b + 32 + usable m b) (bpad m b). m x = ALLOCATED_PADDING)))"

text \<open>The blocks lie one behind the other from \<open>a\<close> to \<open>e\<close>.\<close>

fun tiles :: "8 mem \<Rightarrow> nat \<Rightarrow> u32 list \<Rightarrow> nat \<Rightarrow> bool" where
  "tiles m a [] e \<longleftrightarrow> a = e"
| "tiles m a (b # bs) e \<longleftrightarrow> unat b = a \<and> tiles m (bend m b) bs e"

text \<open>The structure of the heap; and two properties that a merge in progress may lack.\<close>

definition heap_wf :: "nat \<Rightarrow> nat \<Rightarrow> heap \<Rightarrow> bool" where
  "heap_wf a e h \<longleftrightarrow> 0 < a \<and> e < 2 ^ 32 \<and> tiles (Mem h) a (OrderL h) e
     \<and> (\<forall>b\<in>set (OrderL h). block_ok (HeapCookie h) (Mem h) b)
     \<and> distinct (FreeL h) \<and> distinct (AllocL h)
     \<and> set (FreeL h) = {b \<in> set (OrderL h). bfree (Mem h) b}
     \<and> set (AllocL h) = {b \<in> set (OrderL h). \<not> bfree (Mem h) b}"

definition coalesced :: "heap \<Rightarrow> bool" where
  "coalesced h \<longleftrightarrow> successively (\<lambda>b c. \<not> (bfree (Mem h) b \<and> bfree (Mem h) c)) (OrderL h)"

definition heap_ok :: "nat \<Rightarrow> nat \<Rightarrow> heap \<Rightarrow> bool" where
  "heap_ok a e h \<longleftrightarrow> heap_wf a e h \<and> coalesced h \<and> \<not> HeapLock h \<and> HeadType h \<noteq> HEAP_BLOCK_FREE"

lemma bend_ge: "unat b + 32 \<le> bend m b"
  by (simp add: bend_def)

lemma tiles_append: "tiles m a (xs @ ys) e \<longleftrightarrow> (\<exists>q. tiles m a xs q \<and> tiles m q ys e)"
  by (induction xs arbitrary: a) auto

lemma tiles_bounds: "tiles m a xs e \<Longrightarrow> a \<le> e \<and> (\<forall>b\<in>set xs. a \<le> unat b \<and> bend m b \<le> e)"
proof (induction xs arbitrary: a)
  case (Cons b bs)
  from Cons.IH [of "bend m b"] Cons.prems bend_ge [of b m] show ?case by fastforce
qed simp

lemma tiles_distinct: "tiles m a xs e \<Longrightarrow> distinct xs"
proof (induction xs arbitrary: a)
  case (Cons b bs)
  then have t: "tiles m (bend m b) bs e" by simp
  from tiles_bounds [OF this] bend_ge [of b m] have "b \<notin> set bs" by force
  with Cons.IH [OF t] show ?case by simp
qed simp

lemma tiles_cong: "(\<And>b. b \<in> set xs \<Longrightarrow> hdr m' b = hdr m b) \<Longrightarrow> tiles m' a xs e = tiles m a xs e"
  by (induction xs arbitrary: a) (simp_all add: bend_def bsize_def)

lemma hdr_same: "unat b + 32 \<le> 2 ^ 32 \<Longrightarrow> same_on (rng (unat b) 32) m m' \<Longrightarrow> hdr m' b = hdr m b"
  using inside_rng [of b 32] by (intro hdr_cong) (simp add: same_on_def)

lemma block_same:
  assumes "same_on (rng (unat b) (32 + 16 * bsize m b)) m m'" and "bend m b \<le> 2 ^ 32"
  shows "hdr m' b = hdr m b \<and> block_ok ck m' b = block_ok ck m b"
proof -
  have h: "hdr m' b = hdr m b"
    using assms(2) by (intro hdr_same same_on_mono [OF assms(1)] rng_mono) (simp_all add: bend_def)
  have s: "bsize m' b = bsize m b" "bpad m' b = bpad m b" "usable m' b = usable m b"
    by (simp_all add: bsize_def bpad_def usable_def h)
  have f: "rng (unat b + 32) (16 * bsize m b) \<subseteq> rng (unat b) (32 + 16 * bsize m b)"
    by (rule rng_mono) simp_all
  have p: "rng (unat b + 32 + usable m b) (bpad m b) \<subseteq> rng (unat b) (32 + 16 * bsize m b)"
    if "bpad m b \<le> 16 * bsize m b"
    using that by (intro rng_mono) (simp_all add: usable_def)
  have "(\<forall>x\<in>rng (unat b + 32) (16 * bsize m b). m' x = FREED_PADDING)
      = (\<forall>x\<in>rng (unat b + 32) (16 * bsize m b). m x = FREED_PADDING)"
    using f assms(1) unfolding same_on_def by (metis (no_types, lifting) subsetD)
  moreover have "(\<forall>x\<in>rng (unat b + 32 + usable m b) (bpad m b). m' x = ALLOCATED_PADDING)
      = (\<forall>x\<in>rng (unat b + 32 + usable m b) (bpad m b). m x = ALLOCATED_PADDING)" if "bpad m b \<le> 16 * bsize m b"
    using p [OF that] assms(1) unfolding same_on_def by (metis (no_types, lifting) subsetD)
  ultimately show ?thesis unfolding block_ok_def Let_def h s by (auto cong: conj_cong)
qed

text \<open>Blocks outside the changed region stay as they are.\<close>

lemma tiles_same:
  assumes "tiles m a xs e" and "e \<le> 2 ^ 32" and "same_on (rng a (e - a)) m m'"
  shows "tiles m' a xs e \<and> (\<forall>b\<in>set xs. hdr m' b = hdr m b \<and> block_ok ck m' b = block_ok ck m b)"
proof -
  have b: "hdr m' b = hdr m b \<and> block_ok ck m' b = block_ok ck m b" if "b \<in> set xs" for b
  proof (rule block_same)
    have "a \<le> unat b" "bend m b \<le> e" using tiles_bounds [OF assms(1)] that by auto
    then show "bend m b \<le> 2 ^ 32" "same_on (rng (unat b) (32 + 16 * bsize m b)) m m'"
      using assms(2) by (auto intro!: same_on_mono [OF assms(3)] simp: bend_def rng_def)
  qed
  with tiles_cong [of xs m' m] assms(1) show ?thesis by blast
qed

text \<open>The blocks \<open>olds\<close> between \<open>p\<close> and \<open>q\<close> are replaced by the blocks \<open>news\<close>.\<close>

lemma replace_blocks:
  assumes t: "tiles m a (xs @ olds @ ys) e" "e \<le> 2 ^ 32" and p: "tiles m a xs p" "tiles m p olds q"
    and ok: "\<forall>b\<in>set xs \<union> set ys. block_ok ck m b"
    and same: "\<And>x. x \<notin> rng p (q - p) \<Longrightarrow> m' x = m x"
    and new: "tiles m' p news q" "\<forall>b\<in>set news. block_ok ck m' b"
  shows "tiles m' a (xs @ news @ ys) e \<and> (\<forall>b\<in>set (xs @ news @ ys). block_ok ck m' b)
    \<and> (\<forall>b\<in>set xs \<union> set ys. hdr m' b = hdr m b)"
proof -
  obtain p' q' where pq: "tiles m a xs p'" "tiles m p' olds q'" "tiles m q' ys e" using t(1) by (auto simp: tiles_append)
  have "p' = p" using pq(1) p(1) by (induction xs arbitrary: a) auto
  then have "q' = q" using pq(2) p(2) by (induction olds arbitrary: p p') auto
  with pq have ys: "tiles m q ys e" by simp
  note bd = tiles_bounds [OF p(1)] tiles_bounds [OF p(2)] tiles_bounds [OF ys]
  have "same_on (rng a (p - a)) m m'" "same_on (rng q (e - q)) m m'"
    using bd same by (auto simp: same_on_def rng_def)
  from tiles_same [OF p(1) _ this(1), of ck] tiles_same [OF ys t(2) this(2), of ck] bd t(2)
  have "tiles m' a xs p" "\<forall>b\<in>set xs. hdr m' b = hdr m b \<and> block_ok ck m' b = block_ok ck m b"
    "tiles m' q ys e" "\<forall>b\<in>set ys. hdr m' b = hdr m b \<and> block_ok ck m' b = block_ok ck m b" by auto
  with new ok show ?thesis by (auto simp: tiles_append)
qed

subsection \<open>Stores into one block\<close>

lemma unat_data: "unat b + 32 < 2 ^ 32 \<Longrightarrow> unat (data_of b) = unat b + 32"
  by (simp add: data_of_def sizeof_EHEAP_BLOCK_def unat_word_ariths)

lemma unat_scaled: "16 * unat n < 2 ^ 32 \<Longrightarrow> unat (n * EX_HEAP_ALIGN) = 16 * unat n"
  by (simp add: EX_HEAP_ALIGN_def unat_word_ariths mult.commute)

lemma unat_bend: "bend m b < 2 ^ 32 \<Longrightarrow> unat (data_of b + Size (hdr m b) * EX_HEAP_ALIGN) = bend m b"
  using unat_data [of b] unat_scaled [of "Size (hdr m b)"]
  by (simp add: bend_def bsize_def unat_word_ariths)

text \<open>Writing the padding of an allocated block.\<close>

lemma alloc_padding:
  assumes "bend m b < 2 ^ 32" and "bpad m b \<le> 16 * bsize m b"
  shows "EXP_WRITE_BLOCK_ALLOC_PADDING b m x =
    (if x \<in> rng (unat b + 32 + usable m b) (bpad m b) then ALLOCATED_PADDING else m x)"
proof -
  let ?p = "ucast (PaddingSize (hdr m b)) :: u32" and ?e = "data_of b + Size (hdr m b) * EX_HEAP_ALIGN"
  have p: "unat ?p = bpad m b" by (simp add: bpad_def unat_ucast_u8_u32)
  have e: "unat ?e = bend m b" using unat_bend [OF assms(1)] .
  have "?p \<le> ?e" using p e assms(2) by (simp add: word_le_nat_alt bend_def)
  then have u: "unat (?e - ?p) = unat b + 32 + usable m b"
    using p e assms(2) by (simp add: unat_sub bend_def usable_def)
  have "unat (?e - ?p) + unat ?p \<le> 2 ^ 32" using u p assms by (simp add: bend_def usable_def)
  from inside_rng [OF this, of x] show ?thesis
    unfolding u p by (auto simp: EXP_WRITE_BLOCK_ALLOC_PADDING_def memset_def)
qed

lemma free_padding:
  assumes "bend m b < 2 ^ 32"
  shows "EXP_WRITE_BLOCK_FREED_PADDING b m x = (if x \<in> rng (unat b + 32) (16 * bsize m b) then FREED_PADDING else m x)"
proof -
  have u: "unat (data_of b) = unat b + 32" "unat (Size (hdr m b) * EX_HEAP_ALIGN) = 16 * bsize m b"
    using assms unat_data [of b] unat_scaled [of "Size (hdr m b)"] by (simp_all add: bend_def bsize_def)
  have "unat (data_of b) + unat (Size (hdr m b) * EX_HEAP_ALIGN) \<le> 2 ^ 32"
    using assms by (simp add: u bend_def)
  from inside_rng [OF this, of x] show ?thesis
    unfolding u by (auto simp: EXP_WRITE_BLOCK_FREED_PADDING_def memset_def)
qed

text \<open>A store into the header of \<open>b\<close>.\<close>

lemma outside_header: "unat b + 32 \<le> 2 ^ 32 \<Longrightarrow> x \<notin> rng (unat b) 32 \<Longrightarrow> outside b 32 x"
  using inside_rng [of b 32 x] by auto

lemma not_header: "x \<notin> rng (unat b) (32 + n) \<Longrightarrow> x \<notin> rng (unat b) 32"
  by (auto simp: rng_def)

lemma data_not_header: "x \<in> rng (unat b + 32 + k) n \<Longrightarrow> x \<notin> rng (unat b) 32"
  by (auto simp: rng_def)

text \<open>What \<open>take_block\<close> does to the memory.\<close>

definition taken_mem :: "u32 \<Rightarrow> u8 \<Rightarrow> 8 mem \<Rightarrow> 8 mem" where
  "taken_mem b pad = EXP_WRITE_BLOCK_ALLOC_PADDING b \<circ> ExpRecalculateChecksumBlock b
     \<circ> set_PaddingSize b pad \<circ> set_BlockType b HEAP_BLOCK_ALLOCATED"

lemma taken_mem:
  assumes bnd: "bend m b < 2 ^ 32" and pad: "unat pad \<le> 16 * bsize m b"
  defines "m' \<equiv> taken_mem b pad m"
  shows "hdr m' b = (let B = (hdr m b)\<lparr>BlockType := HEAP_BLOCK_ALLOCATED, PaddingSize := pad\<rparr>
      in B\<lparr>Magic1 := checksum b B, Magic2 := checksum b B\<rparr>)"
    and "x \<notin> rng (unat b) (32 + 16 * bsize m b) \<Longrightarrow> m' x = m x"
    and "x \<in> rng (unat b + 32) (16 * bsize m b - unat pad) \<Longrightarrow> m' x = m x"
    and "x \<in> rng (unat b + 32 + (16 * bsize m b - unat pad)) (unat pad) \<Longrightarrow> m' x = ALLOCATED_PADDING"
proof -
  define B where "B = (hdr m b)\<lparr>BlockType := HEAP_BLOCK_ALLOCATED, PaddingSize := pad\<rparr>"
  let ?m = "ExpRecalculateChecksumBlock b (set_PaddingSize b pad (set_BlockType b HEAP_BLOCK_ALLOCATED m))"
  have h: "hdr ?m b = B\<lparr>Magic1 := checksum b B, Magic2 := checksum b B\<rparr>" by (simp add: B_def)
  have s: "bsize ?m b = bsize m b" "bpad ?m b = unat pad" "bend ?m b = bend m b" "usable ?m b = 16 * bsize m b - unat pad"
    by (simp_all add: bsize_def bpad_def bend_def usable_def h)
  have m': "m' y = (if y \<in> rng (unat b + 32 + (16 * bsize m b - unat pad)) (unat pad) then ALLOCATED_PADDING else ?m y)" for y
    unfolding m'_def taken_mem_def using alloc_padding [of ?m b y] bnd pad by (simp add: s)
  have out: "?m y = m y" if "y \<notin> rng (unat b) 32" for y
    using outside_header [OF _ that] bnd by (simp add: recalc_out set_out bend_def)
  have "hdr m' b = hdr ?m b"
  proof (rule hdr_cong)
    fix y assume "\<not> outside b 32 y"
    then have "y \<in> rng (unat b) 32" using inside_rng [of b 32 y] bnd by (simp add: bend_def)
    then have "y \<notin> rng (unat b + 32 + (16 * bsize m b - unat pad)) (unat pad)" by (auto simp: rng_def)
    then show "m' y = ?m y" by (simp add: m')
  qed
  then show "hdr m' b = (let B = (hdr m b)\<lparr>BlockType := HEAP_BLOCK_ALLOCATED, PaddingSize := pad\<rparr>
      in B\<lparr>Magic1 := checksum b B, Magic2 := checksum b B\<rparr>)" using h by (simp add: B_def Let_def)
  show "m' x = m x" if "x \<notin> rng (unat b) (32 + 16 * bsize m b)"
    using that pad not_header [OF that] by (auto simp: m' out) (auto simp: rng_def)
  show "m' x = m x" if "x \<in> rng (unat b + 32) (16 * bsize m b - unat pad)"
    using that data_not_header [of x b 0] by (auto simp: m' out) (auto simp: rng_def)
  show "m' x = ALLOCATED_PADDING" if "x \<in> rng (unat b + 32 + (16 * bsize m b - unat pad)) (unat pad)"
    using that by (simp add: m')
qed

lemma taken_mem_ok:
  assumes bnd: "bend m b < 2 ^ 32" and pad: "unat pad \<le> 16 * bsize m b" and ck: "Cookie (hdr m b) = ck"
  shows "block_ok ck (taken_mem b pad m) b" and "bsize (taken_mem b pad m) b = bsize m b"
    and "bpad (taken_mem b pad m) b = unat pad" and "\<not> bfree (taken_mem b pad m) b"
proof -
  let ?m = "taken_mem b pad m"
  note h = taken_mem(1) [OF bnd pad]
  show s: "bsize ?m b = bsize m b" "bpad ?m b = unat pad" "\<not> bfree ?m b"
    by (simp_all add: bsize_def bpad_def bfree_def h Let_def HEAP_BLOCK_FREE_def HEAP_BLOCK_ALLOCATED_def)
  have "\<forall>x\<in>rng (unat b + 32 + usable ?m b) (bpad ?m b). ?m x = ALLOCATED_PADDING"
    using taken_mem(4) [OF bnd pad] by (simp add: s usable_def)
  moreover have "Cookie (hdr ?m b) = ck" "BlockType (hdr ?m b) = HEAP_BLOCK_ALLOCATED"
    "Magic1 (hdr ?m b) = checksum b (hdr ?m b)" "Magic2 (hdr ?m b) = checksum b (hdr ?m b)"
    using ck by (simp_all add: h Let_def)
  ultimately show "block_ok ck ?m b"
    using s pad by (simp add: block_ok_def Let_def HEAP_BLOCK_FREE_def HEAP_BLOCK_ALLOCATED_def)
qed

subsection \<open>Replacing blocks in the heap\<close>

lemma heap_wf_replace:
  assumes wf: "heap_wf a e h" and o: "OrderL h = xs @ olds @ ys" "OrderL h' = xs @ news @ ys"
    and t: "tiles (Mem h) a xs p" "tiles (Mem h) p olds q" and ck: "HeapCookie h' = HeapCookie h"
    and same: "\<And>x. x \<notin> rng p (q - p) \<Longrightarrow> Mem h' x = Mem h x"
    and new: "tiles (Mem h') p news q" "\<forall>b\<in>set news. block_ok (HeapCookie h) (Mem h') b"
    and dist: "distinct (FreeL h')" "distinct (AllocL h')"
    and fl: "set (FreeL h') = (set (FreeL h) - set olds) \<union> {b \<in> set news. bfree (Mem h') b}"
    and al: "set (AllocL h') = (set (AllocL h) - set olds) \<union> {b \<in> set news. \<not> bfree (Mem h') b}"
  shows "heap_wf a e h' \<and> (\<forall>c\<in>set xs \<union> set ys. hdr (Mem h') c = hdr (Mem h) c)"
proof -
  from wf have w: "0 < a" "e < 2 ^ 32" "tiles (Mem h) a (xs @ olds @ ys) e"
    "\<forall>b\<in>set xs \<union> set ys. block_ok (HeapCookie h) (Mem h) b"
    "set (FreeL h) = {b \<in> set (xs @ olds @ ys). bfree (Mem h) b}"
    "set (AllocL h) = {b \<in> set (xs @ olds @ ys). \<not> bfree (Mem h) b}"
    by (auto simp: heap_wf_def o)
  from replace_blocks [OF w(3) _ t w(4) same new] w(2)
  have r: "tiles (Mem h') a (xs @ news @ ys) e" "\<forall>b\<in>set (xs @ news @ ys). block_ok (HeapCookie h) (Mem h') b"
    "\<forall>b\<in>set xs \<union> set ys. hdr (Mem h') b = hdr (Mem h) b" by auto
  have d: "set olds \<inter> (set xs \<union> set ys) = {}" using tiles_distinct [OF w(3)] by auto
  have f: "bfree (Mem h') b = bfree (Mem h) b" if "b \<in> set xs \<union> set ys" for b
    using r(3) that by (simp add: bfree_def)
  have "set (FreeL h') = {b \<in> set (xs @ news @ ys). bfree (Mem h') b}"
    "set (AllocL h') = {b \<in> set (xs @ news @ ys). \<not> bfree (Mem h') b}"
    unfolding fl al w(5,6) using d f by auto
  with r w(1,2) dist show ?thesis by (simp add: heap_wf_def o ck)
qed

text \<open>A block of the heap and its place.\<close>

lemma heap_wf_split:
  assumes "heap_wf a e h" and "b \<in> set (OrderL h)"
  obtains xs ys where "OrderL h = xs @ b # ys" "b \<notin> set xs" "b \<notin> set ys" "tiles (Mem h) a xs (unat b)"
    "tiles (Mem h) (bend (Mem h) b) ys e" "bend (Mem h) b \<le> e" "bend (Mem h) b < 2 ^ 32" "a \<le> unat b"
    "block_ok (HeapCookie h) (Mem h) b"
proof -
  obtain xs ys where o: "OrderL h = xs @ b # ys" using split_list [OF assms(2)] by blast
  from assms(1) have w: "tiles (Mem h) a (xs @ b # ys) e" "e < 2 ^ 32" "block_ok (HeapCookie h) (Mem h) b"
    using o by (auto simp: heap_wf_def)
  from tiles_distinct [OF w(1)] have "b \<notin> set xs" "b \<notin> set ys" by auto
  moreover from w(1) have "tiles (Mem h) a xs (unat b)" "tiles (Mem h) (bend (Mem h) b) ys e"
    by (auto simp: tiles_append)
  moreover from tiles_bounds [OF w(1)] have "bend (Mem h) b \<le> e" "a \<le> unat b" by auto
  ultimately show thesis using that o w(2,3) by simp
qed

lemma heap_wf_free: "heap_wf a e h \<Longrightarrow> b \<in> set (FreeL h) \<longleftrightarrow> b \<in> set (OrderL h) \<and> bfree (Mem h) b"
  by (simp add: heap_wf_def)

lemma heap_wf_alloc: "heap_wf a e h \<Longrightarrow> b \<in> set (AllocL h) \<longleftrightarrow> b \<in> set (OrderL h) \<and> \<not> bfree (Mem h) b"
  by (simp add: heap_wf_def)

text \<open>Validity checks pass.\<close>

lemma find_damage_none: "(\<And>i. i < n \<Longrightarrow> m (p + of_nat i) = c) \<Longrightarrow> find_damage m p c n = None"
  by (simp add: find_damage_def find_None_iff)

lemma in_rng_add: "unat p + n < 2 ^ 32 \<Longrightarrow> i < n \<Longrightarrow> p + of_nat i \<in> rng (unat p) n"
  by (simp add: rng_def unat_word_ariths(1) unat_of_nat)

lemma valid_passes:
  assumes "block_ok (HeapCookie h) (Mem h) b" and "bend (Mem h) b < 2 ^ 32"
  shows "ExpCheckBlockValid b h = Inr ()"
proof -
  let ?m = "Mem h" and ?B = "hdr (Mem h) b"
  have ok: "Cookie ?B = HeapCookie h" "Magic1 ?B = ExpChecksumBlock b ?m" "Magic2 ?B = ExpChecksumBlock b ?m"
    using assms(1) by (simp_all add: block_ok_def Let_def ExpChecksumBlock_hdr)
  have e: "unat (data_of b + Size ?B * EX_HEAP_ALIGN) = bend ?m b" using unat_bend [OF assms(2)] .
  have "find_damage ?m (data_of b + Size ?B * EX_HEAP_ALIGN - ucast (PaddingSize ?B)) ALLOCATED_PADDING
      (unat (PaddingSize ?B)) = None" if "BlockType ?B = HEAP_BLOCK_ALLOCATED"
  proof (rule find_damage_none)
    fix i assume i: "i < unat (PaddingSize ?B)"
    have p: "bpad ?m b \<le> 16 * bsize ?m b"
      "\<forall>x\<in>rng (unat b + 32 + usable ?m b) (bpad ?m b). ?m x = ALLOCATED_PADDING"
      using assms(1) that by (auto simp: block_ok_def Let_def HEAP_BLOCK_FREE_def HEAP_BLOCK_ALLOCATED_def)
    let ?p = "data_of b + Size ?B * EX_HEAP_ALIGN - ucast (PaddingSize ?B)"
    have "(ucast (PaddingSize ?B) :: u32) \<le> data_of b + Size ?B * EX_HEAP_ALIGN"
      using e p(1) by (simp add: word_le_nat_alt unat_ucast_u8_u32 bpad_def bend_def)
    then have u: "unat ?p = unat b + 32 + usable ?m b"
      using e p(1) by (simp add: unat_sub unat_ucast_u8_u32 bpad_def bend_def usable_def)
    have "unat ?p + bpad ?m b < 2 ^ 32" using u p(1) assms(2) by (simp add: bend_def usable_def)
    from in_rng_add [OF this, of i] i have "?p + of_nat i \<in> rng (unat b + 32 + usable ?m b) (bpad ?m b)"
      unfolding u by (simp add: bpad_def)
    with p(2) show "?m (?p + of_nat i) = ALLOCATED_PADDING" by blast
  qed
  moreover have "find_damage ?m (data_of b) FREED_PADDING (unat (Size ?B * EX_HEAP_ALIGN)) = None"
    if "BlockType ?B = HEAP_BLOCK_FREE"
  proof (rule find_damage_none)
    fix i assume i: "i < unat (Size ?B * EX_HEAP_ALIGN)"
    have u: "unat (data_of b) = unat b + 32" "unat (Size ?B * EX_HEAP_ALIGN) = 16 * bsize ?m b"
      using assms(2) unat_data [of b] unat_scaled [of "Size ?B"] by (simp_all add: bend_def bsize_def)
    have "unat (data_of b) + 16 * bsize ?m b < 2 ^ 32" using assms(2) u by (simp add: bend_def)
    from in_rng_add [OF this, of i] i have "data_of b + of_nat i \<in> rng (unat b + 32) (16 * bsize ?m b)"
      unfolding u by simp
    then show "?m (data_of b + of_nat i) = FREED_PADDING"
      using assms(1) that by (simp add: block_ok_def Let_def)
  qed
  ultimately show ?thesis using ok by (simp add: ExpCheckBlockValid_def Let_def)
qed

lemma wf_valid: "heap_wf a e h \<Longrightarrow> b \<in> set (OrderL h) \<Longrightarrow> ExpCheckBlockValid b h = Inr ()"
  by (erule heap_wf_split, assumption, rule valid_passes)

subsection \<open>Choosing a block\<close>

lemma find_ideal_best:
  assumes "\<forall>b\<in>set bs. ExpCheckBlockValid b h = Inr ()" and "\<And>j. i = Some j \<Longrightarrow> n \<le> Size (hdr (Mem h) j)"
  shows "\<exists>r. find_ideal bs n i h = Inr r \<and>
    (case r of
       None \<Rightarrow> i = None \<and> (\<forall>b\<in>set bs. Size (hdr (Mem h) b) < n)
     | Some x \<Rightarrow> x \<in> set bs \<union> set_option i \<and> n \<le> Size (hdr (Mem h) x)
         \<and> (\<forall>b\<in>set bs \<union> set_option i. n \<le> Size (hdr (Mem h) b) \<longrightarrow> Size (hdr (Mem h) x) \<le> Size (hdr (Mem h) b)))"
  using assms
proof (induction bs arbitrary: i)
  case Nil
  then show ?case by (cases i) auto
next
  case (Cons b bs)
  let ?sz = "\<lambda>b. Size (hdr (Mem h) b)"
  define i' where "i' = (if ?sz b \<ge> n \<and> (case i of None \<Rightarrow> True | Some j \<Rightarrow> ?sz b < ?sz j) then Some b else i)"
  have step: "find_ideal (b # bs) n i h = find_ideal bs n i' h" using Cons.prems(1) by (simp add: i'_def)
  have "\<And>j. i' = Some j \<Longrightarrow> n \<le> ?sz j" using Cons.prems(2) by (auto simp: i'_def split: if_splits)
  with Cons.IH [of i'] Cons.prems(1) obtain r where r: "find_ideal bs n i' h = Inr r"
    "case r of
       None \<Rightarrow> i' = None \<and> (\<forall>b\<in>set bs. ?sz b < n)
     | Some x \<Rightarrow> x \<in> set bs \<union> set_option i' \<and> n \<le> ?sz x \<and> (\<forall>b\<in>set bs \<union> set_option i'. n \<le> ?sz b \<longrightarrow> ?sz x \<le> ?sz b)"
    by auto
  show ?case
  proof (cases r)
    case None
    then have "i' = None" "\<forall>b\<in>set bs. ?sz b < n" using r(2) by auto
    then have "i = None" "\<not> n \<le> ?sz b" by (auto simp: i'_def split: if_splits option.splits)
    with \<open>\<forall>b\<in>set bs. ?sz b < n\<close> show ?thesis using step r(1) None by auto
  next
    case (Some x)
    then have x: "x \<in> set bs \<union> set_option i'" "n \<le> ?sz x" "\<forall>b\<in>set bs \<union> set_option i'. n \<le> ?sz b \<longrightarrow> ?sz x \<le> ?sz b"
      using r(2) by auto
    have "x \<in> set (b # bs) \<union> set_option i" using x(1) by (auto simp: i'_def split: if_splits)
    moreover have "\<forall>c\<in>set (b # bs) \<union> set_option i. n \<le> ?sz c \<longrightarrow> ?sz x \<le> ?sz c"
      using x(3) Cons.prems(2) by (cases i) (auto simp: i'_def not_less split: if_splits)
    ultimately show ?thesis using step r(1) Some x(2) by auto
  qed
qed

subsection \<open>Sizes in units\<close>

lemma and15: "(s :: u32) AND 15 = s mod 16"
  using take_bit_eq_mod[of 4 s] take_bit_eq_mask[of 4 s] by (simp add: mask_eq_exp_minus_1)

lemma andnot15: "(s :: u32) AND NOT 15 = s - s mod 16"
proof -
  have "(s AND 15) + (s AND NOT 15) = (s AND 15) OR (s AND NOT 15)"
    by (rule disjunctive_add_eq_or) (rule bit_word_eqI, simp add: bit_simps)
  also have "\<dots> = s" by (simp flip: bit.conj_disj_distrib)
  finally show ?thesis using and15 [of s] by (simp add: algebra_simps)
qed

lemma andm16: "(s :: u32) AND - 16 = s - s mod 16"
  using andnot15 [of s] by simp

lemma round_up:
  fixes k :: nat
  assumes "k mod 16 \<noteq> 0" shows "k - k mod 16 + 16 = (k + 15) div 16 * 16"
proof -
  obtain q r where k: "k = 16 * q + r" "r < 16" by (metis mod_less_divisor mult_div_mod_eq zero_less_numeral)
  then have r: "k mod 16 = r" by simp
  have "(k + 15) div 16 = Suc q"
    by (rule div_nat_eqI) (use k r assms in auto)
  then show ?thesis using k r by simp
qed

lemma units_eq:
  assumes "s \<le> 0xFFFFFFF0"
  shows "unat (units s) = (unat s + 15) div 16"
proof -
  have m: "unat (s mod 16) = unat s mod 16" by (simp add: unat_mod)
  have le: "s mod 16 \<le> s" by (simp add: word_le_nat_alt m)
  have dn: "unat (s - s mod 16) = unat s - unat s mod 16" using le by (simp add: unat_sub m)
  have u: "unat s \<le> 4294967280" using assms by (simp add: word_le_nat_alt)
  have "unat (ALIGN_UP s 16) = (unat s + 15) div 16 * 16"
  proof (cases "s mod 16 = 0")
    case True
    then have z: "unat s mod 16 = 0" using m by simp
    have "k mod 16 = 0 \<Longrightarrow> (k + 15) div 16 * 16 = k" for k :: nat by presburger
    from this [OF z] have "(unat s + 15) div 16 * 16 = unat s" .
    with True show ?thesis by (simp add: ALIGN_UP_def and15)
  next
    case False
    then have nz: "unat s mod 16 \<noteq> 0" using m by (metis unat_eq_zero)
    have u16: "unat (16 :: u32) = 16" by simp
    have lt: "unat s - unat s mod 16 + 16 < 2 ^ 32" using u nz by simp
    have "unat (s - s mod 16 + 16) = (unat (s - s mod 16) + unat (16 :: u32)) mod 2 ^ 32"
      unfolding unat_word_ariths(1) by simp
    also have "\<dots> = unat s - unat s mod 16 + 16" unfolding dn u16 by (rule mod_less [OF lt])
    finally have "unat (s - s mod 16 + 16) = unat s - unat s mod 16 + 16" .
    moreover note round_up [OF nz]
    ultimately show ?thesis using False by (simp add: ALIGN_UP_def ALIGN_DOWN_def and15 andm16)
  qed
  then show ?thesis by (simp add: units_def EX_HEAP_ALIGN_def unat_div)
qed

lemma units_bounds:
  assumes "s \<le> 0xFFFFFFF0"
  shows "unat s \<le> 16 * unat (units s)" "16 * unat (units s) < unat s + 16"
proof -
  have "k \<le> 16 * ((k + 15) div 16)" "16 * ((k + 15) div 16) < k + 16" for k :: nat by presburger+
  then show "unat s \<le> 16 * unat (units s)" "16 * unat (units s) < unat s + 16"
    unfolding units_eq [OF assms] by blast+
qed

text \<open>No two neighbours satisfy \<open>F\<close>.\<close>

definition nadj :: "('a \<Rightarrow> bool) \<Rightarrow> 'a list \<Rightarrow> bool" where
  "nadj F = successively (\<lambda>b c. \<not> (F b \<and> F c))"

lemma coalesced_nadj: "coalesced h \<longleftrightarrow> nadj (bfree (Mem h)) (OrderL h)"
  by (simp add: coalesced_def nadj_def)

lemma nadj_append: "nadj F (xs @ ys) \<longleftrightarrow> nadj F xs \<and> nadj F ys \<and> (xs = [] \<or> ys = [] \<or> \<not> (F (last xs) \<and> F (hd ys)))"
  by (auto simp: nadj_def successively_append_iff)

lemma nadj_Cons: "nadj F (x # ys) \<longleftrightarrow> nadj F ys \<and> (ys = [] \<or> \<not> (F x \<and> F (hd ys)))"
  by (cases ys) (auto simp: nadj_def)

lemma nadj_cong: "(\<And>x. x \<in> set xs \<Longrightarrow> F' x = F x) \<Longrightarrow> nadj F' xs = nadj F xs"
  unfolding nadj_def by (rule successively_cong) auto

lemma nadj_taken:
  assumes "nadj F (xs @ b # ys)" and "\<And>x. x \<in> set xs \<union> set ys \<Longrightarrow> F' x = F x" and "\<not> F' b"
  shows "nadj F' (xs @ b # ys)" and "F b \<Longrightarrow> nadj F' (xs @ b # nb # ys)"
proof -
  have p: "nadj F' xs" "nadj F' ys"
    using assms(1) nadj_cong [of xs F' F] nadj_cong [of ys F' F] assms(2) by (auto simp: nadj_append nadj_Cons)
  show "nadj F' (xs @ b # ys)" using p assms(3) by (auto simp: nadj_append nadj_Cons)
  show "nadj F' (xs @ b # nb # ys)" if "F b"
  proof -
    have "ys = [] \<or> \<not> F' (hd ys)" using assms(1,2) that by (cases ys) (auto simp: nadj_append nadj_Cons)
    then show ?thesis using p assms(3) by (auto simp: nadj_append nadj_Cons)
  qed
qed

subsection \<open>Allocation keeps the invariant\<close>

lemma make_free_out: "unat nb + 32 \<le> 2 ^ 32 \<Longrightarrow> x \<notin> rng (unat nb) 32 \<Longrightarrow> make_free nb n m ck x = m x"
  using outside_header [of nb x] by (simp add: make_free_def recalc_out set_out)

lemma make_free_ok:
  assumes "unat nb + 32 + 16 * unat n \<le> 2 ^ 32" and "\<forall>x\<in>rng (unat nb + 32) (16 * unat n). m x = FREED_PADDING"
  shows "block_ok ck (make_free nb n m ck) nb" and "bfree (make_free nb n m ck) nb" and "bsize (make_free nb n m ck) nb = unat n"
proof -
  let ?m = "make_free nb n m ck"
  define B where "B = (hdr m nb)\<lparr>Size := n, Cookie := ck, BlockType := HEAP_BLOCK_FREE\<rparr>"
  have h: "hdr ?m nb = B\<lparr>Magic1 := checksum nb B, Magic2 := checksum nb B\<rparr>" by (simp add: make_free_def B_def)
  show f: "bfree ?m nb" and s: "bsize ?m nb = unat n" by (simp_all add: bfree_def bsize_def h B_def)
  have "?m x = FREED_PADDING" if "x \<in> rng (unat nb + 32) (16 * unat n)" for x
    using make_free_out [of nb x n m ck] data_not_header [of x nb 0] that assms by auto
  then show "block_ok ck ?m nb" using f s by (simp add: block_ok_def bfree_def h) (simp add: B_def)
qed

lemma take_block_eq:
  "take_block b pad h = h\<lparr>Mem := taken_mem b pad (Mem h), FreeL := remove1 b (FreeL h), AllocL := remove1 b (AllocL h) @ [b]\<rparr>"
  by (simp add: take_block_def add_alloc_def unlink_list_def set_mem_def taken_mem_def)

lemma insert_after_append: "b \<notin> set xs \<Longrightarrow> insert_after b nb (xs @ b # ys) = xs @ b # nb # ys"
  by (induction xs) auto

text \<open>What an allocation of \<open>n\<close> bytes in the block \<open>b\<close> does.\<close>

definition allocated :: "nat \<Rightarrow> nat \<Rightarrow> u32 \<Rightarrow> nat \<Rightarrow> heap \<Rightarrow> heap \<Rightarrow> bool" where
  "allocated a e b n h h' \<longleftrightarrow> heap_wf a e h' \<and> (coalesced h \<longrightarrow> coalesced h')
     \<and> HeapLock h' = HeapLock h \<and> HeadType h' = HeadType h \<and> HeapCookie h' = HeapCookie h
     \<and> InExGuardedRegion h' = InExGuardedRegion h
     \<and> AllocL h' = AllocL h @ [b] \<and> BlockType (hdr (Mem h') b) = HEAP_BLOCK_ALLOCATED \<and> usable (Mem h') b = n
     \<and> (\<forall>c\<in>set (AllocL h). hdr (Mem h') c = hdr (Mem h) c)
     \<and> (\<forall>x. x \<notin> rng (unat b) (bend (Mem h) b - unat b) \<longrightarrow> Mem h' x = Mem h x)"

lemma alloc_whole:
  assumes wf: "heap_wf a e h" and b: "b \<in> set (FreeL h)" and pad: "unat pad = 16 * bsize (Mem h) b - n" "n \<le> 16 * bsize (Mem h) b"
  shows "allocated a e b n h (take_block b pad h)"
proof -
  let ?h = "take_block b pad h"
  have bo: "b \<in> set (OrderL h)" "bfree (Mem h) b" using heap_wf_free [OF wf] b by auto
  obtain xs ys where o: "OrderL h = xs @ b # ys" "b \<notin> set xs" "b \<notin> set ys" "tiles (Mem h) a xs (unat b)"
    "bend (Mem h) b < 2 ^ 32" "block_ok (HeapCookie h) (Mem h) b"
    using heap_wf_split [OF wf bo(1)] by metis
  have ck: "Cookie (hdr (Mem h) b) = HeapCookie h" using o(6) by (simp add: block_ok_def Let_def)
  have le: "unat pad \<le> 16 * bsize (Mem h) b" using pad by simp
  note ok = taken_mem_ok [OF o(5) le ck] and mem = taken_mem [OF o(5) le]
  have m: "Mem ?h = taken_mem b pad (Mem h)" by (simp add: take_block_eq)
  have dl: "distinct (FreeL h)" "distinct (AllocL h)" "b \<notin> set (AllocL h)"
    using wf bo by (auto simp: heap_wf_def)
  have rg: "bend (Mem h) b - unat b = 32 + 16 * bsize (Mem h) b" by (simp add: bend_def)
  have e: "bend (Mem ?h) b = bend (Mem h) b" using ok(2) by (simp add: m bend_def)
  have wf': "heap_wf a e ?h \<and> (\<forall>c\<in>set xs \<union> set ys. hdr (Mem ?h) c = hdr (Mem h) c)"
  proof (rule heap_wf_replace [OF wf _ _ o(4), of "[b]" ys ?h "[b]" "bend (Mem h) b"])
    show "Mem ?h x = Mem h x" if "x \<notin> rng (unat b) (bend (Mem h) b - unat b)" for x
      using mem(2) that by (simp add: m rg)
    show "set (FreeL ?h) = (set (FreeL h) - set [b]) \<union> {c \<in> set [b]. bfree (Mem ?h) c}"
      using dl ok(4) by (auto simp: take_block_eq m)
    show "set (AllocL ?h) = (set (AllocL h) - set [b]) \<union> {c \<in> set [b]. \<not> bfree (Mem ?h) c}"
      using dl ok(4) by (auto simp: take_block_eq m)
  qed (use o dl ok e in \<open>simp_all add: take_block_eq m remove1_idem\<close>)
  have al: "AllocL ?h = AllocL h @ [b]" using dl by (simp add: take_block_eq remove1_idem)
  have "coalesced h \<Longrightarrow> coalesced ?h"
  proof -
    assume "coalesced h"
    then have "nadj (bfree (Mem h)) (xs @ b # ys)" by (simp add: coalesced_nadj o)
    moreover have "bfree (Mem ?h) c = bfree (Mem h) c" if "c \<in> set xs \<union> set ys" for c
      using wf' that by (simp add: bfree_def)
    ultimately have "nadj (bfree (Mem ?h)) (xs @ b # ys)"
      using ok(4) nadj_taken(1) [of "bfree (Mem h)" xs b ys "bfree (Mem ?h)"] by (simp add: m)
    then show "coalesced ?h" by (simp add: coalesced_nadj o take_block_eq)
  qed
  moreover have "c \<in> set (AllocL h) \<Longrightarrow> hdr (Mem ?h) c = hdr (Mem h) c" for c
    using heap_wf_alloc [OF wf, of c] bo(2) wf' by (auto simp: o)
  moreover have "BlockType (hdr (Mem ?h) b) = HEAP_BLOCK_ALLOCATED" "usable (Mem ?h) b = n"
    using mem(1) ok(2,3) pad by (simp_all add: m Let_def usable_def)
  moreover have "Mem ?h x = Mem h x" if "x \<notin> rng (unat b) (bend (Mem h) b - unat b)" for x
    using mem(2) that by (simp add: m rg)
  moreover have "HeapLock ?h = HeapLock h" "HeadType ?h = HeadType h" "HeapCookie ?h = HeapCookie h"
    "InExGuardedRegion ?h = InExGuardedRegion h" by (simp_all add: take_block_eq)
  ultimately show ?thesis using wf' al unfolding allocated_def by blast
qed

text \<open>Splitting a free block: the memory.\<close>

definition split_mem :: "u32 \<Rightarrow> u32 \<Rightarrow> u32 \<Rightarrow> u8 \<Rightarrow> u32 \<Rightarrow> u16 \<Rightarrow> 8 mem \<Rightarrow> 8 mem" where
  "split_mem b nS nb pad d ck m = make_free nb d (taken_mem b pad (set_Size b nS m)) ck"

lemma split_mem:
  assumes bnd: "bend m b < 2 ^ 32" and ok: "block_ok ck m b" "bfree m b" and sz: "unat nS + 2 + unat d = bsize m b"
    and pad: "unat pad \<le> 16 * unat nS" and nb: "unat nb = unat b + 32 + 16 * unat nS"
  defines "m' \<equiv> split_mem b nS nb pad d ck m"
  shows "tiles m' (unat b) [b, nb] (bend m b)" and "block_ok ck m' b" and "block_ok ck m' nb"
    and "\<not> bfree m' b" and "bfree m' nb" and "usable m' b = 16 * unat nS - unat pad"
    and "BlockType (hdr m' b) = HEAP_BLOCK_ALLOCATED"
    and "x \<notin> rng (unat b) (bend m b - unat b) \<Longrightarrow> m' x = m x"
proof -
  let ?m1 = "set_Size b nS m"
  let ?m2 = "taken_mem b pad ?m1"
  have s1: "bsize ?m1 b = unat nS" "bend ?m1 b = unat nb" "Cookie (hdr ?m1 b) = ck"
    using ok(1) by (simp_all add: bsize_def bend_def nb block_ok_def Let_def)
  have b1: "bend ?m1 b < 2 ^ 32" "unat pad \<le> 16 * bsize ?m1 b" using bnd sz pad by (simp_all add: s1 nb bend_def)
  have b0: "unat b + 32 \<le> 2 ^ 32" "unat nb + 32 \<le> 2 ^ 32" "bend m b = unat nb + 32 + 16 * unat d"
    using bnd sz by (auto simp: bend_def nb)
  note t = taken_mem [OF b1] and tok = taken_mem_ok [OF b1 s1(3)]
  have out1: "?m1 x = m x" if "x \<notin> rng (unat b) 32" for x
    using outside_header [OF b0(1) that] by (simp add: set_out)
  have free: "?m2 x = FREED_PADDING" if "x \<in> rng (unat nb + 32) (16 * unat d)" for x
  proof -
    have "x \<notin> rng (unat b) (32 + 16 * bsize ?m1 b)" using that by (auto simp: rng_def s1 nb)
    then have "?m2 x = m x" using t(2) out1 not_header by metis
    moreover have "x \<in> rng (unat b + 32) (16 * bsize m b)" using that sz by (auto simp: rng_def nb)
    ultimately show ?thesis using ok by (simp add: block_ok_def bfree_def Let_def)
  qed
  have f: "block_ok ck m' nb" "bfree m' nb" "bsize m' nb = unat d"
    using make_free_ok [of nb d ?m2 ck] free bnd b0(3) by (auto simp: m'_def split_mem_def)
  then show "block_ok ck m' nb" "bfree m' nb" by auto
  have same: "m' x = ?m2 x" if "x \<notin> rng (unat nb) 32" for x
    unfolding m'_def split_mem_def by (rule make_free_out [OF b0(2) that])
  have "same_on (rng (unat b) (32 + 16 * bsize ?m2 b)) ?m2 m'"
    using same by (auto simp: same_on_def rng_def tok(2) s1 nb)
  moreover have "bend ?m2 b \<le> 2 ^ 32" using b1(1) by (simp add: bend_def tok(2))
  ultimately have h: "hdr m' b = hdr ?m2 b" "block_ok ck m' b = block_ok ck ?m2 b" using block_same by auto
  show "block_ok ck m' b" using h(2) tok(1) by simp
  show "\<not> bfree m' b" using h(1) tok(4) by (simp add: bfree_def)
  show "usable m' b = 16 * unat nS - unat pad"
    using h(1) tok(2,3) by (simp add: usable_def bsize_def bpad_def s1(1) [unfolded bsize_def])
  show "BlockType (hdr m' b) = HEAP_BLOCK_ALLOCATED" by (simp add: h(1) t(1) Let_def)
  have "bend m' b = unat nb" using h(1) tok(2) by (simp add: bend_def bsize_def nb s1(1) [unfolded bsize_def])
  moreover have "bend m' nb = bend m b" using f(3) b0(3) by (simp add: bend_def)
  ultimately show "tiles m' (unat b) [b, nb] (bend m b)" by simp
  show "m' x = m x" if "x \<notin> rng (unat b) (bend m b - unat b)"
  proof -
    have "x \<notin> rng (unat nb) 32" "x \<notin> rng (unat b) (32 + 16 * bsize ?m1 b)" "x \<notin> rng (unat b) 32"
      using that by (auto simp: rng_def b0(3) s1(1) nb)
    then show ?thesis using same t(2) out1 by metis
  qed
qed

lemma alloc_split:
  assumes wf: "heap_wf a e h" and b: "b \<in> set (FreeL h)" and sz: "unat nS + 2 + unat d = bsize (Mem h) b"
    and pad: "unat pad = 16 * unat nS - n" "n \<le> 16 * unat nS" and nb: "nb = b + sizeof_EHEAP_BLOCK + nS * EX_HEAP_ALIGN"
  shows "allocated a e b n h (order_insert b nb (add_free nb (set_mem (\<lambda>m. make_free nb d m (HeapCookie h))
    (take_block b pad (set_mem (set_Size b nS) h)))))" (is "allocated a e b n h ?h")
proof -
  have bo: "b \<in> set (OrderL h)" "bfree (Mem h) b" using heap_wf_free [OF wf] b by auto
  obtain xs ys where o: "OrderL h = xs @ b # ys" "b \<notin> set xs" "b \<notin> set ys" "tiles (Mem h) a xs (unat b)"
    "tiles (Mem h) (bend (Mem h) b) ys e" "bend (Mem h) b < 2 ^ 32" "block_ok (HeapCookie h) (Mem h) b"
    using heap_wf_split [OF wf bo(1)] by metis
  have nbn: "unat nb = unat b + 32 + 16 * unat nS"
  proof -
    have "unat (nS * EX_HEAP_ALIGN) = 16 * unat nS" using o(6) sz by (intro unat_scaled) (simp add: bend_def)
    moreover have "unat (data_of b) = unat b + 32" using o(6) by (intro unat_data) (simp add: bend_def)
    ultimately show ?thesis using o(6) sz unfolding nb data_of_def [symmetric] unat_word_ariths(1) by (simp add: bend_def)
  qed
  have le: "unat pad \<le> 16 * unat nS" using pad by simp
  note S = split_mem [OF o(6,7) bo(2) sz le nbn]
  have m: "Mem ?h = split_mem b nS nb pad d (HeapCookie h) (Mem h)"
    by (simp add: order_insert_def add_free_def set_mem_def take_block_eq split_mem_def)
  have l: "OrderL ?h = xs @ b # nb # ys" "FreeL ?h = remove1 b (FreeL h) @ [nb]" "AllocL ?h = remove1 b (AllocL h) @ [b]"
    using o(1,2) by (simp_all add: order_insert_def add_free_def set_mem_def take_block_eq insert_after_append)
  have dl: "distinct (FreeL h)" "distinct (AllocL h)" "b \<notin> set (AllocL h)"
    using wf bo by (auto simp: heap_wf_def)
  have "nb \<notin> set (OrderL h)"
  proof
    assume "nb \<in> set (OrderL h)"
    moreover have "unat nb < bend (Mem h) b" "unat b < unat nb" using sz by (simp_all add: nbn bend_def)
    ultimately show False using tiles_bounds [OF o(4)] tiles_bounds [OF o(5)] bend_ge [of nb "Mem h"] by (fastforce simp: o(1))
  qed
  then have nfl: "nb \<notin> set (FreeL h)" "nb \<noteq> b" using heap_wf_free [OF wf] bo(1) by auto
  have wf': "heap_wf a e ?h \<and> (\<forall>c\<in>set xs \<union> set ys. hdr (Mem ?h) c = hdr (Mem h) c)"
  proof (rule heap_wf_replace [OF wf _ _ o(4), of "[b]" ys ?h "[b, nb]" "bend (Mem h) b"])
    show "set (FreeL ?h) = (set (FreeL h) - set [b]) \<union> {c \<in> set [b, nb]. bfree (Mem ?h) c}"
      using dl S(4,5) nfl by (auto simp: l m)
    show "set (AllocL ?h) = (set (AllocL h) - set [b]) \<union> {c \<in> set [b, nb]. \<not> bfree (Mem ?h) c}"
      using dl S(4,5) nfl by (auto simp: l m)
    show "distinct (FreeL ?h)" using dl nfl by (auto simp: l dest: notin_set_remove1)
    show "tiles (Mem ?h) (unat b) [b, nb] (bend (Mem h) b)" using S(1) by (simp only: m)
    show "HeapCookie ?h = HeapCookie h" by (simp add: order_insert_def add_free_def set_mem_def take_block_eq)
  qed (use o dl S l in \<open>simp_all add: m remove1_idem\<close>)
  have "coalesced h \<Longrightarrow> coalesced ?h"
  proof -
    assume "coalesced h"
    then have "nadj (bfree (Mem h)) (xs @ b # ys)" by (simp add: coalesced_nadj o)
    moreover have "bfree (Mem ?h) c = bfree (Mem h) c" if "c \<in> set xs \<union> set ys" for c
      using wf' that by (simp add: bfree_def)
    ultimately have "nadj (bfree (Mem ?h)) (xs @ b # nb # ys)"
      using S(4) bo(2) nadj_taken(2) [of "bfree (Mem h)" xs b ys "bfree (Mem ?h)" nb] by (simp add: m)
    then show "coalesced ?h" by (simp add: coalesced_nadj l)
  qed
  moreover have "c \<in> set (AllocL h) \<Longrightarrow> hdr (Mem ?h) c = hdr (Mem h) c" for c
    using heap_wf_alloc [OF wf, of c] bo(2) wf' by (auto simp: o)
  moreover have "BlockType (hdr (Mem ?h) b) = HEAP_BLOCK_ALLOCATED" "usable (Mem ?h) b = n"
    using S(6,7) pad by (simp_all add: m)
  moreover have "Mem ?h x = Mem h x" if "x \<notin> rng (unat b) (bend (Mem h) b - unat b)" for x
    using S(8) that by (simp add: m)
  moreover have "HeapLock ?h = HeapLock h" "HeadType ?h = HeadType h" "HeapCookie ?h = HeapCookie h"
    "InExGuardedRegion ?h = InExGuardedRegion h"
    by (simp_all add: order_insert_def add_free_def set_mem_def take_block_eq)
  moreover have "AllocL ?h = AllocL h @ [b]" using dl by (simp add: l remove1_idem)
  ultimately show ?thesis using wf' unfolding allocated_def by blast
qed

lemma pad_eq:
  assumes "unat s \<le> 16 * unat n" and "16 * unat n < unat s + 256" and "16 * unat n < 2 ^ 32"
  shows "unat (ucast (n * EX_HEAP_ALIGN - s) :: u8) = 16 * unat n - unat s"
proof -
  have "unat (n * EX_HEAP_ALIGN - s) = 16 * unat n - unat s"
    using assms(1) unat_scaled [OF assms(3)] by (simp add: unat_sub word_le_nat_alt)
  then have "unat (ucast (n * EX_HEAP_ALIGN - s) :: u8) = (16 * unat n - unat s) mod 2 ^ 8"
    by (simp add: unsigned_ucast_eq take_bit_eq_mod)
  also have "\<dots> = 16 * unat n - unat s" using assms(2) by (intro mod_less) simp
  finally show ?thesis .
qed

lemma alloc_in_block:
  assumes wf: "heap_wf a e h" and b: "b \<in> set (FreeL h)" and s: "s \<le> 0xFFFFFFF0" "units s \<le> Size (hdr (Mem h) b)"
  shows "\<exists>h'. ExpAllocateHeapInBlock b s h = and_then (log_alloc b h') (\<lambda>h''. Inr (data_of b, h'')) \<and> allocated a e b (unat s) h h'"
proof -
  let ?S = "Size (hdr (Mem h) b)"
  have bo: "b \<in> set (OrderL h)" using heap_wf_free [OF wf] b by auto
  have bnd: "16 * unat ?S < 2 ^ 32" using heap_wf_split [OF wf bo] by (simp add: bend_def bsize_def) fastforce
  note ub = units_bounds [OF s(1)]
  have le: "unat (units s) \<le> unat ?S" using s(2) by (simp add: word_le_nat_alt)
  have diff: "unat (?S - units s) = unat ?S - unat (units s)" using s(2) by (simp add: unat_sub)
  show ?thesis
  proof (cases "?S - units s \<le> SIZEOF_HEAP_BLOCK")
    case True
    then have "unat ?S - unat (units s) \<le> 2" using diff by (simp add: SIZEOF_HEAP_BLOCK_def word_le_nat_alt)
    then have p: "unat (ucast (?S * EX_HEAP_ALIGN - s) :: u8) = 16 * unat ?S - unat s" "unat s \<le> 16 * unat ?S"
      using ub le bnd by (auto intro!: pad_eq)
    from alloc_whole [OF wf b, of "ucast (?S * EX_HEAP_ALIGN - s)" "unat s"] p True
    show ?thesis by (auto simp: ExpAllocateHeapInBlock_def Let_def bsize_def)
  next
    case False
    let ?d = "?S - units s - SIZEOF_HEAP_BLOCK" and ?nb = "b + sizeof_EHEAP_BLOCK + units s * EX_HEAP_ALIGN"
    have gt: "2 < unat ?S - unat (units s)" using False diff by (simp add: SIZEOF_HEAP_BLOCK_def word_le_nat_alt)
    then have "unat ?d = unat ?S - unat (units s) - 2"
      using diff by (simp add: SIZEOF_HEAP_BLOCK_def unat_sub word_le_nat_alt)
    then have sz: "unat (units s) + 2 + unat ?d = bsize (Mem h) b" using gt by (simp add: bsize_def)
    have p: "unat (ucast (units s * EX_HEAP_ALIGN - s) :: u8) = 16 * unat (units s) - unat s"
      using ub le bnd by (intro pad_eq) auto
    have ck: "HeapCookie (take_block b pad (set_mem f h)) = HeapCookie h" for pad f
      by (simp add: take_block_eq set_mem_def)
    from alloc_split [OF wf b sz p ub(1) refl] False show ?thesis
      by (auto simp: ExpAllocateHeapInBlock_def Let_def ck)
  qed
qed

lemma find_ideal_wf:
  assumes "heap_wf a e h"
  shows "\<exists>r. ExpFindIdealBlock s h = Inr r \<and>
    (case r of
       None \<Rightarrow> \<forall>b\<in>set (FreeL h). Size (hdr (Mem h) b) < units s
     | Some x \<Rightarrow> x \<in> set (FreeL h) \<and> units s \<le> Size (hdr (Mem h) x)
         \<and> (\<forall>b\<in>set (FreeL h). units s \<le> Size (hdr (Mem h) b) \<longrightarrow> Size (hdr (Mem h) x) \<le> Size (hdr (Mem h) b)))"
proof -
  have "\<forall>b\<in>set (FreeL h). ExpCheckBlockValid b h = Inr ()"
    using wf_valid [OF assms] heap_wf_free [OF assms] by blast
  from find_ideal_best [OF this, of None "units s"] show ?thesis
    by (fastforce simp: ExpFindIdealBlock_def split: option.splits)
qed

text \<open>The states between the calls: consistent, coalesced, the lock free, no guarded region.\<close>

definition heap_inv :: "nat \<Rightarrow> nat \<Rightarrow> heap \<Rightarrow> bool" where
  "heap_inv a e h \<longleftrightarrow> heap_ok a e h \<and> \<not> InExGuardedRegion h"

lemma heap_wf_lock [simp]: "heap_wf a e (h\<lparr>HeapLock := l\<rparr>) = heap_wf a e h"
  by (simp add: heap_wf_def)

lemma coalesced_lock [simp]: "coalesced (h\<lparr>HeapLock := l\<rparr>) = coalesced h"
  by (simp add: coalesced_def)

lemma ExAllocateHeap_spec:
  assumes inv: "heap_inv a e h" and s: "s \<le> 0xFFFFFFF0"
  shows "(\<forall>b\<in>set (FreeL h). Size (hdr (Mem h) b) < units s) \<and> ExAllocateHeap paged s h = Inr (0, h)
    \<or> (\<exists>b h'. ExAllocateHeap paged s h = Inr (data_of b, h') \<and> heap_inv a e h' \<and> b \<in> set (FreeL h)
        \<and> units s \<le> Size (hdr (Mem h) b)
        \<and> (\<forall>c\<in>set (FreeL h). units s \<le> Size (hdr (Mem h) c) \<longrightarrow> Size (hdr (Mem h) b) \<le> Size (hdr (Mem h) c))
        \<and> allocated a e b (unat s) h h')"
proof -
  let ?h = "h\<lparr>HeapLock := True\<rparr>"
  from inv have ok: "heap_wf a e h" "coalesced h" "\<not> HeapLock h" "HeadType h \<noteq> HEAP_BLOCK_FREE" "\<not> InExGuardedRegion h"
    by (auto simp: heap_inv_def heap_ok_def)
  have wf: "heap_wf a e ?h" using ok(1) by simp
  have lk: "ExpAcquireHeapLock h = Inr ?h" using ok(3) by (simp add: ExpAcquireHeapLock_def)
  have fld: "Mem ?h = Mem h" "FreeL ?h = FreeL h" by simp_all
  from find_ideal_wf [OF wf, of s] obtain r where r: "ExpFindIdealBlock s ?h = Inr r"
    "case r of
       None \<Rightarrow> \<forall>b\<in>set (FreeL h). Size (hdr (Mem h) b) < units s
     | Some x \<Rightarrow> x \<in> set (FreeL h) \<and> units s \<le> Size (hdr (Mem h) x)
         \<and> (\<forall>b\<in>set (FreeL h). units s \<le> Size (hdr (Mem h) b) \<longrightarrow> Size (hdr (Mem h) x) \<le> Size (hdr (Mem h) b))"
    unfolding fld by blast
  show ?thesis
  proof (cases r)
    case None
    then have "ExAllocateHeap paged s h = Inr (0, h)"
      using lk r(1) ok(3) by (simp add: ExAllocateHeap_def ExpReleaseHeapLock_def)
    with None r(2) show ?thesis by simp
  next
    case (Some b)
    with r(2) have b: "b \<in> set (FreeL ?h)" "units s \<le> Size (hdr (Mem ?h) b)"
      "\<forall>c\<in>set (FreeL h). units s \<le> Size (hdr (Mem h) c) \<longrightarrow> Size (hdr (Mem h) b) \<le> Size (hdr (Mem h) c)" by auto
    from alloc_in_block [OF wf b(1) s b(2)] obtain h' where
      h': "ExpAllocateHeapInBlock b s ?h = and_then (log_alloc b h') (\<lambda>h''. Inr (data_of b, h''))" "allocated a e b (unat s) ?h h'"
      by blast
    have ng: "InExGuardedRegion h' = False" using h'(2) ok(5) by (simp add: allocated_def)
    have "ExAllocateHeap paged s h = Inr (data_of b, ExpReleaseHeapLock h')"
      using lk r(1) Some h'(1) ng by (simp add: ExAllocateHeap_def log_alloc_def)
    moreover have "allocated a e b (unat s) h (ExpReleaseHeapLock h')" "heap_inv a e (ExpReleaseHeapLock h')"
      using h'(2) ok ng by (auto simp: allocated_def ExpReleaseHeapLock_def coalesced_def heap_inv_def heap_ok_def heap_wf_def)
    ultimately show ?thesis using b by auto
  qed
qed

subsection \<open>Freeing keeps the invariant\<close>

definition region :: "8 mem \<Rightarrow> u32 \<Rightarrow> u32 set" where
  "region m b = rng (unat b) (bend m b - unat b)"

text \<open>The regions of other blocks lie outside of a range of blocks.\<close>

lemma region_outside:
  assumes "tiles m a (xs @ olds @ ys) e" and "tiles m a xs p" and "tiles m p olds q" and "c \<in> set xs \<union> set ys"
  shows "region m c \<inter> rng p (q - p) = {}"
proof -
  obtain p' q' where pq: "tiles m a xs p'" "tiles m p' olds q'" "tiles m q' ys e" using assms(1) by (auto simp: tiles_append)
  have "p' = p" using pq(1) assms(2) by (induction xs arbitrary: a) auto
  then have "q' = q" using pq(2) assms(3) by (induction olds arbitrary: p p') auto
  with pq have "tiles m q ys e" by simp
  then have "bend m c \<le> p \<or> q \<le> unat c"
    using assms(4) tiles_bounds [OF assms(2)] tiles_bounds [of m q ys e] by blast
  then show ?thesis using tiles_bounds [OF assms(3)] by (auto simp: region_def rng_def)
qed

text \<open>A state that differs from \<open>h\<close> in the place of \<open>b\<close> only, where it has free blocks.\<close>

definition others_same :: "u32 \<Rightarrow> heap \<Rightarrow> heap \<Rightarrow> bool" where
  "others_same b h h' \<longleftrightarrow> (\<forall>c\<in>set (AllocL h) - {b}. same_on (region (Mem h) c) (Mem h) (Mem h') \<and> hdr (Mem h') c = hdr (Mem h) c)"

definition rest_same :: "heap \<Rightarrow> heap \<Rightarrow> bool" where
  "rest_same h h' \<longleftrightarrow> HeapLock h' = HeapLock h \<and> HeadType h' = HeadType h \<and> HeapCookie h' = HeapCookie h
     \<and> InExGuardedRegion h' = InExGuardedRegion h"

lemma others_same_trans:
  assumes "others_same b h h1" and "others_same c h1 h2" and "set (AllocL h1) = set (AllocL h) - {b}" and "c \<notin> set (AllocL h) - {b}"
  shows "others_same b h h2"
  unfolding others_same_def
proof
  fix x assume x: "x \<in> set (AllocL h) - {b}"
  then have "x \<in> set (AllocL h1) - {c}" using assms(3,4) by auto
  with assms(1,2) x have s: "same_on (region (Mem h) x) (Mem h) (Mem h1)" "hdr (Mem h1) x = hdr (Mem h) x"
    "same_on (region (Mem h1) x) (Mem h1) (Mem h2)" "hdr (Mem h2) x = hdr (Mem h1) x" by (auto simp: others_same_def)
  have "region (Mem h1) x = region (Mem h) x" using s(2) by (simp add: region_def bend_def bsize_def)
  with s show "same_on (region (Mem h) x) (Mem h) (Mem h2) \<and> hdr (Mem h2) x = hdr (Mem h) x"
    using same_on_trans by auto
qed

lemma others_sameI:
  assumes wf: "heap_wf a e h" and o: "OrderL h = xs @ olds @ ys" and t: "tiles (Mem h) a xs p" "tiles (Mem h) p olds q"
    and same: "\<And>x. x \<notin> rng p (q - p) \<Longrightarrow> Mem h' x = Mem h x"
    and hd: "\<forall>c\<in>set xs \<union> set ys. hdr (Mem h') c = hdr (Mem h) c" and al: "set (AllocL h) \<inter> set olds \<subseteq> {b}"
  shows "others_same b h h'"
  unfolding others_same_def
proof
  fix c assume c: "c \<in> set (AllocL h) - {b}"
  then have cx: "c \<in> set xs \<union> set ys" using heap_wf_alloc [OF wf, of c] al by (auto simp: o)
  have "tiles (Mem h) a (xs @ olds @ ys) e" using wf by (simp add: heap_wf_def o)
  from region_outside [OF this t cx] same have "same_on (region (Mem h) c) (Mem h) (Mem h')"
    by (auto simp: same_on_def)
  with hd cx show "same_on (region (Mem h) c) (Mem h) (Mem h') \<and> hdr (Mem h') c = hdr (Mem h) c" by blast
qed

text \<open>Marking the block as free.\<close>

definition mark_free :: "u32 \<Rightarrow> heap \<Rightarrow> heap" where
  "mark_free b h = set_mem (EXP_WRITE_BLOCK_FREED_PADDING b \<circ> ExpRecalculateChecksumBlock b)
     (add_free b (unlink_list b (set_mem (set_BlockType b HEAP_BLOCK_FREE) h)))"

lemma mark_free:
  assumes wf: "heap_wf a e h" and b: "b \<in> set (AllocL h)" and o: "OrderL h = xs @ b # ys"
  shows "heap_wf a e (mark_free b h)" and "OrderL (mark_free b h) = xs @ b # ys" and "bfree (Mem (mark_free b h)) b"
    and "set (AllocL (mark_free b h)) = set (AllocL h) - {b}" and "others_same b h (mark_free b h)"
    and "\<forall>c\<in>set xs \<union> set ys. hdr (Mem (mark_free b h)) c = hdr (Mem h) c" and "rest_same h (mark_free b h)"
proof -
  let ?h = "mark_free b h" and ?m = "Mem h"
  let ?m1 = "ExpRecalculateChecksumBlock b (set_BlockType b HEAP_BLOCK_FREE ?m)"
  have bo: "b \<in> set (OrderL h)" "\<not> bfree ?m b" using heap_wf_alloc [OF wf] b by auto
  have tl: "tiles ?m a (xs @ b # ys) e" using wf by (simp add: heap_wf_def o)
  then have t: "tiles ?m a xs (unat b)" "tiles ?m (unat b) [b] (bend ?m b)" by (auto simp: tiles_append)
  have bnd: "bend ?m b < 2 ^ 32" using tiles_bounds [OF tl] wf by (fastforce simp: heap_wf_def)
  have dl: "distinct (FreeL h)" "distinct (AllocL h)" "b \<notin> set (FreeL h)" "b \<notin> set xs" "b \<notin> set ys"
    using wf bo heap_wf_free [OF wf, of b] tiles_distinct [OF tl] by (auto simp: heap_wf_def)
  define B where "B = (hdr ?m b)\<lparr>BlockType := HEAP_BLOCK_FREE\<rparr>"
  have h1: "hdr ?m1 b = B\<lparr>Magic1 := checksum b B, Magic2 := checksum b B\<rparr>" by (simp add: B_def)
  have s1: "bsize ?m1 b = bsize ?m b" "bend ?m1 b = bend ?m b" by (simp_all add: bsize_def bend_def h1)
  have m: "Mem ?h x = (if x \<in> rng (unat b + 32) (16 * bsize ?m b) then FREED_PADDING else ?m1 x)" for x
    using free_padding [of ?m1 b x] bnd s1 by (simp add: mark_free_def set_mem_def add_free_def unlink_list_def)
  have same: "Mem ?h x = ?m x" if "x \<notin> rng (unat b) (bend ?m b - unat b)" for x
  proof -
    have "x \<notin> rng (unat b + 32) (16 * bsize ?m b)" "x \<notin> rng (unat b) 32" using that by (auto simp: rng_def bend_def)
    then show ?thesis using outside_header [of b x] bnd by (simp add: m recalc_out set_out bend_def)
  qed
  have hb: "hdr (Mem ?h) b = hdr ?m1 b"
    using data_not_header [of _ b 0] bnd by (intro hdr_same) (auto simp: same_on_def m bend_def)
  show f: "bfree (Mem ?h) b" by (simp add: bfree_def hb h1 B_def)
  have sz: "bsize (Mem ?h) b = bsize ?m b" by (simp add: bsize_def hb h1 B_def)
  have "Cookie (hdr ?m b) = HeapCookie h" using wf bo by (simp add: heap_wf_def block_ok_def Let_def)
  then have ok: "block_ok (HeapCookie h) (Mem ?h) b"
    using f m by (simp add: block_ok_def Let_def bfree_def sz) (simp add: hb h1 B_def)
  show oo: "OrderL ?h = xs @ b # ys" by (simp add: mark_free_def set_mem_def add_free_def unlink_list_def o)
  have l: "FreeL ?h = FreeL h @ [b]" "AllocL ?h = remove1 b (AllocL h)"
    using dl by (simp_all add: mark_free_def set_mem_def add_free_def unlink_list_def remove1_idem)
  show al: "set (AllocL ?h) = set (AllocL h) - {b}" using dl by (simp add: l)
  have "heap_wf a e ?h \<and> (\<forall>c\<in>set xs \<union> set ys. hdr (Mem ?h) c = hdr ?m c)"
  proof (rule heap_wf_replace [OF wf _ _ t(1), of "[b]" ys ?h "[b]" "bend ?m b"])
    show "HeapCookie ?h = HeapCookie h" by (simp add: mark_free_def set_mem_def add_free_def unlink_list_def)
    show "tiles (Mem ?h) (unat b) [b] (bend ?m b)" using sz by (simp add: bend_def)
  qed (use o oo t dl f ok l same in auto)
  then show "heap_wf a e ?h" and hs: "\<forall>c\<in>set xs \<union> set ys. hdr (Mem ?h) c = hdr ?m c" by auto
  show "others_same b h ?h"
    by (rule others_sameI [OF wf, of xs "[b]" ys, OF _ t]) (use o same hs in auto)
  show "rest_same h ?h" by (simp add: rest_same_def mark_free_def set_mem_def add_free_def unlink_list_def)
qed

text \<open>Merging two neighbours that are free.\<close>

lemma absorb:
  assumes wf: "heap_wf a e h" and o: "OrderL h = xs @ b # c # ys" and f: "bfree (Mem h) b" "bfree (Mem h) c"
    and ng: "\<not> InExGuardedRegion h"
  shows "heap_wf a e (absorb b c h)" and "OrderL (absorb b c h) = xs @ b # ys" and "bfree (Mem (absorb b c h)) b"
    and "AllocL (absorb b c h) = AllocL h" and "others_same d h (absorb b c h)"
    and "\<forall>x\<in>set xs \<union> set ys. hdr (Mem (absorb b c h)) x = hdr (Mem h) x" and "rest_same h (absorb b c h)"
    and "\<forall>x\<in>rng (unat c) 32. Mem (absorb b c h) x = FREED_PADDING" and "unat c + 32 < 2 ^ 32"
proof -
  let ?h = "absorb b c h" and ?m = "Mem h"
  define n where "n = Size (hdr ?m b) + (Size (hdr ?m c) + SIZEOF_HEAP_BLOCK)"
  define m1 where "m1 = ExpRecalculateChecksumBlock b (set_Size b n ?m)"
  have abs: "?h = h\<lparr>Mem := memset m1 c FREED_PADDING sizeof_EHEAP_BLOCK, FreeL := remove1 c (FreeL h),
      AllocL := remove1 c (AllocL h), OrderL := remove1 c (OrderL h)\<rparr>"
    using ng by (simp add: absorb_def log_free_def set_mem_def unlink_list_def unlink_order_def m1_def n_def)
  have tl: "tiles ?m a (xs @ b # c # ys) e" using wf by (simp add: heap_wf_def o)
  then have t: "tiles ?m a xs (unat b)" "tiles ?m (unat b) [b, c] (bend ?m c)" "unat c = bend ?m b"
    by (auto simp: tiles_append)
  have bnd: "bend ?m c < 2 ^ 32" using tiles_bounds [OF tl] wf by (fastforce simp: heap_wf_def)
  have ob: "b \<in> set (OrderL h)" "c \<in> set (OrderL h)" by (simp_all add: o)
  have dl: "distinct (FreeL h)" "distinct (AllocL h)" "b \<notin> set (AllocL h)" "c \<notin> set (AllocL h)" "b \<in> set (FreeL h)"
    "c \<notin> set xs" "b \<notin> set xs" "b \<noteq> c" "b \<notin> set ys" "c \<notin> set ys"
    using wf f ob heap_wf_alloc [OF wf] heap_wf_free [OF wf] tiles_distinct [OF tl] by (auto simp: heap_wf_def)
  have okb: "block_ok (HeapCookie h) ?m b" "block_ok (HeapCookie h) ?m c" using wf ob by (auto simp: heap_wf_def)
  have cb: "bend ?m c = unat b + 32 + 16 * (bsize ?m b + bsize ?m c + 2)"
    using t(3) by (simp add: bend_def)
  have nn: "unat n = bsize ?m b + bsize ?m c + 2"
  proof -
    have "bsize ?m b + (bsize ?m c + 2) < 2 ^ 32" using bnd cb by simp
    then show ?thesis
      unfolding n_def SIZEOF_HEAP_BLOCK_def by (simp add: unat_word_ariths bsize_def)
  qed
  define B where "B = (hdr ?m b)\<lparr>Size := n\<rparr>"
  have h1: "hdr m1 b = B\<lparr>Magic1 := checksum b B, Magic2 := checksum b B\<rparr>" by (simp add: B_def m1_def)
  have out1: "m1 x = ?m x" if "x \<notin> rng (unat b) 32" for x
    using outside_header [OF _ that] bnd cb by (simp add: m1_def recalc_out set_out)
  have m: "Mem ?h x = (if x \<in> rng (unat c) 32 then FREED_PADDING else m1 x)" for x
    using inside_rng [of c sizeof_EHEAP_BLOCK x] bnd by (auto simp: abs memset_def sizeof_EHEAP_BLOCK_def bend_def)
  have same: "Mem ?h x = ?m x" if "x \<notin> rng (unat b) (bend ?m c - unat b)" for x
  proof -
    have "x \<notin> rng (unat c) 32" "x \<notin> rng (unat b) 32" using that t(3) by (auto simp: rng_def cb bend_def)
    then show ?thesis using out1 by (simp add: m)
  qed
  have hb: "hdr (Mem ?h) b = hdr m1 b"
  proof (rule hdr_same)
    show "same_on (rng (unat b) 32) m1 (Mem ?h)" using t(3) by (auto simp: same_on_def m rng_def bend_def)
  qed (use bnd cb in simp)
  show fb: "bfree (Mem ?h) b" using f(1) by (simp add: bfree_def hb h1 B_def)
  have sz: "bsize (Mem ?h) b = unat n" by (simp add: bsize_def hb h1 B_def)
  have eb: "bend (Mem ?h) b = bend ?m c" using cb by (simp add: bend_def [of "Mem ?h"] sz nn)
  have data: "Mem ?h x = FREED_PADDING" if "x \<in> rng (unat b + 32) (16 * unat n)" for x
  proof (cases "x \<in> rng (unat c) 32")
    case False
    have "x \<notin> rng (unat b) 32" using data_not_header [of x b 0] that by simp
    then have "Mem ?h x = ?m x" using False out1 by (simp add: m)
    moreover have "x \<in> rng (unat b + 32) (16 * bsize ?m b) \<or> x \<in> rng (unat c + 32) (16 * bsize ?m c)"
      using that False by (auto simp: rng_def nn t(3) bend_def)
    ultimately show ?thesis using okb f by (auto simp: block_ok_def bfree_def Let_def)
  qed (simp add: m)
  have "Cookie (hdr ?m b) = HeapCookie h" using okb(1) by (simp add: block_ok_def Let_def)
  then have ok: "block_ok (HeapCookie h) (Mem ?h) b"
    using fb data by (simp add: block_ok_def Let_def bfree_def sz) (simp add: hb h1 B_def)
  show oo: "OrderL ?h = xs @ b # ys" using dl by (simp add: abs o remove1_append)
  show al: "AllocL ?h = AllocL h" using dl by (simp add: abs remove1_idem)
  have "heap_wf a e ?h \<and> (\<forall>x\<in>set xs \<union> set ys. hdr (Mem ?h) x = hdr ?m x)"
  proof (rule heap_wf_replace [OF wf _ _ t(1), of "[b, c]" ys ?h "[b]" "bend ?m c"])
    show "set (FreeL ?h) = (set (FreeL h) - set [b, c]) \<union> {x \<in> set [b]. bfree (Mem ?h) x}"
      using dl fb by (auto simp: abs)
    show "set (AllocL ?h) = (set (AllocL h) - set [b, c]) \<union> {x \<in> set [b]. \<not> bfree (Mem ?h) x}"
      using dl fb by (auto simp: al)
    show "tiles (Mem ?h) (unat b) [b] (bend ?m c)" using eb by simp
    show "HeapCookie ?h = HeapCookie h" by (simp add: abs)
    show "distinct (FreeL ?h)" using dl by (simp add: abs)
  qed (use o oo t(2) dl ok same al in auto)
  then show "heap_wf a e ?h" and hs: "\<forall>x\<in>set xs \<union> set ys. hdr (Mem ?h) x = hdr ?m x" by auto
  show "others_same d h ?h"
    by (rule others_sameI [OF wf, of xs "[b, c]" ys, OF _ t(1,2)]) (use o same hs dl in auto)
  show "rest_same h ?h" by (simp add: rest_same_def abs)
  show "\<forall>x\<in>rng (unat c) 32. Mem ?h x = FREED_PADDING" by (simp add: m)
  show "unat c + 32 < 2 ^ 32" using bnd by (simp add: bend_def)
qed

lemma next_of_append: "b \<notin> set xs \<Longrightarrow> next_of b (xs @ b # ys) = (case ys of [] \<Rightarrow> None | c # _ \<Rightarrow> Some c)"
proof (induction xs)
  case Nil
  then show ?case by (cases ys) auto
next
  case (Cons x xs)
  then show ?case by (cases xs) auto
qed

lemma prev_of_append: "b \<notin> set ys \<Longrightarrow> prev_of b (xs @ b # ys) = (case rev xs of [] \<Rightarrow> None | c # _ \<Rightarrow> Some c)"
  using next_of_append [of b "rev ys" "rev xs"] by (simp add: prev_of_def)

lemma following_append: "b \<notin> set xs \<Longrightarrow> following b (xs @ b # ys) = ys"
  by (induction xs) (auto simp: following_def)

text \<open>A state in the course of \<open>ExpRebuildFreeBlocks\<close>: the free block \<open>b\<close> may have free neighbours.\<close>

definition hole :: "nat \<Rightarrow> nat \<Rightarrow> u32 list \<Rightarrow> u32 \<Rightarrow> u32 list \<Rightarrow> heap \<Rightarrow> bool" where
  "hole a e xs b ys h \<longleftrightarrow> heap_wf a e h \<and> OrderL h = xs @ b # ys \<and> bfree (Mem h) b
     \<and> nadj (bfree (Mem h)) xs \<and> nadj (bfree (Mem h)) ys \<and> HeadType h \<noteq> HEAP_BLOCK_FREE \<and> \<not> InExGuardedRegion h"

lemma hole_absorb:
  assumes "hole a e xs b (c # ys) h" and "bfree (Mem h) c"
  shows "hole a e xs b ys (absorb b c h)" and "ys = [] \<or> \<not> bfree (Mem (absorb b c h)) (hd ys)"
    and "AllocL (absorb b c h) = AllocL h" and "others_same d h (absorb b c h)" and "rest_same h (absorb b c h)"
proof -
  from assms have h: "heap_wf a e h" "OrderL h = xs @ b # c # ys" "bfree (Mem h) b" "nadj (bfree (Mem h)) xs"
    "nadj (bfree (Mem h)) (c # ys)" "HeadType h \<noteq> HEAP_BLOCK_FREE" "\<not> InExGuardedRegion h" by (auto simp: hole_def)
  note A = absorb [OF h(1,2,3) assms(2) h(7)]
  have F: "bfree (Mem (absorb b c h)) x = bfree (Mem h) x" if "x \<in> set xs \<union> set ys" for x
    using A(6) that by (simp add: bfree_def)
  have n: "nadj (bfree (Mem (absorb b c h))) xs" "nadj (bfree (Mem (absorb b c h))) ys"
    using h(4,5) F by (auto simp: nadj_Cons cong: nadj_cong)
  show "hole a e xs b ys (absorb b c h)" using A n h(6,7) by (simp add: hole_def rest_same_def)
  show "ys = [] \<or> \<not> bfree (Mem (absorb b c h)) (hd ys)"
    using h(5) assms(2) F by (cases ys) (auto simp: nadj_Cons)
  show "AllocL (absorb b c h) = AllocL h" "others_same d h (absorb b c h)" "rest_same h (absorb b c h)" using A by auto
qed

lemma others_same_refl: "others_same d h h"
  by (simp add: others_same_def same_on_def)

lemma merge_down_ok:
  assumes "hole a e xs b ys h"
  shows "\<exists>ys'. hole a e xs b ys' (merge_down b ys h) \<and> (ys' = [] \<or> \<not> bfree (Mem (merge_down b ys h)) (hd ys'))
    \<and> AllocL (merge_down b ys h) = AllocL h \<and> others_same d h (merge_down b ys h) \<and> rest_same h (merge_down b ys h)"
proof (cases "\<exists>c cs. ys = c # cs \<and> bfree (Mem h) c")
  case True
  then obtain c cs where c: "ys = c # cs" "bfree (Mem h) c" by blast
  note A = hole_absorb [OF assms [unfolded c(1)] c(2)]
  have "merge_down b cs (absorb b c h) = absorb b c h"
    using A(2) by (cases cs) (auto simp: bfree_def)
  then have "merge_down b ys h = absorb b c h" using c by (simp add: bfree_def)
  then show ?thesis using A by auto
next
  case False
  then have "merge_down b ys h = h" by (cases ys) (auto simp: bfree_def)
  then show ?thesis using assms False by (cases ys) (auto simp: others_same_refl rest_same_def)
qed

lemma hole_coalesced:
  "hole a e xs b ys h \<Longrightarrow> ys = [] \<or> \<not> bfree (Mem h) (hd ys) \<Longrightarrow> xs = [] \<or> \<not> bfree (Mem h) (last xs) \<Longrightarrow> coalesced h"
  by (auto simp: hole_def coalesced_nadj nadj_append nadj_Cons)

lemma merge_up_ok:
  assumes H: "hole a e xs b ys h" and hd: "ys = [] \<or> \<not> bfree (Mem h) (hd ys)"
  shows "\<exists>h'. merge_up b h = Inr h' \<and> heap_wf a e h' \<and> coalesced h' \<and> AllocL h' = AllocL h \<and> others_same d h h' \<and> rest_same h h'
    \<and> (b \<in> set (OrderL h') \<and> bfree (Mem h') b \<or> (\<forall>x\<in>rng (unat b) 32. Mem h' x = FREED_PADDING))"
proof -
  from H have h: "heap_wf a e h" "OrderL h = xs @ b # ys" "HeadType h \<noteq> HEAP_BLOCK_FREE" by (auto simp: hole_def)
  have "distinct (xs @ b # ys)" using tiles_distinct [of "Mem h" a "OrderL h" e] h by (simp add: heap_wf_def)
  then have pb: "prev_of b (OrderL h) = (case rev xs of [] \<Rightarrow> None | c # _ \<Rightarrow> Some c)" "b \<notin> set ys"
    by (simp_all add: h(2) prev_of_append)
  show ?thesis
  proof (cases "\<exists>us c. xs = us @ [c] \<and> bfree (Mem h) c")
    case False
    then have e: "xs = [] \<or> \<not> bfree (Mem h) (last xs)" by (metis append_butlast_last_id)
    have "merge_up b h = Inr h"
      using False h(3) by (cases xs rule: rev_cases) (auto simp: merge_up_def pb bfree_def)
    then show ?thesis using hole_coalesced [OF H hd e] h(1) H by (simp add: others_same_refl rest_same_def hole_def)
  next
    case True
    then obtain us c where c: "xs = us @ [c]" "bfree (Mem h) c" by blast
    have n: "nadj (bfree (Mem h)) (us @ [c])" "nadj (bfree (Mem h)) (b # ys)" "bfree (Mem h) b"
      using H hd by (auto simp: hole_def c(1) nadj_Cons)
    then have H': "hole a e us c (b # ys) h" using H by (auto simp: hole_def c nadj_append)
    note A = hole_absorb [OF H' n(3)]
    let ?h = "absorb c b h"
    have o: "OrderL ?h = us @ c # ys" and wf: "heap_wf a e ?h" using A(1) by (auto simp: hole_def)
    have "distinct (us @ c # ys)" using tiles_distinct [of "Mem ?h" a "OrderL ?h" e] wf o by (simp add: heap_wf_def)
    then have pc: "prev_of c (OrderL ?h) = (case rev us of [] \<Rightarrow> None | d # _ \<Rightarrow> Some d)" by (simp add: o prev_of_append)
    have hs: "hdr (Mem ?h) x = hdr (Mem h) x" if "x \<in> set us" for x
      using absorb(6) [of a e h us c b ys] H' n(3) that by (auto simp: hole_def)
    have l: "us = [] \<or> \<not> bfree (Mem ?h) (last us)"
      using n(1) c(2) hs [of "last us"] by (cases us rule: rev_cases) (auto simp: nadj_append nadj_Cons bfree_def)
    have "merge_up b h = Inr ?h"
      using c pc l by (cases us rule: rev_cases) (auto simp: merge_up_def pb(1) bfree_def)
    moreover have "\<forall>x\<in>rng (unat b) 32. Mem ?h x = FREED_PADDING"
      using absorb(8) [of a e h us c b ys] H' n(3) by (auto simp: hole_def)
    ultimately show ?thesis using A wf hole_coalesced [OF A(1,2) l] by auto
  qed
qed

lemma ExpFreeHeapBlock_ok:
  assumes wf: "heap_wf a e h" "coalesced h" and b: "b \<in> set (AllocL h)"
    and hd: "HeadType h \<noteq> HEAP_BLOCK_FREE" "\<not> InExGuardedRegion h"
  shows "\<exists>h'. ExpFreeHeapBlock b h = Inr h' \<and> heap_wf a e h' \<and> coalesced h' \<and> set (AllocL h') = set (AllocL h) - {b}
    \<and> others_same b h h' \<and> rest_same h h'
    \<and> (b \<in> set (OrderL h') \<and> bfree (Mem h') b \<or> (\<forall>x\<in>rng (unat b) 32. Mem h' x = FREED_PADDING))"
proof -
  have bo: "b \<in> set (OrderL h)" "\<not> bfree (Mem h) b" using heap_wf_alloc [OF wf(1)] b by auto
  obtain xs ys where o: "OrderL h = xs @ b # ys" "b \<notin> set xs" "b \<notin> set ys"
    using heap_wf_split [OF wf(1) bo(1)] by metis
  let ?h1 = "mark_free b h"
  note M = mark_free [OF wf(1) b o(1)]
  have F: "bfree (Mem ?h1) x = bfree (Mem h) x" if "x \<in> set xs \<union> set ys" for x using M(6) that by (simp add: bfree_def)
  have "nadj (bfree (Mem h)) (xs @ b # ys)" using wf(2) by (simp add: coalesced_nadj o)
  then have "nadj (bfree (Mem ?h1)) xs" "nadj (bfree (Mem ?h1)) ys"
    using F by (auto simp: nadj_append nadj_Cons cong: nadj_cong)
  then have H: "hole a e xs b ys ?h1" using M hd by (simp add: hole_def rest_same_def)
  from merge_down_ok [OF H, of b] obtain ys' where
    D: "hole a e xs b ys' (merge_down b ys ?h1)" "ys' = [] \<or> \<not> bfree (Mem (merge_down b ys ?h1)) (List.hd ys')"
    "AllocL (merge_down b ys ?h1) = AllocL ?h1" "others_same b ?h1 (merge_down b ys ?h1)" "rest_same ?h1 (merge_down b ys ?h1)"
    by blast
  from merge_up_ok [OF D(1,2), of b] obtain h' where
    U: "merge_up b (merge_down b ys ?h1) = Inr h'" "heap_wf a e h'" "coalesced h'" "AllocL h' = AllocL (merge_down b ys ?h1)"
    "others_same b (merge_down b ys ?h1) h'" "rest_same (merge_down b ys ?h1) h'"
    "b \<in> set (OrderL h') \<and> bfree (Mem h') b \<or> (\<forall>x\<in>rng (unat b) 32. Mem h' x = FREED_PADDING)" by blast
  have "ExpCheckBlockValid b ?h1 = Inr ()" using wf_valid [OF M(1)] M(2) by simp
  then have "ExpFreeHeapBlock b h = Inr h'"
    using U(1) hd M(2,7) o(2) by (simp add: ExpFreeHeapBlock_def Let_def ExpRebuildFreeBlocks_def following_append
        log_free_def rest_same_def flip: mark_free_def)
  moreover have "others_same b h h'"
    using others_same_trans [OF M(5) others_same_trans [OF D(4) U(5)]] M(4) D(3) by auto
  moreover have "rest_same h h'" using M(7) D(5) U(6) by (simp add: rest_same_def)
  ultimately show ?thesis using U(2-4,7) D(3) M(4) by (intro exI [of _ h']) simp
qed

end
