(* ===== verification/HeapProps.thy ===== *)
theory HeapProps
  imports ExHeap
begin

text \<open>
  What the kernel heap promises: it is an \<open>allocator\<close> (theory \<open>Allocator\<close>), from the state that
  \<open>ExInitializeHeap\<close> leaves on; it finds writes past a block when the block is freed; and where it
  fails.
\<close>

subsection \<open>The heap as an allocator\<close>

lemma regions_disjoint:
  assumes "heap_wf a e h" and "b \<in> set (OrderL h)" and "c \<in> set (OrderL h)" and "b \<noteq> c"
  shows "region (Mem h) b \<inter> region (Mem h) c = {}"
proof -
  obtain xs ys where o: "OrderL h = xs @ b # ys" "tiles (Mem h) a xs (unat b)" using heap_wf_split [OF assms(1,2)] by metis
  have "tiles (Mem h) a (xs @ [b] @ ys) e" using assms(1) o by (simp add: heap_wf_def)
  moreover have "tiles (Mem h) (unat b) [b] (bend (Mem h) b)" by simp
  moreover have "c \<in> set xs \<union> set ys" using assms(3,4) o(1) by auto
  ultimately have "region (Mem h) c \<inter> rng (unat b) (bend (Mem h) b - unat b) = {}" using o(2) by (intro region_outside)
  then show ?thesis by (auto simp: region_def)
qed

lemma alloc_block:
  assumes "heap_wf a e h" and "b \<in> set (AllocL h)"
  shows "bend (Mem h) b < 2 ^ 32" "bpad (Mem h) b \<le> 16 * bsize (Mem h) b" "unat (data_of b) = unat b + 32"
    "rng (unat (data_of b)) (usable (Mem h) b) \<subseteq> region (Mem h) b"
proof -
  have b: "b \<in> set (OrderL h)" "\<not> bfree (Mem h) b" using heap_wf_alloc [OF assms(1)] assms(2) by auto
  from heap_wf_split [OF assms(1) b(1)] show e: "bend (Mem h) b < 2 ^ 32" by metis
  show "bpad (Mem h) b \<le> 16 * bsize (Mem h) b"
    using assms(1) b by (auto simp: heap_wf_def block_ok_def bfree_def Let_def)
  show d: "unat (data_of b) = unat b + 32" using e by (intro unat_data) (simp add: bend_def)
  show "rng (unat (data_of b)) (usable (Mem h) b) \<subseteq> region (Mem h) b"
    by (auto simp: rng_def region_def d bend_def usable_def)
qed

lemma data_of_inj: "data_of b = data_of c \<longleftrightarrow> b = c"
  by (simp add: data_of_def)

lemma block_of_data [simp]: "block_of (data_of b) = b"
  by (simp add: block_of_def data_of_def)

text \<open>The blocks that are handed out and not locked, with the bytes their owners may use.\<close>

definition heap_live :: "heap \<Rightarrow> (u32 \<times> nat) set" where
  "heap_live h = (\<lambda>b. (data_of b, usable (Mem h) b)) ` {b \<in> set (AllocL h). BlockType (hdr (Mem h) b) = HEAP_BLOCK_ALLOCATED}"

definition heap_alloc :: "u32 \<Rightarrow> heap \<Rightarrow> (u32 \<times> heap) option" where
  "heap_alloc n h = (case ExAllocateHeap True n h of Inl e \<Rightarrow> None | Inr r \<Rightarrow> Some r)"

definition heap_release :: "u32 \<Rightarrow> heap \<Rightarrow> heap option" where
  "heap_release p h = (case ExFreeHeap p h of Inl e \<Rightarrow> None | Inr h' \<Rightarrow> Some h')"

definition heap_store :: "u32 \<Rightarrow> u8 \<Rightarrow> heap \<Rightarrow> heap" where
  "heap_store x v = set_mem (\<lambda>m. m(x := v))"

lemma heap_liveE:
  assumes "(p, n) \<in> heap_live h"
  obtains b where "p = data_of b" "n = usable (Mem h) b" "b \<in> set (AllocL h)" "BlockType (hdr (Mem h) b) = HEAP_BLOCK_ALLOCATED"
  using assms by (auto simp: heap_live_def)

lemma heap_inv_wf: "heap_inv a e h \<Longrightarrow> heap_wf a e h"
  by (simp add: heap_inv_def heap_ok_def)

lemma usable_cong: "hdr m' b = hdr m b \<Longrightarrow> usable m' b = usable m b"
  by (simp add: usable_def bsize_def bpad_def)

lemma heap_live_disjoint:
  assumes "heap_inv a e h" and "(p, n) \<in> heap_live h" and "(q, k) \<in> heap_live h" and "(p, n) \<noteq> (q, k)"
  shows "p \<noteq> q \<and> rng (unat p) n \<inter> rng (unat q) k = {}"
proof -
  note wf = heap_inv_wf [OF assms(1)]
  obtain b where b: "p = data_of b" "n = usable (Mem h) b" "b \<in> set (AllocL h)" using assms(2) by (elim heap_liveE)
  obtain c where c: "q = data_of c" "k = usable (Mem h) c" "c \<in> set (AllocL h)" using assms(3) by (elim heap_liveE)
  have "b \<noteq> c" using assms(4) b c by auto
  moreover have "region (Mem h) b \<inter> region (Mem h) c = {}"
    using regions_disjoint [OF wf _ _ calculation] heap_wf_alloc [OF wf] b(3) c(3) by blast
  ultimately show ?thesis using alloc_block(4) [OF wf b(3)] alloc_block(4) [OF wf c(3)] b c by (auto simp: data_of_inj)
qed

lemma heap_alloc_law:
  assumes inv: "heap_inv a e h" and s: "s \<le> 0xFFFFFFF0"
  shows "\<exists>p h'. heap_alloc s h = Some (p, h') \<and> heap_inv a e h'
    \<and> (if p = 0 then heap_live h' = heap_live h else p \<notin> fst ` heap_live h \<and> heap_live h' = insert (p, unat s) (heap_live h))
    \<and> (\<forall>(q, k)\<in>heap_live h. \<forall>x\<in>rng (unat q) k. Mem h' x = Mem h x)"
  using ExAllocateHeap_spec [OF inv s, of True]
proof (elim disjE conjE exE)
  assume "ExAllocateHeap True s h = Inr (0, h)"
  then show ?thesis using inv by (intro exI [of _ 0] exI [of _ h]) (simp add: heap_alloc_def)
next
  fix b h'
  assume r: "ExAllocateHeap True s h = Inr (data_of b, h')" "heap_inv a e h'" "b \<in> set (FreeL h)" "allocated a e b (unat s) h h'"
  note wf = heap_inv_wf [OF inv] and wf' = heap_inv_wf [OF r(2)]
  have al: "AllocL h' = AllocL h @ [b]" "BlockType (hdr (Mem h') b) = HEAP_BLOCK_ALLOCATED" "usable (Mem h') b = unat s"
    "\<forall>c\<in>set (AllocL h). hdr (Mem h') c = hdr (Mem h) c" "\<forall>x. x \<notin> region (Mem h) b \<longrightarrow> Mem h' x = Mem h x"
    using r(4) by (auto simp: allocated_def region_def)
  have nb: "b \<in> set (OrderL h)" "b \<notin> set (AllocL h)" using r(3) heap_wf_free [OF wf] heap_wf_alloc [OF wf] by auto
  have "unat (data_of b) \<noteq> 0" using alloc_block(3) [OF wf', of b] al(1) by simp
  then have nz: "data_of b \<noteq> 0" by (metis unat_0)
  have us: "usable (Mem h') c = usable (Mem h) c" "BlockType (hdr (Mem h') c) = BlockType (hdr (Mem h) c)"
    if "c \<in> set (AllocL h)" for c using usable_cong [of "Mem h'" c "Mem h"] al(4) that by simp_all
  have "{c \<in> set (AllocL h'). BlockType (hdr (Mem h') c) = HEAP_BLOCK_ALLOCATED}
      = insert b {c \<in> set (AllocL h). BlockType (hdr (Mem h) c) = HEAP_BLOCK_ALLOCATED}"
    using al(1,2) us(2) by auto
  then have "heap_live h' = insert (data_of b, unat s) (heap_live h)"
    unfolding heap_live_def using us(1) al(3) by auto
  moreover have "data_of b \<notin> fst ` heap_live h" using nb by (auto simp: heap_live_def data_of_inj)
  moreover have "Mem h' x = Mem h x" if q: "(q, k) \<in> heap_live h" and x: "x \<in> rng (unat q) k" for q k x
  proof -
    obtain c where c: "q = data_of c" "k = usable (Mem h) c" "c \<in> set (AllocL h)" using q by (elim heap_liveE)
    have "c \<in> set (OrderL h)" "b \<noteq> c" using heap_wf_alloc [OF wf] c(3) nb by auto
    from regions_disjoint [OF wf nb(1) this] alloc_block(4) [OF wf c(3)] x c
    have "x \<notin> region (Mem h) b" by auto
    then show ?thesis using al(5) by blast
  qed
  ultimately show ?thesis using r(1,2) nz by (intro exI [of _ "data_of b"] exI [of _ h']) (auto simp: heap_alloc_def)
qed

lemma ExFreeHeap_live:
  assumes inv: "heap_inv a e h" and b: "b \<in> set (AllocL h)" "BlockType (hdr (Mem h) b) = HEAP_BLOCK_ALLOCATED"
  shows "\<exists>h'. ExFreeHeap (data_of b) h = Inr h' \<and> heap_inv a e h' \<and> set (AllocL h') = set (AllocL h) - {b}
    \<and> others_same b h h' \<and> HeapCookie h' = HeapCookie h
    \<and> (b \<in> set (OrderL h') \<and> bfree (Mem h') b \<or> (\<forall>x\<in>rng (unat b) 32. Mem h' x = FREED_PADDING))"
proof -
  let ?h = "h\<lparr>HeapLock := True\<rparr>"
  from inv have ok: "heap_wf a e h" "coalesced h" "\<not> HeapLock h" "HeadType h \<noteq> HEAP_BLOCK_FREE" "\<not> InExGuardedRegion h"
    by (auto simp: heap_inv_def heap_ok_def)
  have fld: "Mem ?h = Mem h" "AllocL ?h = AllocL h" "OrderL ?h = OrderL h" "HeapCookie ?h = HeapCookie h" by simp_all
  have bo: "b \<in> set (OrderL ?h)" using heap_wf_alloc [OF ok(1)] b(1) by simp
  have v: "ExpCheckBlockValid b ?h = Inr ()" using wf_valid [of a e ?h b] ok(1) bo by simp
  from ExpFreeHeapBlock_ok [of a e ?h b] ok b(1) obtain h' where
    h': "ExpFreeHeapBlock b ?h = Inr h'" "heap_wf a e h'" "coalesced h'" "set (AllocL h') = set (AllocL h) - {b}"
    "others_same b ?h h'" "rest_same ?h h'"
    "b \<in> set (OrderL h') \<and> bfree (Mem h') b \<or> (\<forall>x\<in>rng (unat b) 32. Mem h' x = FREED_PADDING)" by auto
  have "ExFreeHeap (data_of b) h = Inr (ExpReleaseHeapLock h')"
    using ok(3) v b(2) h'(1) by (simp add: ExFreeHeap_def ExpAcquireHeapLock_def HEAP_BLOCK_ALLOCATED_def
        HEAP_BLOCK_LOCKED_def HEAP_BLOCK_FREE_def FREED_PADDING_def)
  moreover have "heap_inv a e (ExpReleaseHeapLock h')"
    using h'(2,3,6) ok(4,5) by (simp add: heap_inv_def heap_ok_def ExpReleaseHeapLock_def rest_same_def)
  ultimately show ?thesis using h'(4-7) by (auto simp: ExpReleaseHeapLock_def others_same_def rest_same_def)
qed

lemma heap_release_law:
  assumes inv: "heap_inv a e h" and pn: "(p, n) \<in> heap_live h"
  shows "\<exists>h'. heap_release p h = Some h' \<and> heap_inv a e h' \<and> heap_live h' = heap_live h - {(p, n)}
    \<and> (\<forall>(q, k)\<in>heap_live h'. \<forall>x\<in>rng (unat q) k. Mem h' x = Mem h x)"
proof -
  note wf = heap_inv_wf [OF inv]
  obtain b where b: "p = data_of b" "n = usable (Mem h) b" "b \<in> set (AllocL h)" "BlockType (hdr (Mem h) b) = HEAP_BLOCK_ALLOCATED"
    using pn by (elim heap_liveE)
  from ExFreeHeap_live [OF inv b(3,4)] obtain h' where
    h': "ExFreeHeap (data_of b) h = Inr h'" "heap_inv a e h'" "set (AllocL h') = set (AllocL h) - {b}" "others_same b h h'" by blast
  have hs: "hdr (Mem h') c = hdr (Mem h) c" "same_on (region (Mem h) c) (Mem h) (Mem h')" if "c \<in> set (AllocL h')" for c
    using h'(3,4) that by (auto simp: others_same_def)
  have us: "usable (Mem h') c = usable (Mem h) c" "BlockType (hdr (Mem h') c) = BlockType (hdr (Mem h) c)"
    if "c \<in> set (AllocL h')" for c using hs(1) [OF that] usable_cong [of "Mem h'" c "Mem h"] by simp_all
  have "{c \<in> set (AllocL h'). BlockType (hdr (Mem h') c) = HEAP_BLOCK_ALLOCATED}
      = {c \<in> set (AllocL h). BlockType (hdr (Mem h) c) = HEAP_BLOCK_ALLOCATED} - {b}"
    using h'(3) us(2) by auto
  then have "heap_live h' = (\<lambda>c. (data_of c, usable (Mem h) c)) ` ({c \<in> set (AllocL h). BlockType (hdr (Mem h) c) = HEAP_BLOCK_ALLOCATED} - {b})"
    unfolding heap_live_def using us(1) h'(3) by (intro image_cong) auto
  also have "\<dots> = heap_live h - {(p, n)}" using b by (auto simp: heap_live_def data_of_inj)
  finally have "heap_live h' = heap_live h - {(p, n)}" .
  moreover have "Mem h' x = Mem h x" if q: "(q, k) \<in> heap_live h'" and x: "x \<in> rng (unat q) k" for q k x
  proof -
    obtain c where c: "q = data_of c" "k = usable (Mem h') c" "c \<in> set (AllocL h')" using q by (elim heap_liveE)
    have "x \<in> region (Mem h) c"
      using alloc_block(4) [OF wf, of c] usable_cong [OF hs(1) [OF c(3)]] c h'(3) x by auto
    then show ?thesis using hs(2) [OF c(3)] by (simp add: same_on_def)
  qed
  ultimately show ?thesis using h'(1,2) b(1) by (intro exI [of _ h']) (auto simp: heap_release_def)
qed

text \<open>A store into the bytes that a block's owner may use.\<close>

lemma heap_store_law:
  assumes inv: "heap_inv a e h" and pn: "(p, n) \<in> heap_live h" and x: "x \<in> rng (unat p) n"
  shows "heap_inv a e (heap_store x v h) \<and> heap_live (heap_store x v h) = heap_live h
    \<and> Mem (heap_store x v h) = (Mem h)(x := v)"
proof -
  note wf = heap_inv_wf [OF inv]
  obtain b where b: "p = data_of b" "n = usable (Mem h) b" "b \<in> set (AllocL h)" "BlockType (hdr (Mem h) b) = HEAP_BLOCK_ALLOCATED"
    using pn by (elim heap_liveE)
  define m' where "m' = (Mem h)(x := v)"
  let ?h = "h\<lparr>Mem := m'\<rparr>"
  have h': "heap_store x v h = ?h" by (simp add: heap_store_def set_mem_def m'_def)
  have bo: "b \<in> set (OrderL h)" using heap_wf_alloc [OF wf] b(3) by simp
  have bd: "bend (Mem h) b < 2 ^ 32" "bpad (Mem h) b \<le> 16 * bsize (Mem h) b" using alloc_block [OF wf b(3)] by auto
  have x': "x \<in> rng (unat b + 32) (usable (Mem h) b)" using x b alloc_block(3) [OF wf b(3)] by simp
  have xr: "x \<in> region (Mem h) b" using x b alloc_block(4) [OF wf b(3)] by auto
  have hb: "hdr m' b = hdr (Mem h) b"
    using bd x' by (intro hdr_same) (auto simp: same_on_def m'_def bend_def rng_def)
  have hc: "hdr m' c = hdr (Mem h) c \<and> block_ok (HeapCookie h) m' c = block_ok (HeapCookie h) (Mem h) c"
    if c: "c \<in> set (OrderL h)" "c \<noteq> b" for c
  proof (rule block_same)
    have "x \<notin> region (Mem h) c" using regions_disjoint [OF wf bo c(1)] c(2) xr by blast
    then show "same_on (rng (unat c) (32 + 16 * bsize (Mem h) c)) (Mem h) m'"
      by (auto simp: same_on_def m'_def region_def bend_def)
    show "bend (Mem h) c \<le> 2 ^ 32" using heap_wf_split [OF wf c(1)] by (metis less_imp_le)
  qed
  have eq: "bsize m' b = bsize (Mem h) b" "bpad m' b = bpad (Mem h) b" "usable m' b = usable (Mem h) b"
    by (simp_all add: bsize_def bpad_def usable_def hb)
  have okb: "block_ok (HeapCookie h) m' b"
  proof -
    have "block_ok (HeapCookie h) (Mem h) b" using heap_wf_split [OF wf bo] by metis
    moreover have "m' y = Mem h y" if "y \<in> rng (unat b + 32 + usable (Mem h) b) (bpad (Mem h) b)" for y
      using that x' by (auto simp: m'_def rng_def)
    ultimately show ?thesis using b(4) unfolding block_ok_def Let_def hb eq
      by (simp add: HEAP_BLOCK_FREE_def HEAP_BLOCK_ALLOCATED_def)
  qed
  have hs: "hdr m' c = hdr (Mem h) c" if "c \<in> set (OrderL h)" for c using hb hc that by blast
  have f: "bfree m' c = bfree (Mem h) c" if "c \<in> set (OrderL h)" for c using hs that by (simp add: bfree_def)
  have "tiles m' a (OrderL h) e" using wf tiles_cong [of "OrderL h" m' "Mem h"] hs by (simp add: heap_wf_def)
  moreover have "\<forall>c\<in>set (OrderL h). block_ok (HeapCookie h) m' c"
    using okb hc wf unfolding heap_wf_def by blast
  ultimately have "heap_wf a e ?h"
    using wf f by (auto simp: heap_wf_def)
  moreover have "coalesced ?h"
    using inv nadj_cong [of "OrderL h" "bfree m'" "bfree (Mem h)"] f
    by (simp add: heap_inv_def heap_ok_def coalesced_nadj)
  ultimately have "heap_inv a e ?h" using inv by (simp add: heap_inv_def heap_ok_def)
  moreover have "heap_live ?h = heap_live h"
  proof -
    have "BlockType (hdr m' c) = BlockType (hdr (Mem h) c) \<and> usable m' c = usable (Mem h) c" if "c \<in> set (AllocL h)" for c
      using hs usable_cong heap_wf_alloc [OF wf] that by metis
    then show ?thesis by (auto simp: heap_live_def image_iff)
  qed
  ultimately show ?thesis by (simp add: h' m'_def)
qed

interpretation heap: allocator "heap_inv a e" heap_live Mem heap_store heap_alloc heap_release "0xFFFFFFF0" for a e
proof
  fix s p n q k assume "heap_inv a e s" "(p, n) \<in> heap_live s" "(q, k) \<in> heap_live s" "(p, n) \<noteq> (q, k)"
  then show "p \<noteq> q \<and> rng (unat p) n \<inter> rng (unat q) k = {}" by (rule heap_live_disjoint)
next
  fix s and sz :: u32 assume "heap_inv a e s" "sz \<le> 0xFFFFFFF0"
  then show "\<exists>p s'. heap_alloc sz s = Some (p, s') \<and> heap_inv a e s'
      \<and> (if p = 0 then heap_live s' = heap_live s else p \<notin> fst ` heap_live s \<and> heap_live s' = insert (p, unat sz) (heap_live s))
      \<and> (\<forall>(q, k)\<in>heap_live s. \<forall>x\<in>rng (unat q) k. Mem s' x = Mem s x)" by (rule heap_alloc_law)
next
  fix s p n assume "heap_inv a e s" "(p, n) \<in> heap_live s"
  then show "\<exists>s'. heap_release p s = Some s' \<and> heap_inv a e s' \<and> heap_live s' = heap_live s - {(p, n)}
      \<and> (\<forall>(q, k)\<in>heap_live s'. \<forall>x\<in>rng (unat q) k. Mem s' x = Mem s x)" by (rule heap_release_law)
next
  fix s p n x v assume "heap_inv a e s" "(p, n) \<in> heap_live s" "x \<in> rng (unat p) n"
  then show "heap_inv a e (heap_store x v s) \<and> heap_live (heap_store x v s) = heap_live s
      \<and> Mem (heap_store x v s) = (Mem s)(x := v)" by (rule heap_store_law)
qed

subsection \<open>The first state\<close>

lemma ExInitializeHeap_inv:
  assumes "0 < area" and "32 \<le> sz" and "unat area + unat sz < 2 ^ 32" and "ht \<noteq> HEAP_BLOCK_FREE"
  shows "heap_inv (unat area) (unat area + 32 + 16 * ((unat sz - 32) div 16)) (ExInitializeHeap area sz ck ht m)"
proof -
  define n where "n = (sz - sizeof_EHEAP_BLOCK) div EX_HEAP_ALIGN"
  have n: "unat n = (unat sz - 32) div 16"
    using assms(2) by (simp add: n_def sizeof_EHEAP_BLOCK_def EX_HEAP_ALIGN_def unat_div unat_sub)
  then have bnd: "unat area + 32 + 16 * unat n < 2 ^ 32" using assms(2,3) by (simp add: word_le_nat_alt)
  define m0 where "m0 = set_Cookie area ck (set_Size area n (set_BlockType area HEAP_BLOCK_FREE m))"
  define m1 where "m1 = ExpRecalculateChecksumBlock area m0"
  define m2 where "m2 = memset m1 (data_of area) FREED_PADDING (n * EX_HEAP_ALIGN)"
  let ?h = "ExInitializeHeap area sz ck ht m"
  have h: "Mem ?h = m2" "FreeL ?h = [area]" "AllocL ?h = []" "OrderL ?h = [area]" "HeapCookie ?h = ck" "HeadType ?h = ht"
    "\<not> HeapLock ?h" "\<not> InExGuardedRegion ?h"
    by (simp_all add: ExInitializeHeap_def Let_def m0_def m1_def m2_def n_def)
  have u: "unat (data_of area) = unat area + 32" "unat (n * EX_HEAP_ALIGN) = 16 * unat n"
    using unat_data [of area] unat_scaled [of n] bnd by auto
  have in2: "\<not> outside (data_of area) (n * EX_HEAP_ALIGN) x \<longleftrightarrow> x \<in> rng (unat area + 32) (16 * unat n)" for x
    using inside_rng [of "data_of area" "n * EX_HEAP_ALIGN" x] bnd by (simp add: u)
  have hh: "hdr m2 area = hdr m1 area"
  proof (rule hdr_same)
    show "same_on (rng (unat area) 32) m1 m2"
      using in2 by (auto simp: same_on_def m2_def memset_def rng_def)
  qed (use bnd in simp)
  have h0: "Cookie (hdr m0 area) = ck" "Size (hdr m0 area) = n" "BlockType (hdr m0 area) = HEAP_BLOCK_FREE"
    by (simp_all add: m0_def)
  have h1: "Cookie (hdr m2 area) = ck" "Size (hdr m2 area) = n" "BlockType (hdr m2 area) = HEAP_BLOCK_FREE"
    "Magic1 (hdr m2 area) = checksum area (hdr m2 area)" "Magic2 (hdr m2 area) = checksum area (hdr m2 area)"
    by (simp_all add: hh m1_def h0)
  have s: "bsize m2 area = unat n" "bfree m2 area" "bend m2 area = unat area + 32 + 16 * unat n"
    by (simp_all add: bsize_def bend_def bfree_def h1)
  have "m2 x = FREED_PADDING" if "x \<in> rng (unat area + 32) (16 * unat n)" for x
    using that in2 [of x] by (simp add: m2_def memset_in)
  then have "block_ok ck m2 area" using h1 by (simp add: block_ok_def Let_def s)
  then show ?thesis
    using assms(1,4) bnd s by (auto simp: heap_inv_def heap_ok_def heap_wf_def coalesced_def h n word_gt_0 unat_gt_0)
qed

subsection \<open>Finding damage\<close>

text \<open>A check of an allocated block whose header is intact, but not its padding.\<close>

lemma find_damage_some:
  assumes "i < n" and "m (p + of_nat i) \<noteq> c"
  shows "\<exists>x. find_damage m p c n = Some x \<and> x \<noteq> c"
proof -
  have "\<exists>i\<in>set [0..<n]. m (p + of_nat i) \<noteq> c" using assms by auto
  then obtain j where j: "find (\<lambda>i. m (p + of_nat i) \<noteq> c) [0..<n] = Some j"
    by (metis (mono_tags, lifting) find_None_iff not_None_eq)
  then show ?thesis by (auto simp: find_damage_def find_Some_iff)
qed

lemma damage_found:
  assumes ok: "block_ok ck m b" "BlockType (hdr m b) = HEAP_BLOCK_ALLOCATED" "bend m b < 2 ^ 32"
    and hd: "hdr m' b = hdr m b" and x: "x \<in> rng (unat b + 32 + usable m b) (bpad m b)" "m' x \<noteq> ALLOCATED_PADDING"
    and h: "Mem h = m'" "HeapCookie h = ck"
  shows "\<exists>v. v \<noteq> ALLOCATED_PADDING \<and> ExpCheckBlockValid b h
    = Inl (heap_bug HEAP_BLOCK_VALIDITY_CHECK_FAILED HEAP_VALIDATION_OVERFLOW_DETECTED b (ucast v))"
proof -
  let ?B = "hdr m b"
  have B: "Cookie ?B = ck" "Magic1 ?B = checksum b ?B" "Magic2 ?B = checksum b ?B" "bpad m b \<le> 16 * bsize m b"
    using ok(1,2) by (auto simp: block_ok_def Let_def HEAP_BLOCK_FREE_def HEAP_BLOCK_ALLOCATED_def)
  define p where "p = data_of b + Size ?B * EX_HEAP_ALIGN - ucast (PaddingSize ?B)"
  have e: "unat (data_of b + Size ?B * EX_HEAP_ALIGN) = bend m b" using unat_bend [OF ok(3)] .
  have "(ucast (PaddingSize ?B) :: u32) \<le> data_of b + Size ?B * EX_HEAP_ALIGN"
    using e B(4) by (simp add: word_le_nat_alt unat_ucast_u8_u32 bpad_def bend_def)
  then have u: "unat p = unat b + 32 + usable m b"
    using e B(4) by (simp add: p_def unat_sub unat_ucast_u8_u32 bpad_def bend_def usable_def)
  define i where "i = unat x - unat p"
  have i: "i < bpad m b" "unat x = unat p + i" using x(1) by (auto simp: i_def rng_def u)
  have "p + of_nat i = x"
    using i(2) by (simp add: i_def of_nat_diff)
  then obtain v where v: "find_damage m' p ALLOCATED_PADDING (bpad m b) = Some v" "v \<noteq> ALLOCATED_PADDING"
    using find_damage_some [OF i(1), of m' p] x(2) by auto
  have "ExpCheckBlockValid b h
      = Inl (heap_bug HEAP_BLOCK_VALIDITY_CHECK_FAILED HEAP_VALIDATION_OVERFLOW_DETECTED b (ucast v))"
    using v(1) B ok(2) by (simp add: ExpCheckBlockValid_def Let_def h hd ExpChecksumBlock_hdr p_def bpad_def)
  then show ?thesis using v(2) by blast
qed

lemma free_overflowed:
  assumes inv: "heap_inv a e h" and pn: "(p, n) \<in> heap_live h"
    and m': "\<forall>x\<in>rng (unat p - 32) 32. m' x = Mem h x"
    and x: "x \<in> rng (unat p + n) (bpad (Mem h) (block_of p))" "m' x \<noteq> ALLOCATED_PADDING"
  shows "\<exists>v. v \<noteq> ALLOCATED_PADDING \<and> ExFreeHeap p (h\<lparr>Mem := m'\<rparr>)
    = Inl (heap_bug HEAP_BLOCK_VALIDITY_CHECK_FAILED HEAP_VALIDATION_OVERFLOW_DETECTED (block_of p) (ucast v))"
proof -
  note wf = heap_inv_wf [OF inv]
  obtain b where b: "p = data_of b" "n = usable (Mem h) b" "b \<in> set (AllocL h)" "BlockType (hdr (Mem h) b) = HEAP_BLOCK_ALLOCATED"
    using pn by (elim heap_liveE)
  have bo: "b \<in> set (OrderL h)" using heap_wf_alloc [OF wf] b(3) by simp
  have bd: "bend (Mem h) b < 2 ^ 32" "unat p = unat b + 32" using alloc_block [OF wf b(3)] b(1) by auto
  have ok: "block_ok (HeapCookie h) (Mem h) b" using heap_wf_split [OF wf bo] by metis
  have hd: "hdr m' b = hdr (Mem h) b"
    using m' bd by (intro hdr_same) (auto simp: same_on_def bend_def)
  have "x \<in> rng (unat b + 32 + usable (Mem h) b) (bpad (Mem h) b)" using x(1) bd(2) b by simp
  from damage_found [OF ok b(4) bd(1) hd this x(2), of "h\<lparr>Mem := m', HeapLock := True\<rparr>"]
  obtain v where v: "v \<noteq> ALLOCATED_PADDING" "ExpCheckBlockValid b (h\<lparr>Mem := m', HeapLock := True\<rparr>)
      = Inl (heap_bug HEAP_BLOCK_VALIDITY_CHECK_FAILED HEAP_VALIDATION_OVERFLOW_DETECTED b (ucast v))" by auto
  moreover have "\<not> HeapLock h" using inv by (simp add: heap_inv_def heap_ok_def)
  ultimately show ?thesis by (auto simp: ExFreeHeap_def ExpAcquireHeapLock_def b(1) Let_def)
qed

text \<open>Freeing a block twice. The header of a block that was merged into the one before it has the free
  pattern, whose checksum may be right; then the type is not.\<close>

lemma free_twice:
  assumes inv: "heap_inv a e h" and pn: "(p, n) \<in> heap_live h"
  shows "\<exists>h' bug. ExFreeHeap p h = Inr h' \<and> ExFreeHeap p h' = Inl (HeapBug bug)"
proof -
  obtain b where b: "p = data_of b" "b \<in> set (AllocL h)" "BlockType (hdr (Mem h) b) = HEAP_BLOCK_ALLOCATED"
    using pn by (elim heap_liveE)
  from ExFreeHeap_live [OF inv b(2,3)] obtain h' where h': "ExFreeHeap (data_of b) h = Inr h'" "heap_inv a e h'"
    "b \<in> set (OrderL h') \<and> bfree (Mem h') b \<or> (\<forall>x\<in>rng (unat b) 32. Mem h' x = FREED_PADDING)" by blast
  have bd: "unat b + 32 < 2 ^ 32" using alloc_block(1) [OF heap_inv_wf [OF inv] b(2)] by (simp add: bend_def)
  have t: "BlockType (hdr (Mem h') b) \<in> {HEAP_BLOCK_FREE, FREED_PADDING}"
    using h'(3)
  proof (elim disjE conjE)
    assume all: "\<forall>x\<in>rng (unat b) 32. Mem h' x = FREED_PADDING"
    have "b + 16 \<in> rng (unat b) 32" using bd by (simp add: rng_def unat_word_ariths(1))
    then show ?thesis using all by (simp add: hdr_def)
  qed (simp add: bfree_def)
  let ?h = "h'\<lparr>HeapLock := True\<rparr>"
  have l: "\<not> HeapLock h'" using h'(2) by (simp add: heap_inv_def heap_ok_def)
  have "\<exists>bug. ExFreeHeap (data_of b) h' = Inl (HeapBug bug)"
  proof (cases "ExpCheckBlockValid b ?h")
    case (Inl e)
    then have "\<exists>bug. e = HeapBug bug"
      by (auto simp: ExpCheckBlockValid_def Let_def heap_bug_def split: if_splits option.splits)
    then show ?thesis using Inl l by (auto simp: ExFreeHeap_def ExpAcquireHeapLock_def Let_def)
  next
    case (Inr u)
    then show ?thesis using t l
      by (auto simp: ExFreeHeap_def ExpAcquireHeapLock_def Let_def heap_bug_def HEAP_BLOCK_LOCKED_def HEAP_BLOCK_FREE_def FREED_PADDING_def)
  qed
  with h'(1) b(1) show ?thesis by blast
qed

subsection \<open>Reallocation in place\<close>

text \<open>Giving a live block another padding.\<close>

lemma repad:
  assumes inv: "heap_inv a e h" and b: "b \<in> set (AllocL h)" "BlockType (hdr (Mem h) b) = HEAP_BLOCK_ALLOCATED"
    and pad: "unat pad \<le> 16 * bsize (Mem h) b"
  defines "m' \<equiv> taken_mem b pad (Mem h)"
  defines "h' \<equiv> h\<lparr>Mem := m'\<rparr>"
  shows "heap_inv a e h'"
    and "heap_live h' = heap_live h - {(data_of b, usable (Mem h) b)} \<union> {(data_of b, 16 * bsize (Mem h) b - unat pad)}"
    and "\<forall>(q, k)\<in>heap_live h. q \<noteq> data_of b \<longrightarrow> (\<forall>x\<in>rng (unat q) k. m' x = Mem h x)"
proof -
  note wf = heap_inv_wf [OF inv]
  have bo: "b \<in> set (OrderL h)" "\<not> bfree (Mem h) b" using heap_wf_alloc [OF wf] b by auto
  obtain xs ys where o: "OrderL h = xs @ b # ys" "b \<notin> set xs" "b \<notin> set ys" and t: "tiles (Mem h) a xs (unat b)"
    and bd: "bend (Mem h) b < 2 ^ 32" and ok: "block_ok (HeapCookie h) (Mem h) b"
    using heap_wf_split [OF wf bo(1)] by metis
  have ck: "Cookie (hdr (Mem h) b) = HeapCookie h" using ok by (simp add: block_ok_def Let_def)
  note T = taken_mem_ok [OF bd pad ck, folded m'_def]
  have bt: "BlockType (hdr m' b) = HEAP_BLOCK_ALLOCATED"
    using taken_mem(1) [OF bd pad] by (simp add: m'_def Let_def)
  have out: "m' x = Mem h x" if "x \<notin> rng (unat b) (bend (Mem h) b - unat b)" for x
    using taken_mem(2) [OF bd pad, of x] that by (simp add: m'_def bend_def)
  have e: "bend m' b = bend (Mem h) b" using T(2) by (simp add: bend_def)
  have "heap_wf a e h' \<and> (\<forall>c\<in>set xs \<union> set ys. hdr (Mem h') c = hdr (Mem h) c)"
  proof (rule heap_wf_replace [OF wf, of xs "[b]" ys h' "[b]" "unat b" "bend (Mem h) b"])
    show "set (FreeL h') = set (FreeL h) - set [b] \<union> {x \<in> set [b]. bfree (Mem h') x}"
      using T(4) bo heap_wf_free [OF wf, of b] by (auto simp: h'_def)
    show "set (AllocL h') = set (AllocL h) - set [b] \<union> {x \<in> set [b]. \<not> bfree (Mem h') x}"
      using T(4) b(1) by (auto simp: h'_def)
    show "distinct (FreeL h')" "distinct (AllocL h')" using wf by (simp_all add: heap_wf_def h'_def)
  qed (use o t e T(1) out in \<open>simp_all add: h'_def\<close>)
  then have wf': "heap_wf a e h'" and hs: "\<forall>c\<in>set xs \<union> set ys. hdr m' c = hdr (Mem h) c" by (auto simp: h'_def)
  have "bfree m' c = bfree (Mem h) c" if "c \<in> set (OrderL h)" for c
    using that hs T(4) bo(2) by (auto simp: o(1) bfree_def)
  then have "coalesced h'"
    using inv nadj_cong [of "OrderL h" "bfree m'" "bfree (Mem h)"]
    by (simp add: heap_inv_def heap_ok_def coalesced_nadj h'_def)
  then show "heap_inv a e h'" using wf' inv by (simp add: heap_inv_def heap_ok_def h'_def)
  have H: "hdr m' c = hdr (Mem h) c" if "c \<in> set (AllocL h)" "c \<noteq> b" for c
    using hs heap_wf_alloc [OF wf, of c] that by (auto simp: o(1))
  then have us: "usable m' c = usable (Mem h) c" "BlockType (hdr m' c) = BlockType (hdr (Mem h) c)"
    if "c \<in> set (AllocL h)" "c \<noteq> b" for c using usable_cong [of m' c "Mem h"] that by simp_all
  have ub: "usable m' b = 16 * bsize (Mem h) b - unat pad" by (simp add: usable_def T)
  define L where "L = {c \<in> set (AllocL h). c \<noteq> b \<and> BlockType (hdr (Mem h) c) = HEAP_BLOCK_ALLOCATED}"
  have L: "{c \<in> set (AllocL h). BlockType (hdr (Mem h) c) = HEAP_BLOCK_ALLOCATED} = insert b L"
    "{c \<in> set (AllocL h). BlockType (hdr m' c) = HEAP_BLOCK_ALLOCATED} = insert b L"
    using b bt us(2) by (auto simp: L_def)
  have lv: "heap_live h = insert (data_of b, usable (Mem h) b) ((\<lambda>c. (data_of c, usable (Mem h) c)) ` L)"
    by (simp add: heap_live_def L(1))
  have "heap_live h' = insert (data_of b, usable m' b) ((\<lambda>c. (data_of c, usable m' c)) ` L)"
    by (simp add: heap_live_def h'_def L(2))
  also have "(\<lambda>c. (data_of c, usable m' c)) ` L = (\<lambda>c. (data_of c, usable (Mem h) c)) ` L"
    using us(1) by (intro image_cong) (auto simp: L_def)
  finally show "heap_live h' = heap_live h - {(data_of b, usable (Mem h) b)} \<union> {(data_of b, 16 * bsize (Mem h) b - unat pad)}"
    unfolding lv ub by (auto simp: L_def data_of_inj)
  show "\<forall>(q, k)\<in>heap_live h. q \<noteq> data_of b \<longrightarrow> (\<forall>x\<in>rng (unat q) k. m' x = Mem h x)"
  proof safe
    fix q k x assume q: "(q, k) \<in> heap_live h" "q \<noteq> data_of b" "x \<in> rng (unat q) k"
    have "(data_of b, usable (Mem h) b) \<in> heap_live h" by (simp add: lv)
    obtain c where c: "q = data_of c" "k = usable (Mem h) c" "c \<in> set (AllocL h)" using q(1) by (elim heap_liveE)
    have "c \<in> set (OrderL h)" "b \<noteq> c" using heap_wf_alloc [OF wf] c q(2) by auto
    from regions_disjoint [OF wf bo(1) this] alloc_block(4) [OF wf c(3)] q(3) c
    have "x \<notin> region (Mem h) b" by auto
    then show "m' x = Mem h x" by (intro out) (simp add: region_def)
  qed
qed

lemma taken_mem_alloc:
  "BlockType (hdr m b) = HEAP_BLOCK_ALLOCATED
    \<Longrightarrow> (EXP_WRITE_BLOCK_ALLOC_PADDING b \<circ> ExpRecalculateChecksumBlock b \<circ> set_PaddingSize b pad) m = taken_mem b pad m"
  by (simp add: taken_mem_def hdr_def set_BlockType_def fun_upd_idem)

lemma release_locked: "\<not> HeapLock h \<Longrightarrow> ExpReleaseHeapLock (set_mem f (h\<lparr>HeapLock := True\<rparr>)) = h\<lparr>Mem := f (Mem h)\<rparr>"
  by (simp add: ExpReleaseHeapLock_def set_mem_def)

text \<open>The checks that \<open>ExReallocHeap\<close> begins with pass for a live block.\<close>

lemma realloc_starts:
  assumes "heap_inv a e h" and "b \<in> set (AllocL h)" and "BlockType (hdr (Mem h) b) = HEAP_BLOCK_ALLOCATED"
  shows "ExpAcquireHeapLock h = Inr (h\<lparr>HeapLock := True\<rparr>)" and "ExpCheckBlockValid b (h\<lparr>HeapLock := True\<rparr>) = Inr ()"
    and "\<not> HeapLock h"
proof -
  show l: "\<not> HeapLock h" using assms(1) by (simp add: heap_inv_def heap_ok_def)
  then show "ExpAcquireHeapLock h = Inr (h\<lparr>HeapLock := True\<rparr>)" by (simp add: ExpAcquireHeapLock_def)
  show "ExpCheckBlockValid b (h\<lparr>HeapLock := True\<rparr>) = Inr ()"
    using wf_valid [of a e "h\<lparr>HeapLock := True\<rparr>" b] heap_inv_wf [OF assms(1)] heap_wf_alloc assms(2) by simp
qed

lemma realloc_in_place:
  assumes inv: "heap_inv a e h" and pn: "(p, n) \<in> heap_live h" and s: "s \<le> 0xFFFFFFF0"
    and fit: "unat (units s) \<le> bsize (Mem h) (block_of p)" "bsize (Mem h) (block_of p) < unat (units s) + 2"
  shows "\<exists>h'. ExReallocHeap p s h = Inr (p, h') \<and> heap_inv a e h' \<and> heap_live h' = heap_live h - {(p, n)} \<union> {(p, unat s)}
    \<and> (\<forall>x\<in>rng (unat p) (min n (unat s)). Mem h' x = Mem h x)
    \<and> (\<forall>(q, k)\<in>heap_live h. q \<noteq> p \<longrightarrow> (\<forall>x\<in>rng (unat q) k. Mem h' x = Mem h x))"
proof -
  note wf = heap_inv_wf [OF inv]
  obtain b where b: "p = data_of b" "n = usable (Mem h) b" "b \<in> set (AllocL h)" "BlockType (hdr (Mem h) b) = HEAP_BLOCK_ALLOCATED"
    using pn by (elim heap_liveE)
  define S where "S = Size (hdr (Mem h) b)"
  have S: "bsize (Mem h) b = unat S" by (simp add: S_def bsize_def)
  have f: "units s \<le> S" "S - units s < SIZEOF_HEAP_BLOCK" "unat (units s) \<le> unat S" "unat S < unat (units s) + 2"
    using fit S by (simp_all add: b(1) word_le_nat_alt word_less_nat_alt SIZEOF_HEAP_BLOCK_def unat_sub)
  define pad where "pad = (ucast (S * EX_HEAP_ALIGN - s) :: u8)"
  have bd: "bend (Mem h) b < 2 ^ 32" "unat p = unat b + 32" using alloc_block [OF wf b(3)] b(1) by auto
  note ub = units_bounds [OF s]
  have "unat pad = 16 * unat S - unat s"
    unfolding pad_def using ub f(3,4) bd(1) S by (intro pad_eq) (auto simp: bend_def)
  then have pd: "unat pad \<le> 16 * bsize (Mem h) b" "16 * bsize (Mem h) b - unat pad = unat s"
    using ub(1) f(3) S by auto
  note R = repad [OF inv b(3,4) pd(1)]
  let ?h = "h\<lparr>Mem := taken_mem b pad (Mem h)\<rparr>"
  note st = realloc_starts [OF inv b(3,4)]
  have "ExReallocHeap p s h = Inr (p, ?h)"
    using f(1,2) release_locked [OF st(3)] taken_mem_alloc [OF b(4), of pad]
    by (simp add: ExReallocHeap_def Let_def st(1,2) b(1,4) HEAP_BLOCK_FREE_def HEAP_BLOCK_LOCKED_def
        HEAP_BLOCK_ALLOCATED_def pad_def S_def [symmetric])
  moreover have "\<forall>x\<in>rng (unat p) (min n (unat s)). Mem ?h x = Mem h x"
    using taken_mem(3) [OF bd(1) pd(1)] bd(2) pd(2) by (auto simp: rng_def)
  ultimately show ?thesis using R pd(2) b by (intro exI [of _ ?h]) auto
qed

text \<open>
  Shrinking by exactly two units with no free block behind: the new padding size is computed from
  the old one and wraps around, so that the padding is written over data that is kept.
\<close>

lemma realloc_loses_data:
  assumes inv: "heap_inv a e h" and pn: "(p, n) \<in> heap_live h" and s: "s \<le> 0xFFFFFFF0"
    and fit: "unat (units s) + 2 = bsize (Mem h) (block_of p)" "16 \<le> bsize (Mem h) (block_of p)"
    and nf: "type_at h (next_of (block_of p) (OrderL h)) \<noteq> HEAP_BLOCK_FREE"
    and pad: "bpad (Mem h) (block_of p) + unat s < 16 * unat (units s)"
  shows "\<exists>h' k. ExReallocHeap p s h = Inr (p, h') \<and> (p, k) \<in> heap_live h' \<and> k + 194 \<le> unat s
    \<and> (\<forall>x\<in>rng (unat p + k) (unat s - k). Mem h' x = ALLOCATED_PADDING)"
proof -
  note wf = heap_inv_wf [OF inv]
  obtain b where b: "p = data_of b" "n = usable (Mem h) b" "b \<in> set (AllocL h)" "BlockType (hdr (Mem h) b) = HEAP_BLOCK_ALLOCATED"
    using pn by (elim heap_liveE)
  let ?l = "h\<lparr>HeapLock := True\<rparr>"
  define S where "S = Size (hdr (Mem h) b)"
  define P where "P = PaddingSize (hdr (Mem h) b)"
  have S: "bsize (Mem h) b = unat S" "bpad (Mem h) b = unat P" by (simp_all add: S_def P_def bsize_def bpad_def)
  have f: "units s \<le> S" "S - units s = SIZEOF_HEAP_BLOCK" "unat S = unat (units s) + 2" "unat P + unat s < 16 * unat (units s)" "16 \<le> unat S"
  proof -
    show u: "unat S = unat (units s) + 2" "unat P + unat s < 16 * unat (units s)" "16 \<le> unat S" using fit pad S by (simp_all add: b(1))
    then show le: "units s \<le> S" by (simp add: word_le_nat_alt)
    have "unat (S - units s) = unat SIZEOF_HEAP_BLOCK" using u(1) le by (simp add: unat_sub SIZEOF_HEAP_BLOCK_def)
    then show "S - units s = SIZEOF_HEAP_BLOCK" by (simp only: word_unat_eq_iff)
  qed
  have bd: "bend (Mem h) b < 2 ^ 32" "unat p = unat b + 32" using alloc_block [OF wf b(3)] b(1) by auto
  note ub = units_bounds [OF s]
  define r where "r = 16 * unat (units s) - unat s"
  have r: "unat P < r" "r < 16" "unat s + r = 16 * unat (units s)" using ub f(4) by (auto simp: r_def)
  define pd where "pd = P + ucast (s - units s * EX_HEAP_ALIGN)"
  have "unat (ucast (s - units s * EX_HEAP_ALIGN) :: u8) = 256 - r"
  proof -
    have us: "unat (units s * EX_HEAP_ALIGN) = unat s + r"
      using unat_scaled [of "units s"] r(3) bd(1) f(3) S by (simp add: bend_def)
    then have "units s * EX_HEAP_ALIGN = s + of_nat r" by (metis add.commute of_nat_add of_nat_unat ucast_id)
    then have "s - units s * EX_HEAP_ALIGN = - of_nat r" by simp
    then have "unat (s - units s * EX_HEAP_ALIGN) = 2 ^ 32 - r"
      using r(1,2) by (simp add: unat_neg_nat)
    also have "\<dots> = 256 - r + 16777215 * 256" using r(2) by simp
    finally have u: "unat (s - units s * EX_HEAP_ALIGN) = 256 - r + 16777215 * 256" .
    have "unat (s - units s * EX_HEAP_ALIGN) mod 256 = (256 - r) mod 256" unfolding u by (rule mod_mult_self1)
    then show ?thesis using r(1) by (simp add: unsigned_ucast_eq take_bit_eq_mod)
  qed
  then have q: "unat pd = 256 - (r - unat P)" using r(1,2) by (simp add: pd_def unat_word_ariths(1))
  have le: "unat pd \<le> 16 * bsize (Mem h) b" using q f(5) S by simp
  note R = repad [OF inv b(3,4) le]
  let ?h = "h\<lparr>Mem := taken_mem b pd (Mem h)\<rparr>"
  note st = realloc_starts [OF inv b(3,4)]
  have lk: "set_mem g ?l = ?l\<lparr>Mem := g (Mem h)\<rparr>" for g by (simp add: set_mem_def)
  have ab: "b \<in> set (AllocL ?h)" "b \<in> set (OrderL ?h)" using b(3) heap_wf_alloc [OF wf] by auto
  have v: "ExpCheckBlockValid b (?h\<lparr>HeapLock := True\<rparr>) = Inr ()"
    using wf_valid [of a e "?h\<lparr>HeapLock := True\<rparr>" b] heap_inv_wf [OF R(1)] ab(2) by simp
  have eq: "set_mem (EXP_WRITE_BLOCK_ALLOC_PADDING b \<circ> ExpRecalculateChecksumBlock b \<circ> set_PaddingSize b pd) ?l
      = ?h\<lparr>HeapLock := True\<rparr>" using taken_mem_alloc [OF b(4), of pd] by (simp add: lk)
  have t: "type_at ?l (next_of b (OrderL h)) \<noteq> HEAP_BLOCK_FREE"
    using nf by (simp add: b(1) type_at_def split: option.splits)
  have "ExReallocHeap p s h = Inr (p, ExpReleaseHeapLock (?h\<lparr>HeapLock := True\<rparr>))"
    using f(1,2) t by (simp add: ExReallocHeap_def Let_def st(1,2) b(1) S_def [symmetric] P_def [symmetric]
        pd_def [symmetric] eq v) (simp add: b(4) HEAP_BLOCK_FREE_def HEAP_BLOCK_LOCKED_def HEAP_BLOCK_ALLOCATED_def)
  moreover have "ExpReleaseHeapLock (?h\<lparr>HeapLock := True\<rparr>) = ?h" using st(3) by (simp add: ExpReleaseHeapLock_def)
  moreover define k where "k = 16 * unat S - unat pd"
  have "(p, k) \<in> heap_live ?h" using R(2) b(1) S by (simp add: k_def)
  moreover have "k + 194 \<le> unat s" using q r f(3,5) by (simp add: k_def)
  moreover have "Mem ?h x = ALLOCATED_PADDING" if "x \<in> rng (unat p + k) (unat s - k)" for x
  proof -
    have "x \<in> rng (unat b + 32 + (16 * bsize (Mem h) b - unat pd)) (unat pd)"
      using that bd(2) S q r f(3,5) by (auto simp: rng_def k_def)
    from taken_mem(4) [OF bd(1) le this] show ?thesis by simp
  qed
  ultimately show ?thesis by (intro exI [of _ ?h] exI [of _ k]) auto
qed

subsection \<open>The properties\<close>

text \<open>Histories of the heap; requests of more than \<open>0xFFFFFFF0\<close> bytes wrap around in \<open>ALIGN_UP\<close>.\<close>

abbreviation kheap_run :: "heap \<Rightarrow> client_op list \<Rightarrow> heap \<Rightarrow> bool" where
  "kheap_run \<equiv> client_run heap_live heap_store heap_alloc heap_release 0xFFFFFFF0"

text \<open>A small heap in which one block of 287 bytes is allocated.\<close>

definition sample0 :: heap where "sample0 = ExInitializeHeap 0x1000 320 0x1234 0 (\<lambda>x. 0)"
definition sample :: heap where "sample = snd (the (heap_alloc 287 sample0))"

lemma sample_view:
  "map_option (\<lambda>(p, h). (p, AllocL h, OrderL h, BlockType (hdr (Mem h) 0x1000), bpad (Mem h) 0x1000, bsize (Mem h) 0x1000))
     (heap_alloc 287 sample0) = Some (0x1020, [0x1000], [0x1000], 2, 1, 18)"
  by code_simp

lemma sample:
  "heap_alloc 287 sample0 = Some (0x1020, sample)" "AllocL sample = [0x1000]" "OrderL sample = [0x1000]"
  "BlockType (hdr (Mem sample) 0x1000) = 2" "bpad (Mem sample) 0x1000 = 1" "bsize (Mem sample) 0x1000 = 18"
  using sample_view by (auto simp: sample_def)

lemma sample_live: "heap_live sample = {(0x1020, 287)}"
  by (simp add: heap_live_def sample usable_def data_of_def sizeof_EHEAP_BLOCK_def HEAP_BLOCK_ALLOCATED_def
      Collect_conv_if)

lemma sample_inv: "heap_inv 0x1000 0x1140 sample0" "heap_inv 0x1000 0x1140 sample"
proof -
  show 0: "heap_inv 0x1000 0x1140 sample0"
    using ExInitializeHeap_inv [of "0x1000" 320 0 "0x1234" "\<lambda>x. 0"]
    by (simp add: sample0_def HEAP_BLOCK_FREE_def)
  then show "heap_inv 0x1000 0x1140 sample" using heap.alloc_law [of "0x1000" "0x1140" sample0 287] sample(1) by auto
qed

lemma sample_run: "kheap_run sample0 [Alloc 287] sample"
  using client_run.alloc [OF client_run.start, of 287 "0xFFFFFFF0" heap_alloc sample0 "0x1020" sample] sample(1)
  by simp

text \<open>C3: From the state that \<open>ExInitializeHeap\<close> leaves, any history of allocations, releases and stores
  of any number of owners, each of them within its blocks, keeps the heap consistent; between any two
  points of it the bytes of a block that is not freed or written by its owner stay as they are, whatever
  the others do, no other live block overlaps it, and it can be freed.\<close>

theorem heap_keeps_blocks_intact:
  assumes "0 < area" and "32 \<le> sz" and "unat area + unat sz < 2 ^ 32" and "ht \<noteq> HEAP_BLOCK_FREE"
    and "kheap_run (ExInitializeHeap area sz ck ht m) before h" and "(p, n) \<in> heap_live h"
    and "kheap_run h after h'" and "\<forall>c\<in>set after. spares p n c"
  shows "(p, n) \<in> heap_live h' \<and> (\<forall>x\<in>rng (unat p) n. Mem h' x = Mem h x)
    \<and> (\<forall>(q, k)\<in>heap_live h'. (q, k) \<noteq> (p, n) \<longrightarrow> rng (unat p) n \<inter> rng (unat q) k = {})
    \<and> (\<exists>h''. ExFreeHeap p h' = Inr h'')
    \<and> heap_inv (unat area) (unat area + 32 + 16 * ((unat sz - 32) div 16)) h'"
proof -
  let ?a = "unat area" and ?e = "unat area + 32 + 16 * ((unat sz - 32) div 16)"
  have i0: "heap_inv ?a ?e (ExInitializeHeap area sz ck ht m)" using assms(1-4) by (rule ExInitializeHeap_inv)
  have i1: "heap_inv ?a ?e h" using heap.run_inv [OF assms(5) i0] .
  have i2: "heap_inv ?a ?e h'" using heap.run_inv [OF assms(7) i1] .
  have r: "(p, n) \<in> heap_live h'" "\<forall>x\<in>rng (unat p) n. Mem h' x = Mem h x"
    using heap.run_integrity [OF assms(7) i1 assms(6,8)] by auto
  moreover obtain h'' where "heap_release p h' = Some h''" using heap.release_law [OF i2 r(1)] by blast
  then have "ExFreeHeap p h' = Inr h''" by (simp add: heap_release_def split: sum.splits)
  ultimately show ?thesis using i2 heap.live_disjoint [OF i2 r(1)] by blast
qed

theorem heap_keeps_blocks_intact_witness:
  "(\<exists>h''. ExFreeHeap 0x1020 sample = Inr h'')"
  using heap_keeps_blocks_intact [of "0x1000" 320 0 "0x1234" "\<lambda>x. 0" "[Alloc 287]" sample "0x1020" 287 "[]" sample]
    sample_run client_run.start [of heap_live heap_store heap_alloc heap_release "0xFFFFFFF0" sample]
  by (simp add: sample_live HEAP_BLOCK_FREE_def flip: sample0_def)

text \<open>C5: An allocation of at most \<open>0xFFFFFFF0\<close> bytes takes the smallest free block that is large enough and
  gives a new block with exactly the requested number of usable bytes; it answers NULL, and changes
  nothing, only when no free block is large enough. It does not stop.\<close>

theorem heap_allocates_best_fit:
  assumes inv: "heap_inv a e h" and s: "s \<le> 0xFFFFFFF0"
  shows "if \<exists>b\<in>set (FreeL h). units s \<le> Size (hdr (Mem h) b)
    then \<exists>b h'. ExAllocateHeap paged s h = Inr (data_of b, h') \<and> b \<in> set (FreeL h) \<and> units s \<le> Size (hdr (Mem h) b)
      \<and> (\<forall>c\<in>set (FreeL h). units s \<le> Size (hdr (Mem h) c) \<longrightarrow> Size (hdr (Mem h) b) \<le> Size (hdr (Mem h) c))
      \<and> heap_inv a e h' \<and> usable (Mem h') b = unat s \<and> AllocL h' = AllocL h @ [b]
    else ExAllocateHeap paged s h = Inr (0, h)"
  using ExAllocateHeap_spec [OF assms, of paged]
proof (elim disjE exE conjE)
  assume "\<forall>b\<in>set (FreeL h). Size (hdr (Mem h) b) < units s" "ExAllocateHeap paged s h = Inr (0, h)"
  then show ?thesis by (simp add: not_le [symmetric])
next
  fix b h' assume r: "ExAllocateHeap paged s h = Inr (data_of b, h')" "heap_inv a e h'" "b \<in> set (FreeL h)"
    "units s \<le> Size (hdr (Mem h) b)" "allocated a e b (unat s) h h'"
    "\<forall>c\<in>set (FreeL h). units s \<le> Size (hdr (Mem h) c) \<longrightarrow> Size (hdr (Mem h) b) \<le> Size (hdr (Mem h) c)"
  have "usable (Mem h') b = unat s" "AllocL h' = AllocL h @ [b]" using r(5) by (simp_all add: allocated_def)
  moreover have ex: "\<exists>b\<in>set (FreeL h). units s \<le> Size (hdr (Mem h) b)" using r(3,4) by blast
  ultimately show ?thesis unfolding if_P [OF ex] using r(1-4,6)
    by - (intro exI [of _ b] exI [of _ h'] conjI; assumption)
qed

theorem heap_allocates_best_fit_witness: "ExAllocateHeap True 16 sample = Inr (0, sample)"
proof -
  have "\<not> bfree (Mem sample) 0x1000" by (simp add: bfree_def sample HEAP_BLOCK_FREE_def)
  then have "b \<notin> set (FreeL sample)" for b
    using heap_wf_free [OF heap_inv_wf [OF sample_inv(2)], of b] unfolding sample(3) by auto
  then have "FreeL sample = []" by (metis list.set_intros(1) neq_Nil_conv)
  then show ?thesis using heap_allocates_best_fit [OF sample_inv(2), of 16 True] by simp
qed

text \<open>C4: A write past the end of a block is found when the block is freed: if any byte of the padding behind
  it has another value than the padding byte, and the header is intact, \<open>ExFreeHeap\<close> stops with the
  bugcheck for a detected overflow that names the block.\<close>

theorem heap_free_finds_overflow:
  assumes "heap_inv a e h" and "(p, n) \<in> heap_live h" and "\<forall>x\<in>rng (unat p - 32) 32. m' x = Mem h x"
    and "x \<in> rng (unat p + n) (bpad (Mem h) (block_of p))" and "m' x \<noteq> ALLOCATED_PADDING"
  shows "\<exists>v. v \<noteq> ALLOCATED_PADDING \<and> ExFreeHeap p (h\<lparr>Mem := m'\<rparr>)
    = Inl (heap_bug HEAP_BLOCK_VALIDITY_CHECK_FAILED HEAP_VALIDATION_OVERFLOW_DETECTED (block_of p) (ucast v))"
  using assms by (rule free_overflowed)

theorem heap_free_finds_overflow_witness:
  "\<exists>v. v \<noteq> ALLOCATED_PADDING \<and> ExFreeHeap 0x1020 (sample\<lparr>Mem := (Mem sample)(0x113F := 0)\<rparr>)
    = Inl (heap_bug HEAP_BLOCK_VALIDITY_CHECK_FAILED HEAP_VALIDATION_OVERFLOW_DETECTED 0x1000 (ucast v))"
  using heap_free_finds_overflow [OF sample_inv(2), of "0x1020" 287 "(Mem sample)(0x113F := 0)" "0x113F"] sample
  by (simp add: sample_live block_of_def sizeof_EHEAP_BLOCK_def rng_def ALLOCATED_PADDING_def)

text \<open>Freeing a block twice in a row always stops with a bugcheck, also when the first call has merged the
  block into its neighbour and overwritten its header.\<close>

theorem heap_double_free_stops:
  assumes "heap_inv a e h" and "(p, n) \<in> heap_live h"
  shows "\<exists>h' bug. ExFreeHeap p h = Inr h' \<and> ExFreeHeap p h' = Inl (HeapBug bug)"
  using assms by (rule free_twice)

theorem heap_double_free_stops_witness:
  "\<exists>h' bug. ExFreeHeap 0x1020 sample = Inr h' \<and> ExFreeHeap 0x1020 h' = Inl (HeapBug bug)"
  using heap_double_free_stops [OF sample_inv(2), of "0x1020" 287] by (simp add: sample_live)

text \<open>A reallocation that fits the units of its block, with less than two of them to spare, stays in place:
  it keeps the data, the block then has exactly the new number of usable bytes, and no other block
  changes.\<close>

theorem heap_realloc_in_place:
  assumes "heap_inv a e h" and "(p, n) \<in> heap_live h" and "s \<le> 0xFFFFFFF0"
    and "unat (units s) \<le> bsize (Mem h) (block_of p)" and "bsize (Mem h) (block_of p) < unat (units s) + 2"
  shows "\<exists>h'. ExReallocHeap p s h = Inr (p, h') \<and> heap_inv a e h' \<and> heap_live h' = heap_live h - {(p, n)} \<union> {(p, unat s)}
    \<and> (\<forall>x\<in>rng (unat p) (min n (unat s)). Mem h' x = Mem h x)
    \<and> (\<forall>(q, k)\<in>heap_live h. q \<noteq> p \<longrightarrow> (\<forall>x\<in>rng (unat q) k. Mem h' x = Mem h x))"
  using assms by (rule realloc_in_place)

theorem heap_realloc_in_place_witness:
  "\<exists>h'. ExReallocHeap 0x1020 270 sample = Inr (0x1020, h') \<and> heap_live h' = {(0x1020, 270)}"
  using heap_realloc_in_place [OF sample_inv(2), of "0x1020" 287 270] units_eq [of 270]
  by (auto simp: sample_live block_of_def sizeof_EHEAP_BLOCK_def sample)

text \<open>C6: A reallocation that gives up exactly two units of a block of at least 256 bytes, with no free block
  behind it, computes the new padding size from the old one: where the new end leaves more padding in
  its unit than the block had, the size wraps around, the call succeeds, and at least the last 194 of
  the bytes that the caller keeps are overwritten.\<close>

theorem heap_realloc_overwrites_data:
  assumes "heap_inv a e h" and "(p, n) \<in> heap_live h" and "s \<le> 0xFFFFFFF0"
    and "unat (units s) + 2 = bsize (Mem h) (block_of p)" and "16 \<le> bsize (Mem h) (block_of p)"
    and "type_at h (next_of (block_of p) (OrderL h)) \<noteq> HEAP_BLOCK_FREE"
    and "bpad (Mem h) (block_of p) + unat s < 16 * unat (units s)"
  shows "\<exists>h' k. ExReallocHeap p s h = Inr (p, h') \<and> (p, k) \<in> heap_live h' \<and> k + 194 \<le> unat s
    \<and> (\<forall>x\<in>rng (unat p + k) (unat s - k). Mem h' x = ALLOCATED_PADDING)"
  using assms by (rule realloc_loses_data)

theorem heap_realloc_overwrites_data_witness:
  "\<exists>h' k. ExReallocHeap 0x1020 254 sample = Inr (0x1020, h') \<and> k + 194 \<le> 254
    \<and> (\<forall>x\<in>rng (0x1020 + k) (254 - k). Mem h' x = ALLOCATED_PADDING)"
proof -
  have t: "type_at sample None \<noteq> HEAP_BLOCK_FREE" using sample_inv(2) by (simp add: type_at_def heap_inv_def heap_ok_def)
  have u: "unat (units 254) = 16" using units_eq [of 254] by simp
  show ?thesis
    using heap_realloc_overwrites_data [OF sample_inv(2), of "0x1020" 287 254] t
    by (fastforce simp: sample_live block_of_def sizeof_EHEAP_BLOCK_def sample u)
qed

end
