(* ===== verification/Ob.thy ===== *)
theory Ob
  imports Prelude
begin

text \<open>
  The object manager (\<^verbatim>\<open>kernel/ob.cpp\<close>, \<^verbatim>\<open>kernel/inc/ob.h\<close>). An object and its header are one
  record at the address of the header: \<open>OBJECT_TO_OBJECT_HEADER\<close> subtracts a constant. The
  routines of an object type are named by datatypes that have the routines the kernel registers
  (in \<^verbatim>\<open>ob.cpp\<close> and \<^verbatim>\<open>io.cpp\<close>). Names are the characters before the terminator. The heap is what
  its clients see of it (theory \<open>HeapProps\<close>): \<open>Blocks\<close> are the blocks in use; \<open>Allocator n B\<close> is the
  block, or 0 for NULL, that the \<open>n\<close>-th allocation gives when \<open>B\<close> are in use; freeing anything that is
  not in use stops. Directory and object locks
  are taken and released within one operation; only the lock of the handle table can stay held and
  is part of the state.
\<close>

subsection \<open>Data\<close>

type_synonym wstr = "u16 list"

definition BACKSLASH :: u16 where "BACKSLASH = 0x5C"

datatype parse_fn = ParseSymbolicLink | ParseDevice
datatype delete_fn = DeleteSymbolicLink | DeleteDevice | DeleteFile | DeleteVpb

record object_type =
  ParseRoutine :: "parse_fn option"
  DeleteRoutine :: "delete_fn option"
  TypeOwnerTag :: u32
  ObjectCount :: u32

text \<open>The bodies: what the object and I/O managers keep in them (a pointer 0 is NULL).\<close>

datatype ob_body =
    DirectoryBody "u32 list"      \<comment> \<open>\<open>ObjectList\<close>\<close>
  | LinkBody wstr u32 u32         \<comment> \<open>\<open>Target\<close>, its buffer, \<open>TargetObject\<close>\<close>
  | DeviceBody u32                \<comment> \<open>\<open>DriverObject\<close>\<close>
  | FileBody u32 u32 "u32 list"   \<comment> \<open>\<open>DeviceObject\<close>, the buffer of \<open>RelativeFileName\<close>, \<open>MappingList\<close>\<close>
  | VpbBody u32 u32               \<comment> \<open>\<open>PhysicalDeviceObject\<close>, \<open>FsDeviceObject\<close>\<close>
  | OtherBody

record ob_header =
  ParentDirectory :: u32
  ObjType :: u32
  ObjectName :: wstr
  NameBuffer :: u32
  Owner :: u32
  OwnerTag :: u32
  ReferenceCount :: u32
  HandleCount :: u32
  Flags :: u32
  Body :: ob_body

definition OBJ_PERMANENT :: u32 where "OBJ_PERMANENT = 1"
definition OBJ_DELETE_PENDING :: u32 where "OBJ_DELETE_PENDING = 2"
definition OBJ_DELETE_IN_PROGRESS :: u32 where "OBJ_DELETE_IN_PROGRESS = 4"

record object_handle =
  HObject :: u32
  GrantedAccess :: u32
  HOwner :: u32

record ob =
  Objs :: "u32 \<rightharpoonup> ob_header"
  Types :: "u32 \<Rightarrow> object_type"
  ObDirectoryObjectType :: u32
  ObSymbolicLinkObjectType :: u32
  ObRootObjectDirectory :: u32
  ObGlobalObjectDirectory :: u32
  ObDrvGlobalObjectDirectory :: u32
  HandleTable :: "object_handle list"
  TableLock :: bool
  CurThread :: u32
  ParsePacket :: "wstr \<times> u32"
  Allocator :: "nat \<Rightarrow> u32 set \<Rightarrow> u32"
  Allocs :: nat
  Blocks :: "u32 set"

text \<open>
  How an operation can stop: a failed assertion or a bugcheck; waiting for ever for a lock; the use
  of an object that has been freed; freeing what is not an allocated block (a bugcheck of the heap);
  a write to NULL; an access outside of the handle table; a body of another type; a chain of links
  or of delete routines longer than the bound of the model.
\<close>

datatype ob_stop = ObAsserts | ObBug bugcheck | WaitsForTableLock | UseAfterFree u32 | BadFree u32 | NullWrite
  | OutsideTable | WrongBody u32 | TooManyLinks | TooDeep

subsection \<open>Heap and objects\<close>

definition ob_alloc :: "ob \<Rightarrow> u32 \<times> ob" where
  "ob_alloc s =
     (let p = Allocator s (Allocs s) (Blocks s)
      in (p, s\<lparr>Allocs := Allocs s + 1, Blocks := (if p = 0 then Blocks s else insert p (Blocks s))\<rparr>))"

definition ob_free :: "u32 \<Rightarrow> ob \<Rightarrow> ob_stop + ob" where
  "ob_free p s = (if p \<in> Blocks s then Inr (s\<lparr>Blocks := Blocks s - {p}\<rparr>) else Inl (BadFree p))"

text \<open>\<open>if (Buffer) ExFreeHeap (Buffer)\<close>\<close>

definition free_opt :: "u32 \<Rightarrow> ob \<Rightarrow> ob_stop + ob" where
  "free_opt p s = (if p = 0 then Inr s else ob_free p s)"

text \<open>An allocation whose result is written to without a check (\<open>RtlDuplicateUnicodeString\<close> and others).\<close>

definition alloc_unchecked :: "ob \<Rightarrow> ob_stop + (u32 \<times> ob)" where
  "alloc_unchecked s = (let (p, s1) = ob_alloc s in if p = 0 then Inl NullWrite else Inr (p, s1))"

definition get_obj :: "u32 \<Rightarrow> ob \<Rightarrow> ob_stop + ob_header" where
  "get_obj p s = (case Objs s p of None \<Rightarrow> Inl (UseAfterFree p) | Some h \<Rightarrow> Inr h)"

definition put_obj :: "u32 \<Rightarrow> ob_header \<Rightarrow> ob \<Rightarrow> ob" where
  "put_obj p h s = s\<lparr>Objs := (Objs s)(p \<mapsto> h)\<rparr>"

definition upd_obj :: "u32 \<Rightarrow> (ob_header \<Rightarrow> ob_header) \<Rightarrow> ob \<Rightarrow> ob_stop + ob" where
  "upd_obj p f s = and_then (get_obj p s) (\<lambda>h. Inr (put_obj p (f h) s))"

definition dir_list :: "u32 \<Rightarrow> ob \<Rightarrow> ob_stop + u32 list" where
  "dir_list d s = and_then (get_obj d s) (\<lambda>h. case Body h of DirectoryBody os \<Rightarrow> Inr os | _ \<Rightarrow> Inl (WrongBody d))"

definition set_dir :: "u32 \<Rightarrow> u32 list \<Rightarrow> ob \<Rightarrow> ob_stop + ob" where
  "set_dir d os s = upd_obj d (\<lambda>h. h\<lparr>Body := DirectoryBody os\<rparr>) s"

subsection \<open>Creating objects\<close>

definition ObCreateObjectType ::
    "parse_fn option \<Rightarrow> delete_fn option \<Rightarrow> u32 \<Rightarrow> ob \<Rightarrow> ob_stop + (status \<times> u32 \<times> ob)" where
  "ObCreateObjectType parse delete tag s =
     (let (ty, s1) = ob_alloc s
      in if ty = 0 then Inr (STATUS_INSUFFICIENT_RESOURCES, 0, s1)
         else and_then (alloc_unchecked s1) (\<lambda>(buf, s2).
           Inr (STATUS_SUCCESS, ty, s2\<lparr>Types := (Types s2)(ty :=
             \<lparr>ParseRoutine = parse, DeleteRoutine = delete, TypeOwnerTag = tag, ObjectCount = 0\<rparr>)\<rparr>)))"

text \<open>\<open>body\<close> is the all-zero body of the type.\<close>

definition ObCreateObject :: "ob_body \<Rightarrow> u32 \<Rightarrow> wstr option \<Rightarrow> u32 \<Rightarrow> ob \<Rightarrow> ob_stop + (status \<times> u32 \<times> ob)" where
  "ObCreateObject body ty name tag s =
     (let (p, s1) = ob_alloc s
      in if p = 0 then Inr (STATUS_INSUFFICIENT_RESOURCES, 0, s1)
         else
           let s2 = s1\<lparr>Types := (Types s1)(ty := (Types s1 ty)\<lparr>ObjectCount := ObjectCount (Types s1 ty) + 1\<rparr>)\<rparr>
           in and_then (case name of None \<Rightarrow> Inr (0, s2) | Some n \<Rightarrow> alloc_unchecked s2) (\<lambda>(buf, s3).
                Inr (STATUS_SUCCESS, p, put_obj p
                  \<lparr>ParentDirectory = 0, ObjType = ty, ObjectName = (case name of None \<Rightarrow> [] | Some n \<Rightarrow> n),
                   NameBuffer = buf, Owner = CurThread s, OwnerTag = tag, ReferenceCount = 1, HandleCount = 0,
                   Flags = 0, Body = body\<rparr> s3)))"

definition ObInsertObject :: "u32 \<Rightarrow> u32 \<Rightarrow> ob \<Rightarrow> ob_stop + (status \<times> ob)" where
  "ObInsertObject Directory obj s =
     (let d = (if Directory = 0 then ObRootObjectDirectory s else Directory)
      in and_then (dir_list d s) (\<lambda>os.
         and_then (set_dir d (os @ [obj]) s) (\<lambda>s1.
         and_then (upd_obj obj (\<lambda>h. h\<lparr>ParentDirectory := d\<rparr>) s1) (\<lambda>s2.
         Inr (STATUS_SUCCESS, s2)))))"

subsection \<open>References and deletion\<close>

definition ObReferenceObject :: "u32 \<Rightarrow> ob \<Rightarrow> ob_stop + ob" where
  "ObReferenceObject p s = upd_obj p (\<lambda>h. h\<lparr>ReferenceCount := ReferenceCount h + 1\<rparr>) s"

text \<open>\<open>Count\<close> is not used: the function always subtracts 2.\<close>

definition ObDereferenceObjectEx :: "u32 \<Rightarrow> u32 \<Rightarrow> ob \<Rightarrow> ob_stop + ob" where
  "ObDereferenceObjectEx p Count s = upd_obj p (\<lambda>h. h\<lparr>ReferenceCount := ReferenceCount h - 2\<rparr>) s"

definition ObMakeTemporaryObject :: "u32 \<Rightarrow> ob \<Rightarrow> ob_stop + ob" where
  "ObMakeTemporaryObject p s = upd_obj p (\<lambda>h. h\<lparr>Flags := Flags h AND NOT OBJ_PERMANENT\<rparr>) s"

definition ObIsObjectGoingAway :: "u32 \<Rightarrow> ob \<Rightarrow> ob_stop + bool" where
  "ObIsObjectGoingAway p s = and_then (get_obj p s) (\<lambda>h. Inr (Flags h AND OBJ_DELETE_IN_PROGRESS = 1))"

text \<open>Taking a dying object out of its directory.\<close>

definition unlink_obj :: "u32 \<Rightarrow> ob \<Rightarrow> ob_stop + ob" where
  "unlink_obj p s = and_then (get_obj p s) (\<lambda>h.
     if ParentDirectory h = 0 then Inr s
     else and_then (dir_list (ParentDirectory h) s) (\<lambda>os. set_dir (ParentDirectory h) (remove1 p os) s))"

text \<open>
  \<open>ObpDeleteObjectInternal\<close>, the delete routines and \<open>ObDereferenceObject\<close> call each other. The
  routines of a link, a file, a device and a driver can nest; \<open>k\<close> bounds the nesting. The loop over
  the mappings of a file never advances: it looks at the mapping that it has just deleted.
\<close>

fun deref :: "nat \<Rightarrow> u32 \<Rightarrow> ob \<Rightarrow> ob_stop + ob"
and delete_internal :: "nat \<Rightarrow> u32 \<Rightarrow> ob \<Rightarrow> ob_stop + (status \<times> ob)"
and delete_routine :: "nat \<Rightarrow> delete_fn \<Rightarrow> u32 \<Rightarrow> ob \<Rightarrow> ob_stop + ob" where
  "deref 0 p s = Inl TooDeep"
| "deref (Suc k) p s =
     and_then (upd_obj p (\<lambda>h. h\<lparr>ReferenceCount := ReferenceCount h - 1\<rparr>) s) (\<lambda>s1.
     and_then (get_obj p s1) (\<lambda>h.
       if ReferenceCount h = 0 \<and> (Flags h AND OBJ_PERMANENT = 0 \<or> Flags h AND OBJ_DELETE_PENDING \<noteq> 0)
       then if HandleCount h \<noteq> 0 then Inl ObAsserts
            else and_then (delete_internal k p s1) (\<lambda>(Status, s2). Inr s2)
       else Inr s1))"
| "delete_internal k p s =
     and_then (get_obj p s) (\<lambda>h.
       if ReferenceCount h \<noteq> 0 then Inr (STATUS_IN_USE, s)
       else
         and_then (unlink_obj p (put_obj p (h\<lparr>Flags := Flags h OR OBJ_DELETE_IN_PROGRESS\<rparr>) s)) (\<lambda>s1.
         and_then (case DeleteRoutine (Types s (ObjType h)) of None \<Rightarrow> Inr s1 | Some r \<Rightarrow> delete_routine k r p s1) (\<lambda>s2.
         and_then (if NameBuffer h \<noteq> 0 \<and> ObjectName h \<noteq> [] then ob_free (NameBuffer h) s2 else Inr s2) (\<lambda>s3.
         and_then (ob_free p s3) (\<lambda>s4.
           Inr (STATUS_SUCCESS, s4\<lparr>Objs := (Objs s4)(p := None)\<rparr>))))))"
| "delete_routine k r p s =
     and_then (get_obj p s) (\<lambda>h.
       case (r, Body h) of
         (DeleteSymbolicLink, LinkBody Target buf TargetObject) \<Rightarrow>
           and_then (ob_free buf s) (\<lambda>s1. deref k TargetObject s1)
       | (DeleteDevice, DeviceBody DriverObject) \<Rightarrow> deref k DriverObject s
       | (DeleteFile, FileBody DeviceObject buf []) \<Rightarrow>
           and_then (deref k DeviceObject s) (\<lambda>s1. ob_free buf s1)
       | (DeleteFile, FileBody DeviceObject buf (Mapping # _)) \<Rightarrow>
           and_then (get_obj Mapping s) (\<lambda>g.
             if ReferenceCount g \<noteq> 1 then Inl ObAsserts
             else and_then (deref k Mapping s) (\<lambda>s1. and_then (get_obj Mapping s1) (\<lambda>_. Inl ObAsserts)))
       | (DeleteVpb, VpbBody PhysicalDeviceObject FsDeviceObject) \<Rightarrow>
           and_then (deref k PhysicalDeviceObject s) (\<lambda>s1. deref k FsDeviceObject s1)
       | _ \<Rightarrow> Inl (WrongBody p))"

text \<open>A link's target is resolved, so it is no link: link, file, device, driver are four levels.\<close>

definition ObDereferenceObject :: "u32 \<Rightarrow> ob \<Rightarrow> ob_stop + ob" where
  "ObDereferenceObject = deref 8"

definition ObpDeleteObjectInternal :: "u32 \<Rightarrow> ob \<Rightarrow> ob_stop + (status \<times> ob)" where
  "ObpDeleteObjectInternal = delete_internal 8"

definition ObpDeleteObject :: "u32 \<Rightarrow> ob \<Rightarrow> ob_stop + (status \<times> ob)" where
  "ObpDeleteObject p s =
     and_then (get_obj p s) (\<lambda>h.
       if 1 < ReferenceCount h then
         and_then (upd_obj p (\<lambda>h. h\<lparr>Flags := Flags h OR OBJ_DELETE_PENDING\<rparr>) s) (\<lambda>s1.
         and_then (ObDereferenceObject p s1) (\<lambda>s2. Inr (STATUS_PENDING, s2)))
       else and_then (ObDereferenceObject p s) (\<lambda>s1. Inr (STATUS_SUCCESS, s1)))"

definition ObCreateDirectory :: "wstr option \<Rightarrow> u32 \<Rightarrow> u32 \<Rightarrow> ob \<Rightarrow> ob_stop + (status \<times> u32 \<times> ob)" where
  "ObCreateDirectory name tag InsertInto s =
     and_then (ObCreateObject (DirectoryBody []) (ObDirectoryObjectType s) name tag s) (\<lambda>(Status, d, s1).
       if \<not> SUCCESS Status then Inr (Status, 0, s1)
       else and_then (ObInsertObject InsertInto d s1) (\<lambda>(Status, s2).
         if \<not> SUCCESS Status then and_then (ObpDeleteObjectInternal d s2) (\<lambda>(_, s3). Inr (Status, d, s3))
         else and_then (set_dir d [] s2) (\<lambda>s3. Inr (Status, d, s3))))"

subsection \<open>Names\<close>

text \<open>Names are compared by \<open>wcscmp\<close>, up to the terminator.\<close>

definition wcs :: "wstr \<Rightarrow> wstr" where "wcs = takeWhile (\<lambda>c. c \<noteq> 0)"

fun find_in :: "u32 list \<Rightarrow> wstr \<Rightarrow> ob \<Rightarrow> ob_stop + u32 option" where
  "find_in [] name s = Inr None"
| "find_in (p # ps) name s =
     and_then (get_obj p s) (\<lambda>h. if wcs (ObjectName h) = wcs name then Inr (Some p) else find_in ps name s)"

definition ObpFindObjectInDirectory :: "u32 \<Rightarrow> wstr \<Rightarrow> ob \<Rightarrow> ob_stop + u32 option" where
  "ObpFindObjectInDirectory d name s = and_then (dir_list d s) (\<lambda>os. find_in os name s)"

text \<open>
  A parse routine gives its status, the buffer of the reparse path and the path in it; \<open>rb\<close> is the
  buffer that is in the reparse path before the call.
\<close>

definition ObpParseSymbolicLink :: "u32 \<Rightarrow> wstr \<Rightarrow> u32 \<Rightarrow> u32 \<Rightarrow> ob \<Rightarrow> ob_stop + (status \<times> u32 \<times> wstr \<times> ob)" where
  "ObpParseSymbolicLink obj RemainingPath ctx rb s =
     and_then (get_obj obj s) (\<lambda>h.
       case Body h of
         LinkBody Target buf TargetObject \<Rightarrow>
           if ctx \<noteq> 1 then
             let (b, s1) = ob_alloc s
             in if b = 0 then Inr (STATUS_INSUFFICIENT_RESOURCES, 0, [], s1)
                else Inr (STATUS_REPARSE, b, Target @ RemainingPath, s1)
           else Inr (STATUS_SUCCESS, rb, [], s)
       | _ \<Rightarrow> Inl (WrongBody obj))"

definition IopParseDevice :: "u32 \<Rightarrow> wstr \<Rightarrow> u32 \<Rightarrow> u32 \<Rightarrow> ob \<Rightarrow> ob_stop + (status \<times> u32 \<times> wstr \<times> ob)" where
  "IopParseDevice obj RemainingPath ctx rb s =
     (if ctx \<noteq> 0 \<and> ctx AND 0xFFFF0000 \<noteq> 0 then
        and_then (alloc_unchecked s) (\<lambda>(b, s1). Inr (STATUS_FINISH_PARSING, rb, [], s1\<lparr>ParsePacket := (RemainingPath, b)\<rparr>))
      else Inr (STATUS_FINISH_PARSING, rb, [], s))"

definition call_parse :: "parse_fn \<Rightarrow> u32 \<Rightarrow> wstr \<Rightarrow> u32 \<Rightarrow> u32 \<Rightarrow> ob \<Rightarrow> ob_stop + (status \<times> u32 \<times> wstr \<times> ob)" where
  "call_parse r = (case r of ParseSymbolicLink \<Rightarrow> ObpParseSymbolicLink | ParseDevice \<Rightarrow> IopParseDevice)"

text \<open>The code after the label \<open>finish\<close>: \<open>user\<close> is \<open>RequestorMode == UserMode\<close>.\<close>

definition ref_finish :: "bool \<Rightarrow> u32 \<Rightarrow> u32 \<Rightarrow> u32 \<Rightarrow> ob \<Rightarrow> ob_stop + (status \<times> u32 \<times> ob)" where
  "ref_finish user ty rb obj s =
     and_then (free_opt rb s) (\<lambda>s1.
     and_then (get_obj obj s1) (\<lambda>h.
       if user \<and> ObjType h \<noteq> ty then Inr (STATUS_ACCESS_DENIED, 0, s1)
       else and_then (ObReferenceObject obj s1) (\<lambda>s2. Inr (STATUS_SUCCESS, obj, s2))))"

text \<open>
  One component of a path: \<open>path\<close> is the text after \<open>prevslash\<close>, \<open>rb\<close> the reparse buffer. When the
  last name is reached the buffer is freed, and freed again at the label \<open>finish\<close>.
\<close>

datatype walk_next = Return status u32 | Descend u32 u32 wstr | Reparse u32 wstr

definition walk_fail :: "status \<Rightarrow> u32 \<Rightarrow> ob \<Rightarrow> ob_stop + (walk_next \<times> ob)" where
  "walk_fail Status rb s = and_then (free_opt rb s) (\<lambda>s'. Inr (Return Status 0, s'))"

definition walk_end :: "bool \<Rightarrow> u32 \<Rightarrow> u32 \<Rightarrow> u32 \<Rightarrow> ob \<Rightarrow> ob_stop + (walk_next \<times> ob)" where
  "walk_end user ty rb obj s = and_then (ref_finish user ty rb obj s) (\<lambda>(Status, p, s'). Inr (Return Status p, s'))"

definition walk_parsed ::
    "bool \<Rightarrow> u32 \<Rightarrow> u32 \<Rightarrow> u32 \<Rightarrow> ob_header \<Rightarrow> wstr \<Rightarrow> status \<times> u32 \<times> wstr \<times> ob \<Rightarrow> ob_stop + (walk_next \<times> ob)" where
  "walk_parsed user ty rb obj h rest = (\<lambda>(Status, rb', np, s3).
     and_then (free_opt rb s3) (\<lambda>s4.
       if \<not> SUCCESS Status then walk_fail Status rb' s4
       else if Status = STATUS_REPARSE then Inr (Reparse rb' np, s4)
       else if Status = STATUS_FINISH_PARSING \<or> rest = [] then walk_end user ty 0 obj s4
       else if ObjType h \<noteq> ObDirectoryObjectType s4 then Inr (Return STATUS_NOT_FOUND 0, s4)
       else Inr (Descend 0 obj (tl rest), s4)))"

definition walk_found ::
    "bool \<Rightarrow> u32 \<Rightarrow> u32 \<Rightarrow> u32 \<Rightarrow> u32 \<Rightarrow> wstr \<Rightarrow> ob \<Rightarrow> ob_stop + (walk_next \<times> ob)" where
  "walk_found user ty ctx rb obj rest s2 =
     and_then (get_obj obj s2) (\<lambda>h.
       case (if ObjType h = ObDirectoryObjectType s2 then None else ParseRoutine (Types s2 (ObjType h))) of
         Some r \<Rightarrow> and_then (call_parse r obj rest ctx rb s2) (walk_parsed user ty rb obj h rest)
       | None \<Rightarrow>
           if rest = [] then and_then (free_opt rb s2) (\<lambda>s3. walk_end user ty rb obj s3)
           else if ObjType h \<noteq> ObDirectoryObjectType s2 then walk_fail STATUS_NOT_FOUND rb s2
           else Inr (Descend rb obj (tl rest), s2))"

definition walk_step ::
    "bool \<Rightarrow> u32 \<Rightarrow> u32 \<Rightarrow> u32 \<Rightarrow> u32 \<Rightarrow> wstr \<Rightarrow> ob \<Rightarrow> ob_stop + (walk_next \<times> ob)" where
  "walk_step user ty ctx rb d path s =
     (let name = takeWhile (\<lambda>c. c \<noteq> BACKSLASH) path; rest = dropWhile (\<lambda>c. c \<noteq> BACKSLASH) path;
          (TempName, s1) = ob_alloc s
      in if TempName = 0 then walk_fail STATUS_INSUFFICIENT_RESOURCES rb s1
         else and_then (ObpFindObjectInDirectory d name s1) (\<lambda>found.
           and_then (ob_free TempName s1) (\<lambda>s2.
           case found of
             None \<Rightarrow> walk_fail STATUS_NOT_FOUND rb s2
           | Some obj \<Rightarrow> walk_found user ty ctx rb obj rest s2)))"

lemma tl_dropWhile_less: "dropWhile P xs \<noteq> [] \<Longrightarrow> length (tl (dropWhile P xs)) < length xs"
  by (induction xs) (auto split: if_splits)

lemma walk_fail_no_descend: "walk_fail Status rb s \<noteq> Inr (Descend rb' d' path', s')"
  by (auto simp: walk_fail_def and_then_Inr)

lemma walk_end_no_descend: "walk_end user ty rb obj s \<noteq> Inr (Descend rb' d' path', s')"
  by (auto simp: walk_end_def and_then_Inr split: prod.splits)

lemma walk_found_descends: "walk_found user ty ctx rb obj rest s = Inr (Descend rb' d' path', s') \<Longrightarrow> rest \<noteq> [] \<and> path' = tl rest"
  by (auto simp: walk_found_def walk_parsed_def and_then_Inr walk_fail_no_descend walk_end_no_descend
      split: if_splits option.splits prod.splits)

lemma walk_step_descends:
  assumes "walk_step user ty ctx rb d path s = Inr (Descend rb' d' path', s')"
  shows "length path' < length path"
proof -
  define rest where "rest = dropWhile (\<lambda>c. c \<noteq> BACKSLASH) path"
  obtain obj s2 where "walk_found user ty ctx rb obj rest s2 = Inr (Descend rb' d' path', s')"
    using assms unfolding walk_step_def Let_def rest_def [symmetric]
    by (auto simp: and_then_Inr walk_fail_no_descend split: if_splits option.splits prod.splits)
  from walk_found_descends [OF this] show ?thesis using tl_dropWhile_less unfolding rest_def by blast
qed

text \<open>
  The loop over the components. A reparse starts again at the root (label \<open>reparse\<close>) with one unit
  less of \<open>n\<close>.
\<close>

function walk :: "nat \<Rightarrow> bool \<Rightarrow> u32 \<Rightarrow> u32 \<Rightarrow> u32 \<Rightarrow> u32 \<Rightarrow> wstr \<Rightarrow> ob \<Rightarrow> ob_stop + (status \<times> u32 \<times> ob)" where
  "walk n user ty ctx rb d path s =
     (case walk_step user ty ctx rb d path s of
        Inl e \<Rightarrow> Inl e
      | Inr (Return Status p, s') \<Rightarrow> Inr (Status, p, s')
      | Inr (Descend rb' d' path', s') \<Rightarrow> walk n user ty ctx rb' d' path' s'
      | Inr (Reparse b np, s') \<Rightarrow>
          (case n of
             0 \<Rightarrow> Inl TooManyLinks
           | Suc n' \<Rightarrow>
               if np = [] \<or> hd np \<noteq> BACKSLASH
               then and_then (free_opt b s') (\<lambda>s5. Inr (STATUS_NOT_FOUND, 0, s5))
               else walk n' user ty ctx b (ObRootObjectDirectory s') (tl np) s'))"
  by pat_completeness auto
termination
  by (relation "measures [\<lambda>(n, _). n, \<lambda>(_, _, _, _, _, _, path, _). length path]") (auto dest: walk_step_descends)

declare walk.simps [simp del]

definition MAX_LINKS :: nat where "MAX_LINKS = 32"

definition ObReferenceObjectByName :: "wstr \<Rightarrow> u32 \<Rightarrow> bool \<Rightarrow> u32 \<Rightarrow> ob \<Rightarrow> ob_stop + (status \<times> u32 \<times> ob)" where
  "ObReferenceObjectByName name ty user ctx s =
     (if name = [] \<or> hd name \<noteq> BACKSLASH then Inr (STATUS_NOT_FOUND, 0, s)
      else walk MAX_LINKS user ty ctx 0 (ObRootObjectDirectory s) (tl name) s)"

definition ObDeleteObject :: "wstr \<Rightarrow> ob \<Rightarrow> ob_stop + (status \<times> ob)" where
  "ObDeleteObject name s =
     and_then (ObReferenceObjectByName name 0 False 1 s) (\<lambda>(Status, p, s1).
       if \<not> SUCCESS Status then Inr (Status, s1)
       else and_then (get_obj p s1) (\<lambda>h.
         if 2 < ReferenceCount h then
           and_then (upd_obj p (\<lambda>h. h\<lparr>Flags := Flags h OR OBJ_DELETE_PENDING\<rparr>) s1) (\<lambda>s2.
           and_then (ObDereferenceObjectEx p 2 s2) (\<lambda>s3. Inr (STATUS_SUCCESS, s3)))
         else and_then (ObDereferenceObjectEx p 2 s1) (\<lambda>s2.
           and_then (ObpDeleteObjectInternal p s2) (\<lambda>(_, s3). Inr (STATUS_SUCCESS, s3)))))"

text \<open>
  The last backslash behind the first character splits a name into a directory and a relative name;
  without one the directory is the root.
\<close>

definition split_name :: "wstr \<Rightarrow> (wstr option \<times> wstr)" where
  "split_name name =
     (let tail = tl name;
          rel = rev (takeWhile (\<lambda>c. c \<noteq> BACKSLASH) (rev tail))
      in if BACKSLASH \<in> set tail then (Some (take (length name - length rel - 1) name), rel) else (None, tail))"

text \<open>The directory in which \<open>ObCreateSymbolicLink\<close> and \<open>IoCreateDevice\<close> insert the new object.\<close>

definition ref_directory :: "wstr option \<Rightarrow> ob \<Rightarrow> ob_stop + (status \<times> u32 \<times> ob)" where
  "ref_directory dname s =
     (case dname of
        None \<Rightarrow> and_then (ObReferenceObject (ObRootObjectDirectory s) s) (\<lambda>s1.
          Inr (STATUS_SUCCESS, ObRootObjectDirectory s, s1))
      | Some n \<Rightarrow>
          and_then (alloc_unchecked s) (\<lambda>(buf, s1).
          and_then (ObReferenceObjectByName n (ObDirectoryObjectType s) False 0 s1) (\<lambda>(Status, d, s2).
          and_then (ob_free buf s2) (\<lambda>s3. Inr (Status, d, s3)))))"

definition OB_OBJECT_OWNER_IO :: u32 where "OB_OBJECT_OWNER_IO = 0x20206F49"
definition OB_OBJECT_OWNER_OB :: u32 where "OB_OBJECT_OWNER_OB = 0x2020624F"

definition ObCreateSymbolicLink :: "wstr \<Rightarrow> wstr \<Rightarrow> ob \<Rightarrow> ob_stop + (status \<times> ob)" where
  "ObCreateSymbolicLink SymlinkName TargetPath s =
     and_then (ObReferenceObjectByName TargetPath 0 False 0 s) (\<lambda>(Status, obj, s1).
       if \<not> SUCCESS Status then Inr (Status, s1)
       else let (dname, rel) = split_name SymlinkName
       in and_then (ObCreateObject (LinkBody [] 0 0) (ObSymbolicLinkObjectType s1) (Some rel) OB_OBJECT_OWNER_IO s1) (\<lambda>(Status, link, s2).
         if \<not> SUCCESS Status then and_then (ObDereferenceObject obj s2) (\<lambda>s3. Inr (Status, s3))
         else and_then (ref_directory dname s2) (\<lambda>(Status, d, s3).
           if \<not> SUCCESS Status then
             and_then (ObpDeleteObjectInternal link s3) (\<lambda>(_, s4).
             and_then (ObDereferenceObject obj s4) (\<lambda>s5. Inr (Status, s5)))
           else
             and_then (alloc_unchecked s3) (\<lambda>(buf, s4).
             and_then (upd_obj link (\<lambda>h. h\<lparr>Body := LinkBody TargetPath buf obj\<rparr>) s4) (\<lambda>s5.
             and_then (ObInsertObject d link s5) (\<lambda>(Status, s6).
             and_then (ObDereferenceObject d s6) (\<lambda>s7.
               if \<not> SUCCESS Status then
                 and_then (ObpDeleteObjectInternal link s7) (\<lambda>(_, s8).
                 and_then (ObDereferenceObject obj s8) (\<lambda>s9. Inr (Status, s9)))
               else Inr (STATUS_SUCCESS, s7))))))))"

text \<open>
  The name of an object with its path: each step up makes a longer buffer with the name of the
  parent, a backslash and the path so far. The parents are followed with a bound \<open>n\<close>.
\<close>

fun query_name :: "nat \<Rightarrow> u32 \<Rightarrow> wstr \<Rightarrow> u32 \<Rightarrow> ob \<Rightarrow> ob_stop + (wstr \<times> u32 \<times> ob)" where
  "query_name n CurrDir name buf s =
     (if CurrDir = 0 then Inr (name, buf, s)
      else case n of
        0 \<Rightarrow> Inl TooDeep
      | Suc n' \<Rightarrow>
          and_then (get_obj CurrDir s) (\<lambda>h.
          and_then (alloc_unchecked s) (\<lambda>(TempName, s1).
          and_then (ob_free buf s1) (\<lambda>s2.
            query_name n' (ParentDirectory h) (ObjectName h @ BACKSLASH # name) TempName s2))))"

declare query_name.simps [simp del]

definition ObQueryObjectName :: "u32 \<Rightarrow> ob \<Rightarrow> ob_stop + (status \<times> wstr \<times> u32 \<times> ob)" where
  "ObQueryObjectName p s =
     and_then (get_obj p s) (\<lambda>h.
     and_then (alloc_unchecked s) (\<lambda>(buf, s1).
     and_then (query_name 64 (ParentDirectory h) (ObjectName h) buf s1) (\<lambda>(name, buf', s2).
       Inr (STATUS_SUCCESS, name, buf', s2))))"

text \<open>The entry behind \<open>PreviousObject\<close> (0: the first); 0 at the end.\<close>

fun entry_after :: "u32 \<Rightarrow> u32 list \<Rightarrow> u32 option" where
  "entry_after p [] = None"
| "entry_after p (q # qs) = (if q = p then Some (case qs of [] \<Rightarrow> 0 | r # _ \<Rightarrow> r) else entry_after p qs)"

definition ObQueryDirectoryObject :: "u32 \<Rightarrow> u32 \<Rightarrow> ob \<Rightarrow> ob_stop + (status \<times> u32 \<times> ob)" where
  "ObQueryDirectoryObject d PreviousObject s =
     and_then (dir_list d s) (\<lambda>os.
       case (if PreviousObject = 0 then Some (case os of [] \<Rightarrow> 0 | p # _ \<Rightarrow> p) else entry_after PreviousObject os) of
         None \<Rightarrow> Inl (WrongBody PreviousObject)
       | Some p \<Rightarrow> Inr (if p = 0 then STATUS_NO_MORE_ENTRIES else STATUS_SUCCESS, p, s))"

subsection \<open>Handles\<close>

definition OB_INITIAL_HANDLES :: nat where "OB_INITIAL_HANDLES = 128"
definition INVALID_HANDLE_VALUE :: u32 where "INVALID_HANDLE_VALUE = - 1"

text \<open>The lock of the table is a mutex that its owner cannot take again.\<close>

definition ObLockObjectTable :: "ob \<Rightarrow> ob_stop + ob" where
  "ObLockObjectTable s = (if TableLock s then Inl WaitsForTableLock else Inr (s\<lparr>TableLock := True\<rparr>))"

definition ObUnlockObjectTable :: "ob \<Rightarrow> ob" where
  "ObUnlockObjectTable s = s\<lparr>TableLock := False\<rparr>"

fun free_entry :: "object_handle list \<Rightarrow> nat \<Rightarrow> nat option" where
  "free_entry [] i = None"
| "free_entry (e # es) i = (if HObject e = 0 then Some i else free_entry es (Suc i))"

definition ObpCreateHandle :: "u32 \<Rightarrow> u32 \<Rightarrow> ob \<Rightarrow> ob_stop + (u32 \<times> ob)" where
  "ObpCreateHandle obj access s =
     and_then (ObLockObjectTable s) (\<lambda>s1.
       case free_entry (HandleTable s1) 0 of
         Some i \<Rightarrow> Inr (of_nat (i + 1), ObUnlockObjectTable (s1\<lparr>HandleTable :=
           (HandleTable s1)[i := \<lparr>HObject = obj, GrantedAccess = access, HOwner = CurThread s1\<rparr>]\<rparr>))
       | None \<Rightarrow> Inl ObAsserts)"

text \<open>The entry \<open>ObjectTable[(ULONG)Handle - 1]\<close> of 12 bytes; the address wraps around.\<close>

definition handle_entry :: "u32 \<Rightarrow> ob \<Rightarrow> nat option" where
  "handle_entry Handle s =
     (let off = unat (12 * (Handle - 1))
      in if off mod 12 = 0 \<and> off div 12 < length (HandleTable s) then Some (off div 12) else None)"

definition ObpDeleteHandle :: "u32 \<Rightarrow> bool \<Rightarrow> ob \<Rightarrow> ob_stop + (status \<times> ob)" where
  "ObpDeleteHandle Handle AlreadyLocked s =
     (if Handle AND 0xFFFFFFF > 0xFFFF then Inr (STATUS_INVALID_HANDLE, s)
      else and_then (if AlreadyLocked then Inr s else ObLockObjectTable s) (\<lambda>s1.
        case handle_entry Handle s1 of
          None \<Rightarrow> Inl OutsideTable
        | Some i \<Rightarrow>
            if HObject (HandleTable s1 ! i) = 0 then Inr (STATUS_INVALID_HANDLE, ObUnlockObjectTable s1)
            else Inr (STATUS_SUCCESS, ObUnlockObjectTable (s1\<lparr>HandleTable :=
              (HandleTable s1)[i := (HandleTable s1 ! i)\<lparr>HObject := 0\<rparr>]\<rparr>))))"

definition ObpMapHandleToPointer :: "u32 \<Rightarrow> u32 \<Rightarrow> bool \<Rightarrow> ob \<Rightarrow> ob_stop + (status \<times> u32 \<times> ob)" where
  "ObpMapHandleToPointer Handle DesiredAccess KeepLock s =
     (if Handle AND 0xFFFFFFF > 0xFFFF then Inr (STATUS_INVALID_HANDLE, 0, s)
      else and_then (ObLockObjectTable s) (\<lambda>s1.
        let done = (if KeepLock then s1 else ObUnlockObjectTable s1)
        in case handle_entry Handle s1 of
             None \<Rightarrow> Inl OutsideTable
           | Some i \<Rightarrow>
               let e = HandleTable s1 ! i
               in if HObject e = 0 then Inr (STATUS_INVALID_HANDLE, 0, done)
                  else if DesiredAccess \<noteq> 0 \<and> GrantedAccess e AND DesiredAccess = 0 then Inr (STATUS_ACCESS_DENIED, 0, done)
                  else Inr (STATUS_SUCCESS, HObject e, done)))"

text \<open>The common end of the two ways to open a handle: the object is referenced.\<close>

definition open_handle :: "u32 \<Rightarrow> u32 \<Rightarrow> ob \<Rightarrow> ob_stop + (status \<times> u32 \<times> ob)" where
  "open_handle p access s =
     and_then (ObpCreateHandle p access s) (\<lambda>(Handle, s1).
       if Handle = INVALID_HANDLE_VALUE then and_then (ObDereferenceObject p s1) (\<lambda>s2. Inr (STATUS_UNSUCCESSFUL, 0, s2))
       else and_then (upd_obj p (\<lambda>h. h\<lparr>HandleCount := HandleCount h + 1\<rparr>) s1) (\<lambda>s2. Inr (STATUS_SUCCESS, Handle, s2)))"

definition ObOpenObjectByName :: "wstr \<Rightarrow> u32 \<Rightarrow> bool \<Rightarrow> u32 \<Rightarrow> u32 \<Rightarrow> ob \<Rightarrow> ob_stop + (status \<times> u32 \<times> ob)" where
  "ObOpenObjectByName name ty user access ctx s =
     and_then (ObReferenceObjectByName name ty user ctx s) (\<lambda>(Status, p, s1).
       if \<not> SUCCESS Status then Inr (Status, 0, s1) else open_handle p access s1)"

definition ObOpenObjectByPointer :: "u32 \<Rightarrow> u32 \<Rightarrow> bool \<Rightarrow> u32 \<Rightarrow> ob \<Rightarrow> ob_stop + (status \<times> u32 \<times> ob)" where
  "ObOpenObjectByPointer p ty user access s =
     and_then (get_obj p s) (\<lambda>h.
       if ObjType h \<noteq> ty \<and> user then Inr (STATUS_ACCESS_DENIED, 0, s)
       else and_then (ObReferenceObject p s) (\<lambda>s1. open_handle p access s1))"

text \<open>The object is dereferenced before its handle count is decremented.\<close>

definition ObClose :: "u32 \<Rightarrow> ob \<Rightarrow> ob_stop + (status \<times> ob)" where
  "ObClose Handle s =
     and_then (ObpMapHandleToPointer Handle 0 True s) (\<lambda>(Status, p, s1).
       if \<not> SUCCESS Status then Inr (Status, s1)
       else and_then (ObDereferenceObject p s1) (\<lambda>s2.
         and_then (upd_obj p (\<lambda>h. h\<lparr>HandleCount := HandleCount h - 1\<rparr>) s2) (\<lambda>s3.
         ObpDeleteHandle Handle True s3)))"

definition ObReferenceObjectByHandle :: "u32 \<Rightarrow> u32 \<Rightarrow> ob \<Rightarrow> ob_stop + (status \<times> u32 \<times> ob)" where
  "ObReferenceObjectByHandle Handle DesiredAccess s =
     and_then (ObpMapHandleToPointer Handle DesiredAccess False s) (\<lambda>(Status, p, s1).
       if \<not> SUCCESS Status then Inr (Status, 0, s1)
       else and_then (ObReferenceObject p s1) (\<lambda>s2. Inr (STATUS_SUCCESS, p, s2)))"

subsection \<open>Initialisation\<close>

definition OB_INITIALIZATION_FAILED :: u32 where "OB_INITIALIZATION_FAILED = 9"

text \<open>The check after each step of \<open>ObInitSystem\<close>, with the number of its source line.\<close>

definition init_check :: "u32 \<Rightarrow> ob_stop + (status \<times> u32 \<times> ob) \<Rightarrow> ob_stop + (u32 \<times> ob)" where
  "init_check line r = and_then r (\<lambda>(Status, p, s).
     if SUCCESS Status then Inr (p, s) else Inl (ObBug (BugCheck OB_INITIALIZATION_FAILED line Status 0 0)))"

definition name_Global :: wstr where "name_Global = map (of_nat \<circ> of_char) ''Global''"
definition name_DrvGlobal :: wstr where "name_DrvGlobal = map (of_nat \<circ> of_char) ''DrvGlobal''"

definition ObInitSystem :: "ob \<Rightarrow> ob_stop + ob" where
  "ObInitSystem s =
     and_then (init_check 382 (ObCreateObjectType None None OB_OBJECT_OWNER_OB s)) (\<lambda>(dir, s).
     and_then (let s = s\<lparr>ObDirectoryObjectType := dir\<rparr>
               in init_check 403 (ObCreateObject (DirectoryBody []) dir None OB_OBJECT_OWNER_OB s)) (\<lambda>(root, s).
     and_then (let s = s\<lparr>ObRootObjectDirectory := root\<rparr>
               in init_check 442 (ObCreateObjectType (Some ParseSymbolicLink) (Some DeleteSymbolicLink) OB_OBJECT_OWNER_OB s)) (\<lambda>(link, s).
     and_then (ObCreateDirectory (Some name_Global) OB_OBJECT_OWNER_OB root (s\<lparr>ObSymbolicLinkObjectType := link\<rparr>)) (\<lambda>(_, g, s).
     and_then (ObCreateDirectory (Some name_DrvGlobal) OB_OBJECT_OWNER_OB root (s\<lparr>ObGlobalObjectDirectory := g\<rparr>)) (\<lambda>(_, d, s).
       Inr (s\<lparr>ObDrvGlobalObjectDirectory := d\<rparr>))))))"

end
