(* ===== verification/ObNames.thy ===== *)
theory ObNames
  imports Ob
begin

text \<open>
  The name space of the object manager: \<open>ObReferenceObjectByName\<close> implements \<open>lookup\<close>, the walk over
  the components of a path in the tree of directories, with devices that end the walk, links that
  start it again, and the double free of the reparse buffer; \<open>ObQueryObjectName\<close> is its inverse.
\<close>

subsection \<open>Components\<close>

function split_path :: "wstr \<Rightarrow> wstr list" where
  "split_path path =
     (let rest = dropWhile (\<lambda>c. c \<noteq> BACKSLASH) path
      in takeWhile (\<lambda>c. c \<noteq> BACKSLASH) path # (if rest = [] then [] else split_path (tl rest)))"
  by pat_completeness auto
termination
  by (relation "measure length") (simp, metis in_measure tl_dropWhile_less)

declare split_path.simps [simp del]

lemma component [simp]:
  "BACKSLASH \<notin> set c \<Longrightarrow> takeWhile (\<lambda>c. c \<noteq> BACKSLASH) (c @ BACKSLASH # r) = c"
  "BACKSLASH \<notin> set c \<Longrightarrow> dropWhile (\<lambda>c. c \<noteq> BACKSLASH) (c @ BACKSLASH # r) = BACKSLASH # r"
  "BACKSLASH \<notin> set c \<Longrightarrow> takeWhile (\<lambda>c. c \<noteq> BACKSLASH) c = c"
  "BACKSLASH \<notin> set c \<Longrightarrow> dropWhile (\<lambda>c. c \<noteq> BACKSLASH) c = []"
  by (induction c) auto

lemma split_path_cons: "BACKSLASH \<notin> set c \<Longrightarrow> split_path (c @ BACKSLASH # path) = c # split_path path"
  by (subst split_path.simps) (simp add: Let_def)

lemma split_path_last: "BACKSLASH \<notin> set c \<Longrightarrow> split_path c = [c]"
  by (subst split_path.simps) (simp add: Let_def)

lemma split_path_append:
  "split_path (xs @ BACKSLASH # ys) = split_path xs @ split_path ys"
proof (induction xs rule: length_induct)
  case (1 xs)
  define c where "c = takeWhile (\<lambda>c. c \<noteq> BACKSLASH) xs"
  define rest where "rest = dropWhile (\<lambda>c. c \<noteq> BACKSLASH) xs"
  have xs: "xs = c @ rest" and c: "BACKSLASH \<notin> set c" by (auto simp: c_def rest_def dest: set_takeWhileD)
  show ?case
  proof (cases rest)
    case Nil
    then show ?thesis using xs c by (simp add: split_path_cons split_path_last)
  next
    case (Cons b r)
    then have "b = BACKSLASH" by (metis (full_types) hd_dropWhile list.distinct(1) list.sel(1) rest_def)
    then show ?thesis using 1 xs c Cons by (simp add: split_path_cons)
  qed
qed

text \<open>The path of a list of names, and back.\<close>

definition path_of :: "wstr list \<Rightarrow> wstr" where "path_of cs = concat (map (Cons BACKSLASH) cs)"

lemma path_of_simps [simp]: "path_of [] = []" "path_of (c # cs) = BACKSLASH # c @ path_of cs"
  by (simp_all add: path_of_def)

lemma split_path_of: "cs \<noteq> [] \<Longrightarrow> \<forall>c\<in>set cs. BACKSLASH \<notin> set c \<Longrightarrow> split_path (tl (path_of cs)) = cs"
proof (induction cs)
  case (Cons c cs)
  then show ?case by (cases cs) (auto simp: split_path_cons split_path_last)
qed simp

subsection \<open>The specification\<close>

datatype outcome = Found u32 | Missing | FreedTwice | TooMany

definition dir_of :: "ob \<Rightarrow> u32 \<Rightarrow> u32 list option" where
  "dir_of s d = (case Objs s d of
     None \<Rightarrow> None
   | Some h \<Rightarrow> (case Body h of DirectoryBody os \<Rightarrow> Some os | _ \<Rightarrow> None))"

definition named :: "ob \<Rightarrow> wstr \<Rightarrow> u32 \<Rightarrow> bool" where
  "named s c p = (case Objs s p of None \<Rightarrow> False | Some h \<Rightarrow> wcs (ObjectName h) = wcs c)"

definition entry :: "ob \<Rightarrow> u32 \<Rightarrow> wstr \<Rightarrow> u32 option" where
  "entry s d c = (case dir_of s d of None \<Rightarrow> None | Some os \<Rightarrow> find (named s c) os)"

text \<open>What the walk does with an object.\<close>

datatype obj_kind = Directory | Device | Link wstr | Plain

definition obj_kind :: "ob \<Rightarrow> u32 \<Rightarrow> obj_kind" where
  "obj_kind s p =
     (case Objs s p of
        None \<Rightarrow> Plain
      | Some h \<Rightarrow>
          if ObjType h = ObDirectoryObjectType s then Directory
          else case ParseRoutine (Types s (ObjType h)) of
                 None \<Rightarrow> Plain
               | Some ParseDevice \<Rightarrow> Device
               | Some ParseSymbolicLink \<Rightarrow> (case Body h of LinkBody t b q \<Rightarrow> Link t | _ \<Rightarrow> Plain))"

text \<open>
  A device takes the rest of the path. After a link the walk starts again at the root with the target
  and the rest; if it then ends at an object without a parse routine, the buffer of the new path is
  freed twice. \<open>n\<close> links are followed.
\<close>

function lookup :: "nat \<Rightarrow> bool \<Rightarrow> ob \<Rightarrow> u32 \<Rightarrow> wstr list \<Rightarrow> outcome" where
  "lookup n link s d [] = Missing"
| "lookup n link s d (c # cs) =
     (case entry s d c of
        None \<Rightarrow> Missing
      | Some p \<Rightarrow>
          case obj_kind s p of
            Directory \<Rightarrow> if cs = [] then (if link then FreedTwice else Found p) else lookup n link s p cs
          | Device \<Rightarrow> Found p
          | Link t \<Rightarrow> (case n of 0 \<Rightarrow> TooMany | Suc n' \<Rightarrow> lookup n' True s (ObRootObjectDirectory s) (split_path (tl t) @ cs))
          | Plain \<Rightarrow> if cs = [] then (if link then FreedTwice else Found p) else Missing)"
  by pat_completeness auto
termination
  by (relation "measures [\<lambda>(n, _). n, \<lambda>(_, _, _, _, cs). length cs]") auto

text \<open>
  The objects in directories are live, objects of the directory type are the directories, and the
  targets of links are absolute paths, as \<open>ObCreateSymbolicLink\<close> checks.
\<close>

definition names_ok :: "ob \<Rightarrow> bool" where
  "names_ok s \<longleftrightarrow> dir_of s (ObRootObjectDirectory s) \<noteq> None
     \<and> (\<forall>d os. dir_of s d = Some os \<longrightarrow> (\<forall>p\<in>set os. Objs s p \<noteq> None))
     \<and> (\<forall>p h. Objs s p = Some h \<longrightarrow> (ObjType h = ObDirectoryObjectType s \<longleftrightarrow> dir_of s p \<noteq> None)
         \<and> (ObjType h \<noteq> ObDirectoryObjectType s \<longrightarrow> ParseRoutine (Types s (ObjType h)) = Some ParseSymbolicLink
            \<longrightarrow> (\<exists>t b q. Body h = LinkBody (BACKSLASH # t) b q)))"

text \<open>
  The heap gives blocks that are not in use (\<open>alloc_law\<close> of theory \<open>Allocator\<close>) and has room for two
  more.
\<close>

definition heap_fresh :: "ob \<Rightarrow> bool" where
  "heap_fresh s \<longleftrightarrow> 0 \<notin> Blocks s \<and> (\<forall>n B. Allocator s n B = 0 \<or> Allocator s n B \<notin> B)"

definition heap_room :: "nat \<Rightarrow> ob \<Rightarrow> bool" where
  "heap_room m s \<longleftrightarrow> heap_fresh s \<and> (\<forall>n B. Blocks s \<subseteq> B \<and> card (B - Blocks s) < m \<longrightarrow> Allocator s n B \<noteq> 0)"

subsection \<open>The walk implements the specification\<close>

text \<open>The states of a walk from \<open>s\<close>: only the heap has changed.\<close>

definition st :: "ob \<Rightarrow> nat \<Rightarrow> u32 set \<Rightarrow> ob" where "st s k B = s\<lparr>Allocs := k, Blocks := B\<rparr>"

lemma st_simps [simp]:
  "Objs (st s k B) = Objs s" "Types (st s k B) = Types s" "ObDirectoryObjectType (st s k B) = ObDirectoryObjectType s"
  "ObRootObjectDirectory (st s k B) = ObRootObjectDirectory s" "Allocs (st s k B) = k" "Blocks (st s k B) = B"
  "Allocator (st s k B) = Allocator s"
  by (simp_all add: st_def)

lemma st_views: "dir_of (st s k B) = dir_of s" "entry (st s k B) = entry s" "obj_kind (st s k B) = obj_kind s"
proof -
  show d: "dir_of (st s k B) = dir_of s" by (simp add: dir_of_def fun_eq_iff)
  have n: "named (st s k B) = named s" by (simp add: named_def fun_eq_iff)
  show "entry (st s k B) = entry s" unfolding entry_def d n ..
  have "obj_kind (st s k B) p = obj_kind s p" for p by (cases "Objs s p") (simp_all add: obj_kind_def)
  then show "obj_kind (st s k B) = obj_kind s" by (simp add: fun_eq_iff)
qed

lemma st_same: "st s (Allocs s) (Blocks s) = s"
  by (simp add: st_def)

lemma alloc_st: "ob_alloc (st s k B) = (Allocator s k B, st s (Suc k) (if Allocator s k B = 0 then B else insert (Allocator s k B) B))"
  by (simp add: ob_alloc_def st_def Let_def)

lemma free_st: "ob_free p (st s k B) = (if p \<in> B then Inr (st s k (B - {p})) else Inl (BadFree p))"
  by (simp add: ob_free_def st_def)

lemma free_opt_st: "free_opt p (st s k B) = (if p = 0 then Inr (st s k B) else if p \<in> B then Inr (st s k (B - {p})) else Inl (BadFree p))"
  by (simp add: free_opt_def free_st)

lemma get_st: "get_obj p (st s k B) = get_obj p s"
  by (simp add: get_obj_def)

lemma dir_list_of: "dir_of s d = Some os \<Longrightarrow> dir_list d (st s k B) = Inr os"
  by (auto simp: dir_of_def dir_list_def get_obj_def split: option.splits ob_body.splits)

lemma find_in_named:
  "\<forall>p\<in>set os. Objs s p \<noteq> None \<Longrightarrow> find_in os c (st s k B) = Inr (find (named s c) os)"
  by (induction os) (auto simp: get_obj_def named_def)

lemma find_object:
  assumes "names_ok s" and "dir_of s d \<noteq> None"
  shows "ObpFindObjectInDirectory d c (st s k B) = Inr (entry s d c)"
proof -
  obtain os where os: "dir_of s d = Some os" using assms(2) by blast
  then have "\<forall>p\<in>set os. Objs s p \<noteq> None" using assms(1) by (auto simp: names_ok_def)
  with os show ?thesis by (simp add: ObpFindObjectInDirectory_def dir_list_of entry_def find_in_named)
qed

lemma entry_live:
  assumes "names_ok s" and "entry s d c = Some p"
  obtains h where "Objs s p = Some h"
  using assms by (auto simp: entry_def names_ok_def find_Some_iff split: option.splits) (metis nth_mem option.exhaust)

text \<open>One step: the name that is looked up is the first component.\<close>

lemma walk_step_st:
  assumes "names_ok s" and "dir_of s d \<noteq> None" and "Allocator s k B \<noteq> 0" and "Allocator s k B \<notin> B"
  shows "walk_step user ty ctx rb d path (st s k B) =
    (case entry s d (takeWhile (\<lambda>c. c \<noteq> BACKSLASH) path) of
       None \<Rightarrow> walk_fail STATUS_NOT_FOUND rb (st s (Suc k) B)
     | Some obj \<Rightarrow> walk_found user ty ctx rb obj (dropWhile (\<lambda>c. c \<noteq> BACKSLASH) path) (st s (Suc k) B))"
  using assms by (simp add: walk_step_def Let_def alloc_st find_object free_st)

text \<open>What the whole walk answers, for an outcome of \<open>lookup\<close>.\<close>

definition answers :: "bool \<Rightarrow> u32 \<Rightarrow> ob \<Rightarrow> u32 set \<Rightarrow> outcome \<Rightarrow> ob_stop + (status \<times> u32 \<times> ob) \<Rightarrow> bool" where
  "answers user ty s B out r \<longleftrightarrow>
     (case out of
        Missing \<Rightarrow> \<exists>k. r = Inr (STATUS_NOT_FOUND, 0, st s k B)
      | FreedTwice \<Rightarrow> \<exists>b. r = Inl (BadFree b)
      | TooMany \<Rightarrow> r = Inl TooManyLinks
      | Found p \<Rightarrow> \<exists>k h. Objs s p = Some h \<and>
          r = (if user \<and> ObjType h \<noteq> ty then Inr (STATUS_ACCESS_DENIED, 0, st s k B)
               else Inr (STATUS_SUCCESS, p, st (put_obj p (h\<lparr>ReferenceCount := ReferenceCount h + 1\<rparr>) s) k B)))"

lemma finish_st:
  assumes "Objs s p = Some h"
  shows "ref_finish user ty 0 p (st s k B) = (if user \<and> ObjType h \<noteq> ty then Inr (STATUS_ACCESS_DENIED, 0, st s k B)
    else Inr (STATUS_SUCCESS, p, st (put_obj p (h\<lparr>ReferenceCount := ReferenceCount h + 1\<rparr>) s) k B))"
  using assms by (simp add: ref_finish_def free_opt_def get_obj_def ObReferenceObject_def upd_obj_def put_obj_def st_def)

text \<open>The reparse buffer is in use, over the blocks that the caller had.\<close>

definition rb_ok :: "u32 set \<Rightarrow> u32 \<Rightarrow> u32 set \<Rightarrow> bool" where
  "rb_ok B0 rb B \<longleftrightarrow> (if rb = 0 then B = B0 else rb \<notin> B0 \<and> B = insert rb B0)"

lemma free_rb: "rb_ok B0 rb B \<Longrightarrow> free_opt rb (st s k B) = Inr (st s k B0)"
  by (auto simp: rb_ok_def free_opt_st split: if_splits)

lemma free_rb_twice: "rb \<noteq> 0 \<Longrightarrow> rb_ok B0 rb B \<Longrightarrow> free_opt rb (st s k B0) = Inl (BadFree rb)"
  by (simp add: rb_ok_def free_opt_st)

lemma rb_room: "rb_ok B0 rb B \<Longrightarrow> B0 \<subseteq> B \<and> card (B - B0) < 2"
  by (auto simp: rb_ok_def insert_Diff_if split: if_splits)

text \<open>The context is no parse packet and does not ask for the link itself.\<close>

definition plain_ctx :: "u32 \<Rightarrow> bool" where "plain_ctx ctx \<longleftrightarrow> ctx \<noteq> 1 \<and> (ctx = 0 \<or> ctx AND 0xFFFF0000 = 0)"

definition walk_env :: "ob \<Rightarrow> u32 set \<Rightarrow> bool" where
  "walk_env s B0 \<longleftrightarrow> names_ok s \<and> (\<forall>n B. Allocator s n B = 0 \<or> Allocator s n B \<notin> B)
     \<and> (\<forall>n B. B0 \<subseteq> B \<and> card (B - B0) < 2 \<longrightarrow> Allocator s n B \<noteq> 0)"

lemma alloc_works:
  assumes "walk_env s B0" and "rb_ok B0 rb B"
  shows "Allocator s k B \<noteq> 0 \<and> Allocator s k B \<notin> B"
proof -
  have "Allocator s k B = 0 \<or> Allocator s k B \<notin> B" "B0 \<subseteq> B \<and> card (B - B0) < 2 \<longrightarrow> Allocator s k B \<noteq> 0"
    using assms(1) by (simp_all add: walk_env_def)
  with rb_room [OF assms(2)] show ?thesis by simp
qed

text \<open>What happens with the object that was found.\<close>

lemma found_directory:
  assumes E: "walk_env s B0" and "obj_kind s p = Directory" and "Objs s p = Some h" and "rb_ok B0 rb B"
  shows "walk_found user ty ctx rb p rest (st s k B) =
    (if rest = [] then if rb \<noteq> 0 then Inl (BadFree rb) else walk_end user ty 0 p (st s k B0)
     else Inr (Descend rb p (tl rest), st s k B))"
proof -
  have "ObjType h = ObDirectoryObjectType s" using assms(2,3) by (simp add: obj_kind_def split: if_splits option.splits parse_fn.splits ob_body.splits)
  then show ?thesis using assms(3) free_rb [OF assms(4), of s k] free_rb_twice [OF _ assms(4), of s k]
    by (simp add: walk_found_def get_obj_def walk_end_def ref_finish_def)
qed

lemma found_plain:
  assumes E: "walk_env s B0" and "obj_kind s p = Plain" and "Objs s p = Some h" and "rb_ok B0 rb B"
  shows "walk_found user ty ctx rb p rest (st s k B) =
    (if rest = [] then if rb \<noteq> 0 then Inl (BadFree rb) else walk_end user ty 0 p (st s k B0)
     else Inr (Return STATUS_NOT_FOUND 0, st s k B0))"
proof -
  have t: "ObjType h \<noteq> ObDirectoryObjectType s" using assms(2,3) by (simp add: obj_kind_def split: if_splits)
  moreover have "ParseRoutine (Types s (ObjType h)) = None"
  proof (cases "ParseRoutine (Types s (ObjType h))")
    case (Some r)
    then show ?thesis using assms(2,3) t E
      by (cases r) (fastforce simp: obj_kind_def walk_env_def names_ok_def)+
  qed
  ultimately show ?thesis using assms(3) free_rb [OF assms(4), of s k] free_rb_twice [OF _ assms(4), of s k]
    by (simp add: walk_found_def get_obj_def walk_end_def ref_finish_def walk_fail_def)
qed

lemma found_device:
  assumes E: "walk_env s B0" and "obj_kind s p = Device" and "Objs s p = Some h" and "rb_ok B0 rb B" and "plain_ctx ctx"
  shows "walk_found user ty ctx rb p rest (st s k B) = walk_end user ty 0 p (st s k B0)"
proof -
  have "ObjType h \<noteq> ObDirectoryObjectType s" "ParseRoutine (Types s (ObjType h)) = Some ParseDevice"
    using assms(2,3) by (auto simp: obj_kind_def split: if_splits option.splits parse_fn.splits ob_body.splits)
  then show ?thesis using assms(3,5) free_rb [OF assms(4), of s k]
    by (auto simp: walk_found_def get_obj_def call_parse_def IopParseDevice_def plain_ctx_def walk_parsed_def
        STATUS_FINISH_PARSING_def STATUS_REPARSE_def SUCCESS_def)
qed

lemma found_link:
  assumes E: "walk_env s B0" and "obj_kind s p = Link t" and "Objs s p = Some h" and "rb_ok B0 rb B" and "ctx \<noteq> 1"
  shows "\<exists>t'. t = BACKSLASH # t' \<and> (\<exists>b. b \<noteq> 0 \<and> rb_ok B0 b (insert b B0)
    \<and> walk_found user ty ctx rb p rest (st s k B) = Inr (Reparse b (t @ rest), st s (Suc k) (insert b B0)))"
proof -
  have h: "ObjType h \<noteq> ObDirectoryObjectType s" "ParseRoutine (Types s (ObjType h)) = Some ParseSymbolicLink"
    using assms(2,3) by (auto simp: obj_kind_def split: if_splits option.splits parse_fn.splits ob_body.splits)
  then obtain t' b q where b: "Body h = LinkBody (BACKSLASH # t') b q" using E assms(3) by (fastforce simp: walk_env_def names_ok_def)
  then have t: "t = BACKSLASH # t'" using assms(2,3) h by (simp add: obj_kind_def)
  let ?b = "Allocator s k B"
  have a: "?b \<noteq> 0" "?b \<notin> B" using alloc_works [OF E assms(4)] by auto
  have rb: "rb = 0 \<and> B = B0 \<or> rb \<noteq> 0 \<and> rb \<notin> B0 \<and> B = insert rb B0 \<and> rb \<noteq> ?b"
    using assms(4) a by (auto simp: rb_ok_def split: if_splits)
  have "free_opt rb (st s (Suc k) (insert ?b B)) = Inr (st s (Suc k) (insert ?b B0))"
    using rb a by (auto simp: free_opt_st insert_Diff_if)
  then have "walk_found user ty ctx rb p rest (st s k B) = Inr (Reparse ?b (t @ rest), st s (Suc k) (insert ?b B0))"
    using h b t assms(3,5) a by (simp add: walk_found_def get_obj_def call_parse_def ObpParseSymbolicLink_def
        walk_parsed_def alloc_st)
  moreover have "rb_ok B0 ?b (insert ?b B0)" using a rb by (auto simp: rb_ok_def)
  ultimately show ?thesis using a t by blast
qed

lemma end_answers:
  assumes "Objs s p = Some h" and "walk_step user ty ctx rb d path (st s k B) = walk_end user ty 0 p (st s k' B0)"
  shows "answers user ty s B0 (Found p) (walk n user ty ctx rb d path (st s k B))"
  using assms finish_st [OF assms(1), of user ty k' B0]
  by (subst walk.simps) (auto simp: walk_end_def answers_def)

text \<open>A device writes to the context when it is a kernel address; the walk needs a plain one only when it finds something.\<close>

lemma walk_lookup:
  assumes E: "walk_env s B0" and ctx: "ctx \<noteq> 1"
  shows "rb_ok B0 rb B \<Longrightarrow> dir_of s d \<noteq> None
    \<Longrightarrow> plain_ctx ctx \<or> (\<forall>p. lookup n (rb \<noteq> 0) s d (split_path path) \<noteq> Found p)
    \<Longrightarrow> answers user ty s B0 (lookup n (rb \<noteq> 0) s d (split_path path)) (walk n user ty ctx rb d path (st s k B))"
proof (induction n arbitrary: rb B d path k rule: less_induct)
  case outer: (less n)
  show ?case using outer.prems
  proof (induction path arbitrary: rb B d k rule: length_induct)
    case inner: (1 path)
    note ok = E [unfolded walk_env_def, THEN conjunct1]
    define c where "c = takeWhile (\<lambda>c. c \<noteq> BACKSLASH) path"
    define rest where "rest = dropWhile (\<lambda>c. c \<noteq> BACKSLASH) path"
    have sp: "split_path path = c # (if rest = [] then [] else split_path (tl rest))"
      unfolding c_def rest_def by (rule split_path.simps [unfolded Let_def])
    have al: "Allocator s k B \<noteq> 0" "Allocator s k B \<notin> B" using alloc_works [OF E inner.prems(1)] by auto
    note step = walk_step_st [OF ok inner.prems(2) al, of user ty ctx rb path, folded c_def rest_def]
    note free = free_rb [OF inner.prems(1)]
    show ?case
    proof (cases "entry s d c")
      case None
      then have "walk n user ty ctx rb d path (st s k B) = Inr (STATUS_NOT_FOUND, 0, st s (Suc k) B0)"
        by (subst walk.simps) (simp add: step walk_fail_def free)
      then show ?thesis using None by (simp add: sp answers_def) blast
    next
      case (Some p)
      from entry_live [OF ok Some] obtain h where h: "Objs s p = Some h" .
      have sne: "split_path r \<noteq> []" for r unfolding split_path.simps [of r] Let_def by simp
      show ?thesis
      proof (cases "obj_kind s p")
        case Directory
        note fd = found_directory [OF E Directory h inner.prems(1), of user ty ctx rest "Suc k"]
        show ?thesis
        proof (cases "rest = []")
          case True
          show ?thesis
          proof (cases "rb = 0")
            case False
            have "walk n user ty ctx rb d path (st s k B) = Inl (BadFree rb)"
              using fd True False Some by (subst walk.simps) (simp add: step)
            then show ?thesis using True False Some Directory by (simp add: sp answers_def)
          next
            case rb: True
            have "walk_step user ty ctx rb d path (st s k B) = walk_end user ty 0 p (st s (Suc k) B0)"
              unfolding step using fd True rb Some by simp
            from end_answers [OF h this] show ?thesis using True rb Some Directory by (simp add: sp)
          qed
        next
          case False
          then have w: "walk n user ty ctx rb d path (st s k B) = walk n user ty ctx rb p (tl rest) (st s (Suc k) B)"
            using fd Some by (subst walk.simps) (simp add: step)
          have ctx': "plain_ctx ctx \<or> (\<forall>pa. lookup n (rb \<noteq> 0) s p (split_path (tl rest)) \<noteq> Found pa)"
            using inner.prems(3) False Some Directory sne by (simp add: sp)
          have "dir_of s p \<noteq> None"
            using ok h Directory by (auto simp: names_ok_def obj_kind_def split: if_splits option.splits parse_fn.splits ob_body.splits)
          moreover have "length (tl rest) < length path" using False tl_dropWhile_less unfolding rest_def by blast
          ultimately have "answers user ty s B0 (lookup n (rb \<noteq> 0) s p (split_path (tl rest)))
              (walk n user ty ctx rb p (tl rest) (st s (Suc k) B))" using inner.IH inner.prems(1) ctx' by blast
          then show ?thesis using w False Some Directory sne by (simp add: sp)
        qed
      next
        case Device
        then have ctx': "plain_ctx ctx" using inner.prems(3) Some by (simp add: sp)
        have "walk_step user ty ctx rb d path (st s k B) = walk_end user ty 0 p (st s (Suc k) B0)"
          using found_device [OF E Device h inner.prems(1) ctx'] Some by (simp add: step)
        from end_answers [OF h this] show ?thesis using Some Device by (simp add: sp)
      next
        case Plain
        note fp = found_plain [OF E Plain h inner.prems(1), of user ty ctx rest "Suc k"]
        consider "rest = []" "rb \<noteq> 0" | "rest = []" "rb = 0" | "rest \<noteq> []" by blast
        then show ?thesis
        proof cases
          case 1
          have "walk n user ty ctx rb d path (st s k B) = Inl (BadFree rb)"
            using fp 1 Some by (subst walk.simps) (simp add: step)
          then show ?thesis using 1 Some Plain by (simp add: sp answers_def)
        next
          case 2
          have "walk_step user ty ctx rb d path (st s k B) = walk_end user ty 0 p (st s (Suc k) B0)"
            unfolding step using fp 2 Some by simp
          from end_answers [OF h this] show ?thesis using 2 Some Plain by (simp add: sp)
        next
          case 3
          have "walk n user ty ctx rb d path (st s k B) = Inr (STATUS_NOT_FOUND, 0, st s (Suc k) B0)"
            using fp 3 Some by (subst walk.simps) (simp add: step)
          then show ?thesis using 3 Some Plain sne by (simp add: sp answers_def) blast
        qed
      next
        case (Link t)
        from found_link [OF E Link h inner.prems(1) ctx, of user ty rest "Suc k"]
        obtain t' b where b: "t = BACKSLASH # t'" "b \<noteq> 0" "rb_ok B0 b (insert b B0)"
          "walk_found user ty ctx rb p rest (st s (Suc k) B) = Inr (Reparse b (t @ rest), st s (Suc (Suc k)) (insert b B0))" by blast
        have w: "walk n user ty ctx rb d path (st s k B) = (case n of 0 \<Rightarrow> Inl TooManyLinks
            | Suc n' \<Rightarrow> walk n' user ty ctx b (ObRootObjectDirectory s) (t' @ rest) (st s (Suc (Suc k)) (insert b B0)))"
          using b Some by (subst walk.simps) (simp add: step split: nat.splits)
        have sr: "split_path (t' @ rest) = split_path t' @ (if rest = [] then [] else split_path (tl rest))"
        proof (cases rest)
          case (Cons x r)
          then have "x = BACKSLASH" by (metis (full_types) hd_dropWhile list.distinct(1) list.sel(1) rest_def)
          then show ?thesis using Cons by (simp add: split_path_append)
        qed simp
        show ?thesis
        proof (cases n)
          case 0
          then show ?thesis using w Some Link by (simp add: sp answers_def)
        next
          case (Suc n')
          have "dir_of s (ObRootObjectDirectory s) \<noteq> None" using ok by (simp add: names_ok_def)
          moreover have "plain_ctx ctx \<or> (\<forall>p. lookup n' (b \<noteq> 0) s (ObRootObjectDirectory s) (split_path (t' @ rest)) \<noteq> Found p)"
            using inner.prems(3) Suc Some Link b(1,2) sr by (simp add: sp)
          ultimately have
            "answers user ty s B0 (lookup n' True s (ObRootObjectDirectory s) (split_path (t' @ rest)))
              (walk n' user ty ctx b (ObRootObjectDirectory s) (t' @ rest) (st s (Suc (Suc k)) (insert b B0)))"
            using outer.IH [OF _ b(3), of n' "ObRootObjectDirectory s" "t' @ rest"] Suc b(2) by simp
          then show ?thesis using w Suc Some Link b(1) sr by (simp add: sp)
        qed
      qed
    qed
  qed
qed

lemma reference_by_name_ctx:
  assumes "names_ok s" and "heap_room 2 s" and "ctx \<noteq> 1"
    and "plain_ctx ctx \<or> (\<forall>p. lookup MAX_LINKS False s (ObRootObjectDirectory s) (split_path path) \<noteq> Found p)"
  shows "answers user ty s (Blocks s) (lookup MAX_LINKS False s (ObRootObjectDirectory s) (split_path path))
    (ObReferenceObjectByName (BACKSLASH # path) ty user ctx s)"
proof -
  have "walk_env s (Blocks s)" using assms(1,2) by (simp add: walk_env_def heap_room_def heap_fresh_def)
  moreover have "dir_of s (ObRootObjectDirectory s) \<noteq> None" using assms(1) by (simp add: names_ok_def)
  moreover have "rb_ok (Blocks s) 0 (Blocks s)" by (simp add: rb_ok_def)
  ultimately show ?thesis using walk_lookup [of s "Blocks s" ctx 0 "Blocks s" "ObRootObjectDirectory s" MAX_LINKS path user ty "Allocs s"] assms(3,4)
    by (simp add: ObReferenceObjectByName_def st_same)
qed

lemma reference_by_name:
  assumes "names_ok s" and "heap_room 2 s" and "plain_ctx ctx"
  shows "answers user ty s (Blocks s) (lookup MAX_LINKS False s (ObRootObjectDirectory s) (split_path path))
    (ObReferenceObjectByName (BACKSLASH # path) ty user ctx s)"
  using assms reference_by_name_ctx [OF assms(1,2), of ctx path user ty] by (simp add: plain_ctx_def)

text \<open>A path that has been followed through a link must end at a device.\<close>

lemma lookup_linked_device: "lookup n True s d cs = Found p \<Longrightarrow> obj_kind s p = Device"
proof (induction n True s d cs rule: lookup.induct)
  case (2 n s d c cs)
  then show ?case by (auto split: option.splits obj_kind.splits nat.splits if_splits)
qed simp

lemma lookup_linked: "lookup n False s d cs = Found p \<Longrightarrow> obj_kind s p \<noteq> Device \<Longrightarrow> lookup n True s d cs = FreedTwice"
proof (induction n False s d cs rule: lookup.induct)
  case (2 n s d c cs)
  then show ?case using lookup_linked_device
    by (auto split: option.splits obj_kind.splits nat.splits if_splits)
qed simp

subsection \<open>The name of an object\<close>

text \<open>\<open>p\<close> is the object that is reached from \<open>d\<close> over the names \<open>cs\<close>, where each object is the first entry of its name in its directory.\<close>

definition child :: "ob \<Rightarrow> u32 \<Rightarrow> wstr \<Rightarrow> u32 \<Rightarrow> bool" where
  "child s d c p \<longleftrightarrow> entry s d c = Some p \<and> (\<exists>h. Objs s p = Some h \<and> ObjectName h = c \<and> ParentDirectory h = d)"

fun trail :: "ob \<Rightarrow> u32 \<Rightarrow> wstr list \<Rightarrow> u32 \<Rightarrow> bool" where
  "trail s d [] p \<longleftrightarrow> d = p"
| "trail s d (c # cs) p \<longleftrightarrow> (\<exists>q. child s d c q \<and> trail s q cs p)"

lemma trail_snoc: "trail s d (cs @ [c]) p \<longleftrightarrow> (\<exists>q. trail s d cs q \<and> child s q c p)"
  by (induction cs arbitrary: d) auto

lemma trail_st: "trail (st s k B) d cs p = trail s d cs p"
  by (induction cs arbitrary: d) (simp_all add: child_def st_views)

lemma child_dir: "child s d c p \<Longrightarrow> dir_of s d \<noteq> None"
  by (auto simp: child_def entry_def split: option.splits)

lemma trail_dir: "trail s d cs q \<Longrightarrow> child s q c p \<Longrightarrow> cs \<noteq> [] \<Longrightarrow> dir_of s d \<noteq> None"
  by (cases cs) (auto dest: child_dir)

lemma lookup_trail:
  assumes "names_ok s"
  shows "trail s d cs p \<Longrightarrow> cs \<noteq> [] \<Longrightarrow> (\<forall>t. obj_kind s p \<noteq> Link t) \<Longrightarrow> lookup n False s d cs = Found p"
proof (induction cs arbitrary: d)
  case (Cons c cs)
  then obtain q where q: "child s d c q" "trail s q cs p" by auto
  then have e: "entry s d c = Some q" by (simp add: child_def)
  show ?case
  proof (cases cs)
    case Nil
    then show ?thesis using q e Cons.prems(3) by (auto split: obj_kind.splits)
  next
    case (Cons b bs)
    with q(2) have "dir_of s q \<noteq> None" by (auto dest: child_dir)
    then have "obj_kind s q = Directory"
      using assms q(1) by (auto simp: obj_kind_def names_ok_def child_def)
    then show ?thesis using Cons.IH [OF q(2)] Cons e Cons.prems(3) by simp
  qed
qed simp

lemma query_name_trail:
  assumes E: "walk_env s B0" and root: "Objs s (ObRootObjectDirectory s) = Some r" "ObjectName r = []" "ParentDirectory r = 0"
    and nz: "0 \<notin> dom (Objs s)"
  shows "trail s (ObRootObjectDirectory s) cs q \<Longrightarrow> q \<in> dom (Objs s) \<Longrightarrow> length cs < n \<Longrightarrow> buf \<noteq> 0 \<Longrightarrow> rb_ok B0 buf B
    \<Longrightarrow> \<exists>b' k'. b' \<noteq> 0 \<and> rb_ok B0 b' (insert b' B0)
      \<and> query_name n q name buf (st s k B) = Inr (path_of cs @ BACKSLASH # name, b', st s k' (insert b' B0))"
proof (induction cs arbitrary: n q name buf B k rule: rev_induct)
  case Nil
  then have q: "q = ObRootObjectDirectory s" "q \<noteq> 0" using nz by auto
  obtain n' where n: "n = Suc n'" using Nil by (cases n) auto
  let ?b = "Allocator s k B"
  have a: "?b \<noteq> 0" "?b \<notin> B" using alloc_works [OF E Nil.prems(5)] by auto
  have b: "B = insert buf B0" "buf \<notin> B0" using Nil.prems(4,5) by (auto simp: rb_ok_def)
  then have "insert ?b B - {buf} = insert ?b B0" "buf \<noteq> ?b" using a by auto
  then have "query_name n q name buf (st s k B) = Inr (BACKSLASH # name, ?b, st s (Suc k) (insert ?b B0))"
    using n q root a b by (simp add: query_name.simps [of "Suc _"] query_name.simps [of _ 0] get_obj_def alloc_unchecked_def alloc_st free_st)
  moreover have "rb_ok B0 ?b (insert ?b B0)" using a b by (simp add: rb_ok_def)
  ultimately show ?case using a(1) by (intro exI [of _ ?b] exI [of _ "Suc k"]) simp
next
  case (snoc c cs)
  then obtain q' where q': "trail s (ObRootObjectDirectory s) cs q'" "child s q' c q" by (auto simp: trail_snoc)
  then obtain h where h: "Objs s q = Some h" "ObjectName h = c" "ParentDirectory h = q'" by (auto simp: child_def)
  have "q \<noteq> 0" using nz snoc.prems(2) by auto
  obtain n' where n: "n = Suc n'" "length cs < n'" using snoc.prems(3) by (cases n) auto
  let ?b = "Allocator s k B"
  have a: "?b \<noteq> 0" "?b \<notin> B" using alloc_works [OF E snoc.prems(5)] by auto
  have b: "B = insert buf B0" "buf \<notin> B0" using snoc.prems(4,5) by (auto simp: rb_ok_def)
  then have B: "insert ?b B - {buf} = insert ?b B0" "buf \<noteq> ?b" using a by auto
  then have w: "query_name n q name buf (st s k B) = query_name n' q' (c @ BACKSLASH # name) ?b (st s (Suc k) (insert ?b B0))"
    using n h a b \<open>q \<noteq> 0\<close> by (simp add: query_name.simps [of "Suc _"] get_obj_def alloc_unchecked_def alloc_st free_st)
  have "q' \<in> dom (Objs s)" using child_dir [OF q'(2)] by (auto simp: dir_of_def split: option.splits)
  moreover have "rb_ok B0 ?b (insert ?b B0)" using a b by (simp add: rb_ok_def)
  ultimately show ?case using snoc.IH [OF q'(1) _ n(2) a(1), of "insert ?b B0" "c @ BACKSLASH # name" "Suc k"] w
    by (simp add: path_of_def)
qed

lemma query_then_reference:
  assumes ok: "names_ok s" and room: "heap_room 3 s" and nz: "0 \<notin> dom (Objs s)"
    and root: "Objs s (ObRootObjectDirectory s) = Some r" "ObjectName r = []" "ParentDirectory r = 0"
    and p: "trail s (ObRootObjectDirectory s) cs p" "cs \<noteq> []" "length cs \<le> 64" "\<forall>t. obj_kind s p \<noteq> Link t"
    and cs: "\<forall>c\<in>set cs. BACKSLASH \<notin> set c" and h: "Objs s p = Some h"
  shows "\<exists>buf s1 s2. ObQueryObjectName p s = Inr (STATUS_SUCCESS, path_of cs, buf, s1)
    \<and> Objs s1 = Objs s \<and> Blocks s1 = insert buf (Blocks s) \<and> buf \<notin> Blocks s
    \<and> ObReferenceObjectByName (path_of cs) 0 False 0 s1 = Inr (STATUS_SUCCESS, p, s2)
    \<and> Objs s2 = (Objs s)(p \<mapsto> h\<lparr>ReferenceCount := ReferenceCount h + 1\<rparr>) \<and> Blocks s2 = Blocks s1"
proof -
  obtain ds c where dc: "cs = ds @ [c]" using p(2) by (metis append_butlast_last_id)
  with p(1) obtain q where q: "trail s (ObRootObjectDirectory s) ds q" "child s q c p" by (auto simp: trail_snoc)
  then have c: "ObjectName h = c" "ParentDirectory h = q" using h by (auto simp: child_def)
  have E: "walk_env s (Blocks s)" using ok room by (simp add: walk_env_def heap_room_def heap_fresh_def)
  have "rb_ok (Blocks s) 0 (Blocks s)" by (simp add: rb_ok_def)
  from alloc_works [OF E this, of "Allocs s"] have a: "Allocator s (Allocs s) (Blocks s) \<noteq> 0" "Allocator s (Allocs s) (Blocks s) \<notin> Blocks s" by auto
  let ?b = "Allocator s (Allocs s) (Blocks s)"
  have "rb_ok (Blocks s) ?b (insert ?b (Blocks s))" "q \<in> dom (Objs s)" "length ds < 64"
    using a child_dir [OF q(2)] p(3) by (auto simp: rb_ok_def dc dir_of_def split: option.splits)
  from query_name_trail [OF E root nz q(1) this(2,3) a(1) this(1), of c "Suc (Allocs s)"]
  obtain b k where b: "b \<noteq> 0" "rb_ok (Blocks s) b (insert b (Blocks s))"
    "query_name 64 q c ?b (st s (Suc (Allocs s)) (insert ?b (Blocks s))) = Inr (path_of ds @ BACKSLASH # c, b, st s k (insert b (Blocks s)))" by blast
  let ?s1 = "st s k (insert b (Blocks s))"
  have al: "ob_alloc s = (?b, st s (Suc (Allocs s)) (insert ?b (Blocks s)))"
    using alloc_st [of s "Allocs s" "Blocks s"] a(1) by (simp add: st_same)
  have bn: "b \<notin> Blocks s" using b(1,2) by (simp add: rb_ok_def)
  have Q: "ObQueryObjectName p s = Inr (STATUS_SUCCESS, path_of cs, b, ?s1)"
    using h c b(3) a(1) by (simp add: ObQueryObjectName_def get_obj_def alloc_unchecked_def al dc path_of_def)
  have "names_ok ?s1" using ok by (simp add: names_ok_def dir_of_def)
  moreover have "heap_room 2 ?s1"
    unfolding heap_room_def heap_fresh_def
  proof (intro conjI allI impI)
    show "0 \<notin> Blocks ?s1" using room b(1) by (simp add: heap_room_def heap_fresh_def)
    show "Allocator ?s1 n B = 0 \<or> Allocator ?s1 n B \<notin> B" for n B using room by (simp add: heap_room_def heap_fresh_def)
    fix n B assume B: "Blocks ?s1 \<subseteq> B \<and> card (B - Blocks ?s1) < 2"
    then have "B - Blocks s = insert b (B - insert b (Blocks s))" using bn by auto
    then have "card (B - Blocks s) \<le> Suc (card (B - insert b (Blocks s)))"
      by (metis card_insert_le_m1 diff_Suc_1 zero_less_Suc card_insert_if finite le_Suc_eq order_refl)
    then have "Blocks s \<subseteq> B \<and> card (B - Blocks s) < 3" using B by auto
    then show "Allocator ?s1 n B \<noteq> 0" using room by (simp add: heap_room_def)
  qed
  moreover have "plain_ctx 0" by (simp add: plain_ctx_def)
  ultimately have A: "answers False 0 ?s1 (insert b (Blocks s))
      (lookup MAX_LINKS False ?s1 (ObRootObjectDirectory s) (split_path (tl (path_of cs))))
      (ObReferenceObjectByName (path_of cs) 0 False 0 ?s1)"
    using reference_by_name [of ?s1 0 False 0 "tl (path_of cs)"] p(2) by (cases cs) auto
  have "lookup MAX_LINKS False ?s1 (ObRootObjectDirectory s) cs = Found p"
    using lookup_trail [OF \<open>names_ok ?s1\<close>, of "ObRootObjectDirectory s" cs p MAX_LINKS] p
    by (simp add: trail_st st_views)
  then have "answers False 0 ?s1 (insert b (Blocks s)) (Found p) (ObReferenceObjectByName (path_of cs) 0 False 0 ?s1)"
    using A split_path_of [OF p(2) cs] by simp
  then obtain k' where "ObReferenceObjectByName (path_of cs) 0 False 0 ?s1
      = Inr (STATUS_SUCCESS, p, st (put_obj p (h\<lparr>ReferenceCount := ReferenceCount h + 1\<rparr>) ?s1) k' (insert b (Blocks s)))"
    using h by (auto simp: answers_def)
  then show ?thesis using Q bn h by (intro exI) (auto simp: put_obj_def)
qed

subsection \<open>A small name space\<close>

text \<open>The directory \<open>\A\<close>, a device \<open>\A\D\<close>, an event \<open>\A\E\<close> and two links \<open>\L\<close> to \<open>\A\<close> and \<open>\M\<close> to \<open>\A\D\<close>.\<close>

definition sample_obj :: "u32 \<Rightarrow> u32 \<Rightarrow> wstr \<Rightarrow> ob_body \<Rightarrow> ob_header" where
  "sample_obj parent ty name body = \<lparr>ParentDirectory = parent, ObjType = ty, ObjectName = name, NameBuffer = 0, Owner = 1,
     OwnerTag = 0, ReferenceCount = 1, HandleCount = 0, Flags = 0, Body = body\<rparr>"

definition sample_ob :: ob where
  "sample_ob =
     \<lparr>Objs = [0x10 \<mapsto> sample_obj 0 1 [] (DirectoryBody [0x20, 0x50, 0x60]), 0x20 \<mapsto> sample_obj 0x10 1 [0x41] (DirectoryBody [0x30, 0x40]),
        0x30 \<mapsto> sample_obj 0x20 3 [0x44] (DeviceBody 0), 0x40 \<mapsto> sample_obj 0x20 4 [0x45] OtherBody,
        0x50 \<mapsto> sample_obj 0x10 2 [0x4C] (LinkBody [0x5C, 0x41] 0x70 0x20),
        0x60 \<mapsto> sample_obj 0x10 2 [0x4D] (LinkBody [0x5C, 0x41, 0x5C, 0x44] 0x80 0x30)],
      Types = (\<lambda>t. \<lparr>ParseRoutine = (if t = 2 then Some ParseSymbolicLink else if t = 3 then Some ParseDevice else None),
        DeleteRoutine = None, TypeOwnerTag = 0, ObjectCount = 1\<rparr>),
      ObDirectoryObjectType = 1, ObSymbolicLinkObjectType = 2, ObRootObjectDirectory = 0x10, ObGlobalObjectDirectory = 0x20,
      ObDrvGlobalObjectDirectory = 0x20, HandleTable = [\<lparr>HObject = 0, GrantedAccess = 0, HOwner = 0\<rparr>, \<lparr>HObject = 0, GrantedAccess = 0, HOwner = 0\<rparr>],
      TableLock = False, CurThread = 1, ParsePacket = ([], 0),
      Allocator = (\<lambda>n B. if 0x100 \<notin> B then 0x100 else if 0x200 \<notin> B then 0x200 else if 0x300 \<notin> B then 0x300 else 0),
      Allocs = 0, Blocks = {0x10, 0x20, 0x30, 0x40, 0x50, 0x60, 0x70, 0x80}\<rparr>"

lemma sample_heap_room: "heap_room 3 sample_ob" "heap_room 2 sample_ob"
proof -
  show 3: "heap_room 3 sample_ob"
    unfolding heap_room_def heap_fresh_def
  proof (intro conjI allI impI)
    fix n B assume B: "Blocks sample_ob \<subseteq> B \<and> card (B - Blocks sample_ob) < 3"
    show "Allocator sample_ob n B \<noteq> 0"
    proof
      assume "Allocator sample_ob n B = 0"
      then have "{0x100, 0x200, 0x300} \<subseteq> B - Blocks sample_ob" by (auto simp: sample_ob_def split: if_splits)
      from card_mono [OF finite this] B show False by simp
    qed
  qed (auto simp: sample_ob_def)
  then show "heap_room 2 sample_ob" by (simp add: heap_room_def)
qed

lemma sample_names_ok: "names_ok sample_ob"
  by (auto simp: names_ok_def dir_of_def sample_ob_def sample_obj_def BACKSLASH_def split: if_splits)

lemma sample_split: "split_path [0x41, 0x5C, 0x45] = [[0x41], [0x45]]" "split_path [0x4C] = [[0x4C]]"
  "split_path [0x41] = [[0x41]]"
  using split_path_of [of "[[0x41], [0x45]]"] split_path_last [of "[0x4C]"] split_path_last [of "[0x41]"]
  by (simp_all add: BACKSLASH_def)

lemma sample_entries:
  "entry sample_ob 0x10 [0x41] = Some 0x20" "entry sample_ob 0x20 [0x45] = Some 0x40" "entry sample_ob 0x10 [0x4C] = Some 0x50"
  "obj_kind sample_ob 0x20 = Directory" "obj_kind sample_ob 0x40 = Plain" "obj_kind sample_ob 0x50 = Link [0x5C, 0x41]"
  "ObRootObjectDirectory sample_ob = 0x10"
  by (simp_all add: entry_def dir_of_def named_def obj_kind_def wcs_def sample_ob_def sample_obj_def)

subsection \<open>The properties\<close>

text \<open>C7: Reference by name is exactly the lookup over the components of the path: it finds the object that
  the directories name, ends at the first device with the rest of the path left over, starts again at
  the root for a link, answers \<open>STATUS_NOT_FOUND\<close> otherwise, increments the reference count of the found
  object and nothing else, and frees all its buffers; a path that goes through a link and does not end
  at a device frees the reparse buffer twice.\<close>

theorem reference_by_name_is_lookup:
  assumes "names_ok s" and "heap_room 2 s" and "plain_ctx ctx"
  shows "case lookup MAX_LINKS False s (ObRootObjectDirectory s) (split_path path) of
      Missing \<Rightarrow> \<exists>k. ObReferenceObjectByName (BACKSLASH # path) ty user ctx s = Inr (STATUS_NOT_FOUND, 0, s\<lparr>Allocs := k\<rparr>)
    | FreedTwice \<Rightarrow> \<exists>b. ObReferenceObjectByName (BACKSLASH # path) ty user ctx s = Inl (BadFree b)
    | TooMany \<Rightarrow> ObReferenceObjectByName (BACKSLASH # path) ty user ctx s = Inl TooManyLinks
    | Found p \<Rightarrow> \<exists>k h. Objs s p = Some h \<and> ObReferenceObjectByName (BACKSLASH # path) ty user ctx s =
        (if user \<and> ObjType h \<noteq> ty then Inr (STATUS_ACCESS_DENIED, 0, s\<lparr>Allocs := k\<rparr>)
         else Inr (STATUS_SUCCESS, p, (put_obj p (h\<lparr>ReferenceCount := ReferenceCount h + 1\<rparr>) s)\<lparr>Allocs := k\<rparr>))"
  using reference_by_name [OF assms, of user ty path]
  by (auto simp: answers_def st_def put_obj_def split: outcome.splits if_splits)

theorem reference_by_name_is_lookup_witness:
  "\<exists>k h. ObReferenceObjectByName [0x5C, 0x41, 0x5C, 0x45] 0 False 0 sample_ob =
    Inr (STATUS_SUCCESS, 0x40, (put_obj 0x40 (h\<lparr>ReferenceCount := ReferenceCount h + 1\<rparr>) sample_ob)\<lparr>Allocs := k\<rparr>)"
proof -
  have "lookup MAX_LINKS False sample_ob 0x10 [[0x41], [0x45]] = Found 0x40" by (simp add: sample_entries)
  then show ?thesis
    using reference_by_name_is_lookup [OF sample_names_ok sample_heap_room(2), of 0 "[0x41, 0x5C, 0x45]" 0 False]
    by (auto simp: sample_split sample_entries plain_ctx_def BACKSLASH_def)
qed

text \<open>C9: The name that \<open>ObQueryObjectName\<close> gives for an object leads back to it, when the object is reached from the
  root through at most 64 directories in each of which the next object is the first entry of its name, no name holds a
  backslash, and the object is not a symbolic link (a lookup would go on at the target of the link):
  \<open>ObReferenceObjectByName\<close> of that name then finds the same object. Only the buffer of the name stays allocated.\<close>

theorem query_name_roundtrip:
  assumes "names_ok s" and "heap_room 3 s" and "0 \<notin> dom (Objs s)"
    and "Objs s (ObRootObjectDirectory s) = Some r" and "ObjectName r = []" and "ParentDirectory r = 0"
    and "trail s (ObRootObjectDirectory s) cs p" and "cs \<noteq> []" and "length cs \<le> 64" and "\<forall>t. obj_kind s p \<noteq> Link t"
    and "\<forall>c\<in>set cs. BACKSLASH \<notin> set c" and "Objs s p = Some h"
  shows "\<exists>buf s1 s2. ObQueryObjectName p s = Inr (STATUS_SUCCESS, path_of cs, buf, s1)
    \<and> Objs s1 = Objs s \<and> Blocks s1 = insert buf (Blocks s) \<and> buf \<notin> Blocks s
    \<and> ObReferenceObjectByName (path_of cs) 0 False 0 s1 = Inr (STATUS_SUCCESS, p, s2)
    \<and> Objs s2 = (Objs s)(p \<mapsto> h\<lparr>ReferenceCount := ReferenceCount h + 1\<rparr>) \<and> Blocks s2 = Blocks s1"
  using assms by (rule query_then_reference)

theorem query_name_roundtrip_witness:
  "\<exists>buf s1. ObQueryObjectName 0x40 sample_ob = Inr (STATUS_SUCCESS, [0x5C, 0x41, 0x5C, 0x45], buf, s1)"
  using query_name_roundtrip [OF sample_names_ok sample_heap_room(1), of "sample_obj 0 1 [] (DirectoryBody [0x20, 0x50, 0x60])"
    "[[0x41], [0x45]]" "0x40" "sample_obj 0x20 4 [0x45] OtherBody"]
  by (auto simp: sample_entries child_def BACKSLASH_def) (auto simp: sample_ob_def sample_obj_def)

text \<open>A link whose target is an object without a parse routine (a directory, a driver, a file) cannot be
  resolved: the target is found by its own path, and by the link the reparse buffer is freed twice,
  which stops the system.\<close>

theorem link_to_directory_frees_twice:
  assumes "names_ok s" and "heap_room 2 s" and "BACKSLASH \<notin> set name" and "entry s (ObRootObjectDirectory s) name = Some l"
    and "obj_kind s l = Link (BACKSLASH # t)" and "lookup 31 False s (ObRootObjectDirectory s) (split_path t) = Found p"
    and "obj_kind s p \<noteq> Device"
  shows "\<exists>b. ObReferenceObjectByName (BACKSLASH # name) ty user 0 s = Inl (BadFree b)"
proof -
  have "lookup MAX_LINKS False s (ObRootObjectDirectory s) (split_path name) = FreedTwice"
    using assms(4,5) lookup_linked [OF assms(6,7)] by (simp add: split_path_last [OF assms(3)] MAX_LINKS_def)
  then show ?thesis using reference_by_name [OF assms(1,2), of 0 user ty name] by (simp add: answers_def plain_ctx_def)
qed

theorem link_to_directory_frees_twice_witness:
  "\<exists>b. ObReferenceObjectByName [0x5C, 0x4C] 0 False 0 sample_ob = Inl (BadFree b)"
  using link_to_directory_frees_twice [OF sample_names_ok sample_heap_room(2), of "[0x4C]" "0x50" "[0x41]" "0x20" 0 False]
  by (simp add: sample_entries sample_split BACKSLASH_def)

end
