(* ===== verification/Pool.thy ===== *)
theory Pool
  imports Prelude
begin

text \<open>
  The contract of a pool of resources that callers take and give back: DMA pages and DMA
  channels (\<^verbatim>\<open>hal.cpp\<close>), drive letters (\<^verbatim>\<open>io.cpp\<close>), handles (\<^verbatim>\<open>ob.cpp\<close>). A grant covers
  some resources (\<open>res\<close>), \<open>taken\<close> is what the pool has marked as taken. \<open>pool_run\<close> is a history
  of successful requests and of releases of held grants; what such a history keeps is proved
  here once.
\<close>

inductive pool_run ::
    "('q \<Rightarrow> 's \<Rightarrow> ('g \<times> 's) option) \<Rightarrow> ('g \<Rightarrow> 's \<Rightarrow> 's option) \<Rightarrow> 's \<Rightarrow> 'g list \<Rightarrow> 's \<Rightarrow> bool"
  for take_res :: "'q \<Rightarrow> 's \<Rightarrow> ('g \<times> 's) option" and give_res :: "'g \<Rightarrow> 's \<Rightarrow> 's option" and s0 :: 's where
  start: "pool_run take_res give_res s0 [] s0"
| request: "pool_run take_res give_res s0 held s \<Longrightarrow> take_res q s = Some (g, s')
    \<Longrightarrow> pool_run take_res give_res s0 (g # held) s'"
| release: "pool_run take_res give_res s0 held s \<Longrightarrow> g \<in> set held \<Longrightarrow> give_res g s = Some s'
    \<Longrightarrow> pool_run take_res give_res s0 (remove1 g held) s'"

fun disjoint_list :: "'r set list \<Rightarrow> bool" where
  "disjoint_list [] \<longleftrightarrow> True"
| "disjoint_list (x # xs) \<longleftrightarrow> x \<inter> \<Union> (set xs) = {} \<and> disjoint_list xs"

lemma disjoint_list_nth:
  "disjoint_list xs \<Longrightarrow> i < j \<Longrightarrow> j < length xs \<Longrightarrow> xs ! i \<inter> xs ! j = {}"
proof (induction xs arbitrary: i j)
  case (Cons x xs)
  then show ?case
    by (cases j; cases i) (auto dest!: nth_mem)
qed simp

lemma disjoint_list_remove1:
  assumes "disjoint_list (map f xs)" and "x \<in> set xs"
  shows "disjoint_list (map f (remove1 x xs)) \<and> f x \<inter> \<Union> (f ` set (remove1 x xs)) = {}
    \<and> \<Union> (f ` set xs) = f x \<union> \<Union> (f ` set (remove1 x xs))"
  using assms
proof (induction xs)
  case (Cons y ys)
  show ?case
  proof (cases "x = y")
    case False
    with Cons.prems have x: "x \<in> set ys" and d: "disjoint_list (map f ys)" "f y \<inter> \<Union> (f ` set ys) = {}"
      by auto
    note IH = Cons.IH [OF d(1) x]
    then have u: "\<Union> (f ` set ys) = f x \<union> \<Union> (f ` set (remove1 x ys))" by blast
    with d(2) have "f y \<inter> f x = {}" "f y \<inter> \<Union> (f ` set (remove1 x ys)) = {}" by auto
    with IH False u show ?thesis by auto
  qed (use Cons.prems in auto)
qed simp

locale resource_pool =
  fixes inv :: "'s \<Rightarrow> bool"
    and ok :: "'g \<Rightarrow> bool"
    and res :: "'g \<Rightarrow> 'r set"
    and taken :: "'s \<Rightarrow> 'r set"
    and take_res :: "'q \<Rightarrow> 's \<Rightarrow> ('g \<times> 's) option"
    and give_res :: "'g \<Rightarrow> 's \<Rightarrow> 's option"
  assumes take_law: "inv s \<Longrightarrow> take_res q s = Some (g, s') \<Longrightarrow>
      inv s' \<and> ok g \<and> res g \<inter> taken s = {} \<and> taken s' = taken s \<union> res g"
    and give_law: "inv s \<Longrightarrow> ok g \<Longrightarrow> res g \<subseteq> taken s \<Longrightarrow>
      \<exists>s'. give_res g s = Some s' \<and> inv s' \<and> taken s' = taken s - res g"
begin

lemma run_invariant:
  assumes "pool_run take_res give_res s0 held s" and "inv s0"
  shows "inv s \<and> (\<forall>g\<in>set held. ok g \<and> res g \<inter> taken s0 = {}) \<and> disjoint_list (map res held)
    \<and> taken s = taken s0 \<union> \<Union> (res ` set held)"
  using assms
proof (induction rule: pool_run.induct)
  case (request held s q g s')
  then have IH: "inv s" "taken s = taken s0 \<union> \<Union> (res ` set held)"
      "\<forall>g\<in>set held. ok g \<and> res g \<inter> taken s0 = {}" "disjoint_list (map res held)" by blast+
  from take_law [OF IH(1) request.hyps(2)] IH show ?case by auto
next
  case (release held s g s')
  then have IH: "inv s" "taken s = taken s0 \<union> \<Union> (res ` set held)"
      "\<forall>g\<in>set held. ok g \<and> res g \<inter> taken s0 = {}" "disjoint_list (map res held)" by blast+
  with release.hyps(2) have "ok g" "res g \<subseteq> taken s" by auto
  from give_law [OF IH(1) this] release.hyps(3) have s': "inv s'" "taken s' = taken s - res g" by auto
  from disjoint_list_remove1 [OF IH(4) release.hyps(2)]
  have d: "disjoint_list (map res (remove1 g held))" "res g \<inter> \<Union> (res ` set (remove1 g held)) = {}"
    "\<Union> (res ` set held) = res g \<union> \<Union> (res ` set (remove1 g held))" by auto
  have "res g \<inter> taken s0 = {}" using IH(3) release.hyps(2) by auto
  then have "taken s' = taken s0 \<union> \<Union> (res ` set (remove1 g held))"
    unfolding s'(2) IH(2) d(3) using d(2) by (simp add: Un_Diff Diff_triv Int_commute)
  moreover have "\<forall>x\<in>set (remove1 g held). ok x \<and> res x \<inter> taken s0 = {}"
    using IH(3) set_remove1_subset [of g held] by blast
  ultimately show ?case using s'(1) d(1) by blast
qed auto

text \<open>Two grants that are held at once share nothing, and each can be given back.\<close>

lemma held_release:
  assumes "pool_run take_res give_res s0 held s" and "inv s0" and "g \<in> set held"
  shows "\<exists>s'. give_res g s = Some s' \<and> inv s' \<and> taken s' = taken s - res g"
  using run_invariant [OF assms(1,2)] assms(3) by (intro give_law) auto

text \<open>When everything has been given back the pool is as it was.\<close>

lemma run_balanced:
  "pool_run take_res give_res s0 [] s \<Longrightarrow> inv s0 \<Longrightarrow> taken s = taken s0"
  using run_invariant [of s0 "[]" s] by auto

end

end
