(* ===== verification/RefCount.thy ===== *)
theory RefCount
  imports Prelude
begin

text \<open>
  The contract of a shared, counted resource: access tokens (\<open>ShareCount\<close>) and objects
  (\<open>ReferenceCount\<close>). \<open>count s p\<close> is the counter of the live resource at \<open>p\<close>, \<open>None\<close> once it
  has been freed. The life of a resource under many acquisitions and releases is proved
  here once and used by both providers.
\<close>

locale refcounted =
  fixes count :: "'s \<Rightarrow> 'p \<Rightarrow> u32 option"
    and acquire :: "'p \<Rightarrow> 's \<Rightarrow> 's"
    and release :: "'p \<Rightarrow> 's \<Rightarrow> 's"
  assumes acquire_count: "count s p = Some n \<Longrightarrow> count (acquire p s) p = Some (n + 1)"
    and release_last: "count s p = Some 1 \<Longrightarrow> count (release p s) p = None"
    and release_count: "count s p = Some n \<Longrightarrow> n \<noteq> 1 \<Longrightarrow> count (release p s) p = Some (n - 1)"
    and acquire_other: "q \<noteq> p \<Longrightarrow> count s p \<noteq> None \<Longrightarrow> count (acquire p s) q = count s q"
    and release_other: "q \<noteq> p \<Longrightarrow> count s p \<noteq> None \<Longrightarrow> count (release p s) q = count s q"
begin

lemma acquires: "count s p = Some n \<Longrightarrow> count ((acquire p ^^ k) s) p = Some (n + of_nat k)"
proof (induction k)
  case (Suc k)
  then have "count ((acquire p ^^ k) s) p = Some (n + of_nat k)" by simp
  from acquire_count [OF this] show ?case by (simp add: algebra_simps)
qed simp

text \<open>The resource survives any number of releases smaller than its counter.\<close>

lemma releases: "count s p = Some n \<Longrightarrow> k < unat n \<Longrightarrow> count ((release p ^^ k) s) p = Some (n - of_nat k)"
proof (induction k)
  case 0
  then show ?case by simp
next
  case (Suc k)
  then have c: "count ((release p ^^ k) s) p = Some (n - of_nat k)" by simp
  have "n - of_nat k \<noteq> 1"
  proof
    assume "n - of_nat k = 1"
    then have "n = of_nat (Suc k)" by (simp add: algebra_simps)
    then have "unat n = Suc k mod 2 ^ 32" by (simp only: unat_of_nat) simp
    then have "unat n \<le> Suc k" by (metis mod_less_eq_dividend)
    with Suc.prems(2) show False by simp
  qed
  from release_count [OF c this] show ?case by (simp add: algebra_simps)
qed

text \<open>The release that brings the counter to zero frees it.\<close>

lemma last_release:
  assumes "count s p = Some n" and "n \<noteq> 0"
  shows "count ((release p ^^ unat n) s) p = None"
proof -
  obtain k where k: "unat n = Suc k"
    using assms(2) by (metis not0_implies_Suc unat_eq_zero)
  have "count ((release p ^^ k) s) p = Some (n - of_nat k)"
    using assms(1) k by (intro releases) auto
  moreover have "n = of_nat (Suc k)"
    unfolding k [symmetric] by simp
  then have "n - of_nat k = 1" by simp
  ultimately have "count ((release p ^^ k) s) p = Some 1" by simp
  from release_last [OF this] show ?thesis by (simp add: k)
qed

lemma shared_life:
  assumes "count s p = Some 1" and "Suc k < 2 ^ 32"
  shows "j \<le> k \<Longrightarrow> count ((release p ^^ j) ((acquire p ^^ k) s)) p = Some (of_nat (Suc k - j))"
    and "count ((release p ^^ Suc k) ((acquire p ^^ k) s)) p = None"
proof -
  let ?n = "of_nat (Suc k) :: u32"
  have n: "count ((acquire p ^^ k) s) p = Some ?n"
    using acquires [OF assms(1)] by simp
  have u: "unat ?n = Suc k" using assms(2) by (simp only: unat_of_nat) simp
  show "count ((release p ^^ j) ((acquire p ^^ k) s)) p = Some (of_nat (Suc k - j))" if "j \<le> k"
    using releases [OF n, of j] u that by (simp add: of_nat_diff)
  have "?n \<noteq> 0" using u by (metis Suc_neq_Zero unat_0)
  from last_release [OF n this] show "count ((release p ^^ Suc k) ((acquire p ^^ k) s)) p = None"
    by (simp only: u)
qed

lemma acquires_other: "q \<noteq> p \<Longrightarrow> count s p \<noteq> None \<Longrightarrow> count ((acquire p ^^ k) s) q = count s q"
proof (induction k)
  case (Suc k)
  then have "count ((acquire p ^^ k) s) p \<noteq> None"
    using acquires [of s p _ k] by auto
  with Suc show ?case by (simp add: acquire_other)
qed simp

lemma releases_other: "q \<noteq> p \<Longrightarrow> count s p = Some n \<Longrightarrow> k \<le> unat n \<Longrightarrow> count ((release p ^^ k) s) q = count s q"
proof (induction k)
  case (Suc k)
  then have "count ((release p ^^ k) s) p \<noteq> None" using releases [of s p n k] by simp
  with Suc show ?case by (simp add: release_other)
qed simp

end

end
