(* ===== verification/ObHandles.thy ===== *)
theory ObHandles
  imports ObNames Pool RefCount
begin

text \<open>
  Handles and the life of objects: the handle table is a \<open>resource_pool\<close> whose grants are handles
  with the object and the access they stand for, and objects are \<open>refcounted\<close>. Opening and closing
  are inverse; closing a handle that is not in use keeps the lock of the table, and closing the last
  reference of an object fails an assertion.
\<close>

subsection \<open>The handle table\<close>

definition table_inv :: "nat \<Rightarrow> ob \<Rightarrow> bool" where
  "table_inv N s \<longleftrightarrow> \<not> TableLock s \<and> length (HandleTable s) = N \<and> N \<le> 0xFFFF"

text \<open>The entries in use: index, object and access.\<close>

definition used_entries :: "ob \<Rightarrow> (nat \<times> u32 \<times> u32) set" where
  "used_entries s = {(i, HObject (HandleTable s ! i), GrantedAccess (HandleTable s ! i)) | i.
     i < length (HandleTable s) \<and> HObject (HandleTable s ! i) \<noteq> 0}"

definition handle_take :: "u32 \<times> u32 \<Rightarrow> ob \<Rightarrow> ((u32 \<times> u32 \<times> u32) \<times> ob) option" where
  "handle_take q s = (if fst q = 0 then None else
     case ObpCreateHandle (fst q) (snd q) s of Inl e \<Rightarrow> None | Inr (h, s') \<Rightarrow> Some ((h, fst q, snd q), s'))"

definition handle_give :: "u32 \<times> u32 \<times> u32 \<Rightarrow> ob \<Rightarrow> ob option" where
  "handle_give g s = (case ObpDeleteHandle (fst g) False s of
     Inr (Status, s') \<Rightarrow> if SUCCESS Status then Some s' else None | Inl e \<Rightarrow> None)"

definition handle_res :: "u32 \<times> u32 \<times> u32 \<Rightarrow> (nat \<times> u32 \<times> u32) set" where
  "handle_res g = {(unat (fst g) - 1, snd g)}"

definition handle_ok :: "nat \<Rightarrow> u32 \<times> u32 \<times> u32 \<Rightarrow> bool" where
  "handle_ok N g \<longleftrightarrow> 0 < unat (fst g) \<and> unat (fst g) \<le> N \<and> fst (snd g) \<noteq> 0"

lemma free_entry_spec:
  "free_entry es i = Some j \<Longrightarrow> i \<le> j \<and> j - i < length es \<and> HObject (es ! (j - i)) = 0"
proof (induction es arbitrary: i)
  case (Cons e es)
  show ?case
  proof (cases "HObject e = 0")
    case False
    then have "free_entry es (Suc i) = Some j" using Cons.prems by simp
    from Cons.IH [OF this] have "Suc i \<le> j" "j - Suc i < length es" "HObject (es ! (j - Suc i)) = 0" by auto
    moreover have "j - i = Suc (j - Suc i)" using \<open>Suc i \<le> j\<close> by simp
    ultimately show ?thesis by simp
  qed (use Cons.prems in auto)
qed simp

lemma free_entry_none: "free_entry es i = None \<longleftrightarrow> (\<forall>e\<in>set es. HObject e \<noteq> 0)"
  by (induction es arbitrary: i) auto

text \<open>A handle within the table designates the entry before its number.\<close>

lemma handle_mask: "unat (h :: u32) \<le> 0xFFFF \<Longrightarrow> h AND 0xFFFFFFF = h"
proof -
  assume h: "unat h \<le> 0xFFFF"
  have "h AND 0xFFFFFFF = h mod 0x10000000"
    using take_bit_eq_mod [of 28 h] take_bit_eq_mask [of 28 h] by (simp add: mask_eq_exp_minus_1)
  moreover have "unat (h mod 0x10000000) = unat h" using h by (simp add: unat_mod)
  ultimately show ?thesis by (simp only: word_unat_eq_iff)
qed

lemma unat_12: "unat (w :: u32) < 0x10000 \<Longrightarrow> unat (12 * w) = 12 * unat w"
  by (simp add: unat_word_ariths(2))

lemma handle_index:
  assumes "0 < unat h" and "unat h \<le> length (HandleTable s)" and "length (HandleTable s) \<le> 0xFFFF"
  shows "handle_entry h s = Some (unat h - 1)" and "\<not> 0xFFFF < h AND 0xFFFFFFF"
proof -
  have "unat (h - 1) = unat h - 1" using assms(1) by (simp add: unat_sub word_le_nat_alt)
  then have "unat (12 * (h - 1)) = 12 * (unat h - 1)"
    using unat_12 [of "h - 1"] assms by simp
  then show "handle_entry h s = Some (unat h - 1)" using assms by (auto simp: handle_entry_def Let_def)
  have "h AND 0xFFFFFFF = h" using assms by (intro handle_mask) simp
  then show "\<not> 0xFFFF < h AND 0xFFFFFFF" using assms by (simp add: word_less_nat_alt)
qed

lemma handle_take_law:
  assumes inv: "table_inv N s" and t: "handle_take q s = Some (g, s')"
  shows "table_inv N s' \<and> handle_ok N g \<and> handle_res g \<inter> used_entries s = {} \<and> used_entries s' = used_entries s \<union> handle_res g"
proof -
  obtain ob acc where q: "q = (ob, acc)" by (cases q)
  have nz: "ob \<noteq> 0" using t q by (auto simp: handle_take_def split: if_splits)
  have un: "\<not> TableLock s" "length (HandleTable s) = N" "N \<le> 0xFFFF" using inv by (auto simp: table_inv_def)
  obtain i where i: "free_entry (HandleTable s) 0 = Some i"
    using t q nz un(1) by (auto simp: handle_take_def ObpCreateHandle_def ObLockObjectTable_def split: option.splits)
  have i': "i < N" "HObject (HandleTable s ! i) = 0" using free_entry_spec [OF i] un(2) by auto
  have u: "unat (of_nat (Suc i) :: u32) = Suc i" using i'(1) un(3) by (intro unat_of_nat_u32) simp
  have g: "g = (of_nat (Suc i), ob, acc)" "HandleTable s' = (HandleTable s)[i := \<lparr>HObject = ob, GrantedAccess = acc, HOwner = CurThread s\<rparr>]" "\<not> TableLock s'"
    using t q nz un(1) i by (auto simp: handle_take_def ObpCreateHandle_def ObLockObjectTable_def ObUnlockObjectTable_def)
  have r: "handle_res g = {(i, ob, acc)}" unfolding handle_res_def g(1) using u by (simp del: of_nat_Suc)
  have "used_entries s' = used_entries s \<union> {(i, ob, acc)}"
    using i' un(2) nz unfolding used_entries_def g(2) by (auto simp: nth_list_update)
  moreover have "handle_ok N g" unfolding handle_ok_def g(1) fst_conv snd_conv u using i'(1) nz by simp
  moreover have "{(i, ob, acc)} \<inter> used_entries s = {}" using i'(2) by (auto simp: used_entries_def)
  ultimately show ?thesis using r un g(2,3) by (simp add: table_inv_def)
qed

lemma handle_give_law:
  assumes inv: "table_inv N s" and g: "handle_ok N g" and r: "handle_res g \<subseteq> used_entries s"
  shows "\<exists>s'. handle_give g s = Some s' \<and> table_inv N s' \<and> used_entries s' = used_entries s - handle_res g"
proof -
  obtain h x where hx: "g = (h, x)" by (cases g)
  define i where "i = unat h - 1"
  have un: "\<not> TableLock s" "length (HandleTable s) = N" "N \<le> 0xFFFF" using inv by (auto simp: table_inv_def)
  have h: "0 < unat h" "unat h \<le> N" using g hx by (auto simp: handle_ok_def)
  let ?s = "s\<lparr>TableLock := True\<rparr>"
  have e: "handle_entry h ?s = Some i" "\<not> 0xFFFF < h AND 0xFFFFFFF"
    using handle_index [of h ?s] h un by (auto simp: i_def)
  have x: "i < N" "HObject (HandleTable s ! i) \<noteq> 0" "x = (HObject (HandleTable s ! i), GrantedAccess (HandleTable s ! i))"
    using r un(2) by (auto simp: handle_res_def hx used_entries_def i_def)
  let ?s' = "s\<lparr>HandleTable := (HandleTable s)[i := (HandleTable s ! i)\<lparr>HObject := 0\<rparr>]\<rparr>"
  have "ObpDeleteHandle h False s = Inr (STATUS_SUCCESS, ?s')"
    using e x un by (simp add: ObpDeleteHandle_def ObLockObjectTable_def ObUnlockObjectTable_def)
  then have "handle_give g s = Some ?s'" by (simp add: handle_give_def hx)
  moreover have "used_entries ?s' = used_entries s - {(i, x)}"
    using x un(2) by (auto simp: used_entries_def nth_list_update split: if_splits)
  ultimately show ?thesis using un by (simp add: table_inv_def handle_res_def hx i_def)
qed

interpretation handles: resource_pool "table_inv N" "handle_ok N" handle_res used_entries handle_take handle_give for N
proof
  fix s q g s' assume "table_inv N s" "handle_take q s = Some (g, s')"
  then show "table_inv N s' \<and> handle_ok N g \<and> handle_res g \<inter> used_entries s = {} \<and> used_entries s' = used_entries s \<union> handle_res g"
    by (rule handle_take_law)
next
  fix s g assume "table_inv N s" "handle_ok N g" "handle_res g \<subseteq> used_entries s"
  then show "\<exists>s'. handle_give g s = Some s' \<and> table_inv N s' \<and> used_entries s' = used_entries s - handle_res g"
    by (rule handle_give_law)
qed

text \<open>Mapping a handle whose entry is in use.\<close>

lemma map_handle:
  assumes "table_inv N s" and "0 < unat h" and "unat h \<le> N" and "(unat h - 1, obj, acc) \<in> used_entries s"
  shows "ObpMapHandleToPointer h access False s =
    (if access \<noteq> 0 \<and> acc AND access = 0 then Inr (STATUS_ACCESS_DENIED, 0, s) else Inr (STATUS_SUCCESS, obj, s))"
proof -
  let ?s = "s\<lparr>TableLock := True\<rparr>"
  have e: "handle_entry h ?s = Some (unat h - 1)" "\<not> 0xFFFF < h AND 0xFFFFFFF"
    using handle_index [of h ?s] assms by (auto simp: table_inv_def)
  have "\<not> TableLock s" using assms(1) by (simp add: table_inv_def)
  then show ?thesis using assms(4) e
    by (auto simp: ObpMapHandleToPointer_def ObLockObjectTable_def ObUnlockObjectTable_def Let_def used_entries_def)
qed

subsection \<open>Opening and closing\<close>

text \<open>An object with a reference that is not the last: dropping another one does not delete it.\<close>

lemma deref_keeps:
  assumes "Objs s p = Some h" and "ReferenceCount h \<noteq> 1"
  shows "ObDereferenceObject p s = Inr (put_obj p (h\<lparr>ReferenceCount := ReferenceCount h - 1\<rparr>) s)"
proof -
  have "ReferenceCount h - 1 \<noteq> 0" using assms(2) by simp
  then show ?thesis using assms(1)
    by (simp add: ObDereferenceObject_def numeral_eq_Suc upd_obj_def get_obj_def put_obj_def)
qed

lemma open_then_close:
  assumes inv: "table_inv N s" and h: "Objs s p = Some h" and rc: "ReferenceCount h \<noteq> 0" and room: "free_entry (HandleTable s) 0 \<noteq> None"
    and p: "p \<noteq> 0" and acc: "user \<longrightarrow> ObjType h = ty"
  shows "\<exists>H s1 s2. ObOpenObjectByPointer p ty user acc s = Inr (STATUS_SUCCESS, H, s1)
    \<and> Objs s1 = (Objs s)(p \<mapsto> h\<lparr>ReferenceCount := ReferenceCount h + 1, HandleCount := HandleCount h + 1\<rparr>)
    \<and> used_entries s1 = used_entries s \<union> {(unat H - 1, p, acc)} \<and> (unat H - 1, p, acc) \<notin> used_entries s
    \<and> ObClose H s1 = Inr (STATUS_SUCCESS, s2) \<and> Objs s2 = Objs s \<and> used_entries s2 = used_entries s \<and> Blocks s2 = Blocks s
    \<and> table_inv N s2"
proof -
  have un: "\<not> TableLock s" "length (HandleTable s) = N" "N \<le> 0xFFFF" using inv by (auto simp: table_inv_def)
  obtain i where i: "free_entry (HandleTable s) 0 = Some i" using room by blast
  have i': "i < N" "HObject (HandleTable s ! i) = 0" using free_entry_spec [OF i] un(2) by auto
  define H :: u32 where "H = of_nat (Suc i)"
  have u: "unat H = Suc i" using i'(1) un(3) unfolding H_def by (intro unat_of_nat_u32) simp
  have nv: "H \<noteq> INVALID_HANDLE_VALUE" using u i'(1) un(3) by (auto simp: INVALID_HANDLE_VALUE_def)
  let ?T = "(HandleTable s)[i := \<lparr>HObject = p, GrantedAccess = acc, HOwner = CurThread s\<rparr>]"
  let ?h1 = "h\<lparr>ReferenceCount := ReferenceCount h + 1, HandleCount := HandleCount h + 1\<rparr>"
  let ?s1 = "s\<lparr>Objs := (Objs s)(p \<mapsto> ?h1), HandleTable := ?T\<rparr>"
  have O: "ObOpenObjectByPointer p ty user acc s = Inr (STATUS_SUCCESS, H, ?s1)"
    using h acc un(1) i nv by (auto simp: ObOpenObjectByPointer_def get_obj_def ObReferenceObject_def upd_obj_def put_obj_def
        open_handle_def ObpCreateHandle_def ObLockObjectTable_def ObUnlockObjectTable_def H_def)
  have e: "handle_entry H (?s1\<lparr>TableLock := True\<rparr>) = Some i" "\<not> 0xFFFF < H AND 0xFFFFFFF"
    using handle_index [of H "?s1\<lparr>TableLock := True\<rparr>"] u i'(1) un by auto
  then have e': "handle_entry H (s\<lparr>HandleTable := T, TableLock := b, Objs := f\<rparr>) = Some i" if "length T = N" for T b f
    using that un(2) by (simp add: handle_entry_def Let_def)
  let ?h2 = "h\<lparr>HandleCount := HandleCount h + 1\<rparr>"
  let ?s2 = "s\<lparr>HandleTable := ?T[i := (?T ! i)\<lparr>HObject := 0\<rparr>]\<rparr>"
  let ?l = "?s1\<lparr>TableLock := True\<rparr>"
  have m: "ObpMapHandleToPointer H 0 True ?s1 = Inr (STATUS_SUCCESS, p, ?l)"
    using e un i'(1) p by (simp add: ObpMapHandleToPointer_def ObLockObjectTable_def)
  have rc': "ReferenceCount ?h1 \<noteq> 1" using rc by simp
  have "Objs ?l p = Some ?h1" by simp
  from deref_keeps [OF this rc'] have d: "ObDereferenceObject p ?l = Inr (?l\<lparr>Objs := (Objs s)(p \<mapsto> ?h2)\<rparr>)"
    by (simp add: put_obj_def)
  have same: "(Objs s)(p \<mapsto> h) = Objs s" using h by (simp add: fun_upd_idem_iff)
  have dd: "ObpDeleteHandle H True (s\<lparr>HandleTable := ?T, TableLock := True, Objs := f\<rparr>)
      = Inr (STATUS_SUCCESS, s\<lparr>HandleTable := ?T[i := (?T ! i)\<lparr>HObject := 0\<rparr>], TableLock := False, Objs := f\<rparr>)" for f
    using e' [where T = ?T and b = True and f = f] e(2) un(2) i'(1) p by (simp add: ObpDeleteHandle_def ObUnlockObjectTable_def)
  have C: "ObClose H ?s1 = Inr (STATUS_SUCCESS, ?s2)"
    using dd [of "Objs s"] un(1) same by (simp add: ObClose_def m d upd_obj_def get_obj_def put_obj_def)
  have "used_entries ?s1 = used_entries s \<union> {(unat H - 1, p, acc)}"
    using i' un(2) p u by (auto simp: used_entries_def nth_list_update)
  moreover have "used_entries ?s2 = used_entries s"
    using i' un(2) by (auto simp: used_entries_def nth_list_update split: if_splits)
  moreover have "(unat H - 1, p, acc) \<notin> used_entries s" using i'(2) u by (simp add: used_entries_def)
  moreover have "table_inv N ?s2" using inv by (simp add: table_inv_def)
  ultimately show ?thesis using O C by (intro exI [of _ H] exI [of _ ?s1] exI [of _ ?s2]) simp
qed

lemma close_unused:
  assumes inv: "table_inv N s" and H: "0 < unat H" "unat H \<le> N" and un: "HObject (HandleTable s ! (unat H - 1)) = 0"
  shows "\<exists>s'. ObClose H s = Inr (STATUS_INVALID_HANDLE, s') \<and> TableLock s' \<and> HandleTable s' = HandleTable s"
proof -
  let ?l = "s\<lparr>TableLock := True\<rparr>"
  have "handle_entry H ?l = Some (unat H - 1)" "\<not> 0xFFFF < H AND 0xFFFFFFF" "\<not> TableLock s"
    using handle_index [of H ?l] H inv by (auto simp: table_inv_def)
  then have "ObClose H s = Inr (STATUS_INVALID_HANDLE, ?l)"
    using un by (simp add: ObClose_def ObpMapHandleToPointer_def ObLockObjectTable_def)
  then show ?thesis by auto
qed

lemma locked_table_waits:
  assumes "TableLock s" and "0 < unat H" "unat H \<le> 0xFFFF"
  shows "ObpCreateHandle p acc s = Inl WaitsForTableLock" and "ObClose H s = Inl WaitsForTableLock"
    and "ObReferenceObjectByHandle H acc s = Inl WaitsForTableLock"
proof -
  have "\<not> 0xFFFF < H AND 0xFFFFFFF" using handle_mask [OF assms(3)] assms(3) by (simp add: word_less_nat_alt)
  then show "ObpCreateHandle p acc s = Inl WaitsForTableLock" "ObClose H s = Inl WaitsForTableLock"
    "ObReferenceObjectByHandle H acc s = Inl WaitsForTableLock" using assms(1)
    by (simp_all add: ObpCreateHandle_def ObClose_def ObReferenceObjectByHandle_def ObpMapHandleToPointer_def ObLockObjectTable_def)
qed

lemma close_last:
  assumes inv: "table_inv N s" and H: "0 < unat H" "unat H \<le> N" and e: "HObject (HandleTable s ! (unat H - 1)) = p" "p \<noteq> 0"
    and h: "Objs s p = Some h" "ReferenceCount h = 1" "HandleCount h \<noteq> 0"
    and fl: "Flags h AND OBJ_PERMANENT = 0 \<or> Flags h AND OBJ_DELETE_PENDING \<noteq> 0"
  shows "ObClose H s = Inl ObAsserts"
proof -
  let ?l = "s\<lparr>TableLock := True\<rparr>"
  have "handle_entry H ?l = Some (unat H - 1)" "\<not> 0xFFFF < H AND 0xFFFFFFF" "\<not> TableLock s"
    using handle_index [of H ?l] H inv by (auto simp: table_inv_def)
  then have "ObpMapHandleToPointer H 0 True s = Inr (STATUS_SUCCESS, p, ?l)"
    using e by (simp add: ObpMapHandleToPointer_def ObLockObjectTable_def)
  moreover have "ObDereferenceObject p ?l = Inl ObAsserts"
    using h fl by (simp add: ObDereferenceObject_def numeral_eq_Suc upd_obj_def get_obj_def put_obj_def)
  ultimately show ?thesis by (simp add: ObClose_def)
qed

subsection \<open>The life of an object\<close>

text \<open>The blocks of an object: its own and the one of its name.\<close>

definition owned :: "u32 \<Rightarrow> ob_header \<Rightarrow> u32 set" where
  "owned p h = insert p (if NameBuffer h \<noteq> 0 \<and> ObjectName h \<noteq> [] then {NameBuffer h} else {})"

definition obj_blocks :: "ob \<Rightarrow> bool" where
  "obj_blocks s \<longleftrightarrow> (\<forall>p h. Objs s p = Some h \<longrightarrow> owned p h \<subseteq> Blocks s \<and> NameBuffer h \<noteq> p)
     \<and> (\<forall>p h q g. Objs s p = Some h \<longrightarrow> Objs s q = Some g \<longrightarrow> p \<noteq> q \<longrightarrow> owned p h \<inter> owned q g = {})"

text \<open>An object without handles and without a delete routine, that is no directory; its directory exists.\<close>

definition simple_obj :: "ob \<Rightarrow> ob_header \<Rightarrow> bool" where
  "simple_obj s h \<longleftrightarrow> DeleteRoutine (Types s (ObjType h)) = None \<and> HandleCount h = 0 \<and> Flags h AND OBJ_PERMANENT = 0
     \<and> (\<forall>os. Body h \<noteq> DirectoryBody os) \<and> (ParentDirectory h = 0 \<or> dir_of s (ParentDirectory h) \<noteq> None)"

definition ref_count :: "ob \<Rightarrow> u32 \<Rightarrow> u32 option" where
  "ref_count s p = (if obj_blocks s then
     case Objs s p of Some h \<Rightarrow> if simple_obj s h then Some (ReferenceCount h) else None | None \<Rightarrow> None else None)"

definition run_ob :: "(ob \<Rightarrow> ob_stop + ob) \<Rightarrow> ob \<Rightarrow> ob" where
  "run_ob f s = (case f s of Inr s' \<Rightarrow> s' | Inl e \<Rightarrow> s)"

lemma ref_countD:
  assumes "ref_count s p = Some n"
  obtains h where "Objs s p = Some h" "simple_obj s h" "ReferenceCount h = n" "obj_blocks s"
  using assms by (auto simp: ref_count_def split: if_splits option.splits)

lemma dir_of_put: "dir_of (put_obj p h s) d = (if d = p then (case Body h of DirectoryBody os \<Rightarrow> Some os | _ \<Rightarrow> None) else dir_of s d)"
  by (simp add: dir_of_def put_obj_def)

text \<open>A state with some of the objects, whose blocks are in use.\<close>

lemma obj_blocks_sub:
  assumes ok: "obj_blocks s" and B: "Blocks s' = Blocks s - D"
    and sub: "\<And>x g. Objs s' x = Some g \<Longrightarrow> \<exists>g0. Objs s x = Some g0 \<and> owned x g = owned x g0 \<and> NameBuffer g = NameBuffer g0
      \<and> owned x g0 \<inter> D = {}"
  shows "obj_blocks s'"
  unfolding obj_blocks_def B
proof (intro conjI allI impI)
  fix x g assume "Objs s' x = Some g"
  from sub [OF this] obtain g0 where g: "Objs s x = Some g0" "owned x g = owned x g0" "NameBuffer g = NameBuffer g0"
    "owned x g0 \<inter> D = {}" by blast
  have "owned x g0 \<subseteq> Blocks s \<and> NameBuffer g0 \<noteq> x"
    using ok [unfolded obj_blocks_def, THEN conjunct1] g(1) by (elim allE impE)
  then show "owned x g \<subseteq> Blocks s - D" "NameBuffer g \<noteq> x" using g by auto
next
  fix x g y k assume a: "Objs s' x = Some g" "Objs s' y = Some k" "x \<noteq> y"
  from sub [OF a(1)] obtain g0 where g: "Objs s x = Some g0" "owned x g = owned x g0" by blast
  from sub [OF a(2)] obtain k0 where k: "Objs s y = Some k0" "owned y k = owned y k0" by blast
  show "owned x g \<inter> owned y k = {}"
    unfolding g(2) k(2) using ok [unfolded obj_blocks_def, THEN conjunct2] g(1) k(1) a(3) by (elim allE impE)
qed

text \<open>Changing the counter of an object.\<close>

lemma ref_count_put:
  assumes h: "Objs s p = Some h" "simple_obj s h" "obj_blocks s"
  shows "ref_count (put_obj p (h\<lparr>ReferenceCount := n\<rparr>) s) q = (if q = p then Some n else ref_count s q)"
proof -
  let ?s = "put_obj p (h\<lparr>ReferenceCount := n\<rparr>) s"
  have t: "Types ?s = Types s" by (simp add: put_obj_def)
  have d: "dir_of ?s = dir_of s"
  proof
    fix d show "dir_of ?s d = dir_of s d" unfolding dir_of_put using h(1) by (simp add: dir_of_def)
  qed
  have o: "Objs ?s = (Objs s)(p \<mapsto> h\<lparr>ReferenceCount := n\<rparr>)" "Blocks ?s = Blocks s" by (simp_all add: put_obj_def)
  have ow: "owned x (h\<lparr>ReferenceCount := n\<rparr>) = owned x h" for x by (simp add: owned_def)
  have "obj_blocks ?s"
  proof (rule obj_blocks_sub [OF h(3), of _ "{}"])
    fix x g assume "Objs ?s x = Some g"
    then show "\<exists>g0. Objs s x = Some g0 \<and> owned x g = owned x g0 \<and> NameBuffer g = NameBuffer g0 \<and> owned x g0 \<inter> {} = {}"
      using h(1) by (cases "x = p") (auto simp: o ow)
  qed (simp add: o)
  moreover have "simple_obj ?s g = simple_obj s g" for g by (simp add: simple_obj_def t d)
  moreover have "simple_obj s (h\<lparr>ReferenceCount := n\<rparr>)" using h(2) by (simp add: simple_obj_def)
  ultimately show ?thesis using h(3) by (cases "Objs s q") (simp_all add: ref_count_def o)
qed

lemma reference_counts: "ref_count s p = Some n \<Longrightarrow>
    ObReferenceObject p s = Inr (run_ob (ObReferenceObject p) s)
    \<and> ref_count (run_ob (ObReferenceObject p) s) q = (if q = p then Some (n + 1) else ref_count s q)"
  by (erule ref_countD) (simp add: ObReferenceObject_def upd_obj_def get_obj_def run_ob_def ref_count_put)

lemma dereference_counts: "ref_count s p = Some n \<Longrightarrow> n \<noteq> 1 \<Longrightarrow>
    ObDereferenceObject p s = Inr (run_ob (ObDereferenceObject p) s)
    \<and> ref_count (run_ob (ObDereferenceObject p) s) q = (if q = p then Some (n - 1) else ref_count s q)"
  by (erule ref_countD) (simp add: deref_keeps run_ob_def ref_count_put)

text \<open>The last dereference: the object leaves its directory, its blocks are freed.\<close>

definition unlinked :: "u32 \<Rightarrow> ob_header \<Rightarrow> ob \<Rightarrow> u32 \<rightharpoonup> ob_header" where
  "unlinked p h s = (if ParentDirectory h = 0 then Objs s
     else (Objs s)(ParentDirectory h := map_option (\<lambda>d. d\<lparr>Body := (case Body d of DirectoryBody os \<Rightarrow> DirectoryBody (remove1 p os) | b \<Rightarrow> b)\<rparr>) (Objs s (ParentDirectory h))))"

lemma last_dereference:
  assumes "ref_count s p = Some 1"
  shows "\<exists>h. Objs s p = Some h \<and> ObDereferenceObject p s = Inr (s\<lparr>Objs := (unlinked p h s)(p := None), Blocks := Blocks s - owned p h\<rparr>)
    \<and> simple_obj s h \<and> obj_blocks s"
proof -
  from assms obtain h where h: "Objs s p = Some h" "simple_obj s h" "ReferenceCount h = 1" "obj_blocks s" by (elim ref_countD)
  define h0 where "h0 = h\<lparr>ReferenceCount := 0\<rparr>"
  define h1 where "h1 = h0\<lparr>Flags := Flags h OR OBJ_DELETE_IN_PROGRESS\<rparr>"
  have f: "ReferenceCount h0 = 0" "HandleCount h0 = 0" "Flags h0 AND OBJ_PERMANENT = 0" "ObjType h0 = ObjType h"
    "NameBuffer h0 = NameBuffer h" "ObjectName h0 = ObjectName h" "ParentDirectory h1 = ParentDirectory h"
    "DeleteRoutine (Types s (ObjType h)) = None" "Flags h0 = Flags h"
    using h(2) by (simp_all add: h0_def h1_def simple_obj_def)
  define s1 where "s1 = put_obj p h1 (put_obj p h0 s)"
  have s1: "Objs s1 = (Objs s)(p \<mapsto> h1)" "Blocks s1 = Blocks s" by (simp_all add: s1_def put_obj_def)
  have ow: "owned p h \<subseteq> Blocks s" "NameBuffer h \<noteq> p" using h(1,4) by (auto simp: obj_blocks_def)
  have U: "\<exists>g. unlink_obj p s1 = Inr (s\<lparr>Objs := g\<rparr>) \<and> g(p := None) = (unlinked p h s)(p := None)"
  proof (cases "ParentDirectory h = 0")
    case True
    then have "unlink_obj p s1 = Inr (s\<lparr>Objs := (Objs s)(p \<mapsto> h1)\<rparr>)"
      using f(7) by (simp add: unlink_obj_def get_obj_def s1) (simp add: s1_def put_obj_def)
    then show ?thesis using True by (intro exI [of _ "(Objs s)(p \<mapsto> h1)"]) (simp add: unlinked_def)
  next
    case False
    let ?d = "ParentDirectory h"
    obtain D os where D: "Objs s ?d = Some D" "Body D = DirectoryBody os"
      using False h(2) by (auto simp: simple_obj_def dir_of_def split: option.splits ob_body.splits)
    have ne: "?d \<noteq> p" using D h(1,2) by (auto simp: simple_obj_def)
    let ?D = "D\<lparr>Body := DirectoryBody (remove1 p os)\<rparr>"
    have "dir_list ?d s1 = Inr os" using D ne by (simp add: dir_list_def get_obj_def s1)
    moreover have "set_dir ?d (remove1 p os) s1 = Inr (s\<lparr>Objs := (Objs s)(p \<mapsto> h1, ?d \<mapsto> ?D)\<rparr>)"
      using D ne by (simp add: set_dir_def upd_obj_def get_obj_def s1) (simp add: s1_def put_obj_def)
    ultimately have "unlink_obj p s1 = Inr (s\<lparr>Objs := (Objs s)(p \<mapsto> h1, ?d \<mapsto> ?D)\<rparr>)"
      using False f(7) by (simp add: unlink_obj_def get_obj_def s1)
    moreover have "((Objs s)(p \<mapsto> h1, ?d \<mapsto> ?D))(p := None) = (unlinked p h s)(p := None)"
      using False D ne by (auto simp: unlinked_def fun_eq_iff)
    ultimately show ?thesis by blast
  qed
  then obtain g where g: "unlink_obj p s1 = Inr (s\<lparr>Objs := g\<rparr>)" "g(p := None) = (unlinked p h s)(p := None)" by blast
  have "delete_internal 7 p (put_obj p h0 s) = Inr (STATUS_SUCCESS, s\<lparr>Objs := g(p := None), Blocks := Blocks s - owned p h\<rparr>)"
  proof -
    have e: "get_obj p (put_obj p h0 s) = Inr h0" "Types (put_obj p h0 s) = Types s" by (simp_all add: get_obj_def put_obj_def)
    have u: "unlink_obj p (put_obj p (h0\<lparr>Flags := Flags h OR OBJ_DELETE_IN_PROGRESS\<rparr>) (put_obj p h0 s)) = Inr (s\<lparr>Objs := g\<rparr>)"
      using g(1) by (simp add: s1_def h1_def)
    show ?thesis
    proof (cases "NameBuffer h \<noteq> 0 \<and> ObjectName h \<noteq> []")
      case True
      then have "owned p h = {p, NameBuffer h}" by (simp add: owned_def)
      then have "p \<in> Blocks s - {NameBuffer h}" "NameBuffer h \<in> Blocks s" "Blocks s - {NameBuffer h} - {p} = Blocks s - owned p h"
        using ow by auto
      then show ?thesis using True by (simp add: e u f ob_free_def)
    next
      case False
      then have "owned p h = {p}" by (auto simp: owned_def)
      then show ?thesis using False ow by (auto simp: e u f ob_free_def)
    qed
  qed
  moreover have "upd_obj p (\<lambda>h. h\<lparr>ReferenceCount := ReferenceCount h - 1\<rparr>) s = Inr (put_obj p h0 s)"
    using h(1,3) by (simp add: upd_obj_def get_obj_def h0_def)
  moreover have "get_obj p (put_obj p h0 s) = Inr h0" by (simp add: get_obj_def put_obj_def)
  ultimately have "ObDereferenceObject p s = Inr (s\<lparr>Objs := g(p := None), Blocks := Blocks s - owned p h\<rparr>)"
    using f by (simp add: ObDereferenceObject_def numeral_eq_Suc)
  then show ?thesis using g(2) h by auto
qed

lemma last_dereference_counts:
  assumes "ref_count s p = Some 1"
  shows "ObDereferenceObject p s = Inr (run_ob (ObDereferenceObject p) s)
    \<and> ref_count (run_ob (ObDereferenceObject p) s) q = (if q = p then None else ref_count s q)
    \<and> Objs (run_ob (ObDereferenceObject p) s) p = None"
proof -
  obtain h where h: "Objs s p = Some h" "simple_obj s h" "obj_blocks s"
    and D: "ObDereferenceObject p s = Inr (s\<lparr>Objs := (unlinked p h s)(p := None), Blocks := Blocks s - owned p h\<rparr>)"
    using last_dereference [OF assms] by blast
  define s' where "s' = s\<lparr>Objs := (unlinked p h s)(p := None), Blocks := Blocks s - owned p h\<rparr>"
  have r: "run_ob (ObDereferenceObject p) s = s'" using D by (simp add: run_ob_def s'_def)
  let ?d = "ParentDirectory h"
  have o: "Objs s' x = (if x = p then None else if ?d \<noteq> 0 \<and> x = ?d
      then map_option (\<lambda>d. d\<lparr>Body := (case Body d of DirectoryBody os \<Rightarrow> DirectoryBody (remove1 p os) | b \<Rightarrow> b)\<rparr>) (Objs s x)
      else Objs s x)" for x by (simp add: s'_def unlinked_def)
  have ow: "owned x (d\<lparr>Body := b\<rparr>) = owned x d" for x d b by (simp add: owned_def)
  have ok: "obj_blocks s'"
  proof (rule obj_blocks_sub [OF h(3), of _ "owned p h"])
    fix x g assume g: "Objs s' x = Some g"
    then obtain g0 where g0: "Objs s x = Some g0" "x \<noteq> p" "owned x g = owned x g0" "NameBuffer g = NameBuffer g0"
      by (auto simp: o ow split: if_splits)
    then have "owned x g0 \<inter> owned p h = {}" using h by (simp add: obj_blocks_def)
    with g0 show "\<exists>g0. Objs s x = Some g0 \<and> owned x g = owned x g0 \<and> NameBuffer g = NameBuffer g0 \<and> owned x g0 \<inter> owned p h = {}"
      by blast
  qed (simp add: s'_def)
  have t: "Types s' = Types s" by (simp add: s'_def)
  have pd: "dir_of s p = None" using h(1,2) by (auto simp: dir_of_def simple_obj_def split: ob_body.splits)
  have d: "dir_of s' x = None \<longleftrightarrow> dir_of s x = None" for x
    using pd by (cases "Objs s x") (auto simp: dir_of_def o split: ob_body.splits)
  have sm: "simple_obj s' g = simple_obj s g" for g by (simp add: simple_obj_def t d)
  have nd: "\<not> simple_obj s g" if "?d \<noteq> 0" "Objs s ?d = Some g" for g
  proof -
    have "dir_of s ?d \<noteq> None" using h(2) that(1) by (simp add: simple_obj_def)
    then show ?thesis using that(2) by (auto simp: dir_of_def simple_obj_def split: ob_body.splits)
  qed
  have nd': "\<not> simple_obj s (g\<lparr>Body := (case Body g of DirectoryBody os \<Rightarrow> DirectoryBody (remove1 p os) | b \<Rightarrow> b)\<rparr>)"
    if "?d \<noteq> 0" "Objs s ?d = Some g" for g
  proof -
    have "dir_of s ?d \<noteq> None" using h(2) that(1) by (simp add: simple_obj_def)
    then show ?thesis using that(2) by (auto simp: dir_of_def simple_obj_def split: ob_body.splits)
  qed
  have "ref_count s' q = (if q = p then None else ref_count s q)"
  proof (cases "q = p \<or> ?d = 0 \<or> q \<noteq> ?d")
    case True
    then show ?thesis using ok h(3) by (auto simp: ref_count_def o sm split: option.splits)
  next
    case False
    then show ?thesis using ok h(3) nd nd' by (auto simp: ref_count_def o sm split: option.splits)
  qed
  then show ?thesis using D r o [of p] by (simp add: s'_def)
qed

interpretation objects: refcounted ref_count "\<lambda>p. run_ob (ObReferenceObject p)" "\<lambda>p. run_ob (ObDereferenceObject p)"
proof
  show "ref_count s p = Some n \<Longrightarrow> ref_count (run_ob (ObReferenceObject p) s) p = Some (n + 1)" for s p n
    using reference_counts [of s p n p] by simp
  show "ref_count s p = Some 1 \<Longrightarrow> ref_count (run_ob (ObDereferenceObject p) s) p = None" for s p
    using last_dereference_counts [of s p p] by simp
  show "ref_count s p = Some n \<Longrightarrow> n \<noteq> 1 \<Longrightarrow> ref_count (run_ob (ObDereferenceObject p) s) p = Some (n - 1)" for s p n
    using dereference_counts [of s p n p] by simp
  show "q \<noteq> p \<Longrightarrow> ref_count s p \<noteq> None \<Longrightarrow> ref_count (run_ob (ObReferenceObject p) s) q = ref_count s q" for q p s
    using reference_counts [of s p _ q] by auto
  show "q \<noteq> p \<Longrightarrow> ref_count s p \<noteq> None \<Longrightarrow> ref_count (run_ob (ObDereferenceObject p) s) q = ref_count s q" for q p s
    using dereference_counts [of s p _ q] last_dereference_counts [of s p q] by (cases "ref_count s p = Some 1") auto
qed

text \<open>\<open>n\<close> calls of an operation, one after the other.\<close>

fun times :: "nat \<Rightarrow> (ob \<Rightarrow> ob_stop + ob) \<Rightarrow> ob \<Rightarrow> ob_stop + ob" where
  "times 0 f s = Inr s"
| "times (Suc n) f s = and_then (times n f s) f"

lemma times_reference: "ref_count s p = Some n
    \<Longrightarrow> times k (ObReferenceObject p) s = Inr ((run_ob (ObReferenceObject p) ^^ k) s)"
  using objects.acquires [of s p n] reference_counts by (induction k) auto

lemma times_dereference: "ref_count s p = Some n \<Longrightarrow> k \<le> unat n
    \<Longrightarrow> times k (ObDereferenceObject p) s = Inr ((run_ob (ObDereferenceObject p) ^^ k) s)"
proof (induction k)
  case (Suc k)
  then have c: "ref_count ((run_ob (ObDereferenceObject p) ^^ k) s) p = Some (n - of_nat k)"
    by (intro objects.releases) auto
  then show ?case using Suc dereference_counts [OF c] last_dereference_counts [of "(run_ob (ObDereferenceObject p) ^^ k) s" p]
    by (cases "n - of_nat k = 1") auto
qed simp

text \<open>The state after some references, and after some of them are dropped.\<close>

lemma reference_state: "Objs s p = Some h
    \<Longrightarrow> (run_ob (ObReferenceObject p) ^^ k) s = s\<lparr>Objs := (Objs s)(p \<mapsto> h\<lparr>ReferenceCount := ReferenceCount h + of_nat k\<rparr>)\<rparr>"
  by (induction k) (simp_all add: fun_upd_idem run_ob_def ObReferenceObject_def upd_obj_def get_obj_def put_obj_def algebra_simps)

lemma dereference_state: "ref_count s p = Some n \<Longrightarrow> Objs s p = Some h \<Longrightarrow> j < unat n
    \<Longrightarrow> (run_ob (ObDereferenceObject p) ^^ j) s = s\<lparr>Objs := (Objs s)(p \<mapsto> h\<lparr>ReferenceCount := n - of_nat j\<rparr>)\<rparr>"
proof (induction j)
  case 0
  then have "ReferenceCount h = n" by (auto elim: ref_countD)
  then have "h\<lparr>ReferenceCount := n\<rparr> = h" by auto
  with 0(2) show ?case by (simp add: fun_upd_idem)
next
  case (Suc j)
  let ?s = "(run_ob (ObDereferenceObject p) ^^ j) s"
  have e: "?s = s\<lparr>Objs := (Objs s)(p \<mapsto> h\<lparr>ReferenceCount := n - of_nat j\<rparr>)\<rparr>"
    by (rule Suc.IH) (use Suc.prems in auto)
  have c: "ref_count ?s p = Some (n - of_nat j)" using Suc.prems by (intro objects.releases) auto
  have "n - of_nat j \<noteq> 1"
  proof
    assume "n - of_nat j = 1"
    then have "n = of_nat (Suc j)" by (simp add: algebra_simps)
    then have "unat n = Suc j mod 2 ^ 32" by (simp only: unat_of_nat) simp
    then show False using Suc.prems(3) mod_less_eq_dividend [of "Suc j" "2 ^ 32"] by simp
  qed
  then have "ObDereferenceObject p ?s = Inr (s\<lparr>Objs := (Objs s)(p \<mapsto> h\<lparr>ReferenceCount := n - of_nat (Suc j)\<rparr>)\<rparr>)"
    using deref_keeps [of ?s p "h\<lparr>ReferenceCount := n - of_nat j\<rparr>"] unfolding e by (simp add: put_obj_def diff_diff_eq add.commute)
  then have "run_ob (ObDereferenceObject p) ?s = s\<lparr>Objs := (Objs s)(p \<mapsto> h\<lparr>ReferenceCount := n - of_nat (Suc j)\<rparr>)\<rparr>"
    by (simp only: run_ob_def sum.case)
  then show ?case by (simp only: funpow.simps comp_apply)
qed

subsection \<open>The properties\<close>

lemma sample_table: "table_inv 2 sample_ob"
  by (simp add: table_inv_def sample_ob_def)

lemma sample_count: "ref_count sample_ob 0x40 = Some 1"
proof -
  have "obj_blocks sample_ob"
    by (auto simp: obj_blocks_def owned_def sample_ob_def sample_obj_def split: if_splits)
  moreover have "Objs sample_ob 0x40 = Some (sample_obj 0x20 4 [0x45] OtherBody)" by (simp add: sample_ob_def)
  moreover have "simple_obj sample_ob (sample_obj 0x20 4 [0x45] OtherBody)"
    by (simp add: simple_obj_def dir_of_def sample_ob_def sample_obj_def)
  ultimately show ?thesis by (simp add: ref_count_def) (simp add: sample_obj_def)
qed

text \<open>C10: In every history of creations and deletions of handles, the handles that are in use are different,
  and each maps to the object and the access rights that it was created with; a request for access
  that the handle does not grant is denied.\<close>

theorem handles_map_to_their_objects:
  assumes "table_inv N s0" and "pool_run handle_take handle_give s0 held s" and "(H, obj, acc) \<in> set held"
  shows "ObpMapHandleToPointer H access False s =
      (if access \<noteq> 0 \<and> acc AND access = 0 then Inr (STATUS_ACCESS_DENIED, 0, s) else Inr (STATUS_SUCCESS, obj, s))
    \<and> (\<forall>g. held = xs @ (H, obj, acc) # ys \<longrightarrow> g \<in> set xs \<union> set ys \<longrightarrow> fst g \<noteq> H)"
proof
  note R = handles.run_invariant [OF assms(2,1)]
  have u: "\<forall>g\<in>set held. handle_ok N g \<and> handle_res g \<subseteq> used_entries s" using R by blast
  then have h: "0 < unat H" "unat H \<le> N" "(unat H - 1, obj, acc) \<in> used_entries s"
    using assms(3) by (auto simp: handle_ok_def handle_res_def)
  then show "ObpMapHandleToPointer H access False s =
      (if access \<noteq> 0 \<and> acc AND access = 0 then Inr (STATUS_ACCESS_DENIED, 0, s) else Inr (STATUS_SUCCESS, obj, s))"
    using map_handle R by blast
  show "\<forall>g. held = xs @ (H, obj, acc) # ys \<longrightarrow> g \<in> set xs \<union> set ys \<longrightarrow> fst g \<noteq> H"
  proof (intro allI impI notI)
    fix g assume g: "held = xs @ (H, obj, acc) # ys" "g \<in> set xs \<union> set ys" "fst g = H"
    then have "handle_res g \<subseteq> used_entries s" using u by auto
    then have "snd g = (obj, acc)" using h(3) g(3) by (auto simp: handle_res_def used_entries_def)
    then have same: "handle_res g = handle_res (H, obj, acc)" using g(3) by (simp add: handle_res_def)
    have "(H, obj, acc) \<in> set held" "g \<in> set (remove1 (H, obj, acc) held)"
      using g by (auto simp: remove1_append)
    with disjoint_list_remove1 [of handle_res held "(H, obj, acc)"] R have "handle_res (H, obj, acc) \<inter> handle_res g = {}" by blast
    then show False using same by (simp add: handle_res_def)
  qed
qed

theorem handles_map_to_their_objects_witness:
  "\<exists>s. ObpMapHandleToPointer 1 2 False s = Inr (STATUS_SUCCESS, 0x40, s)"
proof -
  have "handle_take (0x40, 3) sample_ob = Some ((1, 0x40, 3),
      sample_ob\<lparr>HandleTable := (HandleTable sample_ob)[0 := \<lparr>HObject = 0x40, GrantedAccess = 3, HOwner = 1\<rparr>]\<rparr>)"
    by (simp add: handle_take_def ObpCreateHandle_def ObLockObjectTable_def ObUnlockObjectTable_def sample_ob_def)
  then obtain s1 where "handle_take (0x40, 3) sample_ob = Some ((1, 0x40, 3), s1)" by blast
  then have "pool_run handle_take handle_give sample_ob [(1, 0x40, 3)] s1"
    by (rule pool_run.request [OF pool_run.start])
  from handles_map_to_their_objects [OF sample_table this, of 1 "0x40" 3 2 "[]" "[]"] show ?thesis by auto
qed

text \<open>C11: Closing a handle undoes opening it: while it is open the object has one reference and one handle more
  and the table one entry more; afterwards all objects, the used entries of the table and the heap are as
  before.\<close>

theorem open_close_roundtrip:
  assumes "table_inv N s" and "Objs s p = Some h" and "ReferenceCount h \<noteq> 0" and "free_entry (HandleTable s) 0 \<noteq> None"
    and "p \<noteq> 0" and "user \<longrightarrow> ObjType h = ty"
  shows "\<exists>H s1 s2. ObOpenObjectByPointer p ty user acc s = Inr (STATUS_SUCCESS, H, s1)
    \<and> Objs s1 = (Objs s)(p \<mapsto> h\<lparr>ReferenceCount := ReferenceCount h + 1, HandleCount := HandleCount h + 1\<rparr>)
    \<and> used_entries s1 = used_entries s \<union> {(unat H - 1, p, acc)} \<and> (unat H - 1, p, acc) \<notin> used_entries s
    \<and> ObClose H s1 = Inr (STATUS_SUCCESS, s2) \<and> Objs s2 = Objs s \<and> used_entries s2 = used_entries s \<and> Blocks s2 = Blocks s
    \<and> table_inv N s2"
  using assms by (rule open_then_close)

theorem open_close_roundtrip_witness:
  "\<exists>H s1 s2. ObOpenObjectByPointer 0x40 4 True 3 sample_ob = Inr (STATUS_SUCCESS, H, s1)
    \<and> ObClose H s1 = Inr (STATUS_SUCCESS, s2) \<and> Objs s2 = Objs sample_ob"
proof -
  have "Objs sample_ob 0x40 = Some (sample_obj 0x20 4 [0x45] OtherBody)" by (simp add: sample_ob_def)
  moreover have "free_entry (HandleTable sample_ob) 0 \<noteq> None" by (simp add: sample_ob_def)
  ultimately show ?thesis
    using open_close_roundtrip [OF sample_table, of "0x40" "sample_obj 0x20 4 [0x45] OtherBody" True 4 3]
    by (auto simp: sample_obj_def)
qed

text \<open>Closing a handle that is not in use fails and leaves the lock of the handle table held, so that every
  later creation, closing or use of a handle waits for ever.\<close>

theorem close_unused_keeps_lock:
  assumes "table_inv N s" and "0 < unat H" and "unat H \<le> N" and "HObject (HandleTable s ! (unat H - 1)) = 0"
    and "0 < unat K" and "unat K \<le> 0xFFFF"
  shows "\<exists>s'. ObClose H s = Inr (STATUS_INVALID_HANDLE, s') \<and> ObpCreateHandle p acc s' = Inl WaitsForTableLock
    \<and> ObClose K s' = Inl WaitsForTableLock \<and> ObReferenceObjectByHandle K acc s' = Inl WaitsForTableLock"
  using close_unused [OF assms(1-4)] locked_table_waits [OF _ assms(5,6)] by blast

theorem close_unused_keeps_lock_witness:
  "\<exists>s'. ObClose 2 sample_ob = Inr (STATUS_INVALID_HANDLE, s') \<and> ObpCreateHandle 0x40 3 s' = Inl WaitsForTableLock"
  using close_unused_keeps_lock [OF sample_table, of 2 1 "0x40" 3] by (auto simp: sample_ob_def)

text \<open>A handle that holds the last reference of its object cannot be closed: \<open>ObClose\<close> drops the reference
  before it decrements the handle count, and the deletion asserts that there are no handles.\<close>

theorem close_last_reference_asserts:
  assumes "table_inv N s" and "0 < unat H" and "unat H \<le> N" and "HObject (HandleTable s ! (unat H - 1)) = p" and "p \<noteq> 0"
    and "Objs s p = Some h" and "ReferenceCount h = 1" and "HandleCount h \<noteq> 0"
    and "Flags h AND OBJ_PERMANENT = 0 \<or> Flags h AND OBJ_DELETE_PENDING \<noteq> 0"
  shows "ObClose H s = Inl ObAsserts"
  using assms by (rule close_last)

theorem close_last_reference_asserts_witness:
  "ObClose 1 (sample_ob\<lparr>HandleTable := [\<lparr>HObject = 0x40, GrantedAccess = 3, HOwner = 1\<rparr>],
     Objs := (Objs sample_ob)(0x40 \<mapsto> (sample_obj 0x20 4 [0x45] OtherBody)\<lparr>HandleCount := 1, Flags := OBJ_DELETE_PENDING\<rparr>)\<rparr>)
   = Inl ObAsserts"
  by (rule close_last_reference_asserts [where N = 1 and p = "0x40"])
    (simp_all add: table_inv_def, simp_all add: sample_ob_def sample_obj_def OBJ_PERMANENT_def OBJ_DELETE_PENDING_def)

text \<open>C8: A created object that is not a directory, has no handles, is not permanent and has no delete routine lives through
  \<open>k\<close> references as long as no more than \<open>k\<close> of them are dropped: only its counter changes, and it has the right value.
  The next dereference takes it out of its directory, removes it, and frees its block and the block of its name; every
  other object and every other block stays as it is.\<close>

theorem object_life:
  assumes "ref_count s p = Some 1" and "Suc k < 2 ^ 32"
  shows "\<exists>h. Objs s p = Some h
    \<and> (\<forall>j. j \<le> k \<longrightarrow> and_then (times k (ObReferenceObject p) s) (times j (ObDereferenceObject p))
        = Inr (s\<lparr>Objs := (Objs s)(p \<mapsto> h\<lparr>ReferenceCount := of_nat (Suc k - j)\<rparr>)\<rparr>))
    \<and> (\<exists>s'. and_then (times k (ObReferenceObject p) s) (times (Suc k) (ObDereferenceObject p)) = Inr s' \<and> Objs s' p = None
        \<and> Blocks s' = Blocks s - {p} - (if NameBuffer h \<noteq> 0 \<and> ObjectName h \<noteq> [] then {NameBuffer h} else {})
        \<and> (\<forall>q. q \<noteq> p \<and> (q \<noteq> ParentDirectory h \<or> ParentDirectory h = 0) \<longrightarrow> Objs s' q = Objs s q)
        \<and> (ParentDirectory h \<noteq> 0 \<longrightarrow> (\<exists>D os. Objs s (ParentDirectory h) = Some D \<and> Body D = DirectoryBody os
              \<and> Objs s' (ParentDirectory h) = Some (D\<lparr>Body := DirectoryBody (remove1 p os)\<rparr>))))"
proof -
  obtain h where h: "Objs s p = Some h" "simple_obj s h" "ReferenceCount h = 1"
    using assms(1) by (elim ref_countD)
  let ?a = "(run_ob (ObReferenceObject p) ^^ k) s"
  have r: "times k (ObReferenceObject p) s = Inr ?a" using times_reference [OF assms(1)] .
  have c: "ref_count ?a p = Some (of_nat (Suc k))" using objects.acquires [OF assms(1), of k] by simp
  have u: "unat (of_nat (Suc k) :: u32) = Suc k" using assms(2) by (rule unat_of_nat_u32)
  have d: "times j (ObDereferenceObject p) ?a = Inr ((run_ob (ObDereferenceObject p) ^^ j) ?a)" if "j \<le> Suc k" for j
    using times_dereference [OF c] that by (simp only: u)
  have a: "?a = s\<lparr>Objs := (Objs s)(p \<mapsto> h\<lparr>ReferenceCount := of_nat (Suc k)\<rparr>)\<rparr>"
    using reference_state [OF h(1), of k] h(3) by simp
  have j: "(run_ob (ObDereferenceObject p) ^^ j) ?a = s\<lparr>Objs := (Objs s)(p \<mapsto> h\<lparr>ReferenceCount := of_nat (Suc k - j)\<rparr>)\<rparr>"
    if "j \<le> k" for j
    using dereference_state [OF c, of "h\<lparr>ReferenceCount := of_nat (Suc k)\<rparr>" j] that u by (simp add: a of_nat_diff)
  have "h\<lparr>ReferenceCount := of_nat (Suc k - k)\<rparr> = h" using h(3) by simp
  then have "(run_ob (ObDereferenceObject p) ^^ k) ?a = s" using j [OF order_refl] h(1) by (simp add: fun_upd_idem)
  then have "and_then (times k (ObReferenceObject p) s) (times (Suc k) (ObDereferenceObject p))
      = Inr (run_ob (ObDereferenceObject p) s)" using r d [OF order_refl] by simp
  moreover obtain l where l: "run_ob (ObDereferenceObject p) s = l" "l = s\<lparr>Objs := (unlinked p h s)(p := None), Blocks := Blocks s - owned p h\<rparr>"
    using last_dereference [OF assms(1)] h(1) by (auto simp: run_ob_def)
  moreover have "\<exists>D os. Objs s (ParentDirectory h) = Some D \<and> Body D = DirectoryBody os
      \<and> Objs l (ParentDirectory h) = Some (D\<lparr>Body := DirectoryBody (remove1 p os)\<rparr>)" if ne: "ParentDirectory h \<noteq> 0"
  proof -
    obtain D os where D: "Objs s (ParentDirectory h) = Some D" "Body D = DirectoryBody os"
      using ne h(2) by (auto simp: simple_obj_def dir_of_def split: option.splits ob_body.splits)
    then have "ParentDirectory h \<noteq> p" using h(1,2) by (auto simp: simple_obj_def)
    then show ?thesis using D ne by (simp add: l(2) unlinked_def)
  qed
  ultimately show ?thesis
    using h(1) r d j by (intro exI [of _ h] conjI) (auto simp: unlinked_def owned_def)
qed

theorem object_life_witness:
  "\<exists>s'. and_then (times 2 (ObReferenceObject 0x40) sample_ob) (times (Suc 2) (ObDereferenceObject 0x40)) = Inr s' \<and> Objs s' 0x40 = None"
proof -
  have "Suc 2 < 2 ^ 32" by simp
  from object_life [OF sample_count this] show ?thesis by blast
qed

end
