(* ===== verification/ListEntry.thy ===== *)
theory ListEntry
  imports Prelude
begin

text \<open>
  The doubly linked circular lists of \<^verbatim>\<open>kernel/inc/ke.h\<close> (\<open>LIST_ENTRY\<close> and its inline
  operations), on which every list of the kernel is built: the scheduler queues, the heap
  block lists, the object directories. The memory of the links is two functions from
  addresses to addresses; each operation is the sequence of assignments of the source, so
  aliasing (an entry that is its own neighbour, a list of one entry) is the memory's.
  \<open>dlist m h xs\<close> says that the list with head \<open>h\<close> holds the entries \<open>xs\<close>; the operations
  refine the list operations that the other theories use.
\<close>

subsection \<open>The operations (ke.h)\<close>

record 'a links =
  Flink :: "'a \<Rightarrow> 'a"
  Blink :: "'a \<Rightarrow> 'a"

definition set_Flink :: "'a \<Rightarrow> 'a \<Rightarrow> 'a links \<Rightarrow> 'a links" where
  "set_Flink a v m = m\<lparr>Flink := (Flink m)(a := v)\<rparr>"

definition set_Blink :: "'a \<Rightarrow> 'a \<Rightarrow> 'a links \<Rightarrow> 'a links" where
  "set_Blink a v m = m\<lparr>Blink := (Blink m)(a := v)\<rparr>"

definition InitializeListHead :: "'a links \<Rightarrow> 'a \<Rightarrow> 'a links" where
  "InitializeListHead m ListHead = set_Flink ListHead ListHead (set_Blink ListHead ListHead m)"

definition IsListEmpty :: "'a links \<Rightarrow> 'a \<Rightarrow> bool" where
  "IsListEmpty m ListHead \<longleftrightarrow> Flink m ListHead = ListHead"

definition RemoveEntryList :: "'a links \<Rightarrow> 'a \<Rightarrow> 'a links" where
  "RemoveEntryList m Entry =
     (let flink = Flink m Entry;
          blink = Blink m Entry;
          m1 = set_Flink blink flink m
      in set_Blink flink blink m1)"

definition RemoveHeadList :: "'a links \<Rightarrow> 'a \<Rightarrow> 'a \<times> 'a links" where
  "RemoveHeadList m ListHead =
     (let entry = Flink m ListHead;
          flink = Flink m entry;
          m1 = set_Flink ListHead flink m;
          m2 = set_Blink flink ListHead m1
      in (entry, m2))"

definition RemoveTailList :: "'a links \<Rightarrow> 'a \<Rightarrow> 'a \<times> 'a links" where
  "RemoveTailList m ListHead =
     (let entry = Blink m ListHead;
          blink = Blink m entry;
          m1 = set_Blink ListHead blink m;
          m2 = set_Flink blink ListHead m1
      in (entry, m2))"

definition InsertTailList :: "'a links \<Rightarrow> 'a \<Rightarrow> 'a \<Rightarrow> 'a links" where
  "InsertTailList m ListHead Entry =
     (let blink = Blink m ListHead;
          m1 = set_Flink Entry ListHead m;
          m2 = set_Blink Entry blink m1;
          m3 = set_Flink blink Entry m2
      in set_Blink ListHead Entry m3)"

definition InsertHeadList :: "'a links \<Rightarrow> 'a \<Rightarrow> 'a \<Rightarrow> 'a links" where
  "InsertHeadList m ListHead Entry =
     (let flink = Flink m ListHead;
          m1 = set_Flink Entry flink m;
          m2 = set_Blink Entry ListHead m1;
          m3 = set_Blink flink Entry m2
      in set_Flink ListHead Entry m3)"

lemmas list_op_defs [step_defs] =
  InitializeListHead_def IsListEmpty_def RemoveEntryList_def RemoveHeadList_def
  RemoveTailList_def InsertTailList_def InsertHeadList_def set_Flink_def set_Blink_def Let_def

subsection \<open>The abstraction: which entries a list holds\<close>

text \<open>\<open>seg m a xs b\<close>: following the links from \<open>a\<close> meets \<open>xs\<close> and then \<open>b\<close>, both ways.\<close>

fun seg :: "'a links \<Rightarrow> 'a \<Rightarrow> 'a list \<Rightarrow> 'a \<Rightarrow> bool" where
  "seg m a [] b \<longleftrightarrow> Flink m a = b \<and> Blink m b = a"
| "seg m a (x # xs) b \<longleftrightarrow> Flink m a = x \<and> Blink m x = a \<and> seg m x xs b"

definition dlist :: "'a links \<Rightarrow> 'a \<Rightarrow> 'a list \<Rightarrow> bool" where
  "dlist m h xs \<longleftrightarrow> distinct (h # xs) \<and> seg m h xs h"

lemma seg_append: "seg m a (xs @ x # ys) b \<longleftrightarrow> seg m a xs x \<and> seg m x ys b"
  by (induction xs arbitrary: a) auto

lemma seg_Flink: "seg m a xs b \<Longrightarrow> Flink m a = hd (xs @ [b])"
  by (cases xs) auto

lemma seg_Blink: "seg m a xs b \<Longrightarrow> Blink m b = last (a # xs)"
  by (induction xs arbitrary: a) auto

text \<open>A segment reads the forward links of \<open>a # xs\<close> and the backward links of \<open>xs @ [b]\<close> only.\<close>

lemma seg_frame:
  assumes "seg m a xs b"
    and "\<And>y. y \<in> set (a # xs) \<Longrightarrow> Flink m' y = Flink m y"
    and "\<And>y. y \<in> set (b # xs) \<Longrightarrow> Blink m' y = Blink m y"
  shows "seg m' a xs b"
  using assms by (induction xs arbitrary: a) auto

lemma dlist_Nil [simp]: "dlist m h [] \<longleftrightarrow> Flink m h = h \<and> Blink m h = h"
  by (simp add: dlist_def)

lemma dlist_distinct: "dlist m h xs \<Longrightarrow> distinct (h # xs)"
  by (simp add: dlist_def)

lemma dlist_frame:
  assumes "dlist m h xs"
    and "\<And>y. y \<in> set (h # xs) \<Longrightarrow> Flink m' y = Flink m y \<and> Blink m' y = Blink m y"
  shows "dlist m' h xs"
  using assms seg_frame [of m h xs h m'] by (auto simp: dlist_def)

lemma dlist_IsListEmpty: "dlist m h xs \<Longrightarrow> IsListEmpty m h \<longleftrightarrow> xs = []"
  by (cases xs) (auto simp: dlist_def IsListEmpty_def)

lemma dlist_unique: "dlist m h xs \<Longrightarrow> dlist m h ys \<Longrightarrow> xs = ys"
proof -
  have "seg m a xs h \<Longrightarrow> seg m a ys h \<Longrightarrow> h \<notin> set xs \<Longrightarrow> h \<notin> set ys \<Longrightarrow> xs = ys" for a
  proof (induction xs arbitrary: a ys)
    case Nil
    then show ?case by (cases ys) auto
  next
    case (Cons x xs)
    then show ?case by (cases ys) auto
  qed
  then show "dlist m h xs \<Longrightarrow> dlist m h ys \<Longrightarrow> xs = ys"
    by (auto simp: dlist_def)
qed

subsection \<open>Each operation refines its list operation\<close>

lemma InitializeListHead_dlist: "dlist (InitializeListHead m h) h []"
  by (simp add: step_defs)

lemma InsertTailList_dlist:
  assumes "dlist m h xs" and "e \<notin> set (h # xs)"
  shows "dlist (InsertTailList m h e) h (xs @ [e])"
proof -
  let ?m = "InsertTailList m h e"
  have blink: "Blink m h = last (h # xs)"
    using assms(1) by (auto simp: dlist_def dest: seg_Blink)
  show ?thesis
  proof (cases xs rule: rev_cases)
    case Nil
    with assms show ?thesis by (auto simp: dlist_def step_defs)
  next
    case (snoc ys y)
    have s: "seg m h ys y" "seg m y [] h" and d: "distinct (h # ys @ [y])"
      using assms(1) by (auto simp: dlist_def snoc seg_append)
    have "seg ?m h ys y"
      using s(1) by (rule seg_frame) (use d assms(2) blink snoc in \<open>auto simp: step_defs\<close>)
    moreover have "seg ?m y [e] h"
      using d assms(2) blink snoc by (auto simp: step_defs)
    ultimately show ?thesis
      using d assms(2) by (auto simp: dlist_def snoc seg_append)
  qed
qed

lemma InsertHeadList_dlist:
  assumes "dlist m h xs" and "e \<notin> set (h # xs)"
  shows "dlist (InsertHeadList m h e) h (e # xs)"
proof (cases xs)
  case Nil
  with assms show ?thesis by (auto simp: dlist_def step_defs)
next
  case (Cons y ys)
  let ?m = "InsertHeadList m h e"
  have s: "seg m y ys h" "Flink m h = y" and d: "distinct (h # y # ys)"
    using assms(1) by (auto simp: dlist_def Cons)
  have "seg ?m y ys h"
    using s(1) by (rule seg_frame) (use d s(2) assms(2) Cons in \<open>auto simp: step_defs\<close>)
  then show ?thesis
    using d s(2) assms(2) Cons by (auto simp: dlist_def step_defs)
qed

lemma dlist_neighbours:
  assumes "dlist m h (xs @ e # ys)"
  shows "Flink m e = hd (ys @ [h])" and "Blink m e = last (h # xs)"
proof -
  have "seg m h xs e" "seg m e ys h"
    using assms by (auto simp: dlist_def seg_append)
  then show "Flink m e = hd (ys @ [h])" "Blink m e = last (h # xs)"
    by (auto dest: seg_Flink seg_Blink)
qed

lemma RemoveEntryList_seg:
  assumes "dlist m h (xs @ e # ys)"
  shows "dlist (RemoveEntryList m e) h (xs @ ys)"
proof -
  let ?m = "RemoveEntryList m e"
  have s: "seg m h xs e" "seg m e ys h" and d: "distinct (h # xs @ e # ys)"
    using assms by (auto simp: dlist_def seg_append)
  note nb = dlist_neighbours [OF assms]
  have pre: "seg ?m h xs (hd (ys @ [h]))"
  proof (cases xs rule: rev_cases)
    case Nil
    with nb show ?thesis by (auto simp: step_defs)
  next
    case (snoc xs' x)
    have s': "seg m h xs' x" using s(1) by (simp add: snoc seg_append)
    have "seg ?m h xs' x"
      using s' by (rule seg_frame) (use d nb snoc in \<open>cases ys; auto simp: step_defs\<close>)+
    with d nb snoc show ?thesis by (cases ys) (auto simp: seg_append step_defs)
  qed
  show ?thesis
  proof (cases ys)
    case Nil
    with pre d show ?thesis by (auto simp: dlist_def)
  next
    case (Cons y ys')
    have s': "seg m y ys' h" using s(2) by (simp add: Cons)
    have "seg ?m y ys' h"
      using s' by (rule seg_frame) (use d nb Cons in \<open>cases xs rule: rev_cases; auto simp: step_defs\<close>)+
    with pre d Cons show ?thesis by (auto simp: dlist_def seg_append)
  qed
qed

lemma RemoveEntryList_dlist:
  assumes "dlist m h xs" and "e \<in> set xs"
  shows "dlist (RemoveEntryList m e) h (remove1 e xs)"
proof -
  obtain as bs where xs: "xs = as @ e # bs" and "e \<notin> set as"
    using assms(2) by (meson split_list_first)
  then show ?thesis
    using RemoveEntryList_seg [of m h as e bs] assms(1) by (simp add: remove1_append)
qed

lemma RemoveHeadList_eq:
  "dlist m h (x # xs) \<Longrightarrow> RemoveHeadList m h = (x, RemoveEntryList m x)"
  by (auto simp: dlist_def step_defs)

lemma RemoveTailList_eq:
  assumes "dlist m h (xs @ [x])"
  shows "RemoveTailList m h = (x, RemoveEntryList m x)"
proof -
  have "Blink m h = x" "Flink m x = h" "x \<noteq> h"
    using assms by (auto simp: dlist_def seg_append)
  then show ?thesis
    by (cases m) (auto simp: step_defs)
qed

text \<open>The pointers of a removed entry are left as they were: a walk may go on from it.\<close>

lemma RemoveEntryList_stale:
  assumes "dlist m h (xs @ e # ys)"
  shows "Flink (RemoveEntryList m e) e = hd (ys @ [h])"
proof -
  have s: "seg m h xs e" "seg m e ys h" and d: "distinct (h # xs @ e # ys)"
    using assms by (auto simp: dlist_def seg_append)
  note nb = dlist_neighbours [OF assms]
  with d show ?thesis by (cases xs rule: rev_cases) (auto simp: step_defs)
qed

subsection \<open>Lists that share no entry do not disturb one another\<close>

lemma InsertTailList_frame:
  assumes "dlist m h xs" and "dlist m g ys" and "set (h # xs) \<inter> set (g # ys) = {}" and "e \<notin> set (g # ys)"
  shows "dlist (InsertTailList m h e) g ys"
proof -
  have "Blink m h \<in> set (h # xs)"
    using assms(1) seg_Blink [of m h xs h] by (auto simp: dlist_def)
  then show ?thesis
    using assms(2) by (rule_tac dlist_frame [of m]) (use assms(3,4) in \<open>auto simp: step_defs\<close>)
qed

lemma InsertHeadList_frame:
  assumes "dlist m h xs" and "dlist m g ys" and "set (h # xs) \<inter> set (g # ys) = {}" and "e \<notin> set (g # ys)"
  shows "dlist (InsertHeadList m h e) g ys"
proof -
  have "Flink m h \<in> set (h # xs)"
    using assms(1) by (cases xs) (auto simp: dlist_def)
  then show ?thesis
    using assms(2) by (rule_tac dlist_frame [of m]) (use assms(3,4) in \<open>auto simp: step_defs\<close>)
qed

lemma RemoveEntryList_frame:
  assumes "dlist m h xs" and "dlist m g ys" and "set (h # xs) \<inter> set (g # ys) = {}" and "e \<in> set xs"
  shows "dlist (RemoveEntryList m e) g ys"
proof -
  obtain as bs where xs: "xs = as @ e # bs"
    using assms(4) by (meson split_list)
  note nb = dlist_neighbours [OF assms(1) [unfolded xs]]
  have "hd (bs @ [h]) \<in> set (h # xs)" "last (h # as) \<in> set (h # xs)"
    using last_in_set [of "h # as"] by (cases bs; auto simp: xs)+
  then have "Flink m e \<in> set (h # xs)" "Blink m e \<in> set (h # xs)"
    by (simp_all only: nb)
  then have "y \<noteq> Flink m e \<and> y \<noteq> Blink m e" if "y \<in> set (g # ys)" for y
    using assms(3) that by blast
  then show ?thesis
    by (intro dlist_frame [OF assms(2)]) (simp add: step_defs)
qed

subsection \<open>The contract the clients use\<close>

text \<open>
  The clients (scheduler, heap, object manager) use three operations and these laws: what
  a list holds after an insertion or a removal, and that other lists keep what they hold.
  Moving an entry, which is how the scheduler and the heap use the lists, is proved here
  once.
\<close>

locale circular_lists =
  fixes rep :: "'m \<Rightarrow> 'e \<Rightarrow> 'e list \<Rightarrow> bool"
    and ins_tail :: "'m \<Rightarrow> 'e \<Rightarrow> 'e \<Rightarrow> 'm"
    and ins_head :: "'m \<Rightarrow> 'e \<Rightarrow> 'e \<Rightarrow> 'm"
    and rem :: "'m \<Rightarrow> 'e \<Rightarrow> 'm"
  assumes rep_distinct: "rep m h xs \<Longrightarrow> distinct (h # xs)"
    and rep_tail: "rep m h xs \<Longrightarrow> e \<notin> set (h # xs) \<Longrightarrow> rep (ins_tail m h e) h (xs @ [e])"
    and rep_head: "rep m h xs \<Longrightarrow> e \<notin> set (h # xs) \<Longrightarrow> rep (ins_head m h e) h (e # xs)"
    and rep_rem: "rep m h xs \<Longrightarrow> e \<in> set xs \<Longrightarrow> rep (rem m e) h (remove1 e xs)"
    and tail_other: "rep m h xs \<Longrightarrow> rep m g ys \<Longrightarrow> set (h # xs) \<inter> set (g # ys) = {}
      \<Longrightarrow> e \<notin> set (g # ys) \<Longrightarrow> rep (ins_tail m h e) g ys"
    and head_other: "rep m h xs \<Longrightarrow> rep m g ys \<Longrightarrow> set (h # xs) \<inter> set (g # ys) = {}
      \<Longrightarrow> e \<notin> set (g # ys) \<Longrightarrow> rep (ins_head m h e) g ys"
    and rem_other: "rep m h xs \<Longrightarrow> rep m g ys \<Longrightarrow> set (h # xs) \<inter> set (g # ys) = {}
      \<Longrightarrow> e \<in> set xs \<Longrightarrow> rep (rem m e) g ys"
begin

lemma requeue:
  assumes "rep m h xs" and "e \<in> set xs"
  shows "rep (ins_tail (rem m e) h e) h (remove1 e xs @ [e])"
  using rep_rem [OF assms] rep_distinct [OF assms(1)] assms(2) by (intro rep_tail) auto

lemma move_tail:
  assumes "rep m h xs" and "rep m g ys" and "set (h # xs) \<inter> set (g # ys) = {}" and "e \<in> set xs"
  shows "rep (ins_tail (rem m e) g e) h (remove1 e xs)
    \<and> rep (ins_tail (rem m e) g e) g (ys @ [e])"
proof -
  have r: "rep (rem m e) h (remove1 e xs)" "rep (rem m e) g ys"
    using rep_rem [OF assms(1,4)] rem_other [OF assms] by auto
  have d: "e \<notin> set (g # ys)" "e \<notin> set (h # remove1 e xs)"
    "set (g # ys) \<inter> set (h # remove1 e xs) = {}"
    using assms(3,4) rep_distinct [OF assms(1)] set_remove1_subset [of e xs] by auto
  show ?thesis
    using tail_other [OF r(2,1) d(3) d(2)] rep_tail [OF r(2) d(1)] by simp
qed

lemma move_head:
  assumes "rep m h xs" and "rep m g ys" and "set (h # xs) \<inter> set (g # ys) = {}" and "e \<in> set xs"
  shows "rep (ins_head (rem m e) g e) h (remove1 e xs)
    \<and> rep (ins_head (rem m e) g e) g (e # ys)"
proof -
  have r: "rep (rem m e) h (remove1 e xs)" "rep (rem m e) g ys"
    using rep_rem [OF assms(1,4)] rem_other [OF assms] by auto
  have d: "e \<notin> set (g # ys)" "e \<notin> set (h # remove1 e xs)"
    "set (g # ys) \<inter> set (h # remove1 e xs) = {}"
    using assms(3,4) rep_distinct [OF assms(1)] set_remove1_subset [of e xs] by auto
  show ?thesis
    using head_other [OF r(2,1) d(3) d(2)] rep_head [OF r(2) d(1)] by simp
qed

end

interpretation le: circular_lists dlist InsertTailList InsertHeadList RemoveEntryList
proof unfold_locales
qed (fact dlist_distinct InsertTailList_dlist InsertHeadList_dlist RemoveEntryList_dlist
      InsertTailList_frame InsertHeadList_frame RemoveEntryList_frame)+

end
