(* ===== verification/Sched.thy ===== *)
theory Sched
  imports ListEntry
begin

text \<open>
  The scheduler (\<^verbatim>\<open>kernel/ps.cpp\<close>, \<^verbatim>\<open>kernel/ps386.asm\<close>), events (\<^verbatim>\<open>kernel/kernel.cpp\<close>) and
  mutexes (\<^verbatim>\<open>kernel/ex.cpp\<close>). Threads and scheduler objects are addresses; the ready list, the
  wait list and the wait lists of the objects are the lists that theory \<open>ListEntry\<close> shows the
  \<open>LIST_ENTRY\<close> operations to implement. The kernel runs on one processor. What an operation does between
  \<open>PspLockSchedulerDatabase\<close> and \<open>PspUnlockSchedulerDatabase\<close> runs under the scheduler lock with interrupts
  off and is one step. \<open>PsExitThread\<close> releases both before it calls \<open>PsSwapThread\<close>, and is two steps.
  \<open>KeAcquireLock\<close> turns interrupts off after it has set the lock: a timer tick in between is as a tick
  before the call, unless it ends the quantum; then the interrupt handler spins on the lock (\<open>calls_come_back\<close>).
  A context switch goes on in the next thread where that thread left off: the field \<open>Resume\<close>
  says what its call does after \<open>PspSwapThread\<close> returned to it.
\<close>

subsection \<open>State\<close>

datatype thread_state =
  THREAD_STATE_READY | THREAD_STATE_RUNNING | THREAD_STATE_WAIT | THREAD_STATE_TERMINATED

datatype wait_state =
  THREAD_WAIT_NOTWAITING | THREAD_WAIT_SUSPENDED | THREAD_WAIT_EXECUTIONDELAYED
  | THREAD_WAIT_SCHEDULEROBJECTS_ALL | THREAD_WAIT_SCHEDULEROBJECTS_ANY

text \<open>Where a thread that was switched out goes on: after the swap in \<open>PsSwapThread\<close> or
  \<open>PsDelayThreadExecution\<close>, in \<open>KeWaitForSingleObject\<close>, or in \<open>ExAcquireMutex\<close> of a mutex.\<close>

datatype resume = ResumeSwap | ResumeWait | ResumeMutex u32

record thread =
  State :: thread_state
  WaitType :: wait_state
  Quantum :: u16
  QuantumDynamic :: u16
  DelayedTickCount :: u32
  NumberOfObjectsWaiting :: u8
  JustInitialized :: bool
  ExitCode :: u32
  UniqueId :: u32
  Resume :: resume

datatype object_type = NotificationEvent | SynchronizationEvent | SynchronizationMutex

text \<open>A wait block is the thread (its \<open>BackLink\<close>) and its index in the thread.\<close>

record header =
  ObjectType :: object_type
  SignaledState :: bool
  WaitListHead :: "(u32 \<times> nat) list"

record sched =
  PsReadyList :: "u32 list"
  PsWaitList :: "u32 list"
  Threads :: "u32 \<Rightarrow> thread"
  Objects :: "u32 \<Rightarrow> header"
  CurrentThread :: u32
  QuantumLeft :: u16
  SchedulerLock :: bool
  UniqueThreadIdSeed :: u32

text \<open>
  Ways for the processor to stop: spinning on the scheduler lock with nobody left to release
  it, the endless loop of a failed assertion, the halt after the last thread ended, a bugcheck.
\<close>

datatype stop = SpinsOnLock | AssertionFailed | SystemHalted | Stopped bugcheck

definition upd_thread :: "u32 \<Rightarrow> (thread \<Rightarrow> thread) \<Rightarrow> sched \<Rightarrow> sched" where
  "upd_thread t f s = s\<lparr>Threads := (Threads s)(t := f (Threads s t))\<rparr>"

definition upd_object :: "u32 \<Rightarrow> (header \<Rightarrow> header) \<Rightarrow> sched \<Rightarrow> sched" where
  "upd_object ob f s = s\<lparr>Objects := (Objects s)(ob := f (Objects s ob))\<rparr>"

text \<open>\<open>RemoveEntryList\<close> of a scheduler entry takes the thread from the list it is in; of a wait
  block, the block from the object's list it is in.\<close>

definition unlink_thread :: "u32 \<Rightarrow> sched \<Rightarrow> sched" where
  "unlink_thread t s = s\<lparr>PsReadyList := remove1 t (PsReadyList s), PsWaitList := remove1 t (PsWaitList s)\<rparr>"

definition unlink_block :: "u32 \<times> nat \<Rightarrow> sched \<Rightarrow> sched" where
  "unlink_block b s = s\<lparr>Objects := (\<lambda>ob. (Objects s ob)\<lparr>WaitListHead := remove1 b (WaitListHead (Objects s ob))\<rparr>)\<rparr>"

subsection \<open>The scheduler lock\<close>

definition PspLockSchedulerDatabase :: "sched \<Rightarrow> stop + sched" where
  "PspLockSchedulerDatabase s = (if SchedulerLock s then Inl SpinsOnLock else Inr (s\<lparr>SchedulerLock := True\<rparr>))"

definition PspUnlockSchedulerDatabase :: "sched \<Rightarrow> sched" where
  "PspUnlockSchedulerDatabase s = s\<lparr>SchedulerLock := False\<rparr>"

subsection \<open>Choosing the next thread\<close>

definition PspReadyThread :: "u32 \<Rightarrow> sched \<Rightarrow> stop + sched" where
  "PspReadyThread t s =
     (if State (Threads s t) = THREAD_STATE_TERMINATED then Inl AssertionFailed
      else let s1 = unlink_thread t s in Inr (s1\<lparr>PsReadyList := PsReadyList s1 @ [t]\<rparr>))"

definition PspUnwaitThread :: "u32 \<Rightarrow> u16 \<Rightarrow> sched \<Rightarrow> stop + sched" where
  "PspUnwaitThread t QuantumIncrement s =
     (if State (Threads s t) = THREAD_STATE_TERMINATED then Inl AssertionFailed
      else if WaitType (Threads s t) = THREAD_WAIT_SCHEDULEROBJECTS_ANY then
        let s1 = upd_thread t (\<lambda>r. r\<lparr>State := THREAD_STATE_READY\<rparr>) s;
            s2 = unlink_thread t s1;
            s3 = s2\<lparr>PsReadyList := t # PsReadyList s2\<rparr>;
            s4 = upd_thread t (\<lambda>r. r\<lparr>QuantumDynamic := QuantumIncrement\<rparr>) s3;
            s5 = foldl (\<lambda>s i. unlink_block (t, i) s) s4 [0..<unat (NumberOfObjectsWaiting (Threads s4 t))]
        in Inr (upd_thread t (\<lambda>r. r\<lparr>WaitType := THREAD_WAIT_NOTWAITING, NumberOfObjectsWaiting := 0\<rparr>) s5)
      else Inr s)"

text \<open>
  The walk along the wait list: the successor of an entry is read before the entry is
  unlinked, so it visits the entries the list had.
\<close>

fun wait_list_loop :: "u32 list \<Rightarrow> sched \<Rightarrow> stop + sched" where
  "wait_list_loop [] s = Inr s"
| "wait_list_loop (t # ts) s =
     (if WaitType (Threads s t) = THREAD_WAIT_EXECUTIONDELAYED then
        let s1 = upd_thread t (\<lambda>r. r\<lparr>DelayedTickCount := DelayedTickCount r - 1\<rparr>) s
        in if DelayedTickCount (Threads s1 t) = 0
           then and_then (PspUnwaitThread t 0 s1) (wait_list_loop ts)
           else wait_list_loop ts s1
      else wait_list_loop ts s)"

definition PspProcessWaitList :: "sched \<Rightarrow> stop + sched" where
  "PspProcessWaitList s = wait_list_loop (PsWaitList s) s"

definition PS_SCHEDULER_GENERAL_FAILURE :: u32 where "PS_SCHEDULER_GENERAL_FAILURE = 0x12"
definition PSP_NO_READY_THREADS :: u32 where "PSP_NO_READY_THREADS = 1"

definition state_code :: "thread_state \<Rightarrow> u32" where
  "state_code st = (case st of THREAD_STATE_READY \<Rightarrow> 0 | THREAD_STATE_RUNNING \<Rightarrow> 1
     | THREAD_STATE_WAIT \<Rightarrow> 2 | THREAD_STATE_TERMINATED \<Rightarrow> 3)"

fun find_ready_loop :: "sched \<Rightarrow> u32 list \<Rightarrow> stop + u32 option" where
  "find_ready_loop s [] = Inr None"
| "find_ready_loop s (t # ts) =
     (if State (Threads s t) \<noteq> THREAD_STATE_READY then Inl AssertionFailed
      else if t \<noteq> CurrentThread s then Inr (Some t) else find_ready_loop s ts)"

definition FindReadyThread :: "sched \<Rightarrow> stop + u32" where
  "FindReadyThread s =
     and_then (find_ready_loop s (PsReadyList s)) (\<lambda>r.
       case r of
         Some t \<Rightarrow> Inr t
       | None \<Rightarrow>
           let st = State (Threads s (CurrentThread s))
           in if st \<noteq> THREAD_STATE_READY then
                if PsReadyList s = [] \<and> st = THREAD_STATE_TERMINATED then Inl SystemHalted
                else Inl (Stopped (BugCheck PS_SCHEDULER_GENERAL_FAILURE PSP_NO_READY_THREADS 220 (state_code st) 0))
              else Inr (CurrentThread s))"

subsection \<open>The context switch\<close>

text \<open>
  \<open>SwapContext\<close> makes \<open>next\<close> the running thread; what it goes on with ends in the release of
  the scheduler lock, after a mutex was marked as taken if it was waiting for one.
\<close>

definition SwapContext :: "u32 \<Rightarrow> sched \<Rightarrow> sched" where
  "SwapContext t s =
     (let r = Threads s t;
          s1 = upd_thread t (\<lambda>r. r\<lparr>State := THREAD_STATE_RUNNING\<rparr>) s;
          s2 = s1\<lparr>CurrentThread := t, QuantumLeft := Quantum r + QuantumDynamic r\<rparr>;
          s3 = upd_thread t (\<lambda>r. r\<lparr>QuantumDynamic := 0\<rparr>) s2
      in if JustInitialized r
         then PspUnlockSchedulerDatabase (upd_thread t (\<lambda>r. r\<lparr>JustInitialized := False\<rparr>) s3)
         else PspUnlockSchedulerDatabase
                (case Resume r of
                   ResumeMutex mx \<Rightarrow> upd_object mx (\<lambda>h. h\<lparr>SignaledState := False\<rparr>) s3
                 | _ \<Rightarrow> s3))"

definition PspSwapThread :: "sched \<Rightarrow> stop + sched" where
  "PspSwapThread s =
     and_then (if State (Threads s (CurrentThread s)) = THREAD_STATE_READY
               then PspReadyThread (CurrentThread s) s else Inr s) (\<lambda>s1.
     and_then (PspProcessWaitList s1) (\<lambda>s2.
     and_then (FindReadyThread s2) (\<lambda>t. Inr (SwapContext t s2))))"

definition set_resume :: "resume \<Rightarrow> sched \<Rightarrow> sched" where
  "set_resume r s = upd_thread (CurrentThread s) (\<lambda>x. x\<lparr>Resume := r\<rparr>) s"

definition PsSwapThread :: "sched \<Rightarrow> stop + sched" where
  "PsSwapThread s = and_then (PspLockSchedulerDatabase (set_resume ResumeSwap s)) PspSwapThread"

definition PsQuantumEnd :: "sched \<Rightarrow> stop + sched" where
  "PsQuantumEnd s = PsSwapThread (upd_thread (CurrentThread s) (\<lambda>r. r\<lparr>State := THREAD_STATE_READY\<rparr>) s)"

text \<open>The timer interrupt.\<close>

definition PspSchedulerTimerInterruptDispatcher :: "sched \<Rightarrow> stop + sched" where
  "PspSchedulerTimerInterruptDispatcher s =
     (let s1 = s\<lparr>QuantumLeft := QuantumLeft s - 1\<rparr>
      in if QuantumLeft s1 \<noteq> 0 then Inr s1 else PsQuantumEnd s1)"

subsection \<open>Creating, ending and delaying threads\<close>

definition THREAD_NORMAL_QUANTUM :: u16 where "THREAD_NORMAL_QUANTUM = 3"

text \<open>The memory of the new thread was zeroed by \<open>PsCreateThread\<close>.\<close>

definition PspCreateThread :: "u32 \<Rightarrow> sched \<Rightarrow> stop + sched" where
  "PspCreateThread t s =
     and_then (PspLockSchedulerDatabase s) (\<lambda>s1.
       let seed = UniqueThreadIdSeed s1 + 1;
           r = \<lparr>State = THREAD_STATE_READY, WaitType = THREAD_WAIT_NOTWAITING, Quantum = THREAD_NORMAL_QUANTUM,
                QuantumDynamic = 0, DelayedTickCount = 0, NumberOfObjectsWaiting = 0, JustInitialized = True,
                ExitCode = 0, UniqueId = seed, Resume = ResumeSwap\<rparr>;
           s2 = s1\<lparr>UniqueThreadIdSeed := seed, Threads := (Threads s1)(t := r), PsReadyList := t # PsReadyList s1\<rparr>
       in Inr (PspUnlockSchedulerDatabase s2))"

text \<open>
  \<open>PsExitThread\<close> gives up the lock and the interrupt state after its first half, and then swaps. It never
  returns to its caller: the state after it is that of the next thread.
\<close>

definition PsExitThread_unlink :: "u32 \<Rightarrow> sched \<Rightarrow> stop + sched" where
  "PsExitThread_unlink Code s =
     and_then (PspLockSchedulerDatabase s) (\<lambda>s1.
       let t = CurrentThread s1
       in Inr (PspUnlockSchedulerDatabase
            (upd_thread t (\<lambda>r. r\<lparr>ExitCode := Code, State := THREAD_STATE_TERMINATED\<rparr>) (unlink_thread t s1))))"

definition PsExitThread :: "u32 \<Rightarrow> sched \<Rightarrow> stop + sched" where
  "PsExitThread Code s = and_then (PsExitThread_unlink Code s) PsSwapThread"

text \<open>\<open>PsTerminateThread\<close> restores the interrupt flag and leaves the scheduler lock taken.\<close>

definition PsTerminateThread :: "u32 \<Rightarrow> u32 \<Rightarrow> sched \<Rightarrow> stop + sched" where
  "PsTerminateThread t Code s =
     and_then (PspLockSchedulerDatabase s) (\<lambda>s1.
       Inr (upd_thread t (\<lambda>r. r\<lparr>ExitCode := Code, State := THREAD_STATE_TERMINATED\<rparr>) (unlink_thread t s1)))"

definition to_wait_list :: "u32 \<Rightarrow> sched \<Rightarrow> sched" where
  "to_wait_list t s = (let s1 = unlink_thread t s in s1\<lparr>PsWaitList := PsWaitList s1 @ [t]\<rparr>)"

definition PsDelayThreadExecution :: "u32 \<Rightarrow> sched \<Rightarrow> stop + sched" where
  "PsDelayThreadExecution ClockTickCount s =
     and_then (PspLockSchedulerDatabase s) (\<lambda>s1.
       let t = CurrentThread s1;
           s2 = upd_thread t (\<lambda>r. r\<lparr>State := THREAD_STATE_WAIT, WaitType := THREAD_WAIT_EXECUTIONDELAYED,
                  DelayedTickCount := ClockTickCount\<rparr>) s1
       in PspSwapThread (set_resume ResumeSwap (to_wait_list t s2)))"

subsection \<open>Events\<close>

definition KeInitializeEvent :: "u32 \<Rightarrow> object_type \<Rightarrow> bool \<Rightarrow> sched \<Rightarrow> sched" where
  "KeInitializeEvent ev type' InitialState s =
     upd_object ev (\<lambda>h. \<lparr>ObjectType = type', SignaledState = InitialState, WaitListHead = []\<rparr>) s"

definition KeClearEvent :: "u32 \<Rightarrow> sched \<Rightarrow> sched" where
  "KeClearEvent ev = upd_object ev (\<lambda>h. h\<lparr>SignaledState := False\<rparr>)"

text \<open>The loop of \<open>KiSetEvent\<close> over the wait blocks the object had.\<close>

fun set_event_loop :: "u32 \<Rightarrow> u16 \<Rightarrow> (u32 \<times> nat) list \<Rightarrow> sched \<Rightarrow> stop + sched" where
  "set_event_loop ev inc [] s = Inr s"
| "set_event_loop ev inc ((t, i) # bs) s =
     (let r = Threads s t
      in if State r \<noteq> THREAD_STATE_WAIT then Inl AssertionFailed
         else if NumberOfObjectsWaiting r > 1 \<and> WaitType r = THREAD_WAIT_SCHEDULEROBJECTS_ANY
                 \<or> NumberOfObjectsWaiting r = 1
         then and_then (PspUnwaitThread t inc s) (\<lambda>s1.
                if ObjectType (Objects s1 ev) = SynchronizationEvent then Inr s1
                else set_event_loop ev inc bs s1)
         else set_event_loop ev inc bs s)"

definition KiSetEvent :: "u32 \<Rightarrow> u16 \<Rightarrow> sched \<Rightarrow> stop + sched" where
  "KiSetEvent ev QuantumIncrement s =
     set_event_loop ev QuantumIncrement (WaitListHead (Objects s ev))
       (upd_object ev (\<lambda>h. h\<lparr>SignaledState := True\<rparr>) s)"

text \<open>\<open>KeSetEvent\<close> and the others return the old signaled state.\<close>

definition KeSetEvent :: "u32 \<Rightarrow> u16 \<Rightarrow> sched \<Rightarrow> stop + (bool \<times> sched)" where
  "KeSetEvent ev QuantumIncrement s =
     and_then (PspLockSchedulerDatabase s) (\<lambda>s1.
     and_then (KiSetEvent ev QuantumIncrement s1) (\<lambda>s2.
       Inr (SignaledState (Objects s1 ev), PspUnlockSchedulerDatabase s2)))"

definition KePulseEvent :: "u32 \<Rightarrow> u16 \<Rightarrow> sched \<Rightarrow> stop + (bool \<times> sched)" where
  "KePulseEvent ev QuantumIncrement s =
     and_then (KeSetEvent ev QuantumIncrement s) (\<lambda>(old, s1). Inr (old, KeClearEvent ev s1))"

text \<open>The part that \<open>KeWaitForSingleObject\<close> and \<open>ExAcquireMutex\<close> share: the current thread is
  queued on the object and the processor goes to another thread.\<close>

definition block_on :: "u32 \<Rightarrow> resume \<Rightarrow> sched \<Rightarrow> stop + sched" where
  "block_on ob res s =
     (let t = CurrentThread s;
          s1 = upd_object ob (\<lambda>h. h\<lparr>WaitListHead := WaitListHead h @ [(t, 0)]\<rparr>) s;
          s2 = upd_thread t (\<lambda>r. r\<lparr>State := THREAD_STATE_WAIT, WaitType := THREAD_WAIT_SCHEDULEROBJECTS_ANY,
                 NumberOfObjectsWaiting := 1\<rparr>) s1
      in PspSwapThread (set_resume res (to_wait_list t s2)))"

definition KeWaitForSingleObject :: "u32 \<Rightarrow> sched \<Rightarrow> stop + sched" where
  "KeWaitForSingleObject ob s =
     and_then (PspLockSchedulerDatabase s) (\<lambda>s1.
       if SignaledState (Objects s1 ob) then Inr (PspUnlockSchedulerDatabase s1)
       else block_on ob ResumeWait s1)"

subsection \<open>Mutexes (ex.cpp)\<close>

text \<open>After initialisation phase 0, in which the mutexes do nothing.\<close>

definition ExInitializeMutex :: "u32 \<Rightarrow> sched \<Rightarrow> sched" where
  "ExInitializeMutex mx = upd_object mx (\<lambda>h. \<lparr>ObjectType = SynchronizationMutex, SignaledState = True, WaitListHead = []\<rparr>)"

definition ExAcquireMutex :: "u32 \<Rightarrow> sched \<Rightarrow> stop + sched" where
  "ExAcquireMutex mx s =
     and_then (PspLockSchedulerDatabase s) (\<lambda>s1.
       if SignaledState (Objects s1 mx)
       then Inr (PspUnlockSchedulerDatabase (upd_object mx (\<lambda>h. h\<lparr>SignaledState := False\<rparr>) s1))
       else block_on mx (ResumeMutex mx) s1)"

definition ExReleaseMutex :: "u32 \<Rightarrow> sched \<Rightarrow> stop + sched" where
  "ExReleaseMutex mx s = and_then (KeSetEvent mx 0 s) (\<lambda>(old, s1). Inr s1)"

subsection \<open>The system as a step relation\<close>

text \<open>
  A step is a call by the running thread, a timer tick, or an interrupt handler that sets an event. The
  thread that \<open>PsExitThread\<close> has unlinked still runs, and its next call is \<open>PsSwapThread\<close>; ticks and events may come
  before it. When such a tick ends the quantum, the thread gets back into the ready list (see
  \<open>exited_thread_runs_again\<close>); the relation lets it make any call then, although the code lets it only swap. \<open>create\<close> takes
  the address of a thread that is in no list, \<open>terminate\<close> a thread that is in one; the memory of threads is not
  reused here. Objects are initialised while no thread waits for them. \<open>PsSwapThread\<close> has no other caller than
  \<open>PsQuantumEnd\<close> and \<open>PsExitThread\<close> and is not exported.
\<close>

definition running :: "sched \<Rightarrow> bool" where
  "running s \<longleftrightarrow> State (Threads s (CurrentThread s)) \<noteq> THREAD_STATE_TERMINATED"

inductive step :: "sched \<Rightarrow> sched \<Rightarrow> bool" where
  timer: "PspSchedulerTimerInterruptDispatcher s = Inr s' \<Longrightarrow> step s s'"
| create: "running s \<Longrightarrow> t \<notin> set (PsReadyList s) \<union> set (PsWaitList s) \<Longrightarrow> t \<noteq> CurrentThread s
    \<Longrightarrow> State (Threads s t) \<noteq> THREAD_STATE_TERMINATED \<Longrightarrow> PspCreateThread t s = Inr s' \<Longrightarrow> step s s'"
| exit_unlink: "running s \<Longrightarrow> PsExitThread_unlink code s = Inr s' \<Longrightarrow> step s s'"
| exit_swap: "\<not> running s \<Longrightarrow> PsSwapThread s = Inr s' \<Longrightarrow> step s s'"
| delay: "running s \<Longrightarrow> PsDelayThreadExecution n s = Inr s' \<Longrightarrow> step s s'"
| init_event: "WaitListHead (Objects s ev) = [] \<Longrightarrow> step s (KeInitializeEvent ev type' b s)"
| init_mutex: "WaitListHead (Objects s mx) = [] \<Longrightarrow> step s (ExInitializeMutex mx s)"
| set_event: "KeSetEvent ev inc s = Inr (old, s') \<Longrightarrow> step s s'"
| pulse_event: "KePulseEvent ev inc s = Inr (old, s') \<Longrightarrow> step s s'"
| clear_event: "step s (KeClearEvent ev s)"
| wait: "running s \<Longrightarrow> KeWaitForSingleObject ob s = Inr s' \<Longrightarrow> step s s'"
| acquire: "running s \<Longrightarrow> ExAcquireMutex mx s = Inr s' \<Longrightarrow> step s s'"
| release: "running s \<Longrightarrow> ExReleaseMutex mx s = Inr s' \<Longrightarrow> step s s'"

text \<open>The states that a history reaches, with the number of calls of \<open>PsTerminateThread\<close> in it.\<close>

inductive reachable :: "sched \<Rightarrow> nat \<Rightarrow> sched \<Rightarrow> bool" for s0 :: sched where
  init: "reachable s0 0 s0"
| more: "reachable s0 k s \<Longrightarrow> step s s' \<Longrightarrow> reachable s0 k s'"
| terminate: "reachable s0 k s \<Longrightarrow> running s \<Longrightarrow> t \<in> set (PsReadyList s) \<union> set (PsWaitList s)
    \<Longrightarrow> PsTerminateThread t code s = Inr s' \<Longrightarrow> reachable s0 (Suc k) s'"

lemmas sched_state_defs =
  upd_thread_def upd_object_def unlink_thread_def unlink_block_def PspUnlockSchedulerDatabase_def
  set_resume_def to_wait_list_def

subsection \<open>The invariant of the scheduler database\<close>

text \<open>The lists are disjoint, and what they hold agrees with the states of the threads and with
  the wait lists of the objects.\<close>

definition lists_ok :: "sched \<Rightarrow> bool" where
  "lists_ok s \<longleftrightarrow> distinct (PsReadyList s @ PsWaitList s) \<and>
     (\<forall>t\<in>set (PsWaitList s). State (Threads s t) = THREAD_STATE_WAIT \<and>
        (WaitType (Threads s t) = THREAD_WAIT_EXECUTIONDELAYED \<or>
         WaitType (Threads s t) = THREAD_WAIT_SCHEDULEROBJECTS_ANY \<and> NumberOfObjectsWaiting (Threads s t) = 1))"

definition blocks_ok :: "sched \<Rightarrow> bool" where
  "blocks_ok s \<longleftrightarrow>
     (\<forall>ob. distinct (WaitListHead (Objects s ob)) \<and>
        (\<forall>(t, i)\<in>set (WaitListHead (Objects s ob)). i = 0 \<and> t \<in> set (PsWaitList s) \<and>
           WaitType (Threads s t) = THREAD_WAIT_SCHEDULEROBJECTS_ANY)) \<and>
     (\<forall>t\<in>set (PsWaitList s). WaitType (Threads s t) = THREAD_WAIT_SCHEDULEROBJECTS_ANY \<longrightarrow>
        (\<exists>!ob. (t, 0) \<in> set (WaitListHead (Objects s ob))))"

definition ready_ok :: "sched \<Rightarrow> bool" where
  "ready_ok s \<longleftrightarrow> (\<forall>t\<in>set (PsReadyList s). t \<noteq> CurrentThread s \<longrightarrow> State (Threads s t) = THREAD_STATE_READY)"

definition db_lists :: "sched \<Rightarrow> bool" where
  "db_lists s \<longleftrightarrow> lists_ok s \<and> blocks_ok s \<and> ready_ok s"

definition db_ok :: "sched \<Rightarrow> bool" where
  "db_ok s \<longleftrightarrow> lists_ok s \<and> blocks_ok s \<and> ready_ok s \<and>
     CurrentThread s \<in> set (PsReadyList s) \<and> State (Threads s (CurrentThread s)) = THREAD_STATE_RUNNING"

definition sched_wf :: "sched \<Rightarrow> bool" where
  "sched_wf s \<longleftrightarrow> db_ok s \<and> \<not> SchedulerLock s"

text \<open>Between the two halves of \<open>PsExitThread\<close>.\<close>

definition exiting :: "sched \<Rightarrow> bool" where
  "exiting s \<longleftrightarrow> db_lists s \<and> CurrentThread s \<notin> set (PsReadyList s)
     \<and> State (Threads s (CurrentThread s)) = THREAD_STATE_TERMINATED \<and> \<not> SchedulerLock s"

text \<open>States that differ in the tick counts of delayed threads only.\<close>

definition same_but_ticks :: "sched \<Rightarrow> sched \<Rightarrow> bool" where
  "same_but_ticks s s' \<longleftrightarrow> (\<exists>T. s' = s\<lparr>Threads := T\<rparr> \<and> (\<forall>t. \<exists>n. T t = (Threads s t)\<lparr>DelayedTickCount := n\<rparr>))"

lemma same_but_ticks_refl: "same_but_ticks s s"
proof -
  have "s = s\<lparr>Threads := Threads s\<rparr>" by simp
  moreover have "Threads s t = (Threads s t)\<lparr>DelayedTickCount := DelayedTickCount (Threads s t)\<rparr>" for t by simp
  ultimately show ?thesis unfolding same_but_ticks_def by blast
qed

lemma same_but_ticks_upd:
  "same_but_ticks (upd_thread t (\<lambda>r. r\<lparr>DelayedTickCount := n\<rparr>) s) s' \<Longrightarrow> same_but_ticks s s'"
  by (auto simp: same_but_ticks_def upd_thread_def split: if_splits)

lemma same_but_ticksD:
  assumes "same_but_ticks s s'"
  shows "State (Threads s' t) = State (Threads s t)" "WaitType (Threads s' t) = WaitType (Threads s t)"
    "Quantum (Threads s' t) = Quantum (Threads s t)" "QuantumDynamic (Threads s' t) = QuantumDynamic (Threads s t)"
    "NumberOfObjectsWaiting (Threads s' t) = NumberOfObjectsWaiting (Threads s t)"
    "JustInitialized (Threads s' t) = JustInitialized (Threads s t)" "Resume (Threads s' t) = Resume (Threads s t)"
    "PsReadyList s' = PsReadyList s" "PsWaitList s' = PsWaitList s" "Objects s' = Objects s"
    "CurrentThread s' = CurrentThread s" "SchedulerLock s' = SchedulerLock s"
proof -
  obtain T where T: "s' = s\<lparr>Threads := T\<rparr>" "\<forall>t. \<exists>n. T t = (Threads s t)\<lparr>DelayedTickCount := n\<rparr>"
    using assms by (auto simp: same_but_ticks_def)
  obtain n where "T t = (Threads s t)\<lparr>DelayedTickCount := n\<rparr>" using T(2) by blast
  with T(1) show "State (Threads s' t) = State (Threads s t)" "WaitType (Threads s' t) = WaitType (Threads s t)"
    "Quantum (Threads s' t) = Quantum (Threads s t)" "QuantumDynamic (Threads s' t) = QuantumDynamic (Threads s t)"
    "NumberOfObjectsWaiting (Threads s' t) = NumberOfObjectsWaiting (Threads s t)"
    "JustInitialized (Threads s' t) = JustInitialized (Threads s t)" "Resume (Threads s' t) = Resume (Threads s t)"
    "PsReadyList s' = PsReadyList s" "PsWaitList s' = PsWaitList s" "Objects s' = Objects s"
    "CurrentThread s' = CurrentThread s" "SchedulerLock s' = SchedulerLock s" by simp_all
qed

text \<open>The walk of the wait list never wakes a delayed thread: \<open>PspUnwaitThread\<close> does nothing for it.\<close>

lemma wait_list_loop_ticks:
  "\<forall>t\<in>set ts. State (Threads s t) = THREAD_STATE_WAIT \<Longrightarrow> \<exists>s'. wait_list_loop ts s = Inr s' \<and> same_but_ticks s s'"
proof (induction ts arbitrary: s)
  case Nil
  then show ?case by (simp add: same_but_ticks_refl)
next
  case (Cons t ts)
  let ?s = "upd_thread t (\<lambda>r. r\<lparr>DelayedTickCount := DelayedTickCount (Threads s t) - 1\<rparr>) s"
  have eq: "upd_thread t (\<lambda>r. r\<lparr>DelayedTickCount := DelayedTickCount r - 1\<rparr>) s = ?s"
    by (simp add: upd_thread_def)
  have st: "\<forall>u\<in>set (t # ts). State (Threads ?s u) = THREAD_STATE_WAIT"
    using Cons.prems by (simp add: upd_thread_def)
  show ?case
  proof (cases "WaitType (Threads s t) = THREAD_WAIT_EXECUTIONDELAYED")
    case True
    then have "PspUnwaitThread t 0 ?s = Inr ?s"
      using st by (simp add: PspUnwaitThread_def upd_thread_def)
    then have "wait_list_loop (t # ts) s = wait_list_loop ts ?s"
      using True by (simp add: Let_def eq)
    with Cons.IH [of ?s] st same_but_ticks_upd show ?thesis by fastforce
  qed (use Cons in simp)
qed

lemma PspProcessWaitList_ticks: "lists_ok s \<Longrightarrow> \<exists>s'. PspProcessWaitList s = Inr s' \<and> same_but_ticks s s'"
  unfolding PspProcessWaitList_def by (rule wait_list_loop_ticks) (simp add: lists_ok_def)

lemma find_ready_loop_eq:
  "\<forall>t\<in>set ts. State (Threads s t) = THREAD_STATE_READY
    \<Longrightarrow> find_ready_loop s ts = Inr (find (\<lambda>t. t \<noteq> CurrentThread s) ts)"
  by (induction ts) auto

lemma lists_ok_ticks: "same_but_ticks s s' \<Longrightarrow> lists_ok s' = lists_ok s"
  by (simp add: lists_ok_def same_but_ticksD)

lemma blocks_ok_ticks: "same_but_ticks s s' \<Longrightarrow> blocks_ok s' = blocks_ok s"
  by (simp add: blocks_ok_def same_but_ticksD)

subsection \<open>A context switch keeps the invariant\<close>

text \<open>
  The state in which \<open>PspSwapThread\<close> is called: the current thread is ready, or it has just left
  the ready list.
\<close>

definition leaving :: "sched \<Rightarrow> bool" where
  "leaving s \<longleftrightarrow> lists_ok s \<and> blocks_ok s \<and> ready_ok s \<and> SchedulerLock s \<and>
     (if State (Threads s (CurrentThread s)) = THREAD_STATE_READY then CurrentThread s \<in> set (PsReadyList s)
      else CurrentThread s \<notin> set (PsReadyList s))"

text \<open>The ready list as the switch finds it: a thread that is still ready goes to its end.\<close>

definition requeued :: "sched \<Rightarrow> u32 list" where
  "requeued s = (if State (Threads s (CurrentThread s)) = THREAD_STATE_READY
     then remove1 (CurrentThread s) (PsReadyList s) @ [CurrentThread s] else PsReadyList s)"

text \<open>The thread that runs next.\<close>

definition next_thread :: "sched \<Rightarrow> u32 option" where
  "next_thread s = (case find (\<lambda>t. t \<noteq> CurrentThread s) (PsReadyList s) of
     Some t \<Rightarrow> Some t
   | None \<Rightarrow> if State (Threads s (CurrentThread s)) = THREAD_STATE_READY then Some (CurrentThread s) else None)"

lemma SwapContext_fields:
  "PsReadyList (SwapContext t s) = PsReadyList s" "PsWaitList (SwapContext t s) = PsWaitList s"
  "CurrentThread (SwapContext t s) = t" "\<not> SchedulerLock (SwapContext t s)"
  "State (Threads (SwapContext t s) u) = (if u = t then THREAD_STATE_RUNNING else State (Threads s u))"
  "WaitType (Threads (SwapContext t s) u) = WaitType (Threads s u)"
  "NumberOfObjectsWaiting (Threads (SwapContext t s) u) = NumberOfObjectsWaiting (Threads s u)"
  "WaitListHead (Objects (SwapContext t s) ob) = WaitListHead (Objects s ob)"
  "ObjectType (Objects (SwapContext t s) ob) = ObjectType (Objects s ob)"
  by (simp_all add: SwapContext_def sched_state_defs Let_def split: resume.splits)

lemma find_remove1: "distinct xs \<Longrightarrow> find (\<lambda>t. t \<noteq> c) (remove1 c xs) = find (\<lambda>t. t \<noteq> c) xs"
  by (induction xs) (auto simp: find_None_iff)

lemma find_append: "find P (xs @ ys) = (case find P xs of Some x \<Rightarrow> Some x | None \<Rightarrow> find P ys)"
  by (induction xs) auto

lemma find_Some_in: "find P xs = Some x \<Longrightarrow> x \<in> set xs \<and> P x"
  by (auto simp: find_Some_iff)

lemma PspSwapThread_leaving:
  assumes "leaving s"
  shows "case next_thread s of
      Some t \<Rightarrow> \<exists>s2. PspSwapThread s = Inr (SwapContext t s2) \<and> sched_wf (SwapContext t s2)
        \<and> same_but_ticks (s\<lparr>PsReadyList := requeued s\<rparr>) s2 \<and> t \<in> set (PsReadyList s)
    | None \<Rightarrow> \<exists>e. PspSwapThread s = Inl e"
proof -
  let ?c = "CurrentThread s" and ?s1 = "s\<lparr>PsReadyList := requeued s\<rparr>"
  from assms have lo: "lists_ok s" and bo: "blocks_ok s" and ro: "ready_ok s" and lk: "SchedulerLock s"
    by (auto simp: leaving_def)
  have dist: "distinct (PsReadyList s @ PsWaitList s)" using lo by (simp add: lists_ok_def)
  have wait: "remove1 ?c (PsWaitList s) = PsWaitList s" if "State (Threads s ?c) = THREAD_STATE_READY"
    using lo that by (intro remove1_idem) (auto simp: lists_ok_def)
  have step1: "(if State (Threads s ?c) = THREAD_STATE_READY then PspReadyThread ?c s else Inr s) = Inr ?s1"
    using wait by (auto simp: PspReadyThread_def unlink_thread_def Let_def requeued_def)
  have rset: "set (requeued s) = set (PsReadyList s)" "distinct (requeued s)"
    using dist assms by (auto simp: requeued_def leaving_def set_remove1_eq distinct_remove1)
  have lo1: "lists_ok ?s1" using lo rset by (auto simp: lists_ok_def)
  have bo1: "blocks_ok ?s1" using bo by (simp add: blocks_ok_def)
  from PspProcessWaitList_ticks [OF lo1] obtain s2 where
    s2: "PspProcessWaitList ?s1 = Inr s2" and tk: "same_but_ticks ?s1 s2" by blast
  note t2 = same_but_ticksD [OF tk]
  have rdy: "\<forall>t\<in>set (requeued s). State (Threads s t) = THREAD_STATE_READY"
    using ro rset(1) assms by (auto simp: ready_ok_def leaving_def split: if_splits)
  have find: "find (\<lambda>t. t \<noteq> ?c) (requeued s) = find (\<lambda>t. t \<noteq> ?c) (PsReadyList s)"
    using dist by (simp add: requeued_def find_append find_remove1 split: option.splits)
  have loop: "find_ready_loop s2 (PsReadyList s2) = Inr (find (\<lambda>t. t \<noteq> ?c) (PsReadyList s))"
    using find_ready_loop_eq [of "PsReadyList s2" s2] rdy t2 find by simp
  have wf: "sched_wf (SwapContext t s2)" if "t \<in> set (PsReadyList s)" for t
  proof -
    have "t \<notin> set (PsWaitList s)" using dist that by auto
    then have "lists_ok (SwapContext t s2)" "blocks_ok (SwapContext t s2)"
      using lo1 bo1 t2 by (auto simp: lists_ok_def blocks_ok_def SwapContext_fields)
    moreover have "ready_ok (SwapContext t s2)"
      using rdy rset(1) t2 by (simp add: ready_ok_def SwapContext_fields)
    ultimately show ?thesis using that rset(1) t2 by (simp add: sched_wf_def db_ok_def SwapContext_fields)
  qed
  have swap: "PspSwapThread s = and_then (FindReadyThread s2) (\<lambda>t. Inr (SwapContext t s2))"
    using s2 step1 by (simp add: PspSwapThread_def)
  show ?thesis
  proof (cases "find (\<lambda>t. t \<noteq> ?c) (PsReadyList s)")
    case (Some t)
    then have "t \<in> set (PsReadyList s)" by (simp add: find_Some_in)
    moreover have "PspSwapThread s = Inr (SwapContext t s2)"
      using loop Some swap by (simp add: FindReadyThread_def)
    ultimately show ?thesis using wf tk Some by (auto simp: next_thread_def)
  next
    case None
    show ?thesis
    proof (cases "State (Threads s ?c) = THREAD_STATE_READY")
      case True
      then have "?c \<in> set (PsReadyList s)" using assms by (simp add: leaving_def)
      moreover have "PspSwapThread s = Inr (SwapContext ?c s2)"
        using loop None swap True t2 by (simp add: FindReadyThread_def Let_def)
      ultimately show ?thesis using wf tk None True by (auto simp: next_thread_def)
    next
      case False
      then show ?thesis using loop None swap t2 by (simp add: FindReadyThread_def Let_def next_thread_def)
    qed
  qed
qed

lemma PspSwapThread_wf: "leaving s \<Longrightarrow> PspSwapThread s = Inr s' \<Longrightarrow> sched_wf s'"
  using PspSwapThread_leaving [of s] by (auto split: option.splits)

subsection \<open>Waking threads\<close>

lemma blocks_zero: "blocks_ok s \<Longrightarrow> (t, i) \<in> set (WaitListHead (Objects s ob)) \<Longrightarrow>
    i = 0 \<and> t \<in> set (PsWaitList s) \<and> WaitType (Threads s t) = THREAD_WAIT_SCHEDULEROBJECTS_ANY
    \<and> distinct (WaitListHead (Objects s ob))"
  by (auto simp: blocks_ok_def)

text \<open>What \<open>PspUnwaitThread\<close> does to a thread that waits on an object.\<close>

definition unwaited :: "u32 \<Rightarrow> u16 \<Rightarrow> sched \<Rightarrow> sched" where
  "unwaited t inc s = s\<lparr>PsReadyList := t # PsReadyList s, PsWaitList := remove1 t (PsWaitList s),
     Threads := (Threads s)(t := (Threads s t)\<lparr>State := THREAD_STATE_READY, QuantumDynamic := inc,
       WaitType := THREAD_WAIT_NOTWAITING, NumberOfObjectsWaiting := 0\<rparr>),
     Objects := (\<lambda>ob. (Objects s ob)\<lparr>WaitListHead := remove1 (t, 0) (WaitListHead (Objects s ob))\<rparr>)\<rparr>"

lemma PspUnwaitThread_waiting:
  assumes "lists_ok s" and "t \<in> set (PsWaitList s)" and "WaitType (Threads s t) = THREAD_WAIT_SCHEDULEROBJECTS_ANY"
  shows "PspUnwaitThread t inc s = Inr (unwaited t inc s)"
proof -
  have n: "NumberOfObjectsWaiting (Threads s t) = 1" "State (Threads s t) = THREAD_STATE_WAIT" "t \<notin> set (PsReadyList s)"
    using assms by (auto simp: lists_ok_def)
  then show ?thesis
    using assms(3) by (simp add: PspUnwaitThread_def unwaited_def sched_state_defs Let_def remove1_idem)
qed

lemma unwaited_ok:
  assumes db: "db_lists s" and w: "t \<in> set (PsWaitList s)" and any: "WaitType (Threads s t) = THREAD_WAIT_SCHEDULEROBJECTS_ANY"
  shows "db_lists (unwaited t inc s)"
proof -
  from db have lo: "lists_ok s" and bo: "blocks_ok s" and ro: "ready_ok s" by (auto simp: db_lists_def)
  have d: "distinct (PsReadyList s)" "distinct (PsWaitList s)" "set (PsReadyList s) \<inter> set (PsWaitList s) = {}"
    using lo by (auto simp: lists_ok_def)
  have nr: "t \<notin> set (PsReadyList s)" using d(3) w by auto
  have l: "lists_ok (unwaited t inc s)"
    using lo d nr w by (auto simp: lists_ok_def unwaited_def)
  have b: "blocks_ok (unwaited t inc s)"
    unfolding blocks_ok_def
  proof (intro conjI allI ballI impI)
    fix ob
    have D: "distinct (WaitListHead (Objects s ob))" using bo by (simp add: blocks_ok_def)
    show "distinct (WaitListHead (Objects (unwaited t inc s) ob))" using D by (simp add: unwaited_def)
    fix b assume "b \<in> set (WaitListHead (Objects (unwaited t inc s) ob))"
    then have "b \<in> set (WaitListHead (Objects s ob))" "b \<noteq> (t, 0)" using D by (auto simp: unwaited_def)
    then show "case b of (u, i) \<Rightarrow> i = 0 \<and> u \<in> set (PsWaitList (unwaited t inc s))
        \<and> WaitType (Threads (unwaited t inc s) u) = THREAD_WAIT_SCHEDULEROBJECTS_ANY"
      using blocks_zero [OF bo, of "fst b" "snd b" ob] d(2) by (cases b) (auto simp: unwaited_def)
  next
    fix u assume "u \<in> set (PsWaitList (unwaited t inc s))"
      and "WaitType (Threads (unwaited t inc s) u) = THREAD_WAIT_SCHEDULEROBJECTS_ANY"
    then have u: "u \<in> set (PsWaitList s)" "u \<noteq> t" "WaitType (Threads s u) = THREAD_WAIT_SCHEDULEROBJECTS_ANY"
      using d(2) by (auto simp: unwaited_def)
    then have "\<exists>!ob. (u, 0) \<in> set (WaitListHead (Objects s ob))" using bo by (simp add: blocks_ok_def)
    moreover have "(u, 0) \<in> set (remove1 (t, 0) (WaitListHead (Objects s ob))) \<longleftrightarrow> (u, 0) \<in> set (WaitListHead (Objects s ob))" for ob
      using u(2) by (simp add: in_set_remove1)
    ultimately show "\<exists>!ob. (u, 0) \<in> set (WaitListHead (Objects (unwaited t inc s) ob))"
      by (simp add: unwaited_def)
  qed
  have "ready_ok (unwaited t inc s)" using ro nr by (auto simp: ready_ok_def unwaited_def)
  with l b show ?thesis by (simp add: db_lists_def)
qed

text \<open>The threads that setting an event wakes: the first waiter of a synchronization event, every
  waiter of any other object.\<close>

definition woken :: "header \<Rightarrow> u32 list" where
  "woken h = map fst (if ObjectType h = SynchronizationEvent then take 1 (WaitListHead h) else WaitListHead h)"

lemma set_event_loop_wakes:
  "db_lists s \<Longrightarrow> bs = WaitListHead (Objects s ev) \<Longrightarrow>
     \<exists>s'. set_event_loop ev inc bs s = Inr s' \<and> db_lists s' \<and> SchedulerLock s' = SchedulerLock s
       \<and> CurrentThread s' = CurrentThread s
       \<and> PsReadyList s' = rev (woken (Objects s ev)) @ PsReadyList s
       \<and> SignaledState (Objects s' ev) = SignaledState (Objects s ev)
       \<and> map fst (WaitListHead (Objects s' ev)) = drop (length (woken (Objects s ev))) (map fst bs)
       \<and> (\<forall>t. t \<notin> set (woken (Objects s ev)) \<longrightarrow> Threads s' t = Threads s t)
       \<and> set (PsWaitList s') = set (PsWaitList s) - set (woken (Objects s ev))"
proof (induction bs arbitrary: s)
  case Nil
  then show ?case by (auto simp: woken_def)
next
  case (Cons b bs)
  obtain t i where b: "b = (t, i)" by force
  from Cons.prems have bo: "blocks_ok s" and lo: "lists_ok s" by (auto simp: db_lists_def)
  have "(t, i) \<in> set (WaitListHead (Objects s ev))" using Cons.prems(2) b by (metis list.set_intros(1))
  from blocks_zero [OF bo this] have i: "i = 0" and w: "t \<in> set (PsWaitList s)"
    and any: "WaitType (Threads s t) = THREAD_WAIT_SCHEDULEROBJECTS_ANY" and dis: "distinct (b # bs)"
    using Cons.prems(2) by auto
  have one: "NumberOfObjectsWaiting (Threads s t) = 1" "State (Threads s t) = THREAD_STATE_WAIT"
    using lo w any by (auto simp: lists_ok_def)
  let ?s = "unwaited t inc s"
  note un = PspUnwaitThread_waiting [OF lo w any, of inc] and ok = unwaited_ok [OF Cons.prems(1) w any, of inc]
  have rest: "bs = WaitListHead (Objects ?s ev)"
    using Cons.prems(2) b i by (simp add: unwaited_def flip: Cons.prems(2))
  have type: "ObjectType (Objects ?s ev) = ObjectType (Objects s ev)" by (simp add: unwaited_def)
  have wl: "set (PsWaitList ?s) = set (PsWaitList s) - {t}"
    using lo by (auto simp: unwaited_def lists_ok_def)
  show ?case
  proof (cases "ObjectType (Objects s ev) = SynchronizationEvent")
    case True
    then have "set_event_loop ev inc (b # bs) s = Inr ?s" using un one type b by simp
    moreover have "woken (Objects s ev) = [t]" using True Cons.prems(2) b by (simp add: woken_def flip: Cons.prems(2))
    moreover have "PsReadyList ?s = t # PsReadyList s" "SchedulerLock ?s = SchedulerLock s"
      "CurrentThread ?s = CurrentThread s" "SignaledState (Objects ?s ev) = SignaledState (Objects s ev)"
      "u \<noteq> t \<Longrightarrow> Threads ?s u = Threads s u" for u
      by (simp_all add: unwaited_def)
    moreover have "map fst (WaitListHead (Objects ?s ev)) = drop (length [t]) (map fst (b # bs))"
      using rest by simp
    ultimately show ?thesis
      using ok wl by simp
  next
    case False
    then have lp: "set_event_loop ev inc (b # bs) s = set_event_loop ev inc bs ?s" using un one type b by simp
    have wk: "woken (Objects s ev) = t # woken (Objects ?s ev)"
      using False b type Cons.prems(2) [symmetric] rest [symmetric] by (simp only: woken_def if_False list.map fst_conv)
    from Cons.IH [OF ok rest] obtain s' where s': "set_event_loop ev inc bs ?s = Inr s'" "db_lists s'"
      "SchedulerLock s' = SchedulerLock ?s" "CurrentThread s' = CurrentThread ?s"
      "PsReadyList s' = rev (woken (Objects ?s ev)) @ PsReadyList ?s"
      "SignaledState (Objects s' ev) = SignaledState (Objects ?s ev)"
      "map fst (WaitListHead (Objects s' ev)) = drop (length (woken (Objects ?s ev))) (map fst bs)"
      and fr: "\<forall>u. u \<notin> set (woken (Objects ?s ev)) \<longrightarrow> Threads s' u = Threads ?s u"
      and ws: "set (PsWaitList s') = set (PsWaitList ?s) - set (woken (Objects ?s ev))" by blast
    have un': "SchedulerLock ?s = SchedulerLock s" "CurrentThread ?s = CurrentThread s"
      "PsReadyList ?s = t # PsReadyList s" "SignaledState (Objects ?s ev) = SignaledState (Objects s ev)"
      "u \<noteq> t \<Longrightarrow> Threads ?s u = Threads s u" for u
      by (simp_all add: unwaited_def)
    show ?thesis
      unfolding lp wk using s' un' b
      by (intro exI [of _ s']) (use fr ws wl in auto)
  qed
qed

subsection \<open>Every call keeps the invariant\<close>

lemma db_ok_parts: "db_ok s \<longleftrightarrow> lists_ok s \<and> blocks_ok s \<and> ready_ok s \<and>
    CurrentThread s \<in> set (PsReadyList s) \<and> State (Threads s (CurrentThread s)) = THREAD_STATE_RUNNING"
  by (simp add: db_ok_def)

text \<open>A change of fields that the invariant does not read.\<close>

lemma db_ok_cong:
  assumes "PsReadyList s' = PsReadyList s" "PsWaitList s' = PsWaitList s" "CurrentThread s' = CurrentThread s"
    and "\<And>t. State (Threads s' t) = State (Threads s t) \<and> WaitType (Threads s' t) = WaitType (Threads s t)
      \<and> NumberOfObjectsWaiting (Threads s' t) = NumberOfObjectsWaiting (Threads s t)"
    and "\<And>ob. WaitListHead (Objects s' ob) = WaitListHead (Objects s ob)"
  shows "db_ok s' = db_ok s"
  using assms by (simp add: db_ok_def lists_ok_def blocks_ok_def ready_ok_def)

lemma blocks_ok_cong:
  "PsWaitList s' = PsWaitList s \<Longrightarrow> (\<And>t. WaitType (Threads s' t) = WaitType (Threads s t))
    \<Longrightarrow> (\<And>ob. WaitListHead (Objects s' ob) = WaitListHead (Objects s ob)) \<Longrightarrow> blocks_ok s' = blocks_ok s"
  by (simp add: blocks_ok_def)

lemma lists_okD: "lists_ok s \<Longrightarrow> t \<in> set (PsWaitList s) \<Longrightarrow> State (Threads s t) = THREAD_STATE_WAIT \<and>
    (WaitType (Threads s t) = THREAD_WAIT_EXECUTIONDELAYED \<or>
     WaitType (Threads s t) = THREAD_WAIT_SCHEDULEROBJECTS_ANY \<and> NumberOfObjectsWaiting (Threads s t) = 1)"
  by (simp add: lists_ok_def)

lemma quantum_leaving:
  assumes "db_ok s"
  shows "leaving ((set_resume ResumeSwap (upd_thread (CurrentThread s) (\<lambda>r. r\<lparr>State := THREAD_STATE_READY\<rparr>) s))
    \<lparr>SchedulerLock := True\<rparr>)" (is "leaving ?s")
proof -
  let ?c = "CurrentThread s"
  have f: "PsReadyList ?s = PsReadyList s" "PsWaitList ?s = PsWaitList s" "CurrentThread ?s = ?c" "SchedulerLock ?s"
    "State (Threads ?s t) = (if t = ?c then THREAD_STATE_READY else State (Threads s t))"
    "WaitType (Threads ?s t) = WaitType (Threads s t)" "Objects ?s = Objects s"
    "NumberOfObjectsWaiting (Threads ?s t) = NumberOfObjectsWaiting (Threads s t)" for t
    by (simp_all add: set_resume_def upd_thread_def)
  have p: "lists_ok s" "blocks_ok s" "ready_ok s" "?c \<in> set (PsReadyList s)" "?c \<notin> set (PsWaitList s)"
    using assms by (auto simp: db_ok_def lists_ok_def)
  have "lists_ok ?s" using p(1,5) unfolding lists_ok_def f by (metis (full_types))
  moreover have "blocks_ok ?s" using p(2) blocks_ok_cong [of ?s s] f by simp
  moreover have "ready_ok ?s" using p(3) unfolding ready_ok_def f by simp
  ultimately show ?thesis using p(4) unfolding leaving_def f by simp
qed

text \<open>The current thread leaves the ready list for the wait list, delayed or queued on an object.\<close>

lemma wait_leaving:
  fixes s s' :: sched and ob :: u32
  defines "c \<equiv> CurrentThread s"
  assumes db: "db_ok s"
    and f: "PsReadyList s' = remove1 c (PsReadyList s)" "PsWaitList s' = PsWaitList s @ [c]" "CurrentThread s' = c"
      "SchedulerLock s'" "\<And>t. t \<noteq> c \<Longrightarrow> Threads s' t = Threads s t" "State (Threads s' c) = THREAD_STATE_WAIT"
    and kind: "WaitType (Threads s' c) = THREAD_WAIT_EXECUTIONDELAYED \<and> new = []
      \<or> WaitType (Threads s' c) = THREAD_WAIT_SCHEDULEROBJECTS_ANY \<and> NumberOfObjectsWaiting (Threads s' c) = 1 \<and> new = [(c, 0)]"
    and wl: "\<And>o'. WaitListHead (Objects s' o') = WaitListHead (Objects s o') @ (if o' = ob then new else [])"
  shows "leaving s'"
proof -
  have p: "lists_ok s" "blocks_ok s" "ready_ok s" "c \<in> set (PsReadyList s)" "c \<notin> set (PsWaitList s)"
    "distinct (PsReadyList s)" "distinct (PsWaitList s)" "set (PsReadyList s) \<inter> set (PsWaitList s) = {}"
    using db by (auto simp: db_ok_def lists_ok_def c_def)
  have nb: "(c, i) \<notin> set (WaitListHead (Objects s o'))" for i o'
    using blocks_zero [OF p(2)] p(5) by blast
  have "lists_ok s'"
    unfolding lists_ok_def
  proof (intro conjI ballI)
    show "distinct (PsReadyList s' @ PsWaitList s')" using p f(1,2) by auto
    fix t assume t: "t \<in> set (PsWaitList s')"
    show "State (Threads s' t) = THREAD_STATE_WAIT"
      using t f(2,5,6) lists_okD [OF p(1), of t] by (cases "t = c") auto
    show "WaitType (Threads s' t) = THREAD_WAIT_EXECUTIONDELAYED \<or>
        WaitType (Threads s' t) = THREAD_WAIT_SCHEDULEROBJECTS_ANY \<and> NumberOfObjectsWaiting (Threads s' t) = 1"
      using t f(2,5) kind lists_okD [OF p(1), of t] by (cases "t = c") auto
  qed
  moreover have "blocks_ok s'"
    unfolding blocks_ok_def
  proof (intro conjI allI ballI impI)
    fix o'
    show "distinct (WaitListHead (Objects s' o'))" using p(2) nb kind by (auto simp: wl blocks_ok_def)
    fix b assume b: "b \<in> set (WaitListHead (Objects s' o'))"
    obtain u i where ui: "b = (u, i)" by force
    show "case b of (u, i) \<Rightarrow> i = 0 \<and> u \<in> set (PsWaitList s') \<and> WaitType (Threads s' u) = THREAD_WAIT_SCHEDULEROBJECTS_ANY"
    proof (cases "b \<in> set (WaitListHead (Objects s o'))")
      case True
      then have "i = 0" "u \<in> set (PsWaitList s)" "WaitType (Threads s u) = THREAD_WAIT_SCHEDULEROBJECTS_ANY"
        using blocks_zero [OF p(2)] ui by auto
      moreover have "u \<noteq> c" using calculation(2) p(5) by auto
      ultimately show ?thesis using ui f(2,5) by simp
    next
      case False
      then show ?thesis using b ui kind f(2) by (auto simp: wl split: if_splits)
    qed
  next
    fix u assume u: "u \<in> set (PsWaitList s')" "WaitType (Threads s' u) = THREAD_WAIT_SCHEDULEROBJECTS_ANY"
    show "\<exists>!o'. (u, 0) \<in> set (WaitListHead (Objects s' o'))"
    proof (cases "u = c")
      case True
      then show ?thesis using nb kind u(2) by (auto simp: wl)
    next
      case False
      with u f(2,5) p(2) have "\<exists>!o'. (u, 0) \<in> set (WaitListHead (Objects s o'))" by (simp add: blocks_ok_def)
      moreover have "(u, 0) \<in> set (WaitListHead (Objects s' o')) \<longleftrightarrow> (u, 0) \<in> set (WaitListHead (Objects s o'))" for o'
        using False kind by (auto simp: wl)
      ultimately show ?thesis by simp
    qed
  qed
  moreover have "ready_ok s'" "c \<notin> set (PsReadyList s')"
    using p(3,6) f(1,3,5) by (auto simp: ready_ok_def c_def)
  ultimately show ?thesis using f by (simp add: leaving_def)
qed

lemma not_waiting: "db_ok s \<Longrightarrow> CurrentThread s \<notin> set (PsWaitList s)"
  by (auto simp: db_ok_def lists_ok_def)

lemma delay_leaving:
  assumes "db_ok s" and "SchedulerLock s"
  shows "leaving (set_resume ResumeSwap (to_wait_list (CurrentThread s) (upd_thread (CurrentThread s)
    (\<lambda>r. r\<lparr>State := THREAD_STATE_WAIT, WaitType := THREAD_WAIT_EXECUTIONDELAYED, DelayedTickCount := n\<rparr>) s)))"
  by (rule wait_leaving [OF assms(1), where new = "[]"])
    (use assms(2) not_waiting [OF assms(1)] in \<open>simp_all add: sched_state_defs Let_def remove1_idem\<close>)

lemma block_leaving:
  assumes "db_ok s" and "SchedulerLock s"
  shows "leaving (set_resume res (to_wait_list (CurrentThread s) (upd_thread (CurrentThread s)
    (\<lambda>r. r\<lparr>State := THREAD_STATE_WAIT, WaitType := THREAD_WAIT_SCHEDULEROBJECTS_ANY, NumberOfObjectsWaiting := 1\<rparr>)
    (upd_object ob (\<lambda>h. h\<lparr>WaitListHead := WaitListHead h @ [(CurrentThread s, 0)]\<rparr>) s))))"
  by (rule wait_leaving [OF assms(1), where new = "[(CurrentThread s, 0)]" and ob = ob])
    (use assms(2) not_waiting [OF assms(1)] in \<open>simp_all add: sched_state_defs Let_def remove1_idem\<close>)

text \<open>Ending the current thread.\<close>

lemma exit_exiting:
  assumes "db_ok s"
  shows "exiting ((upd_thread (CurrentThread s) (\<lambda>r. r\<lparr>ExitCode := n, State := THREAD_STATE_TERMINATED\<rparr>)
     (unlink_thread (CurrentThread s) s))\<lparr>SchedulerLock := False\<rparr>)"
    (is "exiting ?s")
proof -
  let ?c = "CurrentThread s"
  have p: "lists_ok s" "blocks_ok s" "ready_ok s" "?c \<in> set (PsReadyList s)" "?c \<notin> set (PsWaitList s)"
    "distinct (PsReadyList s)" "distinct (PsWaitList s)" "set (PsReadyList s) \<inter> set (PsWaitList s) = {}"
    using assms by (auto simp: db_ok_def lists_ok_def)
  have f: "PsReadyList ?s = remove1 ?c (PsReadyList s)" "PsWaitList ?s = PsWaitList s" "CurrentThread ?s = ?c" "\<not> SchedulerLock ?s"
    "State (Threads ?s t) = (if t = ?c then THREAD_STATE_TERMINATED else State (Threads s t))"
    "WaitType (Threads ?s t) = WaitType (Threads s t)" "Objects ?s = Objects s"
    "NumberOfObjectsWaiting (Threads ?s t) = NumberOfObjectsWaiting (Threads s t)" for t
    using p(5) by (simp_all add: sched_state_defs remove1_idem)
  have "lists_ok ?s"
    unfolding lists_ok_def f
  proof (intro conjI ballI)
    show "distinct (remove1 ?c (PsReadyList s) @ PsWaitList s)" using p(6-8) by (auto dest: notin_set_remove1)
    fix t assume "t \<in> set (PsWaitList s)"
    with lists_okD [OF p(1) this] p(5)
    show "(if t = ?c then THREAD_STATE_TERMINATED else State (Threads s t)) = THREAD_STATE_WAIT"
      "WaitType (Threads s t) = THREAD_WAIT_EXECUTIONDELAYED \<or>
       WaitType (Threads s t) = THREAD_WAIT_SCHEDULEROBJECTS_ANY \<and> NumberOfObjectsWaiting (Threads s t) = 1" by auto
  qed
  moreover have "blocks_ok ?s" using p(2) blocks_ok_cong [of ?s s] f by simp
  moreover have "ready_ok ?s" using p(3,6) unfolding ready_ok_def f by auto
  moreover have "?c \<notin> set (remove1 ?c (PsReadyList s))" using p(6) by simp
  ultimately show ?thesis unfolding exiting_def db_lists_def f by simp
qed

lemma exiting_leaving: "exiting s \<Longrightarrow> leaving ((set_resume ResumeSwap s)\<lparr>SchedulerLock := True\<rparr>)"
  using blocks_ok_cong [of "(set_resume ResumeSwap s)\<lparr>SchedulerLock := True\<rparr>" s]
  by (auto simp: exiting_def db_lists_def leaving_def lists_ok_def ready_ok_def set_resume_def upd_thread_def)

subsection \<open>The calls in terms of the switch\<close>

lemma PsQuantumEnd_eq:
  "\<not> SchedulerLock s \<Longrightarrow> PsQuantumEnd s = PspSwapThread ((set_resume ResumeSwap (upd_thread (CurrentThread s)
     (\<lambda>r. r\<lparr>State := THREAD_STATE_READY\<rparr>) s))\<lparr>SchedulerLock := True\<rparr>)"
  by (simp add: PsQuantumEnd_def PsSwapThread_def PspLockSchedulerDatabase_def set_resume_def upd_thread_def)

lemma db_ok_lists: "db_ok s \<longleftrightarrow> db_lists s \<and> CurrentThread s \<in> set (PsReadyList s)
    \<and> State (Threads s (CurrentThread s)) = THREAD_STATE_RUNNING"
  by (auto simp: db_ok_def db_lists_def)

lemma db_ok_lock [simp]: "db_ok (s\<lparr>SchedulerLock := b\<rparr>) = db_ok s"
  by (rule db_ok_cong) simp_all

lemma db_lists_cong:
  assumes "PsReadyList s' = PsReadyList s" "PsWaitList s' = PsWaitList s" "CurrentThread s' = CurrentThread s"
    and "Threads s' = Threads s" and "\<And>ob. WaitListHead (Objects s' ob) = WaitListHead (Objects s ob)"
  shows "db_lists s' = db_lists s"
  using assms by (simp add: db_lists_def lists_ok_def blocks_ok_def ready_ok_def)

lemma db_ok_signal [simp]: "db_ok (upd_object ob (\<lambda>h. h\<lparr>SignaledState := b\<rparr>) s) = db_ok s"
  by (rule db_ok_cong) (simp_all add: upd_object_def)

lemma delay_swap:
  "sched_wf s \<Longrightarrow> \<exists>l. PsDelayThreadExecution n s = PspSwapThread l \<and> leaving l \<and> PsReadyList l = remove1 (CurrentThread s) (PsReadyList s)
     \<and> CurrentThread l = CurrentThread s"
  using delay_leaving [of "s\<lparr>SchedulerLock := True\<rparr>" n]
  by (auto simp: PsDelayThreadExecution_def PspLockSchedulerDatabase_def sched_wf_def Let_def sched_state_defs)

lemma block_swap:
  "db_ok s \<Longrightarrow> SchedulerLock s \<Longrightarrow> \<exists>l. block_on ob r s = PspSwapThread l \<and> leaving l
     \<and> PsReadyList l = remove1 (CurrentThread s) (PsReadyList s) \<and> CurrentThread l = CurrentThread s"
  using block_leaving [of s r ob] by (auto simp: block_on_def Let_def sched_state_defs)

text \<open>Setting an event, in full: in any consistent database, and in particular by the running thread.\<close>

lemma woken_waits: "blocks_ok s \<Longrightarrow> t \<in> set (woken (Objects s ev)) \<Longrightarrow> t \<in> set (PsWaitList s)"
  using blocks_zero [of s t _ ev] by (auto simp: woken_def dest: in_set_takeD split: if_splits)

lemma KeSetEvent_lists:
  assumes "db_lists s" and lk: "\<not> SchedulerLock s"
  shows "\<exists>s'. KeSetEvent ev inc s = Inr (SignaledState (Objects s ev), s') \<and> db_lists s' \<and> \<not> SchedulerLock s'
    \<and> CurrentThread s' = CurrentThread s \<and> SignaledState (Objects s' ev)
    \<and> PsReadyList s' = rev (woken (Objects s ev)) @ PsReadyList s
    \<and> map fst (WaitListHead (Objects s' ev)) = drop (length (woken (Objects s ev))) (map fst (WaitListHead (Objects s ev)))
    \<and> (\<forall>t. t \<notin> set (woken (Objects s ev)) \<longrightarrow> Threads s' t = Threads s t)
    \<and> set (PsWaitList s') = set (PsWaitList s) - set (woken (Objects s ev))"
proof -
  let ?s1 = "s\<lparr>SchedulerLock := True\<rparr>"
  let ?s2 = "upd_object ev (\<lambda>h. h\<lparr>SignaledState := True\<rparr>) ?s1"
  have db: "db_lists ?s2" using assms(1) by (subst db_lists_cong [of _ s]) (simp_all add: upd_object_def)
  have e: "WaitListHead (Objects ?s1 ev) = WaitListHead (Objects ?s2 ev)" "SignaledState (Objects ?s2 ev)"
    "woken (Objects ?s2 ev) = woken (Objects s ev)" "WaitListHead (Objects ?s2 ev) = WaitListHead (Objects s ev)"
    "PsReadyList ?s2 = PsReadyList s" "CurrentThread ?s2 = CurrentThread s" "Threads ?s2 = Threads s" "PsWaitList ?s2 = PsWaitList s"
    by (simp_all add: upd_object_def woken_def)
  from set_event_loop_wakes [OF db e(1), of inc] obtain s' where
    s': "set_event_loop ev inc (WaitListHead (Objects ?s1 ev)) ?s2 = Inr s'" "db_lists s'"
      "CurrentThread s' = CurrentThread s" "PsReadyList s' = rev (woken (Objects s ev)) @ PsReadyList s"
      "SignaledState (Objects s' ev)"
      "map fst (WaitListHead (Objects s' ev)) = drop (length (woken (Objects s ev))) (map fst (WaitListHead (Objects s ev)))"
      "\<forall>t. t \<notin> set (woken (Objects s ev)) \<longrightarrow> Threads s' t = Threads s t"
      "set (PsWaitList s') = set (PsWaitList s) - set (woken (Objects s ev))"
    using e by fastforce
  have "db_lists (PspUnlockSchedulerDatabase s')"
    using s'(2) by (subst db_lists_cong [of _ s']) (simp_all add: PspUnlockSchedulerDatabase_def)
  moreover have "KeSetEvent ev inc s = Inr (SignaledState (Objects s ev), PspUnlockSchedulerDatabase s')"
    using lk s'(1) by (simp add: KeSetEvent_def PspLockSchedulerDatabase_def KiSetEvent_def)
  ultimately show ?thesis using s'(3-) by (auto simp: PspUnlockSchedulerDatabase_def)
qed

lemma KeSetEvent_wakes:
  assumes "sched_wf s"
  shows "\<exists>s'. KeSetEvent ev inc s = Inr (SignaledState (Objects s ev), s') \<and> sched_wf s'
    \<and> CurrentThread s' = CurrentThread s \<and> SignaledState (Objects s' ev)
    \<and> PsReadyList s' = rev (woken (Objects s ev)) @ PsReadyList s
    \<and> map fst (WaitListHead (Objects s' ev)) = drop (length (woken (Objects s ev))) (map fst (WaitListHead (Objects s ev)))
    \<and> (\<forall>t. t \<notin> set (woken (Objects s ev)) \<longrightarrow> Threads s' t = Threads s t)
    \<and> set (PsWaitList s') = set (PsWaitList s) - set (woken (Objects s ev))"
proof -
  have db: "db_lists s" "\<not> SchedulerLock s" and c: "CurrentThread s \<in> set (PsReadyList s)"
    "State (Threads s (CurrentThread s)) = THREAD_STATE_RUNNING"
    using assms by (auto simp: sched_wf_def db_ok_lists)
  have "CurrentThread s \<notin> set (woken (Objects s ev))"
    using woken_waits [of s "CurrentThread s" ev] db(1) c(1) by (auto simp: db_lists_def lists_ok_def)
  with KeSetEvent_lists [OF db, of ev inc] c show ?thesis by (auto simp: sched_wf_def db_ok_lists)
qed

lemma set_exiting:
  assumes e: "exiting s" and run: "KeSetEvent ev inc s = Inr (b, s')"
  shows "exiting s'"
proof -
  let ?c = "CurrentThread s"
  have db: "db_lists s" "\<not> SchedulerLock s" and c: "?c \<notin> set (PsReadyList s)" "State (Threads s ?c) = THREAD_STATE_TERMINATED"
    using e by (auto simp: exiting_def)
  have "?c \<notin> set (woken (Objects s ev))"
    using woken_waits [of s ?c ev] lists_okD [of s ?c] db(1) c(2) by (auto simp: db_lists_def)
  with KeSetEvent_lists [OF db, of ev inc] run c show ?thesis by (auto simp: exiting_def)
qed

lemma db_ok_quantum [simp]: "db_ok (s\<lparr>QuantumLeft := q\<rparr>) = db_ok s"
  by (rule db_ok_cong) simp_all

lemma sched_wf_quantum [simp]: "sched_wf (s\<lparr>QuantumLeft := q\<rparr>) = sched_wf s"
  by (simp add: sched_wf_def)

lemma sched_wf_signal: "sched_wf s \<Longrightarrow> sched_wf (upd_object ob (\<lambda>h. h\<lparr>SignaledState := b\<rparr>) s)"
  by (simp add: sched_wf_def) (simp add: upd_object_def)

lemma sched_wf_unlocked: "sched_wf s \<Longrightarrow> PspLockSchedulerDatabase s = Inr (s\<lparr>SchedulerLock := True\<rparr>)"
  by (simp add: sched_wf_def PspLockSchedulerDatabase_def)

lemma quantum_wf: "sched_wf s \<Longrightarrow> PsQuantumEnd s = Inr s' \<Longrightarrow> sched_wf s'"
  using PsQuantumEnd_eq [of s] quantum_leaving [of s] PspSwapThread_wf by (auto simp: sched_wf_def)

lemma timer_wf:
  assumes "sched_wf s" and "PspSchedulerTimerInterruptDispatcher s = Inr s'"
  shows "sched_wf s'"
proof (cases "QuantumLeft s - 1 = 0")
  case True
  with assms quantum_wf [of "s\<lparr>QuantumLeft := QuantumLeft s - 1\<rparr>" s'] show ?thesis
    by (simp add: PspSchedulerTimerInterruptDispatcher_def)
next
  case False
  then have "s' = s\<lparr>QuantumLeft := QuantumLeft s - 1\<rparr>"
    using assms(2) by (simp add: PspSchedulerTimerInterruptDispatcher_def)
  with assms(1) show ?thesis by simp
qed

lemma create_wf:
  assumes wf: "sched_wf s" and new: "t \<notin> set (PsReadyList s) \<union> set (PsWaitList s)" "t \<noteq> CurrentThread s"
    and run: "PspCreateThread t s = Inr s'"
  shows "sched_wf s' \<and> PsReadyList s' = t # PsReadyList s"
proof -
  have p: "lists_ok s" "blocks_ok s" "ready_ok s" "CurrentThread s \<in> set (PsReadyList s)"
    "State (Threads s (CurrentThread s)) = THREAD_STATE_RUNNING" "\<not> SchedulerLock s"
    using wf by (auto simp: sched_wf_def db_ok_def)
  have f: "PsReadyList s' = t # PsReadyList s" "PsWaitList s' = PsWaitList s" "CurrentThread s' = CurrentThread s"
    "\<not> SchedulerLock s'" "Objects s' = Objects s" "u \<noteq> t \<Longrightarrow> Threads s' u = Threads s u"
    "State (Threads s' t) = THREAD_STATE_READY" for u
    using run p(6) by (auto simp: PspCreateThread_def PspLockSchedulerDatabase_def PspUnlockSchedulerDatabase_def Let_def)
  have w: "u \<in> set (PsWaitList s) \<Longrightarrow> Threads s' u = Threads s u" for u
    using f(6) [of u] new(1) by auto
  have "lists_ok s'" using p(1) f(1,2) w new(1) by (auto simp: lists_ok_def)
  moreover have "blocks_ok s'"
    using p(2) w unfolding blocks_ok_def f(2,5) by (auto split: prod.splits)
  moreover have "ready_ok s'" using p(3) f by (auto simp: ready_ok_def) metis
  ultimately show ?thesis using p(4,5) f new(2) by (auto simp: sched_wf_def db_ok_def)
qed

lemma exit_unlink_exiting: "sched_wf s \<Longrightarrow> PsExitThread_unlink n s = Inr s' \<Longrightarrow> exiting s'"
  using exit_exiting [of s n]
  by (simp add: sched_wf_def PsExitThread_unlink_def PspLockSchedulerDatabase_def sched_state_defs Let_def)

lemma exit_swap_eq: "exiting s \<Longrightarrow> PsSwapThread s = PspSwapThread ((set_resume ResumeSwap s)\<lparr>SchedulerLock := True\<rparr>)"
  by (simp add: PsSwapThread_def PspLockSchedulerDatabase_def exiting_def set_resume_def upd_thread_def)

lemma exit_swap_wf: "exiting s \<Longrightarrow> PsSwapThread s = Inr s' \<Longrightarrow> sched_wf s'"
  using PspSwapThread_wf [OF exiting_leaving] by (simp add: exit_swap_eq)

lemma delay_wf: "sched_wf s \<Longrightarrow> PsDelayThreadExecution n s = Inr s' \<Longrightarrow> sched_wf s'"
  using delay_swap [of s n] PspSwapThread_wf by force

lemma block_wf: "sched_wf s \<Longrightarrow> block_on ob r (s\<lparr>SchedulerLock := True\<rparr>) = Inr s' \<Longrightarrow> sched_wf s'"
  using block_swap [of "s\<lparr>SchedulerLock := True\<rparr>" ob r] PspSwapThread_wf by (force simp: sched_wf_def)

lemma unlock_lock: "sched_wf s \<Longrightarrow> PspUnlockSchedulerDatabase (s\<lparr>SchedulerLock := True\<rparr>) = s"
  by (simp add: PspUnlockSchedulerDatabase_def sched_wf_def)

lemma wait_wf:
  assumes "sched_wf s" and "KeWaitForSingleObject ob s = Inr s'"
  shows "sched_wf s'"
proof (cases "SignaledState (Objects s ob)")
  case True
  with assms have "s' = s" by (simp add: KeWaitForSingleObject_def sched_wf_unlocked unlock_lock)
  with assms(1) show ?thesis by simp
next
  case False
  then show ?thesis using assms by (auto simp: KeWaitForSingleObject_def sched_wf_unlocked intro: block_wf)
qed

lemma acquire_free:
  "sched_wf s \<Longrightarrow> SignaledState (Objects s mx) \<Longrightarrow> ExAcquireMutex mx s = Inr (upd_object mx (\<lambda>h. h\<lparr>SignaledState := False\<rparr>) s)"
  by (simp add: ExAcquireMutex_def PspLockSchedulerDatabase_def PspUnlockSchedulerDatabase_def sched_wf_def upd_object_def)

lemma acquire_wf:
  assumes "sched_wf s" and "ExAcquireMutex mx s = Inr s'"
  shows "sched_wf s'"
proof (cases "SignaledState (Objects s mx)")
  case True
  with assms acquire_free have "s' = upd_object mx (\<lambda>h. h\<lparr>SignaledState := False\<rparr>) s" by simp
  with assms(1) sched_wf_signal show ?thesis by simp
next
  case False
  then show ?thesis using assms by (auto simp: ExAcquireMutex_def sched_wf_unlocked intro: block_wf)
qed

lemma clear_wf: "sched_wf s \<Longrightarrow> sched_wf (KeClearEvent ev s)"
  by (simp add: KeClearEvent_def sched_wf_signal)

lemma set_wf: "sched_wf s \<Longrightarrow> KeSetEvent ev inc s = Inr (b, s') \<Longrightarrow> sched_wf s'"
  using KeSetEvent_wakes [of s ev inc] by auto

lemma db_ok_init: "WaitListHead (Objects s ob) = [] \<Longrightarrow> WaitListHead h = []
    \<Longrightarrow> db_lists (s\<lparr>Objects := (Objects s)(ob := h)\<rparr>) = db_lists s"
  by (rule db_lists_cong) simp_all

lemma init_ok:
  assumes "WaitListHead (Objects s ob) = []" and "sched_wf s \<or> exiting s"
  shows "sched_wf (KeInitializeEvent ob ty b s) \<or> exiting (KeInitializeEvent ob ty b s)"
    "sched_wf (ExInitializeMutex ob s) \<or> exiting (ExInitializeMutex ob s)"
  using assms db_ok_init [OF assms(1)]
  by (auto simp: KeInitializeEvent_def ExInitializeMutex_def upd_object_def sched_wf_def db_ok_lists exiting_def)

lemma clear_ok: "sched_wf s \<or> exiting s \<Longrightarrow> sched_wf (KeClearEvent ev s) \<or> exiting (KeClearEvent ev s)"
  using clear_wf [of s ev] db_lists_cong [of "KeClearEvent ev s" s]
  by (auto simp: exiting_def KeClearEvent_def upd_object_def)

lemma running_wf: "sched_wf s \<or> exiting s \<Longrightarrow> running s \<Longrightarrow> sched_wf s"
  "sched_wf s \<or> exiting s \<Longrightarrow> \<not> running s \<Longrightarrow> exiting s"
  by (auto simp: running_def exiting_def sched_wf_def db_ok_def)

text \<open>A quantum end between the two halves of \<open>PsExitThread\<close> puts the thread that exits back into the ready list.\<close>

lemma quantum_end_in_exit:
  assumes "exiting s"
  obtains m where "PsQuantumEnd s = PspSwapThread m" and "leaving m" and "PsReadyList m = PsReadyList s @ [CurrentThread s]"
    and "PsWaitList m = PsWaitList s" and "CurrentThread m = CurrentThread s" and "\<forall>t. WaitType (Threads m t) = WaitType (Threads s t)"
    and "State (Threads m (CurrentThread s)) = THREAD_STATE_READY"
proof -
  let ?c = "CurrentThread s"
  define l where "l = (set_resume ResumeSwap (upd_thread ?c (\<lambda>r. r\<lparr>State := THREAD_STATE_READY\<rparr>) s))\<lparr>SchedulerLock := True\<rparr>"
  define m where "m = l\<lparr>PsReadyList := PsReadyList s @ [?c]\<rparr>"
  have e: "\<not> SchedulerLock s" "?c \<notin> set (PsReadyList s)" "db_lists s" using assms by (simp_all add: exiting_def)
  have w: "?c \<notin> set (PsWaitList s)" using assms lists_okD [of s ?c] by (auto simp: exiting_def db_lists_def)
  have f: "PsReadyList m = PsReadyList s @ [?c]" "PsWaitList m = PsWaitList s" "CurrentThread m = ?c" "SchedulerLock m"
    "State (Threads m t) = (if t = ?c then THREAD_STATE_READY else State (Threads s t))"
    "WaitType (Threads m t) = WaitType (Threads s t)" "Objects m = Objects s"
    "NumberOfObjectsWaiting (Threads m t) = NumberOfObjectsWaiting (Threads s t)" for t
    by (simp_all add: m_def l_def set_resume_def upd_thread_def)
  have "lists_ok m" using e(2,3) w unfolding db_lists_def lists_ok_def f by auto
  moreover have "blocks_ok m" using e(3) blocks_ok_cong [of m s] f by (simp add: db_lists_def)
  moreover have "ready_ok m" using e(3) unfolding ready_ok_def f db_lists_def by auto
  ultimately have lv: "leaving m" by (simp add: leaving_def f)
  have sw: "PspSwapThread l = PspSwapThread m"
    using e(2) w by (simp add: PspSwapThread_def PspReadyThread_def unlink_thread_def m_def l_def set_resume_def upd_thread_def remove1_append remove1_idem Let_def)
  have "PsQuantumEnd s = PspSwapThread m" unfolding sw [symmetric] l_def by (rule PsQuantumEnd_eq [OF e(1)])
  then show thesis using lv f by (intro that [of m]) auto
qed

lemma quantum_end_in_exit_wf: "exiting s \<Longrightarrow> PsQuantumEnd s = Inr s' \<Longrightarrow> sched_wf s'"
  by (elim quantum_end_in_exit) (simp add: PspSwapThread_wf)

lemma timer_ok:
  assumes "sched_wf s \<or> exiting s" and "PspSchedulerTimerInterruptDispatcher s = Inr s'"
  shows "sched_wf s' \<or> exiting s'"
proof (cases "exiting s")
  case False
  then show ?thesis using timer_wf assms by blast
next
  case True
  let ?s = "s\<lparr>QuantumLeft := QuantumLeft s - 1\<rparr>"
  have "db_lists ?s = db_lists s" by (rule db_lists_cong) simp_all
  with True have e: "exiting ?s" by (simp add: exiting_def)
  show ?thesis using assms(2) e quantum_end_in_exit_wf [OF e] by (auto simp: PspSchedulerTimerInterruptDispatcher_def Let_def split: if_splits)
qed

lemma step_wf: "step s s' \<Longrightarrow> sched_wf s \<or> exiting s \<Longrightarrow> sched_wf s' \<or> exiting s'"
proof (induction rule: step.induct)
  case (timer s s')
  then show ?case using timer_ok by blast
next
  case (create s t s')
  then show ?case using create_wf running_wf by blast
next
  case (init_event s ev ty b)
  then show ?case using init_ok(1) by blast
next
  case (init_mutex s mx)
  then show ?case using init_ok(2) by blast
next
  case (set_event ev inc s old s')
  then show ?case using set_wf set_exiting by blast
next
  case (pulse_event ev inc s old s')
  then obtain s1 where "KeSetEvent ev inc s = Inr (old, s1)" "s' = KeClearEvent ev s1"
    by (auto simp: KePulseEvent_def and_then_def split: sum.splits)
  with pulse_event.prems set_wf set_exiting clear_ok show ?case by blast
next
  case (release s mx s')
  then obtain old where "KeSetEvent mx 0 s = Inr (old, s')"
    by (auto simp: ExReleaseMutex_def and_then_def split: sum.splits)
  with release.prems set_wf set_exiting show ?case by blast
qed (use clear_ok running_wf exit_unlink_exiting exit_swap_wf delay_wf wait_wf acquire_wf in blast)+

text \<open>After \<open>PsTerminateThread\<close> the lock stays taken: nothing that needs it succeeds again.\<close>

lemma locked_step:
  "step s s' \<Longrightarrow> SchedulerLock s \<Longrightarrow> SchedulerLock s' \<and> CurrentThread s' = CurrentThread s"
  by (induction rule: step.induct)
    (auto simp: PspSchedulerTimerInterruptDispatcher_def PsQuantumEnd_def PsSwapThread_def PspCreateThread_def PsExitThread_unlink_def
      PsDelayThreadExecution_def KeSetEvent_def KePulseEvent_def KeClearEvent_def KeWaitForSingleObject_def ExAcquireMutex_def
      ExReleaseMutex_def KeInitializeEvent_def ExInitializeMutex_def PspLockSchedulerDatabase_def set_resume_def upd_thread_def
      upd_object_def Let_def split: if_splits)

lemma terminate_locks:
  "PsTerminateThread t code s = Inr s' \<Longrightarrow> \<not> SchedulerLock s \<and> SchedulerLock s' \<and> CurrentThread s' = CurrentThread s"
  by (auto simp: PsTerminateThread_def PspLockSchedulerDatabase_def upd_thread_def unlink_thread_def split: if_splits)


subsection \<open>Quantum ends\<close>

lemma quantum_runs:
  assumes "sched_wf s"
  defines "c \<equiv> CurrentThread s"
  shows "\<exists>s'. PsQuantumEnd s = Inr s' \<and> sched_wf s' \<and> PsReadyList s' = remove1 c (PsReadyList s) @ [c]
    \<and> CurrentThread s' = hd (remove1 c (PsReadyList s) @ [c])
    \<and> PsWaitList s' = PsWaitList s \<and> (\<forall>t. Resume (Threads s' t) = (if t = c then ResumeSwap else Resume (Threads s t)))
    \<and> (\<forall>ob. WaitListHead (Objects s' ob) = WaitListHead (Objects s ob))
    \<and> (\<forall>t. WaitType (Threads s' t) = WaitType (Threads s t))
    \<and> (\<forall>t. JustInitialized (Threads s t) = False \<longrightarrow> JustInitialized (Threads s' t) = False)
    \<and> (\<forall>mx. CurrentThread s' \<noteq> c \<and> JustInitialized (Threads s (CurrentThread s')) = False
         \<and> Resume (Threads s (CurrentThread s')) = ResumeMutex mx \<longrightarrow> SignaledState (Objects s' mx) = False)"
proof -
  define l where
    "l = (set_resume ResumeSwap (upd_thread c (\<lambda>r. r\<lparr>State := THREAD_STATE_READY\<rparr>) s))\<lparr>SchedulerLock := True\<rparr>"
  have wf: "db_ok s" "\<not> SchedulerLock s" "distinct (PsReadyList s)" "c \<in> set (PsReadyList s)"
    using assms(1) by (auto simp: sched_wf_def db_ok_def lists_ok_def c_def)
  have f: "PsReadyList l = PsReadyList s" "PsWaitList l = PsWaitList s" "CurrentThread l = c"
    "State (Threads l c) = THREAD_STATE_READY" "WaitType (Threads l t) = WaitType (Threads s t)" "Objects l = Objects s"
    "Resume (Threads l t) = (if t = c then ResumeSwap else Resume (Threads s t))"
    "JustInitialized (Threads l t) = JustInitialized (Threads s t)" for t
    by (simp_all add: l_def set_resume_def upd_thread_def c_def)
  have nt: "next_thread l = Some (hd (remove1 c (PsReadyList s) @ [c]))"
  proof -
    have fd: "find (\<lambda>t. t \<noteq> c) xs = (case xs of [] \<Rightarrow> None | x # _ \<Rightarrow> Some x)" if "c \<notin> set xs" for xs
      using that by (cases xs) auto
    have "c \<notin> set (remove1 c (PsReadyList s))" using wf(3) by simp
    from fd [OF this] find_remove1 [OF wf(3), of c]
    have "find (\<lambda>t. t \<noteq> c) (PsReadyList s) = (case remove1 c (PsReadyList s) of [] \<Rightarrow> None | x # _ \<Rightarrow> Some x)" by simp
    then show ?thesis unfolding next_thread_def f by (simp split: list.splits)
  qed
  have "leaving l" using quantum_leaving [OF wf(1)] unfolding l_def c_def .
  from PspSwapThread_leaving [OF this] nt obtain s2 where
    s2: "PspSwapThread l = Inr (SwapContext (hd (remove1 c (PsReadyList s) @ [c])) s2)"
      "sched_wf (SwapContext (hd (remove1 c (PsReadyList s) @ [c])) s2)"
      "same_but_ticks (l\<lparr>PsReadyList := requeued l\<rparr>) s2" by auto
  have rq: "requeued l = remove1 c (PsReadyList s) @ [c]" unfolding requeued_def f by simp
  have rs: "Resume (Threads (SwapContext t s2) u) = Resume (Threads s2 u)" for t u
    by (simp add: SwapContext_def sched_state_defs Let_def split: resume.splits)
  have js: "JustInitialized (Threads s2 u) = False \<Longrightarrow> JustInitialized (Threads (SwapContext t s2) u) = False" for t u
    by (simp add: SwapContext_def sched_state_defs Let_def split: resume.splits)
  have mx: "JustInitialized (Threads s2 t) = False \<Longrightarrow> Resume (Threads s2 t) = ResumeMutex mx
      \<Longrightarrow> SignaledState (Objects (SwapContext t s2) mx) = False" for t mx
    by (simp add: SwapContext_def sched_state_defs Let_def)
  have q: "PsQuantumEnd s = PspSwapThread l" unfolding l_def c_def by (rule PsQuantumEnd_eq [OF wf(2)])
  from same_but_ticksD [OF s2(3)] have g: "PsReadyList s2 = remove1 c (PsReadyList s) @ [c]" "PsWaitList s2 = PsWaitList s"
    "Objects s2 = Objects s" "WaitType (Threads s2 t) = WaitType (Threads s t)"
    "Resume (Threads s2 t) = (if t = c then ResumeSwap else Resume (Threads s t))"
    "JustInitialized (Threads s2 t) = JustInitialized (Threads s t)" for t
    by (simp_all add: f rq)
  show ?thesis
    unfolding q s2(1)
    by (intro exI [of _ "SwapContext (hd (remove1 c (PsReadyList s) @ [c])) s2"] conjI refl s2(2) allI impI)
      (simp_all add: SwapContext_fields rs g js mx)
qed

text \<open>Several quantum ends in a row.\<close>

fun quantum_ends :: "nat \<Rightarrow> sched \<Rightarrow> stop + sched" where
  "quantum_ends 0 s = Inr s"
| "quantum_ends (Suc k) s = and_then (PsQuantumEnd s) (quantum_ends k)"

lemma quantum_ends_rotate:
  "sched_wf s \<Longrightarrow> PsReadyList s = CurrentThread s # rs \<Longrightarrow>
     \<exists>s'. quantum_ends k s = Inr s' \<and> sched_wf s' \<and> PsReadyList s' = rotate k (PsReadyList s)
       \<and> CurrentThread s' = hd (PsReadyList s')"
proof (induction k arbitrary: s rs)
  case 0
  then show ?case by simp
next
  case (Suc k)
  from quantum_runs [OF Suc.prems(1)] Suc.prems(2) obtain s1 where
    s1: "PsQuantumEnd s = Inr s1" "sched_wf s1" "PsReadyList s1 = rs @ [CurrentThread s]"
      "CurrentThread s1 = hd (rs @ [CurrentThread s])" by auto
  obtain rs1 where "PsReadyList s1 = CurrentThread s1 # rs1" using s1(3,4) by (cases rs) auto
  from Suc.IH [OF s1(2) this] obtain s' where
    s': "quantum_ends k s1 = Inr s'" "sched_wf s'" "PsReadyList s' = rotate k (PsReadyList s1)"
      "CurrentThread s' = hd (PsReadyList s')" by blast
  have "PsReadyList s1 = rotate1 (PsReadyList s)" using s1(3) Suc.prems(2) by simp
  then have "PsReadyList s' = rotate (Suc k) (PsReadyList s)" using s'(3) by (simp add: rotate1_rotate_swap)
  moreover have "quantum_ends (Suc k) s = Inr s'" using s1(1) s'(1) by simp
  ultimately show ?case using s'(2,4) by blast
qed

text \<open>C26: Round robin: after the running thread went to the end of the ready list, every quantum end
  rotates the list and runs its head, so that each of n ready threads runs again after n of them.\<close>

theorem quantum_ends_round_robin:
  assumes "sched_wf s"
  defines "ready \<equiv> remove1 (CurrentThread s) (PsReadyList s) @ [CurrentThread s]"
  shows "\<exists>s'. quantum_ends (Suc k) s = Inr s' \<and> PsReadyList s' = rotate k ready
    \<and> CurrentThread s' = ready ! (k mod length ready) \<and> State (Threads s' (CurrentThread s')) = THREAD_STATE_RUNNING"
proof -
  from quantum_runs [OF assms(1)] obtain s1 where
    s1: "PsQuantumEnd s = Inr s1" "sched_wf s1" "PsReadyList s1 = ready" "CurrentThread s1 = hd ready"
    by (auto simp: ready_def)
  have ne: "ready \<noteq> []" by (simp add: ready_def)
  then have "PsReadyList s1 = CurrentThread s1 # tl ready" using s1 by simp
  from quantum_ends_rotate [OF s1(2) this, of k] s1(1,3) ne show ?thesis
    by (auto simp: hd_rotate_conv_nth sched_wf_def db_ok_def)
qed

text \<open>C27: Setting an event wakes the first waiter of a synchronization event and every waiter of a
  notification event, puts them in front of the ready list in reverse order, leaves the other threads
  alone, and the last of them runs when the quantum ends.\<close>

theorem set_event_wakes_waiters:
  fixes s :: sched and ev :: u32
  assumes "sched_wf s"
  defines "ws \<equiv> woken (Objects s ev)"
  shows "\<exists>s'. KeSetEvent ev inc s = Inr (SignaledState (Objects s ev), s')
    \<and> SignaledState (Objects s' ev) \<and> CurrentThread s' = CurrentThread s
    \<and> PsReadyList s' = rev ws @ PsReadyList s \<and> set (PsWaitList s') = set (PsWaitList s) - set ws
    \<and> map fst (WaitListHead (Objects s' ev)) = drop (length ws) (map fst (WaitListHead (Objects s ev)))
    \<and> (\<forall>t. t \<notin> set ws \<longrightarrow> Threads s' t = Threads s t)
    \<and> (ws \<noteq> [] \<longrightarrow> (\<exists>s''. PsQuantumEnd s' = Inr s'' \<and> CurrentThread s'' = last ws))"
proof -
  from KeSetEvent_wakes [OF assms(1), of ev inc] obtain s' where
    s': "KeSetEvent ev inc s = Inr (SignaledState (Objects s ev), s')" "sched_wf s'" "CurrentThread s' = CurrentThread s"
      "SignaledState (Objects s' ev)" "PsReadyList s' = rev ws @ PsReadyList s"
      "map fst (WaitListHead (Objects s' ev)) = drop (length ws) (map fst (WaitListHead (Objects s ev)))"
      "\<forall>t. t \<notin> set ws \<longrightarrow> Threads s' t = Threads s t" "set (PsWaitList s') = set (PsWaitList s) - set ws"
    unfolding ws_def by blast
  have "\<exists>s''. PsQuantumEnd s' = Inr s'' \<and> CurrentThread s'' = last ws" if "ws \<noteq> []"
  proof -
    have "ws = butlast ws @ [last ws]" using that by simp
    then obtain w us where w: "ws = us @ [w]" ..
    have "distinct (PsReadyList s')" "CurrentThread s \<in> set (PsReadyList s)"
      using s'(2) assms(1) by (auto simp: sched_wf_def db_ok_def lists_ok_def)
    then have "w \<noteq> CurrentThread s" using s'(5) w by auto
    then show ?thesis using quantum_runs [OF s'(2)] s'(3,5) w by auto
  qed
  then have "ws \<noteq> [] \<longrightarrow> (\<exists>s''. PsQuantumEnd s' = Inr s'' \<and> CurrentThread s'' = last ws)" by (rule impI)
  with s' show ?thesis by (intro exI [of _ s'] conjI) assumption+
qed

subsection \<open>Which calls come back\<close>

lemma find_other:
  "(find (\<lambda>t. t \<noteq> c) (remove1 c xs) = None) = (\<forall>t\<in>set (remove1 c xs). t = c)"
  by (auto simp: find_None_iff)

lemma sched_wf_lists:
  "sched_wf s \<Longrightarrow> distinct (PsReadyList s) \<and> distinct (PsWaitList s) \<and> set (PsReadyList s) \<inter> set (PsWaitList s) = {}
     \<and> CurrentThread s \<in> set (PsReadyList s)"
  by (simp add: sched_wf_def db_ok_def lists_ok_def)

lemma leaving_returns:
  assumes "leaving l" "PsReadyList l = remove1 c ts" "CurrentThread l = c" "distinct ts"
  shows "(\<exists>s'. PspSwapThread l = Inr s') \<longleftrightarrow> (\<exists>t\<in>set ts. t \<noteq> c)"
proof -
  have "c \<notin> set (PsReadyList l)" using assms(2,4) by simp
  then have n: "next_thread l = find (\<lambda>t. t \<noteq> c) (PsReadyList l)"
    using assms(1,3) by (auto simp: next_thread_def leaving_def split: option.splits if_splits)
  have "next_thread l \<noteq> None \<longleftrightarrow> (\<exists>t\<in>set ts. t \<noteq> c)"
    unfolding n assms(2) using find_other [of c ts] assms(4) by auto
  moreover have "(\<exists>s'. PspSwapThread l = Inr s') \<longleftrightarrow> next_thread l \<noteq> None"
    using PspSwapThread_leaving [OF assms(1)] by (auto split: option.splits)
  ultimately show ?thesis by simp
qed

lemma block_returns:
  assumes "sched_wf s"
  shows "(\<exists>s'. block_on ob r (s\<lparr>SchedulerLock := True\<rparr>) = Inr s') \<longleftrightarrow> (\<exists>t\<in>set (PsReadyList s). t \<noteq> CurrentThread s)"
proof -
  let ?s = "s\<lparr>SchedulerLock := True\<rparr>" and ?c = "CurrentThread s"
  have wf: "db_ok ?s" "SchedulerLock ?s" "distinct (PsReadyList s)"
    using assms sched_wf_lists by (simp_all add: sched_wf_def)
  from block_swap [OF wf(1,2)] obtain l where
    l: "block_on ob r ?s = PspSwapThread l" "leaving l" "PsReadyList l = remove1 ?c (PsReadyList s)" "CurrentThread l = ?c"
    by auto
  show ?thesis using leaving_returns [OF l(2-4) wf(3)] l(1) by simp
qed

lemma delay_returns:
  assumes "sched_wf s"
  shows "(\<exists>s'. PsDelayThreadExecution n s = Inr s') \<longleftrightarrow> (\<exists>t\<in>set (PsReadyList s). t \<noteq> CurrentThread s)"
proof -
  let ?c = "CurrentThread s"
  have wf: "distinct (PsReadyList s)" using sched_wf_lists [OF assms] by simp
  from delay_swap [OF assms] obtain l where
    l: "PsDelayThreadExecution n s = PspSwapThread l" "leaving l" "PsReadyList l = remove1 ?c (PsReadyList s)" "CurrentThread l = ?c"
    by blast
  show ?thesis using leaving_returns [OF l(2)] l wf by simp
qed

lemma exit_returns:
  assumes "sched_wf s"
  shows "if \<exists>t\<in>set (PsReadyList s). t \<noteq> CurrentThread s then \<exists>s'. PsExitThread n s = Inr s' else PsExitThread n s = Inl SystemHalted"
proof -
  let ?c = "CurrentThread s"
  have wf: "distinct (PsReadyList s)" "\<not> SchedulerLock s" "lists_ok s" "?c \<in> set (PsReadyList s)"
    using assms by (auto simp: sched_wf_def db_ok_def lists_ok_def)
  obtain s1 where s1: "PsExitThread_unlink n s = Inr s1" "PsReadyList s1 = remove1 ?c (PsReadyList s)" "CurrentThread s1 = ?c"
    using wf(2) by (simp add: PsExitThread_unlink_def PspLockSchedulerDatabase_def sched_state_defs Let_def)
  have e: "exiting s1" by (rule exit_unlink_exiting [OF assms s1(1)])
  let ?l = "(set_resume ResumeSwap s1)\<lparr>SchedulerLock := True\<rparr>"
  have l: "leaving ?l" "PsReadyList ?l = remove1 ?c (PsReadyList s)" "CurrentThread ?l = ?c"
    "State (Threads ?l ?c) = THREAD_STATE_TERMINATED" "PsExitThread n s = PspSwapThread ?l"
    using exiting_leaving [OF e] s1 e
    by (auto simp: set_resume_def upd_thread_def exiting_def PsExitThread_def exit_swap_eq [OF e])
  show ?thesis
  proof (cases "\<exists>t\<in>set (PsReadyList s). t \<noteq> ?c")
    case True
    then show ?thesis using leaving_returns [OF l(1,2,3) wf(1)] l(5) by simp
  next
    case False
    then have "PsReadyList ?l = []" using l(2) wf(1) by (subst set_empty [symmetric]) auto
    moreover obtain s2 where "PspProcessWaitList ?l = Inr s2" "same_but_ticks ?l s2"
      using PspProcessWaitList_ticks l(1) by (auto simp: leaving_def)
    ultimately show ?thesis using False l(3-5) same_but_ticksD [of ?l s2]
      by (simp add: PspSwapThread_def FindReadyThread_def Let_def)
  qed
qed

text \<open>C28: Which calls come back from a consistent state. The timer tick, thread creation, setting and pulsing an event
  and releasing a mutex always do. A wait, the acquisition of a mutex, a delay and an exit come back exactly when the
  object is signaled or another thread is ready; the exit of the last ready thread halts the system.
  \<open>PsTerminateThread\<close> comes back with the lock taken; with the lock taken, a tick that ends the quantum spins
  for ever, also when it comes between the two halves of \<open>KeAcquireLock\<close>.\<close>

theorem calls_come_back:
  assumes "sched_wf s"
  defines "other \<equiv> \<exists>t\<in>set (PsReadyList s). t \<noteq> CurrentThread s"
  shows "(\<exists>s'. PspSchedulerTimerInterruptDispatcher s = Inr s')
    \<and> (\<exists>s'. PspCreateThread t s = Inr s')
    \<and> (\<exists>b s'. KeSetEvent ob inc s = Inr (b, s'))
    \<and> (\<exists>b s'. KePulseEvent ob inc s = Inr (b, s'))
    \<and> (\<exists>s'. ExReleaseMutex ob s = Inr s')
    \<and> ((\<exists>s'. KeWaitForSingleObject ob s = Inr s') \<longleftrightarrow> SignaledState (Objects s ob) \<or> other)
    \<and> ((\<exists>s'. ExAcquireMutex ob s = Inr s') \<longleftrightarrow> SignaledState (Objects s ob) \<or> other)
    \<and> ((\<exists>s'. PsDelayThreadExecution n s = Inr s') \<longleftrightarrow> other)
    \<and> (if other then \<exists>s'. PsExitThread code s = Inr s' else PsExitThread code s = Inl SystemHalted)
    \<and> (\<exists>s'. PsTerminateThread t code s = Inr s' \<and> SchedulerLock s')
    \<and> (QuantumLeft s = 1 \<longrightarrow> PspSchedulerTimerInterruptDispatcher (s\<lparr>SchedulerLock := True\<rparr>) = Inl SpinsOnLock)"
proof (intro conjI)
  show "\<exists>s'. PspSchedulerTimerInterruptDispatcher s = Inr s'"
    using quantum_runs [of "s\<lparr>QuantumLeft := QuantumLeft s - 1\<rparr>"] assms(1)
    by (auto simp: PspSchedulerTimerInterruptDispatcher_def Let_def)
  show "\<exists>s'. PspCreateThread t s = Inr s'"
    using assms(1) by (simp add: PspCreateThread_def sched_wf_unlocked Let_def)
  have s': "\<exists>s'. KeSetEvent ob i s = Inr (SignaledState (Objects s ob), s')" for i
    using KeSetEvent_wakes [OF assms(1)] by blast
  show "\<exists>b s'. KeSetEvent ob inc s = Inr (b, s')" "\<exists>b s'. KePulseEvent ob inc s = Inr (b, s')"
    "\<exists>s'. ExReleaseMutex ob s = Inr s'"
    using s' [of inc] s' [of 0] by (auto simp: KePulseEvent_def ExReleaseMutex_def)
  show "(\<exists>s'. KeWaitForSingleObject ob s = Inr s') \<longleftrightarrow> SignaledState (Objects s ob) \<or> other"
    "(\<exists>s'. ExAcquireMutex ob s = Inr s') \<longleftrightarrow> SignaledState (Objects s ob) \<or> other"
    using block_returns [OF assms(1)]
    by (simp_all add: other_def KeWaitForSingleObject_def ExAcquireMutex_def sched_wf_unlocked [OF assms(1)])
  show "(\<exists>s'. PsDelayThreadExecution n s = Inr s') \<longleftrightarrow> other"
    using delay_returns [OF assms(1)] by (simp add: other_def)
  show "if other then \<exists>s'. PsExitThread code s = Inr s' else PsExitThread code s = Inl SystemHalted"
    using exit_returns [OF assms(1)] by (simp add: other_def)
  show "\<exists>s'. PsTerminateThread t code s = Inr s' \<and> SchedulerLock s'"
    using assms(1) by (simp add: PsTerminateThread_def sched_wf_unlocked upd_thread_def unlink_thread_def)
  show "QuantumLeft s = 1 \<longrightarrow> PspSchedulerTimerInterruptDispatcher (s\<lparr>SchedulerLock := True\<rparr>) = Inl SpinsOnLock"
    by (simp add: PspSchedulerTimerInterruptDispatcher_def PsQuantumEnd_def PsSwapThread_def PspLockSchedulerDatabase_def
        set_resume_def upd_thread_def)
qed

subsection \<open>A quantum end inside an exit\<close>

lemma quantum_end_exiting:
  assumes "sched_wf s" and "PsExitThread_unlink n s = Inr s1"
  defines "c \<equiv> CurrentThread s"
  shows "\<exists>s2. PsQuantumEnd s1 = Inr s2 \<and> sched_wf s2 \<and> PsReadyList s2 = remove1 c (PsReadyList s) @ [c]
    \<and> CurrentThread s2 = hd (PsReadyList s2)"
proof -
  let ?r = "remove1 c (PsReadyList s)"
  have e: "exiting s1" by (rule exit_unlink_exiting [OF assms(1,2)])
  have s1: "PsReadyList s1 = ?r" "CurrentThread s1 = c" "c \<notin> set ?r"
    using assms(1,2) e
    by (auto simp: PsExitThread_unlink_def sched_wf_unlocked sched_state_defs Let_def c_def exiting_def)
  obtain m where m: "PsQuantumEnd s1 = PspSwapThread m" "leaving m" "PsReadyList m = ?r @ [c]" "CurrentThread m = c" "State (Threads m c) = THREAD_STATE_READY"
    using quantum_end_in_exit [OF e] s1 by metis
  have rq: "requeued m = ?r @ [c]" unfolding requeued_def m using s1(3) by (simp add: remove1_append)
  have "find (\<lambda>t. t \<noteq> c) xs = (case xs of [] \<Rightarrow> None | x # _ \<Rightarrow> Some x)" if "c \<notin> set xs" for xs
    using that by (cases xs) auto
  from this [OF s1(3)] have nt: "next_thread m = Some (hd (?r @ [c]))"
    unfolding next_thread_def m by (simp add: find_append split: list.splits)
  from PspSwapThread_leaving [OF m(2)] nt obtain s2 where
    s2: "PspSwapThread m = Inr (SwapContext (hd (?r @ [c])) s2)" "sched_wf (SwapContext (hd (?r @ [c])) s2)"
      "same_but_ticks (m\<lparr>PsReadyList := requeued m\<rparr>) s2" by auto
  with m(1) same_but_ticksD(8) [OF s2(3)] rq show ?thesis by (auto simp: SwapContext_fields)
qed

text \<open>A quantum end between the two halves of \<open>PsExitThread\<close> makes the terminated thread ready again. It runs
  after the others had their quantum, and its call of \<open>PsSwapThread\<close> then fails an assertion.\<close>

theorem exited_thread_runs_again:
  assumes "sched_wf s" and "PsReadyList s = CurrentThread s # ts" and "QuantumLeft s = 1"
  shows "\<exists>s1 s2 s3. PsExitThread_unlink code s = Inr s1 \<and> PspSchedulerTimerInterruptDispatcher s1 = Inr s2
    \<and> quantum_ends (length ts) s2 = Inr s3 \<and> CurrentThread s3 = CurrentThread s \<and> PsSwapThread s3 = Inl AssertionFailed"
proof -
  let ?c = "CurrentThread s" and ?s = "s\<lparr>QuantumLeft := QuantumLeft s - 1\<rparr>"
  have wf: "sched_wf ?s" using assms(1) by simp
  obtain s1 where s1: "PsExitThread_unlink code s = Inr s1" "QuantumLeft s1 = 1"
      "PsExitThread_unlink code ?s = Inr (s1\<lparr>QuantumLeft := QuantumLeft s1 - 1\<rparr>)"
    using assms(1,3)
    by (simp add: PsExitThread_unlink_def PspLockSchedulerDatabase_def sched_wf_def sched_state_defs Let_def)
  from quantum_end_exiting [OF wf s1(3)] assms(2) obtain s2 where
    s2: "PspSchedulerTimerInterruptDispatcher s1 = Inr s2" "sched_wf s2" "PsReadyList s2 = ts @ [?c]" "CurrentThread s2 = hd (ts @ [?c])"
    using s1(2) by (auto simp: PspSchedulerTimerInterruptDispatcher_def)
  then obtain rs where "PsReadyList s2 = CurrentThread s2 # rs" by (cases ts) auto
  from quantum_ends_rotate [OF s2(2) this, of "length ts"] obtain s3 where
    s3: "quantum_ends (length ts) s2 = Inr s3" "sched_wf s3" "PsReadyList s3 = ?c # ts" "CurrentThread s3 = ?c"
    unfolding s2(3) by (auto simp: rotate_append)
  have lk: "\<not> SchedulerLock s3" "State (Threads s3 ?c) = THREAD_STATE_RUNNING" "lists_ok s3"
    using s3(2,4) by (auto simp: sched_wf_def db_ok_def)
  let ?l = "(set_resume ResumeSwap s3)\<lparr>SchedulerLock := True\<rparr>"
  have l: "PsReadyList ?l = ?c # ts" "CurrentThread ?l = ?c" "State (Threads ?l ?c) = THREAD_STATE_RUNNING" "lists_ok ?l"
    using s3 lk by (auto simp: set_resume_def upd_thread_def lists_ok_def)
  from PspProcessWaitList_ticks [OF l(4)] obtain s4 where s4: "PspProcessWaitList ?l = Inr s4" "same_but_ticks ?l s4" by blast
  have "PsSwapThread s3 = PspSwapThread ?l"
    using lk(1) by (simp add: PsSwapThread_def PspLockSchedulerDatabase_def set_resume_def upd_thread_def)
  also have "\<dots> = Inl AssertionFailed"
    using l(1-3) s4(1) same_but_ticksD [OF s4(2)] by (simp add: PspSwapThread_def FindReadyThread_def)
  finally show ?thesis using s1(1) s2(1) s3(1,4) by blast
qed

subsection \<open>Delayed threads\<close>

definition delayed :: "u32 \<Rightarrow> sched \<Rightarrow> bool" where
  "delayed t s \<longleftrightarrow> t \<in> set (PsWaitList s) \<and> WaitType (Threads s t) = THREAD_WAIT_EXECUTIONDELAYED"

lemma swap_delayed: "leaving s \<Longrightarrow> PspSwapThread s = Inr s' \<Longrightarrow> delayed t s \<Longrightarrow> delayed t s'"
  using PspSwapThread_leaving [of s] same_but_ticksD
  by (auto simp: delayed_def SwapContext_fields split: option.splits dest: same_but_ticksD)

text \<open>A change that leaves the entries of the wait list and their wait types alone.\<close>

lemma delayed_mono:
  "delayed t s \<Longrightarrow> set (PsWaitList s) \<subseteq> set (PsWaitList s')
    \<Longrightarrow> (t \<in> set (PsWaitList s) \<Longrightarrow> WaitType (Threads s' t) = WaitType (Threads s t)) \<Longrightarrow> delayed t s'"
  by (auto simp: delayed_def)

lemma delayed_other: "sched_wf s \<Longrightarrow> delayed t s \<Longrightarrow> t \<noteq> CurrentThread s"
  by (auto simp: sched_wf_def db_ok_def lists_ok_def delayed_def)

lemma delayed_not_woken: "blocks_ok s \<Longrightarrow> delayed t s \<Longrightarrow> t \<notin> set (woken (Objects s ob))"
  using blocks_zero [of s t _ ob] by (fastforce simp: delayed_def woken_def dest: in_set_takeD split: if_splits)

lemma set_delayed:
  assumes "sched_wf s \<or> exiting s" and "KeSetEvent ev inc s = Inr (b, s')" and "delayed t s"
  shows "delayed t s'"
proof -
  have db: "db_lists s" "\<not> SchedulerLock s" using assms(1) by (auto simp: sched_wf_def db_ok_lists exiting_def)
  have "t \<notin> set (woken (Objects s ev))" using db(1) assms(3) by (intro delayed_not_woken) (simp_all add: db_lists_def)
  with KeSetEvent_lists [OF db, of ev inc] assms(2,3) show ?thesis by (auto simp: delayed_def)
qed

lemma quantum_delayed: "sched_wf s \<Longrightarrow> PsQuantumEnd s = Inr s' \<Longrightarrow> delayed t s \<Longrightarrow> delayed t s'"
  using quantum_runs [of s] by (auto simp: delayed_def)

lemma block_delayed:
  assumes wf: "sched_wf s" and run: "block_on ob r (s\<lparr>SchedulerLock := True\<rparr>) = Inr s'" and d: "delayed t s"
  shows "delayed t s'"
proof -
  let ?s = "s\<lparr>SchedulerLock := True\<rparr>" and ?c = "CurrentThread s"
  define l where "l = set_resume r (to_wait_list ?c (upd_thread ?c
    (\<lambda>r. r\<lparr>State := THREAD_STATE_WAIT, WaitType := THREAD_WAIT_SCHEDULEROBJECTS_ANY, NumberOfObjectsWaiting := 1\<rparr>)
    (upd_object ob (\<lambda>h. h\<lparr>WaitListHead := WaitListHead h @ [(?c, 0)]\<rparr>) ?s)))"
  have db: "db_ok ?s" using wf by (simp add: sched_wf_def)
  have "leaving l" using block_leaving [OF db, of r ob] unfolding l_def by simp
  moreover have "PspSwapThread l = Inr s'" using run unfolding l_def by (simp add: block_on_def Let_def)
  moreover have "delayed t l"
    by (rule delayed_mono [OF d])
      (use delayed_other [OF wf d] not_waiting [OF db] in \<open>auto simp: l_def sched_state_defs Let_def remove1_idem\<close>)
  ultimately show ?thesis by (rule swap_delayed)
qed

lemma delay_delayed:
  assumes wf: "sched_wf s" and run: "PsDelayThreadExecution n s = Inr s'" and d: "delayed t s"
  shows "delayed t s'"
proof -
  let ?s = "s\<lparr>SchedulerLock := True\<rparr>" and ?c = "CurrentThread s"
  define l where "l = set_resume ResumeSwap (to_wait_list ?c (upd_thread ?c
    (\<lambda>r. r\<lparr>State := THREAD_STATE_WAIT, WaitType := THREAD_WAIT_EXECUTIONDELAYED, DelayedTickCount := n\<rparr>) ?s))"
  have db: "db_ok ?s" using wf by (simp add: sched_wf_def)
  have "leaving l" using delay_leaving [OF db, of n] unfolding l_def by simp
  moreover have "PspSwapThread l = Inr s'"
    using run unfolding l_def by (simp add: PsDelayThreadExecution_def sched_wf_unlocked [OF wf] Let_def)
  moreover have "delayed t l"
    by (rule delayed_mono [OF d])
      (use delayed_other [OF wf d] not_waiting [OF db] in \<open>auto simp: l_def sched_state_defs Let_def remove1_idem\<close>)
  ultimately show ?thesis by (rule swap_delayed)
qed

lemma exit_unlink_delayed:
  "sched_wf s \<Longrightarrow> PsExitThread_unlink n s = Inr s' \<Longrightarrow> delayed t s \<Longrightarrow> delayed t s'"
  using delayed_other [of s t]
  by (auto simp: PsExitThread_unlink_def sched_wf_unlocked delayed_def sched_state_defs Let_def in_set_remove1)

lemma exit_swap_delayed:
  assumes "exiting s" and "PsSwapThread s = Inr s'" and "delayed t s"
  shows "delayed t s'"
proof -
  have "delayed t ((set_resume ResumeSwap s)\<lparr>SchedulerLock := True\<rparr>)"
    using assms(3) by (auto simp: delayed_def set_resume_def upd_thread_def)
  with swap_delayed [OF exiting_leaving] assms(1,2) show ?thesis by (simp add: exit_swap_eq)
qed

lemma timer_delayed:
  assumes "sched_wf s \<or> exiting s" and run: "PspSchedulerTimerInterruptDispatcher s = Inr s'" and d: "delayed t s"
  shows "delayed t s'"
proof -
  let ?s = "s\<lparr>QuantumLeft := QuantumLeft s - 1\<rparr>"
  have d': "delayed t ?s" using d by (simp add: delayed_def)
  have "db_lists ?s = db_lists s" by (rule db_lists_cong) simp_all
  with assms(1) have i: "sched_wf ?s \<or> exiting ?s" by (auto simp: exiting_def)
  show ?thesis
  proof (cases "QuantumLeft ?s = 0")
    case True
    then have q: "PsQuantumEnd ?s = Inr s'" using run by (simp add: PspSchedulerTimerInterruptDispatcher_def Let_def)
    show ?thesis
    proof (cases "exiting ?s")
      case True
      from quantum_end_in_exit [OF this] obtain m where m: "PsQuantumEnd ?s = PspSwapThread m" "leaving m" "PsWaitList m = PsWaitList ?s"
        "\<forall>t. WaitType (Threads m t) = WaitType (Threads ?s t)" by metis
      then have "delayed t m" using d' by (simp add: delayed_def)
      with swap_delayed [OF m(2)] q m(1) show ?thesis by simp
    qed (use i q quantum_delayed d' in blast)
  next
    case False
    then show ?thesis using run d' by (simp add: PspSchedulerTimerInterruptDispatcher_def Let_def)
  qed
qed

lemma step_delayed: "step s s' \<Longrightarrow> sched_wf s \<or> exiting s \<Longrightarrow> delayed t s \<Longrightarrow> delayed t s'"
proof (induction rule: step.induct)
  case (timer s s')
  then show ?case using timer_delayed by blast
next
  case (create s u s')
  then have "sched_wf s" using running_wf by blast
  with create show ?case
    by (auto simp: PspCreateThread_def sched_wf_unlocked Let_def delayed_def PspUnlockSchedulerDatabase_def)
next
  case (exit_unlink s code s')
  then show ?case using exit_unlink_delayed running_wf by blast
next
  case (exit_swap s s')
  then show ?case using exit_swap_delayed running_wf by blast
next
  case (delay s n s')
  then show ?case using delay_delayed running_wf by blast
next
  case (set_event ev inc s old s')
  then show ?case using set_delayed by blast
next
  case (pulse_event ev inc s old s')
  then obtain s1 where "KeSetEvent ev inc s = Inr (old, s1)" "s' = KeClearEvent ev s1"
    by (auto simp: KePulseEvent_def and_then_def split: sum.splits)
  with pulse_event.prems set_delayed [of s ev inc old s1 t] show ?case
    by (simp add: delayed_def KeClearEvent_def upd_object_def)
next
  case (release s mx s')
  then obtain old where "KeSetEvent mx 0 s = Inr (old, s')"
    by (auto simp: ExReleaseMutex_def and_then_def split: sum.splits)
  with release.prems set_delayed show ?case by blast
next
  case (wait s ob s')
  then have "sched_wf s" using running_wf by blast
  with wait show ?case using block_delayed [of s ob ResumeWait s' t]
    by (auto simp: KeWaitForSingleObject_def sched_wf_unlocked unlock_lock split: if_splits)
next
  case (acquire s mx s')
  then have "sched_wf s" using running_wf by blast
  with acquire show ?case using block_delayed [of s mx "ResumeMutex mx" s' t]
    by (auto simp: ExAcquireMutex_def sched_wf_unlocked delayed_def PspUnlockSchedulerDatabase_def upd_object_def split: if_splits)
qed (simp_all add: delayed_def KeClearEvent_def KeInitializeEvent_def ExInitializeMutex_def upd_object_def)

lemma delayed_not_current: "sched_wf s \<or> exiting s \<Longrightarrow> delayed t s \<Longrightarrow> t \<noteq> CurrentThread s"
  using delayed_other lists_okD [of s t] by (auto simp: exiting_def db_lists_def delayed_def)

text \<open>C34: A thread that called \<open>PsDelayThreadExecution\<close> never runs again, whatever calls the other threads make, also
  \<open>PsTerminateThread\<close>, and however many quanta end; it stays in the wait list unless a thread is terminated.
  \<open>PspUnwaitThread\<close> wakes only threads that wait for objects.\<close>

theorem delayed_thread_never_runs:
  assumes "sched_wf s0" and "PsDelayThreadExecution n s0 = Inr s1" and "reachable s1 k s"
  shows "CurrentThread s \<noteq> CurrentThread s0 \<and> (k = 0 \<longrightarrow> CurrentThread s0 \<in> set (PsWaitList s))"
proof -
  let ?c = "CurrentThread s0" and ?s = "s0\<lparr>SchedulerLock := True\<rparr>"
  define l where "l = set_resume ResumeSwap (to_wait_list ?c (upd_thread ?c
    (\<lambda>r. r\<lparr>State := THREAD_STATE_WAIT, WaitType := THREAD_WAIT_EXECUTIONDELAYED, DelayedTickCount := n\<rparr>) ?s))"
  have db: "db_ok ?s" using assms(1) by (simp add: sched_wf_def)
  have "leaving l" using delay_leaving [OF db, of n] unfolding l_def by simp
  moreover have "PspSwapThread l = Inr s1"
    using assms(2) unfolding l_def by (simp add: PsDelayThreadExecution_def sched_wf_unlocked [OF assms(1)] Let_def)
  moreover have "delayed ?c l" by (simp add: l_def delayed_def sched_state_defs Let_def)
  ultimately have "delayed ?c s1" by (rule swap_delayed)
  moreover have "sched_wf s1" using delay_wf assms by blast
  ultimately have d1: "delayed ?c s1 \<and> sched_wf s1" ..
  have "(k = 0 \<longrightarrow> delayed ?c s \<and> (sched_wf s \<or> exiting s)) \<and> (k \<noteq> 0 \<longrightarrow> SchedulerLock s \<and> CurrentThread s \<noteq> ?c)"
    using assms(3)
  proof (induction rule: reachable.induct)
    case init
    then show ?case using d1 by simp
  next
    case (more k s s')
    then show ?case using step_wf step_delayed locked_step by metis
  next
    case (terminate k s u code s')
    then show ?case using terminate_locks [of u code s s'] delayed_not_current [of s ?c] by auto
  qed
  then show ?thesis using delayed_not_current [of s ?c] by (auto simp: delayed_def)
qed

subsection \<open>Mutexes\<close>

text \<open>An uncontended mutex works: it is acquired without a switch, and the release makes it free again
  and leaves every thread and the ready list as they were.\<close>

theorem mutex_uncontended:
  assumes "sched_wf s" and "SignaledState (Objects s mx)" and "WaitListHead (Objects s mx) = []"
  shows "\<exists>s1 s2. ExAcquireMutex mx s = Inr s1 \<and> \<not> SignaledState (Objects s1 mx) \<and> CurrentThread s1 = CurrentThread s
    \<and> ExReleaseMutex mx s1 = Inr s2 \<and> SignaledState (Objects s2 mx) \<and> CurrentThread s2 = CurrentThread s
    \<and> PsReadyList s2 = PsReadyList s \<and> Threads s2 = Threads s"
proof -
  let ?s = "upd_object mx (\<lambda>h. h\<lparr>SignaledState := False\<rparr>) s"
  have f: "\<not> SignaledState (Objects ?s mx)" "CurrentThread ?s = CurrentThread s" "woken (Objects ?s mx) = []"
    "PsReadyList ?s = PsReadyList s" "Threads ?s = Threads s"
    using assms(3) by (simp_all add: upd_object_def woken_def)
  from KeSetEvent_wakes [OF sched_wf_signal [OF assms(1), of mx False], of mx 0] obtain s2 where
    "KeSetEvent mx 0 ?s = Inr (SignaledState (Objects ?s mx), s2)" "CurrentThread s2 = CurrentThread s"
    "SignaledState (Objects s2 mx)" "PsReadyList s2 = PsReadyList s" "\<forall>t. Threads s2 t = Threads s t"
    unfolding f by auto
  then show ?thesis using acquire_free [OF assms(1,2)] f by (auto simp: ExReleaseMutex_def fun_eq_iff)
qed

lemma PspUnwaitThread_resume:
  "PspUnwaitThread t inc s = Inr s' \<Longrightarrow>
    Resume (Threads s' u) = Resume (Threads s u) \<and> JustInitialized (Threads s' u) = JustInitialized (Threads s u)"
proof -
  have "Threads (foldl (\<lambda>s i. unlink_block (t, i) s) r ks) = Threads r" for r ks
    by (induction ks arbitrary: r) (simp_all add: unlink_block_def)
  then show "PspUnwaitThread t inc s = Inr s' \<Longrightarrow>
      Resume (Threads s' u) = Resume (Threads s u) \<and> JustInitialized (Threads s' u) = JustInitialized (Threads s u)"
    by (auto simp: PspUnwaitThread_def Let_def upd_thread_def unlink_thread_def split: if_splits)
qed

lemma set_event_loop_resume:
  "set_event_loop ev inc bs s = Inr s' \<Longrightarrow>
    Resume (Threads s' u) = Resume (Threads s u) \<and> JustInitialized (Threads s' u) = JustInitialized (Threads s u)"
proof (induction ev inc bs s rule: set_event_loop.induct)
  case (2 ev inc t i bs s)
  show ?case
  proof (cases "PspUnwaitThread t inc s")
    case (Inr s1)
    then show ?thesis using 2 PspUnwaitThread_resume [OF Inr, of u] by (auto simp: Let_def split: if_splits)
  qed (use 2 in \<open>auto simp: Let_def split: if_splits\<close>)
qed simp

lemma release_resume:
  "ExReleaseMutex mx s = Inr s' \<Longrightarrow>
    Resume (Threads s' u) = Resume (Threads s u) \<and> JustInitialized (Threads s' u) = JustInitialized (Threads s u)"
  using set_event_loop_resume [of mx 0 _ _ _ u]
  by (auto simp: ExReleaseMutex_def KeSetEvent_def KiSetEvent_def PspLockSchedulerDatabase_def
      PspUnlockSchedulerDatabase_def upd_object_def and_then_def split: sum.splits if_splits)

text \<open>C33: A mutex that two threads wait for lets both of them in: the release wakes every waiter, and each of
  them returns from \<open>ExAcquireMutex\<close> when it is switched to, marking the mutex as taken without looking at it.\<close>

theorem mutex_admits_two:
  assumes "sched_wf s" and "ObjectType (Objects s mx) = SynchronizationMutex"
    and "WaitListHead (Objects s mx) = [(a, 0), (b, 0)]"
    and "Resume (Threads s a) = ResumeMutex mx" and "Resume (Threads s b) = ResumeMutex mx"
    and "JustInitialized (Threads s a) = False" and "JustInitialized (Threads s b) = False"
  shows "\<exists>s1 s2 s3. ExReleaseMutex mx s = Inr s1 \<and> PsQuantumEnd s1 = Inr s2 \<and> PsQuantumEnd s2 = Inr s3
    \<and> CurrentThread s2 = b \<and> SignaledState (Objects s2 mx) = False \<and> WaitListHead (Objects s2 mx) = []
    \<and> CurrentThread s3 = a \<and> SignaledState (Objects s3 mx) = False"
proof -
  let ?c = "CurrentThread s"
  have w: "woken (Objects s mx) = [a, b]" using assms(2,3) by (simp add: woken_def)
  from KeSetEvent_wakes [OF assms(1), of mx 0] obtain s1 where
    s1: "ExReleaseMutex mx s = Inr s1" "sched_wf s1" "CurrentThread s1 = ?c" "PsReadyList s1 = b # a # PsReadyList s"
      "WaitListHead (Objects s1 mx) = []"
    unfolding w by (auto simp: ExReleaseMutex_def assms(3))
  have d: "b \<noteq> ?c" "a \<noteq> ?c" "a \<noteq> b" using sched_wf_lists [OF s1(2)] sched_wf_lists [OF assms(1)] s1(4) by auto
  have r1: "Resume (Threads s1 a) = ResumeMutex mx" "Resume (Threads s1 b) = ResumeMutex mx"
    "JustInitialized (Threads s1 a) = False" "JustInitialized (Threads s1 b) = False"
    using release_resume [OF s1(1)] assms(4-7) by simp_all
  have l1: "remove1 ?c (PsReadyList s1) @ [?c] = b # a # remove1 ?c (PsReadyList s) @ [?c]" using s1(4) d by simp
  from quantum_runs [OF s1(2)] obtain s2 where q:
    "PsQuantumEnd s1 = Inr s2" "sched_wf s2" "PsReadyList s2 = b # a # remove1 ?c (PsReadyList s) @ [?c]"
    "CurrentThread s2 = hd (b # a # remove1 ?c (PsReadyList s) @ [?c])"
    "\<forall>t. Resume (Threads s2 t) = (if t = ?c then ResumeSwap else Resume (Threads s1 t))"
    "\<forall>ob. WaitListHead (Objects s2 ob) = WaitListHead (Objects s1 ob)"
    "\<forall>t. JustInitialized (Threads s1 t) = False \<longrightarrow> JustInitialized (Threads s2 t) = False"
    "\<forall>mx. CurrentThread s2 \<noteq> ?c \<and> JustInitialized (Threads s1 (CurrentThread s2)) = False
      \<and> Resume (Threads s1 (CurrentThread s2)) = ResumeMutex mx \<longrightarrow> SignaledState (Objects s2 mx) = False"
    unfolding s1(3) l1 by blast
  then have s2: "CurrentThread s2 = b" "Resume (Threads s2 a) = ResumeMutex mx" "JustInitialized (Threads s2 a) = False"
    "WaitListHead (Objects s2 mx) = []" "SignaledState (Objects s2 mx) = False"
    using d r1 s1(5) by simp_all
  have l2: "hd (remove1 b (PsReadyList s2) @ [b]) = a" using q(3) by simp
  from quantum_runs [OF q(2)] obtain s3 where "PsQuantumEnd s2 = Inr s3" and "CurrentThread s3 = a"
    and "\<forall>mx. CurrentThread s3 \<noteq> b \<and> JustInitialized (Threads s2 (CurrentThread s3)) = False
      \<and> Resume (Threads s2 (CurrentThread s3)) = ResumeMutex mx \<longrightarrow> SignaledState (Objects s3 mx) = False"
    unfolding s2(1) l2 by blast
  with s1(1) q(1) s2 d(3) show ?thesis by (intro exI [of _ s1] exI [of _ s2] exI [of _ s3]) simp
qed

subsection \<open>Terminating a thread\<close>

text \<open>CX38: \<open>PsTerminateThread\<close> returns with the scheduler lock taken: the next call of any kind, and the next
  quantum end, spins on it for ever.\<close>

theorem terminate_leaves_lock:
  assumes "sched_wf s"
  shows "\<exists>s'. PsTerminateThread t code s = Inr s' \<and> PsQuantumEnd s' = Inl SpinsOnLock
    \<and> PspCreateThread u s' = Inl SpinsOnLock \<and> PsExitThread n s' = Inl SpinsOnLock
    \<and> PsDelayThreadExecution d s' = Inl SpinsOnLock \<and> KeSetEvent ob inc s' = Inl SpinsOnLock
    \<and> KeWaitForSingleObject ob s' = Inl SpinsOnLock \<and> ExAcquireMutex ob s' = Inl SpinsOnLock
    \<and> ExReleaseMutex ob s' = Inl SpinsOnLock"
  using assms
  by (simp add: PsTerminateThread_def sched_wf_unlocked PsQuantumEnd_def PsSwapThread_def PspCreateThread_def PsExitThread_def PsExitThread_unlink_def
      PsDelayThreadExecution_def KeSetEvent_def KeWaitForSingleObject_def ExAcquireMutex_def ExReleaseMutex_def
      PspLockSchedulerDatabase_def set_resume_def upd_thread_def unlink_thread_def sched_wf_def)

subsection \<open>The ready list in memory\<close>

text \<open>\<open>PspReadyThread\<close> on the links: the entry is unlinked and inserted at the tail.\<close>

definition PspReadyThread_links :: "'a \<Rightarrow> 'a \<Rightarrow> 'a links \<Rightarrow> 'a links" where
  "PspReadyThread_links head t m = InsertTailList (RemoveEntryList m t) head t"

text \<open>The pointer operations of \<open>PspReadyThread\<close> implement what the model of the scheduler does with the
  ready list, for a thread in the ready list and for one in the wait list.\<close>

theorem ready_thread_links:
  assumes "State (Threads s t) \<noteq> THREAD_STATE_TERMINATED" and "distinct (PsReadyList s @ PsWaitList s)"
    and "t \<in> set (PsReadyList s) \<union> set (PsWaitList s)"
    and "dlist m ready (PsReadyList s)" and "dlist m wait (PsWaitList s)"
    and "set (ready # PsReadyList s) \<inter> set (wait # PsWaitList s) = {}"
  shows "\<exists>s'. PspReadyThread t s = Inr s' \<and> dlist (PspReadyThread_links ready t m) ready (PsReadyList s')
    \<and> dlist (PspReadyThread_links ready t m) wait (PsWaitList s')"
proof (cases "t \<in> set (PsReadyList s)")
  case True
  then have nw: "t \<notin> set (PsWaitList s)" "t \<notin> set (wait # PsWaitList s)" using assms(2,6) by auto
  have r: "dlist (RemoveEntryList m t) ready (remove1 t (PsReadyList s))" "dlist (RemoveEntryList m t) wait (PsWaitList s)"
    using le.rep_rem [OF assms(4) True] le.rem_other [OF assms(4-6) True] by auto
  have "set (ready # remove1 t (PsReadyList s)) \<inter> set (wait # PsWaitList s) = {}"
    using assms(6) set_remove1_subset [of t "PsReadyList s"] by auto
  from le.tail_other [OF r this nw(2)] le.requeue [OF assms(4) True] show ?thesis
    using assms(1) nw(1) by (simp add: PspReadyThread_def PspReadyThread_links_def unlink_thread_def Let_def remove1_idem)
next
  case False
  then have w: "t \<in> set (PsWaitList s)" using assms(3) by auto
  from le.move_tail [OF assms(5,4) _ w] assms(6) have
    "dlist (PspReadyThread_links ready t m) wait (remove1 t (PsWaitList s))"
    "dlist (PspReadyThread_links ready t m) ready (PsReadyList s @ [t])"
    by (auto simp: PspReadyThread_links_def)
  then show ?thesis
    using assms(1) False by (simp add: PspReadyThread_def unlink_thread_def Let_def remove1_idem)
qed

subsection \<open>A system of four threads\<close>

text \<open>Threads 1 and 2 are ready, 1 runs; 3 and 4 wait for the mutex 10; the mutex 20 is free.\<close>

definition four_threads :: sched where
  "four_threads = \<lparr>PsReadyList = [1, 2], PsWaitList = [3, 4],
     Threads = (\<lambda>t. \<lparr>State = (if t = 1 then THREAD_STATE_RUNNING else if t = 2 then THREAD_STATE_READY else THREAD_STATE_WAIT),
       WaitType = (if t = 3 \<or> t = 4 then THREAD_WAIT_SCHEDULEROBJECTS_ANY else THREAD_WAIT_NOTWAITING),
       Quantum = 3, QuantumDynamic = 0, DelayedTickCount = 0,
       NumberOfObjectsWaiting = (if t = 3 \<or> t = 4 then 1 else 0), JustInitialized = False, ExitCode = 0, UniqueId = t,
       Resume = (if t = 3 \<or> t = 4 then ResumeMutex 10 else ResumeSwap)\<rparr>),
     Objects = (\<lambda>ob. \<lparr>ObjectType = SynchronizationMutex, SignaledState = (ob = 20),
       WaitListHead = (if ob = 10 then [(3, 0), (4, 0)] else [])\<rparr>),
     CurrentThread = 1, QuantumLeft = 1, SchedulerLock = False, UniqueThreadIdSeed = 4\<rparr>"

lemma four_threads_wf: "sched_wf four_threads"
  by (auto simp: four_threads_def sched_wf_def db_ok_def lists_ok_def blocks_ok_def ready_ok_def)

lemma four_threads_fields:
  "CurrentThread four_threads = 1" "PsReadyList four_threads = [1, 2]" "PsWaitList four_threads = [3, 4]"
  "WaitListHead (Objects four_threads 10) = [(3, 0), (4, 0)]" "WaitListHead (Objects four_threads 20) = []"
  "SignaledState (Objects four_threads 20)" "ObjectType (Objects four_threads 10) = SynchronizationMutex"
  "Resume (Threads four_threads 3) = ResumeMutex 10" "Resume (Threads four_threads 4) = ResumeMutex 10"
  "JustInitialized (Threads four_threads t) = False" "State (Threads four_threads 2) = THREAD_STATE_READY"
  "QuantumLeft four_threads = 1"
  by (simp_all add: four_threads_def)


theorem quantum_ends_round_robin_witness:
  "\<exists>s. quantum_ends 2 four_threads = Inr s \<and> PsReadyList s = [1, 2] \<and> CurrentThread s = 1"
  using quantum_ends_round_robin [OF four_threads_wf, of 1]
  by (auto simp: four_threads_fields numeral_2_eq_2)

theorem set_event_wakes_waiters_witness:
  "\<exists>s. KeSetEvent 10 5 four_threads = Inr (False, s) \<and> PsReadyList s = [4, 3, 1, 2] \<and> PsWaitList s = []"
proof -
  have w: "woken (Objects four_threads 10) = [3, 4]" "SignaledState (Objects four_threads 10) = False"
    by (simp_all add: woken_def four_threads_def)
  show ?thesis using set_event_wakes_waiters [OF four_threads_wf, of 10 5]
    unfolding w by (auto simp: four_threads_fields)
qed

theorem calls_come_back_witness: "\<exists>s. KeWaitForSingleObject 10 four_threads = Inr s"
  using calls_come_back [OF four_threads_wf, of 0 10] by (auto simp: four_threads_fields)

theorem exited_thread_runs_again_witness:
  "\<exists>s1 s2 s3. PsExitThread_unlink 0 four_threads = Inr s1 \<and> PspSchedulerTimerInterruptDispatcher s1 = Inr s2
    \<and> PsQuantumEnd s2 = Inr s3 \<and> CurrentThread s3 = 1 \<and> PsSwapThread s3 = Inl AssertionFailed"
  using exited_thread_runs_again [OF four_threads_wf, of "[2]" 0]
  by (auto simp: four_threads_fields and_then_Inr)

theorem delayed_thread_never_runs_witness:
  "\<exists>s. PsDelayThreadExecution 5 four_threads = Inr s \<and> 1 \<in> set (PsWaitList s) \<and> CurrentThread s \<noteq> 1"
proof -
  from delay_swap [OF four_threads_wf, of 5] obtain l where
    l: "PsDelayThreadExecution 5 four_threads = PspSwapThread l" "leaving l" "PsReadyList l = [2]" "CurrentThread l = 1"
    by (auto simp: four_threads_fields)
  then have "next_thread l = Some 2" by (simp add: next_thread_def)
  then obtain s where "PsDelayThreadExecution 5 four_threads = Inr s"
    using PspSwapThread_leaving [OF l(2)] l(1) by auto
  with delayed_thread_never_runs [OF four_threads_wf this reachable.init] show ?thesis
    by (auto simp: four_threads_fields)
qed

theorem mutex_uncontended_witness:
  "\<exists>s1 s2. ExAcquireMutex 20 four_threads = Inr s1 \<and> ExReleaseMutex 20 s1 = Inr s2 \<and> SignaledState (Objects s2 20)"
  using mutex_uncontended [OF four_threads_wf, of 20] by (auto simp: four_threads_fields)

theorem mutex_admits_two_witness:
  "\<exists>s1 s2 s3. ExReleaseMutex 10 four_threads = Inr s1 \<and> PsQuantumEnd s1 = Inr s2 \<and> PsQuantumEnd s2 = Inr s3
    \<and> CurrentThread s2 = 4 \<and> CurrentThread s3 = 3"
  using mutex_admits_two [OF four_threads_wf, of 10 3 4] by (auto simp: four_threads_fields)

theorem terminate_leaves_lock_witness:
  "\<exists>s. PsTerminateThread 2 0 four_threads = Inr s \<and> PsQuantumEnd s = Inl SpinsOnLock"
  using terminate_leaves_lock [OF four_threads_wf, of 2 0 0 0 0 0 0] by blast

theorem ready_thread_links_witness:
  "\<exists>s. PspReadyThread 3 four_threads = Inr s \<and> PsReadyList s = [1, 2, 3] \<and>
    (\<exists>m. dlist (PspReadyThread_links (100 :: u32) 3 m) 100 [1, 2, 3] \<and> dlist (PspReadyThread_links 100 3 m) 200 [4])"
proof -
  let ?m0 = "\<lparr>Flink = (\<lambda>x. x), Blink = (\<lambda>x. x)\<rparr>"
  let ?m = "InsertTailList (InsertTailList (InsertTailList (InsertTailList ?m0 100 1) 100 2) 200 3) 200 4"
  have m: "dlist ?m 100 (PsReadyList four_threads)" "dlist ?m 200 (PsWaitList four_threads)"
    by (simp_all add: four_threads_fields dlist_def list_op_defs)
  have "State (Threads four_threads 3) \<noteq> THREAD_STATE_TERMINATED" by (simp add: four_threads_def)
  from ready_thread_links [OF this _ _ m] show ?thesis
    by (auto simp: four_threads_fields PspReadyThread_def four_threads_def unlink_thread_def Let_def)
qed

end
