(* ===== verification/RtlStr.thy ===== *)
theory RtlStr
  imports Bytes
begin

text \<open>
  The string routines of the run-time library (\<^verbatim>\<open>kernel/runtime.cpp\<close>). A memory is a function
  from 32-bit positions to cells: bytes for \<open>char *\<close>, 16-bit cells for \<open>WCHAR *\<close> (the wide
  routines move whole \<open>WCHAR\<close>s, so their positions count \<open>WCHAR\<close>s). Positions wrap as pointers
  do. A loop that looks for a terminator is a partial function: \<open>None\<close> when no cell is zero.
  \<open>char\<close> is signed (the source is compiled by a compiler where it is): a conversion to \<open>WCHAR\<close>
  or \<open>int\<close> extends the sign.
\<close>

subsection \<open>Length and search\<close>

partial_function (option) strlen_loop :: "8 mem \<Rightarrow> u32 \<Rightarrow> u32 \<Rightarrow> u32 option" where
  [code]: "strlen_loop m str length' = (if m str \<noteq> 0 then strlen_loop m (str + 1) (length' + 1) else Some length')"

definition strlen :: "8 mem \<Rightarrow> u32 \<Rightarrow> u32 option" where
  "strlen m str = strlen_loop m str 0"

partial_function (option) wcslen_loop :: "16 mem \<Rightarrow> u32 \<Rightarrow> u32 \<Rightarrow> u32 option" where
  [code]: "wcslen_loop m wstr length' = (if m wstr \<noteq> 0 then wcslen_loop m (wstr + 1) (length' + 1) else Some length')"

definition wcslen :: "16 mem \<Rightarrow> u32 \<Rightarrow> u32 option" where
  "wcslen m wstr = wcslen_loop m wstr 0"

text \<open>The outer option is the return of the call, the inner one the pointer (\<open>None\<close> is NULL).\<close>

partial_function (option) strchr :: "8 mem \<Rightarrow> u32 \<Rightarrow> u8 \<Rightarrow> u32 option option" where
  [code]: "strchr m ch chr =
     (if m ch \<noteq> 0 then if m ch = chr then Some (Some ch) else strchr m (ch + 1) chr else Some None)"

partial_function (option) wcsrchr_loop :: "16 mem \<Rightarrow> u32 \<Rightarrow> u32 \<Rightarrow> u16 \<Rightarrow> u32 option option" where
  [code]: "wcsrchr_loop m src e chr =
     (if e \<ge> src then if m e = chr then Some (Some e) else wcsrchr_loop m src (e - 1) chr
      else Some None)"

definition wcsrchr :: "16 mem \<Rightarrow> u32 \<Rightarrow> u16 \<Rightarrow> u32 option option" where
  "wcsrchr m src chr = Option.bind (wcslen m src) (\<lambda>n. wcsrchr_loop m src (src + n - 1) chr)"

subsection \<open>Copying\<close>

text \<open>
  The loop \<open>for (int i=0; i<count && (to[i] = from[i]); i++)\<close>; the last argument counts the
  iterations that are left.
\<close>

fun ncpy_loop :: "'w::len mem \<Rightarrow> u32 \<Rightarrow> u32 \<Rightarrow> nat \<Rightarrow> 'w mem" where
  "ncpy_loop m t f 0 = m"
| "ncpy_loop m t f (Suc n) =
     (let m' = m(t := m f) in if m' t \<noteq> 0 then ncpy_loop m' (t + 1) (f + 1) n else m')"

definition strncpy :: "8 mem \<Rightarrow> u32 \<Rightarrow> u32 \<Rightarrow> u32 \<Rightarrow> 8 mem" where
  "strncpy m t f count' = ncpy_loop m t f (nat (sint count'))"

definition strcpy :: "8 mem \<Rightarrow> u32 \<Rightarrow> u32 \<Rightarrow> 8 mem option" where
  "strcpy m s1 s2 = map_option (strncpy m s1 s2) (strlen m s2)"

definition strcat :: "8 mem \<Rightarrow> u32 \<Rightarrow> u32 \<Rightarrow> 8 mem option" where
  "strcat m s1 s2 = Option.bind (strlen m s1) (\<lambda>n. strcpy m (s1 + n) s2)"

definition wcsncpy :: "16 mem \<Rightarrow> u32 \<Rightarrow> u32 \<Rightarrow> u32 \<Rightarrow> 16 mem" where
  "wcsncpy m dst src count' = ncpy_loop m dst src (nat (sint count'))"

definition wcscpy :: "16 mem \<Rightarrow> u32 \<Rightarrow> u32 \<Rightarrow> 16 mem option" where
  "wcscpy m dst src = map_option (\<lambda>n. wcsncpy m dst src (n + 1)) (wcslen m src)"

definition wcscat :: "16 mem \<Rightarrow> u32 \<Rightarrow> u32 \<Rightarrow> 16 mem option" where
  "wcscat m dst src = Option.bind (wcslen m dst) (\<lambda>n. wcscpy m (dst + n) src)"

definition wcssubstr :: "16 mem \<Rightarrow> u32 \<Rightarrow> u32 \<Rightarrow> u32 \<Rightarrow> u32 \<Rightarrow> 16 mem" where
  "wcssubstr m src start len dst = (wcsncpy m dst (src + start) len)(dst + len := 0)"

subsection \<open>Conversion\<close>

fun wcstomb_loop :: "8 mem \<Rightarrow> 16 mem \<Rightarrow> u32 \<Rightarrow> u32 \<Rightarrow> nat \<Rightarrow> 8 mem" where
  "wcstomb_loop m w d s 0 = m(d := 0)"
| "wcstomb_loop m w d s (Suc n) = wcstomb_loop (m(d := ucast (w s))) w (d + 1) (s + 1) n"

definition wcstomb :: "8 mem \<Rightarrow> 16 mem \<Rightarrow> u32 \<Rightarrow> u32 \<Rightarrow> u32 \<Rightarrow> (u32 \<times> 8 mem) option" where
  "wcstomb m w mbs wcs count' =
     Option.bind (if count' = - 1 then wcslen w wcs else Some count')
       (\<lambda>n. Some (n, wcstomb_loop m w mbs wcs (unat n)))"

fun mbstowcs_loop :: "16 mem \<Rightarrow> 8 mem \<Rightarrow> u32 \<Rightarrow> u32 \<Rightarrow> nat \<Rightarrow> 16 mem" where
  "mbstowcs_loop w m d s 0 = w(d := 0)"
| "mbstowcs_loop w m d s (Suc n) = mbstowcs_loop (w(d := scast (m s))) m (d + 1) (s + 1) n"

definition mbstowcs :: "16 mem \<Rightarrow> 8 mem \<Rightarrow> u32 \<Rightarrow> u32 \<Rightarrow> u32 \<Rightarrow> (u32 \<times> 16 mem) option" where
  "mbstowcs w m wcs mbs count' =
     Option.bind (if count' = - 1 then strlen m mbs else Some count')
       (\<lambda>n. Some (n, mbstowcs_loop w m wcs mbs (unat n)))"

subsection \<open>Comparison\<close>

text \<open>\<open>char diff = s1[i] - s2[i]\<close> is a byte; the result extends its sign.\<close>

fun strncmp_loop :: "8 mem \<Rightarrow> u32 \<Rightarrow> u32 \<Rightarrow> nat \<Rightarrow> u32" where
  "strncmp_loop m s1 s2 0 = 0"
| "strncmp_loop m s1 s2 (Suc n) =
     (let diff = m s1 - m s2 in if diff \<noteq> 0 then scast diff else strncmp_loop m (s1 + 1) (s2 + 1) n)"

definition strncmp :: "8 mem \<Rightarrow> u32 \<Rightarrow> u32 \<Rightarrow> u32 \<Rightarrow> u32" where
  "strncmp m s1 s2 count' = strncmp_loop m s1 s2 (unat count')"

definition strcmp :: "8 mem \<Rightarrow> u32 \<Rightarrow> u32 \<Rightarrow> u32 option" where
  "strcmp m s1 s2 =
     Option.bind (strlen m s1) (\<lambda>l1. Option.bind (strlen m s2) (\<lambda>l2.
       Some (if l1 \<noteq> l2 then l2 - l1 else strncmp m s1 s2 l1)))"

definition UPCASE :: "u8 \<Rightarrow> u8" where
  "UPCASE ch = (if 0x61 \<le> ch \<and> ch \<le> 0x7A then ch - 0x61 + 0x41 else ch)"

definition UPCASEW :: "u16 \<Rightarrow> u16" where
  "UPCASEW ch = (if 0x61 \<le> ch \<and> ch \<le> 0x7A then ch - 0x61 + 0x41 else ch)"

fun strnicmp_loop :: "8 mem \<Rightarrow> u32 \<Rightarrow> u32 \<Rightarrow> nat \<Rightarrow> u32" where
  "strnicmp_loop m s1 s2 0 = 0"
| "strnicmp_loop m s1 s2 (Suc n) =
     (let diff = UPCASE (m s1) - UPCASE (m s2)
      in if diff \<noteq> 0 then scast diff else strnicmp_loop m (s1 + 1) (s2 + 1) n)"

definition strnicmp :: "8 mem \<Rightarrow> u32 \<Rightarrow> u32 \<Rightarrow> u32 \<Rightarrow> u32" where
  "strnicmp m s1 s2 count' = strnicmp_loop m s1 s2 (unat count')"

definition stricmp :: "8 mem \<Rightarrow> u32 \<Rightarrow> u32 \<Rightarrow> u32 option" where
  "stricmp m s1 s2 =
     Option.bind (strlen m s1) (\<lambda>l1. Option.bind (strlen m s2) (\<lambda>l2.
       Some (if l1 \<noteq> l2 then l2 - l1 else strnicmp m s1 s2 l1)))"

text \<open>\<open>WCHAR diff\<close> is unsigned: the result extends it with zeros.\<close>

fun wcmp_loop :: "(u16 \<Rightarrow> u16) \<Rightarrow> 16 mem \<Rightarrow> u32 \<Rightarrow> u32 \<Rightarrow> nat \<Rightarrow> u32" where
  "wcmp_loop up m s1 s2 0 = 0"
| "wcmp_loop up m s1 s2 (Suc n) =
     (let diff = up (m s1) - up (m s2)
      in if diff \<noteq> 0 then ucast diff else wcmp_loop up m (s1 + 1) (s2 + 1) n)"

definition wcscmp :: "16 mem \<Rightarrow> u32 \<Rightarrow> u32 \<Rightarrow> u32 option" where
  "wcscmp m s1 s2 =
     Option.bind (wcslen m s1) (\<lambda>l1. Option.bind (wcslen m s2) (\<lambda>l2.
       Some (if l1 \<noteq> l2 then - 1 else wcmp_loop id m s1 s2 (nat (sint l1)))))"

definition wcsicmp :: "16 mem \<Rightarrow> u32 \<Rightarrow> u32 \<Rightarrow> u32 option" where
  "wcsicmp m s1 s2 =
     Option.bind (wcslen m s1) (\<lambda>l1. Option.bind (wcslen m s2) (\<lambda>l2.
       Some (if l1 \<noteq> l2 then - 1 else wcmp_loop UPCASEW m s1 s2 (nat (sint l1)))))"

subsection \<open>What a memory holds\<close>

fun cells :: "'w::len mem \<Rightarrow> u32 \<Rightarrow> 'w word list \<Rightarrow> bool" where
  "cells m a [] \<longleftrightarrow> True"
| "cells m a (x # xs) \<longleftrightarrow> m a = x \<and> cells m (a + 1) xs"

definition zstr :: "'w::len mem \<Rightarrow> u32 \<Rightarrow> 'w word list \<Rightarrow> bool" where
  "zstr m a s \<longleftrightarrow> cells m a (s @ [0]) \<and> 0 \<notin> set s"

lemma cells_append: "cells m a (xs @ ys) \<longleftrightarrow> cells m a xs \<and> cells m (a + of_nat (length xs)) ys"
  by (induction xs arbitrary: a) (auto simp: algebra_simps)

lemma cells_nth: "cells m a xs \<longleftrightarrow> (\<forall>i<length xs. m (a + of_nat i) = xs ! i)"
proof (induction xs arbitrary: a)
  case (Cons x xs)
  show ?case
    by (simp add: Cons All_less_Suc2 add.assoc)
qed simp


lemma zstr_Nil [simp]: "zstr m a [] \<longleftrightarrow> m a = 0"
  by (simp add: zstr_def)

lemma zstr_Cons [simp]: "zstr m a (x # s) \<longleftrightarrow> x \<noteq> 0 \<and> m a = x \<and> zstr m (a + 1) s"
  by (auto simp: zstr_def)

lemma zstr_end: "zstr m a s \<Longrightarrow> m (a + of_nat (length s)) = 0"
  by (simp add: zstr_def cells_append)

lemma zstr_nth: "zstr m a s \<Longrightarrow> i < length s \<Longrightarrow> m (a + of_nat i) = s ! i"
  by (simp add: zstr_def cells_append) (simp add: cells_nth)

lemma zstr_frame:
  "zstr m a s \<Longrightarrow> (\<And>i. i \<le> length s \<Longrightarrow> m' (a + of_nat i) = m (a + of_nat i)) \<Longrightarrow> zstr m' a s"
  by (simp add: zstr_def cells_nth)

lemma strlen_zstr: "zstr m a s \<Longrightarrow> strlen m a = Some (of_nat (length s))"
proof -
  have "zstr m a s \<Longrightarrow> strlen_loop m a n = Some (n + of_nat (length s))" for n
  proof (induction s arbitrary: a n)
    case Nil
    then show ?case by (subst strlen_loop.simps) simp
  next
    case (Cons x s)
    then show ?case by (subst strlen_loop.simps) simp
  qed
  from this [of 0] show "zstr m a s \<Longrightarrow> strlen m a = Some (of_nat (length s))"
    by (simp add: strlen_def)
qed

lemma wcslen_zstr: "zstr m a s \<Longrightarrow> wcslen m a = Some (of_nat (length s))"
proof -
  have "zstr m a s \<Longrightarrow> wcslen_loop m a n = Some (n + of_nat (length s))" for n
  proof (induction s arbitrary: a n)
    case Nil
    then show ?case by (subst wcslen_loop.simps) simp
  next
    case (Cons x s)
    then show ?case by (subst wcslen_loop.simps) simp
  qed
  from this [of 0] show "zstr m a s \<Longrightarrow> wcslen m a = Some (of_nat (length s))"
    by (simp add: wcslen_def)
qed

lemma strchr_zstr:
  "zstr m a s \<Longrightarrow> strchr m a c = Some (if c \<in> set s then Some (a + of_nat (length (takeWhile (\<lambda>x. x \<noteq> c) s))) else None)"
proof (induction s arbitrary: a)
  case Nil
  then show ?case by (subst strchr.simps) simp
next
  case (Cons x s)
  then show ?case by (subst strchr.simps) (auto simp: algebra_simps)
qed

subsection \<open>Copying without overlap\<close>

text \<open>\<open>within a t k\<close>: the position \<open>a\<close> is one of the \<open>k\<close> positions from \<open>t\<close> on.\<close>

definition within :: "u32 \<Rightarrow> u32 \<Rightarrow> nat \<Rightarrow> bool" where
  "within a t k \<longleftrightarrow> unat (a - t) < k"

definition apart :: "u32 \<Rightarrow> u32 \<Rightarrow> nat \<Rightarrow> bool" where
  "apart t f k \<longleftrightarrow> (\<forall>i<k. \<not> within (f + of_nat i) t k)"

definition blit :: "'w::len mem \<Rightarrow> u32 \<Rightarrow> u32 \<Rightarrow> nat \<Rightarrow> 'w mem" where
  "blit m t f k = (\<lambda>a. if within a t k then m (f + (a - t)) else m a)"

lemma within_nth [simp]: "i < k \<Longrightarrow> k \<le> 2 ^ 32 \<Longrightarrow> within (t + of_nat i) t k"
  by (simp add: within_def unat_of_nat)

lemma not_within_end: "k < 2 ^ 32 \<Longrightarrow> \<not> within (t + of_nat k) t k"
  by (simp add: within_def unat_of_nat)

lemma within_Suc: "Suc k < 2 ^ 32 \<Longrightarrow> within a t (Suc k) \<longleftrightarrow> a = t \<or> within a (t + 1) k"
proof -
  assume k: "Suc k < 2 ^ 32"
  show ?thesis
  proof (cases "a = t")
    case False
    then have "a - t \<noteq> 0" by simp
    then have "unat (a - t - 1) = unat (a - t) - 1" "unat (a - t) \<noteq> 0"
      by (simp_all add: unat_minus_one unat_eq_zero)
    moreover have "a - (t + 1) = a - t - 1" by simp
    ultimately show ?thesis using False unfolding within_def by (metis Suc_less_eq Suc_pred bot_nat_0.not_eq_extremum diff_Suc_1)
  qed (simp add: within_def)
qed

lemma within_iff: "within a t k \<longleftrightarrow> (if t \<le> a then unat a - unat t < k else unat a + 2 ^ 32 - unat t < k)"
  by (simp add: within_def unat_sub_if_size word_size word_le_nat_alt)

lemma within_offset: "i + k \<le> n \<Longrightarrow> n < 2 ^ 32 \<Longrightarrow> within a (d + of_nat i) k \<Longrightarrow> within a d n"
proof -
  assume n: "i + k \<le> n" "n < 2 ^ 32" and w: "within a (d + of_nat i) k"
  define j where "j = unat (a - (d + of_nat i))"
  have j: "j < k" "a = d + of_nat (i + j)" using w by (simp_all add: j_def within_def)
  then show ?thesis using within_nth [of "i + j" n d] n by simp
qed

lemma within_mono: "within a t j \<Longrightarrow> j \<le> k \<Longrightarrow> within a t k"
  by (simp add: within_def)

lemma apart_mono: "apart t f k \<Longrightarrow> j \<le> k \<Longrightarrow> apart t f j"
  by (auto simp: apart_def dest: within_mono)

lemma apart_Suc:
  assumes "apart t f (Suc k)" and "Suc k < 2 ^ 32"
  shows "apart (t + 1) (f + 1) k" and "i < Suc k \<Longrightarrow> f + of_nat i \<noteq> t"
proof -
  show "apart (t + 1) (f + 1) k"
    unfolding apart_def
  proof (intro allI impI)
    fix i assume "i < k"
    then have "\<not> within (f + of_nat (Suc i)) t (Suc k)" using assms(1) by (auto simp: apart_def)
    then show "\<not> within (f + 1 + of_nat i) (t + 1) k"
      using within_Suc [OF assms(2)] by (simp add: algebra_simps)
  qed
  show "f + of_nat i \<noteq> t" if "i < Suc k"
    using assms(1) that within_nth [of 0 "Suc k" t] assms(2) by (auto simp: apart_def)
qed

lemma blit_Suc:
  assumes "apart t f (Suc k)" and "Suc k < 2 ^ 32"
  shows "blit (m(t := m f)) (t + 1) (f + 1) k = blit m t f (Suc k)"
proof
  fix a
  show "blit (m(t := m f)) (t + 1) (f + 1) k a = blit m t f (Suc k) a"
  proof (cases "within a (t + 1) k")
    case True
    define i where "i = unat (a - (t + 1))"
    have i: "i < k" "a = t + 1 + of_nat i"
      using True by (simp_all add: i_def within_def)
    then have "f + of_nat (Suc i) \<noteq> t" by (intro apart_Suc(2) [OF assms]) simp
    moreover have "f + 1 + (a - (t + 1)) = f + of_nat (Suc i)" "f + (a - t) = f + of_nat (Suc i)"
      using i(2) by simp_all
    ultimately show ?thesis
      using True within_Suc [OF assms(2), of a t] by (simp add: blit_def)
  next
    case False
    then show ?thesis
      using within_Suc [OF assms(2), of a t] by (auto simp: blit_def)
  qed
qed

text \<open>
  The copy moves \<open>k\<close> cells, where the loop stops at the count or after the first zero cell.
\<close>

lemma ncpy_loop_blit:
  "k \<le> n \<Longrightarrow> (\<And>i. Suc i < k \<Longrightarrow> m (f + of_nat i) \<noteq> 0) \<Longrightarrow> k = n \<or> k \<noteq> 0 \<and> m (f + of_nat (k - 1)) = 0
    \<Longrightarrow> apart t f k \<Longrightarrow> k < 2 ^ 32 \<Longrightarrow> ncpy_loop m t f n = blit m t f k"
proof (induction n arbitrary: m t f k)
  case 0
  then show ?case by (simp add: blit_def within_def)
next
  case (Suc n)
  let ?m = "m(t := m f)"
  from Suc.prems(1,3) obtain k' where k: "k = Suc k'" by (cases k) auto
  note ap = Suc.prems(4,5) [unfolded k]
  show ?case
  proof (cases "m f = 0")
    case True
    then have "k' = 0" using Suc.prems(2) [of 0] k by (cases k') auto
    then show ?thesis
      using True k by (auto simp: Let_def blit_def within_def fun_eq_iff unat_eq_zero)
  next
    case False
    have ne: "?m (f + 1 + of_nat i) = m (f + of_nat (Suc i))" if "i < k'" for i
      using apart_Suc(2) [OF ap, of "Suc i"] that by (simp add: add.assoc)
    have "ncpy_loop ?m (t + 1) (f + 1) n = blit ?m (t + 1) (f + 1) k'"
    proof (rule Suc.IH)
      show "k' \<le> n" using Suc.prems(1) k by simp
      show "?m (f + 1 + of_nat i) \<noteq> 0" if "Suc i < k'" for i
        using ne [of i] Suc.prems(2) [of "Suc i"] that k by (simp del: of_nat_Suc fun_upd_apply)
      show "k' = n \<or> k' \<noteq> 0 \<and> ?m (f + 1 + of_nat (k' - 1)) = 0"
        using ne [of "k' - 1"] Suc.prems(3) False k by (cases k') auto
      show "apart (t + 1) (f + 1) k'" by (rule apart_Suc(1) [OF ap])
      show "k' < 2 ^ 32" using ap(2) by simp
    qed
    then show ?thesis using False k blit_Suc [OF ap, of m] by (simp add: Let_def)
  qed
qed

lemma blit_nth: "i < k \<Longrightarrow> k \<le> 2 ^ 32 \<Longrightarrow> blit m t f k (t + of_nat i) = m (f + of_nat i)"
  by (simp add: blit_def)

lemma blit_other: "\<not> within a t k \<Longrightarrow> blit m t f k a = m a"
  by (simp add: blit_def)

lemma sint_small: "n < 2 ^ 31 \<Longrightarrow> nat (sint (of_nat n :: u32)) = n"
  by (simp add: sint_uint signed_take_bit_int_eq_self_iff unsigned_of_nat take_bit_nat_eq_self
      signed_take_bit_int_eq_self)

text \<open>\<open>strncpy\<close> of a string whose length is the count copies its characters and no terminator.\<close>

lemma strncpy_length:
  assumes "zstr m f s" and "length s < 2 ^ 31" and "apart t f (length s)"
  shows "strncpy m t f (of_nat (length s)) = blit m t f (length s)"
  unfolding strncpy_def sint_small [OF assms(2)]
proof (rule ncpy_loop_blit)
  show "m (f + of_nat i) \<noteq> 0" if "Suc i < length s" for i
    using zstr_nth [OF assms(1), of i] assms(1) that by (auto simp: zstr_def) (metis Suc_lessD nth_mem)
qed (use assms in auto)

lemma wcscpy_blit:
  assumes "zstr m f s" and "Suc (length s) < 2 ^ 31" and "apart t f (Suc (length s))"
  shows "wcscpy m t f = Some (blit m t f (Suc (length s)))"
proof -
  have "ncpy_loop m t f (Suc (length s)) = blit m t f (Suc (length s))"
  proof (rule ncpy_loop_blit)
    show "m (f + of_nat i) \<noteq> 0" if "Suc i < Suc (length s)" for i
      using zstr_nth [OF assms(1), of i] assms(1) that by (auto simp: zstr_def) (metis nth_mem)
  qed (use assms in auto)
  moreover have "of_nat (length s) + 1 = (of_nat (Suc (length s)) :: u32)" by simp
  ultimately show ?thesis
    using wcslen_zstr [OF assms(1)] sint_small [OF assms(2)]
    by (simp add: wcscpy_def wcsncpy_def del: of_nat_Suc ncpy_loop.simps)
qed

lemma zstr_blit:
  assumes "zstr m f s" and "Suc (length s) < 2 ^ 32"
  shows "zstr (blit m t f (Suc (length s))) t s"
proof -
  have "cells (blit m t f (Suc (length s))) t (s @ [0])"
    using assms zstr_nth [OF assms(1)] zstr_end [OF assms(1)]
    by (auto simp: cells_nth blit_nth nth_append less_Suc_eq)
  then show ?thesis using assms(1) by (simp add: zstr_def)
qed


subsection \<open>Conversion and comparison of strings\<close>

lemma apart_two:
  "apart t f (Suc (Suc 0)) \<longleftrightarrow> \<not> within f t (Suc (Suc 0)) \<and> \<not> within (f + 1) t (Suc (Suc 0))"
  by (auto simp: apart_def less_Suc_eq)

lemma not_within_first: "Suc k < 2 ^ 32 \<Longrightarrow> \<not> within d (d + 1) k"
  by (simp add: within_def)

lemma mbstowcs_loop_cells:
  "cells m s xs \<Longrightarrow> Suc (length xs) < 2 ^ 32 \<Longrightarrow>
     cells (mbstowcs_loop w m d s (length xs)) d (map scast xs @ [0])
     \<and> (\<forall>a. \<not> within a d (Suc (length xs)) \<longrightarrow> mbstowcs_loop w m d s (length xs) a = w a)"
proof (induction xs arbitrary: w d s)
  case Nil
  then show ?case by (auto simp: within_def)
next
  case (Cons x xs)
  let ?w = "w(d := scast (m s))"
  let ?r = "mbstowcs_loop ?w m (d + 1) (s + 1) (length xs)"
  have p: "cells m (s + 1) xs" "Suc (length xs) < 2 ^ 32" and x: "m s = x"
    using Cons.prems by auto
  note IH = Cons.IH [OF p, of "?w" "d + 1"]
  have "\<not> within d (d + 1) (Suc (length xs))" using Cons.prems(2) by (intro not_within_first) simp
  with IH have "?r d = ?w d" by blast
  moreover have "?r a = w a" if "\<not> within a d (Suc (length (x # xs)))" for a
  proof -
    from that have a: "a \<noteq> d" "\<not> within a (d + 1) (Suc (length xs))"
      using within_Suc [of "Suc (length xs)" a d] Cons.prems(2) by auto
    from IH a(2) have "?r a = ?w a" by blast
    with a(1) show ?thesis by simp
  qed
  moreover have "cells ?r (d + 1) (map scast xs @ [0])" using IH by blast
  ultimately show ?case using x by simp
qed

lemma wcstomb_loop_cells:
  "cells w s xs \<Longrightarrow> Suc (length xs) < 2 ^ 32 \<Longrightarrow>
     cells (wcstomb_loop m w d s (length xs)) d (map ucast xs @ [0])
     \<and> (\<forall>a. \<not> within a d (Suc (length xs)) \<longrightarrow> wcstomb_loop m w d s (length xs) a = m a)"
proof (induction xs arbitrary: m d s)
  case Nil
  then show ?case by (auto simp: within_def)
next
  case (Cons x xs)
  let ?m = "m(d := ucast (w s))"
  let ?r = "wcstomb_loop ?m w (d + 1) (s + 1) (length xs)"
  have p: "cells w (s + 1) xs" "Suc (length xs) < 2 ^ 32" and x: "w s = x"
    using Cons.prems by auto
  note IH = Cons.IH [OF p, of "?m" "d + 1"]
  have "\<not> within d (d + 1) (Suc (length xs))" using Cons.prems(2) by (intro not_within_first) simp
  with IH have "?r d = ?m d" by blast
  moreover have "?r a = m a" if "\<not> within a d (Suc (length (x # xs)))" for a
  proof -
    from that have a: "a \<noteq> d" "\<not> within a (d + 1) (Suc (length xs))"
      using within_Suc [of "Suc (length xs)" a d] Cons.prems(2) by auto
    from IH a(2) have "?r a = ?m a" by blast
    with a(1) show ?thesis by simp
  qed
  moreover have "cells ?r (d + 1) (map ucast xs @ [0])" using IH by blast
  ultimately show ?case using x by simp
qed

lemma ucast_scast_byte [simp]: "ucast (scast (x :: u8) :: u16) = x"
  by (rule bit_word_eqI) (simp add: bit_simps)

lemma scast_byte_zero [simp]: "(scast (x :: u8) :: u16) = 0 \<longleftrightarrow> x = 0"
  by (metis ucast_scast_byte ucast_0 scast_0)

lemma ucast_scast_byte32 [simp]: "ucast (scast (x :: u8) :: u32) = x"
  by (rule bit_word_eqI) (simp add: bit_simps)

lemma scast_byte_zero32 [simp]: "(scast (x :: u8) :: u32) = 0 \<longleftrightarrow> x = 0"
  by (metis ucast_scast_byte32 ucast_0 scast_0)

lemma of_nat_length_eq:
  "m < 2 ^ 32 \<Longrightarrow> n < 2 ^ 32 \<Longrightarrow> (of_nat m :: u32) = of_nat n \<longleftrightarrow> m = n"
  by (metis unat_of_nat_u32)

lemma strncmp_loop_zero:
  "cells m a xs \<Longrightarrow> cells m b ys \<Longrightarrow> length xs = length ys \<Longrightarrow> strncmp_loop m a b (length xs) = 0 \<longleftrightarrow> xs = ys"
  by (induction xs ys arbitrary: a b rule: list_induct2') (auto simp: Let_def)

lemma strnicmp_loop_zero:
  "cells m a xs \<Longrightarrow> cells m b ys \<Longrightarrow> length xs = length ys
    \<Longrightarrow> strnicmp_loop m a b (length xs) = 0 \<longleftrightarrow> map UPCASE xs = map UPCASE ys"
  by (induction xs ys arbitrary: a b rule: list_induct2') (auto simp: Let_def)

subsection \<open>Properties\<close>

text \<open>CX29: \<open>wcscat\<close> concatenates: the destination then holds the two strings one after the other and
  the terminator, and nothing else is written.\<close>

theorem wcscat_concatenates:
  assumes "zstr m d s" and "zstr m f t" and "length s + length t + 1 < 2 ^ 31"
    and "apart (d + of_nat (length s)) f (Suc (length t))"
  shows "\<exists>m'. wcscat m d f = Some m' \<and> zstr m' d (s @ t)
    \<and> (\<forall>a. \<not> within a (d + of_nat (length s)) (Suc (length t)) \<longrightarrow> m' a = m a)"
proof -
  let ?d = "d + of_nat (length s)"
  let ?m = "blit m ?d f (Suc (length t))"
  have cat: "wcscat m d f = Some ?m"
    using wcslen_zstr [OF assms(1)] wcscpy_blit [OF assms(2) _ assms(4)] assms(3) by (simp add: wcscat_def)
  have out: "\<not> within (d + of_nat i) ?d (Suc (length t))" if "i < length s" for i
  proof -
    let ?k = "2 ^ 32 - (length s - i)"
    have k: "?k < 2 ^ 32" using that by simp
    have "(of_nat (2 ^ 32) :: u32) = 0" by simp
    then have "d + of_nat i - ?d = (of_nat (2 ^ 32 - (length s - i)) :: u32)"
      using that assms(3) by (subst of_nat_diff) (auto simp: of_nat_diff)
    then have "unat (d + of_nat i - ?d) = ?k"
      using unat_of_nat_u32 [OF k] by (simp only:)
    then show ?thesis using assms(3) that by (simp add: within_def)
  qed
  have "cells ?m d s"
    unfolding cells_nth by (intro allI impI) (simp only: blit_other [OF out] zstr_nth [OF assms(1)])
  moreover have "zstr ?m ?d t" using assms(2,3) by (intro zstr_blit) auto
  ultimately have "zstr ?m d (s @ t)"
    using assms(1) by (auto simp: zstr_def cells_append add.assoc)
  with cat show ?thesis by (auto simp: blit_other)
qed

definition demo_w :: "16 mem" where
  "demo_w a = (if a = 0 then 0x41 else if a = 8 then 0x42 else 0)"

theorem wcscat_concatenates_witness:
  "\<exists>m'. wcscat demo_w 0 8 = Some m' \<and> zstr m' 0 ([0x41] @ [0x42])"
proof -
  have "zstr demo_w 0 [0x41]" "zstr demo_w 8 [0x42]" by (simp_all add: demo_w_def)
  moreover have "apart (0 + of_nat (length [0x41 :: u16])) 8 (Suc (length [0x42 :: u16]))"
    using apart_two [of 1 8] by (simp add: within_def)
  ultimately show ?thesis
    using wcscat_concatenates [of demo_w 0 "[0x41]" 8 "[0x42]"] by auto
qed

text \<open>CX34: \<open>strcpy\<close> copies the characters of the source string and not its terminator: the cell
  after them keeps what it held, so the destination is a string of the same length only when
  that cell was zero already.\<close>

theorem strcpy_leaves_terminator:
  assumes "zstr m f s" and "length s < 2 ^ 31" and "apart t f (length s)"
  shows "\<exists>m'. strcpy m t f = Some m' \<and> cells m' t s
    \<and> (\<forall>a. \<not> within a t (length s) \<longrightarrow> m' a = m a)
    \<and> (zstr m' t s \<longleftrightarrow> m (t + of_nat (length s)) = 0)"
proof -
  let ?m = "blit m t f (length s)"
  have "cells ?m t s"
    using assms(2) zstr_nth [OF assms(1)] by (auto simp: cells_nth blit_nth)
  moreover have "?m (t + of_nat (length s)) = m (t + of_nat (length s))"
    using assms(2) by (intro blit_other not_within_end) simp
  moreover have "0 \<notin> set s" using assms(1) by (simp add: zstr_def)
  ultimately show ?thesis
    using strlen_zstr [OF assms(1)] strncpy_length [OF assms]
    by (auto simp: strcpy_def blit_other zstr_def cells_append)
qed

definition demo_m :: "8 mem" where
  "demo_m a = (if a = 0 then 0x41 else if a = 8 then 0x42 else if a = 9 then 0x43 else 0)"

theorem strcpy_leaves_terminator_witness:
  "\<exists>m'. strcpy demo_m 8 0 = Some m' \<and> m' 8 = 0x41 \<and> \<not> zstr m' 8 [0x41]"
proof -
  have "zstr demo_m 0 [0x41]" by (simp add: demo_m_def)
  from strcpy_leaves_terminator [OF this, of 8] show ?thesis
    by (auto simp: apart_def within_def demo_m_def)
qed

text \<open>CX40: \<open>strcmp\<close> answers 0 exactly for equal strings and \<open>stricmp\<close> exactly for strings that
  are equal once their letters are upper case.\<close>

theorem strcmp_zero_iff:
  assumes "zstr m a s" and "zstr m b t" and "length s < 2 ^ 32" and "length t < 2 ^ 32"
  shows "(strcmp m a b = Some 0 \<longleftrightarrow> s = t) \<and> (stricmp m a b = Some 0 \<longleftrightarrow> map UPCASE s = map UPCASE t)"
proof -
  have c: "cells m a s" "cells m b t" using assms(1,2) by (auto simp: zstr_def cells_append)
  note len = of_nat_length_eq [OF assms(3,4)]
  note u = unat_of_nat_u32 [OF assms(3)]
  show ?thesis
  proof (cases "length s = length t")
    case True
    then show ?thesis
      using assms strncmp_loop_zero [OF c True] strnicmp_loop_zero [OF c True] u
      by (simp add: strcmp_def stricmp_def strlen_zstr [OF assms(1)] strlen_zstr [OF assms(2)]
          strncmp_def strnicmp_def)
  next
    case False
    then have "(of_nat (length t) - of_nat (length s) :: u32) \<noteq> 0" using len by auto
    with False len show ?thesis
      by (auto simp: strcmp_def stricmp_def strlen_zstr [OF assms(1)] strlen_zstr [OF assms(2)]
          dest: map_eq_imp_length_eq)
  qed
qed

theorem strcmp_zero_iff_witness:
  "(strcmp demo_m 0 0 = Some 0 \<longleftrightarrow> [0x41 :: u8] = [0x41])
    \<and> (stricmp demo_m 0 0 = Some 0 \<longleftrightarrow> map UPCASE [0x41] = map UPCASE [0x41])"
  by (rule strcmp_zero_iff) (simp_all add: demo_m_def)

text \<open>A byte string widened by \<open>mbstowcs\<close> and narrowed again by \<open>wcstomb\<close> is the string it
  was, also for bytes from 0x80 on, which are widened with their sign.\<close>

theorem mbstowcs_wcstomb_roundtrip:
  assumes "zstr m a s" and "Suc (length s) < 2 ^ 32" and "mbstowcs w m wp a (- 1) = Some (n, w')"
  shows "n = of_nat (length s) \<and> zstr w' wp (map scast s)
    \<and> (\<exists>m''. wcstomb m' w' mp wp (- 1) = Some (n, m'') \<and> zstr m'' mp s)"
proof -
  have u: "unat (of_nat (length s) :: u32) = length s" using assms(2) by simp
  have c: "cells m a s" "0 \<notin> set s" using assms(1) by (auto simp: zstr_def cells_append)
  have w': "n = of_nat (length s)" "w' = mbstowcs_loop w m wp a (length s)"
    using assms(3) strlen_zstr [OF assms(1)] u by (auto simp: mbstowcs_def)
  have z: "zstr w' wp (map scast s)"
    using mbstowcs_loop_cells [OF c(1) assms(2), of w wp] c(2) by (auto simp: zstr_def w'(2))
  then have "cells w' wp (map scast s)" by (simp add: zstr_def cells_append)
  from wcstomb_loop_cells [OF this, of m' mp] assms(2)
  have "cells (wcstomb_loop m' w' mp wp (length s)) mp (s @ [0])" by (simp add: comp_def)
  moreover have "wcstomb m' w' mp wp (- 1) = Some (n, wcstomb_loop m' w' mp wp (length s))"
    using wcslen_zstr [OF z] u w'(1) by (simp add: wcstomb_def)
  ultimately show ?thesis using z c(2) w'(1) by (auto simp: zstr_def)
qed

theorem mbstowcs_wcstomb_roundtrip_witness:
  "\<exists>w' m''. zstr w' 4 (map scast [0x41 :: u8]) \<and> wcstomb (\<lambda>_. 0) w' 6 4 (- 1) = Some (1, m'') \<and> zstr m'' 6 [0x41]"
proof -
  have z: "zstr demo_m 0 [0x41]" by (simp add: demo_m_def)
  have "mbstowcs (\<lambda>_. 0) demo_m 4 0 (- 1) = Some (1, mbstowcs_loop (\<lambda>_. 0) demo_m 4 0 1)"
    using strlen_zstr [OF z] by (simp add: mbstowcs_def)
  from mbstowcs_wcstomb_roundtrip [OF z _ this, of "\<lambda>_. 0" 6]
  have "zstr (mbstowcs_loop (\<lambda>_. 0) demo_m 4 0 1) 4 (map scast [0x41 :: u8])
    \<and> (\<exists>m''. wcstomb (\<lambda>_. 0) (mbstowcs_loop (\<lambda>_. 0) demo_m 4 0 1) 6 4 (- 1) = Some (1, m'') \<and> zstr m'' 6 [0x41])"
    by (simp only: list.size) (simp add: demo_m_def)
  then show ?thesis by blast
qed

end
