(* ===== verification/Fat.thy ===== *)
theory Fat
  imports RtlStr
begin

text \<open>
  The FAT file system driver (\<^verbatim>\<open>kernel/builtin/fsfat/fsfat.cpp\<close>): the file allocation table,
  cluster chains, reading a file, looking a name up, and mounting a volume. The boot sector,
  the loaded part of the table and the root directory are read from byte memory at the
  addresses the volume control block holds, so that a read outside the loaded table reads
  whatever follows it. Reading the raw device (\<open>IoReadFile\<close> on the raw file object, which goes
  down to a device driver) is the parameter \<open>raw\<close>: from an offset and a size to a status and
  the bytes that were transferred.
\<close>

type_synonym raw_device = "u32 \<Rightarrow> u32 \<Rightarrow> status \<times> u8 list"

subsection \<open>Reading the raw device\<close>

definition IoReadRaw :: "raw_device \<Rightarrow> 8 mem \<Rightarrow> u32 \<Rightarrow> u32 \<Rightarrow> u32 \<Rightarrow> status \<times> 8 mem" where
  "IoReadRaw raw m Buffer Size Offset =
     (case raw Offset Size of (st, bs) \<Rightarrow> (st, store_bytes m Buffer (take (unat Size) bs)))"

subsection \<open>Volume control block and on-disk structures (fsfat.h)\<close>

record vcb =
  ClusterSize :: u32
  BootSector :: u32
  Fat1StartSector :: u32
  Fat2StartSector :: u32
  DirStartSector :: u32
  Cluster2StartSector :: u32
  FirstFat :: u32
  SecondFat :: u32
  FatPtr :: u32
  SizeOfFatLoaded :: u32
  FullFatSize :: u32
  RootDirectory :: u32
  FatType :: u8
  SerialNumber :: u32

text \<open>The fields of \<open>FSFAT_HEADER\<close>, packed, at the boot sector's address.\<close>

definition fh_SectorSize :: "8 mem \<Rightarrow> u32 \<Rightarrow> u16" where "fh_SectorSize m b = rd16 m (b + 11)"
definition fh_SectorsPerCluster :: "8 mem \<Rightarrow> u32 \<Rightarrow> u8" where "fh_SectorsPerCluster m b = m (b + 13)"
definition fh_ReservedSectors :: "8 mem \<Rightarrow> u32 \<Rightarrow> u16" where "fh_ReservedSectors m b = rd16 m (b + 14)"
definition fh_NumberOfFats :: "8 mem \<Rightarrow> u32 \<Rightarrow> u8" where "fh_NumberOfFats m b = m (b + 16)"
definition fh_DirectoryEntries :: "8 mem \<Rightarrow> u32 \<Rightarrow> u16" where "fh_DirectoryEntries m b = rd16 m (b + 17)"
definition fh_Sectors :: "8 mem \<Rightarrow> u32 \<Rightarrow> u16" where "fh_Sectors m b = rd16 m (b + 19)"
definition fh_FatSectors :: "8 mem \<Rightarrow> u32 \<Rightarrow> u16" where "fh_FatSectors m b = rd16 m (b + 22)"
definition fh_SectorsLong :: "8 mem \<Rightarrow> u32 \<Rightarrow> u32" where "fh_SectorsLong m b = rd32 m (b + 32)"
definition fh_BootID :: "8 mem \<Rightarrow> u32 \<Rightarrow> u32" where "fh_BootID m b = rd32 m (b + 39)"
definition fh_FatSectors32 :: "8 mem \<Rightarrow> u32 \<Rightarrow> u32" where "fh_FatSectors32 m b = rd32 m (b + 36)"
definition fh_RootDirectoryCluster :: "8 mem \<Rightarrow> u32 \<Rightarrow> u32" where "fh_RootDirectoryCluster m b = rd32 m (b + 44)"

lemmas fh_defs = fh_SectorSize_def fh_SectorsPerCluster_def fh_ReservedSectors_def fh_NumberOfFats_def
  fh_DirectoryEntries_def fh_Sectors_def fh_FatSectors_def fh_SectorsLong_def fh_BootID_def
  fh_FatSectors32_def fh_RootDirectoryCluster_def

text \<open>The fields of \<open>FSFATDIR_ENT\<close> (32 bytes, packed) at a directory entry's address.\<close>

definition SIZEOF_DIRENT :: u32 where "SIZEOF_DIRENT = 32"
definition de_Attributes :: "8 mem \<Rightarrow> u32 \<Rightarrow> u8" where "de_Attributes m d = m (d + 11)"
definition de_StartClusterHigh :: "8 mem \<Rightarrow> u32 \<Rightarrow> u16" where "de_StartClusterHigh m d = rd16 m (d + 20)"
definition de_StartCluster :: "8 mem \<Rightarrow> u32 \<Rightarrow> u16" where "de_StartCluster m d = rd16 m (d + 26)"
definition de_FileSize :: "8 mem \<Rightarrow> u32 \<Rightarrow> u32" where "de_FileSize m d = rd32 m (d + 28)"

lemmas de_defs = de_Attributes_def de_StartClusterHigh_def de_StartCluster_def de_FileSize_def

subsection \<open>The type of the table\<close>

text \<open>\<open>None\<close> is a division by zero.\<close>

definition FsFatGetFatType :: "8 mem \<Rightarrow> u32 \<Rightarrow> u8 option" where
  "FsFatGetFatType m fh =
     (if fh_SectorSize m fh = 0 \<or> fh_SectorsPerCluster m fh = 0 then None
      else
        let RootDirSectors = (ucast (fh_DirectoryEntries m fh) * SIZEOF_DIRENT
              + (ucast (fh_SectorSize m fh) - 1)) div ucast (fh_SectorSize m fh);
            FatSz = (if fh_FatSectors m fh \<noteq> 0 then ucast (fh_FatSectors m fh) else fh_FatSectors32 m fh);
            TotalSectors = (if fh_Sectors m fh \<noteq> 0 then ucast (fh_Sectors m fh) else fh_SectorsLong m fh);
            DataSec = TotalSectors - (ucast (fh_ReservedSectors m fh)
              + ucast (fh_NumberOfFats m fh) * FatSz + RootDirSectors);
            CountOfClusters = DataSec div ucast (fh_SectorsPerCluster m fh)
        in Some (if CountOfClusters < 4085 then 12 else if CountOfClusters < 65525 then 16 else 32))"

subsection \<open>Reading an entry of the table\<close>

text \<open>
  \<open>None\<close> is a read that fails: the code then returns -1, after an \<open>ASSERT (FALSE)\<close> that stops a build with
  \<open>DBG\<close>. The model is the build without it.
\<close>

definition fat_word :: "raw_device \<Rightarrow> 8 mem \<Rightarrow> vcb \<Rightarrow> u32 \<Rightarrow> u16 option" where
  "fat_word raw m v nByte =
     (if nByte \<ge> SizeOfFatLoaded v then
        (case raw nByte 2 of (st, bs) \<Rightarrow>
           if \<not> SUCCESS st then None
           else Some (rd16 (store_bytes (\<lambda>_. 0) 0 (take 2 bs)) 0))
      else Some (rd16 m (FatPtr v + nByte)))"

definition FsFatReadFatEntry :: "raw_device \<Rightarrow> 8 mem \<Rightarrow> vcb \<Rightarrow> u32 \<Rightarrow> u32" where
  "FsFatReadFatEntry raw m v Index =
     (if FatType v = 12 then
        if Index mod 2 = 0 then
          let nByte = (Index * 3) div 2
          in case fat_word raw m v nByte of None \<Rightarrow> - 1 | Some Buffer \<Rightarrow> ucast (Buffer AND 0xFFF)
        else
          let nByte = (Index + 1) * 3 div 2 - 2
          in case fat_word raw m v nByte of None \<Rightarrow> - 1 | Some Buffer \<Rightarrow> ucast (drop_bit 4 Buffer)
      else if FatType v = 16 then ucast (rd16 m (FatPtr v + Index * 2))
      else if FatType v = 32 then rd32 m (FatPtr v + Index * 4) AND 0x0FFFFFFF
      else 0)"

record fsfat_clusters =
  Mask :: u32
  ReservedStart :: u32
  ReservedEnd :: u32
  BadCluster :: u32
  LastClusterStart :: u32

text \<open>The constants of the second row have five hexadecimal digits in the source.\<close>

definition Clusters12 :: fsfat_clusters where
  "Clusters12 = \<lparr>Mask = 0xFFF, ReservedStart = 0xFF0, ReservedEnd = 0xFF6, BadCluster = 0xFF7, LastClusterStart = 0xFF8\<rparr>"

definition Clusters16 :: fsfat_clusters where
  "Clusters16 = \<lparr>Mask = 0xFFFF, ReservedStart = 0xFFFF0, ReservedEnd = 0xFFFF6, BadCluster = 0xFFFF7, LastClusterStart = 0xFFFF8\<rparr>"

definition Clusters32 :: fsfat_clusters where
  "Clusters32 = \<lparr>Mask = 0x0FFFFFFF, ReservedStart = 0x0FFFFFF0, ReservedEnd = 0x0FFFFFF6, BadCluster = 0x0FFFFFF7,
     LastClusterStart = 0x0FFFFFF8\<rparr>"

definition FsFatGetClTable :: "u8 \<Rightarrow> fsfat_clusters option" where
  "FsFatGetClTable Size =
     (if Size = 12 then Some Clusters12
      else if Size = 16 then Some Clusters16
      else if Size = 32 then Some Clusters32
      else None)"

subsection \<open>Cluster chains\<close>

text \<open>
  The three tests that end a walk along a chain; \<open>None\<close> when the walk goes on. The codes are
  \<open>-1\<close> end of file, \<open>-3\<close> reserved, \<open>-2\<close> bad.
\<close>

definition chain_stop :: "fsfat_clusters \<Rightarrow> u32 \<Rightarrow> u32 option" where
  "chain_stop t Cluster =
     (if Cluster \<ge> LastClusterStart t then Some (- 1)
      else if Cluster \<ge> ReservedStart t \<and> Cluster \<le> ReservedEnd t then Some (- 3)
      else if Cluster = BadCluster t then Some (- 2)
      else None)"

fun chain_walk :: "raw_device \<Rightarrow> 8 mem \<Rightarrow> vcb \<Rightarrow> fsfat_clusters \<Rightarrow> nat \<Rightarrow> u32 \<Rightarrow> u32" where
  "chain_walk raw m v t 0 Cluster = Cluster"
| "chain_walk raw m v t (Suc n) Cluster =
     (let c = FsFatReadFatEntry raw m v Cluster
      in case chain_stop t c of Some code \<Rightarrow> code | None \<Rightarrow> chain_walk raw m v t n c)"

text \<open>\<open>None\<close>: the table of constants is NULL, since the type is none of 12, 16 and 32.\<close>

definition FsFatFileClusterByPos :: "raw_device \<Rightarrow> 8 mem \<Rightarrow> vcb \<Rightarrow> u32 \<Rightarrow> u32 \<Rightarrow> u32 option" where
  "FsFatFileClusterByPos raw m v ChainHead Pos =
     (case FsFatGetClTable (FatType v) of
        None \<Rightarrow> None
      | Some t \<Rightarrow> Some (chain_walk raw m v t (unat Pos) (ChainHead AND Mask t)))"

partial_function (option) chain_size :: "raw_device \<Rightarrow> 8 mem \<Rightarrow> vcb \<Rightarrow> fsfat_clusters \<Rightarrow> u32 \<Rightarrow> u32 \<Rightarrow> u32 option" where
  [code]: "chain_size raw m v t Cluster i =
     (let c = FsFatReadFatEntry raw m v Cluster
      in case chain_stop t c of Some code \<Rightarrow> Some i | None \<Rightarrow> chain_size raw m v t c (i + 1))"

definition FsFatSizeOfClusterChain :: "raw_device \<Rightarrow> 8 mem \<Rightarrow> vcb \<Rightarrow> u32 \<Rightarrow> u32 option" where
  "FsFatSizeOfClusterChain raw m v Head =
     (case FsFatGetClTable (FatType v) of
        None \<Rightarrow> None
      | Some t \<Rightarrow> chain_size raw m v t (Head AND Mask t) 1)"

subsection \<open>Reading clusters\<close>

definition FsFatReadCluster :: "raw_device \<Rightarrow> 8 mem \<Rightarrow> vcb \<Rightarrow> u32 \<Rightarrow> u32 \<Rightarrow> status \<times> 8 mem" where
  "FsFatReadCluster raw m v Cluster Buffer =
     (let Cluster' = Cluster - 2;
          StartSector = Cluster2StartSector v + Cluster' * ucast (fh_SectorsPerCluster m (BootSector v));
          Offset = StartSector * ucast (fh_SectorSize m (BootSector v))
      in IoReadRaw raw m Buffer (ClusterSize v) Offset)"

text \<open>
  \<open>FsFatPerformRead\<close>: the status, the memory after it and the value stored at \<open>nBytesRead\<close>
  (\<open>None\<close> when it is not stored). A fault inside the \<open>__try\<close> block (the NULL table, the division
  by a cluster size of zero) ends in a bugcheck, whose first argument is the exception code.
\<close>

definition KERNEL_MODE_EXCEPTION_NOT_HANDLED :: u32 where "KERNEL_MODE_EXCEPTION_NOT_HANDLED = 6"

definition FsFatPerformRead ::
    "raw_device \<Rightarrow> u32 \<Rightarrow> 8 mem \<Rightarrow> vcb \<Rightarrow> u32 \<Rightarrow> u32 \<Rightarrow> u32 \<Rightarrow> u32
      \<Rightarrow> bugcheck + (status \<times> 8 mem \<times> u32 option)" where
  "FsFatPerformRead raw exc_code m v DirEnt SectorNumber Buffer Size =
     (let fault = Inl (BugCheck KERNEL_MODE_EXCEPTION_NOT_HANDLED exc_code 0 0 0)
      in if Size = 0 then Inr (STATUS_SUCCESS, m, None)
      else case FsFatGetClTable (FatType v) of None \<Rightarrow> fault | Some t \<Rightarrow>
        (case FsFatFileClusterByPos raw m v
            (ucast (de_StartCluster m DirEnt) OR push_bit 16 (ucast (de_StartClusterHigh m DirEnt))) SectorNumber of
          None \<Rightarrow> fault
        | Some Cluster \<Rightarrow>
            if Cluster = - 1 then Inr (STATUS_END_OF_FILE, m, None)
            else if Cluster = - 2 then Inr (STATUS_PARTIAL_COMPLETION, m, None)
            else if Cluster = - 3 then Inr (STATUS_PARTIAL_COMPLETION, m, None)
            else if Cluster < 2 then Inr (STATUS_INVALID_PARAMETER, m, None)
            else case FsFatReadCluster raw m v Cluster Buffer of (Status, m') \<Rightarrow>
              if FsFatReadFatEntry raw m' v Cluster \<ge> LastClusterStart t then
                if ClusterSize v = 0 then fault
                else Inr (if SUCCESS Status then STATUS_SUCCESS else Status, m',
                          Some (de_FileSize m' DirEnt mod ClusterSize v))
              else Inr (if SUCCESS Status then STATUS_SUCCESS else Status, m', Some (ClusterSize v))))"

subsection \<open>Names\<close>

partial_function (option) strtoupr :: "8 mem \<Rightarrow> u32 \<Rightarrow> 8 mem option" where
  [code]: "strtoupr m s =
     (if m s \<noteq> 0 then
        strtoupr (if 0x61 \<le> m s \<and> m s \<le> 0x7A then m(s := m s + (0x41 - 0x61)) else m) (s + 1)
      else Some m)"

definition DOT :: u8 where "DOT = 0x2E"
definition SPACE_CH :: u8 where "SPACE_CH = 0x20"

definition FsFatNtNameToDosName :: "8 mem \<Rightarrow> u32 \<Rightarrow> u32 \<Rightarrow> 8 mem option" where
  "FsFatNtNameToDosName m filename dosname =
     Option.bind (strtoupr m filename) (\<lambda>m1.
       let m2 = store_bytes m1 dosname (replicate 11 SPACE_CH)
       in Option.bind (strchr m2 filename DOT) (\<lambda>dot.
            Option.bind
              (case dot of
                 Some dot' \<Rightarrow>
                   let dotpos = dot' - filename;
                       m3 = strncpy m2 dosname filename dotpos
                   in Some (strncpy m3 (dosname + 8) (filename + dotpos + 1) 3)
               | None \<Rightarrow>
                   Option.bind (strlen m2 filename) (\<lambda>n. Some (strncpy m2 dosname filename n)))
              (\<lambda>m4. Some (m4(dosname + 11 := 0)))))"

subsection \<open>Opening a file\<close>

record fs_state =
  Mem :: "8 mem"
  WMem :: "16 mem"
  Live :: "u32 set"
  FsContext :: "(u32 \<times> u32) option"

definition ExAllocate :: "u32 \<Rightarrow> u32 set \<Rightarrow> u32 set" where
  "ExAllocate p live = (if p = 0 then live else insert p live)"

text \<open>The search of the root directory; the count is the number of entries still to look at.\<close>

fun dir_scan :: "8 mem \<Rightarrow> u32 \<Rightarrow> u32 \<Rightarrow> nat \<Rightarrow> u32 option" where
  "dir_scan m dosname dirent 0 = None"
| "dir_scan m dosname dirent (Suc n) =
     (if strncmp m dosname dirent 11 = 0 then Some dirent
      else dir_scan m dosname (dirent + SIZEOF_DIRENT) n)"

definition FILE_WRITE_DATA :: u32 where "FILE_WRITE_DATA = 0x10"

datatype irp_result = PassDown | Completed status

text \<open>
  \<open>FsFatCreate\<close>. \<open>name\<close> is the position of the file object's relative name and \<open>Length\<close> its
  length in bytes; \<open>p_path\<close> and \<open>p_fcb\<close> are the pointers the heap returns for the path and the
  file control block, \<open>dosname\<close> the address of the local array, \<open>cc\<close> the status of
  \<open>CcInitializeFileCaching\<close>. \<open>None\<close>: the call does not return.
\<close>

definition FsFatCreate ::
    "bool \<Rightarrow> vcb \<Rightarrow> u16 \<Rightarrow> u32 \<Rightarrow> u32 \<Rightarrow> u32 \<Rightarrow> u32 \<Rightarrow> u32 \<Rightarrow> status \<Rightarrow> fs_state \<Rightarrow> (irp_result \<times> fs_state) option" where
  "FsFatCreate is_fsd v Length name DesiredAccess p_path p_fcb dosname cc s =
     (if is_fsd then Some (Completed STATUS_SUCCESS, s)
      else if Length = 0 then Some (PassDown, s)
      else
        let s1 = s\<lparr>Live := ExAllocate p_path (Live s)\<rparr>
        in Option.bind (wcstomb (Mem s1) (WMem s1) p_path (name + 1) (- 1)) (\<lambda>(n, m1).
          Option.bind (strchr m1 p_path 0x5C) (\<lambda>bs.
            if bs \<noteq> None then Some (Completed STATUS_NOT_SUPPORTED, s1\<lparr>Mem := m1\<rparr>)
            else Option.bind (FsFatNtNameToDosName m1 p_path dosname) (\<lambda>m2.
              let s2 = s1\<lparr>Mem := m2, Live := Live s1 - {p_path}\<rparr>;
                  fh = BootSector v;
                  numEntries = (if fh_DirectoryEntries m2 fh \<noteq> 0 then ucast (fh_DirectoryEntries m2 fh)
                    else (ucast (fh_SectorsPerCluster m2 fh) * ucast (fh_SectorSize m2 fh)) div SIZEOF_DIRENT)
              in case dir_scan m2 dosname (RootDirectory v) (unat numEntries) of
                   None \<Rightarrow> Some (Completed STATUS_NOT_FOUND, s2)
                 | Some dirent \<Rightarrow>
                     if de_Attributes m2 dirent AND 1 \<noteq> 0 \<and> DesiredAccess AND FILE_WRITE_DATA \<noteq> 0
                     then Some (Completed STATUS_ACCESS_DENIED, s2)
                     else if p_fcb = 0 then Some (Completed STATUS_INSUFFICIENT_RESOURCES, s2)
                     else Some (Completed cc, s2\<lparr>Live := ExAllocate p_fcb (Live s2),
                                 FsContext := Some (p_fcb, dirent)\<rparr>)))))"

text \<open>\<open>FsFatClose\<close>, up to the cache manager's part; a missing control block fails the assertion.\<close>

definition FsFatClose :: "bool \<Rightarrow> u16 \<Rightarrow> fs_state \<Rightarrow> (irp_result \<times> fs_state) option" where
  "FsFatClose is_fsd Length s =
     (if is_fsd then Some (Completed STATUS_SUCCESS, s)
      else if Length = 0 then Some (PassDown, s)
      else case FsContext s of
             None \<Rightarrow> None
           | Some (fcb, d) \<Rightarrow>
               Some (Completed STATUS_SUCCESS, s\<lparr>Live := Live s - {fcb}, FsContext := None\<rparr>))"

subsection \<open>Mounting a volume\<close>

text \<open>
  The resources a mount takes: heap blocks, the raw file object, the entry in the list of
  volumes. The pointers that the heap returns for the boot sector, the table and the root
  directory are arguments, and so are the statuses of \<open>ObQueryObjectName\<close> and \<open>IoCreateFile\<close>.
\<close>

record vol_state =
  VMem :: "8 mem"
  VLive :: "u32 set"
  RawOpen :: bool
  InVcbList :: bool

definition free_heap :: "u32 \<Rightarrow> vol_state \<Rightarrow> vol_state" where
  "free_heap p s = s\<lparr>VLive := VLive s - {p}\<rparr>"

definition IoCloseFile :: "vol_state \<Rightarrow> vol_state" where
  "IoCloseFile s = s\<lparr>RawOpen := False\<rparr>"

definition vol_read :: "raw_device \<Rightarrow> u32 \<Rightarrow> u32 \<Rightarrow> u32 \<Rightarrow> vol_state \<Rightarrow> status \<times> vol_state" where
  "vol_read raw Buffer Size Offset s =
     (case IoReadRaw raw (VMem s) Buffer Size Offset of (st, m) \<Rightarrow> (st, s\<lparr>VMem := m\<rparr>))"

definition vcb_geometry :: "8 mem \<Rightarrow> vcb \<Rightarrow> vcb option" where
  "vcb_geometry m v =
     (let fh = BootSector v;
          FatSectors = (if fh_FatSectors m fh \<noteq> 0 then ucast (fh_FatSectors m fh) else fh_FatSectors32 m fh);
          ss = ucast (fh_SectorSize m fh) :: u32;
          fat1 = ucast (fh_ReservedSectors m fh);
          fat2 = fat1 + FatSectors;
          dir = fat2 + FatSectors;
          c2 = dir + ALIGN_UP (ucast (fh_DirectoryEntries m fh) * SIZEOF_DIRENT) ss div ss;
          full = FatSectors * ss
      in if ss = 0 then None
         else map_option (\<lambda>t.
           v\<lparr>Fat1StartSector := fat1, Fat2StartSector := fat2, DirStartSector := dir,
             Cluster2StartSector := c2, ClusterSize := ucast (fh_SectorsPerCluster m fh) * ss,
             SerialNumber := fh_BootID m fh, FatType := t, FullFatSize := full,
             SizeOfFatLoaded := (if full > 0x1000 * 3 then 0x1000 * 3 else full)\<rparr>)
             (FsFatGetFatType m fh))"

text \<open>The loop that reads a dynamic root directory; the status is that of its last read.\<close>

partial_function (option) read_root :: "raw_device \<Rightarrow> vcb \<Rightarrow> u32 \<Rightarrow> u32 \<Rightarrow> status \<Rightarrow> vol_state \<Rightarrow> (status \<times> vol_state) option" where
  [code]: "read_root raw v Cluster iBufferPos Status s =
     (if Cluster \<ge> 2 \<and> Cluster < 0xFF0 then
        case FsFatReadCluster raw (VMem s) v Cluster iBufferPos of (st, m) \<Rightarrow>
          read_root raw v (FsFatReadFatEntry raw m v Cluster) (iBufferPos + ClusterSize v) st (s\<lparr>VMem := m\<rparr>)
      else Some (Status, s))"

definition load_root ::
    "raw_device \<Rightarrow> u32 \<Rightarrow> vcb \<Rightarrow> status \<Rightarrow> vol_state \<Rightarrow> (status \<times> vcb \<times> vol_state) option" where
  "load_root raw p_root v Status s =
     (let m = VMem s; fh = BootSector v;
          no_memory = Some (STATUS_INSUFFICIENT_RESOURCES, v\<lparr>RootDirectory := 0\<rparr>,
            IoCloseFile (free_heap (BootSector v) (free_heap (FatPtr v) s)));
          s1 = s\<lparr>VLive := ExAllocate p_root (VLive s)\<rparr>;
          v1 = v\<lparr>RootDirectory := p_root\<rparr>;
          finish = (\<lambda>(st, s').
            if \<not> SUCCESS st then
              (st, v1, IoCloseFile (free_heap (BootSector v1) (free_heap (FatPtr v1) (free_heap p_root s'))))
            else (STATUS_SUCCESS, v1, s'\<lparr>InVcbList := True\<rparr>))
      in if fh_DirectoryEntries m fh \<noteq> 0 then
           if p_root = 0 then no_memory
           else Some (finish (vol_read raw p_root (ucast (fh_DirectoryEntries m fh) * SIZEOF_DIRENT)
                  (DirStartSector v * ucast (fh_SectorSize m fh)) s1))
         else Option.bind (FsFatSizeOfClusterChain raw m v (fh_RootDirectoryCluster m fh)) (\<lambda>RootDirSize.
           if p_root = 0 then no_memory
           else map_option finish (read_root raw v1 (fh_RootDirectoryCluster m fh) p_root Status s1)))"

definition FsFatCreateVcb ::
    "raw_device \<Rightarrow> status \<Rightarrow> status \<Rightarrow> u32 \<Rightarrow> u32 \<Rightarrow> u32 \<Rightarrow> vcb \<Rightarrow> vol_state
      \<Rightarrow> (status \<times> vcb \<times> vol_state) option" where
  "FsFatCreateVcb raw ob_status create_status p_boot p_fat p_root v s =
     (if \<not> SUCCESS ob_status then Some (ob_status, v, s)
      else if \<not> SUCCESS create_status then Some (create_status, v, s)
      else
        let s1 = s\<lparr>RawOpen := True, VLive := ExAllocate p_boot (VLive s)\<rparr>;
            v1 = v\<lparr>BootSector := p_boot\<rparr>
        in if p_boot = 0 then Some (STATUS_INSUFFICIENT_RESOURCES, v1, IoCloseFile s1)
        else case vol_read raw p_boot 512 0 s1 of (st, s2) \<Rightarrow>
        if \<not> SUCCESS st then Some (st, v1, IoCloseFile (free_heap p_boot s2))
        else Option.bind (vcb_geometry (VMem s2) v1) (\<lambda>v2.
          let ss = ucast (fh_SectorSize (VMem s2) p_boot) :: u32;
              s3 = s2\<lparr>VLive := ExAllocate p_fat (VLive s2)\<rparr>;
              v3 = v2\<lparr>FatPtr := p_fat, FirstFat := p_fat\<rparr>
          in if p_fat = 0 then
               Some (STATUS_INSUFFICIENT_RESOURCES, v3, IoCloseFile (free_heap p_boot s3))
             else case vol_read raw p_fat (SizeOfFatLoaded v3) (Fat1StartSector v3 * ss) s3 of (st1, s4) \<Rightarrow>
               if SUCCESS st1 then load_root raw p_root v3 st1 s4
               else
                 let v4 = v3\<lparr>SecondFat := FirstFat v3, FatPtr := FirstFat v3, FirstFat := 0\<rparr>
                 in case vol_read raw p_fat (SizeOfFatLoaded v4) (Fat2StartSector v4 * ss) s4 of (st2, s5) \<Rightarrow>
                      if SUCCESS st2 then load_root raw p_root v4 st2 s5
                      else Some (st2, v4, IoCloseFile (free_heap p_boot (free_heap p_fat s5)))))"

definition FsFatCloseVcb :: "vcb \<Rightarrow> vol_state \<Rightarrow> vol_state" where
  "FsFatCloseVcb v s =
     (let s1 = s\<lparr>InVcbList := False\<rparr>;
          s2 = free_heap (RootDirectory v) s1;
          s3 = (if FirstFat v \<noteq> 0 then free_heap (FirstFat v) s2 else s2);
          s4 = (if SecondFat v \<noteq> 0 then free_heap (SecondFat v) s3 else s3)
      in IoCloseFile (free_heap (BootSector v) s4))"

subsection \<open>Encoding of the table\<close>

text \<open>The table as the disk holds it: two 12-bit entries in three bytes, or 2 or 4 bytes each.\<close>

fun enc12 :: "u16 list \<Rightarrow> u8 list" where
  "enc12 [] = []"
| "enc12 [a] = [ucast a, ucast (drop_bit 8 a)]"
| "enc12 (a # b # es) =
     ucast a # (ucast (drop_bit 8 a) OR push_bit 4 (ucast b)) # ucast (drop_bit 4 b) # enc12 es"

fun enc32 :: "u32 list \<Rightarrow> u8 list" where
  "enc32 [] = []"
| "enc32 (e # es) = ucast e # ucast (drop_bit 8 e) # ucast (drop_bit 16 e) # ucast (drop_bit 24 e) # enc32 es"

lemma bits12: "bit (a :: u16) n \<Longrightarrow> a < 0x1000 \<Longrightarrow> n < 12"
proof (rule ccontr)
  assume a: "a < 0x1000" and n: "bit a n" "\<not> n < 12"
  then have "unat a < 2 ^ 12" by (simp add: word_less_nat_alt)
  then have "\<not> bit (unat a) n" using n(2)
    by (metis bit_take_bit_iff take_bit_nat_eq_self)
  with n(1) show False by (simp add: bit_unsigned_iff)
qed

lemma mask12: "(0xFFF :: u16) = mask 12"
  by (simp add: mask_eq_exp_minus_1)

lemma dec12_even:
  "a < 0x1000 \<Longrightarrow> (ucast (ucast a :: u8) OR push_bit 8 (ucast ((ucast (drop_bit 8 a) :: u8) OR push_bit 4 (ucast b)))) AND 0xFFF = (a :: u16)"
  unfolding mask12
  by (intro bit_word_eqI) (auto simp: bit_simps dest: bits12)

lemma dec12_odd:
  "b < 0x1000 \<Longrightarrow> a < 0x1000 \<Longrightarrow> drop_bit 4 (ucast ((ucast (drop_bit 8 a) :: u8) OR push_bit 4 (ucast b)) OR push_bit 8 (ucast (ucast (drop_bit 4 b) :: u8))) = (b :: u16)"
  for a :: u16
proof (intro bit_word_eqI)
  fix n assume "b < 0x1000" "a < 0x1000" "n < LENGTH(16)"
  then show "bit (drop_bit 4 (ucast ((ucast (drop_bit 8 a) :: u8) OR push_bit 4 (ucast b)) OR push_bit 8 (ucast (ucast (drop_bit 4 b) :: u8))) :: u16) n = bit b n"
    by (cases "n < 4"; cases "n < 12") (auto simp: bit_simps dest: bits12)
qed

lemma rd32_enc32:
  assumes "cells m a (enc32 [e])"
  shows "rd32 m a = e"
proof (rule bit_word_eqI)
  fix n assume "n < LENGTH(32)"
  with assms show "bit (rd32 m a) n = bit e n"
    by (cases "n < 8"; cases "n < 16"; cases "n < 24") (auto simp: rd32_def rd16_def bit_simps add.assoc)
qed

text \<open>Where an entry lies in the encoded table and how its bits come out.\<close>

lemma enc12_entry:
  "cells m a (enc12 es) \<Longrightarrow> i < length es \<Longrightarrow> \<forall>e\<in>set es. e < 0x1000
    \<Longrightarrow> (if even i then rd16 m (a + of_nat (3 * (i div 2))) AND 0xFFF = es ! i
         else drop_bit 4 (rd16 m (a + of_nat (3 * (i div 2)) + 1)) = es ! i)"
proof (induction es arbitrary: a i rule: enc12.induct)
  case (2 e)
  then have "e < 0x1000" "i = 0" by auto
  moreover have "(ucast (ucast e :: u8) OR push_bit 8 (ucast (ucast (drop_bit 8 e) :: u8))) AND 0xFFF = (e :: u16)"
    using dec12_even [OF \<open>e < 0x1000\<close>, of 0] by simp
  ultimately show ?case using 2(1) by (simp add: rd16_def)
next
  case (3 x y es)
  have xy: "x < 0x1000" "y < 0x1000" using "3.prems"(3) by auto
  show ?case
  proof (cases "i < 2")
    case True
    then have "i = 0 \<or> i = 1" by auto
    then show ?thesis
      using "3.prems"(1) dec12_even [OF xy(1), of y] dec12_odd [OF xy(2,1)]
      by (auto simp: rd16_def add.assoc)
  next
    case False
    then obtain j where j: "i = j + 2" by (metis le_add_diff_inverse2 not_less)
    have c: "cells m (a + 3) (enc12 es)" using "3.prems"(1) by (simp add: add.assoc)
    have "3 * (i div 2) = 3 + 3 * (j div 2)" using j by simp
    then have pos: "a + of_nat (3 * (i div 2)) = a + 3 + of_nat (3 * (j div 2))" by simp
    have e: "even i = even j" "(x # y # es) ! i = es ! j" "j < length es" "\<forall>e\<in>set es. e < 0x1000"
      using j "3.prems" by auto
    show ?thesis unfolding pos e(1,2) by (rule "3.IH" [OF c e(3,4)])
  qed
qed simp

lemma enc32_entry:
  "cells m a (enc32 es) \<Longrightarrow> i < length es \<Longrightarrow> rd32 m (a + of_nat (4 * i)) = es ! i"
proof (induction es arbitrary: a i)
  case (Cons e es)
  have c: "cells m a (enc32 [e])" "cells m (a + 4) (enc32 es)" using Cons.prems(1) by (simp_all add: add.assoc)
  show ?case
  proof (cases i)
    case 0
    then show ?thesis using rd32_enc32 [OF c(1)] by simp
  next
    case (Suc j)
    have "a + of_nat (4 * i) = a + 4 + of_nat (4 * j)" using Suc by simp
    then show ?thesis using Cons.IH [OF c(2), of j] Cons.prems(2) Suc by (simp only: nth_Cons_Suc length_Cons Suc_less_eq)
  qed
qed simp

subsection \<open>Chains\<close>

text \<open>
  \<open>is_chain tab t cs\<close>: the clusters \<open>cs\<close> follow one another in the table and the last one
  holds an end mark.
\<close>

fun is_chain :: "(u32 \<Rightarrow> u32) \<Rightarrow> fsfat_clusters \<Rightarrow> u32 list \<Rightarrow> bool" where
  "is_chain tab t [] \<longleftrightarrow> False"
| "is_chain tab t [c] \<longleftrightarrow> tab c \<ge> LastClusterStart t"
| "is_chain tab t (c # d # cs) \<longleftrightarrow> tab c = d \<and> chain_stop t d = None \<and> is_chain tab t (d # cs)"

lemma chain_walk_chain:
  "is_chain (FsFatReadFatEntry raw m v) t cs
    \<Longrightarrow> chain_walk raw m v t p (hd cs) = (if p < length cs then cs ! p else - 1)"
proof (induction p arbitrary: cs)
  case 0
  then show ?case by (cases cs) auto
next
  case (Suc p)
  then obtain c cs' where cs: "cs = c # cs'" by (cases cs) auto
  show ?case
  proof (cases cs')
    case Nil
    then show ?thesis using Suc.prems cs by (simp add: chain_stop_def)
  next
    case (Cons d ds)
    then show ?thesis using Suc.prems Suc.IH [of cs'] cs by simp
  qed
qed

lemma chain_size_chain:
  "is_chain (FsFatReadFatEntry raw m v) t cs
    \<Longrightarrow> chain_size raw m v t (hd cs) i = Some (i + of_nat (length cs) - 1)"
proof (induction cs arbitrary: i rule: induct_list012)
  case (2 c)
  then show ?case by (subst chain_size.simps) (simp add: chain_stop_def Let_def)
next
  case (3 c d cs)
  then show ?case by (subst chain_size.simps) (simp add: Let_def algebra_simps)
qed simp

text \<open>On a 16-bit table no entry ends a walk: the constants are out of reach.\<close>

lemma chain_stop_16: "c \<le> 0xFFFF \<Longrightarrow> chain_stop (Clusters16) c = None"
proof -
  assume "c \<le> 0xFFFF"
  then have "c < 0xFFFF0" "c < 0xFFFF8" "c \<noteq> 0xFFFF7" by (auto simp: word_le_nat_alt word_less_nat_alt)
  then show ?thesis by (auto simp: chain_stop_def Clusters16_def)
qed

lemma entry_16: "FatType v = 16 \<Longrightarrow> FsFatReadFatEntry raw m v c \<le> 0xFFFF"
proof -
  have "unat (w :: u16) \<le> 0xFFFF" for w
  proof -
    have "unat w < 2 ^ LENGTH(16)" by (rule unsigned_less)
    then show ?thesis by simp
  qed
  then show "FatType v = 16 \<Longrightarrow> FsFatReadFatEntry raw m v c \<le> 0xFFFF"
    by (simp add: FsFatReadFatEntry_def word_le_nat_alt)
qed

lemma walk_16: "FatType v = 16 \<Longrightarrow> c \<le> 0xFFFF \<Longrightarrow> chain_walk raw m v (Clusters16) n c \<le> 0xFFFF"
  by (induction n arbitrary: c) (simp_all add: Let_def chain_stop_16 [OF entry_16] entry_16)

lemma size_16:
  assumes "FatType v = 16"
  shows "chain_size raw m v (Clusters16) c i = None"
proof (rule ccontr)
  assume "chain_size raw m v (Clusters16) c i \<noteq> None"
  then obtain r where ret: "chain_size raw m v (Clusters16) c i = Some r" by blast
  have "FatType v = 16 \<and> Clusters16 = Clusters16 \<longrightarrow> False"
  proof (rule chain_size.raw_induct [where P = "\<lambda>raw m v t c i r. FatType v = 16 \<and> t = Clusters16 \<longrightarrow> False", OF _ ret])
    fix f raw m v t c i r
    assume IH: "\<And>raw m v t c i r. f raw m v t c i = Some r \<Longrightarrow> FatType v = 16 \<and> t = Clusters16 \<longrightarrow> False"
      and eq: "(let c = FsFatReadFatEntry raw m v c
        in case chain_stop t c of Some code \<Rightarrow> Some i | None \<Rightarrow> f raw m v t c (i + 1)) = Some r"
    show "FatType v = 16 \<and> t = Clusters16 \<longrightarrow> False"
      using eq IH [of raw m v t "FsFatReadFatEntry raw m v c" "i + 1" r] chain_stop_16 [OF entry_16 [of v raw m c]]
      by (auto simp: Let_def)
  qed
  with assms show False by blast
qed

subsection \<open>Properties of the table and of chains\<close>

lemma enc16_entry:
  assumes "cells m a (concat (map (\<lambda>e. [ucast e, ucast (drop_bit 8 e)]) es))" and "i < length es"
  shows "rd16 m (a + of_nat (2 * i)) = es ! i"
  using assms
proof (induction es arbitrary: a i)
  case (Cons e es)
  have c: "cells m (a + 2) (concat (map (\<lambda>e. [ucast e, ucast (drop_bit 8 e)]) es))"
    using Cons.prems(1) by (simp add: add.assoc)
  show ?case
  proof (cases i)
    case 0
    have "(ucast (ucast e :: u8) OR push_bit 8 (ucast (ucast (drop_bit 8 e) :: u8))) = (e :: u16)"
      by (rule bit_word_eqI) (auto simp: bit_simps)
    then show ?thesis using Cons.prems(1) 0 by (simp add: rd16_def)
  next
    case (Suc j)
    have "a + of_nat (2 * i) = a + 2 + of_nat (2 * j)" using Suc by simp
    then show ?thesis using Cons.IH [OF c, of j] Cons.prems(2) Suc by (simp only: nth_Cons_Suc length_Cons Suc_less_eq)
  qed
qed simp

definition enc_table :: "u8 \<Rightarrow> u32 list \<Rightarrow> u8 list" where
  "enc_table t es =
     (if t = 12 then enc12 (map ucast es)
      else if t = 16 then concat (map (\<lambda>e. [ucast e, ucast (drop_bit 8 e)]) (map ucast es :: u16 list))
      else enc32 es)"

definition entry_fits :: "u8 \<Rightarrow> u32 \<Rightarrow> bool" where
  "entry_fits t e \<longleftrightarrow> (if t = 12 then e < 0x1000 else if t = 16 then e < 0x10000 else e < 0x10000000)"

lemma ucast_small: "(e :: u32) < 0x10000 \<Longrightarrow> ucast (ucast e :: u16) = e"
  by (simp add: word_unat_eq_iff word_less_nat_alt unsigned_ucast_eq unsigned_take_bit_eq take_bit_nat_eq_self)

lemma ucast_12: "(e :: u32) < 0x1000 \<Longrightarrow> (ucast e :: u16) < 0x1000"
  by (simp add: word_less_nat_alt unsigned_ucast_eq take_bit_nat_eq_self)

lemma mask28: "(e :: u32) < 0x10000000 \<Longrightarrow> e AND 0x0FFFFFFF = e"
proof -
  assume "e < 0x10000000"
  then have "take_bit 28 e = e"
    by (simp add: word_unat_eq_iff word_less_nat_alt unsigned_take_bit_eq take_bit_nat_eq_self)
  moreover have "(0x0FFFFFFF :: u32) = mask 28" by (simp add: mask_eq_exp_minus_1)
  ultimately show ?thesis by (simp only: take_bit_eq_mask)
qed

lemma read12_odd:
  "FatType v = 12 \<Longrightarrow> Index mod 2 \<noteq> 0 \<Longrightarrow> (Index + 1) * 3 div 2 - 2 = nb \<Longrightarrow> \<not> nb \<ge> SizeOfFatLoaded v
    \<Longrightarrow> FsFatReadFatEntry raw m v Index = ucast (drop_bit 4 (rd16 m (FatPtr v + nb)))"
  unfolding FsFatReadFatEntry_def fat_word_def Let_def by simp

text \<open>C2: the driver reads back the entry that the on-disk encoding of the table holds, for each of
  the three table types: 12-bit entries packed two in three bytes, 16-bit entries and 32-bit
  entries.\<close>

theorem fat_entry_roundtrip:
  assumes "FatType v \<in> {12, 16, 32}" and "cells m (FatPtr v) (enc_table (FatType v) es)"
    and "\<forall>e\<in>set es. entry_fits (FatType v) e" and "i < length es" and "i < 2 ^ 28"
    and "3 * (i div 2) + 1 < unat (SizeOfFatLoaded v)"
  shows "FsFatReadFatEntry raw m v (of_nat i) = es ! i"
proof -
  have fit: "entry_fits (FatType v) (es ! i)" using assms(3,4) by simp
  have mod: "of_nat i mod 2 = (of_nat (i mod 2) :: u32)"
    using of_nat_mod_u32 [of i 2] assms(5) by simp
  consider (t12) "FatType v = 12" | (t16) "FatType v = 16" | (t32) "FatType v = 32" using assms(1) by blast
  then show ?thesis
  proof cases
    case t12
    let ?es = "map ucast es :: u16 list"
    have c: "cells m (FatPtr v) (enc12 ?es)" "i < length ?es" "\<forall>e\<in>set ?es. e < 0x1000"
      using assms(2,3,4) t12 ucast_12 by (auto simp: enc_table_def entry_fits_def)
    have es: "ucast (?es ! i) = es ! i"
      using fit t12 assms(4) by (simp add: entry_fits_def ucast_small word_less_nat_alt)
    show ?thesis
    proof (cases "even i")
      case True
      then have "of_nat i * 3 div 2 = (of_nat (3 * (i div 2)) :: u32)"
        using of_nat_div_u32 [of "i * 3" 2] assms(5) by (auto elim!: evenE)
      moreover have "3 * (i div 2) < unat (SizeOfFatLoaded v)" "3 * (i div 2) < 2 ^ 32"
        using assms(5,6) by auto
      then have "\<not> of_nat (3 * (i div 2)) \<ge> SizeOfFatLoaded v"
        by (simp add: word_le_nat_alt unat_of_nat_u32 del: of_nat_mult)
      ultimately show ?thesis
        using enc12_entry [OF c] True mod t12 es by (simp add: FsFatReadFatEntry_def fat_word_def Let_def)
    next
      case False
      then obtain k where k: "i = 2 * k + 1" by (auto elim!: oddE)
      have "(of_nat i + 1) * 3 div 2 = (of_nat (3 * k + 3) :: u32)"
        using of_nat_div_u32 [of "(i + 1) * 3" 2] assms(5) k by (simp add: algebra_simps)
      then have pos: "(of_nat i + 1) * 3 div 2 - 2 = (of_nat (3 * (i div 2)) + 1 :: u32)"
        using k by simp
      have ge: "\<not> of_nat (3 * (i div 2)) + 1 \<ge> SizeOfFatLoaded v"
      proof -
        have "unat (of_nat (3 * (i div 2) + 1) :: u32) = 3 * (i div 2) + 1" using assms(5) by (intro unat_of_nat_u32) simp
        then show ?thesis using assms(6) by (simp add: word_le_nat_alt add.commute)
      qed
      have "i mod 2 = 1" using False by presburger
      with mod have "of_nat i mod 2 \<noteq> (0 :: u32)" by simp
      from read12_odd [OF t12 this pos ge] show ?thesis
        using enc12_entry [OF c] False es by (simp add: add.assoc)
    qed
  next
    case t16
    have "cells m (FatPtr v) (concat (map (\<lambda>e. [ucast e, ucast (drop_bit 8 e)]) (map ucast es :: u16 list)))"
      using assms(2) t16 by (simp add: enc_table_def)
    from enc16_entry [OF this, of i] show ?thesis
      using fit t16 assms(4) by (simp add: FsFatReadFatEntry_def entry_fits_def ucast_small mult.commute)
  next
    case t32
    have "cells m (FatPtr v) (enc32 es)" using assms(2) t32 by (simp add: enc_table_def)
    from enc32_entry [OF this assms(4)] show ?thesis
      using fit t32 by (simp add: FsFatReadFatEntry_def entry_fits_def mask28 mult.commute)
  qed
qed

lemma store_bytes_other: "\<not> within a b (length bs) \<Longrightarrow> length bs < 2 ^ 32 \<Longrightarrow> store_bytes m b bs a = m a"
proof (induction bs arbitrary: m b)
  case (Cons x bs)
  then have "a \<noteq> b" "\<not> within a (b + 1) (length bs)" using within_Suc [of "length bs" a b] by auto
  moreover from this(2) Cons.prems(2) have "store_bytes (m(b := x)) (b + 1) bs a = (m(b := x)) a"
    by (intro Cons.IH) auto
  ultimately show ?case by simp
qed simp

lemma store_bytes_cells: "length bs < 2 ^ 32 \<Longrightarrow> cells (store_bytes m b bs) b bs"
proof (induction bs arbitrary: m b)
  case (Cons x bs)
  have "store_bytes (m(b := x)) (b + 1) bs b = (m(b := x)) b"
    using Cons.prems not_within_first [of "length bs" b] by (intro store_bytes_other) auto
  with Cons show ?case by simp
qed simp

definition dead_device :: raw_device where
  "dead_device = (\<lambda>_ _. (STATUS_UNSUCCESSFUL, []))"

definition demo_fat :: "u32 list" where
  "demo_fat = [0xFF0, 0xFFF, 3, 5, 0, 0xFFF]"

definition demo_vcb :: vcb where
  "demo_vcb = \<lparr>ClusterSize = 512, BootSector = 0x1000, Fat1StartSector = 1, Fat2StartSector = 10,
     DirStartSector = 19, Cluster2StartSector = 33, FirstFat = 0x100, SecondFat = 0, FatPtr = 0x100,
     SizeOfFatLoaded = 0x1200, FullFatSize = 0x1200, RootDirectory = 0x8000, FatType = 12, SerialNumber = 0\<rparr>"

definition demo_mem :: "8 mem" where
  "demo_mem = store_bytes (store_bytes (\<lambda>_. 0) 0x100 (enc_table 12 demo_fat)) 0x9000 [2, 0, 0, 6, 0, 0]"

lemma demo_entry:
  "FsFatReadFatEntry raw demo_mem demo_vcb 2 = 3"
  "FsFatReadFatEntry raw demo_mem demo_vcb 3 = 5"
  "FsFatReadFatEntry raw demo_mem demo_vcb 5 = 0xFFF"
  by (simp_all add: FsFatReadFatEntry_def fat_word_def demo_vcb_def demo_mem_def demo_fat_def enc_table_def rd16_def)

theorem fat_entry_roundtrip_witness:
  "FsFatReadFatEntry dead_device demo_mem demo_vcb (of_nat 3) = demo_fat ! 3"
proof (rule fat_entry_roundtrip)
  show "cells demo_mem (FatPtr demo_vcb) (enc_table (FatType demo_vcb) demo_fat)"
    by (simp add: demo_vcb_def demo_mem_def demo_fat_def enc_table_def)
qed (simp_all add: demo_vcb_def demo_fat_def entry_fits_def)

text \<open>C29: for a chain of clusters that ends with an end mark, the lookup by position gives the
  cluster at that position and \<open>-1\<close> (end of file) after the last one, and the size of the chain is
  the number of its clusters: both loops end.\<close>

theorem chain_lookup:
  assumes "FsFatGetClTable (FatType v) = Some t" and "is_chain (FsFatReadFatEntry raw m v) t cs"
    and "Head AND Mask t = hd cs"
  shows "FsFatFileClusterByPos raw m v Head Pos = Some (if unat Pos < length cs then cs ! unat Pos else - 1)
    \<and> FsFatSizeOfClusterChain raw m v Head = Some (of_nat (length cs))"
  using assms chain_walk_chain [OF assms(2)] chain_size_chain [OF assms(2)]
  by (simp add: FsFatFileClusterByPos_def FsFatSizeOfClusterChain_def)

lemma demo_chain:
  "is_chain (FsFatReadFatEntry raw demo_mem demo_vcb) Clusters12 [2, 3, 5]"
  "FsFatGetClTable (FatType demo_vcb) = Some Clusters12"
  by (simp_all add: demo_entry Clusters12_def chain_stop_def) (simp add: demo_vcb_def FsFatGetClTable_def Clusters12_def)

theorem chain_lookup_witness:
  "FsFatFileClusterByPos dead_device demo_mem demo_vcb 2 1 = Some (if unat (1 :: u32) < length [2, 3, 5 :: u32] then [2, 3, 5] ! unat (1 :: u32) else - 1)
    \<and> FsFatSizeOfClusterChain dead_device demo_mem demo_vcb 2 = Some (of_nat (length [2, 3, 5 :: u32]))"
  by (rule chain_lookup [OF demo_chain(2,1)]) (simp add: Clusters12_def)

text \<open>C40: on a volume with 16-bit entries the end of a chain is never recognised, since the
  constants have a digit too many: the lookup by position never answers end of file, bad or
  reserved, whatever the table holds, and the size of a chain is never returned.\<close>

theorem fat16_chain_never_ends:
  assumes "FatType v = 16"
  shows "(\<exists>c \<le> 0xFFFF. FsFatFileClusterByPos raw m v Head Pos = Some c) \<and> FsFatSizeOfClusterChain raw m v Head = None"
proof -
  have t: "FsFatGetClTable (FatType v) = Some Clusters16" by (simp add: FsFatGetClTable_def assms)
  have "Head AND Mask Clusters16 \<le> 0xFFFF"
    by (simp add: Clusters16_def word_and_le1)
  from walk_16 [OF assms this] size_16 [OF assms] t show ?thesis
    by (auto simp: FsFatFileClusterByPos_def FsFatSizeOfClusterChain_def)
qed

theorem fat16_chain_never_ends_witness:
  "(\<exists>c \<le> 0xFFFF. FsFatFileClusterByPos dead_device (\<lambda>_. 0xFF) (demo_vcb\<lparr>FatType := 16\<rparr>) 2 7 = Some c)
    \<and> FsFatSizeOfClusterChain dead_device (\<lambda>_. 0xFF) (demo_vcb\<lparr>FatType := 16\<rparr>) 2 = None"
  by (rule fat16_chain_never_ends) simp

subsection \<open>Reading a file\<close>

text \<open>A buffer that overlaps neither the loaded table nor the directory entry.\<close>

definition buffer_apart :: "vcb \<Rightarrow> u32 \<Rightarrow> u32 \<Rightarrow> nat \<Rightarrow> bool" where
  "buffer_apart v DirEnt Buffer n \<longleftrightarrow> n < 2 ^ 32 \<and> SizeOfFatLoaded v < - 1 \<and>
     (\<forall>i \<le> unat (SizeOfFatLoaded v). \<not> within (FatPtr v + of_nat i) Buffer n) \<and>
     (\<forall>i < 32. \<not> within (DirEnt + of_nat i) Buffer n)"

lemma entry12_apart:
  assumes "FatType v = 12" and "buffer_apart v DirEnt Buffer (length bs)"
  shows "FsFatReadFatEntry raw (store_bytes m Buffer bs) v c = FsFatReadFatEntry raw m v c"
proof -
  let ?m = "store_bytes m Buffer bs"
  have "fat_word raw ?m v nb = fat_word raw m v nb" for nb
  proof (cases "nb \<ge> SizeOfFatLoaded v")
    case False
    then have le: "unat nb \<le> unat (SizeOfFatLoaded v)" "Suc (unat nb) \<le> unat (SizeOfFatLoaded v)"
      by (auto simp: word_le_nat_alt)
    have same: "?m (FatPtr v + of_nat i) = m (FatPtr v + of_nat i)" if "i \<le> unat (SizeOfFatLoaded v)" for i
      using assms(2) that by (intro store_bytes_other) (auto simp: buffer_apart_def)
    have "?m (FatPtr v + nb) = m (FatPtr v + nb)" "?m (FatPtr v + nb + 1) = m (FatPtr v + nb + 1)"
      using same [OF le(1)] same [OF le(2)] by (simp_all add: ac_simps)
    from rd16_agree [OF this] False show ?thesis by (simp add: fat_word_def)
  qed (simp add: fat_word_def)
  then show ?thesis by (simp add: FsFatReadFatEntry_def assms(1))
qed

lemma filesize_apart:
  assumes "buffer_apart v DirEnt Buffer (length bs)"
  shows "de_FileSize (store_bytes m Buffer bs) DirEnt = de_FileSize m DirEnt"
proof -
  have "store_bytes m Buffer bs (DirEnt + of_nat i) = m (DirEnt + of_nat i)" if "i < 32" for i
    using assms that by (intro store_bytes_other) (auto simp: buffer_apart_def)
  from this [of "28 + i" for i] show ?thesis
    unfolding de_FileSize_def by (intro rd32_agree) (simp add: add.assoc)
qed

lemma chain_members:
  "is_chain tab t (c # cs) \<Longrightarrow> d \<in> set cs \<Longrightarrow> chain_stop t d = None"
  by (induction cs arbitrary: c) auto

lemma chain_entry:
  "is_chain tab t cs \<Longrightarrow> p < length cs \<Longrightarrow>
     tab (cs ! p) \<ge> LastClusterStart t \<longleftrightarrow> Suc p = length cs"
proof (induction cs arbitrary: p rule: induct_list012)
  case (3 c d cs)
  then show ?case
    by (cases p) (auto simp: chain_stop_def split: if_splits)
qed auto

text \<open>What a file of a 12-bit volume is: its directory entry starts a chain, its clusters can be read.\<close>

definition file12 :: "raw_device \<Rightarrow> 8 mem \<Rightarrow> vcb \<Rightarrow> u32 \<Rightarrow> u32 list \<Rightarrow> (u32 \<Rightarrow> u8 list) \<Rightarrow> bool" where
  "file12 raw m v DirEnt cs content \<longleftrightarrow>
     FatType v = 12 \<and> is_chain (FsFatReadFatEntry raw m v) Clusters12 cs \<and> (\<forall>c\<in>set cs. 2 \<le> c) \<and>
     (ucast (de_StartCluster m DirEnt) OR push_bit 16 (ucast (de_StartClusterHigh m DirEnt))) AND 0xFFF = hd cs \<and>
     ClusterSize v \<noteq> 0 \<and>
     (\<forall>c\<in>set cs. length (content c) = unat (ClusterSize v) \<and>
        raw ((Cluster2StartSector v + (c - 2) * ucast (fh_SectorsPerCluster m (BootSector v)))
          * ucast (fh_SectorSize m (BootSector v))) (ClusterSize v) = (STATUS_SUCCESS, content c))"

lemma PerformRead_file12:
  assumes f: "file12 raw m v DirEnt cs content" and b: "buffer_apart v DirEnt Buffer (unat (ClusterSize v))"
    and sz: "Size \<noteq> 0"
  shows "unat p < length cs \<Longrightarrow> FsFatPerformRead raw exc m v DirEnt p Buffer Size =
      Inr (STATUS_SUCCESS, store_bytes m Buffer (content (cs ! unat p)),
        Some (if Suc (unat p) = length cs then de_FileSize m DirEnt mod ClusterSize v else ClusterSize v))"
    and "\<not> unat p < length cs \<Longrightarrow> FsFatPerformRead raw exc m v DirEnt p Buffer Size = Inr (STATUS_END_OF_FILE, m, None)"
proof -
  from f have t: "FatType v = 12" and ch: "is_chain (FsFatReadFatEntry raw m v) Clusters12 cs"
    and ge: "\<forall>c\<in>set cs. 2 \<le> c" and cz: "ClusterSize v \<noteq> 0"
    and hd: "(ucast (de_StartCluster m DirEnt) OR push_bit 16 (ucast (de_StartClusterHigh m DirEnt))) AND 0xFFF = hd cs"
    by (auto simp: file12_def)
  have tab: "FsFatGetClTable 12 = Some Clusters12" by (simp add: FsFatGetClTable_def)
  have hd': "(ucast (de_StartCluster m DirEnt) OR push_bit 16 (ucast (de_StartClusterHigh m DirEnt))) AND Mask Clusters12 = hd cs"
    using hd by (simp add: Clusters12_def)
  have pos: "FsFatFileClusterByPos raw m v
      (ucast (de_StartCluster m DirEnt) OR push_bit 16 (ucast (de_StartClusterHigh m DirEnt))) p
      = Some (if unat p < length cs then cs ! unat p else - 1)"
    using chain_walk_chain [OF ch] t tab hd' by (simp add: FsFatFileClusterByPos_def)
  show "FsFatPerformRead raw exc m v DirEnt p Buffer Size = Inr (STATUS_END_OF_FILE, m, None)" if "\<not> unat p < length cs"
    using that pos sz t tab by (simp add: FsFatPerformRead_def Let_def)
  show "FsFatPerformRead raw exc m v DirEnt p Buffer Size =
      Inr (STATUS_SUCCESS, store_bytes m Buffer (content (cs ! unat p)),
        Some (if Suc (unat p) = length cs then de_FileSize m DirEnt mod ClusterSize v else ClusterSize v))"
    if p: "unat p < length cs"
  proof -
    let ?c = "cs ! unat p" and ?m = "store_bytes m Buffer (content (cs ! unat p))"
    have c: "?c \<in> set cs" using p by simp
    have small: "?c \<le> 0xFFF"
    proof (cases "unat p")
      case 0
      have "hd cs \<le> 0xFFF" unfolding hd [symmetric] by (rule word_and_le1)
      then show ?thesis using 0 p by (cases cs) auto
    next
      case (Suc q)
      then obtain c0 cs' where cs: "cs = c0 # cs'" using p by (cases cs) auto
      have "chain_stop Clusters12 ?c = None"
        using chain_members [of _ _ c0 cs'] ch p Suc unfolding cs by auto
      then show ?thesis
        by (auto simp: chain_stop_def Clusters12_def word_le_nat_alt word_less_nat_alt split: if_splits)
    qed
    then have ne: "?c \<noteq> - 1" "?c \<noteq> - 2" "?c \<noteq> - 3" by (auto simp: word_le_nat_alt)
    have ge2: "\<not> ?c < 2" using ge c by (simp add: not_less)
    have len: "length (content ?c) = unat (ClusterSize v)" using f c by (auto simp: file12_def)
    have rd: "FsFatReadCluster raw m v ?c Buffer = (STATUS_SUCCESS, ?m)"
      using f c len by (simp add: FsFatReadCluster_def IoReadRaw_def file12_def)
    have b': "buffer_apart v DirEnt Buffer (length (content ?c))" using b len by simp
    have last: "FsFatReadFatEntry raw ?m v ?c \<ge> LastClusterStart Clusters12 \<longleftrightarrow> Suc (unat p) = length cs"
      using chain_entry [OF ch p] entry12_apart [OF t b'] by simp
    show ?thesis
      using pos p sz t tab ne ge2 rd last cz filesize_apart [OF b']
      by (simp add: FsFatPerformRead_def Let_def)
  qed
qed

text \<open>On a 12-bit volume, reading the cluster at a position of a file puts the content of the
  file's cluster there into the buffer, changes nothing else in memory, and reports a full cluster,
  or for the last one the rest of the file size; a position after the chain reports end of file.\<close>

theorem read_cluster_of_file:
  assumes "file12 raw m v DirEnt cs content" and "buffer_apart v DirEnt Buffer (unat (ClusterSize v))" and "Size \<noteq> 0"
  shows "if unat p < length cs
    then \<exists>m'. FsFatPerformRead raw exc m v DirEnt p Buffer Size = Inr (STATUS_SUCCESS, m',
        Some (if Suc (unat p) = length cs then de_FileSize m DirEnt mod ClusterSize v else ClusterSize v))
      \<and> cells m' Buffer (content (cs ! unat p)) \<and> (\<forall>a. \<not> within a Buffer (unat (ClusterSize v)) \<longrightarrow> m' a = m a)
    else FsFatPerformRead raw exc m v DirEnt p Buffer Size = Inr (STATUS_END_OF_FILE, m, None)"
proof (cases "unat p < length cs")
  case True
  then have "cs ! unat p \<in> set cs" by simp
  then have len: "length (content (cs ! unat p)) = unat (ClusterSize v)" using assms(1) by (auto simp: file12_def)
  have "unat (ClusterSize v) < 2 ^ 32" using assms(2) by (simp add: buffer_apart_def)
  with len True show ?thesis
    using PerformRead_file12(1) [OF assms True] store_bytes_cells [of "content (cs ! unat p)"]
      store_bytes_other [of _ Buffer "content (cs ! unat p)" m] by simp
qed (use PerformRead_file12(2) [OF assms] in simp)

definition demo_raw :: raw_device where
  "demo_raw off n = (STATUS_SUCCESS, replicate (unat n) 7)"

text \<open>The demonstration file: 1536 bytes in the clusters 2, 3 and 5, its entry at \<open>0x8FE6\<close>.\<close>

lemma demo_dirent:
  "de_StartCluster demo_mem 0x8FE6 = 2" "de_StartClusterHigh demo_mem 0x8FE6 = 0"
  "de_FileSize demo_mem 0x8FE6 = 0x600"
  by (simp_all add: de_defs rd32_def rd16_def demo_mem_def enc_table_def demo_fat_def)

lemma demo_file12: "file12 demo_raw demo_mem demo_vcb 0x8FE6 [2, 3, 5] (\<lambda>c. replicate 512 7)"
  using demo_chain(1) [of demo_raw]
  by (simp add: file12_def demo_dirent demo_raw_def) (simp add: demo_vcb_def)

lemma demo_apart: "buffer_apart demo_vcb 0x8FE6 0x20000 (unat (ClusterSize demo_vcb))"
proof -
  have "\<not> within (0x100 + of_nat i) 0x20000 512" if "i \<le> 0x1200" for i
  proof -
    have "unat (0x100 + of_nat i :: u32) = 0x100 + i" using that unat_of_nat_u32 [of "0x100 + i"] by simp
    then show ?thesis using that by (auto simp: within_iff word_le_nat_alt)
  qed
  moreover have "\<not> within (0x8FE6 + of_nat i) 0x20000 512" if "i < 32" for i
  proof -
    have "unat (0x8FE6 + of_nat i :: u32) = 0x8FE6 + i" using that unat_of_nat_u32 [of "0x8FE6 + i"] by simp
    then show ?thesis using that by (auto simp: within_iff word_le_nat_alt)
  qed
  ultimately show ?thesis by (simp add: buffer_apart_def demo_vcb_def)
qed

theorem read_cluster_of_file_witness:
  "FsFatPerformRead demo_raw 0 demo_mem demo_vcb 0x8FE6 3 0x20000 1 = Inr (STATUS_END_OF_FILE, demo_mem, None)"
  using read_cluster_of_file [OF demo_file12 demo_apart, of 1 3] by simp

text \<open>
  The number of bytes that reading the first \<open>n\<close> clusters one after the other reports; each
  read starts from the same memory.
\<close>

definition bytes_reported :: "raw_device \<Rightarrow> u32 \<Rightarrow> 8 mem \<Rightarrow> vcb \<Rightarrow> u32 \<Rightarrow> u32 \<Rightarrow> nat \<Rightarrow> nat" where
  "bytes_reported raw exc m v DirEnt Buffer n =
     (\<Sum>p\<leftarrow>[0..<n]. case FsFatPerformRead raw exc m v DirEnt (of_nat p) Buffer 1 of
        Inr (st, m', Some k) \<Rightarrow> unat k | _ \<Rightarrow> 0)"

lemma bytes_reported_prefix:
  assumes "file12 raw m v DirEnt cs content" and "buffer_apart v DirEnt Buffer (unat (ClusterSize v))"
    and "length cs < 2 ^ 32" and "n < length cs"
  shows "bytes_reported raw exc m v DirEnt Buffer n = n * unat (ClusterSize v)"
  using assms(4)
proof (induction n)
  case (Suc n)
  have u: "unat (of_nat n :: u32) = n" using Suc.prems assms(3) by (intro unat_of_nat_u32) simp
  have "FsFatPerformRead raw exc m v DirEnt (of_nat n) Buffer 1 =
      Inr (STATUS_SUCCESS, store_bytes m Buffer (content (cs ! n)), Some (ClusterSize v))"
    using PerformRead_file12(1) [OF assms(1,2), of 1 "of_nat n" exc] Suc.prems u by simp
  with Suc show ?case by (simp add: bytes_reported_def)
qed (simp add: bytes_reported_def)

text \<open>Reading a file cluster by cluster reports exactly its size, unless the size is a
  multiple of the cluster size: then the last cluster is reported as zero bytes and the file is
  one cluster too short.\<close>

theorem file_total_reported:
  assumes "file12 raw m v DirEnt cs content" and "buffer_apart v DirEnt Buffer (unat (ClusterSize v))"
    and "length cs < 2 ^ 32"
    and "(length cs - 1) * unat (ClusterSize v) < unat (de_FileSize m DirEnt)"
    and "unat (de_FileSize m DirEnt) \<le> length cs * unat (ClusterSize v)"
  shows "bytes_reported raw exc m v DirEnt Buffer (length cs) =
    (if unat (de_FileSize m DirEnt) mod unat (ClusterSize v) = 0
     then unat (de_FileSize m DirEnt) - unat (ClusterSize v) else unat (de_FileSize m DirEnt))"
proof -
  obtain n where n: "length cs = Suc n"
    using assms(1) by (cases cs) (auto simp: file12_def)
  let ?C = "unat (ClusterSize v)" and ?F = "unat (de_FileSize m DirEnt)"
  have u: "unat (of_nat n :: u32) = n" using n assms(3) by (intro unat_of_nat_u32) simp
  have "FsFatPerformRead raw exc m v DirEnt (of_nat n) Buffer 1 =
      Inr (STATUS_SUCCESS, store_bytes m Buffer (content (cs ! n)), Some (de_FileSize m DirEnt mod ClusterSize v))"
    using PerformRead_file12(1) [OF assms(1,2), of 1 "of_nat n" exc] n u by simp
  then have "bytes_reported raw exc m v DirEnt Buffer (length cs) = n * ?C + ?F mod ?C"
    using bytes_reported_prefix [OF assms(1,2,3), of n exc] n by (simp add: bytes_reported_def unat_mod)
  moreover have "n * ?C + ?F mod ?C = (if ?F mod ?C = 0 then ?F - ?C else ?F)"
  proof (cases "?F mod ?C = 0")
    case True
    then obtain k where k: "?F = k * ?C" by (metis mod_0_imp_dvd dvd_div_mult_self)
    with assms(4,5) n have "k = Suc n" by (metis Suc_le_lessD diff_Suc_1 le_antisym mult_less_cancel2 mult_le_cancel2 not_less not_less_eq_eq)
    then show ?thesis using True k by simp
  next
    case False
    have "?F < Suc n * ?C" using assms(5) n False by (metis mod_mult_self2_is_0 le_neq_implies_less)
    then have "?F div ?C = n"
      using assms(4) n by (intro div_nat_eqI) (auto simp: mult.commute)
    then show ?thesis using False by (metis div_mult_mod_eq)
  qed
  ultimately show ?thesis by simp
qed

theorem file_total_reported_witness:
  "bytes_reported demo_raw 0 demo_mem demo_vcb 0x8FE6 0x20000 3 = 1024"
  using file_total_reported [OF demo_file12 demo_apart, of 0]
  by (simp add: demo_dirent demo_vcb_def flip: numeral_3_eq_3)

subsection \<open>Mounting\<close>

lemma vol_read_frame:
  "vol_read raw b n off s = (st, s') \<Longrightarrow> VLive s' = VLive s \<and> RawOpen s' = RawOpen s \<and> InVcbList s' = InVcbList s"
  by (auto simp: vol_read_def split: prod.splits)

lemma read_root_frame:
  assumes "read_root raw v c b st s = Some (st', s')"
  shows "VLive s' = VLive s \<and> RawOpen s' = RawOpen s \<and> InVcbList s' = InVcbList s"
proof -
  let ?P = "\<lambda>s r. VLive (snd r) = VLive s \<and> RawOpen (snd r) = RawOpen s \<and> InVcbList (snd r) = InVcbList s"
  have "?P s (st', s')"
  proof (rule read_root.raw_induct [where P = "\<lambda>raw v c b st s r. ?P s r", OF _ assms])
    fix f raw v c b st s r
    assume IH: "\<And>raw v c b st s r. f raw v c b st s = Some r \<Longrightarrow> ?P s r"
      and eq: "(if c \<ge> 2 \<and> c < 0xFF0 then
          case FsFatReadCluster raw (VMem s) v c b of (st, m) \<Rightarrow>
            f raw v (FsFatReadFatEntry raw m v c) (b + ClusterSize v) st (s\<lparr>VMem := m\<rparr>)
        else Some (st, s)) = Some r"
    then show "?P s r"
      by (cases "FsFatReadCluster raw (VMem s) v c b") (auto dest!: IH split: if_splits)
  qed
  then show ?thesis by simp
qed

lemma vcb_geometry_keeps:
  "vcb_geometry m v = Some v' \<Longrightarrow> BootSector v' = BootSector v \<and> SecondFat v' = SecondFat v \<and> FirstFat v' = FirstFat v"
  by (auto simp: vcb_geometry_def Let_def split: if_splits)

text \<open>What is held when the table has been loaded: the boot sector, the table and the open file.\<close>

lemma load_root_cases:
  assumes "load_root raw p_root v st s = Some (st', v', s')"
  shows "p_root = 0 \<and> st' = STATUS_INSUFFICIENT_RESOURCES
      \<and> s' = IoCloseFile (free_heap (BootSector v) (free_heap (FatPtr v) s))
    \<or> p_root \<noteq> 0 \<and> v' = v\<lparr>RootDirectory := p_root\<rparr> \<and> (\<exists>s1. VLive s1 = insert p_root (VLive s)
      \<and> RawOpen s1 = RawOpen s \<and> InVcbList s1 = InVcbList s
      \<and> (if SUCCESS st' then s' = s1\<lparr>InVcbList := True\<rparr>
         else s' = IoCloseFile (free_heap (BootSector v) (free_heap (FatPtr v) (free_heap p_root s1)))))"
proof (cases "p_root = 0")
  case True
  then show ?thesis using assms by (auto simp: load_root_def Let_def bind_eq_Some_conv split: if_splits)
next
  case False
  let ?s = "s\<lparr>VLive := insert p_root (VLive s)\<rparr>" and ?v = "v\<lparr>RootDirectory := p_root\<rparr>"
  have "\<exists>st1 s1. VLive s1 = insert p_root (VLive s) \<and> RawOpen s1 = RawOpen s \<and> InVcbList s1 = InVcbList s
    \<and> (st', v', s') = (if \<not> SUCCESS st1 then
          (st1, ?v, IoCloseFile (free_heap (BootSector v) (free_heap (FatPtr v) (free_heap p_root s1))))
        else (STATUS_SUCCESS, ?v, s1\<lparr>InVcbList := True\<rparr>))"
  proof (cases "fh_DirectoryEntries (VMem s) (BootSector v) \<noteq> 0")
    case True
    obtain st1 s1 where r: "vol_read raw p_root (ucast (fh_DirectoryEntries (VMem s) (BootSector v)) * SIZEOF_DIRENT)
        (DirStartSector v * ucast (fh_SectorSize (VMem s) (BootSector v))) ?s = (st1, s1)" by force
    show ?thesis
      using assms False True r vol_read_frame [OF r]
      by (intro exI [of _ st1] exI [of _ s1]) (auto simp: load_root_def Let_def ExAllocate_def split: if_splits)
  next
    case f: False
    obtain st1 s1 where r: "read_root raw ?v (fh_RootDirectoryCluster (VMem s) (BootSector v)) p_root st ?s = Some (st1, s1)"
      using assms False f by (auto simp: load_root_def Let_def ExAllocate_def bind_eq_Some_conv)
    show ?thesis
      using assms False f r read_root_frame [OF r]
      by (intro exI [of _ st1] exI [of _ s1])
        (auto simp: load_root_def Let_def ExAllocate_def bind_eq_Some_conv split: if_splits)
  qed
  then obtain st1 s1 where s1: "VLive s1 = insert p_root (VLive s)" "RawOpen s1 = RawOpen s" "InVcbList s1 = InVcbList s"
    and r: "(st', v', s') = (if \<not> SUCCESS st1 then
          (st1, ?v, IoCloseFile (free_heap (BootSector v) (free_heap (FatPtr v) (free_heap p_root s1))))
        else (STATUS_SUCCESS, ?v, s1\<lparr>InVcbList := True\<rparr>))"
    by blast
  have "v' = ?v \<and> (if SUCCESS st' then s' = s1\<lparr>InVcbList := True\<rparr>
         else s' = IoCloseFile (free_heap (BootSector v) (free_heap (FatPtr v) (free_heap p_root s1))))"
    using r by (cases "SUCCESS st1") simp_all
  with s1 show ?thesis by (intro disjI2 conjI exI [of _ s1]) (use False in simp_all)
qed

text \<open>The outcome of a mount: nothing is held after a failure, and closing undoes a success.\<close>

definition mount_outcome :: "u32 set \<Rightarrow> bool \<Rightarrow> status \<Rightarrow> vcb \<Rightarrow> vol_state \<Rightarrow> bool" where
  "mount_outcome L listed st v s \<longleftrightarrow>
     (if SUCCESS st then RawOpen s \<and> InVcbList s \<and> VLive (FsFatCloseVcb v s) = L \<and>
        \<not> RawOpen (FsFatCloseVcb v s) \<and> \<not> InVcbList (FsFatCloseVcb v s)
      else VLive s = L \<and> \<not> RawOpen s \<and> InVcbList s = listed)"

lemma load_root_outcome:
  assumes "load_root raw p_root v st s = Some (st', v', s')"
    and "VLive s = insert (FatPtr v) (insert (BootSector v) L)" and "RawOpen s"
    and "FirstFat v = FatPtr v \<and> SecondFat v = 0 \<or> SecondFat v = FatPtr v \<and> FirstFat v = 0"
    and "FatPtr v \<noteq> 0" and "FatPtr v \<notin> L" and "BootSector v \<notin> L" and "p_root \<notin> L"
  shows "mount_outcome L (InVcbList s) st' v' s'"
  using load_root_cases [OF assms(1)]
proof (elim disjE conjE exE)
  assume "st' = STATUS_INSUFFICIENT_RESOURCES" "s' = IoCloseFile (free_heap (BootSector v) (free_heap (FatPtr v) s))"
  then show ?thesis using assms(2-) by (auto simp: mount_outcome_def IoCloseFile_def free_heap_def)
next
  fix s1 assume v': "v' = v\<lparr>RootDirectory := p_root\<rparr>" and s1: "VLive s1 = insert p_root (VLive s)"
    "RawOpen s1 = RawOpen s" "InVcbList s1 = InVcbList s"
    and s': "if SUCCESS st' then s' = s1\<lparr>InVcbList := True\<rparr>
         else s' = IoCloseFile (free_heap (BootSector v) (free_heap (FatPtr v) (free_heap p_root s1)))"
  have live: "VLive s1 - {p_root} - {FatPtr v} - {BootSector v} = L"
    "VLive s1 - {p_root} - {FatPtr v} = L \<union> ({BootSector v} - {p_root, FatPtr v})"
    using s1(1) assms(2,6,7,8) by auto
  show ?thesis
  proof (cases "SUCCESS st'")
    case False
    then show ?thesis using s' live(1) s1(3) by (simp add: mount_outcome_def IoCloseFile_def free_heap_def)
  next
    case True
    then show ?thesis
      using s' live(1) s1(2,3) v' assms(3,4,5)
      by (auto simp: mount_outcome_def FsFatCloseVcb_def Let_def IoCloseFile_def free_heap_def)
  qed
qed

text \<open>C30: Creating the control block of a volume leaks nothing. Whatever device reads and allocations fail, when
  \<open>FsFatCreateVcb\<close> fails it leaves the heap blocks, the raw file and the list of volumes as they were,
  and after a successful one \<open>FsFatCloseVcb\<close> gives back all that it took.\<close>

theorem vcb_leak_free:
  assumes "FsFatCreateVcb raw ob_st cr_st p_boot p_fat p_root v s = Some (st, v', s')"
    and "p_boot \<notin> VLive s" and "p_fat \<notin> VLive s" and "p_root \<notin> VLive s"
    and "\<not> RawOpen s" and "SecondFat v = 0"
  shows "mount_outcome (VLive s) (InVcbList s) st v' s'"
proof -
  let ?s1 = "s\<lparr>RawOpen := True, VLive := ExAllocate p_boot (VLive s)\<rparr>" and ?v1 = "v\<lparr>BootSector := p_boot\<rparr>"
  show ?thesis
  proof (cases "SUCCESS ob_st \<and> SUCCESS cr_st \<and> p_boot \<noteq> 0")
    case False
    then show ?thesis
      using assms by (auto simp: FsFatCreateVcb_def mount_outcome_def IoCloseFile_def ExAllocate_def split: if_splits)
  next
    case boot: True
    obtain st0 s2 where r0: "vol_read raw p_boot 512 0 ?s1 = (st0, s2)" by force
    note f0 = vol_read_frame [OF r0]
    show ?thesis
    proof (cases "SUCCESS st0")
      case False
      then show ?thesis
        using assms boot r0 f0 by (auto simp: FsFatCreateVcb_def mount_outcome_def IoCloseFile_def free_heap_def ExAllocate_def)
    next
      case read0: True
      from assms(1) boot r0 read0 obtain v2 where g: "vcb_geometry (VMem s2) ?v1 = Some v2"
        by (auto simp: FsFatCreateVcb_def Let_def bind_eq_Some_conv)
      note gk = vcb_geometry_keeps [OF g]
      let ?s3 = "s2\<lparr>VLive := ExAllocate p_fat (VLive s2)\<rparr>" and ?v3 = "v2\<lparr>FatPtr := p_fat, FirstFat := p_fat\<rparr>"
      let ?ss = "ucast (fh_SectorSize (VMem s2) p_boot) :: u32"
      show ?thesis
      proof (cases "p_fat = 0")
        case True
        then have "st = STATUS_INSUFFICIENT_RESOURCES \<and> s' = IoCloseFile (free_heap p_boot ?s3)"
          using assms(1) boot r0 read0 g by (simp add: FsFatCreateVcb_def Let_def)
        then show ?thesis
          using True f0 boot assms(2) by (simp add: mount_outcome_def IoCloseFile_def free_heap_def ExAllocate_def)
      next
        case fat: False
        obtain st1 s4 where r1: "vol_read raw p_fat (SizeOfFatLoaded ?v3) (Fat1StartSector ?v3 * ?ss) ?s3 = (st1, s4)" by force
        note f1 = vol_read_frame [OF r1]
        have live4: "VLive s4 = insert p_fat (insert p_boot (VLive s))" "RawOpen s4" "InVcbList s4 = InVcbList s"
          using f1 f0 boot fat by (simp_all add: ExAllocate_def)
        have v2: "BootSector v2 = p_boot" "SecondFat v2 = 0" using gk assms(6) by simp_all
        show ?thesis
        proof (cases "SUCCESS st1")
          case True
          then have "load_root raw p_root ?v3 st1 s4 = Some (st, v', s')"
            using assms(1) boot r0 read0 g fat r1 by (simp add: FsFatCreateVcb_def Let_def)
          from load_root_outcome [OF this, of "VLive s"] show ?thesis
            using live4 v2 fat assms(2-4) by simp
        next
          case bad: False
          let ?v4 = "?v3\<lparr>SecondFat := FirstFat ?v3, FatPtr := FirstFat ?v3, FirstFat := 0\<rparr>"
          obtain st2 s5 where r2: "vol_read raw p_fat (SizeOfFatLoaded ?v4) (Fat2StartSector ?v4 * ?ss) s4 = (st2, s5)" by force
          note f2 = vol_read_frame [OF r2]
          show ?thesis
          proof (cases "SUCCESS st2")
            case True
            then have "load_root raw p_root ?v4 st2 s5 = Some (st, v', s')"
              using assms(1) boot r0 read0 g fat r1 bad r2 by (simp add: FsFatCreateVcb_def Let_def)
            from load_root_outcome [OF this, of "VLive s"] show ?thesis
              using live4 f2 v2 fat assms(2-4) by simp
          next
            case False
            then have "st = st2 \<and> s' = IoCloseFile (free_heap p_boot (free_heap p_fat s5))"
              using assms(1) boot r0 read0 g fat r1 bad r2 by (simp add: FsFatCreateVcb_def Let_def)
            then show ?thesis
              using False live4 f2 assms(2,3) by (auto simp: mount_outcome_def IoCloseFile_def free_heap_def)
          qed
        qed
      qed
    qed
  qed
qed

definition boot_bytes :: "u8 list" where
  "boot_bytes = [0, 0, 0, 0, 0, 0, 0, 0, 0, 0, 0, 0, 2, 1, 1, 0, 2, 224, 0, 0x40, 0x0B, 0xF0, 9, 0]"

definition floppy_raw :: raw_device where
  "floppy_raw off n = (STATUS_SUCCESS, if off = 0 then boot_bytes else [])"

definition empty_vol :: vol_state where
  "empty_vol = \<lparr>VMem = (\<lambda>_. 0), VLive = {}, RawOpen = False, InVcbList = False\<rparr>"

theorem vcb_leak_free_witness:
  "\<exists>v s. FsFatCreateVcb floppy_raw 0 0 0x1000 0x2000 0x8000 demo_vcb empty_vol = Some (STATUS_SUCCESS, v, s)
    \<and> mount_outcome {} False STATUS_SUCCESS v s \<and> FatType v = 12 \<and> Cluster2StartSector v = 33"
proof -
  have "\<exists>v s. FsFatCreateVcb floppy_raw 0 0 0x1000 0x2000 0x8000 demo_vcb empty_vol = Some (STATUS_SUCCESS, v, s)
     \<and> FatType v = 12 \<and> Cluster2StartSector v = 33"
    by (simp add: FsFatCreateVcb_def vol_read_def IoReadRaw_def floppy_raw_def boot_bytes_def empty_vol_def
        vcb_geometry_def FsFatGetFatType_def fh_defs rd16_def rd32_def load_root_def Let_def ExAllocate_def
        SUCCESS_def STATUS_SUCCESS_def ALIGN_UP_def ALIGN_DOWN_def SIZEOF_DIRENT_def demo_vcb_def)
  then obtain v s where r: "FsFatCreateVcb floppy_raw 0 0 0x1000 0x2000 0x8000 demo_vcb empty_vol = Some (STATUS_SUCCESS, v, s)"
    and t: "FatType v = 12" "Cluster2StartSector v = 33" by blast
  have "mount_outcome (VLive empty_vol) (InVcbList empty_vol) STATUS_SUCCESS v s"
    by (rule vcb_leak_free [OF r]) (simp_all add: empty_vol_def demo_vcb_def)
  with r t show ?thesis by (auto simp: empty_vol_def)
qed

subsection \<open>Names\<close>

lemma upcase_sub: "x + (0x41 - 0x61) = x - 0x61 + (0x41 :: u8)"
  by simp

lemma UPCASE_zero [simp]: "UPCASE x = 0 \<longleftrightarrow> x = 0"
proof -
  have "x - 0x61 + 0x41 = 0 \<longleftrightarrow> x = (0x20 :: u8)" by (auto simp: algebra_simps)
  then show ?thesis by (auto simp: UPCASE_def word_le_nat_alt)
qed

lemma strtoupr_zstr:
  "zstr m a s \<Longrightarrow> Suc (length s) < 2 ^ 32
    \<Longrightarrow> \<exists>m'. strtoupr m a = Some m' \<and> zstr m' a (map UPCASE s) \<and> (\<forall>b. \<not> within b a (length s) \<longrightarrow> m' b = m b)"
proof (induction s arbitrary: m a)
  case Nil
  then show ?case by (subst strtoupr.simps) simp
next
  case (Cons x s)
  let ?m = "m(a := UPCASE x)"
  have x: "x \<noteq> 0" "m a = x" "zstr m (a + 1) s" using Cons.prems(1) by auto
  have "zstr ?m (a + 1) s"
  proof (rule zstr_frame [OF x(3)])
    fix i assume "i \<le> length s"
    then have "(of_nat (Suc i) :: u32) \<noteq> 0" using of_nat_eq_0_u32 [of "Suc i"] Cons.prems(2) by simp
    then have "a + 1 + of_nat i \<noteq> a" by (simp add: add.assoc)
    then show "?m (a + 1 + of_nat i) = m (a + 1 + of_nat i)" by simp
  qed
  then obtain m' where m': "strtoupr ?m (a + 1) = Some m'" "zstr m' (a + 1) (map UPCASE s)"
      "\<forall>b. \<not> within b (a + 1) (length s) \<longrightarrow> m' b = ?m b"
    using Cons.IH [of ?m "a + 1"] Cons.prems(2) by (metis Suc_lessD length_Cons)
  have "(if 0x61 \<le> m a \<and> m a \<le> 0x7A then m(a := m a + (0x41 - 0x61)) else m) = ?m"
    using x(2) by (auto simp: UPCASE_def upcase_sub fun_eq_iff)
  then have "strtoupr m a = Some m'"
    using x m'(1) by (subst strtoupr.simps) simp
  moreover have "m' a = UPCASE x" using m'(3) not_within_first [of "length s" a] Cons.prems(2) by simp
  ultimately show ?case
    using m'(2,3) x(1) within_Suc [of "length s" _ a] Cons.prems(2) by auto
qed

lemma UPCASE_dot: "UPCASE x = DOT \<longleftrightarrow> x = DOT"
proof -
  have "x - 0x61 + 0x41 = 0x2E \<longleftrightarrow> x = (0x4E :: u8)" by (auto simp: algebra_simps)
  then show ?thesis by (auto simp: UPCASE_def DOT_def word_le_nat_alt)
qed

text \<open>The name and the 12 bytes of the result do not overlap.\<close>

definition name_apart :: "u32 \<Rightarrow> u32 \<Rightarrow> nat \<Rightarrow> bool" where
  "name_apart f d n \<longleftrightarrow> n < 2 ^ 31 \<and> (\<forall>i \<le> n. \<not> within (f + of_nat i) d 12)"

text \<open>
  The memory before the two copies: the upper-case name where it was, eleven spaces at the
  result.
\<close>

lemma NtName_prepare:
  assumes "zstr m f name" and "name_apart f d (length name)"
  shows "\<exists>m1 m2. strtoupr m f = Some m1 \<and> m2 = store_bytes m1 d (replicate 11 SPACE_CH)
    \<and> zstr m2 f (map UPCASE name) \<and> (\<forall>j<11. m2 (d + of_nat j) = SPACE_CH)
    \<and> (\<forall>a. \<not> within a d 12 \<longrightarrow> \<not> within a f (length name) \<longrightarrow> m2 a = m a)"
proof -
  have len: "Suc (length name) < 2 ^ 32" using assms(2) by (simp add: name_apart_def)
  from strtoupr_zstr [OF assms(1) len] obtain m1 where m1: "strtoupr m f = Some m1" "zstr m1 f (map UPCASE name)"
    "\<And>b. \<not> within b f (length name) \<Longrightarrow> m1 b = m b" by blast
  let ?m2 = "store_bytes m1 d (replicate 11 SPACE_CH)"
  have "zstr ?m2 f (map UPCASE name)"
  proof (rule zstr_frame [OF m1(2)])
    fix i assume "i \<le> length (map UPCASE name)"
    then have "\<not> within (f + of_nat i) d 11"
      using assms(2) within_mono [of "f + of_nat i" d 11 12] by (auto simp: name_apart_def)
    then show "?m2 (f + of_nat i) = m1 (f + of_nat i)" by (intro store_bytes_other) simp_all
  qed
  moreover have "\<forall>j<11. ?m2 (d + of_nat j) = SPACE_CH"
    using store_bytes_cells [of "replicate 11 SPACE_CH" m1 d] by (simp add: cells_nth del: replicate.simps)
  moreover have "?m2 a = m a" if "\<not> within a d 12" "\<not> within a f (length name)" for a
    using that m1(3) within_mono [of a d 11 12] store_bytes_other [of a d "replicate 11 SPACE_CH" m1]
    by (auto simp del: replicate.simps)
  ultimately show ?thesis using m1(1) by blast
qed

lemma strncpy_part:
  assumes "\<And>i. Suc i < k \<Longrightarrow> m (f + of_nat i) \<noteq> 0" and "k = n \<or> k \<noteq> 0 \<and> m (f + of_nat (k - 1)) = 0"
    and "k \<le> n" and "n < 2 ^ 31" and "\<And>i. i < k \<Longrightarrow> \<not> within (f + of_nat i) t k"
  shows "strncpy m t f (of_nat n) = blit m t f k"
  unfolding strncpy_def sint_small [OF assms(4)]
  by (rule ncpy_loop_blit) (use assms in \<open>auto simp: apart_def\<close>)

text \<open>The result of the conversion of a name with a dot, byte by byte.\<close>

lemma NtName_dot:
  fixes base ext :: "u8 list"
  defines "name \<equiv> base @ DOT # ext" and "k \<equiv> min 3 (Suc (length ext))"
  assumes z: "zstr m f name" and ap: "name_apart f d (length name)"
    and b8: "length base \<le> 8" and nd: "DOT \<notin> set base"
  shows "\<exists>m'. FsFatNtNameToDosName m f d = Some m' \<and> m' (d + 11) = 0
    \<and> (\<forall>j<8. m' (d + of_nat j) = (if j < length base then UPCASE (base ! j) else SPACE_CH))
    \<and> (\<forall>j<3. m' (d + 8 + of_nat j) = (if j < length ext then UPCASE (ext ! j) else if j = length ext then 0 else SPACE_CH))
    \<and> (\<forall>a. \<not> within a d 12 \<longrightarrow> \<not> within a f (length name) \<longrightarrow> m' a = m a)"
proof -
  from NtName_prepare [OF z ap] obtain m1 m2 where m1: "strtoupr m f = Some m1"
    and m2: "m2 = store_bytes m1 d (replicate 11 SPACE_CH)" and z2: "zstr m2 f (map UPCASE name)"
    and sp: "\<And>j. j < 11 \<Longrightarrow> m2 (d + of_nat j) = SPACE_CH"
    and fr: "\<And>a. \<not> within a d 12 \<Longrightarrow> \<not> within a f (length name) \<Longrightarrow> m2 a = m a" by blast
  let ?n = "length base"
  let ?g = "f + of_nat ?n + 1"
  let ?m3 = "strncpy m2 d f (of_nat ?n)"
  let ?m4 = "strncpy ?m3 (d + 8) ?g 3"
  have len: "length name = ?n + 1 + length ext" by (simp add: name_def)
  have cell: "m2 (f + of_nat i) = UPCASE (name ! i)" if "i < length name" for i
    using zstr_nth [OF z2, of i] that by simp
  have nz: "0 \<notin> set name" using z by (simp add: zstr_def)
  have out: "\<not> within (f + of_nat i) (d + of_nat q) l" if "i \<le> length name" "q + l \<le> 12" for i q l
    using ap that within_offset [of q l 12 "f + of_nat i" d] by (auto simp: name_apart_def)
  have takeW: "takeWhile (\<lambda>x. x \<noteq> DOT) (map UPCASE name) = map UPCASE base"
    using nd by (simp add: name_def UPCASE_dot takeWhile_append2 takeWhile_tail) (auto simp: UPCASE_dot)
  have chr: "strchr m2 f DOT = Some (Some (f + of_nat ?n))"
    using strchr_zstr [OF z2, of DOT] takeW by (auto simp: name_def UPCASE_def DOT_def)
  have c3: "?m3 = blit m2 d f ?n"
  proof (rule strncpy_part)
    show "m2 (f + of_nat i) \<noteq> 0" if "Suc i < ?n" for i
      using cell [of i] that nz by (auto simp: name_def nth_append in_set_conv_nth)
    show "\<not> within (f + of_nat i) d ?n" if "i < ?n" for i using out [of i 0 ?n] that b8 len by simp
  qed (use ap len in \<open>auto simp: name_apart_def\<close>)
  have g: "?g + of_nat j = f + of_nat (Suc (?n + j))" for j by simp
  have cg: "?m3 (?g + of_nat j) = (if j < length ext then UPCASE (ext ! j) else 0)" if "j \<le> length ext" for j
  proof -
    have "?m3 (?g + of_nat j) = m2 (?g + of_nat j)"
      unfolding c3 g by (rule blit_other) (use out [of "Suc (?n + j)" 0 ?n] that b8 len in simp)
    also have "\<dots> = (if j < length ext then UPCASE (ext ! j) else 0)"
    proof (cases "j < length ext")
      case True
      then show ?thesis using cell [of "Suc (?n + j)"] len unfolding g by (simp add: name_def nth_append)
    next
      case False
      then have "Suc (?n + j) = length name" using that len by simp
      then show ?thesis using zstr_end [OF z2] False unfolding g by simp
    qed
    finally show ?thesis .
  qed
  have c4: "?m4 = blit ?m3 (d + 8) ?g k"
  proof -
    have "strncpy ?m3 (d + 8) ?g (of_nat 3) = blit ?m3 (d + 8) ?g k"
    proof (rule strncpy_part)
      show "?m3 (?g + of_nat i) \<noteq> 0" if "Suc i < k" for i
        using cg [of i] that nz by (auto simp: k_def name_def in_set_conv_nth)
      show "k = 3 \<or> k \<noteq> 0 \<and> ?m3 (?g + of_nat (k - 1)) = 0"
        using cg [of "length ext"] by (auto simp: k_def min_def add.assoc)
      show "\<not> within (?g + of_nat i) (d + 8) k" if "i < k" for i
        using out [of "Suc (?n + i)" 8 k] that len unfolding g by (auto simp: k_def)
    qed (auto simp: k_def)
    then show ?thesis by simp
  qed
  have res: "FsFatNtNameToDosName m f d = Some (?m4(d + 11 := 0))"
    using m1 chr by (simp add: FsFatNtNameToDosName_def Let_def m2 [symmetric] add.assoc)
  have at: "?m4 (d + of_nat j) = (if 8 \<le> j \<and> j < 8 + k then ?m3 (?g + of_nat (j - 8))
      else if j < ?n then UPCASE (base ! j) else SPACE_CH)" if j: "j < 11" for j
  proof (cases "8 \<le> j \<and> j < 8 + k")
    case True
    then have dj: "d + of_nat j = d + 8 + of_nat (j - 8)" by (simp add: of_nat_diff)
    have "j - 8 < k" "k \<le> 2 ^ 32" using True by (auto simp: k_def)
    from blit_nth [OF this, of ?m3 "d + 8" ?g] show ?thesis
      unfolding if_P [OF True] dj c4 .
  next
    case False
    have out4: "\<not> within (d + of_nat j) (d + 8) k"
    proof (cases "8 \<le> j")
      case True
      then have "d + of_nat j - (d + 8) = of_nat (j - 8)" by (simp add: of_nat_diff)
      moreover have "unat (of_nat (j - 8) :: u32) = j - 8" using j by (intro unat_of_nat_u32) simp
      ultimately show ?thesis using True False by (simp add: within_def)
    next
      case jl: False
      have "(of_nat (2 ^ 32) :: u32) = 0" by simp
      then have "d + of_nat j - (d + 8) = (of_nat (2 ^ 32 - (8 - j)) :: u32)"
        using jl by (subst of_nat_diff) (auto simp: of_nat_diff)
      moreover have "unat (of_nat (2 ^ 32 - (8 - j)) :: u32) = 2 ^ 32 - (8 - j)" using jl by (intro unat_of_nat_u32) simp
      ultimately show ?thesis by (simp add: within_def k_def)
    qed
    have "?m3 (d + of_nat j) = (if j < ?n then UPCASE (base ! j) else SPACE_CH)"
    proof (cases "j < ?n")
      case True
      then show ?thesis using blit_nth [of j ?n m2 d f] b8 cell [of j] len by (simp add: c3 name_def nth_append)
    next
      case jn: False
      have "unat (of_nat j :: u32) = j" using j by (intro unat_of_nat_u32) simp
      then have "\<not> within (d + of_nat j) d ?n" using jn by (simp add: within_def)
      then show ?thesis using jn sp [OF j] by (simp add: c3 blit_other)
    qed
    then show ?thesis unfolding if_not_P [OF False] c4 blit_other [OF out4] by simp
  qed
  let ?m5 = "?m4(d + 11 := 0)"
  have m5: "?m5 (d + of_nat j) = ?m4 (d + of_nat j)" if "j < 11" for j
  proof -
    have "of_nat j \<noteq> (11 :: u32)" using that of_nat_length_eq [of j 11] by simp
    then show ?thesis by simp
  qed
  have "?m5 (d + of_nat j) = (if j < ?n then UPCASE (base ! j) else SPACE_CH)" if "j < 8" for j
    using m5 [of j] at [of j] that by simp
  moreover have "?m5 (d + 8 + of_nat j) =
      (if j < length ext then UPCASE (ext ! j) else if j = length ext then 0 else SPACE_CH)" if "j < 3" for j
  proof -
    have e: "d + 8 + of_nat j = d + of_nat (8 + j)" by simp
    have "\<not> 8 + j < ?n" using b8 by simp
    then show ?thesis
      unfolding e using m5 [of "8 + j"] at [of "8 + j"] cg [of j] that by (auto simp: k_def)
  qed
  moreover have "?m5 a = m a" if "\<not> within a d 12" "\<not> within a f (length name)" for a
  proof -
    have n: "\<not> within a d ?n" using that(1) b8 within_mono [of a d ?n 12] by auto
    have e: "\<not> within a (d + 8) k"
    proof -
      have "8 + k \<le> 12" by (simp add: k_def)
      from within_offset [OF this] that(1) show ?thesis by auto
    qed
    have "?m4 a = ?m3 a" unfolding c4 by (rule blit_other [OF e])
    also have "\<dots> = m2 a" unfolding c3 by (rule blit_other [OF n])
    finally have "?m4 a = m a" using fr [OF that] by simp
    moreover have "a \<noteq> d + 11" using that(1) within_nth [of 11 12 d] by auto
    ultimately show ?thesis by simp
  qed
  moreover have "?m5 (d + 11) = 0" by simp
  ultimately show ?thesis using res by blast
qed

subsection \<open>Looking a name up\<close>

definition pad :: "nat \<Rightarrow> u8 list \<Rightarrow> u8 list" where
  "pad n xs = xs @ replicate (n - length xs) SPACE_CH"

text \<open>The name of a directory entry: eight bytes and three, upper case, padded with spaces.\<close>

definition entry_name :: "u8 list \<Rightarrow> u8 list \<Rightarrow> u8 list" where
  "entry_name base ext = pad 8 (map UPCASE base) @ pad 3 (map UPCASE ext)"

lemma length_entry_name: "length base \<le> 8 \<Longrightarrow> length ext \<le> 3 \<Longrightarrow> length (entry_name base ext) = 11"
  by (simp add: entry_name_def pad_def)

lemma entry_name_nth:
  assumes "length base \<le> 8" and "length ext \<le> 3"
  shows "j < 8 \<Longrightarrow> entry_name base ext ! j = (if j < length base then UPCASE (base ! j) else SPACE_CH)"
    and "j < 3 \<Longrightarrow> entry_name base ext ! (8 + j) = (if j < length ext then UPCASE (ext ! j) else SPACE_CH)"
  using assms by (auto simp: entry_name_def pad_def nth_append)

text \<open>A name with an extension of three characters is found in the directory under exactly the
  padded 8.3 name, and one with a shorter extension never is: the conversion leaves a zero byte
  after the extension where a directory entry has a space.\<close>

theorem dos_name_matches_entry:
  assumes "zstr m f (base @ DOT # ext)" and "name_apart f d (length (base @ DOT # ext))"
    and "length base \<le> 8" and "length ext \<le> 3" and "DOT \<notin> set base"
    and "FsFatNtNameToDosName m f d = Some m'" and "cells m' e (entry_name base ext)"
  shows "strncmp m' d e 11 = 0 \<longleftrightarrow> length ext = 3"
proof -
  let ?r = "map (\<lambda>j. m' (d + of_nat j)) [0..<11]"
  have lr: "length (entry_name base ext) = 11" using assms(3,4) by (rule length_entry_name)
  have "cells m' d ?r" by (simp add: cells_nth)
  from strncmp_loop_zero [OF this assms(7)] lr
  have eq: "strncmp m' d e 11 = 0 \<longleftrightarrow> ?r = entry_name base ext" by (simp add: strncmp_def del: upt_Suc)
  from NtName_dot [OF assms(1,2,3,5)] assms(6)
  have r: "j < 8 \<Longrightarrow> m' (d + of_nat j) = (if j < length base then UPCASE (base ! j) else SPACE_CH)"
    "j < 3 \<Longrightarrow> m' (d + 8 + of_nat j) = (if j < length ext then UPCASE (ext ! j) else if j = length ext then 0 else SPACE_CH)" for j
    by auto
  note en = entry_name_nth [OF assms(3,4)]
  show ?thesis unfolding eq
  proof
    assume q: "?r = entry_name base ext"
    show "length ext = 3"
    proof (rule ccontr)
      assume "length ext \<noteq> 3"
      then have l: "length ext < 3" using assms(4) by simp
      have "?r ! (8 + length ext) = entry_name base ext ! (8 + length ext)" by (simp only: q)
      moreover have "?r ! (8 + length ext) = 0" using r(2) [OF l] l by (simp add: add.assoc del: upt_Suc)
      moreover have "entry_name base ext ! (8 + length ext) = SPACE_CH" using en(2) [OF l] by simp
      ultimately show False by (simp add: SPACE_CH_def)
    qed
  next
    assume l: "length ext = 3"
    show "?r = entry_name base ext"
    proof (rule nth_equalityI)
      show "length ?r = length (entry_name base ext)" using lr by simp
      fix j assume "j < length ?r"
      then have j: "j < 11" "?r ! j = m' (d + of_nat j)" by (simp_all del: upt_Suc)
      show "?r ! j = entry_name base ext ! j"
      proof (cases "j < 8")
        case True
        then show ?thesis using j r(1) en(1) by simp
      next
        case False
        then obtain i where i: "j = 8 + i" by (metis le_Suc_ex not_less)
        then show ?thesis using j r(2) [of i] en(2) [of i] l by (simp add: add.assoc)
      qed
    qed
  qed
qed

definition name_mem :: "8 mem" where
  "name_mem = store_bytes (store_bytes (\<lambda>_. 0) 0x9000 [0x61, 0x2E, 0x74, 0x78])
     0x8000 [0x41, 0x20, 0x20, 0x20, 0x20, 0x20, 0x20, 0x20, 0x54, 0x58, 0x20]"

theorem dos_name_matches_entry_witness:
  "\<exists>m'. FsFatNtNameToDosName name_mem 0x9000 0x100 = Some m'
    \<and> (strncmp m' 0x100 0x8000 11 = 0 \<longleftrightarrow> length [0x74, 0x78 :: u8] = 3)"
proof -
  have z: "zstr name_mem 0x9000 ([0x61] @ DOT # [0x74, 0x78])"
    by (simp add: name_mem_def DOT_def)
  have ap: "name_apart 0x9000 0x100 (length ([0x61] @ DOT # [0x74, 0x78]))"
    by (auto simp: name_apart_def within_def le_Suc_eq)
  have nd: "length [0x61 :: u8] \<le> 8" "DOT \<notin> set [0x61]" by (simp_all add: DOT_def)
  from NtName_dot [OF z ap nd] obtain m' where m': "FsFatNtNameToDosName name_mem 0x9000 0x100 = Some m'"
    "\<And>a. \<not> within a 0x100 12 \<Longrightarrow> \<not> within a 0x9000 (length ([0x61] @ DOT # [0x74, 0x78])) \<Longrightarrow> m' a = name_mem a"
    by blast
  have "m' (0x8000 + of_nat i) = name_mem (0x8000 + of_nat i)" if "i < 11" for i
  proof (rule m'(2))
    have "unat (0x8000 + of_nat i :: u32) = 0x8000 + i" using that unat_of_nat_u32 [of "0x8000 + i"] by simp
    then show "\<not> within (0x8000 + of_nat i) 0x100 12"
      "\<not> within (0x8000 + of_nat i) 0x9000 (length ([0x61] @ DOT # [0x74, 0x78]))"
      using that by (auto simp: within_iff word_le_nat_alt)
  qed
  moreover have en: "entry_name [0x61] [0x74, 0x78] = [0x41, 0x20, 0x20, 0x20, 0x20, 0x20, 0x20, 0x20, 0x54, 0x58, 0x20]"
  proof -
    have "replicate 7 SPACE_CH = [0x20, 0x20, 0x20, 0x20, 0x20, 0x20, 0x20]"
      unfolding SPACE_CH_def by (simp add: numeral_eq_Suc)
    then show ?thesis by (simp add: entry_name_def pad_def UPCASE_def SPACE_CH_def)
  qed
  moreover have "cells name_mem 0x8000 (entry_name [0x61] [0x74, 0x78])"
    unfolding en by (simp add: name_mem_def)
  ultimately have "cells m' 0x8000 (entry_name [0x61] [0x74, 0x78])"
    unfolding cells_nth en by simp
  from dos_name_matches_entry [OF z ap nd(1) _ nd(2) m'(1) this] m'(1) show ?thesis by auto
qed

lemma dir_scan_first:
  "dir_scan m dn base n = Some d \<Longrightarrow>
     \<exists>i<n. d = base + of_nat i * SIZEOF_DIRENT \<and> strncmp m dn d 11 = 0
       \<and> (\<forall>j<i. strncmp m dn (base + of_nat j * SIZEOF_DIRENT) 11 \<noteq> 0)"
proof (induction n arbitrary: base)
  case (Suc n)
  show ?case
  proof (cases "strncmp m dn base 11 = 0")
    case True
    then show ?thesis using Suc.prems by (intro exI [of _ 0]) simp
  next
    case False
    then have "dir_scan m dn (base + SIZEOF_DIRENT) n = Some d" using Suc.prems by simp
    from Suc.IH [OF this] obtain i where i: "i < n" "d = base + SIZEOF_DIRENT + of_nat i * SIZEOF_DIRENT"
      "strncmp m dn d 11 = 0" "\<forall>j<i. strncmp m dn (base + SIZEOF_DIRENT + of_nat j * SIZEOF_DIRENT) 11 \<noteq> 0" by blast
    have "strncmp m dn (base + of_nat j * SIZEOF_DIRENT) 11 \<noteq> 0" if "j < Suc i" for j
      using that False i(4) by (cases j) (auto simp: algebra_simps)
    with i show ?thesis by (intro exI [of _ "Suc i"]) (simp add: algebra_simps)
  qed
qed simp

lemma dir_scan_none: "dir_scan m dn base n = None \<Longrightarrow> i < n \<Longrightarrow> strncmp m dn (base + of_nat i * SIZEOF_DIRENT) 11 \<noteq> 0"
proof (induction n arbitrary: base i)
  case (Suc n)
  then have "strncmp m dn base 11 \<noteq> 0" "dir_scan m dn (base + SIZEOF_DIRENT) n = None" by (auto split: if_splits)
  then show ?case using Suc.IH [of "base + SIZEOF_DIRENT" "i - 1"] Suc.prems(2) by (cases i) (auto simp: algebra_simps)
qed simp

text \<open>A name without a dot.\<close>

lemma NtName_plain:
  assumes z: "zstr m f name" and ap: "name_apart f d (length name)" and l: "length name \<le> 11" and nd: "DOT \<notin> set name"
  shows "\<exists>m'. FsFatNtNameToDosName m f d = Some m'
    \<and> (\<forall>j<11. m' (d + of_nat j) = (if j < length name then UPCASE (name ! j) else SPACE_CH))
    \<and> (\<forall>a. \<not> within a d 12 \<longrightarrow> \<not> within a f (length name) \<longrightarrow> m' a = m a)"
proof -
  let ?n = "length name"
  from NtName_prepare [OF z ap] obtain m1 m2 where m1: "strtoupr m f = Some m1"
    and m2: "m2 = store_bytes m1 d (replicate 11 SPACE_CH)" and z2: "zstr m2 f (map UPCASE name)"
    and sp: "\<And>j. j < 11 \<Longrightarrow> m2 (d + of_nat j) = SPACE_CH"
    and fr: "\<And>a. \<not> within a d 12 \<Longrightarrow> \<not> within a f ?n \<Longrightarrow> m2 a = m a" by blast
  have nz: "0 \<notin> set name" using z by (simp add: zstr_def)
  have cell: "m2 (f + of_nat i) = UPCASE (name ! i)" if "i < ?n" for i using zstr_nth [OF z2, of i] that by simp
  have "DOT \<notin> set (map UPCASE name)" using nd by (metis UPCASE_dot image_iff list.set_map)
  then have chr: "strchr m2 f DOT = Some None" using strchr_zstr [OF z2, of DOT] by simp
  let ?m3 = "strncpy m2 d f (of_nat ?n)"
  have c3: "?m3 = blit m2 d f ?n"
  proof (rule strncpy_part)
    show "m2 (f + of_nat i) \<noteq> 0" if "Suc i < ?n" for i using cell [of i] that nz by (auto simp: in_set_conv_nth)
    show "\<not> within (f + of_nat i) d ?n" if "i < ?n" for i
      using ap that l within_mono [of "f + of_nat i" d ?n 12] by (auto simp: name_apart_def)
  qed (use ap in \<open>auto simp: name_apart_def\<close>)
  have res: "FsFatNtNameToDosName m f d = Some (?m3(d + 11 := 0))"
    using m1 chr strlen_zstr [OF z2] by (simp add: FsFatNtNameToDosName_def Let_def m2 [symmetric])
  let ?m5 = "?m3(d + 11 := 0)"
  have "?m5 (d + of_nat j) = (if j < ?n then UPCASE (name ! j) else SPACE_CH)" if j: "j < 11" for j
  proof -
    have "of_nat j \<noteq> (11 :: u32)" using j of_nat_length_eq [of j 11] by simp
    then have e: "?m5 (d + of_nat j) = ?m3 (d + of_nat j)" by simp
    show ?thesis
    proof (cases "j < ?n")
      case True
      then show ?thesis unfolding e unfolding c3 using blit_nth [of j ?n m2 d f] l cell by simp
    next
      case False
      have "unat (of_nat j :: u32) = j" using j by (intro unat_of_nat_u32) simp
      then have "\<not> within (d + of_nat j) d ?n" using False by (simp add: within_def)
      then show ?thesis unfolding e unfolding c3 using False sp [OF j] by (simp add: blit_other)
    qed
  qed
  moreover have "?m5 a = m a" if "\<not> within a d 12" "\<not> within a f ?n" for a
  proof -
    have "\<not> within a d ?n" using that(1) l within_mono [of a d ?n 12] by auto
    then have "?m3 a = m a" unfolding c3 using fr [OF that] by (simp add: blit_other)
    moreover have "a \<noteq> d + 11" using that(1) within_nth [of 11 12 d] by auto
    ultimately show ?thesis by simp
  qed
  ultimately show ?thesis using res by blast
qed

text \<open>The eleven bytes that a name is converted to, and the names that fit into them.\<close>

definition dos_bytes :: "u8 list \<Rightarrow> u8 list" where
  "dos_bytes u =
     (if DOT \<in> set u
      then pad 8 (map UPCASE (takeWhile (\<lambda>c. c \<noteq> DOT) u)) @
        take 3 (map UPCASE (tl (dropWhile (\<lambda>c. c \<noteq> DOT) u)) @ [0, SPACE_CH, SPACE_CH])
      else pad 11 (map UPCASE u))"

definition dos_fits :: "u8 list \<Rightarrow> bool" where
  "dos_fits u \<longleftrightarrow> length (takeWhile (\<lambda>c. c \<noteq> DOT) u) \<le> (if DOT \<in> set u then 8 else 11)"

lemma no_dot: "DOT \<notin> set u \<Longrightarrow> takeWhile (\<lambda>c. c \<noteq> DOT) u = u"
  by (induction u) auto

lemma length_dos_bytes: "dos_fits u \<Longrightarrow> length (dos_bytes u) = 11"
  by (auto simp: dos_bytes_def dos_fits_def pad_def no_dot split: if_splits)

lemma NtName_bytes:
  assumes "zstr m f u" "name_apart f d (length u)" "dos_fits u"
  shows "\<exists>m'. FsFatNtNameToDosName m f d = Some m' \<and> cells m' d (dos_bytes u)
    \<and> (\<forall>a. \<not> within a d 12 \<longrightarrow> \<not> within a f (length u) \<longrightarrow> m' a = m a)"
proof (cases "DOT \<in> set u")
  case True
  define base where "base = takeWhile (\<lambda>c. c \<noteq> DOT) u"
  define ext where "ext = tl (dropWhile (\<lambda>c. c \<noteq> DOT) u)"
  have "dropWhile (\<lambda>c. c \<noteq> DOT) u \<noteq> []" using True by (auto simp: dropWhile_eq_Nil_conv)
  then have u: "u = base @ DOT # ext"
    using hd_dropWhile [of "\<lambda>c. c \<noteq> DOT" u] by (metis base_def ext_def takeWhile_dropWhile_id list.collapse)
  have b8: "length base \<le> 8" and nd: "DOT \<notin> set base"
    using assms(3) True by (auto simp: dos_fits_def base_def dest: set_takeWhileD)
  from NtName_dot [of m f base ext d] assms(1,2) b8 nd obtain m' where
    m': "FsFatNtNameToDosName m f d = Some m'" and
    lo: "\<And>j. j < 8 \<Longrightarrow> m' (d + of_nat j) = (if j < length base then UPCASE (base ! j) else SPACE_CH)" and
    hi: "\<And>j. j < 3 \<Longrightarrow> m' (d + 8 + of_nat j) = (if j < length ext then UPCASE (ext ! j) else if j = length ext then 0 else SPACE_CH)" and
    fr: "\<forall>a. \<not> within a d 12 \<longrightarrow> \<not> within a f (length u) \<longrightarrow> m' a = m a" unfolding u by blast
  have db: "dos_bytes u = pad 8 (map UPCASE base) @ take 3 (map UPCASE ext @ [0, SPACE_CH, SPACE_CH])"
    using True by (simp add: dos_bytes_def base_def ext_def)
  have l8: "length (pad 8 (map UPCASE base)) = 8" using b8 by (simp add: pad_def)
  have "cells m' d (pad 8 (map UPCASE base))"
    unfolding cells_nth l8 using lo b8 by (auto simp: pad_def nth_append)
  moreover have "cells m' (d + 8) (take 3 (map UPCASE ext @ [0, SPACE_CH, SPACE_CH]))"
    unfolding cells_nth
  proof (intro allI impI)
    fix i assume "i < length (take 3 (map UPCASE ext @ [0, SPACE_CH, SPACE_CH]))"
    then have i: "i < 3" by simp
    have "[0, SPACE_CH, SPACE_CH] ! (i - length ext) = SPACE_CH" if "length ext < i"
    proof -
      have "i - length ext = 1 \<or> i - length ext = 2" using that i by auto
      then show ?thesis by auto
    qed
    then show "m' (d + 8 + of_nat i) = take 3 (map UPCASE ext @ [0, SPACE_CH, SPACE_CH]) ! i"
      using hi [OF i] i by (auto simp: nth_append)
  qed
  ultimately have "cells m' d (dos_bytes u)" unfolding db by (simp add: cells_append l8)
  then show ?thesis using m' fr by blast
next
  case False
  then have l: "length u \<le> 11" using assms(3) by (simp add: dos_fits_def no_dot)
  have db: "dos_bytes u = pad 11 (map UPCASE u)" using False by (simp add: dos_bytes_def)
  have l11: "length (pad 11 (map UPCASE u)) = 11" using l by (simp add: pad_def)
  from NtName_plain [OF assms(1,2) l False] obtain m' where m': "FsFatNtNameToDosName m f d = Some m'"
    and at: "\<And>j. j < 11 \<Longrightarrow> m' (d + of_nat j) = (if j < length u then UPCASE (u ! j) else SPACE_CH)"
    and fr: "\<forall>a. \<not> within a d 12 \<longrightarrow> \<not> within a f (length u) \<longrightarrow> m' a = m a" by blast
  have "cells m' d (dos_bytes u)"
    unfolding db cells_nth l11 using at l by (auto simp: pad_def nth_append)
  then show ?thesis using m' fr by blast
qed

lemma strncmp_entry: "cells m d xs \<Longrightarrow> length xs = 11 \<Longrightarrow> strncmp m d e 11 = 0 \<longleftrightarrow> cells m e xs"
proof -
  assume xs: "cells m d xs" "length xs = 11"
  let ?ys = "map (\<lambda>j. m (e + of_nat j)) [0..<11]"
  have ys: "cells m e ?ys" by (simp add: cells_nth)
  from strncmp_loop_zero [OF xs(1) ys] have "strncmp m d e 11 = 0 \<longleftrightarrow> xs = ?ys"
    using xs(2) by (simp add: strncmp_def del: upt_Suc)
  also have "\<dots> \<longleftrightarrow> cells m e xs"
    unfolding cells_nth using xs(2) by (auto simp: list_eq_iff_nth_eq simp del: upt_Suc)
  finally show ?thesis .
qed

text \<open>The number of entries of the root directory.\<close>

definition root_entries :: "8 mem \<Rightarrow> vcb \<Rightarrow> nat" where
  "root_entries m v = (let fh = BootSector v in unat (if fh_DirectoryEntries m fh \<noteq> 0 then ucast (fh_DirectoryEntries m fh) :: u32
     else (ucast (fh_SectorsPerCluster m fh) * ucast (fh_SectorSize m fh)) div SIZEOF_DIRENT))"

text \<open>C31: What an open request for a file of a mounted volume does, when the name fits into eleven bytes: a name with a
  path separator is refused (and the block of the path is leaked); otherwise the first entry of the root directory whose
  name is the converted name, in upper case and padded, is opened; a read-only entry is not opened for writing, and
  without such an entry the answer is \<open>STATUS_NOT_FOUND\<close>. Only an opened file gets a control block. The memory outside
  of the path and the converted name stays as it was. (An extension with less than three characters is converted with a
  zero byte behind it.)\<close>

theorem create_opens_named_entry:
  fixes w :: "u16 list"
  defines "u \<equiv> map ucast w :: u8 list"
  assumes run: "FsFatCreate False v Length name access p_path p_fcb dosname cc s = Some (r, s')" and "Length \<noteq> 0"
    and w: "zstr (WMem s) (name + 1) w" "0 \<notin> set u" and ap: "name_apart p_path dosname (length u)" and fits: "dos_fits u"
  defines "live \<equiv> ExAllocate p_path (Live s)"
    and "here \<equiv> \<lambda>i. cells (Mem s') (RootDirectory v + of_nat i * SIZEOF_DIRENT) (dos_bytes u)"
  shows "(\<forall>a. \<not> within a dosname 12 \<longrightarrow> \<not> within a p_path (Suc (length u)) \<longrightarrow> Mem s' a = Mem s a) \<and>
    (if 0x5C \<in> set u then r = Completed STATUS_NOT_SUPPORTED \<and> FsContext s' = FsContext s \<and> Live s' = live
     else if \<forall>i<root_entries (Mem s') v. \<not> here i
     then r = Completed STATUS_NOT_FOUND \<and> FsContext s' = FsContext s \<and> Live s' = live - {p_path}
     else \<exists>i<root_entries (Mem s') v. here i \<and> (\<forall>j<i. \<not> here j) \<and>
       (let d = RootDirectory v + of_nat i * SIZEOF_DIRENT
        in if de_Attributes (Mem s') d AND 1 \<noteq> 0 \<and> access AND FILE_WRITE_DATA \<noteq> 0
           then r = Completed STATUS_ACCESS_DENIED \<and> FsContext s' = FsContext s \<and> Live s' = live - {p_path}
           else if p_fcb = 0 then r = Completed STATUS_INSUFFICIENT_RESOURCES \<and> FsContext s' = FsContext s \<and> Live s' = live - {p_path}
           else r = Completed cc \<and> FsContext s' = Some (p_fcb, d) \<and> Live s' = insert p_fcb (live - {p_path})))"
proof -
  let ?m1 = "wcstomb_loop (Mem s) (WMem s) p_path (name + 1) (length w)"
  have lu: "length u = length w" and lw: "Suc (length w) < 2 ^ 32" using ap by (simp_all add: u_def name_apart_def)
  have wc: "wcstomb (Mem s) (WMem s) p_path (name + 1) (- 1) = Some (of_nat (length w), ?m1)"
    using wcslen_zstr [OF w(1)] unat_of_nat_u32 [of "length w"] lw by (simp add: wcstomb_def)
  have "cells (WMem s) (name + 1) w" using w(1) by (simp add: zstr_def cells_append)
  from wcstomb_loop_cells [OF this lw, of "Mem s" p_path] have z1: "zstr ?m1 p_path u"
    and f1: "\<forall>a. \<not> within a p_path (Suc (length u)) \<longrightarrow> ?m1 a = Mem s a"
    using w(2) by (simp_all add: zstr_def u_def)
  have bs: "strchr ?m1 p_path 0x5C = Some (if 0x5C \<in> set u then Some (p_path + of_nat (length (takeWhile (\<lambda>x. x \<noteq> 0x5C) u))) else None)"
    by (rule strchr_zstr [OF z1])
  show ?thesis
  proof (cases "0x5C \<in> set u")
    case True
    then show ?thesis using run \<open>Length \<noteq> 0\<close> wc bs f1 by (auto simp: FsFatCreate_def Let_def live_def)
  next
    case False
    from NtName_bytes [OF z1 ap fits] obtain m2 where m2: "FsFatNtNameToDosName ?m1 p_path dosname = Some m2"
      and c2: "cells m2 dosname (dos_bytes u)"
      and f2: "\<forall>a. \<not> within a dosname 12 \<longrightarrow> \<not> within a p_path (length u) \<longrightarrow> m2 a = ?m1 a" by blast
    have fr: "m2 a = Mem s a" if "\<not> within a dosname 12" "\<not> within a p_path (Suc (length u))" for a
      using that f1 f2 within_mono [of a p_path "length u" "Suc (length u)"] by auto
    let ?s2 = "s\<lparr>Mem := m2, Live := live - {p_path}\<rparr>"
    have res: "(case dir_scan m2 dosname (RootDirectory v) (root_entries m2 v) of
        None \<Rightarrow> Some (Completed STATUS_NOT_FOUND, ?s2)
      | Some dirent \<Rightarrow>
          if de_Attributes m2 dirent AND 1 \<noteq> 0 \<and> access AND FILE_WRITE_DATA \<noteq> 0
          then Some (Completed STATUS_ACCESS_DENIED, ?s2)
          else if p_fcb = 0 then Some (Completed STATUS_INSUFFICIENT_RESOURCES, ?s2)
          else Some (Completed cc, ?s2\<lparr>Live := ExAllocate p_fcb (Live ?s2), FsContext := Some (p_fcb, dirent)\<rparr>))
      = Some (r, s')"
      using run \<open>Length \<noteq> 0\<close> False wc bs m2
      unfolding live_def by (simp add: FsFatCreate_def root_entries_def Let_def split del: if_split)
    have mem: "Mem s' = m2" using res by (auto split: option.splits if_splits)
    have here: "here i \<longleftrightarrow> strncmp m2 dosname (RootDirectory v + of_nat i * SIZEOF_DIRENT) 11 = 0" for i
      using strncmp_entry [OF c2 length_dos_bytes [OF fits]] by (simp add: here_def mem)
    show ?thesis
    proof (cases "dir_scan m2 dosname (RootDirectory v) (root_entries m2 v)")
      case None
      then have "\<forall>i<root_entries (Mem s') v. \<not> here i" using dir_scan_none [OF None] by (simp add: here mem)
      then show ?thesis using None res False fr by (auto simp: mem)
    next
      case (Some d)
      from dir_scan_first [OF Some] obtain i where i: "i < root_entries m2 v" "d = RootDirectory v + of_nat i * SIZEOF_DIRENT"
        "here i" "\<forall>j<i. \<not> here j" by (auto simp: here)
      then have nh: "\<not> (\<forall>i<root_entries (Mem s') v. \<not> here i)" by (auto simp: mem)
      have out: "let d = RootDirectory v + of_nat i * SIZEOF_DIRENT
        in if de_Attributes (Mem s') d AND 1 \<noteq> 0 \<and> access AND FILE_WRITE_DATA \<noteq> 0
           then r = Completed STATUS_ACCESS_DENIED \<and> FsContext s' = FsContext s \<and> Live s' = live - {p_path}
           else if p_fcb = 0 then r = Completed STATUS_INSUFFICIENT_RESOURCES \<and> FsContext s' = FsContext s \<and> Live s' = live - {p_path}
           else r = Completed cc \<and> FsContext s' = Some (p_fcb, d) \<and> Live s' = insert p_fcb (live - {p_path})"
        using Some res unfolding i(2) [symmetric] Let_def by (auto simp: mem ExAllocate_def split: if_splits)
      have "i < root_entries (Mem s') v" using i(1) by (simp add: mem)
      moreover have "\<forall>a. \<not> within a dosname 12 \<longrightarrow> \<not> within a p_path (Suc (length u)) \<longrightarrow> Mem s' a = Mem s a"
        using fr by (simp add: mem)
      ultimately show ?thesis
        unfolding if_not_P [OF False] if_not_P [OF nh] using i(3,4) out by (intro conjI exI [of _ i]) assumption+
    qed
  qed
qed

definition dir_mem :: "8 mem" where
  "dir_mem = store_bytes (store_bytes (\<lambda>_. 0) 0x8000 [0x41, 0x20, 0x20, 0x20, 0x20, 0x20, 0x20, 0x20, 0x54, 0x58, 0x54])
     0x1011 [1, 0]"

definition dir_names :: "16 mem" where
  "dir_names a = (if a = 1 then 0x61 else if a = 2 then 0x2E else if a = 3 then 0x74 else if a = 4 then 0x78
     else if a = 5 then 0x74 else 0)"

definition dir_state :: fs_state where
  "dir_state = \<lparr>Mem = dir_mem, WMem = dir_names, Live = {}, FsContext = None\<rparr>"


lemma dir_create:
  "map_option (\<lambda>(r, s'). (r, FsContext s')) (FsFatCreate False demo_vcb 12 0 0 0x3000 0x4000 0x5000 STATUS_SUCCESS dir_state) = 
     Some (Completed STATUS_SUCCESS, Some (0x4000, 0x8000))"
  by code_simp

theorem create_opens_named_entry_witness:
  "\<exists>s'. FsFatCreate False demo_vcb 12 0 0 0x3000 0x4000 0x5000 STATUS_SUCCESS dir_state = Some (Completed STATUS_SUCCESS, s')
    \<and> Live s' = insert 0x4000 ({0x3000} - {0x3000}) \<and> cells (Mem s') 0x8000 (dos_bytes [0x61, 0x2E, 0x74, 0x78, 0x74])"
proof -
  let ?w = "[0x61, 0x2E, 0x74, 0x78, 0x74] :: u16 list"
  from dir_create obtain s' where s': "FsFatCreate False demo_vcb 12 0 0 0x3000 0x4000 0x5000 STATUS_SUCCESS dir_state
      = Some (Completed STATUS_SUCCESS, s')" "FsContext s' = Some (0x4000, 0x8000)" by auto
  have d: "FsContext dir_state = None" "Live dir_state = {}" by (simp_all add: dir_state_def)
  have "zstr (WMem dir_state) (0 + 1) ?w" by (simp add: dir_state_def dir_names_def zstr_def)
  moreover have "0 \<notin> set (map ucast ?w :: u8 list)" by simp
  moreover have "name_apart 0x3000 0x5000 (length (map ucast ?w :: u8 list))"
    by (auto simp: name_apart_def within_def le_Suc_eq)
  moreover have "dos_fits (map ucast ?w)" by (simp add: dos_fits_def DOT_def)
  ultimately show ?thesis
    using create_opens_named_entry [OF s'(1), of ?w] s' d
    by (auto simp: ExAllocate_def Let_def split: if_splits)
qed

end
