(* ===== verification/Hal.thy ===== *)
theory Hal
  imports Pool
begin

text \<open>
  The DMA part of the hardware abstraction layer (\<^verbatim>\<open>kernel/hal.cpp\<close>): DMA channels, the
  pages of the first megabyte that serve as DMA buffers, and DMA requests. The writes to
  the ports of the two 8237 controllers, the interrupt flag and the buffer copies are
  recorded in order in the field \<open>Trace\<close>. Loops over an \<open>UCHAR\<close> that is compared with 256,
  or with a bound that can reach 256, may run for ever: they are partial functions and
  \<open>None\<close> says that the call does not return.
\<close>

subsection \<open>State\<close>

datatype hal_event = Out u16 u8 | Cli | Sti | MemCpy u32 u32 u32

record hal =
  ChannelBusy :: "u32 list"
  LowMeg :: "u32 list"
  ControllerBusy :: u32
  Trace :: "hal_event list"

definition MAX_DMA_CHANNELS :: nat where "MAX_DMA_CHANNELS = 8"

definition LowMegPages :: nat where "LowMegPages = 256"

definition HalpLowMegBusyForDma :: "u32 list" where
  "HalpLowMegBusyForDma = [2, 2, 2, 0, 0, 0, 0, 2] @ replicate 8 2 @ replicate 240 0"

definition HalpDmaChannelBusy :: "u32 list" where
  "HalpDmaChannelBusy = [1, 0, 0, 0, 1, 0, 0, 0]"

definition hal_init :: hal where
  "hal_init = \<lparr>ChannelBusy = HalpDmaChannelBusy, LowMeg = HalpLowMegBusyForDma,
     ControllerBusy = 0, Trace = []\<rparr>"

definition event :: "hal_event \<Rightarrow> hal \<Rightarrow> hal" where
  "event e h = h\<lparr>Trace := Trace h @ [e]\<rparr>"

subsection \<open>DMA channels\<close>

text \<open>\<open>InterlockedExchange\<close> returns the old value and stores the new one.\<close>

definition HalRequestDma :: "u8 \<Rightarrow> hal \<Rightarrow> status \<times> hal" where
  "HalRequestDma Channel h =
     (if unat Channel \<ge> MAX_DMA_CHANNELS then (STATUS_INVALID_PARAMETER, h)
      else let old = ChannelBusy h ! unat Channel;
               h1 = h\<lparr>ChannelBusy := (ChannelBusy h)[unat Channel := 1]\<rparr>
           in if old \<noteq> 0 then (STATUS_BUSY, h1) else (STATUS_SUCCESS, h1))"

definition HalFreeDma :: "u8 \<Rightarrow> hal \<Rightarrow> status \<times> hal" where
  "HalFreeDma Channel h =
     (if unat Channel \<ge> MAX_DMA_CHANNELS then (STATUS_INVALID_PARAMETER, h)
      else let old = ChannelBusy h ! unat Channel;
               h1 = h\<lparr>ChannelBusy := (ChannelBusy h)[unat Channel := 0]\<rparr>
           in if old = 0 then (STATUS_ALREADY_FREE, h1) else (STATUS_SUCCESS, h1))"

subsection \<open>Pages of the first megabyte\<close>

text \<open>The test loop \<open>for (UCHAR j=i; j<i+PageCount; j++)\<close>: the bound \<open>lim\<close> is an \<open>int\<close>.\<close>

partial_function (option) busy_scan :: "u32 list \<Rightarrow> nat \<Rightarrow> u8 \<Rightarrow> u8 \<Rightarrow> u8 option" where
  [code]: "busy_scan lm lim j busy =
     (if unat j < lim then
        let busy' = busy OR ucast (lm ! unat j)
        in if busy' \<noteq> 0 then Some busy' else busy_scan lm lim (j + 1) busy'
      else Some busy)"

partial_function (option) mark_pages :: "nat \<Rightarrow> u8 \<Rightarrow> u32 list \<Rightarrow> u32 list option" where
  [code]: "mark_pages lim j lm =
     (if unat j < lim then mark_pages lim (j + 1) (lm[unat j := 1]) else Some lm)"

text \<open>
  The outer loop \<open>for (UCHAR i=0; i<_1MegPages; i++)\<close>: the condition is always true, so the
  loop is left by a return only, and the source's last line \<open>return 0\<close> is never reached.
\<close>

partial_function (option) alloc_scan :: "u32 list \<Rightarrow> u8 \<Rightarrow> u8 \<Rightarrow> (u8 \<times> u32 list) option" where
  [code]: "alloc_scan lm n i =
     (if lm ! unat i = 0 then
        Option.bind (busy_scan lm (unat i + unat n) i 0) (\<lambda>busy.
          if busy = 0 then
            Option.bind (mark_pages (unat i + unat n) i lm) (\<lambda>lm'. Some (i, lm'))
          else alloc_scan lm n (i + (n - 1) + 1))
      else alloc_scan lm n (i + 1))"

definition HalAllocatePhysicalLowMegPages :: "u8 \<Rightarrow> hal \<Rightarrow> (u8 \<times> hal) option" where
  "HalAllocatePhysicalLowMegPages PageCount h =
     map_option (\<lambda>(i, lm). (i, h\<lparr>LowMeg := lm\<rparr>)) (alloc_scan (LowMeg h) PageCount 0)"

definition HAL_FREEING_ALREADY_FREE_PAGES :: u32 where "HAL_FREEING_ALREADY_FREE_PAGES = 0xE"
definition HAL_FREEING_RESERVED_PAGES :: u32 where "HAL_FREEING_RESERVED_PAGES = 0xF"
definition HAL_FREEING_INVALID_PAGES :: u32 where "HAL_FREEING_INVALID_PAGES = 0x10"

text \<open>The freeing loop runs below 256 (the test before it), so its \<open>UCHAR\<close> does not wrap.\<close>

function free_pages :: "u8 \<Rightarrow> u8 \<Rightarrow> nat \<Rightarrow> u32 list \<Rightarrow> bugcheck + u32 list" where
  "free_pages StartPage PageCount i lm =
     (if i < unat StartPage + unat PageCount then
        if lm ! i = 2 then
          Inl (BugCheck HAL_FREEING_RESERVED_PAGES (of_nat i) (ucast StartPage) (ucast PageCount) 612)
        else if lm ! i = 0 then
          Inl (BugCheck HAL_FREEING_ALREADY_FREE_PAGES (of_nat i) (ucast StartPage) (ucast PageCount) 621)
        else free_pages StartPage PageCount (Suc i) (lm[i := 0])
      else Inr lm)"
  by pat_completeness auto
termination
  by (relation "measure (\<lambda>(s, n, i, lm). unat s + unat n - i)") auto

declare free_pages.simps [simp del]

definition HalFreePhysicalLowMegPages :: "u8 \<Rightarrow> u8 \<Rightarrow> hal \<Rightarrow> bugcheck + hal" where
  "HalFreePhysicalLowMegPages StartPage PageCount h =
     (if unat StartPage + unat PageCount \<ge> LowMegPages then
        Inl (BugCheck HAL_FREEING_INVALID_PAGES (ucast StartPage) (ucast PageCount) 597 0)
      else map_sum id (\<lambda>lm. h\<lparr>LowMeg := lm\<rparr>) (free_pages StartPage PageCount (unat StartPage) (LowMeg h)))"

definition HalReservePhysicalLowMegPages :: "u32 \<Rightarrow> u32 \<Rightarrow> hal \<Rightarrow> hal" where
  "HalReservePhysicalLowMegPages PhysStart PhysEnd h =
     (let pageStart = unat (drop_bit 12 (ALIGN_DOWN PhysStart 4096));
          pageEnd = unat (drop_bit 12 (ALIGN_UP PhysEnd 4096))
      in h\<lparr>LowMeg := foldl (\<lambda>lm i. lm[i := 2]) (LowMeg h) [pageStart ..< pageEnd]\<rparr>)"

subsection \<open>Programming the controller\<close>

definition HalEnableDma :: "u8 \<Rightarrow> hal \<Rightarrow> hal" where
  "HalEnableDma Channel h =
     (if Channel \<le> 3 then event (Out 0x0A Channel) h else event (Out 0xD4 (Channel AND 3)) h)"

definition HalDisableDma :: "u8 \<Rightarrow> hal \<Rightarrow> hal" where
  "HalDisableDma Channel h =
     (if Channel \<le> 3 then event (Out 0x0A (Channel OR 4)) h
      else event (Out 0xD4 ((Channel AND 3) OR 4)) h)"

definition HalClearDmaFf :: "u8 \<Rightarrow> hal \<Rightarrow> hal" where
  "HalClearDmaFf Channel h =
     (if Channel \<le> 3 then event (Out 0x0C 0) h else event (Out 0xD8 0) h)"

definition HalSetDmaMode :: "u8 \<Rightarrow> u8 \<Rightarrow> hal \<Rightarrow> hal" where
  "HalSetDmaMode Channel Mode h =
     (if Channel \<le> 3 then event (Out 0x0B (Mode OR Channel)) h
      else event (Out 0xD6 (Mode OR (Channel AND 3))) h)"

definition HalpDmaAddr :: "u16 list" where
  "HalpDmaAddr = [0x00, 0x02, 0x04, 0x06, 0xC0, 0xC4, 0xC8, 0xCC]"

definition HalpDmaCnt :: "u16 list" where
  "HalpDmaCnt = [0x01, 0x03, 0x05, 0x07, 0xC2, 0xC6, 0xCA, 0xCE]"

definition HalpDmaPage :: "u16 list" where
  "HalpDmaPage = [0x87, 0x83, 0x81, 0x82, 0, 0x8B, 0x89, 0x8A]"

definition DMA_MODE_READ :: u8 where "DMA_MODE_READ = 0x44"
definition DMA_MODE_WRITE :: u8 where "DMA_MODE_WRITE = 0x48"

record dma_request =
  DmaChannel :: u8
  DmaBuffer :: u32
  ReadOperation :: bool
  BufferSize :: u32
  DmaPageCount :: u8
  PageUsed :: u8
  MappedPhysical :: u32

definition program_controller :: "u8 \<Rightarrow> u8 \<Rightarrow> u8 \<Rightarrow> u32 \<Rightarrow> hal \<Rightarrow> hal" where
  "program_controller DmaCommand Channel page Size h =
     (let f_addr = push_bit 12 (ucast page) :: u32;
          seg = ucast (drop_bit 16 f_addr AND 0xFF) :: u16;
          ofs = ucast (f_addr AND 0xFFFF) :: u16;
          addr = HalpDmaAddr ! unat Channel;
          cnt = HalpDmaCnt ! unat Channel;
          pg = HalpDmaPage ! unat Channel;
          h1 = HalDisableDma Channel (event Cli h);
          h2 = HalClearDmaFf Channel h1;
          h3 = event (Out addr (ucast (ofs AND 0xFF))) h2;
          h4 = event (Out addr (ucast (drop_bit 8 ofs AND 0xFF))) h3;
          h5 = HalClearDmaFf Channel h4;
          h6 = event (Out cnt (ucast (Size AND 0xFF))) h5;
          h7 = event (Out cnt (ucast (drop_bit 8 Size AND 0xFF))) h6;
          h8 = HalSetDmaMode Channel DmaCommand h7;
          h9 = event (Out pg (ucast seg)) h8
      in event Sti (HalEnableDma Channel h9))"

text \<open>
  \<open>HalInitializeDmaRequest\<close>: the pointer \<open>ExAllocateHeap\<close> returns for the request and the
  address \<open>MmMapPhysicalPagesKernel\<close> maps the pages at are arguments (0 is NULL). A page
  number 0 from the allocator counts as failure.
\<close>

definition HalInitializeDmaRequest ::
    "u32 \<Rightarrow> u32 \<Rightarrow> u8 \<Rightarrow> u8 \<Rightarrow> u32 \<Rightarrow> u32 \<Rightarrow> hal
      \<Rightarrow> (bugcheck + (status \<times> dma_request option \<times> hal)) option" where
  "HalInitializeDmaRequest heap_ptr map_ptr DmaCommand Channel Buffer Size h =
     (let old = ControllerBusy h; h0 = h\<lparr>ControllerBusy := 1\<rparr>
      in if old = 1 then Some (Inr (STATUS_BUSY, None, h0))
      else case HalRequestDma Channel h0 of (st, h1) \<Rightarrow>
        if \<not> SUCCESS st then Some (Inr (STATUS_INSUFFICIENT_RESOURCES, None, h1))
        else if heap_ptr = 0 then
          Some (Inr (STATUS_INSUFFICIENT_RESOURCES, None, snd (HalFreeDma Channel h1)))
        else
          let rd = (DmaCommand = DMA_MODE_READ);
              pages = ucast (drop_bit 12 (ALIGN_UP Size 4096)) :: u8
          in Option.bind (HalAllocatePhysicalLowMegPages pages h1) (\<lambda>(page, h2).
            if page = 0 then
              Some (Inr (STATUS_INSUFFICIENT_RESOURCES, None, snd (HalFreeDma Channel h2)))
            else if map_ptr = 0 then
              (case HalFreePhysicalLowMegPages page pages h2 of
                 Inl b \<Rightarrow> Some (Inl b)
               | Inr h3 \<Rightarrow> Some (Inr (STATUS_INSUFFICIENT_RESOURCES, None, snd (HalFreeDma Channel h3))))
            else
              let req = \<lparr>DmaChannel = Channel, DmaBuffer = Buffer, ReadOperation = rd,
                    BufferSize = Size, DmaPageCount = pages, PageUsed = page, MappedPhysical = map_ptr\<rparr>;
                  h3 = (if rd then h2 else event (MemCpy map_ptr Buffer Size) h2)
              in Some (Inr (STATUS_SUCCESS, Some req, program_controller DmaCommand Channel page Size h3))))"

definition HalCompleteDmaRequest :: "dma_request \<Rightarrow> hal \<Rightarrow> bugcheck + hal" where
  "HalCompleteDmaRequest req h =
     (let h1 = (if ReadOperation req
                then event (MemCpy (DmaBuffer req) (MappedPhysical req) (BufferSize req)) h else h)
      in case HalFreePhysicalLowMegPages (PageUsed req) (DmaPageCount req) h1 of
           Inl b \<Rightarrow> Inl b
         | Inr h2 \<Rightarrow> Inr ((snd (HalFreeDma (DmaChannel req) h2))\<lparr>ControllerBusy := 0\<rparr>))"

lemmas hal_defs [step_defs] =
  HalRequestDma_def HalFreeDma_def HalAllocatePhysicalLowMegPages_def
  HalFreePhysicalLowMegPages_def HalEnableDma_def HalDisableDma_def HalClearDmaFf_def
  HalSetDmaMode_def program_controller_def HalInitializeDmaRequest_def HalCompleteDmaRequest_def
  event_def MAX_DMA_CHANNELS_def LowMegPages_def

subsection \<open>The loops over pages\<close>

definition lowmeg_ok :: "u32 list \<Rightarrow> bool" where
  "lowmeg_ok lm \<longleftrightarrow> length lm = LowMegPages \<and> set lm \<subseteq> {0, 1, 2}"

lemma lowmeg_init: "lowmeg_ok HalpLowMegBusyForDma"
  by (simp add: lowmeg_ok_def HalpLowMegBusyForDma_def LowMegPages_def)

lemma lowmeg_byte: "lowmeg_ok lm \<Longrightarrow> k < 256 \<Longrightarrow> (ucast (lm ! k) :: u8) = 0 \<longleftrightarrow> lm ! k = 0"
proof -
  assume "lowmeg_ok lm" "k < 256"
  then have "lm ! k \<in> set lm" "set lm \<subseteq> {0, 1, 2}" by (auto simp: lowmeg_ok_def LowMegPages_def)
  then have "lm ! k = 0 \<or> lm ! k = 1 \<or> lm ! k = 2" by blast
  then show ?thesis by auto
qed

lemma u8_step: "unat (j :: u8) < 255 \<Longrightarrow> unat (j + 1) = Suc (unat j)"
  by (simp add: unat_word_ariths)

lemma u8_lt: "unat (j :: u8) < 256"
  using unsigned_less [where w = j] by simp

text \<open>A scan that finds no busy page has a bound below 256 and has seen every page below it.\<close>

lemma busy_scan_zero_bound:
  assumes ret: "busy_scan lm lim j b = Some r" and "r = 0"
  shows "lim < 256"
proof -
  have "r = 0 \<longrightarrow> lim < 256"
  proof (rule busy_scan.raw_induct [where P = "\<lambda>lm lim j b r. r = 0 \<longrightarrow> lim < 256", OF _ ret])
    fix f lm lim and j b r :: u8
    assume IH: "\<And>lm lim j b r. f lm lim j b = Some r \<Longrightarrow> r = 0 \<longrightarrow> lim < (256 :: nat)"
      and eq: "(if unat j < lim then
            let b' = b OR ucast (lm ! unat j) in if b' \<noteq> 0 then Some b' else f lm lim (j + 1) b'
          else Some b) = Some r"
    show "r = 0 \<longrightarrow> lim < 256"
    proof (cases "unat j < lim")
      case True
      with eq show ?thesis using IH [of lm lim "j + 1"] by (auto simp: Let_def split: if_splits)
    next
      case False
      then show ?thesis using u8_lt [of j] by auto
    qed
  qed
  with assms(2) show ?thesis by simp
qed

lemma busy_scan_zero_free:
  assumes ret: "busy_scan lm lim j b = Some r" and "r = 0"
  shows "unat j \<le> k \<Longrightarrow> k < lim \<Longrightarrow> k < 256 \<Longrightarrow> (ucast (lm ! k) :: u8) = 0"
proof -
  let ?P = "\<lambda>lm lim j b r. r = 0 \<longrightarrow> (\<forall>k. unat j \<le> k \<and> k < lim \<and> k < 256 \<longrightarrow> (ucast (lm ! k) :: u8) = 0)"
  have "?P lm lim j b r"
  proof (rule busy_scan.raw_induct [where P = ?P, OF _ ret])
    fix f lm lim and j b r :: u8
    assume IH: "\<And>lm lim j b r. f lm lim j b = Some r \<Longrightarrow> ?P lm lim j b r"
      and eq: "(if unat j < lim then
            let b' = b OR ucast (lm ! unat j) in if b' \<noteq> 0 then Some b' else f lm lim (j + 1) b'
          else Some b) = Some r"
    show "?P lm lim j b r"
    proof (intro impI allI, elim conjE)
      fix k assume r: "r = 0" and k: "unat j \<le> k" "k < lim" "k < 256"
      then have z: "b OR ucast (lm ! unat j) = 0" and rec: "f lm lim (j + 1) 0 = Some 0"
        using eq by (auto simp: Let_def split: if_splits)
      show "(ucast (lm ! k) :: u8) = 0"
      proof (cases "k = unat j")
        case True
        with z show ?thesis by (simp add: or_eq_0_iff)
      next
        case False
        with k have "unat (j + 1) \<le> k" by (subst u8_step) auto
        with IH [OF rec] k show ?thesis by blast
      qed
    qed
  qed
  with assms(2) show "unat j \<le> k \<Longrightarrow> k < lim \<Longrightarrow> k < 256 \<Longrightarrow> (ucast (lm ! k) :: u8) = 0"
    by blast
qed

text \<open>Conversely, a scan below 256 over free pages returns 0.\<close>

lemma busy_scan_free:
  "lim < 256 \<Longrightarrow> (\<And>k. unat j \<le> k \<Longrightarrow> k < lim \<Longrightarrow> lm ! k = 0) \<Longrightarrow> busy_scan lm lim j 0 = Some 0"
proof (induction "lim - unat j" arbitrary: j)
  case 0
  then show ?case by (simp add: busy_scan.simps)
next
  case (Suc d)
  then have lt: "unat j < lim" by simp
  then have "unat (j + 1) = Suc (unat j)" using Suc.prems(1) by (intro u8_step) simp
  with Suc lt show ?case by (simp add: busy_scan.simps [of lm lim j] Let_def)
qed

definition marked :: "nat \<Rightarrow> nat \<Rightarrow> u32 list \<Rightarrow> u32 list" where
  "marked i lim lm = map (\<lambda>k. if i \<le> k \<and> k < lim then 1 else lm ! k) [0..<length lm]"

lemma length_marked [simp]: "length (marked i lim lm) = length lm"
  by (simp add: marked_def)

lemma nth_marked [simp]:
  "k < length lm \<Longrightarrow> marked i lim lm ! k = (if i \<le> k \<and> k < lim then 1 else lm ! k)"
  by (simp add: marked_def)

lemma mark_pages_eq:
  "lim < 256 \<Longrightarrow> length lm = 256 \<Longrightarrow> mark_pages lim j lm = Some (marked (unat j) lim lm)"
proof (induction "lim - unat j" arbitrary: j lm)
  case 0
  then show ?case by (auto simp: mark_pages.simps intro!: nth_equalityI)
next
  case (Suc d)
  then have lt: "unat j < lim" by simp
  then have j: "unat (j + 1) = Suc (unat j)" using Suc.prems(1) by (intro u8_step) simp
  have "mark_pages lim (j + 1) (lm[unat j := 1]) = Some (marked (Suc (unat j)) lim (lm[unat j := 1]))"
    using Suc.hyps(2) Suc.prems j by (subst Suc.hyps(1)) auto
  also have "marked (Suc (unat j)) lim (lm[unat j := 1]) = marked (unat j) lim lm"
    using Suc.prems lt by (intro nth_equalityI) (auto simp: nth_list_update)
  finally show ?case using lt by (simp add: mark_pages.simps [of lim j])
qed

subsection \<open>The allocator\<close>

lemma alloc_scan_sound:
  assumes ret: "alloc_scan lm n i = Some (p, lm')" and ok: "lowmeg_ok lm"
  shows "unat p + unat n < 256 \<and> (\<forall>k. unat p \<le> k \<and> k < unat p + unat n \<longrightarrow> lm ! k = 0)
    \<and> lm ! unat p = 0 \<and> lm' = marked (unat p) (unat p + unat n) lm"
proof -
  let ?Q = "\<lambda>lm n r. lowmeg_ok lm \<longrightarrow> unat (fst r) + unat n < 256
    \<and> (\<forall>k. unat (fst r) \<le> k \<and> k < unat (fst r) + unat n \<longrightarrow> lm ! k = 0) \<and> lm ! unat (fst r) = 0
    \<and> snd r = marked (unat (fst r)) (unat (fst r) + unat n) lm"
  have "?Q lm n (p, lm')"
  proof (rule alloc_scan.raw_induct [where P = "\<lambda>lm n i r. ?Q lm n r", OF _ ret])
    fix f lm and n i :: u8 and r
    assume IH: "\<And>lm n (i :: u8) r. f lm n i = Some r \<Longrightarrow> ?Q lm n r"
      and eq: "(if lm ! unat i = 0 then
        Option.bind (busy_scan lm (unat i + unat n) i 0) (\<lambda>busy.
          if busy = 0 then
            Option.bind (mark_pages (unat i + unat n) i lm) (\<lambda>lm'. Some (i, lm'))
          else f lm n (i + (n - 1) + 1))
      else f lm n (i + 1)) = Some r"
    show "?Q lm n r"
    proof
      assume ok: "lowmeg_ok lm"
      show "unat (fst r) + unat n < 256
        \<and> (\<forall>k. unat (fst r) \<le> k \<and> k < unat (fst r) + unat n \<longrightarrow> lm ! k = 0) \<and> lm ! unat (fst r) = 0
        \<and> snd r = marked (unat (fst r)) (unat (fst r) + unat n) lm"
      proof (cases "lm ! unat i = 0 \<and> busy_scan lm (unat i + unat n) i 0 = Some 0")
        case True
        then have b: "unat i + unat n < 256" using busy_scan_zero_bound by blast
        then have fr: "lm ! k = 0" if "unat i \<le> k" "k < unat i + unat n" for k
          using busy_scan_zero_free [of lm "unat i + unat n" i 0 0 k] True that lowmeg_byte [OF ok, of k] by auto
        have "r = (i, marked (unat i) (unat i + unat n) lm)"
          using eq True mark_pages_eq [OF b, of lm i] ok by (auto simp: lowmeg_ok_def LowMegPages_def)
        with b fr True show ?thesis by auto
      next
        case False
        then obtain i' where "f lm n i' = Some r"
          using eq by (auto split: if_splits bind_splits simp: bind_eq_Some_conv)
        with IH ok show ?thesis by blast
      qed
    qed
  qed
  with ok show ?thesis by simp
qed

text \<open>When no page is free the allocator does not return: it never reports failure.\<close>

lemma alloc_scan_full:
  assumes "\<forall>k<256. lm ! k \<noteq> 0"
  shows "alloc_scan lm n i = None"
proof (rule ccontr)
  assume "alloc_scan lm n i \<noteq> None"
  then obtain r where ret: "alloc_scan lm n i = Some r" by blast
  have "\<not> (\<forall>k<256. lm ! k \<noteq> 0)"
  proof (rule alloc_scan.raw_induct [where P = "\<lambda>lm n i r. \<not> (\<forall>k<256. lm ! k \<noteq> 0)", OF _ ret])
    fix f lm and n i :: u8 and r
    assume IH: "\<And>lm n i (r :: u8 \<times> u32 list). f lm n (i :: u8) = Some r \<Longrightarrow> \<not> (\<forall>k<256. lm ! k \<noteq> (0 :: u32))"
      and eq: "(if lm ! unat i = 0 then
        Option.bind (busy_scan lm (unat i + unat n) i 0) (\<lambda>busy.
          if busy = 0 then
            Option.bind (mark_pages (unat i + unat n) i lm) (\<lambda>lm'. Some (i, lm'))
          else f lm n (i + (n - 1) + 1))
      else f lm n (i + 1)) = Some r"
    show "\<not> (\<forall>k<256. lm ! k \<noteq> 0)"
      using eq IH [of lm n "i + 1" r] u8_lt [of i] by (auto split: if_splits)
  qed
  with assms show False by blast
qed

lemma free_pages_marked:
  "\<forall>k. i \<le> k \<and> k < unat s + unat n \<longrightarrow> lm ! k = 1 \<Longrightarrow> unat s + unat n \<le> length lm
    \<Longrightarrow> \<exists>lm'. free_pages s n i lm = Inr lm' \<and> length lm' = length lm
      \<and> (\<forall>k<length lm. lm' ! k = (if i \<le> k \<and> k < unat s + unat n then 0 else lm ! k))"
proof (induction "unat s + unat n - i" arbitrary: i lm)
  case 0
  then show ?case by (auto simp: free_pages.simps)
next
  case (Suc d)
  then have lt: "i < unat s + unat n" by simp
  let ?lm = "lm[i := 0]"
  have "\<exists>lm'. free_pages s n (Suc i) ?lm = Inr lm' \<and> length lm' = length ?lm
      \<and> (\<forall>k<length ?lm. lm' ! k = (if Suc i \<le> k \<and> k < unat s + unat n then 0 else ?lm ! k))"
    using Suc.hyps(2) Suc.prems by (intro Suc.hyps(1)) auto
  then obtain lm' where lm': "free_pages s n (Suc i) ?lm = Inr lm'" "length lm' = length lm"
      "\<forall>k<length lm. lm' ! k = (if Suc i \<le> k \<and> k < unat s + unat n then 0 else ?lm ! k)"
    by auto
  have "free_pages s n i lm = Inr lm'"
    using lt Suc.prems(1) lm'(1) by (simp add: free_pages.simps [of s n i])
  moreover have "lm' ! k = (if i \<le> k \<and> k < unat s + unat n then 0 else lm ! k)" if "k < length lm" for k
    using lm'(3) that lt by (auto simp: nth_list_update)
  ultimately show ?case using lm'(2) by blast
qed


text \<open>For one page the scan is a search for the first free page below 255.\<close>

lemma alloc_scan_one:
  assumes "lowmeg_ok lm" and "lm ! k = 0" and "k < 255"
  shows "unat i \<le> k \<Longrightarrow> (\<And>l. unat i \<le> l \<Longrightarrow> l < k \<Longrightarrow> lm ! l \<noteq> 0)
    \<Longrightarrow> alloc_scan lm 1 i = Some (of_nat k, marked k (Suc k) lm)"
proof (induction "k - unat i" arbitrary: i)
  case 0
  then have i: "unat i = k" "i = of_nat k" by auto
  have "busy_scan lm (unat i + unat (1 :: u8)) i 0 = Some 0"
    using assms i(1) by (intro busy_scan_free) (auto simp: le_less_Suc_eq)
  moreover have "mark_pages (unat i + unat (1 :: u8)) i lm = Some (marked k (Suc k) lm)"
    using assms i(1) mark_pages_eq [of "unat i + unat (1 :: u8)" lm i] by (simp add: lowmeg_ok_def LowMegPages_def)
  ultimately show ?case using assms(2) i(1) unfolding i(2) [symmetric]
    by (subst alloc_scan.simps) simp
next
  case (Suc d)
  then have lt: "unat i < k" by simp
  then have "unat (i + 1) = Suc (unat i)" using assms(3) by (intro u8_step) simp
  with Suc lt have "alloc_scan lm 1 (i + 1) = Some (of_nat k, marked k (Suc k) lm)" by auto
  then show ?case using Suc.prems(2) [of "unat i"] lt by (simp add: alloc_scan.simps [of lm 1 i])
qed

subsection \<open>The allocator is a pool of pages\<close>

definition lowmeg_inv :: "hal \<Rightarrow> bool" where
  "lowmeg_inv h \<longleftrightarrow> lowmeg_ok (LowMeg h)"

definition lowmeg_taken :: "hal \<Rightarrow> nat set" where
  "lowmeg_taken h = {k. k < 256 \<and> LowMeg h ! k = 1}"

definition take_pages :: "u8 \<Rightarrow> hal \<Rightarrow> ((u8 \<times> u8) \<times> hal) option" where
  "take_pages n h = map_option (\<lambda>(i, h'). ((i, n), h')) (HalAllocatePhysicalLowMegPages n h)"

definition give_pages :: "u8 \<times> u8 \<Rightarrow> hal \<Rightarrow> hal option" where
  "give_pages g h =
     (case HalFreePhysicalLowMegPages (fst g) (snd g) h of Inl b \<Rightarrow> None | Inr h' \<Rightarrow> Some h')"

definition grant_pages :: "u8 \<times> u8 \<Rightarrow> nat set" where
  "grant_pages g = {unat (fst g) ..< unat (fst g) + unat (snd g)}"

definition grant_ok :: "u8 \<times> u8 \<Rightarrow> bool" where
  "grant_ok g \<longleftrightarrow> unat (fst g) + unat (snd g) < 256"

lemma marked_ok: "lowmeg_ok lm \<Longrightarrow> lowmeg_ok (marked i lim lm)"
  by (auto simp: lowmeg_ok_def set_subset_nth)

lemma take_pages_law:
  assumes "lowmeg_inv h" and "take_pages n h = Some (g, h')"
  shows "lowmeg_inv h' \<and> grant_ok g \<and> grant_pages g \<inter> lowmeg_taken h = {}
    \<and> lowmeg_taken h' = lowmeg_taken h \<union> grant_pages g"
proof -
  from assms(2) obtain i lm' where a: "alloc_scan (LowMeg h) n 0 = Some (i, lm')"
      "g = (i, n)" "h' = h\<lparr>LowMeg := lm'\<rparr>"
    by (auto simp: take_pages_def HalAllocatePhysicalLowMegPages_def)
  have ok: "lowmeg_ok (LowMeg h)" using assms(1) by (simp add: lowmeg_inv_def)
  note sound = alloc_scan_sound [OF a(1) ok]
  show ?thesis
    using sound a(2,3) ok marked_ok [OF ok]
    by (auto simp: lowmeg_inv_def grant_ok_def grant_pages_def lowmeg_taken_def lowmeg_ok_def LowMegPages_def)
qed

lemma give_pages_law:
  assumes "lowmeg_inv h" and "grant_ok g" and "grant_pages g \<subseteq> lowmeg_taken h"
  shows "\<exists>h'. give_pages g h = Some h' \<and> lowmeg_inv h' \<and> lowmeg_taken h' = lowmeg_taken h - grant_pages g"
proof -
  obtain i n where g: "g = (i, n)" by force
  have ok: "length (LowMeg h) = 256" "set (LowMeg h) \<subseteq> {0, 1, 2}"
    using assms(1) by (auto simp: lowmeg_inv_def lowmeg_ok_def LowMegPages_def)
  have busy: "\<forall>k. unat i \<le> k \<and> k < unat i + unat n \<longrightarrow> LowMeg h ! k = 1"
    using assms(3) by (auto simp: g grant_pages_def lowmeg_taken_def)
  have le: "unat i + unat n < 256" using assms(2) by (simp add: g grant_ok_def)
  from free_pages_marked [OF busy] le ok(1) obtain lm' where
    lm': "free_pages i n (unat i) (LowMeg h) = Inr lm'" "length lm' = 256"
      "\<forall>k<256. lm' ! k = (if unat i \<le> k \<and> k < unat i + unat n then 0 else LowMeg h ! k)" by auto
  have "give_pages g h = Some (h\<lparr>LowMeg := lm'\<rparr>)"
    using lm'(1) le by (simp add: g give_pages_def HalFreePhysicalLowMegPages_def LowMegPages_def)
  moreover have "set lm' \<subseteq> {0, 1, 2}"
    using ok lm'(2,3) unfolding set_subset_nth by simp
  ultimately show ?thesis using lm'(2,3)
    by (auto simp: lowmeg_inv_def lowmeg_ok_def LowMegPages_def lowmeg_taken_def g grant_pages_def split: if_splits)
qed

interpretation pages: resource_pool lowmeg_inv grant_ok grant_pages lowmeg_taken take_pages give_pages
  by unfold_locales (use take_pages_law give_pages_law in blast)+

subsection \<open>The DMA channels are a pool\<close>

definition channels_inv :: "hal \<Rightarrow> bool" where
  "channels_inv h \<longleftrightarrow> length (ChannelBusy h) = MAX_DMA_CHANNELS \<and> set (ChannelBusy h) \<subseteq> {0, 1}"

definition channels_taken :: "hal \<Rightarrow> nat set" where
  "channels_taken h = {c. c < MAX_DMA_CHANNELS \<and> ChannelBusy h ! c = 1}"

definition take_channel :: "u8 \<Rightarrow> hal \<Rightarrow> (u8 \<times> hal) option" where
  "take_channel c h = (case HalRequestDma c h of (st, h') \<Rightarrow> if SUCCESS st then Some (c, h') else None)"

definition give_channel :: "u8 \<Rightarrow> hal \<Rightarrow> hal option" where
  "give_channel c h = (case HalFreeDma c h of (st, h') \<Rightarrow> if st = STATUS_SUCCESS then Some h' else None)"

lemma channel_values: "channels_inv h \<Longrightarrow> c < MAX_DMA_CHANNELS \<Longrightarrow> ChannelBusy h ! c = 0 \<or> ChannelBusy h ! c = 1"
  by (auto simp: channels_inv_def set_subset_nth)

lemma channels_inv_update:
  "channels_inv h \<Longrightarrow> x \<in> {0, 1} \<Longrightarrow> channels_inv (h\<lparr>ChannelBusy := (ChannelBusy h)[c := x]\<rparr>)"
  using set_update_subset_insert [of "ChannelBusy h" c x] by (auto simp: channels_inv_def)

interpretation channels: resource_pool channels_inv "\<lambda>c. unat c < MAX_DMA_CHANNELS" "\<lambda>c. {unat c}"
  channels_taken take_channel give_channel
proof unfold_locales
  fix h q c h' assume inv: "channels_inv h" and t: "take_channel q h = Some (c, h')"
  then have c: "c = q" "unat c < MAX_DMA_CHANNELS" "ChannelBusy h ! unat c = 0"
      "h' = h\<lparr>ChannelBusy := (ChannelBusy h)[unat c := 1]\<rparr>"
    by (auto simp: take_channel_def HalRequestDma_def Let_def split: if_splits)
  then show "channels_inv h' \<and> unat c < MAX_DMA_CHANNELS \<and> {unat c} \<inter> channels_taken h = {}
      \<and> channels_taken h' = channels_taken h \<union> {unat c}"
    using inv channels_inv_update [OF inv, of 1]
    by (auto simp: channels_taken_def channels_inv_def nth_list_update split: if_splits)
next
  fix h and c :: u8 assume inv: "channels_inv h" and c: "unat c < MAX_DMA_CHANNELS" "{unat c} \<subseteq> channels_taken h"
  let ?h = "h\<lparr>ChannelBusy := (ChannelBusy h)[unat c := 0]\<rparr>"
  have "give_channel c h = Some ?h"
    using c by (auto simp: give_channel_def HalFreeDma_def channels_taken_def Let_def)
  then show "\<exists>h'. give_channel c h = Some h' \<and> channels_inv h' \<and> channels_taken h' = channels_taken h - {unat c}"
    using inv c channels_inv_update [OF inv, of 0]
    by (auto simp: channels_taken_def channels_inv_def nth_list_update split: if_splits)
qed


subsection \<open>Requests\<close>

lemma program_controller_state:
  "LowMeg (program_controller cmd ch p sz h) = LowMeg h"
  "ChannelBusy (program_controller cmd ch p sz h) = ChannelBusy h"
  "ControllerBusy (program_controller cmd ch p sz h) = ControllerBusy h"
  by (simp_all add: program_controller_def Let_def event_def HalDisableDma_def HalClearDmaFf_def
      HalSetDmaMode_def HalEnableDma_def)

text \<open>What a successful request is made of.\<close>

lemma InitializeDmaRequest_success:
  assumes "HalInitializeDmaRequest hp mp cmd ch buf sz h = Some (Inr (st, Some req, h1))"
  shows "\<exists>g h2. take_pages (DmaPageCount req) (h\<lparr>ControllerBusy := 1, ChannelBusy := (ChannelBusy h)[unat ch := 1]\<rparr>)
      = Some (g, h2) \<and> g = (PageUsed req, DmaPageCount req) \<and> unat ch < MAX_DMA_CHANNELS
    \<and> ChannelBusy h ! unat ch = 0 \<and> DmaChannel req = ch \<and> LowMeg h1 = LowMeg h2
    \<and> ChannelBusy h1 = (ChannelBusy h)[unat ch := 1] \<and> ControllerBusy h \<noteq> 1"
  using assms
  by (auto simp: HalInitializeDmaRequest_def HalRequestDma_def take_pages_def Let_def bind_eq_Some_conv
      program_controller_state event_def HalAllocatePhysicalLowMegPages_def
      split: if_splits sum.splits prod.splits)

lemma ControllerBusy_frame [frame]:
  "HalFreePhysicalLowMegPages p n h = Inr h' \<Longrightarrow> ControllerBusy h' = ControllerBusy h"
  "HalRequestDma c h = (st, h') \<Longrightarrow> ControllerBusy h' = ControllerBusy h"
  "ControllerBusy (snd (HalFreeDma c h)) = ControllerBusy h"
  "HalAllocatePhysicalLowMegPages n h = Some (q, h') \<Longrightarrow> ControllerBusy h' = ControllerBusy h"
  by (auto simp: HalFreePhysicalLowMegPages_def HalRequestDma_def HalFreeDma_def Let_def map_sum_def
      HalAllocatePhysicalLowMegPages_def split: if_splits sum.splits)

lemma failed_request_controller:
  assumes "HalInitializeDmaRequest hp mp cmd ch buf sz h = Some (Inr (st, None, h1))"
  shows "ControllerBusy h1 = 1"
  using assms
  by (auto simp: HalInitializeDmaRequest_def Let_def bind_eq_Some_conv frame
      dest!: ControllerBusy_frame(1,2,4) split: if_splits sum.splits prod.splits)

text \<open>Giving back the pages that were just taken restores the page table.\<close>

lemma take_give_LowMeg:
  assumes inv: "lowmeg_inv h" and t: "take_pages n h = Some (g, h')"
    and g: "give_pages g k = Some k'" and same: "LowMeg k = LowMeg h'"
  shows "LowMeg k' = LowMeg h"
proof -
  from t obtain i lm where a: "alloc_scan (LowMeg h) n 0 = Some (i, lm)" "g = (i, n)" "LowMeg h' = lm"
    by (auto simp: take_pages_def HalAllocatePhysicalLowMegPages_def)
  have ok: "lowmeg_ok (LowMeg h)" using inv by (simp add: lowmeg_inv_def)
  then have len: "length (LowMeg h) = 256" by (simp add: lowmeg_ok_def LowMegPages_def)
  note sound = alloc_scan_sound [OF a(1) ok]
  have free: "LowMeg h ! j = 0" if "unat i \<le> j" "j < unat i + unat n" for j
    using sound that by blast
  have busy: "\<forall>j. unat i \<le> j \<and> j < unat i + unat n \<longrightarrow> lm ! j = 1"
    using sound len by simp
  have le: "unat i + unat n \<le> length lm" using sound len by simp
  from free_pages_marked [OF busy le] obtain lm' where
    lm': "free_pages i n (unat i) lm = Inr lm'" "length lm' = length lm"
      "\<forall>j<length lm. lm' ! j = (if unat i \<le> j \<and> j < unat i + unat n then 0 else lm ! j)" by blast
  have "lm' = LowMeg h"
    using lm'(2,3) sound len free by (intro nth_equalityI) auto
  moreover have "LowMeg k' = lm'"
    using g lm'(1) same a(2,3)
    by (auto simp: give_pages_def HalFreePhysicalLowMegPages_def split: if_splits)
  ultimately show ?thesis by simp
qed

subsection \<open>Properties\<close>

text \<open>C25: in any history of page requests and of releases of granted ranges, no page is in two
  grants that are held at the same time, no held page was busy or reserved when the history
  began, the pages marked as allocated are exactly those held (and those allocated before), and
  every held range can be freed without a bugcheck.\<close>

theorem dma_pages_never_shared:
  assumes "pool_run take_pages give_pages h0 held h" and "lowmeg_inv h0"
  shows "(\<forall>i j. i < j \<longrightarrow> j < length held \<longrightarrow> grant_pages (held ! i) \<inter> grant_pages (held ! j) = {})
    \<and> lowmeg_taken h = lowmeg_taken h0 \<union> \<Union> (grant_pages ` set held)
    \<and> (\<forall>g\<in>set held. grant_pages g \<inter> lowmeg_taken h0 = {} \<and> (\<exists>h'. give_pages g h = Some h'))"
proof -
  note r = pages.run_invariant [OF assms]
  have "grant_pages (held ! i) \<inter> grant_pages (held ! j) = {}" if "i < j" "j < length held" for i j
    using disjoint_list_nth [of "map grant_pages held" i j] r that by simp
  moreover have "\<exists>h'. give_pages g h = Some h'" if "g \<in> set held" for g
    using pages.held_release [OF assms that] by blast
  moreover have "lowmeg_taken h = lowmeg_taken h0 \<union> \<Union> (grant_pages ` set held)"
    and "\<forall>g\<in>set held. grant_pages g \<inter> lowmeg_taken h0 = {}" using r by simp_all
  ultimately show ?thesis by simp
qed

lemma hal_init_ok: "lowmeg_inv hal_init" "channels_inv hal_init"
  by (simp_all add: lowmeg_inv_def hal_init_def lowmeg_init channels_inv_def HalpDmaChannelBusy_def MAX_DMA_CHANNELS_def)

lemma init_pages: "LowMeg hal_init ! k = (if k \<in> {3, 4, 5, 6} then 0 else 2)" if "k < 8"
proof -
  have "k \<in> set [0..<8]" using that by simp
  then show ?thesis
    by (simp add: upt_conv_Cons hal_init_def HalpLowMegBusyForDma_def nth_append) (elim disjE; simp)
qed

lemma alloc_page_init:
  "take_pages 1 hal_init = Some ((3, 1), hal_init\<lparr>LowMeg := marked 3 4 (LowMeg hal_init)\<rparr>)"
proof -
  have "alloc_scan (LowMeg hal_init) 1 0 = Some (of_nat 3, marked 3 (Suc 3) (LowMeg hal_init))"
    using hal_init_ok(1) by (intro alloc_scan_one) (auto simp: lowmeg_inv_def init_pages)
  then show ?thesis by (simp add: take_pages_def HalAllocatePhysicalLowMegPages_def)
qed

theorem dma_pages_never_shared_witness:
  "lowmeg_taken (hal_init\<lparr>LowMeg := marked 3 4 (LowMeg hal_init)\<rparr>)
    = lowmeg_taken hal_init \<union> \<Union> (grant_pages ` set [(3, 1)])"
proof -
  have "pool_run take_pages give_pages hal_init [(3, 1)] (hal_init\<lparr>LowMeg := marked 3 4 (LowMeg hal_init)\<rparr>)"
    using pool_run.request [of take_pages give_pages hal_init "[]" hal_init 1, OF pool_run.start alloc_page_init] .
  from dma_pages_never_shared [OF this hal_init_ok(1)] show ?thesis by (elim conjE)
qed

text \<open>A request for one page gets the first free page whenever one of the first 255 pages is
  free, and marks that page and no other.\<close>

theorem alloc_one_page_first_fit:
  assumes "lowmeg_inv h" and "k < 255" and "LowMeg h ! k = 0" and "\<forall>l<k. LowMeg h ! l \<noteq> 0"
  shows "HalAllocatePhysicalLowMegPages 1 h = Some (of_nat k, h\<lparr>LowMeg := (LowMeg h)[k := 1]\<rparr>)"
proof -
  have len: "length (LowMeg h) = 256" using assms(1) by (simp add: lowmeg_inv_def lowmeg_ok_def LowMegPages_def)
  have "alloc_scan (LowMeg h) 1 0 = Some (of_nat k, marked k (Suc k) (LowMeg h))"
    using assms by (intro alloc_scan_one) (auto simp: lowmeg_inv_def)
  moreover have "marked k (Suc k) (LowMeg h) = (LowMeg h)[k := 1]"
    using assms(2) len by (intro nth_equalityI) (auto simp: nth_list_update)
  ultimately show ?thesis by (simp add: HalAllocatePhysicalLowMegPages_def)
qed

theorem alloc_one_page_first_fit_witness:
  "HalAllocatePhysicalLowMegPages 1 hal_init = Some (of_nat 3, hal_init\<lparr>LowMeg := (LowMeg hal_init)[3 := 1]\<rparr>)"
  by (rule alloc_one_page_first_fit) (auto simp: hal_init_ok init_pages)

text \<open>When none of the 256 pages is free the allocator does not report failure: it never
  returns (its \<open>UCHAR\<close> index is always below 256), with the lock of the page table held.\<close>

theorem alloc_exhausted_diverges:
  assumes "\<forall>k<256. LowMeg h ! k \<noteq> 0"
  shows "HalAllocatePhysicalLowMegPages n h = None"
  using alloc_scan_full [OF assms] by (simp add: HalAllocatePhysicalLowMegPages_def)

theorem alloc_exhausted_diverges_witness:
  "HalAllocatePhysicalLowMegPages 1 (hal_init\<lparr>LowMeg := replicate 256 1\<rparr>) = None"
  by (rule alloc_exhausted_diverges) simp

text \<open>Completing a request that was set up restores what the set-up took: the page table and
  the channel table are as before it and the controller is free again.\<close>

theorem dma_request_roundtrip:
  assumes "HalInitializeDmaRequest hp mp cmd ch buf sz h = Some (Inr (st, Some req, h1))"
    and "lowmeg_inv h" and "channels_inv h"
  shows "\<exists>h2. HalCompleteDmaRequest req h1 = Inr h2 \<and> LowMeg h2 = LowMeg h
    \<and> ChannelBusy h2 = ChannelBusy h \<and> ControllerBusy h2 = 0"
proof -
  let ?h0 = "h\<lparr>ControllerBusy := 1, ChannelBusy := (ChannelBusy h)[unat ch := 1]\<rparr>"
  let ?g = "(PageUsed req, DmaPageCount req)"
  let ?k = "if ReadOperation req
    then event (MemCpy (DmaBuffer req) (MappedPhysical req) (BufferSize req)) h1 else h1"
  from InitializeDmaRequest_success [OF assms(1)] obtain h2 where
    t: "take_pages (DmaPageCount req) ?h0 = Some (?g, h2)" and ch: "unat ch < MAX_DMA_CHANNELS"
      "ChannelBusy h ! unat ch = 0" "DmaChannel req = ch" and h1: "LowMeg h1 = LowMeg h2"
      "ChannelBusy h1 = (ChannelBusy h)[unat ch := 1]" by auto
  have inv: "lowmeg_inv ?h0" using assms(2) by (simp add: lowmeg_inv_def)
  have k: "LowMeg ?k = LowMeg h2" "ChannelBusy ?k = (ChannelBusy h)[unat ch := 1]"
    using h1 by (simp_all add: event_def)
  from take_pages_law [OF inv t] k(1) have "lowmeg_inv ?k" "grant_ok ?g" "grant_pages ?g \<subseteq> lowmeg_taken ?k"
    by (auto simp: lowmeg_inv_def lowmeg_taken_def)
  from give_pages_law [OF this] obtain k' where g: "give_pages ?g ?k = Some k'" by blast
  then have free: "HalFreePhysicalLowMegPages (PageUsed req) (DmaPageCount req) ?k = Inr k'"
    by (auto simp: give_pages_def split: sum.splits)
  have lm: "LowMeg k' = LowMeg h" using take_give_LowMeg [OF inv t g k(1)] by simp
  have cb: "ChannelBusy k' = (ChannelBusy h)[unat ch := 1]"
    using free k(2) by (auto simp: HalFreePhysicalLowMegPages_def map_sum_def split: if_splits sum.splits)
  have "(ChannelBusy h)[unat ch := 0] = ChannelBusy h"
    using ch(2) by (metis list_update_id)
  then show ?thesis
    using ch free lm cb by (simp add: HalCompleteDmaRequest_def HalFreeDma_def Let_def)
qed

theorem dma_request_roundtrip_witness:
  "\<exists>req h1 h2. HalInitializeDmaRequest 1 1 DMA_MODE_READ 2 0 512 hal_init = Some (Inr (STATUS_SUCCESS, Some req, h1))
    \<and> PageUsed req = 3 \<and> HalCompleteDmaRequest req h1 = Inr h2 \<and> LowMeg h2 = LowMeg hal_init"
proof -
  let ?h1 = "hal_init\<lparr>ControllerBusy := 1, ChannelBusy := (ChannelBusy hal_init)[2 := 1]\<rparr>"
  have "alloc_scan (LowMeg hal_init) 1 0 = Some (of_nat 3, marked 3 (Suc 3) (LowMeg hal_init))"
    using hal_init_ok(1) by (intro alloc_scan_one) (auto simp: lowmeg_inv_def init_pages)
  then have a: "HalAllocatePhysicalLowMegPages 1 ?h1 = Some (3, ?h1\<lparr>LowMeg := marked 3 4 (LowMeg hal_init)\<rparr>)"
    by (simp add: HalAllocatePhysicalLowMegPages_def)
  have r: "HalRequestDma 2 (hal_init\<lparr>ControllerBusy := 1\<rparr>) = (STATUS_SUCCESS, ?h1)"
    by (simp add: HalRequestDma_def MAX_DMA_CHANNELS_def hal_init_def HalpDmaChannelBusy_def)
  have z: "ControllerBusy hal_init = 0" "(ucast (drop_bit 12 (ALIGN_UP 512 4096 :: u32)) :: u8) = 1"
    by (simp_all add: hal_init_def ALIGN_UP_def ALIGN_DOWN_def drop_bit_eq_div)
  obtain req h1 where q: "HalInitializeDmaRequest 1 1 DMA_MODE_READ 2 0 512 hal_init = Some (Inr (STATUS_SUCCESS, Some req, h1))"
    "PageUsed req = 3"
    by (simp add: HalInitializeDmaRequest_def z r a)
  from dma_request_roundtrip [OF q(1) hal_init_ok] q show ?thesis by blast
qed

text \<open>The busy mark of the controller is not taken back when a request fails after it was set:
  after any request that failed, for whatever reason, every later request of every channel is
  refused with \<open>STATUS_BUSY\<close>, though no transfer is in progress.\<close>

theorem failed_request_blocks_dma:
  assumes "HalInitializeDmaRequest hp mp cmd ch buf sz h = Some (Inr (st, None, h1))"
  shows "HalInitializeDmaRequest hp' mp' cmd' ch' buf' sz' h1 = Some (Inr (STATUS_BUSY, None, h1))"
  using failed_request_controller [OF assms] by (simp add: HalInitializeDmaRequest_def)

theorem failed_request_blocks_dma_witness:
  "\<exists>h1. ControllerBusy hal_init = 0
    \<and> HalInitializeDmaRequest 1 1 DMA_MODE_READ 9 0 512 hal_init = Some (Inr (STATUS_INSUFFICIENT_RESOURCES, None, h1))
    \<and> HalInitializeDmaRequest 1 1 DMA_MODE_READ 2 0 512 h1 = Some (Inr (STATUS_BUSY, None, h1))"
proof -
  have "HalInitializeDmaRequest 1 1 DMA_MODE_READ 9 0 512 hal_init
      = Some (Inr (STATUS_INSUFFICIENT_RESOURCES, None, hal_init\<lparr>ControllerBusy := 1\<rparr>))"
    by (simp add: HalInitializeDmaRequest_def HalRequestDma_def MAX_DMA_CHANNELS_def hal_init_def)
  from this failed_request_blocks_dma [OF this] show ?thesis by (auto simp: hal_init_def)
qed

end
