(* ===== verification/Se.thy ===== *)
theory Se
  imports RefCount
begin

text \<open>
  The security component (\<^verbatim>\<open>kernel/se.cpp\<close>, \<^verbatim>\<open>kernel/inc/se.h\<close>): access tokens, the access
  check and token inheritance. Tokens live in a store from addresses to token records, since
  threads and processes share them. Taking a token lock that is held makes the caller wait:
  such an operation is \<open>None\<close>. The pointer that \<open>ExAllocateHeap\<close> gives for a new token
  (\<open>None\<close> for NULL) is an argument of the operations that allocate.
\<close>

subsection \<open>Data\<close>

record logged_user =
  UserId :: u16
  GroupId :: u16
  UserPrivileges1 :: u32
  UserPrivileges2 :: u32
  DefaultPrivileges1 :: u32
  DefaultPrivileges2 :: u32

record access_token =
  TokenLock :: bool
  Privileges1 :: u32
  Privileges2 :: u32
  Exclusive :: bool
  ShareCount :: u32
  UserToken :: u32

record se_state =
  tokens :: "u32 \<rightharpoonup> access_token"
  users :: "u32 \<rightharpoonup> logged_user"
  thread_token :: "u32 \<Rightarrow> u32"
  process_token :: "u32 \<Rightarrow> u32"

definition put_token :: "u32 \<Rightarrow> access_token \<Rightarrow> se_state \<Rightarrow> se_state" where
  "put_token p t s = s\<lparr>tokens := (tokens s)(p \<mapsto> t)\<rparr>"

subsection \<open>Locking a token\<close>

definition lock_token :: "u32 \<Rightarrow> se_state \<Rightarrow> (access_token \<times> se_state) option" where
  "lock_token p s =
     (case tokens s p of
        None \<Rightarrow> None
      | Some t \<Rightarrow> if TokenLock t then None
                  else Some (t\<lparr>TokenLock := True\<rparr>, put_token p (t\<lparr>TokenLock := True\<rparr>) s))"

definition PsGetProcessAccessTokenAndLock :: "u32 \<Rightarrow> se_state \<Rightarrow> (u32 \<times> access_token \<times> se_state) option" where
  "PsGetProcessAccessTokenAndLock Process s =
     (let token = process_token s Process in map_option (Pair token) (lock_token token s))"

definition PsGetThreadAccessTokenAndLock :: "u32 \<Rightarrow> se_state \<Rightarrow> (u32 \<times> access_token \<times> se_state) option" where
  "PsGetThreadAccessTokenAndLock Thread s =
     (let token = thread_token s Thread in map_option (Pair token) (lock_token token s))"

definition SeUnlockAccessToken :: "u32 \<Rightarrow> se_state \<Rightarrow> se_state" where
  "SeUnlockAccessToken p s =
     (case tokens s p of None \<Rightarrow> s | Some t \<Rightarrow> put_token p (t\<lparr>TokenLock := False\<rparr>) s)"

subsection \<open>The access check\<close>

definition SeAccessCheckEx :: "u32 \<Rightarrow> u32 \<Rightarrow> u32 \<Rightarrow> se_state \<Rightarrow> (status \<times> se_state) option" where
  "SeAccessCheckEx Thread priv1 priv2 s =
     (case PsGetThreadAccessTokenAndLock Thread s of
        None \<Rightarrow> None
      | Some (p, token, s1) \<Rightarrow>
          (let temp1 = Privileges1 token AND priv1;
               temp2 = Privileges2 token AND priv2;
               s2 = SeUnlockAccessToken p s1
           in Some (if temp1 = priv1 \<and> temp2 = priv2 then STATUS_SUCCESS else STATUS_ACCESS_DENIED, s2)))"

subsection \<open>Creating, deleting and inheriting tokens\<close>

definition SeCreateAccessToken :: "u32 option \<Rightarrow> u32 \<Rightarrow> se_state \<Rightarrow> (u32 option \<times> se_state) option" where
  "SeCreateAccessToken heap_ptr user s =
     (case heap_ptr of
        None \<Rightarrow> Some (None, s)
      | Some p \<Rightarrow>
          (case users s user of
             None \<Rightarrow> None
           | Some u \<Rightarrow>
               Some (Some p, put_token p
                 \<lparr>TokenLock = False, Privileges1 = DefaultPrivileges1 u,
                  Privileges2 = DefaultPrivileges2 u, Exclusive = True, ShareCount = 1,
                  UserToken = user\<rparr> s)))"

definition SeDeleteAccessToken :: "u32 \<Rightarrow> se_state \<Rightarrow> se_state option" where
  "SeDeleteAccessToken p s =
     (case lock_token p s of
        None \<Rightarrow> None
      | Some (t, s1) \<Rightarrow>
          (let t1 = t\<lparr>ShareCount := ShareCount t - 1\<rparr>; s2 = put_token p t1 s1
           in if ShareCount t1 = 0 then Some (s2\<lparr>tokens := (tokens s2)(p := None)\<rparr>)
              else Some (SeUnlockAccessToken p s2)))"

definition Raised :: "u32 \<Rightarrow> u32 \<Rightarrow> u32" where
  "Raised x y = (x XOR y) AND (NOT x)"

text \<open>
  Both disjuncts of the source's test compare \<open>Privileges1\<close>: the second was meant to be
  \<open>Privileges2\<close>. The model keeps the test as it is.
\<close>

definition SepInheritAccessToken ::
    "u32 option \<Rightarrow> u32 \<Rightarrow> access_token \<Rightarrow> u32 \<Rightarrow> u32 \<Rightarrow> se_state \<Rightarrow> status \<times> u32 option \<times> se_state" where
  "SepInheritAccessToken heap_ptr p token max1 max2 s =
     (if Privileges1 token \<noteq> max1 \<or> Privileges2 token \<noteq> max2 then
        if Raised (Privileges1 token) max1 \<noteq> 0 \<or> Raised (Privileges1 token) max1 \<noteq> 0
        then (STATUS_ACCESS_DENIED, None, s)
        else (case heap_ptr of
                None \<Rightarrow> (STATUS_INSUFFICIENT_RESOURCES, None, s)
              | Some np \<Rightarrow>
                  (STATUS_SUCCESS, Some np, put_token np
                     \<lparr>TokenLock = False, Privileges1 = max1, Privileges2 = max2,
                      Exclusive = True, ShareCount = 1, UserToken = UserToken token\<rparr> s))
      else (STATUS_SUCCESS, Some p,
            put_token p (token\<lparr>ShareCount := ShareCount token + 1, Exclusive := False\<rparr>) s))"

definition SeInheritAccessTokenProcess ::
    "u32 option \<Rightarrow> u32 \<Rightarrow> u32 \<Rightarrow> u32 \<Rightarrow> se_state \<Rightarrow> (status \<times> u32 option \<times> se_state) option" where
  "SeInheritAccessTokenProcess heap_ptr Process max1 max2 s =
     (case PsGetProcessAccessTokenAndLock Process s of
        None \<Rightarrow> None
      | Some (p, token, s1) \<Rightarrow>
          (case SepInheritAccessToken heap_ptr p token max1 max2 s1 of
             (st, out, s2) \<Rightarrow> Some (st, out, SeUnlockAccessToken p s2)))"

definition SeInheritAccessTokenThread ::
    "u32 option \<Rightarrow> u32 \<Rightarrow> u32 \<Rightarrow> u32 \<Rightarrow> se_state \<Rightarrow> (status \<times> u32 option \<times> se_state) option" where
  "SeInheritAccessTokenThread heap_ptr Thread max1 max2 s =
     (case PsGetThreadAccessTokenAndLock Thread s of
        None \<Rightarrow> None
      | Some (p, token, s1) \<Rightarrow>
          (case SepInheritAccessToken heap_ptr p token max1 max2 s1 of
             (st, out, s2) \<Rightarrow> Some (st, out, SeUnlockAccessToken p s2)))"

lemmas se_defs [step_defs] =
  lock_token_def PsGetProcessAccessTokenAndLock_def PsGetThreadAccessTokenAndLock_def
  SeUnlockAccessToken_def SeAccessCheckEx_def SeCreateAccessToken_def SeDeleteAccessToken_def
  SepInheritAccessToken_def SeInheritAccessTokenProcess_def SeInheritAccessTokenThread_def
  put_token_def Let_def

subsection \<open>Privilege sets\<close>

text \<open>A privilege word is the set of its bits.\<close>

definition privs :: "u32 \<Rightarrow> nat set" where
  "privs w = {i. bit w i}"

lemma privs_subset_iff: "privs w \<subseteq> privs v \<longleftrightarrow> v AND w = w"
  by (auto simp: privs_def bit_eq_iff bit_and_iff) (metis bit_u32_lt)

lemma Raised_zero_iff: "Raised x y = 0 \<longleftrightarrow> privs y \<subseteq> privs x"
  by (auto simp: Raised_def privs_def bit_eq_iff bit_simps) (metis bit_u32_lt)

text \<open>The token a thread holds, when its lock is free.\<close>

definition free_token :: "se_state \<Rightarrow> u32 \<Rightarrow> access_token \<Rightarrow> bool" where
  "free_token s p t \<longleftrightarrow> tokens s p = Some t \<and> \<not> TokenLock t"

lemma lock_token_free: "free_token s p t \<Longrightarrow>
    lock_token p s = Some (t\<lparr>TokenLock := True\<rparr>, put_token p (t\<lparr>TokenLock := True\<rparr>) s)"
  by (simp add: free_token_def lock_token_def)

lemma put_token_again [simp]: "put_token p t (put_token p u s) = put_token p t s"
  by (simp add: put_token_def)

lemma put_token_same: "tokens s p = Some t \<Longrightarrow> put_token p t s = s"
  by (simp add: put_token_def fun_upd_idem)

lemma SeUnlock_put [simp]:
  "SeUnlockAccessToken p (put_token p t s) = put_token p (t\<lparr>TokenLock := False\<rparr>) s"
  by (simp add: SeUnlockAccessToken_def put_token_def)

lemma SeAccessCheckEx_free:
  assumes "free_token s (thread_token s th) t"
  shows "SeAccessCheckEx th p1 p2 s =
    Some (if privs p1 \<subseteq> privs (Privileges1 t) \<and> privs p2 \<subseteq> privs (Privileges2 t)
          then STATUS_SUCCESS else STATUS_ACCESS_DENIED, s)"
proof -
  have "put_token (thread_token s th) (t\<lparr>TokenLock := False\<rparr>) s = s"
    using assms by (intro put_token_same) (auto simp: free_token_def)
  then show ?thesis
    using assms by (simp add: SeAccessCheckEx_def PsGetThreadAccessTokenAndLock_def
        lock_token_free privs_subset_iff Let_def)
qed

subsection \<open>Properties\<close>

text \<open>C24: the access check of a thread succeeds exactly when every privilege asked for is
  in the thread's token, in both privilege words; it leaves every token as it was, its lock
  free again.\<close>

theorem access_check_exact:
  assumes "free_token s (thread_token s th) t"
  shows "\<exists>st. SeAccessCheckEx th p1 p2 s = Some (st, s)
    \<and> (SUCCESS st \<longleftrightarrow> privs p1 \<subseteq> privs (Privileges1 t) \<and> privs p2 \<subseteq> privs (Privileges2 t))"
  using SeAccessCheckEx_free [OF assms] by simp

definition demo_token :: access_token where
  "demo_token = \<lparr>TokenLock = False, Privileges1 = 0x1800, Privileges2 = 0, Exclusive = True,
     ShareCount = 1, UserToken = 0\<rparr>"

definition demo_se :: se_state where
  "demo_se = \<lparr>tokens = [0x1000 \<mapsto> demo_token], users = Map.empty,
     thread_token = (\<lambda>th. if th = 9 then 0x2000 else 0x1000),
     process_token = (\<lambda>_. 0x1000)\<rparr>"

lemma demo_free [simp]: "free_token demo_se 0x1000 demo_token"
  by (simp add: free_token_def demo_se_def demo_token_def)

lemma demo_threads [simp]: "thread_token demo_se 1 = 0x1000" "process_token demo_se th = 0x1000"
  by (simp_all add: demo_se_def)

theorem access_check_exact_witness:
  "\<exists>st. SeAccessCheckEx 1 0x1000 0 demo_se = Some (st, demo_se)
    \<and> (SUCCESS st \<longleftrightarrow> privs 0x1000 \<subseteq> privs (Privileges1 demo_token) \<and> privs 0 \<subseteq> privs (Privileges2 demo_token))"
  by (rule access_check_exact) simp

text \<open>A token that a thread or process inherits never holds a first-word privilege that
  the inherited token lacks, and its owner is the same user; the inheriting token itself
  keeps its privileges and its lock is free again.\<close>

theorem inherit_never_raises_word1:
  assumes "free_token s (process_token s pr) t"
    and "case heap_ptr of None \<Rightarrow> True | Some np \<Rightarrow> tokens s np = None"
    and "SeInheritAccessTokenProcess heap_ptr pr max1 max2 s = Some (st, Some np', s')"
  shows "\<exists>t'. tokens s' np' = Some t' \<and> privs (Privileges1 t') \<subseteq> privs (Privileges1 t)
    \<and> Privileges1 t' = max1 \<and> Privileges2 t' = max2 \<and> UserToken t' = UserToken t \<and> \<not> TokenLock t'"
  using assms
  by (auto simp: SeInheritAccessTokenProcess_def PsGetProcessAccessTokenAndLock_def
      lock_token_free SepInheritAccessToken_def Raised_zero_iff free_token_def
      SeUnlockAccessToken_def put_token_def Let_def split: if_splits option.splits)

theorem inherit_never_raises_word1_witness:
  "\<exists>t'. tokens (put_token 0x1000 (demo_token\<lparr>ShareCount := 2, Exclusive := False\<rparr>) demo_se) 0x1000 = Some t'
    \<and> privs (Privileges1 t') \<subseteq> privs (Privileges1 demo_token)
    \<and> Privileges1 t' = 0x1800 \<and> Privileges2 t' = 0 \<and> UserToken t' = UserToken demo_token \<and> \<not> TokenLock t'"
  by (rule inherit_never_raises_word1 [where s = demo_se and pr = 7 and heap_ptr = None
        and st = STATUS_SUCCESS])
    (simp_all add: step_defs demo_se_def demo_token_def free_token_def)

text \<open>The second privilege word is not checked: whenever the first word is not raised and
  memory is available, a caller gets a token with any second word it asks for, also one with
  every privilege of the word, so an access check on the new token for a privilege that the
  old token lacks succeeds. (The source tests \<open>Privileges1\<close> twice.)\<close>

theorem inherit_raises_word2:
  assumes "free_token s (process_token s pr) t" and "tokens s np = None"
    and "privs max1 \<subseteq> privs (Privileges1 t)" and "max2 \<noteq> Privileges2 t"
    and "thread_token s th = np"
  shows "\<exists>s' t'. SeInheritAccessTokenProcess (Some np) pr max1 max2 s = Some (STATUS_SUCCESS, Some np, s')
    \<and> tokens s' np = Some t' \<and> Privileges2 t' = max2
    \<and> SeAccessCheckEx th 0 max2 s' = Some (STATUS_SUCCESS, s')"
proof -
  let ?p = "process_token s pr"
  let ?n = "\<lparr>TokenLock = False, Privileges1 = max1, Privileges2 = max2, Exclusive = True,
     ShareCount = 1, UserToken = UserToken t\<rparr>"
  let ?s = "put_token ?p t (put_token np ?n s)"
  have np: "np \<noteq> ?p" using assms(1,2) by (auto simp: free_token_def)
  have tk: "tokens ?s np = Some ?n" using np by (simp add: put_token_def)
  have unlock: "t\<lparr>TokenLock := False\<rparr> = t" using assms(1) by (simp add: free_token_def)
  have "SeInheritAccessTokenProcess (Some np) pr max1 max2 s = Some (STATUS_SUCCESS, Some np, ?s)"
    using assms(1-4) np by (auto simp: SeInheritAccessTokenProcess_def PsGetProcessAccessTokenAndLock_def
        lock_token_free SepInheritAccessToken_def Raised_zero_iff free_token_def
        SeUnlockAccessToken_def put_token_def Let_def fun_upd_twist unlock)
  moreover have "thread_token ?s th = np" using assms(5) by (simp add: put_token_def)
  then have "free_token ?s (thread_token ?s th) ?n"
    using tk by (simp add: free_token_def)
  then have "SeAccessCheckEx th 0 max2 ?s = Some (STATUS_SUCCESS, ?s)"
    by (simp add: SeAccessCheckEx_free privs_def)
  ultimately show ?thesis using tk by fastforce
qed

theorem inherit_raises_word2_witness:
  "\<exists>s' t'. SeInheritAccessTokenProcess (Some 0x2000) 7 0x800 0xFFFFFFFF demo_se = Some (STATUS_SUCCESS, Some 0x2000, s')
    \<and> tokens s' 0x2000 = Some t' \<and> Privileges2 t' = 0xFFFFFFFF
    \<and> SeAccessCheckEx 9 0 0xFFFFFFFF s' = Some (STATUS_SUCCESS, s')"
  by (rule inherit_raises_word2 [where t = demo_token])
    (simp_all add: demo_se_def demo_token_def free_token_def privs_subset_iff)

subsection \<open>The life of a shared token\<close>

text \<open>Inheriting with the token's own privileges shares it; deleting drops one share.\<close>

definition share_token :: "u32 \<Rightarrow> se_state \<Rightarrow> se_state" where
  "share_token p s =
     (case tokens s p of
        None \<Rightarrow> s
      | Some t \<Rightarrow> snd (snd (SepInheritAccessToken None p t (Privileges1 t) (Privileges2 t) s)))"

definition drop_token :: "u32 \<Rightarrow> se_state \<Rightarrow> se_state" where
  "drop_token p s = (case SeDeleteAccessToken p s of None \<Rightarrow> s | Some s' \<Rightarrow> s')"

definition token_count :: "se_state \<Rightarrow> u32 \<Rightarrow> u32 option" where
  "token_count s p =
     (case tokens s p of None \<Rightarrow> None | Some t \<Rightarrow> if TokenLock t then None else Some (ShareCount t))"

interpretation token: refcounted token_count share_token drop_token
  by unfold_locales
    (auto simp: token_count_def share_token_def drop_token_def step_defs split: option.splits if_splits)

text \<open>A token that was created for a user and then shared by \<open>k\<close> inheritances outlives
  any \<open>j \<le> k\<close> deletions, with the rest of its shares counted, and the deletion after those
  frees it: no holder loses the token early and the last one does not leak it.\<close>

theorem shared_token_life:
  assumes "SeCreateAccessToken (Some p) user s = Some (Some p, s')" and "Suc k < 2 ^ 32" and "j \<le> k"
  shows "token_count ((drop_token p ^^ j) ((share_token p ^^ k) s')) p = Some (of_nat (Suc k - j))
    \<and> token_count ((drop_token p ^^ Suc k) ((share_token p ^^ k) s')) p = None"
proof -
  have "token_count s' p = Some 1"
    using assms(1) by (auto simp: SeCreateAccessToken_def token_count_def put_token_def split: option.splits)
  from token.shared_life [OF this assms(2)] assms(3) show ?thesis by blast
qed

definition demo_user :: logged_user where
  "demo_user = \<lparr>UserId = 0, GroupId = 0, UserPrivileges1 = 0xFFFFFFFF, UserPrivileges2 = 0xFFFFFFFF,
     DefaultPrivileges1 = 0xFFFFFFFF, DefaultPrivileges2 = 0xFFFFFFFF\<rparr>"

theorem shared_token_life_witness:
  "\<exists>s'. token_count ((drop_token 0x3000 ^^ 2) ((share_token 0x3000 ^^ 3) s')) 0x3000 = Some (of_nat (Suc 3 - 2))
    \<and> token_count ((drop_token 0x3000 ^^ Suc 3) ((share_token 0x3000 ^^ 3) s')) 0x3000 = None"
proof -
  let ?s = "demo_se\<lparr>users := [0x4000 \<mapsto> demo_user]\<rparr>"
  have "SeCreateAccessToken (Some 0x3000) 0x4000 ?s =
    Some (Some 0x3000, snd (the (SeCreateAccessToken (Some 0x3000) 0x4000 ?s)))"
    by (simp add: SeCreateAccessToken_def)
  from shared_token_life [OF this, of 3 2] show ?thesis by auto
qed

end
