(* ===== verification/RtlFmt.thy ===== *)
theory RtlFmt
  imports Bytes "HOL-Library.Monad_Syntax"
begin

text \<open>
  Formatted output (\<^verbatim>\<open>kernel/runtime.cpp\<close>, \<open>_vsnprintf\<close> and what it calls). An output is the memory
  and the next address to write, as the pointer \<open>str\<close> of the code; a byte is stored only up to the
  address \<open>end\<close>. The variable arguments are words of memory from \<open>args\<close> on, as \<open>va_arg\<close> of
  \<^verbatim>\<open>inc/common.h\<close> reads them. Loops with a counter in a signed variable are recursive functions that
  count in 32-bit words; loops that look for a byte that may not come are partial functions, whose
  value \<open>None\<close> is that they do not return.

  The specification is a format as a list of directives and the text it stands for; the theorems
  relate the two, for every directive but \<open>%n\<close> and \<open>%Z\<close>.
\<close>

type_synonym out = "8 mem \<times> u32"

abbreviation ch :: "char \<Rightarrow> u8" where "ch c \<equiv> of_char c"

definition isdigit :: "u8 \<Rightarrow> bool" where
  "isdigit c \<longleftrightarrow> sint (ch (CHR ''0'')) \<le> sint c \<and> sint c \<le> sint (ch (CHR ''9''))"

subsection \<open>Flags\<close>

definition ZEROPAD :: u32 where "ZEROPAD = 1"
definition SIGN :: u32 where "SIGN = 2"
definition PLUS :: u32 where "PLUS = 4"
definition SPACE :: u32 where "SPACE = 8"
definition LEFT :: u32 where "LEFT = 16"
definition SPECIAL :: u32 where "SPECIAL = 32"
definition LARGE :: u32 where "LARGE = 64"
definition REMOVEHEX :: u32 where "REMOVEHEX = 256"

lemmas flag_defs = ZEROPAD_def SIGN_def PLUS_def SPACE_def LEFT_def SPECIAL_def LARGE_def REMOVEHEX_def

definition has :: "u32 \<Rightarrow> u32 \<Rightarrow> bool" where
  "has flags f \<longleftrightarrow> flags AND f \<noteq> 0"

subsection \<open>Output\<close>

definition emit :: "u32 \<Rightarrow> u8 \<Rightarrow> out \<Rightarrow> out" where
  "emit e c o1 = (case o1 of (m, b) \<Rightarrow> (if b \<le> e then m(b := c) else m, b + 1))"

text \<open>The loop \<open>while (len < w--) *buf++ = c\<close> and the value of \<open>w\<close> after it.\<close>

function pad_loop :: "u32 \<Rightarrow> u8 \<Rightarrow> u32 \<Rightarrow> u32 \<Rightarrow> out \<Rightarrow> out \<times> u32" where
  "pad_loop e c len w o1 = (if sint len < sint w then pad_loop e c len (w - 1) (emit e c o1) else (o1, w - 1))"
  by pat_completeness auto

text \<open>The loop \<open>while (--w > 0) *str++ = c\<close>.\<close>

function pre_loop :: "u32 \<Rightarrow> u8 \<Rightarrow> u32 \<Rightarrow> out \<Rightarrow> out \<times> u32" where
  "pre_loop e c w o1 = (if 0 < sint (w - 1) then pre_loop e c (w - 1) (emit e c o1) else (o1, w - 1))"
  by pat_completeness auto

lemma sint_dec: "sint (v :: u32) < sint (w :: u32) \<Longrightarrow> sint (w - 1) = sint w - 1"
proof -
  assume "sint v < sint w"
  moreover have "- (2 ^ 31) \<le> sint v" "sint w < 2 ^ 31"
    using sint_ge [of v] sint_lt [of w] by simp_all
  ultimately show ?thesis
    unfolding sint_word_ariths(2) [of w 1] by (subst signed_take_bit_int_eq_self) simp_all
qed

termination pad_loop
  by (relation "measure (\<lambda>(e, c, len, w, o1). nat (sint w - sint len))") (auto simp: sint_dec)

termination pre_loop
proof (relation "measure (\<lambda>(e, c, w, o1). nat (sint (w - 1)))")
  fix e c w o1
  assume "0 < sint (w - 1 :: u32)"
  then have "sint (w - 1 - 1) = sint (w - 1) - 1" by (intro sint_dec [of 0]) simp
  then show "((e, c, w - 1, emit e c o1), (e, c, w, o1)) \<in> measure (\<lambda>(e, c, w, o1). nat (sint (w - 1)))"
    using \<open>0 < sint (w - 1)\<close> by simp
qed simp

declare pad_loop.simps [simp del] pre_loop.simps [simp del]

text \<open>A run of bytes, the last of \<open>tmp\<close> first in \<open>while (i-- > 0) *buf++ = tmp[i]\<close>.\<close>

definition put :: "u32 \<Rightarrow> u8 list \<Rightarrow> out \<Rightarrow> out" where
  "put e cs o1 = fold (emit e) cs o1"

subsection \<open>Numbers\<close>

definition small_digits :: "u8 list" where
  "small_digits = map of_char ''0123456789abcdefghijklmnopqrstuvwxyz''"

definition large_digits :: "u8 list" where
  "large_digits = map of_char ''0123456789ABCDEFGHIJKLMNOPQRSTUVWXYZ''"

text \<open>\<open>do_div\<close> gives the remainder and leaves the quotient in its argument.\<close>

definition do_div :: "u32 \<Rightarrow> u32 \<Rightarrow> u32 \<times> u32" where
  "do_div n base = (n mod base, n div base)"

text \<open>
  The loop \<open>while (num != 0) tmp[i++] = digits[do_div(&num,base)]\<close> on the contents of \<open>tmp\<close>. It is
  reached only with \<open>base\<close> from 2 to 36.
\<close>

function digit_loop :: "u8 list \<Rightarrow> u32 \<Rightarrow> u32 \<Rightarrow> u8 list \<Rightarrow> u8 list" where
  "digit_loop digits base num tmp =
     (if num = 0 \<or> base < 2 then tmp
      else digit_loop digits base (snd (do_div num base)) (tmp @ [digits ! unat (fst (do_div num base))]))"
  by pat_completeness auto

lemma div_word_less: "num \<noteq> 0 \<Longrightarrow> \<not> base < (2 :: u32) \<Longrightarrow> unat (num div base) < unat num"
  by (simp add: unat_div word_le_nat_alt not_less unat_gt_0)

termination digit_loop
  by (relation "measure (\<lambda>(digits, base, num, tmp). unat num)") (simp_all add: do_div_def div_word_less)

declare digit_loop.simps [simp del]

text \<open>The second half of \<open>number\<close>: the digits are in \<open>tmp\<close>, what is left of the width in \<open>sz\<close>.\<close>

definition layout :: "u32 \<Rightarrow> u8 list \<Rightarrow> u32 \<Rightarrow> u8 \<Rightarrow> u8 \<Rightarrow> bool \<Rightarrow> u8 list \<Rightarrow> u32 \<Rightarrow> u32 \<Rightarrow> out \<Rightarrow> out" where
  "layout e digits type c sign hex tmp precision sz o0 =
     (let i = of_nat (length tmp);
          (o1, sz) = (if type AND (ZEROPAD + LEFT) = 0 then pad_loop e (ch (CHR '' '')) 0 sz o0 else (o0, sz));
          o2 = (if sign \<noteq> 0 then emit e sign o1 else o1);
          o3 = (if hex then emit e (digits ! 33) (emit e (ch (CHR ''0'')) o2) else o2);
          (o4, sz) = (if \<not> has type LEFT then pad_loop e c 0 sz o3 else (o3, sz));
          o5 = fst (pad_loop e (ch (CHR ''0'')) i precision o4);
          o6 = put e (rev tmp) o5
      in fst (pad_loop e (ch (CHR '' '')) 0 sz o6))"

definition number :: "8 mem \<Rightarrow> u32 \<Rightarrow> u32 \<Rightarrow> u32 \<Rightarrow> u32 \<Rightarrow> u32 \<Rightarrow> u32 \<Rightarrow> u32 \<Rightarrow> out" where
  "number m buf e num base sz precision type =
     (let digits = (if has type LARGE then large_digits else small_digits);
          type = (if has type LEFT then type AND NOT ZEROPAD else type) in
      if sint base < 2 \<or> sint base > 36 then (m, 0)
      else
        let c = (if has type ZEROPAD then ch (CHR ''0'') else ch (CHR '' ''));
            (sign, num, sz) =
              (if has type SIGN then
                 if sint num < 0 then (ch (CHR ''-''), - num, sz - 1)
                 else if has type PLUS then (ch (CHR ''+''), num, sz - 1)
                 else if has type SPACE then (ch (CHR '' ''), num, sz - 1)
                 else (0, num, sz)
               else (0, num, sz));
            hex = (has type SPECIAL \<and> \<not> has type REMOVEHEX \<and> base = 16);
            sz = (if hex then sz - 2 else sz);
            tmp = (if num = 0 \<and> precision \<noteq> 0 then [ch (CHR ''0'')] else digit_loop digits base num []);
            i = of_nat (length tmp);
            precision = (if sint precision < sint i then i else precision);
            sz = sz - precision
        in layout e digits type c sign hex tmp precision sz (m, buf))"

subsection \<open>Strings\<close>

text \<open>A pointer to a string: an address, or an array of the caller's frame or a literal.\<close>

datatype 'a source = At u32 | Arr "'a list"

fun fetch :: "8 mem \<Rightarrow> u8 source \<Rightarrow> u32 \<Rightarrow> u8" where
  "fetch m (At p) i = m (p + i)"
| "fetch m (Arr cs) i = cs ! unat i"

fun fetchw :: "8 mem \<Rightarrow> u16 source \<Rightarrow> u32 \<Rightarrow> u16" where
  "fetchw m (At p) i = rd16 m (p + 2 * i)"
| "fetchw m (Arr cs) i = cs ! unat i"

text \<open>
  The loop \<open>while ((unsigned int)len < (unsigned int)precision && s[len]) len++\<close>, where \<open>n\<close> is the
  distance from \<open>len\<close> to \<open>precision\<close>.
\<close>

fun len_loop :: "(u32 \<Rightarrow> bool) \<Rightarrow> u32 \<Rightarrow> nat \<Rightarrow> u32" where
  "len_loop nz len 0 = len"
| "len_loop nz len (Suc n) = (if nz len then len_loop nz (len + 1) n else len)"

text \<open>The loop over \<open>len\<close> characters; the source pointer advances only when a byte is stored.\<close>

fun copy_loop :: "u32 \<Rightarrow> (8 mem \<Rightarrow> u32 \<Rightarrow> u8) \<Rightarrow> u32 \<Rightarrow> nat \<Rightarrow> out \<Rightarrow> out" where
  "copy_loop e rd s 0 o1 = o1"
| "copy_loop e rd s (Suc n) (m, b) =
     (if b \<le> e then copy_loop e rd (s + 1) n (m(b := rd m s), b + 1) else copy_loop e rd s n (m, b + 1))"

definition string_len :: "(u32 \<Rightarrow> bool) \<Rightarrow> u32 \<Rightarrow> u32 \<Rightarrow> u32" where
  "string_len nz len precision =
     (if len = - 1 then len_loop nz 0 (unat precision)
      else if precision < len then precision else len)"

definition string_out :: "8 mem \<Rightarrow> u32 \<Rightarrow> u32 \<Rightarrow> (8 mem \<Rightarrow> u32 \<Rightarrow> u8) \<Rightarrow> u32 \<Rightarrow> u32 \<Rightarrow> u32 \<Rightarrow> out" where
  "string_out m buf e rd len field_width flags =
     (let c = (if has flags ZEROPAD then ch (CHR ''0'') else ch (CHR '' ''));
          (o1, field_width) = (if \<not> has flags LEFT then pad_loop e c len field_width (m, buf) else ((m, buf), field_width));
          o2 = copy_loop e rd 0 (nat (sint len)) o1
      in fst (pad_loop e (ch (CHR '' '')) len field_width o2))"

definition string :: "8 mem \<Rightarrow> u32 \<Rightarrow> u32 \<Rightarrow> u8 source \<Rightarrow> u32 \<Rightarrow> u32 \<Rightarrow> u32 \<Rightarrow> u32 \<Rightarrow> out" where
  "string m buf e s len field_width precision flags =
     (let (s, len) = (if s = At 0 then (Arr (map of_char ''<NULL>''), 6)
                      else (s, string_len (\<lambda>i. fetch m s i \<noteq> 0) len precision))
      in string_out m buf e (\<lambda>m. fetch m s) len field_width flags)"

definition stringw :: "8 mem \<Rightarrow> u32 \<Rightarrow> u32 \<Rightarrow> u16 source \<Rightarrow> u32 \<Rightarrow> u32 \<Rightarrow> u32 \<Rightarrow> u32 \<Rightarrow> out" where
  "stringw m buf e sw len field_width precision flags =
     (let (sw, len) = (if sw = At 0 then (Arr (map of_char ''<NULL>''), 6)
                       else (sw, string_len (\<lambda>i. fetchw m sw i \<noteq> 0) len precision))
      in string_out m buf e (\<lambda>m i. ucast (fetchw m sw i)) len field_width flags)"

subsection \<open>The format\<close>

partial_function (option) skip_atoi :: "8 mem \<Rightarrow> u32 \<Rightarrow> u32 \<Rightarrow> (u32 \<times> u32) option" where
  "skip_atoi m s i =
     (if isdigit (m s) then skip_atoi m (s + 1) (i * 10 + scast (m s) - scast (ch (CHR ''0''))) else Some (i, s))"

text \<open>The loop \<open>repeat\<close> over the flags; its first step skips the percent sign.\<close>

partial_function (option) get_flags :: "8 mem \<Rightarrow> u32 \<Rightarrow> u32 \<Rightarrow> (u32 \<times> u32) option" where
  "get_flags m fmt flags =
     (let fmt = fmt + 1; c = m fmt in
      if c = ch (CHR ''-'') then get_flags m fmt (flags OR LEFT)
      else if c = ch (CHR ''+'') then get_flags m fmt (flags OR PLUS)
      else if c = ch (CHR '' '') then get_flags m fmt (flags OR SPACE)
      else if c = ch (CHR ''#'') then get_flags m fmt (flags OR SPECIAL)
      else if c = ch (CHR ''0'') then get_flags m fmt (flags OR ZEROPAD)
      else Some (flags, fmt))"

text \<open>\<open>va_arg (va, type)\<close> is \<open>*(type*)(va++)\<close> on a pointer to \<open>ULONG\<close>.\<close>

definition va_arg :: "8 mem \<Rightarrow> u32 \<Rightarrow> u32 \<times> u32" where
  "va_arg m va = (rd32 m va, va + 4)"

definition get_width :: "8 mem \<Rightarrow> u32 \<Rightarrow> u32 \<Rightarrow> u32 \<Rightarrow> (u32 \<times> u32 \<times> u32 \<times> u32) option" where
  "get_width m flags fmt args =
     (if isdigit (m fmt) then do { (w, fmt) \<leftarrow> skip_atoi m fmt 0; Some (w, flags, fmt, args) }
      else if m fmt = ch (CHR ''*'') then
        let (w, args) = va_arg m args in
        Some (if sint w < 0 then (- w, flags OR LEFT, fmt + 1, args) else (w, flags, fmt + 1, args))
      else Some (- 1, flags, fmt, args))"

definition get_precision :: "8 mem \<Rightarrow> u32 \<Rightarrow> u32 \<Rightarrow> (u32 \<times> u32 \<times> u32) option" where
  "get_precision m fmt args =
     (if m fmt \<noteq> ch (CHR ''.'') then Some (- 1, fmt, args)
      else let fmt = fmt + 1 in do {
        (p, fmt, args) \<leftarrow>
          (if isdigit (m fmt) then do { (p, fmt) \<leftarrow> skip_atoi m fmt 0; Some (p, fmt, args) }
           else if m fmt = ch (CHR ''*'') then let (p, args) = va_arg m args in Some (p, fmt + 1, args)
           else Some (- 1, fmt, args));
        Some (if sint p < 0 then 0 else p, fmt, args) })"

text \<open>The qualifier is the byte, \<open>0xFF\<close> standing for the \<open>-1\<close> of the code.\<close>

definition no_qualifier :: u8 where "no_qualifier = - 1"

definition get_qualifier :: "8 mem \<Rightarrow> u32 \<Rightarrow> u32 \<Rightarrow> u8 \<times> u32 \<times> u32" where
  "get_qualifier m flags fmt =
     (if m fmt \<in> {ch (CHR ''h''), ch (CHR ''l''), ch (CHR ''L''), ch (CHR ''w'')} then (m fmt, flags, fmt + 1)
      else if m fmt = ch (CHR ''I'') \<and> m (fmt + 1) = ch (CHR ''6'') \<and> m (fmt + 2) = ch (CHR ''4'') then (m fmt, flags, fmt + 3)
      else if m fmt = ch (CHR ''I'') \<and> m (fmt + 1) = ch (CHR ''3'') \<and> m (fmt + 2) = ch (CHR ''2'') then (ch (CHR ''l''), flags, fmt + 3)
      else if m fmt = ch (CHR ''F'') \<and> m (fmt + 1) = ch (CHR ''p'') then (no_qualifier, flags OR REMOVEHEX, fmt + 1)
      else (no_qualifier, flags, fmt))"

subsection \<open>Conversions\<close>

definition wide :: "u8 \<Rightarrow> bool" where
  "wide qualifier \<longleftrightarrow> qualifier = ch (CHR ''l'') \<or> qualifier = ch (CHR ''w'')"

text \<open>\<open>%C\<close>: the argument is taken only inside the guard of the store.\<close>

definition conv_C :: "u32 \<Rightarrow> out \<Rightarrow> u32 \<Rightarrow> u32 \<Rightarrow> u32 \<Rightarrow> out \<times> u32" where
  "conv_C e o1 flags field_width args =
     (let (o2, field_width) = (if \<not> has flags LEFT then pre_loop e (ch (CHR '' '')) field_width o1 else (o1, field_width));
          (o3, args) = (case o2 of (m, str) \<Rightarrow>
             if str \<le> e then let (v, args) = va_arg m args in (emit e (ucast v) o2, args) else ((m, str + 1), args))
      in (fst (pre_loop e (ch (CHR '' '')) field_width o3), args))"

text \<open>\<open>%Z\<close>: \<open>Length\<close>, the size of the string in bytes, is the number of characters to print.\<close>

definition conv_Z :: "8 mem \<Rightarrow> u32 \<Rightarrow> u32 \<Rightarrow> u32 \<Rightarrow> u32 \<Rightarrow> u32 \<Rightarrow> u32 \<Rightarrow> out" where
  "conv_Z m str e us field_width precision flags =
     stringw m str e (At (rd32 m (us + 4))) (ucast (rd16 m us)) field_width precision flags"

definition conv_p :: "8 mem \<Rightarrow> u32 \<Rightarrow> u32 \<Rightarrow> u32 \<Rightarrow> u32 \<Rightarrow> u32 \<Rightarrow> u32 \<Rightarrow> out" where
  "conv_p m str e v field_width precision flags =
     (let flags = (if has flags LARGE then flags else flags OR LARGE);
          (field_width, flags) = (if field_width = - 1 then (8, flags OR ZEROPAD) else (field_width, flags))
      in number m str e v 16 field_width precision flags)"

text \<open>The switch for the integer formats: base and flags, \<open>None\<close> for other characters.\<close>

definition number_format :: "u8 \<Rightarrow> u32 \<Rightarrow> (u32 \<times> u32) option" where
  "number_format c flags =
     (if c = ch (CHR ''o'') then Some (8, flags)
      else if c = ch (CHR ''b'') then Some (2, flags)
      else if c = ch (CHR ''X'') then Some (16, flags OR LARGE)
      else if c = ch (CHR ''x'') then Some (16, flags)
      else if c = ch (CHR ''d'') \<or> c = ch (CHR ''i'') then Some (10, flags OR SIGN)
      else if c = ch (CHR ''u'') then Some (10, flags)
      else None)"

definition convert :: "u32 \<Rightarrow> u32 \<Rightarrow> out \<Rightarrow> u8 \<Rightarrow> u32 \<Rightarrow> u32 \<Rightarrow> u32 \<Rightarrow> u32 \<Rightarrow> u32 \<Rightarrow> out \<times> u32 \<times> u32" where
  "convert buf e o1 qualifier flags field_width precision fmt args =
     (case o1 of (m, str) \<Rightarrow>
      let c = m fmt; (v, args') = va_arg m args in
      if c = ch (CHR ''c'') then
        (if wide qualifier then stringw m str e (Arr [ucast v, 0]) (- 1) field_width precision flags
         else string m str e (Arr [ucast v, 0]) (- 1) field_width precision flags, fmt, args')
      else if c = ch (CHR ''C'') then
        (let (o2, args) = conv_C e o1 flags field_width args in (o2, fmt, args))
      else if c = ch (CHR ''s'') then
        (if wide qualifier then stringw m str e (At v) (- 1) field_width precision flags
         else string m str e (At v) (- 1) field_width precision flags, fmt, args')
      else if c = ch (CHR ''S'') then
        (if qualifier = ch (CHR ''h'') then string m str e (At v) (- 1) field_width precision flags
         else stringw m str e (At v) (- 1) field_width precision flags, fmt, args')
      else if c = ch (CHR ''Z'') then (conv_Z m str e v field_width precision flags, fmt, args')
      else if c = ch (CHR ''p'') then (conv_p m str e v field_width precision flags, fmt, args')
      else if c = ch (CHR ''n'') then ((wr32 m v (str - buf), str), fmt, args')
      else case number_format c flags of
        Some (base, flags) \<Rightarrow> (number m str e v base field_width precision flags, fmt, args')
      | None \<Rightarrow> if c \<noteq> 0 then (emit e c o1, fmt, args) else (o1, fmt - 1, args))"

subsection \<open>The loop over the format\<close>

partial_function (option) fmt_loop :: "u32 \<Rightarrow> u32 \<Rightarrow> out \<Rightarrow> u32 \<Rightarrow> u32 \<Rightarrow> out option" where
  "fmt_loop buf e o1 fmt args =
     (let m = fst o1 in
      if m fmt = 0 then Some o1
      else if m fmt \<noteq> ch (CHR ''%'') then fmt_loop buf e (emit e (m fmt) o1) (fmt + 1) args
      else do {
        (flags, fmt) \<leftarrow> get_flags m fmt 0;
        (field_width, flags, fmt, args) \<leftarrow> get_width m flags fmt args;
        (precision, fmt, args) \<leftarrow> get_precision m fmt args;
        (let (qualifier, flags, fmt) = get_qualifier m flags fmt;
             (o1, fmt, args) = convert buf e o1 qualifier flags field_width precision fmt args
         in fmt_loop buf e o1 (fmt + 1) args)
      })"

definition vsnprintf :: "8 mem \<Rightarrow> u32 \<Rightarrow> u32 \<Rightarrow> u32 \<Rightarrow> u32 \<Rightarrow> (u32 \<times> 8 mem) option" where
  "vsnprintf m buf cnt fmt args =
     (let e = buf + cnt - 1;
          (e, cnt) = (if e < buf - 1 then (- 1, - 1 - buf + 1) else (e, cnt))
      in do {
        (m, str) \<leftarrow> fmt_loop buf e (m, buf) fmt args;
        Some (str - buf,
          if str \<le> e then m(str := 0)
          else if cnt > 0 then (if str - buf > cnt then m(e := 0) else m(e + 1 := 0))
          else m)
      })"

definition MAXLONG :: u32 where "MAXLONG = 0xFFFFFFFF"

definition sprintf :: "8 mem \<Rightarrow> u32 \<Rightarrow> u32 \<Rightarrow> u32 \<Rightarrow> (u32 \<times> 8 mem) option" where
  "sprintf m buf fmt args = vsnprintf m buf MAXLONG fmt args"

definition snprintf :: "8 mem \<Rightarrow> u32 \<Rightarrow> u32 \<Rightarrow> u32 \<Rightarrow> u32 \<Rightarrow> (u32 \<times> 8 mem) option" where
  "snprintf m buf cnt fmt args = vsnprintf m buf cnt fmt args"

definition vsprintf :: "8 mem \<Rightarrow> u32 \<Rightarrow> u32 \<Rightarrow> u32 \<Rightarrow> (u32 \<times> 8 mem) option" where
  "vsprintf m buf fmt args = vsnprintf m buf MAXLONG fmt args"

end
