(* ===== verification/FmtSpec.thy ===== *)
theory FmtSpec
  imports RtlFmt RtlStr
begin

text \<open>
  What formatted output means, and the proof that \<open>_vsnprintf\<close> does it. A format is a list of
  directives, printed by \<open>unparse\<close>; \<open>format_text\<close> gives the text that it stands for with given
  arguments, without any memory. The theorems say that the code writes this text into its window of
  memory, cut at its end, and nothing else, but for the terminator of a text that fits exactly.
\<close>

subsection \<open>Runs of output\<close>

lemma put_Nil [simp]: "put e [] o1 = o1"
  by (simp add: put_def)

lemma put_Cons: "put e (c # cs) o1 = put e cs (emit e c o1)"
  by (simp add: put_def)

lemma put_put [simp]: "put e ds (put e cs o1) = put e (cs @ ds) o1"
  by (simp add: put_def)

lemma emit_put: "emit e c o1 = put e [c] o1"
  by (simp add: put_def)

lemma pad_loop_put:
  "pad_loop e c len w o1 =
     (put e (replicate (nat (sint w - sint len)) c) o1, if sint len < sint w then len - 1 else w - 1)"
proof (induction e c len w o1 rule: pad_loop.induct)
  case (1 e c len w o1)
  show ?case
  proof (cases "sint len < sint w")
    case True
    then have n: "nat (sint w - sint len) = Suc (nat (sint (w - 1) - sint len))"
      by (simp add: sint_dec)
    have w: "\<not> sint len < sint (w - 1) \<Longrightarrow> w - 1 = len"
      using True sint_dec [of len w] by (simp add: word_eq_iff_signed [where 'a = int])
    show ?thesis
      unfolding pad_loop.simps [of e c len w] using 1 [OF True] True w by (auto simp: n put_Cons)
  next
    case False
    then show ?thesis unfolding pad_loop.simps [of e c len w] by simp
  qed
qed

subsection \<open>The window of the buffer\<close>

text \<open>
  The window is the \<open>lim\<close> bytes from \<open>buf\<close> on, and \<open>e\<close> the address of its last byte. Memories
  agree when they differ at most inside the window.
\<close>

definition window :: "u32 \<Rightarrow> nat \<Rightarrow> u32 \<Rightarrow> bool" where
  "window buf lim e \<longleftrightarrow> buf \<noteq> 0 \<and> unat buf + lim \<le> 2 ^ 32 \<and> e = buf + of_nat lim - 1"

definition agree :: "u32 \<Rightarrow> nat \<Rightarrow> 8 mem \<Rightarrow> 8 mem \<Rightarrow> bool" where
  "agree buf lim m m' \<longleftrightarrow> (\<forall>x. lim \<le> unat (x - buf) \<longrightarrow> m' x = m x)"

definition wrote :: "8 mem \<Rightarrow> u32 \<Rightarrow> nat \<Rightarrow> u8 list \<Rightarrow> out \<Rightarrow> bool" where
  "wrote m buf lim tx o1 \<longleftrightarrow> o1 = (overlay m buf lim tx, buf + of_nat (length tx))"

lemma wrote_Nil: "wrote m buf lim [] (m, buf)"
  by (simp add: wrote_def overlay_def)

lemma wrote_agree: "wrote m buf lim tx o1 \<Longrightarrow> agree buf lim m (fst o1)"
  by (simp add: wrote_def agree_def overlay_def)

lemma guard_in_window:
  assumes "window buf lim e" "unat buf + n < 2 ^ 32"
  shows "buf + of_nat n \<le> e \<longleftrightarrow> n < lim"
proof -
  have b: "buf \<noteq> 0" "unat buf + lim \<le> 2 ^ 32" and e: "e = buf + of_nat lim - 1"
    using assms(1) by (simp_all add: window_def)
  have "1 \<le> unat buf" using b(1) by (metis One_nat_def Suc_leI unat_gt_0)
  then have "buf + of_nat lim - 1 = of_nat (unat buf + lim - 1)"
    by (simp add: of_nat_diff)
  moreover have "unat buf + lim - 1 < 2 ^ 32" using b(2) \<open>1 \<le> unat buf\<close> by simp
  ultimately have "unat e = unat buf + lim - 1" unfolding e by (simp only: unat_of_nat_u32)
  moreover have "unat (buf + of_nat n) = unat buf + n"
    using unat_of_nat_u32 [OF assms(2)] by simp
  ultimately show ?thesis using \<open>1 \<le> unat buf\<close> by (auto simp: word_le_nat_alt)
qed

lemma overlay_emit:
  assumes "n = length tx" "unat buf + n < 2 ^ 32"
  shows "overlay m buf lim (tx @ [c]) = (if n < lim then (overlay m buf lim tx)(buf + of_nat n := c) else overlay m buf lim tx)"
proof -
  have "x = buf + of_nat n \<longleftrightarrow> unat (x - buf) = n" for x
  proof -
    have "n < 2 ^ 32" using assms(2) by simp
    then have "x - buf = of_nat n \<longleftrightarrow> unat (x - buf) = n" by (auto simp: word_unat_eq_iff)
    then show ?thesis by (auto simp: algebra_simps)
  qed
  then show ?thesis
    using assms(1) by (auto simp: overlay_def fun_eq_iff nth_append less_Suc_eq min_def)
qed

lemma emit_wrote:
  assumes "window buf lim e" "wrote m buf lim tx o1" "unat buf + length tx < 2 ^ 32"
  shows "wrote m buf lim (tx @ [c]) (emit e c o1)"
  using assms guard_in_window [OF assms(1,3)] overlay_emit [OF refl assms(3), of m lim c]
  by (simp add: wrote_def emit_def add.assoc)

lemma put_wrote:
  assumes "window buf lim e"
  shows "wrote m buf lim tx o1 \<Longrightarrow> unat buf + length tx + length cs \<le> 2 ^ 32 \<Longrightarrow>
    wrote m buf lim (tx @ cs) (put e cs o1)"
proof (induction cs arbitrary: tx o1)
  case (Cons c cs)
  have "wrote m buf lim (tx @ [c]) (emit e c o1)"
    using emit_wrote [OF assms Cons.prems(1)] Cons.prems(2) by simp
  from Cons.IH [OF this] show ?case using Cons.prems(2) by (simp add: put_Cons)
qed simp

subsection \<open>Copies\<close>

text \<open>A source gives the bytes \<open>cs\<close> in every memory that agrees with \<open>m\<close> outside the window.\<close>

definition gives :: "8 mem \<Rightarrow> u32 \<Rightarrow> nat \<Rightarrow> (8 mem \<Rightarrow> u32 \<Rightarrow> u8) \<Rightarrow> u32 \<Rightarrow> u8 list \<Rightarrow> bool" where
  "gives m buf lim rd s cs \<longleftrightarrow> (\<forall>m'. agree buf lim m m' \<longrightarrow> (\<forall>i<length cs. rd m' (s + of_nat i) = cs ! i))"

lemma gives_Cons:
  assumes "gives m buf lim rd s (c # cs)" "agree buf lim m m'"
  shows "rd m' s = c" "gives m buf lim rd (s + 1) cs"
  using assms by (auto simp: gives_def All_less_Suc2 add.assoc)

lemma copy_loop_beyond:
  assumes "window buf lim e"
  shows "wrote m buf lim tx (m', b) \<Longrightarrow> lim \<le> length tx \<Longrightarrow> unat buf + length tx + length cs \<le> 2 ^ 32 \<Longrightarrow>
    wrote m buf lim (tx @ cs) (copy_loop e rd s (length cs) (m', b))"
proof (induction cs arbitrary: tx b)
  case (Cons c cs)
  have b: "b = buf + of_nat (length tx)" and "\<not> b \<le> e"
    using Cons.prems guard_in_window [OF assms, of "length tx"] by (auto simp: wrote_def)
  have "wrote m buf lim (tx @ [c]) (m', b + 1)"
    using emit_wrote [OF assms Cons.prems(1), of c] Cons.prems(3) \<open>\<not> b \<le> e\<close> by (simp add: emit_def)
  from Cons.IH [OF this] show ?case using Cons.prems \<open>\<not> b \<le> e\<close> by simp
qed simp

lemma copy_loop_wrote:
  assumes "window buf lim e"
  shows "wrote m buf lim tx (m', b) \<Longrightarrow> gives m buf lim rd s cs \<Longrightarrow> unat buf + length tx + length cs \<le> 2 ^ 32 \<Longrightarrow>
    wrote m buf lim (tx @ cs) (copy_loop e rd s (length cs) (m', b))"
proof (induction cs arbitrary: tx m' b s)
  case (Cons c cs)
  show ?case
  proof (cases "b \<le> e")
    case True
    have "rd m' s = c" and g: "gives m buf lim rd (s + 1) cs"
      using gives_Cons [OF Cons.prems(2)] wrote_agree [OF Cons.prems(1)] by auto
    have "wrote m buf lim (tx @ [c]) (m'(b := c), b + 1)"
      using emit_wrote [OF assms Cons.prems(1), of c] Cons.prems(3) True by (simp add: emit_def)
    from Cons.IH [OF this g] show ?thesis
      using Cons.prems(3) True \<open>rd m' s = c\<close> by (simp add: fun_upd_def)
  next
    case False
    then have "lim \<le> length tx"
      using Cons.prems(1,3) guard_in_window [OF assms, of "length tx"] by (auto simp: wrote_def)
    then show ?thesis using copy_loop_beyond [OF assms Cons.prems(1)] Cons.prems(3) by blast
  qed
qed simp

subsection \<open>Digits\<close>

fun base_digits :: "nat \<Rightarrow> nat \<Rightarrow> nat list" where
  "base_digits b n = (if n < b \<or> b < 2 then [n] else base_digits b (n div b) @ [n mod b])"

declare base_digits.simps [simp del]

lemma base_digits_less [simp]: "n < b \<Longrightarrow> base_digits b n = [n]"
  by (simp add: base_digits.simps)

lemma base_digits_value: "2 \<le> b \<Longrightarrow> foldl (\<lambda>a d. a * b + d) 0 (base_digits b n) = n"
proof (induction b n rule: base_digits.induct)
  case (1 b n)
  then show ?case by (cases "n < b") (simp_all add: base_digits.simps [of b n])
qed

lemma base_digits_bound: "2 \<le> b \<Longrightarrow> d \<in> set (base_digits b n) \<Longrightarrow> d < b"
proof (induction b n rule: base_digits.induct)
  case (1 b n)
  then show ?case by (cases "n < b") (auto simp: base_digits.simps [of b n])
qed

lemma base_digits_length: "2 \<le> b \<Longrightarrow> n < b ^ k \<Longrightarrow> 0 < k \<Longrightarrow> length (base_digits b n) \<le> k"
proof (induction k arbitrary: n)
  case (Suc k)
  show ?case
  proof (cases "n < b")
    case False
    have "n div b < b ^ k" using Suc.prems by (simp add: div_less_iff_less_mult mult.commute)
    moreover have "0 < k" using False Suc.prems by (cases k) auto
    ultimately show ?thesis using Suc.IH [of "n div b"] Suc.prems(1) False by (simp add: base_digits.simps [of b n])
  qed simp
qed simp

lemma base_digits_not_Nil [simp]: "base_digits b n \<noteq> []"
  by (simp add: base_digits.simps)

lemma base_digits_hd: "2 \<le> b \<Longrightarrow> 0 < n \<Longrightarrow> 0 < hd (base_digits b n)"
proof (induction b n rule: base_digits.induct)
  case (1 b n)
  then show ?case by (cases "n < b") (simp_all add: base_digits.simps [of b n] div_greater_zero_iff)
qed

lemma digit_loop_digits:
  assumes "2 \<le> base" "base \<le> 36"
  shows "num \<noteq> 0 \<Longrightarrow> digit_loop ds (of_nat base) num tmp = tmp @ rev (map ((!) ds) (base_digits base (unat num)))"
proof (induction ds "of_nat base :: u32" num tmp rule: digit_loop.induct)
  case (1 ds num tmp)
  have b: "\<not> (of_nat base :: u32) < 2" and u: "unat (of_nat base :: u32) = base"
    using assms by (simp_all add: word_less_nat_alt)
  have q: "num div of_nat base = 0 \<longleftrightarrow> unat num < base"
    using assms by (simp add: word_unat_eq_iff unat_div u div_eq_0_iff)
  show ?case
  proof (cases "unat num < base")
    case True
    then show ?thesis using 1(2) b q
      by (simp add: digit_loop.simps [of ds _ num] digit_loop.simps [of ds _ 0] do_div_def unat_mod u)
  next
    case False
    have "digit_loop ds (of_nat base) num tmp =
        digit_loop ds (of_nat base) (num div of_nat base) (tmp @ [ds ! unat (num mod of_nat base)])"
      using 1(2) b unfolding digit_loop.simps [of ds _ num] by (simp add: do_div_def)
    also have "\<dots> = (tmp @ [ds ! unat (num mod of_nat base)]) @
        rev (map ((!) ds) (base_digits base (unat (num div of_nat base))))"
      using 1(1) 1(2) b q False by (simp add: do_div_def)
    finally show ?thesis
      using False assms by (simp add: base_digits.simps [of base "unat num"] unat_div unat_mod u)
  qed
qed

subsection \<open>Numbers\<close>

text \<open>How a number is laid out in its field, for a sign, a prefix, zeros and digits.\<close>

definition field_text :: "u32 \<Rightarrow> int \<Rightarrow> u8 list \<Rightarrow> u8 list \<Rightarrow> u8 list" where
  "field_text flags w pre body =
     (let fill = nat (w - int (length pre) - int (length body)) in
      if has flags LEFT then pre @ body @ replicate fill (ch (CHR '' ''))
      else if has flags ZEROPAD then pre @ replicate fill (ch (CHR ''0'')) @ body
      else replicate fill (ch (CHR '' '')) @ pre @ body)"

definition sign_text :: "u32 \<Rightarrow> u32 \<Rightarrow> u8 list" where
  "sign_text flags v =
     (if \<not> has flags SIGN then []
      else if sint v < 0 then [ch (CHR ''-'')]
      else if has flags PLUS then [ch (CHR ''+'')]
      else if has flags SPACE then [ch (CHR '' '')] else [])"

definition prefix_text :: "u32 \<Rightarrow> nat \<Rightarrow> u8 list" where
  "prefix_text flags b =
     (if has flags SPECIAL \<and> \<not> has flags REMOVEHEX \<and> b = 16
      then [ch (CHR ''0''), if has flags LARGE then ch (CHR ''X'') else ch (CHR ''x'')] else [])"

definition magnitude :: "u32 \<Rightarrow> u32 \<Rightarrow> nat" where
  "magnitude flags v = (if has flags SIGN \<and> sint v < 0 then nat (- sint v) else unat v)"

definition digits_text :: "u32 \<Rightarrow> nat \<Rightarrow> int \<Rightarrow> nat \<Rightarrow> u8 list" where
  "digits_text flags b p n =
     (let ds = (if n = 0 \<and> p = 0 then []
                else map ((!) (if has flags LARGE then large_digits else small_digits)) (base_digits b n))
      in replicate (nat (p - int (length ds))) (ch (CHR ''0'')) @ ds)"

definition number_text :: "u32 \<Rightarrow> nat \<Rightarrow> int \<Rightarrow> int \<Rightarrow> u32 \<Rightarrow> u8 list" where
  "number_text flags b w p v =
     field_text flags w (sign_text flags v @ prefix_text flags b) (digits_text flags b p (magnitude flags v))"

lemma sint_of_int_u32 [simp]: "- (2 ^ 31) \<le> i \<Longrightarrow> i < 2 ^ 31 \<Longrightarrow> sint (of_int i :: u32) = i"
  by (simp add: signed_of_int signed_take_bit_int_eq_self)

lemma has_flags [simp]: "has (flags AND NOT ZEROPAD) ZEROPAD \<longleftrightarrow> False"
  "has (flags AND NOT ZEROPAD) LEFT \<longleftrightarrow> has flags LEFT"
  "has (flags AND NOT ZEROPAD) SIGN \<longleftrightarrow> has flags SIGN"
  "has (flags AND NOT ZEROPAD) PLUS \<longleftrightarrow> has flags PLUS"
  "has (flags AND NOT ZEROPAD) SPACE \<longleftrightarrow> has flags SPACE"
  "has (flags AND NOT ZEROPAD) SPECIAL \<longleftrightarrow> has flags SPECIAL"
  "has (flags AND NOT ZEROPAD) REMOVEHEX \<longleftrightarrow> has flags REMOVEHEX"
  by (simp_all add: has_def flag_defs and.assoc)

lemma has_neither: "flags AND (ZEROPAD + LEFT) = 0 \<longleftrightarrow> \<not> has flags ZEROPAD \<and> \<not> has flags LEFT"
proof -
  have "ZEROPAD + LEFT = ZEROPAD OR LEFT" by (simp add: flag_defs)
  moreover have "a OR b = 0 \<longleftrightarrow> a = 0 \<and> b = 0" for a b :: u32
    by (auto simp: bit_eq_iff bit_or_iff)
  ultimately show ?thesis by (simp add: has_def and.semilattice_axioms bit.conj_disj_distrib)
qed

text \<open>Once the width is used up, the loops that follow pad nothing.\<close>

lemma pad_loop_spent:
  assumes "- (2 ^ 31) < S" "sint sz = S"
  shows "sint (snd (pad_loop e c 0 sz o1)) = (if 0 < S then - 1 else S - 1)"
proof (cases "0 < S")
  case False
  then have "S - 1 = sint (of_int (S - 1) :: u32)"
    using assms(1) by (subst sint_of_int_u32) simp_all
  also have "(of_int (S - 1) :: u32) = sz - 1" by (simp flip: assms(2))
  finally show ?thesis using False assms(2) by (simp add: pad_loop_put)
qed (use assms in \<open>simp add: pad_loop_put\<close>)

lemma layout_put:
  assumes S: "sint sz = S" "- (2 ^ 31) + 2 < S"
    and P: "sint precision = P" "int (length tmp) \<le> P" "length tmp < 2 ^ 31"
    and lz: "has type LEFT \<longrightarrow> \<not> has type ZEROPAD"
    and pre: "pre = (if sign \<noteq> 0 then [sign] else []) @ (if hex then [ch (CHR ''0''), digits ! 33] else [])"
    and c: "c = (if has type ZEROPAD then ch (CHR ''0'') else ch (CHR '' ''))"
  shows "layout e digits type c sign hex tmp precision sz o0 =
    put e (field_text type (S + int (length pre) + P) pre (replicate (nat (P - int (length tmp))) (ch (CHR ''0'')) @ rev tmp)) o0"
proof -
  have i: "sint (of_nat (length tmp) :: u32) = int (length tmp)"
    using P(3) sint_of_int_u32 [of "int (length tmp)"] by simp
  have len: "nat (S + int (length pre) + P - int (length pre) -
      int (length (replicate (nat (P - int (length tmp))) (ch (CHR ''0'')) @ rev tmp))) = nat S"
    using P(2) by simp
  have mid: "fst (pad_loop e (ch (CHR ''0'')) (of_nat (length tmp)) precision o1) =
      put e (replicate (nat (P - int (length tmp))) (ch (CHR ''0''))) o1" for o1
    by (simp add: pad_loop_put i P(1))
  have pres: "(if hex then emit e (digits ! 33) (emit e (ch (CHR ''0'')) (if sign \<noteq> 0 then emit e sign o1 else o1))
      else (if sign \<noteq> 0 then emit e sign o1 else o1)) = put e pre o1" for o1
    by (simp add: pre emit_put)
  consider (left) "has type LEFT" "\<not> has type ZEROPAD" | (zero) "\<not> has type LEFT" "has type ZEROPAD"
    | (plain) "\<not> has type LEFT" "\<not> has type ZEROPAD" using lz by blast
  then show ?thesis
  proof cases
    case left
    then show ?thesis
      unfolding layout_def Let_def pres mid
      by (simp add: has_neither field_text_def pad_loop_put S(1) P(2) len del: of_char_Char)
  next
    case zero
    obtain o1 sz1 where p1: "pad_loop e c 0 sz (put e pre o0) = (o1, sz1)" by fastforce
    have "sint sz1 \<le> 0" using pad_loop_spent [OF _ S(1), of e c "put e pre o0"] S(2) p1 by (simp split: if_splits)
    moreover have "o1 = put e (pre @ replicate (nat S) (ch (CHR ''0''))) o0"
      using p1 zero by (simp add: pad_loop_put c S(1))
    ultimately show ?thesis
      using zero unfolding layout_def Let_def pres mid
      by (simp add: has_neither field_text_def p1 pad_loop_put [of e _ 0 sz1] P(2) len del: of_char_Char)
  next
    case plain
    obtain o1 sz1 where p1: "pad_loop e (ch (CHR '' '')) 0 sz o0 = (o1, sz1)" by fastforce
    have sz1: "sint sz1 = (if 0 < S then - 1 else S - 1)"
      using pad_loop_spent [OF _ S(1), of e "ch (CHR '' '')" o0] S(2) p1 by simp
    have o1: "o1 = put e (replicate (nat S) (ch (CHR '' ''))) o0"
      using p1 by (simp add: pad_loop_put S(1))
    obtain o2 sz2 where p2: "pad_loop e c 0 sz1 (put e (replicate (nat S) (ch (CHR '' '')) @ pre) o0) = (o2, sz2)"
      by fastforce
    have sz2: "sint sz2 \<le> 0"
      using pad_loop_spent [OF _ sz1, of e c "put e (replicate (nat S) (ch (CHR '' '')) @ pre) o0"] S(2) p2
      by (simp split: if_splits)
    have "o2 = put e (replicate (nat S) (ch (CHR '' '')) @ pre) o0"
      using p2 sz1 by (simp add: pad_loop_put split: if_splits)
    then show ?thesis
      using plain sz2 o1 unfolding layout_def Let_def pres mid
      by (simp add: has_neither field_text_def p1 p2 pad_loop_put [of e _ 0 sz2] P(2) len del: of_char_Char)
  qed
qed

lemma large_small_33:
  "(if has flags LARGE then large_digits else small_digits) ! 33 = (if has flags LARGE then ch (CHR ''X'') else ch (CHR ''x''))"
  by (simp add: large_digits_def small_digits_def del: of_char_Char)

lemma number_digits_put:
  assumes "2 \<le> b" "b \<le> 36"
  shows "rev (if num = 0 \<and> (precision :: u32) \<noteq> 0 then [ds ! 0] else digit_loop ds (of_nat b) num []) =
    (if num = 0 \<and> precision = 0 then [] else map ((!) ds) (base_digits b (unat num)))"
  using assms digit_loop_digits [OF assms, of num ds "[]"]
  by (auto simp: digit_loop.simps [of ds _ 0])

lemma magnitude_word:
  "magnitude flags v = unat (if has flags SIGN \<and> sint v < 0 then - v else v)"
proof (cases "has flags SIGN \<and> sint v < 0")
  case True
  then have "v \<noteq> 0" by auto
  have "unat (- v) = nat (- sint v)"
  proof -
    have "- sint v \<le> 2 ^ 31" using sint_ge [of v] by simp
    then have "unat (of_nat (nat (- sint v)) :: u32) = nat (- sint v)"
      by (intro unat_of_nat_u32) simp
    moreover have "(of_nat (nat (- sint v)) :: u32) = - v" using True by simp
    ultimately show ?thesis by simp
  qed
  then show ?thesis using True by (simp add: magnitude_def)
next
  case False
  then show ?thesis by (simp only: magnitude_def if_False)
qed

lemma digits_length:
  assumes "2 \<le> b"
  shows "length (base_digits b (unat (num :: u32))) \<le> 32"
proof -
  have "unat num < 2 ^ 32" using unsigned_less [of num] by simp
  also have "\<dots> \<le> b ^ 32" using assms by (intro power_mono) simp_all
  finally show ?thesis using base_digits_length [OF assms, of "unat num" 32] by simp
qed

lemma number_put:
  assumes b: "2 \<le> b" "b \<le> 36" and w: "- 1 \<le> w" "w < 2 ^ 30" and p: "- 1 \<le> p" "p < 2 ^ 30"
  shows "number m buf e v (of_nat b) (of_int w) (of_int p) flags = put e (number_text flags b w p v) (m, buf)"
proof -
  define ds where "ds = (if has flags LARGE then large_digits else small_digits)"
  define type where "type = (if has flags LEFT then flags AND NOT ZEROPAD else flags)"
  define num where "num = (if has flags SIGN \<and> sint v < 0 then - v else v)"
  define tmp where "tmp = (if num = 0 \<and> (of_int p :: u32) \<noteq> 0 then [ds ! 0] else digit_loop ds (of_nat b) num [])"
  define P where "P = max p (int (length tmp))"
  define sgn where "sgn = sign_text flags v"
  define hex where "hex = (has flags SPECIAL \<and> \<not> has flags REMOVEHEX \<and> b = 16)"
  define pre where "pre = sgn @ prefix_text flags b"
  define S where "S = w - int (length pre) - P"
  have p0: "(of_int p :: u32) = 0 \<longleftrightarrow> p = 0"
  proof -
    have "sint (of_int p :: u32) = p" using p by simp
    then show ?thesis by (metis of_int_0 sint_0)
  qed
  have rtmp: "rev tmp = (if num = 0 \<and> p = 0 then [] else map ((!) ds) (base_digits b (unat num)))"
    unfolding tmp_def using number_digits_put [OF b, of num "of_int p" ds] by (simp add: p0)
  then have "length tmp \<le> 32"
    using digits_length [OF b(1), of num] by (metis length_map length_rev list.size(3) zero_le)
  then have P: "int (length tmp) \<le> P" "- 1 \<le> P" "P < 2 ^ 30" "length tmp < 2 ^ 31"
    using p by (auto simp: P_def)
  define sgc where "sgc = (if has flags SIGN then if sint v < 0 then ch (CHR ''-'')
      else if has flags PLUS then ch (CHR ''+'') else if has flags SPACE then ch (CHR '' '') else 0 else 0)"
  define c where "c = (if has type ZEROPAD then ch (CHR ''0'') else ch (CHR '' ''))"
  have sgn: "sgn = (if sgc \<noteq> 0 then [sgc] else [])"
    by (simp add: sgn_def sgc_def sign_text_def)
  have tup: "(if has type SIGN then
                 if sint v < 0 then (ch (CHR ''-''), - v, of_int w - 1)
                 else if has type PLUS then (ch (CHR ''+''), v, of_int w - 1)
                 else if has type SPACE then (ch (CHR '' ''), v, of_int w - 1)
                 else (0, v, of_int w)
               else (0, v, of_int w)) = (sgc, num, of_int (w - int (length sgn)) :: u32)"
    by (simp add: type_def sgc_def num_def sgn_def sign_text_def)
  have hex: "(has type SPECIAL \<and> \<not> has type REMOVEHEX \<and> (of_nat b :: u32) = 16) = hex"
  proof -
    have "(of_nat b :: u32) = 16 \<longleftrightarrow> b = 16"
      using b by (simp add: word_unat_eq_iff)
    then show ?thesis by (simp add: hex_def type_def)
  qed
  have pre: "pre = (if sgc \<noteq> 0 then [sgc] else []) @ (if hex then [ch (CHR ''0''), ds ! 33] else [])"
    unfolding pre_def sgn prefix_text_def ds_def large_small_33 by (simp add: hex_def)
  then have szhex: "(if hex then of_int (w - int (length sgn)) - 2 else of_int (w - int (length sgn)) :: u32) = of_int (w - int (length pre))"
    by (simp add: sgn)
  have prec: "(if sint (of_int p :: u32) < sint (of_nat (length tmp) :: u32) then of_nat (length tmp) else of_int p) = (of_int P :: u32)"
    using p P(4) sint_of_int_u32 [of "int (length tmp)"] by (simp add: P_def max_def)
  have zero: "ds ! 0 = ch (CHR ''0'')"
    by (simp add: ds_def large_digits_def small_digits_def)
  have base: "\<not> (sint (of_nat b :: u32) < 2 \<or> 36 < sint (of_nat b :: u32))"
    using b sint_of_int_u32 [of "int b"] by simp
  have "number m buf e v (of_nat b) (of_int w) (of_int p) flags = layout e ds type c sgc hex tmp (of_int P) (of_int S) (m, buf)"
    unfolding number_def Let_def ds_def [symmetric] type_def [symmetric] if_not_P [OF base] tup prod.case hex szhex
      zero [symmetric] tmp_def [symmetric] prec
    by (simp add: c_def zero S_def)
  also have "\<dots> = put e (field_text type (S + int (length pre) + P) pre (replicate (nat (P - int (length tmp))) (ch (CHR ''0'')) @ rev tmp)) (m, buf)"
  proof (rule layout_put)
    show "sint (of_int S :: u32) = S" using w P by (intro sint_of_int_u32) (auto simp: S_def pre)
    show "- (2 ^ 31) + 2 < S" using w P by (auto simp: S_def pre)
    show "sint (of_int P :: u32) = P" using P by (intro sint_of_int_u32) simp_all
    show "has type LEFT \<longrightarrow> \<not> has type ZEROPAD" by (simp add: type_def)
  qed (use P pre c_def in simp_all)
  also have "replicate (nat (P - int (length tmp))) (ch (CHR ''0'')) @ rev tmp = digits_text flags b p (magnitude flags v)"
  proof -
    have "nat (P - int (length tmp)) = nat (p - int (length (rev tmp)))" by (simp add: P_def max_def)
    moreover have "rev tmp = (if magnitude flags v = 0 \<and> p = 0 then [] else map ((!) ds) (base_digits b (magnitude flags v)))"
    proof -
      have "magnitude flags v = unat num" unfolding magnitude_word num_def ..
      then show ?thesis unfolding rtmp by (simp add: unat_eq_0)
    qed
    ultimately show ?thesis unfolding digits_text_def Let_def ds_def by simp
  qed
  also have "S + int (length pre) + P = w" by (simp add: S_def)
  also have "field_text type w pre = field_text flags w pre"
    by (simp add: field_text_def type_def fun_eq_iff Let_def)
  finally show ?thesis by (simp add: number_text_def pre_def sgn_def)
qed

subsection \<open>Strings\<close>

definition string_text :: "u32 \<Rightarrow> int \<Rightarrow> u8 list \<Rightarrow> u8 list" where
  "string_text flags w cs =
     (let fill = nat (w - int (length cs)) in
      if has flags LEFT then cs @ replicate fill (ch (CHR '' ''))
      else replicate fill (if has flags ZEROPAD then ch (CHR ''0'') else ch (CHR '' '')) @ cs)"

lemma string_text_length: "length (string_text flags w cs) = max (length cs) (nat w)"
  by (auto simp: string_text_def Let_def max_def)

lemma string_out_wrote:
  assumes win: "window buf lim e" and o1: "wrote m buf lim tx (m', b)"
    and rd: "gives m buf lim rd 0 cs" and len: "length cs < 2 ^ 31"
    and w: "- 1 \<le> w" "w < 2 ^ 30"
    and room: "unat buf + length tx + length (string_text flags w cs) \<le> 2 ^ 32"
  shows "wrote m buf lim (tx @ string_text flags w cs) (string_out m' b e rd (of_nat (length cs)) (of_int w) flags)"
proof -
  have l: "sint (of_nat (length cs) :: u32) = int (length cs)"
    using len sint_of_int_u32 [of "int (length cs)"] by simp
  have n: "nat (sint (of_nat (length cs) :: u32)) = length cs" by (simp add: l)
  have wi: "sint (of_int w :: u32) = w" using w by simp
  have w1: "sint (of_int w - 1 :: u32) = w - 1"
    using sint_of_int_u32 [of "w - 1"] w by simp
  have l1: "sint (of_nat (length cs) - 1 :: u32) = int (length cs) - 1"
    using sint_of_int_u32 [of "int (length cs) - 1"] len by simp
  define fill where "fill = nat (w - int (length cs))"
  show ?thesis
  proof (cases "has flags LEFT")
    case True
    then have t: "string_text flags w cs = cs @ replicate fill (ch (CHR '' ''))"
      by (simp add: string_text_def fill_def)
    have "wrote m buf lim (tx @ cs) (copy_loop e rd 0 (length cs) (m', b))"
      using copy_loop_wrote [OF win o1 rd] room t by simp
    from put_wrote [OF win this, of "replicate fill (ch (CHR '' ''))"] show ?thesis
      using True room unfolding t string_out_def Let_def n
      by (simp add: pad_loop_put l wi fill_def del: of_char_Char)
  next
    case False
    define c where "c = (if has flags ZEROPAD then ch (CHR ''0'') else ch (CHR '' ''))"
    have t: "string_text flags w cs = replicate fill c @ cs"
      using False by (simp add: string_text_def fill_def c_def)
    obtain m1 b1 where p1: "put e (replicate fill c) (m', b) = (m1, b1)" by fastforce
    have "wrote m buf lim (tx @ replicate fill c) (m1, b1)"
      using put_wrote [OF win o1, of "replicate fill c"] room t p1 by simp
    from copy_loop_wrote [OF win this rd] have "wrote m buf lim (tx @ replicate fill c @ cs) (copy_loop e rd 0 (length cs) (m1, b1))"
      using room t by simp
    then show ?thesis
      using False p1 unfolding t string_out_def Let_def n
      by (simp add: pad_loop_put l wi w1 l1 fill_def [symmetric] c_def [symmetric] del: of_char_Char)
  qed
qed

text \<open>The characters that a precision leaves of a string.\<close>

definition clip :: "int \<Rightarrow> 'a list \<Rightarrow> 'a list" where
  "clip p cs = (if p < 0 then cs else take (nat p) cs)"

lemma len_loop_min:
  "\<forall>i<length cs. nz (s + of_nat i) \<Longrightarrow> \<not> nz (s + of_nat (length cs)) \<Longrightarrow>
    len_loop nz s n = s + of_nat (min n (length cs))"
proof (induction cs arbitrary: s n)
  case Nil
  then show ?case by (cases n) simp_all
next
  case (Cons c cs)
  show ?case
  proof (cases n)
    case (Suc k)
    have "nz s" using Cons.prems(1) by (auto dest: spec [of _ 0])
    moreover have "\<forall>i<length cs. nz (s + 1 + of_nat i)" "\<not> nz (s + 1 + of_nat (length cs))"
      using Cons.prems by (auto simp: All_less_Suc2 add.assoc)
    ultimately show ?thesis using Cons.IH [of "s + 1" k] Suc by (simp add: add.assoc)
  qed simp
qed

lemma string_len_clip:
  assumes "\<forall>i<length cs. nz (of_nat i)" "\<not> nz (of_nat (length cs))" "length cs < 2 ^ 31"
    and p: "- 1 \<le> p" "p < 2 ^ 30"
  shows "string_len nz (- 1) (of_int p) = of_nat (length (clip p cs))"
proof -
  have "unat (of_int p :: u32) = (if p < 0 then 2 ^ 32 - 1 else nat p)"
  proof (cases "p < 0")
    case True
    then have "p = - 1" using p by simp
    then show ?thesis by simp
  next
    case False
    then have "of_int p = (of_nat (nat p) :: u32)" by simp
    moreover have "unat (of_nat (nat p) :: u32) = nat p" using False p by (intro unat_of_nat_u32) simp
    ultimately show ?thesis using False by simp
  qed
  then show ?thesis
    using len_loop_min [of cs nz 0 "unat (of_int p :: u32)"] assms(1-3)
    by (simp add: string_len_def clip_def min_def)
qed

text \<open>
  What a pointer to a string stands for: the characters up to the zero, in every memory that agrees
  with \<open>m\<close> outside the window. \<open>clear\<close> says that addresses lie outside the window.
\<close>

definition clear :: "u32 \<Rightarrow> nat \<Rightarrow> u32 \<Rightarrow> nat \<Rightarrow> bool" where
  "clear buf lim p n \<longleftrightarrow> (\<forall>i<n. lim \<le> unat (p + of_nat i - buf))"

definition contents :: "8 mem \<Rightarrow> u32 \<Rightarrow> nat \<Rightarrow> (8 mem \<Rightarrow> u32 \<Rightarrow> 'w::len word) \<Rightarrow> 'w word list \<Rightarrow> bool" where
  "contents m buf lim rd cs \<longleftrightarrow> 0 \<notin> set cs \<and> length cs < 2 ^ 31 \<and>
     (\<forall>m'. agree buf lim m m' \<longrightarrow> (\<forall>i<length cs. rd m' (of_nat i) = cs ! i) \<and> rd m' (of_nat (length cs)) = 0)"

definition str_at :: "8 mem \<Rightarrow> u32 \<Rightarrow> nat \<Rightarrow> u32 \<Rightarrow> u8 list \<Rightarrow> bool" where
  "str_at m buf lim p s \<longleftrightarrow> p \<noteq> 0 \<and> zstr m p s \<and> length s < 2 ^ 31 \<and> clear buf lim p (length s + 1)"

definition wstr_at :: "8 mem \<Rightarrow> u32 \<Rightarrow> nat \<Rightarrow> u32 \<Rightarrow> u16 list \<Rightarrow> bool" where
  "wstr_at m buf lim p s \<longleftrightarrow> p \<noteq> 0 \<and> 0 \<notin> set s \<and> length s < 2 ^ 31 \<and>
     (\<forall>i<length s. rd16 m (p + 2 * of_nat i) = s ! i) \<and> rd16 m (p + 2 * of_nat (length s)) = 0 \<and>
     clear buf lim p (2 * (length s + 1))"

lemma agree_clear: "agree buf lim m m' \<Longrightarrow> clear buf lim p n \<Longrightarrow> i < n \<Longrightarrow> m' (p + of_nat i) = m (p + of_nat i)"
  by (simp add: agree_def clear_def)

lemma contents_str_at: "str_at m buf lim p s \<Longrightarrow> contents m buf lim (\<lambda>m. fetch m (At p)) s"
  using zstr_nth [of m p s] zstr_end [of m p s]
  by (auto simp: str_at_def contents_def agree_clear zstr_def)

lemma rd16_clear:
  assumes "agree buf lim m m'" "clear buf lim p n" "2 * i + 1 < n"
  shows "rd16 m' (p + 2 * of_nat i) = rd16 m (p + 2 * of_nat i)"
  using agree_clear [OF assms(1,2), of "2 * i"] agree_clear [OF assms(1,2), of "2 * i + 1"] assms(3)
  by (simp add: rd16_def add.commute add.left_commute)

lemma contents_wstr_at: "wstr_at m buf lim p s \<Longrightarrow> contents m buf lim (\<lambda>m. fetchw m (At p)) s"
  by (auto simp: wstr_at_def contents_def rd16_clear)

lemma contents_char:
  "contents m buf lim (\<lambda>m. fetch m (Arr [c, 0])) (if c = 0 then [] else [c])"
  "contents m buf lim (\<lambda>m. fetchw m (Arr [w, 0])) (if w = 0 then [] else [w])"
  by (simp_all add: contents_def)

lemma clip_props:
  "length (clip p cs) \<le> length cs" "clip p (map f cs) = map f (clip p cs)"
  by (simp_all add: clip_def take_map)

lemma clip_nth: "i < length (clip p cs) \<Longrightarrow> clip p cs ! i = cs ! i"
  by (simp add: clip_def split: if_splits)

lemma contents_out:
  assumes win: "window buf lim e" and o1: "wrote m buf lim tx (m', b)"
    and c: "contents m buf lim rd cs" and p: "- 1 \<le> p" "p < 2 ^ 30" and w: "- 1 \<le> w" "w < 2 ^ 30"
    and room: "unat buf + length tx + length (string_text flags w (map f (clip p cs))) \<le> 2 ^ 32"
  shows "wrote m buf lim (tx @ string_text flags w (map f (clip p cs)))
     (string_out m' b e (\<lambda>m i. f (rd m i)) (string_len (\<lambda>i. rd m' i \<noteq> 0) (- 1) (of_int p)) (of_int w) flags)"
proof -
  have a: "agree buf lim m m'" using wrote_agree [OF o1] by simp
  have len: "length cs < 2 ^ 31" using c by (simp add: contents_def)
  have "string_len (\<lambda>i. rd m' i \<noteq> 0) (- 1) (of_int p) = of_nat (length (clip p cs))"
  proof (rule string_len_clip [OF _ _ len p])
    show "\<forall>i<length cs. rd m' (of_nat i) \<noteq> 0"
      using c a by (auto simp: contents_def in_set_conv_nth)
    show "\<not> rd m' (of_nat (length cs)) \<noteq> 0" using c a by (simp add: contents_def)
  qed
  moreover have "gives m buf lim (\<lambda>m i. f (rd m i)) 0 (map f (clip p cs))"
    using c clip_props(1) [of p cs] by (auto simp: gives_def contents_def clip_nth)
  moreover have "length (map f (clip p cs)) < 2 ^ 31"
    using clip_props(1) [of p cs] len by simp
  ultimately show ?thesis
    using string_out_wrote [OF win o1, of _ "map f (clip p cs)" w flags] w room by simp
qed

definition null_text :: "u8 list" where
  "null_text = map of_char ''<NULL>''"

lemma string_wrote:
  assumes win: "window buf lim e" and o1: "wrote m buf lim tx (m', b)"
    and p: "- 1 \<le> p" "p < 2 ^ 30" and w: "- 1 \<le> w" "w < 2 ^ 30"
    and c: "s \<noteq> At 0" "contents m buf lim (\<lambda>m. fetch m s) cs"
    and room: "unat buf + length tx + length (string_text flags w (clip p cs)) \<le> 2 ^ 32"
  shows "wrote m buf lim (tx @ string_text flags w (clip p cs)) (string m' b e s (- 1) (of_int w) (of_int p) flags)"
  using contents_out [OF win o1 c(2) p w, of flags id] room c(1) by (simp add: string_def)

lemma stringw_wrote:
  assumes win: "window buf lim e" and o1: "wrote m buf lim tx (m', b)"
    and p: "- 1 \<le> p" "p < 2 ^ 30" and w: "- 1 \<le> w" "w < 2 ^ 30"
    and c: "s \<noteq> At 0" "contents m buf lim (\<lambda>m. fetchw m s) cs"
    and room: "unat buf + length tx + length (string_text flags w (clip p (map ucast cs))) \<le> 2 ^ 32"
  shows "wrote m buf lim (tx @ string_text flags w (clip p (map ucast cs))) (stringw m' b e s (- 1) (of_int w) (of_int p) flags)"
  using contents_out [OF win o1 c(2) p w, of flags ucast] room c(1) by (simp add: stringw_def clip_props(2))

lemma null_wrote:
  assumes win: "window buf lim e" and o1: "wrote m buf lim tx (m', b)" and w: "- 1 \<le> w" "w < 2 ^ 30"
    and room: "unat buf + length tx + length (string_text flags w null_text) \<le> 2 ^ 32"
  shows "wrote m buf lim (tx @ string_text flags w null_text) (string m' b e (At 0) len (of_int w) p flags)"
    and "wrote m buf lim (tx @ string_text flags w null_text) (stringw m' b e (At 0) len (of_int w) p flags)"
proof -
  have u: "unat (of_nat i :: u32) = i" if "i < 6" for i using that by (intro unat_of_nat_u32) simp
  have "gives m buf lim (\<lambda>m. fetch m (Arr (map of_char ''<NULL>''))) 0 null_text"
    and "gives m buf lim (\<lambda>m i. ucast (fetchw m (Arr (map of_char ''<NULL>'')) i)) 0 null_text"
    by (auto simp: gives_def null_text_def All_less_Suc)
  note g = this
  show "wrote m buf lim (tx @ string_text flags w null_text) (string m' b e (At 0) len (of_int w) p flags)"
    and "wrote m buf lim (tx @ string_text flags w null_text) (stringw m' b e (At 0) len (of_int w) p flags)"
    using string_out_wrote [OF win o1 g(1) _ w room] string_out_wrote [OF win o1 g(2) _ w room]
    by (simp_all add: string_def stringw_def null_text_def)
qed

subsection \<open>Formats\<close>

text \<open>
  A width or a precision is absent, a number of the format, or the next argument. A conversion has
  flags, width, precision, qualifier and conversion character, as written.
\<close>

datatype field = Absent | Fixed nat | Star

datatype directive = Lit u8 | Conv string field field string char

text \<open>An argument is a word, or the address of a string together with the string.\<close>

datatype arg = Num u32 | Str u32 "u8 list" | Wide u32 "u16 list"

fun arg_val :: "arg \<Rightarrow> u32" where
  "arg_val (Num v) = v" | "arg_val (Str p s) = p" | "arg_val (Wide p s) = p"

definition dec :: "nat \<Rightarrow> u8 list" where
  "dec n = map ((!) small_digits) (base_digits 10 n)"

fun field_bytes :: "field \<Rightarrow> u8 list" where
  "field_bytes Absent = []" | "field_bytes (Fixed n) = dec n" | "field_bytes Star = [ch (CHR ''*'')]"

definition prec_bytes :: "field \<Rightarrow> u8 list" where
  "prec_bytes p = (if p = Absent then [] else ch (CHR ''.'') # field_bytes p)"

fun unparse :: "directive \<Rightarrow> u8 list" where
  "unparse (Lit c) = [c]"
| "unparse (Conv fl w p q c) = ch (CHR ''%'') # map of_char fl @ field_bytes w @ prec_bytes p @ map of_char q @ [ch c]"

fun field_ok :: "field \<Rightarrow> bool" where
  "field_ok (Fixed n) \<longleftrightarrow> n < 2 ^ 30" | "field_ok w \<longleftrightarrow> True"

fun wf_directive :: "directive \<Rightarrow> bool" where
  "wf_directive (Lit c) \<longleftrightarrow> c \<noteq> 0 \<and> c \<noteq> ch (CHR ''%'')"
| "wf_directive (Conv fl w p q c) \<longleftrightarrow> set fl \<subseteq> set ''-+ #0'' \<and> field_ok w \<and> w \<noteq> Fixed 0 \<and> field_ok p \<and>
     q \<in> {'''', ''h'', ''l'', ''L'', ''w'', ''I64'', ''I32'', ''F''} \<and> (q = ''F'' \<longrightarrow> c = CHR ''p'') \<and>
     c \<in> set ''csSpobXxdiu%''"

subsection \<open>What a format stands for\<close>

fun flag_of :: "char \<Rightarrow> u32" where
  "flag_of c = (if c = CHR ''-'' then LEFT else if c = CHR ''+'' then PLUS else if c = CHR '' '' then SPACE
     else if c = CHR ''#'' then SPECIAL else ZEROPAD)"

definition flags_of :: "string \<Rightarrow> u32 \<Rightarrow> u32" where
  "flags_of fl f = fold (\<lambda>c f. f OR flag_of c) fl f"

definition qual_byte :: "string \<Rightarrow> u8" where
  "qual_byte q = (if q = ''I32'' then ch (CHR ''l'') else if q = '''' \<or> q = ''F'' then no_qualifier else ch (hd q))"

fun take_field :: "field \<Rightarrow> arg list \<Rightarrow> (int \<times> arg list) option" where
  "take_field Absent args = Some (- 1, args)"
| "take_field (Fixed n) args = Some (int n, args)"
| "take_field Star (Num v # args) = (if \<bar>sint v\<bar> < 2 ^ 30 then Some (sint v, args) else None)"
| "take_field Star _ = None"

fun chars_text :: "u32 \<Rightarrow> int \<Rightarrow> int \<Rightarrow> bool \<Rightarrow> arg \<Rightarrow> u8 list option" where
  "chars_text flags w p wd (Num v) = (if v = 0 then Some (string_text flags w null_text) else None)"
| "chars_text flags w p wd (Str _ s) = (if wd then None else Some (string_text flags w (clip p s)))"
| "chars_text flags w p wd (Wide _ s) = (if wd then Some (string_text flags w (clip p (map ucast s))) else None)"

definition char_text :: "u32 \<Rightarrow> int \<Rightarrow> int \<Rightarrow> bool \<Rightarrow> u32 \<Rightarrow> u8 list" where
  "char_text flags w p wd v = string_text flags w (clip p
     (if wd then if (ucast v :: u16) = 0 then [] else [ucast (ucast v :: u16)]
      else if (ucast v :: u8) = 0 then [] else [ucast v]))"

definition conv_text :: "u32 \<Rightarrow> int \<Rightarrow> int \<Rightarrow> u8 \<Rightarrow> char \<Rightarrow> arg \<Rightarrow> u8 list option" where
  "conv_text flags w p q c a =
     (if c = CHR ''c'' then Some (char_text flags w p (wide q) (arg_val a))
      else if c = CHR ''s'' then chars_text flags w p (wide q) a
      else if c = CHR ''S'' then chars_text flags w p (q \<noteq> ch (CHR ''h'')) a
      else if c = CHR ''p'' then
        Some (number_text (if w = - 1 then flags OR LARGE OR ZEROPAD else flags OR LARGE) 16 (if w = - 1 then 8 else w) p (arg_val a))
      else map_option (\<lambda>(base, flags). number_text flags (unat base) w p (arg_val a)) (number_format (ch c) flags))"

fun directive_text :: "directive \<Rightarrow> arg list \<Rightarrow> (u8 list \<times> arg list) option" where
  "directive_text (Lit c) args = Some ([c], args)"
| "directive_text (Conv fl w p q c) args = do {
     (wi, args) \<leftarrow> take_field w args;
     (pi, args) \<leftarrow> take_field p args;
     let flags = (flags_of fl 0 OR (if w = Star \<and> wi < 0 then LEFT else 0)) OR (if q = ''F'' then REMOVEHEX else 0);
         width = (if w = Star then \<bar>wi\<bar> else wi);
         prec = (if p = Absent then - 1 else max 0 pi)
     in if c = CHR ''%'' then Some ([ch c], args)
        else case args of [] \<Rightarrow> None
          | a # args \<Rightarrow> map_option (\<lambda>t. (t, args)) (conv_text flags width prec (qual_byte q) c a) }"

fun format_text :: "directive list \<Rightarrow> arg list \<Rightarrow> u8 list option" where
  "format_text [] args = Some []"
| "format_text (d # ds) args = do {
     (t, args) \<leftarrow> directive_text d args;
     ts \<leftarrow> format_text ds args;
     Some (t @ ts) }"

subsection \<open>Arguments in memory\<close>

fun arg_at :: "8 mem \<Rightarrow> u32 \<Rightarrow> nat \<Rightarrow> arg \<Rightarrow> bool" where
  "arg_at m buf lim (Num v) \<longleftrightarrow> True"
| "arg_at m buf lim (Str p s) \<longleftrightarrow> str_at m buf lim p s"
| "arg_at m buf lim (Wide p s) \<longleftrightarrow> wstr_at m buf lim p s"

fun args_at :: "8 mem \<Rightarrow> u32 \<Rightarrow> nat \<Rightarrow> u32 \<Rightarrow> arg list \<Rightarrow> bool" where
  "args_at m buf lim a [] \<longleftrightarrow> True"
| "args_at m buf lim a (x # xs) \<longleftrightarrow> rd32 m a = arg_val x \<and> clear buf lim a 4 \<and> arg_at m buf lim x \<and>
     args_at m buf lim (a + 4) xs"

lemma rd32_clear: "agree buf lim m m' \<Longrightarrow> clear buf lim a 4 \<Longrightarrow> rd32 m' a = rd32 m a"
  by (rule rd32_agree) (simp add: agree_clear)

subsection \<open>Parsing\<close>

lemma digit_bytes:
  assumes "d < 10"
  shows "isdigit (small_digits ! d)" "scast (small_digits ! d) - scast (ch (CHR ''0'')) = (of_nat d :: u32)"
proof -
  have "d \<in> {0, 1, 2, 3, 4, 5, 6, 7, 8, 9}" using assms by auto
  then show "isdigit (small_digits ! d)" "scast (small_digits ! d) - scast (ch (CHR ''0'')) = (of_nat d :: u32)"
    by (auto simp: small_digits_def isdigit_def)
qed

lemma skip_atoi_digits:
  "\<forall>d\<in>set ds. d < 10 \<Longrightarrow> cells m s (map ((!) small_digits) ds @ [c]) \<Longrightarrow> \<not> isdigit c \<Longrightarrow>
    skip_atoi m s i = Some (foldl (\<lambda>a d. a * 10 + of_nat d) i ds, s + of_nat (length ds))"
proof (induction ds arbitrary: s i)
  case (Cons d ds)
  have "isdigit (small_digits ! d)" "scast (small_digits ! d) - scast (ch (CHR ''0'')) = (of_nat d :: u32)"
    using digit_bytes [of d] Cons.prems(1) by simp_all
  then show ?case
    using Cons by (subst skip_atoi.simps) (simp add: add.assoc add_diff_eq [symmetric] del: of_char_Char)
qed (subst skip_atoi.simps, simp)

lemma foldl_of_nat: "foldl (\<lambda>a d. a * 10 + of_nat d) (of_nat n) ds = (of_nat (foldl (\<lambda>a d. a * 10 + d) n ds) :: u32)"
proof (induction ds arbitrary: n)
  case (Cons d ds)
  have "of_nat n * 10 + of_nat d = (of_nat (n * 10 + d) :: u32)" by simp
  then show ?case using Cons [of "n * 10 + d"] by simp
qed simp

lemma skip_atoi_dec:
  assumes "cells m s (dec n @ [c])" "\<not> isdigit c"
  shows "skip_atoi m s 0 = Some (of_nat n, s + of_nat (length (dec n)))"
proof -
  have "\<forall>d\<in>set (base_digits 10 n). d < 10" using base_digits_bound [of 10 _ n] by simp
  from skip_atoi_digits [OF this assms(1) [unfolded dec_def] assms(2), of 0]
  have "skip_atoi m s 0 = Some (foldl (\<lambda>a d. a * 10 + of_nat d) 0 (base_digits 10 n), s + of_nat (length (dec n)))"
    unfolding dec_def length_map .
  also have "foldl (\<lambda>a d. a * 10 + of_nat d) (0 :: u32) (base_digits 10 n) = of_nat n"
    using foldl_of_nat [of 0 "base_digits 10 n"] base_digits_value [of 10 n] by simp
  finally show ?thesis .
qed

definition flag_bytes :: "u8 list" where
  "flag_bytes = map of_char ''-+ #0''"

lemma get_flags_parse:
  "set fl \<subseteq> set ''-+ #0'' \<Longrightarrow> cells m (fmt + 1) (map of_char fl @ [c]) \<Longrightarrow> c \<notin> set flag_bytes \<Longrightarrow>
    get_flags m fmt f = Some (flags_of fl f, fmt + 1 + of_nat (length fl))"
proof (induction fl arbitrary: fmt f)
  case Nil
  then show ?case by (subst get_flags.simps) (simp add: flags_of_def flag_bytes_def)
next
  case (Cons x fl)
  have "m (fmt + 1) = of_char x" "cells m (fmt + 1 + 1) (map of_char fl @ [c])" using Cons.prems by simp_all
  moreover have "x = CHR ''-'' \<or> x = CHR ''+'' \<or> x = CHR '' '' \<or> x = CHR ''#'' \<or> x = CHR ''0''"
    using Cons.prems(1) by auto
  ultimately have "get_flags m fmt f = get_flags m (fmt + 1) (f OR flag_of x)"
    by (subst get_flags.simps) (auto simp: Let_def)
  also have "\<dots> = Some (flags_of fl (f OR flag_of x), fmt + 1 + 1 + of_nat (length fl))"
    using Cons.IH [of "fmt + 1"] Cons.prems \<open>cells m (fmt + 1 + 1) _\<close> by (simp add: ac_simps)
  finally show ?case by (simp add: flags_of_def add.assoc)
qed

text \<open>The arguments after a width or a precision.\<close>

fun skip_arg :: "field \<Rightarrow> u32 \<Rightarrow> u32" where
  "skip_arg w a = (if w = Star then a + 4 else a)"

lemma take_field_args:
  "take_field w args = Some (i, args') \<Longrightarrow> args_at m buf lim a args \<Longrightarrow> args_at m buf lim (skip_arg w a) args'"
  by (induction w args rule: take_field.induct) (auto split: if_splits)

lemma take_field_Star:
  assumes "take_field Star args = Some (i, args')" "args_at m buf lim a args" "agree buf lim m m'"
  shows "rd32 m' a = of_int i" "\<bar>i\<bar> < 2 ^ 30"
  using assms by (cases args rule: list.exhaust; cases "hd args"; auto simp: rd32_clear split: if_splits)+

lemma take_field_bound: "take_field w args = Some (i, args') \<Longrightarrow> field_ok w \<Longrightarrow> - (2 ^ 30) < i \<and> i < 2 ^ 30"
  by (induction w args rule: take_field.induct) (auto split: if_splits)

lemma dec_Cons: "0 < n \<Longrightarrow> \<exists>d ds. dec n = d # ds \<and> isdigit d \<and> d \<notin> set flag_bytes"
proof -
  assume "0 < n"
  obtain d ds where d: "base_digits 10 n = d # ds" by (cases "base_digits 10 n") simp_all
  have "d < 10" "0 < d" using base_digits_bound [of 10 d n] base_digits_hd [of 10 n] d \<open>0 < n\<close> by simp_all
  moreover then have "small_digits ! d \<notin> set flag_bytes"
  proof -
    have "d \<in> {1, 2, 3, 4, 5, 6, 7, 8, 9}" using \<open>d < 10\<close> \<open>0 < d\<close> by auto
    then show ?thesis by (auto simp: small_digits_def flag_bytes_def)
  qed
  ultimately show ?thesis using digit_bytes(1) [of d] d by (simp add: dec_def)
qed

lemma dec_hd_digit: "\<exists>d ds. dec n = d # ds \<and> isdigit d"
proof -
  obtain d ds where d: "base_digits 10 n = d # ds" by (cases "base_digits 10 n") simp_all
  have "d < 10" using base_digits_bound [of 10 d n] d by simp
  then show ?thesis using digit_bytes(1) [of d] d by (simp add: dec_def)
qed

lemma get_width_parse:
  assumes c: "cells m' fmt (field_bytes w @ [c])" "\<not> isdigit c" "c \<noteq> ch (CHR ''*'')"
    and t: "take_field w args = Some (i, args')" "w \<noteq> Fixed 0" "field_ok w"
    and a: "args_at m buf lim a args" "agree buf lim m m'"
  shows "get_width m' flags fmt a = Some (of_int (if w = Star then \<bar>i\<bar> else i),
     flags OR (if w = Star \<and> i < 0 then LEFT else 0), fmt + of_nat (length (field_bytes w)), skip_arg w a)"
proof (cases w)
  case Absent
  then show ?thesis using c t by (auto simp: get_width_def)
next
  case (Fixed n)
  obtain d ds where "dec n = d # ds" "isdigit d" using dec_hd_digit by blast
  then have "isdigit (m' fmt)" using c(1) Fixed by simp
  then show ?thesis using skip_atoi_dec [of m' fmt n c] c t Fixed by (auto simp: get_width_def)
next
  case Star
  have s: "rd32 m' a = of_int i" "\<bar>i\<bar> < 2 ^ 30" using take_field_Star t(1) a Star by blast+
  then have "sint (of_int i :: u32) = i" by (intro sint_of_int_u32) simp_all
  then show ?thesis using c Star s by (auto simp: get_width_def va_arg_def isdigit_def abs_if)
qed

lemma get_precision_parse:
  assumes c: "cells m' fmt (prec_bytes p @ [c])" "\<not> isdigit c" "c \<noteq> ch (CHR ''*'')" "c \<noteq> ch (CHR ''.'')"
    and t: "take_field p args = Some (i, args')" "field_ok p"
    and a: "args_at m buf lim a args" "agree buf lim m m'"
  shows "get_precision m' fmt a = Some (of_int (if p = Absent then - 1 else max 0 i),
     fmt + of_nat (length (prec_bytes p)), skip_arg p a)"
proof (cases p)
  case Absent
  then show ?thesis using c t by (auto simp: get_precision_def prec_bytes_def)
next
  case (Fixed n)
  obtain d ds where "dec n = d # ds" "isdigit d" using dec_hd_digit by blast
  then have "isdigit (m' (fmt + 1))" using c(1) Fixed by (simp add: prec_bytes_def)
  moreover have "sint (of_nat n :: u32) = int n"
    using sint_of_int_u32 [of "int n"] t(2) Fixed by simp
  ultimately show ?thesis
    using skip_atoi_dec [of m' "fmt + 1" n c] c t Fixed by (auto simp: get_precision_def prec_bytes_def add.assoc)
next
  case Star
  have s: "rd32 m' a = of_int i" "\<bar>i\<bar> < 2 ^ 30" using take_field_Star t(1) a Star by blast+
  then have "sint (of_int i :: u32) = i" by (intro sint_of_int_u32) simp_all
  then show ?thesis
    using c Star s by (auto simp: get_precision_def prec_bytes_def va_arg_def isdigit_def max_def add.assoc)
qed

lemma get_qualifier_parse:
  assumes "cells m fmt (map of_char q @ [ch c])" "q \<in> {'''', ''h'', ''l'', ''L'', ''w'', ''I64'', ''I32'', ''F''}"
    and "q = ''F'' \<longrightarrow> c = CHR ''p''" "c \<in> set ''csSpobXxdiu%''"
  shows "get_qualifier m flags fmt = (qual_byte q, flags OR (if q = ''F'' then REMOVEHEX else 0), fmt + of_nat (length q))"
proof -
  have c: "ch c \<noteq> ch (CHR ''h'')" "ch c \<noteq> ch (CHR ''l'')" "ch c \<noteq> ch (CHR ''L'')" "ch c \<noteq> ch (CHR ''w'')"
    "ch c \<noteq> ch (CHR ''I'')" "ch c \<noteq> ch (CHR ''F'')" using assms(4) by auto
  consider "q = ''''" | "q = ''F''" | "q = ''I64''" | "q = ''I32''" | "q = ''h''" | "q = ''l''" | "q = ''L''" | "q = ''w''"
    using assms(2) by blast
  then show ?thesis
    using assms(1,3) c by cases (simp_all add: get_qualifier_def qual_byte_def add.assoc)
qed

lemma qual_head:
  assumes "q \<in> {'''', ''h'', ''l'', ''L'', ''w'', ''I64'', ''I32'', ''F''}" "c \<in> set ''csSpobXxdiu%''"
  obtains d ds where "map of_char q @ [ch c] = d # ds" "\<not> isdigit d" "d \<noteq> ch (CHR ''*'')" "d \<noteq> ch (CHR ''.'')"
    "d \<notin> set flag_bytes"
proof -
  have c: "\<not> isdigit (ch c) \<and> ch c \<noteq> ch (CHR ''*'') \<and> ch c \<noteq> ch (CHR ''.'') \<and> ch c \<notin> set flag_bytes"
    using assms(2) by (auto simp: isdigit_def flag_bytes_def)
  consider "q = ''''" | "q = ''F''" | "q = ''I64''" | "q = ''I32''" | "q = ''h''" | "q = ''l''" | "q = ''L''" | "q = ''w''"
    using assms(1) by blast
  then show thesis
    by cases (use c that in \<open>simp_all add: isdigit_def flag_bytes_def\<close>)
qed

lemma prec_head:
  assumes "q \<in> {'''', ''h'', ''l'', ''L'', ''w'', ''I64'', ''I32'', ''F''}" "c \<in> set ''csSpobXxdiu%''"
  obtains d ds where "prec_bytes p @ map of_char q @ [ch c] = d # ds" "\<not> isdigit d" "d \<noteq> ch (CHR ''*'')" "d \<notin> set flag_bytes"
proof (cases "p = Absent")
  case True
  then show thesis using qual_head [OF assms] that by (metis append_Nil prec_bytes_def)
next
  case False
  then show thesis using that by (simp add: prec_bytes_def isdigit_def flag_bytes_def)
qed

lemma width_head:
  assumes "q \<in> {'''', ''h'', ''l'', ''L'', ''w'', ''I64'', ''I32'', ''F''}" "c \<in> set ''csSpobXxdiu%''" "w \<noteq> Fixed 0"
  obtains d ds where "field_bytes w @ prec_bytes p @ map of_char q @ [ch c] = d # ds" "d \<notin> set flag_bytes"
proof (cases w)
  case Absent
  then show thesis using prec_head [OF assms(1,2)] that by (metis append_Nil field_bytes.simps(1))
next
  case (Fixed n)
  then show thesis using dec_Cons [of n] that assms(3) by fastforce
qed (use that in \<open>simp add: flag_bytes_def\<close>)

definition dflags :: "string \<Rightarrow> field \<Rightarrow> int \<Rightarrow> u32" where
  "dflags fl w i = flags_of fl 0 OR (if w = Star \<and> i < 0 then LEFT else 0)"

lemma directive_parse:
  assumes wf: "wf_directive (Conv fl w p q c)" and cs: "cells m' fmt (unparse (Conv fl w p q c))"
    and w: "take_field w args = Some (wi, args1)" and p: "take_field p args1 = Some (pi, args2)"
    and a: "args_at m buf lim a args" "agree buf lim m m'"
  defines "f1 \<equiv> fmt + 1 + of_nat (length fl)"
  defines "f2 \<equiv> f1 + of_nat (length (field_bytes w))"
  defines "f3 \<equiv> f2 + of_nat (length (prec_bytes p))"
  defines "f4 \<equiv> f3 + of_nat (length q)"
  shows "get_flags m' fmt 0 = Some (flags_of fl 0, f1)"
    and "get_width m' (flags_of fl 0) f1 a = Some (of_int (if w = Star then \<bar>wi\<bar> else wi), dflags fl w wi, f2, skip_arg w a)"
    and "get_precision m' f2 (skip_arg w a) = Some (of_int (if p = Absent then - 1 else max 0 pi), f3, skip_arg p (skip_arg w a))"
    and "get_qualifier m' f f3 = (qual_byte q, f OR (if q = ''F'' then REMOVEHEX else 0), f4)"
    and "m' fmt = ch (CHR ''%'')" and "m' f4 = ch c" and "f4 + 1 = fmt + of_nat (length (unparse (Conv fl w p q c)))"
proof -
  have q: "q \<in> {'''', ''h'', ''l'', ''L'', ''w'', ''I64'', ''I32'', ''F''}" and c: "c \<in> set ''csSpobXxdiu%''"
    and fl: "set fl \<subseteq> set ''-+ #0''" and qF: "q = ''F'' \<longrightarrow> c = CHR ''p''" and w0: "w \<noteq> Fixed 0"
    and ok: "field_ok w" "field_ok p" using wf by simp_all
  have c0: "m' fmt = ch (CHR ''%'')" and c1: "cells m' (fmt + 1) (map of_char fl)"
    and c2: "cells m' f1 (field_bytes w @ prec_bytes p @ map of_char q @ [ch c])"
    using cs by (simp_all add: cells_append f1_def)
  have c3: "cells m' f1 (field_bytes w)" and c4: "cells m' f2 (prec_bytes p @ map of_char q @ [ch c])"
    using c2 by (simp_all only: cells_append [of _ _ "field_bytes w"] f2_def)
  have c5: "cells m' f2 (prec_bytes p)" and c6: "cells m' f3 (map of_char q @ [ch c])"
    using c4 by (simp_all only: cells_append [of _ _ "prec_bytes p"] f3_def)
  obtain d1 ds1 where d1: "field_bytes w @ prec_bytes p @ map of_char q @ [ch c] = d1 # ds1" "d1 \<notin> set flag_bytes"
    using width_head [OF q c w0] .
  obtain d2 ds2 where d2: "prec_bytes p @ map of_char q @ [ch c] = d2 # ds2" "\<not> isdigit d2" "d2 \<noteq> ch (CHR ''*'')"
    using prec_head [OF q c] by metis
  obtain d3 ds3 where d3: "map of_char q @ [ch c] = d3 # ds3" "\<not> isdigit d3" "d3 \<noteq> ch (CHR ''*'')" "d3 \<noteq> ch (CHR ''.'')"
    using qual_head [OF q c] by metis
  have "m' f1 = d1" "m' f2 = d2" "m' f3 = d3"
    using c2 [unfolded d1(1)] c4 [unfolded d2(1)] c6 [unfolded d3(1)] by simp_all
  then have x1: "cells m' (fmt + 1) (map of_char fl @ [d1])" and x2: "cells m' f1 (field_bytes w @ [d2])"
    and x3: "cells m' f2 (prec_bytes p @ [d3])"
    using c1 c3 c5 by (simp_all add: cells_append f1_def f2_def f3_def)
  show "get_flags m' fmt 0 = Some (flags_of fl 0, f1)"
    using get_flags_parse [OF fl x1 d1(2)] by (simp add: f1_def)
  show "get_width m' (flags_of fl 0) f1 a = Some (of_int (if w = Star then \<bar>wi\<bar> else wi), dflags fl w wi, f2, skip_arg w a)"
    using get_width_parse [OF x2 d2(2,3) w w0 ok(1) a] by (simp add: f2_def dflags_def)
  have "args_at m buf lim (skip_arg w a) args1" by (rule take_field_args [OF w a(1)])
  then show "get_precision m' f2 (skip_arg w a) = Some (of_int (if p = Absent then - 1 else max 0 pi), f3, skip_arg p (skip_arg w a))"
    using get_precision_parse [OF x3 d3(2-4) p ok(2) _ a(2)] by (simp add: f3_def)
  show "get_qualifier m' f f3 = (qual_byte q, f OR (if q = ''F'' then REMOVEHEX else 0), f4)"
    using get_qualifier_parse [OF c6 q qF c] by (simp add: f4_def)
  show "m' fmt = ch (CHR ''%'')" by (rule c0)
  show "m' f4 = ch c" using c6 by (simp add: cells_append f4_def)
  show "f4 + 1 = fmt + of_nat (length (unparse (Conv fl w p q c)))"
    by (simp add: f4_def f3_def f2_def f1_def algebra_simps)
qed

subsection \<open>Conversions\<close>

lemma or_LARGE: "(if has flags LARGE then flags else flags OR LARGE) = flags OR LARGE"
proof -
  have b: "bit LARGE n \<longleftrightarrow> n = 6" for n
    using bit_exp_iff [of 6 n, where 'a = u32] bit_imp_le_length [of LARGE n] by (auto simp: LARGE_def)
  have "flags OR LARGE = flags" if h: "has flags LARGE"
  proof (rule bit_word_eqI)
    fix n assume "n < LENGTH(32)"
    from h have "flags AND LARGE \<noteq> 0" by (simp add: has_def)
    then have "bit flags 6" by (auto simp: bit_eq_iff [of _ 0] bit_and_iff b)
    then show "bit (flags OR LARGE) n = bit flags n" by (auto simp: bit_or_iff b)
  qed
  then show ?thesis by simp
qed

lemma of_int_minus_1_u32: "- 1 \<le> w \<Longrightarrow> w < 2 ^ 30 \<Longrightarrow> (of_int w :: u32) = - 1 \<longleftrightarrow> w = - 1"
proof -
  assume "- 1 \<le> w" "w < 2 ^ 30"
  then have "sint (of_int w :: u32) = w" by simp
  then show ?thesis by (metis of_int_1 of_int_minus sint_n1)
qed

lemma number_wrote:
  assumes win: "window buf lim e" and o1: "wrote m buf lim tx (m', b)"
    and base: "base \<in> {2, 8, 10, 16}" and w: "- 1 \<le> w" "w < 2 ^ 30" and p: "- 1 \<le> p" "p < 2 ^ 30"
    and room: "unat buf + length tx + length (number_text flags (unat base) w p v) \<le> 2 ^ 32"
  shows "wrote m buf lim (tx @ number_text flags (unat base) w p v) (number m' b e v base (of_int w) (of_int p) flags)"
proof -
  have "2 \<le> unat base" "unat base \<le> 36" using base by auto
  from number_put [OF this w p, of m' b e v flags] show ?thesis
    using put_wrote [OF win o1 room] by simp
qed

lemma number_format_base:
  "number_format c flags = Some (base, flags') \<Longrightarrow> base \<in> {2, 8, 10, 16}"
  by (auto simp: number_format_def split: if_splits)

lemma conv_p_wrote:
  assumes win: "window buf lim e" and o1: "wrote m buf lim tx (m', b)"
    and w: "- 1 \<le> w" "w < 2 ^ 30" and p: "- 1 \<le> p" "p < 2 ^ 30"
    and t: "t = number_text (if w = - 1 then flags OR LARGE OR ZEROPAD else flags OR LARGE) 16 (if w = - 1 then 8 else w) p v"
    and room: "unat buf + length tx + length t \<le> 2 ^ 32"
  shows "wrote m buf lim (tx @ t) (conv_p m' b e v (of_int w) (of_int p) flags)"
proof -
  define W where "W = (if w = - 1 then 8 else w)"
  define fl where "fl = (if w = - 1 then flags OR LARGE OR ZEROPAD else flags OR LARGE)"
  have "(if (of_int w :: u32) = - 1 then (8, (flags OR LARGE) OR ZEROPAD) else (of_int w, flags OR LARGE)) = (of_int W :: u32, fl)"
    using w by (simp add: of_int_minus_1_u32 W_def fl_def or.assoc)
  then have "conv_p m' b e v (of_int w) (of_int p) flags = number m' b e v 16 (of_int W) (of_int p) fl"
    unfolding conv_p_def or_LARGE Let_def by simp
  moreover have "- 1 \<le> W" "W < 2 ^ 30" using w by (simp_all add: W_def)
  ultimately show ?thesis
    using number_wrote [OF win o1, of 16 W p fl v] p room t unfolding W_def fl_def by simp
qed

lemma chars_wrote:
  assumes win: "window buf lim e" and o1: "wrote m buf lim tx (m', b)"
    and w: "- 1 \<le> w" "w < 2 ^ 30" and p: "- 1 \<le> p" "p < 2 ^ 30"
    and t: "chars_text flags w p wd a = Some t" "arg_at m buf lim a"
    and room: "unat buf + length tx + length t \<le> 2 ^ 32"
  shows "wrote m buf lim (tx @ t)
    (if wd then stringw m' b e (At (arg_val a)) (- 1) (of_int w) (of_int p) flags
     else string m' b e (At (arg_val a)) (- 1) (of_int w) (of_int p) flags)"
proof (cases a)
  case (Num v)
  then have "v = 0" "t = string_text flags w null_text" using t by (auto split: if_splits)
  then show ?thesis using null_wrote [OF win o1 w, of flags] room Num by simp
next
  case (Str q s)
  then have wd: "\<not> wd" and tt: "t = string_text flags w (clip p s)" and q: "str_at m buf lim q s"
    using t by (auto split: if_splits)
  have "At q \<noteq> (At 0 :: u8 source)" using q by (simp add: str_at_def)
  from string_wrote [OF win o1 p w this contents_str_at [OF q]] show ?thesis
    using wd tt room Str by simp
next
  case (Wide q s)
  then have wd: "wd" and tt: "t = string_text flags w (clip p (map ucast s))" and q: "wstr_at m buf lim q s"
    using t by (auto split: if_splits)
  have "At q \<noteq> (At 0 :: u16 source)" using q by (simp add: wstr_at_def)
  from stringw_wrote [OF win o1 p w this contents_wstr_at [OF q]] show ?thesis
    using wd tt room Wide by simp
qed

lemma char_wrote:
  assumes win: "window buf lim e" and o1: "wrote m buf lim tx (m', b)"
    and w: "- 1 \<le> w" "w < 2 ^ 30" and p: "- 1 \<le> p" "p < 2 ^ 30"
    and room: "unat buf + length tx + length (char_text flags w p wd v) \<le> 2 ^ 32"
  shows "wrote m buf lim (tx @ char_text flags w p wd v)
    (if wd then stringw m' b e (Arr [ucast v, 0]) (- 1) (of_int w) (of_int p) flags
     else string m' b e (Arr [ucast v, 0]) (- 1) (of_int w) (of_int p) flags)"
proof (cases wd)
  case True
  then have t: "char_text flags w p wd v = string_text flags w (clip p (map ucast (if (ucast v :: u16) = 0 then [] else [ucast v :: u16])))"
    by (simp add: char_text_def)
  from stringw_wrote [OF win o1 p w _ contents_char(2) [of m buf lim "ucast v"], of flags] show ?thesis
    using True room unfolding t by simp
next
  case False
  then have t: "char_text flags w p wd v = string_text flags w (clip p (if (ucast v :: u8) = 0 then [] else [ucast v]))"
    by (simp add: char_text_def)
  from string_wrote [OF win o1 p w _ contents_char(1) [of m buf lim "ucast v"], of flags] show ?thesis
    using False room unfolding t by simp
qed

lemma convert_wrote:
  assumes win: "window buf lim e" and o1: "wrote m buf lim tx o1"
    and w: "- 1 \<le> w" "w < 2 ^ 30" and p: "- 1 \<le> p" "p < 2 ^ 30"
    and c: "fst o1 fmt = ch c" "c \<in> set ''csSpobXxdiu''"
    and t: "conv_text flags w p q c a = Some t" and a: "rd32 (fst o1) args = arg_val a" "arg_at m buf lim a"
    and room: "unat buf + length tx + length t \<le> 2 ^ 32"
  obtains o2 where "convert buf e o1 q flags (of_int w) (of_int p) fmt args = (o2, fmt, args + 4)"
    "wrote m buf lim (tx @ t) o2"
proof -
  obtain m' b where ob: "o1 = (m', b)" by fastforce
  note o1' = o1 [unfolded ob]
  have m: "m' fmt = ch c" "rd32 m' args = arg_val a" using c a ob by simp_all
  define o2 where "o2 = fst (convert buf e o1 q flags (of_int w) (of_int p) fmt args)"
  show thesis
  proof (rule that [of o2])
    show "convert buf e o1 q flags (of_int w) (of_int p) fmt args = (o2, fmt, args + 4)"
      unfolding o2_def ob convert_def using m c(2) by (auto simp: va_arg_def Let_def number_format_def)
    consider (chr) "c = CHR ''c''" | (s) "c = CHR ''s''" | (S) "c = CHR ''S''" | (ptr) "c = CHR ''p''"
      | (num) "c \<in> set ''obXxdiu''" using c(2) by auto
    then show "wrote m buf lim (tx @ t) o2"
    proof cases
      case chr
      then show ?thesis
        using char_wrote [OF win o1' w p, of flags "wide q" "arg_val a"] t room m
        by (simp add: o2_def ob convert_def va_arg_def conv_text_def split: if_splits)
    next
      case s
      then show ?thesis
        using chars_wrote [OF win o1' w p _ a(2), of flags "wide q" t] t room m
        by (simp add: o2_def ob convert_def va_arg_def conv_text_def split: if_splits)
    next
      case S
      then show ?thesis
        using chars_wrote [OF win o1' w p _ a(2), of flags "q \<noteq> ch (CHR ''h'')" t] t room m
        by (simp add: o2_def ob convert_def va_arg_def conv_text_def split: if_splits)
    next
      case ptr
      then show ?thesis
        using conv_p_wrote [OF win o1' w p, of t flags "arg_val a"] t room m
        by (simp add: o2_def ob convert_def va_arg_def conv_text_def split: if_splits)
    next
      case num
      have n: "c \<noteq> CHR ''c''" "c \<noteq> CHR ''s''" "c \<noteq> CHR ''S''" "c \<noteq> CHR ''p''" "c \<noteq> CHR ''C''" "c \<noteq> CHR ''Z''" "c \<noteq> CHR ''n''"
        using num by auto
      then obtain base fl where b: "number_format (ch c) flags = Some (base, fl)" and tt: "t = number_text fl (unat base) w p (arg_val a)"
        using t by (auto simp: conv_text_def)
      have n': "ch c \<noteq> ch (CHR ''c'')" "ch c \<noteq> ch (CHR ''s'')" "ch c \<noteq> ch (CHR ''S'')" "ch c \<noteq> ch (CHR ''p'')"
        "ch c \<noteq> ch (CHR ''C'')" "ch c \<noteq> ch (CHR ''Z'')" "ch c \<noteq> ch (CHR ''n'')"
        using num by auto
      show ?thesis
        using number_wrote [OF win o1' number_format_base [OF b] w p, of fl "arg_val a"] tt room m b n'
        by (simp add: o2_def ob convert_def va_arg_def Let_def del: of_char_Char)
    qed
  qed
qed

subsection \<open>Formats\<close>

lemma cells_agree:
  "cells m p cs \<Longrightarrow> clear buf lim p (length cs) \<Longrightarrow> agree buf lim m m' \<Longrightarrow> cells m' p cs"
  by (simp add: cells_nth agree_clear)

lemma clear_append: "clear buf lim p (n + k) \<Longrightarrow> clear buf lim p n \<and> clear buf lim (p + of_nat n) k"
proof -
  assume c: "clear buf lim p (n + k)"
  have "lim \<le> unat (p + of_nat n + of_nat i - buf)" if "i < k" for i
    using c [unfolded clear_def, rule_format, of "n + i"] that by (simp add: add.assoc)
  moreover have "clear buf lim p n" using c by (simp add: clear_def)
  ultimately show ?thesis by (simp add: clear_def)
qed

lemma directive_text_Conv:
  assumes "directive_text (Conv fl w p q c) args = Some (t, args')"
  obtains wi pi args1 args2 where "take_field w args = Some (wi, args1)" "take_field p args1 = Some (pi, args2)"
    and "if c = CHR ''%'' then t = [ch c] \<and> args' = args2
      else \<exists>a. args2 = a # args' \<and> conv_text (dflags fl w wi OR (if q = ''F'' then REMOVEHEX else 0))
        (if w = Star then \<bar>wi\<bar> else wi) (if p = Absent then - 1 else max 0 pi) (qual_byte q) c a = Some t"
proof -
  obtain wi args1 where w: "take_field w args = Some (wi, args1)"
    using assms by (cases "take_field w args") auto
  obtain pi args2 where p: "take_field p args1 = Some (pi, args2)"
    using assms w by (cases "take_field p args1") auto
  show thesis
  proof (rule that [OF w p])
    show "if c = CHR ''%'' then t = [ch c] \<and> args' = args2
      else \<exists>a. args2 = a # args' \<and> conv_text (dflags fl w wi OR (if q = ''F'' then REMOVEHEX else 0))
        (if w = Star then \<bar>wi\<bar> else wi) (if p = Absent then - 1 else max 0 pi) (qual_byte q) c a = Some t"
    proof -
      have "directive_text (Conv fl w p q c) args = (if c = CHR ''%'' then Some ([ch c], args2)
        else case args2 of [] \<Rightarrow> None
          | a # args \<Rightarrow> map_option (\<lambda>t. (t, args)) (conv_text (dflags fl w wi OR (if q = ''F'' then REMOVEHEX else 0))
              (if w = Star then \<bar>wi\<bar> else wi) (if p = Absent then - 1 else max 0 pi) (qual_byte q) c a))"
        by (simp only: directive_text.simps w p bind.bind_lunit prod.case Let_def dflags_def)
      with assms show ?thesis
        by (cases args2) (simp_all only: list.case split: if_splits, auto)
    qed
  qed
qed

lemma take_width_bound:
  assumes "take_field w args = Some (i, args')" "field_ok w"
  shows "- 1 \<le> (if w = Star then \<bar>i\<bar> else i)" "(if w = Star then \<bar>i\<bar> else i) < 2 ^ 30"
  using take_field_bound [OF assms] assms by (cases w; auto)+

lemma take_prec_bound:
  assumes "take_field p args = Some (i, args')" "field_ok p"
  shows "- 1 \<le> (if p = Absent then - 1 else max 0 i)" "(if p = Absent then - 1 else max 0 i) < 2 ^ 30"
  using take_field_bound [OF assms] by auto

text \<open>One round of the loop over the format writes the text of one directive.\<close>

lemma fmt_loop_step:
  assumes win: "window buf lim e" and o1: "wrote m buf lim tx o1"
    and wf: "wf_directive d" and cs: "cells m fmt (unparse d)" "clear buf lim fmt (length (unparse d))"
    and a: "args_at m buf lim a args" and t: "directive_text d args = Some (t, args')"
    and room: "unat buf + length tx + length t \<le> 2 ^ 32"
  obtains o2 a' where "fmt_loop buf e o1 fmt a = fmt_loop buf e o2 (fmt + of_nat (length (unparse d))) a'"
    "wrote m buf lim (tx @ t) o2" "args_at m buf lim a' args'"
proof -
  have ag: "agree buf lim m (fst o1)" by (rule wrote_agree [OF o1])
  have cs': "cells (fst o1) fmt (unparse d)" by (rule cells_agree [OF cs ag])
  show thesis
  proof (cases d)
    case (Lit c)
    show thesis
    proof (rule that [of "emit e c o1" a])
      show "fmt_loop buf e o1 fmt a = fmt_loop buf e (emit e c o1) (fmt + of_nat (length (unparse d))) a"
        using cs' wf Lit by (subst fmt_loop.simps) (simp add: Let_def)
      show "wrote m buf lim (tx @ t) (emit e c o1)"
        using emit_wrote [OF win o1, of c] t room Lit by auto
      show "args_at m buf lim a args'" using a t Lit by simp
    qed
  next
    case (Conv fl w p q c)
    obtain wi pi args1 args2 where w: "take_field w args = Some (wi, args1)" and p: "take_field p args1 = Some (pi, args2)"
      and t': "if c = CHR ''%'' then t = [ch c] \<and> args' = args2
        else \<exists>a. args2 = a # args' \<and> conv_text (dflags fl w wi OR (if q = ''F'' then REMOVEHEX else 0))
          (if w = Star then \<bar>wi\<bar> else wi) (if p = Absent then - 1 else max 0 pi) (qual_byte q) c a = Some t"
      using directive_text_Conv [OF t [unfolded Conv]] .
    note P = directive_parse [OF wf [unfolded Conv] cs' [unfolded Conv] w p a ag]
    define f4 where "f4 = fmt + 1 + of_nat (length fl) + of_nat (length (field_bytes w)) +
      of_nat (length (prec_bytes p)) + of_nat (length q)"
    define a2 where "a2 = skip_arg p (skip_arg w a)"
    define F where "F = (dflags fl w wi OR (if q = ''F'' then REMOVEHEX else 0))"
    define W where "W = (if w = Star then \<bar>wi\<bar> else wi)"
    define Q where "Q = (if p = Absent then - 1 else max 0 pi)"
    have ok: "field_ok w" "field_ok p" using wf Conv by simp_all
    have W: "- 1 \<le> W" "W < 2 ^ 30" using take_width_bound [OF w ok(1)] by (simp_all only: W_def)
    have Q: "- 1 \<le> Q" "Q < 2 ^ 30" using take_prec_bound [OF p ok(2)] by (simp_all only: Q_def)
    have args2: "args_at m buf lim a2 args2"
      unfolding a2_def by (rule take_field_args [OF p take_field_args [OF w a]])
    have next': "f4 + 1 = fmt + of_nat (length (unparse d))"
      using P(7) unfolding f4_def Conv by (simp only: add.assoc)
    have c: "fst o1 f4 = ch c" using P(6) unfolding f4_def by (simp only: add.assoc)
    have loop: "fmt_loop buf e o1 fmt a = (let (o2, f, a) = convert buf e o1 (qual_byte q) F (of_int W) (of_int Q) f4 a2
        in fmt_loop buf e o2 (f + 1) a)"
    proof -
      have "(ch (CHR ''%'') :: u8) \<noteq> 0" by simp
      then show ?thesis
        by (subst fmt_loop.simps)
          (simp only: P(1-5) Let_def bind.bind_lunit option.case prod.case if_False if_True F_def W_def Q_def f4_def a2_def
            simp_thms)
    qed
    show thesis
    proof (cases "c = CHR ''%''")
      case True
      have "convert buf e o1 (qual_byte q) F (of_int W) (of_int Q) f4 a2 = (emit e (ch c) o1, f4, a2)"
        using c True by (cases o1) (simp add: convert_def va_arg_def number_format_def)
      with loop have "fmt_loop buf e o1 fmt a = fmt_loop buf e (emit e (ch c) o1) (fmt + of_nat (length (unparse d))) a2"
        by (simp add: next')
      then show thesis
        using that emit_wrote [OF win o1, of "ch c"] t' True room args2 by auto
    next
      case False
      then obtain x where x: "args2 = x # args'" and ct: "conv_text F W Q (qual_byte q) c x = Some t"
        using t' by (auto simp: F_def W_def Q_def)
      have x2: "rd32 (fst o1) a2 = arg_val x" "arg_at m buf lim x" "args_at m buf lim (a2 + 4) args'"
        using args2 x ag by (auto simp: rd32_clear)
      have "c \<in> set ''csSpobXxdiu''" using wf Conv False by auto
      then obtain o2 where o2: "convert buf e o1 (qual_byte q) F (of_int W) (of_int Q) f4 a2 = (o2, f4, a2 + 4)"
        "wrote m buf lim (tx @ t) o2"
        using convert_wrote [OF win o1 W Q c _ ct x2(1,2) room] by blast
      with loop have "fmt_loop buf e o1 fmt a = fmt_loop buf e o2 (fmt + of_nat (length (unparse d))) (a2 + 4)"
        by (simp add: next')
      then show thesis using that o2(2) x2(3) by blast
    qed
  qed
qed

lemma fmt_loop_text:
  assumes win: "window buf lim e"
  shows "wrote m buf lim tx o1 \<Longrightarrow> \<forall>d\<in>set ds. wf_directive d \<Longrightarrow>
    cells m fmt (concat (map unparse ds) @ [0]) \<Longrightarrow> clear buf lim fmt (length (concat (map unparse ds)) + 1) \<Longrightarrow>
    args_at m buf lim a args \<Longrightarrow> format_text ds args = Some t \<Longrightarrow> unat buf + length tx + length t \<le> 2 ^ 32 \<Longrightarrow>
    \<exists>o2. fmt_loop buf e o1 fmt a = Some o2 \<and> wrote m buf lim (tx @ t) o2"
proof (induction ds arbitrary: tx o1 fmt a args t)
  case Nil
  have "cells (fst o1) fmt [0]" using cells_agree [OF _ _ wrote_agree [OF Nil.prems(1)], of fmt "[0]"] Nil.prems(3,4) by simp
  then show ?case using Nil.prems by (subst fmt_loop.simps) (auto simp: Let_def)
next
  case (Cons d ds)
  obtain t1 args' where t1: "directive_text d args = Some (t1, args')"
    using Cons.prems(6) by (cases "directive_text d args") auto
  obtain t2 where t2: "format_text ds args' = Some t2" and t: "t = t1 @ t2"
    using Cons.prems(6) t1 by (cases "format_text ds args'") auto
  have c: "cells m fmt (unparse d)" "cells m (fmt + of_nat (length (unparse d))) (concat (map unparse ds) @ [0])"
    using Cons.prems(3) by (simp_all add: cells_append add.assoc)
  have cl: "clear buf lim fmt (length (unparse d))"
    "clear buf lim (fmt + of_nat (length (unparse d))) (length (concat (map unparse ds)) + 1)"
    using clear_append [of buf lim fmt "length (unparse d)" "length (concat (map unparse ds)) + 1"] Cons.prems(4)
    by (simp_all add: add.assoc)
  obtain o2 a' where o2: "fmt_loop buf e o1 fmt a = fmt_loop buf e o2 (fmt + of_nat (length (unparse d))) a'"
    "wrote m buf lim (tx @ t1) o2" "args_at m buf lim a' args'"
    using fmt_loop_step [OF win Cons.prems(1) _ c(1) cl(1) Cons.prems(5) t1] Cons.prems(2,7) t by auto
  from Cons.IH [OF o2(2) _ c(2) cl(2) o2(3) t2] show ?case
    using Cons.prems(2,7) t o2(1) by simp
qed

lemma vsnprintf_window:
  fixes buf cnt :: u32
  assumes "buf \<noteq> 0" "lim = min (unat cnt) (2 ^ 32 - unat buf)"
  defines "e0 \<equiv> buf + cnt - 1"
  defines "p \<equiv> (if e0 < buf - 1 then (- 1, - 1 - buf + 1) else (e0, cnt))"
  shows "window buf lim (fst p)" "unat (snd p) = lim"
proof -
  have b: "1 \<le> unat buf" using assms(1) by (metis One_nat_def Suc_leI unat_gt_0)
  have b1: "unat (buf - 1) = unat buf - 1" using assms(1) by (simp add: unat_minus_one)
  have bl: "unat buf < 2 ^ 32" "unat cnt < 2 ^ 32" using unsigned_less [of buf] unsigned_less [of cnt] by simp_all
  have "window buf lim (fst p) \<and> unat (snd p) = lim"
  proof (cases "unat buf + unat cnt \<le> 2 ^ 32")
    case True
    have e: "e0 = of_nat (unat buf + unat cnt - 1)" using b by (simp add: e0_def of_nat_diff)
    have "unat e0 = unat buf + unat cnt - 1" unfolding e using True b by (intro unat_of_nat_u32) simp
    then have "\<not> e0 < buf - 1" using b1 by (simp add: word_less_nat_alt)
    moreover have "lim = unat cnt" using True assms(2) by simp
    ultimately show ?thesis using assms(1) True by (simp add: p_def window_def e0_def)
  next
    case False
    have "(of_nat (2 ^ 32) :: u32) = 0" by simp
    then have e: "e0 = of_nat (unat buf + unat cnt - 1 - 2 ^ 32)" using b False by (simp add: e0_def of_nat_diff)
    have "unat e0 = unat buf + unat cnt - 1 - 2 ^ 32" unfolding e using bl by (intro unat_of_nat_u32) simp
    then have lt: "e0 < buf - 1" using b1 bl False by (simp add: word_less_nat_alt)
    have lim: "lim = 2 ^ 32 - unat buf" using False assms(2) bl by simp
    have nb: "- buf = of_nat lim"
      using \<open>(of_nat (2 ^ 32) :: u32) = 0\<close> bl(1) unfolding lim by (simp add: of_nat_diff)
    moreover have "lim < 2 ^ 32" using lim b by simp
    ultimately have ub: "unat (- buf) = lim" by (simp only: unat_of_nat_u32)
    have "p = (- 1, - buf)" using lt by (simp add: p_def)
    moreover have "window buf lim (- 1)"
      using assms(1) lim bl(1) unfolding window_def nb [symmetric] by simp
    ultimately show ?thesis using ub by simp
  qed
  then show "window buf lim (fst p)" "unat (snd p) = lim" by simp_all
qed

lemma vsnprintf_text:
  assumes wf: "\<forall>d\<in>set ds. wf_directive d"
    and fmt: "zstr m fmt (concat (map unparse ds))" "clear buf lim fmt (length (concat (map unparse ds)) + 1)"
    and args: "args_at m buf lim va args" "format_text ds args = Some t"
    and lim: "buf \<noteq> 0" "lim = min (unat cnt) (2 ^ 32 - unat buf)"
    and room: "unat buf + length t < 2 ^ 32"
  shows "vsnprintf m buf cnt fmt va = Some (of_nat (length t),
    if lim = 0 then m
    else if length t \<le> lim then (overlay m buf lim t)(buf + of_nat (length t) := 0)
    else (overlay m buf lim t)(buf + of_nat (lim - 1) := 0))"
proof -
  define p where "p = (if buf + cnt - 1 < buf - 1 then (- 1, - 1 - buf + 1) else (buf + cnt - 1, cnt))"
  obtain e c where ec: "p = (e, c)" by fastforce
  have win: "window buf lim e" and c: "unat c = lim"
    using vsnprintf_window [OF lim] unfolding p_def [symmetric] ec by simp_all
  have "cells m fmt (concat (map unparse ds) @ [0])" using fmt(1) by (simp add: zstr_def)
  from fmt_loop_text [OF win wrote_Nil wf this fmt(2) args] room
  have loop: "fmt_loop buf e (m, buf) fmt va = Some (overlay m buf lim t, buf + of_nat (length t))"
    by (auto simp: wrote_def)
  have le: "buf + of_nat (length t) \<le> e \<longleftrightarrow> length t < lim" by (rule guard_in_window [OF win room])
  have len: "unat (of_nat (length t) :: u32) = length t" using room by (intro unat_of_nat_u32) simp
  have gt: "c < of_nat (length t) \<longleftrightarrow> lim < length t" by (simp add: word_less_nat_alt c len)
  have pos: "0 < c \<longleftrightarrow> 0 < lim" using c by (simp add: word_less_nat_alt)
  have e: "e = buf + of_nat lim - 1" using win by (simp add: window_def)
  have o0: "overlay m buf 0 t = m" by (simp add: overlay_def)
  have "vsnprintf m buf cnt fmt va = Some (of_nat (length t),
      if length t < lim then (overlay m buf lim t)(buf + of_nat (length t) := 0)
      else if 0 < lim then (if lim < length t then (overlay m buf lim t)(e := 0) else (overlay m buf lim t)(e + 1 := 0))
      else overlay m buf lim t)"
    unfolding vsnprintf_def Let_def p_def [symmetric] ec prod.case loop by (simp add: le gt pos)
  then show ?thesis
    by (cases "lim = 0"; cases "length t < lim"; cases "length t = lim") (auto simp: o0 e of_nat_diff add_diff_eq)
qed

lemma clear_below: "unat p + n \<le> unat buf \<Longrightarrow> unat buf + lim \<le> 2 ^ 32 \<Longrightarrow> clear buf lim p n"
proof (unfold clear_def, intro allI impI)
  fix i assume b: "unat p + n \<le> unat buf" "unat buf + lim \<le> 2 ^ 32" "i < n"
  have "unat buf < 2 ^ 32" using unsigned_less [of buf] by simp
  moreover have "p + of_nat i - buf = - of_nat (unat buf - (unat p + i))"
    using b by (simp add: of_nat_diff)
  ultimately have "unat (p + of_nat i - buf) = 2 ^ 32 - (unat buf - (unat p + i))"
    using b by (simp only:) (intro unat_neg_nat, simp_all)
  then show "lim \<le> unat (p + of_nat i - buf)" using b by simp
qed

text \<open>C32: For every well-formed format without n, Z and C, formatted output writes the text that the
  format stands for, cut at the end of the buffer, with a terminator, changes nothing else and returns
  the length of the whole text; a text as long as the buffer gets its terminator behind the buffer.\<close>

theorem vsnprintf_writes_text:
  assumes wf: "\<forall>d\<in>set ds. wf_directive d"
    and fmt: "zstr m fmt (concat (map unparse ds))" "clear buf lim fmt (length (concat (map unparse ds)) + 1)"
    and args: "args_at m buf lim va args" "format_text ds args = Some t"
    and lim: "buf \<noteq> 0" "lim = min (unat cnt) (2 ^ 32 - unat buf)"
    and room: "unat buf + length t < 2 ^ 32"
  shows "vsnprintf m buf cnt fmt va = Some (of_nat (length t),
    if lim = 0 then m
    else if length t \<le> lim then (overlay m buf lim t)(buf + of_nat (length t) := 0)
    else (overlay m buf lim t)(buf + of_nat (lim - 1) := 0))"
  by (rule vsnprintf_text [OF assms])

text \<open>\<open>%s=%-5d|%08x\<close> with the arguments \<open>ab\<close>, -42 and 0xBEEF.\<close>

definition sample_format :: "directive list" where
  "sample_format = [Conv '''' Absent Absent '''' (CHR ''s''), Lit (ch (CHR ''='')), Conv ''-'' (Fixed 5) Absent '''' (CHR ''d''),
     Lit (ch (CHR ''|'')), Conv ''0'' (Fixed 8) Absent '''' (CHR ''x'')]"

definition sample_args :: "arg list" where
  "sample_args = [Str 0x1100 (map of_char ''ab''), Num (- 42), Num 0xBEEF]"

definition sample_text :: "u8 list" where
  "sample_text = map of_char ''ab=-42  |0000beef''"

definition sample_fmem :: "8 mem" where
  "sample_fmem = overlay (overlay (overlay (\<lambda>_. 0xAA) 0x1000 17 (map of_char ''%s=%-5d|%08x'' @ [0]))
      0x1100 3 (map of_char ''ab'' @ [0])) 0x2000 12 [0x00, 0x11, 0, 0, 0xD6, 0xFF, 0xFF, 0xFF, 0xEF, 0xBE, 0, 0]"

lemma sample_unparse: "concat (map unparse sample_format) = map of_char ''%s=%-5d|%08x''"
  by (simp add: sample_format_def prec_bytes_def dec_def small_digits_def)

lemma sample_strings:
  "zstr sample_fmem 0x1000 (map of_char ''%s=%-5d|%08x'')" "zstr sample_fmem 0x1100 (map of_char ''ab'')"
  by (simp_all add: sample_fmem_def overlay_apply Let_def)

lemma sample_bytes:
  "sample_fmem 0x2000 = 0" "sample_fmem 0x2001 = 0x11" "sample_fmem 0x2002 = 0" "sample_fmem 0x2003 = 0"
  "sample_fmem 0x2004 = 0xD6" "sample_fmem 0x2005 = 0xFF" "sample_fmem 0x2006 = 0xFF" "sample_fmem 0x2007 = 0xFF"
  "sample_fmem 0x2008 = 0xEF" "sample_fmem 0x2009 = 0xBE" "sample_fmem 0x200A = 0" "sample_fmem 0x200B = 0"
  by (simp_all add: sample_fmem_def overlay_apply Let_def)

lemma sample_words:
  "rd32 sample_fmem 0x2000 = 0x1100" "rd32 sample_fmem 0x2004 = - 42" "rd32 sample_fmem 0x2008 = 0xBEEF"
  by (simp_all add: rd32_def rd16_def sample_bytes)

lemma replicate_2: "replicate 2 c = [c, c]" "replicate 4 c = [c, c, c, c]"
  by (simp_all add: numeral_eq_Suc)

lemma sample_digits:
  "base_digits 10 42 = [4, 2]" "base_digits 16 0xBEEF = [11, 14, 14, 15]" "base_digits 10 40 = [4, 0]"
  by (simp_all add: base_digits.simps)

lemma sample_format_text: "format_text sample_format sample_args = Some sample_text"
proof -
  have "directive_text (Conv '''' Absent Absent '''' (CHR ''s'')) sample_args =
      Some (map of_char ''ab'', [Num (- 42), Num 0xBEEF])"
    by (simp add: sample_args_def conv_text_def wide_def qual_byte_def no_qualifier_def string_text_def clip_def
        flags_of_def has_def)
  moreover have "directive_text (Conv ''-'' (Fixed 5) Absent '''' (CHR ''d'')) [Num (- 42), Num 0xBEEF] =
      Some (map of_char ''-42  '', [Num 0xBEEF])"
    by (simp add: conv_text_def number_format_def number_text_def field_text_def sign_text_def prefix_text_def
        magnitude_def digits_text_def sample_digits small_digits_def replicate_2 flags_of_def flag_defs has_def)
  moreover have "directive_text (Conv ''0'' (Fixed 8) Absent '''' (CHR ''x'')) [Num 0xBEEF] =
      Some (map of_char ''0000beef'', [])"
    by (simp add: conv_text_def number_format_def number_text_def field_text_def sign_text_def prefix_text_def
        magnitude_def digits_text_def sample_digits small_digits_def replicate_2 flags_of_def flag_defs has_def)
  ultimately show ?thesis
    by (simp add: sample_format_def sample_text_def del: directive_text.simps(2))
qed

lemma sample_placed:
  assumes "lim \<le> 0x1000"
  shows "zstr sample_fmem 0x1000 (concat (map unparse sample_format))"
    "clear 0x3000 lim 0x1000 (length (concat (map unparse sample_format)) + 1)"
    "args_at sample_fmem 0x3000 lim 0x2000 sample_args" "\<forall>d\<in>set sample_format. wf_directive d"
  unfolding sample_unparse using sample_strings sample_words assms
  by (simp_all add: clear_below sample_args_def str_at_def sample_format_def)

theorem vsnprintf_writes_text_witness:
  "vsnprintf sample_fmem 0x3000 32 0x1000 0x2000 = Some (17, (overlay sample_fmem 0x3000 32 sample_text)(0x3011 := 0))"
  using vsnprintf_writes_text [OF sample_placed(4) [of 32] sample_placed(1) [of 32] sample_placed(2,3) [of 32] sample_format_text, where cnt = 32]
  by (simp add: sample_text_def)

text \<open>A text that is exactly as long as the buffer has its terminator written one byte behind the
  buffer, whatever that byte held.\<close>

theorem snprintf_exact_fit_overflows:
  assumes "\<forall>d\<in>set ds. wf_directive d"
    and "zstr m fmt (concat (map unparse ds))" "clear buf (unat cnt) fmt (length (concat (map unparse ds)) + 1)"
    and "args_at m buf (unat cnt) va args" "format_text ds args = Some t"
    and "buf \<noteq> 0" "unat buf + unat cnt < 2 ^ 32" "length t = unat cnt" "0 < cnt"
  shows "map_option (\<lambda>(n, m'). m' (buf + cnt)) (snprintf m buf cnt fmt va) = Some 0"
proof -
  have l: "unat cnt = min (unat cnt) (2 ^ 32 - unat buf)" using assms(7) by simp
  have "0 < unat cnt" using assms(9) by (simp add: word_less_nat_alt)
  then show ?thesis
    using vsnprintf_text [OF assms(1-6) l] assms(7,8) by (simp add: snprintf_def)
qed

theorem snprintf_exact_fit_overflows_witness:
  "map_option (\<lambda>(n, m'). m' 0x3011) (snprintf sample_fmem 0x3000 17 0x1000 0x2000) = Some 0"
  using snprintf_exact_fit_overflows [OF sample_placed(4,1,2,3) [of "unat (17 :: u32)"] sample_format_text]
  by (simp add: sample_text_def)

text \<open>The decimal number that \<open>number\<close> writes is read back by \<open>skip_atoi\<close>.\<close>

theorem number_skip_atoi_roundtrip:
  assumes "buf \<noteq> 0" "unat buf + 10 \<le> unat e"
    and "number m buf e v 10 (- 1) (- 1) 0 = (m', b')" "\<not> isdigit (m' b')"
  shows "skip_atoi m' buf 0 = Some (v, b')"
proof -
  have len: "length (dec (unat v)) \<le> 10"
    using base_digits_length [of 10 "unat v" 10] unsigned_less [of v, where 'a = nat] by (simp add: dec_def)
  have t: "number_text 0 10 (- 1) (- 1) v = dec (unat v)"
    by (simp add: number_text_def field_text_def sign_text_def prefix_text_def magnitude_def digits_text_def
        dec_def has_def Let_def)
  define lim where "lim = unat e + 1 - unat buf"
  have eb: "unat e < 2 ^ 32" using unsigned_less [of e] by simp
  have "e = buf + of_nat lim - 1"
    using assms(2) by (simp add: lim_def of_nat_diff)
  then have win: "window buf lim e" using assms(1,2) eb by (simp add: window_def lim_def)
  have "number m buf e v 10 (- 1) (- 1) 0 = put e (dec (unat v)) (m, buf)"
    using number_put [of 10 "- 1" "- 1" m buf e v 0] t by simp
  then have "wrote m buf lim (dec (unat v)) (m', b')"
    using put_wrote [OF win wrote_Nil, of "dec (unat v)" m] assms(2,3) eb len by simp
  then have m': "m' = overlay m buf lim (dec (unat v))" and b': "b' = buf + of_nat (length (dec (unat v)))"
    by (simp_all add: wrote_def)
  have "cells m' buf (dec (unat v))"
    using len assms(2) by (auto simp: cells_nth m' overlay_def lim_def)
  then have "cells m' buf (dec (unat v) @ [m' b'])" by (simp add: cells_append b')
  from skip_atoi_dec [OF this assms(4)] show ?thesis by (simp add: b')
qed

theorem number_skip_atoi_roundtrip_witness:
  "skip_atoi (fst (number (\<lambda>_. 0) 0x100 0x110 40 10 (- 1) (- 1) 0)) 0x100 0 = Some (40, 0x102)"
proof -
  have "number (\<lambda>_. 0) 0x100 0x110 40 10 (- 1) (- 1) 0 = put 0x110 [ch (CHR ''4''), ch (CHR ''0'')] (\<lambda>_. 0, 0x100)"
    using number_put [of 10 "- 1" "- 1" "\<lambda>_. 0" "0x100" "0x110" 40 0]
    by (simp add: number_text_def field_text_def sign_text_def prefix_text_def magnitude_def digits_text_def
        has_def Let_def sample_digits small_digits_def)
  then have "number (\<lambda>_. 0) 0x100 0x110 40 10 (- 1) (- 1) 0 = ((\<lambda>_. 0)(0x100 := 0x34, 0x101 := 0x30), 0x102)"
    by (simp add: put_def emit_def)
  from number_skip_atoi_roundtrip [OF _ _ this] show ?thesis
    using \<open>number _ _ _ _ _ _ _ _ = ((\<lambda>_. 0)(_ := _, _ := _), _)\<close> by (simp add: isdigit_def)
qed

end
