(* ===== verification/Io.thy ===== *)
theory Io
  imports Ob RtlStr
begin

text \<open>
  The I/O manager (\<^verbatim>\<open>kernel/io.cpp\<close>, \<^verbatim>\<open>kernel/inc/io.h\<close>): drive letters, device stacks, I/O request
  packets, file objects, volume parameter blocks and the list of file systems, on top of the objects
  and the heap of theory \<open>Ob\<close>. Object bodies keep what delete routines use; the other fields of
  devices, files and drivers are functions of the address of the object. Buffers and status blocks are
  bytes of memory. The routines of drivers are reached through the tables of the driver objects: they
  are the arguments \<open>drv\<close> (handlers) and \<open>entry\<close> (driver entries) of the definitions. The mutexes of this
  file are held only within one operation and taken as uncontended; an event that is pulsed is recorded,
  what it does is in theory \<open>Sched\<close>.
\<close>

subsection \<open>Data\<close>

definition STATUS_INVALID_FUNCTION :: status where "STATUS_INVALID_FUNCTION = 0xF000000E"

definition IRP_CREATE :: u32 where "IRP_CREATE = 0"
definition IRP_READ :: u32 where "IRP_READ = 1"
definition IRP_WRITE :: u32 where "IRP_WRITE = 2"
definition IRP_IOCTL :: u32 where "IRP_IOCTL = 3"
definition IRP_FSCTL :: u32 where "IRP_FSCTL = 4"
definition IRP_CLOSE :: u32 where "IRP_CLOSE = 7"
definition MAX_IRP :: nat where "MAX_IRP = 8"
definition IRP_MN_MOUNT :: u32 where "IRP_MN_MOUNT = 1"
definition IRP_MN_DISMOUNT :: u32 where "IRP_MN_DISMOUNT = 2"

definition IRP_FLAGS_BUFFERED_IO :: u32 where "IRP_FLAGS_BUFFERED_IO = 2"
definition IRP_FLAGS_DEALLOCATE_BUFFER :: u32 where "IRP_FLAGS_DEALLOCATE_BUFFER = 4"
definition IRP_FLAGS_INPUT_OPERATION :: u32 where "IRP_FLAGS_INPUT_OPERATION = 0x10"

lemmas irp_flag_defs = IRP_FLAGS_BUFFERED_IO_def IRP_FLAGS_DEALLOCATE_BUFFER_def IRP_FLAGS_INPUT_OPERATION_def

definition FILE_READ_DATA :: u32 where "FILE_READ_DATA = 8"
definition FILE_WRITE_DATA :: u32 where "FILE_WRITE_DATA = 0x10"
definition FILE_DELETE :: u32 where "FILE_DELETE = 0x20"
definition FILE_READ_THROUGH :: u32 where "FILE_READ_THROUGH = 0x40"
definition FILE_WRITE_THROUGH :: u32 where "FILE_WRITE_THROUGH = 0x80"

definition DEVICE_TYPE_DISK :: u32 where "DEVICE_TYPE_DISK = 2"
definition VPB_MOUNTED :: u16 where "VPB_MOUNTED = 1"
definition sizeof_IRP :: u32 where "sizeof_IRP = 112"
definition sizeof_IRP_STACK_LOCATION :: u32 where "sizeof_IRP_STACK_LOCATION = 32"

text \<open>\<open>LARGE_INTEGER\<close>: the parts are not parts of \<open>QuadPart\<close> but a word of their own.\<close>

record large =
  QuadPart :: "64 word"
  LowPart :: u32

text \<open>\<open>DriverObject\<close> is in the body of the object, \<open>IopInternalLinks\<close> is the list \<open>FileSystems\<close>.\<close>

record device =
  NextDevice :: u32
  AttachedDevice :: u32
  StackSize :: u8
  DeviceType :: u32
  DevVpb :: u32

datatype handler = InvalidDeviceRequest | DriverHandler u32

record driver =
  DrvStart :: u32
  DrvEnd :: u32
  DrvFlags :: u32
  DrvEntry :: u32
  IrpHandlers :: "handler list"

datatype irp_params = NoParams | CreateParams u32 u32 u32 | ReadWriteParams bool large
  | IoCtlParams u32 u32 u32 | MountParams u32

record stack_location =
  SlDevice :: u32
  Parameters :: irp_params

text \<open>A stack location is \<open>None\<close> before it is written: only the first one is cleared.\<close>

record irp =
  IrpSize :: u32
  IrpFlags :: u32
  MajorFunction :: u32
  MinorFunction :: u32
  SystemBuffer :: u32
  UserBuffer :: u32
  BufferLength :: u32
  IoStatus :: status
  Information :: u32
  UserIosb :: u32
  UserMode :: bool
  CallerThread :: u32
  FileObject :: u32
  UserEvent :: u32
  IrpStackSize :: u8
  CurrentLocation :: u8
  CurrentStackLocation :: nat
  IrpStackLocations :: "stack_location option list"

record file_object =
  DesiredAccess :: u32
  ReadAccess :: bool
  WriteAccess :: bool
  DeleteAccess :: bool
  ReadThrough :: bool
  WriteThrough :: bool
  RelativeFileName :: wstr
  CurrentOffset :: large
  FinalStatus :: status

datatype event = AtEvent u32 | FileEvent u32

record io =
  Obm :: ob
  IoDeviceDirectory :: u32
  IoDriverDirectory :: u32
  IoFileSystemDirectory :: u32
  IoDeviceObjectType :: u32
  IoDriverObjectType :: u32
  IoFileObjectType :: u32
  IoVpbObjectType :: u32
  Devices :: "u32 \<Rightarrow> device"
  DriverObjects :: "u32 \<Rightarrow> driver"
  FileObjects :: "u32 \<Rightarrow> file_object"
  VpbFlags :: "u32 \<Rightarrow> u16"
  Irps :: "u32 \<rightharpoonup> irp"
  ThreadIrps :: "u32 \<Rightarrow> u32 list"
  Buffers :: "8 mem"
  MmAllocator :: "nat \<Rightarrow> (u32 \<times> u32) set \<Rightarrow> u32"
  MmAllocs :: nat
  MmBlocks :: "(u32 \<times> u32) set"
  Pulsed :: "(event \<times> u16) list"
  IopMountedDrivesMask :: u32
  IopFileSystemList :: "u32 list"

datatype io_stop = InOb ob_stop | IoBug bugcheck | IoAsserts | IrpGone u32 | NullPointer | BadMmFree u32 | NoHandler u32
  | StackOutside

type_synonym 'a io_result = "io_stop + 'a"

definition IO_INITIALIZATION_FAILED :: u32 where "IO_INITIALIZATION_FAILED = 0xA"
definition IO_MULTIPLE_COMPLETE_REQUESTS :: u32 where "IO_MULTIPLE_COMPLETE_REQUESTS = 0xB"
definition IO_NO_MORE_IRP_STACK_LOCATIONS :: u32 where "IO_NO_MORE_IRP_STACK_LOCATIONS = 0xC"
definition IO_IRP_COMPLETION_WITH_PENDING :: u32 where "IO_IRP_COMPLETION_WITH_PENDING = 0xD"

subsection \<open>Operations of the object manager\<close>

text \<open>An operation on objects, which gives the new objects alone, with a status, or with a status and a pointer.\<close>

definition in_ob :: "(ob \<Rightarrow> ob_stop + ob) \<Rightarrow> io \<Rightarrow> io io_result" where
  "in_ob f s = (case f (Obm s) of Inl e \<Rightarrow> Inl (InOb e) | Inr b \<Rightarrow> Inr (s\<lparr>Obm := b\<rparr>))"

definition in_ob1 :: "(ob \<Rightarrow> ob_stop + ('a \<times> ob)) \<Rightarrow> io \<Rightarrow> ('a \<times> io) io_result" where
  "in_ob1 f s = (case f (Obm s) of Inl e \<Rightarrow> Inl (InOb e) | Inr (x, b) \<Rightarrow> Inr (x, s\<lparr>Obm := b\<rparr>))"

definition in_ob2 :: "(ob \<Rightarrow> ob_stop + ('a \<times> 'b \<times> ob)) \<Rightarrow> io \<Rightarrow> ('a \<times> 'b \<times> io) io_result" where
  "in_ob2 f s = (case f (Obm s) of Inl e \<Rightarrow> Inl (InOb e) | Inr (x, y, b) \<Rightarrow> Inr (x, y, s\<lparr>Obm := b\<rparr>))"

definition io_alloc :: "io \<Rightarrow> u32 \<times> io" where
  "io_alloc s = (let (p, b) = ob_alloc (Obm s) in (p, s\<lparr>Obm := b\<rparr>))"

definition io_free :: "u32 \<Rightarrow> io \<Rightarrow> io io_result" where
  "io_free p = in_ob (ob_free p)"

text \<open>\<open>MmAllocateMemory\<close> and \<open>MmFreeMemory\<close>: whole pages, given back with their size.\<close>

definition mm_alloc :: "u32 \<Rightarrow> io \<Rightarrow> u32 \<times> io" where
  "mm_alloc n s =
     (let p = MmAllocator s (MmAllocs s) (MmBlocks s)
      in (p, s\<lparr>MmAllocs := MmAllocs s + 1, MmBlocks := (if p = 0 then MmBlocks s else insert (p, n) (MmBlocks s))\<rparr>))"

definition mm_free :: "u32 \<Rightarrow> u32 \<Rightarrow> io \<Rightarrow> io io_result" where
  "mm_free p n s = (if (p, n) \<in> MmBlocks s then Inr (s\<lparr>MmBlocks := MmBlocks s - {(p, n)}\<rparr>) else Inl (BadMmFree p))"

subsection \<open>Drive letters\<close>

text \<open>The loop over the letters; the letter is \<open>None\<close> when all are taken.\<close>

fun letter_loop :: "nat \<Rightarrow> nat \<Rightarrow> u32 \<Rightarrow> nat option" where
  "letter_loop i 0 Mask = None"
| "letter_loop i (Suc n) Mask = (if push_bit i 1 AND Mask = 0 then Some i else letter_loop (Suc i) n Mask)"

definition IoAllocateMountDriveLetter :: "io \<Rightarrow> status \<times> u8 option \<times> io" where
  "IoAllocateMountDriveLetter s =
     (case letter_loop 0 26 (IopMountedDrivesMask s) of
        Some i \<Rightarrow> (STATUS_SUCCESS, Some (of_char (CHR ''A'') + of_nat i),
          s\<lparr>IopMountedDrivesMask := IopMountedDrivesMask s OR push_bit i 1\<rparr>)
      | None \<Rightarrow> (STATUS_INSUFFICIENT_RESOURCES, None, s))"

definition IoFreeMountedDriveLetter :: "u8 \<Rightarrow> io \<Rightarrow> io io_result" where
  "IoFreeMountedDriveLetter DriveLetter s =
     (let DriveLetter = UPCASE DriveLetter
      in if sint (of_char (CHR ''A'') :: u8) \<le> sint DriveLetter \<and> sint DriveLetter \<le> sint (of_char (CHR ''Z'') :: u8)
         then Inr (s\<lparr>IopMountedDrivesMask := IopMountedDrivesMask s AND NOT (push_bit (unat (DriveLetter - of_char (CHR ''A''))) 1)\<rparr>)
         else Inl IoAsserts)"

subsection \<open>Device stacks\<close>

definition upd_dev :: "u32 \<Rightarrow> (device \<Rightarrow> device) \<Rightarrow> io \<Rightarrow> io" where
  "upd_dev d f s = s\<lparr>Devices := (Devices s)(d := f (Devices s d))\<rparr>"

definition IoGetNextDevice :: "u32 \<Rightarrow> io \<Rightarrow> u32" where
  "IoGetNextDevice d s = NextDevice (Devices s d)"

partial_function (option) highest :: "io \<Rightarrow> u32 \<Rightarrow> u32 option" where
  "highest s Prev = (if AttachedDevice (Devices s Prev) \<noteq> 0 then highest s (AttachedDevice (Devices s Prev)) else Some Prev)"

definition IoGetAttachedDevice :: "u32 \<Rightarrow> io \<Rightarrow> u32 option" where
  "IoGetAttachedDevice d s =
     (let Prev = AttachedDevice (Devices s d) in if Prev = 0 then Some d else highest s Prev)"

definition IoAttachDevice :: "u32 \<Rightarrow> u32 \<Rightarrow> io \<Rightarrow> io" where
  "IoAttachDevice SourceDevice TargetDevice s =
     (let s1 = upd_dev SourceDevice (\<lambda>d. d\<lparr>NextDevice := TargetDevice\<rparr>) s;
          s2 = upd_dev SourceDevice (\<lambda>d. d\<lparr>StackSize := StackSize (Devices s1 TargetDevice) + 1\<rparr>) s1
      in upd_dev TargetDevice (\<lambda>d. d\<lparr>AttachedDevice := SourceDevice\<rparr>) s2)"

text \<open>The attached device is written to without a check.\<close>

definition IoDetachDevice :: "u32 \<Rightarrow> io \<Rightarrow> io io_result" where
  "IoDetachDevice TargetDevice s =
     (let a = AttachedDevice (Devices s TargetDevice);
          s1 = upd_dev TargetDevice (\<lambda>d. d\<lparr>AttachedDevice := 0\<rparr>) s
      in if a = 0 then Inl NullPointer else Inr (upd_dev a (\<lambda>d. d\<lparr>NextDevice := 0\<rparr>) s1))"

definition IoDeleteDevice :: "wstr \<Rightarrow> io \<Rightarrow> (status \<times> io) io_result" where
  "IoDeleteDevice DeviceName s = in_ob1 (ObDeleteObject DeviceName) s"

subsection \<open>I/O request packets\<close>

definition get_irp :: "u32 \<Rightarrow> io \<Rightarrow> irp io_result" where
  "get_irp p s = (case Irps s p of None \<Rightarrow> Inl (IrpGone p) | Some i \<Rightarrow> Inr i)"

definition put_irp :: "u32 \<Rightarrow> irp \<Rightarrow> io \<Rightarrow> io" where
  "put_irp p i s = s\<lparr>Irps := (Irps s)(p \<mapsto> i)\<rparr>"

definition upd_irp :: "u32 \<Rightarrow> (irp \<Rightarrow> irp) \<Rightarrow> io \<Rightarrow> io io_result" where
  "upd_irp p f s = and_then (get_irp p s) (\<lambda>i. Inr (put_irp p (f i) s))"

text \<open>An IRP is on no list after its allocation; it is put on that of its thread when it is built.\<close>

definition zero_stack :: stack_location where "zero_stack = \<lparr>SlDevice = 0, Parameters = NoParams\<rparr>"

definition zero_irp :: "u8 \<Rightarrow> u32 \<Rightarrow> irp" where
  "zero_irp n sz = \<lparr>IrpSize = sz, IrpFlags = 0, MajorFunction = 0, MinorFunction = 0, SystemBuffer = 0, UserBuffer = 0,
     BufferLength = 0, IoStatus = 0, Information = 0, UserIosb = 0, UserMode = False, CallerThread = 0, FileObject = 0,
     UserEvent = 0, IrpStackSize = n, CurrentLocation = 0, CurrentStackLocation = 0,
     IrpStackLocations = Some zero_stack # replicate (unat n - 1) None\<rparr>"

text \<open>The memory of an IRP is cleared without a check of the allocation.\<close>

definition IoAllocateIrp :: "u8 \<Rightarrow> io \<Rightarrow> (u32 \<times> io) io_result" where
  "IoAllocateIrp n s =
     (let (p, s1) = io_alloc s;
          sz = sizeof_IRP + (ucast n - 1) * sizeof_IRP_STACK_LOCATION
      in if p = 0 then Inl NullPointer else Inr (p, put_irp p (zero_irp n sz) s1))"

definition IopQueueThreadIrp :: "u32 \<Rightarrow> io \<Rightarrow> io io_result" where
  "IopQueueThreadIrp p s = and_then (get_irp p s) (\<lambda>i.
     Inr (s\<lparr>ThreadIrps := (ThreadIrps s)(CallerThread i := ThreadIrps s (CallerThread i) @ [p])\<rparr>))"

definition IopDequeueThreadIrp :: "u32 \<Rightarrow> io \<Rightarrow> io io_result" where
  "IopDequeueThreadIrp p s = and_then (get_irp p s) (\<lambda>i.
     Inr (s\<lparr>ThreadIrps := (ThreadIrps s)(CallerThread i := remove1 p (ThreadIrps s (CallerThread i)))\<rparr>))"

definition free_irp :: "u32 \<Rightarrow> io \<Rightarrow> io io_result" where
  "free_irp p s = and_then (io_free p s) (\<lambda>s1. Inr (s1\<lparr>Irps := (Irps s1)(p := None)\<rparr>))"

definition IoBuildDeviceRequest :: "u32 \<Rightarrow> u32 \<Rightarrow> u32 \<Rightarrow> bool \<Rightarrow> u32 \<Rightarrow> u32 \<Rightarrow> io \<Rightarrow> (u32 \<times> io) io_result" where
  "IoBuildDeviceRequest dev major iosb user Buffer BufferSize s =
     and_then (IoAllocateIrp (StackSize (Devices s dev)) s) (\<lambda>(p, s1).
       let (b, s2) = (if BufferSize < PAGE_SIZE then io_alloc s1 else mm_alloc BufferSize s1)
       in if b = 0 then and_then (free_irp p s2) (\<lambda>s3. Inr (0, s3))
          else and_then (upd_irp p (\<lambda>i. i\<lparr>MajorFunction := major, UserBuffer := Buffer,
                 IrpFlags := IrpFlags i OR (IRP_FLAGS_BUFFERED_IO OR IRP_FLAGS_DEALLOCATE_BUFFER),
                 SystemBuffer := b, BufferLength := BufferSize, UserIosb := iosb, UserMode := user,
                 CallerThread := CurThread (Obm s2), FileObject := 0, CurrentLocation := 0, CurrentStackLocation := 0\<rparr>) s2) (\<lambda>s3.
               and_then (IopQueueThreadIrp p s3) (\<lambda>s4. Inr (p, s4))))"

text \<open>The loop that copies the stack location before to each one that follows.\<close>

definition copy_stack :: "irp \<Rightarrow> irp" where
  "copy_stack i = i\<lparr>IrpStackLocations := replicate (length (IrpStackLocations i)) (IrpStackLocations i ! 0)\<rparr>"

text \<open>Fields of the current stack location.\<close>

definition upd_stack :: "u32 \<Rightarrow> (stack_location \<Rightarrow> stack_location) \<Rightarrow> io \<Rightarrow> io io_result" where
  "upd_stack p f s = and_then (get_irp p s) (\<lambda>i.
     if CurrentStackLocation i < length (IrpStackLocations i)
     then let l = IrpStackLocations i ! CurrentStackLocation i
          in Inr (put_irp p (i\<lparr>IrpStackLocations := (IrpStackLocations i)[CurrentStackLocation i :=
               Some (f (case l of None \<Rightarrow> zero_stack | Some x \<Rightarrow> x))]\<rparr>) s)
     else Inl StackOutside)"

text \<open>The buffer is always from the heap, and it is written to without a check.\<close>

definition IoBuildDeviceIoControlRequest ::
    "u32 \<Rightarrow> u32 \<Rightarrow> bool \<Rightarrow> u32 \<Rightarrow> u32 \<Rightarrow> u32 \<Rightarrow> u32 \<Rightarrow> u32 \<Rightarrow> io \<Rightarrow> (u32 \<times> io) io_result" where
  "IoBuildDeviceIoControlRequest dev iosb user code InputBuffer InputBufferSize OutputBuffer OutputBufferSize s =
     and_then (IoAllocateIrp (StackSize (Devices s dev)) s) (\<lambda>(p, s1).
       let (b, s2) = io_alloc s1
       in if b = 0 \<and> InputBufferSize \<noteq> 0 then Inl NullPointer
          else let s3 = s2\<lparr>Buffers := memmove (Buffers s2) b InputBuffer InputBufferSize\<rparr>
          in and_then (upd_irp p (\<lambda>i. i\<lparr>MajorFunction := IRP_IOCTL, UserBuffer := InputBuffer,
               IrpFlags := IrpFlags i OR (IRP_FLAGS_BUFFERED_IO OR IRP_FLAGS_DEALLOCATE_BUFFER OR IRP_FLAGS_INPUT_OPERATION),
               SystemBuffer := b, BufferLength := InputBufferSize, UserIosb := iosb, UserMode := user,
               CallerThread := CurThread (Obm s3), FileObject := 0, CurrentLocation := 0, CurrentStackLocation := 0\<rparr>) s3) (\<lambda>s4.
             and_then (upd_stack p (\<lambda>l. l\<lparr>Parameters := IoCtlParams code OutputBuffer OutputBufferSize\<rparr>) s4) (\<lambda>s5.
             and_then (upd_irp p copy_stack s5) (\<lambda>s6.
             and_then (IopQueueThreadIrp p s6) (\<lambda>s7. Inr (p, s7))))))"

text \<open>The copy of \<open>n\<close> bytes to a user buffer, and that of a status block.\<close>

definition copy_out :: "u32 \<Rightarrow> u32 \<Rightarrow> u32 \<Rightarrow> io \<Rightarrow> io io_result" where
  "copy_out dst src n s =
     (if n = 0 then Inr s else if dst = 0 \<or> src = 0 then Inl NullPointer
      else Inr (s\<lparr>Buffers := memmove (Buffers s) dst src n\<rparr>))"

definition put_iosb :: "u32 \<Rightarrow> status \<Rightarrow> u32 \<Rightarrow> io \<Rightarrow> io io_result" where
  "put_iosb p st info s =
     (if p = 0 then Inl NullPointer else Inr (s\<lparr>Buffers := wr32 (wr32 (Buffers s) p st) (p + 4) info\<rparr>))"

definition free_buffer :: "irp \<Rightarrow> io \<Rightarrow> io io_result" where
  "free_buffer i s =
     (if IrpFlags i AND IRP_FLAGS_DEALLOCATE_BUFFER = 0 then Inr s
      else if BufferLength i < PAGE_SIZE then io_free (SystemBuffer i) s
      else mm_free (SystemBuffer i) (BufferLength i) s)"

definition pulse :: "event \<Rightarrow> u16 \<Rightarrow> io \<Rightarrow> io" where
  "pulse ev q s = s\<lparr>Pulsed := Pulsed s @ [(ev, q)]\<rparr>"

definition IoCompleteRequest :: "u32 \<Rightarrow> u32 \<Rightarrow> io \<Rightarrow> io io_result" where
  "IoCompleteRequest p QuantumIncrement s =
     and_then (get_irp p s) (\<lambda>i.
     if IrpSize i < sizeof_IRP \<or> IrpStackSize i < CurrentLocation i \<or> unat (IrpStackSize i) < CurrentStackLocation i
     then Inl (IoBug (BugCheck IO_MULTIPLE_COMPLETE_REQUESTS p 1318 0 0))
     else if IoStatus i = STATUS_PENDING then Inl (IoBug (BugCheck IO_IRP_COMPLETION_WITH_PENDING p 1327 0 0))
     else
       let info = (if IrpFlags i AND IRP_FLAGS_INPUT_OPERATION \<noteq> 0 \<and> BufferLength i < Information i
                   then BufferLength i else Information i);
           i = i\<lparr>Information := info\<rparr>;
           q = ucast QuantumIncrement :: u16
       in and_then (if IrpFlags i AND (IRP_FLAGS_BUFFERED_IO OR IRP_FLAGS_INPUT_OPERATION) \<noteq> 0 \<and> SUCCESS (IoStatus i)
                    then copy_out (UserBuffer i) (SystemBuffer i) info s else Inr s) (\<lambda>s1.
          and_then (free_buffer i s1) (\<lambda>s2.
          let i = i\<lparr>IrpFlags := IrpFlags i AND NOT (IRP_FLAGS_BUFFERED_IO OR IRP_FLAGS_DEALLOCATE_BUFFER)\<rparr>;
              s3 = put_irp p i s2
          in and_then (put_iosb (UserIosb i) (IoStatus i) info s3) (\<lambda>s4.
             let f = FileObject i;
                 s5 = (if f \<noteq> 0 then s4\<lparr>FileObjects := (FileObjects s4)(f := (FileObjects s4 f)\<lparr>FinalStatus := IoStatus i\<rparr>)\<rparr> else s4);
                 s6 = (if UserEvent i \<noteq> 0 then pulse (AtEvent (UserEvent i)) q s5 else s5);
                 s7 = (if f \<noteq> 0 then pulse (FileEvent f) q s6 else s6)
             in and_then (IopDequeueThreadIrp p s7) (free_irp p)))))"

definition IopInvalidDeviceRequest :: "u32 \<Rightarrow> u32 \<Rightarrow> io \<Rightarrow> (status \<times> io) io_result" where
  "IopInvalidDeviceRequest dev p s =
     and_then (upd_irp p (\<lambda>i. i\<lparr>IoStatus := STATUS_INVALID_FUNCTION\<rparr>) s) (\<lambda>s1.
     and_then (IoCompleteRequest p 0 s1) (\<lambda>s2. Inr (STATUS_INVALID_FUNCTION, s2)))"

text \<open>A handler of a driver: the device and the IRP, as in \<open>PIRP_HANDLER\<close>; \<open>drv\<close> gives the code at an address.\<close>

type_synonym irp_handler = "u32 \<Rightarrow> u32 \<Rightarrow> io \<Rightarrow> (status \<times> io) io_result"

definition device_driver :: "u32 \<Rightarrow> io \<Rightarrow> u32 io_result" where
  "device_driver dev s = (case Objs (Obm s) dev of
     None \<Rightarrow> Inl (InOb (UseAfterFree dev))
   | Some h \<Rightarrow> (case Body h of DeviceBody d \<Rightarrow> Inr d | _ \<Rightarrow> Inl (InOb (WrongBody dev))))"

definition IoCallDriver :: "(u32 \<Rightarrow> irp_handler) \<Rightarrow> u32 \<Rightarrow> u32 \<Rightarrow> io \<Rightarrow> (status \<times> io) io_result" where
  "IoCallDriver drv dev p s =
     and_then (get_irp p s) (\<lambda>i.
     if IrpStackSize i \<le> CurrentLocation i
     then Inl (IoBug (BugCheck IO_NO_MORE_IRP_STACK_LOCATIONS p dev (ucast (CurrentLocation i)) (ucast (IrpStackSize i))))
     else and_then (device_driver dev s) (\<lambda>d.
       and_then (upd_stack p (\<lambda>l. l\<lparr>SlDevice := dev\<rparr>) s) (\<lambda>s1.
       let hs = IrpHandlers (DriverObjects s1 d)
       in if length hs \<le> unat (MajorFunction i) then Inl (NoHandler (MajorFunction i))
          else case hs ! unat (MajorFunction i) of
            InvalidDeviceRequest \<Rightarrow> IopInvalidDeviceRequest dev p s1
          | DriverHandler a \<Rightarrow> drv a dev p s1)))"

subsection \<open>Files\<close>

definition upd_file :: "u32 \<Rightarrow> (file_object \<Rightarrow> file_object) \<Rightarrow> io \<Rightarrow> io" where
  "upd_file f g s = s\<lparr>FileObjects := (FileObjects s)(f := g (FileObjects s f))\<rparr>"

definition file_device :: "u32 \<Rightarrow> io \<Rightarrow> u32 io_result" where
  "file_device f s = (case Objs (Obm s) f of
     None \<Rightarrow> Inl (InOb (UseAfterFree f))
   | Some h \<Rightarrow> (case Body h of FileBody d _ _ \<Rightarrow> Inr d | _ \<Rightarrow> Inl (InOb (WrongBody f))))"

text \<open>\<open>if (SUCCESS(Status) && !SUCCESS(IoStatus->Status)) Status = IoStatus->Status\<close>\<close>

definition final_status :: "status \<Rightarrow> u32 \<Rightarrow> io \<Rightarrow> status" where
  "final_status Status iosb s =
     (if SUCCESS Status \<and> \<not> SUCCESS (rd32 (Buffers s) iosb) then rd32 (Buffers s) iosb else Status)"

text \<open>
  Reading (\<open>w\<close> is false) and writing from the IRP on: \<open>extra\<close> are the flags; a write copies the user
  buffer to the system buffer.
\<close>

definition io_transfer ::
    "(u32 \<Rightarrow> irp_handler) \<Rightarrow> bool \<Rightarrow> bool \<Rightarrow> u32 \<Rightarrow> u32 \<Rightarrow> u32 \<Rightarrow> large option \<Rightarrow> u32 \<Rightarrow> u32 \<Rightarrow> io \<Rightarrow> (status \<times> io) io_result" where
  "io_transfer drv w user f Buffer Length' FileOffset extra iosb s =
     and_then (file_device f s) (\<lambda>dev.
     and_then (IoBuildDeviceRequest dev (if w then IRP_WRITE else IRP_READ) iosb user Buffer Length' s) (\<lambda>(p, s1).
       if p = 0 then Inr (STATUS_INSUFFICIENT_RESOURCES, s1)
       else and_then (upd_irp p (\<lambda>i. i\<lparr>IrpFlags := IrpFlags i OR extra, FileObject := f\<rparr>) s1) (\<lambda>s2.
         and_then (upd_stack p (\<lambda>l. l\<lparr>SlDevice := dev\<rparr>) s2) (\<lambda>s3.
         and_then (get_irp p s3) (\<lambda>i.
         and_then (if w then copy_out (SystemBuffer i) Buffer Length' s3 else Inr s3) (\<lambda>s4.
         let Offset = (case FileOffset of Some off \<Rightarrow> off | None \<Rightarrow> CurrentOffset (FileObjects s4 f))
         in and_then (upd_stack p (\<lambda>l. l\<lparr>Parameters := ReadWriteParams (FileOffset \<noteq> None) Offset\<rparr>) s4) (\<lambda>s5.
            and_then (upd_irp p copy_stack s5) (\<lambda>s6.
            and_then (IoCallDriver drv dev p s6) (\<lambda>(Status, s7).
            let Status = final_status Status iosb s7
            in Inr (Status,
                 if SUCCESS Status
                 then upd_file f (\<lambda>x. x\<lparr>CurrentOffset := (CurrentOffset x)\<lparr>LowPart := LowPart Offset + rd32 (Buffers s7) (iosb + 4)\<rparr>\<rparr>) s7
                 else s7))))))))))"

definition IoReadFile ::
    "(u32 \<Rightarrow> irp_handler) \<Rightarrow> bool \<Rightarrow> u32 \<Rightarrow> u32 \<Rightarrow> u32 \<Rightarrow> large option \<Rightarrow> u32 \<Rightarrow> u32 \<Rightarrow> io \<Rightarrow> (status \<times> io) io_result" where
  "IoReadFile drv user f Buffer Length' FileOffset flags iosb s =
     (if \<not> ReadAccess (FileObjects s f) then Inr (STATUS_ACCESS_DENIED, s)
      else io_transfer drv False user f Buffer Length' FileOffset (IRP_FLAGS_INPUT_OPERATION OR flags) iosb s)"

definition IoWriteFile ::
    "(u32 \<Rightarrow> irp_handler) \<Rightarrow> bool \<Rightarrow> u32 \<Rightarrow> u32 \<Rightarrow> u32 \<Rightarrow> large option \<Rightarrow> u32 \<Rightarrow> u32 \<Rightarrow> io \<Rightarrow> (status \<times> io) io_result" where
  "IoWriteFile drv user f Buffer Length' FileOffset flags iosb s =
     (if \<not> WriteAccess (FileObjects s f) then Inr (STATUS_ACCESS_DENIED, s)
      else io_transfer drv True user f Buffer Length' FileOffset flags iosb s)"

definition IoDeviceIoControlFile ::
    "(u32 \<Rightarrow> irp_handler) \<Rightarrow> bool \<Rightarrow> u32 \<Rightarrow> u32 \<Rightarrow> u32 \<Rightarrow> u32 \<Rightarrow> u32 \<Rightarrow> u32 \<Rightarrow> u32 \<Rightarrow> io \<Rightarrow> (status \<times> io) io_result" where
  "IoDeviceIoControlFile drv user f code InputBuffer InputBufferLength OutputBuffer OutputBufferLength iosb s =
     and_then (file_device f s) (\<lambda>dev.
     and_then (IoBuildDeviceIoControlRequest dev iosb user code InputBuffer InputBufferLength OutputBuffer OutputBufferLength s) (\<lambda>(p, s1).
     and_then (upd_irp p (\<lambda>i. i\<lparr>FileObject := f\<rparr>) s1) (\<lambda>s2.
     and_then (IoCallDriver drv dev p s2) (\<lambda>(Status, s3). Inr (final_status Status iosb s3, s3)))))"

text \<open>\<open>iosb\<close> is the status block on the stack of \<open>IoCloseFile\<close>. The IRP is not checked.\<close>

definition IoCloseFile :: "(u32 \<Rightarrow> irp_handler) \<Rightarrow> bool \<Rightarrow> u32 \<Rightarrow> u32 \<Rightarrow> io \<Rightarrow> (status \<times> io) io_result" where
  "IoCloseFile drv user iosb f s =
     and_then (file_device f s) (\<lambda>dev.
     and_then (IoBuildDeviceRequest dev IRP_CLOSE iosb user 0 0 s) (\<lambda>(p, s1).
       if p = 0 then Inl NullPointer
       else and_then (upd_irp p (\<lambda>i. i\<lparr>FileObject := f\<rparr>) s1) (\<lambda>s2.
         and_then (file_device f s2) (\<lambda>dev.
         and_then (IoCallDriver drv dev p s2) (\<lambda>(Status, s3).
           if SUCCESS Status then in_ob1 (ObpDeleteObject f) s3 else Inr (Status, s3))))))"

definition zero_large :: large where "zero_large = \<lparr>QuadPart = 0, LowPart = 0\<rparr>"

text \<open>\<open>PACKET\<close> stands for the address of \<open>ParsePacket\<close>, an address of the kernel.\<close>

definition PACKET :: u32 where "PACKET = 0xC0000000"

definition file_body :: "u32 \<Rightarrow> u32 \<Rightarrow> ob_header \<Rightarrow> ob_header" where
  "file_body dev buf h = h\<lparr>Body := FileBody dev buf []\<rparr>"

definition IoCreateFile ::
    "(u32 \<Rightarrow> irp_handler) \<Rightarrow> u32 \<Rightarrow> wstr \<Rightarrow> u32 \<Rightarrow> u32 \<Rightarrow> u32 \<Rightarrow> io \<Rightarrow> (status \<times> u32 \<times> io) io_result option" where
  "IoCreateFile drv access FileName iosb Disposition Options s =
     (case in_ob2 (ObCreateObject (FileBody 0 0 []) (IoFileObjectType s) (Some FileName) OB_OBJECT_OWNER_IO) s of
        Inl e \<Rightarrow> Some (Inl e)
      | Inr (Status, f, s1) \<Rightarrow>
        if \<not> SUCCESS Status then Some (Inr (Status, 0, s1))
        else case in_ob2 (ObReferenceObjectByName FileName (IoDeviceObjectType s1) False PACKET) s1 of
          Inl e \<Rightarrow> Some (Inl e)
        | Inr (Status, this, s2) \<Rightarrow>
          if \<not> SUCCESS Status then Some (and_then (in_ob1 (ObpDeleteObjectInternal f) s2) (\<lambda>(_, s3). Inr (Status, 0, s3)))
          else Option.bind (IoGetAttachedDevice this s2) (\<lambda>dev. Some (
            and_then (in_ob (ObReferenceObject dev) s2) (\<lambda>s3.
            and_then (in_ob (ObDereferenceObject this) s3) (\<lambda>s4.
            and_then (in_ob (upd_obj f (file_body dev 0)) s4) (\<lambda>s5.
            let s6 = upd_file f (\<lambda>_. \<lparr>DesiredAccess = access, ReadAccess = (access AND FILE_READ_DATA \<noteq> 0),
                  WriteAccess = (access AND FILE_WRITE_DATA \<noteq> 0), DeleteAccess = (access AND FILE_DELETE \<noteq> 0),
                  ReadThrough = (access AND FILE_READ_THROUGH \<noteq> 0), WriteThrough = (access AND FILE_WRITE_THROUGH \<noteq> 0),
                  RelativeFileName = [], CurrentOffset = zero_large, FinalStatus = STATUS_SUCCESS\<rparr>) s5
            in and_then (IoBuildDeviceRequest dev IRP_CREATE iosb False 0 0 s6) (\<lambda>(p, s7).
              if p = 0 then
                and_then (in_ob1 (ObpDeleteObjectInternal f) s7) (\<lambda>(_, s8).
                and_then (in_ob (ObDereferenceObject dev) s8) (\<lambda>s9. Inr (STATUS_INSUFFICIENT_RESOURCES, 0, s9)))
              else
                and_then (upd_irp p (\<lambda>i. i\<lparr>FileObject := f\<rparr>) s7) (\<lambda>s8.
                and_then (upd_stack p (\<lambda>l. l\<lparr>SlDevice := dev, Parameters := CreateParams access Disposition Options\<rparr>) s8) (\<lambda>s9.
                let (rest, buf) = ParsePacket (Obm s9)
                in and_then (in_ob (upd_obj f (file_body dev buf)) s9) (\<lambda>s10.
                   let s11 = upd_file f (\<lambda>x. x\<lparr>RelativeFileName := rest\<rparr>) s10
                   in and_then (upd_irp p copy_stack s11) (\<lambda>s12.
                      and_then (IoCallDriver drv dev p s12) (\<lambda>(Status, s13).
                      let Status = final_status Status iosb s13
                      in if \<not> SUCCESS Status then
                           and_then (in_ob1 (ObpDeleteObjectInternal f) s13) (\<lambda>(_, s14).
                           and_then (in_ob (ObDereferenceObject dev) s14) (\<lambda>s15. Inr (Status, 0, s15)))
                         else Inr (STATUS_SUCCESS, f, s13)))))))))))))"

subsection \<open>Devices and drivers\<close>

definition zero_device :: device where
  "zero_device = \<lparr>NextDevice = 0, AttachedDevice = 0, StackSize = 0, DeviceType = 0, DevVpb = 0\<rparr>"

text \<open>An error path: the object whose creation failed half way is deleted, the status returned.\<close>

definition undo_create :: "u32 \<Rightarrow> status \<Rightarrow> io \<Rightarrow> (status \<times> u32 \<times> io) io_result" where
  "undo_create p Status s = and_then (in_ob1 (ObpDeleteObjectInternal p) s) (\<lambda>(_, s1). Inr (Status, 0, s1))"

definition IopCreateVpb :: "u32 \<Rightarrow> io \<Rightarrow> (status \<times> io) io_result" where
  "IopCreateVpb dev s =
     and_then (in_ob2 (ObCreateObject (VpbBody 0 0) (IoVpbObjectType s) None OB_OBJECT_OWNER_IO) s) (\<lambda>(Status, v, s1).
       if \<not> SUCCESS Status then Inr (Status, s1)
       else and_then (in_ob (upd_obj v (\<lambda>h. h\<lparr>Body := VpbBody dev 0\<rparr>)) (s1\<lparr>VpbFlags := (VpbFlags s1)(v := 0)\<rparr>)) (\<lambda>s2.
         Inr (STATUS_SUCCESS, upd_dev dev (\<lambda>d. d\<lparr>DevVpb := v\<rparr>) s2)))"

definition IoCreateDevice :: "u32 \<Rightarrow> wstr option \<Rightarrow> u32 \<Rightarrow> io \<Rightarrow> (status \<times> u32 \<times> io) io_result" where
  "IoCreateDevice drvobj DeviceName ty s =
     and_then (in_ob2 (ObCreateObject (DeviceBody 0) (IoDeviceObjectType s) (map_option (snd \<circ> split_name) DeviceName) OB_OBJECT_OWNER_IO) s)
       (\<lambda>(Status, d, s1).
       if \<not> SUCCESS Status then Inr (Status, 0, s1)
       else
         let s1 = s1\<lparr>Devices := (Devices s1)(d := zero_device)\<rparr>
         in and_then
          (case DeviceName of
             None \<Rightarrow> Inr (Status, s1)
           | Some n \<Rightarrow>
               and_then (in_ob2 (ref_directory (fst (split_name n))) s1) (\<lambda>(Status, dir, s2).
                 if \<not> SUCCESS Status then Inr (Status, s2)
                 else and_then (in_ob1 (ObInsertObject dir d) s2) (\<lambda>(Status, s3).
                   and_then (in_ob (ObDereferenceObject dir) s3) (\<lambda>s4. Inr (Status, s4)))))
          (\<lambda>(Status, s5).
            if \<not> SUCCESS Status then undo_create d Status s5
            else
              and_then (in_ob (upd_obj d (\<lambda>h. h\<lparr>Body := DeviceBody drvobj\<rparr>)) s5) (\<lambda>s6.
              let s7 = upd_dev d (\<lambda>x. x\<lparr>DeviceType := ty, StackSize := 1\<rparr>) s6
              in and_then (if ty = DEVICE_TYPE_DISK then IopCreateVpb d s7 else Inr (Status, s7)) (\<lambda>(Status, s8).
                if \<not> SUCCESS Status then undo_create d Status s8
                else and_then (in_ob (ObReferenceObject drvobj) s8) (\<lambda>s9. Inr (Status, d, s9))))))"

definition IopCreateDriverObject ::
    "(u32 \<Rightarrow> u32 \<Rightarrow> io \<Rightarrow> (status \<times> io) io_result) \<Rightarrow> u32 \<Rightarrow> u32 \<Rightarrow> u32 \<Rightarrow> u32 \<Rightarrow> wstr \<Rightarrow> io \<Rightarrow> (status \<times> u32 \<times> io) io_result" where
  "IopCreateDriverObject entry Start End flags DriverEntry DriverName s =
     (case split_name DriverName of
        (None, _) \<Rightarrow> Inr (STATUS_INVALID_PARAMETER, 0, s)
      | (Some _, rel) \<Rightarrow>
          and_then (in_ob2 (ObCreateObject OtherBody (IoDriverObjectType s) (Some rel) OB_OBJECT_OWNER_IO) s) (\<lambda>(Status, d, s1).
            if \<not> SUCCESS Status then Inr (Status, 0, s1)
            else
              let s2 = s1\<lparr>DriverObjects := (DriverObjects s1)(d := \<lparr>DrvStart = Start, DrvEnd = End, DrvFlags = flags,
                    DrvEntry = DriverEntry, IrpHandlers = replicate MAX_IRP InvalidDeviceRequest\<rparr>)\<rparr>
              in and_then (in_ob1 (ObInsertObject (IoDriverDirectory s2) d) s2) (\<lambda>(Status, s3).
                 if \<not> SUCCESS Status then and_then (undo_create d Status s3) (\<lambda>(Status, _, s4). Inr (Status, d, s4))
                 else and_then (entry DriverEntry d s3) (\<lambda>(Status, s4).
                   if \<not> SUCCESS Status then and_then (undo_create d Status s4) (\<lambda>(Status, _, s5). Inr (Status, d, s5))
                   else Inr (STATUS_SUCCESS, d, s4)))))"

subsection \<open>Volumes\<close>

definition set_vpb_fs :: "u32 \<Rightarrow> u32 \<Rightarrow> io \<Rightarrow> io io_result" where
  "set_vpb_fs v fs s =
     (case Objs (Obm s) v of
        None \<Rightarrow> Inl (InOb (UseAfterFree v))
      | Some h \<Rightarrow> (case Body h of
          VpbBody phys _ \<Rightarrow> in_ob (upd_obj v (\<lambda>h. h\<lparr>Body := VpbBody phys fs\<rparr>)) s
        | _ \<Rightarrow> Inl (InOb (WrongBody v))))"

definition IoMountVolume :: "u32 \<Rightarrow> u32 \<Rightarrow> io \<Rightarrow> (status \<times> io) io_result" where
  "IoMountVolume RealDevice FsDevice s =
     (let v = DevVpb (Devices s RealDevice)
      in if v = 0 then Inr (STATUS_INVALID_PARAMETER, s)
         else and_then (set_vpb_fs v FsDevice s) (\<lambda>s1.
           let s2 = upd_dev FsDevice (\<lambda>d. d\<lparr>DevVpb := v\<rparr>) s1
           in Inr (STATUS_SUCCESS, s2\<lparr>VpbFlags := (VpbFlags s2)(v := VpbFlags s2 v OR VPB_MOUNTED)\<rparr>)))"

definition IoDismountVolume :: "u32 \<Rightarrow> io \<Rightarrow> (status \<times> io) io_result" where
  "IoDismountVolume RealDevice s =
     (let v = DevVpb (Devices s RealDevice)
      in if v = 0 then Inr (STATUS_INVALID_PARAMETER, s)
         else and_then (set_vpb_fs v 0 s) (\<lambda>s1.
           Inr (STATUS_SUCCESS, s1\<lparr>VpbFlags := (VpbFlags s1)(v := VpbFlags s1 v AND NOT VPB_MOUNTED)\<rparr>)))"

definition mount_params :: "u32 \<Rightarrow> irp \<Rightarrow> irp" where
  "mount_params RealDevice i =
     (let n = unat (IrpStackSize i);
          set' = (\<lambda>l. Some ((case l of None \<Rightarrow> zero_stack | Some x \<Rightarrow> x)\<lparr>Parameters := MountParams RealDevice\<rparr>))
      in i\<lparr>IrpStackLocations := map set' (take n (IrpStackLocations i)) @ drop n (IrpStackLocations i)\<rparr>)"

definition fs_request ::
    "(u32 \<Rightarrow> irp_handler) \<Rightarrow> u32 \<Rightarrow> u32 \<Rightarrow> u32 \<Rightarrow> u32 \<Rightarrow> io \<Rightarrow> (status \<times> io) io_result" where
  "fs_request drv minor iosb RealDevice FsDevice s =
     and_then (IoBuildDeviceRequest FsDevice IRP_FSCTL iosb False 0 0 s) (\<lambda>(p, s1).
       if p = 0 then Inr (STATUS_INSUFFICIENT_RESOURCES, s1)
       else and_then (upd_irp p (\<lambda>i. mount_params RealDevice (i\<lparr>MinorFunction := minor\<rparr>)) s1) (IoCallDriver drv FsDevice p))"

definition IoRequestMount :: "(u32 \<Rightarrow> irp_handler) \<Rightarrow> u32 \<Rightarrow> u32 \<Rightarrow> u32 \<Rightarrow> io \<Rightarrow> (status \<times> io) io_result" where
  "IoRequestMount drv = fs_request drv IRP_MN_MOUNT"

definition IoRequestDismount :: "(u32 \<Rightarrow> irp_handler) \<Rightarrow> u32 \<Rightarrow> u32 \<Rightarrow> u32 \<Rightarrow> io \<Rightarrow> (status \<times> io) io_result" where
  "IoRequestDismount drv = fs_request drv IRP_MN_DISMOUNT"

definition IoRegisterFileSystem :: "u32 \<Rightarrow> io \<Rightarrow> io io_result" where
  "IoRegisterFileSystem dev s =
     in_ob (ObReferenceObject dev) (s\<lparr>IopFileSystemList := IopFileSystemList s @ [dev]\<rparr>)"

definition IoUnregisterFileSystem :: "u32 \<Rightarrow> io \<Rightarrow> io io_result" where
  "IoUnregisterFileSystem dev s =
     in_ob (ObDereferenceObject dev) (s\<lparr>IopFileSystemList := remove1 dev (IopFileSystemList s)\<rparr>)"

subsection \<open>Initialisation\<close>

definition wname :: "string \<Rightarrow> wstr" where "wname = map (of_nat \<circ> of_char)"

text \<open>The check after each step, with the number of its source line.\<close>

definition io_check :: "u32 \<Rightarrow> (status \<times> u32 \<times> io) io_result \<Rightarrow> (u32 \<times> io) io_result" where
  "io_check line r = and_then r (\<lambda>(Status, p, s).
     if SUCCESS Status then Inr (p, s) else Inl (IoBug (BugCheck IO_INITIALIZATION_FAILED line Status 0 0)))"

definition IoInitSystem ::
    "(u32 \<Rightarrow> u32 \<Rightarrow> io \<Rightarrow> (status \<times> io) io_result) \<Rightarrow> u32 \<Rightarrow> u32 \<Rightarrow> io \<Rightarrow> io io_result" where
  "IoInitSystem entry FdDriverEntry FsFatDriverEntry s =
     and_then (io_check 210 (in_ob2 (ObCreateDirectory (Some (wname ''Device'')) OB_OBJECT_OWNER_IO 0) s)) (\<lambda>(d, s).
     and_then (io_check 226 (in_ob2 (ObCreateDirectory (Some (wname ''Driver'')) OB_OBJECT_OWNER_IO 0) (s\<lparr>IoDeviceDirectory := d\<rparr>))) (\<lambda>(d, s).
     and_then (io_check 242 (in_ob2 (ObCreateDirectory (Some (wname ''FileSystem'')) OB_OBJECT_OWNER_IO 0) (s\<lparr>IoDriverDirectory := d\<rparr>))) (\<lambda>(d, s).
     and_then (io_check 268 (in_ob2 (ObCreateObjectType (Some ParseDevice) (Some DeleteDevice) OB_OBJECT_OWNER_IO) (s\<lparr>IoFileSystemDirectory := d\<rparr>))) (\<lambda>(t, s).
     and_then (io_check 294 (in_ob2 (ObCreateObjectType None None OB_OBJECT_OWNER_IO) (s\<lparr>IoDeviceObjectType := t\<rparr>))) (\<lambda>(t, s).
     and_then (io_check 320 (in_ob2 (ObCreateObjectType None (Some DeleteFile) OB_OBJECT_OWNER_IO) (s\<lparr>IoDriverObjectType := t\<rparr>))) (\<lambda>(t, s).
     and_then (io_check 346 (in_ob2 (ObCreateObjectType None (Some DeleteVpb) OB_OBJECT_OWNER_IO) (s\<lparr>IoFileObjectType := t\<rparr>))) (\<lambda>(t, s).
     and_then (io_check 367 (IopCreateDriverObject entry 0 0 3 FdDriverEntry (wname (CHR 0x5C # ''Driver'' @ CHR 0x5C # ''floppy'')) (s\<lparr>IoVpbObjectType := t\<rparr>))) (\<lambda>(_, s).
     and_then (io_check 402 (IopCreateDriverObject entry 0 0 3 FsFatDriverEntry (wname (CHR 0x5C # ''FileSystem'' @ CHR 0x5C # ''fat'')) (s\<lparr>IopFileSystemList := []\<rparr>))) (\<lambda>(_, s).
       Inr s)))))))))"

end
