(* ===== verification/IoProps.thy ===== *)
theory IoProps
  imports Io ObHandles
begin

text \<open>
  Properties of the I/O manager: drive letters are a \<open>resource_pool\<close>, device stacks are lists, every
  request that is built and completed gives back what it took, and what reads, failed creations and
  device controls do.
\<close>

subsection \<open>Drive letters\<close>

lemma bit_test: "2 ^ i AND (M :: u32) = 0 \<longleftrightarrow> \<not> bit M i"
  by (simp add: and_exp_eq_0_iff_not_bit and.commute [of "2 ^ i"])

lemma letter_loop_spec:
  "letter_loop i n M = Some j \<Longrightarrow> i + n \<le> 32 \<Longrightarrow> i \<le> j \<and> j < i + n \<and> \<not> bit M j"
proof (induction n arbitrary: i)
  case (Suc n)
  then show ?case by (cases "bit M i") (fastforce simp: bit_test)+
qed simp

lemma letter_loop_None: "letter_loop i n M = None \<Longrightarrow> i + n \<le> 32 \<Longrightarrow> i \<le> j \<Longrightarrow> j < i + n \<Longrightarrow> bit M j"
proof (induction n arbitrary: i)
  case (Suc n)
  show ?case
  proof (cases "j = i")
    case False
    then show ?thesis using Suc.IH [of "Suc i"] Suc.prems by (auto split: if_splits)
  qed (use Suc.prems in \<open>auto simp: bit_test split: if_splits\<close>)
qed simp

definition letter_take :: "unit \<Rightarrow> io \<Rightarrow> (u8 \<times> io) option" where
  "letter_take q s = (case IoAllocateMountDriveLetter s of
     (Status, Some l, s') \<Rightarrow> if SUCCESS Status then Some (l, s') else None | _ \<Rightarrow> None)"

definition letter_give :: "u8 \<Rightarrow> io \<Rightarrow> io option" where
  "letter_give l s = (case IoFreeMountedDriveLetter l s of Inr s' \<Rightarrow> Some s' | Inl e \<Rightarrow> None)"

definition letter_res :: "u8 \<Rightarrow> nat set" where
  "letter_res l = {unat (l - of_char (CHR ''A''))}"

definition letter_ok :: "u8 \<Rightarrow> bool" where
  "letter_ok l \<longleftrightarrow> of_char (CHR ''A'') \<le> l \<and> l \<le> of_char (CHR ''Z'')"

definition letters_taken :: "io \<Rightarrow> nat set" where
  "letters_taken s = {i. bit (IopMountedDrivesMask s) i}"

lemma letter_index:
  assumes "i < 26"
  shows "letter_ok (of_char (CHR ''A'') + of_nat i)" "letter_res (of_char (CHR ''A'') + of_nat i) = {i}"
proof -
  have u: "unat (of_nat i :: u8) = i" using assms by (simp add: unat_of_nat)
  then have "unat (of_char (CHR ''A'') + of_nat i :: u8) = 65 + i"
    using assms by (simp add: unat_word_ariths(1))
  then show "letter_ok (of_char (CHR ''A'') + of_nat i)" using assms by (simp add: letter_ok_def word_le_nat_alt)
  show "letter_res (of_char (CHR ''A'') + of_nat i) = {i}" using u by (simp add: letter_res_def)
qed

lemma letter_upcase:
  assumes "letter_ok l"
  shows "UPCASE l = l" "sint (of_char (CHR ''A'') :: u8) \<le> sint l" "sint l \<le> sint (of_char (CHR ''Z'') :: u8)"
    "unat (l - of_char (CHR ''A'')) < 26"
proof -
  have l: "65 \<le> unat l" "unat l \<le> 90" using assms by (simp_all add: letter_ok_def word_le_nat_alt)
  have s: "sint l = int (unat l)"
  proof -
    have "sint (of_nat (unat l) :: u8) = signed_take_bit 7 (int (unat l))" by (simp only: signed_of_nat) simp
    also have "\<dots> = int (unat l)"
    proof -
      have "- 128 \<le> int (unat l)" "int (unat l) < 128" using l by linarith+
      then show ?thesis by (intro signed_take_bit_int_eq_self) simp_all
    qed
    finally show ?thesis by simp
  qed
  show "UPCASE l = l" using l by (simp add: UPCASE_def word_le_nat_alt)
  show "sint (of_char (CHR ''A'') :: u8) \<le> sint l" "sint l \<le> sint (of_char (CHR ''Z'') :: u8)"
  proof -
    have "65 \<le> sint l" "sint l \<le> 90" using l unfolding s by linarith+
    then show "sint (of_char (CHR ''A'') :: u8) \<le> sint l" "sint l \<le> sint (of_char (CHR ''Z'') :: u8)" by simp_all
  qed
  show "unat (l - of_char (CHR ''A'')) < 26" using l by (simp add: unat_sub word_le_nat_alt)
qed

interpretation letters: resource_pool "\<lambda>_. True" letter_ok letter_res letters_taken letter_take letter_give
proof
  fix s q g s' assume t: "letter_take q s = Some (g, s')"
  obtain i where i: "letter_loop 0 26 (IopMountedDrivesMask s) = Some i"
    using t by (auto simp: letter_take_def IoAllocateMountDriveLetter_def split: option.splits)
  have ib: "i < 26" "\<not> bit (IopMountedDrivesMask s) i" using letter_loop_spec [OF i] by simp_all
  have g: "g = of_char (CHR ''A'') + of_nat i" "IopMountedDrivesMask s' = IopMountedDrivesMask s OR push_bit i 1"
    using t i by (auto simp: letter_take_def IoAllocateMountDriveLetter_def)
  have "letters_taken s' = insert i (letters_taken s)"
    using ib by (auto simp: letters_taken_def g(2) bit_simps)
  then show "True \<and> letter_ok g \<and> letter_res g \<inter> letters_taken s = {} \<and> letters_taken s' = letters_taken s \<union> letter_res g"
    using letter_index [OF ib(1)] ib(2) unfolding g(1) by (auto simp: letters_taken_def)
next
  fix s g assume ok: "letter_ok g" and r: "letter_res g \<subseteq> letters_taken s"
  let ?i = "unat (g - of_char (CHR ''A''))"
  let ?s = "s\<lparr>IopMountedDrivesMask := IopMountedDrivesMask s AND NOT (push_bit ?i 1)\<rparr>"
  have "letter_give g s = Some ?s"
    using letter_upcase [OF ok] by (simp add: letter_give_def IoFreeMountedDriveLetter_def)
  moreover have "letters_taken ?s = letters_taken s - letter_res g"
    using letter_upcase(4) [OF ok] by (auto simp: letters_taken_def letter_res_def bit_simps bit_u32_lt)
  ultimately show "\<exists>s'. letter_give g s = Some s' \<and> True \<and> letters_taken s' = letters_taken s - letter_res g" by simp
qed

text \<open>C15: In every history of allocations and releases of drive letters the letters in use are different
  letters from A to Z, and an allocation fails only when all 26 are taken.\<close>

theorem drive_letters_unique:
  assumes "pool_run letter_take letter_give s0 held s"
  shows "distinct held \<and> (\<forall>l\<in>set held. letter_ok l) \<and>
    (\<not> SUCCESS (fst (IoAllocateMountDriveLetter s)) \<longrightarrow> {0..<26} \<subseteq> letters_taken s0 \<union> \<Union> (letter_res ` set held))"
proof -
  have inv: "\<forall>g\<in>set held. letter_ok g" "disjoint_list (map letter_res held)"
    "letters_taken s = letters_taken s0 \<union> \<Union> (letter_res ` set held)"
    using letters.run_invariant [OF assms] by auto
  have "distinct xs" if "disjoint_list (map letter_res xs)" for xs
    using that by (induction xs) (auto simp: letter_res_def)
  moreover have "{0..<26} \<subseteq> letters_taken s" if f: "\<not> SUCCESS (fst (IoAllocateMountDriveLetter s))"
  proof -
    have "letter_loop 0 26 (IopMountedDrivesMask s) = None"
      using f by (auto simp: IoAllocateMountDriveLetter_def split: option.splits)
    then show ?thesis using letter_loop_None [of 0 26] by (auto simp: letters_taken_def)
  qed
  ultimately show ?thesis using inv by simp
qed

subsection \<open>Device stacks\<close>

text \<open>Devices that are linked to each other, from the one above \<open>prev\<close> to the one below \<open>nxt\<close>.\<close>

fun linked :: "io \<Rightarrow> u32 \<Rightarrow> u32 list \<Rightarrow> u32 \<Rightarrow> bool" where
  "linked s prev [] nxt \<longleftrightarrow> True"
| "linked s prev (d # ds) nxt \<longleftrightarrow> d \<noteq> 0 \<and> NextDevice (Devices s d) = prev \<and>
     AttachedDevice (Devices s d) = (case ds of [] \<Rightarrow> nxt | e # _ \<Rightarrow> e) \<and> linked s d ds nxt"

text \<open>A device stack as the list of its devices, the lowest first.\<close>

definition dev_stack :: "io \<Rightarrow> u32 list \<Rightarrow> bool" where
  "dev_stack s ds \<longleftrightarrow> ds \<noteq> [] \<and> distinct ds \<and> linked s 0 ds 0"

lemma linked_frame: "(\<And>d. d \<in> set ds \<Longrightarrow> Devices s' d = Devices s d) \<Longrightarrow> linked s' prev ds nxt = linked s prev ds nxt"
  by (induction ds arbitrary: prev) auto

lemma linked_snoc:
  "linked s prev (ds @ [x]) nxt \<longleftrightarrow> linked s prev ds x \<and> x \<noteq> 0 \<and>
     NextDevice (Devices s x) = last (prev # ds) \<and> AttachedDevice (Devices s x) = nxt"
  by (induction ds arbitrary: prev) (auto split: list.split)

lemma highest_linked: "linked s prev (d # ds) 0 \<Longrightarrow> highest s d = Some (last (d # ds))"
proof (induction ds arbitrary: prev d)
  case (Cons e es)
  then have "AttachedDevice (Devices s d) = e" "e \<noteq> 0" "highest s e = Some (last (e # es))" by auto
  then show ?case by (subst highest.simps) simp
qed (subst highest.simps, simp)

lemma linked_suffix: "linked s prev ds nxt \<Longrightarrow> d \<in> set ds \<Longrightarrow> \<exists>prev' es. linked s prev' (d # es) nxt \<and> last (d # es) = last ds"
proof (induction ds arbitrary: prev)
  case (Cons x xs)
  show ?case
  proof (cases "d = x")
    case False
    then obtain prev' es where "linked s prev' (d # es) nxt \<and> last (d # es) = last xs"
      using Cons.IH [of x] Cons.prems by auto
    then show ?thesis using False Cons.prems(2) by (auto intro!: exI [of _ prev'] exI [of _ es])
  qed (use Cons.prems in blast)
qed simp

lemma attached_top:
  assumes "dev_stack s ds" "d \<in> set ds"
  shows "IoGetAttachedDevice d s = Some (last ds)"
proof -
  obtain prev es where l: "linked s prev (d # es) 0" and last: "last (d # es) = last ds"
    using linked_suffix assms unfolding dev_stack_def by blast
  show ?thesis
  proof (cases es)
    case Nil
    then show ?thesis using l last by (simp add: IoGetAttachedDevice_def)
  next
    case (Cons e es')
    then show ?thesis
      using l last highest_linked [of s d e es'] by (auto simp: IoGetAttachedDevice_def Let_def)
  qed
qed

lemma attach_stack:
  assumes "dev_stack s (ds @ [d])" "x \<noteq> 0" "x \<notin> set (ds @ [d])" "AttachedDevice (Devices s x) = 0"
  shows "dev_stack (IoAttachDevice x d s) (ds @ [d, x])"
proof -
  have l: "linked s 0 ds d" "d \<noteq> 0" "NextDevice (Devices s d) = last (0 # ds)" "distinct ds" "d \<notin> set ds"
    using assms(1) by (auto simp: dev_stack_def linked_snoc)
  have "linked (IoAttachDevice x d s) 0 ds d"
    using l assms(3) by (subst linked_frame [of _ _ s]) (auto simp: IoAttachDevice_def Let_def upd_dev_def)
  then have "linked (IoAttachDevice x d s) 0 ((ds @ [d]) @ [x]) 0"
    unfolding linked_snoc using l assms(2-4) by (auto simp: IoAttachDevice_def Let_def upd_dev_def)
  then show ?thesis using l assms(2,3) by (auto simp: dev_stack_def)
qed

lemma detach_stack:
  assumes "dev_stack s (ds @ [d, x])"
  shows "\<exists>s'. IoDetachDevice d s = Inr s' \<and> dev_stack s' (ds @ [d]) \<and> dev_stack s' [x]"
proof -
  have "linked s 0 ((ds @ [d]) @ [x]) 0" using assms by (simp add: dev_stack_def)
  then have l: "linked s 0 ds d" "d \<noteq> 0" "NextDevice (Devices s d) = last (0 # ds)" "AttachedDevice (Devices s d) = x"
    "x \<noteq> 0" "AttachedDevice (Devices s x) = 0" unfolding linked_snoc by auto
  have di: "distinct ds" "d \<notin> set ds" "x \<notin> set ds" "x \<noteq> d" using assms by (auto simp: dev_stack_def)
  obtain s' where s': "IoDetachDevice d s = Inr s'"
    and dev: "Devices s' = (Devices s)(d := (Devices s d)\<lparr>AttachedDevice := 0\<rparr>, x := (Devices s x)\<lparr>NextDevice := 0\<rparr>)"
    using l di by (simp add: IoDetachDevice_def Let_def upd_dev_def)
  have "linked s' 0 ds d" using l(1) di by (subst linked_frame [of _ _ s]) (auto simp: dev)
  then have "linked s' 0 (ds @ [d]) 0" unfolding linked_snoc using l di by (simp add: dev)
  moreover have "linked s' 0 [x] 0" using l di by (simp add: dev)
  ultimately show ?thesis using s' di by (simp add: dev_stack_def)
qed

text \<open>C16: A device stack behaves like a list: the device that \<open>IoGetAttachedDevice\<close> gives for any
  device of a stack is its last, attaching a device to the last one puts it behind it, and detaching
  takes it off again and leaves the stack as it was.\<close>

theorem device_stack_is_list:
  assumes "dev_stack s (ds @ [d])" "x \<noteq> 0" "x \<notin> set (ds @ [d])" "AttachedDevice (Devices s x) = 0"
  shows "dev_stack (IoAttachDevice x d s) (ds @ [d, x]) \<and>
    (\<forall>y\<in>set (ds @ [d, x]). IoGetAttachedDevice y (IoAttachDevice x d s) = Some x) \<and>
    (\<exists>s'. IoDetachDevice d (IoAttachDevice x d s) = Inr s' \<and> dev_stack s' (ds @ [d]) \<and>
      (\<forall>y\<in>set (ds @ [d]). IoGetAttachedDevice y s' = Some d))"
proof -
  have a: "dev_stack (IoAttachDevice x d s) (ds @ [d, x])" by (rule attach_stack [OF assms])
  from detach_stack [OF this] obtain s' where s': "IoDetachDevice d (IoAttachDevice x d s) = Inr s'" "dev_stack s' (ds @ [d])"
    by blast
  have "\<forall>y\<in>set (ds @ [d, x]). IoGetAttachedDevice y (IoAttachDevice x d s) = Some x"
    using attached_top [OF a] by simp
  moreover have "\<forall>y\<in>set (ds @ [d]). IoGetAttachedDevice y s' = Some d"
    using attached_top [OF s'(2)] by simp
  ultimately show ?thesis using a s' by blast
qed

text \<open>A state with no devices, drivers or files; the witnesses below start from it.\<close>

definition no_device :: device where
  "no_device = \<lparr>NextDevice = 0, AttachedDevice = 0, StackSize = 1, DeviceType = 0, DevVpb = 0\<rparr>"

definition sample_io :: io where
  "sample_io = \<lparr>Obm = sample_ob, IoDeviceDirectory = 0, IoDriverDirectory = 0, IoFileSystemDirectory = 0,
     IoDeviceObjectType = 0, IoDriverObjectType = 0, IoFileObjectType = 0, IoVpbObjectType = 0,
     Devices = (\<lambda>_. no_device), DriverObjects = (\<lambda>_. \<lparr>DrvStart = 0, DrvEnd = 0, DrvFlags = 0, DrvEntry = 0, IrpHandlers = []\<rparr>),
     FileObjects = (\<lambda>_. \<lparr>DesiredAccess = 0, ReadAccess = True, WriteAccess = True, DeleteAccess = False, ReadThrough = False,
        WriteThrough = False, RelativeFileName = [], CurrentOffset = zero_large, FinalStatus = 0\<rparr>),
     VpbFlags = (\<lambda>_. 0), Irps = (\<lambda>_. None), ThreadIrps = (\<lambda>_. []), Buffers = (\<lambda>_. 0),
     MmAllocator = (\<lambda>_ _. 0), MmAllocs = 0, MmBlocks = {}, Pulsed = [], IopMountedDrivesMask = 0, IopFileSystemList = []\<rparr>"

theorem drive_letters_unique_witness:
  "\<exists>s. pool_run letter_take letter_give sample_io [of_char (CHR ''A'')] s \<and> distinct [of_char (CHR ''A'') :: u8]"
proof -
  let ?s = "sample_io\<lparr>IopMountedDrivesMask := 1\<rparr>"
  have "letter_take () sample_io = Some (of_char (CHR ''A''), ?s)"
    by (simp add: letter_take_def IoAllocateMountDriveLetter_def sample_io_def numeral_eq_Suc)
  then have r: "pool_run letter_take letter_give sample_io [of_char (CHR ''A'')] ?s"
    using pool_run.request [OF pool_run.start] by fastforce
  with drive_letters_unique [OF r] show ?thesis by blast
qed

theorem device_stack_is_list_witness:
  "dev_stack (IoAttachDevice 2 1 sample_io) [1, 2]"
  using device_stack_is_list [of sample_io "[]" 1 2] by (simp add: dev_stack_def sample_io_def no_device_def)

end
