(* ===== verification/IoReq.thy ===== *)
theory IoReq
  imports IoProps
begin

text \<open>
  The life of I/O requests. A request that \<open>IoBuildDeviceRequest\<close> builds takes an IRP and a buffer, from
  the heap or in whole pages, and stands on the list of its thread; its completion gives all of it
  back. Requests are a \<open>resource_pool\<close>, so this holds for every history of them. What a read brings to
  the user buffer and what failed operations leave behind is stated after it.
\<close>

subsection \<open>Consistent requests\<close>

definition small :: "irp \<Rightarrow> bool" where
  "small i \<longleftrightarrow> BufferLength i < PAGE_SIZE"

text \<open>Nothing in the IRP stops its completion.\<close>

definition completable :: "irp \<Rightarrow> bool" where
  "completable i \<longleftrightarrow> sizeof_IRP \<le> IrpSize i \<and> CurrentLocation i \<le> IrpStackSize i \<and>
     CurrentStackLocation i \<le> unat (IrpStackSize i) \<and> UserIosb i \<noteq> 0 \<and> SystemBuffer i \<noteq> 0 \<and>
     IrpFlags i AND IRP_FLAGS_DEALLOCATE_BUFFER \<noteq> 0"

text \<open>A user buffer is needed when bytes come back.\<close>

definition outcome_ok :: "u32 \<Rightarrow> status \<Rightarrow> u32 \<Rightarrow> bool" where
  "outcome_ok Buffer sta info \<longleftrightarrow> sta \<noteq> STATUS_PENDING \<and> (Buffer \<noteq> 0 \<or> info = 0 \<or> \<not> SUCCESS sta)"

definition small_buffers :: "io \<Rightarrow> u32 set" where
  "small_buffers s = {SystemBuffer i | p i. Irps s p = Some i \<and> small i}"

definition big_buffers :: "io \<Rightarrow> (u32 \<times> u32) set" where
  "big_buffers s = {(SystemBuffer i, BufferLength i) | p i. Irps s p = Some i \<and> \<not> small i}"

definition mm_fresh :: "io \<Rightarrow> bool" where
  "mm_fresh s \<longleftrightarrow> (\<forall>n B. MmAllocator s n B = 0 \<or> MmAllocator s n B \<notin> fst ` B)"

text \<open>
  \<open>B0\<close> and \<open>M0\<close> are the heap blocks and pages that belong to others. Every live IRP is on the list of its
  thread, and no two share a buffer.
\<close>

definition irps_ok :: "u32 set \<Rightarrow> (u32 \<times> u32) set \<Rightarrow> io \<Rightarrow> bool" where
  "irps_ok B0 M0 s \<longleftrightarrow>
     heap_fresh (Obm s) \<and> mm_fresh s \<and>
     (\<forall>p i. Irps s p = Some i \<longrightarrow> completable i) \<and>
     (\<forall>p q i j. Irps s p = Some i \<and> Irps s q = Some j \<and> SystemBuffer i = SystemBuffer j \<and> small i = small j \<longrightarrow> p = q) \<and>
     Blocks (Obm s) = B0 \<union> dom (Irps s) \<union> small_buffers s \<and>
     B0 \<inter> dom (Irps s) = {} \<and> B0 \<inter> small_buffers s = {} \<and> dom (Irps s) \<inter> small_buffers s = {} \<and>
     MmBlocks s = M0 \<union> big_buffers s \<and> M0 \<inter> big_buffers s = {} \<and>
     (\<forall>t. distinct (ThreadIrps s t) \<and> set (ThreadIrps s t) = {p. \<exists>i. Irps s p = Some i \<and> CallerThread i = t})"

subsection \<open>Building\<close>

text \<open>The IRP that a request gets.\<close>

definition built_irp :: "io \<Rightarrow> u32 \<Rightarrow> u32 \<Rightarrow> u32 \<Rightarrow> bool \<Rightarrow> u32 \<Rightarrow> u32 \<Rightarrow> u32 \<Rightarrow> irp" where
  "built_irp s dev major iosb user Buffer n b =
     (zero_irp (StackSize (Devices s dev)) (sizeof_IRP + (ucast (StackSize (Devices s dev)) - 1) * sizeof_IRP_STACK_LOCATION))
       \<lparr>MajorFunction := major, UserBuffer := Buffer, IrpFlags := IRP_FLAGS_BUFFERED_IO OR IRP_FLAGS_DEALLOCATE_BUFFER,
        SystemBuffer := b, BufferLength := n, UserIosb := iosb, UserMode := user, CallerThread := CurThread (Obm s)\<rparr>"

lemma io_alloc_eq:
  "io_alloc s = (let p = Allocator (Obm s) (Allocs (Obm s)) (Blocks (Obm s)) in
     (p, s\<lparr>Obm := (Obm s)\<lparr>Allocs := Allocs (Obm s) + 1, Blocks := (if p = 0 then Blocks (Obm s) else insert p (Blocks (Obm s)))\<rparr>\<rparr>))"
  by (simp add: io_alloc_def ob_alloc_def Let_def)

text \<open>What a successful request leaves, in terms of the state before.\<close>

lemma build_request:
  assumes r: "IoBuildDeviceRequest dev major iosb user Buffer n s = Inr (p, s')" and p: "p \<noteq> 0" and f: "heap_fresh (Obm s)"
  obtains b where "p \<notin> Blocks (Obm s)" "b \<noteq> 0"
    "Irps s' = (Irps s)(p \<mapsto> built_irp s dev major iosb user Buffer n b)"
    "ThreadIrps s' = (ThreadIrps s)(CurThread (Obm s) := ThreadIrps s (CurThread (Obm s)) @ [p])"
    "Devices s' = Devices s" "MmAllocator s' = MmAllocator s" "Objs (Obm s') = Objs (Obm s)"
    "Allocator (Obm s') = Allocator (Obm s)" "CurThread (Obm s') = CurThread (Obm s)" "Buffers s' = Buffers s"
    "FileObjects s' = FileObjects s" "DriverObjects s' = DriverObjects s"
    "if n < PAGE_SIZE then b \<notin> insert p (Blocks (Obm s)) \<and> Blocks (Obm s') = insert b (insert p (Blocks (Obm s))) \<and> MmBlocks s' = MmBlocks s
     else Blocks (Obm s') = insert p (Blocks (Obm s)) \<and> b = MmAllocator s (MmAllocs s) (MmBlocks s) \<and> MmBlocks s' = insert (b, n) (MmBlocks s)"
proof -
  define q where "q = Allocator (Obm s) (Allocs (Obm s)) (Blocks (Obm s))"
  define s1 where "s1 = put_irp q (zero_irp (StackSize (Devices s dev))
      (sizeof_IRP + (ucast (StackSize (Devices s dev)) - 1) * sizeof_IRP_STACK_LOCATION))
      (s\<lparr>Obm := (Obm s)\<lparr>Allocs := Allocs (Obm s) + 1, Blocks := insert q (Blocks (Obm s))\<rparr>\<rparr>)"
  define b where "b = fst (if n < PAGE_SIZE then io_alloc s1 else mm_alloc n s1)"
  define s2 where "s2 = snd (if n < PAGE_SIZE then io_alloc s1 else mm_alloc n s1)"
  have q0: "q \<noteq> 0" using r by (auto simp: IoBuildDeviceRequest_def IoAllocateIrp_def io_alloc_eq Let_def q_def)
  have alloc: "IoAllocateIrp (StackSize (Devices s dev)) s = Inr (q, s1)"
    using q0 by (simp add: IoAllocateIrp_def io_alloc_eq Let_def q_def [symmetric] s1_def)
  have b0: "b \<noteq> 0"
  proof
    assume "b = 0"
    then show False
      using r p alloc unfolding IoBuildDeviceRequest_def
      by (auto simp: b_def and_then_def split: prod.splits sum.splits if_splits)
  qed
  have irps2: "Irps s2 = Irps s1" "ThreadIrps s2 = ThreadIrps s1" "Devices s2 = Devices s1" "MmAllocator s2 = MmAllocator s1"
    "Objs (Obm s2) = Objs (Obm s1)" "Allocator (Obm s2) = Allocator (Obm s1)" "CurThread (Obm s2) = CurThread (Obm s1)"
    "Buffers s2 = Buffers s1" "FileObjects s2 = FileObjects s1" "DriverObjects s2 = DriverObjects s1"
    by (simp_all add: s2_def io_alloc_eq mm_alloc_def Let_def)
  define i where "i = built_irp s dev major iosb user Buffer n b"
  have "IoBuildDeviceRequest dev major iosb user Buffer n s =
      Inr (q, (put_irp q i s2)\<lparr>ThreadIrps := (ThreadIrps s2)(CallerThread i := ThreadIrps s2 (CallerThread i) @ [q])\<rparr>)"
  proof -
    have "(if n < PAGE_SIZE then io_alloc s1 else mm_alloc n s1) = (b, s2)" by (simp add: b_def s2_def)
    moreover have "Irps s1 q = Some (zero_irp (StackSize (Devices s dev))
      (sizeof_IRP + (ucast (StackSize (Devices s dev)) - 1) * sizeof_IRP_STACK_LOCATION))" by (simp add: s1_def put_irp_def)
    ultimately show ?thesis
      unfolding IoBuildDeviceRequest_def alloc and_then_simps prod.case Let_def
      using b0 irps2 by (simp add: upd_irp_def get_irp_def IopQueueThreadIrp_def put_irp_def i_def built_irp_def zero_irp_def s1_def)
  qed
  then have pq: "p = q" and s': "s' = (put_irp q i s2)\<lparr>ThreadIrps := (ThreadIrps s2)(CallerThread i := ThreadIrps s2 (CallerThread i) @ [q])\<rparr>"
    using r by simp_all
  have ct: "CallerThread i = CurThread (Obm s)" by (simp add: i_def built_irp_def)
  show thesis
  proof (rule that [of b])
    show "p \<notin> Blocks (Obm s)" using f q0 unfolding pq q_def heap_fresh_def by metis
    show "if n < PAGE_SIZE then b \<notin> insert p (Blocks (Obm s)) \<and> Blocks (Obm s') = insert b (insert p (Blocks (Obm s))) \<and> MmBlocks s' = MmBlocks s
     else Blocks (Obm s') = insert p (Blocks (Obm s)) \<and> b = MmAllocator s (MmAllocs s) (MmBlocks s) \<and> MmBlocks s' = insert (b, n) (MmBlocks s)"
    proof (cases "n < PAGE_SIZE")
      case True
      then have "b = Allocator (Obm s) (Allocs (Obm s) + 1) (insert q (Blocks (Obm s)))"
        by (simp add: b_def io_alloc_eq Let_def s1_def put_irp_def)
      then have "b \<notin> insert q (Blocks (Obm s))" using b0 f unfolding heap_fresh_def by metis
      then show ?thesis using True b0 by (simp add: s' pq s2_def b_def io_alloc_eq Let_def s1_def put_irp_def)
    next
      case False
      then show ?thesis using b0 by (simp add: s' pq s2_def b_def mm_alloc_def Let_def s1_def put_irp_def)
    qed
  qed (use b0 irps2 ct in \<open>simp_all add: s' pq put_irp_def s1_def i_def\<close>)
qed

subsection \<open>Completing\<close>

definition complete_with :: "status \<Rightarrow> u32 \<Rightarrow> u32 \<Rightarrow> u32 \<Rightarrow> io \<Rightarrow> io io_result" where
  "complete_with sta info q p s =
     and_then (upd_irp p (\<lambda>i. i\<lparr>IoStatus := sta, Information := info\<rparr>) s) (IoCompleteRequest p q)"

text \<open>The number of bytes a completion reports, and what the user buffer holds after it.\<close>

definition got :: "irp \<Rightarrow> u32 \<Rightarrow> u32" where
  "got i info = (if IrpFlags i AND IRP_FLAGS_INPUT_OPERATION \<noteq> 0 \<and> BufferLength i < info then BufferLength i else info)"

definition moved :: "irp \<Rightarrow> status \<Rightarrow> u32 \<Rightarrow> 8 mem \<Rightarrow> 8 mem" where
  "moved i sta n m = (if IrpFlags i AND (IRP_FLAGS_BUFFERED_IO OR IRP_FLAGS_INPUT_OPERATION) \<noteq> 0 \<and> SUCCESS sta
     then memmove m (UserBuffer i) (SystemBuffer i) n else m)"

lemma memmove_0 [simp]: "memmove m d s 0 = m"
  by (simp add: memmove_def outside_def)

lemma complete_request:
  assumes i: "Irps s p = Some i" "completable i" and sta: "outcome_ok (UserBuffer i) sta info"
    and heap: "p \<in> Blocks (Obm s)" "small i \<longrightarrow> SystemBuffer i \<in> Blocks (Obm s) \<and> SystemBuffer i \<noteq> p"
      "\<not> small i \<longrightarrow> (SystemBuffer i, BufferLength i) \<in> MmBlocks s"
  obtains s' where "complete_with sta info q p s = Inr s'" "Irps s' = (Irps s)(p := None)"
    "ThreadIrps s' = (ThreadIrps s)(CallerThread i := remove1 p (ThreadIrps s (CallerThread i)))"
    "Allocator (Obm s') = Allocator (Obm s)" "MmAllocator s' = MmAllocator s"
    "Blocks (Obm s') = Blocks (Obm s) - (if small i then {SystemBuffer i} else {}) - {p}"
    "MmBlocks s' = MmBlocks s - (if small i then {} else {(SystemBuffer i, BufferLength i)})"
    "Buffers s' = wr32 (wr32 (moved i sta (got i info) (Buffers s)) (UserIosb i) sta) (UserIosb i + 4) (got i info)"
    "FileObjects s' = (if FileObject i \<noteq> 0 then (FileObjects s)(FileObject i := (FileObjects s (FileObject i))\<lparr>FinalStatus := sta\<rparr>)
       else FileObjects s)"
proof -
  note C = i(2) [unfolded completable_def] and D = sta [unfolded outcome_ok_def]
  define n where "n = got i info"
  define j where "j = i\<lparr>IoStatus := sta, Information := n\<rparr>"
  define s1 where "s1 = put_irp p (i\<lparr>IoStatus := sta, Information := info\<rparr>) s"
  have n0: "info = 0 \<Longrightarrow> n = 0" by (simp add: n_def got_def)
  obtain s2 where s2: "(if IrpFlags i AND (IRP_FLAGS_BUFFERED_IO OR IRP_FLAGS_INPUT_OPERATION) \<noteq> 0 \<and> SUCCESS sta
      then copy_out (UserBuffer i) (SystemBuffer i) n s1 else Inr s1) = Inr s2"
    and s2f: "Obm s2 = Obm s" "Irps s2 = Irps s1" "ThreadIrps s2 = ThreadIrps s" "MmBlocks s2 = MmBlocks s" "MmAllocator s2 = MmAllocator s"
      "Buffers s2 = moved i sta n (Buffers s)" "FileObjects s2 = FileObjects s"
  proof (cases "n = 0 \<or> \<not> SUCCESS sta")
    case True
    then show thesis by (intro that [of s1]) (auto simp: copy_out_def moved_def s1_def put_irp_def)
  next
    case False
    then have "UserBuffer i \<noteq> 0" "SystemBuffer i \<noteq> 0" using C D n0 by auto
    then show thesis
      using False by (cases "IrpFlags i AND (IRP_FLAGS_BUFFERED_IO OR IRP_FLAGS_INPUT_OPERATION) = 0")
        (rule that [of s1] that [of "s1\<lparr>Buffers := memmove (Buffers s1) (UserBuffer i) (SystemBuffer i) n\<rparr>"];
          simp add: copy_out_def moved_def s1_def put_irp_def)+
  qed
  obtain s3 where s3: "free_buffer j s2 = Inr s3"
    and s3f: "Irps s3 = Irps s1" "ThreadIrps s3 = ThreadIrps s" "MmAllocator s3 = MmAllocator s"
      "Allocator (Obm s3) = Allocator (Obm s)" "Blocks (Obm s3) = Blocks (Obm s) - (if small i then {SystemBuffer i} else {})"
      "MmBlocks s3 = MmBlocks s - (if small i then {} else {(SystemBuffer i, BufferLength i)})"
      "Buffers s3 = Buffers s2" "FileObjects s3 = FileObjects s"
    using C heap(2,3) s2f
    by (cases "small i") (auto simp: free_buffer_def j_def small_def io_free_def in_ob_def ob_free_def mm_free_def)
  define k where "k = j\<lparr>IrpFlags := IrpFlags j AND NOT (IRP_FLAGS_BUFFERED_IO OR IRP_FLAGS_DEALLOCATE_BUFFER)\<rparr>"
  define s4 where "s4 = put_irp p k s3"
  define s5 where "s5 = s4\<lparr>Buffers := wr32 (wr32 (Buffers s4) (UserIosb i) sta) (UserIosb i + 4) n\<rparr>"
  define s6 where "s6 = (if FileObject i \<noteq> 0 then s5\<lparr>FileObjects := (FileObjects s5)(FileObject i := (FileObjects s5 (FileObject i))\<lparr>FinalStatus := sta\<rparr>)\<rparr> else s5)"
  define s7 where "s7 = (if UserEvent i \<noteq> 0 then pulse (AtEvent (UserEvent i)) (ucast q) s6 else s6)"
  define s8 where "s8 = (if FileObject i \<noteq> 0 then pulse (FileEvent (FileObject i)) (ucast q) s7 else s7)"
  have s8f: "Irps s8 = (Irps s)(p \<mapsto> k)" "ThreadIrps s8 = ThreadIrps s" "MmAllocator s8 = MmAllocator s" "Obm s8 = Obm s3" "MmBlocks s8 = MmBlocks s3"
    "Buffers s8 = wr32 (wr32 (Buffers s2) (UserIosb i) sta) (UserIosb i + 4) n"
    "FileObjects s8 = (if FileObject i \<noteq> 0 then (FileObjects s)(FileObject i := (FileObjects s (FileObject i))\<lparr>FinalStatus := sta\<rparr>) else FileObjects s)"
    by (simp_all add: s8_def s7_def s6_def s5_def s4_def pulse_def put_irp_def s3f s1_def)
  define s9 where "s9 = s8\<lparr>ThreadIrps := (ThreadIrps s)(CallerThread i := remove1 p (ThreadIrps s (CallerThread i)))\<rparr>"
  have deq: "IopDequeueThreadIrp p s8 = Inr s9"
    by (simp add: IopDequeueThreadIrp_def get_irp_def s8f s9_def k_def j_def)
  define s' where "s' = s9\<lparr>Obm := (Obm s9)\<lparr>Blocks := Blocks (Obm s9) - {p}\<rparr>, Irps := (Irps s9)(p := None)\<rparr>"
  have "p \<in> Blocks (Obm s9)" using heap(1,2) by (auto simp: s9_def s8f s3f)
  then have fr: "free_irp p s9 = Inr s'" by (simp add: free_irp_def io_free_def in_ob_def ob_free_def s'_def)
  have "complete_with sta info q p s = Inr s'"
  proof -
    define i1 where "i1 = i\<lparr>IoStatus := sta, Information := info\<rparr>"
    have i1: "IrpSize i1 = IrpSize i" "IrpStackSize i1 = IrpStackSize i" "CurrentLocation i1 = CurrentLocation i"
      "CurrentStackLocation i1 = CurrentStackLocation i" "IoStatus i1 = sta"
      "(if IrpFlags i1 AND IRP_FLAGS_INPUT_OPERATION \<noteq> 0 \<and> BufferLength i1 < Information i1 then BufferLength i1 else Information i1) = n"
      "i1\<lparr>Information := n\<rparr> = j" by (simp_all add: i1_def n_def got_def j_def)
    have j: "IrpFlags j = IrpFlags i" "IoStatus j = sta" "UserBuffer j = UserBuffer i" "SystemBuffer j = SystemBuffer i"
      by (simp_all add: j_def)
    have kj: "j\<lparr>IrpFlags := IrpFlags i AND NOT (IRP_FLAGS_BUFFERED_IO OR IRP_FLAGS_DEALLOCATE_BUFFER)\<rparr> = k"
      by (simp add: k_def j)
    have k: "UserIosb k = UserIosb i" "IoStatus k = sta" "FileObject k = FileObject i" "UserEvent k = UserEvent i"
      by (simp_all add: k_def j_def)
    have g: "get_irp p s1 = Inr i1" by (simp add: get_irp_def s1_def put_irp_def i1_def)
    have u: "upd_irp p (\<lambda>i. i\<lparr>IoStatus := sta, Information := info\<rparr>) s = Inr s1"
      using i(1) by (simp add: upd_irp_def get_irp_def s1_def)
    have ios: "put_iosb (UserIosb i) sta n s4 = Inr s5" using C by (simp add: put_iosb_def s5_def)
    have guards: "\<not> (IrpSize i < sizeof_IRP \<or> IrpStackSize i < CurrentLocation i \<or> unat (IrpStackSize i) < CurrentStackLocation i)"
      "\<not> sta = STATUS_PENDING" using C D by auto
    show ?thesis
      unfolding complete_with_def u and_then_simps IoCompleteRequest_def g i1(1-5) if_not_P [OF guards(1)] if_not_P [OF guards(2)]
        Let_def i1(6) i1(7) j s2 s3 kj s4_def [symmetric] k ios s6_def [symmetric] s7_def [symmetric] s8_def [symmetric]
        deq by (simp add: fr)
  qed
  then show thesis
    by (rule that) (simp_all add: s'_def s9_def s8f s3f s2f n_def [symmetric])
qed

subsection \<open>Requests are a pool\<close>

lemma irps_okD:
  assumes "irps_ok B0 M0 s"
  shows irps_fresh: "heap_fresh (Obm s)" and irps_mm_fresh: "mm_fresh s"
    and irps_completable: "\<forall>p i. Irps s p = Some i \<longrightarrow> completable i"
    and irps_inj: "\<forall>p q i j. Irps s p = Some i \<and> Irps s q = Some j \<and> SystemBuffer i = SystemBuffer j \<and> small i = small j \<longrightarrow> p = q"
    and irps_blocks: "Blocks (Obm s) = B0 \<union> dom (Irps s) \<union> small_buffers s"
    and irps_apart: "B0 \<inter> dom (Irps s) = {}" "B0 \<inter> small_buffers s = {}" "dom (Irps s) \<inter> small_buffers s = {}"
    and irps_pages: "MmBlocks s = M0 \<union> big_buffers s" "M0 \<inter> big_buffers s = {}"
    and irps_threads: "\<forall>t. distinct (ThreadIrps s t) \<and> set (ThreadIrps s t) = {p. \<exists>i. Irps s p = Some i \<and> CallerThread i = t}"
  using assms unfolding irps_ok_def by - (elim conjE, assumption)+


text \<open>A live IRP with its buffer, the size of the buffer and that of the caller.\<close>

type_synonym held_irp = "u32 \<times> u32 \<times> u32 \<times> u32"

definition live :: "io \<Rightarrow> held_irp set" where
  "live s = {(p, SystemBuffer i, BufferLength i, UserBuffer i) | p i. Irps s p = Some i}"

text \<open>
  A request: the arguments of \<open>IoBuildDeviceRequest\<close>, and the status and the number of bytes that its
  driver will complete it with. The caller gives a status block, and a buffer when bytes come back.
\<close>

type_synonym request = "u32 \<times> u32 \<times> u32 \<times> bool \<times> u32 \<times> u32 \<times> status \<times> u32"

definition request_take :: "request \<Rightarrow> io \<Rightarrow> ((held_irp \<times> status \<times> u32) \<times> io) option" where
  "request_take r s = (case r of (dev, major, iosb, user, Buffer, n, sta, info) \<Rightarrow>
     if iosb = 0 \<or> StackSize (Devices s dev) = 0 \<or> \<not> outcome_ok Buffer sta info then None
     else case IoBuildDeviceRequest dev major iosb user Buffer n s of
       Inl e \<Rightarrow> None
     | Inr (p, s') \<Rightarrow> if p = 0 then None else
         (case Irps s' p of None \<Rightarrow> None
          | Some i \<Rightarrow> Some (((p, SystemBuffer i, BufferLength i, UserBuffer i), sta, info), s')))"

definition request_give :: "held_irp \<times> status \<times> u32 \<Rightarrow> io \<Rightarrow> io option" where
  "request_give g s = (case g of ((p, _), sta, info) \<Rightarrow>
     (case complete_with sta info 0 p s of Inr s' \<Rightarrow> Some s' | Inl e \<Rightarrow> None))"

definition request_ok :: "held_irp \<times> status \<times> u32 \<Rightarrow> bool" where
  "request_ok g = (case g of ((p, b, n, u), sta, info) \<Rightarrow> outcome_ok u sta info)"

lemma buffers_insert:
  assumes "Irps s' = (Irps s)(p \<mapsto> i)" "Irps s p = None"
  shows "small_buffers s' = small_buffers s \<union> (if small i then {SystemBuffer i} else {})"
    and "big_buffers s' = big_buffers s \<union> (if small i then {} else {(SystemBuffer i, BufferLength i)})"
    and "live s' = live s \<union> {(p, SystemBuffer i, BufferLength i, UserBuffer i)}"
  using assms by (auto simp: small_buffers_def big_buffers_def live_def split: if_splits) (metis option.distinct(1))+

lemma buffers_remove:
  assumes "Irps s' = (Irps s)(p := None)" "Irps s p = Some i"
    and inj: "\<forall>p q i j. Irps s p = Some i \<and> Irps s q = Some j \<and> SystemBuffer i = SystemBuffer j \<and> small i = small j \<longrightarrow> p = q"
  shows "small_buffers s' = small_buffers s - (if small i then {SystemBuffer i} else {})"
    and "big_buffers s' = big_buffers s - (if small i then {} else {(SystemBuffer i, BufferLength i)})"
    and "live s' = live s - {(p, SystemBuffer i, BufferLength i, UserBuffer i)}"
proof -
  have other: "Irps s q = Some j \<Longrightarrow> q \<noteq> p \<Longrightarrow> SystemBuffer j = SystemBuffer i \<Longrightarrow> small j = small i \<Longrightarrow> False" for q j
    using inj assms(2) by blast
  have new: "Irps s' q = Some j \<longleftrightarrow> q \<noteq> p \<and> Irps s q = Some j" for q j using assms(1) by simp
  show "small_buffers s' = small_buffers s - (if small i then {SystemBuffer i} else {})"
    unfolding small_buffers_def new by (cases "small i") (use other assms(2) in \<open>auto, (metis option.inject)+\<close>)
  show "big_buffers s' = big_buffers s - (if small i then {} else {(SystemBuffer i, BufferLength i)})"
    unfolding big_buffers_def new by (cases "small i") (use other assms(2) in \<open>auto, (metis option.inject)+\<close>)
  show "live s' = live s - {(p, SystemBuffer i, BufferLength i, UserBuffer i)}"
  proof (rule set_eqI)
    fix x
    show "x \<in> live s' \<longleftrightarrow> x \<in> live s - {(p, SystemBuffer i, BufferLength i, UserBuffer i)}"
      unfolding live_def new using assms(2) by (cases x, cases "fst x = p") auto
  qed
qed

lemma built_completable:
  assumes "iosb \<noteq> 0" "StackSize (Devices s dev) \<noteq> 0" "b \<noteq> 0"
  shows "completable (built_irp s dev major iosb user Buffer n b)"
proof -
  define k where "k = unat (StackSize (Devices s dev))"
  have k: "1 \<le> k" "k < 256"
    using assms(2) unsigned_less [of "StackSize (Devices s dev)", where 'a = nat]
    by (simp_all add: k_def Suc_le_eq unat_gt_0)
  have u: "unat (ucast (StackSize (Devices s dev)) :: u32) = k" by (simp add: k_def unat_ucast_u8_u32)
  have "unat ((ucast (StackSize (Devices s dev)) :: u32) - 1) = k - 1"
    using u k by (simp add: unat_sub word_le_nat_alt)
  then have "unat (((ucast (StackSize (Devices s dev)) :: u32) - 1) * sizeof_IRP_STACK_LOCATION) = (k - 1) * 32"
    using k by (subst unat_mult_lem [THEN iffD1]) (simp_all add: sizeof_IRP_STACK_LOCATION_def)
  then have "sizeof_IRP \<le> sizeof_IRP + ((ucast (StackSize (Devices s dev)) :: u32) - 1) * sizeof_IRP_STACK_LOCATION"
    using k by (intro word_le_nat_alt [THEN iffD2], subst unat_add_lem [THEN iffD1]) (simp_all add: sizeof_IRP_def)
  moreover have "IRP_FLAGS_BUFFERED_IO OR IRP_FLAGS_DEALLOCATE_BUFFER AND IRP_FLAGS_DEALLOCATE_BUFFER \<noteq> 0"
    by (simp add: irp_flag_defs)
  ultimately show ?thesis using assms by (simp add: completable_def built_irp_def zero_irp_def irp_flag_defs)
qed

lemma request_take_law:
  assumes ok: "irps_ok B0 M0 s" and t: "request_take r s = Some (g, s')"
  shows "irps_ok B0 M0 s' \<and> request_ok g \<and> {fst g} \<inter> live s = {} \<and> live s' = live s \<union> {fst g}"
proof -
  obtain dev major iosb user Buffer n sta info where r: "r = (dev, major, iosb, user, Buffer, n, sta, info)" by (metis surj_pair)
  note O = irps_okD [OF ok]
  have pre: "iosb \<noteq> 0" "StackSize (Devices s dev) \<noteq> 0" "outcome_ok Buffer sta info"
    using t by (auto simp: request_take_def r split: if_splits)
  obtain p where p: "IoBuildDeviceRequest dev major iosb user Buffer n s = Inr (p, s')" "p \<noteq> 0"
    using t by (auto simp: request_take_def r split: if_splits sum.splits prod.splits option.splits)
  have hf: "heap_fresh (Obm s)" by (rule O)
  obtain b where b: "p \<notin> Blocks (Obm s)" "b \<noteq> 0"
    "Irps s' = (Irps s)(p \<mapsto> built_irp s dev major iosb user Buffer n b)"
    "ThreadIrps s' = (ThreadIrps s)(CurThread (Obm s) := ThreadIrps s (CurThread (Obm s)) @ [p])"
    "MmAllocator s' = MmAllocator s" "Allocator (Obm s') = Allocator (Obm s)"
    "if n < PAGE_SIZE then b \<notin> insert p (Blocks (Obm s)) \<and> Blocks (Obm s') = insert b (insert p (Blocks (Obm s))) \<and> MmBlocks s' = MmBlocks s
     else Blocks (Obm s') = insert p (Blocks (Obm s)) \<and> b = MmAllocator s (MmAllocs s) (MmBlocks s) \<and> MmBlocks s' = insert (b, n) (MmBlocks s)"
    by (rule build_request [OF p(1,2) hf], rule that; assumption)
  define i where "i = built_irp s dev major iosb user Buffer n b"
  have i: "SystemBuffer i = b" "BufferLength i = n" "UserBuffer i = Buffer" "small i \<longleftrightarrow> n < PAGE_SIZE" "CallerThread i = CurThread (Obm s)"
    by (simp_all add: i_def built_irp_def small_def)
  have irps: "Irps s' = (Irps s)(p \<mapsto> i)" using b(3) by (simp add: i_def)
  note blk = irps_blocks [OF ok]
  have np: "Irps s p = None" using b(1) blk by (auto simp: domIff)
  note ins = buffers_insert [OF irps np, unfolded i]
  have g: "g = ((p, b, n, Buffer), sta, info)"
    using t p b(3) by (simp add: request_take_def r i_def [symmetric] i split: if_splits)
  have bb: "\<not> n < PAGE_SIZE \<Longrightarrow> (b, x) \<notin> MmBlocks s" for x
  proof
    assume "\<not> n < PAGE_SIZE" "(b, x) \<in> MmBlocks s"
    then have "MmAllocator s (MmAllocs s) (MmBlocks s) \<in> fst ` MmBlocks s" using b(7) by force
    then show False using O(2) b(2,7) \<open>\<not> n < PAGE_SIZE\<close> unfolding mm_fresh_def by (metis (no_types))
  qed
  have inj: "Irps s q = Some j \<Longrightarrow> SystemBuffer j = b \<Longrightarrow> small j = (n < PAGE_SIZE) \<Longrightarrow> False" for q j
  proof (cases "n < PAGE_SIZE")
    case True
    assume "Irps s q = Some j" "SystemBuffer j = b" "small j = (n < PAGE_SIZE)"
    then have "b \<in> small_buffers s" using True by (auto simp: small_buffers_def)
    then show False using b(7) blk True by auto
  next
    case False
    assume "Irps s q = Some j" "SystemBuffer j = b" "small j = (n < PAGE_SIZE)"
    then have "(b, BufferLength j) \<in> big_buffers s" using False by (auto simp: big_buffers_def)
    then show False using bb [OF False] irps_pages(1) [OF ok] by blast
  qed
  have "irps_ok B0 M0 s'"
    unfolding irps_ok_def
  proof (intro conjI)
    show "heap_fresh (Obm s')" using hf b(2,7) p(2) unfolding heap_fresh_def b(6) by (simp split: if_splits)
    show "mm_fresh s'" using O(2) b(5) by (simp add: mm_fresh_def)
    show "\<forall>p i. Irps s' p = Some i \<longrightarrow> completable i"
      using O(3) built_completable [OF pre(1,2) b(2), of major user Buffer n] unfolding irps i_def by auto
    show "\<forall>p q i j. Irps s' p = Some i \<and> Irps s' q = Some j \<and> SystemBuffer i = SystemBuffer j \<and> small i = small j \<longrightarrow> p = q"
    proof (intro allI impI, elim conjE)
      fix x y k l
      assume a: "Irps s' x = Some k" "Irps s' y = Some l" "SystemBuffer k = SystemBuffer l" "small k = small l"
      have k: "k = i" if "x = p" using a(1) that unfolding irps by simp
      have l: "l = i" if "y = p" using a(2) that unfolding irps by simp
      have old: "Irps s x = Some k" if "x \<noteq> p" using a(1) that unfolding irps by simp
      have old': "Irps s y = Some l" if "y \<noteq> p" using a(2) that unfolding irps by simp
      show "x = y"
      proof (cases "x = p")
        case True
        then have "y = p" using inj [OF old'] k [OF True] a(3,4) i by metis
        then show ?thesis using True by simp
      next
        case False
        then have "y \<noteq> p" using inj [OF old] l a(3,4) i by metis
        then show ?thesis using irps_inj [OF ok] old [OF False] old' a(3,4) by blast
      qed
    qed
    show "Blocks (Obm s') = B0 \<union> dom (Irps s') \<union> small_buffers s'"
      using b(7) blk ins(1) unfolding irps by (auto split: if_splits)
    show "B0 \<inter> dom (Irps s') = {}" using irps_apart(1) [OF ok] b(1) blk unfolding irps by auto
    show "B0 \<inter> small_buffers s' = {}" using irps_apart(2) [OF ok] b(7) ins(1) blk by (auto split: if_splits)
    show "dom (Irps s') \<inter> small_buffers s' = {}"
      using irps_apart(3) [OF ok] b(1,7) ins(1) unfolding irps blk by (auto split: if_splits)
    show "MmBlocks s' = M0 \<union> big_buffers s'" using irps_pages(1) [OF ok] b(7) ins(2) by (auto split: if_splits)
    show "M0 \<inter> big_buffers s' = {}" using irps_pages [OF ok] bb ins(2) by (auto split: if_splits)
    show "\<forall>t. distinct (ThreadIrps s' t) \<and> set (ThreadIrps s' t) = {p. \<exists>i. Irps s' p = Some i \<and> CallerThread i = t}"
    proof
      fix t
      have "distinct (ThreadIrps s t)" "set (ThreadIrps s t) = {p. \<exists>i. Irps s p = Some i \<and> CallerThread i = t}" using irps_threads [OF ok] by blast+
      then show "distinct (ThreadIrps s' t) \<and> set (ThreadIrps s' t) = {p. \<exists>i. Irps s' p = Some i \<and> CallerThread i = t}"
        using np unfolding b(4) irps by (auto simp: i)
    qed
  qed
  moreover have "(p, b, n, Buffer) \<notin> live s" using np by (auto simp: live_def)
  ultimately show ?thesis using ins(3) g pre(3) by (simp add: request_ok_def)
qed

lemma live_iff: "(p, b, n, u) \<in> live s \<longleftrightarrow> (\<exists>i. Irps s p = Some i \<and> SystemBuffer i = b \<and> BufferLength i = n \<and> UserBuffer i = u)"
  by (auto simp: live_def)

lemma request_give_law:
  assumes ok: "irps_ok B0 M0 s" and gok: "request_ok g" and g: "{fst g} \<subseteq> live s"
  shows "\<exists>s'. request_give g s = Some s' \<and> irps_ok B0 M0 s' \<and> live s' = live s - {fst g}"
proof -
  obtain p b n u sta info where gp: "g = ((p, b, n, u), sta, info)" by (metis surj_pair)
  obtain i where i: "Irps s p = Some i" "SystemBuffer i = b" "BufferLength i = n" "UserBuffer i = u"
    using g by (auto simp: gp live_iff)
  note blk = irps_blocks [OF ok]
  have c: "completable i" using irps_completable [OF ok] i(1) by blast
  have D: "outcome_ok (UserBuffer i) sta info" using gok by (simp add: request_ok_def gp i)
  have pdom: "p \<in> dom (Irps s)" using i(1) by blast
  have pB: "p \<in> Blocks (Obm s)" using blk pdom by blast
  have sb: "small i \<Longrightarrow> b \<in> small_buffers s" using i by (auto simp: small_buffers_def)
  have bb: "\<not> small i \<Longrightarrow> (b, n) \<in> big_buffers s" using i by (auto simp: big_buffers_def)
  have h2: "small i \<longrightarrow> SystemBuffer i \<in> Blocks (Obm s) \<and> SystemBuffer i \<noteq> p"
    using sb blk irps_apart(3) [OF ok] pdom i(2) by blast
  have h3: "\<not> small i \<longrightarrow> (SystemBuffer i, BufferLength i) \<in> MmBlocks s"
    using bb irps_pages(1) [OF ok] i(2,3) by blast
  obtain s' where s': "complete_with sta info 0 p s = Inr s'" "Irps s' = (Irps s)(p := None)"
    "ThreadIrps s' = (ThreadIrps s)(CallerThread i := remove1 p (ThreadIrps s (CallerThread i)))"
    "Allocator (Obm s') = Allocator (Obm s)" "MmAllocator s' = MmAllocator s"
    "Blocks (Obm s') = Blocks (Obm s) - (if small i then {SystemBuffer i} else {}) - {p}"
    "MmBlocks s' = MmBlocks s - (if small i then {} else {(SystemBuffer i, BufferLength i)})"
    by (rule complete_request [OF i(1) c D pB h2 h3, of 0], rule that; assumption)
  note rem = buffers_remove [OF s'(2) i(1) irps_inj [OF ok], unfolded i]
  have old: "Irps s' x = Some k \<Longrightarrow> Irps s x = Some k" for x k using s'(2) by (simp split: if_splits)
  have dom': "dom (Irps s') = dom (Irps s) - {p}" using s'(2) by auto
  have "irps_ok B0 M0 s'"
    unfolding irps_ok_def
  proof (intro conjI)
    show "heap_fresh (Obm s')" using irps_fresh [OF ok] unfolding heap_fresh_def s'(4,6) by blast
    show "mm_fresh s'" using irps_mm_fresh [OF ok] s'(5) by (simp add: mm_fresh_def)
    show "\<forall>p i. Irps s' p = Some i \<longrightarrow> completable i" using irps_completable [OF ok] old by blast
    show "\<forall>p q i j. Irps s' p = Some i \<and> Irps s' q = Some j \<and> SystemBuffer i = SystemBuffer j \<and> small i = small j \<longrightarrow> p = q"
      using irps_inj [OF ok] old by blast
    show "Blocks (Obm s') = B0 \<union> dom (Irps s') \<union> small_buffers s'"
      unfolding s'(6) blk dom' rem(1) i(2) using irps_apart [OF ok] pdom sb by (cases "small i") auto
    show "B0 \<inter> dom (Irps s') = {}" unfolding dom' using irps_apart(1) [OF ok] by blast
    show "B0 \<inter> small_buffers s' = {}" unfolding rem(1) using irps_apart(2) [OF ok] by blast
    show "dom (Irps s') \<inter> small_buffers s' = {}" unfolding rem(1) dom' using irps_apart(3) [OF ok] by blast
    show "MmBlocks s' = M0 \<union> big_buffers s'"
      unfolding s'(7) rem(2) i(2,3) irps_pages(1) [OF ok] using irps_pages(2) [OF ok] bb by (cases "small i") auto
    show "M0 \<inter> big_buffers s' = {}" unfolding rem(2) using irps_pages(2) [OF ok] by blast
    show "\<forall>t. distinct (ThreadIrps s' t) \<and> set (ThreadIrps s' t) = {p. \<exists>i. Irps s' p = Some i \<and> CallerThread i = t}"
    proof
      fix t
      have T: "distinct (ThreadIrps s t)" "set (ThreadIrps s t) = {p. \<exists>i. Irps s p = Some i \<and> CallerThread i = t}"
        using irps_threads [OF ok] by blast+
      have N: "Irps s' x = Some k \<longleftrightarrow> x \<noteq> p \<and> Irps s x = Some k" for x k using s'(2) by auto
      show "distinct (ThreadIrps s' t) \<and> set (ThreadIrps s' t) = {p. \<exists>i. Irps s' p = Some i \<and> CallerThread i = t}"
      proof (cases "t = CallerThread i")
        case True
        then have "ThreadIrps s' t = remove1 p (ThreadIrps s t)" using s'(3) by simp
        then show ?thesis using T unfolding N by auto
      next
        case False
        then have "ThreadIrps s' t = ThreadIrps s t" using s'(3) by simp
        moreover have "Irps s x = Some k \<and> CallerThread k = t \<Longrightarrow> x \<noteq> p" for x k using False i(1) by auto
        ultimately show ?thesis using T unfolding N by auto
      qed
    qed
  qed
  moreover have "request_give g s = Some s'" using s'(1) by (simp add: request_give_def gp)
  ultimately show ?thesis using rem(3) by (simp add: gp i)
qed

interpretation requests: resource_pool "irps_ok B0 M0" request_ok "\<lambda>g. {fst g}" live request_take request_give
  for B0 M0
  by unfold_locales (erule (1) request_take_law, erule (2) request_give_law)

lemma disjoint_singletons: "disjoint_list (map (\<lambda>g. {f g}) xs) \<longleftrightarrow> distinct (map f xs)"
  by (induction xs) auto

definition idle :: "io \<Rightarrow> bool" where
  "idle s \<longleftrightarrow> heap_fresh (Obm s) \<and> mm_fresh s \<and> (\<forall>p. Irps s p = None) \<and> (\<forall>t. ThreadIrps s t = [])"

lemma idle_ok:
  assumes "idle s" shows "irps_ok (Blocks (Obm s)) (MmBlocks s) s \<and> live s = {}"
proof -
  have "dom (Irps s) = {}" "small_buffers s = {}" "big_buffers s = {}" "live s = {}"
    using assms by (auto simp: idle_def small_buffers_def big_buffers_def live_def)
  then show ?thesis using assms by (simp add: irps_ok_def idle_def)
qed

lemma all_given_back:
  assumes "irps_ok B0 M0 s" "live s = {}"
  shows "Blocks (Obm s) = B0 \<and> MmBlocks s = M0 \<and> idle s"
proof -
  have n: "Irps s p = None" for p using assms(2) by (cases "Irps s p") (auto simp: live_def)
  then have "dom (Irps s) = {}" "small_buffers s = {}" "big_buffers s = {}" by (auto simp: small_buffers_def big_buffers_def)
  moreover have "set (ThreadIrps s t) = {}" for t using irps_threads [OF assms(1)] n by simp
  ultimately show ?thesis
    using irps_blocks [OF assms(1)] irps_pages(1) [OF assms(1)] irps_fresh [OF assms(1)] irps_mm_fresh [OF assms(1)] n
    by (simp add: idle_def)
qed

text \<open>C12: I/O requests give everything back. In every history of requests (built by
  \<open>IoBuildDeviceRequest\<close> for any device, major function, buffer and length) and of completions (in any
  order, each with a status and a byte count of its own), every live IRP, and no other, is one of the
  histories' uncompleted requests, each can be completed, and when none is left the heap blocks, the pages
  and the IRP lists of all threads are those of the start.
\<close>

theorem requests_give_everything_back:
  assumes run: "pool_run request_take request_give s0 held s" and start: "idle s0"
  shows "distinct (map fst held) \<and> live s = set (map fst held) \<and>
    (\<forall>g\<in>set held. \<exists>s'. request_give g s = Some s' \<and> live s' = live s - {fst g}) \<and>
    (held = [] \<longrightarrow> Blocks (Obm s) = Blocks (Obm s0) \<and> MmBlocks s = MmBlocks s0 \<and> idle s)"
proof -
  define B0 M0 where "B0 = Blocks (Obm s0)" and "M0 = MmBlocks s0"
  have I: "irps_ok B0 M0 s0" "live s0 = {}" using idle_ok [OF start] by (simp_all add: B0_def M0_def)
  note R = requests.run_invariant [OF run I(1)]
  then have ok: "irps_ok B0 M0 s" and d: "distinct (map fst held)" and L: "live s = set (map fst held)"
    using I(2) disjoint_singletons [of fst held] by auto
  have give: "\<exists>s'. request_give g s = Some s' \<and> live s' = live s - {fst g}" if "g \<in> set held" for g
    using requests.held_release [OF run I(1) that] by blast
  have "held = [] \<Longrightarrow> Blocks (Obm s) = B0 \<and> MmBlocks s = M0 \<and> idle s"
    using all_given_back [OF ok] L by simp
  then show ?thesis using d L give unfolding B0_def M0_def by blast
qed

lemma sample_idle: "idle sample_io"
  using sample_heap_room(2) by (auto simp: idle_def mm_fresh_def heap_room_def sample_io_def)

lemma sample_request:
  "\<exists>s. request_take (0, IRP_READ, 0x1000, False, 0x2000, 4, STATUS_SUCCESS, 4) sample_io =
     Some (((0x100, 0x200, 4, 0x2000), STATUS_SUCCESS, 4), s)"
  by (simp add: request_take_def outcome_ok_def IoBuildDeviceRequest_def IoAllocateIrp_def io_alloc_eq Let_def
    upd_irp_def get_irp_def put_irp_def IopQueueThreadIrp_def zero_irp_def sample_io_def sample_ob_def no_device_def
    PAGE_SIZE_def STATUS_SUCCESS_def STATUS_PENDING_def)

theorem requests_give_everything_back_witness:
  "\<exists>s g s'. pool_run request_take request_give sample_io [g] s \<and> live s = {fst g} \<and>
     pool_run request_take request_give sample_io [] s' \<and> Blocks (Obm s') = Blocks sample_ob \<and> idle s'"
proof -
  obtain s g where "request_take (0, IRP_READ, 0x1000, False, 0x2000, 4, STATUS_SUCCESS, 4) sample_io = Some (g, s)"
    using sample_request by blast
  then have r: "pool_run request_take request_give sample_io [g] s" using pool_run.request [OF pool_run.start] by fastforce
  note T = requests_give_everything_back [OF r sample_idle]
  then obtain s' where "request_give g s = Some s'" by auto
  then have r': "pool_run request_take request_give sample_io [] s'" using pool_run.release [OF r, of g] by simp
  have "Blocks (Obm sample_io) = Blocks sample_ob" by (simp add: sample_io_def)
  moreover have "live s = {fst g}" using T by simp
  moreover have "Blocks (Obm s') = Blocks (Obm sample_io) \<and> idle s'"
    using requests_give_everything_back [OF r' sample_idle] by blast
  ultimately show ?thesis using r r' by metis
qed

end
