(* ===== verification/IoFile.thy ===== *)
theory IoFile
  imports IoReq
begin

text \<open>
  Files on top of the requests: a read delivers what the driver brings and takes nothing, and a creation
  that fails leaves its file object behind.
\<close>

subsection \<open>Steps of a request\<close>

lemma build_request_works:
  assumes r: "heap_room 2 (Obm s)" and n: "n < PAGE_SIZE \<or> MmAllocator s (MmAllocs s) (MmBlocks s) \<noteq> 0"
  obtains p s' where "IoBuildDeviceRequest dev major iosb user Buffer n s = Inr (p, s')" "p \<noteq> 0"
proof -
  define q where "q = Allocator (Obm s) (Allocs (Obm s)) (Blocks (Obm s))"
  have R: "Blocks (Obm s) \<subseteq> B \<Longrightarrow> card (B - Blocks (Obm s)) < 2 \<Longrightarrow> Allocator (Obm s) k B \<noteq> 0" for k B
    using r unfolding heap_room_def by blast
  have q0: "q \<noteq> 0" unfolding q_def by (rule R) simp_all
  have "card (insert q (Blocks (Obm s)) - Blocks (Obm s)) \<le> card {q}" by (intro card_mono) auto
  then have b0: "Allocator (Obm s) (Suc (Allocs (Obm s))) (insert q (Blocks (Obm s))) \<noteq> 0" by (intro R) auto
  note D = IoBuildDeviceRequest_def IoAllocateIrp_def io_alloc_eq mm_alloc_def Let_def upd_irp_def get_irp_def put_irp_def
    IopQueueThreadIrp_def
  have "\<exists>s'. IoBuildDeviceRequest dev major iosb user Buffer n s = Inr (q, s')"
  proof (cases "n < PAGE_SIZE")
    case True
    then show ?thesis using q0 b0 by (simp add: D q_def [symmetric])
  next
    case False
    then show ?thesis using q0 n by (simp add: D q_def [symmetric])
  qed
  then show thesis using that q0 by blast
qed

lemma put_irp_put [simp]: "put_irp p j (put_irp p i s) = put_irp p j s"
  by (simp add: put_irp_def)

lemma upd_irp_put [simp]: "upd_irp p f (put_irp p i s) = Inr (put_irp p (f i) s)"
  by (simp add: upd_irp_def get_irp_def put_irp_def)

lemma get_irp_put [simp]: "get_irp p (put_irp p i s) = Inr i"
  by (simp add: get_irp_def put_irp_def)

definition on_top :: "(stack_location \<Rightarrow> stack_location) \<Rightarrow> irp \<Rightarrow> irp" where
  "on_top f i = i\<lparr>IrpStackLocations := (IrpStackLocations i)[CurrentStackLocation i :=
     Some (f (case IrpStackLocations i ! CurrentStackLocation i of None \<Rightarrow> zero_stack | Some x \<Rightarrow> x))]\<rparr>"

lemma upd_stack_put [simp]:
  "CurrentStackLocation i < length (IrpStackLocations i) \<Longrightarrow> upd_stack p f (put_irp p i s) = Inr (put_irp p (on_top f i) s)"
  by (simp add: upd_stack_def Let_def on_top_def)

lemma put_irp_frame [simp]:
  "Obm (put_irp p i s) = Obm s" "Devices (put_irp p i s) = Devices s" "DriverObjects (put_irp p i s) = DriverObjects s"
  "FileObjects (put_irp p i s) = FileObjects s" "Buffers (put_irp p i s) = Buffers s" "ThreadIrps (put_irp p i s) = ThreadIrps s"
  "MmBlocks (put_irp p i s) = MmBlocks s" "Irps (put_irp p i s) = (Irps s)(p \<mapsto> i)"
  by (simp_all add: put_irp_def)

lemma put_irp_same: "Irps s p = Some i \<Longrightarrow> s = put_irp p i s"
  by (simp add: put_irp_def fun_upd_idem)

lemma on_top_fields [simp]:
  "length (IrpStackLocations (on_top f i)) = length (IrpStackLocations i)" "CurrentStackLocation (on_top f i) = CurrentStackLocation i"
  "IrpSize (on_top f i) = IrpSize i" "IrpFlags (on_top f i) = IrpFlags i" "MajorFunction (on_top f i) = MajorFunction i"
  "SystemBuffer (on_top f i) = SystemBuffer i" "UserBuffer (on_top f i) = UserBuffer i" "BufferLength (on_top f i) = BufferLength i"
  "UserIosb (on_top f i) = UserIosb i" "CallerThread (on_top f i) = CallerThread i" "FileObject (on_top f i) = FileObject i"
  "IrpStackSize (on_top f i) = IrpStackSize i" "CurrentLocation (on_top f i) = CurrentLocation i" "small (on_top f i) = small i"
  by (simp_all add: on_top_def small_def)

lemma copy_stack_fields [simp]:
  "length (IrpStackLocations (copy_stack i)) = length (IrpStackLocations i)" "CurrentStackLocation (copy_stack i) = CurrentStackLocation i"
  "IrpSize (copy_stack i) = IrpSize i" "IrpFlags (copy_stack i) = IrpFlags i" "MajorFunction (copy_stack i) = MajorFunction i"
  "SystemBuffer (copy_stack i) = SystemBuffer i" "UserBuffer (copy_stack i) = UserBuffer i" "BufferLength (copy_stack i) = BufferLength i"
  "UserIosb (copy_stack i) = UserIosb i" "CallerThread (copy_stack i) = CallerThread i" "FileObject (copy_stack i) = FileObject i"
  "IrpStackSize (copy_stack i) = IrpStackSize i" "CurrentLocation (copy_stack i) = CurrentLocation i" "small (copy_stack i) = small i"
  by (simp_all add: copy_stack_def small_def)

subsection \<open>Reading\<close>

text \<open>A driver that brings \<open>dat\<close>: its handler fills the system buffer and completes the request with \<open>k\<close> bytes.\<close>

definition filler :: "u8 list \<Rightarrow> u32 \<Rightarrow> u32 \<Rightarrow> irp_handler" where
  "filler dat k a dev p s = and_then (get_irp p s) (\<lambda>i.
     and_then (complete_with STATUS_SUCCESS k 0 p (s\<lparr>Buffers := overlay (Buffers s) (SystemBuffer i) (length dat) dat\<rparr>))
       (\<lambda>s'. Inr (STATUS_SUCCESS, s')))"

text \<open>The open file \<open>f\<close>, its device and the routine of the device's driver for a major function.\<close>

definition file_route :: "io \<Rightarrow> u32 \<Rightarrow> u32 \<Rightarrow> u32 \<Rightarrow> u32 \<Rightarrow> bool" where
  "file_route s f major dev a \<longleftrightarrow> file_device f s = Inr dev \<and> StackSize (Devices s dev) \<noteq> 0 \<and>
     (\<exists>d. device_driver dev s = Inr d \<and> unat major < length (IrpHandlers (DriverObjects s d)) \<and>
        IrpHandlers (DriverObjects s d) ! unat major = DriverHandler a)"

text \<open>The request of a read as the handler gets it.\<close>

definition read_irp :: "io \<Rightarrow> u32 \<Rightarrow> u32 \<Rightarrow> bool \<Rightarrow> u32 \<Rightarrow> u32 \<Rightarrow> u32 \<Rightarrow> u32 \<Rightarrow> large option \<Rightarrow> u32 \<Rightarrow> irp" where
  "read_irp s f dev user Buffer n extra iosb off b =
     on_top (\<lambda>l. l\<lparr>SlDevice := dev\<rparr>) (copy_stack (on_top (\<lambda>l. l\<lparr>Parameters := ReadWriteParams (off \<noteq> None)
         (case off of Some x \<Rightarrow> x | None \<Rightarrow> CurrentOffset (FileObjects s f))\<rparr>)
       (on_top (\<lambda>l. l\<lparr>SlDevice := dev\<rparr>)
         ((built_irp s dev IRP_READ iosb user Buffer n b)\<lparr>IrpFlags := IrpFlags (built_irp s dev IRP_READ iosb user Buffer n b) OR extra,
            FileObject := f\<rparr>))))"

lemma built_stack: "CurrentStackLocation (built_irp s dev major iosb user Buffer n b) < length (IrpStackLocations (built_irp s dev major iosb user Buffer n b))"
  by (simp add: built_irp_def zero_irp_def)

lemma read_irp_fields:
  "SystemBuffer (read_irp s f dev user Buffer n extra iosb off b) = b" "UserBuffer (read_irp s f dev user Buffer n extra iosb off b) = Buffer"
  "BufferLength (read_irp s f dev user Buffer n extra iosb off b) = n" "UserIosb (read_irp s f dev user Buffer n extra iosb off b) = iosb"
  "FileObject (read_irp s f dev user Buffer n extra iosb off b) = f" "CallerThread (read_irp s f dev user Buffer n extra iosb off b) = CurThread (Obm s)"
  "IrpFlags (read_irp s f dev user Buffer n extra iosb off b) = IRP_FLAGS_BUFFERED_IO OR IRP_FLAGS_DEALLOCATE_BUFFER OR extra"
  "small (read_irp s f dev user Buffer n extra iosb off b) \<longleftrightarrow> n < PAGE_SIZE"
  "completable (built_irp s dev IRP_READ iosb user Buffer n b) \<Longrightarrow> completable (read_irp s f dev user Buffer n extra iosb off b)"
proof -
  show "completable (built_irp s dev IRP_READ iosb user Buffer n b) \<Longrightarrow> completable (read_irp s f dev user Buffer n extra iosb off b)"
    unfolding completable_def read_irp_def by (simp add: bit_eq_iff bit_simps) blast
qed (simp_all add: read_irp_def built_irp_def zero_irp_def small_def or.assoc)

lemma read_calls_driver:
  assumes r: "file_route s f IRP_READ dev a" and acc: "ReadAccess (FileObjects s f)"
    and bld: "IoBuildDeviceRequest dev IRP_READ iosb user Buffer n s = Inr (p, s1)" "p \<noteq> 0"
    and s1: "Irps s1 p = Some (built_irp s dev IRP_READ iosb user Buffer n b)" "Devices s1 = Devices s"
      "Objs (Obm s1) = Objs (Obm s)" "FileObjects s1 = FileObjects s" "DriverObjects s1 = DriverObjects s"
  shows "IoReadFile drv user f Buffer n off flags iosb s =
    and_then (drv a dev p (put_irp p (read_irp s f dev user Buffer n (IRP_FLAGS_INPUT_OPERATION OR flags) iosb off b) s1)) (\<lambda>(Status, s7).
      let Status = final_status Status iosb s7; Offset = (case off of Some x \<Rightarrow> x | None \<Rightarrow> CurrentOffset (FileObjects s f))
      in Inr (Status, if SUCCESS Status
         then upd_file f (\<lambda>x. x\<lparr>CurrentOffset := (CurrentOffset x)\<lparr>LowPart := LowPart Offset + rd32 (Buffers s7) (iosb + 4)\<rparr>\<rparr>) s7
         else s7))"
proof -
  define i where "i = built_irp s dev IRP_READ iosb user Buffer n b"
  have e: "s1 = put_irp p i s1" using s1(1) by (simp add: put_irp_same i_def)
  define s2 where "s2 = put_irp p i s1"
  have s2: "IoBuildDeviceRequest dev IRP_READ iosb user Buffer n s = Inr (p, put_irp p i s1)" using bld e by simp
  have top: "CurrentStackLocation i < length (IrpStackLocations i)" by (simp add: i_def built_stack)
  have fd: "file_device f s = Inr dev" using r by (simp add: file_route_def)
  obtain d where d: "device_driver dev s = Inr d" "unat IRP_READ < length (IrpHandlers (DriverObjects s d))"
    "IrpHandlers (DriverObjects s d) ! unat IRP_READ = DriverHandler a" using r by (auto simp: file_route_def)
  have dd: "device_driver dev (put_irp p j s1) = Inr d" for j using d(1) s1(3) by (simp add: device_driver_def)
  have stk: "CurrentLocation i = 0" "IrpStackSize i = StackSize (Devices s dev)" "MajorFunction i = IRP_READ"
    by (simp_all add: i_def built_irp_def zero_irp_def)
  have pos: "0 < StackSize (Devices s dev)" using r by (simp add: file_route_def word_neq_0_conv)
  have pos: "StackSize (Devices s dev) \<noteq> 0" using r by (simp add: file_route_def)
  show ?thesis
    using acc top by (cases off) (simp_all add: IoReadFile_def io_transfer_def fd s2 bld(2) IoCallDriver_def dd stk pos s1 d(2) [THEN linorder_not_le [THEN iffD2]] d(3) read_irp_def
      i_def [symmetric] Let_def not_le cong: if_cong)
qed

lemma outside_iosb: "outside a 8 x \<Longrightarrow> outside a 4 x \<and> outside (a + 4) 4 (x :: u32)"
proof -
  assume "outside a 8 x"
  then have u: "8 \<le> unat (x - a)" by (simp add: outside_def word_le_nat_alt)
  have e: "x - (a + 4) = (x - a) - 4" by (simp add: algebra_simps)
  have "unat ((x - a) - 4) = unat (x - a) - 4" using u by (simp add: unat_sub word_le_nat_alt)
  then have "4 \<le> unat (x - (a + 4))" unfolding e using u by linarith
  then show ?thesis using u by (simp add: outside_def word_le_nat_alt)
qed

lemma rd32_iosb:
  "rd32 (wr32 (wr32 m a v) (a + 4) w) a = v" "rd32 (wr32 (wr32 m a v) (a + 4) w) (a + 4) = w"
proof -
  have "wr32 (wr32 m a v) (a + 4) w (a + of_nat k) = wr32 m a v (a + of_nat k)" if "k < 4" for k
  proof (rule wr32_other)
    have "k = 0 \<or> k = 1 \<or> k = 2 \<or> k = 3" using that by auto
    then show "outside (a + 4) 4 (a + of_nat k)" by (auto simp: outside_def)
  qed
  then show "rd32 (wr32 (wr32 m a v) (a + 4) w) a = v" using rd32_agree [of "wr32 (wr32 m a v) (a + 4) w" a "wr32 m a v"] rd32_wr32 by simp
qed (rule rd32_wr32)

text \<open>What the memory holds after the completion of a filled read.\<close>

lemma filled_memory:
  fixes g b Buffer iosb v w :: u32 and om :: "8 mem" and dat :: "u8 list"
  defines "m \<equiv> wr32 (wr32 (memmove (overlay om b (length dat) dat) Buffer b g) iosb v) (iosb + 4) w"
  shows "\<And>k. k < unat g \<Longrightarrow> k < length dat \<Longrightarrow> outside iosb 8 (Buffer + of_nat k) \<Longrightarrow> m (Buffer + of_nat k) = dat ! k"
    and "\<And>x. outside Buffer g x \<Longrightarrow> length dat \<le> unat (x - b) \<Longrightarrow> outside iosb 8 x \<Longrightarrow> m x = om x"
proof -
  have m: "m x = memmove (overlay om b (length dat) dat) Buffer b g x" if "outside iosb 8 x" for x
    unfolding m_def using outside_iosb [OF that] by (simp add: wr32_other)
  show "m (Buffer + of_nat k) = dat ! k" if "k < unat g" "k < length dat" "outside iosb 8 (Buffer + of_nat k)" for k
  proof -
    have u: "unat (of_nat k :: u32) = k" using that(1) unsigned_less [of g, where 'a = nat] by (simp add: unat_of_nat_u32)
    then have "\<not> outside Buffer g (Buffer + of_nat k)" using that(1) by (simp add: outside_def word_le_nat_alt)
    then show ?thesis using m [OF that(3)] that(2) u by (simp add: memmove_def overlay_apply)
  qed
  show "m x = om x" if "outside Buffer g x" "length dat \<le> unat (x - b)" "outside iosb 8 x" for x
    using m [OF that(3)] that(1,2) by (simp add: memmove_def overlay_apply Let_def)
qed

text \<open>C13: A read delivers. \<open>IoReadFile\<close> on an open file, when there is memory for the request and the
  driver's handler fills the system buffer with \<open>dat\<close> and completes the request with \<open>k\<close> bytes, returns
  success; the status block reports the smaller of \<open>k\<close> and the requested length, that many bytes of
  the user buffer hold \<open>dat\<close>, no other memory has changed but the status block and the system buffer, the offset of the
  file is behind the bytes read, and the heap, the pages and the IRP lists are as before.
\<close>

theorem read_delivers:
  assumes ok: "irps_ok B0 M0 s" and room: "heap_room 2 (Obm s)"
    and n: "n < PAGE_SIZE \<or> MmAllocator s (MmAllocs s) (MmBlocks s) \<noteq> 0"
    and r: "file_route s f IRP_READ dev a" and acc: "ReadAccess (FileObjects s f)"
    and drv: "drv a = filler dat k a" and bufs: "f \<noteq> 0" "iosb \<noteq> 0" "Buffer \<noteq> 0"
  shows "\<exists>b s'. IoReadFile drv user f Buffer n off flags iosb s = Inr (STATUS_SUCCESS, s') \<and>
    rd32 (Buffers s') iosb = STATUS_SUCCESS \<and> rd32 (Buffers s') (iosb + 4) = min k n \<and>
    (\<forall>j. j < unat (min k n) \<and> j < length dat \<and> outside iosb 8 (Buffer + of_nat j) \<longrightarrow> Buffers s' (Buffer + of_nat j) = dat ! j) \<and>
    (\<forall>x. outside Buffer (min k n) x \<and> length dat \<le> unat (x - b) \<and> outside iosb 8 x \<longrightarrow> Buffers s' x = Buffers s x) \<and>
    LowPart (CurrentOffset (FileObjects s' f)) = LowPart (case off of Some x \<Rightarrow> x | None \<Rightarrow> CurrentOffset (FileObjects s f)) + min k n \<and>
    Blocks (Obm s') = Blocks (Obm s) \<and> MmBlocks s' = MmBlocks s \<and> Irps s' = Irps s \<and> ThreadIrps s' = ThreadIrps s"
proof -
  obtain p s1 where bld: "IoBuildDeviceRequest dev IRP_READ iosb user Buffer n s = Inr (p, s1)" "p \<noteq> 0"
    by (rule build_request_works [OF room n])
  obtain b where B: "p \<notin> Blocks (Obm s)" "b \<noteq> 0"
    "Irps s1 = (Irps s)(p \<mapsto> built_irp s dev IRP_READ iosb user Buffer n b)"
    "ThreadIrps s1 = (ThreadIrps s)(CurThread (Obm s) := ThreadIrps s (CurThread (Obm s)) @ [p])"
    "Devices s1 = Devices s" "Objs (Obm s1) = Objs (Obm s)" "Buffers s1 = Buffers s"
    "FileObjects s1 = FileObjects s" "DriverObjects s1 = DriverObjects s"
    "if n < PAGE_SIZE then b \<notin> insert p (Blocks (Obm s)) \<and> Blocks (Obm s1) = insert b (insert p (Blocks (Obm s))) \<and> MmBlocks s1 = MmBlocks s
     else Blocks (Obm s1) = insert p (Blocks (Obm s)) \<and> b = MmAllocator s (MmAllocs s) (MmBlocks s) \<and> MmBlocks s1 = insert (b, n) (MmBlocks s)"
    by (rule build_request [OF bld irps_fresh [OF ok]], rule that; assumption)
  define j where "j = read_irp s f dev user Buffer n (IRP_FLAGS_INPUT_OPERATION OR flags) iosb off b"
  note jf = read_irp_fields [where s = s and f = f and dev = dev and user = user and Buffer = Buffer and n = n and iosb = iosb and off = off
    and b = b and extra = "IRP_FLAGS_INPUT_OPERATION OR flags", folded j_def]
  have c: "completable j" using r bufs B(2) by (intro jf(9) built_completable) (simp_all add: file_route_def)
  define S where "S = (put_irp p j s1)\<lparr>Buffers := overlay (Buffers s) b (length dat) dat\<rparr>"
  have SF: "Irps S p = Some j" "Obm S = Obm s1" "MmBlocks S = MmBlocks s1" by (simp_all add: S_def put_irp_def)
  have np: "Irps s p = None" using irps_blocks [OF ok] B(1) by (auto simp: domIff)
  have nb: "(b, x) \<notin> MmBlocks s" if "\<not> n < PAGE_SIZE" for x
  proof
    assume "(b, x) \<in> MmBlocks s"
    then have "MmAllocator s (MmAllocs s) (MmBlocks s) \<in> fst ` MmBlocks s" using B(10) that by force
    then show False using irps_mm_fresh [OF ok] B(2,10) that unfolding mm_fresh_def by (metis (no_types))
  qed
  have out: "outcome_ok (UserBuffer j) STATUS_SUCCESS k" using bufs by (simp add: outcome_ok_def jf STATUS_SUCCESS_def STATUS_PENDING_def)
  have inB: "p \<in> Blocks (Obm S)" using B(10) SF by (auto split: if_splits)
  have h2: "small j \<longrightarrow> SystemBuffer j \<in> Blocks (Obm S) \<and> SystemBuffer j \<noteq> p" using B(10) SF by (auto simp: jf split: if_splits)
  have h3: "\<not> small j \<longrightarrow> (SystemBuffer j, BufferLength j) \<in> MmBlocks S" using B(10) SF by (auto simp: jf split: if_splits)
  obtain s' where s': "complete_with STATUS_SUCCESS k 0 p S = Inr s'" "Irps s' = (Irps S)(p := None)"
    "ThreadIrps s' = (ThreadIrps S)(CallerThread j := remove1 p (ThreadIrps S (CallerThread j)))"
    "Blocks (Obm s') = Blocks (Obm S) - (if small j then {SystemBuffer j} else {}) - {p}"
    "MmBlocks s' = MmBlocks S - (if small j then {} else {(SystemBuffer j, BufferLength j)})"
    "Buffers s' = wr32 (wr32 (moved j STATUS_SUCCESS (got j k) (Buffers S)) (UserIosb j) STATUS_SUCCESS) (UserIosb j + 4) (got j k)"
    "FileObjects s' = (if FileObject j \<noteq> 0 then (FileObjects S)(FileObject j := (FileObjects S (FileObject j))\<lparr>FinalStatus := STATUS_SUCCESS\<rparr>)
       else FileObjects S)"
    by (rule complete_request [OF SF(1) c out inB h2 h3, of 0], rule that; assumption)
  have "bit (IrpFlags j) 4" by (simp add: jf irp_flag_defs bit_simps)
  then have "\<not> 2 ^ 4 AND IrpFlags j = 0" "bit (IrpFlags j AND (IRP_FLAGS_BUFFERED_IO OR IRP_FLAGS_INPUT_OPERATION)) 4"
    by (simp_all only: bit_test not_not) (simp add: irp_flag_defs bit_simps)
  then have fl: "IrpFlags j AND IRP_FLAGS_INPUT_OPERATION \<noteq> 0" "IrpFlags j AND (IRP_FLAGS_BUFFERED_IO OR IRP_FLAGS_INPUT_OPERATION) \<noteq> 0"
    by (auto simp: irp_flag_defs and.commute)
  have g: "got j k = min k n" using fl(1) by (auto simp: got_def jf min_def)
  have mem: "Buffers s' = wr32 (wr32 (memmove (overlay (Buffers s) b (length dat) dat) Buffer b (min k n)) iosb STATUS_SUCCESS) (iosb + 4) (min k n)"
    using s'(6) fl(2) by (simp add: g moved_def jf S_def SUCCESS_def STATUS_SUCCESS_def)
  have hnd: "drv a dev p (put_irp p j s1) = Inr (STATUS_SUCCESS, s')"
    using s'(1) B(7) by (simp add: drv filler_def jf S_def)
  have st: "final_status STATUS_SUCCESS iosb s' = STATUS_SUCCESS" by (simp add: final_status_def mem rd32_iosb)
  define Off where "Off = (case off of Some x \<Rightarrow> x | None \<Rightarrow> CurrentOffset (FileObjects s f))"
  define s2 where "s2 = upd_file f (\<lambda>x. x\<lparr>CurrentOffset := (CurrentOffset x)\<lparr>LowPart := LowPart Off + min k n\<rparr>\<rparr>) s'"
  have run: "IoReadFile drv user f Buffer n off flags iosb s = Inr (STATUS_SUCCESS, s2)"
    using read_calls_driver [OF r acc bld _ B(5,6,8,9), of b drv] B(3) hnd st
    by (simp add: j_def [symmetric] Off_def [symmetric] s2_def mem rd32_iosb SUCCESS_def STATUS_SUCCESS_def Let_def)
  have s2: "Buffers s2 = Buffers s'" "Obm s2 = Obm s'" "MmBlocks s2 = MmBlocks s'" "Irps s2 = Irps s'" "ThreadIrps s2 = ThreadIrps s'"
    "LowPart (CurrentOffset (FileObjects s2 f)) = LowPart Off + min k n"
    by (simp_all add: s2_def upd_file_def)
  have irps: "Irps s' = Irps s" using np s'(2) B(3) by (auto simp: S_def fun_eq_iff)
  have "p \<notin> set (ThreadIrps s t)" for t using irps_threads [OF ok] np by fastforce
  then have threads: "ThreadIrps s' = ThreadIrps s" using s'(3) B(4) by (auto simp: jf S_def fun_eq_iff remove1_append)
  have heap: "Blocks (Obm s') = Blocks (Obm s)" "MmBlocks s' = MmBlocks s"
    using s'(4,5) B(1,10) SF nb by (auto simp: jf split: if_splits)
  note R = rd32_iosb [of "memmove (overlay (Buffers s) b (length dat) dat) Buffer b (min k n)" iosb STATUS_SUCCESS "min k n", folded mem]
  note F = filled_memory [where om = "Buffers s" and b = b and dat = dat and Buffer = Buffer and g = "min k n" and iosb = iosb
    and v = STATUS_SUCCESS and w = "min k n", folded mem]
  show ?thesis
    unfolding Off_def [symmetric] by (intro exI [of _ b] exI [of _ s2]) (simp add: run s2 R F irps threads heap)
qed

text \<open>An open file on a device whose driver has a handler at 0x500 for everything.\<close>

definition sample_files :: io where
  "sample_files = sample_io\<lparr>Obm := sample_ob\<lparr>Objs := (Objs sample_ob)(0x90 \<mapsto> sample_obj 0 1 [] (FileBody 0x30 0 []))\<rparr>,
     DriverObjects := (\<lambda>_. \<lparr>DrvStart = 0, DrvEnd = 0, DrvFlags = 0, DrvEntry = 0, IrpHandlers = replicate 8 (DriverHandler 0x500)\<rparr>)\<rparr>"

lemma sample_files_ok:
  "idle sample_files" "heap_room 2 (Obm sample_files)" "file_route sample_files 0x90 IRP_READ 0x30 0x500"
  "ReadAccess (FileObjects sample_files 0x90)"
proof -
  show "heap_room 2 (Obm sample_files)"
    using sample_heap_room(2) by (simp add: sample_files_def heap_room_def heap_fresh_def)
  then show "idle sample_files" by (simp add: idle_def heap_room_def mm_fresh_def sample_files_def sample_io_def)
  show "file_route sample_files 0x90 IRP_READ 0x30 0x500"
    by (simp add: file_route_def file_device_def device_driver_def sample_files_def sample_io_def sample_ob_def sample_obj_def
      no_device_def IRP_READ_def)
qed (simp add: sample_files_def sample_io_def)

theorem read_delivers_witness:
  "\<exists>s'. IoReadFile (\<lambda>_. filler [7, 8, 9] 3 0x500) False 0x90 0x2000 0x10 None 0 0x1000 sample_files = Inr (STATUS_SUCCESS, s') \<and>
     rd32 (Buffers s') 0x1004 = 3 \<and> Buffers s' 0x2001 = 8 \<and> LowPart (CurrentOffset (FileObjects s' 0x90)) = 3 \<and>
     Blocks (Obm s') = Blocks sample_ob"
proof -
  have small: "(0x10 :: u32) < PAGE_SIZE" by (simp add: PAGE_SIZE_def)
  obtain s' where s': "IoReadFile (\<lambda>_. filler [7, 8, 9] 3 0x500) False 0x90 0x2000 0x10 None 0 0x1000 sample_files = Inr (STATUS_SUCCESS, s')"
    "rd32 (Buffers s') (0x1000 + 4) = min 3 0x10"
    "\<forall>j. j < unat (min 3 0x10 :: u32) \<and> j < length [7, 8, 9 :: u8] \<and> outside 0x1000 8 (0x2000 + of_nat j) \<longrightarrow>
       Buffers s' (0x2000 + of_nat j) = [7, 8, 9] ! j"
    "LowPart (CurrentOffset (FileObjects s' 0x90)) = LowPart (CurrentOffset (FileObjects sample_files 0x90)) + min 3 0x10"
    "Blocks (Obm s') = Blocks (Obm sample_files)"
    using read_delivers [OF conjunct1 [OF idle_ok [OF sample_files_ok(1)]] sample_files_ok(2) disjI1 [OF small] sample_files_ok(3,4),
        of "\<lambda>_. filler [7, 8, 9] 3 0x500" "[7, 8, 9]" 3 "0x1000" "0x2000" False None 0] by fastforce
  have "Buffers s' (0x2000 + of_nat 1) = [7, 8, 9] ! 1"
    by (rule s'(3) [rule_format]) (simp add: outside_def min_def)
  then show ?thesis using s' by (simp add: min_def sample_files_def sample_io_def zero_large_def)
qed

subsection \<open>Failed creations\<close>

lemma heap_room_alloc:
  assumes r: "heap_room (Suc m) s" and t: "Blocks t = insert (Allocator s (Allocs s) (Blocks s)) (Blocks s)" "Allocator t = Allocator s"
  shows "heap_room m t \<and> Allocator s (Allocs s) (Blocks s) \<noteq> 0 \<and> Allocator s (Allocs s) (Blocks s) \<notin> Blocks s"
proof -
  define p where "p = Allocator s (Allocs s) (Blocks s)"
  have R: "Blocks s \<subseteq> B \<Longrightarrow> card (B - Blocks s) < Suc m \<Longrightarrow> Allocator s k B \<noteq> 0" for k B
    using r unfolding heap_room_def by blast
  have f: "Allocator s n B = 0 \<or> Allocator s n B \<notin> B" "0 \<notin> Blocks s" for n B
    using r unfolding heap_room_def heap_fresh_def by blast+
  have p: "p \<noteq> 0" "p \<notin> Blocks s"
  proof -
    show "p \<noteq> 0" unfolding p_def by (rule R) simp_all
    then show "p \<notin> Blocks s" using f(1) unfolding p_def by blast
  qed
  have "Allocator s n B \<noteq> 0" if "insert p (Blocks s) \<subseteq> B" "card (B - insert p (Blocks s)) < m" for n B
  proof (rule R)
    have "B - Blocks s = insert p (B - insert p (Blocks s))" using that(1) p(2) by blast
    then have "card (B - Blocks s) \<le> Suc (card (B - insert p (Blocks s)))" by (metis card_insert_le_m1 card.infinite card_insert_disjoint finite_insert insert_absorb le_Suc_eq le_refl zero_le)
    then show "card (B - Blocks s) < Suc m" using that(2) by simp
  qed (use that in auto)
  then show ?thesis using f p by (auto simp: heap_room_def heap_fresh_def t p_def [symmetric])
qed

text \<open>An object that is in no directory is invisible to names.\<close>

definition adds_file :: "ob \<Rightarrow> u32 \<Rightarrow> ob_header \<Rightarrow> ob \<Rightarrow> bool" where
  "adds_file s f h s' \<longleftrightarrow> names_ok s \<and> Objs s f = None \<and> Objs s' = (Objs s)(f \<mapsto> h) \<and>
     (\<forall>os. Body h \<noteq> DirectoryBody os) \<and> ObjType h \<noteq> ObDirectoryObjectType s \<and> ParseRoutine (Types s (ObjType h)) = None \<and>
     ObRootObjectDirectory s' = ObRootObjectDirectory s \<and> ObDirectoryObjectType s' = ObDirectoryObjectType s \<and>
     (\<forall>t. ParseRoutine (Types s' t) = ParseRoutine (Types s t))"

lemma adds_dir_of: "adds_file s f h s' \<Longrightarrow> dir_of s' d = dir_of s d"
  by (auto simp: adds_file_def dir_of_def split: ob_body.splits)

lemma adds_entry:
  assumes a: "adds_file s f h s'"
  shows "entry s' d c = entry s d c" and "entry s d c = Some p \<Longrightarrow> p \<noteq> f \<and> obj_kind s' p = obj_kind s p"
proof -
  have live: "Objs s q \<noteq> None" "q \<noteq> f" if "dir_of s d = Some os" "q \<in> set os" for os q
    using a that unfolding adds_file_def names_ok_def by blast+
  have "find (named s' c) os = find (named s c) os" if "dir_of s d = Some os" for os
    using live [OF that] a by (intro find_cong) (auto simp: named_def adds_file_def)
  then show "entry s' d c = entry s d c" by (simp add: entry_def adds_dir_of [OF a] split: option.splits)
  assume "entry s d c = Some p"
  then obtain os where "dir_of s d = Some os" "find (named s c) os = Some p" by (auto simp: entry_def split: option.splits)
  then have "p \<noteq> f" using live by (metis find_Some_iff nth_mem)
  then show "p \<noteq> f \<and> obj_kind s' p = obj_kind s p" using a by (auto simp: adds_file_def obj_kind_def split: option.splits)
qed

lemma adds_lookup:
  assumes a: "adds_file s f h s'"
  shows "lookup n l s' d cs = lookup n l s d cs"
  using a
proof (induction n l s d cs rule: lookup.induct)
  case (2 n link s d c cs)
  have root: "ObRootObjectDirectory s' = ObRootObjectDirectory s" using 2(3) by (simp add: adds_file_def)
  show ?case
  proof (cases "entry s d c")
    case (Some p)
    note k = adds_entry(2) [OF 2(3) Some] and IH = 2(1,2) [OF Some]
    show ?thesis
      using IH [OF _ _ 2(3)] by (cases "obj_kind s p") (auto simp: adds_entry(1) [OF 2(3)] Some k root split: nat.splits)
  qed (simp add: adds_entry(1) [OF 2(3)])
qed simp

lemma adds_names_ok: "adds_file s f h s' \<Longrightarrow> names_ok s'"
  unfolding names_ok_def adds_dir_of by (auto simp: adds_file_def names_ok_def dir_of_def split: ob_body.splits)

lemma create_object_named:
  assumes r: "heap_room (Suc (Suc m)) s"
  obtains f buf s1 where "ObCreateObject body ty (Some name) tag s = Inr (STATUS_SUCCESS, f, s1)" "f \<notin> Blocks s" "buf \<notin> Blocks s" "f \<noteq> buf"
    "Objs s1 = (Objs s)(f \<mapsto> \<lparr>ParentDirectory = 0, ObjType = ty, ObjectName = name, NameBuffer = buf, Owner = CurThread s, OwnerTag = tag,
       ReferenceCount = 1, HandleCount = 0, Flags = 0, Body = body\<rparr>)"
    "Blocks s1 = insert buf (insert f (Blocks s))" "heap_room m s1" "ObRootObjectDirectory s1 = ObRootObjectDirectory s"
    "ObDirectoryObjectType s1 = ObDirectoryObjectType s" "\<forall>t. ParseRoutine (Types s1 t) = ParseRoutine (Types s t)"
proof -
  define f where "f = Allocator s (Allocs s) (Blocks s)"
  define s0 where "s0 = s\<lparr>Allocs := Allocs s + 1, Blocks := insert f (Blocks s),
    Types := (Types s)(ty := (Types s ty)\<lparr>ObjectCount := ObjectCount (Types s ty) + 1\<rparr>)\<rparr>"
  have F: "heap_room (Suc m) s0" "f \<noteq> 0" "f \<notin> Blocks s" using heap_room_alloc [OF r, of s0] by (simp_all add: s0_def f_def)
  define buf where "buf = Allocator s0 (Allocs s0) (Blocks s0)"
  define s1 where "s1 = put_obj f \<lparr>ParentDirectory = 0, ObjType = ty, ObjectName = name, NameBuffer = buf, Owner = CurThread s, OwnerTag = tag,
       ReferenceCount = 1, HandleCount = 0, Flags = 0, Body = body\<rparr> (s0\<lparr>Allocs := Allocs s0 + 1, Blocks := insert buf (Blocks s0)\<rparr>)"
  have B: "heap_room m s1" "buf \<noteq> 0" "buf \<notin> Blocks s0"
    using heap_room_alloc [OF F(1), of s1] by (simp_all add: s1_def buf_def put_obj_def)
  have "ObCreateObject body ty (Some name) tag s = Inr (STATUS_SUCCESS, f, s1)"
    using F(2) B(2) by (simp add: ObCreateObject_def ob_alloc_def Let_def alloc_unchecked_def f_def [symmetric] s1_def s0_def buf_def)
  moreover have "Objs s1 = (Objs s)(f \<mapsto> \<lparr>ParentDirectory = 0, ObjType = ty, ObjectName = name, NameBuffer = buf, Owner = CurThread s,
      OwnerTag = tag, ReferenceCount = 1, HandleCount = 0, Flags = 0, Body = body\<rparr>)" "Blocks s1 = insert buf (insert f (Blocks s))"
    "ObRootObjectDirectory s1 = ObRootObjectDirectory s" "ObDirectoryObjectType s1 = ObDirectoryObjectType s"
    "\<forall>t. ParseRoutine (Types s1 t) = ParseRoutine (Types s t)"
    by (simp_all add: s1_def s0_def put_obj_def)
  ultimately show thesis using F(3) B by (intro that) (auto simp: s0_def)
qed

text \<open>C14: A failed open leaks. When the name of \<open>IoCreateFile\<close> leads nowhere, the status is
  \<open>STATUS_NOT_FOUND\<close> and no file is returned, but the file object that was created first stays, with its
  reference count of one, and so do its two heap blocks: \<open>ObpDeleteObjectInternal\<close> refuses to delete
  an object that is referenced.
\<close>

theorem failed_open_leaks:
  assumes names: "names_ok (Obm s)" and live: "dom (Objs (Obm s)) \<subseteq> Blocks (Obm s)" and room: "heap_room 4 (Obm s)"
    and type: "IoFileObjectType s \<noteq> ObDirectoryObjectType (Obm s)" "ParseRoutine (Types (Obm s) (IoFileObjectType s)) = None"
    and missing: "lookup MAX_LINKS False (Obm s) (ObRootObjectDirectory (Obm s)) (split_path path) = Missing"
  shows "\<exists>f buf h s'. IoCreateFile drv access (BACKSLASH # path) iosb disp opts s = Some (Inr (STATUS_NOT_FOUND, 0, s')) \<and>
    Objs (Obm s) f = None \<and> Objs (Obm s') = (Objs (Obm s))(f \<mapsto> h) \<and> ReferenceCount h = 1 \<and>
    Blocks (Obm s') = insert buf (insert f (Blocks (Obm s))) \<and> f \<noteq> buf \<and> {f, buf} \<inter> Blocks (Obm s) = {}"
proof -
  have "heap_room (Suc (Suc 2)) (Obm s)" using room by (simp add: numeral_eq_Suc)
  then obtain f buf s1 where c: "ObCreateObject (FileBody 0 0 []) (IoFileObjectType s) (Some (BACKSLASH # path)) OB_OBJECT_OWNER_IO (Obm s)
      = Inr (STATUS_SUCCESS, f, s1)" "f \<notin> Blocks (Obm s)" "buf \<notin> Blocks (Obm s)" "f \<noteq> buf"
    and s1: "Objs s1 = (Objs (Obm s))(f \<mapsto> \<lparr>ParentDirectory = 0, ObjType = IoFileObjectType s, ObjectName = BACKSLASH # path, NameBuffer = buf,
       Owner = CurThread (Obm s), OwnerTag = OB_OBJECT_OWNER_IO, ReferenceCount = 1, HandleCount = 0, Flags = 0, Body = FileBody 0 0 []\<rparr>)"
    "Blocks s1 = insert buf (insert f (Blocks (Obm s)))" "heap_room 2 s1" "ObRootObjectDirectory s1 = ObRootObjectDirectory (Obm s)"
    "ObDirectoryObjectType s1 = ObDirectoryObjectType (Obm s)" "\<forall>t. ParseRoutine (Types s1 t) = ParseRoutine (Types (Obm s) t)"
    by (rule create_object_named)
  define h where "h = \<lparr>ParentDirectory = 0, ObjType = IoFileObjectType s, ObjectName = BACKSLASH # path, NameBuffer = buf,
       Owner = CurThread (Obm s), OwnerTag = OB_OBJECT_OWNER_IO, ReferenceCount = 1, HandleCount = 0, Flags = 0, Body = FileBody 0 0 []\<rparr>"
  have h: "ReferenceCount h = 1" "Objs s1 = (Objs (Obm s))(f \<mapsto> h)" using s1(1) by (simp_all add: h_def)
  have nf: "Objs (Obm s) f = None" using live c(2) by (auto simp: domIff)
  have a: "adds_file (Obm s) f h s1" using names nf type s1(4-6) h(2) by (simp add: adds_file_def h_def)
  have "lookup MAX_LINKS False s1 (ObRootObjectDirectory s1) (split_path path) = Missing"
    using missing by (simp add: adds_lookup [OF a] s1(4))
  then obtain k where k: "ObReferenceObjectByName (BACKSLASH # path) (IoDeviceObjectType s) False PACKET s1 = Inr (STATUS_NOT_FOUND, 0, s1\<lparr>Allocs := k\<rparr>)"
    using reference_by_name_ctx [OF adds_names_ok [OF a] s1(3), of PACKET path False "IoDeviceObjectType s"]
    by (auto simp: answers_def st_def PACKET_def)
  define s' where "s' = s\<lparr>Obm := s1\<lparr>Allocs := k\<rparr>\<rparr>"
  have "ObpDeleteObjectInternal f (s1\<lparr>Allocs := k\<rparr>) = Inr (STATUS_IN_USE, s1\<lparr>Allocs := k\<rparr>)"
    using h by (simp add: ObpDeleteObjectInternal_def get_obj_def)
  then have "IoCreateFile drv access (BACKSLASH # path) iosb disp opts s = Some (Inr (STATUS_NOT_FOUND, 0, s'))"
    using c(1) k by (simp add: IoCreateFile_def in_ob2_def in_ob1_def s'_def SUCCESS_def STATUS_SUCCESS_def STATUS_NOT_FOUND_def)
  then show ?thesis using nf c s1(2) h by (intro exI [of _ f] exI [of _ buf] exI [of _ h] exI [of _ s']) (simp add: s'_def)
qed

definition roomy_io :: io where
  "roomy_io = sample_io\<lparr>Obm := sample_ob\<lparr>Allocator := (\<lambda>n B. case find (\<lambda>p. p \<notin> B) [0x100, 0x200, 0x300, 0x400] of None \<Rightarrow> 0 | Some p \<Rightarrow> p)\<rparr>\<rparr>"

lemma roomy_ok: "heap_room 4 (Obm roomy_io)"
proof -
  have R: "Allocator (Obm roomy_io) n B \<noteq> 0" if B: "Blocks sample_ob \<subseteq> B" "card (B - Blocks sample_ob) < 4" for n B
  proof
    assume "Allocator (Obm roomy_io) n B = 0"
    then have "{0x100, 0x200, 0x300, 0x400} \<subseteq> B - Blocks sample_ob" by (auto simp: roomy_io_def sample_ob_def split: if_splits)
    from card_mono [OF finite this] B(2) show False by simp
  qed
  have e: "Blocks (Obm roomy_io) = Blocks sample_ob" "0 \<notin> Blocks sample_ob" by (simp_all add: roomy_io_def sample_ob_def)
  show ?thesis
    unfolding heap_room_def heap_fresh_def
  proof (intro conjI allI impI)
    fix n B
    show "Allocator (Obm roomy_io) n B = 0 \<or> Allocator (Obm roomy_io) n B \<notin> B"
      by (auto simp: roomy_io_def find_Some_iff split: option.splits)
  qed (use R e in simp_all)
qed

theorem failed_open_leaks_witness:
  "\<exists>f s'. IoCreateFile (\<lambda>_ _ _ s. Inr (STATUS_SUCCESS, s)) 8 [0x5C, 0x5A] 0x1000 1 0 roomy_io = Some (Inr (STATUS_NOT_FOUND, 0, s')) \<and> Objs (Obm s') f \<noteq> None \<and>
     Objs (Obm roomy_io) f = None"
proof -
  have o: "Obm roomy_io = sample_ob\<lparr>Allocator := Allocator (Obm roomy_io)\<rparr>" "IoFileObjectType roomy_io = 0"
    by (simp_all add: roomy_io_def sample_io_def)
  have n: "names_ok (Obm roomy_io)" using sample_names_ok by (subst o) (simp add: names_ok_def dir_of_def)
  have "entry (Obm roomy_io) 0x10 [0x5A] = None"
    by (subst o) (simp add: entry_def dir_of_def named_def wcs_def sample_ob_def sample_obj_def)
  moreover have root: "ObRootObjectDirectory (Obm roomy_io) = 0x10" by (subst o) (simp add: sample_ob_def)
  moreover have "split_path [0x5A] = [[0x5A]]" using split_path_last [of "[0x5A]"] by (simp add: BACKSLASH_def)
  ultimately have "lookup MAX_LINKS False (Obm roomy_io) (ObRootObjectDirectory (Obm roomy_io)) (split_path [0x5A]) = Missing"
    using root by simp
  moreover have "dom (Objs (Obm roomy_io)) \<subseteq> Blocks (Obm roomy_io)" "IoFileObjectType roomy_io \<noteq> ObDirectoryObjectType (Obm roomy_io)"
    "ParseRoutine (Types (Obm roomy_io) (IoFileObjectType roomy_io)) = None"
    by (auto simp: roomy_io_def sample_io_def sample_ob_def split: if_splits)
  ultimately obtain f h s' where "IoCreateFile (\<lambda>_ _ _ s. Inr (STATUS_SUCCESS, s)) 8 (BACKSLASH # [0x5A]) 0x1000 1 0 roomy_io = Some (Inr (STATUS_NOT_FOUND, 0, s'))"
    "Objs (Obm roomy_io) f = None" "Objs (Obm s') = (Objs (Obm roomy_io))(f \<mapsto> h)"
    using failed_open_leaks [OF n _ roomy_ok, of "[0x5A]" "\<lambda>_ _ _ s. Inr (STATUS_SUCCESS, s)" 8 "0x1000" 1 0] by blast
  then show ?thesis unfolding BACKSLASH_def by (intro exI [of _ f] exI [of _ s']) simp
qed

end
