(* ===== verification/Cc.thy ===== *)
theory Cc
  imports Bytes
begin

text \<open>
  The cache manager (\<^verbatim>\<open>kernel/cc.cpp\<close>, \<^verbatim>\<open>kernel/inc/cc.h\<close>). The state is that of one file: its
  flags, its cache map, the memory with the page buffers, and the heap blocks and pages that are allocated.
  The list \<open>PageCacheMap\<close> is the array of \<open>MaxCachedPages\<close> entries. The callbacks read and write a
  cluster; they are code of a driver and arguments of the definitions. What \<open>Inl\<close> holds ends the run: a NULL
  pointer, a value that was never set, a division by zero, a lock that the caller holds. The dirty bit that
  \<open>CcpCacheFilePage\<close> clears in the page table is not part of the state.
\<close>

subsection \<open>Data\<close>

definition FILE_NONCACHED :: u32 where "FILE_NONCACHED = 0x40 OR 0x80"
definition MIN_CACHED_PAGES :: u32 where "MIN_CACHED_PAGES = 32"
definition MAX_CACHED_PAGES :: u32 where "MAX_CACHED_PAGES = 1024"
definition CC_CACHED_PAGE_USECOUNT_INITIAL_TRESHOLD :: u32 where "CC_CACHED_PAGE_USECOUNT_INITIAL_TRESHOLD = 0"
definition CC_CACHED_PAGE_REBUILD_COUNT_TRESHOLD :: u32 where "CC_CACHED_PAGE_REBUILD_COUNT_TRESHOLD = 10"
definition CC_CACHE_MAP_REBUILD_FREQUENCY :: u32 where "CC_CACHE_MAP_REBUILD_FREQUENCY = 4"
definition CC_DISABLE_CACHE_REBUILDING :: bool where "CC_DISABLE_CACHE_REBUILDING \<longleftrightarrow> True"

record cached_page =
  Cached :: bool
  Modified :: bool
  WriteError :: bool
  PageUseCount :: "13 word"
  PageNumber :: u32
  PgStatus :: status
  PgBuffer :: u32

definition zero_page :: cached_page where
  "zero_page = \<lparr>Cached = False, Modified = False, WriteError = False, PageUseCount = 0, PageNumber = 0, PgStatus = 0, PgBuffer = 0\<rparr>"

text \<open>\<open>MapAt\<close> and \<open>ArrayAt\<close> are the addresses of the map and of its array; of the callbacks the map keeps whether they are NULL.\<close>

record cache_map =
  CacheMapLock :: bool
  CachedPages :: u32
  MaxCachedPages :: u32
  RebuildCount :: u32
  ClusterSize :: u32
  ClustersPerPage :: u8
  ShouldRebuild :: u32
  HasRead :: bool
  HasWrite :: bool
  PageCacheMap :: "cached_page list"
  MapAt :: u32
  ArrayAt :: u32

record 'd cc =
  FileMap :: "cache_map option"
  ReadThrough :: bool
  WriteThrough :: bool
  DesiredAccess :: u32
  CcMem :: "8 mem"
  CcDev :: 'd
  HeapAlloc :: "nat \<Rightarrow> u32 set \<Rightarrow> u32"
  HeapAllocs :: nat
  HeapBlocks :: "u32 set"
  PageAlloc :: "nat \<Rightarrow> u32 set \<Rightarrow> u32"
  PageAllocs :: nat
  Pages :: "u32 set"

datatype cc_stop = CcNull | CcNotInitialised | CcDivides | CcWaits | CcAsserts | CcBadFree u32 | CcNeverEnds | CallbackStops

type_synonym 'a cc_result = "cc_stop + 'a"

text \<open>A callback: cluster, buffer and size, memory and device before; status, memory and device after.\<close>

type_synonym 'd callback = "u32 \<Rightarrow> u32 \<Rightarrow> u32 \<Rightarrow> 8 mem \<Rightarrow> 'd \<Rightarrow> (status \<times> 8 mem \<times> 'd) cc_result"

subsection \<open>Memory\<close>

definition heap_alloc :: "'d cc \<Rightarrow> u32 \<times> 'd cc" where
  "heap_alloc s = (let p = HeapAlloc s (HeapAllocs s) (HeapBlocks s) in
     (p, s\<lparr>HeapAllocs := HeapAllocs s + 1, HeapBlocks := (if p = 0 then HeapBlocks s else insert p (HeapBlocks s))\<rparr>))"

definition heap_free :: "u32 \<Rightarrow> 'd cc \<Rightarrow> 'd cc cc_result" where
  "heap_free p s = (if p \<in> HeapBlocks s then Inr (s\<lparr>HeapBlocks := HeapBlocks s - {p}\<rparr>) else Inl (CcBadFree p))"

text \<open>\<open>ExReallocHeap\<close>: the block stays where it is, or a new one is found and the old one is given back, or there is
  none; the allocator may answer the old address.\<close>

definition heap_realloc :: "u32 \<Rightarrow> 'd cc \<Rightarrow> u32 \<times> 'd cc" where
  "heap_realloc old s = (let p = HeapAlloc s (HeapAllocs s) (HeapBlocks s - {old}) in
     (p, s\<lparr>HeapAllocs := HeapAllocs s + 1, HeapBlocks := (if p = 0 then HeapBlocks s else insert p (HeapBlocks s - {old}))\<rparr>))"

definition MmAllocatePage :: "'d cc \<Rightarrow> u32 \<times> 'd cc" where
  "MmAllocatePage s = (let p = PageAlloc s (PageAllocs s) (Pages s) in
     (p, s\<lparr>PageAllocs := PageAllocs s + 1, Pages := (if p = 0 then Pages s else insert p (Pages s))\<rparr>))"

definition MmFreePage :: "u32 \<Rightarrow> 'd cc \<Rightarrow> 'd cc cc_result" where
  "MmFreePage p s = (if p \<in> Pages s then Inr (s\<lparr>Pages := Pages s - {p}\<rparr>) else Inl (CcBadFree p))"

definition copy :: "u32 \<Rightarrow> u32 \<Rightarrow> u32 \<Rightarrow> 'd cc \<Rightarrow> 'd cc cc_result" where
  "copy dst src n s =
     (if n = 0 then Inr s else if dst = 0 \<or> src = 0 then Inl CcNull else Inr (s\<lparr>CcMem := memmove (CcMem s) dst src n\<rparr>))"

subsection \<open>The cache map\<close>

definition the_map :: "'d cc \<Rightarrow> cache_map cc_result" where
  "the_map s = (case FileMap s of None \<Rightarrow> Inl CcNull | Some m \<Rightarrow> Inr m)"

definition upd_map :: "(cache_map \<Rightarrow> cache_map) \<Rightarrow> 'd cc \<Rightarrow> 'd cc" where
  "upd_map f s = s\<lparr>FileMap := map_option f (FileMap s)\<rparr>"

definition upd_page :: "nat \<Rightarrow> (cached_page \<Rightarrow> cached_page) \<Rightarrow> 'd cc \<Rightarrow> 'd cc" where
  "upd_page i f = upd_map (\<lambda>m. m\<lparr>PageCacheMap := (PageCacheMap m)[i := f (PageCacheMap m ! i)]\<rparr>)"

definition lock_map :: "'d cc \<Rightarrow> 'd cc cc_result" where
  "lock_map s = and_then (the_map s) (\<lambda>m. if CacheMapLock m then Inl CcWaits else Inr (upd_map (\<lambda>m. m\<lparr>CacheMapLock := True\<rparr>) s))"

definition unlock_map :: "'d cc \<Rightarrow> 'd cc" where
  "unlock_map = upd_map (\<lambda>m. m\<lparr>CacheMapLock := False\<rparr>)"

definition IS_FILE_CACHED :: "'d cc \<Rightarrow> bool" where
  "IS_FILE_CACHED s \<longleftrightarrow> \<not> ReadThrough s \<or> \<not> WriteThrough s"

definition SET_FILE_NONCACHED :: "'d cc \<Rightarrow> 'd cc" where
  "SET_FILE_NONCACHED s = s\<lparr>ReadThrough := True, WriteThrough := True\<rparr>"

text \<open>Without memory for the map the file is used without a cache.\<close>

definition no_cache :: "'d cc \<Rightarrow> 'd cc" where
  "no_cache s = (let s1 = SET_FILE_NONCACHED (s\<lparr>FileMap := None\<rparr>) in s1\<lparr>DesiredAccess := DesiredAccess s1 OR FILE_NONCACHED\<rparr>)"

definition CcInitializeFileCaching :: "u32 \<Rightarrow> bool \<Rightarrow> bool \<Rightarrow> 'd cc \<Rightarrow> (status \<times> 'd cc) cc_result" where
  "CcInitializeFileCaching csize reads writes s =
     (if csize < PAGE_SIZE \<and> csize = 0 then Inl CcDivides
      else if csize < PAGE_SIZE \<and> PAGE_SIZE mod csize \<noteq> 0 then Inr (STATUS_INVALID_PARAMETER, s)
      else
        let (p, s1) = heap_alloc s
        in if p = 0 then Inr (STATUS_INSUFFICIENT_RESOURCES, no_cache s1)
           else
             let m = \<lparr>CacheMapLock = False, CachedPages = 0, MaxCachedPages = MIN_CACHED_PAGES, RebuildCount = 0, ClusterSize = csize,
                  ClustersPerPage = (if csize < PAGE_SIZE then ucast (PAGE_SIZE div csize) else 0), ShouldRebuild = 0,
                  HasRead = reads, HasWrite = writes, PageCacheMap = [], MapAt = p, ArrayAt = 0\<rparr>
             in if IS_FILE_CACHED s1
                then let (q, s2) = heap_alloc s1
                     in if q = 0 then and_then (heap_free p s2) (\<lambda>s3. Inr (STATUS_INSUFFICIENT_RESOURCES, no_cache s3))
                        else Inr (STATUS_SUCCESS, s2\<lparr>FileMap :=
                               Some (m\<lparr>PageCacheMap := replicate (unat MIN_CACHED_PAGES) zero_page, ArrayAt := q\<rparr>)\<rparr>)
                else Inr (STATUS_SUCCESS, s1\<lparr>FileMap := Some (m\<lparr>MaxCachedPages := 0\<rparr>)\<rparr>))"

subsection \<open>Reading and writing pages of the device\<close>

definition callback :: "'d callback \<Rightarrow> u32 \<Rightarrow> u32 \<Rightarrow> u32 \<Rightarrow> 'd cc \<Rightarrow> (status \<times> 'd cc) cc_result" where
  "callback f cl buf n s = and_then (f cl buf n (CcMem s) (CcDev s)) (\<lambda>(Status, mem, d). Inr (Status, s\<lparr>CcMem := mem, CcDev := d\<rparr>))"

text \<open>The loops over the clusters of a page; the status is that of the last one.\<close>

fun write_loop :: "'d callback \<Rightarrow> cache_map \<Rightarrow> cached_page \<Rightarrow> u32 \<Rightarrow> nat \<Rightarrow> status cc_result \<Rightarrow> 'd cc \<Rightarrow> (status \<times> 'd cc) cc_result" where
  "write_loop wr m Page i 0 Status s = and_then Status (\<lambda>st. Inr (st, s))"
| "write_loop wr m Page i (Suc n) Status s =
     and_then (callback wr (PageNumber Page * ucast (ClustersPerPage m) + i) (PgBuffer Page + i * ClusterSize m) (ClusterSize m) s)
       (\<lambda>(st, s1). write_loop wr m Page (i + 1) n (Inr st) s1)"

definition CcpActualWritePage :: "'d callback \<Rightarrow> nat \<Rightarrow> 'd cc \<Rightarrow> (status \<times> 'd cc) cc_result" where
  "CcpActualWritePage wr k s = and_then (the_map s) (\<lambda>m.
     if \<not> HasWrite m then Inr (STATUS_NOT_SUPPORTED, s)
     else write_loop wr m (PageCacheMap m ! k) 0 (unat (ClustersPerPage m)) (Inl CcNotInitialised) s)"

fun read_loop :: "'d callback \<Rightarrow> cache_map \<Rightarrow> u32 \<Rightarrow> u32 \<Rightarrow> u32 \<Rightarrow> nat \<Rightarrow> status cc_result \<Rightarrow> 'd cc \<Rightarrow> (status \<times> 'd cc) cc_result" where
  "read_loop rd m PN Buffer i 0 Status s = and_then Status (\<lambda>st. Inr (st, s))"
| "read_loop rd m PN Buffer i (Suc n) Status s =
     and_then (callback rd (PN * ucast (ClustersPerPage m) + i) (Buffer + i * ClusterSize m) (ClusterSize m) s) (\<lambda>(st, s1).
       if st = STATUS_END_OF_FILE then Inr (STATUS_SUCCESS, s1)
       else if st = STATUS_NO_MEDIA_IN_DEVICE then Inr (st, s1)
       else read_loop rd m PN Buffer (i + 1) n (Inr st) s1)"

definition CcpActualReadPage :: "'d callback \<Rightarrow> u32 \<Rightarrow> u32 \<Rightarrow> 'd cc \<Rightarrow> (status \<times> 'd cc) cc_result" where
  "CcpActualReadPage rd PN Buffer s = and_then (the_map s) (\<lambda>m.
     if \<not> HasRead m then Inr (STATUS_NOT_SUPPORTED, s)
     else read_loop rd m PN Buffer 0 (unat (ClustersPerPage m)) (Inl CcNotInitialised) s)"

text \<open>The result of a write is noted in the entry: the page is clean, or the error is kept.\<close>

definition write_back :: "'d callback \<Rightarrow> nat \<Rightarrow> 'd cc \<Rightarrow> (status \<times> 'd cc) cc_result" where
  "write_back wr k s = and_then (CcpActualWritePage wr k s) (\<lambda>(Status, s1).
     Inr (Status, upd_page k (\<lambda>e. if SUCCESS Status then e\<lparr>Modified := False\<rparr> else e\<lparr>WriteError := True, PgStatus := Status\<rparr>) s1))"

subsection \<open>Rebuilding\<close>

text \<open>What \<open>CcpRebuildCacheMap\<close> does with entry \<open>k\<close>; the number is that of deleted pages.\<close>

definition rebuild_page :: "'d callback \<Rightarrow> bool \<Rightarrow> u32 \<Rightarrow> nat \<Rightarrow> 'd cc \<Rightarrow> (nat \<times> 'd cc) cc_result" where
  "rebuild_page wr Force UseCountTreshold k s = and_then (the_map s) (\<lambda>m.
     if \<not> Cached (PageCacheMap m ! k) then Inr (0, s)
     else
       let s1 = (if PageUseCount (PageCacheMap m ! k) \<noteq> 0 then upd_page k (\<lambda>e. e\<lparr>PageUseCount := PageUseCount e - 1\<rparr>) s else s);
           unused = (\<lambda>e. ucast (PageUseCount e) \<le> UseCountTreshold);
           old = (CC_CACHED_PAGE_REBUILD_COUNT_TRESHOLD \<le> RebuildCount m)
       in and_then (the_map s1) (\<lambda>m1. let e1 = PageCacheMap m1 ! k in
          and_then (if unused e1 \<and> Modified e1 \<and> old \<and> \<not> Force then and_then (write_back wr k s1) (\<lambda>(_, s2). Inr s2) else Inr s1) (\<lambda>s2.
          if unused e1 \<and> (old \<or> Force)
          then
            and_then (the_map s2) (\<lambda>m2.
            and_then (if Modified (PageCacheMap m2 ! k) then and_then (write_back wr k s2) (\<lambda>(_, s3). Inr s3) else Inr s2) (\<lambda>s3.
            and_then (the_map s3) (\<lambda>m3. let e3 = PageCacheMap m3 ! k in
            if \<not> Modified e3 \<and> \<not> WriteError e3
            then and_then (MmFreePage (PgBuffer e3) (upd_page k (\<lambda>e. e\<lparr>Cached := False\<rparr>) s3)) (\<lambda>s4.
                   Inr (1, upd_map (\<lambda>m. m\<lparr>CachedPages := CachedPages m - 1\<rparr>) s4))
            else Inr (0, s3))))
          else Inr (0, s2))))"

fun rebuild_pass :: "'d callback \<Rightarrow> bool \<Rightarrow> u32 \<Rightarrow> nat \<Rightarrow> nat \<Rightarrow> nat \<Rightarrow> 'd cc \<Rightarrow> (nat \<times> 'd cc) cc_result" where
  "rebuild_pass wr Force UseCountTreshold k 0 PagesDeleted s = Inr (PagesDeleted, s)"
| "rebuild_pass wr Force UseCountTreshold k (Suc n) PagesDeleted s =
     and_then (rebuild_page wr Force UseCountTreshold k s) (\<lambda>(d, s1).
       rebuild_pass wr Force UseCountTreshold (Suc k) n (PagesDeleted + d) s1)"

text \<open>The jumps to \<open>_rebuild\<close>: they need not end when pages cannot be written.\<close>

partial_function (option) rebuild_loop :: "'d callback \<Rightarrow> bool \<Rightarrow> nat \<Rightarrow> u32 \<Rightarrow> 'd cc \<Rightarrow> 'd cc cc_result option" where
  "rebuild_loop wr Force n UseCountTreshold s =
     (let r = rebuild_pass wr Force UseCountTreshold 0 n 0 s
      in if Force \<and> (case r of Inl _ \<Rightarrow> False | Inr (d, _) \<Rightarrow> d = 0) then rebuild_loop wr Force n (UseCountTreshold + 1) (snd (projr r))
         else Some (and_then r (\<lambda>(d, s1). Inr s1)))"

definition CcpRebuildCacheMap :: "'d callback \<Rightarrow> bool \<Rightarrow> 'd cc \<Rightarrow> 'd cc cc_result" where
  "CcpRebuildCacheMap wr ForceReduceMap s =
     (if CC_DISABLE_CACHE_REBUILDING then Inr s
      else and_then (lock_map s) (\<lambda>s1.
        and_then (the_map s1) (\<lambda>m.
        case rebuild_loop wr ForceReduceMap (unat (MaxCachedPages m)) CC_CACHED_PAGE_USECOUNT_INITIAL_TRESHOLD s1 of
          None \<Rightarrow> Inl CcNeverEnds
        | Some r \<Rightarrow> and_then r (\<lambda>s2. Inr (unlock_map (upd_map (\<lambda>m. m\<lparr>RebuildCount := RebuildCount m + 1\<rparr>) s2))))))"

subsection \<open>Adding a page\<close>

text \<open>The first entry that satisfies a condition.\<close>

fun scan :: "(cached_page \<Rightarrow> bool) \<Rightarrow> cached_page list \<Rightarrow> nat option" where
  "scan P [] = None"
| "scan P (e # es) = (if P e then Some 0 else map_option Suc (scan P es))"

text \<open>The array is doubled when it is full.\<close>

definition grow_map :: "'d callback \<Rightarrow> 'd cc \<Rightarrow> 'd cc cc_result" where
  "grow_map wr s = and_then (the_map s) (\<lambda>m.
     if CachedPages m \<noteq> MaxCachedPages m then Inr s
     else and_then (if MaxCachedPages m = MAX_CACHED_PAGES then CcpRebuildCacheMap wr True s else Inr s) (\<lambda>s1.
       and_then (the_map s1) (\<lambda>m1.
       let (p, s2) = heap_realloc (ArrayAt m1) s1
       in if p = 0 then CcpRebuildCacheMap wr True s2
          else Inr (upd_map (\<lambda>m. m\<lparr>MaxCachedPages := MaxCachedPages m * 2, ArrayAt := p,
                 PageCacheMap := PageCacheMap m @ replicate (length (PageCacheMap m)) zero_page\<rparr>) s2))))"

definition CcpCacheFilePage :: "'d callback \<Rightarrow> u32 \<Rightarrow> u32 \<Rightarrow> 'd cc \<Rightarrow> (status \<times> 'd cc) cc_result" where
  "CcpCacheFilePage wr PN PageBuffer s =
     and_then (the_map s) (\<lambda>_.
     and_then (grow_map wr (upd_map (\<lambda>m. m\<lparr>CachedPages := CachedPages m + 1\<rparr>) s)) (\<lambda>s1.
     and_then (the_map s1) (\<lambda>m.
     case scan (\<lambda>e. \<not> Cached e) (PageCacheMap m) of
       None \<Rightarrow> Inr (STATUS_UNSUCCESSFUL, s1)
     | Some k \<Rightarrow>
         let s2 = upd_page k (\<lambda>e. e\<lparr>Cached := True, Modified := False, PageNumber := PN, PageUseCount := 1\<rparr>) s1;
             (b, s3) = MmAllocatePage s2;
             s4 = upd_page k (\<lambda>e. e\<lparr>PgBuffer := b\<rparr>) s3
         in if b = 0 then Inr (STATUS_INSUFFICIENT_RESOURCES, upd_page k (\<lambda>e. e\<lparr>Cached := False\<rparr>) s4)
            else and_then (copy b PageBuffer PAGE_SIZE s4) (\<lambda>s5. Inr (STATUS_SUCCESS, s5)))))"

subsection \<open>Writing back and giving up the cache\<close>

fun purge_loop :: "'d callback \<Rightarrow> nat \<Rightarrow> nat \<Rightarrow> status \<Rightarrow> 'd cc \<Rightarrow> (status \<times> 'd cc) cc_result" where
  "purge_loop wr k 0 Status s = Inr (Status, s)"
| "purge_loop wr k (Suc n) Status s = and_then (the_map s) (\<lambda>m.
     let e = PageCacheMap m ! k
     in if Cached e \<and> Modified e
        then and_then (write_back wr k s) (\<lambda>(st, s1). if \<not> SUCCESS st then Inr (st, s1) else purge_loop wr (Suc k) n st s1)
        else purge_loop wr (Suc k) n Status s)"

definition CcPurgeCacheFile :: "'d callback \<Rightarrow> 'd cc \<Rightarrow> (status \<times> 'd cc) cc_result" where
  "CcPurgeCacheFile wr s = and_then (lock_map s) (\<lambda>s1.
     and_then (the_map s1) (\<lambda>m.
     and_then (purge_loop wr 0 (unat (MaxCachedPages m)) STATUS_SUCCESS s1) (\<lambda>(Status, s2). Inr (Status, unlock_map s2))))"

text \<open>At most \<open>CachedPages\<close> pages are freed: \<open>j\<close> counts them.\<close>

fun free_loop :: "nat \<Rightarrow> nat \<Rightarrow> u32 \<Rightarrow> 'd cc \<Rightarrow> 'd cc cc_result" where
  "free_loop k 0 j s = Inr s"
| "free_loop k (Suc n) j s = and_then (the_map s) (\<lambda>m.
     if \<not> j < CachedPages m then Inr s
     else if Cached (PageCacheMap m ! k)
          then and_then (MmFreePage (PgBuffer (PageCacheMap m ! k)) s) (\<lambda>s1.
                 free_loop (Suc k) n (j + 1) (upd_page k (\<lambda>e. e\<lparr>Cached := False\<rparr>) s1))
          else free_loop (Suc k) n j s)"

definition CcFreeCacheMap :: "'d callback \<Rightarrow> 'd cc \<Rightarrow> (status \<times> 'd cc) cc_result" where
  "CcFreeCacheMap wr s =
     and_then (if IS_FILE_CACHED s then CcPurgeCacheFile wr s else Inr (STATUS_SUCCESS, s)) (\<lambda>(Status, s1).
     if IS_FILE_CACHED s \<and> \<not> SUCCESS Status then Inr (Status, s1)
     else
       and_then
         (if IS_FILE_CACHED s then
            and_then (lock_map s1) (\<lambda>s2.
            and_then (the_map s2) (\<lambda>m.
            and_then (free_loop 0 (unat (MaxCachedPages m)) 0 s2) (\<lambda>s3. heap_free (ArrayAt m) (unlock_map s3))))
          else Inr s1) (\<lambda>s4.
       and_then (the_map s4) (\<lambda>m.
       and_then (heap_free (MapAt m) s4) (\<lambda>s5. Inr (STATUS_SUCCESS, no_cache s5)))))"

subsection \<open>Reading and writing through the cache\<close>

text \<open>
  \<open>CcpFindAndReadWrite\<close> from \<open>_repeat_read\<close> on. The page number, the offset, the buffer and the size are
  in-out arguments; \<open>n\<close> is \<open>*nBytesRead\<close>. Only the last page of a write is marked as modified.
\<close>

type_synonym 'd find_result = "(status \<times> u32 \<times> u32 \<times> u32 option \<times> u32 \<times> u32 \<times> 'd cc) cc_result"

lemma part_less:
  assumes "\<not> Size \<le> part" "part = PAGE_SIZE - PO"
  shows "unat (Size - part) < unat Size \<or> unat (Size - part) = unat Size \<and> PO = PAGE_SIZE"
proof (cases "part = 0")
  case False
  then have "0 < unat part" by (simp add: unat_gt_0)
  moreover have "unat part < unat Size" using assms(1) by (simp add: not_le word_less_nat_alt)
  ultimately show ?thesis by (simp add: unat_sub word_le_nat_alt)
qed (use assms in simp)

function find_loop :: "bool \<Rightarrow> u32 \<Rightarrow> u32 \<Rightarrow> u32 option \<Rightarrow> u32 \<Rightarrow> u32 \<Rightarrow> 'd cc \<Rightarrow> 'd find_result" where
  "find_loop WriteOperation PN PO Buffer Size n s = and_then (the_map s) (\<lambda>m.
     case scan (\<lambda>e. Cached e \<and> PageNumber e = PN) (PageCacheMap m) of
       None \<Rightarrow> Inr (STATUS_NOT_FOUND, PN, PO, Buffer, Size, n, s)
     | Some k \<Rightarrow>
         (case Buffer of
            None \<Rightarrow> Inr (STATUS_SUCCESS, PN, PO, Buffer, Size, n, s)
          | Some B \<Rightarrow>
              let s1 = upd_page k (\<lambda>e. e\<lparr>PageUseCount := PageUseCount e + 1\<rparr>) s;
                  P = PgBuffer (PageCacheMap m ! k) + PO;
                  readpart = PAGE_SIZE - PO
              in if Size \<le> readpart
                 then and_then (if WriteOperation then copy P B Size s1 else copy B P Size s1) (\<lambda>s2.
                        Inr (STATUS_SUCCESS, PN, PO, Buffer, Size, n + Size,
                          if WriteOperation then upd_page k (\<lambda>e. e\<lparr>Modified := True\<rparr>) s2 else s2))
                 else and_then (if WriteOperation then copy P B readpart s1 else copy B P readpart s1) (\<lambda>s2.
                        find_loop WriteOperation (PN + 1) 0 (Some (B + readpart)) (Size - readpart) (n + readpart) s2)))"
  by pat_completeness auto
termination
  by (relation "measures [\<lambda>(_, _, _, _, Size, _, _). unat Size, \<lambda>(_, _, PO, _, _, _, _). if PO = PAGE_SIZE then 1 else 0]")
    (auto dest: part_less simp: PAGE_SIZE_def)

definition CcpFindAndReadWrite :: "bool \<Rightarrow> u32 \<Rightarrow> u32 \<Rightarrow> u32 option \<Rightarrow> u32 \<Rightarrow> 'd cc \<Rightarrow> 'd find_result" where
  "CcpFindAndReadWrite WriteOperation PN PO Buffer Size s = find_loop WriteOperation PN PO Buffer Size 0 s"

declare find_loop.simps [simp del]

text \<open>The steps of the loop.\<close>

lemma find_miss:
  "the_map s = Inr m \<Longrightarrow> scan (\<lambda>e. Cached e \<and> PageNumber e = PN) (PageCacheMap m) = None \<Longrightarrow>
    find_loop W PN PO Buffer Size n s = Inr (STATUS_NOT_FOUND, PN, PO, Buffer, Size, n, s)"
  by (subst find_loop.simps) simp

lemma find_look:
  "the_map s = Inr m \<Longrightarrow> scan (\<lambda>e. Cached e \<and> PageNumber e = PN) (PageCacheMap m) = Some k \<Longrightarrow>
    find_loop W PN PO None Size n s = Inr (STATUS_SUCCESS, PN, PO, None, Size, n, s)"
  by (subst find_loop.simps) simp

lemma find_last:
  "the_map s = Inr m \<Longrightarrow> scan (\<lambda>e. Cached e \<and> PageNumber e = PN) (PageCacheMap m) = Some k \<Longrightarrow> Size \<le> PAGE_SIZE - PO \<Longrightarrow>
    s1 = upd_page k (\<lambda>e. e\<lparr>PageUseCount := PageUseCount e + 1\<rparr>) s \<Longrightarrow> P = PgBuffer (PageCacheMap m ! k) + PO \<Longrightarrow>
    find_loop W PN PO (Some B) Size n s = and_then (if W then copy P B Size s1 else copy B P Size s1) (\<lambda>s2.
      Inr (STATUS_SUCCESS, PN, PO, Some B, Size, n + Size, if W then upd_page k (\<lambda>e. e\<lparr>Modified := True\<rparr>) s2 else s2))"
  by (subst find_loop.simps) (simp add: Let_def)

lemma find_more:
  "the_map s = Inr m \<Longrightarrow> scan (\<lambda>e. Cached e \<and> PageNumber e = PN) (PageCacheMap m) = Some k \<Longrightarrow> \<not> Size \<le> PAGE_SIZE - PO \<Longrightarrow>
    s1 = upd_page k (\<lambda>e. e\<lparr>PageUseCount := PageUseCount e + 1\<rparr>) s \<Longrightarrow> P = PgBuffer (PageCacheMap m ! k) + PO \<Longrightarrow>
    find_loop W PN PO (Some B) Size n s = and_then (if W then copy P B (PAGE_SIZE - PO) s1 else copy B P (PAGE_SIZE - PO) s1)
      (find_loop W (PN + 1) 0 (Some (B + (PAGE_SIZE - PO))) (Size - (PAGE_SIZE - PO)) (n + (PAGE_SIZE - PO)))"
  by (subst find_loop.simps) (simp add: Let_def)

lemma find_null: "the_map s = Inl e \<Longrightarrow> find_loop W PN PO Buffer Size n s = Inl e"
  by (subst find_loop.simps) simp

lemma find_loop_shrinks:
  "find_loop W PN PO Buffer Size n s = Inr (st, PN', PO', Buffer', Size', n', s') \<Longrightarrow> Size' \<le> Size \<and> (PO' = PO \<or> PO' = 0)"
proof (induction W PN PO Buffer Size n s arbitrary: st PN' PO' Buffer' Size' n' s' rule: find_loop.induct)
  case (1 W PN PO Buffer Size n s)
  have le: "Size - x \<le> Size" if "\<not> Size \<le> x" for x :: u32
    using that by (metis linear word_sub_le)
  obtain m where m: "the_map s = Inr m" using "1.prems" by (cases "the_map s") (simp_all add: find_null)
  show ?case
  proof (cases "scan (\<lambda>e. Cached e \<and> PageNumber e = PN) (PageCacheMap m)")
    case None
    then show ?thesis using "1.prems" find_miss [OF m] by simp
  next
    case (Some k)
    show ?thesis
    proof (cases Buffer)
      case None
      then show ?thesis using "1.prems" find_look [OF m Some] by simp
    next
      case B: (Some B)
      define s1 where "s1 = upd_page k (\<lambda>e. e\<lparr>PageUseCount := PageUseCount e + 1\<rparr>) s"
      show ?thesis
      proof (cases "Size \<le> PAGE_SIZE - PO")
        case True
        then show ?thesis
          using "1.prems" B find_last [OF m Some _ refl refl] by (auto simp: and_then_Inr)
      next
        case False
        then obtain s2 where s2: "(if W then copy (PgBuffer (PageCacheMap m ! k) + PO) B (PAGE_SIZE - PO) s1
            else copy B (PgBuffer (PageCacheMap m ! k) + PO) (PAGE_SIZE - PO) s1) = Inr s2"
          "find_loop W (PN + 1) 0 (Some (B + (PAGE_SIZE - PO))) (Size - (PAGE_SIZE - PO)) (n + (PAGE_SIZE - PO)) s2
            = Inr (st, PN', PO', Buffer', Size', n', s')"
          using "1.prems" B find_more [OF m Some _ s1_def refl] by (auto simp: and_then_Inr)
        from "1.IH" [OF m Some B refl refl refl False s2(1) [unfolded s1_def] s2(2)] have "Size' \<le> Size - (PAGE_SIZE - PO) \<and> PO' = 0"
          by simp
        then show ?thesis using le [OF False] by (meson order_trans)
      qed
    qed
  qed
qed

lemma size_left:
  assumes "0 <s Size - PAGE_SIZE"
  shows "unat (Size - PAGE_SIZE) < unat Size"
proof (cases "PAGE_SIZE \<le> Size")
  case True
  then show ?thesis by (simp add: unat_sub word_le_nat_alt PAGE_SIZE_def)
next
  case False
  then have u: "unat Size < 4096" by (simp add: PAGE_SIZE_def word_less_nat_alt not_le)
  have "sint (Size - PAGE_SIZE) = sint (of_int (int (unat Size) - 4096) :: u32)" by (simp add: PAGE_SIZE_def)
  also have "\<dots> = int (unat Size) - 4096"
  proof -
    have e: "int (unat Size) - 4096 < 2147483648" "- 2147483648 \<le> int (unat Size) - 4096" using u by linarith+
    show ?thesis unfolding signed_of_int by (subst signed_take_bit_int_eq_self) (use e in simp_all)
  qed
  finally have "sint (Size - PAGE_SIZE) < 0" using u by linarith
  then show ?thesis using assms by (simp add: word_sless_alt)
qed

text \<open>
  \<open>CcpActualRead\<close>: the read of pages that are not in the cache. The page that holds the data for
  the time being is used without a check of its allocation.
\<close>

function CcpActualRead ::
    "'d callback \<Rightarrow> 'd callback \<Rightarrow> u32 \<Rightarrow> u32 \<Rightarrow> u32 \<Rightarrow> u32 \<Rightarrow> u32 \<Rightarrow> bool \<Rightarrow> 'd cc \<Rightarrow> (status \<times> u32 \<times> 'd cc) cc_result" where
  "CcpActualRead rd wr PN PO Buffer Size n Cache s =
     (let (T, s0) = MmAllocatePage s
      in if T = 0 then Inl CcNull
         else
           and_then (CcpActualReadPage rd PN T s0) (\<lambda>(Status, s1).
           let part = (if PAGE_SIZE - PO < Size then PAGE_SIZE - PO else Size)
           in and_then
                (if SUCCESS Status then
                   and_then (if Buffer \<noteq> 0 then copy Buffer (T + PO) part s1 else Inr s1) (\<lambda>s2.
                   and_then (if Cache then and_then (CcpCacheFilePage wr PN T s2) (\<lambda>(_, s3). Inr s3) else Inr s2) (\<lambda>s3.
                     Inr (n + part, s3)))
                 else Inr (n, s1)) (\<lambda>(n1, s4).
              and_then (MmFreePage T s4) (\<lambda>s5.
              let Size' = Size - (PAGE_SIZE - PO);
                  NewBuffer = (if Buffer = 0 then 0 else Buffer + (PAGE_SIZE - PO))
              in if 0 <s Size'
                 then and_then (CcpFindAndReadWrite False (PN + 1) 0 (Some NewBuffer) Size' s5) (\<lambda>(st, PN2, PO2, B2, Size2, n2, s6).
                        if st = STATUS_NOT_FOUND
                        then CcpActualRead rd wr PN2 PO2 (case B2 of None \<Rightarrow> 0 | Some b \<Rightarrow> b) Size2 n2 Cache s6
                        else Inr (st, n2, s6))
                 else Inr (Status, n1, s5)))))"
  by pat_completeness auto
termination
proof (relation "measures [\<lambda>(_, _, _, PO, _, _, _, _, _). if PO = 0 then 0 else 1, \<lambda>(_, _, _, _, _, Size, _, _, _). unat Size]", goal_cases)
  case 2
  then show ?case
    by (auto simp: CcpFindAndReadWrite_def word_le_nat_alt dest!: find_loop_shrinks size_left)
qed simp

declare CcpActualRead.simps [simp del]

text \<open>\<open>CcpActualWrite\<close>: the page is read, changed and put into the cache, where it is not marked as modified.\<close>

function CcpActualWrite ::
    "'d callback \<Rightarrow> 'd callback \<Rightarrow> u32 \<Rightarrow> u32 \<Rightarrow> u32 \<Rightarrow> u32 \<Rightarrow> u32 \<Rightarrow> 'd cc \<Rightarrow> (status \<times> u32 \<times> 'd cc) cc_result" where
  "CcpActualWrite rd wr PN PO Buffer Size n s =
     (let (T, s0) = MmAllocatePage s
      in if T = 0 then Inl CcNull
         else
           and_then (CcpActualReadPage rd PN T s0) (\<lambda>(Status, s1).
           let part = (if PAGE_SIZE - PO < Size then PAGE_SIZE - PO else Size)
           in and_then
                (if SUCCESS Status then
                   and_then (copy (T + PO) Buffer part s1) (\<lambda>s2.
                   and_then (CcpCacheFilePage wr PN T s2) (\<lambda>(_, s3). Inr (n + part, s3)))
                 else Inr (n, s1)) (\<lambda>(n1, s4).
              and_then (MmFreePage T s4) (\<lambda>s5.
              let Size' = Size - (PAGE_SIZE - PO)
              in if 0 <s Size'
                 then and_then (CcpFindAndReadWrite True (PN + 1) 0 (Some (Buffer + (PAGE_SIZE - PO))) Size' s5)
                        (\<lambda>(st, PN2, PO2, B2, Size2, n2, s6).
                        if st = STATUS_NOT_FOUND
                        then CcpActualWrite rd wr PN2 PO2 (case B2 of None \<Rightarrow> 0 | Some b \<Rightarrow> b) Size2 n2 s6
                        else Inr (st, n2, s6))
                 else Inr (Status, n1, s5)))))"
  by pat_completeness auto
termination
proof (relation "measures [\<lambda>(_, _, _, PO, _, _, _, _). if PO = 0 then 0 else 1, \<lambda>(_, _, _, _, _, Size, _, _). unat Size]", goal_cases)
  case 2
  then show ?case
    by (auto simp: CcpFindAndReadWrite_def word_le_nat_alt dest!: find_loop_shrinks size_left)
qed simp

declare CcpActualWrite.simps [simp del]

text \<open>The page number and the offset in the page of an offset in the file.\<close>

definition page_number :: "u32 \<Rightarrow> u32" where "page_number Offset = ALIGN_DOWN Offset PAGE_SIZE div PAGE_SIZE"
definition page_offset :: "u32 \<Rightarrow> u32" where "page_offset Offset = Offset AND (PAGE_SIZE - 1)"

text \<open>The end of both operations: every fourth time the map is rebuilt.\<close>

definition cache_done :: "'d callback \<Rightarrow> status \<Rightarrow> u32 \<Rightarrow> 'd cc \<Rightarrow> (status \<times> u32 \<times> 'd cc) cc_result" where
  "cache_done wr Status n s =
     (let s1 = upd_map (\<lambda>m. m\<lparr>ShouldRebuild := ShouldRebuild m + 1\<rparr>) s
      in and_then (the_map s1) (\<lambda>m.
         let s2 = unlock_map s1
         in and_then (if ShouldRebuild m mod CC_CACHE_MAP_REBUILD_FREQUENCY = 0 then CcpRebuildCacheMap wr False s2 else Inr s2)
              (\<lambda>s3. Inr (Status, n, s3))))"

text \<open>\<open>n\<close> is the value of \<open>*nBytesRead\<close> at the call.\<close>

definition CcCacheReadFile ::
    "'d callback \<Rightarrow> 'd callback \<Rightarrow> u32 \<Rightarrow> u32 \<Rightarrow> u32 \<Rightarrow> u32 \<Rightarrow> 'd cc \<Rightarrow> (status \<times> u32 \<times> 'd cc) cc_result" where
  "CcCacheReadFile rd wr Offset Buffer Size n s =
     and_then (lock_map s) (\<lambda>s1.
       if \<not> Size < PAGE_SIZE * 20 then Inl CcAsserts
       else if ReadThrough s1 then CcpActualRead rd wr (page_number Offset) (page_offset Offset) Buffer Size n False (unlock_map s1)
       else and_then (CcpFindAndReadWrite False (page_number Offset) (page_offset Offset) (Some Buffer) Size s1)
              (\<lambda>(st, PN2, PO2, B2, Size2, n2, s2).
              and_then (if st = STATUS_NOT_FOUND
                        then and_then (CcpActualRead rd wr PN2 PO2 (case B2 of None \<Rightarrow> 0 | Some b \<Rightarrow> b) Size2 n2 True s2)
                               (\<lambda>(st3, n3, s3). Inr (if SUCCESS st3 then STATUS_CACHED else st3, n3, s3))
                        else Inr (st, n2, s2)) (\<lambda>(st3, n3, s3). cache_done wr st3 n3 s3)))"

definition CcCacheWriteFile ::
    "'d callback \<Rightarrow> 'd callback \<Rightarrow> u32 \<Rightarrow> u32 \<Rightarrow> u32 \<Rightarrow> u32 \<Rightarrow> 'd cc \<Rightarrow> (status \<times> u32 \<times> 'd cc) cc_result" where
  "CcCacheWriteFile rd wr Offset Buffer Size n s =
     and_then (lock_map s) (\<lambda>s1.
       if \<not> Size < PAGE_SIZE * 20 then Inl CcAsserts
       else if WriteThrough s1 then CcpActualWrite rd wr (page_number Offset) (page_offset Offset) Buffer Size n (unlock_map s1)
       else and_then (CcpFindAndReadWrite True (page_number Offset) (page_offset Offset) (Some Buffer) Size s1)
              (\<lambda>(st, PN2, PO2, B2, Size2, n2, s2).
              and_then (if st = STATUS_NOT_FOUND
                        then and_then (CcpActualWrite rd wr PN2 PO2 (case B2 of None \<Rightarrow> 0 | Some b \<Rightarrow> b) Size2 n2 s2)
                               (\<lambda>(st3, n3, s3). Inr (if SUCCESS st3 then STATUS_CACHED else st3, n3, s3))
                        else Inr (st, n2, s2)) (\<lambda>(st3, n3, s3). cache_done wr st3 n3 s3)))"

end
