(* ===== verification/CcProps.thy ===== *)
theory CcProps
  imports Cc
begin

text \<open>
  The cache map is well formed in every state that reads, writes and purges can reach, whatever the
  callbacks do; giving up the cache returns its memory. What is written to a page that was not in the cache
  never reaches the device.
\<close>

subsection \<open>Well-formed cache maps\<close>

definition buffers :: "cache_map \<Rightarrow> u32 list" where
  "buffers m = map PgBuffer (filter Cached (PageCacheMap m))"

definition alloc_ok :: "'d cc \<Rightarrow> bool" where
  "alloc_ok s \<longleftrightarrow> (\<forall>n B. PageAlloc s n B = 0 \<or> PageAlloc s n B \<notin> B) \<and> (\<forall>n B. HeapAlloc s n B = 0 \<or> HeapAlloc s n B \<notin> B) \<and>
     0 \<notin> Pages s \<and> 0 \<notin> HeapBlocks s"

text \<open>The pages of the cache are its buffers and no others, and are used once; \<open>P0\<close> and \<open>H0\<close> belong to others.\<close>

definition map_ok :: "u32 set \<Rightarrow> u32 set \<Rightarrow> 'd cc \<Rightarrow> cache_map \<Rightarrow> bool" where
  "map_ok P0 H0 s m \<longleftrightarrow> MaxCachedPages m = of_nat (length (PageCacheMap m)) \<and> distinct (buffers m) \<and>
     Pages s = P0 \<union> set (buffers m) \<and> P0 \<inter> set (buffers m) = {} \<and>
     HeapBlocks s = H0 \<union> {MapAt m} \<union> (if ArrayAt m = 0 then {} else {ArrayAt m}) \<and> MapAt m \<noteq> ArrayAt m \<and>
     H0 \<inter> {MapAt m, ArrayAt m} = {} \<and> 0 \<notin> H0 \<and> (IS_FILE_CACHED s \<longrightarrow> ArrayAt m \<noteq> 0)"

definition cc_wf :: "u32 set \<Rightarrow> u32 set \<Rightarrow> 'd cc \<Rightarrow> bool" where
  "cc_wf P0 H0 s \<longleftrightarrow> alloc_ok s \<and>
     (case FileMap s of None \<Rightarrow> Pages s = P0 \<and> HeapBlocks s = H0 | Some m \<Rightarrow> map_ok P0 H0 s m)"

text \<open>Memory and device do not matter.\<close>

lemma cc_wf_mem [simp]: "cc_wf P0 H0 (s\<lparr>CcMem := mem, CcDev := d\<rparr>) = cc_wf P0 H0 s" "cc_wf P0 H0 (s\<lparr>CcMem := mem\<rparr>) = cc_wf P0 H0 s"
  by (simp_all add: cc_wf_def alloc_ok_def map_ok_def IS_FILE_CACHED_def split: option.splits)

lemma copy_mem: "copy a b n s = Inr s' \<Longrightarrow> \<exists>mem. s' = s\<lparr>CcMem := mem\<rparr>"
  by (auto simp: copy_def split: if_splits) (metis cc.surjective cc.update_convs(5))+

lemma callback_mem: "callback f cl b n s = Inr (st, s') \<Longrightarrow> \<exists>mem d. s' = s\<lparr>CcMem := mem, CcDev := d\<rparr>"
  by (auto simp: callback_def and_then_Inr)

text \<open>Changes of an entry that keep its page.\<close>

lemma upd_map_wf:
  assumes "\<And>m. PageCacheMap (f m) = PageCacheMap m" "\<And>m. MaxCachedPages (f m) = MaxCachedPages m" "\<And>m. MapAt (f m) = MapAt m"
    "\<And>m. ArrayAt (f m) = ArrayAt m"
  shows "cc_wf P0 H0 (upd_map f s) = cc_wf P0 H0 s"
  using assms by (cases "FileMap s") (simp_all add: cc_wf_def upd_map_def alloc_ok_def map_ok_def buffers_def IS_FILE_CACHED_def)

lemma buffers_update:
  assumes "Cached e' = Cached (es ! k)" "PgBuffer e' = PgBuffer (es ! k)"
  shows "map PgBuffer (filter Cached (es[k := e'])) = map PgBuffer (filter Cached es)"
  using assms
proof (induction es arbitrary: k)
  case (Cons e es)
  then show ?case by (cases k) auto
qed simp

lemma upd_page_wf:
  assumes "\<And>e. Cached (f e) = Cached e" "\<And>e. PgBuffer (f e) = PgBuffer e"
  shows "cc_wf P0 H0 (upd_page k f s) = cc_wf P0 H0 s"
  using assms
  by (cases "FileMap s") (simp_all add: cc_wf_def upd_page_def upd_map_def alloc_ok_def map_ok_def buffers_def buffers_update IS_FILE_CACHED_def)

lemma the_map_Inr: "the_map s = Inr m \<longleftrightarrow> FileMap s = Some m"
  by (simp add: the_map_def split: option.splits)

lemma upd_map_lock [simp]: "cc_wf P0 H0 (upd_map (\<lambda>m. m\<lparr>CacheMapLock := b\<rparr>) s) = cc_wf P0 H0 s"
  by (rule upd_map_wf) simp_all

lemma lock_wf: "lock_map s = Inr s' \<Longrightarrow> cc_wf P0 H0 s' = cc_wf P0 H0 s"
  by (auto simp: lock_map_def and_then_Inr split: if_splits)

lemma unlock_wf [simp]: "cc_wf P0 H0 (unlock_map s) = cc_wf P0 H0 s"
  by (simp add: unlock_map_def)

lemma write_loop_wf: "write_loop wr m e i n st s = Inr (st', s') \<Longrightarrow> cc_wf P0 H0 s' = cc_wf P0 H0 s"
proof (induction n arbitrary: i st s)
  case (Suc n)
  then obtain a s1 where "callback wr (PageNumber e * ucast (ClustersPerPage m) + i) (PgBuffer e + i * ClusterSize m) (ClusterSize m) s = Inr (a, s1)"
    "write_loop wr m e (i + 1) n (Inr a) s1 = Inr (st', s')" by (auto simp: and_then_Inr)
  then show ?case using Suc.IH by (fastforce dest: callback_mem)
qed (auto simp: and_then_Inr)

lemma read_loop_mem: "read_loop rd m PN b i n st s = Inr (st', s') \<Longrightarrow> \<exists>mem d. s' = s\<lparr>CcMem := mem, CcDev := d\<rparr>"
proof (induction n arbitrary: i st s)
  case 0
  then have "s' = s\<lparr>CcMem := CcMem s, CcDev := CcDev s\<rparr>" by (auto simp: and_then_Inr)
  then show ?case by blast
next
  case (Suc n)
  then obtain a s1 where c: "callback rd (PN * ucast (ClustersPerPage m) + i) (b + i * ClusterSize m) (ClusterSize m) s = Inr (a, s1)"
    and r: "s' = s1 \<or> read_loop rd m PN b (i + 1) n (Inr a) s1 = Inr (st', s')" by (auto simp: and_then_Inr split: if_splits)
  from callback_mem [OF c] obtain mem d where "s1 = s\<lparr>CcMem := mem, CcDev := d\<rparr>" by blast
  then show ?case using r Suc.IH by fastforce
qed

lemma read_page_mem: "CcpActualReadPage rd PN b s = Inr (st, s') \<Longrightarrow> \<exists>mem d. s' = s\<lparr>CcMem := mem, CcDev := d\<rparr>"
proof -
  assume "CcpActualReadPage rd PN b s = Inr (st, s')"
  then consider "s' = s\<lparr>CcMem := CcMem s, CcDev := CcDev s\<rparr>"
    | m where "read_loop rd m PN b 0 (unat (ClustersPerPage m)) (Inl CcNotInitialised) s = Inr (st, s')"
    by (auto simp: CcpActualReadPage_def and_then_Inr split: if_splits)
  then show ?thesis by cases (blast dest: read_loop_mem)+
qed

lemma write_back_wf: "write_back wr k s = Inr (st, s') \<Longrightarrow> cc_wf P0 H0 s' = cc_wf P0 H0 s"
  by (auto simp: write_back_def CcpActualWritePage_def and_then_Inr upd_page_wf split: if_splits dest!: write_loop_wf)

lemma purge_loop_wf: "purge_loop wr k n st s = Inr (st', s') \<Longrightarrow> cc_wf P0 H0 s' = cc_wf P0 H0 s"
proof (induction n arbitrary: k st s)
  case (Suc n)
  then show ?case by (auto simp: and_then_Inr Let_def split: if_splits dest!: write_back_wf)
qed simp

lemma purge_wf: "CcPurgeCacheFile wr s = Inr (st, s') \<Longrightarrow> cc_wf P0 H0 s' = cc_wf P0 H0 s"
  by (auto simp: CcPurgeCacheFile_def and_then_Inr dest!: purge_loop_wf lock_wf)

lemma rebuild_nothing [simp]: "CcpRebuildCacheMap wr b s = Inr s"
  by (simp add: CcpRebuildCacheMap_def CC_DISABLE_CACHE_REBUILDING_def)

subsection \<open>Pages and entries\<close>

lemma page_alloc_wf:
  assumes "cc_wf P0 H0 s" "MmAllocatePage s = (T, s')" "T \<noteq> 0"
  shows "cc_wf (insert T P0) H0 s' \<and> T \<notin> P0 \<and> FileMap s' = FileMap s \<and> (\<forall>m. FileMap s = Some m \<longrightarrow> T \<notin> set (buffers m))"
proof -
  have s': "s' = s\<lparr>PageAllocs := PageAllocs s + 1, Pages := insert T (Pages s)\<rparr>" and T: "T = PageAlloc s (PageAllocs s) (Pages s)"
    using assms(2,3) by (auto simp: MmAllocatePage_def Let_def)
  have "T \<notin> Pages s" using assms(1,3) T unfolding cc_wf_def alloc_ok_def by metis
  then show ?thesis
    using assms(1,3) unfolding s' by (cases "FileMap s") (auto simp: cc_wf_def alloc_ok_def map_ok_def IS_FILE_CACHED_def)
qed

lemma page_free_wf:
  assumes "cc_wf (insert T P0) H0 s" "T \<notin> P0" "MmFreePage T s = Inr s'"
  shows "cc_wf P0 H0 s'"
proof -
  have "s' = s\<lparr>Pages := Pages s - {T}\<rparr>" using assms(3) by (auto simp: MmFreePage_def split: if_splits)
  then show ?thesis using assms(1,2) by (cases "FileMap s") (auto simp: cc_wf_def alloc_ok_def map_ok_def IS_FILE_CACHED_def)
qed

lemma scan_Some: "scan P es = Some k \<Longrightarrow> k < length es \<and> P (es ! k)"
proof (induction es arbitrary: k)
  case (Cons e es)
  then show ?case by (cases k) (auto split: if_splits)
qed simp

lemma scan_None: "scan P es = None \<longleftrightarrow> (\<forall>e\<in>set es. \<not> P e)"
  by (induction es) auto

lemma buffers_zero: "map PgBuffer (filter Cached (es @ replicate n zero_page)) = map PgBuffer (filter Cached es)"
  by (simp add: zero_page_def)

text \<open>What reads of the device depend on.\<close>

definition geometry :: "'d cc \<Rightarrow> (u32 \<times> u8 \<times> bool \<times> bool) option" where
  "geometry s = map_option (\<lambda>m. (ClusterSize m, ClustersPerPage m, HasRead m, CacheMapLock m)) (FileMap s)"

lemma grow_wf:
  assumes ok: "cc_wf P0 H0 s" and m: "FileMap s = Some m" and g: "grow_map wr s = Inr s'"
  shows "cc_wf P0 H0 s' \<and> (\<exists>m'. FileMap s' = Some m' \<and> buffers m' = buffers m \<and> (\<exists>n. PageCacheMap m' = PageCacheMap m @ replicate n zero_page)) \<and>
    CcMem s' = CcMem s \<and> CcDev s' = CcDev s \<and> PageAlloc s' = PageAlloc s \<and> PageAllocs s' = PageAllocs s \<and> Pages s' = Pages s \<and> geometry s' = geometry s"
proof (cases "CachedPages m \<noteq> MaxCachedPages m")
  case True
  then have "s' = s" using g m by (simp add: grow_map_def the_map_def)
  then show ?thesis using ok m by (metis append_Nil2 replicate_0)
next
  case False
  define p where "p = HeapAlloc s (HeapAllocs s) (HeapBlocks s - {ArrayAt m})"
  have r: "heap_realloc (ArrayAt m) s = (p, s\<lparr>HeapAllocs := HeapAllocs s + 1,
      HeapBlocks := (if p = 0 then HeapBlocks s else insert p (HeapBlocks s - {ArrayAt m}))\<rparr>)"
    by (simp add: heap_realloc_def Let_def p_def)
  have M: "map_ok P0 H0 s m" and A: "alloc_ok s" using ok m by (simp_all add: cc_wf_def)
  show ?thesis
  proof (cases "p = 0")
    case True
    then have "s' = s\<lparr>HeapAllocs := HeapAllocs s + 1\<rparr>"
      using g m False r True by (simp add: grow_map_def the_map_def cong: if_cong)
    then show ?thesis
      using ok m by (auto simp: cc_wf_def alloc_ok_def map_ok_def IS_FILE_CACHED_def geometry_def intro!: exI [of _ "0 :: nat"])
  next
    case p: False
    define m' where "m' = m\<lparr>MaxCachedPages := MaxCachedPages m * 2, ArrayAt := p,
      PageCacheMap := PageCacheMap m @ replicate (length (PageCacheMap m)) zero_page\<rparr>"
    have s': "s' = s\<lparr>HeapAllocs := HeapAllocs s + 1, HeapBlocks := insert p (HeapBlocks s - {ArrayAt m}), FileMap := Some m'\<rparr>"
      using g m False r p by (simp add: grow_map_def the_map_def upd_map_def m'_def cong: if_cong)
    have fresh: "p \<notin> HeapBlocks s - {ArrayAt m}" using A p unfolding alloc_ok_def p_def by metis
    have b: "buffers m' = buffers m" by (simp add: buffers_def m'_def zero_page_def)
    have "map_ok P0 H0 s' m'"
      using M fresh p unfolding map_ok_def b by (simp add: s' m'_def IS_FILE_CACHED_def) (auto split: if_splits)
    then show ?thesis using A p b s' m by (auto simp: cc_wf_def alloc_ok_def m'_def geometry_def)
  qed
qed

lemma filter_insert:
  assumes "k < length es" "\<not> P (es ! k)"
  shows "\<exists>xs ys. filter P es = xs @ ys \<and> filter P (es[k := e]) = xs @ (if P e then [e] else []) @ ys"
proof -
  have "es = take k es @ es ! k # drop (Suc k) es" using assms(1) by (simp add: id_take_nth_drop)
  then have "filter P es = filter P (take k es) @ filter P (drop (Suc k) es)"
    using assms(2) by (metis filter.simps(2) filter_append)
  moreover have "filter P (es[k := e]) = filter P (take k es) @ (if P e then [e] else []) @ filter P (drop (Suc k) es)"
    using assms(1) by (simp add: upd_conv_take_nth_drop)
  ultimately show ?thesis by blast
qed

definition entries :: "'d cc \<Rightarrow> cached_page set" where
  "entries s = (case FileMap s of None \<Rightarrow> {} | Some m \<Rightarrow> set (filter Cached (PageCacheMap m)))"

text \<open>The page is added with a copy in a new buffer, or the entries stay as they were.\<close>

lemma cache_page_spec:
  assumes ok: "cc_wf P0 H0 s" and T: "T \<noteq> 0" and c: "FileMap s \<noteq> None"
  shows "\<exists>st s'. CcpCacheFilePage wr PN T s = Inr (st, s') \<and> cc_wf P0 H0 s' \<and> FileMap s' \<noteq> None \<and> CcDev s' = CcDev s \<and>
    PageAlloc s' = PageAlloc s \<and> geometry s' = geometry s \<and>
    (CcMem s' = CcMem s \<and> Pages s' = Pages s \<and> entries s' = entries s \<or>
     (\<exists>b e. b \<noteq> 0 \<and> b \<notin> Pages s \<and> (\<exists>n. b = PageAlloc s n (Pages s)) \<and> Pages s' = insert b (Pages s) \<and> entries s' = insert e (entries s) \<and> PageNumber e = PN \<and>
        PgBuffer e = b \<and> \<not> Modified e \<and> CcMem s' = memmove (CcMem s) b T PAGE_SIZE))"
proof -
  obtain m where m: "FileMap s = Some m" using c by blast
  define s0 where "s0 = upd_map (\<lambda>m. m\<lparr>CachedPages := CachedPages m + 1\<rparr>) s"
  have s0: "cc_wf P0 H0 s0" "FileMap s0 = Some (m\<lparr>CachedPages := CachedPages m + 1\<rparr>)"
    using ok m upd_map_wf [of "\<lambda>m. m\<lparr>CachedPages := CachedPages m + 1\<rparr>" P0 H0 s] by (simp_all add: s0_def upd_map_def)
  have "\<exists>s1. grow_map wr s0 = Inr s1"
    using s0(2) by (auto simp: grow_map_def the_map_def heap_realloc_def Let_def cong: if_cong)
  then obtain s1 where g: "grow_map wr s0 = Inr s1" ..
  from grow_wf [OF s0 g] obtain m1 n where s1: "cc_wf P0 H0 s1" "FileMap s1 = Some m1" "PageCacheMap m1 = PageCacheMap m @ replicate n zero_page"
    "CcMem s1 = CcMem s" "CcDev s1 = CcDev s" "PageAlloc s1 = PageAlloc s" "PageAllocs s1 = PageAllocs s" "Pages s1 = Pages s" "geometry s1 = geometry s"
    by (auto simp: s0_def upd_map_def geometry_def option.map_comp comp_def)
  have ent1: "filter Cached (PageCacheMap m1) = filter Cached (PageCacheMap m)" by (simp add: s1(3) zero_page_def)
  show ?thesis
  proof (cases "scan (\<lambda>e. \<not> Cached e) (PageCacheMap m1)")
    case None
    then have "CcpCacheFilePage wr PN T s = Inr (STATUS_UNSUCCESSFUL, s1)"
      using m g s1(2) by (simp add: CcpCacheFilePage_def the_map_def s0_def [symmetric])
    then show ?thesis using s1 ent1 m by (intro exI [of _ STATUS_UNSUCCESSFUL] exI [of _ s1]) (simp add: entries_def)
  next
    case (Some k)
    note k = scan_Some [OF Some]
    define b where "b = PageAlloc s (PageAllocs s) (Pages s)"
    define e where "e = (PageCacheMap m1 ! k)\<lparr>Cached := True, Modified := False, PageNumber := PN, PageUseCount := 1, PgBuffer := b\<rparr>"
    define s4 where "s4 = s1\<lparr>FileMap := Some (m1\<lparr>PageCacheMap := (PageCacheMap m1)[k := e]\<rparr>), PageAllocs := PageAllocs s + 1,
      Pages := (if b = 0 then Pages s else insert b (Pages s))\<rparr>"
    define s2 where "s2 = upd_page k (\<lambda>e. e\<lparr>Cached := True, Modified := False, PageNumber := PN, PageUseCount := 1\<rparr>) s1"
    have u0: "CcpCacheFilePage wr PN T s = (let (b, s3) = MmAllocatePage s2; s4 = upd_page k (\<lambda>e. e\<lparr>PgBuffer := b\<rparr>) s3
        in if b = 0 then Inr (STATUS_INSUFFICIENT_RESOURCES, upd_page k (\<lambda>e. e\<lparr>Cached := False\<rparr>) s4)
           else and_then (copy b T PAGE_SIZE s4) (\<lambda>s5. Inr (STATUS_SUCCESS, s5)))"
      using m g s1(2) Some unfolding CcpCacheFilePage_def the_map_def s0_def [symmetric] s2_def by (simp add: Let_def cong: if_cong)
    define s3 where "s3 = s2\<lparr>PageAllocs := PageAllocs s + 1, Pages := (if b = 0 then Pages s else insert b (Pages s))\<rparr>"
    have s2': "s2 = s1\<lparr>FileMap := Some (m1\<lparr>PageCacheMap := (PageCacheMap m1)[k := e\<lparr>PgBuffer := PgBuffer (PageCacheMap m1 ! k)\<rparr>]\<rparr>)\<rparr>"
      using s1(2) by (simp add: s2_def upd_page_def upd_map_def e_def)
    have alloc: "MmAllocatePage s2 = (b, s3)"
    proof -
      have "PageAlloc s2 = PageAlloc s" "PageAllocs s2 = PageAllocs s" "Pages s2 = Pages s" using s1(6-8) by (simp_all add: s2')
      then show ?thesis by (simp add: MmAllocatePage_def Let_def b_def s3_def)
    qed
    have upd: "upd_page k (\<lambda>e. e\<lparr>PgBuffer := b\<rparr>) s3 = s4"
      using k(1) by (simp add: s3_def s2' s4_def upd_page_def upd_map_def e_def)
    have u: "CcpCacheFilePage wr PN T s = (if b = 0 then Inr (STATUS_INSUFFICIENT_RESOURCES, upd_page k (\<lambda>e. e\<lparr>Cached := False\<rparr>) s4)
        else and_then (copy b T PAGE_SIZE s4) (\<lambda>s5. Inr (STATUS_SUCCESS, s5)))"
      unfolding u0 alloc Let_def prod.case upd ..
    have M: "map_ok P0 H0 s1 m1" "alloc_ok s1" using s1(1,2) by (simp_all add: cc_wf_def)
    show ?thesis
    proof (cases "b = 0")
      case True
      define s' where "s' = upd_page k (\<lambda>e. e\<lparr>Cached := False\<rparr>) s4"
      define m' where "m' = m1\<lparr>PageCacheMap := (PageCacheMap m1)[k := e\<lparr>Cached := False\<rparr>]\<rparr>"
      have fm: "FileMap s' = Some m'" using k(1) by (simp add: s'_def s4_def m'_def upd_page_def upd_map_def)
      have f: "filter Cached (PageCacheMap m') = filter Cached (PageCacheMap m1)"
        using filter_insert [of k "PageCacheMap m1" Cached "e\<lparr>Cached := False\<rparr>"] k by (auto simp: m'_def)
      have rest: "Pages s' = Pages s1" "HeapBlocks s' = HeapBlocks s1" "PageAlloc s' = PageAlloc s1" "HeapAlloc s' = HeapAlloc s1"
        "CcMem s' = CcMem s1" "CcDev s' = CcDev s1" "IS_FILE_CACHED s' = IS_FILE_CACHED s1" "geometry s' = geometry s1"
        using True s1(2,8) by (simp_all add: s'_def s4_def upd_page_def upd_map_def IS_FILE_CACHED_def geometry_def)
      have m': "buffers m' = buffers m1" "MaxCachedPages m' = MaxCachedPages m1" "MapAt m' = MapAt m1" "ArrayAt m' = ArrayAt m1"
        "length (PageCacheMap m') = length (PageCacheMap m1)" by (simp add: buffers_def f) (simp_all add: m'_def)
      have "cc_wf P0 H0 s'" using M rest unfolding cc_wf_def fm option.case map_ok_def alloc_ok_def m' rest by simp
      moreover have "entries s' = entries s" using f ent1 fm m by (simp add: entries_def)
      ultimately show ?thesis using u True rest s1(4-9) fm by (intro exI [of _ STATUS_INSUFFICIENT_RESOURCES] exI [of _ s']) (simp add: s'_def)
    next
      case False
      define s' where "s' = s4\<lparr>CcMem := memmove (CcMem s) b T PAGE_SIZE\<rparr>"
      have c: "copy b T PAGE_SIZE s4 = Inr s'" using False T s1(4) by (simp add: copy_def s'_def s4_def PAGE_SIZE_def)
      define m' where "m' = m1\<lparr>PageCacheMap := (PageCacheMap m1)[k := e]\<rparr>"
      have fm: "FileMap s' = Some m'" by (simp add: s'_def s4_def m'_def)
      obtain xs ys where f: "filter Cached (PageCacheMap m1) = xs @ ys" "filter Cached (PageCacheMap m') = xs @ e # ys"
        using filter_insert [of k "PageCacheMap m1" Cached e] k by (auto simp: m'_def e_def)
      have rest: "Pages s' = insert b (Pages s1)" "HeapBlocks s' = HeapBlocks s1" "PageAlloc s' = PageAlloc s1" "HeapAlloc s' = HeapAlloc s1"
        "CcDev s' = CcDev s1" "IS_FILE_CACHED s' = IS_FILE_CACHED s1" "geometry s' = geometry s1"
        using False s1(2,8) by (simp_all add: s'_def s4_def IS_FILE_CACHED_def geometry_def)
      have fresh: "b \<notin> Pages s1" using M(2) False s1(6,8) unfolding alloc_ok_def b_def by metis
      have m': "MaxCachedPages m' = MaxCachedPages m1" "MapAt m' = MapAt m1" "ArrayAt m' = ArrayAt m1"
        "length (PageCacheMap m') = length (PageCacheMap m1)" by (simp_all add: m'_def)
      have "PgBuffer e = b" by (simp add: e_def)
      then obtain us vs where bs: "buffers m1 = us @ vs" "buffers m' = us @ b # vs" using f by (simp add: buffers_def)
      have "set (buffers m') = insert b (set (buffers m1))" "distinct (buffers m') \<longleftrightarrow> distinct (buffers m1) \<and> b \<notin> set (buffers m1)"
        by (auto simp: bs)
      moreover have "b \<notin> P0" "b \<notin> set (buffers m1)" using fresh M(1) by (auto simp: map_ok_def)
      ultimately have "cc_wf P0 H0 s'" using M False unfolding cc_wf_def fm option.case map_ok_def alloc_ok_def m' rest by simp
      moreover have "entries s' = insert e (entries s)" using f ent1 fm m by (simp add: entries_def)
      moreover have "PageNumber e = PN" "PgBuffer e = b" "\<not> Modified e" by (simp_all add: e_def)
      ultimately show ?thesis
        using u False c rest s1(5-9) fm fresh by (intro exI [of _ STATUS_SUCCESS] exI [of _ s']) (auto simp: s'_def b_def)
    qed
  qed
qed

subsection \<open>Reads, writes and purges\<close>

text \<open>What the steps of the lookup keep, the lookup keeps.\<close>

lemma find_loop_keeps:
  assumes "find_loop W PN PO Buffer Size n s = Inr (st, PN', PO', Buffer', Size', n', s')" "I s"
    and use: "\<And>s k. I s \<Longrightarrow> I (upd_page k (\<lambda>e. e\<lparr>PageUseCount := PageUseCount e + 1\<rparr>) s)"
    and mark: "\<And>s k. I s \<Longrightarrow> I (upd_page k (\<lambda>e. e\<lparr>Modified := True\<rparr>) s)"
    and mem: "\<And>s x. I s \<Longrightarrow> I (s\<lparr>CcMem := x\<rparr>)"
  shows "I s'"
  using assms(1,2)
proof (induction W PN PO Buffer Size n s arbitrary: st PN' PO' Buffer' Size' n' s' rule: find_loop.induct)
  case (1 W PN PO Buffer Size n s)
  obtain m where m: "the_map s = Inr m" using "1.prems"(1) by (cases "the_map s") (simp_all add: find_null)
  show ?case
  proof (cases "scan (\<lambda>e. Cached e \<and> PageNumber e = PN) (PageCacheMap m)")
    case None
    then show ?thesis using "1.prems" find_miss [OF m] by simp
  next
    case (Some k)
    define s1 where "s1 = upd_page k (\<lambda>e. e\<lparr>PageUseCount := PageUseCount e + 1\<rparr>) s"
    have I1: "I s1" using use "1.prems"(2) by (simp add: s1_def)
    have cp: "I s2" if "(if W then copy a b x s1 else copy c d x s1) = Inr s2" for a b c d x s2
      using that copy_mem mem [OF I1] by (metis (full_types))
    show ?thesis
    proof (cases Buffer)
      case None
      then show ?thesis using "1.prems" find_look [OF m Some] by simp
    next
      case B: (Some B)
      show ?thesis
      proof (cases "Size \<le> PAGE_SIZE - PO")
        case True
        then show ?thesis
          using "1.prems" B find_last [OF m Some _ s1_def refl] cp mark by (auto simp: and_then_Inr)
      next
        case False
        then obtain s2 where s2: "(if W then copy (PgBuffer (PageCacheMap m ! k) + PO) B (PAGE_SIZE - PO) s1
            else copy B (PgBuffer (PageCacheMap m ! k) + PO) (PAGE_SIZE - PO) s1) = Inr s2"
          "find_loop W (PN + 1) 0 (Some (B + (PAGE_SIZE - PO))) (Size - (PAGE_SIZE - PO)) (n + (PAGE_SIZE - PO)) s2
            = Inr (st, PN', PO', Buffer', Size', n', s')"
          using "1.prems"(1) B find_more [OF m Some _ s1_def refl] by (auto simp: and_then_Inr)
        from "1.IH" [OF m Some B refl refl refl False s2(1) [unfolded s1_def] s2(2)] cp [OF s2(1)] show ?thesis by simp
      qed
    qed
  qed
qed

lemma find_wf:
  assumes "CcpFindAndReadWrite W PN PO Buffer Size s = Inr (st, PN', PO', Buffer', Size', n', s')" "cc_wf P0 H0 s"
  shows "cc_wf P0 H0 s'"
  by (rule find_loop_keeps [where I = "cc_wf P0 H0", OF assms(1) [unfolded CcpFindAndReadWrite_def] assms(2)]) (simp_all add: upd_page_wf)

lemma find_measure:
  assumes "CcpFindAndReadWrite W PN 0 Buffer (Size - (PAGE_SIZE - PO)) s = Inr (st, PN', PO', Buffer', Size', n', s')"
    "0 <s Size - (PAGE_SIZE - PO)"
  shows "(if PO' = 0 then 0 else 2 ^ 32 :: nat) + unat Size' < (if PO = 0 then 0 else 2 ^ 32) + unat Size"
proof -
  have "Size' \<le> Size - (PAGE_SIZE - PO)" "PO' = 0"
    using find_loop_shrinks [OF assms(1) [unfolded CcpFindAndReadWrite_def]] by simp_all
  then show ?thesis
    using size_left [of Size] assms(2) unsigned_less [where 'a = nat, of "Size - (PAGE_SIZE - PO)"] by (auto simp: word_le_nat_alt)
qed

text \<open>One round of \<open>CcpActualRead\<close> and of \<open>CcpActualWrite\<close>.\<close>

lemma cache_page_wf:
  assumes "CcpCacheFilePage wr PN T s = Inr (st, s')" "cc_wf P0 H0 s" "T \<noteq> 0" "FileMap s \<noteq> None"
  shows "cc_wf P0 H0 s'"
  using cache_page_spec [OF assms(2-4), of wr PN] assms(1) by auto

lemma read_page_wf: "CcpActualReadPage rd PN b s = Inr (st, s') \<Longrightarrow> cc_wf P0 H0 s' = cc_wf P0 H0 s \<and> FileMap s \<noteq> None \<and> FileMap s' = FileMap s"
  by (frule read_page_mem) (auto simp: CcpActualReadPage_def and_then_Inr the_map_Inr)

lemma copy_wf: "copy a b n s = Inr s' \<Longrightarrow> cc_wf P0 H0 s' = cc_wf P0 H0 s \<and> FileMap s' = FileMap s"
  by (auto dest!: copy_mem)

lemma read_step:
  assumes "CcpActualRead rd wr PN PO Buffer Size n C s = Inr (st, n', s')"
  obtains T s0 Status s1 n1 s4 s5 where "MmAllocatePage s = (T, s0)" "T \<noteq> 0" "CcpActualReadPage rd PN T s0 = Inr (Status, s1)"
    "(if SUCCESS Status
      then and_then (if Buffer \<noteq> 0 then copy Buffer (T + PO) (if PAGE_SIZE - PO < Size then PAGE_SIZE - PO else Size) s1 else Inr s1) (\<lambda>s2.
           and_then (if C then and_then (CcpCacheFilePage wr PN T s2) (\<lambda>(_, s3). Inr s3) else Inr s2) (\<lambda>s3. Inr (n + (if PAGE_SIZE - PO < Size then PAGE_SIZE - PO else Size), s3)))
      else Inr (n, s1)) = Inr (n1, s4)"
    "MmFreePage T s4 = Inr s5"
    "(if 0 <s Size - (PAGE_SIZE - PO)
      then and_then (CcpFindAndReadWrite False (PN + 1) 0 (Some (if Buffer = 0 then 0 else Buffer + (PAGE_SIZE - PO))) (Size - (PAGE_SIZE - PO)) s5)
             (\<lambda>(st, PN2, PO2, B2, Size2, n2, s6).
               if st = STATUS_NOT_FOUND then CcpActualRead rd wr PN2 PO2 (case B2 of None \<Rightarrow> 0 | Some b \<Rightarrow> b) Size2 n2 C s6
               else Inr (st, n2, s6))
      else Inr (Status, n1, s5)) = Inr (st, n', s')"
proof -
  obtain T s0 where a: "MmAllocatePage s = (T, s0)" by fastforce
  have T: "T \<noteq> 0" using assms(1) a by (subst (asm) CcpActualRead.simps) (auto split: if_splits)
  show thesis
    using that [OF a T] assms(1) unfolding CcpActualRead.simps [of rd wr PN PO Buffer Size n C s] a Let_def prod.case if_not_P [OF T]
    by (auto simp only: and_then_Inr prod.case)
qed

lemma read_round:
  assumes "CcpActualRead rd wr PN PO Buffer Size n C s = Inr (st, n', s')" "cc_wf P0 H0 s"
  obtains "cc_wf P0 H0 s'"
  | s5 B st2 PN2 PO2 B2 Size2 n2 s6 where "cc_wf P0 H0 s5" "0 <s Size - (PAGE_SIZE - PO)"
      "CcpFindAndReadWrite False (PN + 1) 0 (Some B) (Size - (PAGE_SIZE - PO)) s5 = Inr (st2, PN2, PO2, B2, Size2, n2, s6)"
      "CcpActualRead rd wr PN2 PO2 (case B2 of None \<Rightarrow> 0 | Some b \<Rightarrow> b) Size2 n2 C s6 = Inr (st, n', s')"
proof -
  from assms(1) obtain T s0 Status s1 n1 s4 s5 where a: "MmAllocatePage s = (T, s0)" and T: "T \<noteq> 0"
    and r: "CcpActualReadPage rd PN T s0 = Inr (Status, s1)"
    and b: "(if SUCCESS Status
      then and_then (if Buffer \<noteq> 0 then copy Buffer (T + PO) (if PAGE_SIZE - PO < Size then PAGE_SIZE - PO else Size) s1 else Inr s1) (\<lambda>s2.
           and_then (if C then and_then (CcpCacheFilePage wr PN T s2) (\<lambda>(_, s3). Inr s3) else Inr s2) (\<lambda>s3. Inr (n + (if PAGE_SIZE - PO < Size then PAGE_SIZE - PO else Size), s3)))
      else Inr (n, s1)) = Inr (n1, s4)"
    and f: "MmFreePage T s4 = Inr s5"
    and l: "(if 0 <s Size - (PAGE_SIZE - PO)
      then and_then (CcpFindAndReadWrite False (PN + 1) 0 (Some (if Buffer = 0 then 0 else Buffer + (PAGE_SIZE - PO))) (Size - (PAGE_SIZE - PO)) s5)
             (\<lambda>(st, PN2, PO2, B2, Size2, n2, s6).
               if st = STATUS_NOT_FOUND then CcpActualRead rd wr PN2 PO2 (case B2 of None \<Rightarrow> 0 | Some b \<Rightarrow> b) Size2 n2 C s6
               else Inr (st, n2, s6))
      else Inr (Status, n1, s5)) = Inr (st, n', s')"
    by (rule read_step)
  note w0 = page_alloc_wf [OF assms(2) a T]
  have w1: "cc_wf (insert T P0) H0 s1" using read_page_wf [OF r] w0 by blast
  have w4: "cc_wf (insert T P0) H0 s4"
    using b w1 read_page_wf [OF r] T
    by (auto simp: and_then_Inr split: if_splits dest!: copy_wf cache_page_wf)
  have w5: "cc_wf P0 H0 s5" using page_free_wf [OF w4 _ f] w0 by blast
  show thesis
    using l w5 find_wf that by (fastforce simp: and_then_Inr split: if_splits)
qed

lemma write_step:
  assumes "CcpActualWrite rd wr PN PO Buffer Size n s = Inr (st, n', s')"
  obtains T s0 Status s1 n1 s4 s5 where "MmAllocatePage s = (T, s0)" "T \<noteq> 0" "CcpActualReadPage rd PN T s0 = Inr (Status, s1)"
    "(if SUCCESS Status
      then and_then (copy (T + PO) Buffer (if PAGE_SIZE - PO < Size then PAGE_SIZE - PO else Size) s1) (\<lambda>s2. and_then (CcpCacheFilePage wr PN T s2) (\<lambda>(_, s3). Inr (n + (if PAGE_SIZE - PO < Size then PAGE_SIZE - PO else Size), s3)))
      else Inr (n, s1)) = Inr (n1, s4)"
    "MmFreePage T s4 = Inr s5"
    "(if 0 <s Size - (PAGE_SIZE - PO)
      then and_then (CcpFindAndReadWrite True (PN + 1) 0 (Some (Buffer + (PAGE_SIZE - PO))) (Size - (PAGE_SIZE - PO)) s5)
             (\<lambda>(st, PN2, PO2, B2, Size2, n2, s6).
               if st = STATUS_NOT_FOUND then CcpActualWrite rd wr PN2 PO2 (case B2 of None \<Rightarrow> 0 | Some b \<Rightarrow> b) Size2 n2 s6
               else Inr (st, n2, s6))
      else Inr (Status, n1, s5)) = Inr (st, n', s')"
proof -
  obtain T s0 where a: "MmAllocatePage s = (T, s0)" by fastforce
  have T: "T \<noteq> 0" using assms(1) a by (subst (asm) CcpActualWrite.simps) (auto split: if_splits)
  show thesis
    using that [OF a T] assms(1) unfolding CcpActualWrite.simps [of rd wr PN PO Buffer Size n s] a Let_def prod.case if_not_P [OF T]
    by (auto simp only: and_then_Inr prod.case)
qed

lemma write_round:
  assumes "CcpActualWrite rd wr PN PO Buffer Size n s = Inr (st, n', s')" "cc_wf P0 H0 s"
  obtains "cc_wf P0 H0 s'"
  | s5 B st2 PN2 PO2 B2 Size2 n2 s6 where "cc_wf P0 H0 s5" "0 <s Size - (PAGE_SIZE - PO)"
      "CcpFindAndReadWrite True (PN + 1) 0 (Some B) (Size - (PAGE_SIZE - PO)) s5 = Inr (st2, PN2, PO2, B2, Size2, n2, s6)"
      "CcpActualWrite rd wr PN2 PO2 (case B2 of None \<Rightarrow> 0 | Some b \<Rightarrow> b) Size2 n2 s6 = Inr (st, n', s')"
proof -
  from assms(1) obtain T s0 Status s1 n1 s4 s5 where a: "MmAllocatePage s = (T, s0)" and T: "T \<noteq> 0"
    and r: "CcpActualReadPage rd PN T s0 = Inr (Status, s1)"
    and b: "(if SUCCESS Status
      then and_then (copy (T + PO) Buffer (if PAGE_SIZE - PO < Size then PAGE_SIZE - PO else Size) s1) (\<lambda>s2. and_then (CcpCacheFilePage wr PN T s2) (\<lambda>(_, s3). Inr (n + (if PAGE_SIZE - PO < Size then PAGE_SIZE - PO else Size), s3)))
      else Inr (n, s1)) = Inr (n1, s4)"
    and f: "MmFreePage T s4 = Inr s5"
    and l: "(if 0 <s Size - (PAGE_SIZE - PO)
      then and_then (CcpFindAndReadWrite True (PN + 1) 0 (Some (Buffer + (PAGE_SIZE - PO))) (Size - (PAGE_SIZE - PO)) s5)
             (\<lambda>(st, PN2, PO2, B2, Size2, n2, s6).
               if st = STATUS_NOT_FOUND then CcpActualWrite rd wr PN2 PO2 (case B2 of None \<Rightarrow> 0 | Some b \<Rightarrow> b) Size2 n2 s6
               else Inr (st, n2, s6))
      else Inr (Status, n1, s5)) = Inr (st, n', s')"
    by (rule write_step)
  note w0 = page_alloc_wf [OF assms(2) a T]
  have w1: "cc_wf (insert T P0) H0 s1" using read_page_wf [OF r] w0 by blast
  have w4: "cc_wf (insert T P0) H0 s4"
    using b w1 read_page_wf [OF r] T
    by (auto simp: and_then_Inr split: if_splits dest!: copy_wf cache_page_wf)
  have w5: "cc_wf P0 H0 s5" using page_free_wf [OF w4 _ f] w0 by blast
  show thesis
    using l w5 find_wf that by (fastforce simp: and_then_Inr split: if_splits)
qed

lemma read_wf:
  assumes "CcpActualRead rd wr PN PO Buffer Size n C s = Inr (st, n', s')" "cc_wf P0 H0 s"
  shows "cc_wf P0 H0 s'"
  using assms
proof (induction "(if PO = 0 then 0 else 2 ^ 32 :: nat) + unat Size" arbitrary: PN PO Buffer Size n s rule: less_induct)
  case less
  from less.prems show ?case
  proof (cases rule: read_round)
    case (2 s5 B st2 PN2 PO2 B2 Size2 n2 s6)
    show ?thesis by (rule less.hyps [OF find_measure [OF 2(3,2)] 2(4) find_wf [OF 2(3,1)]])
  qed
qed

lemma write_wf:
  assumes "CcpActualWrite rd wr PN PO Buffer Size n s = Inr (st, n', s')" "cc_wf P0 H0 s"
  shows "cc_wf P0 H0 s'"
  using assms
proof (induction "(if PO = 0 then 0 else 2 ^ 32 :: nat) + unat Size" arbitrary: PN PO Buffer Size n s rule: less_induct)
  case less
  from less.prems show ?case
  proof (cases rule: write_round)
    case (2 s5 B st2 PN2 PO2 B2 Size2 n2 s6)
    show ?thesis by (rule less.hyps [OF find_measure [OF 2(3,2)] 2(4) find_wf [OF 2(3,1)]])
  qed
qed

lemma done_wf: "cache_done wr st n s = Inr (st', n', s') \<Longrightarrow> cc_wf P0 H0 s' = cc_wf P0 H0 s"
  by (auto simp: cache_done_def Let_def and_then_Inr upd_map_wf split: if_splits)

lemma cache_read_wf: "CcCacheReadFile rd wr Offset Buffer Size n s = Inr (st, n', s') \<Longrightarrow> cc_wf P0 H0 s \<Longrightarrow> cc_wf P0 H0 s'"
  unfolding CcCacheReadFile_def
  by (auto simp: and_then_Inr done_wf lock_wf split: if_splits dest!: read_wf find_wf)

lemma cache_write_wf: "CcCacheWriteFile rd wr Offset Buffer Size n s = Inr (st, n', s') \<Longrightarrow> cc_wf P0 H0 s \<Longrightarrow> cc_wf P0 H0 s'"
  unfolding CcCacheWriteFile_def
  by (auto simp: and_then_Inr done_wf lock_wf split: if_splits dest!: write_wf find_wf)

lemma init_wf:
  assumes "CcInitializeFileCaching csize rs ws s = Inr (st, s')" "alloc_ok s" "FileMap s = None"
  shows "cc_wf (Pages s) (HeapBlocks s) s'"
proof -
  define p where "p = HeapAlloc s (HeapAllocs s) (HeapBlocks s)"
  define q where "q = HeapAlloc s (HeapAllocs s + 1) (insert p (HeapBlocks s))"
  have fresh: "p = 0 \<or> p \<notin> HeapBlocks s" "q = 0 \<or> p \<noteq> q \<and> q \<notin> HeapBlocks s"
    using assms(2) unfolding alloc_ok_def p_def q_def by (metis insert_iff)+
  have ok: "alloc_ok s'" if "PageAlloc s' = PageAlloc s" "HeapAlloc s' = HeapAlloc s" "Pages s' = Pages s" "0 \<notin> HeapBlocks s'" for s' :: "'a cc"
    using assms(2) that by (simp add: alloc_ok_def)
  have z: "0 \<notin> HeapBlocks s" using assms(2) by (simp add: alloc_ok_def)
  define s1 where "s1 = s\<lparr>HeapAllocs := HeapAllocs s + 1, HeapBlocks := (if p = 0 then HeapBlocks s else insert p (HeapBlocks s))\<rparr>"
  have a1: "heap_alloc s = (p, s1)" by (simp add: heap_alloc_def p_def Let_def s1_def)
  define s2 where "s2 = s1\<lparr>HeapAllocs := HeapAllocs s1 + 1, HeapBlocks := (if q = 0 then HeapBlocks s1 else insert q (HeapBlocks s1))\<rparr>"
  have a2: "heap_alloc s1 = (q, s2)" if "p \<noteq> 0" using that by (simp add: heap_alloc_def q_def Let_def s1_def s2_def)
  define m where "m = \<lparr>CacheMapLock = False, CachedPages = 0, MaxCachedPages = MIN_CACHED_PAGES, RebuildCount = 0, ClusterSize = csize,
                  ClustersPerPage = (if csize < PAGE_SIZE then ucast (PAGE_SIZE div csize) else 0 :: u8), ShouldRebuild = 0,
                  HasRead = rs, HasWrite = ws, PageCacheMap = [], MapAt = p, ArrayAt = 0\<rparr>"
  have e: "s' = s \<or> (if p = 0 then Inr (STATUS_INSUFFICIENT_RESOURCES, no_cache s1)
      else if IS_FILE_CACHED s1 then let (q, s2) = heap_alloc s1 in
        if q = 0 then and_then (heap_free p s2) (\<lambda>s3. Inr (STATUS_INSUFFICIENT_RESOURCES, no_cache s3))
        else Inr (STATUS_SUCCESS, s2\<lparr>FileMap := Some (m\<lparr>PageCacheMap := replicate (unat MIN_CACHED_PAGES) zero_page, ArrayAt := q\<rparr>)\<rparr>)
      else Inr (STATUS_SUCCESS, s1\<lparr>FileMap := Some (m\<lparr>MaxCachedPages := 0\<rparr>)\<rparr>)) = Inr (st, s')"
  proof (cases "csize < PAGE_SIZE \<and> (csize = 0 \<or> PAGE_SIZE mod csize \<noteq> 0)")
    case True
    then show ?thesis using assms(1) by (simp add: CcInitializeFileCaching_def split: if_splits)
  next
    case False
    then have "\<not> (csize < PAGE_SIZE \<and> csize = 0)" "\<not> (csize < PAGE_SIZE \<and> PAGE_SIZE mod csize \<noteq> 0)" by blast+
    then show ?thesis using assms(1) unfolding CcInitializeFileCaching_def a1 Let_def prod.case m_def by (simp only: if_False simp_thms)
  qed
  consider "s' = s" | "p = 0" "s' = no_cache s1" | "p \<noteq> 0" "q = 0" "and_then (heap_free p s2) (\<lambda>s3. Inr (STATUS_INSUFFICIENT_RESOURCES, no_cache s3)) = Inr (st, s')"
    | "p \<noteq> 0" "q \<noteq> 0" "s' = s2\<lparr>FileMap := Some (m\<lparr>PageCacheMap := replicate (unat MIN_CACHED_PAGES) zero_page, ArrayAt := q\<rparr>)\<rparr>"
    | "p \<noteq> 0" "\<not> IS_FILE_CACHED s1" "s' = s1\<lparr>FileMap := Some (m\<lparr>MaxCachedPages := 0\<rparr>)\<rparr>"
    using e by (cases "p = 0"; cases "IS_FILE_CACHED s1"; cases "q = 0") (auto simp: a2)
  then show ?thesis
  proof cases
    case 1
    then show ?thesis using assms(2,3) by (simp add: cc_wf_def)
  next
    case 2
    then show ?thesis using ok [of s'] z by (simp add: cc_wf_def no_cache_def SET_FILE_NONCACHED_def Let_def s1_def)
  next
    case 3
    then have "s' = no_cache (s2\<lparr>HeapBlocks := HeapBlocks s\<rparr>)"
      using fresh by (simp add: heap_free_def s2_def s1_def split: if_splits)
    then show ?thesis using ok [of s'] z by (simp add: cc_wf_def no_cache_def SET_FILE_NONCACHED_def Let_def s1_def s2_def)
  next
    case 4
    then show ?thesis using ok [of s'] z fresh
      by (simp add: cc_wf_def map_ok_def buffers_def zero_page_def s2_def s1_def m_def MIN_CACHED_PAGES_def)
  next
    case 5
    then show ?thesis using ok [of s'] z fresh by (simp add: cc_wf_def map_ok_def buffers_def IS_FILE_CACHED_def s1_def m_def)
  qed
qed

text \<open>What the owners of a file can do with its cache, with any callbacks.\<close>

inductive cc_run :: "'d cc \<Rightarrow> 'd cc \<Rightarrow> bool" where
  run_none: "cc_run s s"
| run_read: "cc_run s s1 \<Longrightarrow> CcCacheReadFile rd wr Offset Buffer Size n s1 = Inr (st, n', s2) \<Longrightarrow> cc_run s s2"
| run_write: "cc_run s s1 \<Longrightarrow> CcCacheWriteFile rd wr Offset Buffer Size n s1 = Inr (st, n', s2) \<Longrightarrow> cc_run s s2"
| run_purge: "cc_run s s1 \<Longrightarrow> CcPurgeCacheFile wr s1 = Inr (st, s2) \<Longrightarrow> cc_run s s2"

lemma run_wf: "cc_run s s' \<Longrightarrow> cc_wf P0 H0 s \<Longrightarrow> cc_wf P0 H0 s'"
  by (induction rule: cc_run.induct) (auto intro: cache_read_wf cache_write_wf simp: purge_wf)

text \<open>C21: After \<open>CcInitializeFileCaching\<close>, whatever reads, writes and purges follow, with whatever the callbacks
  do and wherever the allocators fail, the cache map is well formed: its pages are allocated, each is used by
  one entry, none of them belongs to anybody else, and besides them and the two heap blocks of the map nothing
  that was allocated in between is still allocated.\<close>

theorem cache_well_formed:
  assumes "CcInitializeFileCaching csize rs ws s = Inr (st, s1)" "alloc_ok s" "FileMap s = None" "cc_run s1 s2"
  shows "cc_wf (Pages s) (HeapBlocks s) s2"
  using run_wf [OF assms(4) init_wf [OF assms(1-3)]] .

subsection \<open>Giving up the cache\<close>

lemma free_loop_frees:
  assumes "cc_wf P0 H0 s" "FileMap s = Some m" "k + n = length (PageCacheMap m)" "j \<le> CachedPages m"
    "filter Cached (take k (PageCacheMap m)) = []" "unat j + length (buffers m) \<le> unat (CachedPages m)"
  shows "\<exists>s' m'. free_loop k n j s = Inr s' \<and> cc_wf P0 H0 s' \<and> FileMap s' = Some m' \<and> buffers m' = [] \<and> ArrayAt m' = ArrayAt m \<and> MapAt m' = MapAt m \<and>
     CacheMapLock m' = CacheMapLock m \<and> IS_FILE_CACHED s' = IS_FILE_CACHED s"
  using assms
proof (induction n arbitrary: k j s m)
  case 0
  then show ?case by (auto simp: buffers_def)
next
  case (Suc n)
  define e where "e = PageCacheMap m ! k"
  have k: "k < length (PageCacheMap m)" using Suc.prems(3) by simp
  have split: "filter Cached (PageCacheMap m) = (if Cached e then [e] else []) @ filter Cached (drop (Suc k) (PageCacheMap m))"
  proof -
    have "filter Cached (take k (PageCacheMap m) @ e # drop (Suc k) (PageCacheMap m)) =
        (if Cached e then [e] else []) @ filter Cached (drop (Suc k) (PageCacheMap m))" using Suc.prems(5) by simp
    then show ?thesis using id_take_nth_drop [OF k] by (simp add: e_def)
  qed
  have f: "the_map s = Inr m" using Suc.prems(2) by (simp add: the_map_def)
  show ?case
  proof (cases "Cached e")
    case False
    then have t: "filter Cached (take (Suc k) (PageCacheMap m)) = []"
      using Suc.prems(5) k by (simp add: take_Suc_conv_app_nth e_def)
    show ?thesis
    proof (cases "j < CachedPages m")
      case True
      then show ?thesis using Suc.IH [OF Suc.prems(1,2) _ Suc.prems(4) t Suc.prems(6)] False f Suc.prems(3) by (simp add: e_def)
    next
      case nj: False
      then have "length (buffers m) = 0" using Suc.prems(6) unfolding not_less word_le_nat_alt by linarith
      then have "buffers m = []" by simp
      then show ?thesis using nj f Suc.prems(1,2) by simp
    qed
  next
    case True
    define m' where "m' = m\<lparr>PageCacheMap := (PageCacheMap m)[k := e\<lparr>Cached := False\<rparr>]\<rparr>"
    define s' where "s' = s\<lparr>Pages := Pages s - {PgBuffer e}, FileMap := Some m'\<rparr>"
    have b: "buffers m = PgBuffer e # buffers m'"
    proof -
      have "filter Cached (PageCacheMap m') = filter Cached (drop (Suc k) (PageCacheMap m))"
        using Suc.prems(5) k by (simp add: m'_def upd_conv_take_nth_drop)
      then show ?thesis using split True by (simp add: buffers_def)
    qed
    have M: "map_ok P0 H0 s m" "alloc_ok s" using Suc.prems(1,2) by (simp_all add: cc_wf_def)
    have d: "PgBuffer e \<notin> set (buffers m')" "PgBuffer e \<notin> P0" "PgBuffer e \<in> Pages s" using M(1) b by (auto simp: map_ok_def)
    have mf: "MaxCachedPages m' = MaxCachedPages m" "MapAt m' = MapAt m" "ArrayAt m' = ArrayAt m" "CachedPages m' = CachedPages m"
      "length (PageCacheMap m') = length (PageCacheMap m)" "CacheMapLock m' = CacheMapLock m" by (simp_all add: m'_def)
    have sf: "HeapBlocks s' = HeapBlocks s" "FileMap s' = Some m'" "Pages s' = Pages s - {PgBuffer e}" "IS_FILE_CACHED s' = IS_FILE_CACHED s"
      "PageAlloc s' = PageAlloc s" "HeapAlloc s' = HeapAlloc s" by (simp_all add: s'_def IS_FILE_CACHED_def)
    have w: "cc_wf P0 H0 s'"
      using M d unfolding cc_wf_def sf option.case map_ok_def alloc_ok_def mf b by auto
    have j: "unat j + Suc (length (buffers m')) \<le> unat (CachedPages m)" using Suc.prems(6) b by simp
    then have lt: "j < CachedPages m" by (simp add: word_less_nat_alt)
    then have "j \<noteq> - 1" using word_order.extremum_strict by metis
    then have "1 + j \<noteq> 0" by (metis add.commute eq_neg_iff_add_eq_0)
    then have j1: "unat (j + 1) = unat j + 1" using unatSuc by (metis Suc_eq_plus1 add.commute)
    have t: "filter Cached (take (Suc k) (PageCacheMap m')) = []"
      using Suc.prems(5) k by (simp add: take_Suc_conv_app_nth m'_def)
    have step: "free_loop k (Suc n) j s = free_loop (Suc k) n (j + 1) s'"
      using True lt f d(3) k Suc.prems(2) by (simp add: e_def [symmetric] MmFreePage_def upd_page_def upd_map_def s'_def m'_def)
    have c: "j + 1 \<le> CachedPages m'" "unat (j + 1) + length (buffers m') \<le> unat (CachedPages m')"
      using j j1 mf(4) by (simp_all add: word_le_nat_alt)
    show ?thesis using Suc.IH [OF w sf(2) _ c(1) t c(2)] Suc.prems(3) unfolding step mf sf by simp
  qed
qed


text \<open>What purges keep.\<close>

definition shape :: "'d cc \<Rightarrow> (u32 list \<times> nat \<times> u32 \<times> u32 \<times> u32 \<times> u32) option \<times> bool" where
  "shape s = (map_option (\<lambda>m. (buffers m, length (PageCacheMap m), CachedPages m, MaxCachedPages m, ArrayAt m, MapAt m)) (FileMap s), IS_FILE_CACHED s)"

lemma shape_mem [simp]: "shape (s\<lparr>CcMem := mem, CcDev := d\<rparr>) = shape s"
  by (simp add: shape_def IS_FILE_CACHED_def)

lemma shape_page:
  assumes "\<And>e. Cached (f e) = Cached e" "\<And>e. PgBuffer (f e) = PgBuffer e"
  shows "shape (upd_page k f s) = shape s"
  using assms by (cases "FileMap s") (simp_all add: shape_def upd_page_def upd_map_def buffers_def buffers_update IS_FILE_CACHED_def)

lemma shape_lock [simp]: "shape (upd_map (\<lambda>m. m\<lparr>CacheMapLock := b\<rparr>) s) = shape s"
  by (cases "FileMap s") (simp_all add: shape_def upd_map_def buffers_def IS_FILE_CACHED_def)

lemma write_loop_shape: "write_loop wr m e i n st s = Inr (st', s') \<Longrightarrow> shape s' = shape s"
proof (induction n arbitrary: i st s)
  case (Suc n)
  then obtain a s1 where "callback wr (PageNumber e * ucast (ClustersPerPage m) + i) (PgBuffer e + i * ClusterSize m) (ClusterSize m) s = Inr (a, s1)"
    "write_loop wr m e (i + 1) n (Inr a) s1 = Inr (st', s')" by (auto simp: and_then_Inr)
  then show ?case using Suc.IH by (fastforce dest: callback_mem)
qed (auto simp: and_then_Inr)

lemma write_back_shape: "write_back wr k s = Inr (st, s') \<Longrightarrow> shape s' = shape s"
  by (auto simp: write_back_def CcpActualWritePage_def and_then_Inr shape_page split: if_splits dest!: write_loop_shape)

lemma purge_loop_shape: "purge_loop wr k n st s = Inr (st', s') \<Longrightarrow> shape s' = shape s"
proof (induction n arbitrary: k st s)
  case (Suc n)
  then show ?case by (auto simp: and_then_Inr Let_def split: if_splits dest!: write_back_shape)
qed simp

lemma purge_shape: "CcPurgeCacheFile wr s = Inr (st, s') \<Longrightarrow> shape s' = shape s"
  by (auto simp: CcPurgeCacheFile_def lock_map_def unlock_map_def and_then_Inr split: if_splits dest!: purge_loop_shape)

lemma heap_free_Inr: "heap_free p s = Inr s' \<longleftrightarrow> p \<in> HeapBlocks s \<and> s' = s\<lparr>HeapBlocks := HeapBlocks s - {p}\<rparr>"
  by (auto simp: heap_free_def)

text \<open>C22: When the cache is given up and everything modified could be written, every page of the cache and both
  heap blocks of the map are given back, each once, and nothing else is: the file ends without a cache and
  with exactly the pages and blocks that belong to others.\<close>

theorem free_gives_back:
  assumes "cc_wf P0 H0 s" "FileMap s = Some m" "length (PageCacheMap m) < 2 ^ 32" "length (buffers m) \<le> unat (CachedPages m)"
    "CcPurgeCacheFile wr s = Inr (STATUS_SUCCESS, s1)" "IS_FILE_CACHED s"
  shows "\<exists>s'. CcFreeCacheMap wr s = Inr (STATUS_SUCCESS, s') \<and> Pages s' = P0 \<and> HeapBlocks s' = H0 \<and> FileMap s' = None \<and> \<not> IS_FILE_CACHED s'"
proof -
  have w1: "cc_wf P0 H0 s1" using purge_wf [OF assms(5)] assms(1) by blast
  have "shape s1 = shape s" by (rule purge_shape [OF assms(5)])
  then obtain m1 where m1: "FileMap s1 = Some m1" "buffers m1 = buffers m" "length (PageCacheMap m1) = length (PageCacheMap m)"
    "CachedPages m1 = CachedPages m" "IS_FILE_CACHED s1"
    using assms(2,6) by (auto simp: shape_def)
  have unlocked: "\<not> CacheMapLock m1"
    using assms(5) m1(1) by (auto simp: CcPurgeCacheFile_def unlock_map_def upd_map_def and_then_Inr)
  define m2 where "m2 = m1\<lparr>CacheMapLock := True\<rparr>"
  define s2 where "s2 = s1\<lparr>FileMap := Some m2\<rparr>"
  have l: "lock_map s1 = Inr s2" using unlocked m1(1) by (simp add: lock_map_def the_map_def upd_map_def s2_def m2_def)
  have s2: "cc_wf P0 H0 s2" "FileMap s2 = Some m2" "IS_FILE_CACHED s2"
    using lock_wf [OF l] w1 m1(5) by (simp_all add: s2_def IS_FILE_CACHED_def)
  have m2: "buffers m2 = buffers m" "length (PageCacheMap m2) = length (PageCacheMap m)" "CachedPages m2 = CachedPages m"
    using m1 by (simp_all add: m2_def buffers_def)
  have mx: "unat (MaxCachedPages m2) = length (PageCacheMap m2)"
    using s2(1,2) assms(3) m2 by (simp add: cc_wf_def map_ok_def unsigned_of_nat take_bit_nat_eq_self)
  obtain s3 m3 where f: "free_loop 0 (unat (MaxCachedPages m2)) 0 s2 = Inr s3" "cc_wf P0 H0 s3" "FileMap s3 = Some m3" "buffers m3 = []"
    "ArrayAt m3 = ArrayAt m2" "MapAt m3 = MapAt m2" "IS_FILE_CACHED s3"
    using free_loop_frees [OF s2(1,2), of 0 "length (PageCacheMap m2)" 0] assms(4) m2 s2(3) unfolding mx by auto
  define s4 where "s4 = (unlock_map s3)\<lparr>HeapBlocks := HeapBlocks s3 - {ArrayAt m2}\<rparr>"
  have M3: "map_ok P0 H0 s3 m3" using f(2,3) by (simp add: cc_wf_def)
  have u: "HeapBlocks (unlock_map s3) = HeapBlocks s3" "Pages (unlock_map s3) = Pages s3" "FileMap (unlock_map s3) = Some (m3\<lparr>CacheMapLock := False\<rparr>)"
    using f(3) by (simp_all add: unlock_map_def upd_map_def)
  have b: "HeapBlocks s3 = H0 \<union> {MapAt m2, ArrayAt m2}" "MapAt m2 \<noteq> ArrayAt m2" "MapAt m2 \<notin> H0" "ArrayAt m2 \<notin> H0" "Pages s3 = P0"
    using M3 f(4-7) by (auto simp: map_ok_def)
  have h1: "heap_free (ArrayAt m2) (unlock_map s3) = Inr s4" using b by (simp add: heap_free_Inr u s4_def)
  define s5 where "s5 = s4\<lparr>HeapBlocks := HeapBlocks s4 - {MapAt m2}\<rparr>"
  have h2: "heap_free (MapAt m2) s4 = Inr s5" using b by (simp add: heap_free_Inr s4_def s5_def)
  have m4: "the_map s4 = Inr (m3\<lparr>CacheMapLock := False\<rparr>)" using u by (simp add: the_map_def s4_def)
  have "CcFreeCacheMap wr s = Inr (STATUS_SUCCESS, no_cache s5)"
    using assms(5,6) l s2(2) f(1,6) h1 m4 h2 by (simp add: CcFreeCacheMap_def the_map_def)
  moreover have "Pages (no_cache s5) = P0" "HeapBlocks (no_cache s5) = H0"
    using b u by (auto simp: no_cache_def SET_FILE_NONCACHED_def Let_def s5_def s4_def)
  ultimately show ?thesis by (simp add: no_cache_def SET_FILE_NONCACHED_def IS_FILE_CACHED_def Let_def)
qed

subsection \<open>Pages that are not in the cache\<close>

definition uncached :: "u32 \<Rightarrow> 'd cc \<Rightarrow> bool" where
  "uncached PN s \<longleftrightarrow> (\<forall>e\<in>entries s. PageNumber e \<noteq> PN)"

text \<open>A lookup of a page that is not cached.\<close>

lemma find_uncached:
  assumes "FileMap s = Some m" "uncached PN s"
  shows "CcpFindAndReadWrite W PN PO B Size s = Inr (STATUS_NOT_FOUND, PN, PO, B, Size, 0, s)"
proof -
  have "scan (\<lambda>e. Cached e \<and> PageNumber e = PN) (PageCacheMap m) = None"
    using assms by (auto simp: scan_None uncached_def entries_def)
  then show ?thesis using assms(1) by (simp add: CcpFindAndReadWrite_def the_map_def find_miss)
qed

lemma entries_mem [simp]: "entries (s\<lparr>CcMem := mem, CcDev := d\<rparr>) = entries s" "entries (s\<lparr>CcMem := mem\<rparr>) = entries s"
  by (simp_all add: entries_def)

lemma entries_upd: "(\<And>m. PageCacheMap (f m) = PageCacheMap m) \<Longrightarrow> entries (upd_map f s) = entries s"
  by (cases "FileMap s") (simp_all add: entries_def upd_map_def)

lemma entries_lock: "lock_map s = Inr s' \<Longrightarrow> entries s' = entries s"
  by (auto simp: lock_map_def and_then_Inr entries_upd split: if_splits)

lemma entries_alloc: "MmAllocatePage s = (T, s') \<Longrightarrow> entries s' = entries s"
  by (auto simp: MmAllocatePage_def Let_def entries_def)

lemma entries_free: "MmFreePage T s = Inr s' \<Longrightarrow> entries s' = entries s \<and> FileMap s' = FileMap s \<and> CcDev s' = CcDev s \<and> CcMem s' = CcMem s"
  by (auto simp: MmFreePage_def entries_def split: if_splits)

lemma dev_upd [simp]: "CcDev (upd_map f s) = CcDev s"
  by (simp add: upd_map_def)

lemma entries_done: "cache_done wr st n s = Inr (st', n', s') \<Longrightarrow> entries s' = entries s \<and> st' = st \<and> n' = n \<and> CcDev s' = CcDev s"
  by (auto simp: cache_done_def Let_def and_then_Inr unlock_map_def entries_upd split: if_splits)

text \<open>What the entries of one round of a read or a write are: at most a new one, clean.\<close>

lemma cache_page_entries:
  assumes "CcpCacheFilePage wr PN T s = Inr (st, s')" "cc_wf P0 H0 s" "T \<noteq> 0" "FileMap s \<noteq> None"
  shows "FileMap s' \<noteq> None \<and> CcDev s' = CcDev s \<and> (entries s' = entries s \<or> (\<exists>e. entries s' = insert e (entries s) \<and> PageNumber e = PN \<and> \<not> Modified e))"
  using cache_page_spec [OF assms(2-4), of wr PN] assms(1) by auto

text \<open>A read callback that leaves the device as it is.\<close>

definition keeps_device :: "'d callback \<Rightarrow> bool" where
  "keeps_device rd \<longleftrightarrow> (\<forall>cl b n mem d st mem' d'. rd cl b n mem d = Inr (st, mem', d') \<longrightarrow> d' = d)"

lemma callback_device: "keeps_device rd \<Longrightarrow> callback rd cl b n s = Inr (st, s') \<Longrightarrow> CcDev s' = CcDev s"
  unfolding keeps_device_def callback_def by (auto simp: and_then_Inr)

lemma read_loop_device: "keeps_device rd \<Longrightarrow> read_loop rd m PN b i n st s = Inr (st', s') \<Longrightarrow> CcDev s' = CcDev s"
proof (induction n arbitrary: i st s)
  case (Suc n)
  then obtain a s1 where c: "callback rd (PN * ucast (ClustersPerPage m) + i) (b + i * ClusterSize m) (ClusterSize m) s = Inr (a, s1)"
    and r: "s' = s1 \<or> read_loop rd m PN b (i + 1) n (Inr a) s1 = Inr (st', s')" by (auto simp: and_then_Inr split: if_splits)
  from callback_device [OF Suc.prems(1) c] show ?case using r Suc.IH Suc.prems(1) by metis
qed (auto simp: and_then_Inr)

lemma read_page_device: "keeps_device rd \<Longrightarrow> CcpActualReadPage rd PN b s = Inr (st, s') \<Longrightarrow> CcDev s' = CcDev s"
  by (auto simp: CcpActualReadPage_def and_then_Inr read_loop_device split: if_splits)

lemma sint_diff:
  fixes x y :: u32
  assumes "int (unat x) - int (unat y) < 2147483648" "- 2147483648 \<le> int (unat x) - int (unat y)"
  shows "sint (x - y) = int (unat x) - int (unat y)"
proof -
  have "sint (x - y) = sint (of_int (int (unat x) - int (unat y)) :: u32)" by simp
  then show ?thesis unfolding signed_of_int by (subst (asm) signed_take_bit_int_eq_self) (use assms in simp_all)
qed

lemma page_rest: "unat PO < 4096 \<Longrightarrow> unat (PAGE_SIZE - PO) = 4096 - unat PO"
  by (simp add: PAGE_SIZE_def unat_sub word_le_nat_alt)

lemma single_page:
  assumes "unat PO < 4096" "unat PO + unat Size \<le> 4096"
  shows "\<not> 0 <s Size - (PAGE_SIZE - PO)" "\<not> PAGE_SIZE - PO < Size"
proof -
  note p = page_rest [OF assms(1)]
  then show n: "\<not> PAGE_SIZE - PO < Size" using assms by (simp add: word_less_nat_alt)
  have "sint (Size - (PAGE_SIZE - PO)) \<le> 0" using assms p by (subst sint_diff) linarith+
  then show "\<not> 0 <s Size - (PAGE_SIZE - PO)" by (simp add: word_sless_alt)
qed

lemma two_pages:
  assumes "unat PO < 4096" "4096 < unat PO + unat Size" "unat PO + unat Size \<le> 8192"
  shows "0 <s Size - (PAGE_SIZE - PO)" "unat (Size - (PAGE_SIZE - PO)) = unat PO + unat Size - 4096"
proof -
  note p = page_rest [OF assms(1)]
  then show u: "unat (Size - (PAGE_SIZE - PO)) = unat PO + unat Size - 4096"
    using assms by (subst unat_sub) (simp_all add: word_le_nat_alt)
  have "0 < sint (Size - (PAGE_SIZE - PO))" using assms p by (subst sint_diff) linarith+
  then show "0 <s Size - (PAGE_SIZE - PO)" by (simp add: word_sless_alt)
qed

lemma page_offset_less: "unat (page_offset Offset) < 4096"
proof -
  have "page_offset Offset = take_bit 12 Offset" by (simp add: page_offset_def PAGE_SIZE_def take_bit_eq_mask mask_eq_exp_minus_1)
  then show ?thesis using take_bit_nat_less_exp [of 12 "unat Offset"] by (simp add: unsigned_take_bit_eq)
qed

lemma write_single:
  assumes ok: "cc_wf P0 H0 s" and sz: "unat PO < 4096" "unat PO + unat Size \<le> 4096" and rd: "keeps_device rd"
    and w: "CcpActualWrite rd wr PN PO Buffer Size n s = Inr (st, n', s')"
  shows "FileMap s' \<noteq> None \<and> CcDev s' = CcDev s \<and> (SUCCESS st \<longrightarrow> n' = n + Size) \<and>
    (entries s' = entries s \<or> (\<exists>e. entries s' = insert e (entries s) \<and> PageNumber e = PN \<and> \<not> Modified e))"
proof -
  obtain T s0 where a: "MmAllocatePage s = (T, s0)" by fastforce
  have T: "T \<noteq> 0" using w a by (subst (asm) CcpActualWrite.simps) (auto split: if_splits)
  note w0 = page_alloc_wf [OF ok a T]
  obtain s1 s4 where
    r: "CcpActualReadPage rd PN T s0 = Inr (st, s1)" and
    b: "(if SUCCESS st then and_then (copy (T + PO) Buffer Size s1) (\<lambda>s2. and_then (CcpCacheFilePage wr PN T s2) (\<lambda>(_, s3). Inr (n + Size, s3)))
         else Inr (n, s1)) = Inr (n', s4)" and
    f: "MmFreePage T s4 = Inr s'"
    using w T single_page [OF sz] unfolding CcpActualWrite.simps [of rd wr PN PO Buffer Size n s] a Let_def prod.case if_not_P [OF T]
    by (auto simp only: and_then_Inr prod.case if_False)
  have fm: "FileMap s0 \<noteq> None" "FileMap s1 = FileMap s0" "entries s1 = entries s0" "cc_wf (insert T P0) H0 s1"
    using read_page_wf [OF r] w0 by (simp_all add: entries_def)
  have dev: "CcDev s1 = CcDev s" using read_page_device [OF rd r] a by (auto simp: MmAllocatePage_def Let_def)
  show ?thesis
  proof (cases "SUCCESS st")
    case False
    then show ?thesis using b fm dev entries_free [OF f] entries_alloc [OF a] by auto
  next
    case True
    then obtain s2 st3 s3 where c: "copy (T + PO) Buffer Size s1 = Inr s2" "CcpCacheFilePage wr PN T s2 = Inr (st3, s3)" "n' = n + Size" "s4 = s3"
      using b by (auto simp: and_then_Inr)
    obtain mem where s2: "s2 = s1\<lparr>CcMem := mem\<rparr>" using copy_mem [OF c(1)] ..
    have "FileMap s3 \<noteq> None \<and> CcDev s3 = CcDev s2 \<and> (entries s3 = entries s2 \<or> (\<exists>e. entries s3 = insert e (entries s2) \<and> PageNumber e = PN \<and> \<not> Modified e))"
      by (rule cache_page_entries [OF c(2) _ T, of "insert T P0" H0]) (use fm in \<open>simp_all add: s2\<close>)
    then show ?thesis using c(3,4) fm(3) dev entries_free [OF f] entries_alloc [OF a] by (auto simp: s2)
  qed
qed

lemma purge_clean:
  assumes "FileMap s = Some m" "\<not> CacheMapLock m" "\<forall>e\<in>entries s. \<not> Modified e" "cc_wf P0 H0 s"
  shows "\<exists>s'. (\<forall>wr. CcPurgeCacheFile wr s = Inr (STATUS_SUCCESS, s')) \<and> CcDev s' = CcDev s \<and> CcMem s' = CcMem s"
proof -
  define m1 where "m1 = m\<lparr>CacheMapLock := True\<rparr>"
  define s1 where "s1 = s\<lparr>FileMap := Some m1\<rparr>"
  have l: "lock_map s = Inr s1" using assms(1,2) by (simp add: lock_map_def the_map_def upd_map_def s1_def m1_def)
  have len: "unat (MaxCachedPages m1) \<le> length (PageCacheMap m1)"
    using assms(1,4) by (simp add: cc_wf_def map_ok_def m1_def unsigned_of_nat take_bit_nat_less_eq_self)
  have "purge_loop wr k n STATUS_SUCCESS s1 = Inr (STATUS_SUCCESS, s1)" if "k + n \<le> length (PageCacheMap m1)" for wr k n
    using that
  proof (induction n arbitrary: k)
    case (Suc n)
    then have "PageCacheMap m1 ! k \<in> set (PageCacheMap m1)" by simp
    then have "\<not> (Cached (PageCacheMap m1 ! k) \<and> Modified (PageCacheMap m1 ! k))"
      using assms(1,3) by (auto simp: entries_def m1_def)
    then show ?case using Suc by (auto simp: the_map_def s1_def Let_def)
  qed simp
  then have "CcPurgeCacheFile wr s = Inr (STATUS_SUCCESS, unlock_map s1)" for wr
    using len by (simp add: CcPurgeCacheFile_def l the_map_def s1_def)
  moreover have "CcDev (unlock_map s1) = CcDev s" "CcMem (unlock_map s1) = CcMem s"
    by (simp_all add: unlock_map_def upd_map_def s1_def)
  ultimately show ?thesis by blast
qed

lemma done_unlocked: "cache_done wr st n s = Inr (st', n', s') \<Longrightarrow> \<exists>m. FileMap s' = Some m \<and> \<not> CacheMapLock m"
  by (auto simp: cache_done_def Let_def and_then_Inr unlock_map_def upd_map_def the_map_def split: if_splits option.splits)

lemma lock_map_Some: "lock_map s = Inr s' \<Longrightarrow> FileMap s' \<noteq> None \<and> CcDev s' = CcDev s \<and> ReadThrough s' = ReadThrough s \<and> WriteThrough s' = WriteThrough s"
  by (auto simp: lock_map_def the_map_def upd_map_def split: option.splits if_splits)

text \<open>C23: A write within one page that is not in the cache, to a file that is not write-through, reports success and the
  whole size, but the page enters the cache without being marked as modified. When nothing else in the cache is
  modified, a purge right after the write succeeds without calling the write callback, whatever callback it is given,
  and the device is what it was before the write.\<close>

theorem cached_write_is_lost:
  assumes "cc_wf P0 H0 s" "uncached (page_number Offset) s" "\<forall>e\<in>entries s. \<not> Modified e" "\<not> WriteThrough s" "keeps_device rd"
    "unat (page_offset Offset) + unat Size \<le> 4096" "CcCacheWriteFile rd wr Offset Buffer Size n s = Inr (STATUS_CACHED, n', s1)"
  shows "n' = Size \<and> (\<exists>s2. (\<forall>wr'. CcPurgeCacheFile wr' s1 = Inr (STATUS_SUCCESS, s2)) \<and> CcDev s2 = CcDev s)"
proof -
  obtain sl where l: "lock_map s = Inr sl" using assms(7) by (auto simp: CcCacheWriteFile_def and_then_Inr)
  note L = lock_map_Some [OF l]
  obtain m where m: "FileMap sl = Some m" using L by blast
  have wl: "cc_wf P0 H0 sl" and el: "entries sl = entries s" using lock_wf [OF l] entries_lock [OF l] assms(1) by simp_all
  have u: "uncached (page_number Offset) sl" using assms(2) el by (simp add: uncached_def)
  obtain st3 n3 s3 where w: "CcpActualWrite rd wr (page_number Offset) (page_offset Offset) Buffer Size 0 sl = Inr (st3, n3, s3)"
    and d: "cache_done wr (if SUCCESS st3 then STATUS_CACHED else st3) n3 s3 = Inr (STATUS_CACHED, n', s1)"
    using assms(4,7) L l find_uncached [OF m u] by (auto simp: CcCacheWriteFile_def and_then_Inr split: if_splits)
  note W = write_single [OF wl page_offset_less assms(6,5) w]
  note D = entries_done [OF d]
  have ok: "SUCCESS st3" using D by (auto simp: SUCCESS_def STATUS_CACHED_def split: if_splits)
  have "\<forall>e\<in>entries s1. \<not> Modified e" using W D el assms(3) by auto
  moreover have "cc_wf P0 H0 s1" using done_wf [OF d] write_wf [OF w wl] by simp
  ultimately show ?thesis
    using done_unlocked [OF d] purge_clean [of s1 _ P0 H0] W D ok L by (metis add_0)
qed

lemma read_single:
  assumes "unat PO < 4096" "unat PO + unat Size \<le> 4096" "CcpActualRead rd wr PN PO Buffer Size n C s = Inr (st, n', s')" "SUCCESS st"
  shows "n' = n + Size"
proof -
  from assms(3) show ?thesis by (rule read_step) (use assms(4) single_page [OF assms(1,2)] in \<open>auto simp: and_then_Inr split: if_splits\<close>)
qed

text \<open>A request within one page reports its size.\<close>

lemma one_page_count:
  assumes "CcCacheReadFile rd wr Offset B Size 0 s = Inr (st, n', s')" "SUCCESS st" "unat (page_offset Offset) + unat Size \<le> 4096"
  shows "n' = Size"
proof -
  let ?PN = "page_number Offset" and ?PO = "page_offset Offset"
  obtain sl where l: "lock_map s = Inr sl" using assms(1) by (auto simp: CcCacheReadFile_def and_then_Inr)
  obtain m where m: "the_map sl = Inr m" using lock_map_Some [OF l] by (auto simp: the_map_def)
  have fit: "Size \<le> PAGE_SIZE - ?PO"
    using assms(3) page_offset_less [of Offset] by (simp add: word_le_nat_alt unat_sub_if' PAGE_SIZE_def)
  show ?thesis
  proof (cases "ReadThrough sl")
    case True
    then have "CcpActualRead rd wr ?PN ?PO B Size 0 False (unlock_map sl) = Inr (st, n', s')"
      using assms(1) l by (auto simp: CcCacheReadFile_def split: if_splits)
    from read_single [OF page_offset_less assms(3) this assms(2)] show ?thesis by simp
  next
    case False
    show ?thesis
    proof (cases "scan (\<lambda>e. Cached e \<and> PageNumber e = ?PN) (PageCacheMap m)")
      case None
      obtain st3 n3 s3 where w: "CcpActualRead rd wr ?PN ?PO B Size 0 True sl = Inr (st3, n3, s3)"
        and d: "cache_done wr (if SUCCESS st3 then STATUS_CACHED else st3) n3 s3 = Inr (st, n', s')"
        using assms(1) l False find_miss [OF m None] 
        by (auto simp: CcCacheReadFile_def CcpFindAndReadWrite_def and_then_Inr split: if_splits)
      note D = entries_done [OF d]
      have "SUCCESS st3" using D assms(2) by (auto split: if_splits)
      then show ?thesis using read_single [OF page_offset_less assms(3) w] D by simp
    next
      case (Some k)
      obtain s2 where "cache_done wr STATUS_SUCCESS Size s2 = Inr (st, n', s')"
        using assms(1) l False find_last [OF m Some fit refl refl, where B = B and W = False and n = 0]
        by (auto simp: CcCacheReadFile_def CcpFindAndReadWrite_def and_then_Inr status_simps split: if_splits)
      then show ?thesis using entries_done by blast
    qed
  qed
qed

text \<open>A read over the border of two pages that are not in the cache reports only the bytes of the second
  page, whatever was read of the first: the lookup of the second page sets the count to 0.\<close>

theorem cross_page_read_reports_tail:
  assumes "cc_wf P0 H0 s" "uncached (page_number Offset) s" "uncached (page_number Offset + 1) s" "\<not> ReadThrough s"
    "4096 < unat (page_offset Offset) + unat Size" "unat (page_offset Offset) + unat Size \<le> 8192"
    "CcCacheReadFile rd wr Offset Buffer Size n s = Inr (STATUS_CACHED, n', s')"
  shows "unat n' = unat (page_offset Offset) + unat Size - 4096"
proof -
  obtain sl where l: "lock_map s = Inr sl" using assms(7) by (auto simp: CcCacheReadFile_def and_then_Inr)
  note L = lock_map_Some [OF l]
  obtain m where m: "FileMap sl = Some m" using L by blast
  have wl: "cc_wf P0 H0 sl" and el: "entries sl = entries s" using lock_wf [OF l] entries_lock [OF l] assms(1) by simp_all
  have u: "uncached (page_number Offset) sl" using assms(2) el by (simp add: uncached_def)
  define PN where "PN = page_number Offset"
  define PO where "PO = page_offset Offset"
  obtain st3 n3 s3 where w: "CcpActualRead rd wr PN PO Buffer Size 0 True sl = Inr (st3, n3, s3)"
    and d: "cache_done wr (if SUCCESS st3 then STATUS_CACHED else st3) n3 s3 = Inr (STATUS_CACHED, n', s')"
    using assms(4,7) L l find_uncached [OF m u] by (auto simp: CcCacheReadFile_def PN_def PO_def and_then_Inr split: if_splits)
  note D = entries_done [OF d]
  have ok: "SUCCESS st3" using D by (auto simp: SUCCESS_def STATUS_CACHED_def split: if_splits)
  note two = two_pages [OF page_offset_less assms(5,6), folded PO_def]
  from w obtain T s0 st1 s1 n1 s4 s5 where a: "MmAllocatePage sl = (T, s0)" and T: "T \<noteq> 0"
    and r: "CcpActualReadPage rd PN T s0 = Inr (st1, s1)"
    and b: "(if SUCCESS st1
      then and_then (if Buffer \<noteq> 0 then copy Buffer (T + PO) (if PAGE_SIZE - PO < Size then PAGE_SIZE - PO else Size) s1 else Inr s1) (\<lambda>s2.
           and_then (if True then and_then (CcpCacheFilePage wr PN T s2) (\<lambda>(_, s3). Inr s3) else Inr s2) (\<lambda>s3. Inr (0 + (if PAGE_SIZE - PO < Size then PAGE_SIZE - PO else Size), s3)))
      else Inr (0, s1)) = Inr (n1, s4)"
    and f: "MmFreePage T s4 = Inr s5"
    and lst: "(if 0 <s Size - (PAGE_SIZE - PO)
      then and_then (CcpFindAndReadWrite False (PN + 1) 0 (Some (if Buffer = 0 then 0 else Buffer + (PAGE_SIZE - PO))) (Size - (PAGE_SIZE - PO)) s5)
             (\<lambda>(st, PN2, PO2, B2, Size2, n2, s6).
               if st = STATUS_NOT_FOUND then CcpActualRead rd wr PN2 PO2 (case B2 of None \<Rightarrow> 0 | Some b \<Rightarrow> b) Size2 n2 True s6
               else Inr (st, n2, s6))
      else Inr (st1, n1, s5)) = Inr (st3, n3, s3)"
    by (rule read_step)
  note w0 = page_alloc_wf [OF wl a T]
  define Size' where "Size' = Size - (PAGE_SIZE - PO)"
  have s1: "FileMap s1 \<noteq> None" "entries s1 = entries sl" "cc_wf (insert T P0) H0 s1"
    using read_page_wf [OF r] w0 m entries_alloc [OF a] by (simp_all add: entries_def)
  have s4: "FileMap s4 \<noteq> None \<and> (\<forall>e\<in>entries s4. e \<in> entries sl \<or> PageNumber e = PN)"
  proof (cases "SUCCESS st1")
    case False
    then show ?thesis using b s1 by auto
  next
    case True
    then obtain s2 st2 where s2: "(if Buffer \<noteq> 0 then copy Buffer (T + PO) (if PAGE_SIZE - PO < Size then PAGE_SIZE - PO else Size) s1 else Inr s1) = Inr s2"
      and c: "CcpCacheFilePage wr PN T s2 = Inr (st2, s4)"
      using b by (simp only: if_True and_then_Inr) (auto simp only: and_then_Inr prod.case prod.inject sum.inject)
    have "s2 = s1\<lparr>CcMem := CcMem s1\<rparr> \<or> (\<exists>mem. s2 = s1\<lparr>CcMem := mem\<rparr>)" using s2 by (cases "Buffer = 0") (auto dest: copy_mem)
    then obtain mem where mem: "s2 = s1\<lparr>CcMem := mem\<rparr>" by blast
    have "FileMap s4 \<noteq> None \<and> CcDev s4 = CcDev s2 \<and> (entries s4 = entries s2 \<or> (\<exists>e. entries s4 = insert e (entries s2) \<and> PageNumber e = PN \<and> \<not> Modified e))"
      by (rule cache_page_entries [OF c _ T, of "insert T P0" H0]) (use s1 in \<open>simp_all add: mem\<close>)
    then show ?thesis using s1(2) by (auto simp: mem)
  qed
  have "uncached (PN + 1) s5" unfolding uncached_def
  proof
    fix e assume "e \<in> entries s5"
    then have "e \<in> entries s \<or> PageNumber e = PN" using s4 el entries_free [OF f] by auto
    moreover have "PN \<noteq> PN + 1" by simp
    ultimately show "PageNumber e \<noteq> PN + 1" using assms(3) by (auto simp: uncached_def PN_def)
  qed
  then obtain m5 where m5: "FileMap s5 = Some m5" "uncached (PN + 1) s5" using s4 entries_free [OF f] by auto
  have "CcpActualRead rd wr (PN + 1) 0 (if Buffer = 0 then 0 else Buffer + (PAGE_SIZE - PO)) Size' 0 True s5 = Inr (st3, n3, s3)"
    using lst find_uncached [OF m5] two(1) by (simp add: Size'_def)
  then have "n3 = 0 + Size'" by (rule read_single [rotated 2]) (use two assms(5,6) ok in \<open>simp_all add: Size'_def PO_def\<close>)
  then show ?thesis using D two(2) by (simp add: Size'_def PO_def)
qed

subsection \<open>A file of two clusters to a page\<close>

definition ex_alloc :: "nat \<Rightarrow> u32 set \<Rightarrow> u32" where
  "ex_alloc n B = (let p = of_nat (n + 1) * 0x10000 in if p \<in> B then 0 else p)"

definition ex_file :: "nat cc" where
  "ex_file = \<lparr>FileMap = None, ReadThrough = False, WriteThrough = False, DesiredAccess = 0, CcMem = (\<lambda>_. 0), CcDev = 0,
     HeapAlloc = ex_alloc, HeapAllocs = 0, HeapBlocks = {}, PageAlloc = ex_alloc, PageAllocs = 0, Pages = {}\<rparr>"

definition ex_read :: "nat callback" where
  "ex_read cl buf n mem d = Inr (STATUS_SUCCESS, mem(buf := ucast cl), d)"

definition ex_write :: "nat callback" where
  "ex_write cl buf n mem d = Inr (STATUS_SUCCESS, mem, d + 1)"

definition ex_cached :: "nat cc" where
  "ex_cached = snd (projr (CcInitializeFileCaching 2048 True True ex_file))"

lemma ex_alloc_ok: "alloc_ok ex_file"
  by (simp add: alloc_ok_def ex_file_def ex_alloc_def Let_def)

lemma ex_init: "CcInitializeFileCaching 2048 True True ex_file = Inr (STATUS_SUCCESS, ex_cached)"
proof -
  have "case CcInitializeFileCaching 2048 True True ex_file of Inr (st, s) \<Rightarrow> st = STATUS_SUCCESS | Inl _ \<Rightarrow> False" by code_simp
  then show ?thesis by (auto simp: ex_cached_def split: sum.splits)
qed

lemma ex_writes: "case CcCacheWriteFile ex_read ex_write 0x1010 0x5000 16 0 ex_cached of Inr (st, n, s) \<Rightarrow> st = STATUS_CACHED | Inl _ \<Rightarrow> False"
  by code_simp

lemma ex_reads: "case CcCacheReadFile ex_read ex_write 0x1010 0x5000 4096 0 ex_cached of Inr (st, n, s) \<Rightarrow> st = STATUS_CACHED | Inl _ \<Rightarrow> False"
  by code_simp

lemma ex_cached_wf: "cc_wf {} {} ex_cached"
  using init_wf [OF ex_init ex_alloc_ok] by (simp add: ex_file_def)

lemma ex_cached_empty: "entries ex_cached = {}" "\<not> ReadThrough ex_cached" "\<not> WriteThrough ex_cached" "IS_FILE_CACHED ex_cached"
proof -
  have "case FileMap ex_cached of None \<Rightarrow> False | Some m \<Rightarrow> list_all (\<lambda>e. \<not> Cached e) (PageCacheMap m)" by code_simp
  then show "entries ex_cached = {}" by (auto simp: entries_def list_all_iff split: option.splits)
qed (code_simp+)

lemma ex_uncached: "uncached PN ex_cached"
  by (simp add: uncached_def ex_cached_empty)

theorem cache_well_formed_witness:
  "\<exists>st n s. CcCacheWriteFile ex_read ex_write 0x1010 0x5000 16 0 ex_cached = Inr (st, n, s) \<and> cc_wf (Pages ex_file) (HeapBlocks ex_file) s"
proof -
  obtain st n s where w: "CcCacheWriteFile ex_read ex_write 0x1010 0x5000 16 0 ex_cached = Inr (st, n, s)"
    using ex_writes by (auto split: sum.splits)
  have "cc_wf (Pages ex_file) (HeapBlocks ex_file) s"
    by (rule cache_well_formed [OF ex_init ex_alloc_ok _ run_write [OF run_none w]]) (simp add: ex_file_def)
  then show ?thesis using w by blast
qed

theorem cached_write_is_lost_witness:
  "\<exists>s1 s2. CcCacheWriteFile ex_read ex_write 0x1010 0x5000 16 0 ex_cached = Inr (STATUS_CACHED, 16, s1) \<and>
     CcPurgeCacheFile ex_write s1 = Inr (STATUS_SUCCESS, s2) \<and> CcDev s2 = CcDev ex_cached"
proof -
  obtain n s where w: "CcCacheWriteFile ex_read ex_write 0x1010 0x5000 16 0 ex_cached = Inr (STATUS_CACHED, n, s)"
    using ex_writes by (auto split: sum.splits)
  have k: "keeps_device ex_read" by (simp add: keeps_device_def ex_read_def)
  have po: "unat (page_offset 0x1010) + unat (16 :: u32) \<le> 4096" by code_simp
  from cached_write_is_lost [OF ex_cached_wf ex_uncached _ ex_cached_empty(3) k po w] w show ?thesis
    by (auto simp: ex_cached_empty)
qed

theorem cross_page_read_reports_tail_witness:
  "\<exists>n s. CcCacheReadFile ex_read ex_write 0x1010 0x5000 4096 0 ex_cached = Inr (STATUS_CACHED, n, s) \<and> unat n = 16"
proof -
  obtain n s where w: "CcCacheReadFile ex_read ex_write 0x1010 0x5000 4096 0 ex_cached = Inr (STATUS_CACHED, n, s)"
    using ex_reads by (auto split: sum.splits)
  have po: "unat (page_offset 0x1010) = 16" by code_simp
  from cross_page_read_reports_tail [OF ex_cached_wf ex_uncached ex_uncached ex_cached_empty(2) _ _ w] w show ?thesis
    by (simp add: po)
qed

definition ex_after :: "nat cc" where
  "ex_after = snd (snd (projr (CcCacheReadFile ex_read ex_write 0x1010 0x5000 4096 0 ex_cached)))"

theorem free_gives_back_witness:
  "Pages ex_after \<noteq> {} \<and> (\<exists>s'. CcFreeCacheMap ex_write ex_after = Inr (STATUS_SUCCESS, s') \<and> Pages s' = {} \<and> HeapBlocks s' = {})"
proof -
  obtain n where w: "CcCacheReadFile ex_read ex_write 0x1010 0x5000 4096 0 ex_cached = Inr (STATUS_CACHED, n, ex_after)"
    using ex_reads by (auto simp: ex_after_def split: sum.splits)
  have wf: "cc_wf {} {} ex_after" by (rule cache_read_wf [OF w ex_cached_wf])
  have c: "IS_FILE_CACHED ex_after" by code_simp
  have "case FileMap ex_after of None \<Rightarrow> False | Some m \<Rightarrow> length (PageCacheMap m) = 32 \<and> length (buffers m) = 2 \<and> unat (CachedPages m) = 2"
    by code_simp
  then obtain m where m: "FileMap ex_after = Some m" "length (PageCacheMap m) = 32" "length (buffers m) = 2" "unat (CachedPages m) = 2"
    by (auto split: option.splits)
  have "case CcPurgeCacheFile ex_write ex_after of Inr (st, _) \<Rightarrow> st = STATUS_SUCCESS | Inl _ \<Rightarrow> False" by code_simp
  then obtain s1 where p: "CcPurgeCacheFile ex_write ex_after = Inr (STATUS_SUCCESS, s1)" by (auto split: sum.splits)
  have "Pages ex_after \<noteq> {}" using wf m(1,3) by (auto simp: cc_wf_def map_ok_def)
  then show ?thesis using free_gives_back [OF wf m(1) _ _ p c] m(2-4) by fastforce
qed

end
