(* ===== verification/CcRead.thy ===== *)
theory CcRead
  imports CcProps RtlStr
begin

text \<open>
  Reading through the cache. A locale states what the cache manager asks of the driver that reads the clusters of a
  file; under its laws a read through the cache delivers the bytes of the file, whatever is in the cache.
  \<open>CcFat\<close> interprets it with the FAT driver.
\<close>

subsection \<open>Pages and buffers\<close>

text \<open>The pages that keep clear of the memory \<open>area\<close> that the driver works with.\<close>

definition pool :: "u32 set \<Rightarrow> u32 set" where
  "pool area = {p. unat p mod 4096 = 0 \<and> (\<forall>x\<in>area. \<not> within x p 4096)}"

definition buffer_ok :: "u32 set \<Rightarrow> u32 set \<Rightarrow> u32 \<Rightarrow> nat \<Rightarrow> bool" where
  "buffer_ok area R B k \<longleftrightarrow> B \<noteq> 0 \<and> unat B + k < 2 ^ 32 \<and> (\<forall>x. within x B k \<longrightarrow> x \<notin> area \<and> (\<forall>p\<in>R. \<not> within x p 4096))"

text \<open>\<open>k\<close> bytes of the file from \<open>pos\<close> on are in the buffer; elsewhere only pages for the cache have changed.\<close>

definition delivered :: "u32 set \<Rightarrow> (nat \<Rightarrow> u8) \<Rightarrow> 8 mem \<Rightarrow> 8 mem \<Rightarrow> u32 \<Rightarrow> nat \<Rightarrow> nat \<Rightarrow> bool" where
  "delivered R data m m' B k pos \<longleftrightarrow> (\<forall>i<k. m' (B + of_nat i) = data (pos + i)) \<and>
     (\<forall>x. \<not> within x B k \<longrightarrow> (\<forall>p\<in>R. \<not> within x p 4096) \<longrightarrow> m' x = m x)"

lemma unat_small [simp]: "n < 2 ^ 32 \<Longrightarrow> unat (of_nat n :: u32) = n"
  by (rule unat_of_nat_u32)

lemma within_page: "a + c \<le> 4096 \<Longrightarrow> i < 4096 \<Longrightarrow> within (T + of_nat i) (T + of_nat a) c \<longleftrightarrow> a \<le> i \<and> i < a + c"
proof -
  assume a: "a + c \<le> 4096" and i: "i < 4096"
  have e: "T + of_nat i - (T + of_nat a) = of_nat i - (of_nat a :: u32)" by simp
  show ?thesis
  proof (cases "a \<le> i")
    case True
    then have "of_nat i - (of_nat a :: u32) = of_nat (i - a)" by (simp add: of_nat_diff)
    then have "unat (of_nat i - of_nat a :: u32) = i - a" using i by (simp del: of_nat_diff)
    then show ?thesis using True by (auto simp: within_def e)
  next
    case False
    then have "of_nat i - (of_nat a :: u32) = - of_nat (a - i)" by (simp add: of_nat_diff)
    then have "unat (of_nat i - of_nat a :: u32) = 2 ^ 32 - (a - i)" using False a unat_neg_nat [of "a - i"] by simp
    then show ?thesis using False a by (simp add: within_def e)
  qed
qed

lemma within_split: "within x B k \<Longrightarrow> \<exists>i<k. x = B + of_nat i"
  by (intro exI [of _ "unat (x - B)"]) (simp add: within_def)

lemma page_in:
  assumes "unat p mod 4096 = 0"
  shows "within x p 4096 \<longleftrightarrow> unat x div 4096 = unat p div 4096"
proof -
  have p: "unat p = 4096 * (unat p div 4096)" "unat p + 4096 \<le> 2 ^ 32" using assms unsigned_less [of p, where 'a = nat] by auto
  show ?thesis
  proof (cases "p \<le> x")
    case True
    then have "within x p 4096 \<longleftrightarrow> unat x - unat p < 4096" by (simp add: within_iff)
    also have "\<dots> \<longleftrightarrow> unat x div 4096 = unat p div 4096" using p True by (auto simp: word_le_nat_alt)
    finally show ?thesis .
  next
    case False
    then have "within x p 4096 \<longleftrightarrow> unat x + 2 ^ 32 - unat p < 4096" by (simp add: within_iff)
    moreover have "unat x < unat p" using False by (simp add: word_le_nat_alt)
    ultimately show ?thesis using p by auto
  qed
qed

lemma pool_disjoint: "p \<in> pool area \<Longrightarrow> q \<in> pool area \<Longrightarrow> within x p 4096 \<Longrightarrow> within x q 4096 \<Longrightarrow> p = q"
proof -
  assume a: "p \<in> pool area" "q \<in> pool area" "within x p 4096" "within x q 4096"
  then have m: "unat p mod 4096 = 0" "unat q mod 4096 = 0" by (simp_all add: pool_def)
  then have "unat p div 4096 = unat q div 4096" using a(3,4) page_in by metis
  then have "unat p = unat q" using m by (metis mult_div_mod_eq)
  then show ?thesis by (simp add: word_unat_eq_iff)
qed

lemma pool_area: "p \<in> pool area \<Longrightarrow> x \<in> area \<Longrightarrow> \<not> within x p 4096"
  by (simp add: pool_def)

lemma buffer_ok_mono: "buffer_ok area R B k \<Longrightarrow> j \<le> k \<Longrightarrow> buffer_ok area R B j"
  using within_mono by (auto simp: buffer_ok_def)

lemma buffer_ok_shift:
  assumes "buffer_ok area R B k" "j \<le> k"
  shows "buffer_ok area R (B + of_nat j) (k - j)" "unat (B + of_nat j) = unat B + j"
proof -
  have B: "unat B + k < 2 ^ 32" "B \<noteq> 0" using assms(1) by (simp_all add: buffer_ok_def)
  show u: "unat (B + of_nat j) = unat B + j"
    using B assms(2) by (subst unat_add_lem [THEN iffD1]) simp_all
  have "within x B k" if "within x (B + of_nat j) (k - j)" for x
    using within_offset [of j "k - j" k x B] that assms(2) B(1) by simp
  moreover have "B + of_nat j \<noteq> 0" using u B(2) by (metis add_is_0 unat_eq_zero unsigned_0)
  ultimately show "buffer_ok area R (B + of_nat j) (k - j)"
    using assms u B unfolding buffer_ok_def by simp
qed

lemma delivered_refl: "delivered R data m m B 0 pos"
  by (simp add: delivered_def)

lemma delivered_append:
  assumes "delivered R data m m1 B j pos" "delivered R data m1 m2 (B + of_nat j) k (pos + j)" "buffer_ok area R B (j + k)"
  shows "delivered R data m m2 B (j + k) pos"
  unfolding delivered_def
proof (intro conjI allI impI)
  have B: "unat B + (j + k) < 2 ^ 32" using assms(3) by (simp add: buffer_ok_def)
  fix i assume i: "i < j + k"
  show "m2 (B + of_nat i) = data (pos + i)"
  proof (cases "i < j")
    case True
    have "unat (of_nat i - of_nat j :: u32) = 2 ^ 32 - (j - i)"
    proof -
      have "of_nat i - of_nat j = (- of_nat (j - i) :: u32)" using True by (simp add: of_nat_diff)
      then show ?thesis using True B unat_neg_nat [of "j - i"] by simp
    qed
    then have "\<not> within (B + of_nat i) (B + of_nat j) k" using B True by (simp add: within_def)
    moreover have "within (B + of_nat i) B (j + k)" using i B by simp
    then have "\<forall>p\<in>R. \<not> within (B + of_nat i) p 4096" using assms(3) by (simp add: buffer_ok_def)
    ultimately show ?thesis using assms(1,2) True by (simp add: delivered_def)
  next
    case False
    then show ?thesis using assms(2) i by (auto simp: delivered_def dest!: spec [of _ "i - j"])
  qed
next
  fix x assume x: "\<not> within x B (j + k)" "\<forall>p\<in>R. \<not> within x p 4096"
  have B: "unat B + (j + k) < 2 ^ 32" using assms(3) by (simp add: buffer_ok_def)
  have "\<not> within x B j" using x(1) within_mono by (metis le_add1)
  moreover have "\<not> within x (B + of_nat j) k" using x(1) within_offset [of j k "j + k" x B] B by auto
  ultimately show "m2 x = m x" using assms(1,2) x(2) by (simp add: delivered_def)
qed

subsection \<open>What the cache asks of a driver\<close>

text \<open>
  The driver reads cluster \<open>cl\<close> of a file of \<open>clusters\<close> clusters into a buffer that keeps clear of \<open>area\<close>;
  behind the file it answers end of data. \<open>I\<close> is what it relies on in memory; it depends on \<open>area\<close> only.
\<close>

definition pairs :: "'d cc \<Rightarrow> (u32 \<times> u32) set" where
  "pairs s = (\<lambda>e. (PageNumber e, PgBuffer e)) ` entries s"

definition holds :: "(nat \<Rightarrow> u8) \<Rightarrow> nat \<Rightarrow> 8 mem \<Rightarrow> u32 \<Rightarrow> u32 \<Rightarrow> bool" where
  "holds data fsize m PN b \<longleftrightarrow> (\<forall>i<4096. unat PN * 4096 + i < fsize \<longrightarrow> m (b + of_nat i) = data (unat PN * 4096 + i))"

text \<open>The cache is well formed, its pages and the allocator's are in the pool, and each entry holds its page of the file.\<close>

definition cache_good ::
    "(nat \<Rightarrow> u8) \<Rightarrow> nat \<Rightarrow> u32 \<Rightarrow> (8 mem \<Rightarrow> 'd \<Rightarrow> bool) \<Rightarrow> u32 set \<Rightarrow> bool \<Rightarrow> u32 set \<Rightarrow> u32 set \<Rightarrow> 'd cc \<Rightarrow> bool" where
  "cache_good data fsize csize I R L P0 H0 s \<longleftrightarrow> cc_wf P0 H0 s \<and>
     (\<exists>cpp. geometry s = Some (csize, cpp, True, L) \<and> unat cpp * unat csize = 4096) \<and>
     Pages s \<subseteq> R \<and> (\<forall>n A. PageAlloc s n A = 0 \<or> PageAlloc s n A \<in> R) \<and> I (CcMem s) (CcDev s) \<and>
     (\<forall>(PN, b)\<in>pairs s. holds data fsize (CcMem s) PN b)"

locale clustered_file =
  fixes rd :: "'d callback" and csize :: u32 and data :: "nat \<Rightarrow> u8" and clusters :: nat
    and I :: "8 mem \<Rightarrow> 'd \<Rightarrow> bool" and area R :: "u32 set"
  assumes R: "R \<subseteq> pool area"
    and rd_in: "I m d \<Longrightarrow> unat cl < clusters \<Longrightarrow> \<forall>x\<in>area. \<not> within x b (unat csize) \<Longrightarrow>
      \<exists>m'. rd cl b csize m d = Inr (STATUS_SUCCESS, m', d) \<and>
        (\<forall>x. m' x = (if within x b (unat csize) then data (unat cl * unat csize + unat (x - b)) else m x))"
    and rd_end: "I m d \<Longrightarrow> \<not> unat cl < clusters \<Longrightarrow> \<forall>x\<in>area. \<not> within x b (unat csize) \<Longrightarrow>
      rd cl b csize m d = Inr (STATUS_END_OF_FILE, m, d)"
    and frame: "I m d \<Longrightarrow> \<forall>x\<in>area. m' x = m x \<Longrightarrow> I m' d"
begin

definition fsize :: nat where "fsize = clusters * unat csize"

abbreviation good :: "bool \<Rightarrow> u32 set \<Rightarrow> u32 set \<Rightarrow> 'd cc \<Rightarrow> bool" where
  "good \<equiv> cache_good data fsize csize I R"

lemma pages_disjoint: "p \<in> R \<Longrightarrow> q \<in> R \<Longrightarrow> within x p 4096 \<Longrightarrow> within x q 4096 \<Longrightarrow> p = q"
  using R pool_disjoint by blast

lemma page_area: "p \<in> R \<Longrightarrow> x \<in> area \<Longrightarrow> \<not> within x p 4096"
  using R pool_area by blast

lemma pairs_mem [simp]: "pairs (s\<lparr>CcMem := m\<rparr>) = pairs s"
  by (simp add: pairs_def)

lemma geometry_mem [simp]: "geometry (s\<lparr>CcMem := m\<rparr>) = geometry s"
  by (simp add: geometry_def)

lemma pairs_pages: "cc_wf P0 H0 s \<Longrightarrow> (PN, b) \<in> pairs s \<Longrightarrow> b \<in> Pages s \<and> b \<notin> P0"
  by (auto simp: pairs_def entries_def cc_wf_def map_ok_def buffers_def split: option.splits)

lemma holds_same: "holds data n m PN b \<Longrightarrow> \<forall>x. within x b 4096 \<longrightarrow> m' x = m x \<Longrightarrow> holds data n m' PN b"
  by (simp add: holds_def)

text \<open>Memory outside the pages of the cache and the area of the driver can change.\<close>

lemma good_mem:
  assumes "good L P0 H0 s" "\<forall>x\<in>area. m' x = CcMem s x" "\<forall>PN b x. (PN, b) \<in> pairs s \<longrightarrow> within x b 4096 \<longrightarrow> m' x = CcMem s x"
  shows "good L P0 H0 (s\<lparr>CcMem := m'\<rparr>)"
proof -
  have "I m' (CcDev s)" using assms(1,2) frame [of "CcMem s" "CcDev s" m'] by (simp add: cache_good_def)
  moreover have "holds data fsize m' PN b" if "(PN, b) \<in> pairs s" for PN b
    by (rule holds_same [where m = "CcMem s"]) (use assms(1,3) that in \<open>auto simp: cache_good_def\<close>)
  ultimately show ?thesis using assms(1) by (auto simp: cache_good_def)
qed

lemma good_out:
  assumes "good L P0 H0 s" "buffer_ok area R B k" "\<forall>x. \<not> within x B k \<longrightarrow> m' x = CcMem s x"
  shows "good L P0 H0 (s\<lparr>CcMem := m'\<rparr>)"
proof (rule good_mem [OF assms(1)])
  show "\<forall>x\<in>area. m' x = CcMem s x" using assms(2,3) by (auto simp: buffer_ok_def)
  show "\<forall>PN b x. (PN, b) \<in> pairs s \<longrightarrow> within x b 4096 \<longrightarrow> m' x = CcMem s x"
  proof (intro allI impI)
    fix PN b x assume p: "(PN, b) \<in> pairs s" "within x b 4096"
    then have "b \<in> R" using pairs_pages [of P0 H0 s PN b] assms(1) by (auto simp: cache_good_def)
    then show "m' x = CcMem s x" using assms(2,3) p(2) by (auto simp: buffer_ok_def)
  qed
qed

lemma good_page:
  assumes "good L P0 H0 s" "T \<in> Pages s" "\<forall>PN. (PN, T) \<notin> pairs s" "\<forall>x. \<not> within x T 4096 \<longrightarrow> m' x = CcMem s x"
  shows "good L P0 H0 (s\<lparr>CcMem := m'\<rparr>)"
proof (rule good_mem [OF assms(1)])
  have T: "T \<in> R" using assms(1,2) by (auto simp: cache_good_def)
  show "\<forall>x\<in>area. m' x = CcMem s x" using assms(4) T page_area by blast
  show "\<forall>PN b x. (PN, b) \<in> pairs s \<longrightarrow> within x b 4096 \<longrightarrow> m' x = CcMem s x"
  proof (intro allI impI)
    fix PN b x assume p: "(PN, b) \<in> pairs s" "within x b 4096"
    then have "b \<in> R" "b \<noteq> T" using pairs_pages [of P0 H0 s PN b] assms(1,3) by (auto simp: cache_good_def)
    then have "\<not> within x T 4096" using pages_disjoint [OF _ T p(2)] by blast
    then show "m' x = CcMem s x" using assms(4) by blast
  qed
qed

text \<open>The loop over the clusters of a page.\<close>

lemma read_loop_page:
  assumes geo: "ClusterSize m = csize" "unat (ClustersPerPage m) * unat csize = 4096" and PN: "unat PN < 2 ^ 20" and T: "T \<in> R"
    and "k + n = unat (ClustersPerPage m)" "0 < n \<or> st = Inr STATUS_SUCCESS" "I (CcMem s) (CcDev s)"
    "\<forall>i < k * unat csize. unat PN * 4096 + i < fsize \<longrightarrow> CcMem s (T + of_nat i) = data (unat PN * 4096 + i)"
  shows "\<exists>m'. read_loop rd m PN T (of_nat k) n st s = Inr (STATUS_SUCCESS, s\<lparr>CcMem := m'\<rparr>) \<and> I m' (CcDev s) \<and>
    (\<forall>x. \<not> within x T 4096 \<longrightarrow> m' x = CcMem s x) \<and> holds data fsize m' PN T"
  using assms(5-8)
proof (induction n arbitrary: k st s)
  case 0
  then have "k * unat csize = 4096" using geo(2) by simp
  then show ?case using 0 by (intro exI [of _ "CcMem s"]) (simp add: holds_def)
next
  case (Suc n)
  define c where "c = unat csize"
  define cl where "cl = PN * ucast (ClustersPerPage m) + of_nat k"
  define b where "b = T + of_nat k * csize"
  have c: "0 < c" "k * c + c \<le> 4096"
  proof -
    show "0 < c" using geo(2) by (cases "c = 0") (simp_all add: c_def)
    have "(k + 1) * c \<le> unat (ClustersPerPage m) * c" using Suc.prems(1) by (intro mult_le_mono1) simp
    then show "k * c + c \<le> 4096" using geo(2) by (simp add: c_def)
  qed
  have cpp: "unat (ClustersPerPage m) < 256" using unsigned_less [of "ClustersPerPage m", where 'a = nat] by simp
  have cl: "unat cl = unat PN * unat (ClustersPerPage m) + k"
  proof -
    have l: "unat PN * unat (ClustersPerPage m) + k < 2 ^ 32"
    proof -
      have "unat PN * unat (ClustersPerPage m) \<le> 2 ^ 20 * 256" using PN cpp by (intro mult_le_mono) simp_all
      then show ?thesis using Suc.prems(1) cpp by simp
    qed
    have "cl = of_nat (unat PN * unat (ClustersPerPage m) + k)" by (simp add: cl_def unsigned_ucast_eq)
    then show ?thesis using l by (simp only: unat_small)
  qed
  have clc: "unat cl * c = unat PN * 4096 + k * c"
    unfolding cl by (simp add: add_mult_distrib mult.assoc geo(2) c_def)
  have b: "b = T + of_nat (k * c)" by (simp add: b_def c_def)
  have win: "within x b c \<Longrightarrow> within x T 4096" for x
    using within_offset [of "k * c" c 4096 x T] c by (simp add: b del: of_nat_mult)
  have ap: "\<forall>x\<in>area. \<not> within x b (unat csize)" using win T page_area by (fold c_def) blast
  have st: "STATUS_SUCCESS \<noteq> STATUS_END_OF_FILE" "STATUS_SUCCESS \<noteq> STATUS_NO_MEDIA_IN_DEVICE" by (simp_all add: status_simps)
  show ?case
  proof (cases "unat cl < clusters")
    case False
    then have "read_loop rd m PN T (of_nat k) (Suc n) st s = Inr (STATUS_SUCCESS, s)"
      using rd_end [OF Suc.prems(3) False ap] by (simp add: callback_def geo(1) cl_def b_def)
    moreover have "\<not> unat PN * 4096 + i < fsize" if "\<not> i < k * c" for i
    proof -
      have "clusters * c \<le> unat cl * c" using False by (intro mult_le_mono1) simp
      moreover have "fsize = clusters * c" by (simp add: fsize_def c_def)
      ultimately show ?thesis using that clc by linarith
    qed
    then have "holds data fsize (CcMem s) PN T" using Suc.prems(4) by (fold c_def) (auto simp: holds_def)
    ultimately show ?thesis using Suc.prems(3) by (intro exI [of _ "CcMem s"]) simp
  next
    case True
    from rd_in [OF Suc.prems(3) True ap] obtain m1 where r: "rd cl b csize (CcMem s) (CcDev s) = Inr (STATUS_SUCCESS, m1, CcDev s)"
      and m1: "\<And>x. m1 x = (if within x b c then data (unat cl * c + unat (x - b)) else CcMem s x)" unfolding c_def by blast
    define s1 where "s1 = s\<lparr>CcMem := m1\<rparr>"
    have step: "read_loop rd m PN T (of_nat k) (Suc n) st s = read_loop rd m PN T (of_nat (Suc k)) n (Inr STATUS_SUCCESS) s1"
    proof -
      have "callback rd (PN * ucast (ClustersPerPage m) + of_nat k) (T + of_nat k * ClusterSize m) (ClusterSize m) s = Inr (STATUS_SUCCESS, s1)"
        using r by (simp add: callback_def geo(1) cl_def b_def s1_def)
      then show ?thesis using st by (simp add: add.commute)
    qed
    have I1: "I (CcMem s1) (CcDev s1)"
      using frame [OF Suc.prems(3), of m1] m1 ap by (simp add: s1_def c_def)
    have f1: "\<forall>i < Suc k * unat csize. unat PN * 4096 + i < fsize \<longrightarrow> CcMem s1 (T + of_nat i) = data (unat PN * 4096 + i)"
    proof (intro allI impI)
      fix i assume i: "i < Suc k * unat csize" "unat PN * 4096 + i < fsize"
      then have i4: "i < 4096" using c by (simp add: c_def)
      have w: "within (T + of_nat i) b c \<longleftrightarrow> k * c \<le> i \<and> i < k * c + c" unfolding b by (rule within_page [OF c(2) i4])
      show "CcMem s1 (T + of_nat i) = data (unat PN * 4096 + i)"
      proof (cases "i < k * c")
        case True
        then show ?thesis using Suc.prems(4) i(2) m1 w by (simp add: s1_def c_def)
      next
        case False
        then have "T + of_nat i - b = of_nat (i - k * c)" by (simp add: b of_nat_diff)
        then have "unat (T + of_nat i - b) = i - k * c" using i4 by (simp del: of_nat_diff)
        then show ?thesis using False m1 w clc i(1) by (simp add: s1_def c_def)
      qed
    qed
    have "Suc k + n = unat (ClustersPerPage m)" using Suc.prems(1) by simp
    from Suc.IH [OF this _ I1 f1, of "Inr STATUS_SUCCESS"] obtain m' where
      m': "read_loop rd m PN T (of_nat (Suc k)) n (Inr STATUS_SUCCESS) s1 = Inr (STATUS_SUCCESS, s1\<lparr>CcMem := m'\<rparr>)" "I m' (CcDev s1)"
      "\<forall>x. \<not> within x T 4096 \<longrightarrow> m' x = CcMem s1 x" "holds data fsize m' PN T" by auto
    have "\<forall>x. \<not> within x T 4096 \<longrightarrow> m' x = CcMem s x" using m'(3) m1 win by (auto simp: s1_def)
    then show ?thesis using m' step by (intro exI [of _ m']) (simp add: s1_def)
  qed
qed

lemma read_page:
  assumes "good L P0 H0 s" "unat PN < 2 ^ 20" "T \<in> Pages s" "\<forall>PN. (PN, T) \<notin> pairs s"
  shows "\<exists>m'. CcpActualReadPage rd PN T s = Inr (STATUS_SUCCESS, s\<lparr>CcMem := m'\<rparr>) \<and> good L P0 H0 (s\<lparr>CcMem := m'\<rparr>) \<and>
    (\<forall>x. \<not> within x T 4096 \<longrightarrow> m' x = CcMem s x) \<and> holds data fsize m' PN T"
proof -
  obtain m where m: "FileMap s = Some m" "ClusterSize m = csize" "unat (ClustersPerPage m) * unat csize = 4096" "HasRead m"
    using assms(1) by (auto simp: cache_good_def geometry_def)
  have T: "T \<in> R" using assms(1,3) by (auto simp: cache_good_def)
  have n: "0 < unat (ClustersPerPage m)" using m(3) by (cases "unat (ClustersPerPage m)") simp_all
  obtain m' where r: "read_loop rd m PN T 0 (unat (ClustersPerPage m)) (Inl CcNotInitialised) s = Inr (STATUS_SUCCESS, s\<lparr>CcMem := m'\<rparr>)"
    "\<forall>x. \<not> within x T 4096 \<longrightarrow> m' x = CcMem s x" "holds data fsize m' PN T"
    using read_loop_page [OF m(2,3) assms(2) T, of 0 "unat (ClustersPerPage m)" "Inl CcNotInitialised" s] n assms(1)
    by (auto simp: cache_good_def)
  have "CcpActualReadPage rd PN T s = Inr (STATUS_SUCCESS, s\<lparr>CcMem := m'\<rparr>)"
    using m r(1) by (simp add: CcpActualReadPage_def the_map_def)
  then show ?thesis using r(2,3) good_page [OF assms(1,3,4) r(2)] by blast
qed

end

context clustered_file
begin

text \<open>Changes of an entry that keep its page.\<close>

lemma map_filter_update:
  "P e' = P (es ! k) \<Longrightarrow> g e' = g (es ! k) \<Longrightarrow> map g (filter P (es[k := e'])) = map g (filter P es)"
proof (induction es arbitrary: k)
  case (Cons e es)
  then show ?case by (cases k) auto
qed simp

lemma good_use:
  assumes "good L P0 H0 s"
  shows "good L P0 H0 (upd_page k (\<lambda>e. e\<lparr>PageUseCount := PageUseCount e + 1\<rparr>) s)"
proof -
  define s' where "s' = upd_page k (\<lambda>e. e\<lparr>PageUseCount := PageUseCount e + 1\<rparr>) s"
  have f: "Pages s' = Pages s" "PageAlloc s' = PageAlloc s" "CcMem s' = CcMem s" "CcDev s' = CcDev s" "geometry s' = geometry s"
    by (simp_all add: s'_def upd_page_def upd_map_def geometry_def option.map_comp comp_def)
  have "pairs s' = pairs s"
  proof (cases "FileMap s")
    case (Some m)
    let ?g = "\<lambda>e. (PageNumber e, PgBuffer e)"
    have "pairs s = set (map ?g (filter Cached (PageCacheMap m)))" using Some by (simp add: pairs_def entries_def)
    moreover have "pairs s' = set (map ?g (filter Cached ((PageCacheMap m)[k := (PageCacheMap m ! k)\<lparr>PageUseCount := PageUseCount (PageCacheMap m ! k) + 1\<rparr>])))"
      using Some by (simp add: pairs_def entries_def s'_def upd_page_def upd_map_def)
    moreover have "map ?g (filter Cached ((PageCacheMap m)[k := (PageCacheMap m ! k)\<lparr>PageUseCount := PageUseCount (PageCacheMap m ! k) + 1\<rparr>])) =
        map ?g (filter Cached (PageCacheMap m))" by (rule map_filter_update) simp_all
    ultimately show ?thesis by simp
  qed (simp add: s'_def pairs_def entries_def upd_page_def upd_map_def)
  moreover have "cc_wf P0 H0 s'" unfolding s'_def by (subst upd_page_wf) (use assms in \<open>simp_all add: cache_good_def\<close>)
  ultimately have "good L P0 H0 s'" using assms f by (simp add: cache_good_def)
  then show ?thesis by (simp add: s'_def)
qed

text \<open>A page of the pool and its bytes.\<close>

lemma page_byte:
  assumes "T \<in> R" "T \<noteq> 0" "i < 4096"
  shows "T + of_nat i \<noteq> 0"
proof -
  have "unat T mod 4096 = 0" using assms(1) R by (auto simp: pool_def)
  then obtain q where q: "unat T = 4096 * q" by blast
  have "4096 * q < 2 ^ 32" using unsigned_less [of T, where 'a = nat] q by simp
  then have "q < 1048576" by simp
  then have "unat T + i < 2 ^ 32" using q assms(3) by simp
  moreover have "T + of_nat i = of_nat (unat T + i)" by simp
  ultimately have u: "unat (T + of_nat i) = unat T + i" by (simp only: unat_small)
  show ?thesis
  proof
    assume "T + of_nat i = 0"
    then have "unat T = 0" using u by simp
    then show False using assms(2) by (simp add: unat_eq_zero)
  qed
qed

text \<open>A copy from a page that holds a part of the file to the buffer of the caller.\<close>

lemma copy_out:
  assumes "good L P0 H0 s" "T \<in> Pages s" "holds data fsize (CcMem s) PN T" "unat PO < 4096" "unat k + unat PO \<le> 4096"
    "unat PN * 4096 + unat PO + unat k \<le> fsize" "buffer_ok area R B (unat k)"
  shows "\<exists>m'. copy B (T + PO) k s = Inr (s\<lparr>CcMem := m'\<rparr>) \<and> good L P0 H0 (s\<lparr>CcMem := m'\<rparr>) \<and>
    delivered R data (CcMem s) m' B (unat k) (unat PN * 4096 + unat PO) \<and> (\<forall>x. \<not> within x B (unat k) \<longrightarrow> m' x = CcMem s x)"
proof (cases "k = 0")
  case True
  then show ?thesis using assms(1) by (intro exI [of _ "CcMem s"]) (simp add: copy_def delivered_def)
next
  case False
  define m' where "m' = memmove (CcMem s) B (T + PO) k"
  have T: "T \<in> R" "T \<noteq> 0" using assms(1,2) by (auto simp: cache_good_def cc_wf_def alloc_ok_def)
  have P: "T + PO \<noteq> 0" using page_byte [OF T, of "unat PO"] assms(4) by simp
  have B: "B \<noteq> 0" using assms(7) by (simp add: buffer_ok_def)
  have c: "copy B (T + PO) k s = Inr (s\<lparr>CcMem := m'\<rparr>)" using False P B by (simp add: copy_def m'_def)
  have o: "m' x = CcMem s x" if "\<not> within x B (unat k)" for x
    using that by (simp add: m'_def memmove_def outside_def within_def word_le_nat_alt)
  have "m' (B + of_nat i) = data (unat PN * 4096 + unat PO + i)" if "i < unat k" for i
  proof -
    have i: "i < 4096" "unat PO + i < 4096" using that assms(5) by simp_all
    have "\<not> outside B k (B + of_nat i)" using that i(1) by (simp add: outside_def word_le_nat_alt)
    then have "m' (B + of_nat i) = CcMem s (T + of_nat (unat PO + i))" by (simp add: m'_def memmove_def add.assoc)
    also have "\<dots> = data (unat PN * 4096 + (unat PO + i))" using assms(3) [unfolded holds_def, rule_format, OF i(2)] assms(6) that by simp
    finally show ?thesis by (simp add: add.assoc)
  qed
  then show ?thesis using c good_out [OF assms(1,7), of m'] o by (intro exI [of _ m']) (simp add: delivered_def)
qed

lemma cache_page_good:
  assumes "good L P0 H0 s" "T \<in> Pages s" "\<forall>q. (q, T) \<notin> pairs s" "holds data fsize (CcMem s) PN T"
  shows "\<exists>st s'. CcpCacheFilePage wr PN T s = Inr (st, s') \<and> good L P0 H0 s' \<and> Pages s \<subseteq> Pages s' \<and> (\<exists>b. Pages s' \<subseteq> insert b (Pages s)) \<and> PageAlloc s' = PageAlloc s \<and>
    (\<forall>q. (q, T) \<notin> pairs s') \<and> (\<forall>x. (\<forall>p\<in>R. \<not> within x p 4096) \<longrightarrow> CcMem s' x = CcMem s x)"
proof -
  have wf: "cc_wf P0 H0 s" and T: "T \<in> R" "T \<noteq> 0" and fm: "FileMap s \<noteq> None"
    using assms(1,2) by (auto simp: cache_good_def cc_wf_def alloc_ok_def geometry_def)
  from cache_page_spec [OF wf T(2) fm, of wr PN] obtain st s' where
    c: "CcpCacheFilePage wr PN T s = Inr (st, s')" "cc_wf P0 H0 s'" "FileMap s' \<noteq> None" "CcDev s' = CcDev s" "PageAlloc s' = PageAlloc s" "geometry s' = geometry s"
    and e: "CcMem s' = CcMem s \<and> Pages s' = Pages s \<and> entries s' = entries s \<or>
     (\<exists>b e. b \<noteq> 0 \<and> b \<notin> Pages s \<and> (\<exists>n. b = PageAlloc s n (Pages s)) \<and> Pages s' = insert b (Pages s) \<and> entries s' = insert e (entries s) \<and> PageNumber e = PN \<and>
        PgBuffer e = b \<and> \<not> Modified e \<and> CcMem s' = memmove (CcMem s) b T PAGE_SIZE)" by blast
  show ?thesis
  proof (cases "CcMem s' = CcMem s \<and> Pages s' = Pages s \<and> entries s' = entries s")
    case True
    then have "good L P0 H0 s'" "pairs s' = pairs s" using assms(1) c by (simp_all add: cache_good_def pairs_def)
    moreover have "\<exists>b. Pages s' \<subseteq> insert b (Pages s)" using True by blast
    ultimately show ?thesis using c True assms(3) by (intro exI [of _ st] exI [of _ s']) simp
  next
    case False
    then obtain b e n where b: "b \<noteq> 0" "b \<notin> Pages s" "b = PageAlloc s n (Pages s)" "Pages s' = insert b (Pages s)" "entries s' = insert e (entries s)"
      "PageNumber e = PN" "PgBuffer e = b" "CcMem s' = memmove (CcMem s) b T PAGE_SIZE" using e by blast
    have bp: "b \<in> R" using assms(1) b(1,3) by (auto simp: cache_good_def)
    have pr: "pairs s' = insert (PN, b) (pairs s)" using b(5-7) by (simp add: pairs_def)
    have o: "CcMem s' x = CcMem s x" if "\<not> within x b 4096" for x
      using that by (simp add: b(8) memmove_def outside_def within_def word_le_nat_alt PAGE_SIZE_def)
    have new: "CcMem s' (b + of_nat i) = CcMem s (T + of_nat i)" if "i < 4096" for i
      using that by (simp add: b(8) memmove_def outside_def word_le_nat_alt PAGE_SIZE_def)
    have "holds data fsize (CcMem s') q p" if "(q, p) \<in> pairs s" for q p
    proof (rule holds_same [where m = "CcMem s"])
      show "holds data fsize (CcMem s) q p" using assms(1) that by (auto simp: cache_good_def)
      have p: "p \<in> R" "p \<noteq> b" using pairs_pages [OF wf that] assms(1) b(2) by (auto simp: cache_good_def)
      show "\<forall>x. within x p 4096 \<longrightarrow> CcMem s' x = CcMem s x" using o pages_disjoint [OF p(1) bp] p(2) by blast
    qed
    moreover have "holds data fsize (CcMem s') PN b" using assms(4) new by (simp add: holds_def)
    moreover have "I (CcMem s') (CcDev s')"
      using frame [of "CcMem s" "CcDev s" "CcMem s'"] o page_area [OF bp] assms(1) c(4) by (auto simp: cache_good_def)
    ultimately have "good L P0 H0 s'" using assms(1) c b(4) bp pr by (auto simp: cache_good_def)
    moreover have "\<forall>q. (q, T) \<notin> pairs s'" using assms(2,3) b(2) pr by auto
    ultimately show ?thesis using c b(4) o bp by (intro exI [of _ st] exI [of _ s']) auto
  qed
qed

end

context clustered_file
begin

text \<open>What a lookup delivers: all of the bytes, or those before the first page that is not cached.\<close>

definition found :: "bool \<Rightarrow> u32 set \<Rightarrow> u32 set \<Rightarrow> 'd cc \<Rightarrow> u32 \<Rightarrow> nat \<Rightarrow> u32 \<Rightarrow> 'd find_result \<Rightarrow> bool" where
  "found L P0 H0 s B pos Size r \<longleftrightarrow> (\<exists>st PN PO B' Size' n s' k. r = Inr (st, PN, PO, Some B', Size', n, s') \<and>
     good L P0 H0 s' \<and> Pages s' = Pages s \<and> PageAlloc s' = PageAlloc s \<and> k \<le> unat Size \<and> delivered R data (CcMem s) (CcMem s') B k pos \<and>
     (st = STATUS_SUCCESS \<and> k = unat Size \<or>
      st = STATUS_NOT_FOUND \<and> B' = B + of_nat k \<and> unat Size' = unat Size - k \<and> unat PN * 4096 + unat PO = pos + k \<and> unat PO < 4096 \<and> unat PN < 2 ^ 20))"

lemma found_all:
  "r = Inr (STATUS_SUCCESS, PN, PO, Some B', Size', n, s') \<Longrightarrow> good L P0 H0 s' \<Longrightarrow> Pages s' = Pages s \<Longrightarrow> PageAlloc s' = PageAlloc s \<Longrightarrow>
   delivered R data (CcMem s) (CcMem s') B (unat Size) pos \<Longrightarrow> found L P0 H0 s B pos Size r"
  unfolding found_def by blast

lemma found_upto:
  "r = Inr (STATUS_NOT_FOUND, PN, PO, Some B', Size', n, s') \<Longrightarrow> good L P0 H0 s' \<Longrightarrow> Pages s' = Pages s \<Longrightarrow> PageAlloc s' = PageAlloc s \<Longrightarrow>
   k \<le> unat Size \<Longrightarrow> delivered R data (CcMem s) (CcMem s') B k pos \<Longrightarrow> B' = B + of_nat k \<Longrightarrow> unat Size' = unat Size - k \<Longrightarrow>
   unat PN * 4096 + unat PO = pos + k \<Longrightarrow> unat PO < 4096 \<Longrightarrow> unat PN < 2 ^ 20 \<Longrightarrow> found L P0 H0 s B pos Size r"
  unfolding found_def by blast

lemma found_none:
  "r = Inr (STATUS_NOT_FOUND, PN, PO, Some B, Size, n, s) \<Longrightarrow> good L P0 H0 s \<Longrightarrow> unat PN * 4096 + unat PO = pos \<Longrightarrow> unat PO < 4096 \<Longrightarrow>
   unat PN < 2 ^ 20 \<Longrightarrow> found L P0 H0 s B pos Size r"
  by (rule found_upto [where k = 0]) (rule delivered_refl | simp)+

lemma found_append:
  assumes "found L P0 H0 s1 (B + of_nat j) (pos + j) Size1 r" "unat Size1 = unat Size - j" "j \<le> unat Size" "buffer_ok area R B (unat Size)"
    "delivered R data (CcMem s) (CcMem s1) B j pos" "Pages s1 = Pages s" "PageAlloc s1 = PageAlloc s"
  shows "found L P0 H0 s B pos Size r"
proof -
  from assms(1) obtain st PN PO B' Size' n s' k where r: "r = Inr (st, PN, PO, Some B', Size', n, s')" "good L P0 H0 s'" "Pages s' = Pages s1"
    "PageAlloc s' = PageAlloc s1" "k \<le> unat Size1" "delivered R data (CcMem s1) (CcMem s') (B + of_nat j) k (pos + j)" and
    e: "st = STATUS_SUCCESS \<and> k = unat Size1 \<or>
      st = STATUS_NOT_FOUND \<and> B' = B + of_nat j + of_nat k \<and> unat Size' = unat Size1 - k \<and> unat PN * 4096 + unat PO = pos + j + k \<and> unat PO < 4096 \<and> unat PN < 2 ^ 20"
    unfolding found_def by blast
  have jk: "j + k \<le> unat Size" using r(5) assms(2,3) by simp
  have "delivered R data (CcMem s) (CcMem s') B (j + k) pos"
    by (rule delivered_append [OF assms(5) r(6) buffer_ok_mono [OF assms(4) jk]])
  moreover have "st = STATUS_SUCCESS \<and> j + k = unat Size \<or>
      st = STATUS_NOT_FOUND \<and> B' = B + of_nat (j + k) \<and> unat Size' = unat Size - (j + k) \<and> unat PN * 4096 + unat PO = pos + (j + k) \<and>
      unat PO < 4096 \<and> unat PN < 2 ^ 20"
    using e
  proof
    assume "st = STATUS_SUCCESS \<and> k = unat Size1"
    then show ?thesis using assms(2,3) by simp
  next
    assume "st = STATUS_NOT_FOUND \<and> B' = B + of_nat j + of_nat k \<and> unat Size' = unat Size1 - k \<and> unat PN * 4096 + unat PO = pos + j + k \<and>
      unat PO < 4096 \<and> unat PN < 2 ^ 20"
    then show ?thesis using assms(2) by (simp add: add.assoc)
  qed
  moreover have "Pages s' = Pages s" "PageAlloc s' = PageAlloc s" using r(3,4) assms(6,7) by simp_all
  ultimately show ?thesis using r(1,2) jk unfolding found_def by blast
qed

lemma find_delivers:
  assumes "good L P0 H0 s" "unat PO < 4096" "unat PN < 2 ^ 20" "unat PN * 4096 + unat PO + unat Size \<le> fsize" "fsize \<le> 2 ^ 32"
    "buffer_ok area R B (unat Size)"
  shows "found L P0 H0 s B (unat PN * 4096 + unat PO) Size (find_loop False PN PO (Some B) Size n s)"
  using assms
proof (induction "unat Size" arbitrary: PN PO B Size n s rule: less_induct)
  case less
  obtain m where m: "the_map s = Inr m" using less.prems(1) by (auto simp: cache_good_def geometry_def the_map_def)
  define pos where "pos = unat PN * 4096 + unat PO"
  show ?case
  proof (cases "scan (\<lambda>e. Cached e \<and> PageNumber e = PN) (PageCacheMap m)")
    case None
    show ?thesis by (rule found_none [OF find_miss [OF m None] less.prems(1) refl less.prems(2,3)])
  next
    case (Some k)
    define e where "e = PageCacheMap m ! k"
    define s1 where "s1 = upd_page k (\<lambda>e. e\<lparr>PageUseCount := PageUseCount e + 1\<rparr>) s"
    have e: "Cached e" "PageNumber e = PN" "e \<in> set (PageCacheMap m)" using scan_Some [OF Some] by (simp_all add: e_def)
    then have p: "(PN, PgBuffer e) \<in> pairs s" using m by (force simp: pairs_def entries_def the_map_Inr)
    have g1: "good L P0 H0 s1" unfolding s1_def by (rule good_use [OF less.prems(1)])
    have s1: "Pages s1 = Pages s" "PageAlloc s1 = PageAlloc s" "CcMem s1 = CcMem s" by (simp_all add: s1_def upd_page_def upd_map_def)
    have T: "PgBuffer e \<in> Pages s1" using pairs_pages [OF _ p] less.prems(1) s1 by (auto simp: cache_good_def)
    have h: "holds data fsize (CcMem s1) PN (PgBuffer e)" using less.prems(1) p s1 by (auto simp: cache_good_def)
    have rest: "unat (PAGE_SIZE - PO) = 4096 - unat PO" by (rule page_rest [OF less.prems(2)])
    show ?thesis
    proof (cases "Size \<le> PAGE_SIZE - PO")
      case True
      then have le: "unat Size + unat PO \<le> 4096" using rest less.prems(2) by (simp add: word_le_nat_alt)
      from copy_out [OF g1 T h less.prems(2) le less.prems(4,6)] obtain m' where
        c: "copy B (PgBuffer e + PO) Size s1 = Inr (s1\<lparr>CcMem := m'\<rparr>)" "good L P0 H0 (s1\<lparr>CcMem := m'\<rparr>)"
        "delivered R data (CcMem s1) m' B (unat Size) (unat PN * 4096 + unat PO)" by blast
      have "find_loop False PN PO (Some B) Size n s = Inr (STATUS_SUCCESS, PN, PO, Some B, Size, n + Size, s1\<lparr>CcMem := m'\<rparr>)"
        using c(1) by (simp add: find_last [OF m Some True s1_def refl] e_def)
      from found_all [OF this c(2)] show ?thesis using c(3) s1 by simp
    next
      case False
      define j where "j = 4096 - unat PO"
      define part where "part = PAGE_SIZE - PO"
      have j: "unat part = j" "0 < j" "j < unat Size" "unat (Size - part) = unat Size - j" "part = of_nat j"
      proof -
        show p: "unat part = j" "0 < j" using rest less.prems(2) by (simp_all add: j_def part_def)
        show "j < unat Size" using False p by (simp add: word_le_nat_alt part_def)
        then show "unat (Size - part) = unat Size - j" using p by (subst unat_sub) (simp_all add: word_le_nat_alt)
        show "part = of_nat j" using p(1) by (metis of_nat_unat ucast_id)
      qed
      have le: "unat part + unat PO \<le> 4096" using less.prems(2) j(1) by (simp add: j_def)
      have fs: "unat PN * 4096 + unat PO + unat part \<le> fsize" using less.prems(4) j by simp
      have bp: "buffer_ok area R B (unat part)" by (rule buffer_ok_mono [OF less.prems(6)]) (use j in simp)
      from copy_out [OF g1 T h less.prems(2) le fs bp] obtain m' where
        c: "copy B (PgBuffer e + PO) part s1 = Inr (s1\<lparr>CcMem := m'\<rparr>)" "good L P0 H0 (s1\<lparr>CcMem := m'\<rparr>)"
        "delivered R data (CcMem s1) m' B (unat part) (unat PN * 4096 + unat PO)" by blast
      have step: "find_loop False PN PO (Some B) Size n s =
          find_loop False (PN + 1) 0 (Some (B + part)) (Size - part) (n + part) (s1\<lparr>CcMem := m'\<rparr>)"
        using c(1) by (simp add: find_more [OF m Some False s1_def refl] e_def part_def)
      have next_page: "unat PN * 4096 + 4096 < 2 ^ 32" using less.prems(2,4,5) j(3) by (simp add: j_def)
      then have PN: "unat (PN + 1) = unat PN + 1" "unat PN + 1 < 2 ^ 20"
        using unat_small [of "unat PN + 1"] by (simp_all add: add.commute)
      note sh = buffer_ok_shift [OF less.prems(6), of j]
      have f0: "found L P0 H0 (s1\<lparr>CcMem := m'\<rparr>) (B + of_nat j) (unat (PN + 1) * 4096 + unat (0 :: u32)) (Size - part)
          (find_loop False (PN + 1) 0 (Some (B + of_nat j)) (Size - part) (n + part) (s1\<lparr>CcMem := m'\<rparr>))"
        by (rule less.hyps) (use j PN c(2) sh(1) less.prems(2,4,5) in \<open>simp_all add: j_def\<close>)
      have "unat (PN + 1) * 4096 + unat (0 :: u32) = unat PN * 4096 + unat PO + j" using PN less.prems(2) by (simp add: j_def)
      from f0 [unfolded this] have f1: "found L P0 H0 (s1\<lparr>CcMem := m'\<rparr>) (B + of_nat j) (unat PN * 4096 + unat PO + j) (Size - part)
          (find_loop False PN PO (Some B) Size n s)" unfolding step j(5) .
      have "delivered R data (CcMem s) (CcMem (s1\<lparr>CcMem := m'\<rparr>)) B j (unat PN * 4096 + unat PO)" using c(3) s1 j(1) by simp
      from found_append [OF f1 j(4) less_imp_le [OF j(3)] less.prems(6) this] show ?thesis using s1 by simp
    qed
  qed
qed

end

context clustered_file
begin

text \<open>One page is read from the driver; with \<open>C\<close> it is put into the cache.\<close>

lemma good_alloc:
  assumes "good L P0 H0 s" "MmAllocatePage s = (T, s0)" "T \<noteq> 0"
  shows "good L (insert T P0) H0 s0" "T \<notin> P0" "T \<in> Pages s0" "\<forall>q. (q, T) \<notin> pairs s0" "CcMem s0 = CcMem s" "Pages s0 = insert T (Pages s)" "PageAlloc s0 = PageAlloc s"
proof -
  have s0: "s0 = s\<lparr>PageAllocs := PageAllocs s + 1, Pages := insert T (Pages s)\<rparr>" "T = PageAlloc s (PageAllocs s) (Pages s)"
    using assms(2,3) by (auto simp: MmAllocatePage_def Let_def)
  have w: "cc_wf P0 H0 s" using assms(1) by (simp add: cache_good_def)
  have a: "cc_wf (insert T P0) H0 s0" "T \<notin> P0" using page_alloc_wf [OF w assms(2,3)] by simp_all
  have p: "pairs s0 = pairs s" by (simp add: s0(1) pairs_def entries_def)
  have "T \<in> R" using assms(1,3) s0(2) by (auto simp: cache_good_def)
  then show "good L (insert T P0) H0 s0" using assms(1) a(1) p by (auto simp: cache_good_def s0(1) geometry_def)
  show "T \<notin> P0" by (rule a(2))
  have "(q, T) \<notin> pairs s0" for q using pairs_pages [OF a(1), of q T] by blast
  then show "\<forall>q. (q, T) \<notin> pairs s0" by blast
  show "T \<in> Pages s0" "CcMem s0 = CcMem s" "Pages s0 = insert T (Pages s)" "PageAlloc s0 = PageAlloc s" by (auto simp: s0(1))
qed

lemma good_free:
  assumes "good L (insert T P0) H0 s" "T \<notin> P0" "T \<in> Pages s" "\<forall>q. (q, T) \<notin> pairs s"
  shows "\<exists>s'. MmFreePage T s = Inr s' \<and> good L P0 H0 s' \<and> CcMem s' = CcMem s \<and> Pages s' = Pages s - {T} \<and> PageAlloc s' = PageAlloc s"
proof -
  define s' where "s' = s\<lparr>Pages := Pages s - {T}\<rparr>"
  have f: "MmFreePage T s = Inr s'" using assms(3) by (simp add: MmFreePage_def s'_def)
  have "cc_wf P0 H0 s'" by (rule page_free_wf [OF _ assms(2) f]) (use assms(1) in \<open>simp add: cache_good_def\<close>)
  moreover have "pairs s' = pairs s" "geometry s' = geometry s" by (simp_all add: s'_def pairs_def entries_def geometry_def)
  ultimately have "good L P0 H0 s'" using assms(1) by (auto simp: cache_good_def s'_def)
  then show ?thesis using f by (simp add: s'_def)
qed

text \<open>The allocator refuses a page although at most \<open>b\<close> pages more than now are in use.\<close>

definition out_of_pages :: "nat \<Rightarrow> 'd cc \<Rightarrow> bool" where
  "out_of_pages b s \<longleftrightarrow> (\<exists>n A. Pages s \<subseteq> A \<and> A \<subseteq> R \<and> card A \<le> card (Pages s) + b \<and> PageAlloc s n A = 0)"

lemma out_of_pages_mono:
  assumes "out_of_pages b s'" "Pages s \<subseteq> Pages s'" "card (Pages s') \<le> card (Pages s) + d" "PageAlloc s' = PageAlloc s" "d + b \<le> c"
  shows "out_of_pages c s"
proof -
  from assms(1) obtain n A where "Pages s' \<subseteq> A" "A \<subseteq> R" "card A \<le> card (Pages s') + b" "PageAlloc s' n A = 0"
    unfolding out_of_pages_def by blast
  then show ?thesis using assms(2-5) unfolding out_of_pages_def by (intro exI [of _ n] exI [of _ A]) auto
qed

text \<open>One round of \<open>CcpActualRead\<close>, up to the part after the first page.\<close>

lemma round_delivers:
  assumes g: "good L P0 H0 s" and PO: "unat PO < 4096" and PN: "unat PN < 2 ^ 20" and B: "buffer_ok area R B (unat part)" and
    part: "part = (if PAGE_SIZE - PO < Size then PAGE_SIZE - PO else Size)" and
    rng: "unat PN * 4096 + unat PO + unat part \<le> fsize"
  obtains "CcpActualRead rd wr PN PO B Size n C s = Inl CcNull" "out_of_pages 0 s"
  | s5 where "good L P0 H0 s5" "Pages s \<subseteq> Pages s5" "card (Pages s5) \<le> card (Pages s) + 1" "PageAlloc s5 = PageAlloc s"
      "delivered R data (CcMem s) (CcMem s5) B (unat part) (unat PN * 4096 + unat PO)"
      "CcpActualRead rd wr PN PO B Size n C s = (if 0 <s Size - (PAGE_SIZE - PO)
        then and_then (CcpFindAndReadWrite False (PN + 1) 0 (Some (B + (PAGE_SIZE - PO))) (Size - (PAGE_SIZE - PO)) s5) (\<lambda>(st, PN2, PO2, B2, Size2, n2, s6).
             if st = STATUS_NOT_FOUND then CcpActualRead rd wr PN2 PO2 (case B2 of None \<Rightarrow> 0 | Some b \<Rightarrow> b) Size2 n2 C s6 else Inr (st, n2, s6))
        else Inr (STATUS_SUCCESS, n + part, s5))"
proof -
  obtain T s0 where a: "MmAllocatePage s = (T, s0)" by fastforce
  show thesis
  proof (cases "T = 0")
    case True
    have "PageAlloc s (PageAllocs s) (Pages s) = 0" using a True by (simp add: MmAllocatePage_def Let_def)
    moreover have "Pages s \<subseteq> R" using g by (simp add: cache_good_def)
    ultimately have "out_of_pages 0 s" unfolding out_of_pages_def by (metis add_0_right order_refl)
    moreover have "CcpActualRead rd wr PN PO B Size n C s = Inl CcNull"
      unfolding CcpActualRead.simps [of rd wr PN PO B Size n C s] a Let_def prod.case if_P [OF True] ..
    ultimately show thesis using that(1) by blast
  next
    case T: False
    note g0 = good_alloc [OF g a T]
    from read_page [OF g0(1) PN g0(3,4)] obtain m1 where r: "CcpActualReadPage rd PN T s0 = Inr (STATUS_SUCCESS, s0\<lparr>CcMem := m1\<rparr>)"
      "good L (insert T P0) H0 (s0\<lparr>CcMem := m1\<rparr>)" "\<forall>x. \<not> within x T 4096 \<longrightarrow> m1 x = CcMem s0 x" "holds data fsize m1 PN T" by blast
    define s1 where "s1 = s0\<lparr>CcMem := m1\<rparr>"
    have s1: "T \<in> Pages s1" "\<forall>q. (q, T) \<notin> pairs s1" "CcMem s1 = m1" using g0(3,4) by (simp_all add: s1_def)
    have Tp: "T \<in> R" using g0(1,3) by (auto simp: cache_good_def)
    have "unat part \<le> 4096 - unat PO" using page_rest [OF PO] by (simp add: part word_less_nat_alt)
    then have le: "unat part + unat PO \<le> 4096" using PO by simp
    from copy_out [OF r(2) [folded s1_def] s1(1) _ PO le rng B] r(4) s1(3) obtain m2 where
      c: "copy B (T + PO) part s1 = Inr (s1\<lparr>CcMem := m2\<rparr>)" "good L (insert T P0) H0 (s1\<lparr>CcMem := m2\<rparr>)"
      "delivered R data m1 m2 B (unat part) (unat PN * 4096 + unat PO)" "\<forall>x. \<not> within x B (unat part) \<longrightarrow> m2 x = m1 x" by auto
    define s2 where "s2 = s1\<lparr>CcMem := m2\<rparr>"
    have s2: "T \<in> Pages s2" "\<forall>q. (q, T) \<notin> pairs s2" "CcMem s2 = m2" using s1 by (simp_all add: s2_def)
    have h2: "holds data fsize (CcMem s2) PN T"
    proof (rule holds_same [where m = m1])
      show "\<forall>x. within x T 4096 \<longrightarrow> CcMem s2 x = m1 x" using c(4) B Tp s2(3) unfolding buffer_ok_def by metis
    qed (rule r(4))
    have "\<exists>s3. (if C then and_then (CcpCacheFilePage wr PN T s2) (\<lambda>(_, s3). Inr s3) else Inr s2) = Inr s3 \<and> good L (insert T P0) H0 s3 \<and>
        Pages s2 \<subseteq> Pages s3 \<and> (\<exists>b. Pages s3 \<subseteq> insert b (Pages s2)) \<and> PageAlloc s3 = PageAlloc s2 \<and> (\<forall>q. (q, T) \<notin> pairs s3) \<and>
        (\<forall>x. (\<forall>p\<in>R. \<not> within x p 4096) \<longrightarrow> CcMem s3 x = CcMem s2 x)"
    proof (cases C)
      case True
      from cache_page_good [OF c(2) [folded s2_def] s2(1,2) h2, of wr] obtain st s3 where
        "CcpCacheFilePage wr PN T s2 = Inr (st, s3)" "good L (insert T P0) H0 s3" "Pages s2 \<subseteq> Pages s3" "\<exists>b. Pages s3 \<subseteq> insert b (Pages s2)"
        "PageAlloc s3 = PageAlloc s2" "\<forall>q. (q, T) \<notin> pairs s3" "\<forall>x. (\<forall>p\<in>R. \<not> within x p 4096) \<longrightarrow> CcMem s3 x = CcMem s2 x" by blast
      then show ?thesis using True by (intro exI [of _ s3]) simp
    qed (use c(2) s2(2) in \<open>auto simp: s2_def\<close>)
    then obtain s3 where s3: "(if C then and_then (CcpCacheFilePage wr PN T s2) (\<lambda>(_, s3). Inr s3) else Inr s2) = Inr s3"
      "good L (insert T P0) H0 s3" "Pages s2 \<subseteq> Pages s3" "\<exists>b. Pages s3 \<subseteq> insert b (Pages s2)" "PageAlloc s3 = PageAlloc s2" "\<forall>q. (q, T) \<notin> pairs s3"
      "\<forall>x. (\<forall>p\<in>R. \<not> within x p 4096) \<longrightarrow> CcMem s3 x = CcMem s2 x" by blast
    have "T \<in> Pages s3" using s2(1) s3(3) by blast
    from good_free [OF s3(2) g0(2) this s3(6)] obtain s5 where
      s5: "MmFreePage T s3 = Inr s5" "good L P0 H0 s5" "CcMem s5 = CcMem s3" "Pages s5 = Pages s3 - {T}" "PageAlloc s5 = PageAlloc s3" by blast
    have Bx: "B \<noteq> 0" using B by (simp add: buffer_ok_def)
    show thesis
    proof (rule that(2) [OF s5(2)])
      have P2: "Pages s2 = insert T (Pages s)" using g0(6) by (simp add: s1_def s2_def)
      have "T \<notin> Pages s" using a T g by (auto simp: MmAllocatePage_def Let_def cache_good_def cc_wf_def alloc_ok_def)
      then show "Pages s \<subseteq> Pages s5" using s5(4) s3(3) P2 by blast
      obtain b where "Pages s5 \<subseteq> insert b (Pages s)" using s3(4) s5(4) P2 by blast
      then have "card (Pages s5) \<le> card (insert b (Pages s))" by (rule card_mono [OF finite])
      also have "\<dots> \<le> card (Pages s) + 1" using card_insert_le_m1 [of "Suc (card (Pages s))" "Pages s" b] by simp
      finally show "card (Pages s5) \<le> card (Pages s) + 1" .
      show "PageAlloc s5 = PageAlloc s" using s5(5) s3(5) g0(7) by (simp add: s1_def s2_def)
      have in_buf: "CcMem s5 (B + of_nat i) = data (unat PN * 4096 + unat PO + i)" if "i < unat part" for i
      proof -
        have "within (B + of_nat i) B (unat part)" using that unsigned_less [of part, where 'a = nat] by simp
        then have "\<forall>p\<in>R. \<not> within (B + of_nat i) p 4096" using B by (simp add: buffer_ok_def)
        then have "CcMem s3 (B + of_nat i) = m2 (B + of_nat i)" using s3(7) s2(3) by metis
        then show ?thesis using s5(3) c(3) that by (simp add: delivered_def)
      qed
      have "CcMem s5 x = CcMem s x" if "\<not> within x B (unat part)" "\<forall>p\<in>R. \<not> within x p 4096" for x
        using that s5(3) s3(7) s2(3) c(4) r(3) Tp g0(5) by metis
      then show "delivered R data (CcMem s) (CcMem s5) B (unat part) (unat PN * 4096 + unat PO)"
        using in_buf by (simp add: delivered_def)
      have st: "SUCCESS STATUS_SUCCESS" by (simp add: SUCCESS_def status_simps)
      show "CcpActualRead rd wr PN PO B Size n C s = (if 0 <s Size - (PAGE_SIZE - PO)
        then and_then (CcpFindAndReadWrite False (PN + 1) 0 (Some (B + (PAGE_SIZE - PO))) (Size - (PAGE_SIZE - PO)) s5) (\<lambda>(st, PN2, PO2, B2, Size2, n2, s6).
             if st = STATUS_NOT_FOUND then CcpActualRead rd wr PN2 PO2 (case B2 of None \<Rightarrow> 0 | Some b \<Rightarrow> b) Size2 n2 C s6 else Inr (st, n2, s6))
        else Inr (STATUS_SUCCESS, n + part, s5))"
        unfolding CcpActualRead.simps [of rd wr PN PO B Size n C s] a Let_def prod.case if_not_P [OF T] r(1) and_then_simps
          if_P [OF st] if_P [OF Bx] part [symmetric] s1_def [symmetric] c(1) s2_def [symmetric] s3(1) s5(1) if_not_P [OF Bx] ..
    qed
  qed
qed

text \<open>\<open>CcpActualRead\<close> delivers, or there was no page left.\<close>

definition delivers :: "bool \<Rightarrow> u32 set \<Rightarrow> u32 set \<Rightarrow> 'd cc \<Rightarrow> u32 \<Rightarrow> nat \<Rightarrow> nat \<Rightarrow> (status \<times> u32 \<times> 'd cc) cc_result \<Rightarrow> bool" where
  "delivers L P0 H0 s B pos k r \<longleftrightarrow> r = Inl CcNull \<and> out_of_pages ((pos mod 4096 + k) div 4096) s \<or>
     (\<exists>st n s'. r = Inr (st, n, s') \<and> SUCCESS st \<and> good L P0 H0 s' \<and> delivered R data (CcMem s) (CcMem s') B k pos)"

lemma delivers_append:
  assumes "delivers L P0 H0 s1 (B + of_nat j) (pos + j) k r" "delivered R data (CcMem s) (CcMem s1) B j pos" "buffer_ok area R B (j + k)"
    "Pages s \<subseteq> Pages s1" "card (Pages s1) \<le> card (Pages s) + d" "PageAlloc s1 = PageAlloc s"
    "d + ((pos + j) mod 4096 + k) div 4096 \<le> (pos mod 4096 + (j + k)) div 4096"
  shows "delivers L P0 H0 s B pos (j + k) r"
proof -
  consider "r = Inl CcNull" "out_of_pages (((pos + j) mod 4096 + k) div 4096) s1"
    | st n s' where "r = Inr (st, n, s')" "SUCCESS st" "good L P0 H0 s'" "delivered R data (CcMem s1) (CcMem s') (B + of_nat j) k (pos + j)"
    using assms(1) unfolding delivers_def by blast
  then show ?thesis
  proof cases
    case 1
    then show ?thesis using out_of_pages_mono [OF 1(2) assms(4,5,6,7)] by (simp add: delivers_def)
  next
    case 2
    then show ?thesis using delivered_append [OF assms(2) 2(4) assms(3)] unfolding delivers_def by blast
  qed
qed

lemma pages_left: "((pos + j) mod 4096 + k) div 4096 \<le> (pos mod 4096 + (j + k)) div (4096 :: nat)"
proof (rule div_le_mono)
  have "(pos + j) mod 4096 = (pos mod 4096 + j) mod 4096" by (simp add: mod_simps)
  also have "\<dots> \<le> pos mod 4096 + j" by (rule mod_less_eq_dividend)
  finally show "(pos + j) mod 4096 + k \<le> pos mod 4096 + (j + k)" by simp
qed

lemma success_ok: "SUCCESS STATUS_SUCCESS" "STATUS_SUCCESS \<noteq> STATUS_NOT_FOUND"
  by (simp_all add: SUCCESS_def status_simps)

text \<open>What a lookup leaves is read from the driver.\<close>

lemma found_then_read:
  assumes f: "found L P0 H0 s B pos Size r" and B: "buffer_ok area R B (unat Size)" and rng: "pos + unat Size \<le> fsize"
    and rest: "\<And>PN PO B' Size' n s'. good L P0 H0 s' \<Longrightarrow> unat PO < 4096 \<Longrightarrow> unat PN < 2 ^ 20 \<Longrightarrow> unat Size' \<le> unat Size \<Longrightarrow>
      unat PN * 4096 + unat PO + unat Size' \<le> fsize \<Longrightarrow> buffer_ok area R B' (unat Size') \<Longrightarrow>
      delivers L P0 H0 s' B' (unat PN * 4096 + unat PO) (unat Size') (G PN PO B' Size' n s')"
  shows "delivers L P0 H0 s B pos (unat Size) (and_then r (\<lambda>(st, PN2, PO2, B2, Size2, n2, s6).
    if st = STATUS_NOT_FOUND then G PN2 PO2 (case B2 of None \<Rightarrow> 0 | Some b \<Rightarrow> b) Size2 n2 s6 else Inr (st, n2, s6)))"
proof -
  from f obtain st PN PO B' Size' n s' k where r: "r = Inr (st, PN, PO, Some B', Size', n, s')" "good L P0 H0 s'" "Pages s' = Pages s"
    "PageAlloc s' = PageAlloc s" "k \<le> unat Size" "delivered R data (CcMem s) (CcMem s') B k pos" and
    e: "st = STATUS_SUCCESS \<and> k = unat Size \<or>
      st = STATUS_NOT_FOUND \<and> B' = B + of_nat k \<and> unat Size' = unat Size - k \<and> unat PN * 4096 + unat PO = pos + k \<and> unat PO < 4096 \<and> unat PN < 2 ^ 20"
    unfolding found_def by blast
  show ?thesis
  proof (cases "st = STATUS_NOT_FOUND")
    case False
    then have "st = STATUS_SUCCESS" "k = unat Size" using e by auto
    then have "delivers L P0 H0 s B pos (unat Size) (Inr (st, n, s'))" using r(2,6) success_ok(1) unfolding delivers_def by blast
    then show ?thesis using False r(1) by simp
  next
    case True
    then have n: "B' = B + of_nat k" "unat Size' = unat Size - k" "unat PN * 4096 + unat PO = pos + k" "unat PO < 4096" "unat PN < 2 ^ 20"
      using e success_ok(2) by auto
    have "delivers L P0 H0 s' B' (unat PN * 4096 + unat PO) (unat Size') (G PN PO B' Size' n s')"
      by (rule rest [OF r(2) n(4,5)]) (use n r(5) rng buffer_ok_shift(1) [OF B r(5)] in simp_all)
    then have d: "delivers L P0 H0 s' (B + of_nat k) (pos + k) (unat Size') (G PN PO B' Size' n s')" using n(1,3) by simp
    have "k + unat Size' = unat Size" using n(2) r(5) by simp
    with delivers_append [OF d r(6), of 0] B r(3,4) pages_left [of pos k "unat Size'"]
    have "delivers L P0 H0 s B pos (unat Size) (G PN PO B' Size' n s')" by simp
    then show ?thesis using True r(1) by simp
  qed
qed

lemma actual_read:
  assumes "good L P0 H0 s" "unat PO < 4096" "unat PN < 2 ^ 20" "unat PN * 4096 + unat PO + unat Size \<le> fsize" "fsize \<le> 2 ^ 32"
    "buffer_ok area R B (unat Size)" "unat Size < 2 ^ 31"
  shows "delivers L P0 H0 s B (unat PN * 4096 + unat PO) (unat Size) (CcpActualRead rd wr PN PO B Size n C s)"
  using assms
proof (induction "unat Size" arbitrary: PN PO B Size n s rule: less_induct)
  case less
  define part where "part = (if PAGE_SIZE - PO < Size then PAGE_SIZE - PO else Size)"
  have rest: "unat (PAGE_SIZE - PO) = 4096 - unat PO" by (rule page_rest [OF less.prems(2)])
  have le: "unat part \<le> unat Size" by (simp add: part_def word_less_nat_alt)
  have more: "0 <s Size - (PAGE_SIZE - PO) \<longleftrightarrow> 4096 - unat PO < unat Size"
  proof -
    have sz31: "unat Size < 2147483648" using less.prems(7) by simp
    have "sint (Size - (PAGE_SIZE - PO)) = int (unat Size) - int (unat (PAGE_SIZE - PO))" 
      by (rule sint_diff) (use sz31 rest in linarith)+
    moreover have "0 <s Size - (PAGE_SIZE - PO) \<longleftrightarrow> 0 < sint (Size - (PAGE_SIZE - PO))" by (simp add: word_sless_alt)
    ultimately show ?thesis using rest by linarith
  qed
  have rng: "unat PN * 4096 + unat PO + unat part \<le> fsize" using less.prems(4) le by simp
  show ?case
  proof (rule round_delivers [OF less.prems(1-3) buffer_ok_mono [OF less.prems(6) le] part_def rng])
    assume "CcpActualRead rd wr PN PO B Size n C s = Inl CcNull" "out_of_pages 0 s"
    then show ?thesis using out_of_pages_mono [of 0 s s 0] by (simp add: delivers_def)
  next
    fix s5 assume s5: "good L P0 H0 s5" "Pages s \<subseteq> Pages s5" "card (Pages s5) \<le> card (Pages s) + 1" "PageAlloc s5 = PageAlloc s"
      "delivered R data (CcMem s) (CcMem s5) B (unat part) (unat PN * 4096 + unat PO)"
      "CcpActualRead rd wr PN PO B Size n C s = (if 0 <s Size - (PAGE_SIZE - PO)
        then and_then (CcpFindAndReadWrite False (PN + 1) 0 (Some (B + (PAGE_SIZE - PO))) (Size - (PAGE_SIZE - PO)) s5) (\<lambda>(st, PN2, PO2, B2, Size2, n2, s6).
             if st = STATUS_NOT_FOUND then CcpActualRead rd wr PN2 PO2 (case B2 of None \<Rightarrow> 0 | Some b \<Rightarrow> b) Size2 n2 C s6 else Inr (st, n2, s6))
        else Inr (STATUS_SUCCESS, n + part, s5))"
    show ?thesis
    proof (cases "4096 - unat PO < unat Size")
      case False
      then have "part = Size" using rest by (simp add: part_def word_less_nat_alt)
      then show ?thesis using s5 False more success_ok(1) unfolding delivers_def by auto
    next
      case True
      define j where "j = 4096 - unat PO"
      define Size' where "Size' = Size - (PAGE_SIZE - PO)"
      have j: "unat part = j" "PAGE_SIZE - PO = of_nat j" "unat Size' = unat Size - j" "j < unat Size" "0 < j" "unat PO + j = 4096"
      proof -
        show "unat part = j" using True rest by (simp add: part_def j_def word_less_nat_alt)
        show "PAGE_SIZE - PO = of_nat j" using rest unfolding j_def by (metis of_nat_unat ucast_id)
        show "unat Size' = unat Size - j" using rest True unfolding Size'_def j_def by (subst unat_sub) (simp_all add: word_le_nat_alt)
        show "j < unat Size" "0 < j" "unat PO + j = 4096" using True less.prems(2) by (simp_all add: j_def)
      qed
      have "unat PN * 4096 + 4096 < 2 ^ 32" using less.prems(4,5) j(4,6) by linarith
      then have PN: "unat (PN + 1) = unat PN + 1" "unat (PN + 1) < 2 ^ 20" using unat_small [of "unat PN + 1"] by (simp_all add: add.commute)
      have pos: "unat (PN + 1) * 4096 + unat (0 :: u32) = unat PN * 4096 + unat PO + j" using PN(1) j(6) by simp
      have B': "buffer_ok area R (B + of_nat j) (unat Size')" using buffer_ok_shift(1) [OF less.prems(6), of j] j(3,4) by simp
      have rng': "unat PN * 4096 + unat PO + j + unat Size' \<le> fsize" using less.prems(4) j(3,4) by simp
      have "found L P0 H0 s5 (B + of_nat j) (unat (PN + 1) * 4096 + unat (0 :: u32)) Size'
          (CcpFindAndReadWrite False (PN + 1) 0 (Some (B + of_nat j)) Size' s5)"
        unfolding CcpFindAndReadWrite_def
        by (rule find_delivers [OF s5(1) _ PN(2) _ less.prems(5) B']) (use rng' pos in simp_all)
      then have f: "found L P0 H0 s5 (B + of_nat j) (unat PN * 4096 + unat PO + j) Size'
          (CcpFindAndReadWrite False (PN + 1) 0 (Some (B + of_nat j)) Size' s5)" unfolding pos .
      have "delivers L P0 H0 s5 (B + of_nat j) (unat PN * 4096 + unat PO + j) (unat Size')
          (and_then (CcpFindAndReadWrite False (PN + 1) 0 (Some (B + of_nat j)) Size' s5) (\<lambda>(st, PN2, PO2, B2, Size2, n2, s6).
             if st = STATUS_NOT_FOUND then CcpActualRead rd wr PN2 PO2 (case B2 of None \<Rightarrow> 0 | Some b \<Rightarrow> b) Size2 n2 C s6 else Inr (st, n2, s6)))"
      proof (rule found_then_read [OF f B' rng'])
        fix PN2 PO2 B2 Size2 n2 :: u32 and s6
        assume h: "good L P0 H0 s6" "unat PO2 < 4096" "unat PN2 < 2 ^ 20" "unat Size2 \<le> unat Size'"
          "unat PN2 * 4096 + unat PO2 + unat Size2 \<le> fsize" "buffer_ok area R B2 (unat Size2)"
        show "delivers L P0 H0 s6 B2 (unat PN2 * 4096 + unat PO2) (unat Size2) (CcpActualRead rd wr PN2 PO2 B2 Size2 n2 C s6)"
          by (rule less.hyps [OF _ h(1-3,5) less.prems(5) h(6)]) (use h(4) j(3-5) less.prems(7) in linarith)+
      qed
      then have d: "delivers L P0 H0 s5 (B + of_nat j) (unat PN * 4096 + unat PO + j) (unat Size') (CcpActualRead rd wr PN PO B Size n C s)"
        using s5(6) True more unfolding Size'_def j(2) by simp
      have sz: "j + unat Size' = unat Size" using j(3,4) by simp
      have rounds: "1 + ((unat PN * 4096 + unat PO + j) mod 4096 + unat Size') div 4096 \<le> ((unat PN * 4096 + unat PO) mod 4096 + (j + unat Size')) div 4096"
      proof -
        have "(unat PN * 4096 + unat PO) mod 4096 = unat PO" using less.prems(2) by simp
        moreover have "(unat PN * 4096 + unat PO + j) mod 4096 = 0" using j(6) by (metis add.assoc mod_mult_self3 mod_self)
        moreover have "unat PO + (j + unat Size') = 4096 + unat Size'" using j(6) by simp
        ultimately show ?thesis by simp
      qed
      show ?thesis
        using delivers_append [OF d s5(5) [unfolded j(1)] _ s5(2,3,4) rounds] less.prems(6) unfolding sz by blast
    qed
  qed
qed

end

lemma page_parts:
  "unat (page_number Offset) * 4096 + unat (page_offset Offset) = unat Offset" "unat (page_number Offset) < 2 ^ 20"
proof -
  have o: "unat (page_offset Offset) = unat Offset mod 4096"
  proof -
    have "page_offset Offset = take_bit 12 Offset" by (simp add: page_offset_def PAGE_SIZE_def take_bit_eq_mask mask_eq_exp_minus_1)
    then show ?thesis by (simp add: unsigned_take_bit_eq take_bit_eq_mod unat_mod)
  qed
  have "page_number Offset = drop_bit 12 Offset"
  proof (rule bit_word_eqI)
    fix i assume "i < LENGTH(32)"
    have "page_number Offset = drop_bit 12 (Offset AND NOT (mask 12))"
      by (simp add: page_number_def ALIGN_DOWN_def PAGE_SIZE_def mask_eq_exp_minus_1 drop_bit_eq_div)
    then show "bit (page_number Offset) i = bit (drop_bit 12 Offset) i" by (auto simp: bit_simps dest: bit_imp_le_length)
  qed
  then have n: "unat (page_number Offset) = unat Offset div 4096" by (simp add: unsigned_drop_bit_eq drop_bit_eq_div unat_div)
  show "unat (page_number Offset) * 4096 + unat (page_offset Offset) = unat Offset" using n o by simp
  show "unat (page_number Offset) < 2 ^ 20" using n unsigned_less [of Offset, where 'a = nat] by simp
qed

context clustered_file
begin

lemma good_upd_map:
  assumes "\<And>m. PageCacheMap (f m) = PageCacheMap m" "\<And>m. MaxCachedPages (f m) = MaxCachedPages m" "\<And>m. MapAt (f m) = MapAt m"
    "\<And>m. ArrayAt (f m) = ArrayAt m" "\<And>m. (ClusterSize (f m), ClustersPerPage (f m), HasRead (f m)) = (ClusterSize m, ClustersPerPage m, HasRead m)"
    "\<And>m. CacheMapLock m = L \<Longrightarrow> CacheMapLock (f m) = L'" "good L P0 H0 s"
  shows "good L' P0 H0 (upd_map f s)"
proof -
  have "pairs (upd_map f s) = pairs s" by (simp add: pairs_def entries_upd assms(1))
  moreover have "\<exists>cpp. geometry (upd_map f s) = Some (csize, cpp, True, L') \<and> unat cpp * unat csize = 4096"
    using assms(5,6,7) by (auto simp: cache_good_def geometry_def upd_map_def)
  moreover have "cc_wf P0 H0 (upd_map f s) = cc_wf P0 H0 s" by (rule upd_map_wf) (use assms(1-4) in simp_all)
  moreover have "Pages (upd_map f s) = Pages s" "PageAlloc (upd_map f s) = PageAlloc s" "CcMem (upd_map f s) = CcMem s"
    by (simp_all add: upd_map_def)
  ultimately show ?thesis using assms(7) by (simp add: cache_good_def)
qed

lemma done_delivers:
  assumes "good L P0 H0 s" "SUCCESS st"
  shows "\<exists>st' n' s'. cache_done wr st n s = Inr (st', n', s') \<and> SUCCESS st' \<and> good False P0 H0 s' \<and> CcMem s' = CcMem s"
proof -
  define s1 where "s1 = upd_map (\<lambda>m. m\<lparr>ShouldRebuild := ShouldRebuild m + 1\<rparr>) s"
  define s2 where "s2 = unlock_map s1"
  have "good L P0 H0 s1" unfolding s1_def by (rule good_upd_map [OF _ _ _ _ _ _ assms(1)]) simp_all
  then have g: "good False P0 H0 s2" unfolding s2_def unlock_map_def by (rule good_upd_map [rotated -1]) simp_all
  obtain m where m: "the_map s1 = Inr m" using assms(1) by (auto simp: cache_good_def geometry_def s1_def upd_map_def the_map_def)
  have "cache_done wr st n s = Inr (st, n, s2)"
    unfolding cache_done_def s1_def [symmetric] Let_def m and_then_simps s2_def [symmetric] by simp
  then show ?thesis using g assms(2) by (simp add: s2_def s1_def unlock_map_def upd_map_def)
qed

lemma delivers_then:
  assumes "delivers L P0 H0 s B pos k r"
    and "\<And>st n s'. SUCCESS st \<Longrightarrow> good L P0 H0 s' \<Longrightarrow>
      \<exists>st2 n2 s2. F (st, n, s') = Inr (st2, n2, s2) \<and> SUCCESS st2 \<and> good L' P0 H0 s2 \<and> CcMem s2 = CcMem s'"
  shows "delivers L' P0 H0 s B pos k (and_then r F)"
proof -
  consider "r = Inl CcNull" "out_of_pages ((pos mod 4096 + k) div 4096) s"
    | st n s' where "r = Inr (st, n, s')" "SUCCESS st" "good L P0 H0 s'" "delivered R data (CcMem s) (CcMem s') B k pos"
    using assms(1) unfolding delivers_def by blast
  then show ?thesis
  proof cases
    case 2
    from assms(2) [OF 2(2,3), of n] obtain st2 n2 s2 where "F (st, n, s') = Inr (st2, n2, s2)" "SUCCESS st2" "good L' P0 H0 s2"
      "CcMem s2 = CcMem s'" by blast
    then show ?thesis using 2(1,4) by (simp add: delivers_def)
  qed (simp add: delivers_def)
qed

text \<open>Every read within the file delivers.\<close>

lemma cached_read:
  assumes "good False P0 H0 s" "unat Offset + unat Size \<le> fsize" "fsize \<le> 2 ^ 32"
    "unat Size < 81920" "buffer_ok area R B (unat Size)"
  shows "delivers False P0 H0 s B (unat Offset) (unat Size) (CcCacheReadFile rd wr Offset B Size n s)"
proof -
  define s1 where "s1 = upd_map (\<lambda>m. m\<lparr>CacheMapLock := True\<rparr>) s"
  define PN where "PN = page_number Offset"
  define PO where "PO = page_offset Offset"
  note pp = page_parts [of Offset, folded PN_def PO_def] page_offset_less [of Offset, folded PO_def]
  have l: "lock_map s = Inr s1" using assms(1) by (auto simp: cache_good_def geometry_def lock_map_def the_map_def s1_def)
  have g1: "good True P0 H0 s1" unfolding s1_def by (rule good_upd_map [OF _ _ _ _ _ _ assms(1)]) simp_all
  have same: "CcMem s1 = CcMem s" "Pages s1 = Pages s" "PageAlloc s1 = PageAlloc s" by (simp_all add: s1_def upd_map_def)
  have ok: "Size < PAGE_SIZE * 20" using assms(4) by (simp add: PAGE_SIZE_def word_less_nat_alt)
  have sz: "unat Size < 2 ^ 31" using assms(4) by simp
  have start: "delivers False P0 H0 s B pos k r" if "delivers False P0 H0 s' B pos k r" "CcMem s' = CcMem s" "Pages s' = Pages s" "PageAlloc s' = PageAlloc s" for s' pos k r
    using that by (simp add: delivers_def out_of_pages_def)
  have read: "delivers L P0 H0 s2 B2 (unat PN2 * 4096 + unat PO2) (unat Size2) (CcpActualRead rd wr PN2 PO2 B2 Size2 n2 C s2)"
    if "good L P0 H0 s2" "unat PO2 < 4096" "unat PN2 < 2 ^ 20" "unat Size2 \<le> unat Size" "unat PN2 * 4096 + unat PO2 + unat Size2 \<le> fsize"
      "buffer_ok area R B2 (unat Size2)" for L s2 PN2 PO2 B2 Size2 n2 C
    by (rule actual_read [OF that(1-3,5) assms(3) that(6)]) (use that(4) sz in linarith)
  show ?thesis
  proof (cases "ReadThrough s1")
    case True
    have g2: "good False P0 H0 (unlock_map s1)" unfolding unlock_map_def by (rule good_upd_map [OF _ _ _ _ _ _ g1]) simp_all
    have "delivers False P0 H0 (unlock_map s1) B (unat Offset) (unat Size) (CcpActualRead rd wr PN PO B Size n False (unlock_map s1))"
      using read [OF g2 pp(3,2)] pp(1) assms(2,5) by simp
    then have "delivers False P0 H0 s B (unat Offset) (unat Size) (CcpActualRead rd wr PN PO B Size n False (unlock_map s1))"
      by (rule start) (simp_all add: unlock_map_def upd_map_def s1_def)
    then show ?thesis using l ok True by (simp add: CcCacheReadFile_def PN_def PO_def)
  next
    case False
    have "found True P0 H0 s1 B (unat PN * 4096 + unat PO) Size (CcpFindAndReadWrite False PN PO (Some B) Size s1)"
      unfolding CcpFindAndReadWrite_def by (rule find_delivers [OF g1 pp(3,2) _ assms(3,5)]) (use pp(1) assms(2) in simp)
    then have f: "found True P0 H0 s1 B (unat Offset) Size (CcpFindAndReadWrite False PN PO (Some B) Size s1)" unfolding pp(1) .
    define r where "r = CcpFindAndReadWrite False PN PO (Some B) Size s1"
    define G where "G = (\<lambda>PN2 PO2 b Size2 n2 s2. and_then (CcpActualRead rd wr PN2 PO2 b Size2 n2 True s2)
      (\<lambda>(st3, n3, s3). Inr (if SUCCESS st3 then STATUS_CACHED else st3, n3, s3)))"
    have cached: "SUCCESS STATUS_CACHED" by (simp add: SUCCESS_def status_simps)
    have d: "delivers True P0 H0 s1 B (unat Offset) (unat Size) (and_then r (\<lambda>(st, PN2, PO2, B2, Size2, n2, s6).
        if st = STATUS_NOT_FOUND then G PN2 PO2 (case B2 of None \<Rightarrow> 0 | Some b \<Rightarrow> b) Size2 n2 s6 else Inr (st, n2, s6)))"
    proof (rule found_then_read [OF f [folded r_def] assms(5,2)])
      fix PN2 PO2 B2 Size2 n2 :: u32 and s6
      assume "good True P0 H0 s6" "unat PO2 < 4096" "unat PN2 < 2 ^ 20" "unat Size2 \<le> unat Size"
          "unat PN2 * 4096 + unat PO2 + unat Size2 \<le> fsize" "buffer_ok area R B2 (unat Size2)"
      from read [OF this] show "delivers True P0 H0 s6 B2 (unat PN2 * 4096 + unat PO2) (unat Size2) (G PN2 PO2 B2 Size2 n2 s6)"
        unfolding G_def by (rule delivers_then) (simp add: cached)
    qed
    have e: "CcCacheReadFile rd wr Offset B Size n s = and_then (and_then r (\<lambda>(st, PN2, PO2, B2, Size2, n2, s6).
        if st = STATUS_NOT_FOUND then G PN2 PO2 (case B2 of None \<Rightarrow> 0 | Some b \<Rightarrow> b) Size2 n2 s6 else Inr (st, n2, s6)))
        (\<lambda>(st3, n3, s3). cache_done wr st3 n3 s3)"
      using ok False unfolding CcCacheReadFile_def l and_then_simps PN_def [symmetric] PO_def [symmetric] r_def [symmetric] G_def
      by (cases r) (simp_all split: prod.splits)
    have "delivers False P0 H0 s1 B (unat Offset) (unat Size) (CcCacheReadFile rd wr Offset B Size n s)"
      unfolding e by (rule delivers_then [OF d]) (simp add: done_delivers)
    then show ?thesis by (rule start) (simp_all add: same)
  qed
qed

end

lemma init_success:
  assumes "CcInitializeFileCaching csize rs ws s = Inr (STATUS_SUCCESS, s')" "csize < PAGE_SIZE"
  shows "csize \<noteq> 0 \<and> PAGE_SIZE mod csize = 0 \<and> (\<exists>m. FileMap s' = Some m \<and> entries s' = {} \<and> \<not> CacheMapLock m \<and> ClusterSize m = csize \<and>
      ClustersPerPage m = ucast (PAGE_SIZE div csize) \<and> HasRead m = rs) \<and> Pages s' = Pages s \<and> PageAlloc s' = PageAlloc s \<and> CcMem s' = CcMem s \<and>
    CcDev s' = CcDev s \<and> ReadThrough s' = ReadThrough s"
proof -
  have st: "STATUS_SUCCESS \<noteq> STATUS_INVALID_PARAMETER" "STATUS_SUCCESS \<noteq> STATUS_INSUFFICIENT_RESOURCES" by (simp_all add: status_simps)
  have c: "csize \<noteq> 0" "PAGE_SIZE mod csize = 0" using assms st by (auto simp: CcInitializeFileCaching_def split: if_splits)
  obtain p s1 where a1: "heap_alloc s = (p, s1)" by fastforce
  obtain q s2 where a2: "heap_alloc s1 = (q, s2)" by fastforce
  have same: "Pages s2 = Pages s" "PageAlloc s2 = PageAlloc s" "CcMem s2 = CcMem s" "CcDev s2 = CcDev s" "ReadThrough s2 = ReadThrough s"
    "Pages s1 = Pages s" "PageAlloc s1 = PageAlloc s" "CcMem s1 = CcMem s" "CcDev s1 = CcDev s" "ReadThrough s1 = ReadThrough s"
    using a1 a2 by (auto simp: heap_alloc_def Let_def)
  define m where "m = \<lparr>CacheMapLock = False, CachedPages = 0, MaxCachedPages = MIN_CACHED_PAGES, RebuildCount = 0, ClusterSize = csize,
                  ClustersPerPage = (if csize < PAGE_SIZE then ucast (PAGE_SIZE div csize) else 0 :: u8), ShouldRebuild = 0,
                  HasRead = rs, HasWrite = ws, PageCacheMap = [], MapAt = p, ArrayAt = 0\<rparr>"
  have e: "(if p = 0 then Inr (STATUS_INSUFFICIENT_RESOURCES, no_cache s1)
      else if IS_FILE_CACHED s1 then
        if q = 0 then and_then (heap_free p s2) (\<lambda>s3. Inr (STATUS_INSUFFICIENT_RESOURCES, no_cache s3))
        else Inr (STATUS_SUCCESS, s2\<lparr>FileMap := Some (m\<lparr>PageCacheMap := replicate (unat MIN_CACHED_PAGES) zero_page, ArrayAt := q\<rparr>)\<rparr>)
      else Inr (STATUS_SUCCESS, s1\<lparr>FileMap := Some (m\<lparr>MaxCachedPages := 0\<rparr>)\<rparr>)) = Inr (STATUS_SUCCESS, s')"
  proof -
    have "\<not> (csize < PAGE_SIZE \<and> csize = 0)" "\<not> (csize < PAGE_SIZE \<and> PAGE_SIZE mod csize \<noteq> 0)" using c by blast+
    then show ?thesis using assms(1) unfolding CcInitializeFileCaching_def a1 Let_def prod.case a2 m_def by (simp only: if_False)
  qed
  have "s' = s2\<lparr>FileMap := Some (m\<lparr>PageCacheMap := replicate (unat MIN_CACHED_PAGES) zero_page, ArrayAt := q\<rparr>)\<rparr> \<or>
      s' = s1\<lparr>FileMap := Some (m\<lparr>MaxCachedPages := 0\<rparr>)\<rparr>"
    using e st by (cases "p = 0"; cases "IS_FILE_CACHED s1"; cases "q = 0") (auto simp: and_then_Inr)
  then show ?thesis
  proof
    assume "s' = s2\<lparr>FileMap := Some (m\<lparr>PageCacheMap := replicate (unat MIN_CACHED_PAGES) zero_page, ArrayAt := q\<rparr>)\<rparr>"
    then show ?thesis using c same assms(2) by (simp add: m_def entries_def zero_page_def)
  next
    assume "s' = s1\<lparr>FileMap := Some (m\<lparr>MaxCachedPages := 0\<rparr>)\<rparr>"
    then show ?thesis using c same assms(2) by (simp add: m_def entries_def)
  qed
qed

lemma init_good:
  assumes i: "CcInitializeFileCaching csize True ws s = Inr (STATUS_SUCCESS, s')" and c: "32 \<le> csize" "csize < PAGE_SIZE"
    and s: "alloc_ok s" "FileMap s = None" "Pages s \<subseteq> R" "\<forall>n A. PageAlloc s n A = 0 \<or> PageAlloc s n A \<in> R" "I (CcMem s) (CcDev s)"
  shows "cache_good data n csize I R False (Pages s) (HeapBlocks s) s'"
proof -
  note N = init_success [OF i c(2)]
  obtain m where m: "FileMap s' = Some m" "entries s' = {}" "\<not> CacheMapLock m" "ClusterSize m = csize"
      "ClustersPerPage m = ucast (PAGE_SIZE div csize)" "HasRead m" using N by auto
  define c' where "c' = unat csize"
  have c': "32 \<le> c'" "c' < 4096" "4096 mod c' = 0"
  proof -
    show "32 \<le> c'" "c' < 4096" using c by (simp_all add: c'_def word_le_nat_alt word_less_nat_alt PAGE_SIZE_def)
    have "unat (PAGE_SIZE mod csize) = 0" using N by simp
    then show "4096 mod c' = 0" by (simp add: unat_mod PAGE_SIZE_def c'_def)
  qed
  have "4096 div c' \<le> 128" using div_le_mono2 [of 32 c' 4096] c'(1) by simp
  then have "unat (ClustersPerPage m) = 4096 div c'"
    unfolding m(5) by (simp add: unsigned_ucast_eq take_bit_eq_mod unat_div PAGE_SIZE_def c'_def)
  then have "unat (ClustersPerPage m) * unat csize = 4096" using c'(3) by (metis add_0_right c'_def div_mult_mod_eq)
  then have g: "\<exists>cpp. geometry s' = Some (csize, cpp, True, False) \<and> unat cpp * unat csize = 4096" using m by (simp add: geometry_def)
  have "cc_wf (Pages s) (HeapBlocks s) s'" by (rule init_wf [OF i s(1,2)])
  then show ?thesis using N g s(3-5) m(2) by (simp add: cache_good_def pairs_def)
qed

text \<open>Reads within the file, one after the other.\<close>

inductive read_run :: "'d callback \<Rightarrow> u32 set \<Rightarrow> u32 set \<Rightarrow> nat \<Rightarrow> 'd cc \<Rightarrow> 'd cc \<Rightarrow> bool" for rd area R n where
  no_reads: "read_run rd area R n s s"
| one_read: "read_run rd area R n s s1 \<Longrightarrow> unat Offset + unat Size \<le> n \<Longrightarrow> unat Size < 81920 \<Longrightarrow> buffer_ok area R B (unat Size) \<Longrightarrow>
    CcCacheReadFile rd wr Offset B Size k s1 = Inr (st, k', s2) \<Longrightarrow> read_run rd area R n s s2"

context clustered_file
begin

lemma run_good:
  assumes "read_run rd area R fsize s s'" "good False P0 H0 s" "fsize \<le> 2 ^ 32"
  shows "good False P0 H0 s'"
  using assms(1,2)
proof (induction rule: read_run.induct)
  case (one_read s s1 Offset Size B wr k st k' s2)
  then have "delivers False P0 H0 s1 B (unat Offset) (unat Size) (CcCacheReadFile rd wr Offset B Size k s1)"
    by (intro cached_read assms(3)) simp_all
  then show ?case using one_read.hyps(5) by (simp add: delivers_def)
qed

lemma run_pages:
  assumes "read_run rd area R fsize s s'" "good False P0 H0 s" "fsize \<le> 2 ^ 32" "unat Offset + unat Size \<le> fsize" "unat Size < 81920"
    "buffer_ok area R B (unat Size)"
  shows "CcCacheReadFile rd wr Offset B Size k s' = Inl CcNull \<and> (\<exists>n A. Pages s' \<subseteq> A \<and> A \<subseteq> R \<and> card A \<le> card (Pages s') + 20 \<and> PageAlloc s' n A = 0) \<or>
    (\<exists>st k' s2. CcCacheReadFile rd wr Offset B Size k s' = Inr (st, k', s2) \<and> SUCCESS st \<and> (\<forall>i<unat Size. CcMem s2 (B + of_nat i) = data (unat Offset + i)))"
proof -
  have "unat Offset mod 4096 + unat Size < 21 * 4096" using assms(5) mod_less_divisor [of 4096 "unat Offset"] by linarith
  then have b: "(unat Offset mod 4096 + unat Size) div 4096 \<le> 20" by (simp add: less_mult_imp_div_less less_Suc_eq_le [symmetric])
  from cached_read [OF run_good [OF assms(1-3)] assms(4,3,5,6), of wr k] show ?thesis
    unfolding delivers_def delivered_def using out_of_pages_mono [OF _ subset_refl le_add1 refl, of _ s' 0 20] b unfolding out_of_pages_def by auto
qed

end

end
