(* ===== verification/CcFat.thy ===== *)
theory CcFat
  imports CcRead Fat Io
begin

text \<open>
  Files of a FAT volume behind the cache. \<^verbatim>\<open>FsFatCreate\<close> registers \<open>FsFatPerformRead\<close> as the callback that reads
  clusters and none that writes; it obeys the laws of \<open>clustered_file\<close>, so reads through the cache deliver
  the bytes of the file.
\<close>

subsection \<open>The callback\<close>

definition fat_read :: "raw_device \<Rightarrow> u32 \<Rightarrow> vcb \<Rightarrow> u32 \<Rightarrow> unit callback" where
  "fat_read raw exc v DirEnt cl buf n m d =
     (case FsFatPerformRead raw exc m v DirEnt cl buf n of Inl _ \<Rightarrow> Inl CallbackStops | Inr (st, m', _) \<Rightarrow> Inr (st, m', d))"

text \<open>What the driver reads in memory: the loaded part of the table, the directory entry, the boot sector.\<close>

definition fat_area :: "vcb \<Rightarrow> u32 \<Rightarrow> u32 set" where
  "fat_area v DirEnt = (\<lambda>i. FatPtr v + of_nat i) ` {..unat (SizeOfFatLoaded v)} \<union> (\<lambda>i. DirEnt + of_nat i) ` {..<32} \<union>
     (\<lambda>i. BootSector v + of_nat i) ` {..<16}"

text \<open>The bytes of a file with these clusters.\<close>

definition file_bytes :: "(u32 \<Rightarrow> u8 list) \<Rightarrow> u32 list \<Rightarrow> u32 \<Rightarrow> nat \<Rightarrow> u8" where
  "file_bytes content cs csize i = content (cs ! (i div unat csize)) ! (i mod unat csize)"

definition fat_ready :: "raw_device \<Rightarrow> vcb \<Rightarrow> u32 \<Rightarrow> u32 list \<Rightarrow> (u32 \<Rightarrow> u8 list) \<Rightarrow> 8 mem \<Rightarrow> unit \<Rightarrow> bool" where
  "fat_ready raw v DirEnt cs content m d \<longleftrightarrow> file12 raw m v DirEnt cs content \<and> SizeOfFatLoaded v < - 1"

lemma area_cells:
  assumes "\<forall>x\<in>fat_area v DirEnt. m' x = m x"
  shows "i \<le> unat (SizeOfFatLoaded v) \<Longrightarrow> m' (FatPtr v + of_nat i) = m (FatPtr v + of_nat i)"
    and "i < 32 \<Longrightarrow> m' (DirEnt + of_nat i) = m (DirEnt + of_nat i)"
    and "i < 16 \<Longrightarrow> m' (BootSector v + of_nat i) = m (BootSector v + of_nat i)"
  using assms by (auto simp: fat_area_def)

lemma entry12_same:
  assumes "FatType v = 12" "\<forall>x\<in>fat_area v DirEnt. m' x = m x"
  shows "FsFatReadFatEntry raw m' v c = FsFatReadFatEntry raw m v c"
proof -
  have "fat_word raw m' v nb = fat_word raw m v nb" for nb
  proof (cases "nb \<ge> SizeOfFatLoaded v")
    case False
    then have le: "unat nb \<le> unat (SizeOfFatLoaded v)" "Suc (unat nb) \<le> unat (SizeOfFatLoaded v)"
      by (auto simp: word_le_nat_alt)
    have "m' (FatPtr v + nb) = m (FatPtr v + nb)" "m' (FatPtr v + nb + 1) = m (FatPtr v + nb + 1)"
      using area_cells(1) [OF assms(2) le(1)] area_cells(1) [OF assms(2) le(2)] by (simp_all add: ac_simps)
    from rd16_agree [OF this] False show ?thesis by (simp add: fat_word_def)
  qed (simp add: fat_word_def)
  then show ?thesis by (simp add: FsFatReadFatEntry_def assms(1))
qed

lemma file12_same:
  assumes "file12 raw m v DirEnt cs content" "\<forall>x\<in>fat_area v DirEnt. m' x = m x"
  shows "file12 raw m' v DirEnt cs content"
proof -
  have t: "FatType v = 12" using assms(1) by (simp add: file12_def)
  have "FsFatReadFatEntry raw m' v = FsFatReadFatEntry raw m v" using entry12_same [OF t assms(2)] by blast
  moreover have "de_StartCluster m' DirEnt = de_StartCluster m DirEnt" "de_StartClusterHigh m' DirEnt = de_StartClusterHigh m DirEnt"
    using area_cells(2) [OF assms(2), of 26] area_cells(2) [OF assms(2), of 27] area_cells(2) [OF assms(2), of 20] area_cells(2) [OF assms(2), of 21]
    by (simp_all add: de_defs rd16_def ac_simps)
  moreover have "fh_SectorsPerCluster m' (BootSector v) = fh_SectorsPerCluster m (BootSector v)" "fh_SectorSize m' (BootSector v) = fh_SectorSize m (BootSector v)"
    using area_cells(3) [OF assms(2), of 11] area_cells(3) [OF assms(2), of 12] area_cells(3) [OF assms(2), of 13]
    by (simp_all add: fh_SectorsPerCluster_def fh_SectorSize_def rd16_def ac_simps)
  ultimately show ?thesis using assms(1) by (simp add: file12_def)
qed

lemma area_apart:
  assumes "\<forall>x\<in>fat_area v DirEnt. \<not> within x b n" "n < 2 ^ 32" "SizeOfFatLoaded v < - 1"
  shows "buffer_apart v DirEnt b n"
  using assms by (auto simp: buffer_apart_def fat_area_def)

interpretation fat: clustered_file "fat_read raw exc v DirEnt" "ClusterSize v" "file_bytes content cs (ClusterSize v)" "length cs"
  "fat_ready raw v DirEnt cs content" "fat_area v DirEnt" "R \<inter> pool (fat_area v DirEnt)"
  for raw exc v DirEnt content cs R
proof
  show "R \<inter> pool (fat_area v DirEnt) \<subseteq> pool (fat_area v DirEnt)" by blast
next
  fix m d cl b
  assume r: "fat_ready raw v DirEnt cs content m d" and ap: "\<forall>x\<in>fat_area v DirEnt. \<not> within x b (unat (ClusterSize v))"
  define C where "C = unat (ClusterSize v)"
  have C: "C < 2 ^ 32" "0 < C" "ClusterSize v \<noteq> 0"
    using unsigned_less [of "ClusterSize v", where 'a = nat] r by (simp_all add: C_def fat_ready_def file12_def unat_gt_0)
  have f: "file12 raw m v DirEnt cs content" using r by (simp add: fat_ready_def)
  have b: "buffer_apart v DirEnt b (unat (ClusterSize v))"
    by (rule area_apart [OF ap]) (use C r in \<open>simp_all add: C_def fat_ready_def\<close>)
  show "\<exists>m'. fat_read raw exc v DirEnt cl b (ClusterSize v) m d = Inr (STATUS_SUCCESS, m', d) \<and>
      (\<forall>x. m' x = (if within x b (unat (ClusterSize v)) then file_bytes content cs (ClusterSize v) (unat cl * unat (ClusterSize v) + unat (x - b)) else m x))"
    if cl: "unat cl < length cs"
  proof -
    define bs where "bs = content (cs ! unat cl)"
    have len: "length bs = C" using f cl by (simp add: file12_def bs_def C_def)
    have st: "store_bytes m b bs x = (if within x b C then bs ! unat (x - b) else m x)" for x
    proof (cases "within x b C")
      case True
      then have "x = b + of_nat (unat (x - b))" "unat (x - b) < length bs" using len by (simp_all add: within_def)
      then show ?thesis using True store_bytes_cells [of bs m b] C(1) len cells_nth by metis
    qed (use store_bytes_other [of x b bs m] len C(1) in simp)
    have "file_bytes content cs (ClusterSize v) (unat cl * C + k) = bs ! k" if "k < C" for k
      using that C(2) by (simp add: file_bytes_def bs_def C_def [symmetric])
    then show ?thesis
      using PerformRead_file12(1) [OF f b C(3) cl, of exc] st
      by (intro exI [of _ "store_bytes m b bs"]) (auto simp: fat_read_def bs_def [symmetric] C_def [symmetric] within_def)
  qed
  show "fat_read raw exc v DirEnt cl b (ClusterSize v) m d = Inr (STATUS_END_OF_FILE, m, d)" if "\<not> unat cl < length cs"
    using PerformRead_file12(2) [OF f b C(3) that, of exc] by (simp add: fat_read_def)
next
  fix m d m' assume "fat_ready raw v DirEnt cs content m d" "\<forall>x\<in>fat_area v DirEnt. m' x = m x"
  then show "fat_ready raw v DirEnt cs content m' d" by (auto simp: fat_ready_def intro: file12_same)
qed

subsection \<open>Read requests\<close>

definition IRP_FLAGS_NEITHER_IO :: u32 where "IRP_FLAGS_NEITHER_IO = 8"

text \<open>
  \<open>FsFatRead\<close>: the IRP, the file and the cache of the file. \<open>None\<close> is a request that was passed down, \<open>Some\<close> holds
  what the IRP is completed with. \<open>Read\<close> starts as 0.
\<close>

definition FsFatRead ::
    "bool \<Rightarrow> 'd callback \<Rightarrow> 'd callback \<Rightarrow> irp \<Rightarrow> file_object \<Rightarrow> 'd cc \<Rightarrow> ((status \<times> u32) option \<times> 'd cc) cc_result" where
  "FsFatRead is_fsd rd wr i f s =
     (if is_fsd then Inr (Some (STATUS_INVALID_FUNCTION, 0), s)
      else if RelativeFileName f = [] then Inr (None, s)
      else
        and_then
          (if IrpFlags i AND IRP_FLAGS_BUFFERED_IO \<noteq> 0 then Inr (SystemBuffer i)
           else if IrpFlags i AND IRP_FLAGS_NEITHER_IO \<noteq> 0 then Inr (UserBuffer i) else Inl CcNotInitialised) (\<lambda>Buffer.
        and_then
          (case IrpStackLocations i ! CurrentStackLocation i of
             Some sl \<Rightarrow> (case Parameters sl of
                 ReadWriteParams OffsetSpecified Off \<Rightarrow> Inr (if OffsetSpecified then LowPart Off else LowPart (CurrentOffset f))
               | _ \<Rightarrow> Inl CcNotInitialised)
           | None \<Rightarrow> Inl CcNotInitialised) (\<lambda>Offset.
        and_then (CcCacheReadFile rd wr Offset Buffer (BufferLength i) 0 s) (\<lambda>(st, Read, s1). Inr (Some (st, Read), s1)))))"

text \<open>A request for \<open>Size\<close> bytes from \<open>Offset\<close> on.\<close>

definition reads_at :: "irp \<Rightarrow> file_object \<Rightarrow> u32 \<Rightarrow> u32 \<Rightarrow> bool" where
  "reads_at i f Offset B \<longleftrightarrow> RelativeFileName f \<noteq> [] \<and>
     (IrpFlags i AND IRP_FLAGS_BUFFERED_IO \<noteq> 0 \<and> B = SystemBuffer i \<or>
      IrpFlags i AND IRP_FLAGS_BUFFERED_IO = 0 \<and> IrpFlags i AND IRP_FLAGS_NEITHER_IO \<noteq> 0 \<and> B = UserBuffer i) \<and>
     (\<exists>sl spec off. IrpStackLocations i ! CurrentStackLocation i = Some sl \<and> Parameters sl = ReadWriteParams spec off \<and>
        Offset = (if spec then LowPart off else LowPart (CurrentOffset f)))"

lemma FsFatRead_cached:
  "reads_at i f Offset B \<Longrightarrow> FsFatRead False rd wr i f s =
     and_then (CcCacheReadFile rd wr Offset B (BufferLength i) 0 s) (\<lambda>(st, Read, s1). Inr (Some (st, Read), s1))"
  by (auto simp: reads_at_def FsFatRead_def)

text \<open>C20: A read request within a file of a FAT12 volume, after any history of reads through the cache of the file,
  delivers exactly the bytes of the file: the content of its clusters, in the order of its chain; a request within one
  page also reports its size. (A longer request can report less, see \<open>cross_page_read_reports_tail\<close>.) The clusters have at least 32
  and less than \<open>PAGE_SIZE\<close> bytes, the device reads every cluster of the file, and the request is smaller than 20 pages.
  The only other outcome is then the NULL page that the code uses when the allocator refuses a page although at most 20 pages more
  than at the request are in use. \<open>R\<close> are the pages the allocator can hand out; the buffers keep clear of them, of the loaded table and of the directory entry.\<close>

theorem cached_fat_read:
  assumes i: "CcInitializeFileCaching (ClusterSize v) True False s0 = Inr (STATUS_SUCCESS, s1)" "32 \<le> ClusterSize v" "ClusterSize v < PAGE_SIZE"
    and s0: "alloc_ok s0" "FileMap s0 = None" "R \<subseteq> pool (fat_area v DirEnt)" "Pages s0 \<subseteq> R" "\<forall>n A. PageAlloc s0 n A = 0 \<or> PageAlloc s0 n A \<in> R"
    and f: "file12 raw (CcMem s0) v DirEnt cs content" "SizeOfFatLoaded v < - 1" "length cs * unat (ClusterSize v) \<le> 2 ^ 32"
    and run: "read_run (fat_read raw exc v DirEnt) (fat_area v DirEnt) R (length cs * unat (ClusterSize v)) s1 s2"
    and q: "reads_at irp fo Offset B" "unat Offset + unat (BufferLength irp) \<le> length cs * unat (ClusterSize v)" "unat (BufferLength irp) < 81920"
      "buffer_ok (fat_area v DirEnt) R B (unat (BufferLength irp))"
  shows "FsFatRead False (fat_read raw exc v DirEnt) wr irp fo s2 = Inl CcNull \<and> (\<exists>n A. Pages s2 \<subseteq> A \<and> A \<subseteq> R \<and> card A \<le> card (Pages s2) + 20 \<and> PageAlloc s2 n A = 0) \<or>
    (\<exists>st Read s3. FsFatRead False (fat_read raw exc v DirEnt) wr irp fo s2 = Inr (Some (st, Read), s3) \<and> SUCCESS st \<and>
      (unat (page_offset Offset) + unat (BufferLength irp) \<le> 4096 \<longrightarrow> Read = BufferLength irp) \<and>
      (\<forall>k<unat (BufferLength irp). CcMem s3 (B + of_nat k) = file_bytes content cs (ClusterSize v) (unat Offset + k)))"
proof -
  have "fat_ready raw v DirEnt cs content (CcMem s0) (CcDev s0)" using f by (simp add: fat_ready_def)
  then have g: "cache_good (file_bytes content cs (ClusterSize v)) (length cs * unat (ClusterSize v)) (ClusterSize v)
      (fat_ready raw v DirEnt cs content) R False (Pages s0) (HeapBlocks s0) s1"
    by (rule init_good [OF i s0(1,2,4,5)])
  have R: "R \<inter> pool (fat_area v DirEnt) = R" using s0(3) by blast
  note one = one_page_count [of "fat_read raw exc v DirEnt" wr Offset B "BufferLength irp" s2]
  note d = fat.run_pages [where R = R and v = v and DirEnt = DirEnt, unfolded fat.fsize_def R, OF run g f(3) q(2-4), of wr 0]
  then show ?thesis unfolding FsFatRead_cached [OF q(1)]
  proof (elim disjE conjE exE, goal_cases)
    case 1
    then show ?case by simp blast
  next
    case (2 st k' s3)
    then show ?case using one [of st k' s3] by simp
  qed
qed

subsection \<open>The demonstration file\<close>

definition demo_pool :: "u32 list" where
  "demo_pool = map (\<lambda>k. of_nat ((k + 1) * 65536)) [0..<64]"

definition demo_pages :: "nat \<Rightarrow> u32 set \<Rightarrow> u32" where
  "demo_pages n A = (case List.find (\<lambda>p. p \<notin> A) demo_pool of None \<Rightarrow> 0 | Some p \<Rightarrow> p)"

definition demo_cc0 :: "unit cc" where
  "demo_cc0 = \<lparr>FileMap = None, ReadThrough = False, WriteThrough = False, DesiredAccess = 0, CcMem = demo_mem, CcDev = (),
     HeapAlloc = ex_alloc, HeapAllocs = 0, HeapBlocks = {}, PageAlloc = demo_pages, PageAllocs = 0, Pages = {}\<rparr>"

definition demo_cc :: "unit cc" where
  "demo_cc = snd (projr (CcInitializeFileCaching 512 True False demo_cc0))"

text \<open>1000 bytes from offset 300 on.\<close>

definition demo_irp :: irp where
  "demo_irp = \<lparr>IrpSize = 0, IrpFlags = 2, MajorFunction = 0, MinorFunction = 0, SystemBuffer = 0x5000, UserBuffer = 0, BufferLength = 1000, IoStatus = 0,
     Information = 0, UserIosb = 0, UserMode = False, CallerThread = 0, FileObject = 0, UserEvent = 0, IrpStackSize = 1, CurrentLocation = 0,
     CurrentStackLocation = 0, IrpStackLocations = [Some \<lparr>SlDevice = 0, Parameters = ReadWriteParams True \<lparr>QuadPart = 0, LowPart = 300\<rparr>\<rparr>]\<rparr>"

definition demo_fo :: file_object where
  "demo_fo = \<lparr>DesiredAccess = 0, ReadAccess = True, WriteAccess = False, DeleteAccess = False, ReadThrough = False, WriteThrough = False,
     RelativeFileName = [0x41], CurrentOffset = \<lparr>QuadPart = 0, LowPart = 0\<rparr>, FinalStatus = 0\<rparr>"

lemma demo_page:
  assumes "p \<in> set demo_pool"
  shows "unat p mod 4096 = 0 \<and> 16 \<le> unat p div 4096"
proof -
  obtain k where k: "k < 64" "p = of_nat ((k + 1) * 65536)" using assms by (auto simp: demo_pool_def)
  then have "unat p = (k + 1) * 65536" using unat_small [of "(k + 1) * 65536"] by (simp only:) simp
  then show ?thesis by simp
qed

lemma demo_page_high: "p \<in> set demo_pool \<Longrightarrow> within x p 4096 \<Longrightarrow> 65536 \<le> unat x"
proof -
  assume "p \<in> set demo_pool" "within x p 4096"
  then have "16 \<le> unat x div 4096" using demo_page [of p] page_in [of p x] by simp
  then show ?thesis by simp
qed

lemma demo_pages_fresh: "demo_pages n A = 0 \<or> demo_pages n A \<in> set demo_pool \<and> demo_pages n A \<notin> A"
  by (auto simp: demo_pages_def find_Some_iff split: option.splits)

lemma demo_pages_full: "demo_pages n A = 0 \<Longrightarrow> set demo_pool \<subseteq> A"
proof
  fix p assume z: "demo_pages n A = 0" and p: "p \<in> set demo_pool"
  show "p \<in> A"
  proof (cases "List.find (\<lambda>p. p \<notin> A) demo_pool")
    case None
    then show ?thesis using p by (auto simp: find_None_iff)
  next
    case (Some q)
    moreover have "q = 0" using z Some by (simp add: demo_pages_def)
    ultimately have "0 \<in> set demo_pool" by (auto simp: find_Some_iff in_set_conv_nth)
    then show ?thesis using demo_page [of 0] by simp
  qed
qed

lemma demo_pool_card: "card (set demo_pool) = 64"
proof -
  have "distinct demo_pool" unfolding demo_pool_def distinct_map
  proof (intro conjI inj_onI)
    fix x y assume "x \<in> set [0..<64]" "y \<in> set [0..<64]" "of_nat ((x + 1) * 65536) = (of_nat ((y + 1) * 65536) :: u32)"
    then have "unat (of_nat ((x + 1) * 65536) :: u32) = unat (of_nat ((y + 1) * 65536) :: u32)" "x < 64" "y < 64" by simp_all
    then have "(x + 1) * 65536 = (y + 1) * 65536" using unat_small [of "(x + 1) * 65536"] unat_small [of "(y + 1) * 65536"] by simp
    then show "x = y" by simp
  qed simp
  then have "card (set demo_pool) = length demo_pool" by (rule distinct_card)
  then show ?thesis by (simp add: demo_pool_def)
qed

lemma demo_low: "x \<in> fat_area demo_vcb 0x8FE6 \<Longrightarrow> unat x < 65536 \<and> \<not> (0x5000 \<le> unat x \<and> unat x < 0x6000)"
proof -
  assume "x \<in> fat_area demo_vcb 0x8FE6"
  then consider i where "x = 0x100 + of_nat i" "i \<le> 0x1200" | i where "x = 0x8FE6 + of_nat i" "i < 32" | i where "x = 0x1000 + of_nat i" "i < 16"
    by (auto simp: fat_area_def demo_vcb_def)
  then show ?thesis
  proof cases
    case 1
    then have "unat x = 0x100 + i" using unat_small [of "0x100 + i"] by simp
    then show ?thesis using 1(2) by simp
  next
    case 2
    then have "unat x = 0x8FE6 + i" using unat_small [of "0x8FE6 + i"] by simp
    then show ?thesis using 2(2) by simp
  next
    case 3
    then have "unat x = 0x1000 + i" using unat_small [of "0x1000 + i"] by simp
    then show ?thesis using 3(2) by simp
  qed
qed

lemma demo_pool_ok: "set demo_pool \<subseteq> pool (fat_area demo_vcb 0x8FE6)"
  using demo_page demo_page_high demo_low by (fastforce simp: pool_def)

lemma demo_buffer: "buffer_ok (fat_area demo_vcb 0x8FE6) (set demo_pool) 0x5000 1000"
proof -
  have "0x5000 \<le> unat x \<and> unat x < 0x6000" if "within x 0x5000 1000" for x
    using that by (auto simp: within_iff word_le_nat_alt split: if_splits)
  then show ?thesis using demo_low demo_page_high by (fastforce simp: buffer_ok_def)
qed

lemma demo_init: "CcInitializeFileCaching (ClusterSize demo_vcb) True False demo_cc0 = Inr (STATUS_SUCCESS, demo_cc)"
proof -
  have "case CcInitializeFileCaching 512 True False demo_cc0 of Inr (st, s) \<Rightarrow> st = STATUS_SUCCESS | Inl _ \<Rightarrow> False" by code_simp
  then show ?thesis by (auto simp: demo_cc_def demo_vcb_def split: sum.splits)
qed

definition ex_none :: "'d callback" where "ex_none cl buf n m d = Inl CallbackStops"

theorem cached_fat_read_witness:
  "\<exists>st s. FsFatRead False (fat_read demo_raw 0 demo_vcb 0x8FE6) ex_none demo_irp demo_fo demo_cc = Inr (Some (st, 1000), s) \<and>
     SUCCESS st \<and> (\<forall>k<1000. CcMem s (0x5000 + of_nat k) = 7)"
proof -
  have a: "alloc_ok demo_cc0" using demo_pages_fresh by (auto simp: alloc_ok_def demo_cc0_def ex_alloc_def Let_def)
  have p: "Pages demo_cc = {}" "PageAlloc demo_cc = demo_pages"
    using init_success [OF demo_init] by (simp_all add: demo_cc0_def demo_vcb_def PAGE_SIZE_def)
  have full: "\<not> (card A \<le> 20 \<and> demo_pages n A = 0)" for n and A :: "u32 set"
    using demo_pages_full [of n A] card_mono [OF finite, of "set demo_pool" A] demo_pool_card by auto
  have q: "reads_at demo_irp demo_fo 300 0x5000"
    by (auto simp: reads_at_def demo_irp_def demo_fo_def IRP_FLAGS_BUFFERED_IO_def)
  have bytes: "file_bytes (\<lambda>c. replicate 512 7) [2, 3, 5] (ClusterSize demo_vcb) k = 7" for k
    by (simp add: file_bytes_def demo_vcb_def)
  have len: "BufferLength demo_irp = 1000" by (simp add: demo_irp_def)
  have "FsFatRead False (fat_read demo_raw 0 demo_vcb 0x8FE6) ex_none demo_irp demo_fo demo_cc = Inl CcNull \<and>
      (\<exists>n A. Pages demo_cc \<subseteq> A \<and> A \<subseteq> set demo_pool \<and> card A \<le> card (Pages demo_cc) + 20 \<and> PageAlloc demo_cc n A = 0) \<or>
    (\<exists>st Read s3. FsFatRead False (fat_read demo_raw 0 demo_vcb 0x8FE6) ex_none demo_irp demo_fo demo_cc = Inr (Some (st, Read), s3) \<and> SUCCESS st \<and>
      (unat (page_offset 300) + unat (BufferLength demo_irp) \<le> 4096 \<longrightarrow> Read = BufferLength demo_irp) \<and>
      (\<forall>k<unat (BufferLength demo_irp). CcMem s3 (0x5000 + of_nat k) = file_bytes (\<lambda>c. replicate 512 7) [2, 3, 5] (ClusterSize demo_vcb) (unat (300 :: u32) + k)))"
  proof (rule cached_fat_read [OF demo_init _ _ a _ demo_pool_ok _ _ _ _ _ no_reads q])
    show "\<forall>n A. PageAlloc demo_cc0 n A = 0 \<or> PageAlloc demo_cc0 n A \<in> set demo_pool" using demo_pages_fresh by (auto simp: demo_cc0_def)
    show "file12 demo_raw (CcMem demo_cc0) demo_vcb 0x8FE6 [2, 3, 5] (\<lambda>c. replicate 512 7)" using demo_file12 by (simp add: demo_cc0_def)
    show "buffer_ok (fat_area demo_vcb 0x8FE6) (set demo_pool) 0x5000 (unat (BufferLength demo_irp))" using demo_buffer by (simp add: len)
  qed (simp_all add: demo_vcb_def demo_cc0_def PAGE_SIZE_def len)
  moreover have "unat (page_offset 300) + 1000 \<le> 4096" by (simp add: page_offset_def PAGE_SIZE_def)
  ultimately show ?thesis using p full bytes by (auto simp: len)
qed

end
