(* ===== verification/Mm.thy ===== *)
theory Mm
  imports Prelude "HOL-Library.Monad_Syntax"
begin

text \<open>
  The memory manager (\<^verbatim>\<open>kernel/mm.cpp\<close>, \<^verbatim>\<open>kernel/inc/mm.h\<close>): page table entries, physical page
  descriptors (PPDs) and their lists, working set, memory descriptors (MMDs), trimming, page faults and
  views of files. Page tables and descriptors are memories of their own, addressed as the code addresses
  them; the page table entries are the raw words, with the bit fields of \<open>MMPTE\<close>. A store that misses the
  arrays that the model has is kept in \<open>WildWrites\<close>. \<open>LockTrace\<close> has what a call did to the mutexes. What the
  heap gives, and the objects that handles stand for (\<open>MapHandle\<close>, \<open>GoingAway\<close>), are arguments. \<open>Inl\<close> ends the run: an assertion, a bugcheck, a mutex that the caller holds, a
  NULL pointer.
\<close>

subsection \<open>Bit fields\<close>

definition get_field :: "nat \<Rightarrow> nat \<Rightarrow> u32 \<Rightarrow> u32" where
  "get_field lo n w = take_bit n (drop_bit lo w)"

definition set_field :: "nat \<Rightarrow> nat \<Rightarrow> u32 \<Rightarrow> u32 \<Rightarrow> u32" where
  "set_field lo n v w = (w AND NOT (push_bit lo (mask n))) OR push_bit lo (take_bit n v)"

lemma bit_set_field:
  "i < 32 \<Longrightarrow> bit (set_field lo n v w) i \<longleftrightarrow> (if lo \<le> i \<and> i < lo + n then bit v (i - lo) else bit w i)"
  by (auto simp: set_field_def bit_simps)

lemma bit_get_field: "bit (get_field lo n w) i \<longleftrightarrow> i < n \<and> bit w (lo + i)"
  by (auto simp: get_field_def bit_simps)

lemma get_set_field [simp]: "lo + n \<le> 32 \<Longrightarrow> get_field lo n (set_field lo n v w) = take_bit n v"
  by (rule bit_word_eqI) (auto simp: bit_get_field bit_set_field bit_take_bit_iff)

lemma get_set_other [simp]:
  "lo + n \<le> lo' \<or> lo' + n' \<le> lo \<Longrightarrow> get_field lo' n' (set_field lo n v w) = get_field lo' n' w"
proof (rule bit_word_eqI)
  fix i assume a: "lo + n \<le> lo' \<or> lo' + n' \<le> lo" and "i < LENGTH(32)"
  show "bit (get_field lo' n' (set_field lo n v w)) i = bit (get_field lo' n' w) i"
    using a bit_set_field [of "lo' + i" lo n v w] bit_u32_lt [of w "lo' + i"]
      bit_u32_lt [of "set_field lo n v w" "lo' + i"]
    by (auto simp: bit_get_field)
qed

subsection \<open>Page table entries\<close>

definition Valid :: "u32 \<Rightarrow> u32" where "Valid = get_field 0 1"
definition Write :: "u32 \<Rightarrow> u32" where "Write = get_field 1 1"
definition Dirty :: "u32 \<Rightarrow> u32" where "Dirty = get_field 6 1"
definition PteType :: "u32 \<Rightarrow> u32" where "PteType = get_field 9 2"
definition PageFrameNumber :: "u32 \<Rightarrow> u32" where "PageFrameNumber = get_field 12 20"
definition PteProtection :: "u32 \<Rightarrow> u32" where "PteProtection = get_field 1 3"
definition FileDescriptorNumber :: "u32 \<Rightarrow> u32" where "FileDescriptorNumber = get_field 12 16"

definition set_Valid :: "u32 \<Rightarrow> u32 \<Rightarrow> u32" where "set_Valid = set_field 0 1"
definition set_Write :: "u32 \<Rightarrow> u32 \<Rightarrow> u32" where "set_Write = set_field 1 1"
definition set_Owner :: "u32 \<Rightarrow> u32 \<Rightarrow> u32" where "set_Owner = set_field 2 1"
definition set_Accessed :: "u32 \<Rightarrow> u32 \<Rightarrow> u32" where "set_Accessed = set_field 5 1"
definition set_Dirty :: "u32 \<Rightarrow> u32 \<Rightarrow> u32" where "set_Dirty = set_field 6 1"
definition set_PteType :: "u32 \<Rightarrow> u32 \<Rightarrow> u32" where "set_PteType = set_field 9 2"
definition set_PageFrameNumber :: "u32 \<Rightarrow> u32 \<Rightarrow> u32" where "set_PageFrameNumber = set_field 12 20"
definition set_PteProtection :: "u32 \<Rightarrow> u32 \<Rightarrow> u32" where "set_PteProtection = set_field 1 3"
definition set_FileDescriptorNumber :: "u32 \<Rightarrow> u32 \<Rightarrow> u32" where "set_FileDescriptorNumber = set_field 12 16"

lemmas pte_fields = Valid_def Write_def Dirty_def PteType_def PageFrameNumber_def PteProtection_def FileDescriptorNumber_def
  set_Valid_def set_Write_def set_Owner_def set_Accessed_def set_Dirty_def set_PteType_def set_PageFrameNumber_def
  set_PteProtection_def set_FileDescriptorNumber_def

definition PTE_TYPE_NORMAL_OR_NOTMAPPED :: u32 where "PTE_TYPE_NORMAL_OR_NOTMAPPED = 0"
definition PTE_TYPE_PAGEDOUT :: u32 where "PTE_TYPE_PAGEDOUT = 1"
definition PTE_TYPE_TRIMMED :: u32 where "PTE_TYPE_TRIMMED = 2"
definition PTE_TYPE_VIEW :: u32 where "PTE_TYPE_VIEW = 3"

lemmas pte_types = PTE_TYPE_NORMAL_OR_NOTMAPPED_def PTE_TYPE_PAGEDOUT_def PTE_TYPE_TRIMMED_def PTE_TYPE_VIEW_def

definition MM_NOACCESS :: u32 where "MM_NOACCESS = 0"
definition MM_READONLY :: u32 where "MM_READONLY = 1"
definition MM_READWRITE :: u32 where "MM_READWRITE = 3"
definition MM_EXECUTE_READWRITE :: u32 where "MM_EXECUTE_READWRITE = 4"
definition MM_MAXIMUM_PROTECTION :: u32 where "MM_MAXIMUM_PROTECTION = 7"

lemmas mm_protections = MM_NOACCESS_def MM_READONLY_def MM_READWRITE_def MM_EXECUTE_READWRITE_def MM_MAXIMUM_PROTECTION_def

definition MM_PDE_START :: u32 where "MM_PDE_START = 0xC0000000"
definition MM_PPD_START :: u32 where "MM_PPD_START = 0xC8000000"
definition MM_PPD_START_PHYS :: u32 where "MM_PPD_START_PHYS = 0x01000000"
definition MM_CRITICAL_DRIVER_AREA :: u32 where "MM_CRITICAL_DRIVER_AREA = 0x80300000"
definition MM_CRITICAL_DRIVER_AREA_END :: u32 where "MM_CRITICAL_DRIVER_AREA_END = 0xBFFFFFFF"
definition MM_DRIVER_AREA :: u32 where "MM_DRIVER_AREA = 0xD4000000"
definition MM_DRIVER_AREA_END :: u32 where "MM_DRIVER_AREA_END = 0xFEFFFFFF"
definition MM_CRITICAL_AREA :: u32 where "MM_CRITICAL_AREA = 0xFF000000"
definition MM_CRITICAL_AREA_END :: u32 where "MM_CRITICAL_AREA_END = 0xFFFFDFFF"
definition MM_HYPERSPACE_START :: u32 where "MM_HYPERSPACE_START = 0xFFFFE000"
definition MM_USERMODE_AREA :: u32 where "MM_USERMODE_AREA = 0x00010000"
definition MM_USERMODE_AREA_END :: u32 where "MM_USERMODE_AREA_END = 0x7FFFF000"

lemmas mm_areas = MM_PDE_START_def MM_PPD_START_def MM_PPD_START_PHYS_def MM_CRITICAL_DRIVER_AREA_def MM_CRITICAL_DRIVER_AREA_END_def
  MM_DRIVER_AREA_def MM_DRIVER_AREA_END_def MM_CRITICAL_AREA_def MM_CRITICAL_AREA_END_def MM_HYPERSPACE_START_def
  MM_USERMODE_AREA_def MM_USERMODE_AREA_END_def

definition PAGE_SHIFT :: nat where "PAGE_SHIFT = 12"

definition MiGetPteAddress :: "u32 \<Rightarrow> u32" where
  "MiGetPteAddress va = MM_PDE_START + PAGE_SIZE + push_bit 12 (drop_bit 22 va) + (drop_bit 10 va AND 0xFFC)"

definition MiNextPte :: "u32 \<Rightarrow> u32" where "MiNextPte p = p + 4"

subsection \<open>Page descriptors\<close>

datatype page_location = ZeroedPageList | FreePageList | ModifiedPageList | StandbyPageList | ActiveAndValid | TransitionPage | ReservedOrBadPage

fun location_code :: "page_location \<Rightarrow> nat" where
  "location_code ZeroedPageList = 0"
| "location_code FreePageList = 1"
| "location_code ModifiedPageList = 2"
| "location_code StandbyPageList = 3"
| "location_code ActiveAndValid = 4"
| "location_code TransitionPage = 5"
| "location_code ReservedOrBadPage = 6"

text \<open>The code compares locations as the numbers of the enumeration.\<close>

instantiation page_location :: linorder
begin
definition "l \<le> l' \<longleftrightarrow> location_code l \<le> location_code l'"
definition "l < l' \<longleftrightarrow> location_code l < location_code l'"
instance
proof
  fix x y z :: page_location
  show "x < y \<longleftrightarrow> x \<le> y \<and> \<not> y \<le> x" by (auto simp: less_eq_page_location_def less_page_location_def)
  show "x \<le> x" "x \<le> y \<Longrightarrow> y \<le> z \<Longrightarrow> x \<le> z" "x \<le> y \<or> y \<le> x" by (auto simp: less_eq_page_location_def)
  show "x \<le> y \<Longrightarrow> y \<le> x \<Longrightarrow> x = y" by (cases x; cases y) (simp_all add: less_eq_page_location_def)
qed
end

lemma listed_iff: "l < ActiveAndValid \<longleftrightarrow> l \<in> {ZeroedPageList, FreePageList, ModifiedPageList, StandbyPageList}"
  by (cases l) (simp_all add: less_page_location_def)

lemma listed_simps [simp]:
  "ZeroedPageList < ActiveAndValid" "FreePageList < ActiveAndValid" "ModifiedPageList < ActiveAndValid"
  "StandbyPageList < ActiveAndValid" "\<not> TransitionPage < ActiveAndValid" "\<not> ReservedOrBadPage < ActiveAndValid"
  by (simp_all add: less_page_location_def)

text \<open>\<open>U1\<close> and \<open>U2\<close> are the two unions, as the words that they hold.\<close>

record ppd =
  U1 :: u32
  U2 :: u32
  PageLocation :: page_location
  BelongsToSystemWorkingSet :: bool
  PpdModified :: bool
  ProcessorMode :: "2 word"
  ShareCount :: "5 word"

record ws_entry =
  PageDescriptor :: u32
  Present :: bool
  LockedInWs :: bool

text \<open>\<open>WsEntries\<close> is the array at \<open>WsPages\<close>.\<close>

record working_set =
  TotalPageCount :: u32
  WsPages :: u32
  WsEntries :: "ws_entry list"

text \<open>\<open>PfnList\<close> is the array of \<open>PageCount\<close> page frame numbers.\<close>

record mmd =
  Flags :: u32
  BaseVirtual :: u32
  MappedVirtual :: u32
  Offset :: u32
  PfnList :: "u32 list"

text \<open>
  Mapped files and their views. \<open>CacheMap\<close> is the cache map of the file, if it has one: for each entry,
  whether it is cached, the page number and the buffer.
\<close>

record mapped_view =
  StartOffsetInFile :: "u32 \<times> u32"
  ViewSize :: u32
  StartVa :: u32
  StartPte :: u32
  hMapping :: u32
  ViewProtection :: u8

record mapped_file =
  TargetMode :: u32
  StrongestProtection :: u8
  ViewList :: "mapped_view list"
  CacheMap :: "(bool \<times> u32 \<times> u32) list option"

definition MDL_ALLOCATED :: u32 where "MDL_ALLOCATED = 1"
definition MDL_LOCKED :: u32 where "MDL_LOCKED = 2"
definition MDL_MAPPED :: u32 where "MDL_MAPPED = 4"

lemmas mdl_flags = MDL_ALLOCATED_def MDL_LOCKED_def MDL_MAPPED_def

text \<open>
  \<open>Frames\<close> has the bytes of the page frames. The processor keeps translations in \<open>Tlb\<close> until the code
  invalidates them. \<open>LockTrace\<close> has the latest event first.
\<close>

datatype mm_lock = PageDatabaseLock | PpdLock | WorkingSetLock | ViewListLock u32 | CacheMapLock u32

datatype lock_event = Acquired mm_lock | Released mm_lock

record mm =
  Ptes :: "u32 \<Rightarrow> u32"
  Ppds :: "u32 \<Rightarrow> ppd"
  PageLists :: "page_location \<Rightarrow> u32"
  PhysicalMemoryPages :: u32
  MmPpdDatabase :: u32
  WorkingSet :: working_set
  Mmds :: "u32 \<Rightarrow> mmd option"
  HeapAlloc :: "nat \<Rightarrow> u32 set \<Rightarrow> u32"
  HeapAllocs :: nat
  HeapBlocks :: "u32 set"
  Frames :: "u32 \<Rightarrow> u32 \<Rightarrow> u8"
  Tlb :: "u32 \<Rightarrow> u32 option"
  WildWrites :: "u32 list"
  MapHandle :: "u32 \<Rightarrow> status \<times> u32"
  GoingAway :: "u32 \<Rightarrow> bool"
  MappedFiles :: "u32 \<Rightarrow> mapped_file option"
  LockTrace :: "lock_event list"

datatype mm_stop = MmAsserts | MmBugCheck bugcheck | MmRaises status | MmWaits mm_lock | MmNull | MmBadFree u32 | MmNeverEnds | MmBreaks

type_synonym 'a mm_result = "mm_stop + 'a"

text \<open>\<open>ASSERT\<close> of a build with \<open>DBG\<close>.\<close>

definition ASSERT :: "bool \<Rightarrow> 'a \<Rightarrow> 'a mm_result" where
  "ASSERT b x = (if b then Inr x else Inl MmAsserts)"

lemma ASSERT_Inr [simp]: "ASSERT b x = Inr y \<longleftrightarrow> b \<and> x = y"
  by (simp add: ASSERT_def)

subsection \<open>Locks, heap, translations\<close>

fun held :: "lock_event list \<Rightarrow> mm_lock set" where
  "held [] = {}"
| "held (Acquired l # tr) = insert l (held tr)"
| "held (Released l # tr) = held tr - {l}"

definition acquire :: "mm_lock \<Rightarrow> mm \<Rightarrow> mm mm_result" where
  "acquire l s = (if l \<in> held (LockTrace s) then Inl (MmWaits l) else Inr (s\<lparr>LockTrace := Acquired l # LockTrace s\<rparr>))"

definition release :: "mm_lock \<Rightarrow> mm \<Rightarrow> mm" where
  "release l s = s\<lparr>LockTrace := Released l # LockTrace s\<rparr>"

definition heap_alloc :: "mm \<Rightarrow> u32 \<times> mm" where
  "heap_alloc s = (let p = HeapAlloc s (HeapAllocs s) (HeapBlocks s) in
     (p, s\<lparr>HeapAllocs := HeapAllocs s + 1, HeapBlocks := (if p = 0 then HeapBlocks s else insert p (HeapBlocks s))\<rparr>))"

definition heap_free :: "u32 \<Rightarrow> mm \<Rightarrow> mm mm_result" where
  "heap_free p s = (if p \<in> HeapBlocks s then Inr (s\<lparr>HeapBlocks := HeapBlocks s - {p}\<rparr>) else Inl (MmBadFree p))"

text \<open>\<open>ExReallocHeap\<close>: the block stays where it is, or a new one is found and the old one is given back, or there is
  none; the allocator may answer the old address.\<close>

definition heap_realloc :: "u32 \<Rightarrow> mm \<Rightarrow> u32 \<times> mm" where
  "heap_realloc old s = (let p = HeapAlloc s (HeapAllocs s) (HeapBlocks s - {old}) in
     (p, s\<lparr>HeapAllocs := HeapAllocs s + 1, HeapBlocks := (if p = 0 then HeapBlocks s else insert p (HeapBlocks s - {old}))\<rparr>))"

definition MmInvalidateTlb :: "u32 \<Rightarrow> mm \<Rightarrow> mm" where
  "MmInvalidateTlb va s = s\<lparr>Tlb := (Tlb s)(ALIGN_DOWN va PAGE_SIZE := None)\<rparr>"

text \<open>The frame that an access to a page reaches: the one that the processor remembers, or that of the entry.\<close>

definition translate :: "u32 \<Rightarrow> mm \<Rightarrow> u32" where
  "translate va s = (case Tlb s (ALIGN_DOWN va PAGE_SIZE) of Some f \<Rightarrow> f | None \<Rightarrow> PageFrameNumber (Ptes s (MiGetPteAddress va)))"

definition zero_page_at :: "u32 \<Rightarrow> mm \<Rightarrow> mm" where
  "zero_page_at va s = (let f = translate va s in
     s\<lparr>Tlb := (Tlb s)(ALIGN_DOWN va PAGE_SIZE := Some f), Frames := (Frames s)(f := (\<lambda>_. 0))\<rparr>)"

definition upd_pte :: "u32 \<Rightarrow> (u32 \<Rightarrow> u32) \<Rightarrow> mm \<Rightarrow> mm" where
  "upd_pte p f s = s\<lparr>Ptes := (Ptes s)(p := f (Ptes s p))\<rparr>"

definition MiWriteValidKernelPte :: "u32 \<Rightarrow> mm \<Rightarrow> mm" where
  "MiWriteValidKernelPte p = upd_pte p (\<lambda>_. 7)"

definition MiZeroPte :: "u32 \<Rightarrow> mm \<Rightarrow> mm" where
  "MiZeroPte p = upd_pte p (\<lambda>_. 0)"

definition MiWriteTrimmedPte :: "u32 \<Rightarrow> mm \<Rightarrow> mm" where
  "MiWriteTrimmedPte p = upd_pte p (\<lambda>w. set_PteType PTE_TYPE_TRIMMED (set_Valid 0 w))"

definition upd_ppd :: "u32 \<Rightarrow> (ppd \<Rightarrow> ppd) \<Rightarrow> mm \<Rightarrow> mm" where
  "upd_ppd p f s = s\<lparr>Ppds := (Ppds s)(p := f (Ppds s p))\<rparr>"

definition MmPfnPpd :: "mm \<Rightarrow> u32 \<Rightarrow> u32" where
  "MmPfnPpd s pfn = MmPpdDatabase s + 12 * pfn"

definition MmGetPpdPfn :: "mm \<Rightarrow> u32 \<Rightarrow> u32" where
  "MmGetPpdPfn s p = (p - MmPpdDatabase s) div 12"

definition upd_mmd :: "u32 \<Rightarrow> (mmd \<Rightarrow> mmd) \<Rightarrow> mm \<Rightarrow> mm" where
  "upd_mmd p f s = s\<lparr>Mmds := (Mmds s)(p := map_option f (Mmds s p))\<rparr>"

definition the_mmd :: "u32 \<Rightarrow> mm \<Rightarrow> mmd mm_result" where
  "the_mmd p s = (case Mmds s p of None \<Rightarrow> Inl MmNull | Some m \<Rightarrow> Inr m)"

subsection \<open>Page lists\<close>

definition MiUnlinkPpd :: "u32 \<Rightarrow> mm \<Rightarrow> mm mm_result" where
  "MiUnlinkPpd p s = and_then (ASSERT (PageLocation (Ppds s p) < ActiveAndValid) s) (\<lambda>s.
     let prev = U2 (Ppds s p); nxt = U1 (Ppds s p);
       s1 = (if prev = 0
             then let s' = s\<lparr>PageLists := (PageLists s)(PageLocation (Ppds s p) := nxt)\<rparr>
                  in if nxt \<noteq> 0 then upd_ppd nxt (\<lambda>d. d\<lparr>U2 := 0\<rparr>) s' else s'
             else s);
       s2 = (if nxt = 0 then (if prev \<noteq> 0 then upd_ppd prev (\<lambda>d. d\<lparr>U1 := 0\<rparr>) s1 else s1) else s1)
     in Inr (if prev \<noteq> 0 \<and> nxt \<noteq> 0
             then upd_ppd nxt (\<lambda>d. d\<lparr>U2 := prev\<rparr>) (upd_ppd prev (\<lambda>d. d\<lparr>U1 := nxt\<rparr>) s2)
             else s2))"

definition MiLinkPpd :: "page_location \<Rightarrow> u32 \<Rightarrow> mm \<Rightarrow> mm" where
  "MiLinkPpd l p s =
     (let h = PageLists s l;
        s1 = upd_ppd p (\<lambda>d. d\<lparr>U1 := h, U2 := 0\<rparr>) s;
        s2 = (if h \<noteq> 0 then upd_ppd h (\<lambda>d. d\<lparr>U2 := p\<rparr>) s1 else s1)
      in s2\<lparr>PageLists := (PageLists s2)(l := p)\<rparr>)"

definition MiChangePageLocation :: "u32 \<Rightarrow> page_location \<Rightarrow> mm \<Rightarrow> mm mm_result" where
  "MiChangePageLocation p new s =
     and_then (ASSERT (PageLocation (Ppds s p) \<noteq> new) s) (\<lambda>s.
     and_then (if PageLocation (Ppds s p) < ActiveAndValid then MiUnlinkPpd p s else Inr s) (\<lambda>s1.
       let s2 = (if new < ActiveAndValid then MiLinkPpd new p s1 else upd_ppd p (\<lambda>d. d\<lparr>U1 := 0, U2 := 0\<rparr>) s1)
       in Inr (upd_ppd p (\<lambda>d. d\<lparr>PageLocation := new\<rparr>) s2)))"

fun reserve_loop :: "nat \<Rightarrow> u32 \<Rightarrow> mm \<Rightarrow> mm mm_result" where
  "reserve_loop 0 i s = Inr s"
| "reserve_loop (Suc n) i s = and_then (MiChangePageLocation (MmPfnPpd s i) ReservedOrBadPage s) (reserve_loop n (i + 1))"

definition MmReservePhysicalAddressRange :: "u32 \<Rightarrow> u32 \<Rightarrow> mm \<Rightarrow> mm mm_result" where
  "MmReservePhysicalAddressRange physStart physEnd s =
     and_then (acquire PpdLock s) (\<lambda>s.
       let pageStart = drop_bit PAGE_SHIFT (ALIGN_DOWN physStart PAGE_SIZE);
           pageEnd = drop_bit PAGE_SHIFT (ALIGN_UP physEnd PAGE_SIZE)
       in and_then (reserve_loop (unat pageEnd - unat pageStart) pageStart s) (\<lambda>s. Inr (release PpdLock s)))"

subsection \<open>Physical pages\<close>

text \<open>
  The walks take the next descriptor before they move the current one. The measure of the walk is the
  number of descriptors that are not active: a walk that comes back to a page stops at the assertion.
\<close>

definition not_at :: "page_location \<Rightarrow> mm \<Rightarrow> u32 set" where
  "not_at l s = {p. PageLocation (Ppds s p) \<noteq> l}"

lemma PageLocation_upd_ppd:
  "(\<And>d. PageLocation (f d) = PageLocation d) \<Longrightarrow> PageLocation (Ppds (upd_ppd p f s) q) = PageLocation (Ppds s q)"
  by (simp add: upd_ppd_def)

lemma PageLocation_unlink: "MiUnlinkPpd p s = Inr s' \<Longrightarrow> PageLocation (Ppds s' q) = PageLocation (Ppds s q)"
  by (auto simp: MiUnlinkPpd_def and_then_Inr Let_def upd_ppd_def split: if_splits)

lemma PageLocation_link: "PageLocation (Ppds (MiLinkPpd l p s) q) = PageLocation (Ppds s q)"
  by (auto simp: MiLinkPpd_def Let_def upd_ppd_def)

lemma PageLocation_change:
  assumes "MiChangePageLocation p new s = Inr s'"
  shows "PageLocation (Ppds s p) \<noteq> new" "PageLocation (Ppds s' q) = (if q = p then new else PageLocation (Ppds s q))"
  using assms
  by (auto simp: MiChangePageLocation_def and_then_Inr Let_def PageLocation_link upd_ppd_def PageLocation_unlink split: if_splits)

lemma not_at_change:
  assumes "MiChangePageLocation p new s = Inr s'"
  shows "card (not_at new s') < card (not_at new s)"
proof -
  have "not_at new s' = not_at new s - {p}" "p \<in> not_at new s"
    using PageLocation_change [OF assms] by (auto simp: not_at_def)
  then show ?thesis by (metis card_Diff1_less finite)
qed

text \<open>\<open>alloc ++\<close> comes before the test.\<close>

function alloc_loop :: "u32 \<Rightarrow> u32 \<Rightarrow> u32 list \<Rightarrow> mm \<Rightarrow> (bool \<times> u32 list \<times> mm) mm_result" where
  "alloc_loop count p pfns s =
     (if p = 0 then Inr (False, pfns, s)
      else let nxt = U1 (Ppds s p); pfns' = pfns @ [MmGetPpdPfn s p]
           in and_then (MiChangePageLocation p ActiveAndValid s) (\<lambda>s1.
                if of_nat (length pfns') = count then Inr (True, pfns', s1)
                else alloc_loop count nxt pfns' s1))"
  by pat_completeness auto
termination by (relation "measure (\<lambda>(_, _, _, s). card (not_at ActiveAndValid s))") (auto dest: not_at_change)

declare alloc_loop.simps [simp del]

definition ALLOC_PAGE_COUNT :: "u32 \<Rightarrow> u32" where
  "ALLOC_PAGE_COUNT bytes = ALIGN_UP bytes PAGE_SIZE div PAGE_SIZE"

definition MmAllocateMmd :: "u32 \<Rightarrow> u32 \<Rightarrow> mm \<Rightarrow> (u32 \<times> mm) mm_result" where
  "MmAllocateMmd va bytes s =
     (let count = ALLOC_PAGE_COUNT bytes; (p, s1) = heap_alloc s
      in if p = 0 then Inl MmNull
         else Inr (p, s1\<lparr>Mmds := (Mmds s1)(p \<mapsto>
           \<lparr>Flags = 0, BaseVirtual = ALIGN_DOWN va PAGE_SIZE, MappedVirtual = 0, Offset = va mod PAGE_SIZE,
            PfnList = replicate (unat count) 0\<rparr>)\<rparr>))"

text \<open>The entries of an array of words at \<open>a\<close> with \<open>n\<close> entries that stores to the entries from 0 up to \<open>m\<close> miss.\<close>

definition beyond :: "u32 \<Rightarrow> nat \<Rightarrow> nat \<Rightarrow> u32 list" where
  "beyond a n m = map (\<lambda>i. a + of_nat (4 * i)) [n ..< m]"

definition MmAllocatePhysicalPages :: "u32 \<Rightarrow> mm \<Rightarrow> (status \<times> u32 \<times> mm) mm_result" where
  "MmAllocatePhysicalPages count s =
     (if PhysicalMemoryPages s < count then Inr (STATUS_INSUFFICIENT_RESOURCES, 0, s)
      else and_then (acquire PpdLock s) (\<lambda>s.
        let p = PageLists s FreePageList; (arr, s1) = heap_alloc s
        in if arr = 0 then Inr (STATUS_INSUFFICIENT_RESOURCES, 0, release PpdLock s1)
           else
             and_then (alloc_loop count p [] s1) (\<lambda>(finished, pfns, s2).
             and_then (if \<not> finished \<and> of_nat (length pfns) < count
                       then alloc_loop count (PageLists s2 ZeroedPageList) pfns s2
                       else Inr (finished, pfns, s2)) (\<lambda>(_, pfns, s3).
             let s4 = release PpdLock (s3\<lparr>WildWrites := beyond arr (unat count) (length pfns) @ WildWrites s3\<rparr>);
                 alloc = of_nat (length pfns);
                 status = (if alloc < count then STATUS_PARTIAL_COMPLETION else STATUS_SUCCESS)
             in and_then (MmAllocateMmd 0 (alloc * PAGE_SIZE) s4) (\<lambda>(m, s5).
                let n = unat (ALLOC_PAGE_COUNT (alloc * PAGE_SIZE));
                    s6 = upd_mmd m (\<lambda>d. d\<lparr>PfnList := take n pfns @ drop (length pfns) (PfnList d)\<rparr>) s5;
                    s7 = s6\<lparr>WildWrites := beyond (m + 20) n (length pfns) @ WildWrites s6\<rparr>
                in and_then (heap_free arr s7) (\<lambda>s8.
                   Inr (status, m, upd_mmd m (\<lambda>d. d\<lparr>Flags := Flags d OR MDL_ALLOCATED\<rparr>) s8)))))))"

fun free_pages_loop :: "u32 list \<Rightarrow> mm \<Rightarrow> mm mm_result" where
  "free_pages_loop [] s = Inr s"
| "free_pages_loop (pfn # pfns) s =
     and_then (MiChangePageLocation (MmPfnPpd s pfn) FreePageList s) (free_pages_loop pfns)"

definition MmFreePhysicalPages :: "u32 \<Rightarrow> mm \<Rightarrow> mm mm_result" where
  "MmFreePhysicalPages m s =
     and_then (acquire PpdLock s) (\<lambda>s.
     and_then (the_mmd m s) (\<lambda>d.
     and_then (free_pages_loop (PfnList d) s) (\<lambda>s1.
       Inr (upd_mmd m (\<lambda>d. d\<lparr>Flags := Flags d AND NOT MDL_ALLOCATED\<rparr>) (release PpdLock s1)))))"

text \<open>One round of the zero page thread.\<close>

definition MiMapPageToHyperSpace :: "u32 \<Rightarrow> mm \<Rightarrow> mm" where
  "MiMapPageToHyperSpace pfn s =
     (let p = MiGetPteAddress MM_HYPERSPACE_START
      in upd_pte p (set_PageFrameNumber pfn) (MiWriteValidKernelPte p s))"

lemma Ppds_zeroing [simp]: "Ppds (zero_page_at va (MiMapPageToHyperSpace pfn s)) = Ppds s"
  by (simp add: zero_page_at_def MiMapPageToHyperSpace_def MiWriteValidKernelPte_def upd_pte_def Let_def)

function zero_loop :: "u32 \<Rightarrow> mm \<Rightarrow> mm mm_result" where
  "zero_loop p s =
     (if p = 0 then Inr s
      else let nxt = U1 (Ppds s p);
               s1 = zero_page_at MM_HYPERSPACE_START (MiMapPageToHyperSpace (MmGetPpdPfn s p) s)
           in and_then (MiChangePageLocation p ZeroedPageList s1) (zero_loop nxt))"
  by pat_completeness auto
termination
proof (relation "measure (\<lambda>(_, s). card (not_at ZeroedPageList s))")
  fix p :: u32 and s :: mm and x xa s1
  assume "x = U1 (Ppds s p)" "xa = zero_page_at MM_HYPERSPACE_START (MiMapPageToHyperSpace (MmGetPpdPfn s p) s)"
    "MiChangePageLocation p ZeroedPageList xa = Inr s1"
  then show "((x, s1), p, s) \<in> measure (\<lambda>(_, s). card (not_at ZeroedPageList s))"
    using not_at_change [of p ZeroedPageList xa s1] by (simp add: not_at_def)
qed simp

declare zero_loop.simps [simp del]

definition zero_round :: "mm \<Rightarrow> mm mm_result" where
  "zero_round s = and_then (acquire PpdLock s) (\<lambda>s.
     and_then (zero_loop (PageLists s FreePageList) s) (\<lambda>s. Inr (release PpdLock s)))"

subsection \<open>Working set\<close>

definition MM_WORKING_SET_INCREMENT :: u32 where "MM_WORKING_SET_INCREMENT = 100"

definition zero_entry :: ws_entry where
  "zero_entry = \<lparr>PageDescriptor = 0, Present = False, LockedInWs = False\<rparr>"

fun ws_scan :: "ws_entry list \<Rightarrow> nat option" where
  "ws_scan [] = None"
| "ws_scan (e # es) = (if \<not> Present e then Some 0 else map_option Suc (ws_scan es))"

fun add_ws_loop :: "nat \<Rightarrow> u32 \<Rightarrow> mm \<Rightarrow> (u32 \<times> mm) mm_result" where
  "add_ws_loop 0 p s = Inl MmNeverEnds"
| "add_ws_loop (Suc n) p s =
     (let w = WorkingSet s
      in if WsPages w = 0 \<and> TotalPageCount w \<noteq> 0 then Inl MmNull
         else case ws_scan (WsEntries w) of
           Some i \<Rightarrow> Inr (of_nat i, s\<lparr>WorkingSet := w\<lparr>WsEntries := (WsEntries w)[i := \<lparr>PageDescriptor = p, Present = True, LockedInWs = True\<rparr>]\<rparr>\<rparr>)
         | None \<Rightarrow>
             let total = TotalPageCount w + MM_WORKING_SET_INCREMENT; (q, s1) = heap_realloc (WsPages w) s
             in if q = 0 then Inr (-1, s1\<lparr>WorkingSet := w\<lparr>TotalPageCount := total, WsPages := 0\<rparr>\<rparr>)
                else add_ws_loop n p (s1\<lparr>WorkingSet := w\<lparr>TotalPageCount := total, WsPages := q,
                       WsEntries := WsEntries w @ replicate (unat MM_WORKING_SET_INCREMENT) zero_entry\<rparr>\<rparr>))"

text \<open>After the set has grown the second scan finds an entry.\<close>

definition MiAddPageToWorkingSet :: "u32 \<Rightarrow> mm \<Rightarrow> (u32 \<times> mm) mm_result" where
  "MiAddPageToWorkingSet = add_ws_loop 2"

text \<open>A store to the bits of entry \<open>i\<close> of the array, which lie 4 bytes into the entry.\<close>

definition ws_store :: "u32 \<Rightarrow> (ws_entry \<Rightarrow> ws_entry) \<Rightarrow> mm \<Rightarrow> mm" where
  "ws_store i f s = (let w = WorkingSet s
     in if WsPages w \<noteq> 0 \<and> unat i < length (WsEntries w)
        then s\<lparr>WorkingSet := w\<lparr>WsEntries := (WsEntries w)[unat i := f (WsEntries w ! unat i)]\<rparr>\<rparr>
        else s\<lparr>WildWrites := (WsPages w + 8 * i + 4) # WildWrites s\<rparr>)"

definition MiRemovePageFromWorkingSet :: "u32 \<Rightarrow> mm \<Rightarrow> mm mm_result" where
  "MiRemovePageFromWorkingSet p s =
     and_then (ASSERT (PageLocation (Ppds s p) = ActiveAndValid) s) (\<lambda>s.
       Inr (ws_store (U1 (Ppds s p)) (\<lambda>e. e\<lparr>Present := False\<rparr>) s))"

subsection \<open>Mapping of pages\<close>

definition MEMORY_MANAGEMENT :: u32 where "MEMORY_MANAGEMENT = 0x11"

definition KernelMode :: u32 where "KernelMode = 0"
definition DriverMode :: u32 where "DriverMode = 1"
definition UserMode :: u32 where "UserMode = 3"

fun map_pages_loop :: "nat \<Rightarrow> u32 \<Rightarrow> u32 \<Rightarrow> u32 \<Rightarrow> mm \<Rightarrow> mm" where
  "map_pages_loop 0 pte va pfn s = s"
| "map_pages_loop (Suc n) pte va pfn s =
     map_pages_loop n (MiNextPte pte) (va + PAGE_SIZE) (pfn + 1)
       (MmInvalidateTlb va (upd_pte pte (set_PageFrameNumber pfn) (MiWriteValidKernelPte pte s)))"

definition MiMapPhysicalPages :: "u32 \<Rightarrow> u32 \<Rightarrow> u32 \<Rightarrow> mm \<Rightarrow> mm mm_result" where
  "MiMapPhysicalPages va phys count s =
     (let va = ALIGN_DOWN va PAGE_SIZE
      in and_then (acquire PageDatabaseLock s) (\<lambda>s.
         Inr (release PageDatabaseLock (map_pages_loop (unat count) (MiGetPteAddress va) va (drop_bit PAGE_SHIFT phys) s))))"

text \<open>The macro has a parameter \<open>PTE\<close> and reads the entry at \<open>PointerPte\<close>.\<close>

definition MM_PTE_IS_FREE :: "mm \<Rightarrow> u32 \<Rightarrow> u32 \<Rightarrow> bool" where
  "MM_PTE_IS_FREE s PointerPte PTE \<longleftrightarrow>
     Valid (Ptes s PointerPte) = 0 \<and> PteType (Ptes s PointerPte) = PTE_TYPE_NORMAL_OR_NOTMAPPED"

definition range_free :: "mm \<Rightarrow> u32 \<Rightarrow> u32 \<Rightarrow> bool" where
  "range_free s ptr count \<longleftrightarrow> MM_PTE_IS_FREE s ptr ptr \<and> list_all (\<lambda>j. MM_PTE_IS_FREE s ptr (ptr + of_nat (4 * j))) [1..<unat count]"

fun find_range :: "nat \<Rightarrow> u32 \<Rightarrow> u32 \<Rightarrow> mm \<Rightarrow> u32 option" where
  "find_range 0 virt count s = None"
| "find_range (Suc n) virt count s =
     (if range_free s (MiGetPteAddress virt) count then Some virt else find_range n (virt + PAGE_SIZE) count s)"

text \<open>What a new mapping does to the descriptor of the page; \<open>line\<close> is that of the bugcheck.\<close>

definition count_mapping :: "u32 \<Rightarrow> u32 \<Rightarrow> u32 \<Rightarrow> bool \<Rightarrow> u32 \<Rightarrow> mm \<Rightarrow> mm mm_result" where
  "count_mapping line p pte addws mode s =
     and_then (acquire PpdLock s) (\<lambda>s.
     and_then
       (let s1 = upd_ppd p (\<lambda>d. d\<lparr>ShareCount := ShareCount d + 1\<rparr>) s
        in if ShareCount (Ppds s1 p) = 1
           then let s2 = upd_ppd p (\<lambda>d. d\<lparr>U2 := pte, U1 := -1, ProcessorMode := ucast mode\<rparr>) s1
                in if addws
                   then and_then (MiAddPageToWorkingSet p s2) (\<lambda>(i, s3).
                     let s4 = upd_ppd p (\<lambda>d. d\<lparr>U1 := i\<rparr>) s3
                     in if i = -1 then Inl (MmBugCheck (BugCheck MEMORY_MANAGEMENT line p 0 0))
                        else Inr (if mode = KernelMode then upd_ppd p (\<lambda>d. d\<lparr>BelongsToSystemWorkingSet := True\<rparr>) s4 else s4))
                   else Inr s2
           else Inr s1) (\<lambda>s5. Inr (release PpdLock s5)))"

fun map_phys_loop :: "nat \<Rightarrow> u32 \<Rightarrow> u32 \<Rightarrow> u32 \<Rightarrow> bool \<Rightarrow> u32 \<Rightarrow> mm \<Rightarrow> mm mm_result" where
  "map_phys_loop 0 pfn pte va addws mode s = Inr s"
| "map_phys_loop (Suc n) pfn pte va addws mode s =
     (let s1 = upd_pte pte (set_PageFrameNumber pfn) (MiWriteValidKernelPte pte s)
      in and_then (count_mapping 149 (MmPfnPpd s1 (PageFrameNumber (Ptes s1 pte))) pte addws mode s1) (\<lambda>s2.
         map_phys_loop n (pfn + 1) (MiNextPte pte) (va + PAGE_SIZE) addws mode (MmInvalidateTlb va s2)))"

definition pages_between :: "u32 \<Rightarrow> u32 \<Rightarrow> nat" where
  "pages_between startva endva = unat (drop_bit PAGE_SHIFT (endva - startva))"

definition MmMapPhysicalPagesInRange :: "u32 \<Rightarrow> u32 \<Rightarrow> u32 \<Rightarrow> u32 \<Rightarrow> bool \<Rightarrow> u32 \<Rightarrow> mm \<Rightarrow> (u32 \<times> mm) mm_result" where
  "MmMapPhysicalPagesInRange vaStart vaEnd phys count addws mode s =
     and_then (acquire PageDatabaseLock s) (\<lambda>s.
       let startva = ALIGN_DOWN vaStart PAGE_SIZE; endva = ALIGN_UP vaEnd PAGE_SIZE
       in case find_range (pages_between startva endva) startva count s of
            None \<Rightarrow> Inr (0, release PageDatabaseLock s)
          | Some v \<Rightarrow> and_then (map_phys_loop (unat count) (drop_bit PAGE_SHIFT phys) (MiGetPteAddress v) v addws mode s) (\<lambda>s1.
              Inr (v, release PageDatabaseLock s1)))"

definition MmMapPhysicalPagesKernel :: "u32 \<Rightarrow> u32 \<Rightarrow> mm \<Rightarrow> (u32 \<times> mm) mm_result" where
  "MmMapPhysicalPagesKernel phys count = MmMapPhysicalPagesInRange MM_CRITICAL_AREA MM_CRITICAL_AREA_END phys count False KernelMode"

fun unmap_loop :: "nat \<Rightarrow> u32 \<Rightarrow> u32 \<Rightarrow> mm \<Rightarrow> mm mm_result" where
  "unmap_loop 0 pte va s = Inr s"
| "unmap_loop (Suc n) pte va s =
     (let p = MmPfnPpd s (PageFrameNumber (Ptes s pte));
          s1 = upd_ppd p (\<lambda>d. d\<lparr>ShareCount := ShareCount d - 1\<rparr>) (MiZeroPte pte s)
      in and_then (if ShareCount (Ppds s1 p) = 0
                   then and_then (MiRemovePageFromWorkingSet p s1) (\<lambda>s2.
                     Inr (upd_ppd p (\<lambda>d. d\<lparr>U1 := -1, BelongsToSystemWorkingSet := False\<rparr>) s2))
                   else Inr s1) (\<lambda>s3.
         unmap_loop n (MiNextPte pte) (va + PAGE_SIZE) (MmInvalidateTlb va s3)))"

definition MiUnmapPhysicalPages :: "u32 \<Rightarrow> u32 \<Rightarrow> mm \<Rightarrow> mm mm_result" where
  "MiUnmapPhysicalPages va count s =
     and_then (acquire PpdLock s) (\<lambda>s. and_then (acquire PageDatabaseLock s) (\<lambda>s.
       let va = ALIGN_DOWN va PAGE_SIZE
       in and_then (unmap_loop (unat count) (MiGetPteAddress va) va s) (\<lambda>s.
          Inr (release PpdLock (release PageDatabaseLock s)))))"

subsection \<open>Memory descriptors\<close>

definition MmBuildMmdForNonpagedSpace :: "u32 \<Rightarrow> mm \<Rightarrow> mm mm_result" where
  "MmBuildMmdForNonpagedSpace m s =
     and_then (the_mmd m s) (\<lambda>d.
       let pte = MiGetPteAddress (BaseVirtual d)
       in Inr (upd_mmd m (\<lambda>d. d\<lparr>PfnList := map (\<lambda>i. PageFrameNumber (Ptes s (pte + of_nat (4 * i)))) [0..<length (PfnList d)]\<rparr>) s))"

text \<open>For each page: the frame goes to the list, and the entry of the frame in the working set is locked.\<close>

fun lock_loop :: "u32 \<Rightarrow> nat \<Rightarrow> nat \<Rightarrow> u32 \<Rightarrow> mm \<Rightarrow> mm" where
  "lock_loop m 0 i va s = s"
| "lock_loop m (Suc n) i va s =
     (let pfn = PageFrameNumber (Ptes s (MiGetPteAddress va));
          s1 = upd_mmd m (\<lambda>d. d\<lparr>PfnList := (PfnList d)[i := pfn]\<rparr>) s
      in lock_loop m n (i + 1) va (ws_store (U1 (Ppds s1 (MmPfnPpd s1 pfn))) (\<lambda>e. e\<lparr>LockedInWs := True\<rparr>) s1))"

definition MmLockPages :: "u32 \<Rightarrow> mm \<Rightarrow> mm mm_result" where
  "MmLockPages m s =
     and_then (the_mmd m s) (\<lambda>d.
     and_then (acquire WorkingSetLock s) (\<lambda>s. and_then (acquire PageDatabaseLock s) (\<lambda>s.
       let s1 = release WorkingSetLock (release PageDatabaseLock (lock_loop m (length (PfnList d)) 0 (BaseVirtual d) s))
       in Inr (upd_mmd m (\<lambda>d. d\<lparr>Flags := Flags d OR MDL_LOCKED\<rparr>) s1))))"

fun unlock_loop :: "u32 list \<Rightarrow> mm \<Rightarrow> mm" where
  "unlock_loop [] s = s"
| "unlock_loop (pfn # pfns) s = unlock_loop pfns (ws_store (U1 (Ppds s (MmPfnPpd s pfn))) (\<lambda>e. e\<lparr>LockedInWs := False\<rparr>) s)"

definition MmUnlockPages :: "u32 \<Rightarrow> mm \<Rightarrow> mm mm_result" where
  "MmUnlockPages m s =
     and_then (the_mmd m s) (\<lambda>d. and_then (acquire WorkingSetLock s) (\<lambda>s.
       Inr (upd_mmd m (\<lambda>d. d\<lparr>Flags := Flags d AND NOT MDL_LOCKED\<rparr>) (release WorkingSetLock (unlock_loop (PfnList d) s)))))"

fun map_mmd_loop :: "u32 list \<Rightarrow> u32 \<Rightarrow> u32 \<Rightarrow> bool \<Rightarrow> u32 \<Rightarrow> mm \<Rightarrow> mm mm_result" where
  "map_mmd_loop [] pte va addws mode s = Inr s"
| "map_mmd_loop (pfn # pfns) pte va addws mode s =
     (let s1 = upd_pte pte (set_PageFrameNumber pfn) (MiWriteValidKernelPte pte s)
      in and_then (count_mapping 1816 (MmPfnPpd s1 pfn) pte addws mode s1) (\<lambda>s2.
         map_mmd_loop pfns (MiNextPte pte) (va + PAGE_SIZE) addws mode (MmInvalidateTlb va s2)))"

definition area_of :: "u32 \<Rightarrow> bool \<Rightarrow> (u32 \<times> u32) mm_result" where
  "area_of mode isimage =
     (if mode = KernelMode
      then Inr (if isimage then (MM_CRITICAL_DRIVER_AREA, MM_CRITICAL_DRIVER_AREA_END) else (MM_CRITICAL_AREA, MM_CRITICAL_AREA_END))
      else if mode = DriverMode then Inr (MM_DRIVER_AREA, MM_DRIVER_AREA_END)
      else if mode = UserMode then Inr (MM_USERMODE_AREA, MM_USERMODE_AREA_END)
      else Inl (MmRaises STATUS_INVALID_PARAMETER))"

definition MmMapLockedPages :: "u32 \<Rightarrow> u32 \<Rightarrow> bool \<Rightarrow> bool \<Rightarrow> mm \<Rightarrow> (u32 \<times> mm) mm_result" where
  "MmMapLockedPages m mode isimage addws s =
     and_then (area_of mode isimage) (\<lambda>(startva, endva).
     and_then (acquire PageDatabaseLock s) (\<lambda>s.
     and_then (the_mmd m s) (\<lambda>d.
       case find_range (pages_between startva endva) startva (of_nat (length (PfnList d))) s of
         None \<Rightarrow> Inr (0, release PageDatabaseLock s)
       | Some v \<Rightarrow> and_then (map_mmd_loop (PfnList d) (MiGetPteAddress v) v addws mode s) (\<lambda>s1.
           Inr (v + Offset d,
             upd_mmd m (\<lambda>d. d\<lparr>Flags := Flags d OR MDL_MAPPED, MappedVirtual := v\<rparr>) (release PageDatabaseLock s1))))))"

definition MmUnmapLockedPages :: "u32 \<Rightarrow> mm \<Rightarrow> mm mm_result" where
  "MmUnmapLockedPages m s =
     and_then (the_mmd m s) (\<lambda>d.
     and_then (MiUnmapPhysicalPages (MappedVirtual d) (of_nat (length (PfnList d))) s) (\<lambda>s1.
       Inr (upd_mmd m (\<lambda>d. d\<lparr>Flags := Flags d AND NOT MDL_MAPPED, MappedVirtual := 0\<rparr>) s1)))"

definition free_mmd_block :: "u32 \<Rightarrow> mm \<Rightarrow> mm mm_result" where
  "free_mmd_block m s = and_then (heap_free m s) (\<lambda>s1. Inr (s1\<lparr>Mmds := (Mmds s1)(m := None)\<rparr>))"

text \<open>Each test reads the flags that the steps before it have left.\<close>

definition if_flag :: "u32 \<Rightarrow> u32 \<Rightarrow> (mm \<Rightarrow> mm mm_result) \<Rightarrow> mm \<Rightarrow> mm mm_result" where
  "if_flag m flag f s = and_then (the_mmd m s) (\<lambda>d. if Flags d AND flag \<noteq> 0 then f s else Inr s)"

definition MmFreeMmd :: "u32 \<Rightarrow> mm \<Rightarrow> mm mm_result" where
  "MmFreeMmd m s =
     and_then (if_flag m MDL_MAPPED (MmUnmapLockedPages m) s) (\<lambda>s1.
     and_then (if_flag m MDL_LOCKED (MmUnlockPages m) s1) (\<lambda>s2.
     and_then (if_flag m MDL_ALLOCATED (MmFreePhysicalPages m) s2) (\<lambda>s3. free_mmd_block m s3)))"

definition MmAllocateMemory :: "u32 \<Rightarrow> mm \<Rightarrow> (u32 \<times> mm) mm_result" where
  "MmAllocateMemory n s =
     (let n = ALIGN_UP n PAGE_SIZE
      in and_then (MmAllocatePhysicalPages (drop_bit PAGE_SHIFT n) s) (\<lambda>(status, m, s1).
         if \<not> SUCCESS status then Inr (0, s1)
         else and_then (MmMapLockedPages m KernelMode False False s1) (\<lambda>(ptr, s2).
              and_then (ASSERT (ptr \<noteq> 0) s2) (\<lambda>s2.
              and_then (free_mmd_block m s2) (\<lambda>s3. Inr (ptr, s3))))))"

definition MmFreeMemory :: "u32 \<Rightarrow> u32 \<Rightarrow> mm \<Rightarrow> mm mm_result" where
  "MmFreeMemory ptr n s =
     and_then (MmAllocateMmd ptr n s) (\<lambda>(m, s1).
     and_then (ASSERT (m \<noteq> 0) s1) (\<lambda>s1.
     and_then (MmBuildMmdForNonpagedSpace m s1) (\<lambda>s2.
     and_then (Inr (upd_mmd m (\<lambda>d. d\<lparr>Flags := MDL_ALLOCATED OR MDL_MAPPED\<rparr>) s2)) (\<lambda>s3.
     and_then (MmUnmapLockedPages m s3) (\<lambda>s4.
     and_then (MmFreePhysicalPages m s4) (\<lambda>s5. MmFreeMmd m s5))))))"

definition MmAllocatePage :: "mm \<Rightarrow> (u32 \<times> mm) mm_result" where
  "MmAllocatePage = MmAllocateMemory PAGE_SIZE"

definition MmFreePage :: "u32 \<Rightarrow> mm \<Rightarrow> mm mm_result" where
  "MmFreePage page = MmFreeMemory page PAGE_SIZE"

subsection \<open>Trimming and page faults\<close>

definition MmTrimPage :: "u32 \<Rightarrow> mm \<Rightarrow> mm mm_result" where
  "MmTrimPage va s =
     and_then (acquire PpdLock s) (\<lambda>s. and_then (acquire PageDatabaseLock s) (\<lambda>s.
       let pte = MiGetPteAddress va
       in and_then (ASSERT (Valid (Ptes s pte) = 1) s) (\<lambda>s.
          let p = MmPfnPpd s (PageFrameNumber (Ptes s pte))
          in and_then (ASSERT (PageLocation (Ppds s p) = ActiveAndValid) s) (\<lambda>s.
          and_then (if Dirty (Ptes s pte) = 1
                    then MiChangePageLocation p ModifiedPageList (upd_ppd p (\<lambda>d. d\<lparr>PpdModified := True\<rparr>) s)
                    else MiChangePageLocation p StandbyPageList s) (\<lambda>s1.
          let s2 = MiWriteTrimmedPte pte s1;
              s3 = upd_pte pte (\<lambda>w. set_PteProtection (if Write w \<noteq> 0 then MM_READWRITE else MM_READONLY) w) s2
          in Inr (release PpdLock (release PageDatabaseLock s3)))))))"

definition MmIsAddressValid :: "mm \<Rightarrow> u32 \<Rightarrow> bool" where
  "MmIsAddressValid s va \<longleftrightarrow> Valid (Ptes s (MiGetPteAddress va)) \<noteq> 0"

datatype page_status = PageStatusFree | PageStatusNormal | PageStatusPagedOut | PageStatusTrimmed | PageStatusView | PageStatusNormalView

definition MiIsAddressValidEx :: "mm \<Rightarrow> u32 \<Rightarrow> page_status mm_result" where
  "MiIsAddressValidEx s pte =
     (let w = Ptes s pte
      in if Valid w \<noteq> 0 then Inr (if PteType w = PTE_TYPE_VIEW then PageStatusNormalView else PageStatusNormal)
         else if PteType w = PTE_TYPE_NORMAL_OR_NOTMAPPED then Inr PageStatusFree
         else if PteType w = PTE_TYPE_TRIMMED then Inr PageStatusTrimmed
         else if PteType w = PTE_TYPE_PAGEDOUT then Inr PageStatusPagedOut
         else if PteType w = PTE_TYPE_VIEW then Inr PageStatusView
         else Inl (MmBugCheck (BugCheck MEMORY_MANAGEMENT 545 pte (PteType w) 0)))"

definition MmIsAddressValidEx :: "mm \<Rightarrow> u32 \<Rightarrow> page_status mm_result" where
  "MmIsAddressValidEx s va = MiIsAddressValidEx s (MiGetPteAddress va)"

definition KERNEL_MODE_EXCEPTION_NOT_HANDLED :: u32 where "KERNEL_MODE_EXCEPTION_NOT_HANDLED = 6"

definition fault_bugcheck :: "u32 \<Rightarrow> u32 \<Rightarrow> u32 \<Rightarrow> 'a mm_result" where
  "fault_bugcheck va eip code = Inl (MmBugCheck (BugCheck KERNEL_MODE_EXCEPTION_NOT_HANDLED
     STATUS_ACCESS_VIOLATION va eip (get_field 1 1 code)))"

text \<open>The first view that holds the address; the first cached entry with the page number.\<close>

fun find_view :: "u32 \<Rightarrow> mapped_view list \<Rightarrow> mapped_view option" where
  "find_view va [] = None"
| "find_view va (v # vs) = (if StartVa v \<le> va \<and> va < StartVa v + ViewSize v then Some v else find_view va vs)"

fun find_cached :: "u32 \<Rightarrow> (bool \<times> u32 \<times> u32) list \<Rightarrow> u32 option" where
  "find_cached n [] = None"
| "find_cached n ((cached, number, buffer) # es) = (if cached \<and> number = n then Some buffer else find_cached n es)"

definition page_of_view :: "u32 \<Rightarrow> mapped_view \<Rightarrow> u32" where
  "page_of_view va v = (ALIGN_DOWN va PAGE_SIZE - StartVa v) div PAGE_SIZE"

definition map_cached_page :: "u32 \<Rightarrow> u32 \<Rightarrow> mapped_view \<Rightarrow> mapped_file \<Rightarrow> u32 \<Rightarrow> mm \<Rightarrow> mm mm_result" where
  "map_cached_page va pte v f buffer s =
     (let temp = MiGetPteAddress buffer
      in and_then (ASSERT (Valid (Ptes s temp) = 1) s) (\<lambda>s.
         and_then (acquire PageDatabaseLock s) (\<lambda>s.
         let prot = ucast (ViewProtection v);
             w1 = set_Valid 1 (Ptes s pte);
             w2 = set_Write (if prot = MM_READWRITE \<or> prot = MM_EXECUTE_READWRITE then 1 else 0) w1;
             w3 = set_Owner (if TargetMode f = KernelMode then 1 else 0) w2;
             w4 = set_PageFrameNumber (PageFrameNumber (Ptes s temp)) w3;
             w5 = set_Accessed 0 (set_Dirty 0 w4)
         in Inr (release PageDatabaseLock (MmInvalidateTlb va (upd_pte pte (\<lambda>_. w5) s))))))"

definition view_fault :: "u32 \<Rightarrow> u32 \<Rightarrow> u32 \<Rightarrow> u32 \<Rightarrow> mm \<Rightarrow> mm mm_result" where
  "view_fault va eip code pte s =
     (let (status, obj) = MapHandle s (FileDescriptorNumber (Ptes s pte))
      in if \<not> SUCCESS status then fault_bugcheck va eip code
         else case MappedFiles s obj of None \<Rightarrow> Inl MmNull
         | Some f \<Rightarrow>
           and_then (acquire (ViewListLock obj) s) (\<lambda>s.
           case find_view va (ViewList f) of
             None \<Rightarrow> Inl MmBreaks
           | Some v \<Rightarrow>
             (case CacheMap f of None \<Rightarrow> Inl MmAsserts
              | Some es \<Rightarrow>
                and_then (acquire (CacheMapLock obj) s) (\<lambda>s.
                case find_cached (page_of_view va v) es of
                  None \<Rightarrow> Inl MmAsserts
                | Some buffer \<Rightarrow>
                  and_then (map_cached_page va pte v f buffer s) (\<lambda>s.
                  Inr (release (ViewListLock obj) (release (CacheMapLock obj) s)))))))"

definition MmAccessFault :: "u32 \<Rightarrow> u32 \<Rightarrow> u32 \<Rightarrow> mm \<Rightarrow> mm mm_result" where
  "MmAccessFault va eip code s =
     (let pte = MiGetPteAddress va; w = Ptes s pte
      in if get_field 1 1 code \<noteq> 0 \<and> Valid w = 1 then fault_bugcheck va eip code
         else if PteType w = PTE_TYPE_TRIMMED
         then and_then (acquire PpdLock s) (\<lambda>s. and_then (acquire PageDatabaseLock s) (\<lambda>s.
              let p = MmPfnPpd s (PageFrameNumber w); prot = PteProtection w;
                  s1 = upd_pte pte (\<lambda>w. set_Valid 1 (set_Write (if prot = MM_READWRITE \<or> prot = MM_EXECUTE_READWRITE then 1 else 0) w)) s
              in and_then (MiChangePageLocation p ActiveAndValid s1) (\<lambda>s2.
                 Inr (MmInvalidateTlb va (release PpdLock (release PageDatabaseLock s2))))))
         else if PteType w = PTE_TYPE_VIEW then view_fault va eip code pte s
         else fault_bugcheck va eip code)"

subsection \<open>Views of files\<close>

definition MiFileAccessToPageProtection :: "u32 \<Rightarrow> u32" where
  "MiFileAccessToPageProtection granted =
     (if granted AND 0x10 \<noteq> 0 then MM_READWRITE else if granted AND 8 \<noteq> 0 then MM_READONLY else MM_NOACCESS)"

definition MiPageProtectionToGrantedAccess :: "u8 \<Rightarrow> u32 mm_result" where
  "MiPageProtectionToGrantedAccess prot =
     and_then (ASSERT (prot \<le> 7) prot) (\<lambda>prot.
       let p = prot AND 7
       in Inr (if p = 0 \<or> p = 7 then 0 else if p = 3 \<or> p = 4 then 8 OR 0x10 else 8))"

text \<open>The tables \<open>MiStartAddressesForProcessorModes\<close> and \<open>MiEndAddressesForProcessorModes\<close>.\<close>

definition start_of_mode :: "u32 \<Rightarrow> u32" where
  "start_of_mode mode = (if mode = 0 then MM_CRITICAL_AREA else if mode = 1 then MM_DRIVER_AREA else if mode = 3 then MM_USERMODE_AREA else 0)"

definition end_of_mode :: "u32 \<Rightarrow> u32" where
  "end_of_mode mode = (if mode = 0 then MM_CRITICAL_AREA_END else if mode = 1 then MM_DRIVER_AREA_END else if mode = 3 then MM_USERMODE_AREA_END else 0)"

definition page_free :: "mm \<Rightarrow> u32 \<Rightarrow> bool" where
  "page_free s va \<longleftrightarrow> MmIsAddressValidEx s va = Inr PageStatusFree"

text \<open>The check of a range that the caller has chosen ends when the address is past the end or a page is in use.\<close>

partial_function (option) check_chosen :: "u32 \<Rightarrow> u32 \<Rightarrow> mm \<Rightarrow> bool option" where
  "check_chosen va endva s =
     (if va < endva then (if page_free s va then check_chosen (va + PAGE_SIZE) endva s else Some False) else Some True)"

fun reserve_view :: "nat \<Rightarrow> u32 \<Rightarrow> mm \<Rightarrow> mm" where
  "reserve_view 0 pte s = s"
| "reserve_view (Suc n) pte s =
     reserve_view n (MiNextPte pte)
       (upd_pte pte (\<lambda>w. set_PteProtection 0 (set_FileDescriptorNumber 0 (set_PteType PTE_TYPE_VIEW w))) (MiZeroPte pte s))"

fun find_view_range :: "nat \<Rightarrow> u32 \<Rightarrow> nat \<Rightarrow> mm \<Rightarrow> u32 option" where
  "find_view_range 0 va pages s = None"
| "find_view_range (Suc n) va pages s =
     (if page_free s va \<and> list_all (\<lambda>i. page_free s (va + of_nat i * PAGE_SIZE)) [1..<pages]
      then Some va else find_view_range n (va + PAGE_SIZE) pages s)"

definition MiFindAndReserveVirtualAddressesForFileView :: "u32 \<Rightarrow> u32 \<Rightarrow> u32 \<Rightarrow> mm \<Rightarrow> (status \<times> u32 \<times> mm) mm_result" where
  "MiFindAndReserveVirtualAddressesForFileView start mode pages s =
     and_then (ASSERT (start_of_mode mode \<noteq> 0) s) (\<lambda>s. and_then (ASSERT (end_of_mode mode \<noteq> 0) s) (\<lambda>s.
       if start \<noteq> 0
       then if start < start_of_mode mode \<or> end_of_mode mode \<le> start then Inr (STATUS_INVALID_PARAMETER, 0, s)
            else case check_chosen start (start + pages * PAGE_SIZE) s of
              None \<Rightarrow> Inl MmNeverEnds
            | Some False \<Rightarrow> Inr (STATUS_INVALID_PARAMETER, 0, s)
            | Some True \<Rightarrow> Inr (STATUS_SUCCESS, start, s)
       else case find_view_range (unat ((end_of_mode mode - start_of_mode mode + PAGE_SIZE - 1) div PAGE_SIZE)) (start_of_mode mode) (unat pages) s of
              None \<Rightarrow> Inr (STATUS_INSUFFICIENT_RESOURCES, 0, s)
            | Some va \<Rightarrow> Inr (STATUS_SUCCESS, va, reserve_view (unat pages) (MiGetPteAddress va) s)))"

fun init_view_loop :: "nat \<Rightarrow> u32 \<Rightarrow> u32 \<Rightarrow> u32 \<Rightarrow> mm \<Rightarrow> mm" where
  "init_view_loop 0 pte h prot s = s"
| "init_view_loop (Suc n) pte h prot s =
     init_view_loop n (MiNextPte pte) h prot
       (upd_pte pte (\<lambda>w. set_PteProtection prot (set_FileDescriptorNumber (take_bit 16 h) w)) s)"

definition MiInitializeViewPages :: "mapped_view \<Rightarrow> mm \<Rightarrow> mm" where
  "MiInitializeViewPages v = init_view_loop (unat (ViewSize v div PAGE_SIZE)) (StartPte v) (hMapping v) (ucast (ViewProtection v))"

definition MmMapViewOfFile :: "u32 \<Rightarrow> u32 \<times> u32 \<Rightarrow> u32 \<Rightarrow> u8 \<Rightarrow> u32 \<Rightarrow> mm \<Rightarrow> (status \<times> u32 \<times> mm) mm_result" where
  "MmMapViewOfFile h offset vsize prot start s =
     (let (status, obj) = MapHandle s h
      in if \<not> SUCCESS status then Inr (status, start, s)
         else if GoingAway s obj then Inr (STATUS_DELETE_PENDING, start, s)
         else case MappedFiles s obj of None \<Rightarrow> Inl MmNull
         | Some f \<Rightarrow>
           if StrongestProtection f < prot then Inr (STATUS_ACCESS_DENIED, start, s)
           else
             and_then (acquire PageDatabaseLock s) (\<lambda>s.
             let vsize = ALIGN_UP vsize PAGE_SIZE
             in and_then (MiFindAndReserveVirtualAddressesForFileView start (TargetMode f) (vsize div PAGE_SIZE) s) (\<lambda>(status, va, s1).
                if \<not> SUCCESS status then Inr (status, start, release PageDatabaseLock s1)
                else let (p, s2) = heap_alloc s1
                  in if p = 0 then Inr (STATUS_INSUFFICIENT_RESOURCES, start, release PageDatabaseLock s2)
                     else let v = \<lparr>StartOffsetInFile = offset, ViewSize = vsize, StartVa = va, StartPte = MiGetPteAddress va,
                                   hMapping = h, ViewProtection = prot AND 7\<rparr>
                          in and_then (acquire (ViewListLock obj) s2) (\<lambda>s2.
                             let s3 = release (ViewListLock obj) (s2\<lparr>MappedFiles := (MappedFiles s2)(obj \<mapsto> f\<lparr>ViewList := ViewList f @ [v]\<rparr>)\<rparr>)
                             in Inr (STATUS_SUCCESS, va, release PageDatabaseLock (MiInitializeViewPages v s3))))))"

definition MiUnmapViewOfFile :: "mapped_view \<Rightarrow> status" where
  "MiUnmapViewOfFile v = STATUS_NOT_SUPPORTED"

definition MmUnmapViewOfFile :: "u32 \<Rightarrow> u32 \<Rightarrow> status" where
  "MmUnmapViewOfFile h va = STATUS_NOT_SUPPORTED"

subsection \<open>Start-up\<close>

text \<open>
  The descriptors of the first 0x3000 pages, and the entries of the working set that lock them. The loop that
  sets the back pointers to the page table entries tests \<open>i<2\<close> where \<open>i\<close> is 0x3000, and does nothing.
\<close>

definition InitialPageCount :: nat where "InitialPageCount = 0x3000"

definition init_active :: "nat \<Rightarrow> mm \<Rightarrow> mm" where
  "init_active i s =
     (let p = MmPfnPpd s (of_nat i)
      in upd_ppd p (\<lambda>d. d\<lparr>PageLocation := ActiveAndValid, BelongsToSystemWorkingSet := True, ProcessorMode := 0,
             U1 := of_nat i, ShareCount := 1\<rparr>)
         (s\<lparr>WorkingSet := (WorkingSet s)\<lparr>WsEntries :=
            (WsEntries (WorkingSet s))[i := \<lparr>PageDescriptor = p, Present = True, LockedInWs = True\<rparr>]\<rparr>\<rparr>))"

text \<open>The other pages are zeroed pages. The back link of the first one keeps what the memory has.\<close>

definition init_zeroed :: "nat \<Rightarrow> mm \<Rightarrow> mm" where
  "init_zeroed i s =
     (let p = MmPfnPpd s (of_nat i)
      in upd_ppd p (\<lambda>d. d\<lparr>PageLocation := ZeroedPageList, ShareCount := 0,
             U2 := (if InitialPageCount < i then MmPfnPpd s (of_nat (i - 1)) else U2 d),
             U1 := (if of_nat i = PhysicalMemoryPages s - 1 then 0 else MmPfnPpd s (of_nat (i + 1)))\<rparr>) s)"

definition init_ppds :: "mm \<Rightarrow> mm" where
  "init_ppds s =
     (let s1 = fold init_active [0..<InitialPageCount] s;
          s2 = s1\<lparr>PageLists := (PageLists s1)(ZeroedPageList :=
                 (if PhysicalMemoryPages s = of_nat InitialPageCount then 0 else MmPfnPpd s (of_nat InitialPageCount)))\<rparr>
      in fold init_zeroed [InitialPageCount..<unat (PhysicalMemoryPages s)] s2)"

text \<open>A run of the memory map of the BIOS: base, size, type. \<open>HalReservePhysicalLowMegPages\<close> does not use this state.\<close>

definition init_run :: "u32 \<times> u32 \<times> u32 \<Rightarrow> mm \<Rightarrow> mm mm_result" where
  "init_run run s = (case run of (base, len, kind) \<Rightarrow>
     if kind = 2
     then if base < 0x00100000 then Inr s
          else if base < push_bit PAGE_SHIFT (PhysicalMemoryPages s) then MmReservePhysicalAddressRange base (base + len) s
          else Inr s
     else if kind = 3
     then and_then (MmMapPhysicalPagesKernel base
            ((ALIGN_UP (base + len) PAGE_SIZE - ALIGN_DOWN base PAGE_SIZE) div PAGE_SIZE) s) (\<lambda>(_, s). Inr s)
     else Inr s)"

fun init_runs :: "(u32 \<times> u32 \<times> u32) list \<Rightarrow> mm \<Rightarrow> mm mm_result" where
  "init_runs [] s = Inr s"
| "init_runs (r # rs) s = and_then (init_run r s) (init_runs rs)"

definition MmInitSystemPhase1 :: "(u32 \<times> u32 \<times> u32) list \<Rightarrow> mm \<Rightarrow> mm mm_result" where
  "MmInitSystemPhase1 runs s =
     and_then (MiMapPhysicalPages MM_PPD_START MM_PPD_START_PHYS ((PhysicalMemoryPages s * 12) div PAGE_SIZE) (s\<lparr>LockTrace := []\<rparr>)) (\<lambda>s.
     let (p, s1) = heap_alloc (s\<lparr>MmPpdDatabase := MM_PPD_START\<rparr>)
     in if p = 0 then Inl MmNull
        else let (q, s2) = heap_alloc s1
          in if q = 0 then Inl MmNull
             else init_runs runs (init_ppds (s2\<lparr>WorkingSet :=
               \<lparr>TotalPageCount = of_nat InitialPageCount, WsPages = q, WsEntries = replicate InitialPageCount zero_entry\<rparr>\<rparr>)))"

end
