(* ===== verification/MmLists.thy ===== *)
theory MmLists
  imports Mm
begin

text \<open>
  The page lists of the memory manager: descriptors linked through their two unions, ended by NULL on both
  sides. They implement lists (\<open>page_lists\<close>), a change of location is a move between lists, and what
  allocation, release, mapping, trimming and the zero page thread do to the lists.
\<close>

subsection \<open>Segments\<close>

fun seg :: "(u32 \<Rightarrow> ppd) \<Rightarrow> u32 \<Rightarrow> u32 \<Rightarrow> u32 list \<Rightarrow> u32 \<Rightarrow> u32 \<Rightarrow> bool" where
  "seg P prev p [] l n \<longleftrightarrow> l = prev \<and> p = n"
| "seg P prev p (x # xs) l n \<longleftrightarrow> p = x \<and> x \<noteq> 0 \<and> U2 (P x) = prev \<and> seg P x (U1 (P x)) xs l n"

lemma pseg_append: "seg P prev p (xs @ ys) l n \<longleftrightarrow> (\<exists>m q. seg P prev p xs m q \<and> seg P m q ys l n)"
  by (induction xs arbitrary: prev p) auto

lemma seg_last: "seg P prev p xs l n \<Longrightarrow> l = (if xs = [] then prev else last xs)"
  by (induction xs arbitrary: prev p) auto

lemma seg_first: "seg P prev p xs l n \<Longrightarrow> p = (if xs = [] then n else hd xs)"
  by (cases xs) auto

lemma seg_not_null: "seg P prev p xs l n \<Longrightarrow> 0 \<notin> set xs"
  by (induction xs arbitrary: prev p) auto

lemma seg_agree:
  "(\<And>x. x \<in> set xs \<Longrightarrow> U1 (P' x) = U1 (P x) \<and> U2 (P' x) = U2 (P x)) \<Longrightarrow> seg P' prev p xs l n \<longleftrightarrow> seg P prev p xs l n"
  by (induction xs arbitrary: prev p) auto

lemma seg_upd: "q \<notin> set xs \<Longrightarrow> seg (P(q := d)) prev p xs l n \<longleftrightarrow> seg P prev p xs l n"
  by (rule seg_agree) auto

lemma seg_back:
  assumes "seg P a q ys l n" "distinct ys"
  shows "seg (P(q := (P q)\<lparr>U2 := b\<rparr>)) b q ys (if ys = [] then b else l) n"
  using assms by (cases ys) (auto simp: seg_upd)

lemma seg_next:
  assumes "seg P a h xs m q" "distinct xs" "xs \<noteq> []"
  shows "seg (P(m := (P m)\<lparr>U1 := r\<rparr>)) a h xs m r"
  using assms
proof (induction xs arbitrary: a h)
  case (Cons x xs)
  show ?case
  proof (cases "xs = []")
    case True
    with Cons.prems show ?thesis by auto
  next
    case False
    have "m = last xs" using seg_last [OF Cons.prems(1)] False by simp
    with False Cons.prems(2) have "m \<noteq> x" by auto
    moreover have "seg (P(m := (P m)\<lparr>U1 := r\<rparr>)) x (U1 (P x)) xs m r"
      using Cons.prems False by (intro Cons.IH) auto
    ultimately show ?thesis using Cons.prems by (auto simp: fun_upd_def)
  qed
qed simp

subsection \<open>Families of lists\<close>

definition family :: "(u32 \<Rightarrow> ppd) \<Rightarrow> (page_location \<Rightarrow> u32) \<Rightarrow> (page_location \<Rightarrow> u32 list) \<Rightarrow> bool" where
  "family P H L \<longleftrightarrow>
     (\<forall>k<ActiveAndValid. (\<exists>z. seg P 0 (H k) (L k) z 0) \<and> distinct (L k)) \<and>
     (\<forall>k<ActiveAndValid. \<forall>k'<ActiveAndValid. k \<noteq> k' \<longrightarrow> set (L k) \<inter> set (L k') = {})"

lemma familyD:
  "family P H L \<Longrightarrow> k < ActiveAndValid \<Longrightarrow> \<exists>z. seg P 0 (H k) (L k) z 0"
  "family P H L \<Longrightarrow> k < ActiveAndValid \<Longrightarrow> distinct (L k)"
  "family P H L \<Longrightarrow> k < ActiveAndValid \<Longrightarrow> k' < ActiveAndValid \<Longrightarrow> x \<in> set (L k) \<Longrightarrow> x \<in> set (L k') \<Longrightarrow> k = k'"
  by (auto simp: family_def)

text \<open>It is enough to look at the list that changes when the new links agree with the old ones elsewhere.\<close>

lemma family_change:
  assumes "family P H L"
    and "seg P' 0 h xs z 0" "distinct xs"
    and other: "\<And>k' x. k' < ActiveAndValid \<Longrightarrow> k' \<noteq> k \<Longrightarrow> x \<in> set (L k') \<Longrightarrow> U1 (P' x) = U1 (P x) \<and> U2 (P' x) = U2 (P x) \<and> x \<notin> set xs"
  shows "family P' (H(k := h)) (L(k := xs))"
proof -
  have "\<exists>z. seg P' 0 ((H(k := h)) k') ((L(k := xs)) k') z 0" if k': "k' < ActiveAndValid" for k'
  proof (cases "k' = k")
    case False
    have "seg P' 0 (H k') (L k') w 0 \<longleftrightarrow> seg P 0 (H k') (L k') w 0" for w
      using other [OF k' False] by (intro seg_agree) simp
    with familyD(1) [OF assms(1) k'] False show ?thesis by simp
  qed (use assms(2) in auto)
  moreover have "set ((L(k := xs)) k1) \<inter> set ((L(k := xs)) k2) = {}" if "k1 < ActiveAndValid" "k2 < ActiveAndValid" "k1 \<noteq> k2" for k1 k2
    using that other [of k1] other [of k2] familyD(3) [OF assms(1), of k1 k2]
    by (cases "k1 = k"; cases "k2 = k") auto
  moreover have "distinct ((L(k := xs)) k1)" if "k1 < ActiveAndValid" for k1
    using assms(3) familyD(2) [OF assms(1) that] by simp
  ultimately show ?thesis unfolding family_def by blast
qed

text \<open>Unlinking.\<close>

definition unlinked :: "(u32 \<Rightarrow> ppd) \<Rightarrow> u32 \<Rightarrow> u32 \<Rightarrow> u32 \<Rightarrow> ppd" where
  "unlinked P prev nxt =
     (let P1 = (if prev = 0 then P else P(prev := (P prev)\<lparr>U1 := nxt\<rparr>))
      in if nxt = 0 then P1 else P1(nxt := (P1 nxt)\<lparr>U2 := prev\<rparr>))"

lemma MiUnlinkPpd_eq:
  assumes "PageLocation (Ppds s p) < ActiveAndValid"
  shows "MiUnlinkPpd p s = Inr (s\<lparr>Ppds := unlinked (Ppds s) (U2 (Ppds s p)) (U1 (Ppds s p)),
    PageLists := (if U2 (Ppds s p) = 0 then (PageLists s)(PageLocation (Ppds s p) := U1 (Ppds s p)) else PageLists s)\<rparr>)"
  using assms
  by (simp add: MiUnlinkPpd_def ASSERT_def Let_def unlinked_def upd_ppd_def)

lemma seg_unlinked:
  assumes "seg P 0 h (xs @ p # ys) z 0" "distinct (xs @ p # ys)"
  shows "\<exists>z. seg (unlinked P (U2 (P p)) (U1 (P p))) 0 (if U2 (P p) = 0 then U1 (P p) else h) (xs @ ys) z 0"
proof -
  from assms(1) have l: "seg P 0 h xs (U2 (P p)) p" and r: "seg P p (U1 (P p)) ys z 0"
    by (auto simp: pseg_append)
  let ?prev = "U2 (P p)" and ?nxt = "U1 (P p)"
  have prev: "?prev = (if xs = [] then 0 else last xs)" using seg_last [OF l] .
  have nxt: "?nxt = (if ys = [] then 0 else hd ys)" using seg_first [OF r] .
  have nn: "0 \<notin> set (xs @ ys)" using seg_not_null [OF assms(1)] by auto
  have prev0: "?prev = 0 \<longleftrightarrow> xs = []" using prev nn by (cases xs rule: rev_cases) auto
  have nxt0: "?nxt = 0 \<longleftrightarrow> ys = []" using nxt nn by (cases ys) auto
  define P1 where "P1 = (if ?prev = 0 then P else P(?prev := (P ?prev)\<lparr>U1 := ?nxt\<rparr>))"
  have py: "?prev \<notin> set ys" using prev assms(2) nn by (cases xs rule: rev_cases) auto
  have nx: "?nxt \<notin> set xs" using nxt assms(2) nn by (cases ys) auto
  have l1: "seg P1 0 (if ?prev = 0 then ?nxt else h) xs ?prev ?nxt"
    using l seg_next [OF l _, of ?nxt] assms(2) prev0 by (auto simp: P1_def)
  have r1: "seg P1 p ?nxt ys z 0" using r py by (simp add: P1_def seg_upd)
  have eq: "unlinked P ?prev ?nxt = (if ?nxt = 0 then P1 else P1(?nxt := (P1 ?nxt)\<lparr>U2 := ?prev\<rparr>))"
    by (simp add: unlinked_def P1_def Let_def)
  show ?thesis
  proof (cases "?nxt = 0")
    case True
    with nxt0 have "ys = []" by simp
    with l1 eq True show ?thesis by auto
  next
    case False
    have "seg (unlinked P ?prev ?nxt) 0 (if ?prev = 0 then ?nxt else h) xs ?prev ?nxt"
      using l1 nx False by (simp add: eq seg_upd)
    moreover have "seg (unlinked P ?prev ?nxt) ?prev ?nxt ys (if ys = [] then ?prev else z) 0"
      using seg_back [OF r1, of ?prev] assms(2) False by (simp add: eq)
    ultimately show ?thesis unfolding pseg_append by blast
  qed
qed

lemma unlinked_other: "x \<noteq> prev \<or> prev = 0 \<Longrightarrow> x \<noteq> nxt \<or> nxt = 0 \<Longrightarrow> unlinked P prev nxt x = P x"
  by (auto simp: unlinked_def Let_def)

lemma family_neighbours:
  assumes "family P H L" "k < ActiveAndValid" "p \<in> set (L k)"
  shows "U2 (P p) \<noteq> 0 \<Longrightarrow> U2 (P p) \<in> set (L k)" "U1 (P p) \<noteq> 0 \<Longrightarrow> U1 (P p) \<in> set (L k)"
proof -
  from assms(3) obtain xs ys where L: "L k = xs @ p # ys" by (auto simp: in_set_conv_decomp)
  obtain z where "seg P 0 (H k) (xs @ p # ys) z 0" using familyD(1) [OF assms(1,2)] L by auto
  then have l: "seg P 0 (H k) xs (U2 (P p)) p" and r: "seg P p (U1 (P p)) ys z 0" by (auto simp: pseg_append)
  show "U2 (P p) \<noteq> 0 \<Longrightarrow> U2 (P p) \<in> set (L k)" "U1 (P p) \<noteq> 0 \<Longrightarrow> U1 (P p) \<in> set (L k)"
    using seg_last [OF l] seg_first [OF r] by (auto simp: L split: if_splits)
qed

lemma unlinked_elsewhere:
  assumes "family P H L" "k < ActiveAndValid" "p \<in> set (L k)" "x \<notin> set (L k)"
  shows "unlinked P (U2 (P p)) (U1 (P p)) x = P x"
  using family_neighbours [OF assms(1-3)] assms(4) by (intro unlinked_other) auto

lemma family_unlinked:
  assumes f: "family P H L" and k: "k < ActiveAndValid" and p: "p \<in> set (L k)"
  shows "family (unlinked P (U2 (P p)) (U1 (P p))) (if U2 (P p) = 0 then H(k := U1 (P p)) else H) (L(k := remove1 p (L k)))"
proof -
  from p obtain xs ys where L: "L k = xs @ p # ys" by (auto simp: in_set_conv_decomp)
  obtain z where s: "seg P 0 (H k) (xs @ p # ys) z 0" using familyD(1) [OF f k] L by auto
  have d: "distinct (xs @ p # ys)" using familyD(2) [OF f k] L by simp
  from seg_unlinked [OF s d] obtain z' where
    z': "seg (unlinked P (U2 (P p)) (U1 (P p))) 0 (if U2 (P p) = 0 then U1 (P p) else H k) (xs @ ys) z' 0" by blast
  have "family (unlinked P (U2 (P p)) (U1 (P p))) (H(k := if U2 (P p) = 0 then U1 (P p) else H k)) (L(k := xs @ ys))"
  proof (rule family_change [OF f z'])
    show "distinct (xs @ ys)" using d by auto
    fix k' x assume k': "k' < ActiveAndValid" "k' \<noteq> k" "x \<in> set (L k')"
    then have "x \<notin> set (L k)" using familyD(3) [OF f k k'(1), of x] by auto
    moreover from this have "unlinked P (U2 (P p)) (U1 (P p)) x = P x"
      by (intro unlinked_elsewhere [OF f k p])
    ultimately show "U1 (unlinked P (U2 (P p)) (U1 (P p)) x) = U1 (P x) \<and> U2 (unlinked P (U2 (P p)) (U1 (P p)) x) = U2 (P x) \<and> x \<notin> set (xs @ ys)"
      by (auto simp: L)
  qed
  moreover have "remove1 p (L k) = xs @ ys" using d by (simp add: L remove1_append)
  ultimately show ?thesis by (cases "U2 (P p) = 0") (simp_all add: fun_upd_idem)
qed

text \<open>Linking.\<close>

definition linked :: "(u32 \<Rightarrow> ppd) \<Rightarrow> u32 \<Rightarrow> u32 \<Rightarrow> u32 \<Rightarrow> ppd" where
  "linked P h p = (let P1 = P(p := (P p)\<lparr>U1 := h, U2 := 0\<rparr>) in if h = 0 then P1 else P1(h := (P1 h)\<lparr>U2 := p\<rparr>))"

lemma MiLinkPpd_eq: "MiLinkPpd k p s = s\<lparr>Ppds := linked (Ppds s) (PageLists s k) p, PageLists := (PageLists s)(k := p)\<rparr>"
  by (simp add: MiLinkPpd_def linked_def upd_ppd_def Let_def)

lemma family_linked:
  assumes f: "family P H L" and k: "k < ActiveAndValid" and p: "p \<noteq> 0" "\<And>k'. k' < ActiveAndValid \<Longrightarrow> p \<notin> set (L k')"
  shows "family (linked P (H k) p) (H(k := p)) (L(k := p # L k))"
proof -
  obtain z where s: "seg P 0 (H k) (L k) z 0" using familyD(1) [OF f k] by auto
  have d: "distinct (L k)" using familyD(2) [OF f k] .
  let ?P1 = "P(p := (P p)\<lparr>U1 := H k, U2 := 0\<rparr>)"
  have s1: "seg ?P1 0 (H k) (L k) z 0" using s p(2) [OF k] by (simp add: seg_upd)
  have h: "H k = (if L k = [] then 0 else hd (L k))" using seg_first [OF s] .
  have nn: "0 \<notin> set (L k)" using seg_not_null [OF s] .
  have "\<exists>z. seg (linked P (H k) p) 0 p (p # L k) z 0"
  proof (cases "H k = 0")
    case True
    with h nn have "L k = []" by (cases "L k") auto
    with True p(1) show ?thesis by (simp add: linked_def)
  next
    case False
    have "H k \<noteq> p" using h False p(2) [OF k] by (auto split: if_splits)
    then show ?thesis using seg_back [OF s1 d, of p] False p(1) by (auto simp: linked_def Let_def)
  qed
  then obtain z' where z': "seg (linked P (H k) p) 0 p (p # L k) z' 0" by blast
  show ?thesis
  proof (rule family_change [OF f z'])
    show "distinct (p # L k)" using d p(2) [OF k] by simp
    fix k' x assume k': "k' < ActiveAndValid" "k' \<noteq> k" "x \<in> set (L k')"
    then have x: "x \<notin> set (L k)" "x \<noteq> p" using familyD(3) [OF f k k'(1), of x] p(2) by auto
    then have "H k = 0 \<or> x \<noteq> H k" using h by (auto split: if_splits)
    with x show "U1 (linked P (H k) p x) = U1 (P x) \<and> U2 (linked P (H k) p x) = U2 (P x) \<and> x \<notin> set (p # L k)"
      by (auto simp: linked_def Let_def)
  qed
qed

lemma family_agree:
  assumes "family P H L" "\<And>k x. k < ActiveAndValid \<Longrightarrow> x \<in> set (L k) \<Longrightarrow> U1 (P' x) = U1 (P x) \<and> U2 (P' x) = U2 (P x)"
  shows "family P' H L"
proof -
  have "seg P' 0 (H k) (L k) z 0 \<longleftrightarrow> seg P 0 (H k) (L k) z 0" if "k < ActiveAndValid" for k z
    using assms(2) [OF that] by (intro seg_agree) auto
  with assms(1) show ?thesis by (simp add: family_def)
qed

subsection \<open>The lists of a state\<close>

definition all_ppds :: "mm \<Rightarrow> u32 set" where
  "all_ppds s = (\<lambda>i. MmPfnPpd s (of_nat i)) ` {..<unat (PhysicalMemoryPages s)}"

text \<open>The lists \<open>L\<close> are those of the state, and each has exactly the descriptors with its location.\<close>

definition page_lists :: "mm \<Rightarrow> (page_location \<Rightarrow> u32 list) \<Rightarrow> bool" where
  "page_lists s L \<longleftrightarrow> family (Ppds s) (PageLists s) L \<and>
     (\<forall>k<ActiveAndValid. set (L k) = {p \<in> all_ppds s. PageLocation (Ppds s p) = k})"

definition mm_sized :: "mm \<Rightarrow> bool" where
  "mm_sized s \<longleftrightarrow> MmPpdDatabase s = MM_PPD_START \<and> unat (PhysicalMemoryPages s) \<le> 2 ^ 20"

definition moved :: "u32 \<Rightarrow> page_location \<Rightarrow> page_location \<Rightarrow> (page_location \<Rightarrow> u32 list) \<Rightarrow> page_location \<Rightarrow> u32 list" where
  "moved p old new L = (let L' = L(old := remove1 p (L old)) in if new < ActiveAndValid then L'(new := p # L' new) else L')"

lemma unat_ppd_offset:
  assumes "k < 2 ^ 20"
  shows "unat (12 * of_nat k :: u32) = 12 * k"
proof -
  have "12 * k < 2 ^ 32" using assms by simp
  then have "unat (of_nat (12 * k) :: u32) = 12 * k" by (rule unat_of_nat_u32)
  then show ?thesis by simp
qed

lemma MmPfnPpd_unat:
  assumes "mm_sized s" "k < 2 ^ 20"
  shows "unat (MmPfnPpd s (of_nat k)) = 0xC8000000 + 12 * k"
proof -
  have "unat (0xC8000000 :: u32) + unat (12 * of_nat k :: u32) < 2 ^ 32" using assms(2) by (simp add: unat_ppd_offset)
  then show ?thesis
    using assms unat_ppd_offset [OF assms(2)] by (simp add: MmPfnPpd_def mm_sized_def mm_areas unat_add_lem [THEN iffD1])
qed

lemma all_ppdsE:
  assumes "mm_sized s" "p \<in> all_ppds s"
  obtains k where "k < unat (PhysicalMemoryPages s)" "k < 2 ^ 20" "p = MmPfnPpd s (of_nat k)" "unat p = 0xC8000000 + 12 * k"
proof -
  obtain k where k: "k < unat (PhysicalMemoryPages s)" "p = MmPfnPpd s (of_nat k)" using assms(2) by (auto simp: all_ppds_def)
  from k(1) assms(1) have k2: "k < 2 ^ 20" by (simp add: mm_sized_def)
  from MmPfnPpd_unat [OF assms(1) this] k(2) have "unat p = 0xC8000000 + 12 * k" by simp
  from that [OF k(1) k2 k(2) this] show thesis .
qed

lemma all_ppds_not_null: "mm_sized s \<Longrightarrow> p \<in> all_ppds s \<Longrightarrow> p \<noteq> 0"
  by (auto elim!: all_ppdsE)

text \<open>The number of a descriptor leads back to it.\<close>

lemma MmGetPpdPfn_MmPfnPpd:
  assumes "mm_sized s" "k < 2 ^ 20"
  shows "MmGetPpdPfn s (MmPfnPpd s (of_nat k)) = of_nat k"
proof -
  have "MmGetPpdPfn s (MmPfnPpd s (of_nat k)) = of_nat (12 * k) div of_nat 12"
    by (simp add: MmGetPpdPfn_def MmPfnPpd_def)
  also have "\<dots> = of_nat (12 * k div 12)" using assms(2) by (intro of_nat_div_u32) simp_all
  finally show ?thesis by simp
qed

lemma MmPfnPpd_MmGetPpdPfn: "mm_sized s \<Longrightarrow> p \<in> all_ppds s \<Longrightarrow> MmPfnPpd s (MmGetPpdPfn s p) = p"
  using MmGetPpdPfn_MmPfnPpd by (metis all_ppdsE)

lemma MmPfnPpd_inj:
  assumes "mm_sized s" "i < 2 ^ 20" "j < 2 ^ 20" "MmPfnPpd s (of_nat i) = MmPfnPpd s (of_nat j)"
  shows "i = j"
proof -
  have "0xC8000000 + 12 * i = 0xC8000000 + 12 * j"
    using MmPfnPpd_unat [OF assms(1,2)] MmPfnPpd_unat [OF assms(1,3)] by (simp only: assms(4))
  then show ?thesis by simp
qed

text \<open>A change of location is a move between the lists, and touches nothing else.\<close>

lemma change_location:
  assumes l: "page_lists s L" and sz: "mm_sized s" and p: "p \<in> all_ppds s" and new: "PageLocation (Ppds s p) \<noteq> new"
  obtains P H where
    "MiChangePageLocation p new s = Inr (s\<lparr>Ppds := P, PageLists := H\<rparr>)"
    "page_lists (s\<lparr>Ppds := P, PageLists := H\<rparr>) (moved p (PageLocation (Ppds s p)) new L)"
    "PageLocation (P p) = new" "\<And>q. q \<noteq> p \<Longrightarrow> PageLocation (P q) = PageLocation (Ppds s q)"
    "\<And>q. q \<noteq> p \<Longrightarrow> \<not> PageLocation (Ppds s q) < ActiveAndValid \<Longrightarrow> q \<in> all_ppds s \<Longrightarrow> P q = Ppds s q"
    "\<And>q. ShareCount (P q) = ShareCount (Ppds s q)"
    "new = ActiveAndValid \<Longrightarrow> U1 (P p) = 0 \<and> U2 (P p) = 0"
proof -
  let ?old = "PageLocation (Ppds s p)" and ?P = "Ppds s" and ?H = "PageLists s"
  let ?L1 = "L(?old := remove1 p (L ?old))"
  note fam = l [unfolded page_lists_def, THEN conjunct1]
  have mem: "x \<in> set (L k) \<longleftrightarrow> x \<in> all_ppds s \<and> PageLocation (?P x) = k" if "k < ActiveAndValid" for x k
    using l that by (simp add: page_lists_def)
  have pL1: "p \<notin> set (?L1 k)" if "k < ActiveAndValid" for k
    using mem [OF that, of p] familyD(2) [OF fam that] by (auto simp: set_remove1_eq)
  define P1 where "P1 = (if ?old < ActiveAndValid then unlinked ?P (U2 (?P p)) (U1 (?P p)) else ?P)"
  define H1 where "H1 = (if ?old < ActiveAndValid \<and> U2 (?P p) = 0 then ?H(?old := U1 (?P p)) else ?H)"
  have u: "(if ?old < ActiveAndValid then MiUnlinkPpd p s else Inr s) = Inr (s\<lparr>Ppds := P1, PageLists := H1\<rparr>)"
    by (simp add: P1_def H1_def MiUnlinkPpd_eq)
  have f1: "family P1 H1 ?L1"
  proof (cases "?old < ActiveAndValid")
    case True
    then have "p \<in> set (L ?old)" using mem p by simp
    from family_unlinked [OF fam True this] True show ?thesis by (simp add: P1_def H1_def)
  next
    case False
    then have "?L1 k = L k" if "k < ActiveAndValid" for k using that by auto
    with fam False show ?thesis by (simp add: family_def P1_def H1_def)
  qed
  have "PageLocation (P1 q) = PageLocation (?P q)" "ShareCount (P1 q) = ShareCount (?P q)" for q
    by (auto simp: P1_def unlinked_def Let_def)
  note P1 = this
  have P1_other: "P1 q = ?P q" if "\<not> PageLocation (?P q) < ActiveAndValid" "q \<in> all_ppds s" for q
  proof (cases "?old < ActiveAndValid")
    case True
    then have "p \<in> set (L ?old)" "q \<notin> set (L ?old)" using mem p that by auto
    from unlinked_elsewhere [OF fam True this] True show ?thesis by (simp add: P1_def)
  qed (simp add: P1_def)
  define P2 where "P2 = (if new < ActiveAndValid then linked P1 (H1 new) p else P1(p := (P1 p)\<lparr>U1 := 0, U2 := 0\<rparr>))"
  define H2 where "H2 = (if new < ActiveAndValid then H1(new := p) else H1)"
  define P3 where "P3 = P2(p := (P2 p)\<lparr>PageLocation := new\<rparr>)"
  have eq: "MiChangePageLocation p new s = Inr (s\<lparr>Ppds := P3, PageLists := H2\<rparr>)"
    using new unfolding MiChangePageLocation_def u by (simp add: ASSERT_def u MiLinkPpd_eq upd_ppd_def P2_def P3_def H2_def Let_def)
  have f2: "family P2 H2 (moved p ?old new L)"
  proof (cases "new < ActiveAndValid")
    case True
    have "family (linked P1 (H1 new) p) (H1(new := p)) (?L1(new := p # ?L1 new))"
      using pL1 by (intro family_linked [OF f1 True all_ppds_not_null [OF sz p]])
    then show ?thesis using True unfolding P2_def H2_def moved_def Let_def by (simp only: if_True)
  next
    case False
    have "family P2 H1 ?L1" using f1 pL1 False by (intro family_agree [OF f1]) (auto simp: P2_def)
    with False show ?thesis by (simp add: H2_def moved_def Let_def)
  qed
  have P2: "PageLocation (P2 q) = PageLocation (?P q)" "ShareCount (P2 q) = ShareCount (?P q)" for q
    using P1 by (auto simp: P2_def linked_def Let_def)
  have head: "H1 new \<noteq> 0 \<Longrightarrow> H1 new \<in> set (?L1 new)" if "new < ActiveAndValid"
    using familyD(1) [OF f1 that] seg_first [of P1 0 "H1 new" "?L1 new" _ 0] by (metis hd_in_set)
  show thesis
  proof (rule that [OF eq])
    show "PageLocation (P3 p) = new" by (simp add: P3_def)
    show "PageLocation (P3 q) = PageLocation (?P q)" if "q \<noteq> p" for q using that P2 by (simp add: P3_def)
    show "ShareCount (P3 q) = ShareCount (?P q)" for q using P2 by (simp add: P3_def)
    show "new = ActiveAndValid \<Longrightarrow> U1 (P3 p) = 0 \<and> U2 (P3 p) = 0" by (simp add: P3_def P2_def)
    show "P3 q = ?P q" if q: "q \<noteq> p" "\<not> PageLocation (?P q) < ActiveAndValid" "q \<in> all_ppds s" for q
    proof -
      have "q \<noteq> H1 new \<or> H1 new = 0" if "new < ActiveAndValid"
      proof (rule ccontr)
        assume "\<not> (q \<noteq> H1 new \<or> H1 new = 0)"
        with head [OF that] new have "q \<in> set (L new)" by auto
        with mem [OF that, of q] q(2) that show False by simp
      qed
      then show ?thesis using q P1_other [OF q(2,3)] by (auto simp: P3_def P2_def linked_def Let_def)
    qed
    have "family P3 H2 (moved p ?old new L)" by (rule family_agree [OF f2]) (auto simp: P3_def)
    moreover have "set (moved p ?old new L k) = {x \<in> all_ppds s. PageLocation (P3 x) = k}" if "k < ActiveAndValid" for k
      using that mem [of k] familyD(2) [OF fam, of k] p P2 new
      by (auto simp: moved_def Let_def P3_def set_remove1_eq split: if_splits)
    ultimately show "page_lists (s\<lparr>Ppds := P3, PageLists := H2\<rparr>) (moved p ?old new L)"
      by (simp add: page_lists_def all_ppds_def MmPfnPpd_def)
  qed
qed

subsection \<open>Walks\<close>

text \<open>The pages \<open>A\<close> have gone to \<open>new\<close>; the other pages that are in no list are as they were.\<close>

definition relocated :: "u32 set \<Rightarrow> page_location \<Rightarrow> mm \<Rightarrow> mm \<Rightarrow> bool" where
  "relocated A new s s' \<longleftrightarrow>
     MmPpdDatabase s' = MmPpdDatabase s \<and> PhysicalMemoryPages s' = PhysicalMemoryPages s \<and>
     (\<forall>q. PageLocation (Ppds s' q) = (if q \<in> A then new else PageLocation (Ppds s q))) \<and>
     (\<forall>q. ShareCount (Ppds s' q) = ShareCount (Ppds s q)) \<and>
     (\<forall>q\<in>all_ppds s. q \<notin> A \<longrightarrow> \<not> PageLocation (Ppds s q) < ActiveAndValid \<longrightarrow> Ppds s' q = Ppds s q)"

definition only_lists :: "mm \<Rightarrow> mm \<Rightarrow> bool" where
  "only_lists s s' \<longleftrightarrow> s'\<lparr>Ppds := Ppds s, PageLists := PageLists s\<rparr> = s"

lemma only_lists_refl [simp]: "only_lists s s"
  by (simp add: only_lists_def)

lemma only_lists_trans [trans]: "only_lists s s1 \<Longrightarrow> only_lists s1 s2 \<Longrightarrow> only_lists s s2"
  unfolding only_lists_def by (cases s; cases s1; cases s2) simp

lemma only_listsD:
  "only_lists s s' \<Longrightarrow> MmPpdDatabase s' = MmPpdDatabase s \<and> PhysicalMemoryPages s' = PhysicalMemoryPages s \<and> Ptes s' = Ptes s
     \<and> Mmds s' = Mmds s \<and> HeapAlloc s' = HeapAlloc s \<and> HeapAllocs s' = HeapAllocs s \<and> HeapBlocks s' = HeapBlocks s
     \<and> LockTrace s' = LockTrace s \<and> WorkingSet s' = WorkingSet s \<and> Tlb s' = Tlb s \<and> Frames s' = Frames s \<and> WildWrites s' = WildWrites s
     \<and> MapHandle s' = MapHandle s \<and> GoingAway s' = GoingAway s \<and> MappedFiles s' = MappedFiles s"
  unfolding only_lists_def by (cases s; cases s') simp

lemma all_ppds_cong:
  "MmPpdDatabase s' = MmPpdDatabase s \<Longrightarrow> PhysicalMemoryPages s' = PhysicalMemoryPages s \<Longrightarrow> all_ppds s' = all_ppds s"
  by (simp add: all_ppds_def MmPfnPpd_def)

lemma mm_sized_cong:
  "MmPpdDatabase s' = MmPpdDatabase s \<Longrightarrow> PhysicalMemoryPages s' = PhysicalMemoryPages s \<Longrightarrow> mm_sized s' = mm_sized s"
  by (simp add: mm_sized_def)

lemma relocated_sized: "relocated A new s s' \<Longrightarrow> mm_sized s' = mm_sized s" "relocated A new s s' \<Longrightarrow> all_ppds s' = all_ppds s"
  by (simp_all add: relocated_def mm_sized_def all_ppds_def MmPfnPpd_def)

lemma relocated_refl [simp]: "relocated {} new s s"
  by (simp add: relocated_def)

lemma relocated_trans:
  assumes "relocated A new s s1" "relocated B new s1 s2"
  shows "relocated (A \<union> B) new s s2"
  using assms relocated_sized(2) [OF assms(1)] by (simp add: relocated_def)

lemma page_lists_cong:
  assumes "page_lists s L" "Ppds s' = Ppds s" "PageLists s' = PageLists s"
    "MmPpdDatabase s' = MmPpdDatabase s" "PhysicalMemoryPages s' = PhysicalMemoryPages s"
  shows "page_lists s' L"
  using assms all_ppds_cong [OF assms(4,5)] by (simp add: page_lists_def)

lemma page_lists_mem:
  "page_lists s L \<Longrightarrow> k < ActiveAndValid \<Longrightarrow> x \<in> set (L k) \<longleftrightarrow> x \<in> all_ppds s \<and> PageLocation (Ppds s x) = k"
  by (simp add: page_lists_def)

lemma page_lists_distinct: "page_lists s L \<Longrightarrow> k < ActiveAndValid \<Longrightarrow> distinct (L k)"
  using familyD(2) by (auto simp: page_lists_def)

text \<open>The head of a list and the link of its first page.\<close>

lemma page_lists_head:
  assumes "page_lists s L" "k < ActiveAndValid"
  shows "L k = [] \<Longrightarrow> PageLists s k = 0" "L k = x # xs \<Longrightarrow> PageLists s k = x \<and> x \<noteq> 0 \<and> U1 (Ppds s x) = (if xs = [] then 0 else hd xs)"
proof -
  obtain z where z: "seg (Ppds s) 0 (PageLists s k) (L k) z 0" using assms by (auto simp: page_lists_def family_def)
  show "L k = [] \<Longrightarrow> PageLists s k = 0" using z by simp
  show "L k = x # xs \<Longrightarrow> PageLists s k = x \<and> x \<noteq> 0 \<and> U1 (Ppds s x) = (if xs = [] then 0 else hd xs)"
    using z by (auto dest: seg_first)
qed

lemma move_first_page:
  assumes l: "page_lists s L" and sz: "mm_sized s" and k: "k < ActiveAndValid" "L k = x # xs" and new: "new \<noteq> k"
  obtains s' where "MiChangePageLocation x new s = Inr s'" "page_lists s' (moved x k new L)"
    "relocated {x} new s s'" "only_lists s s'"
proof -
  have x: "x \<in> all_ppds s" "PageLocation (Ppds s x) = k" using page_lists_mem [OF l k(1), of x] k(2) by auto
  from new x(2) have "PageLocation (Ppds s x) \<noteq> new" by simp
  from change_location [OF l sz x(1) this] obtain P H where
    *: "MiChangePageLocation x new s = Inr (s\<lparr>Ppds := P, PageLists := H\<rparr>)"
      "page_lists (s\<lparr>Ppds := P, PageLists := H\<rparr>) (moved x (PageLocation (Ppds s x)) new L)"
      "PageLocation (P x) = new" "\<And>q. q \<noteq> x \<Longrightarrow> PageLocation (P q) = PageLocation (Ppds s q)"
      "\<And>q. q \<noteq> x \<Longrightarrow> \<not> PageLocation (Ppds s q) < ActiveAndValid \<Longrightarrow> q \<in> all_ppds s \<Longrightarrow> P q = Ppds s q"
      "\<And>q. ShareCount (P q) = ShareCount (Ppds s q)" by metis
  show thesis
    by (rule that [OF *(1)]) (use * x(2) in \<open>auto simp: relocated_def only_lists_def\<close>)
qed

text \<open>How many pages the walk of an allocation takes, and whether it is enough.\<close>

definition quota :: "u32 \<Rightarrow> nat \<Rightarrow> nat \<Rightarrow> nat" where
  "quota count done len = (if done < unat count then min len (unat count - done) else len)"

lemma alloc_loop_takes:
  assumes "page_lists s L" "mm_sized s" "k < ActiveAndValid" "length pfns + length (L k) < 2 ^ 32"
  shows "\<exists>s'. alloc_loop count (PageLists s k) pfns s =
      Inr (length pfns < unat count \<and> unat count \<le> length pfns + length (L k) \<and> L k \<noteq> [],
        pfns @ map (MmGetPpdPfn s) (take (quota count (length pfns) (length (L k))) (L k)), s')
    \<and> page_lists s' (L(k := drop (quota count (length pfns) (length (L k))) (L k)))
    \<and> relocated (set (take (quota count (length pfns) (length (L k))) (L k))) ActiveAndValid s s' \<and> only_lists s s'"
  using assms
proof (induction "L k" arbitrary: L pfns s)
  case Nil
  then show ?case using page_lists_head(1) [OF Nil.prems(1,3)]
    by (subst alloc_loop.simps) (auto simp: fun_upd_idem)
next
  case (Cons x xs)
  note h = page_lists_head(2) [OF Cons.prems(1,3) Cons.hyps(2) [symmetric]]
  from Cons.prems(3) have "ActiveAndValid \<noteq> k" by auto
  from move_first_page [OF Cons.prems(1,2,3) Cons.hyps(2) [symmetric] this] obtain s1 where
    s1: "MiChangePageLocation x ActiveAndValid s = Inr s1" "page_lists s1 (moved x k ActiveAndValid L)"
      "relocated {x} ActiveAndValid s s1" "only_lists s s1" by blast
  have L1: "moved x k ActiveAndValid L = L(k := xs)" using Cons.hyps(2) [symmetric] by (simp add: moved_def)
  let ?p = "pfns @ [MmGetPpdPfn s x]"
  have head1: "PageLists s1 k = (if xs = [] then 0 else hd xs)"
    using page_lists_head [OF s1(2) Cons.prems(3)] by (cases xs) (auto simp: L1)
  have step: "alloc_loop count (PageLists s k) pfns s =
      (if of_nat (length ?p) = count then Inr (True, ?p, s1) else alloc_loop count (PageLists s1 k) ?p s1)"
    using h s1(1) by (subst alloc_loop.simps) (simp add: head1 Let_def)
  have len: "length ?p < 2 ^ 32" using Cons.prems(4) Cons.hyps(2) [symmetric] by simp
  have pfn: "MmGetPpdPfn s1 = MmGetPpdPfn s" using only_listsD [OF s1(4)] by (simp add: MmGetPpdPfn_def fun_eq_iff)
  show ?case
  proof (cases "of_nat (length ?p) = count")
    case True
    have "unat (of_nat (length ?p) :: u32) = length ?p" using len by (rule unat_of_nat_u32)
    then have c: "unat count = Suc (length pfns)" by (simp only: True) simp
    show ?thesis
      using True step s1 c Cons.hyps(2) [symmetric] by (simp add: quota_def L1)
  next
    case False
    have c: "unat count \<noteq> Suc (length pfns)" using False len by (auto simp: word_unat_eq_iff simp del: of_nat_Suc of_nat_add)
    have "\<exists>s'. alloc_loop count (PageLists s1 k) ?p s1 =
      Inr (length ?p < unat count \<and> unat count \<le> length ?p + length ((L(k := xs)) k) \<and> (L(k := xs)) k \<noteq> [],
        ?p @ map (MmGetPpdPfn s1) (take (quota count (length ?p) (length ((L(k := xs)) k))) ((L(k := xs)) k)), s')
      \<and> page_lists s' ((L(k := xs))(k := drop (quota count (length ?p) (length ((L(k := xs)) k))) ((L(k := xs)) k)))
      \<and> relocated (set (take (quota count (length ?p) (length ((L(k := xs)) k))) ((L(k := xs)) k))) ActiveAndValid s1 s' \<and> only_lists s1 s'"
      using Cons.prems(2,3,4) Cons.hyps(2) [symmetric] s1(2) relocated_sized(1) [OF s1(3)]
      by (intro Cons.hyps(1)) (simp_all add: L1 fun_upd_def)
    then obtain s' where s': "alloc_loop count (PageLists s1 k) ?p s1 =
      Inr (length ?p < unat count \<and> unat count \<le> length ?p + length xs \<and> xs \<noteq> [],
        ?p @ map (MmGetPpdPfn s1) (take (quota count (length ?p) (length xs)) xs), s')"
      "page_lists s' (L(k := drop (quota count (length ?p) (length xs)) xs))"
      "relocated (set (take (quota count (length ?p) (length xs)) xs)) ActiveAndValid s1 s'" "only_lists s1 s'" by auto
    have q: "quota count (length pfns) (Suc (length xs)) = Suc (quota count (Suc (length pfns)) (length xs))"
      using c by (auto simp: quota_def)
    have flag: "(length pfns < unat count \<and> unat count \<le> length pfns + length (x # xs)) =
        (length ?p < unat count \<and> unat count \<le> length ?p + length xs \<and> xs \<noteq> [])"
      using c by auto
    show ?thesis
      using step False s'(1,2) relocated_trans [OF s1(3) s'(3)] only_lists_trans [OF s1(4) s'(4)] flag
      by (simp add: Cons.hyps(2) [symmetric] q pfn del: quota_def)
  qed
qed

lemma page_lists_length:
  assumes "page_lists s L" "mm_sized s" "k < ActiveAndValid"
  shows "length (L k) \<le> 2 ^ 20"
proof -
  have "length (L k) = card (set (L k))" using page_lists_distinct [OF assms(1,3)] by (simp add: distinct_card)
  also have "\<dots> \<le> card (all_ppds s)" using page_lists_mem [OF assms(1,3)] by (intro card_mono) (auto simp: all_ppds_def)
  also have "\<dots> \<le> unat (PhysicalMemoryPages s)" unfolding all_ppds_def by (metis card_image_le card_lessThan finite_lessThan)
  finally show ?thesis using assms(2) by (simp add: mm_sized_def)
qed

lemma ALIGN_UP_pages: "n < 2 ^ 20 \<Longrightarrow> ALIGN_UP (of_nat n * PAGE_SIZE) PAGE_SIZE = of_nat n * PAGE_SIZE"
proof -
  have "(push_bit 12 (of_nat n) :: u32) AND mask 12 = 0" by (rule bit_word_eqI) (auto simp: bit_simps)
  then show ?thesis by (simp add: ALIGN_UP_def PAGE_SIZE_def push_bit_eq_mult mask_eq_exp_minus_1)
qed

lemma ALLOC_PAGE_COUNT_pages:
  assumes "n < 2 ^ 20"
  shows "unat (ALLOC_PAGE_COUNT (of_nat n * PAGE_SIZE)) = n"
proof -
  have "ALLOC_PAGE_COUNT (of_nat n * PAGE_SIZE) = of_nat (n * 4096) div of_nat 4096"
    using ALIGN_UP_pages [OF assms] by (simp add: ALLOC_PAGE_COUNT_def PAGE_SIZE_def)
  also have "\<dots> = of_nat (n * 4096 div 4096)" using assms by (intro of_nat_div_u32) simp_all
  finally have "ALLOC_PAGE_COUNT (of_nat n * PAGE_SIZE) = of_nat n" by simp
  then show ?thesis using assms by simp
qed

subsection \<open>Allocation\<close>

text \<open>The two blocks that an allocation needs: the array of page numbers and the descriptor.\<close>

definition array_block :: "mm \<Rightarrow> u32" where
  "array_block s = HeapAlloc s (HeapAllocs s) (HeapBlocks s)"

definition mmd_block :: "mm \<Rightarrow> u32" where
  "mmd_block s = HeapAlloc s (HeapAllocs s + 1) (insert (array_block s) (HeapBlocks s))"

definition heap_gives :: "mm \<Rightarrow> bool" where
  "heap_gives s \<longleftrightarrow> array_block s \<noteq> 0 \<and> mmd_block s \<noteq> 0 \<and> array_block s \<notin> HeapBlocks s \<and> mmd_block s \<noteq> array_block s"

text \<open>The pages that are free, in the order in which they are given out.\<close>

definition available :: "(page_location \<Rightarrow> u32 list) \<Rightarrow> u32 list" where
  "available L = L FreePageList @ L ZeroedPageList"

definition without :: "nat \<Rightarrow> (page_location \<Rightarrow> u32 list) \<Rightarrow> page_location \<Rightarrow> u32 list" where
  "without n L = L(FreePageList := drop n (L FreePageList),
     ZeroedPageList := drop (n - length (L FreePageList)) (L ZeroedPageList))"

lemma take_min_length: "take (min (length xs) n) xs = take n xs"
  by (simp add: min_def)

lemma drop_min_length: "drop (min (length xs) n) xs = drop n xs"
  by (simp add: min_def)

text \<open>Both walks together.\<close>

definition both_walks :: "u32 \<Rightarrow> mm \<Rightarrow> (bool \<times> u32 list \<times> mm) mm_result" where
  "both_walks count s = and_then (alloc_loop count (PageLists s FreePageList) [] s) (\<lambda>(finished, pfns, s2).
     if \<not> finished \<and> of_nat (length pfns) < count then alloc_loop count (PageLists s2 ZeroedPageList) pfns s2
     else Inr (finished, pfns, s2))"

lemma both_walks_take:
  assumes l: "page_lists s L" and sz: "mm_sized s" and count: "0 < unat count"
  shows "\<exists>fin s'. both_walks count s = Inr (fin, map (MmGetPpdPfn s) (take (unat count) (available L)), s')
    \<and> page_lists s' (without (unat count) L)
    \<and> relocated (set (take (unat count) (available L))) ActiveAndValid s s' \<and> only_lists s s'"
proof -
  let ?F = "L FreePageList" and ?Z = "L ZeroedPageList" and ?n = "unat count"
  have len: "length ?F \<le> 2 ^ 20" "length ?Z \<le> 2 ^ 20" using page_lists_length [OF l sz] by simp_all
  have q1: "quota count (length ([] :: u32 list)) (length ?F) = min (length ?F) ?n" using count by (simp add: quota_def)
  from alloc_loop_takes [OF l sz, of FreePageList "[]" count] len(1) obtain s1 where s1:
    "alloc_loop count (PageLists s FreePageList) [] s = Inr (?n \<le> length ?F \<and> ?F \<noteq> [], map (MmGetPpdPfn s) (take ?n ?F), s1)"
    "page_lists s1 (L(FreePageList := drop ?n ?F))" "relocated (set (take ?n ?F)) ActiveAndValid s s1" "only_lists s s1"
    using count unfolding q1 by (auto simp: take_min_length drop_min_length)
  show ?thesis
  proof (cases "?n \<le> length ?F")
    case True
    with count have "?F \<noteq> []" by auto
    with True s1 show ?thesis
      by (intro exI [of _ True] exI [of _ s1]) (simp add: both_walks_def available_def without_def fun_upd_idem)
  next
    case False
    have lt: "of_nat (length ?F) < count" using False len(1) by (simp add: word_less_nat_alt)
    have all: "take ?n ?F = ?F" "drop ?n ?F = []" using False by simp_all
    have pfn: "MmGetPpdPfn s1 = MmGetPpdPfn s" using only_listsD [OF s1(4)] by (simp add: MmGetPpdPfn_def fun_eq_iff)
    have q2: "quota count (length (map (MmGetPpdPfn s) ?F)) (length ?Z) = min (length ?Z) (?n - length ?F)" using False by (simp add: quota_def)
    have Z: "(L(FreePageList := [])) ZeroedPageList = ?Z" by simp
    have "length (map (MmGetPpdPfn s) ?F) + length ((L(FreePageList := [])) ZeroedPageList) < 2 ^ 32" using len by simp
    from alloc_loop_takes [OF s1(2) [unfolded all] _ _ this, of count] relocated_sized(1) [OF s1(3)] sz obtain fin s2 where s2:
      "alloc_loop count (PageLists s1 ZeroedPageList) (map (MmGetPpdPfn s) ?F) s1 =
        Inr (fin, map (MmGetPpdPfn s) ?F @ map (MmGetPpdPfn s) (take (?n - length ?F) ?Z), s2)"
      "page_lists s2 (L(FreePageList := [], ZeroedPageList := drop (?n - length ?F) ?Z))"
      "relocated (set (take (?n - length ?F) ?Z)) ActiveAndValid s1 s2" "only_lists s1 s2"
      unfolding Z q2 by (auto simp: take_min_length drop_min_length pfn simp del: fun_upd_apply)
    have "both_walks count s = Inr (fin, map (MmGetPpdPfn s) (take ?n (available L)), s2)"
      using s1(1) s2(1) lt False by (simp add: both_walks_def all available_def)
    moreover have "relocated (set (take ?n (available L))) ActiveAndValid s s2"
      using relocated_trans [OF s1(3) s2(3)] by (simp add: all available_def)
    ultimately show ?thesis using s2(2) only_lists_trans [OF s1(4) s2(4)] False by (auto simp: without_def all)
  qed
qed

lemma available_count:
  assumes "page_lists s L" "mm_sized s"
  shows "length (available L) \<le> unat (PhysicalMemoryPages s)" "distinct (available L)" "set (available L) \<subseteq> all_ppds s"
proof -
  show d: "distinct (available L)" and s: "set (available L) \<subseteq> all_ppds s"
    using page_lists_mem [OF assms(1), of FreePageList] page_lists_mem [OF assms(1), of ZeroedPageList]
      page_lists_distinct [OF assms(1)] by (auto simp: available_def)
  have "length (available L) = card (set (available L))" using d by (simp add: distinct_card)
  also have "\<dots> \<le> card (all_ppds s)" using s by (intro card_mono) (auto simp: all_ppds_def)
  also have "\<dots> \<le> unat (PhysicalMemoryPages s)" unfolding all_ppds_def by (metis card_image_le card_lessThan finite_lessThan)
  finally show "length (available L) \<le> unat (PhysicalMemoryPages s)" .
qed

lemma alloc_with_walks:
  assumes "count \<le> PhysicalMemoryPages s" "PpdLock \<notin> held (LockTrace s)" "array_block s \<noteq> 0"
    and w: "both_walks count (snd (heap_alloc (s\<lparr>LockTrace := Acquired PpdLock # LockTrace s\<rparr>))) = Inr (fin, pfns, s3)"
  shows "MmAllocatePhysicalPages count s =
     (let s4 = release PpdLock (s3\<lparr>WildWrites := beyond (array_block s) (unat count) (length pfns) @ WildWrites s3\<rparr>);
          alloc = of_nat (length pfns)
      in and_then (MmAllocateMmd 0 (alloc * PAGE_SIZE) s4) (\<lambda>(m, s5).
         let n = unat (ALLOC_PAGE_COUNT (alloc * PAGE_SIZE));
             s6 = upd_mmd m (\<lambda>d. d\<lparr>PfnList := take n pfns @ drop (length pfns) (PfnList d)\<rparr>) s5;
             s7 = s6\<lparr>WildWrites := beyond (m + 20) n (length pfns) @ WildWrites s6\<rparr>
         in and_then (heap_free (array_block s) s7) (\<lambda>s8.
            Inr (if alloc < count then STATUS_PARTIAL_COMPLETION else STATUS_SUCCESS, m,
              upd_mmd m (\<lambda>d. d\<lparr>Flags := Flags d OR MDL_ALLOCATED\<rparr>) s8))))"
proof -
  obtain f1 p1 t1 where a: "alloc_loop count (PageLists s FreePageList) [] (snd (heap_alloc (s\<lparr>LockTrace := Acquired PpdLock # LockTrace s\<rparr>))) = Inr (f1, p1, t1)"
    using w by (auto simp: both_walks_def and_then_Inr heap_alloc_def Let_def)
  show ?thesis
    using assms(1) [unfolded not_less [symmetric]] assms(2,3) w a
    by (simp add: MmAllocatePhysicalPages_def both_walks_def acquire_def heap_alloc_def array_block_def Let_def split_beta)
qed

lemma page_lists_fields [simp]:
  "page_lists (s\<lparr>LockTrace := a\<rparr>) L = page_lists s L" "page_lists (s\<lparr>HeapAllocs := b\<rparr>) L = page_lists s L"
  "page_lists (s\<lparr>HeapBlocks := c\<rparr>) L = page_lists s L" "page_lists (s\<lparr>WildWrites := d\<rparr>) L = page_lists s L"
  "page_lists (s\<lparr>Mmds := e\<rparr>) L = page_lists s L" "page_lists (s\<lparr>Ptes := f\<rparr>) L = page_lists s L"
  "page_lists (s\<lparr>Tlb := g\<rparr>) L = page_lists s L" "page_lists (s\<lparr>WorkingSet := h\<rparr>) L = page_lists s L"
  "page_lists (s\<lparr>Frames := i\<rparr>) L = page_lists s L"
  by (simp_all add: page_lists_def all_ppds_def MmPfnPpd_def)

lemma relocated_fields:
  "Ppds t = Ppds s \<Longrightarrow> MmPpdDatabase t = MmPpdDatabase s \<Longrightarrow> PhysicalMemoryPages t = PhysicalMemoryPages s \<Longrightarrow>
   Ppds t' = Ppds s' \<Longrightarrow> MmPpdDatabase t' = MmPpdDatabase s' \<Longrightarrow> PhysicalMemoryPages t' = PhysicalMemoryPages s' \<Longrightarrow>
   relocated A new s s' \<Longrightarrow> relocated A new t t'"
  by (simp add: relocated_def all_ppds_def MmPfnPpd_def)

lemma allocate_pages:
  assumes l: "page_lists s L" and sz: "mm_sized s" and h: "heap_gives s" and lock: "PpdLock \<notin> held (LockTrace s)"
    and count: "0 < unat count" "unat count < 2 ^ 20" "count \<le> PhysicalMemoryPages s"
  shows "\<exists>s'. MmAllocatePhysicalPages count s =
      Inr (if length (available L) < unat count then STATUS_PARTIAL_COMPLETION else STATUS_SUCCESS, mmd_block s, s')
    \<and> page_lists s' (without (unat count) L)
    \<and> relocated (set (take (unat count) (available L))) ActiveAndValid s s'
    \<and> Mmds s' = (Mmds s)(mmd_block s \<mapsto> \<lparr>Flags = MDL_ALLOCATED, BaseVirtual = 0, MappedVirtual = 0, Offset = 0,
         PfnList = map (MmGetPpdPfn s) (take (unat count) (available L))\<rparr>)
    \<and> WildWrites s' = WildWrites s \<and> Ptes s' = Ptes s \<and> HeapBlocks s' = insert (mmd_block s) (HeapBlocks s)
    \<and> held (LockTrace s') = held (LockTrace s)"
proof -
  define s0 where "s0 = snd (heap_alloc (s\<lparr>LockTrace := Acquired PpdLock # LockTrace s\<rparr>))"
  have s0: "page_lists s0 L" "mm_sized s0" "MmGetPpdPfn s0 = MmGetPpdPfn s"
    using l sz by (simp_all add: s0_def heap_alloc_def Let_def mm_sized_def MmGetPpdPfn_def fun_eq_iff)
  let ?t = "take (unat count) (available L)"
  from both_walks_take [OF s0(1,2) count(1)] obtain fin s3 where w:
    "both_walks count s0 = Inr (fin, map (MmGetPpdPfn s) ?t, s3)" "page_lists s3 (without (unat count) L)"
    "relocated (set ?t) ActiveAndValid s0 s3" "only_lists s0 s3" unfolding s0(3) by blast
  note e = alloc_with_walks [OF count(3) lock _ w(1) [unfolded s0_def]]
  have len: "length ?t < 2 ^ 20" using count(2) by simp
  have lt: "(of_nat (length ?t) < count) = (length (available L) < unat count)"
    using len by (auto simp: word_less_nat_alt)
  have n: "unat (ALLOC_PAGE_COUNT (of_nat (length ?t) * PAGE_SIZE)) = length ?t" using ALLOC_PAGE_COUNT_pages [OF len] .
  have b: "\<And>a. beyond a (unat count) (length ?t) = []" "\<And>a. beyond a (length ?t) (length ?t) = []"
    by (auto simp: beyond_def)
  have z: "ALIGN_DOWN 0 PAGE_SIZE = 0" by (simp add: ALIGN_DOWN_def)
  note d = only_listsD [OF w(4)]
  show ?thesis
    using h d w(2) relocated_fields [OF _ _ _ _ _ _ w(3)] lock
    by (subst e) (auto simp: heap_gives_def lt n b MmAllocateMmd_def heap_alloc_def heap_free_def Let_def release_def upd_mmd_def
        s0_def array_block_def mmd_block_def z simp del: length_take)
qed

end
