(* ===== verification/MmHistory.thy ===== *)
theory MmHistory
  imports MmLists
begin

text \<open>
  Histories of the physical page operations: release, the round of the zero page thread, mapping and
  unmapping, and what all of them keep: a page belongs to one list, or to at most one memory descriptor.
\<close>

subsection \<open>Release\<close>

definition valid_frame :: "mm \<Rightarrow> u32 \<Rightarrow> bool" where
  "valid_frame s f \<longleftrightarrow> unat f < unat (PhysicalMemoryPages s)"

lemma valid_frame_ppd: "valid_frame s f \<Longrightarrow> MmPfnPpd s f \<in> all_ppds s"
  by (auto simp: valid_frame_def all_ppds_def intro!: image_eqI [of _ _ "unat f"])

lemma valid_frame_inj:
  assumes "mm_sized s" "valid_frame s f" "valid_frame s g" "MmPfnPpd s f = MmPfnPpd s g"
  shows "f = g"
proof -
  have "unat f < 2 ^ 20" "unat g < 2 ^ 20" using assms by (simp_all add: mm_sized_def valid_frame_def)
  from MmPfnPpd_inj [OF assms(1) this] assms(4) show ?thesis by (simp add: word_unat_eq_iff)
qed

lemma MmGetPpdPfn_valid:
  assumes "mm_sized s" "p \<in> all_ppds s"
  shows "valid_frame s (MmGetPpdPfn s p)"
proof -
  obtain k where "k < unat (PhysicalMemoryPages s)" "k < 2 ^ 20" "p = MmPfnPpd s (of_nat k)" using all_ppdsE [OF assms] by blast
  then show ?thesis by (simp add: MmGetPpdPfn_MmPfnPpd [OF assms(1)] valid_frame_def)
qed

lemma MmGetPpdPfn_inj:
  "mm_sized s \<Longrightarrow> p \<in> all_ppds s \<Longrightarrow> q \<in> all_ppds s \<Longrightarrow> MmGetPpdPfn s p = MmGetPpdPfn s q \<Longrightarrow> p = q"
  by (metis MmPfnPpd_MmGetPpdPfn)

lemma relocated_pfn:
  "relocated A new s s' \<Longrightarrow> MmPfnPpd s' = MmPfnPpd s" "relocated A new s s' \<Longrightarrow> MmGetPpdPfn s' = MmGetPpdPfn s"
  "relocated A new s s' \<Longrightarrow> valid_frame s' = valid_frame s"
  by (simp_all add: relocated_def MmPfnPpd_def MmGetPpdPfn_def valid_frame_def fun_eq_iff)

lemma change_relocates:
  assumes "page_lists s L" "mm_sized s" "p \<in> all_ppds s" "PageLocation (Ppds s p) \<noteq> new"
  shows "\<exists>s'. MiChangePageLocation p new s = Inr s' \<and> page_lists s' (moved p (PageLocation (Ppds s p)) new L)
    \<and> relocated {p} new s s' \<and> only_lists s s'"
proof -
  from change_location [OF assms] obtain P H where
    *: "MiChangePageLocation p new s = Inr (s\<lparr>Ppds := P, PageLists := H\<rparr>)"
      "page_lists (s\<lparr>Ppds := P, PageLists := H\<rparr>) (moved p (PageLocation (Ppds s p)) new L)"
      "PageLocation (P p) = new" "\<And>q. q \<noteq> p \<Longrightarrow> PageLocation (P q) = PageLocation (Ppds s q)"
      "\<And>q. q \<noteq> p \<Longrightarrow> \<not> PageLocation (Ppds s q) < ActiveAndValid \<Longrightarrow> q \<in> all_ppds s \<Longrightarrow> P q = Ppds s q"
      "\<And>q. ShareCount (P q) = ShareCount (Ppds s q)" by metis
  show ?thesis
    by (rule exI [of _ "s\<lparr>Ppds := P, PageLists := H\<rparr>"]) (use * in \<open>auto simp: relocated_def only_lists_def\<close>)
qed

lemma free_loop_releases:
  assumes "page_lists s L" "mm_sized s" "distinct pfns"
    "\<And>f. f \<in> set pfns \<Longrightarrow> valid_frame s f \<and> PageLocation (Ppds s (MmPfnPpd s f)) = ActiveAndValid"
  shows "\<exists>s' L'. free_pages_loop pfns s = Inr s' \<and> page_lists s' L'
    \<and> relocated (MmPfnPpd s ` set pfns) FreePageList s s' \<and> only_lists s s'"
  using assms
proof (induction pfns arbitrary: s L)
  case (Cons f fs)
  have f: "valid_frame s f" "PageLocation (Ppds s (MmPfnPpd s f)) = ActiveAndValid" using Cons.prems(4) by simp_all
  from change_relocates [OF Cons.prems(1,2) valid_frame_ppd [OF f(1)], of FreePageList] f(2) obtain s1 L1 where
    s1: "MiChangePageLocation (MmPfnPpd s f) FreePageList s = Inr s1" "page_lists s1 L1"
      "relocated {MmPfnPpd s f} FreePageList s s1" "only_lists s s1" by auto
  note r = relocated_pfn [OF s1(3)] relocated_sized(1) [OF s1(3)]
  have "valid_frame s1 g \<and> PageLocation (Ppds s1 (MmPfnPpd s1 g)) = ActiveAndValid" if "g \<in> set fs" for g
  proof -
    from that Cons.prems(3,4) have g: "g \<noteq> f" "valid_frame s g" "PageLocation (Ppds s (MmPfnPpd s g)) = ActiveAndValid" by auto
    then have "MmPfnPpd s g \<noteq> MmPfnPpd s f" using valid_frame_inj [OF Cons.prems(2) g(2) f(1)] by auto
    with g s1(3) show ?thesis by (simp add: r relocated_def)
  qed
  from Cons.IH [OF s1(2) _ _ this] Cons.prems(2,3) r obtain s' L' where
    s': "free_pages_loop fs s1 = Inr s'" "page_lists s' L'" "relocated (MmPfnPpd s ` set fs) FreePageList s1 s'" "only_lists s1 s'"
    by auto
  from relocated_trans [OF s1(3) s'(3)] only_lists_trans [OF s1(4) s'(4)] s'(1,2) s1(1) show ?case by auto
qed auto

subsection \<open>The zero page thread\<close>

text \<open>The frame that a round clears: every page of the round is cleared through the same translation.\<close>

definition cleared_frame :: "mm \<Rightarrow> u32 \<Rightarrow> u32" where
  "cleared_frame s pfn = (case Tlb s (ALIGN_DOWN MM_HYPERSPACE_START PAGE_SIZE) of Some f \<Rightarrow> f | None \<Rightarrow> pfn)"

lemma zeroing_step:
  assumes "unat pfn < 2 ^ 20"
  shows "zero_page_at MM_HYPERSPACE_START (MiMapPageToHyperSpace pfn s) =
    s\<lparr>Ptes := (Ptes s)(MiGetPteAddress MM_HYPERSPACE_START := set_PageFrameNumber pfn 7),
      Tlb := (Tlb s)(ALIGN_DOWN MM_HYPERSPACE_START PAGE_SIZE := Some (cleared_frame s pfn)),
      Frames := (Frames s)(cleared_frame s pfn := (\<lambda>_. 0))\<rparr>"
proof -
  have "take_bit 20 pfn = pfn"
    using assms by (simp add: word_unat_eq_iff unsigned_take_bit_eq take_bit_nat_eq_self)
  then show ?thesis
    by (simp add: zero_page_at_def MiMapPageToHyperSpace_def MiWriteValidKernelPte_def upd_pte_def Let_def translate_def
        cleared_frame_def pte_fields split: option.splits)
qed

text \<open>What a round leaves of the state, apart from the lists and the one frame.\<close>

definition round_keeps :: "mm \<Rightarrow> mm \<Rightarrow> bool" where
  "round_keeps s s' \<longleftrightarrow> Mmds s' = Mmds s \<and> LockTrace s' = LockTrace s \<and>
     (\<forall>p. p \<noteq> MiGetPteAddress MM_HYPERSPACE_START \<longrightarrow> Ptes s' p = Ptes s p)"

lemma zero_loop_moves:
  assumes "page_lists s L" "mm_sized s"
  shows "\<exists>s' L'. zero_loop (PageLists s FreePageList) s = Inr s' \<and> page_lists s' L'
    \<and> relocated (set (L FreePageList)) ZeroedPageList s s' \<and> round_keeps s s'
    \<and> Frames s' = (if L FreePageList = [] then Frames s
        else (Frames s)(cleared_frame s (MmGetPpdPfn s (hd (L FreePageList))) := (\<lambda>_. 0)))"
  using assms
proof (induction "L FreePageList" arbitrary: L s)
  case Nil
  then show ?case using page_lists_head(1) [OF Nil.prems(1), of FreePageList]
    by (subst zero_loop.simps) (auto simp: round_keeps_def)
next
  case (Cons x xs)
  note L = Cons.hyps(2) [symmetric]
  have F: "FreePageList < ActiveAndValid" "ZeroedPageList \<noteq> FreePageList" by simp_all
  note h = page_lists_head(2) [OF Cons.prems(1) F(1) L]
  have x: "x \<in> all_ppds s" using page_lists_mem [OF Cons.prems(1) F(1), of x] L by auto
  let ?pfn = "MmGetPpdPfn s x"
  from MmGetPpdPfn_valid [OF Cons.prems(2) x] Cons.prems(2) have pfn: "unat ?pfn < 2 ^ 20"
    by (simp add: valid_frame_def mm_sized_def)
  define s0 where "s0 = zero_page_at MM_HYPERSPACE_START (MiMapPageToHyperSpace ?pfn s)"
  note s0 = s0_def [unfolded zeroing_step [OF pfn]]
  have l0: "page_lists s0 L" "mm_sized s0" using Cons.prems by (simp_all add: s0 mm_sized_def)
  from move_first_page [OF l0 F(1) L F(2)] obtain s1 where s1:
    "MiChangePageLocation x ZeroedPageList s0 = Inr s1" "page_lists s1 (moved x FreePageList ZeroedPageList L)"
    "relocated {x} ZeroedPageList s0 s1" "only_lists s0 s1" by blast
  have r1: "relocated {x} ZeroedPageList s s1"
    using relocated_fields [OF _ _ _ _ _ _ s1(3), of s s1] by (simp add: s0)
  let ?L1 = "moved x FreePageList ZeroedPageList L"
  have L1: "?L1 FreePageList = xs" using L by (simp add: moved_def)
  have head1: "PageLists s1 FreePageList = (if xs = [] then 0 else hd xs)"
    using page_lists_head [OF s1(2) F(1)] by (cases xs) (auto simp: L1)
  have step: "zero_loop (PageLists s FreePageList) s = zero_loop (PageLists s1 FreePageList) s1"
    using h s1(1) by (subst zero_loop.simps) (simp add: head1 Let_def s0_def)
  note k1 = only_listsD [OF s1(4)]
  from Cons.hyps(1) [OF L1 [symmetric] s1(2)] relocated_sized(1) [OF r1] Cons.prems(2) obtain s' L' where s':
    "zero_loop (PageLists s1 FreePageList) s1 = Inr s'" "page_lists s' L'"
    "relocated (set xs) ZeroedPageList s1 s'" "round_keeps s1 s'"
    "Frames s' = (if xs = [] then Frames s1 else (Frames s1)(cleared_frame s1 (MmGetPpdPfn s1 (hd xs)) := (\<lambda>_. 0)))"
    unfolding L1 by blast
  have c: "cleared_frame s1 q = cleared_frame s ?pfn" for q
    using k1 by (simp add: cleared_frame_def s0)
  have fr: "Frames s' = (Frames s)(cleared_frame s ?pfn := (\<lambda>_. 0))"
    using s'(5) k1 by (auto simp: c s0)
  have kp: "round_keeps s s'" using s'(4) k1 by (simp add: round_keeps_def s0)
  have "relocated (set (x # xs)) ZeroedPageList s s'" using relocated_trans [OF r1 s'(3)] by simp
  then show ?case using step s'(1,2) fr kp L by auto
qed

subsection \<open>Mapping and unmapping\<close>

text \<open>
  \<open>quiet\<close>: no page changes its location, pages in lists keep their links, and descriptors keep what they
  have allocated.
\<close>

definition allocated :: "mm \<Rightarrow> u32 \<Rightarrow> u32 list option" where
  "allocated s m = (case Mmds s m of None \<Rightarrow> None | Some d \<Rightarrow> if Flags d AND MDL_ALLOCATED \<noteq> 0 then Some (PfnList d) else None)"

definition quiet :: "mm \<Rightarrow> mm \<Rightarrow> bool" where
  "quiet s s' \<longleftrightarrow> MmPpdDatabase s' = MmPpdDatabase s \<and> PhysicalMemoryPages s' = PhysicalMemoryPages s \<and> PageLists s' = PageLists s
     \<and> (\<forall>q. PageLocation (Ppds s' q) = PageLocation (Ppds s q))
     \<and> (\<forall>q. PageLocation (Ppds s q) \<noteq> ActiveAndValid \<longrightarrow> U1 (Ppds s' q) = U1 (Ppds s q) \<and> U2 (Ppds s' q) = U2 (Ppds s q))
     \<and> allocated s' = allocated s"

lemma quiet_refl [simp]: "quiet s s"
  by (simp add: quiet_def)

lemma quiet_trans [trans]: "quiet s s1 \<Longrightarrow> quiet s1 s2 \<Longrightarrow> quiet s s2"
  by (simp add: quiet_def)

lemma quiet_page_lists:
  assumes "quiet s s'" "page_lists s L"
  shows "page_lists s' L"
proof -
  have all: "all_ppds s' = all_ppds s" using assms(1) by (intro all_ppds_cong) (simp_all add: quiet_def)
  have "family (Ppds s') (PageLists s) L"
  proof (rule family_agree)
    show "family (Ppds s) (PageLists s) L" using assms(2) by (simp add: page_lists_def)
    fix k x assume "k < ActiveAndValid" "x \<in> set (L k)"
    then have "PageLocation (Ppds s x) \<noteq> ActiveAndValid" using page_lists_mem [OF assms(2)] by auto
    with assms(1) show "U1 (Ppds s' x) = U1 (Ppds s x) \<and> U2 (Ppds s' x) = U2 (Ppds s x)" by (simp add: quiet_def)
  qed
  with assms all show ?thesis by (simp add: page_lists_def quiet_def)
qed

lemma quiet_sized: "quiet s s' \<Longrightarrow> mm_sized s' = mm_sized s"
  by (simp add: quiet_def mm_sized_def)

lemma quiet_pfn: "quiet s s' \<Longrightarrow> MmPfnPpd s' = MmPfnPpd s"
  by (simp add: quiet_def MmPfnPpd_def fun_eq_iff)

lemma allocated_cong: "Mmds s' = Mmds s \<Longrightarrow> allocated s' = allocated s"
  by (simp add: allocated_def fun_eq_iff)

lemma quiet_fields [simp, frame]:
  "quiet s (s\<lparr>LockTrace := a\<rparr>)" "quiet s (s\<lparr>WildWrites := b\<rparr>)" "quiet s (s\<lparr>WorkingSet := w\<rparr>)" "quiet s (s\<lparr>Ptes := p\<rparr>)"
  "quiet s (s\<lparr>Tlb := t\<rparr>)" "quiet s (s\<lparr>HeapAllocs := n, HeapBlocks := h\<rparr>)" "quiet s (s\<lparr>HeapBlocks := h\<rparr>)"
  by (simp_all add: quiet_def allocated_def fun_eq_iff)

lemma quiet_upd_ppd:
  assumes "\<And>d. PageLocation (f d) = PageLocation d"
    "PageLocation (Ppds s p) = ActiveAndValid \<or> (\<forall>d. U1 (f d) = U1 d \<and> U2 (f d) = U2 d)"
  shows "quiet s (upd_ppd p f s)"
  using assms by (auto simp: quiet_def upd_ppd_def allocated_def fun_eq_iff)

lemma quiet_steps [frame]:
  "acquire l s = Inr s1 \<Longrightarrow> quiet s s1" "quiet s (release l s)" "quiet s (upd_pte p f s)" "quiet s (MmInvalidateTlb va s)"
  "quiet s (MiWriteValidKernelPte p s)" "quiet s (MiZeroPte p s)" "quiet s (ws_store i g s)"
  by (auto simp: acquire_def release_def upd_pte_def MmInvalidateTlb_def MiWriteValidKernelPte_def MiZeroPte_def ws_store_def Let_def
      split: if_splits)

lemma quiet_heap_realloc: "heap_realloc old s = (q, s1) \<Longrightarrow> quiet s s1"
  by (auto simp: heap_realloc_def Let_def)

lemma quiet_add_ws: "add_ws_loop n p s = Inr (i, s') \<Longrightarrow> quiet s s'"
proof (induction n arbitrary: s)
  case (Suc n)
  show ?case
  proof (cases "ws_scan (WsEntries (WorkingSet s))")
    case None
    obtain q s1 where q: "heap_realloc (WsPages (WorkingSet s)) s = (q, s1)" by fastforce
    note q1 = quiet_heap_realloc [OF q]
    show ?thesis
    proof (cases "q = 0")
      case True
      then show ?thesis using Suc.prems None q quiet_trans [OF q1 quiet_fields(3)] by (auto simp: Let_def split: if_splits)
    next
      case False
      then obtain w where "add_ws_loop n p (s1\<lparr>WorkingSet := w\<rparr>) = Inr (i, s')"
        using Suc.prems None q by (auto simp: Let_def split: if_splits)
      from quiet_trans [OF quiet_trans [OF q1 quiet_fields(3)] Suc.IH [OF this]] show ?thesis .
    qed
  qed (use Suc.prems in \<open>auto simp: Let_def split: if_splits\<close>)
qed simp

text \<open>After the set has grown once there is an entry: the loop ends.\<close>

lemma ws_scan_append: "ws_scan (es @ e # es') = (if ws_scan es = None then (if Present e then map_option (\<lambda>i. i + length es + 1) (ws_scan es') else Some (length es)) else ws_scan es)"
  by (induction es) (auto simp: option.map_comp comp_def intro!: option.map_cong split: option.splits)

lemma add_ws_ends: "MiAddPageToWorkingSet p s \<noteq> Inl MmNeverEnds"
proof -
  have "unat MM_WORKING_SET_INCREMENT = Suc 99" by (simp add: MM_WORKING_SET_INCREMENT_def)
  then have z: "replicate (unat MM_WORKING_SET_INCREMENT) zero_entry = zero_entry # replicate 99 zero_entry" by (simp only: replicate_Suc)
  have "\<not> Present zero_entry" by (simp add: zero_entry_def)
  then have none: "ws_scan (es @ replicate (unat MM_WORKING_SET_INCREMENT) zero_entry) \<noteq> None" for es
    unfolding z ws_scan_append by (cases "ws_scan es") auto
  then show ?thesis
    by (auto simp: MiAddPageToWorkingSet_def numeral_2_eq_2 Let_def none split: option.splits prod.splits)
qed

lemma quiet_count_mapping:
  assumes "count_mapping line p pte addws mode s = Inr s'" "PageLocation (Ppds s p) = ActiveAndValid"
  shows "quiet s s'"
proof -
  from assms(1) obtain s1 s5 where a: "acquire PpdLock s = Inr s1" and s': "s' = release PpdLock s5" and
    b: "(let t1 = upd_ppd p (\<lambda>d. d\<lparr>ShareCount := ShareCount d + 1\<rparr>) s1
        in if ShareCount (Ppds t1 p) = 1
           then let s2 = upd_ppd p (\<lambda>d. d\<lparr>U2 := pte, U1 := -1, ProcessorMode := ucast mode\<rparr>) t1
                in if addws
                   then and_then (MiAddPageToWorkingSet p s2) (\<lambda>(i, s3).
                     let s4 = upd_ppd p (\<lambda>d. d\<lparr>U1 := i\<rparr>) s3
                     in if i = -1 then Inl (MmBugCheck (BugCheck MEMORY_MANAGEMENT line p 0 0))
                        else Inr (if mode = KernelMode then upd_ppd p (\<lambda>d. d\<lparr>BelongsToSystemWorkingSet := True\<rparr>) s4 else s4))
                   else Inr s2
           else Inr t1) = Inr s5"
    by (auto simp: count_mapping_def and_then_Inr)
  have act: "quiet s t \<Longrightarrow> PageLocation (Ppds t p) = ActiveAndValid" for t using assms(2) by (simp add: quiet_def)
  have upd: "quiet s (upd_ppd p f t)" if "quiet s t" "\<And>d. PageLocation (f d) = PageLocation d" for f t
    by (rule quiet_trans [OF that(1) quiet_upd_ppd]) (use that act in auto)
  have q1: "quiet s s1" using a by (rule quiet_steps(1))
  have "quiet s s5"
  proof (cases "ShareCount (Ppds s1 p) + 1 = 1 \<and> addws")
    case False
    with b show ?thesis by (auto simp: Let_def upd_ppd_def [of p "\<lambda>d. d\<lparr>ShareCount := ShareCount d + 1\<rparr>" s1] split: if_splits
        intro!: upd [unfolded upd_ppd_def] upd q1)
  next
    case True
    let ?t = "upd_ppd p (\<lambda>d. d\<lparr>U2 := pte, U1 := -1, ProcessorMode := ucast mode\<rparr>) (upd_ppd p (\<lambda>d. d\<lparr>ShareCount := ShareCount d + 1\<rparr>) s1)"
    from True b obtain i s3 where i: "MiAddPageToWorkingSet p ?t = Inr (i, s3)" and
      s5: "s5 = (if mode = KernelMode then upd_ppd p (\<lambda>d. d\<lparr>BelongsToSystemWorkingSet := True\<rparr>) (upd_ppd p (\<lambda>d. d\<lparr>U1 := i\<rparr>) s3)
        else upd_ppd p (\<lambda>d. d\<lparr>U1 := i\<rparr>) s3)"
      by (auto simp: Let_def upd_ppd_def and_then_Inr split: if_splits)
    have "quiet s ?t" by (intro upd q1) simp_all
    then have "quiet s s3" using quiet_add_ws i quiet_trans unfolding MiAddPageToWorkingSet_def by blast
    then show ?thesis by (auto simp: s5 intro!: upd)
  qed
  then show ?thesis unfolding s' by (rule quiet_trans) (rule quiet_steps)
qed

lemma quiet_mapped:
  assumes "map_mmd_loop pfns pte va addws mode s = Inr s'" "\<And>f. f \<in> set pfns \<Longrightarrow> PageLocation (Ppds s (MmPfnPpd s f)) = ActiveAndValid"
  shows "quiet s s'"
  using assms
proof (induction pfns arbitrary: pte va s)
  case (Cons f fs)
  let ?s1 = "upd_pte pte (set_PageFrameNumber f) (MiWriteValidKernelPte pte s)"
  have q1: "quiet s ?s1" by (rule quiet_trans [OF quiet_steps(5) quiet_steps(3)])
  from Cons.prems(1) obtain s2 where s2: "count_mapping 1816 (MmPfnPpd ?s1 f) pte addws mode ?s1 = Inr s2"
    and r: "map_mmd_loop fs (MiNextPte pte) (va + PAGE_SIZE) addws mode (MmInvalidateTlb va s2) = Inr s'"
    by (auto simp: and_then_Inr Let_def)
  have "PageLocation (Ppds ?s1 (MmPfnPpd ?s1 f)) = ActiveAndValid"
    using Cons.prems(2) q1 quiet_pfn [OF q1] by (simp add: quiet_def)
  from quiet_trans [OF quiet_trans [OF q1 quiet_count_mapping [OF s2 this]] quiet_steps(4)]
  have q: "quiet s (MmInvalidateTlb va s2)" .
  have "quiet (MmInvalidateTlb va s2) s'"
    by (rule Cons.IH [OF r]) (use Cons.prems(2) q quiet_pfn [OF q] in \<open>simp add: quiet_def\<close>)
  with q show ?case by (rule quiet_trans)
qed simp

lemma allocated_upd_mmd:
  assumes "\<And>d. (Flags (f d) AND MDL_ALLOCATED \<noteq> 0) = (Flags d AND MDL_ALLOCATED \<noteq> 0)" "\<And>d. PfnList (f d) = PfnList d"
  shows "quiet s (upd_mmd m f s)"
  using assms by (auto simp: quiet_def allocated_def upd_mmd_def fun_eq_iff split: option.splits)

lemma other_flags:
  "(w OR MDL_MAPPED) AND MDL_ALLOCATED = w AND MDL_ALLOCATED"
  "(w AND NOT MDL_MAPPED) AND MDL_ALLOCATED = w AND MDL_ALLOCATED"
  "(w AND NOT MDL_LOCKED) AND MDL_ALLOCATED = w AND MDL_ALLOCATED"
  by (rule bit_word_eqI, auto simp: mdl_flags bit_simps)+

lemma quiet_map_locked:
  assumes "MmMapLockedPages m mode isimage addws s = Inr (v, s')" "Mmds s m = Some d"
    "\<And>f. f \<in> set (PfnList d) \<Longrightarrow> PageLocation (Ppds s (MmPfnPpd s f)) = ActiveAndValid"
  shows "quiet s s'"
proof -
  from assms(1) obtain se s1 where a: "acquire PageDatabaseLock s = Inr s1" and
    r: "(case find_range (pages_between (fst se) (snd se)) (fst se) (of_nat (length (PfnList d))) s1 of
         None \<Rightarrow> Inr (0, release PageDatabaseLock s1)
       | Some v \<Rightarrow> and_then (map_mmd_loop (PfnList d) (MiGetPteAddress v) v addws mode s1) (\<lambda>s1.
           Inr (v + Offset d,
             upd_mmd m (\<lambda>d. d\<lparr>Flags := Flags d OR MDL_MAPPED, MappedVirtual := v\<rparr>) (release PageDatabaseLock s1)))) = Inr (v, s')"
    using assms(2) by (auto simp: MmMapLockedPages_def and_then_Inr split_beta acquire_def the_mmd_def split: if_splits)
  have q1: "quiet s s1" using a by (rule quiet_steps)
  show ?thesis
  proof (cases "find_range (pages_between (fst se) (snd se)) (fst se) (of_nat (length (PfnList d))) s1")
    case None
    with r have "s' = release PageDatabaseLock s1" by simp
    then show ?thesis using quiet_trans [OF q1 quiet_steps(2)] by simp
  next
    case (Some u)
    with r obtain s2 where s2: "map_mmd_loop (PfnList d) (MiGetPteAddress u) u addws mode s1 = Inr s2" and
      s': "s' = upd_mmd m (\<lambda>d. d\<lparr>Flags := Flags d OR MDL_MAPPED, MappedVirtual := u\<rparr>) (release PageDatabaseLock s2)"
      by (auto simp: and_then_Inr)
    have "quiet s1 s2" by (rule quiet_mapped [OF s2]) (use assms(3) q1 quiet_pfn [OF q1] in \<open>simp add: quiet_def\<close>)
    from quiet_trans [OF quiet_trans [OF q1 this] quiet_steps(2)]
    show ?thesis unfolding s' by (rule quiet_trans) (rule allocated_upd_mmd; simp add: other_flags)
  qed
qed

lemma quiet_unmap_loop: "unmap_loop n pte va s = Inr s' \<Longrightarrow> quiet s s'"
proof (induction n arbitrary: pte va s)
  case (Suc n)
  let ?p = "MmPfnPpd s (PageFrameNumber (Ptes s pte))"
  let ?s1 = "upd_ppd ?p (\<lambda>d. d\<lparr>ShareCount := ShareCount d - 1\<rparr>) (MiZeroPte pte s)"
  have q1: "quiet s ?s1" by (rule quiet_trans [OF quiet_steps(6)]) (rule quiet_upd_ppd; simp)
  from Suc.prems obtain s3 where s3: "(if ShareCount (Ppds ?s1 ?p) = 0
      then and_then (MiRemovePageFromWorkingSet ?p ?s1) (\<lambda>s2. Inr (upd_ppd ?p (\<lambda>d. d\<lparr>U1 := -1, BelongsToSystemWorkingSet := False\<rparr>) s2))
      else Inr ?s1) = Inr s3" and r: "unmap_loop n (MiNextPte pte) (va + PAGE_SIZE) (MmInvalidateTlb va s3) = Inr s'"
    by (auto simp: and_then_Inr Let_def)
  have "quiet ?s1 s3"
  proof (cases "ShareCount (Ppds ?s1 ?p) = 0")
    case True
    with s3 have act: "PageLocation (Ppds ?s1 ?p) = ActiveAndValid" and
      eq: "s3 = upd_ppd ?p (\<lambda>d. d\<lparr>U1 := -1, BelongsToSystemWorkingSet := False\<rparr>) (ws_store (U1 (Ppds ?s1 ?p)) (\<lambda>e. e\<lparr>Present := False\<rparr>) ?s1)"
      by (auto simp: MiRemovePageFromWorkingSet_def and_then_Inr)
    show ?thesis unfolding eq
      by (rule quiet_trans [OF quiet_steps(7)], rule quiet_upd_ppd) (use act in \<open>simp_all add: ws_store_def Let_def\<close>)
  qed (use s3 in simp)
  from quiet_trans [OF quiet_trans [OF q1 this] quiet_steps(4)] Suc.IH [OF r] show ?case by (rule quiet_trans)
qed simp

lemma quiet_unmap: "MiUnmapPhysicalPages va count s = Inr s' \<Longrightarrow> quiet s s'"
  by (auto simp: MiUnmapPhysicalPages_def and_then_Inr Let_def
      intro!: quiet_trans [OF quiet_trans [OF quiet_trans [OF quiet_steps(1) quiet_steps(1)] quiet_unmap_loop] quiet_trans [OF quiet_steps(2) quiet_steps(2)]])

subsection \<open>Histories\<close>

text \<open>The pages of a descriptor are in use, each once, and no two descriptors have a page in common.\<close>

definition owns_ok :: "mm \<Rightarrow> bool" where
  "owns_ok s \<longleftrightarrow>
     (\<forall>m pfns. allocated s m = Some pfns \<longrightarrow> distinct pfns \<and>
        (\<forall>f\<in>set pfns. valid_frame s f \<and> PageLocation (Ppds s (MmPfnPpd s f)) = ActiveAndValid)) \<and>
     (\<forall>m m' pfns pfns'. m \<noteq> m' \<longrightarrow> allocated s m = Some pfns \<longrightarrow> allocated s m' = Some pfns' \<longrightarrow> set pfns \<inter> set pfns' = {})"

definition pages_consistent :: "mm \<Rightarrow> bool" where
  "pages_consistent s \<longleftrightarrow> mm_sized s \<and> (\<exists>L. page_lists s L) \<and> owns_ok s"

lemma owns_okD:
  "owns_ok s \<Longrightarrow> allocated s m = Some pfns \<Longrightarrow> distinct pfns"
  "owns_ok s \<Longrightarrow> allocated s m = Some pfns \<Longrightarrow> f \<in> set pfns \<Longrightarrow> valid_frame s f \<and> PageLocation (Ppds s (MmPfnPpd s f)) = ActiveAndValid"
  "owns_ok s \<Longrightarrow> allocated s m = Some pfns \<Longrightarrow> allocated s m' = Some pfns' \<Longrightarrow> m \<noteq> m' \<Longrightarrow> set pfns \<inter> set pfns' = {}"
  unfolding owns_ok_def by blast+

text \<open>
  Owners that lose their pages, or take pages that were in no use, are still consistent when the pages of the
  others stay in use.
\<close>

lemma owns_ok_change:
  assumes "owns_ok s"
    and other: "\<And>k. k \<noteq> m \<Longrightarrow> allocated s' k = allocated s k"
    and keep: "\<And>k pfns f. k \<noteq> m \<Longrightarrow> allocated s k = Some pfns \<Longrightarrow> f \<in> set pfns \<Longrightarrow>
      valid_frame s' f \<and> PageLocation (Ppds s' (MmPfnPpd s' f)) = ActiveAndValid"
    and new: "\<And>pfns. allocated s' m = Some pfns \<Longrightarrow> distinct pfns \<and>
      (\<forall>f\<in>set pfns. valid_frame s' f \<and> PageLocation (Ppds s' (MmPfnPpd s' f)) = ActiveAndValid \<and>
        (\<forall>k fs. k \<noteq> m \<longrightarrow> allocated s k = Some fs \<longrightarrow> f \<notin> set fs))"
  shows "owns_ok s'"
  unfolding owns_ok_def
proof (intro conjI allI impI)
  fix k pfns assume k: "allocated s' k = Some pfns"
  show "distinct pfns" using k new other owns_okD(1) [OF assms(1)] by (cases "k = m") auto
  show "\<forall>f\<in>set pfns. valid_frame s' f \<and> PageLocation (Ppds s' (MmPfnPpd s' f)) = ActiveAndValid"
    using k new other keep by (cases "k = m") auto
next
  fix k k' pfns pfns' assume *: "k \<noteq> k'" "allocated s' k = Some pfns" "allocated s' k' = Some pfns'"
  show "set pfns \<inter> set pfns' = {}"
    using * new other owns_okD(3) [OF assms(1), of k pfns k' pfns'] by (cases "k = m"; cases "k' = m") fastforce+
qed

lemma quiet_consistent: "quiet s s' \<Longrightarrow> pages_consistent s \<Longrightarrow> pages_consistent s'"
  using quiet_page_lists [of s s'] quiet_pfn [of s s'] quiet_sized [of s s']
  by (auto simp: pages_consistent_def owns_ok_def quiet_def valid_frame_def)

lemma allocate_consistent:
  assumes c: "pages_consistent s" and h: "heap_gives s" "Mmds s (mmd_block s) = None" and n: "0 < unat count" "unat count < 2 ^ 20"
    and a: "MmAllocatePhysicalPages count s = Inr (status, m, s')"
  shows "pages_consistent s' \<and> (SUCCESS status \<longrightarrow> (\<exists>pfns. allocated s' m = Some pfns))"
proof (cases "PhysicalMemoryPages s < count")
  case True
  with a c show ?thesis by (auto simp: MmAllocatePhysicalPages_def SUCCESS_def status_simps)
next
  case False
  then have lock: "PpdLock \<notin> held (LockTrace s)" using a by (auto simp: MmAllocatePhysicalPages_def and_then_Inr acquire_def split: if_splits)
  from c obtain L where l: "page_lists s L" and sz: "mm_sized s" and o: "owns_ok s" by (auto simp: pages_consistent_def)
  let ?t = "take (unat count) (available L)"
  from False have "count \<le> PhysicalMemoryPages s" by simp
  from allocate_pages [OF l sz h(1) lock n this] a have
    l': "page_lists s' (without (unat count) L)" and r: "relocated (set ?t) ActiveAndValid s s'" and
    md: "Mmds s' = (Mmds s)(mmd_block s \<mapsto> \<lparr>Flags = MDL_ALLOCATED, BaseVirtual = 0, MappedVirtual = 0, Offset = 0, PfnList = map (MmGetPpdPfn s) ?t\<rparr>)"
    by auto
  from allocate_pages [OF l sz h(1) lock n \<open>count \<le> PhysicalMemoryPages s\<close>] a have mm: "m = mmd_block s" by auto
  have al: "allocated s' = (allocated s)(mmd_block s \<mapsto> map (MmGetPpdPfn s) ?t)"
    by (auto simp: allocated_def md mdl_flags fun_eq_iff)
  note p = relocated_pfn [OF r]
  have t: "set ?t \<subseteq> all_ppds s" "distinct ?t" using available_count [OF l sz] set_take_subset by fastforce+
  have tfree: "PageLocation (Ppds s x) \<noteq> ActiveAndValid" if "x \<in> set ?t" for x
    using in_set_takeD [OF that] page_lists_mem [OF l] by (auto simp: available_def)
  have "owns_ok s'"
  proof (rule owns_ok_change [OF o, of "mmd_block s"])
    fix k pfns f assume "k \<noteq> mmd_block s" "allocated s k = Some pfns" "f \<in> set pfns"
    then show "valid_frame s' f \<and> PageLocation (Ppds s' (MmPfnPpd s' f)) = ActiveAndValid"
      using owns_okD(2) [OF o] r by (auto simp: p relocated_def)
  next
    fix pfns assume "allocated s' (mmd_block s) = Some pfns"
    then have pf: "pfns = map (MmGetPpdPfn s) ?t" by (simp add: al)
    have "inj_on (MmGetPpdPfn s) (set ?t)" using t(1) MmGetPpdPfn_inj [OF sz] by (auto intro!: inj_onI)
    with t(2) have "distinct pfns" unfolding pf by (simp add: distinct_map)
    moreover have "valid_frame s' f \<and> PageLocation (Ppds s' (MmPfnPpd s' f)) = ActiveAndValid \<and>
        (\<forall>k fs. k \<noteq> mmd_block s \<longrightarrow> allocated s k = Some fs \<longrightarrow> f \<notin> set fs)" if f: "f \<in> set pfns" for f
    proof -
      from f obtain x where x: "x \<in> set ?t" "f = MmGetPpdPfn s x" by (auto simp: pf)
      then have fx: "x \<in> all_ppds s" "MmPfnPpd s f = x" using t(1) MmPfnPpd_MmGetPpdPfn [OF sz] by auto
      have "f \<notin> set fs" if "allocated s k = Some fs" for k fs
        using owns_okD(2) [OF o that, of f] tfree [OF x(1)] fx(2) by auto
      moreover have "valid_frame s' f" using MmGetPpdPfn_valid [OF sz fx(1)] x(2) by (simp add: p)
      ultimately show ?thesis using fx x(1) r by (simp add: p relocated_def)
    qed
    ultimately show "distinct pfns \<and> (\<forall>f\<in>set pfns. valid_frame s' f \<and> PageLocation (Ppds s' (MmPfnPpd s' f)) = ActiveAndValid \<and>
        (\<forall>k fs. k \<noteq> mmd_block s \<longrightarrow> allocated s k = Some fs \<longrightarrow> f \<notin> set fs))" by blast
  qed (simp add: al)
  with l' sz relocated_sized(1) [OF r] show ?thesis by (auto simp: pages_consistent_def al mm)
qed

lemma release_consistent:
  assumes c: "pages_consistent s" and m: "allocated s m = Some pfns" and f: "MmFreePhysicalPages m s = Inr s'"
  shows "pages_consistent s' \<and> allocated s' m = None \<and> PageLocation ` Ppds s' ` MmPfnPpd s' ` set pfns \<subseteq> {FreePageList}"
proof -
  from c obtain L where l: "page_lists s L" and sz: "mm_sized s" and o: "owns_ok s" by (auto simp: pages_consistent_def)
  from m obtain d where d: "Mmds s m = Some d" "PfnList d = pfns" by (auto simp: allocated_def split: option.splits if_splits)
  from f d obtain s0 s1 where s0: "acquire PpdLock s = Inr s0" and s1: "free_pages_loop pfns s0 = Inr s1" and
    s': "s' = upd_mmd m (\<lambda>d. d\<lparr>Flags := Flags d AND NOT MDL_ALLOCATED\<rparr>) (release PpdLock s1)"
    by (auto simp: MmFreePhysicalPages_def and_then_Inr the_mmd_def acquire_def split: if_splits)
  note q = quiet_steps(1) [OF s0]
  have s0': "page_lists s0 L" "mm_sized s0" "Mmds s0 = Mmds s" using quiet_page_lists [OF q l] quiet_sized [OF q] sz s0
    by (auto simp: acquire_def split: if_splits)
  have "valid_frame s0 f \<and> PageLocation (Ppds s0 (MmPfnPpd s0 f)) = ActiveAndValid" if "f \<in> set pfns" for f
    using owns_okD(2) [OF o m that] q quiet_pfn [OF q] by (simp add: quiet_def valid_frame_def)
  from free_loop_releases [OF s0'(1,2) owns_okD(1) [OF o m] this] s1 obtain L' where
    l': "page_lists s1 L'" and r: "relocated (MmPfnPpd s0 ` set pfns) FreePageList s0 s1" and k: "only_lists s0 s1" by auto
  have r': "relocated (MmPfnPpd s ` set pfns) FreePageList s s'"
    using relocated_fields [OF _ _ _ _ _ _ r, of s s'] s0 quiet_pfn [OF q]
    by (auto simp: s' acquire_def upd_mmd_def release_def split: if_splits)
  note p = relocated_pfn [OF r']
  have al: "allocated s' = (allocated s)(m := None)"
    using only_listsD [OF k] s0'(3) d
    by (auto simp: s' allocated_def upd_mmd_def release_def fun_eq_iff mdl_flags and.assoc split: option.splits)
  have "owns_ok s'"
  proof (rule owns_ok_change [OF o, of m])
    fix k fs g assume *: "k \<noteq> m" "allocated s k = Some fs" "g \<in> set fs"
    then have g: "g \<notin> set pfns" "valid_frame s g" "PageLocation (Ppds s (MmPfnPpd s g)) = ActiveAndValid"
      using owns_okD(3) [OF o m *(2)] owns_okD(2) [OF o] by auto
    then have "MmPfnPpd s g \<notin> MmPfnPpd s ` set pfns"
      using valid_frame_inj [OF sz] owns_okD(2) [OF o m] by blast
    with g r' show "valid_frame s' g \<and> PageLocation (Ppds s' (MmPfnPpd s' g)) = ActiveAndValid" by (simp add: p relocated_def)
  qed (simp_all add: al)
  moreover have "page_lists s' L'" using l' by (simp add: s' upd_mmd_def release_def)
  moreover have "mm_sized s'" using sz relocated_sized(1) [OF r'] by simp
  ultimately show ?thesis using r' by (auto simp: pages_consistent_def al p relocated_def)
qed

lemma zero_round_consistent:
  assumes c: "pages_consistent s" and z: "zero_round s = Inr s'"
  shows "pages_consistent s'"
proof -
  from c obtain L where l: "page_lists s L" and sz: "mm_sized s" and o: "owns_ok s" by (auto simp: pages_consistent_def)
  from z obtain s0 s1 where s0: "acquire PpdLock s = Inr s0" and z1: "zero_loop (PageLists s0 FreePageList) s0 = Inr s1"
    and s': "s' = release PpdLock s1" by (auto simp: zero_round_def and_then_Inr)
  note q = quiet_steps(1) [OF s0]
  from zero_loop_moves [OF quiet_page_lists [OF q l]] quiet_sized [OF q] sz z1 obtain L' where
    l': "page_lists s1 L'" and r: "relocated (set (L FreePageList)) ZeroedPageList s0 s1" and k: "round_keeps s0 s1" by auto
  have r': "relocated (set (L FreePageList)) ZeroedPageList s s'"
    using relocated_fields [OF _ _ _ _ _ _ r, of s s'] s0 by (auto simp: s' acquire_def release_def split: if_splits)
  note p = relocated_pfn [OF r']
  have "allocated s' = allocated s"
    using k s0 by (intro allocated_cong) (auto simp: s' release_def round_keeps_def acquire_def split: if_splits)
  moreover have "PageLocation (Ppds s' x) = ActiveAndValid" if "PageLocation (Ppds s x) = ActiveAndValid" for x
    using r' that page_lists_mem [OF l, of FreePageList x] by (auto simp: relocated_def)
  ultimately have "owns_ok s'" using o by (simp add: owns_ok_def p)
  moreover have "page_lists s' L'" using l' by (simp add: s' release_def)
  ultimately show ?thesis using sz relocated_sized(1) [OF r'] by (auto simp: pages_consistent_def)
qed

lemma quiet_unlock: "quiet s (unlock_loop pfns s)"
proof (induction pfns arbitrary: s)
  case (Cons f fs)
  show ?case using quiet_trans [OF quiet_steps(7) Cons.IH] by simp
qed simp

lemma unlock_consistent: "pages_consistent s \<Longrightarrow> MmUnlockPages m s = Inr s' \<Longrightarrow> pages_consistent s'"
  by (erule quiet_consistent [rotated])
    (auto simp: MmUnlockPages_def and_then_Inr other_flags
      intro!: quiet_trans [OF quiet_trans [OF quiet_trans [OF quiet_steps(1) quiet_unlock] quiet_steps(2)] allocated_upd_mmd])

lemma unmap_locked_consistent: "pages_consistent s \<Longrightarrow> MmUnmapLockedPages m s = Inr s' \<Longrightarrow> pages_consistent s'"
  by (erule quiet_consistent [rotated])
    (auto simp: MmUnmapLockedPages_def and_then_Inr other_flags intro!: quiet_trans [OF quiet_unmap allocated_upd_mmd])

lemma map_locked_consistent:
  assumes "pages_consistent s" "allocated s m = Some pfns" "MmMapLockedPages m mode isimage addws s = Inr (v, s')"
  shows "pages_consistent s'"
proof -
  from assms(2) obtain d where "Mmds s m = Some d" "PfnList d = pfns" by (auto simp: allocated_def split: option.splits if_splits)
  then have "quiet s s'" using assms owns_okD(2) by (intro quiet_map_locked [OF assms(3)]) (auto simp: pages_consistent_def)
  then show ?thesis using assms(1) by (rule quiet_consistent)
qed

lemma free_block_consistent:
  assumes "pages_consistent s" "free_mmd_block m s = Inr s'"
  shows "pages_consistent s'"
proof -
  from assms(2) have s': "s' = s\<lparr>HeapBlocks := HeapBlocks s - {m}, Mmds := (Mmds s)(m := None)\<rparr>"
    by (auto simp: free_mmd_block_def and_then_Inr heap_free_def split: if_splits)
  have al: "allocated s' = (allocated s)(m := None)" by (auto simp: s' allocated_def fun_eq_iff)
  have fields: "valid_frame s' = valid_frame s" "MmPfnPpd s' = MmPfnPpd s" "Ppds s' = Ppds s"
    by (simp_all add: s' valid_frame_def MmPfnPpd_def fun_eq_iff)
  have o: "owns_ok s" using assms(1) by (simp add: pages_consistent_def)
  have "owns_ok s'"
    by (rule owns_ok_change [OF o, of m]) (use owns_okD(2) [OF o] in \<open>simp_all add: al fields\<close>)
  with assms(1) show ?thesis by (auto simp: pages_consistent_def s' mm_sized_def)
qed

lemma free_mmd_consistent:
  assumes "pages_consistent s" "MmFreeMmd m s = Inr s'"
  shows "pages_consistent s'"
proof -
  from assms(2) obtain s1 s2 s3 where
    *: "if_flag m MDL_MAPPED (MmUnmapLockedPages m) s = Inr s1" "if_flag m MDL_LOCKED (MmUnlockPages m) s1 = Inr s2"
      "if_flag m MDL_ALLOCATED (MmFreePhysicalPages m) s2 = Inr s3" "free_mmd_block m s3 = Inr s'"
    by (auto simp: MmFreeMmd_def and_then_Inr)
  have s1: "pages_consistent s1" using *(1) assms(1) unmap_locked_consistent by (auto simp: if_flag_def and_then_Inr split: if_splits)
  have s2: "pages_consistent s2" using *(2) s1 unlock_consistent by (auto simp: if_flag_def and_then_Inr split: if_splits)
  have "pages_consistent s3"
  proof (cases "allocated s2 m")
    case None
    then have "s3 = s2" using *(3) by (auto simp: if_flag_def and_then_Inr the_mmd_def allocated_def split: option.splits if_splits)
    with s2 show ?thesis by simp
  next
    case (Some pfns)
    then have "MmFreePhysicalPages m s2 = Inr s3"
      using *(3) by (auto simp: if_flag_def and_then_Inr the_mmd_def allocated_def split: option.splits if_splits)
    from release_consistent [OF s2 Some this] show ?thesis by blast
  qed
  from free_block_consistent [OF this *(4)] show ?thesis .
qed

subsection \<open>The other operations\<close>

text \<open>A page of the database that no descriptor has allocated may change its location.\<close>

definition unowned :: "mm \<Rightarrow> u32 \<Rightarrow> bool" where
  "unowned s f \<longleftrightarrow> valid_frame s f \<and> (\<forall>m pfns. allocated s m = Some pfns \<longrightarrow> f \<notin> set pfns)"

lemma change_consistent:
  assumes c: "pages_consistent s" and f: "unowned s f" and ch: "MiChangePageLocation (MmPfnPpd s f) new s = Inr s'"
  shows "pages_consistent s' \<and> allocated s' = allocated s \<and> MmPfnPpd s' = MmPfnPpd s \<and> valid_frame s' = valid_frame s"
proof -
  from c obtain L where l: "page_lists s L" and sz: "mm_sized s" and o: "owns_ok s" by (auto simp: pages_consistent_def)
  have v: "valid_frame s f" using f by (simp add: unowned_def)
  from change_relocates [OF l sz valid_frame_ppd [OF v] PageLocation_change(1) [OF ch]] ch obtain L' where
    l': "page_lists s' L'" and r: "relocated {MmPfnPpd s f} new s s'" and k: "only_lists s s'" by auto
  note p = relocated_pfn [OF r]
  have al: "allocated s' = allocated s" using only_listsD [OF k] by (intro allocated_cong) simp
  have "PageLocation (Ppds s' (MmPfnPpd s g)) = PageLocation (Ppds s (MmPfnPpd s g))" if "allocated s m = Some pfns" "g \<in> set pfns" for m pfns g
  proof -
    have "g \<noteq> f" using f that by (auto simp: unowned_def)
    then have "MmPfnPpd s g \<noteq> MmPfnPpd s f" using valid_frame_inj [OF sz _ v] owns_okD(2) [OF o that] by auto
    with r show ?thesis by (simp add: relocated_def)
  qed
  with o have "owns_ok s'" unfolding owns_ok_def al p by metis
  with l' sz relocated_sized(1) [OF r] al p show ?thesis by (auto simp: pages_consistent_def)
qed

lemma reserve_loop_consistent:
  "reserve_loop n i s = Inr s' \<Longrightarrow> pages_consistent s \<Longrightarrow> (\<And>j. j < n \<Longrightarrow> unowned s (i + of_nat j))
    \<Longrightarrow> pages_consistent s' \<and> allocated s' = allocated s \<and> valid_frame s' = valid_frame s"
proof (induction n arbitrary: i s)
  case (Suc n)
  from Suc.prems(1) obtain s1 where s1: "MiChangePageLocation (MmPfnPpd s i) ReservedOrBadPage s = Inr s1" and
    r: "reserve_loop n (i + 1) s1 = Inr s'" by (auto simp: and_then_Inr)
  have "unowned s i" using Suc.prems(3) [of 0] by simp
  note c = change_consistent [OF Suc.prems(2) this s1]
  have "unowned s1 (i + 1 + of_nat j)" if "j < n" for j
    using Suc.prems(3) [of "Suc j"] that c by (simp add: unowned_def add.assoc)
  with Suc.IH [OF r] c show ?case by simp
qed simp

definition reserved_frames :: "u32 \<Rightarrow> u32 \<Rightarrow> u32 list" where
  "reserved_frames lo hi =
     (let first = drop_bit PAGE_SHIFT (ALIGN_DOWN lo PAGE_SIZE); last = drop_bit PAGE_SHIFT (ALIGN_UP hi PAGE_SIZE)
      in map (\<lambda>j. first + of_nat j) [0..<unat last - unat first])"

lemma quiet_allocated: "quiet s s' \<Longrightarrow> allocated s' = allocated s" "quiet s s' \<Longrightarrow> valid_frame s' = valid_frame s"
  by (simp_all add: quiet_def valid_frame_def fun_eq_iff)

lemma quiet_unowned: "quiet s s' \<Longrightarrow> unowned s' f = unowned s f"
  by (simp add: unowned_def quiet_allocated)

lemma reserve_consistent:
  assumes "pages_consistent s" "\<forall>f\<in>set (reserved_frames lo hi). unowned s f" "MmReservePhysicalAddressRange lo hi s = Inr s'"
  shows "pages_consistent s' \<and> allocated s' = allocated s \<and> valid_frame s' = valid_frame s"
proof -
  let ?a = "drop_bit PAGE_SHIFT (ALIGN_DOWN lo PAGE_SIZE)" and ?b = "drop_bit PAGE_SHIFT (ALIGN_UP hi PAGE_SIZE)"
  from assms(3) obtain s0 s1 where s0: "acquire PpdLock s = Inr s0" and s1: "reserve_loop (unat ?b - unat ?a) ?a s0 = Inr s1"
    and s': "s' = release PpdLock s1" by (auto simp: MmReservePhysicalAddressRange_def and_then_Inr Let_def)
  note q = quiet_steps(1) [OF s0]
  have "unowned s0 (?a + of_nat j)" if "j < unat ?b - unat ?a" for j
    using assms(2) that by (auto simp: quiet_unowned [OF q] reserved_frames_def Let_def)
  from reserve_loop_consistent [OF s1 quiet_consistent [OF q assms(1)] this] quiet_consistent [OF quiet_steps(2)] quiet_allocated [OF q]
  show ?thesis by (auto simp: s' quiet_allocated [OF quiet_steps(2)])
qed

text \<open>A mapping of pages that are in use.\<close>

lemma quiet_map_phys:
  assumes "map_phys_loop n pfn pte va addws mode s = Inr s'"
    "\<And>j. j < n \<Longrightarrow> PageLocation (Ppds s (MmPfnPpd s (take_bit 20 (pfn + of_nat j)))) = ActiveAndValid"
  shows "quiet s s'"
  using assms
proof (induction n arbitrary: pfn pte va s)
  case (Suc n)
  let ?s1 = "upd_pte pte (set_PageFrameNumber pfn) (MiWriteValidKernelPte pte s)"
  have q1: "quiet s ?s1" by (rule quiet_trans [OF quiet_steps(5) quiet_steps(3)])
  have w: "PageFrameNumber (Ptes ?s1 pte) = take_bit 20 pfn" by (simp add: upd_pte_def pte_fields)
  from Suc.prems(1) obtain s2 where s2: "count_mapping 149 (MmPfnPpd ?s1 (take_bit 20 pfn)) pte addws mode ?s1 = Inr s2"
    and r: "map_phys_loop n (pfn + 1) (MiNextPte pte) (va + PAGE_SIZE) addws mode (MmInvalidateTlb va s2) = Inr s'"
    unfolding map_phys_loop.simps Let_def w by (auto simp: and_then_Inr)
  have "PageLocation (Ppds ?s1 (MmPfnPpd ?s1 (take_bit 20 pfn))) = ActiveAndValid"
    using Suc.prems(2) [of 0] q1 quiet_pfn [OF q1] by (simp add: quiet_def)
  from quiet_trans [OF quiet_trans [OF q1 quiet_count_mapping [OF s2 this]] quiet_steps(4)]
  have q: "quiet s (MmInvalidateTlb va s2)" .
  have "quiet (MmInvalidateTlb va s2) s'"
    by (rule Suc.IH [OF r]) (use Suc.prems(2) [of "Suc _"] q quiet_pfn [OF q] in \<open>simp add: quiet_def add.assoc\<close>)
  with q show ?case by (rule quiet_trans)
qed simp

definition in_use :: "mm \<Rightarrow> u32 list \<Rightarrow> bool" where
  "in_use s fs \<longleftrightarrow> (\<forall>f\<in>set fs. PageLocation (Ppds s (MmPfnPpd s f)) = ActiveAndValid)"

lemma quiet_in_use: "quiet s s' \<Longrightarrow> in_use s' fs = in_use s fs"
  using quiet_pfn [of s s'] by (simp add: in_use_def quiet_def)

definition frames_from :: "u32 \<Rightarrow> u32 \<Rightarrow> u32 list" where
  "frames_from phys count = map (\<lambda>j. take_bit 20 (drop_bit PAGE_SHIFT phys + of_nat j)) [0..<unat count]"

lemma quiet_map_range:
  assumes "MmMapPhysicalPagesInRange lo hi phys count addws mode s = Inr (v, s')" "in_use s (frames_from phys count)"
  shows "quiet s s'"
proof -
  from assms(1) obtain s1 where a: "acquire PageDatabaseLock s = Inr s1" by (auto simp: MmMapPhysicalPagesInRange_def and_then_Inr)
  note q1 = quiet_steps(1) [OF a]
  show ?thesis
  proof (cases "find_range (pages_between (ALIGN_DOWN lo PAGE_SIZE) (ALIGN_UP hi PAGE_SIZE)) (ALIGN_DOWN lo PAGE_SIZE) count s1")
    case None
    with assms(1) a have "s' = release PageDatabaseLock s1" by (simp add: MmMapPhysicalPagesInRange_def Let_def)
    then show ?thesis using quiet_trans [OF q1 quiet_steps(2)] by simp
  next
    case (Some u)
    with assms(1) a obtain s2 where s2: "map_phys_loop (unat count) (drop_bit PAGE_SHIFT phys) (MiGetPteAddress u) u addws mode s1 = Inr s2"
      and s': "s' = release PageDatabaseLock s2" by (auto simp: MmMapPhysicalPagesInRange_def Let_def and_then_Inr)
    have "in_use s1 (frames_from phys count)" using assms(2) by (simp add: quiet_in_use [OF q1])
    then have "quiet s1 s2" by (intro quiet_map_phys [OF s2]) (simp add: in_use_def frames_from_def)
    from quiet_trans [OF quiet_trans [OF q1 this] quiet_steps(2)] show ?thesis unfolding s' .
  qed
qed

lemma quiet_map_pages_loop: "quiet s (map_pages_loop n pte va pfn s)"
proof (induction n arbitrary: pte va pfn s)
  case (Suc n)
  show ?case unfolding map_pages_loop.simps
    by (rule quiet_trans [OF quiet_trans [OF quiet_trans [OF quiet_steps(5) quiet_steps(3)] quiet_steps(4)] Suc.IH])
qed simp

lemma quiet_map_physical: "MiMapPhysicalPages va phys count s = Inr s' \<Longrightarrow> quiet s s'"
  by (auto simp: MiMapPhysicalPages_def Let_def and_then_Inr
      intro!: quiet_trans [OF quiet_trans [OF quiet_steps(1) quiet_map_pages_loop] quiet_steps(2)])

lemma map_mmd_consistent:
  assumes "pages_consistent s" "Mmds s m = Some d" "in_use s (PfnList d)" "MmMapLockedPages m mode isimage addws s = Inr (v, s')"
  shows "pages_consistent s' \<and> allocated s' = allocated s"
proof -
  have q: "quiet s s'" using assms(3) by (intro quiet_map_locked [OF assms(4,2)]) (simp add: in_use_def)
  show ?thesis using quiet_consistent [OF q assms(1)] quiet_allocated [OF q] by simp
qed

lemma in_use_allocated: "pages_consistent s \<Longrightarrow> allocated s m = Some pfns \<Longrightarrow> in_use s pfns"
  using owns_okD(2) by (auto simp: pages_consistent_def in_use_def)

text \<open>Descriptors that have allocated nothing: built, and locked.\<close>

lemma quiet_not_allocated:
  assumes "allocated s m = None" "\<And>d. (Flags (f d) AND MDL_ALLOCATED \<noteq> 0) = (Flags d AND MDL_ALLOCATED \<noteq> 0)"
  shows "quiet s (upd_mmd m f s)"
  using assms by (auto simp: quiet_def allocated_def upd_mmd_def fun_eq_iff split: option.splits if_splits)

lemma quiet_allocate_mmd:
  "Mmds s (array_block s) = None \<Longrightarrow> MmAllocateMmd va n s = Inr (m, s') \<Longrightarrow> quiet s s'"
  by (auto simp: MmAllocateMmd_def heap_alloc_def Let_def array_block_def quiet_def allocated_def fun_eq_iff split: if_splits)

lemma quiet_build: "allocated s m = None \<Longrightarrow> MmBuildMmdForNonpagedSpace m s = Inr s' \<Longrightarrow> quiet s s'"
  by (auto simp: MmBuildMmdForNonpagedSpace_def and_then_Inr Let_def intro!: quiet_not_allocated)

lemma quiet_lock_loop: "allocated s m = None \<Longrightarrow> quiet s (lock_loop m n i va s)"
proof (induction n arbitrary: i va s)
  case (Suc n)
  let ?f = "PageFrameNumber (Ptes s (MiGetPteAddress va))"
  let ?s1 = "upd_mmd m (\<lambda>d. d\<lparr>PfnList := (PfnList d)[i := ?f]\<rparr>) s"
  let ?s2 = "ws_store (U1 (Ppds ?s1 (MmPfnPpd ?s1 ?f))) (\<lambda>e. e\<lparr>LockedInWs := True\<rparr>) ?s1"
  have q: "quiet s ?s2" by (rule quiet_trans [OF quiet_not_allocated [OF Suc.prems] quiet_steps(7)]) simp
  then have "allocated ?s2 m = None" using Suc.prems by (simp add: quiet_allocated)
  from quiet_trans [OF q Suc.IH [OF this]] show ?case by (simp add: Let_def)
qed simp

lemma quiet_lock_pages:
  assumes "allocated s m = None" "MmLockPages m s = Inr s'"
  shows "quiet s s'"
proof -
  from assms(2) obtain s1 s2 n va where s1: "acquire WorkingSetLock s = Inr s1" and s2: "acquire PageDatabaseLock s1 = Inr s2" and
    s': "s' = upd_mmd m (\<lambda>d. d\<lparr>Flags := Flags d OR MDL_LOCKED\<rparr>) (release WorkingSetLock (release PageDatabaseLock (lock_loop m n 0 va s2)))"
    by (auto simp: MmLockPages_def and_then_Inr Let_def)
  have q2: "quiet s s2" by (rule quiet_trans [OF quiet_steps(1) [OF s1] quiet_steps(1) [OF s2]])
  have "allocated s2 m = None" using assms(1) by (simp add: quiet_allocated [OF q2])
  from quiet_trans [OF q2 quiet_trans [OF quiet_lock_loop [OF this] quiet_trans [OF quiet_steps(2) quiet_steps(2)]]]
  have q: "quiet s (release WorkingSetLock (release PageDatabaseLock (lock_loop m n 0 va s2)))" .
  have "(w OR MDL_LOCKED) AND MDL_ALLOCATED = w AND MDL_ALLOCATED" for w by (rule bit_word_eqI) (auto simp: mdl_flags bit_simps)
  then show ?thesis unfolding s' by (intro quiet_trans [OF q quiet_not_allocated]) (use assms(1) quiet_allocated [OF q] in simp_all)
qed

text \<open>Trimming, page faults and views.\<close>

lemma acquire_same: "acquire l s = Inr s1 \<Longrightarrow> Ptes s1 = Ptes s \<and> Ppds s1 = Ppds s"
  by (auto simp: acquire_def split: if_splits)

lemma trim_consistent:
  assumes c: "pages_consistent s" and f: "unowned s (PageFrameNumber (Ptes s (MiGetPteAddress va)))" and t: "MmTrimPage va s = Inr s'"
  shows "pages_consistent s'"
proof -
  let ?pte = "MiGetPteAddress va"
  let ?f = "PageFrameNumber (Ptes s ?pte)"
  from t obtain s1 s2 where s1: "acquire PpdLock s = Inr s1" and s2: "acquire PageDatabaseLock s1 = Inr s2"
    by (auto simp: MmTrimPage_def and_then_Inr)
  have pt: "Ptes s2 = Ptes s" using acquire_same [OF s1] acquire_same [OF s2] by simp
  let ?t = "\<lambda>g. if g then upd_ppd (MmPfnPpd s2 ?f) (\<lambda>d. d\<lparr>PpdModified := True\<rparr>) s2 else s2"
  have "\<exists>l g s3. MiChangePageLocation (MmPfnPpd s2 ?f) l (?t g) = Inr s3 \<and> s' = release PpdLock (release PageDatabaseLock
      (upd_pte ?pte (\<lambda>w. set_PteProtection (if Write w \<noteq> 0 then MM_READWRITE else MM_READONLY) w) (MiWriteTrimmedPte ?pte s3)))"
  proof (cases "Dirty (Ptes s ?pte) = 1")
    case True
    with t pt show ?thesis by (intro exI [of _ ModifiedPageList] exI [of _ True])
      (auto simp: MmTrimPage_def and_then_Inr Let_def s1 s2)
  next
    case False
    with t pt show ?thesis by (intro exI [of _ StandbyPageList] exI [of _ False])
      (auto simp: MmTrimPage_def and_then_Inr Let_def s1 s2)
  qed
  then obtain s3 l g where s3: "MiChangePageLocation (MmPfnPpd s2 ?f) l (?t g) = Inr s3" and
    s': "s' = release PpdLock (release PageDatabaseLock
      (upd_pte ?pte (\<lambda>w. set_PteProtection (if Write w \<noteq> 0 then MM_READWRITE else MM_READONLY) w) (MiWriteTrimmedPte ?pte s3)))"
    by blast
  have qt: "quiet s2 (?t g)" by (cases g) (simp_all add: quiet_upd_ppd)
  have q: "quiet s (?t g)" by (rule quiet_trans [OF quiet_trans [OF quiet_steps(1) [OF s1] quiet_steps(1) [OF s2]] qt])
  have e: "MmPfnPpd (?t g) = MmPfnPpd s2" by (rule quiet_pfn [OF qt])
  have ch: "MiChangePageLocation (MmPfnPpd (?t g) ?f) l (?t g) = Inr s3" unfolding e by (rule s3)
  have u: "unowned (?t g) ?f" unfolding quiet_unowned [OF q] by (rule f)
  note c3 = change_consistent [OF quiet_consistent [OF q c] u ch, THEN conjunct1]
  have "quiet s3 s'" unfolding s' MiWriteTrimmedPte_def
    by (rule quiet_trans [OF quiet_steps(3) quiet_trans [OF quiet_steps(3) quiet_trans [OF quiet_steps(2) quiet_steps(2)]]])
  then show ?thesis using c3 by (rule quiet_consistent)
qed

lemma fault_bugcheck_Inr [simp]: "fault_bugcheck va eip code \<noteq> Inr s"
  by (simp add: fault_bugcheck_def)

lemma quiet_map_cached: "map_cached_page va pte v f buffer s = Inr s' \<Longrightarrow> quiet s s'"
  by (auto simp: map_cached_page_def and_then_Inr Let_def
      intro!: quiet_trans [OF quiet_trans [OF quiet_trans [OF quiet_steps(1) quiet_steps(3)] quiet_steps(4)] quiet_steps(2)])

lemma quiet_view_fault:
  assumes "view_fault va eip code pte s = Inr s'"
  shows "quiet s s'"
proof -
  obtain st obj where m: "MapHandle s (FileDescriptorNumber (Ptes s pte)) = (st, obj)"
    by (cases "MapHandle s (FileDescriptorNumber (Ptes s pte))")
  with assms obtain f where st: "SUCCESS st" "MappedFiles s obj = Some f" by (auto simp: view_fault_def split: if_splits option.splits)
  with assms m obtain s1 where s1: "acquire (ViewListLock obj) s = Inr s1" by (auto simp: view_fault_def and_then_Inr)
  with assms m st obtain v es where v: "find_view va (ViewList f) = Some v" "CacheMap f = Some es"
    by (auto simp: view_fault_def split: option.splits)
  with assms m st s1 obtain s2 where s2: "acquire (CacheMapLock obj) s1 = Inr s2" by (auto simp: view_fault_def and_then_Inr)
  with assms m st s1 v obtain b where b: "find_cached (page_of_view va v) es = Some b" by (auto simp: view_fault_def split: option.splits)
  with assms m st s1 v s2 obtain s3 where "map_cached_page va pte v f b s2 = Inr s3"
    "s' = release (ViewListLock obj) (release (CacheMapLock obj) s3)"
    by (auto simp: view_fault_def and_then_Inr)
  with s1 s2 show ?thesis
    by (auto intro!: quiet_trans [OF quiet_trans [OF quiet_trans [OF quiet_steps(1) quiet_steps(1)] quiet_map_cached]
        quiet_trans [OF quiet_steps(2) quiet_steps(2)]])
qed

lemma fault_consistent:
  assumes c: "pages_consistent s"
    and f: "PteType (Ptes s (MiGetPteAddress va)) = PTE_TYPE_TRIMMED \<Longrightarrow> unowned s (PageFrameNumber (Ptes s (MiGetPteAddress va)))"
    and t: "MmAccessFault va eip code s = Inr s'"
  shows "pages_consistent s'"
proof (cases "PteType (Ptes s (MiGetPteAddress va)) = PTE_TYPE_TRIMMED")
  case True
  let ?pte = "MiGetPteAddress va"
  let ?f = "PageFrameNumber (Ptes s ?pte)"
  from t True obtain s1 s2 s3 g where s1: "acquire PpdLock s = Inr s1" and s2: "acquire PageDatabaseLock s1 = Inr s2"
    and s3: "MiChangePageLocation (MmPfnPpd s2 ?f) ActiveAndValid (upd_pte ?pte g s2) = Inr s3"
    and s': "s' = MmInvalidateTlb va (release PpdLock (release PageDatabaseLock s3))"
    by (auto simp: MmAccessFault_def and_then_Inr Let_def split: if_splits)
  have q: "quiet s (upd_pte ?pte g s2)"
    by (rule quiet_trans [OF quiet_trans [OF quiet_steps(1) [OF s1] quiet_steps(1) [OF s2]] quiet_steps(3)])
  have e: "MmPfnPpd (upd_pte ?pte g s2) = MmPfnPpd s2" by (simp add: upd_pte_def MmPfnPpd_def fun_eq_iff)
  have "MiChangePageLocation (MmPfnPpd (upd_pte ?pte g s2) ?f) ActiveAndValid (upd_pte ?pte g s2) = Inr s3" unfolding e by (rule s3)
  with change_consistent [OF quiet_consistent [OF q c]] f [OF True] have "pages_consistent s3" by (simp add: quiet_unowned [OF q])
  from quiet_consistent [OF quiet_trans [OF quiet_trans [OF quiet_steps(2) quiet_steps(2)] quiet_steps(4)] this]
  show ?thesis unfolding s' .
next
  case False
  with t have "view_fault va eip code (MiGetPteAddress va) s = Inr s'"
    by (auto simp: MmAccessFault_def Let_def split: if_splits)
  from quiet_consistent [OF quiet_view_fault [OF this] c] show ?thesis .
qed

lemma quiet_init_view: "quiet s (init_view_loop n pte h prot s)"
proof (induction n arbitrary: pte s)
  case (Suc n)
  from quiet_trans [OF quiet_steps(3) Suc.IH] show ?case by simp
qed simp

lemma quiet_reserve_view: "quiet s (reserve_view n pte s)"
proof (induction n arbitrary: pte s)
  case (Suc n)
  from quiet_trans [OF quiet_trans [OF quiet_steps(6) quiet_steps(3)] Suc.IH] show ?case by simp
qed simp

lemma quiet_find_reserve: "MiFindAndReserveVirtualAddressesForFileView start mode n s = Inr (st, va, s') \<Longrightarrow> quiet s s'"
  by (auto simp: MiFindAndReserveVirtualAddressesForFileView_def and_then_Inr quiet_reserve_view split: if_splits option.splits bool.splits)

lemma quiet_map_view:
  assumes "MmMapViewOfFile h off n prot start s = Inr (st, va, s')"
  shows "quiet s s'"
proof -
  obtain st0 obj where m: "MapHandle s h = (st0, obj)" by (cases "MapHandle s h")
  show ?thesis
  proof (cases "s' = s")
    case False
    with assms obtain f :: mapped_file and s0 st1 va1 s1 where s0: "acquire PageDatabaseLock s = Inr s0"
      and r: "MiFindAndReserveVirtualAddressesForFileView start (TargetMode f) (ALIGN_UP n PAGE_SIZE div PAGE_SIZE) s0 = Inr (st1, va1, s1)"
      and k: "quiet s1 s'"
    proof -
      obtain f where f: "SUCCESS st0" "\<not> GoingAway s obj" "MappedFiles s obj = Some f" "\<not> StrongestProtection f < prot" using assms False
        by (auto simp: MmMapViewOfFile_def m split: if_splits option.splits)
      from assms f obtain s0 st1 va1 s1 where s0: "acquire PageDatabaseLock s = Inr s0"
        and r: "MiFindAndReserveVirtualAddressesForFileView start (TargetMode f) (ALIGN_UP n PAGE_SIZE div PAGE_SIZE) s0 = Inr (st1, va1, s1)"
        by (auto simp: MmMapViewOfFile_def m Let_def and_then_Inr)
      from assms f s0 r have "quiet s1 s'"
        by (auto simp: MmMapViewOfFile_def m Let_def and_then_Inr heap_alloc_def acquire_def MiInitializeViewPages_def split: if_splits
          intro!: quiet_trans [OF _ quiet_steps(2)] quiet_trans [OF _ quiet_init_view] quiet_steps(2))
         (simp_all add: quiet_def allocated_def release_def fun_eq_iff)
      with s0 r show thesis by (rule that)
    qed
    from quiet_trans [OF quiet_trans [OF quiet_steps(1) [OF s0] quiet_find_reserve [OF r]] k] show ?thesis .
  qed simp
qed

text \<open>\<open>MmAllocateMemory\<close> gives the descriptor back and keeps its pages in use; \<open>MmFreeMemory\<close> makes a new descriptor of them.\<close>

lemma allocate_memory_consistent:
  assumes c: "pages_consistent s" and h: "heap_gives s" "Mmds s (mmd_block s) = None"
    and n: "0 < unat (drop_bit PAGE_SHIFT (ALIGN_UP n PAGE_SIZE))" "unat (drop_bit PAGE_SHIFT (ALIGN_UP n PAGE_SIZE)) < 2 ^ 20"
    and a: "MmAllocateMemory n s = Inr (v, s')"
  shows "pages_consistent s'"
proof -
  from a obtain status m s1 where s1: "MmAllocatePhysicalPages (drop_bit PAGE_SHIFT (ALIGN_UP n PAGE_SIZE)) s = Inr (status, m, s1)"
    by (auto simp: MmAllocateMemory_def and_then_Inr Let_def)
  note c1 = allocate_consistent [OF c h n s1]
  show ?thesis
  proof (cases "SUCCESS status")
    case False
    with a s1 c1 show ?thesis by (simp add: MmAllocateMemory_def Let_def)
  next
    case True
    with c1 obtain pfns where p: "allocated s1 m = Some pfns" by blast
    from True a s1 obtain ptr s2 where s2: "MmMapLockedPages m KernelMode False False s1 = Inr (ptr, s2)" and s3: "free_mmd_block m s2 = Inr s'"
      by (auto simp: MmAllocateMemory_def and_then_Inr Let_def)
    from free_block_consistent [OF map_locked_consistent [OF c1 [THEN conjunct1] p s2] s3] show ?thesis .
  qed
qed

definition frames_at :: "mm \<Rightarrow> u32 \<Rightarrow> u32 \<Rightarrow> u32 list" where
  "frames_at s va n = map (\<lambda>i. PageFrameNumber (Ptes s (MiGetPteAddress (ALIGN_DOWN va PAGE_SIZE) + of_nat (4 * i)))) [0..<unat (ALLOC_PAGE_COUNT n)]"

lemma free_memory_consistent:
  assumes c: "pages_consistent s" and m: "Mmds s (array_block s) = None"
    and d: "distinct (frames_at s va n)" and u: "\<forall>f\<in>set (frames_at s va n). unowned s f" and i: "in_use s (frames_at s va n)"
    and a: "MmFreeMemory va n s = Inr s'"
  shows "pages_consistent s'"
proof -
  let ?m = "array_block s" and ?fs = "frames_at s va n"
  define e where "e = \<lparr>Flags = MDL_ALLOCATED OR MDL_MAPPED, BaseVirtual = ALIGN_DOWN va PAGE_SIZE, MappedVirtual = 0,
    Offset = va mod PAGE_SIZE, PfnList = ?fs\<rparr>"
  define s3 where "s3 = s\<lparr>HeapAllocs := HeapAllocs s + 1, HeapBlocks := insert ?m (HeapBlocks s), Mmds := (Mmds s)(?m \<mapsto> e)\<rparr>"
  from a obtain s4 s5 where s4: "MmUnmapLockedPages ?m s3 = Inr s4" and s5: "MmFreePhysicalPages ?m s4 = Inr s5" and s': "MmFreeMmd ?m s5 = Inr s'"
    by (auto simp: MmFreeMemory_def MmAllocateMmd_def heap_alloc_def Let_def and_then_Inr MmBuildMmdForNonpagedSpace_def array_block_def
        the_mmd_def upd_mmd_def e_def s3_def frames_at_def split: if_splits)
  have al: "allocated s3 = (allocated s)(?m \<mapsto> ?fs)"
    by (auto simp: allocated_def s3_def e_def mdl_flags fun_eq_iff)
  have fields: "valid_frame s3 = valid_frame s" "MmPfnPpd s3 = MmPfnPpd s" "Ppds s3 = Ppds s"
    by (simp_all add: s3_def valid_frame_def MmPfnPpd_def fun_eq_iff)
  have o: "owns_ok s" using c by (simp add: pages_consistent_def)
  have "owns_ok s3"
    by (rule owns_ok_change [OF o, of ?m]) (use owns_okD(2) [OF o] d u i in \<open>auto simp: al fields unowned_def in_use_def\<close>)
  with c have c3: "pages_consistent s3" by (auto simp: pages_consistent_def s3_def mm_sized_def)
  have c4: "pages_consistent s4" by (rule unmap_locked_consistent [OF c3 s4])
  have "quiet s3 s4" using s4 by (auto simp: MmUnmapLockedPages_def and_then_Inr other_flags intro!: quiet_trans [OF quiet_unmap allocated_upd_mmd])
  then have "allocated s4 ?m = Some ?fs" by (simp add: quiet_allocated al)
  from free_mmd_consistent [OF release_consistent [OF c4 this s5, THEN conjunct1] s'] show ?thesis .
qed

text \<open>
  The steps of callers, of the zero page thread and of the processor (a page fault). Pages are mapped while they
  are in use; pages are given back, reserved or trimmed by address only when no descriptor has allocated them; the
  heap gives a block that is not a live descriptor.
\<close>

inductive mm_step :: "mm \<Rightarrow> mm \<Rightarrow> bool" where
  step_allocate: "heap_gives s \<Longrightarrow> Mmds s (mmd_block s) = None \<Longrightarrow> 0 < unat count \<Longrightarrow> unat count < 2 ^ 20 \<Longrightarrow>
    MmAllocatePhysicalPages count s = Inr (status, m, s') \<Longrightarrow> mm_step s s'"
| step_free: "allocated s m = Some pfns \<Longrightarrow> MmFreePhysicalPages m s = Inr s' \<Longrightarrow> mm_step s s'"
| step_free_mmd: "MmFreeMmd m s = Inr s' \<Longrightarrow> mm_step s s'"
| step_allocate_memory: "heap_gives s \<Longrightarrow> Mmds s (mmd_block s) = None \<Longrightarrow>
    0 < unat (drop_bit PAGE_SHIFT (ALIGN_UP n PAGE_SIZE)) \<Longrightarrow> unat (drop_bit PAGE_SHIFT (ALIGN_UP n PAGE_SIZE)) < 2 ^ 20 \<Longrightarrow>
    MmAllocateMemory n s = Inr (v, s') \<Longrightarrow> mm_step s s'"
| step_free_memory: "Mmds s (array_block s) = None \<Longrightarrow> distinct (frames_at s va n) \<Longrightarrow> \<forall>f\<in>set (frames_at s va n). unowned s f \<Longrightarrow>
    in_use s (frames_at s va n) \<Longrightarrow> MmFreeMemory va n s = Inr s' \<Longrightarrow> mm_step s s'"
| step_allocate_mmd: "Mmds s (array_block s) = None \<Longrightarrow> MmAllocateMmd va n s = Inr (m, s') \<Longrightarrow> mm_step s s'"
| step_build: "allocated s m = None \<Longrightarrow> MmBuildMmdForNonpagedSpace m s = Inr s' \<Longrightarrow> mm_step s s'"
| step_lock: "allocated s m = None \<Longrightarrow> MmLockPages m s = Inr s' \<Longrightarrow> mm_step s s'"
| step_unlock: "MmUnlockPages m s = Inr s' \<Longrightarrow> mm_step s s'"
| step_map: "Mmds s m = Some d \<Longrightarrow> in_use s (PfnList d) \<Longrightarrow> MmMapLockedPages m mode isimage addws s = Inr (v, s') \<Longrightarrow> mm_step s s'"
| step_unmap_mmd: "MmUnmapLockedPages m s = Inr s' \<Longrightarrow> mm_step s s'"
| step_map_range: "in_use s (frames_from phys count) \<Longrightarrow>
    MmMapPhysicalPagesInRange lo hi phys count addws mode s = Inr (v, s') \<Longrightarrow> mm_step s s'"
| step_map_physical: "MiMapPhysicalPages va phys count s = Inr s' \<Longrightarrow> mm_step s s'"
| step_unmap: "MiUnmapPhysicalPages va count s = Inr s' \<Longrightarrow> mm_step s s'"
| step_reserve: "\<forall>f\<in>set (reserved_frames lo hi). unowned s f \<Longrightarrow> MmReservePhysicalAddressRange lo hi s = Inr s' \<Longrightarrow> mm_step s s'"
| step_trim: "unowned s (PageFrameNumber (Ptes s (MiGetPteAddress va))) \<Longrightarrow> MmTrimPage va s = Inr s' \<Longrightarrow> mm_step s s'"
| step_fault: "(PteType (Ptes s (MiGetPteAddress va)) = PTE_TYPE_TRIMMED \<longrightarrow> unowned s (PageFrameNumber (Ptes s (MiGetPteAddress va)))) \<Longrightarrow>
    MmAccessFault va eip code s = Inr s' \<Longrightarrow> mm_step s s'"
| step_view: "MmMapViewOfFile h off n prot start s = Inr (st, va, s') \<Longrightarrow> mm_step s s'"
| step_zero: "zero_round s = Inr s' \<Longrightarrow> mm_step s s'"

inductive mm_run :: "mm \<Rightarrow> mm \<Rightarrow> bool" for s0 where
  run_start: "mm_run s0 s0"
| run_step: "mm_run s0 s \<Longrightarrow> mm_step s s' \<Longrightarrow> mm_run s0 s'"

lemma step_consistent:
  assumes "mm_step s s'" and c: "pages_consistent s"
  shows "pages_consistent s'"
  using assms(1)
proof cases
  case step_allocate
  then show ?thesis using allocate_consistent [OF c] by blast
next
  case step_free
  then show ?thesis using release_consistent [OF c] by blast
next
  case step_map
  then show ?thesis using map_mmd_consistent [OF c] by blast
next
  case step_reserve
  then show ?thesis using reserve_consistent [OF c] by blast
qed (auto intro: c free_mmd_consistent [OF c] allocate_memory_consistent [OF c] free_memory_consistent [OF c] unlock_consistent [OF c]
    unmap_locked_consistent [OF c] trim_consistent [OF c] fault_consistent [OF c] zero_round_consistent [OF c]
    quiet_consistent [OF _ c] quiet_allocate_mmd quiet_build quiet_lock_pages quiet_map_range quiet_map_physical quiet_unmap quiet_map_view)

lemma run_consistent: "mm_run s0 s \<Longrightarrow> pages_consistent s0 \<Longrightarrow> pages_consistent s"
  by (induction rule: mm_run.induct) (auto intro: step_consistent)

subsection \<open>Start-up\<close>

definition base_fields :: "mm \<Rightarrow> mm \<Rightarrow> bool" where
  "base_fields s s' \<longleftrightarrow> MmPpdDatabase s' = MmPpdDatabase s \<and> PhysicalMemoryPages s' = PhysicalMemoryPages s
     \<and> PageLists s' = PageLists s \<and> Mmds s' = Mmds s \<and> HeapAlloc s' = HeapAlloc s \<and> HeapAllocs s' = HeapAllocs s
     \<and> HeapBlocks s' = HeapBlocks s \<and> LockTrace s' = LockTrace s"

lemma base_fields_pfn: "base_fields s s' \<Longrightarrow> MmPfnPpd s' = MmPfnPpd s"
  by (simp add: base_fields_def MmPfnPpd_def fun_eq_iff)

lemma init_active_fold:
  assumes "mm_sized s" "b \<le> 2 ^ 20"
  shows "base_fields s (fold init_active [0..<b] s)
    \<and> (\<forall>i<b. PageLocation (Ppds (fold init_active [0..<b] s) (MmPfnPpd s (of_nat i))) = ActiveAndValid)
    \<and> (\<forall>q. (\<forall>i<b. q \<noteq> MmPfnPpd s (of_nat i)) \<longrightarrow> Ppds (fold init_active [0..<b] s) q = Ppds s q)"
  using assms(2)
proof (induction b)
  case (Suc b)
  then have IH: "base_fields s (fold init_active [0..<b] s)"
    "\<And>i. i < b \<Longrightarrow> PageLocation (Ppds (fold init_active [0..<b] s) (MmPfnPpd s (of_nat i))) = ActiveAndValid"
    "\<And>q. (\<And>i. i < b \<Longrightarrow> q \<noteq> MmPfnPpd s (of_nat i)) \<Longrightarrow> Ppds (fold init_active [0..<b] s) q = Ppds s q" by simp_all
  note p = base_fields_pfn [OF IH(1)]
  have eq: "fold init_active [0..<Suc b] s = init_active b (fold init_active [0..<b] s)" by simp
  show ?case unfolding eq using IH
    by (auto simp: init_active_def Let_def upd_ppd_def p base_fields_def less_Suc_eq)
qed (simp add: base_fields_def)

lemma Ppds_init_zeroed:
  "Ppds (init_zeroed b t) = (Ppds t)(MmPfnPpd t (of_nat b) := (Ppds t (MmPfnPpd t (of_nat b)))
      \<lparr>PageLocation := ZeroedPageList, ShareCount := 0,
       U2 := (if InitialPageCount < b then MmPfnPpd t (of_nat (b - 1)) else U2 (Ppds t (MmPfnPpd t (of_nat b)))),
       U1 := (if of_nat b = PhysicalMemoryPages t - 1 then 0 else MmPfnPpd t (of_nat (b + 1)))\<rparr>)"
  by (simp add: init_zeroed_def Let_def upd_ppd_def)

lemma init_zeroed_fold:
  assumes sz: "mm_sized s" and "a \<le> b" "b \<le> unat (PhysicalMemoryPages s)" and a: "a = InitialPageCount"
  defines "t \<equiv> fold init_zeroed [a..<b] s"
  shows "base_fields s t
    \<and> (\<forall>i. a \<le> i \<longrightarrow> i < b \<longrightarrow> PageLocation (Ppds t (MmPfnPpd s (of_nat i))) = ZeroedPageList
        \<and> U2 (Ppds t (MmPfnPpd s (of_nat i))) = (if a < i then MmPfnPpd s (of_nat (i - 1)) else U2 (Ppds s (MmPfnPpd s (of_nat i))))
        \<and> U1 (Ppds t (MmPfnPpd s (of_nat i))) = (if of_nat i = PhysicalMemoryPages s - 1 then 0 else MmPfnPpd s (of_nat (i + 1))))
    \<and> (\<forall>q. (\<forall>i. a \<le> i \<longrightarrow> i < b \<longrightarrow> q \<noteq> MmPfnPpd s (of_nat i)) \<longrightarrow> Ppds t q = Ppds s q)"
  using assms(2,3) unfolding t_def
proof (induction b rule: dec_induct)
  case base
  then show ?case by (simp add: base_fields_def)
next
  case (step b)
  let ?t = "fold init_zeroed [a..<b] s"
  from step have IH: "base_fields s ?t"
    "\<And>i. a \<le> i \<Longrightarrow> i < b \<Longrightarrow> PageLocation (Ppds ?t (MmPfnPpd s (of_nat i))) = ZeroedPageList
        \<and> U2 (Ppds ?t (MmPfnPpd s (of_nat i))) = (if a < i then MmPfnPpd s (of_nat (i - 1)) else U2 (Ppds s (MmPfnPpd s (of_nat i))))
        \<and> U1 (Ppds ?t (MmPfnPpd s (of_nat i))) = (if of_nat i = PhysicalMemoryPages s - 1 then 0 else MmPfnPpd s (of_nat (i + 1)))"
    "\<And>q. (\<And>i. a \<le> i \<Longrightarrow> i < b \<Longrightarrow> q \<noteq> MmPfnPpd s (of_nat i)) \<Longrightarrow> Ppds ?t q = Ppds s q" by simp_all
  note p = base_fields_pfn [OF IH(1)]
  have ne: "MmPfnPpd s (of_nat i) \<noteq> MmPfnPpd s (of_nat b)" if "i < b" for i
    using MmPfnPpd_inj [OF sz, of i b] that step.prems sz by (auto simp: mm_sized_def)
  have old: "Ppds ?t (MmPfnPpd s (of_nat b)) = Ppds s (MmPfnPpd s (of_nat b))" by (rule IH(3)) (use ne in metis)
  have eq: "fold init_zeroed [a..<Suc b] s = init_zeroed b ?t" using step.hyps(1) by simp
  have phys: "PhysicalMemoryPages ?t = PhysicalMemoryPages s" using IH(1) by (simp add: base_fields_def)
  have Q: "Ppds (init_zeroed b ?t) = (Ppds ?t)(MmPfnPpd s (of_nat b) := (Ppds s (MmPfnPpd s (of_nat b)))
      \<lparr>PageLocation := ZeroedPageList, ShareCount := 0,
       U2 := (if a < b then MmPfnPpd s (of_nat (b - 1)) else U2 (Ppds s (MmPfnPpd s (of_nat b)))),
       U1 := (if of_nat b = PhysicalMemoryPages s - 1 then 0 else MmPfnPpd s (of_nat (b + 1)))\<rparr>)"
    unfolding Ppds_init_zeroed p old a [symmetric] phys ..
  have "base_fields s (init_zeroed b ?t)" using IH(1) by (simp add: init_zeroed_def Let_def upd_ppd_def base_fields_def)
  then show ?case unfolding eq Q using IH(2,3) ne step.hyps(1) by (auto simp: less_Suc_eq)
qed

lemma seg_of_range:
  assumes "a \<le> n" "prev = (if a = lo then 0 else f (a - 1))" "lo \<le> a"
    and "\<And>i. a \<le> i \<Longrightarrow> i < n \<Longrightarrow> f i \<noteq> 0 \<and> U2 (P (f i)) = (if lo < i then f (i - 1) else 0) \<and> U1 (P (f i)) = (if i = n - 1 then 0 else f (i + 1))"
  shows "\<exists>z. seg P prev (if a = n then 0 else f a) (map f [a..<n]) z 0"
  using assms
proof (induction a arbitrary: prev rule: inc_induct)
  case (step a)
  have "\<exists>z. seg P (f a) (if Suc a = n then 0 else f (Suc a)) (map f [Suc a..<n]) z 0"
    by (rule step.IH) (use step.prems step.hyps in auto)
  with step.prems(3) [of a] step.prems(1,2) step.hyps show ?case
    by (auto simp: upt_conv_Cons split: if_splits)
qed simp

text \<open>After start-up the pages from 0x3000 on are zeroed, in their order, when the back link of the first is NULL.\<close>

lemma init_page_lists:
  assumes sz: "mm_sized s" and n: "InitialPageCount \<le> unat (PhysicalMemoryPages s)"
    and empty: "PageLists s = (\<lambda>_. 0)" and first: "U2 (Ppds s (MmPfnPpd s (of_nat InitialPageCount))) = 0"
  shows "page_lists (init_ppds s) (\<lambda>k. if k = ZeroedPageList
    then map (\<lambda>i. MmPfnPpd s (of_nat i)) [InitialPageCount..<unat (PhysicalMemoryPages s)] else [])"
    and "mm_sized (init_ppds s)" and "Mmds (init_ppds s) = Mmds s"
    and "heap_gives (init_ppds s) = heap_gives s" and "mmd_block (init_ppds s) = mmd_block s" and "LockTrace (init_ppds s) = LockTrace s"
    and "PhysicalMemoryPages (init_ppds s) = PhysicalMemoryPages s" and "MmGetPpdPfn (init_ppds s) = MmGetPpdPfn s"
proof -
  let ?a = InitialPageCount and ?n = "unat (PhysicalMemoryPages s)" and ?f = "\<lambda>i. MmPfnPpd s (of_nat i)"
  define s1 where "s1 = fold init_active [0..<?a] s"
  define s2 where "s2 = s1\<lparr>PageLists := (PageLists s1)(ZeroedPageList := (if PhysicalMemoryPages s = of_nat ?a then 0 else MmPfnPpd s (of_nat ?a)))\<rparr>"
  have n20: "?n \<le> 2 ^ 20" using sz by (simp add: mm_sized_def)
  have a20: "?a \<le> 2 ^ 20" by (simp add: InitialPageCount_def)
  note A = init_active_fold [OF sz a20, folded s1_def]
  note p1 = base_fields_pfn [OF A [THEN conjunct1]]
  have b1: "PhysicalMemoryPages s1 = PhysicalMemoryPages s" "MmPpdDatabase s1 = MmPpdDatabase s" "PageLists s1 = PageLists s" "Mmds s1 = Mmds s"
    using A by (simp_all add: base_fields_def)
  have b2: "PhysicalMemoryPages s2 = PhysicalMemoryPages s" "MmPfnPpd s2 = MmPfnPpd s" "Ppds s2 = Ppds s1"
    "mm_sized s2" using sz b1 p1 by (simp_all add: s2_def mm_sized_def MmPfnPpd_def fun_eq_iff)
  have i: "init_ppds s = fold init_zeroed [?a..<?n] s2" by (simp only: init_ppds_def Let_def s1_def [symmetric] s2_def [symmetric] b2)
  note Z = init_zeroed_fold [OF b2(4), of ?a ?n, folded i, unfolded b2] n
  have Zb: "base_fields s2 (init_ppds s)" using Z by simp
  have ne: "?f i \<noteq> ?f j" if "i < j" "j < ?n" for i j using MmPfnPpd_inj [OF sz, of i j] that n20 by auto
  have nn: "?f i \<noteq> 0" if "i < ?n" for i using MmPfnPpd_unat [OF sz, of i] that n20 by auto
  have first1: "U2 (Ppds s1 (?f ?a)) = 0" if "?a < ?n"
  proof -
    have "\<forall>i<?a. ?f ?a \<noteq> ?f i" using ne [OF _ that] by metis
    with A have "Ppds s1 (?f ?a) = Ppds s (?f ?a)" by blast
    with first show ?thesis by simp
  qed
  have last: "(of_nat i = PhysicalMemoryPages s - 1) = (i = ?n - 1)" if "?a \<le> i" "i < ?n" for i
    using that n20 by (auto simp: word_unat_eq_iff unat_minus_one)
  have head: "PageLists s2 ZeroedPageList = (if ?a = ?n then 0 else ?f ?a)"
    using n20 by (auto simp: s2_def b1 p1 word_unat_eq_iff InitialPageCount_def)
  have "\<exists>z. seg (Ppds (init_ppds s)) 0 (if ?a = ?n then 0 else ?f ?a) (map ?f [?a..<?n]) z 0"
    by (rule seg_of_range [OF n, of _ ?a]) (use Z nn first1 last in auto)
  moreover have "distinct (map ?f [?a..<?n])"
  proof -
    have "inj_on ?f {..<?n}" by (rule inj_onI) (metis ne lessThan_iff linorder_neqE_nat)
    then have "inj_on ?f (set [?a..<?n])" by (rule inj_on_subset) auto
    then show ?thesis by (simp add: distinct_map)
  qed
  moreover have "PageLists (init_ppds s) = (\<lambda>k. if k = ZeroedPageList then (if ?a = ?n then 0 else ?f ?a) else 0)"
    using Zb head empty b1 by (auto simp: base_fields_def s2_def fun_eq_iff)
  ultimately have fam: "family (Ppds (init_ppds s)) (PageLists (init_ppds s)) (\<lambda>k. if k = ZeroedPageList then map ?f [?a..<?n] else [])"
    by (auto simp: family_def)
  show sized: "mm_sized (init_ppds s)" and "Mmds (init_ppds s) = Mmds s"
    and "heap_gives (init_ppds s) = heap_gives s" and "mmd_block (init_ppds s) = mmd_block s" and "LockTrace (init_ppds s) = LockTrace s"
    and "PhysicalMemoryPages (init_ppds s) = PhysicalMemoryPages s" and "MmGetPpdPfn (init_ppds s) = MmGetPpdPfn s"
    using Zb b2 b1 A by (simp_all add: base_fields_def mm_sized_def s2_def heap_gives_def array_block_def mmd_block_def MmGetPpdPfn_def fun_eq_iff)
  have all: "all_ppds (init_ppds s) = ?f ` {..<?n}"
    using Zb b2 base_fields_pfn [OF Zb] by (simp add: all_ppds_def base_fields_def)
  have loc: "PageLocation (Ppds (init_ppds s) (?f i)) = (if i < ?a then ActiveAndValid else ZeroedPageList)" if "i < ?n" for i
  proof (cases "i < ?a")
    case True
    then have "Ppds (init_ppds s) (?f i) = Ppds s1 (?f i)" using Z ne by auto
    with True A show ?thesis by simp
  qed (use Z that in auto)
  have z: "set (map ?f [?a..<?n]) = {p \<in> ?f ` {..<?n}. PageLocation (Ppds (init_ppds s) p) = ZeroedPageList}"
    using loc by (auto simp: image_iff split: if_splits)
  have other: "{p \<in> ?f ` {..<?n}. PageLocation (Ppds (init_ppds s) p) = k} = {}" if "k < ActiveAndValid" "k \<noteq> ZeroedPageList" for k
    using loc that by (auto split: if_splits)
  show "page_lists (init_ppds s) (\<lambda>k. if k = ZeroedPageList then map ?f [?a..<?n] else [])"
    unfolding page_lists_def all
  proof (intro conjI allI impI fam)
    fix k assume k: "k < ActiveAndValid"
    show "set (if k = ZeroedPageList then map ?f [?a..<?n] else []) = {p \<in> ?f ` {..<?n}. PageLocation (Ppds (init_ppds s) p) = k}"
    proof (cases "k = ZeroedPageList")
      case True
      then show ?thesis unfolding True using z by (simp only: refl if_True)
    next
      case False
      then show ?thesis using other [OF k False] by (simp only: if_False list.set(1))
    qed
  qed
qed

lemma init_consistent:
  assumes "mm_sized s" "InitialPageCount \<le> unat (PhysicalMemoryPages s)" "PageLists s = (\<lambda>_. 0)"
    "U2 (Ppds s (MmPfnPpd s (of_nat InitialPageCount))) = 0" "Mmds s = (\<lambda>_. None)"
  shows "pages_consistent (init_ppds s)"
proof -
  have "allocated (init_ppds s) = (\<lambda>_. None)" using init_page_lists(3) [OF assms(1-4)] assms(5) by (auto simp: allocated_def fun_eq_iff)
  then show ?thesis using init_page_lists(1,2) [OF assms(1-4)] by (auto simp: pages_consistent_def owns_ok_def)
qed

text \<open>
  The whole start-up, for a memory map with no run of ACPI data (its mapping, which \<open>MmInitSystemPhase1\<close> makes after the page
  database, counts mappings in descriptors of pages that are in lists) and with reserved runs that end below the end of memory.
\<close>

definition plain_run :: "u32 \<Rightarrow> u32 \<times> u32 \<times> u32 \<Rightarrow> bool" where
  "plain_run n run = (case run of (base, len, kind) \<Rightarrow> kind \<noteq> 3 \<and>
     (kind = 2 \<and> 0x00100000 \<le> base \<and> base < push_bit PAGE_SHIFT n \<longrightarrow> (\<forall>f\<in>set (reserved_frames base (base + len)). unat f < unat n)))"

lemma valid_frame_eqD:
  assumes "valid_frame s' = valid_frame s"
  shows "PhysicalMemoryPages s' = PhysicalMemoryPages s"
proof -
  have "(x < PhysicalMemoryPages s') = (x < PhysicalMemoryPages s)" for x
    using fun_cong [OF assms, of x] by (simp add: valid_frame_def word_less_nat_alt)
  then show ?thesis by (metis linorder_neqE less_irrefl)
qed

lemma runs_consistent:
  "init_runs rs s = Inr t \<Longrightarrow> pages_consistent s \<Longrightarrow> allocated s = (\<lambda>_. None) \<Longrightarrow> list_all (plain_run (PhysicalMemoryPages s)) rs
    \<Longrightarrow> pages_consistent t"
proof (induction rs arbitrary: s)
  case (Cons r rs)
  obtain base len kind where r: "r = (base, len, kind)" by (cases r)
  from Cons.prems(1) obtain s1 where s1: "init_run r s = Inr s1" and t: "init_runs rs s1 = Inr t" by (auto simp: and_then_Inr)
  from Cons.prems(4) have p: "plain_run (PhysicalMemoryPages s) (base, len, kind)" "list_all (plain_run (PhysicalMemoryPages s)) rs" by (simp_all add: r)
  have "pages_consistent s1 \<and> allocated s1 = allocated s \<and> valid_frame s1 = valid_frame s"
  proof (cases "kind = 2 \<and> \<not> base < 0x00100000 \<and> base < push_bit PAGE_SHIFT (PhysicalMemoryPages s)")
    case True
    with p(1) have "\<forall>f\<in>set (reserved_frames base (base + len)). unowned s f"
      using Cons.prems(3) by (auto simp: plain_run_def unowned_def valid_frame_def)
    moreover have "MmReservePhysicalAddressRange base (base + len) s = Inr s1" using s1 True by (simp add: r init_run_def)
    ultimately show ?thesis using reserve_consistent [OF Cons.prems(2)] by blast
  next
    case False
    with s1 p(1) Cons.prems(2) show ?thesis by (auto simp: r init_run_def plain_run_def split: if_splits)
  qed
  with Cons.IH [OF t] Cons.prems(3) p(2) valid_frame_eqD [of s1 s] show ?case by simp
qed simp

lemma map_pages_frame:
  "base_fields s (map_pages_loop n pte va pfn s) \<and> Ppds (map_pages_loop n pte va pfn s) = Ppds s"
  by (induction n arbitrary: pte va pfn s) (simp_all add: upd_pte_def MmInvalidateTlb_def MiWriteValidKernelPte_def base_fields_def)

lemma start_consistent:
  assumes n: "InitialPageCount \<le> unat (PhysicalMemoryPages s)" "unat (PhysicalMemoryPages s) \<le> 2 ^ 20"
    and e: "PageLists s = (\<lambda>_. 0)" "Mmds s = (\<lambda>_. None)"
    and u: "U2 (Ppds s (MM_PPD_START + 12 * of_nat InitialPageCount)) = 0"
    and r: "list_all (plain_run (PhysicalMemoryPages s)) runs" and t: "MmInitSystemPhase1 runs s = Inr t"
  shows "pages_consistent t"
proof -
  from t obtain s1 where s1: "MiMapPhysicalPages MM_PPD_START MM_PPD_START_PHYS ((PhysicalMemoryPages s * 12) div PAGE_SIZE) (s\<lparr>LockTrace := []\<rparr>) = Inr s1"
    by (auto simp: MmInitSystemPhase1_def and_then_Inr)
  then have f: "PhysicalMemoryPages s1 = PhysicalMemoryPages s" "PageLists s1 = PageLists s" "Ppds s1 = Ppds s" "Mmds s1 = Mmds s"
    using map_pages_frame by (auto simp: MiMapPhysicalPages_def acquire_def release_def Let_def base_fields_def)
  from t s1 obtain s2 where s2: "init_runs runs (init_ppds s2) = Inr t" "PhysicalMemoryPages s2 = PhysicalMemoryPages s"
      "PageLists s2 = PageLists s" "Ppds s2 = Ppds s" "Mmds s2 = Mmds s" "MmPpdDatabase s2 = MM_PPD_START"
    by (auto simp: MmInitSystemPhase1_def and_then_Inr heap_alloc_def Let_def f split: if_splits)
  have z: "mm_sized s2" "InitialPageCount \<le> unat (PhysicalMemoryPages s2)" "PageLists s2 = (\<lambda>_. 0)"
    "U2 (Ppds s2 (MmPfnPpd s2 (of_nat InitialPageCount))) = 0" "Mmds s2 = (\<lambda>_. None)"
    using n e u s2 by (simp_all add: mm_sized_def MmPfnPpd_def)
  have m: "Mmds (init_ppds s2) = (\<lambda>_. None)" and "PhysicalMemoryPages (init_ppds s2) = PhysicalMemoryPages s"
    using init_page_lists(3,7) [OF z(1-4)] z(5) s2(2) by simp_all
  moreover have "allocated (init_ppds s2) = (\<lambda>_. None)" by (simp add: allocated_def fun_eq_iff m)
  ultimately show ?thesis using runs_consistent [OF s2(1) init_consistent [OF z]] r by simp
qed

end
