(* ===== verification/MmProps.thy ===== *)
theory MmProps
  imports MmHistory
begin

text \<open>
  What the memory manager does with physical pages, mappings and views, as properties, with examples that
  their hypotheses can hold.
\<close>

subsection \<open>An example\<close>

text \<open>Four pages: two are in use, two are in the list \<open>k\<close>. The address 0xFF001000 is mapped to page 1.\<close>

definition ex_ppd :: "page_location \<Rightarrow> u32 \<Rightarrow> ppd" where
  "ex_ppd k p =
     (if p = 0xC8000018 then \<lparr>U1 = 0xC8000024, U2 = 0, PageLocation = k, BelongsToSystemWorkingSet = False, PpdModified = False, ProcessorMode = 0, ShareCount = 0\<rparr>
      else if p = 0xC8000024 then \<lparr>U1 = 0, U2 = 0xC8000018, PageLocation = k, BelongsToSystemWorkingSet = False, PpdModified = False, ProcessorMode = 0, ShareCount = 0\<rparr>
      else \<lparr>U1 = (p - 0xC8000000) div 12, U2 = 0, PageLocation = ActiveAndValid, BelongsToSystemWorkingSet = True, PpdModified = False, ProcessorMode = 0, ShareCount = 1\<rparr>)"

definition ex_mm :: "page_location \<Rightarrow> mm" where
  "ex_mm k = \<lparr>Ptes = (\<lambda>p. if p = 0xC03FD004 then 0x1007 else 0), Ppds = ex_ppd k, PageLists = (\<lambda>j. if j = k then 0xC8000018 else 0),
     PhysicalMemoryPages = 4, MmPpdDatabase = 0xC8000000,
     WorkingSet = \<lparr>TotalPageCount = 2, WsPages = 0x5000, WsEntries =
       [\<lparr>PageDescriptor = 0xC8000000, Present = True, LockedInWs = True\<rparr>, \<lparr>PageDescriptor = 0xC800000C, Present = True, LockedInWs = True\<rparr>]\<rparr>,
     Mmds = (\<lambda>_. None), HeapAlloc = (\<lambda>n _. 0x6000 + 0x100 * of_nat n), HeapAllocs = 0, HeapBlocks = {0x5000},
     Frames = (\<lambda>_ _. 1), Tlb = (\<lambda>_. None), WildWrites = [], MapHandle = (\<lambda>h. (STATUS_SUCCESS, h)), GoingAway = (\<lambda>_. False),
     MappedFiles = (\<lambda>_. None), LockTrace = []\<rparr>"

definition ex_lists :: "page_location \<Rightarrow> page_location \<Rightarrow> u32 list" where
  "ex_lists k j = (if j = k then [0xC8000018, 0xC8000024] else [])"

lemma ex_all_ppds: "all_ppds (ex_mm k) = {0xC8000000, 0xC800000C, 0xC8000018, 0xC8000024}"
proof -
  have "{..<4 :: nat} = {0, 1, 2, 3}" by auto
  then show ?thesis by (simp add: all_ppds_def ex_mm_def MmPfnPpd_def)
qed

lemma ex_sized: "mm_sized (ex_mm k)"
  by (simp add: mm_sized_def ex_mm_def mm_areas)

lemma ex_page_lists: "k < ActiveAndValid \<Longrightarrow> page_lists (ex_mm k) (ex_lists k)"
  by (auto simp: page_lists_def family_def ex_all_ppds ex_lists_def listed_iff)
    (auto simp: ex_mm_def ex_ppd_def split: if_splits)

lemma ex_heap: "heap_gives (ex_mm k)"
  by (simp add: heap_gives_def array_block_def mmd_block_def ex_mm_def)

subsection \<open>Page lists\<close>

text \<open>C19: A change of location takes a page out of its list and puts it at the head of the list of its new location, if that is a list; the descriptors of the other pages in use stay as they are.\<close>

theorem change_location_moves:
  assumes "page_lists s L" and "mm_sized s" and "p \<in> all_ppds s" and "PageLocation (Ppds s p) \<noteq> new"
  shows "\<exists>s'. MiChangePageLocation p new s = Inr s'
    \<and> page_lists s' (moved p (PageLocation (Ppds s p)) new L)
    \<and> PageLocation (Ppds s' p) = new
    \<and> (\<forall>q. q \<noteq> p \<longrightarrow> PageLocation (Ppds s' q) = PageLocation (Ppds s q))
    \<and> (\<forall>q\<in>all_ppds s. q \<noteq> p \<longrightarrow> \<not> PageLocation (Ppds s q) < ActiveAndValid \<longrightarrow> Ppds s' q = Ppds s q)"
  by (rule change_location [OF assms]) auto

theorem change_location_moves_witness:
  "\<exists>s'. MiChangePageLocation 0xC8000018 FreePageList (ex_mm ZeroedPageList) = Inr s'
    \<and> page_lists s' (moved 0xC8000018 ZeroedPageList FreePageList (ex_lists ZeroedPageList))"
proof -
  have "0xC8000018 \<in> all_ppds (ex_mm ZeroedPageList)" "PageLocation (Ppds (ex_mm ZeroedPageList) 0xC8000018) = ZeroedPageList"
    by (simp_all add: ex_all_ppds) (simp add: ex_mm_def ex_ppd_def)
  with change_location_moves [OF ex_page_lists [OF listed_simps(1)] ex_sized, where p = "0xC8000018" and new = FreePageList] show ?thesis by auto
qed

text \<open>C17: A request for pages takes the first ones of the free list, then of the zeroed list, and describes them in a new memory descriptor; no other page is touched. When there are too few pages it takes all and reports a partial completion.\<close>

theorem allocation_takes_pages:
  assumes "page_lists s L" and "mm_sized s" and "heap_gives s" and "PpdLock \<notin> held (LockTrace s)"
    and "0 < unat count" and "unat count < 2 ^ 20" and "count \<le> PhysicalMemoryPages s"
  shows "\<exists>s'. MmAllocatePhysicalPages count s =
      Inr (if length (available L) < unat count then STATUS_PARTIAL_COMPLETION else STATUS_SUCCESS, mmd_block s, s')
    \<and> page_lists s' (without (unat count) L)
    \<and> relocated (set (take (unat count) (available L))) ActiveAndValid s s'
    \<and> Mmds s' = (Mmds s)(mmd_block s \<mapsto> \<lparr>Flags = MDL_ALLOCATED, BaseVirtual = 0, MappedVirtual = 0, Offset = 0,
         PfnList = map (MmGetPpdPfn s) (take (unat count) (available L))\<rparr>)
    \<and> WildWrites s' = WildWrites s"
  using allocate_pages [OF assms] by blast

theorem allocation_takes_pages_witness:
  "\<exists>s'. MmAllocatePhysicalPages 3 (ex_mm ZeroedPageList) = Inr (STATUS_PARTIAL_COMPLETION, 0x6100, s')
    \<and> page_lists s' (\<lambda>_. []) \<and> PageLocation (Ppds s' 0xC8000024) = ActiveAndValid"
proof -
  have "without 3 (ex_lists ZeroedPageList) = (\<lambda>_. [])" "available (ex_lists ZeroedPageList) = [0xC8000018, 0xC8000024]" "mmd_block (ex_mm ZeroedPageList) = 0x6100"
    by (auto simp: without_def ex_lists_def available_def mmd_block_def ex_mm_def)
  moreover have "PpdLock \<notin> held (LockTrace (ex_mm ZeroedPageList))" "(3 :: u32) \<le> PhysicalMemoryPages (ex_mm ZeroedPageList)" by (simp_all add: ex_mm_def)
  ultimately show ?thesis
    using allocation_takes_pages [OF ex_page_lists [OF listed_simps(1)] ex_sized ex_heap, of 3] by (auto simp: relocated_def)
qed

subsection \<open>Histories\<close>






text \<open>C36: One round of the zero page thread puts every free page on the zeroed list. When the processor does not yet
  remember a translation of the hyperspace page, and keeps the one that the first access gives it, only the first free
  page is cleared: every other one keeps its contents.\<close>

theorem zero_round_clears_one_page:
  assumes "page_lists s L" and "mm_sized s" and "PpdLock \<notin> held (LockTrace s)"
    and "Tlb s (ALIGN_DOWN MM_HYPERSPACE_START PAGE_SIZE) = None" and "L FreePageList = x # xs"
  shows "\<exists>s'. zero_round s = Inr s'
    \<and> (\<forall>p\<in>set (L FreePageList). PageLocation (Ppds s' p) = ZeroedPageList)
    \<and> Frames s' = (Frames s)(MmGetPpdPfn s x := (\<lambda>_. 0))
    \<and> (\<forall>y\<in>set xs. Frames s' (MmGetPpdPfn s y) = Frames s (MmGetPpdPfn s y))"
proof -
  let ?s0 = "s\<lparr>LockTrace := Acquired PpdLock # LockTrace s\<rparr>"
  have "page_lists ?s0 L" "mm_sized ?s0" using assms(1,2) by (simp_all add: mm_sized_def)
  from zero_loop_moves [OF this] obtain s1 where s1: "zero_loop (PageLists s FreePageList) ?s0 = Inr s1"
    "relocated (set (L FreePageList)) ZeroedPageList ?s0 s1" "Frames s1 = (Frames s)(MmGetPpdPfn s x := (\<lambda>_. 0))"
    using assms(4,5) by (auto simp: cleared_frame_def MmGetPpdPfn_def)
  have "MmGetPpdPfn s y \<noteq> MmGetPpdPfn s x" if "y \<in> set xs" for y
  proof -
    have "x \<noteq> y" using page_lists_distinct [OF assms(1), of FreePageList] assms(5) that by auto
    moreover have "x \<in> all_ppds s" "y \<in> all_ppds s" using page_lists_mem [OF assms(1), of FreePageList] assms(5) that by auto
    ultimately show ?thesis using MmGetPpdPfn_inj [OF assms(2)] by metis
  qed
  with s1 assms(3) show ?thesis by (auto simp: zero_round_def acquire_def release_def relocated_def)
qed

theorem zero_round_clears_one_page_witness:
  "\<exists>s'. zero_round (ex_mm FreePageList) = Inr s' \<and> PageLocation (Ppds s' 0xC8000024) = ZeroedPageList
    \<and> Frames s' 2 = (\<lambda>_. 0) \<and> Frames s' 3 = (\<lambda>_. 1)"
  using zero_round_clears_one_page [OF ex_page_lists [OF listed_simps(2)] ex_sized, of "0xC8000018" "[0xC8000024]"]
  by (auto simp: ex_lists_def) (auto simp: ex_mm_def MmGetPpdPfn_def)

subsection \<open>Mappings\<close>

lemma Ptes_change: "MiChangePageLocation p new s = Inr s' \<Longrightarrow> Ptes s' = Ptes s \<and> MmPpdDatabase s' = MmPpdDatabase s \<and> Mmds s' = Mmds s"
  by (auto simp: MiChangePageLocation_def MiUnlinkPpd_def MiLinkPpd_def and_then_Inr Let_def upd_ppd_def split: if_splits)

lemma MiGetPteAddress_page: "MiGetPteAddress (ALIGN_DOWN va PAGE_SIZE) = MiGetPteAddress va"
proof -
  have "drop_bit 22 (ALIGN_DOWN va PAGE_SIZE) = drop_bit 22 va" "drop_bit 10 (ALIGN_DOWN va PAGE_SIZE) AND 0xFFC = drop_bit 10 va AND 0xFFC"
  proof -
    have a: "ALIGN_DOWN va PAGE_SIZE = va AND NOT (mask 12)" by (simp add: ALIGN_DOWN_def PAGE_SIZE_def mask_eq_exp_minus_1)
    show "drop_bit 22 (ALIGN_DOWN va PAGE_SIZE) = drop_bit 22 va" unfolding a by (rule bit_word_eqI) (auto simp: bit_simps dest: bit_u32_lt)
    have f: "(0xFFC :: u32) = push_bit 2 (mask 10)" by (simp add: mask_eq_exp_minus_1 push_bit_eq_mult)
    show "drop_bit 10 (ALIGN_DOWN va PAGE_SIZE) AND 0xFFC = drop_bit 10 va AND 0xFFC" unfolding a f by (rule bit_word_eqI) (auto simp: bit_simps)
  qed
  then show ?thesis by (simp add: MiGetPteAddress_def)
qed

lemma unmap_one:
  assumes "MiUnmapPhysicalPages va 1 s = Inr s'"
  shows "Ptes s' = (Ptes s)(MiGetPteAddress va := 0) \<and> Mmds s' = Mmds s \<and> MmPpdDatabase s' = MmPpdDatabase s"
  using assms
  by (auto simp: MiUnmapPhysicalPages_def and_then_Inr acquire_def release_def Let_def MiGetPteAddress_page MiZeroPte_def upd_pte_def upd_ppd_def
      MiRemovePageFromWorkingSet_def ws_store_def MmInvalidateTlb_def split: if_splits)

lemma flags_cleared: "(((MDL_ALLOCATED OR MDL_MAPPED) AND NOT MDL_MAPPED) AND NOT MDL_ALLOCATED) = 0"
  by (simp add: mdl_flags)

text \<open>C35: A page that is given back stays mapped: the release unmaps the page at address 0 instead (its entry is the
  only one that changes, and becomes 0), and the frame goes to the free list while the entry of the released address is
  as it was.\<close>

theorem freed_page_stays_mapped:
  assumes "MmFreePage page s = Inr s'" and "MiGetPteAddress page \<noteq> MiGetPteAddress 0"
  shows "Ptes s' = (Ptes s)(MiGetPteAddress 0 := 0) \<and> Ptes s' (MiGetPteAddress page) = Ptes s (MiGetPteAddress page)
    \<and> PageLocation (Ppds s' (MmPfnPpd s (PageFrameNumber (Ptes s (MiGetPteAddress page))))) = FreePageList"
proof -
  let ?pte = "MiGetPteAddress page"
  have c: "unat (ALLOC_PAGE_COUNT PAGE_SIZE) = Suc 0" using ALLOC_PAGE_COUNT_pages [of 1] by simp
  define d where "d = \<lparr>Flags = MDL_ALLOCATED OR MDL_MAPPED, BaseVirtual = ALIGN_DOWN page PAGE_SIZE, MappedVirtual = 0,
    Offset = page mod PAGE_SIZE, PfnList = [PageFrameNumber (Ptes s ?pte)]\<rparr>"
  define m where "m = HeapAlloc s (HeapAllocs s) (HeapBlocks s)"
  define s3 where "s3 = s\<lparr>HeapAllocs := HeapAllocs s + 1, HeapBlocks := insert m (HeapBlocks s), Mmds := (Mmds s)(m \<mapsto> d)\<rparr>"
  have s3: "Ptes s3 = Ptes s" "MmPpdDatabase s3 = MmPpdDatabase s" "Mmds s3 m = Some d" by (simp_all add: s3_def)
  from assms(1) obtain s4 s5 where s4: "MmUnmapLockedPages m s3 = Inr s4" and s5: "MmFreePhysicalPages m s4 = Inr s5" and s': "MmFreeMmd m s5 = Inr s'"
    by (auto simp: MmFreePage_def MmFreeMemory_def MmAllocateMmd_def heap_alloc_def Let_def and_then_Inr MmBuildMmdForNonpagedSpace_def
        the_mmd_def upd_mmd_def c MiGetPteAddress_page d_def m_def s3_def split: if_splits)
  from s4 s3(3) obtain t where t: "MiUnmapPhysicalPages 0 1 s3 = Inr t" and
    s4': "s4 = upd_mmd m (\<lambda>d. d\<lparr>Flags := Flags d AND NOT MDL_MAPPED, MappedVirtual := 0\<rparr>) t"
    by (auto simp: MmUnmapLockedPages_def the_mmd_def and_then_Inr d_def)
  note u = unmap_one [OF t]
  have d4: "Mmds s4 m = Some (d\<lparr>Flags := (MDL_ALLOCATED OR MDL_MAPPED) AND NOT MDL_MAPPED, MappedVirtual := 0\<rparr>)"
    using u s3(3) by (simp add: s4' upd_mmd_def d_def)
  let ?p = "MmPfnPpd s (PageFrameNumber (Ptes s ?pte))"
  from s5 d4 obtain s6 s7 where s6: "acquire PpdLock s4 = Inr s6" and s7: "MiChangePageLocation ?p FreePageList s6 = Inr s7"
    and s5': "s5 = upd_mmd m (\<lambda>d. d\<lparr>Flags := Flags d AND NOT MDL_ALLOCATED\<rparr>) (release PpdLock s7)"
    using u s3 by (auto simp: MmFreePhysicalPages_def the_mmd_def and_then_Inr acquire_def d_def s4' upd_mmd_def MmPfnPpd_def split: if_splits)
  note c7 = Ptes_change [OF s7] PageLocation_change(2) [OF s7, of ?p]
  have eq: "Ptes s5 = Ptes s7" "Ppds s5 = Ppds s7" "Ptes s6 = Ptes s4" "Mmds s6 = Mmds s4" "Ptes s4 = Ptes t"
    using s6 by (auto simp: s5' s4' upd_mmd_def release_def acquire_def split: if_splits)
  have "\<exists>d. Mmds s5 m = Some d \<and> Flags d = 0"
    using d4 c7(1) eq(4) by (simp add: s5' upd_mmd_def release_def flags_cleared)
  with s' have "Ptes s' = Ptes s5 \<and> Ppds s' = Ppds s5"
    by (auto simp: MmFreeMmd_def if_flag_def the_mmd_def free_mmd_block_def heap_free_def and_then_Inr split: if_splits)
  with c7 eq u s3(1) assms(2) show ?thesis by simp
qed

theorem freed_page_stays_mapped_witness:
  "\<exists>s'. MmFreePage 0xFF001000 (ex_mm ZeroedPageList) = Inr s' \<and> Ptes s' 0xC03FD004 = 0x1007 \<and> Ptes s' 0xC0001000 = 0
    \<and> PageLocation (Ppds s' 0xC800000C) = FreePageList"
proof -
  have "\<not> isl (MmFreePage 0xFF001000 (ex_mm ZeroedPageList))"
    by (simp add: MmFreePage_def MmFreeMemory_def MmAllocateMmd_def heap_alloc_def Let_def ALLOC_PAGE_COUNT_def ALIGN_UP_def ALIGN_DOWN_def PAGE_SIZE_def
        MmBuildMmdForNonpagedSpace_def the_mmd_def upd_mmd_def MmUnmapLockedPages_def MiUnmapPhysicalPages_def acquire_def release_def
        MiGetPteAddress_def mm_areas MiZeroPte_def upd_pte_def upd_ppd_def MmPfnPpd_def PageFrameNumber_def get_field_def
        MiRemovePageFromWorkingSet_def ASSERT_def ws_store_def MmInvalidateTlb_def MmFreePhysicalPages_def MiChangePageLocation_def MiLinkPpd_def
        MmFreeMmd_def if_flag_def free_mmd_block_def heap_free_def mdl_flags ex_mm_def ex_ppd_def)
  then obtain s' where "MmFreePage 0xFF001000 (ex_mm ZeroedPageList) = Inr s'" by (cases "MmFreePage 0xFF001000 (ex_mm ZeroedPageList)") auto
  moreover have "MiGetPteAddress 0xFF001000 = 0xC03FD004" "MiGetPteAddress 0 = 0xC0001000" by (simp_all add: MiGetPteAddress_def mm_areas PAGE_SIZE_def)
  ultimately show ?thesis using freed_page_stays_mapped [of "0xFF001000" "ex_mm ZeroedPageList" s']
    by (simp add: ex_mm_def MmPfnPpd_def PageFrameNumber_def get_field_def)
qed

lemma add_ws_frame: "add_ws_loop n p s = Inr (i, s') \<Longrightarrow> Ptes s' = Ptes s"
proof (induction n arbitrary: s)
  case (Suc n)
  then show ?case
    by (auto simp: Let_def heap_realloc_def split: if_splits option.splits dest!: Suc.IH)
qed simp

lemma count_mapping_frame: "count_mapping line p pte addws mode s = Inr s' \<Longrightarrow> Ptes s' = Ptes s"
  by (auto simp: count_mapping_def and_then_Inr acquire_def release_def Let_def upd_ppd_def MiAddPageToWorkingSet_def
      split: if_splits dest!: add_ws_frame)

lemma range_free_first: "range_free s ptr count = MM_PTE_IS_FREE s ptr ptr"
  by (auto simp: range_free_def MM_PTE_IS_FREE_def list_all_iff)

lemma find_range_critical:
  assumes "MM_PTE_IS_FREE s (MiGetPteAddress MM_CRITICAL_AREA) (MiGetPteAddress MM_CRITICAL_AREA)"
  shows "find_range (pages_between (ALIGN_DOWN MM_CRITICAL_AREA PAGE_SIZE) (ALIGN_UP MM_CRITICAL_AREA_END PAGE_SIZE))
    (ALIGN_DOWN MM_CRITICAL_AREA PAGE_SIZE) count s = Some MM_CRITICAL_AREA"
proof -
  have a: "ALIGN_DOWN MM_CRITICAL_AREA PAGE_SIZE = MM_CRITICAL_AREA" by (simp add: ALIGN_DOWN_def mm_areas PAGE_SIZE_def)
  obtain n where "pages_between MM_CRITICAL_AREA (ALIGN_UP MM_CRITICAL_AREA_END PAGE_SIZE) = Suc n"
    by (cases "pages_between MM_CRITICAL_AREA (ALIGN_UP MM_CRITICAL_AREA_END PAGE_SIZE)")
      (simp_all add: pages_between_def ALIGN_UP_def ALIGN_DOWN_def mm_areas PAGE_SIZE_def PAGE_SHIFT_def)
  with assms show ?thesis unfolding a by (simp add: range_free_first)
qed

text \<open>C37: A mapping of two pages looks only at the first entry: when that is free, the entry of the next page is overwritten, whatever it maps.\<close>

theorem mapping_overwrites_neighbour:
  assumes "MmMapPhysicalPagesKernel phys 2 s = Inr (v, s')"
    and "MM_PTE_IS_FREE s (MiGetPteAddress MM_CRITICAL_AREA) (MiGetPteAddress MM_CRITICAL_AREA)"
  shows "v = MM_CRITICAL_AREA
    \<and> PageFrameNumber (Ptes s' (MiGetPteAddress (MM_CRITICAL_AREA + PAGE_SIZE))) = take_bit 20 (drop_bit PAGE_SHIFT phys + 1)"
proof -
  let ?p = "MiGetPteAddress MM_CRITICAL_AREA"
  have p: "MiGetPteAddress (MM_CRITICAL_AREA + PAGE_SIZE) = MiNextPte ?p" by (simp add: MiGetPteAddress_def MiNextPte_def mm_areas PAGE_SIZE_def)
  from assms(1) obtain s0 s1 where s0: "acquire PageDatabaseLock s = Inr s0" and
    l: "v = MM_CRITICAL_AREA" "map_phys_loop (unat (2 :: u32)) (drop_bit PAGE_SHIFT phys) ?p MM_CRITICAL_AREA False KernelMode s0 = Inr s1"
    "s' = release PageDatabaseLock s1"
  proof -
    have "MM_PTE_IS_FREE s0 ?p ?p" if "acquire PageDatabaseLock s = Inr s0" for s0
      using that assms(2) by (auto simp: acquire_def MM_PTE_IS_FREE_def split: if_splits)
    with assms(1) that show thesis
      by (auto simp: MmMapPhysicalPagesKernel_def MmMapPhysicalPagesInRange_def and_then_Inr Let_def find_range_critical)
  qed
  have two: "unat (2 :: u32) = Suc (Suc 0)" by simp
  from l(2) have "Ptes s1 (MiNextPte ?p) = set_PageFrameNumber (drop_bit PAGE_SHIFT phys + 1) 7"
    unfolding two
    by (auto simp: and_then_Inr Let_def MmInvalidateTlb_def upd_pte_def MiWriteValidKernelPte_def dest!: count_mapping_frame)
  then show ?thesis using l(1,3) by (auto simp: p release_def pte_fields)
qed


text \<open>C39: Unmapping a page that is in no working set stores before the array of the working set: its index is -1.\<close>

theorem unmap_writes_before_working_set:
  assumes "MmMapPhysicalPagesKernel phys 1 s = Inr (v, s1)" and "v \<noteq> 0" and "MiUnmapPhysicalPages v 1 s1 = Inr s2"
    and "ShareCount (Ppds s (MmPfnPpd s (take_bit 20 (drop_bit PAGE_SHIFT phys)))) = 0"
    and "length (WsEntries (WorkingSet s)) < 2 ^ 32"
  shows "WsPages (WorkingSet s) - 4 \<in> set (WildWrites s2)"
proof -
  from assms(1,2) obtain t where t: "Ptes s1 (MiGetPteAddress v) = set_PageFrameNumber (drop_bit PAGE_SHIFT phys) 7"
    "MmPpdDatabase s1 = MmPpdDatabase s" "WorkingSet s1 = WorkingSet s"
    "ShareCount (Ppds s1 (MmPfnPpd s (take_bit 20 (drop_bit PAGE_SHIFT phys)))) = 1"
    "U1 (Ppds s1 (MmPfnPpd s (take_bit 20 (drop_bit PAGE_SHIFT phys)))) = -1"
    using assms(4)
    by (auto simp: MmMapPhysicalPagesKernel_def MmMapPhysicalPagesInRange_def and_then_Inr Let_def count_mapping_def upd_pte_def upd_ppd_def
        MiWriteValidKernelPte_def acquire_def release_def MmInvalidateTlb_def MmPfnPpd_def pte_fields split: if_splits option.splits)
  have "unat (- 1 :: u32) \<ge> length (WsEntries (WorkingSet s))" using assms(5) by simp
  then show ?thesis using assms(3) t
    by (auto simp: MiUnmapPhysicalPages_def and_then_Inr Let_def acquire_def release_def MiGetPteAddress_page MmPfnPpd_def pte_fields
        MiZeroPte_def upd_pte_def upd_ppd_def MiRemovePageFromWorkingSet_def ws_store_def MmInvalidateTlb_def split: if_splits)
qed

lemma not_islD: "\<not> isl x \<Longrightarrow> \<exists>y. x = Inr y"
  by (cases x) auto

lemmas map_phys_two = map_phys_loop.simps(2) [of "Suc 0", unfolded map_phys_loop.simps(2) [of 0] map_phys_loop.simps(1), folded numeral_2_eq_2]

lemma ex_mapped: "\<not> isl (MmMapPhysicalPagesKernel 0 2 (ex_mm ZeroedPageList))"
proof -
  have f: "MM_PTE_IS_FREE ((ex_mm ZeroedPageList)\<lparr>LockTrace := [Acquired PageDatabaseLock]\<rparr>) (MiGetPteAddress MM_CRITICAL_AREA) (MiGetPteAddress MM_CRITICAL_AREA)"
    by (simp add: MM_PTE_IS_FREE_def ex_mm_def MiGetPteAddress_def mm_areas PAGE_SIZE_def pte_fields get_field_def pte_types)
  have l: "LockTrace (ex_mm ZeroedPageList) = []" by (simp add: ex_mm_def)
  have two: "unat (2 :: u32) = Suc (Suc 0)" by simp
  show ?thesis
    by (simp add: MmMapPhysicalPagesKernel_def MmMapPhysicalPagesInRange_def acquire_def l Let_def find_range_critical [OF f] two)
      (simp add: count_mapping_def acquire_def release_def l upd_pte_def upd_ppd_def MiWriteValidKernelPte_def MmPfnPpd_def pte_fields MmInvalidateTlb_def
        PAGE_SHIFT_def ex_mm_def ex_ppd_def Let_def map_phys_two)
qed

theorem mapping_overwrites_neighbour_witness:
  "\<exists>s'. MmMapPhysicalPagesKernel 0 2 (ex_mm ZeroedPageList) = Inr (0xFF000000, s')
    \<and> Valid (Ptes (ex_mm ZeroedPageList) (MiGetPteAddress 0xFF001000)) = 1
    \<and> PageFrameNumber (Ptes s' (MiGetPteAddress (0xFF000000 + 0x1000))) = 1"
proof -
  have f: "MM_PTE_IS_FREE (ex_mm ZeroedPageList) (MiGetPteAddress MM_CRITICAL_AREA) (MiGetPteAddress MM_CRITICAL_AREA)"
    by (simp add: MM_PTE_IS_FREE_def ex_mm_def MiGetPteAddress_def mm_areas PAGE_SIZE_def pte_fields get_field_def pte_types)
  obtain v s' where m: "MmMapPhysicalPagesKernel 0 2 (ex_mm ZeroedPageList) = Inr (v, s')"
    using ex_mapped by (cases "MmMapPhysicalPagesKernel 0 2 (ex_mm ZeroedPageList)") auto
  have "Valid (Ptes (ex_mm ZeroedPageList) (MiGetPteAddress 0xFF001000)) = 1"
    by (simp add: ex_mm_def MiGetPteAddress_def mm_areas PAGE_SIZE_def pte_fields get_field_def take_bit_eq_mod)
  with mapping_overwrites_neighbour [OF m f] m show ?thesis
    unfolding MM_CRITICAL_AREA_def PAGE_SIZE_def PAGE_SHIFT_def by simp
qed

text \<open>Page 1 after an allocation: in use, with no mapping yet.\<close>

definition ex_unmapped :: mm where
  "ex_unmapped = upd_ppd 0xC800000C (\<lambda>d. d\<lparr>ShareCount := 0\<rparr>) (ex_mm ZeroedPageList)"

theorem unmap_writes_before_working_set_witness:
  "\<exists>s1 s2. MmMapPhysicalPagesKernel 0x1000 1 ex_unmapped = Inr (0xFF000000, s1)
    \<and> MiUnmapPhysicalPages 0xFF000000 1 s1 = Inr s2 \<and> 0x4FFC \<in> set (WildWrites s2)"
proof -
  have f: "MM_PTE_IS_FREE (ex_unmapped\<lparr>LockTrace := [Acquired PageDatabaseLock]\<rparr>) (MiGetPteAddress MM_CRITICAL_AREA) (MiGetPteAddress MM_CRITICAL_AREA)"
    by (simp add: ex_unmapped_def upd_ppd_def MM_PTE_IS_FREE_def ex_mm_def MiGetPteAddress_def mm_areas PAGE_SIZE_def pte_fields get_field_def pte_types)
  have l: "LockTrace ex_unmapped = []" by (simp add: ex_unmapped_def upd_ppd_def ex_mm_def)
  have "\<not> isl (and_then (MmMapPhysicalPagesKernel 0x1000 1 ex_unmapped) (\<lambda>(v, s1). if v = 0xFF000000 then MiUnmapPhysicalPages v 1 s1 else Inl MmNull))"
    by (simp add: MmMapPhysicalPagesKernel_def MmMapPhysicalPagesInRange_def acquire_def l Let_def find_range_critical [OF f])
      (simp add: count_mapping_def acquire_def release_def upd_pte_def upd_ppd_def MiWriteValidKernelPte_def MmPfnPpd_def pte_fields MmInvalidateTlb_def
        PAGE_SHIFT_def ex_unmapped_def ex_mm_def ex_ppd_def Let_def MiUnmapPhysicalPages_def MiGetPteAddress_page MM_CRITICAL_AREA_def
        MiZeroPte_def MiRemovePageFromWorkingSet_def ws_store_def ASSERT_def)
  then obtain s2 where "and_then (MmMapPhysicalPagesKernel 0x1000 1 ex_unmapped) (\<lambda>(v, s1). if v = 0xFF000000 then MiUnmapPhysicalPages v 1 s1 else Inl MmNull) = Inr s2"
    using not_islD by blast
  then obtain s1 where m: "MmMapPhysicalPagesKernel 0x1000 1 ex_unmapped = Inr (0xFF000000, s1)" "MiUnmapPhysicalPages 0xFF000000 1 s1 = Inr s2"
    by (auto simp: and_then_Inr split: if_splits)
  have "ShareCount (Ppds ex_unmapped (MmPfnPpd ex_unmapped (take_bit 20 (drop_bit PAGE_SHIFT 0x1000)))) = 0"
    by (simp add: ex_unmapped_def upd_ppd_def MmPfnPpd_def ex_mm_def PAGE_SHIFT_def)
  with unmap_writes_before_working_set [OF m(1) _ m(2)] m show ?thesis
    by (auto simp: ex_unmapped_def upd_ppd_def ex_mm_def)
qed

subsection \<open>Views\<close>

lemma init_view_frame:
  "PteType (Ptes (init_view_loop n p h prot s) q) = PteType (Ptes s q) \<and> Valid (Ptes (init_view_loop n p h prot s) q) = Valid (Ptes s q)"
proof (induction n arbitrary: p s)
  case (Suc n)
  show ?case by (simp add: Suc.IH upd_pte_def) (simp add: pte_fields)
qed simp

lemma init_view_ptes: "Ptes s = Ptes t \<Longrightarrow> Ptes (init_view_loop n p h prot s) = Ptes (init_view_loop n p h prot t)"
  by (induction n arbitrary: p s t) (auto simp: upd_pte_def)

lemma init_view_exists: "Ptes t = Ptes s \<Longrightarrow> \<exists>n p v. Ptes (init_view_loop m q h w t) = Ptes (init_view_loop n p h v s)"
  using init_view_ptes by blast

lemma map_view_pages:
  assumes "MmMapViewOfFile h off vsize prot start s = Inr (STATUS_SUCCESS, va, s')"
  obtains f :: mapped_file and s0 s1 n p v where "acquire PageDatabaseLock s = Inr s0"
    and "MiFindAndReserveVirtualAddressesForFileView start (TargetMode f) (ALIGN_UP vsize PAGE_SIZE div PAGE_SIZE) s0 = Inr (STATUS_SUCCESS, va, s1)"
    and "Ptes s' = Ptes (init_view_loop n p h v s1)"
proof -
  obtain st0 obj where m: "MapHandle s h = (st0, obj)" by (cases "MapHandle s h")
  have go: "SUCCESS st0" "\<not> GoingAway s obj" using assms
    by (auto simp: MmMapViewOfFile_def m SUCCESS_def status_simps split: if_splits)
  obtain f where f: "MappedFiles s obj = Some f" using assms go
    by (cases "MappedFiles s obj") (auto simp: MmMapViewOfFile_def m)
  have prot: "\<not> StrongestProtection f < prot" using assms go
    by (auto simp: MmMapViewOfFile_def m f status_simps split: if_splits)
  obtain s0 where s0: "acquire PageDatabaseLock s = Inr s0" using assms go f prot
    by (cases "acquire PageDatabaseLock s") (auto simp: MmMapViewOfFile_def m)
  note r0 = assms [unfolded MmMapViewOfFile_def m, simplified Let_def prod.case go f prot s0 option.case if_True if_False not_not and_then_simps simp_thms]
  from r0 obtain st va' s1 where r1: "MiFindAndReserveVirtualAddressesForFileView start (TargetMode f) (ALIGN_UP vsize PAGE_SIZE div PAGE_SIZE) s0 = Inr (st, va', s1)"
    by (cases "MiFindAndReserveVirtualAddressesForFileView start (TargetMode f) (ALIGN_UP vsize PAGE_SIZE div PAGE_SIZE) s0") auto
  have ok: "SUCCESS st" using r0 by (auto simp: r1 SUCCESS_def status_simps split: if_splits)
  have st: "st = STATUS_SUCCESS" using r1 ok
    by (auto simp: MiFindAndReserveVirtualAddressesForFileView_def and_then_Inr SUCCESS_def status_simps split: if_splits option.splits bool.splits)
  obtain n p v where va: "va' = va" and pages: "Ptes s' = Ptes (init_view_loop n p h v s1)"
  proof -
    have "va' = va \<and> (\<exists>n p v. Ptes s' = Ptes (init_view_loop n p h v s1))" using r0
      by (auto simp: r1 ok heap_alloc_def and_then_Inr Let_def acquire_def release_def MiInitializeViewPages_def status_simps
        split: if_splits prod.splits intro!: init_view_exists)
    then show ?thesis using that by blast
  qed
  show ?thesis by (rule that [OF s0 r1 [unfolded st va] pages])
qed

text \<open>The check of a range that the caller has chosen passes only when every page of it is free.\<close>

lemma check_chosen_free:
  "check_chosen start (start + of_nat n * PAGE_SIZE) s = Some True \<Longrightarrow> unat start + n * 4096 < 2 ^ 32
    \<Longrightarrow> i < n \<Longrightarrow> page_free s (start + of_nat i * PAGE_SIZE)"
proof (induction n arbitrary: start i)
  case (Suc n)
  let ?e = "start + of_nat (Suc n) * PAGE_SIZE"
  have e: "?e = (start + PAGE_SIZE) + of_nat n * PAGE_SIZE" by (simp add: algebra_simps)
  have up: "unat (start + PAGE_SIZE) = unat start + 4096" using Suc.prems(2) by (simp add: PAGE_SIZE_def unat_word_ariths)
  have "unat ?e = unat start + Suc n * 4096" using Suc.prems(2) by (simp add: PAGE_SIZE_def unat_word_ariths)
  then have "start < ?e" by (simp add: word_less_nat_alt)
  with Suc.prems(1) have now: "page_free s start" and nxt: "check_chosen (start + PAGE_SIZE) ?e s = Some True"
    using check_chosen.simps [of start ?e s] by (simp_all split: if_splits)
  show ?case
  proof (cases i)
    case 0
    with now show ?thesis by simp
  next
    case (Suc j)
    have "page_free s (start + PAGE_SIZE + of_nat j * PAGE_SIZE)"
      by (rule Suc.IH) (use nxt e up Suc.prems Suc in \<open>simp_all add: algebra_simps\<close>)
    then show ?thesis by (simp add: Suc algebra_simps)
  qed
qed simp

lemma unat_ALIGN_DOWN: "unat (ALIGN_DOWN x PAGE_SIZE) = unat x div 4096 * 4096"
proof -
  have "ALIGN_DOWN x PAGE_SIZE = x AND NOT (mask 12)" by (simp add: ALIGN_DOWN_def PAGE_SIZE_def mask_eq_exp_minus_1)
  also have "\<dots> = push_bit 12 (drop_bit 12 x)" by (rule bit_word_eqI) (auto simp: bit_simps)
  finally have "ALIGN_DOWN x PAGE_SIZE = push_bit 12 (drop_bit 12 x)" .
  then have "ALIGN_DOWN x PAGE_SIZE = x div 4096 * 4096" by (simp add: push_bit_eq_mult drop_bit_eq_div)
  moreover have "unat x div 4096 * 4096 < 2 ^ 32" using unsigned_less [of x, where 'a = nat] div_times_less_eq_dividend [of "unat x" 4096] by simp
  ultimately show ?thesis by (simp add: unat_word_ariths unat_div)
qed

lemma same_page: "unat x div 4096 = unat y div 4096 \<Longrightarrow> MiGetPteAddress x = MiGetPteAddress y"
  by (metis MiGetPteAddress_page unat_ALIGN_DOWN word_unat_eq_iff)

lemma of_nat_unat_u32: "of_nat (unat w) = (w :: u32)"
  by simp

text \<open>C38: A view at an address that the caller has chosen, when it does not pass the end of the address space, is never
  backed: every access to one of its pages, from the page of the start on, ends in a bugcheck.\<close>

theorem chosen_view_is_not_backed:
  assumes "MmMapViewOfFile h off vsize prot start s = Inr (STATUS_SUCCESS, va, s')" and "start \<noteq> 0"
    and "unat start + unat (ALIGN_UP vsize PAGE_SIZE) < 2 ^ 32"
  shows "va = start \<and> (\<forall>a. ALIGN_DOWN start PAGE_SIZE \<le> a \<longrightarrow> a < ALIGN_DOWN start PAGE_SIZE + ALIGN_UP vsize PAGE_SIZE div PAGE_SIZE * PAGE_SIZE
    \<longrightarrow> MmAccessFault a eip code s' = fault_bugcheck a eip code)"
proof -
  let ?n = "unat (ALIGN_UP vsize PAGE_SIZE div PAGE_SIZE)"
  have n: "of_nat ?n = ALIGN_UP vsize PAGE_SIZE div PAGE_SIZE" "unat start + ?n * 4096 < 2 ^ 32"
    by (rule of_nat_unat_u32) (use assms(3) in \<open>simp add: unat_div PAGE_SIZE_def\<close>)
  obtain f :: mapped_file and s0 s1 k p v where s0: "acquire PageDatabaseLock s = Inr s0"
    and r: "MiFindAndReserveVirtualAddressesForFileView start (TargetMode f) (ALIGN_UP vsize PAGE_SIZE div PAGE_SIZE) s0 = Inr (STATUS_SUCCESS, va, s1)"
    and s': "Ptes s' = Ptes (init_view_loop k p h v s1)"
    using map_view_pages [OF assms(1)] by metis
  from r assms(2) have va: "va = start" "s1 = s0" and ch: "check_chosen start (start + of_nat ?n * PAGE_SIZE) s0 = Some True"
    unfolding n(1) by (auto simp: MiFindAndReserveVirtualAddressesForFileView_def and_then_Inr status_simps split: if_splits option.splits bool.splits)
  have "MmAccessFault a eip code s' = fault_bugcheck a eip code"
    if lo: "ALIGN_DOWN start PAGE_SIZE \<le> a" and hi: "a < ALIGN_DOWN start PAGE_SIZE + of_nat ?n * PAGE_SIZE" for a
  proof -
    have "unat (ALIGN_DOWN start PAGE_SIZE + of_nat ?n * PAGE_SIZE) = unat start div 4096 * 4096 + ?n * 4096"
    proof -
      have "unat (of_nat ?n * PAGE_SIZE) = ?n * 4096" using n(2) by (simp add: PAGE_SIZE_def unat_word_ariths)
      then show ?thesis using n(2) by (simp only: unat_word_ariths unat_ALIGN_DOWN) simp
    qed
    with lo hi have b: "unat start div 4096 * 4096 \<le> unat a" "unat a < unat start div 4096 * 4096 + ?n * 4096"
      by (simp_all only: word_le_nat_alt word_less_nat_alt unat_ALIGN_DOWN)
    define i where "i = unat a div 4096 - unat start div 4096"
    have i: "i < ?n" "unat a div 4096 = unat start div 4096 + i" using b by (auto simp: i_def)
    have "unat (start + of_nat i * PAGE_SIZE) = unat start + i * 4096" using i(1) n(2) by (simp add: PAGE_SIZE_def unat_word_ariths)
    then have pte: "MiGetPteAddress (start + of_nat i * PAGE_SIZE) = MiGetPteAddress a" by (intro same_page) (simp add: i(2))
    from check_chosen_free [OF ch n(2) i(1)]
    have "Valid (Ptes s0 (MiGetPteAddress a)) = 0" "PteType (Ptes s0 (MiGetPteAddress a)) = PTE_TYPE_NORMAL_OR_NOTMAPPED"
      by (auto simp: page_free_def MmIsAddressValidEx_def MiIsAddressValidEx_def Let_def pte split: if_splits)
    then show ?thesis by (simp add: va s' MmAccessFault_def Let_def init_view_frame pte_types)
  qed
  then show ?thesis by (simp add: va n(1))
qed

text \<open>The example with a file at handle 7, and a view of one page in the area of the drivers.\<close>

definition ex_file_mm :: mm where
  "ex_file_mm = (ex_mm ZeroedPageList)\<lparr>MappedFiles := (\<lambda>_. None)(7 \<mapsto>
     \<lparr>TargetMode = 1, StrongestProtection = 3, ViewList = [], CacheMap = None\<rparr>)\<rparr>"

lemma ex_file_view: "\<exists>s'. MmMapViewOfFile 7 (0, 0) 100 3 MM_DRIVER_AREA ex_file_mm = Inr (STATUS_SUCCESS, MM_DRIVER_AREA, s')"
proof -
  have free: "page_free s MM_DRIVER_AREA" if "Ptes s = Ptes (ex_mm ZeroedPageList)" for s
    using that by (simp add: page_free_def MmIsAddressValidEx_def MiIsAddressValidEx_def Let_def ex_mm_def MiGetPteAddress_def mm_areas pte_fields pte_types get_field_def PAGE_SIZE_def)
  have "check_chosen MM_DRIVER_AREA (MM_DRIVER_AREA + 1 * PAGE_SIZE) s = Some True" if "Ptes s = Ptes (ex_mm ZeroedPageList)" for s
    using free [OF that] check_chosen.simps [of MM_DRIVER_AREA "MM_DRIVER_AREA + 1 * PAGE_SIZE" s]
      check_chosen.simps [of "MM_DRIVER_AREA + PAGE_SIZE" "MM_DRIVER_AREA + 1 * PAGE_SIZE" s] by (simp add: mm_areas PAGE_SIZE_def)
  moreover have ex: "Ptes ex_file_mm = Ptes (ex_mm ZeroedPageList)" "MapHandle ex_file_mm 7 = (STATUS_SUCCESS, 7)" "\<not> GoingAway ex_file_mm 7"
      "MappedFiles ex_file_mm 7 = Some \<lparr>TargetMode = 1, StrongestProtection = 3, ViewList = [], CacheMap = None\<rparr>"
      "LockTrace ex_file_mm = []" "HeapAlloc ex_file_mm 0 B = 0x6000" "HeapAllocs ex_file_mm = 0" for B
    by (simp_all add: ex_file_mm_def) (simp_all add: ex_mm_def)
  ultimately have "MiFindAndReserveVirtualAddressesForFileView MM_DRIVER_AREA 1 1 (ex_file_mm\<lparr>LockTrace := [Acquired PageDatabaseLock]\<rparr>) =
      Inr (STATUS_SUCCESS, MM_DRIVER_AREA, ex_file_mm\<lparr>LockTrace := [Acquired PageDatabaseLock]\<rparr>)"
    by (simp add: MiFindAndReserveVirtualAddressesForFileView_def start_of_mode_def end_of_mode_def ASSERT_def)
      (simp add: mm_areas)
  moreover have "ALIGN_UP 100 PAGE_SIZE div PAGE_SIZE = 1" "SUCCESS STATUS_SUCCESS"
    by (simp_all add: ALIGN_UP_def ALIGN_DOWN_def PAGE_SIZE_def SUCCESS_def status_simps)
  ultimately show ?thesis
    by (simp add: MmMapViewOfFile_def ex acquire_def release_def heap_alloc_def Let_def)
qed

theorem chosen_view_is_not_backed_witness:
  "\<exists>s'. MmMapViewOfFile 7 (0, 0) 100 3 MM_DRIVER_AREA ex_file_mm = Inr (STATUS_SUCCESS, MM_DRIVER_AREA, s') \<and>
    MmAccessFault (MM_DRIVER_AREA + 99) 0 0 s' = fault_bugcheck (MM_DRIVER_AREA + 99) 0 0"
proof -
  obtain s' where r: "MmMapViewOfFile 7 (0, 0) 100 3 MM_DRIVER_AREA ex_file_mm = Inr (STATUS_SUCCESS, MM_DRIVER_AREA, s')"
    using ex_file_view by blast
  have "unat MM_DRIVER_AREA + unat (ALIGN_UP 100 PAGE_SIZE) < 2 ^ 32" "MM_DRIVER_AREA \<noteq> 0"
    "ALIGN_DOWN MM_DRIVER_AREA PAGE_SIZE \<le> MM_DRIVER_AREA + 99"
    "MM_DRIVER_AREA + 99 < ALIGN_DOWN MM_DRIVER_AREA PAGE_SIZE + ALIGN_UP 100 PAGE_SIZE div PAGE_SIZE * PAGE_SIZE"
    by (simp_all add: mm_areas ALIGN_UP_def ALIGN_DOWN_def PAGE_SIZE_def)
  then show ?thesis using chosen_view_is_not_backed [OF r] r by blast
qed

end
