(* ===== verification/Spec2Isabelle.thy ===== *)
theory Spec2Isabelle
  imports HeapProps ObHandles Sched Fat Hal Se FmtSpec IoFile CcFat MmProps
begin

text \<open>
  A verification library for gr8os, a small x86 kernel written in C++ (directory \<^verbatim>\<open>kernel/\<close>).

  \<^bold>\<open>The program.\<close> Interrupts and system calls enter through assembly stubs; the core is C++: a
  scheduler with ready and wait lists (\<^verbatim>\<open>ps.cpp\<close>, \<^verbatim>\<open>ps386.asm\<close>), events and mutexes on top of it
  (\<^verbatim>\<open>kernel.cpp\<close>, \<^verbatim>\<open>ex.cpp\<close>), a heap (\<^verbatim>\<open>ex.cpp\<close>), reference-counted named objects with handles
  (\<^verbatim>\<open>ob.cpp\<close>), access tokens (\<^verbatim>\<open>se.cpp\<close>), I/O requests and devices (\<^verbatim>\<open>io.cpp\<close>), DMA (\<^verbatim>\<open>hal.cpp\<close>), a
  FAT driver (\<^verbatim>\<open>builtin/fsfat\<close>) and a C runtime (\<^verbatim>\<open>runtime.cpp\<close>). Mutexes rest on the scheduler,
  objects and files on the heap, handles and links on objects, the FAT driver on the cache (\<^verbatim>\<open>cc.cpp\<close>) and the heap.

  \<^bold>\<open>The theories.\<close>
  \<^item> \<open>Prelude\<close>: machine words, status codes (\<^verbatim>\<open>inc/common.h\<close>), alignment, bugchecks, sequencing of
    operations that may stop. \<open>Bytes\<close>: byte-addressed memory that wraps around.
  \<^item> \<open>ListEntry\<close>: the doubly linked lists of \<^verbatim>\<open>inc/ke.h\<close> on an explicit memory of links, and the proof
    that they implement operations on lists; the other theories use the lists.
  \<^item> \<open>Sched\<close>: scheduler, events, mutexes, thread creation, end and delay. The state has the lists, the
    threads, the objects and the lock; an operation that spins, asserts or stops is a left value. A call is one step,
    since it runs with the lock taken and interrupts off, except \<open>PsExitThread\<close>, which gives both back before it
    swaps: it is two steps. The instructions of \<open>KeAcquireLock\<close> before \<^verbatim>\<open>cli\<close> are not a step; a quantum end
    between them spins, and this is proved of the state with the lock taken.
  \<^item> \<open>Allocator\<close>, \<open>ExHeap\<close>, \<open>HeapProps\<close>: the contract of an allocator and what its clients can rely on,
    the kernel heap with its headers, checksums and paddings as bytes of memory, and the proof that the
    heap meets the contract, finds overflows and double frees, and loses data in one case.
  \<^item> \<open>RefCount\<close>, \<open>Pool\<close>: the contracts of counted and of pooled resources. \<open>RefCount\<close> is interpreted on
    tokens (\<open>Se\<close>) and objects (\<open>ObHandles\<close>), \<open>Pool\<close> on DMA pages and channels (\<open>Hal\<close>), handles, drive
    letters and I/O requests.
  \<^item> \<open>Ob\<close>, \<open>ObNames\<close>, \<open>ObHandles\<close>: the object manager; the walk over names against a lookup on
    components, object names, handles, opening and closing, the life of an object.
  \<^item> \<open>Io\<close>, \<open>IoProps\<close>, \<open>IoReq\<close>, \<open>IoFile\<close>: the I/O manager on top of \<open>Ob\<close>: drive letters, device stacks,
    the life of I/O requests, reading and opening files.
  \<^item> \<open>Se\<close>: tokens, access check, inheritance. \<open>Hal\<close>: DMA channels, pages and requests.
  \<^item> \<open>RtlStr\<close>: the string functions on memory. \<open>RtlFmt\<close>, \<open>FmtSpec\<close>: formatted output and its
    specification, a text as a function of the directives and the arguments. \<open>Fat\<close>: the FAT driver: decoding of table entries,
    cluster chains, reads, names, open and close, the control block of a volume.
  \<^item> \<open>Cc\<close>, \<open>CcProps\<close>: the cache manager (\<^verbatim>\<open>cc.cpp\<close>) on the state of one file and its well-formed cache
    maps. \<open>CcRead\<close>: the contract \<open>clustered_file\<close> of the driver that reads clusters, and what reads through
    the cache deliver under it. \<open>CcFat\<close>: the FAT driver meets the contract, and \<^verbatim>\<open>FsFatRead\<close>.
  \<^item> \<open>Mm\<close>: the memory manager (\<^verbatim>\<open>mm.cpp\<close>): page table entries with their bit fields, page descriptors, page
    lists, memory descriptors, working set, trimming, page faults, views of files. \<open>MmLists\<close>: the linked
    page lists implement lists, and what the walks of an allocation do to them.
    \<open>MmHistory\<close>: histories of all operations of the manager, from \<open>MmInitSystemPhase1\<close> on (a memory map with ACPI runs
    is excluded: their mapping changes links of pages in lists). \<open>MmProps\<close>: properties and examples.

  \<^bold>\<open>What the lemmas show.\<close> Each theory has an invariant of its state that every operation keeps
  (\<open>Sched\<close>, \<open>ExHeap\<close>, \<open>Hal\<close>, \<open>ObHandles\<close>, \<open>CcProps\<close>, \<open>MmHistory\<close>), the behaviour of the operations on all branches, and the
  properties of histories of calls that follow from it, by rule induction. The numbered texts name the
  properties. Several of them state what the code does where it does not do what it means to: a mutex
  that admits two owners, a thread that is never woken, chains of clusters that never end, padding that
  overwrites data, a cached write that never reaches the device, a freed page that stays
  mapped.

  \<^bold>\<open>Bounds.\<close> Machine integers have their width everywhere. Loops over a list or an array are recursion
  on it; a loop that may not end is a \<open>partial_function\<close> whose value \<open>None\<close> is that it does not return
  (\<open>Fat\<close>, \<open>Hal\<close>, \<open>RtlStr\<close>, \<open>Cc\<close>). Bounds of the model are: 32 links in one path (\<open>MAX_LINKS\<close>; a longer chain
  is a value of its own, \<open>TooManyLinks\<close>, and the specification has it too), nesting of 8 delete routines
  (a link, a file, a device and a driver are 4), and 64 directories in an object name.

  \<^bold>\<open>Parameters.\<close> What is not code of the repository is an argument: the contents of the disk and which
  reads fail (\<open>Fat\<close>), the pointers that allocations give (\<open>Se\<close>, \<open>Fat\<close>, \<open>Ob\<close>, with the laws that
  \<open>HeapProps\<close> proves of the heap), the time-stamp counter, and in \<open>Io\<close> the routines of drivers, which
  the kernel reaches through tables of pointers, and the page allocator; in \<open>Cc\<close> the callbacks that read and
  write clusters, and the pages and heap blocks that allocations give (any function, which may refuse); in \<open>Mm\<close> the heap and the objects
  that handles stand for.

  \<^bold>\<open>Not modelled.\<close> Of the memory manager the module loader and the creation of mapping objects; of the FAT driver the
  mount request \<^verbatim>\<open>FsFatFsControl\<close> (drive letter, link and device around \<open>FsFatCreateVcb\<close>); the debugger and console, the drivers (port I/O), the start-up sequence and the boot loader; processes,
  stacks, DPCs and timers; the dump routines, which only print. The mutexes of objects, directories and of the I/O
  manager are taken as uncontended in \<open>Ob\<close> and \<open>Io\<close>: their behaviour is that of \<open>Sched\<close>.
\<close>

end
